(* ===== verification/Prelude.thy ===== *)
theory Prelude
  imports Main "HOL-Library.Word"
begin

text \<open>
  Shared vocabulary of the development: the machine integers of the C code, the two
  primitives that stand for \<open>memcpy\<close> on byte arrays, and generic lemmas on lists and
  words that several components use. The collection \<open>len_simps\<close> gathers the facts
  "this operation returns so many bytes/words"; \<open>backend_eq\<close> gathers the equations
  that replace an optimised routine by the portable one.
\<close>

unbundle bit_operations_syntax

type_synonym u8 = "8 word"
type_synonym u16 = "16 word"
type_synonym u32 = "32 word"
type_synonym u64 = "64 word"
type_synonym bytes = "8 word list"
type_synonym words = "32 word list"

named_theorems len_simps
named_theorems backend_eq

section \<open>Arrays written by memcpy\<close>

text \<open>
  \<open>buf_write a off src\<close> is \<open>memcpy(a + off, src, length src)\<close>. A write past the end
  makes the list longer, so a theorem that an array keeps its length is a theorem that no
  write leaves it. \<open>buf_read a off n\<close> is the source side of a \<open>memcpy\<close> of \<open>n\<close> bytes.
\<close>

definition buf_write :: "'a list \<Rightarrow> nat \<Rightarrow> 'a list \<Rightarrow> 'a list" where
  "buf_write a off src = take off a @ src @ drop (off + length src) a"

definition buf_read :: "'a list \<Rightarrow> nat \<Rightarrow> nat \<Rightarrow> 'a list" where
  "buf_read a off n = take n (drop off a)"

lemma length_buf_write [simp]:
  "off + length src \<le> length a \<Longrightarrow> length (buf_write a off src) = length a"
  by (simp add: buf_write_def)

lemma buf_write_nil [simp]: "buf_write a off [] = a"
  by (simp add: buf_write_def)

lemma buf_write_0: "buf_write a 0 src = src @ drop (length src) a"
  by (simp add: buf_write_def)

lemma take_buf_write_lt: "n \<le> off \<Longrightarrow> off \<le> length a \<Longrightarrow> take n (buf_write a off src) = take n a"
  by (simp add: buf_write_def min_def)

lemma take_buf_write_end:
  "off \<le> length a \<Longrightarrow> take (off + length src) (buf_write a off src) = take off a @ src"
  by (simp add: buf_write_def)

lemma length_buf_read [simp]: "off + n \<le> length a \<Longrightarrow> length (buf_read a off n) = n"
  by (simp add: buf_read_def)

section \<open>Lists of known length\<close>

lemma length4E:
  assumes "length xs = 4"
  obtains a b c d where "xs = [a, b, c, d]"
  using assms by (auto simp: length_Suc_conv numeral_eq_Suc)

lemma length8E:
  assumes "length xs = 8"
  obtains a b c d e f g h where "xs = [a, b, c, d, e, f, g, h]"
proof -
  from assms have "length (take 4 xs) = 4" and "length (drop 4 xs) = 4"
    by simp_all
  then obtain a b c d e f g h where "take 4 xs = [a, b, c, d]" and "drop 4 xs = [e, f, g, h]"
    by (metis length4E)
  then have "xs = [a, b, c, d, e, f, g, h]"
    by (metis append_Cons append_Nil append_take_drop_id)
  then show thesis by (rule that)
qed

lemma length16E:
  assumes "length xs = 16"
  obtains a b c d e f g h i j k l m n p q where
    "xs = [a, b, c, d, e, f, g, h, i, j, k, l, m, n, p, q]"
proof -
  from assms have "length (take 8 xs) = 8" and "length (drop 8 xs) = 8"
    by simp_all
  then obtain a b c d e f g h i j k l m n p q where
    "take 8 xs = [a, b, c, d, e, f, g, h]" and "drop 8 xs = [i, j, k, l, m, n, p, q]"
    by (metis length8E)
  then have "xs = [a, b, c, d, e, f, g, h, i, j, k, l, m, n, p, q]"
    by (metis append_Cons append_Nil append_take_drop_id)
  then show thesis by (rule that)
qed

lemma take_append_drop_eq: "n \<le> m \<Longrightarrow> take n xs @ take (m - n) (drop n xs) = take m xs"
  by (metis le_add_diff_inverse take_add)

lemma length_concat_const:
  "(\<And>x. x \<in> set xs \<Longrightarrow> length (f x) = n) \<Longrightarrow> length (concat (map f xs)) = n * length xs"
  by (induction xs) auto

section \<open>Words\<close>

lemma unat_of_nat_small: "n < 2 ^ LENGTH('a) \<Longrightarrow> unat (of_nat n :: 'a::len word) = n"
  by (simp add: unat_of_nat take_bit_nat_eq_self)

lemma u8_bit_beyond: "8 \<le> k \<Longrightarrow> \<not> bit (x :: u8) k"
  using bit_imp_le_length [of x k] by auto

lemma or_eq_xor_disjoint:
  fixes a b :: "'a::len word"
  assumes "a AND b = 0"
  shows "a XOR b = a OR b"
proof (rule bit_word_eqI)
  fix n assume "n < LENGTH('a)"
  have "\<not> (bit a n \<and> bit b n)"
    using assms by (metis bit_0_eq bit_and_iff bot_apply bot_bool_def)
  then show "bit (a XOR b) n = bit (a OR b) n"
    by (auto simp: bit_xor_iff bit_or_iff)
qed

text \<open>The byte a bit of a 64-bit word is in.\<close>

lemma byte_cases64:
  "n < 64 \<Longrightarrow> n < 8 \<or> (8 \<le> n \<and> n < 16) \<or> (16 \<le> n \<and> n < 24) \<or> (24 \<le> n \<and> n < 32) \<or>
    (32 \<le> n \<and> n < 40) \<or> (40 \<le> n \<and> n < 48) \<or> (48 \<le> n \<and> n < 56) \<or> (56 \<le> n \<and> n < (64 :: nat))"
  by linarith

lemma upt8: "[0..<8 :: nat] = [0, 1, 2, 3, 4, 5, 6, 7]"
  by (simp add: upt_rec)

end
