(* ===== verification/Impl.thy ===== *)
theory Impl
  imports Prelude
begin

text \<open>
  The definitions of \<open>c/blake3_impl.h\<close> and the size constants of \<open>c/blake3.h\<close>: domain
  flags, IV, message schedule, the bit helpers \<open>highest_one\<close>, \<open>popcnt\<close> and
  \<open>round_down_to_power_of_2\<close>, and the little-endian loads and stores. The compiler
  builtins \<open>__builtin_clzll\<close> and \<open>__builtin_popcountll\<close> are given by their documented
  meaning; the fallbacks the header has for other compilers are modelled beside them and
  proved equal.
\<close>

section \<open>Constants\<close>

definition BLAKE3_KEY_LEN :: nat where "BLAKE3_KEY_LEN = 32"
definition BLAKE3_OUT_LEN :: nat where "BLAKE3_OUT_LEN = 32"
definition BLAKE3_BLOCK_LEN :: nat where "BLAKE3_BLOCK_LEN = 64"
definition BLAKE3_CHUNK_LEN :: nat where "BLAKE3_CHUNK_LEN = 1024"
definition BLAKE3_MAX_DEPTH :: nat where "BLAKE3_MAX_DEPTH = 54"

lemmas blake3_consts = BLAKE3_KEY_LEN_def BLAKE3_OUT_LEN_def BLAKE3_BLOCK_LEN_def
  BLAKE3_CHUNK_LEN_def BLAKE3_MAX_DEPTH_def

definition CHUNK_START :: u8 where "CHUNK_START = push_bit 0 1"
definition CHUNK_END :: u8 where "CHUNK_END = push_bit 1 1"
definition PARENT :: u8 where "PARENT = push_bit 2 1"
definition ROOT :: u8 where "ROOT = push_bit 3 1"
definition KEYED_HASH :: u8 where "KEYED_HASH = push_bit 4 1"
definition DERIVE_KEY_CONTEXT :: u8 where "DERIVE_KEY_CONTEXT = push_bit 5 1"
definition DERIVE_KEY_MATERIAL :: u8 where "DERIVE_KEY_MATERIAL = push_bit 6 1"

lemmas flag_defs = CHUNK_START_def CHUNK_END_def PARENT_def ROOT_def KEYED_HASH_def
  DERIVE_KEY_CONTEXT_def DERIVE_KEY_MATERIAL_def

definition IV :: words where
  "IV = [0x6A09E667, 0xBB67AE85, 0x3C6EF372, 0xA54FF53A,
         0x510E527F, 0x9B05688C, 0x1F83D9AB, 0x5BE0CD19]"

definition MSG_SCHEDULE :: "nat list list" where
  "MSG_SCHEDULE =
    [[0, 1, 2, 3, 4, 5, 6, 7, 8, 9, 10, 11, 12, 13, 14, 15],
     [2, 6, 3, 10, 7, 0, 4, 13, 1, 11, 12, 5, 9, 14, 15, 8],
     [3, 4, 10, 12, 13, 2, 7, 14, 6, 5, 9, 0, 11, 15, 8, 1],
     [10, 7, 12, 9, 14, 3, 13, 15, 4, 0, 11, 2, 5, 8, 1, 6],
     [12, 13, 9, 11, 15, 10, 14, 8, 7, 2, 5, 3, 0, 1, 6, 4],
     [9, 14, 11, 5, 8, 12, 15, 1, 13, 3, 0, 10, 2, 6, 4, 7],
     [11, 15, 5, 0, 1, 9, 8, 6, 14, 10, 2, 12, 3, 4, 7, 13]]"

lemma length_IV [simp]: "length IV = 8"
  by (simp add: IV_def)

section \<open>Bit helpers\<close>

text \<open>\<open>__builtin_clzll(x)\<close>: the number of leading zero bits of a nonzero 64-bit value.\<close>

definition builtin_clzll :: "u64 \<Rightarrow> nat" where
  "builtin_clzll x = length (takeWhile (\<lambda>i. \<not> bit x i) (rev [0..<64]))"

text \<open>\<open>__builtin_popcountll(x)\<close>: the number of one bits.\<close>

definition builtin_popcountll :: "u64 \<Rightarrow> nat" where
  "builtin_popcountll x = length (filter (bit x) [0..<64])"

definition highest_one :: "u64 \<Rightarrow> nat" where
  "highest_one x = 63 XOR builtin_clzll x"

definition highest_one_fallback :: "u64 \<Rightarrow> nat" where
  "highest_one_fallback x =
    (let (x, c) = (x, 0);
         (x, c) = (if x AND 0xffffffff00000000 \<noteq> 0 then (drop_bit 32 x, c + 32) else (x, c));
         (x, c) = (if x AND 0x00000000ffff0000 \<noteq> 0 then (drop_bit 16 x, c + 16) else (x, c));
         (x, c) = (if x AND 0x000000000000ff00 \<noteq> 0 then (drop_bit 8 x, c + 8) else (x, c));
         (x, c) = (if x AND 0x00000000000000f0 \<noteq> 0 then (drop_bit 4 x, c + 4) else (x, c));
         (x, c) = (if x AND 0x000000000000000c \<noteq> 0 then (drop_bit 2 x, c + 2) else (x, c));
         (x, c) = (if x AND 0x0000000000000002 \<noteq> 0 then (x, c + 1) else (x, c))
     in c)"

definition popcnt :: "u64 \<Rightarrow> nat" where
  "popcnt x = builtin_popcountll x"

function popcnt_fallback_loop :: "u64 \<Rightarrow> nat \<Rightarrow> nat" where
  "popcnt_fallback_loop x count =
    (if x \<noteq> 0 then popcnt_fallback_loop (x AND (x - 1)) (count + 1) else count)"
  by pat_completeness auto
termination
proof (relation "measure (\<lambda>(x, count). unat x)")
  fix x :: u64 and count :: nat
  assume "x \<noteq> 0"
  have "x AND (x - 1) \<le> x - 1"
    by (simp add: word_and_le1)
  also have "x - 1 < x"
    using \<open>x \<noteq> 0\<close> by (metis measure_unat word_less_nat_alt)
  finally show "((x AND (x - 1), count + 1), x, count) \<in> measure (\<lambda>(x, count). unat x)"
    by (simp add: word_less_nat_alt)
qed simp

declare popcnt_fallback_loop.simps [simp del]

definition popcnt_fallback :: "u64 \<Rightarrow> nat" where
  "popcnt_fallback x = popcnt_fallback_loop x 0"

definition round_down_to_power_of_2 :: "u64 \<Rightarrow> u64" where
  "round_down_to_power_of_2 x = push_bit (highest_one (x OR 1)) 1"

definition counter_low :: "u64 \<Rightarrow> u32" where
  "counter_low counter = ucast counter"

definition counter_high :: "u64 \<Rightarrow> u32" where
  "counter_high counter = ucast (drop_bit 32 counter)"

subsection \<open>What the bit helpers compute\<close>

lemma xor63: "k \<le> 63 \<Longrightarrow> (63::nat) XOR k = 63 - k"
proof -
  have "list_all (\<lambda>k. (63::nat) XOR k = 63 - k) [0..<64]" by code_simp
  then show "k \<le> 63 \<Longrightarrow> (63::nat) XOR k = 63 - k" by (simp add: list_all_iff)
qed

lemma leading_zeros:
  assumes "bit x h" "h < n" "\<And>j. h < j \<Longrightarrow> j < n \<Longrightarrow> \<not> bit x j"
  shows "length (takeWhile (\<lambda>i. \<not> bit x i) (rev [0..<n])) = n - 1 - h"
  using assms
proof (induction n)
  case (Suc n)
  show ?case
  proof (cases "h = n")
    case True with Suc.prems show ?thesis by simp
  next
    case False
    with Suc show ?thesis by simp
  qed
qed simp

lemma highest_bit_exists:
  fixes x :: "'a::len word"
  assumes "x \<noteq> 0"
  obtains h where "bit x h" "h < LENGTH('a)" "\<And>j. h < j \<Longrightarrow> \<not> bit x j"
proof -
  let ?S = "{i. i < LENGTH('a) \<and> bit x i}"
  have "?S \<noteq> {}"
    using assms by (metis (mono_tags, lifting) bit_word_eqI bit_0_eq bot_apply bot_bool_def empty_Collect_eq)
  then have "Max ?S \<in> ?S" by (intro Max_in) auto
  moreover have "\<not> bit x j" if "Max ?S < j" for j
  proof
    assume "bit x j"
    then have "j \<in> ?S" using bit_imp_le_length by auto
    then have "j \<le> Max ?S" by (intro Max_ge) auto
    with that show False by simp
  qed
  ultimately show thesis using that [of "Max ?S"] by blast
qed

lemma highest_one_eqI:
  assumes "bit x h" "\<And>j. h < j \<Longrightarrow> \<not> bit x j"
  shows "highest_one x = h"
proof -
  have h: "h < 64" using bit_imp_le_length [OF assms(1)] by simp
  then have "builtin_clzll x = 63 - h"
    unfolding builtin_clzll_def using leading_zeros [of x h 64] assms by simp
  with h show ?thesis by (simp add: highest_one_def xor63)
qed

lemma bits_bound_iff:
  fixes x :: "'a::len word"
  shows "unat x < 2 ^ n \<longleftrightarrow> (\<forall>j\<ge>n. \<not> bit x j)"
proof -
  have "unat x < 2 ^ n \<longleftrightarrow> take_bit n (unat x) = unat x"
    by (metis take_bit_nat_eq_self_iff)
  also have "\<dots> \<longleftrightarrow> take_bit n x = x"
    by (metis unsigned_take_bit_eq word_unat_eq_iff)
  also have "\<dots> \<longleftrightarrow> (\<forall>j\<ge>n. \<not> bit x j)"
  proof
    assume "take_bit n x = x"
    then show "\<forall>j\<ge>n. \<not> bit x j" by (metis bit_take_bit_iff not_le)
  next
    assume "\<forall>j\<ge>n. \<not> bit x j"
    then show "take_bit n x = x"
      by (intro bit_word_eqI) (metis bit_take_bit_iff not_le)
  qed
  finally show ?thesis .
qed

lemma highest_one_bounds:
  assumes "x \<noteq> 0"
  shows "2 ^ highest_one x \<le> unat x" and "unat x < 2 ^ (highest_one x + 1)" and "highest_one x < 64"
proof -
  obtain h where h: "bit x h" "h < 64" "\<And>j. h < j \<Longrightarrow> \<not> bit x j"
    using highest_bit_exists [OF assms] by auto
  have e: "highest_one x = h" by (rule highest_one_eqI) (use h in auto)
  have "\<not> unat x < 2 ^ h" using h(1) by (auto simp: bits_bound_iff)
  moreover have "unat x < 2 ^ (h + 1)" unfolding bits_bound_iff using h(3) by auto
  ultimately show "2 ^ highest_one x \<le> unat x" and "unat x < 2 ^ (highest_one x + 1)" and "highest_one x < 64"
    using e h(2) by simp_all
qed

lemma log2_unique:
  fixes n :: nat
  assumes "2 ^ a \<le> n" "n < 2 ^ (a + 1)" "2 ^ b \<le> n" "n < 2 ^ (b + 1)"
  shows "a = b"
proof -
  have "(2::nat) ^ a < 2 ^ (b + 1)" "(2::nat) ^ b < 2 ^ (a + 1)" using assms by linarith+
  then show ?thesis by (metis add.commute le_antisym less_Suc_eq_le one_less_numeral_iff plus_1_eq_Suc power_less_imp_less_exp semiring_norm(76))
qed

lemma highest_one_unique:
  assumes "2 ^ h \<le> unat x" "unat x < 2 ^ (h + 1)"
  shows "highest_one x = h"
proof -
  have "x \<noteq> 0" using assms(1) by auto
  from highest_one_bounds [OF this] assms show ?thesis by (blast intro: log2_unique)
qed
lemma and_high_mask_iff:
  fixes x :: u64
  assumes "unat x < 2 ^ (2 * k)"
  shows "x AND push_bit k (mask k) \<noteq> 0 \<longleftrightarrow> 2 ^ k \<le> unat x"
proof -
  have "x AND push_bit k (mask k) = 0 \<longleftrightarrow> unat x < 2 ^ k"
    unfolding bits_bound_iff
  proof
    assume a: "x AND push_bit k (mask k) = 0"
    show "\<forall>j\<ge>k. \<not> bit x j"
    proof (intro allI impI)
      fix j assume "k \<le> j"
      have "\<not> bit (x AND push_bit k (mask k)) j" using a by simp
      then have n: "\<not> (bit x j \<and> j - k < k \<and> j < 64)"
        using \<open>k \<le> j\<close> by (auto simp: bit_simps)
      show "\<not> bit x j"
        using n assms[unfolded bits_bound_iff] \<open>k \<le> j\<close> bit_imp_le_length [of x j]
        by (cases "j < 2 * k") auto
    qed
  next
    assume "\<forall>j\<ge>k. \<not> bit x j"
    then show "x AND push_bit k (mask k) = 0"
      by (intro bit_word_eqI) (auto simp: bit_simps)
  qed
  then show ?thesis by auto
qed

lemma highest_one_drop:
  assumes "2 ^ k \<le> unat x"
  shows "highest_one x = highest_one (drop_bit k x) + k"
proof (rule highest_one_unique)
  have d: "unat (drop_bit k x) = unat x div 2 ^ k"
    by (metis unat_drop_bit_eq drop_bit_eq_div)
  have "unat (drop_bit k x) \<noteq> 0"
    using assms by (simp add: d div_greater_zero_iff)
  then have nz: "drop_bit k x \<noteq> 0" by auto
  have lo: "2 ^ highest_one (drop_bit k x) \<le> unat x div 2 ^ k"
    and hi: "unat x div 2 ^ k < 2 ^ (highest_one (drop_bit k x) + 1)"
    using highest_one_bounds [OF nz] by (simp_all add: d)
  show "2 ^ (highest_one (drop_bit k x) + k) \<le> unat x"
    using lo by (simp add: less_eq_div_iff_mult_less_eq power_add)
  show "unat x < 2 ^ (highest_one (drop_bit k x) + k + 1)"
    using hi by (simp add: div_less_iff_less_mult power_add mult.commute mult.left_commute)
qed

lemma popcount_clear_lowest:
  fixes x :: u64
  assumes "x \<noteq> 0"
  obtains l where "bit x l" "l < 64" "x AND (x - 1) = unset_bit l x"
proof -
  define l where "l = (LEAST i. bit x i)"
  obtain h where "bit x h" using highest_bit_exists [OF assms] by auto
  then have l: "bit x l" and least: "\<And>j. j < l \<Longrightarrow> \<not> bit x j"
    unfolding l_def by (auto intro: LeastI dest: not_less_Least)
  have l64: "l < 64" using bit_imp_le_length [OF l] by simp
  let ?y = "unset_bit l x"
  have "x = ?y OR push_bit l 1"
    by (rule bit_word_eqI) (use l in \<open>auto simp: bit_simps\<close>)
  also have "\<dots> = ?y + push_bit l 1"
    by (rule disjunctive_add_eq_or [symmetric]) (auto simp: bit_eq_iff bit_simps)
  finally have x: "x = ?y + push_bit l 1" .
  have "x - 1 = ?y + mask l"
    by (subst x) (simp add: mask_eq_exp_minus_1 push_bit_eq_mult)
  also have "\<dots> = ?y OR mask l"
    by (rule disjunctive_add_eq_or) (use least in \<open>auto simp: bit_eq_iff bit_simps\<close>)
  finally have x1: "x - 1 = ?y OR mask l" .
  have "x AND (x - 1) = ?y"
    unfolding x1 by (rule bit_word_eqI) (use least in \<open>auto simp: bit_simps\<close>)
  with l l64 show thesis by (rule that)
qed

lemma popcount_unset:
  assumes "bit x l" "l < n"
  shows "length (filter (bit x) [0..<n]) = Suc (length (filter (bit (unset_bit l x)) [0..<n]))"
  using assms
proof (induction n)
  case (Suc n)
  show ?case
  proof (cases "l = n")
    case True
    have "filter (bit (unset_bit n x)) [0..<n] = filter (bit x) [0..<n]"
      by (rule filter_cong) (auto simp: bit_simps)
    then have "length (filter (bit (unset_bit n x)) [0..<Suc n]) = length (filter (bit x) [0..<n])"
      
    proof -
      have "filter (bit (unset_bit n x)) [0..<Suc n] = filter (bit (unset_bit n x)) [0..<n]"
        by (simp add: bit_unset_bit_iff)
      then show ?thesis using \<open>filter (bit (unset_bit n x)) [0..<n] = filter (bit x) [0..<n]\<close> by simp
    qed
    with True Suc.prems show ?thesis by simp
  next
    case False
    with Suc show ?thesis by (auto simp: bit_simps)
  qed
qed simp

lemma popcnt_fallback_loop_eq: "popcnt_fallback_loop x count = count + popcnt x"
proof (induction x count rule: popcnt_fallback_loop.induct)
  case (1 x count)
  show ?case
  proof (cases "x = 0")
    case True
    then show ?thesis
      by (simp add: popcnt_fallback_loop.simps popcnt_def builtin_popcountll_def)
  next
    case False
    then obtain l where l: "bit x l" "l < 64" "x AND (x - 1) = unset_bit l x"
      by (rule popcount_clear_lowest)
    have "popcnt x = Suc (popcnt (x AND (x - 1)))"
      unfolding popcnt_def builtin_popcountll_def l(3) by (rule popcount_unset) (use l in auto)
    with False 1 show ?thesis by (simp add: popcnt_fallback_loop.simps [of x])
  qed
qed
definition halve :: "nat \<Rightarrow> u64 \<times> nat \<Rightarrow> u64 \<times> nat" where
  "halve k = (\<lambda>(x, c). if x AND push_bit k (mask k) \<noteq> 0 then (drop_bit k x, c + k) else (x, c))"

lemma halve_step:
  assumes "x \<noteq> 0" "unat x < 2 ^ (2 * k)" "halve k (x, c) = (y, d)"
  shows "y \<noteq> 0" "unat y < 2 ^ k" "highest_one y + d = highest_one x + c"
proof -
  have "y \<noteq> 0 \<and> unat y < 2 ^ k \<and> highest_one y + d = highest_one x + c"
  proof (cases "2 ^ k \<le> unat x")
    case True
    then have yd: "y = drop_bit k x" "d = c + k"
      using assms(3) and_high_mask_iff [OF assms(2)] by (auto simp: halve_def)
    have u: "unat y = unat x div 2 ^ k"
      unfolding yd by (metis unat_drop_bit_eq drop_bit_eq_div)
    have "unat y \<noteq> 0" using True by (simp add: u div_greater_zero_iff)
    then have "y \<noteq> 0" by auto
    moreover have "unat y < 2 ^ k"
      using assms(2) by (simp add: u div_less_iff_less_mult power_add [symmetric] mult_2)
    ultimately show ?thesis using highest_one_drop [OF True] yd by simp
  next
    case False
    then have "y = x" "d = c"
      using assms(3) and_high_mask_iff [OF assms(2)] by (auto simp: halve_def)
    with False assms(1) show ?thesis by simp
  qed
  then show "y \<noteq> 0" "unat y < 2 ^ k" "highest_one y + d = highest_one x + c" by auto
qed

lemma halve_masks:
  "push_bit 32 (mask 32) = (0xffffffff00000000 :: u64)"
  "push_bit 16 (mask 16) = (0x00000000ffff0000 :: u64)"
  "push_bit 8 (mask 8) = (0x000000000000ff00 :: u64)"
  "push_bit 4 (mask 4) = (0x00000000000000f0 :: u64)"
  "push_bit 2 (mask 2) = (0x000000000000000c :: u64)"
  "push_bit 1 (mask 1) = (0x0000000000000002 :: u64)"
  by (simp_all add: push_bit_eq_mult mask_eq_exp_minus_1)

lemma highest_one_fallback_eq:
  assumes "x \<noteq> 0"
  shows "highest_one_fallback x = highest_one x"
proof -
  obtain x1 c1 where 1: "halve 32 (x, 0) = (x1, c1)" by force
  obtain x2 c2 where 2: "halve 16 (x1, c1) = (x2, c2)" by force
  obtain x3 c3 where 3: "halve 8 (x2, c2) = (x3, c3)" by force
  obtain x4 c4 where 4: "halve 4 (x3, c3) = (x4, c4)" by force
  obtain x5 c5 where 5: "halve 2 (x4, c4) = (x5, c5)" by force
  obtain x6 c6 where 6: "halve 1 (x5, c5) = (x6, c6)" by force
  have "unat x < 2 ^ (2 * 32)" using unsigned_less [of x] by simp
  note s1 = halve_step [OF assms this 1]
  note s2 = halve_step [OF s1(1) _ 2, simplified, OF s1(2)[simplified]]
  note s3 = halve_step [OF s2(1) _ 3, simplified, OF s2(2)[simplified]]
  note s4 = halve_step [OF s3(1) _ 4, simplified, OF s3(2)[simplified]]
  note s5 = halve_step [OF s4(1) _ 5, simplified, OF s4(2)[simplified]]
  note s6 = halve_step [OF s5(1) _ 6, simplified, OF s5(2)[simplified]]
  have "highest_one x6 = 0"
    by (rule highest_one_unique) (use s6 in \<open>auto simp: unat_gt_0 Suc_le_eq\<close>)
  then have "c6 = highest_one x" using s1 s2 s3 s4 s5 s6 by simp
  note folds = 1 2 3 4 5
  have "highest_one_fallback x
      = snd (if x5 AND 0x0000000000000002 \<noteq> 0 then (x5, c5 + 1) else (x5, c5))"
    unfolding highest_one_fallback_def Let_def snd_def prod.case
    by (simp only: folds [unfolded halve_def prod.case halve_masks] prod.case)
  also have "\<dots> = c6"
    using 6 unfolding halve_def prod.case halve_masks by (auto split: if_splits)
  finally show ?thesis using \<open>c6 = highest_one x\<close> by simp
qed

lemma round_down_bounds:
  assumes "0 < n" "n < 2 ^ 64"
  shows "\<exists>k. unat (round_down_to_power_of_2 (of_nat n)) = 2 ^ k \<and> 2 ^ k \<le> n \<and> n < 2 ^ (k + 1)"
proof -
  let ?x = "of_nat n :: u64"
  have u: "unat ?x = n" using assms(2) by (simp add: unat_of_nat take_bit_nat_eq_self)
  have nz: "?x \<noteq> 0" using u assms(1) by auto
  obtain h where h: "bit ?x h" "h < 64" "\<And>j. h < j \<Longrightarrow> \<not> bit ?x j"
    using highest_bit_exists [OF nz] by auto
  have "highest_one (?x OR 1) = h"
    by (rule highest_one_eqI) (use h in \<open>auto simp: bit_simps\<close>)
  moreover have "highest_one ?x = h" by (rule highest_one_eqI) (use h in auto)
  moreover have "unat ((2::u64) ^ h) = 2 ^ h"
    using unat_of_nat_small [of "2 ^ h", where 'a = 64] power_strict_increasing [of h 64 "2::nat"] h(2)
    by simp
  ultimately have "unat (round_down_to_power_of_2 ?x) = 2 ^ h"
    using h(2) by (simp add: round_down_to_power_of_2_def push_bit_eq_mult)
  then show ?thesis using highest_one_bounds [OF nz] u \<open>highest_one ?x = h\<close> by auto
qed

section \<open>Little-endian loads and stores\<close>

definition load32 :: "bytes \<Rightarrow> u32" where
  "load32 p = push_bit 0 (ucast (p ! 0)) OR push_bit 8 (ucast (p ! 1)) OR
              push_bit 16 (ucast (p ! 2)) OR push_bit 24 (ucast (p ! 3))"

definition load_key_words :: "bytes \<Rightarrow> words" where
  "load_key_words key =
    [load32 (drop (0 * 4) key), load32 (drop (1 * 4) key), load32 (drop (2 * 4) key),
     load32 (drop (3 * 4) key), load32 (drop (4 * 4) key), load32 (drop (5 * 4) key),
     load32 (drop (6 * 4) key), load32 (drop (7 * 4) key)]"

definition load_block_words :: "bytes \<Rightarrow> words" where
  "load_block_words block = map (\<lambda>i. load32 (drop (i * 4) block)) [0..<16]"

definition store32 :: "u32 \<Rightarrow> bytes" where
  "store32 w = [ucast (drop_bit 0 w), ucast (drop_bit 8 w), ucast (drop_bit 16 w),
                ucast (drop_bit 24 w)]"

definition store_cv_words :: "words \<Rightarrow> bytes" where
  "store_cv_words cv_words =
     store32 (cv_words ! 0) @ store32 (cv_words ! 1) @ store32 (cv_words ! 2) @
     store32 (cv_words ! 3) @ store32 (cv_words ! 4) @ store32 (cv_words ! 5) @
     store32 (cv_words ! 6) @ store32 (cv_words ! 7)"

lemma length_store32 [len_simps]: "length (store32 w) = 4"
  by (simp add: store32_def)

lemma length_store_cv_words [len_simps]: "length (store_cv_words cv) = 32"
  by (simp add: store_cv_words_def length_store32)

lemma length_load_key_words [len_simps]: "length (load_key_words key) = 8"
  by (simp add: load_key_words_def)

lemma length_load_block_words [len_simps]: "length (load_block_words b) = 16"
  by (simp add: load_block_words_def)

subsection \<open>Round trips\<close>

lemma load32_store32 [simp]: "load32 (store32 w @ xs) = w"
proof (rule bit_word_eqI)
  fix n assume "n < LENGTH(32)"
  then consider "n < 8" | "8 \<le> n \<and> n < 16" | "16 \<le> n \<and> n < 24" | "24 \<le> n \<and> n < 32"
    by fastforce
  then show "bit (load32 (store32 w @ xs)) n = bit w n"
    by cases (auto simp: load32_def store32_def bit_simps)
qed

lemma store32_load32:
  assumes "length p = 4"
  shows "store32 (load32 p) = p"
proof -
  obtain a b c d where p: "p = [a, b, c, d]" using assms by (rule length4E)
  show ?thesis
    by (auto simp: p store32_def load32_def bit_simps u8_bit_beyond intro!: bit_word_eqI)
qed

text \<open>
  A little-endian machine reads an array of words from its bytes and back: \<open>words_of_bytes\<close>
  and \<open>bytes_of_words\<close>. The C loads and stores of fixed size are instances.
\<close>

fun words_of_bytes :: "bytes \<Rightarrow> words" where
  "words_of_bytes (a # b # c # d # xs) = load32 [a, b, c, d] # words_of_bytes xs"
| "words_of_bytes _ = []"

definition bytes_of_words :: "words \<Rightarrow> bytes" where
  "bytes_of_words ws = concat (map store32 ws)"

lemma bytes_of_words_simps [simp]:
  "bytes_of_words [] = []"
  "bytes_of_words (w # ws) = store32 w @ bytes_of_words ws"
  by (simp_all add: bytes_of_words_def)

lemma bytes_of_words_append: "bytes_of_words (xs @ ys) = bytes_of_words xs @ bytes_of_words ys"
  by (simp add: bytes_of_words_def)

lemma length_bytes_of_words [len_simps]: "length (bytes_of_words ws) = 4 * length ws"
  by (induction ws) (simp_all add: length_store32)

lemma load32_Cons4: "load32 (a # b # c # d # xs) = load32 [a, b, c, d]"
  by (simp add: load32_def)

lemma words_of_bytes_store32: "words_of_bytes (store32 w @ xs) = w # words_of_bytes xs"
  using load32_store32 [of w "[]"] by (simp add: store32_def)

lemma words_of_bytes_of_words [simp]: "words_of_bytes (bytes_of_words ws) = ws"
  by (induction ws) (simp_all add: words_of_bytes_store32)

lemma bytes_of_words_of_bytes:
  "length p = 4 * n \<Longrightarrow> bytes_of_words (words_of_bytes p) = p"
proof (induction p arbitrary: n rule: words_of_bytes.induct [case_names word none one two three])
  case (word a b c d xs)
  then have "bytes_of_words (words_of_bytes xs) = xs" by (cases n) auto
  then show ?case using store32_load32 [of "[a, b, c, d]"] by simp
next
  case (two a b)
  then show ?case by (cases n) auto
next
  case (three a b c)
  then show ?case by (cases n) auto
next
  case (one a)
  then show ?case by (cases n) auto
qed simp

lemma words_of_bytes_conv:
  "length p = 4 * n \<Longrightarrow> words_of_bytes p = map (\<lambda>i. load32 (drop (i * 4) p)) [0..<n]"
proof (induction n arbitrary: p)
  case (Suc n)
  then have "length (take 4 p) = 4" by simp
  then obtain a b c d where "take 4 p = [a, b, c, d]" by (rule length4E)
  then obtain q where p: "p = a # b # c # d # q"
    by (metis append_Cons append_Nil append_take_drop_id)
  have d: "drop (4 + k) (a # b # c # d # q) = drop k q" for k
    by (simp add: numeral_eq_Suc)
  have "words_of_bytes q = map (\<lambda>i. load32 (drop (i * 4) q)) [0..<n]"
    by (rule Suc.IH) (use Suc.prems p in simp)
  then have "words_of_bytes p = load32 p # map (\<lambda>i. load32 (drop (Suc i * 4) p)) [0..<n]"
    by (simp add: p load32_Cons4 [of a b c d q] d)
  also have "\<dots> = map (\<lambda>i. load32 (drop (i * 4) p)) [0..<Suc n]"
    by (simp add: map_upt_Suc del: upt_Suc)
  finally show ?case .
qed simp

lemma length_words_of_bytes [len_simps]: "length p = 4 * n \<Longrightarrow> length (words_of_bytes p) = n"
  by (simp add: words_of_bytes_conv)

lemma store_cv_words_eq: "length cv = 8 \<Longrightarrow> store_cv_words cv = bytes_of_words cv"
  by (erule length8E) (simp add: store_cv_words_def)

lemma load_key_words_eq: "length k = 32 \<Longrightarrow> load_key_words k = words_of_bytes k"
  by (simp add: words_of_bytes_conv [of k 8] load_key_words_def upt_rec)

lemma load_block_words_eq: "length b = 64 \<Longrightarrow> load_block_words b = words_of_bytes b"
  by (simp add: words_of_bytes_conv [of b 16] load_block_words_def)

lemma load_key_words_store_cv_words:
  assumes "length cv = 8"
  shows "load_key_words (store_cv_words cv) = cv"
  using assms by (simp add: store_cv_words_eq load_key_words_eq length_bytes_of_words)

lemma store_cv_words_load_key_words:
  assumes "length k = 32"
  shows "store_cv_words (load_key_words k) = k"
  using assms bytes_of_words_of_bytes [of k 8]
  by (simp add: load_key_words_eq store_cv_words_eq length_words_of_bytes [of k 8])

section \<open>What the helpers guarantee\<close>

text \<open>
  The fallbacks for compilers without bit intrinsics agree with the intrinsics: the
  branch-and-shift \<open>highest_one\<close> on every nonzero word, where it is the integer logarithm to base
  two, and the \<open>popcnt\<close> loop that clears the lowest set bit on every word.
\<close>

theorem bit_fallbacks_correct:
  assumes "x \<noteq> 0"
  shows "highest_one_fallback x = highest_one x \<and>
    2 ^ highest_one x \<le> unat x \<and> unat x < 2 ^ (highest_one x + 1) \<and>
    popcnt_fallback y = popcnt y"
  using highest_one_fallback_eq [OF assms] highest_one_bounds [OF assms]
  by (simp add: popcnt_fallback_def popcnt_fallback_loop_eq)

theorem bit_fallbacks_correct_witness:
  "highest_one_fallback 1000 = highest_one 1000 \<and>
    2 ^ highest_one 1000 \<le> unat (1000 :: u64) \<and> unat (1000 :: u64) < 2 ^ (highest_one 1000 + 1) \<and>
    popcnt_fallback 0 = popcnt 0"
  by (rule bit_fallbacks_correct) simp

text \<open>
  \<open>round_down_to_power_of_2\<close> of a positive length is the largest power of two that does not
  exceed it.
\<close>

theorem round_down_to_power_of_2_correct:
  assumes "0 < n" "n < 2 ^ 64"
  shows "\<exists>k. unat (round_down_to_power_of_2 (of_nat n)) = 2 ^ k \<and> 2 ^ k \<le> n \<and> n < 2 ^ (k + 1)"
  by (rule round_down_bounds [OF assms])

theorem round_down_to_power_of_2_correct_witness:
  "\<exists>k. unat (round_down_to_power_of_2 (of_nat 5000)) = 2 ^ k \<and> 2 ^ k \<le> (5000 :: nat) \<and> 5000 < (2 :: nat) ^ (k + 1)"
  by (rule round_down_to_power_of_2_correct) simp_all

text \<open>
  Loading 32 key bytes as little-endian words and storing the words again gives the same
  bytes, and storing eight words and loading them gives the same words.
\<close>

theorem key_words_roundtrip:
  assumes "length k = 32" "length cv = 8"
  shows "store_cv_words (load_key_words k) = k \<and> load_key_words (store_cv_words cv) = cv"
  using store_cv_words_load_key_words [OF assms(1)] load_key_words_store_cv_words [OF assms(2)] by simp

theorem key_words_roundtrip_witness:
  "store_cv_words (load_key_words (map of_nat [0..<32])) = map of_nat [0..<32] \<and>
    load_key_words (store_cv_words IV) = IV"
  by (rule key_words_roundtrip) simp_all

end
