(* ===== verification/Portable.thy ===== *)
theory Portable
  imports Impl
begin

text \<open>
  The portable compression function, \<open>c/blake3_portable.c\<close>. The sixteen-word state is a
  list updated in place, statement by statement; \<open>compress_pre\<close>, the two compression entry
  points and \<open>hash_one\<close>/\<open>hash_many\<close> follow the C functions of those names. An output buffer
  that the code fills from its start is returned as the list of bytes written.
\<close>

section \<open>The round function\<close>

definition rotr32 :: "u32 \<Rightarrow> nat \<Rightarrow> u32" where
  "rotr32 w c = drop_bit c w OR push_bit (32 - c) w"

definition g :: "words \<Rightarrow> nat \<Rightarrow> nat \<Rightarrow> nat \<Rightarrow> nat \<Rightarrow> u32 \<Rightarrow> u32 \<Rightarrow> words" where
  "g state a b c d x y =
    (let state = state[a := state ! a + state ! b + x];
         state = state[d := rotr32 (state ! d XOR state ! a) 16];
         state = state[c := state ! c + state ! d];
         state = state[b := rotr32 (state ! b XOR state ! c) 12];
         state = state[a := state ! a + state ! b + y];
         state = state[d := rotr32 (state ! d XOR state ! a) 8];
         state = state[c := state ! c + state ! d];
         state = state[b := rotr32 (state ! b XOR state ! c) 7]
     in state)"

definition round_fn :: "words \<Rightarrow> words \<Rightarrow> nat \<Rightarrow> words" where
  "round_fn state msg round =
    (let schedule = MSG_SCHEDULE ! round;
         \<comment> \<open>Mix the columns.\<close>
         state = g state 0 4 8 12 (msg ! (schedule ! 0)) (msg ! (schedule ! 1));
         state = g state 1 5 9 13 (msg ! (schedule ! 2)) (msg ! (schedule ! 3));
         state = g state 2 6 10 14 (msg ! (schedule ! 4)) (msg ! (schedule ! 5));
         state = g state 3 7 11 15 (msg ! (schedule ! 6)) (msg ! (schedule ! 7));
         \<comment> \<open>Mix the rows.\<close>
         state = g state 0 5 10 15 (msg ! (schedule ! 8)) (msg ! (schedule ! 9));
         state = g state 1 6 11 12 (msg ! (schedule ! 10)) (msg ! (schedule ! 11));
         state = g state 2 7 8 13 (msg ! (schedule ! 12)) (msg ! (schedule ! 13));
         state = g state 3 4 9 14 (msg ! (schedule ! 14)) (msg ! (schedule ! 15))
     in state)"

section \<open>Compression\<close>

definition compress_pre :: "words \<Rightarrow> bytes \<Rightarrow> u8 \<Rightarrow> u64 \<Rightarrow> u8 \<Rightarrow> words" where
  "compress_pre cv block block_len counter flags =
    (let block_words =
           [load32 (drop (4 * 0) block), load32 (drop (4 * 1) block),
            load32 (drop (4 * 2) block), load32 (drop (4 * 3) block),
            load32 (drop (4 * 4) block), load32 (drop (4 * 5) block),
            load32 (drop (4 * 6) block), load32 (drop (4 * 7) block),
            load32 (drop (4 * 8) block), load32 (drop (4 * 9) block),
            load32 (drop (4 * 10) block), load32 (drop (4 * 11) block),
            load32 (drop (4 * 12) block), load32 (drop (4 * 13) block),
            load32 (drop (4 * 14) block), load32 (drop (4 * 15) block)];
         state =
           [cv ! 0, cv ! 1, cv ! 2, cv ! 3, cv ! 4, cv ! 5, cv ! 6, cv ! 7,
            IV ! 0, IV ! 1, IV ! 2, IV ! 3,
            counter_low counter, counter_high counter, ucast block_len, ucast flags];
         state = round_fn state block_words 0;
         state = round_fn state block_words 1;
         state = round_fn state block_words 2;
         state = round_fn state block_words 3;
         state = round_fn state block_words 4;
         state = round_fn state block_words 5;
         state = round_fn state block_words 6
     in state)"

definition blake3_compress_in_place_portable ::
  "words \<Rightarrow> bytes \<Rightarrow> u8 \<Rightarrow> u64 \<Rightarrow> u8 \<Rightarrow> words" where
  "blake3_compress_in_place_portable cv block block_len counter flags =
    (let state = compress_pre cv block block_len counter flags
     in [state ! 0 XOR state ! 8, state ! 1 XOR state ! 9,
         state ! 2 XOR state ! 10, state ! 3 XOR state ! 11,
         state ! 4 XOR state ! 12, state ! 5 XOR state ! 13,
         state ! 6 XOR state ! 14, state ! 7 XOR state ! 15])"

definition blake3_compress_xof_portable ::
  "words \<Rightarrow> bytes \<Rightarrow> u8 \<Rightarrow> u64 \<Rightarrow> u8 \<Rightarrow> bytes" where
  "blake3_compress_xof_portable cv block block_len counter flags =
    (let state = compress_pre cv block block_len counter flags
     in store32 (state ! 0 XOR state ! 8) @ store32 (state ! 1 XOR state ! 9) @
        store32 (state ! 2 XOR state ! 10) @ store32 (state ! 3 XOR state ! 11) @
        store32 (state ! 4 XOR state ! 12) @ store32 (state ! 5 XOR state ! 13) @
        store32 (state ! 6 XOR state ! 14) @ store32 (state ! 7 XOR state ! 15) @
        store32 (state ! 8 XOR cv ! 0) @ store32 (state ! 9 XOR cv ! 1) @
        store32 (state ! 10 XOR cv ! 2) @ store32 (state ! 11 XOR cv ! 3) @
        store32 (state ! 12 XOR cv ! 4) @ store32 (state ! 13 XOR cv ! 5) @
        store32 (state ! 14 XOR cv ! 6) @ store32 (state ! 15 XOR cv ! 7))"

section \<open>Hashing whole inputs\<close>

text \<open>
  The loop of \<open>hash_one_*\<close>: \<open>blocks\<close> counts down, \<open>input\<close> moves on by a block, and the block
  flags carry \<open>flags_start\<close> only on the first iteration and \<open>flags_end\<close> only on the last. The
  five back ends have this loop with their own compression function, which is the first
  argument here.
\<close>

fun hash_one_loop ::
  "(words \<Rightarrow> bytes \<Rightarrow> u8 \<Rightarrow> u64 \<Rightarrow> u8 \<Rightarrow> words) \<Rightarrow>
   words \<Rightarrow> bytes \<Rightarrow> nat \<Rightarrow> u64 \<Rightarrow> u8 \<Rightarrow> u8 \<Rightarrow> u8 \<Rightarrow> words" where
  "hash_one_loop compress cv input 0 counter flags block_flags flags_end = cv"
| "hash_one_loop compress cv input (Suc blocks) counter flags block_flags flags_end =
    (let block_flags = (if Suc blocks = 1 then block_flags OR flags_end else block_flags);
         cv = compress cv (buf_read input 0 BLAKE3_BLOCK_LEN) (of_nat BLAKE3_BLOCK_LEN)
                counter block_flags
     in hash_one_loop compress cv (drop BLAKE3_BLOCK_LEN input) blocks counter flags flags
          flags_end)"

definition hash_one_portable ::
  "bytes \<Rightarrow> nat \<Rightarrow> words \<Rightarrow> u64 \<Rightarrow> u8 \<Rightarrow> u8 \<Rightarrow> u8 \<Rightarrow> bytes" where
  "hash_one_portable input blocks key counter flags flags_start flags_end =
    (let cv = key;
         block_flags = flags OR flags_start;
         cv = hash_one_loop blake3_compress_in_place_portable cv input blocks counter flags
                block_flags flags_end
     in store_cv_words cv)"

text \<open>
  \<open>hash_many\<close> walks an array of input pointers. A pointer is the list of bytes from the
  address it holds; \<open>num_inputs\<close> is the length of the array.
\<close>

fun blake3_hash_many_portable ::
  "bytes list \<Rightarrow> nat \<Rightarrow> words \<Rightarrow> u64 \<Rightarrow> bool \<Rightarrow> u8 \<Rightarrow> u8 \<Rightarrow> u8 \<Rightarrow> bytes" where
  "blake3_hash_many_portable [] blocks key counter increment_counter flags flags_start
     flags_end = []"
| "blake3_hash_many_portable (input # inputs) blocks key counter increment_counter flags
     flags_start flags_end =
    hash_one_portable input blocks key counter flags flags_start flags_end @
    blake3_hash_many_portable inputs blocks key
      (if increment_counter then counter + 1 else counter) increment_counter flags
      flags_start flags_end"

section \<open>Sizes\<close>

lemma length_g [len_simps]: "length (g state a b c d x y) = length state"
  by (simp add: g_def Let_def)

lemma length_round_fn [len_simps]: "length (round_fn state msg r) = length state"
  by (simp add: round_fn_def Let_def length_g)

lemma length_compress_pre [len_simps]: "length (compress_pre cv b bl c f) = 16"
  by (simp add: compress_pre_def Let_def length_round_fn)

lemma length_compress_in_place [len_simps]:
  "length (blake3_compress_in_place_portable cv b bl c f) = 8"
  by (simp add: blake3_compress_in_place_portable_def Let_def)

lemma length_compress_xof [len_simps]:
  "length (blake3_compress_xof_portable cv b bl c f) = 64"
  by (simp add: blake3_compress_xof_portable_def Let_def length_store32)

lemma length_hash_one_loop:
  assumes "\<And>cv b bl c f. length (compress cv b bl c f) = 8" and "length cv = 8"
  shows "length (hash_one_loop compress cv input blocks counter flags bf fe) = 8"
  using assms
  by (induction blocks arbitrary: cv input bf) (simp_all add: Let_def)

lemma length_hash_one_portable [len_simps]:
  "length (hash_one_portable input blocks key counter flags fs fe) = 32"
  by (simp add: hash_one_portable_def Let_def length_store_cv_words)

lemma length_hash_many_portable [len_simps]:
  "length (blake3_hash_many_portable inputs blocks key counter inc flags fs fe) =
     32 * length inputs"
  by (induction inputs arbitrary: counter) (simp_all add: length_hash_one_portable)

lemma hash_many_portable_append:
  "blake3_hash_many_portable (xs @ ys) blocks key counter inc flags fs fe =
   blake3_hash_many_portable xs blocks key counter inc flags fs fe @
   blake3_hash_many_portable ys blocks key
     (if inc then counter + of_nat (length xs) else counter) inc flags fs fe"
  by (induction xs arbitrary: counter) (simp_all add: algebra_simps)


lemma hash_many_portable_False:
  "blake3_hash_many_portable inputs blocks key counter False flags fs fe =
   concat (map (\<lambda>inp. hash_one_portable inp blocks key counter flags fs fe) inputs)"
  by (induction inputs) simp_all

lemma hash_many_portable_True:
  "blake3_hash_many_portable inputs blocks key counter True flags fs fe =
   concat (map (\<lambda>i. hash_one_portable (inputs ! i) blocks key (counter + of_nat i) flags fs fe)
     [0..<length inputs])"
proof (induction inputs rule: rev_induct)
  case (snoc x xs)
  have "map (\<lambda>i. hash_one_portable ((xs @ [x]) ! i) blocks key (counter + of_nat i) flags fs fe)
     [0..<length xs] = map (\<lambda>i. hash_one_portable (xs ! i) blocks key (counter + of_nat i) flags fs fe)
     [0..<length xs]"
    by (rule map_cong) (auto simp: nth_append)
  then have "map (\<lambda>i. hash_one_portable ((xs @ [x]) ! i) blocks key (counter + of_nat i) flags fs fe)
     [0..<length (xs @ [x])] = map (\<lambda>i. hash_one_portable (xs ! i) blocks key (counter + of_nat i) flags fs fe)
     [0..<length xs] @ [hash_one_portable x blocks key (counter + of_nat (length xs)) flags fs fe]"
    by (simp only: length_append_singleton upt_Suc_append [OF le0] map_append list.map nth_append_length)
  then show ?case
    by (simp only: hash_many_portable_append snoc concat_append) simp
qed simp

lemma hash_many_portable_conv:
  "blake3_hash_many_portable inputs blocks key counter inc flags fs fe =
   concat (map (\<lambda>i. hash_one_portable (inputs ! i) blocks key
     (counter + (if inc then of_nat i else 0)) flags fs fe) [0..<length inputs])"
proof (cases inc)
  case False
  have "map (\<lambda>inp. hash_one_portable inp blocks key counter flags fs fe) inputs =
    map (\<lambda>i. hash_one_portable (inputs ! i) blocks key counter flags fs fe) [0..<length inputs]"
    by (rule nth_equalityI) simp_all
  with False show ?thesis by (simp add: hash_many_portable_False)
qed (simp add: hash_many_portable_True)

section \<open>The message schedule\<close>

text \<open>
  The table of message schedules has seven rows, every row is a permutation of the sixteen
  word positions, the first is the identity, and each later row is the one before it composed
  with the single permutation that the second row holds.
\<close>

theorem msg_schedule_iterated:
  "length MSG_SCHEDULE = 7 \<and> MSG_SCHEDULE ! 0 = [0..<16] \<and>
   list_all (\<lambda>row. sort row = [0..<16]) MSG_SCHEDULE \<and>
   map (\<lambda>r. map (\<lambda>i. MSG_SCHEDULE ! r ! i) (MSG_SCHEDULE ! 1)) [0..<6] = tl MSG_SCHEDULE"
  by (intro conjI; simp add: MSG_SCHEDULE_def upt_conv_Cons)

end
