(* ===== verification/Simd.thy ===== *)
theory Simd
  imports Portable
begin

text \<open>
  What the five SIMD back ends share. A vector register is the list of its 32-bit lanes,
  lane 0 first; the compiler intrinsics are lane functions given by their documented
  semantics, at a width of \<open>n\<close> lanes (4 for \<open>__m128i\<close> and \<open>uint32x4_t\<close>, 8 for \<open>__m256i\<close>, 16
  for \<open>__m512i\<close>). The vectorised round function has the same body in all five files up to
  the names of its six vector operations, so it is written once over a record of them and
  instantiated by each file; the same holds for the row-wise \<open>compress_pre\<close> of the SSE2,
  SSE4.1 and AVX-512 files.
\<close>

section \<open>Vectors and intrinsics\<close>

type_synonym vec = "u32 list"

definition lanes :: "nat \<Rightarrow> (nat \<Rightarrow> 'a) \<Rightarrow> 'a list" where
  "lanes n f = map f [0..<n]"

lemma length_lanes [simp]: "length (lanes n f) = n"
  by (simp add: lanes_def)

lemma nth_lanes [simp]: "i < n \<Longrightarrow> lanes n f ! i = f i"
  by (simp add: lanes_def)

lemma lanes_4: "lanes 4 f = [f 0, f 1, f 2, f 3]"
  by (simp add: lanes_def upt_rec numeral_2_eq_2 numeral_3_eq_3)

definition mm_loadu :: "nat \<Rightarrow> bytes \<Rightarrow> vec" where
  "mm_loadu n src = lanes n (\<lambda>i. load32 (drop (4 * i) src))"

definition mm_storeu :: "vec \<Rightarrow> bytes" where
  "mm_storeu v = bytes_of_words v"

definition mm_add_epi32 :: "nat \<Rightarrow> vec \<Rightarrow> vec \<Rightarrow> vec" where
  "mm_add_epi32 n a b = lanes n (\<lambda>i. a ! i + b ! i)"

definition mm_sub_epi32 :: "nat \<Rightarrow> vec \<Rightarrow> vec \<Rightarrow> vec" where
  "mm_sub_epi32 n a b = lanes n (\<lambda>i. a ! i - b ! i)"

definition mm_xor :: "nat \<Rightarrow> vec \<Rightarrow> vec \<Rightarrow> vec" where
  "mm_xor n a b = lanes n (\<lambda>i. a ! i XOR b ! i)"

definition mm_or :: "nat \<Rightarrow> vec \<Rightarrow> vec \<Rightarrow> vec" where
  "mm_or n a b = lanes n (\<lambda>i. a ! i OR b ! i)"

definition mm_and :: "nat \<Rightarrow> vec \<Rightarrow> vec \<Rightarrow> vec" where
  "mm_and n a b = lanes n (\<lambda>i. a ! i AND b ! i)"

definition mm_andnot :: "nat \<Rightarrow> vec \<Rightarrow> vec \<Rightarrow> vec" where
  "mm_andnot n a b = lanes n (\<lambda>i. (NOT (a ! i)) AND b ! i)"

definition mm_set1_epi32 :: "nat \<Rightarrow> u32 \<Rightarrow> vec" where
  "mm_set1_epi32 n x = lanes n (\<lambda>i. x)"

text \<open>\<open>set\<close> takes the highest lane first, \<open>setr\<close> the lowest.\<close>

definition mm_set_epi32 :: "u32 list \<Rightarrow> vec" where
  "mm_set_epi32 xs = rev xs"

definition mm_srli_epi32 :: "nat \<Rightarrow> vec \<Rightarrow> nat \<Rightarrow> vec" where
  "mm_srli_epi32 n a k = lanes n (\<lambda>i. drop_bit k (a ! i))"

definition mm_slli_epi32 :: "nat \<Rightarrow> vec \<Rightarrow> nat \<Rightarrow> vec" where
  "mm_slli_epi32 n a k = lanes n (\<lambda>i. push_bit k (a ! i))"

definition mm_ror_epi32 :: "nat \<Rightarrow> vec \<Rightarrow> nat \<Rightarrow> vec" where
  "mm_ror_epi32 n a k = lanes n (\<lambda>i. word_rotr k (a ! i))"

text \<open>A signed comparison: all ones where it holds.\<close>

definition mm_cmpgt_epi32 :: "nat \<Rightarrow> vec \<Rightarrow> vec \<Rightarrow> vec" where
  "mm_cmpgt_epi32 n a b = lanes n (\<lambda>i. if sint (a ! i) > sint (b ! i) then - 1 else 0)"

text \<open>Byte and 16-bit views of a register.\<close>

definition byte_of :: "vec \<Rightarrow> nat \<Rightarrow> u8" where
  "byte_of v k = ucast (drop_bit (8 * (k mod 4)) (v ! (k div 4)))"

definition of_byte_fun :: "nat \<Rightarrow> (nat \<Rightarrow> u8) \<Rightarrow> vec" where
  "of_byte_fun n f = lanes n (\<lambda>i. load32 [f (4 * i), f (4 * i + 1), f (4 * i + 2), f (4 * i + 3)])"

definition half_of :: "vec \<Rightarrow> nat \<Rightarrow> u16" where
  "half_of v k = ucast (drop_bit (16 * (k mod 2)) (v ! (k div 2)))"

definition of_half_fun :: "nat \<Rightarrow> (nat \<Rightarrow> u16) \<Rightarrow> vec" where
  "of_half_fun n f = lanes n (\<lambda>i. ucast (f (2 * i)) OR push_bit 16 (ucast (f (2 * i + 1))))"

text \<open>
  \<open>shuffle_epi8\<close> selects within each group of 16 bytes by the low four bits of the index
  byte and gives zero where its top bit is set. \<open>set_epi8\<close> takes the highest byte first.
\<close>

definition mm_set_epi8 :: "u8 list \<Rightarrow> bytes" where
  "mm_set_epi8 xs = rev xs"

definition mm_shuffle_epi8 :: "nat \<Rightarrow> vec \<Rightarrow> bytes \<Rightarrow> vec" where
  "mm_shuffle_epi8 n a idx =
    of_byte_fun n (\<lambda>k. if bit (idx ! k) 7 then 0
                       else byte_of a (16 * (k div 16) + unat (idx ! k AND 15)))"

text \<open>The immediate of the shuffles holds four two-bit selectors.\<close>

definition MM_SHUFFLE :: "nat \<Rightarrow> nat \<Rightarrow> nat \<Rightarrow> nat \<Rightarrow> nat" where
  "MM_SHUFFLE z y x w = z * 64 + y * 16 + x * 4 + w"

definition sel2 :: "nat \<Rightarrow> nat \<Rightarrow> nat" where
  "sel2 imm k = imm div 4 ^ k mod 4"

definition mm_shuffle_epi32 :: "vec \<Rightarrow> nat \<Rightarrow> vec" where
  "mm_shuffle_epi32 a imm =
    [a ! sel2 imm 0, a ! sel2 imm 1, a ! sel2 imm 2, a ! sel2 imm 3]"

definition mm_shuffle_ps2 :: "vec \<Rightarrow> vec \<Rightarrow> nat \<Rightarrow> vec" where
  "mm_shuffle_ps2 a b imm =
    [a ! sel2 imm 0, a ! sel2 imm 1, b ! sel2 imm 2, b ! sel2 imm 3]"

definition mm_shufflelo_epi16 :: "vec \<Rightarrow> nat \<Rightarrow> vec" where
  "mm_shufflelo_epi16 a imm =
    of_half_fun 4 (\<lambda>k. if k < 4 then half_of a (sel2 imm k) else half_of a k)"

definition mm_shufflehi_epi16 :: "vec \<Rightarrow> nat \<Rightarrow> vec" where
  "mm_shufflehi_epi16 a imm =
    of_half_fun 4 (\<lambda>k. if k < 4 then half_of a k else half_of a (4 + sel2 imm (k - 4)))"

text \<open>The unpacks interleave the low or high halves of each 128-bit group.\<close>

definition mm_unpacklo_epi32 :: "nat \<Rightarrow> 'a list \<Rightarrow> 'a list \<Rightarrow> 'a list" where
  "mm_unpacklo_epi32 n a b =
    lanes n (\<lambda>i. (if even i then a else b) ! (i div 4 * 4 + i mod 4 div 2))"

definition mm_unpackhi_epi32 :: "nat \<Rightarrow> 'a list \<Rightarrow> 'a list \<Rightarrow> 'a list" where
  "mm_unpackhi_epi32 n a b =
    lanes n (\<lambda>i. (if even i then a else b) ! (i div 4 * 4 + 2 + i mod 4 div 2))"

definition mm_unpacklo_epi64 :: "nat \<Rightarrow> 'a list \<Rightarrow> 'a list \<Rightarrow> 'a list" where
  "mm_unpacklo_epi64 n a b =
    lanes n (\<lambda>i. (if i mod 4 < 2 then a else b) ! (i div 4 * 4 + i mod 2))"

definition mm_unpackhi_epi64 :: "nat \<Rightarrow> 'a list \<Rightarrow> 'a list \<Rightarrow> 'a list" where
  "mm_unpackhi_epi64 n a b =
    lanes n (\<lambda>i. (if i mod 4 < 2 then a else b) ! (i div 4 * 4 + 2 + i mod 2))"

section \<open>The vectorised round function\<close>

record 'v simd_ops =
  addv :: "'v \<Rightarrow> 'v \<Rightarrow> 'v"
  xorv :: "'v \<Rightarrow> 'v \<Rightarrow> 'v"
  rot16 :: "'v \<Rightarrow> 'v"
  rot12 :: "'v \<Rightarrow> 'v"
  rot8 :: "'v \<Rightarrow> 'v"
  rot7 :: "'v \<Rightarrow> 'v"

text \<open>The array \<open>v\<close> has constant indices only, so its elements are sixteen variables.\<close>

definition vec_round_fn :: "'v simd_ops \<Rightarrow> 'v list \<Rightarrow> 'v list \<Rightarrow> nat \<Rightarrow> 'v list" where
  "vec_round_fn ops v m r =
    (let s = MSG_SCHEDULE ! r;
         v0 = v ! 0; v1 = v ! 1; v2 = v ! 2; v3 = v ! 3;
         v4 = v ! 4; v5 = v ! 5; v6 = v ! 6; v7 = v ! 7;
         v8 = v ! 8; v9 = v ! 9; v10 = v ! 10; v11 = v ! 11;
         v12 = v ! 12; v13 = v ! 13; v14 = v ! 14; v15 = v ! 15;
         v0 = addv ops v0 (m ! (s ! 0));
         v1 = addv ops v1 (m ! (s ! 2));
         v2 = addv ops v2 (m ! (s ! 4));
         v3 = addv ops v3 (m ! (s ! 6));
         v0 = addv ops v0 v4;
         v1 = addv ops v1 v5;
         v2 = addv ops v2 v6;
         v3 = addv ops v3 v7;
         v12 = xorv ops v12 v0;
         v13 = xorv ops v13 v1;
         v14 = xorv ops v14 v2;
         v15 = xorv ops v15 v3;
         v12 = rot16 ops v12;
         v13 = rot16 ops v13;
         v14 = rot16 ops v14;
         v15 = rot16 ops v15;
         v8 = addv ops v8 v12;
         v9 = addv ops v9 v13;
         v10 = addv ops v10 v14;
         v11 = addv ops v11 v15;
         v4 = xorv ops v4 v8;
         v5 = xorv ops v5 v9;
         v6 = xorv ops v6 v10;
         v7 = xorv ops v7 v11;
         v4 = rot12 ops v4;
         v5 = rot12 ops v5;
         v6 = rot12 ops v6;
         v7 = rot12 ops v7;
         v0 = addv ops v0 (m ! (s ! 1));
         v1 = addv ops v1 (m ! (s ! 3));
         v2 = addv ops v2 (m ! (s ! 5));
         v3 = addv ops v3 (m ! (s ! 7));
         v0 = addv ops v0 v4;
         v1 = addv ops v1 v5;
         v2 = addv ops v2 v6;
         v3 = addv ops v3 v7;
         v12 = xorv ops v12 v0;
         v13 = xorv ops v13 v1;
         v14 = xorv ops v14 v2;
         v15 = xorv ops v15 v3;
         v12 = rot8 ops v12;
         v13 = rot8 ops v13;
         v14 = rot8 ops v14;
         v15 = rot8 ops v15;
         v8 = addv ops v8 v12;
         v9 = addv ops v9 v13;
         v10 = addv ops v10 v14;
         v11 = addv ops v11 v15;
         v4 = xorv ops v4 v8;
         v5 = xorv ops v5 v9;
         v6 = xorv ops v6 v10;
         v7 = xorv ops v7 v11;
         v4 = rot7 ops v4;
         v5 = rot7 ops v5;
         v6 = rot7 ops v6;
         v7 = rot7 ops v7;
         v0 = addv ops v0 (m ! (s ! 8));
         v1 = addv ops v1 (m ! (s ! 10));
         v2 = addv ops v2 (m ! (s ! 12));
         v3 = addv ops v3 (m ! (s ! 14));
         v0 = addv ops v0 v5;
         v1 = addv ops v1 v6;
         v2 = addv ops v2 v7;
         v3 = addv ops v3 v4;
         v15 = xorv ops v15 v0;
         v12 = xorv ops v12 v1;
         v13 = xorv ops v13 v2;
         v14 = xorv ops v14 v3;
         v15 = rot16 ops v15;
         v12 = rot16 ops v12;
         v13 = rot16 ops v13;
         v14 = rot16 ops v14;
         v10 = addv ops v10 v15;
         v11 = addv ops v11 v12;
         v8 = addv ops v8 v13;
         v9 = addv ops v9 v14;
         v5 = xorv ops v5 v10;
         v6 = xorv ops v6 v11;
         v7 = xorv ops v7 v8;
         v4 = xorv ops v4 v9;
         v5 = rot12 ops v5;
         v6 = rot12 ops v6;
         v7 = rot12 ops v7;
         v4 = rot12 ops v4;
         v0 = addv ops v0 (m ! (s ! 9));
         v1 = addv ops v1 (m ! (s ! 11));
         v2 = addv ops v2 (m ! (s ! 13));
         v3 = addv ops v3 (m ! (s ! 15));
         v0 = addv ops v0 v5;
         v1 = addv ops v1 v6;
         v2 = addv ops v2 v7;
         v3 = addv ops v3 v4;
         v15 = xorv ops v15 v0;
         v12 = xorv ops v12 v1;
         v13 = xorv ops v13 v2;
         v14 = xorv ops v14 v3;
         v15 = rot8 ops v15;
         v12 = rot8 ops v12;
         v13 = rot8 ops v13;
         v14 = rot8 ops v14;
         v10 = addv ops v10 v15;
         v11 = addv ops v11 v12;
         v8 = addv ops v8 v13;
         v9 = addv ops v9 v14;
         v5 = xorv ops v5 v10;
         v6 = xorv ops v6 v11;
         v7 = xorv ops v7 v8;
         v4 = xorv ops v4 v9;
         v5 = rot7 ops v5;
         v6 = rot7 ops v6;
         v7 = rot7 ops v7;
         v4 = rot7 ops v4
     in [v0, v1, v2, v3, v4, v5, v6, v7,
         v8, v9, v10, v11, v12, v13, v14, v15])"

subsection \<open>As eight quarter rounds\<close>

text \<open>
  The interleaved statements are eight independent quarter rounds. The four results of each
  half of a quarter round are functions of their own, so that the terms below stay small.
\<close>

definition h1a :: "'v simd_ops \<Rightarrow> 'v \<Rightarrow> 'v \<Rightarrow> 'v \<Rightarrow> 'v \<Rightarrow> 'v \<Rightarrow> 'v" where
  "h1a ops a b c d x = addv ops (addv ops a x) b"
definition h1d :: "'v simd_ops \<Rightarrow> 'v \<Rightarrow> 'v \<Rightarrow> 'v \<Rightarrow> 'v \<Rightarrow> 'v \<Rightarrow> 'v" where
  "h1d ops a b c d x = rot16 ops (xorv ops d (h1a ops a b c d x))"
definition h1c :: "'v simd_ops \<Rightarrow> 'v \<Rightarrow> 'v \<Rightarrow> 'v \<Rightarrow> 'v \<Rightarrow> 'v \<Rightarrow> 'v" where
  "h1c ops a b c d x = addv ops c (h1d ops a b c d x)"
definition h1b :: "'v simd_ops \<Rightarrow> 'v \<Rightarrow> 'v \<Rightarrow> 'v \<Rightarrow> 'v \<Rightarrow> 'v \<Rightarrow> 'v" where
  "h1b ops a b c d x = rot12 ops (xorv ops b (h1c ops a b c d x))"

definition h2a :: "'v simd_ops \<Rightarrow> 'v \<Rightarrow> 'v \<Rightarrow> 'v \<Rightarrow> 'v \<Rightarrow> 'v \<Rightarrow> 'v" where
  "h2a ops a b c d x = addv ops (addv ops a x) b"
definition h2d :: "'v simd_ops \<Rightarrow> 'v \<Rightarrow> 'v \<Rightarrow> 'v \<Rightarrow> 'v \<Rightarrow> 'v \<Rightarrow> 'v" where
  "h2d ops a b c d x = rot8 ops (xorv ops d (h2a ops a b c d x))"
definition h2c :: "'v simd_ops \<Rightarrow> 'v \<Rightarrow> 'v \<Rightarrow> 'v \<Rightarrow> 'v \<Rightarrow> 'v \<Rightarrow> 'v" where
  "h2c ops a b c d x = addv ops c (h2d ops a b c d x)"
definition h2b :: "'v simd_ops \<Rightarrow> 'v \<Rightarrow> 'v \<Rightarrow> 'v \<Rightarrow> 'v \<Rightarrow> 'v \<Rightarrow> 'v" where
  "h2b ops a b c d x = rot7 ops (xorv ops b (h2c ops a b c d x))"

definition qa :: "'v simd_ops \<Rightarrow> 'v \<Rightarrow> 'v \<Rightarrow> 'v \<Rightarrow> 'v \<Rightarrow> 'v \<Rightarrow> 'v \<Rightarrow> 'v" where
  "qa ops a b c d x y = h2a ops (h1a ops a b c d x) (h1b ops a b c d x) (h1c ops a b c d x) (h1d ops a b c d x) y"
definition qb :: "'v simd_ops \<Rightarrow> 'v \<Rightarrow> 'v \<Rightarrow> 'v \<Rightarrow> 'v \<Rightarrow> 'v \<Rightarrow> 'v \<Rightarrow> 'v" where
  "qb ops a b c d x y = h2b ops (h1a ops a b c d x) (h1b ops a b c d x) (h1c ops a b c d x) (h1d ops a b c d x) y"
definition qc :: "'v simd_ops \<Rightarrow> 'v \<Rightarrow> 'v \<Rightarrow> 'v \<Rightarrow> 'v \<Rightarrow> 'v \<Rightarrow> 'v \<Rightarrow> 'v" where
  "qc ops a b c d x y = h2c ops (h1a ops a b c d x) (h1b ops a b c d x) (h1c ops a b c d x) (h1d ops a b c d x) y"
definition qd :: "'v simd_ops \<Rightarrow> 'v \<Rightarrow> 'v \<Rightarrow> 'v \<Rightarrow> 'v \<Rightarrow> 'v \<Rightarrow> 'v \<Rightarrow> 'v" where
  "qd ops a b c d x y = h2d ops (h1a ops a b c d x) (h1b ops a b c d x) (h1c ops a b c d x) (h1d ops a b c d x) y"

lemmas half_defs = h1a_def h1b_def h1c_def h1d_def h2a_def h2b_def h2c_def h2d_def
lemmas quarter_defs = qa_def qb_def qc_def qd_def

definition quarters :: "'v simd_ops \<Rightarrow> 'v list \<Rightarrow> 'v list \<Rightarrow> nat list \<Rightarrow> 'v list" where
  "quarters ops v m s =
    (let w0 = qa ops (v ! 0) (v ! 4) (v ! 8) (v ! 12) (m ! (s ! 0)) (m ! (s ! 1));
         w4 = qb ops (v ! 0) (v ! 4) (v ! 8) (v ! 12) (m ! (s ! 0)) (m ! (s ! 1));
         w8 = qc ops (v ! 0) (v ! 4) (v ! 8) (v ! 12) (m ! (s ! 0)) (m ! (s ! 1));
         w12 = qd ops (v ! 0) (v ! 4) (v ! 8) (v ! 12) (m ! (s ! 0)) (m ! (s ! 1));
         w1 = qa ops (v ! 1) (v ! 5) (v ! 9) (v ! 13) (m ! (s ! 2)) (m ! (s ! 3));
         w5 = qb ops (v ! 1) (v ! 5) (v ! 9) (v ! 13) (m ! (s ! 2)) (m ! (s ! 3));
         w9 = qc ops (v ! 1) (v ! 5) (v ! 9) (v ! 13) (m ! (s ! 2)) (m ! (s ! 3));
         w13 = qd ops (v ! 1) (v ! 5) (v ! 9) (v ! 13) (m ! (s ! 2)) (m ! (s ! 3));
         w2 = qa ops (v ! 2) (v ! 6) (v ! 10) (v ! 14) (m ! (s ! 4)) (m ! (s ! 5));
         w6 = qb ops (v ! 2) (v ! 6) (v ! 10) (v ! 14) (m ! (s ! 4)) (m ! (s ! 5));
         w10 = qc ops (v ! 2) (v ! 6) (v ! 10) (v ! 14) (m ! (s ! 4)) (m ! (s ! 5));
         w14 = qd ops (v ! 2) (v ! 6) (v ! 10) (v ! 14) (m ! (s ! 4)) (m ! (s ! 5));
         w3 = qa ops (v ! 3) (v ! 7) (v ! 11) (v ! 15) (m ! (s ! 6)) (m ! (s ! 7));
         w7 = qb ops (v ! 3) (v ! 7) (v ! 11) (v ! 15) (m ! (s ! 6)) (m ! (s ! 7));
         w11 = qc ops (v ! 3) (v ! 7) (v ! 11) (v ! 15) (m ! (s ! 6)) (m ! (s ! 7));
         w15 = qd ops (v ! 3) (v ! 7) (v ! 11) (v ! 15) (m ! (s ! 6)) (m ! (s ! 7))
     in [qa ops w0 w5 w10 w15 (m ! (s ! 8)) (m ! (s ! 9)),
         qa ops w1 w6 w11 w12 (m ! (s ! 10)) (m ! (s ! 11)),
         qa ops w2 w7 w8 w13 (m ! (s ! 12)) (m ! (s ! 13)),
         qa ops w3 w4 w9 w14 (m ! (s ! 14)) (m ! (s ! 15)),
         qb ops w3 w4 w9 w14 (m ! (s ! 14)) (m ! (s ! 15)),
         qb ops w0 w5 w10 w15 (m ! (s ! 8)) (m ! (s ! 9)),
         qb ops w1 w6 w11 w12 (m ! (s ! 10)) (m ! (s ! 11)),
         qb ops w2 w7 w8 w13 (m ! (s ! 12)) (m ! (s ! 13)),
         qc ops w2 w7 w8 w13 (m ! (s ! 12)) (m ! (s ! 13)),
         qc ops w3 w4 w9 w14 (m ! (s ! 14)) (m ! (s ! 15)),
         qc ops w0 w5 w10 w15 (m ! (s ! 8)) (m ! (s ! 9)),
         qc ops w1 w6 w11 w12 (m ! (s ! 10)) (m ! (s ! 11)),
         qd ops w1 w6 w11 w12 (m ! (s ! 10)) (m ! (s ! 11)),
         qd ops w2 w7 w8 w13 (m ! (s ! 12)) (m ! (s ! 13)),
         qd ops w3 w4 w9 w14 (m ! (s ! 14)) (m ! (s ! 15)),
         qd ops w0 w5 w10 w15 (m ! (s ! 8)) (m ! (s ! 9))])"

lemma vec_round_fn_quarters: "vec_round_fn ops v m r = quarters ops v m (MSG_SCHEDULE ! r)"
  unfolding vec_round_fn_def quarters_def quarter_defs half_defs Let_def by (rule refl)


section \<open>One lane computes the portable round\<close>

definition word_ops :: "u32 simd_ops" where
  "word_ops = \<lparr>addv = (+), xorv = (XOR), rot16 = (\<lambda>x. rotr32 x 16), rot12 = (\<lambda>x. rotr32 x 12),
     rot8 = (\<lambda>x. rotr32 x 8), rot7 = (\<lambda>x. rotr32 x 7)\<rparr>"

lemma word_ops_simps [simp]:
  "addv word_ops = (+)" "xorv word_ops = (XOR)" "rot16 word_ops x = rotr32 x 16"
  "rot12 word_ops x = rotr32 x 12" "rot8 word_ops x = rotr32 x 8" "rot7 word_ops x = rotr32 x 7"
  by (simp_all add: word_ops_def)

lemma g_quarter:
  assumes "a < length st" "b < length st" "c < length st" "d < length st" "distinct [a, b, c, d]"
  shows "g st a b c d x y =
    st[a := qa word_ops (st ! a) (st ! b) (st ! c) (st ! d) x y,
       b := qb word_ops (st ! a) (st ! b) (st ! c) (st ! d) x y,
       c := qc word_ops (st ! a) (st ! b) (st ! c) (st ! d) x y,
       d := qd word_ops (st ! a) (st ! b) (st ! c) (st ! d) x y]"
proof -
  have sum: "u + x + v = u + v + x" for u v x :: u32 by (simp add: ac_simps)
  define A where "A = h1a word_ops (st ! a) (st ! b) (st ! c) (st ! d) x"
  define D where "D = h1d word_ops (st ! a) (st ! b) (st ! c) (st ! d) x"
  define C where "C = h1c word_ops (st ! a) (st ! b) (st ! c) (st ! d) x"
  define B where "B = h1b word_ops (st ! a) (st ! b) (st ! c) (st ! d) x"
  define A' where "A' = h2a word_ops A B C D y"
  define D' where "D' = h2d word_ops A B C D y"
  define C' where "C' = h2c word_ops A B C D y"
  define B' where "B' = h2b word_ops A B C D y"
  have A: "st ! a + st ! b + x = A" by (simp add: A_def h1a_def sum)
  have D: "rotr32 (st ! d XOR A) 16 = D" by (simp add: D_def h1d_def A_def)
  have C: "st ! c + D = C" by (simp add: C_def h1c_def D_def)
  have B: "rotr32 (st ! b XOR C) 12 = B" by (simp add: B_def h1b_def C_def)
  have A': "A + B + y = A'" by (simp add: A'_def h2a_def sum)
  have D': "rotr32 (D XOR A') 8 = D'" by (simp add: D'_def h2d_def A'_def)
  have C': "C + D' = C'" by (simp add: C'_def h2c_def D'_def)
  have B': "rotr32 (B XOR C') 7 = B'" by (simp add: B'_def h2b_def C'_def)
  have "g st a b c d x y =
    st[a := A, d := D, c := C, b := B, a := A', d := D', c := C', b := B']"
    using assms unfolding g_def
    by (simp add: Let_def A D C B A' D' C' B')
  also have "\<dots> = st[a := A', b := B', c := C', d := D']"
    using assms(5) by (simp add: list_update_swap)
  finally show ?thesis
    by (simp add: quarter_defs A'_def B'_def C'_def D'_def A_def [symmetric] B_def [symmetric]
        C_def [symmetric] D_def [symmetric])
qed

lemma round_fn_quarters:
  assumes "length state = 16"
  shows "round_fn state msg r = quarters word_ops state msg (MSG_SCHEDULE ! r)"
  using assms
  by (elim length16E) (simp add: round_fn_def quarters_def g_quarter Let_def)

lemma length_quarters [simp]: "length (quarters ops v m s) = 16"
  by (simp add: quarters_def Let_def)

lemma length_vec_round_fn [simp]: "length (vec_round_fn ops v m r) = 16"
  by (simp add: vec_round_fn_quarters)

text \<open>A map from vectors to words that respects the six operations respects the round.\<close>

lemma quarters_lane:
  assumes hom: "\<And>a b. h (addv ops a b) = h a + h b" "\<And>a b. h (xorv ops a b) = (h a XOR h b)"
    "\<And>a. h (rot16 ops a) = rotr32 (h a) 16" "\<And>a. h (rot12 ops a) = rotr32 (h a) 12"
    "\<And>a. h (rot8 ops a) = rotr32 (h a) 8" "\<And>a. h (rot7 ops a) = rotr32 (h a) 7"
    and len: "length v = 16" "length m = 16" "length s = 16" "\<forall>k\<in>set s. k < 16"
  shows "map h (quarters ops v m s) = quarters word_ops (map h v) (map h m) s"
proof -
  have q: "h (qa ops a b c d x y) = qa word_ops (h a) (h b) (h c) (h d) (h x) (h y)"
    "h (qb ops a b c d x y) = qb word_ops (h a) (h b) (h c) (h d) (h x) (h y)"
    "h (qc ops a b c d x y) = qc word_ops (h a) (h b) (h c) (h d) (h x) (h y)"
    "h (qd ops a b c d x y) = qd word_ops (h a) (h b) (h c) (h d) (h x) (h y)" for a b c d x y
    by (simp_all add: quarter_defs half_defs hom)
  have "s ! k < length m" if "k < 16" for k using len that by simp
  then show ?thesis
    by (simp add: quarters_def Let_def q len)
qed

section \<open>Instruction sets\<close>

text \<open>What a back end promises of its six operations, for each of its \<open>n\<close> lanes.\<close>

locale vector_isa =
  fixes ops :: "vec simd_ops" and n :: nat
  assumes add_lane: "i < n \<Longrightarrow> addv ops a b ! i = a ! i + b ! i"
    and xor_lane: "i < n \<Longrightarrow> xorv ops a b ! i = (a ! i XOR b ! i)"
    and rot16_lane: "i < n \<Longrightarrow> rot16 ops a ! i = rotr32 (a ! i) 16"
    and rot12_lane: "i < n \<Longrightarrow> rot12 ops a ! i = rotr32 (a ! i) 12"
    and rot8_lane: "i < n \<Longrightarrow> rot8 ops a ! i = rotr32 (a ! i) 8"
    and rot7_lane: "i < n \<Longrightarrow> rot7 ops a ! i = rotr32 (a ! i) 7"
begin

lemma round_lane:
  assumes "i < n" "length v = 16" "length m = 16" "r < 7"
  shows "map (\<lambda>x. x ! i) (vec_round_fn ops v m r) = round_fn (map (\<lambda>x. x ! i) v) (map (\<lambda>x. x ! i) m) r"
proof -
  have "r \<in> {0, 1, 2, 3, 4, 5, 6}" using assms(4) by auto
  then have s: "length (MSG_SCHEDULE ! r) = 16" "\<forall>k\<in>set (MSG_SCHEDULE ! r). k < 16"
    by (auto simp: MSG_SCHEDULE_def)
  show ?thesis
    unfolding vec_round_fn_quarters
    using assms by (subst quarters_lane [OF _ _ _ _ _ _ assms(2,3) s])
      (simp_all add: add_lane xor_lane rot16_lane rot12_lane rot8_lane rot7_lane round_fn_quarters)
qed

end

end
