(* ===== verification/Simd_Kernels.thy ===== *)
theory Simd_Kernels
  imports Simd
begin

text \<open>
  The multi-input kernels of the SIMD back ends, written once over the vector operations:
  \<open>wide_hash\<close> is the body of \<open>blake3_hash4/8/16_*\<close>, \<open>wide_xof\<close> that of
  \<open>blake3_xof4/8/16_avx512\<close>. The locales \<open>hash_kernel\<close> and \<open>xof_kernel\<close> state what a file's
  loads, counters and stores must do lane by lane, and prove that the kernel then equals the
  portable code on each input.
\<close>

section \<open>Several inputs at once\<close>

definition vec_rounds :: "'v simd_ops \<Rightarrow> 'v list \<Rightarrow> 'v list \<Rightarrow> 'v list" where
  "vec_rounds ops v msg_vecs =
    (let v = vec_round_fn ops v msg_vecs 0;
         v = vec_round_fn ops v msg_vecs 1;
         v = vec_round_fn ops v msg_vecs 2;
         v = vec_round_fn ops v msg_vecs 3;
         v = vec_round_fn ops v msg_vecs 4;
         v = vec_round_fn ops v msg_vecs 5;
         v = vec_round_fn ops v msg_vecs 6
     in v)"

definition wide_state ::
  "(u32 \<Rightarrow> 'v) \<Rightarrow> 'v list \<Rightarrow> 'v \<Rightarrow> 'v \<Rightarrow> 'v \<Rightarrow> 'v \<Rightarrow> 'v list" where
  "wide_state set1 h_vecs counter_low_vec counter_high_vec block_len_vec block_flags_vec =
    [h_vecs ! 0, h_vecs ! 1, h_vecs ! 2, h_vecs ! 3, h_vecs ! 4, h_vecs ! 5, h_vecs ! 6, h_vecs ! 7,
     set1 (IV ! 0), set1 (IV ! 1), set1 (IV ! 2), set1 (IV ! 3),
     counter_low_vec, counter_high_vec, block_len_vec, block_flags_vec]"

text \<open>
  The block loop of the \<open>hash4\<close>/\<open>hash8\<close>/\<open>hash16\<close> kernels; the last argument counts the
  blocks left, so \<open>block + 1 == blocks\<close> holds when it is one.
\<close>

fun wide_hash_loop ::
  "'v simd_ops \<Rightarrow> (u32 \<Rightarrow> 'v) \<Rightarrow> (bytes list \<Rightarrow> nat \<Rightarrow> 'v list) \<Rightarrow> bytes list \<Rightarrow> 'v \<Rightarrow> 'v \<Rightarrow> u8 \<Rightarrow> u8 \<Rightarrow>
   'v list \<Rightarrow> u8 \<Rightarrow> nat \<Rightarrow> nat \<Rightarrow> 'v list" where
  "wide_hash_loop ops set1 transpose_msg inputs clo chi flags flags_end h_vecs block_flags block 0 =
     h_vecs"
| "wide_hash_loop ops set1 transpose_msg inputs clo chi flags flags_end h_vecs block_flags block
     (Suc left) =
    (let block_flags = (if Suc left = 1 then block_flags OR flags_end else block_flags);
         block_len_vec = set1 (of_nat BLAKE3_BLOCK_LEN);
         block_flags_vec = set1 (ucast block_flags);
         msg_vecs = transpose_msg inputs (block * BLAKE3_BLOCK_LEN);
         v = wide_state set1 h_vecs clo chi block_len_vec block_flags_vec;
         v = vec_rounds ops v msg_vecs;
         h_vecs = [xorv ops (v ! 0) (v ! 8), xorv ops (v ! 1) (v ! 9),
                   xorv ops (v ! 2) (v ! 10), xorv ops (v ! 3) (v ! 11),
                   xorv ops (v ! 4) (v ! 12), xorv ops (v ! 5) (v ! 13),
                   xorv ops (v ! 6) (v ! 14), xorv ops (v ! 7) (v ! 15)]
     in wide_hash_loop ops set1 transpose_msg inputs clo chi flags flags_end h_vecs flags
          (block + 1) left)"

definition wide_hash ::
  "'v simd_ops \<Rightarrow> (u32 \<Rightarrow> 'v) \<Rightarrow> (bytes list \<Rightarrow> nat \<Rightarrow> 'v list) \<Rightarrow> (u64 \<Rightarrow> bool \<Rightarrow> 'v \<times> 'v) \<Rightarrow>
   ('v list \<Rightarrow> bytes) \<Rightarrow> bytes list \<Rightarrow> nat \<Rightarrow> words \<Rightarrow> u64 \<Rightarrow> bool \<Rightarrow> u8 \<Rightarrow> u8 \<Rightarrow> u8 \<Rightarrow> bytes" where
  "wide_hash ops set1 transpose_msg load_counters store_out inputs blocks key counter
     increment_counter flags flags_start flags_end =
    (let h_vecs = [set1 (key ! 0), set1 (key ! 1), set1 (key ! 2), set1 (key ! 3),
                   set1 (key ! 4), set1 (key ! 5), set1 (key ! 6), set1 (key ! 7)];
         (counter_low_vec, counter_high_vec) = load_counters counter increment_counter;
         block_flags = flags OR flags_start;
         h_vecs = wide_hash_loop ops set1 transpose_msg inputs counter_low_vec counter_high_vec
                    flags flags_end h_vecs block_flags 0 blocks
     in store_out h_vecs)"

text \<open>The \<open>xof4\<close>/\<open>xof8\<close>/\<open>xof16\<close> kernels: one block, consecutive output counters.\<close>

definition wide_xof ::
  "'v simd_ops \<Rightarrow> (u32 \<Rightarrow> 'v) \<Rightarrow> (u64 \<Rightarrow> bool \<Rightarrow> 'v \<times> 'v) \<Rightarrow> ('v list \<Rightarrow> bytes) \<Rightarrow>
   words \<Rightarrow> bytes \<Rightarrow> u8 \<Rightarrow> u64 \<Rightarrow> u8 \<Rightarrow> bytes" where
  "wide_xof ops set1 load_counters store_out cv block block_len counter flags =
    (let h_vecs = [set1 (cv ! 0), set1 (cv ! 1), set1 (cv ! 2), set1 (cv ! 3),
                   set1 (cv ! 4), set1 (cv ! 5), set1 (cv ! 6), set1 (cv ! 7)];
         block_words = load_block_words block;
         msg_vecs = map (\<lambda>i. set1 (block_words ! i)) [0..<16];
         (counter_low_vec, counter_high_vec) = load_counters counter True;
         block_len_vec = set1 (ucast block_len);
         block_flags_vec = set1 (ucast flags);
         v = wide_state set1 h_vecs counter_low_vec counter_high_vec block_len_vec block_flags_vec;
         v = vec_rounds ops v msg_vecs;
         v = map (\<lambda>i. xorv ops (v ! i) (v ! (i + 8))) [0..<8] @
             map (\<lambda>i. xorv ops (v ! (i + 8)) (h_vecs ! i)) [0..<8]
     in store_out v)"

lemma ucast_64: "ucast (64 :: u8) = (64 :: u32)"
  by simp

lemma upt_8: "[0..<8] = [0, 1, 2, 3, 4, 5, 6, 7]"
  by (simp add: upt_rec numeral_eq_Suc)

lemma load32_take: "4 \<le> k \<Longrightarrow> load32 (take k xs) = load32 xs"
  by (simp add: load32_def)

lemma load_block_words_take: "load_block_words (take 64 b) = load_block_words b"
  by (simp add: load_block_words_def drop_take load32_take)

lemma load_block_words_list:
  "load_block_words block =
     [load32 (drop (4 * 0) block), load32 (drop (4 * 1) block),
      load32 (drop (4 * 2) block), load32 (drop (4 * 3) block),
      load32 (drop (4 * 4) block), load32 (drop (4 * 5) block),
      load32 (drop (4 * 6) block), load32 (drop (4 * 7) block),
      load32 (drop (4 * 8) block), load32 (drop (4 * 9) block),
      load32 (drop (4 * 10) block), load32 (drop (4 * 11) block),
      load32 (drop (4 * 12) block), load32 (drop (4 * 13) block),
      load32 (drop (4 * 14) block), load32 (drop (4 * 15) block)]"
  by (simp add: load_block_words_def upt_rec)

definition start_state :: "words \<Rightarrow> u64 \<Rightarrow> u8 \<Rightarrow> u8 \<Rightarrow> words" where
  "start_state cv counter block_len flags =
    wide_state id cv (counter_low counter) (counter_high counter) (ucast block_len) (ucast flags)"

definition word_rounds :: "words \<Rightarrow> words \<Rightarrow> words" where
  "word_rounds st m = round_fn (round_fn (round_fn (round_fn (round_fn (round_fn (round_fn st m 0)
     m 1) m 2) m 3) m 4) m 5) m 6"

lemma compress_pre_rounds:
  "compress_pre cv block block_len counter flags =
    word_rounds (start_state cv counter block_len flags) (load_block_words block)"
  by (simp add: compress_pre_def Let_def word_rounds_def start_state_def wide_state_def
      load_block_words_list)

context vector_isa begin

lemma rounds_lane:
  assumes "i < n" "length v = 16" "length m = 16"
  shows "map (\<lambda>x. x ! i) (vec_rounds ops v m) = word_rounds (map (\<lambda>x. x ! i) v) (map (\<lambda>x. x ! i) m)"
  using assms by (simp add: vec_rounds_def word_rounds_def round_lane Let_def)

end

locale wide_kernel = vector_isa +
  fixes set1 :: "u32 \<Rightarrow> vec"
    and load_counters :: "u64 \<Rightarrow> bool \<Rightarrow> vec \<times> vec"
    and store_out :: "vec list \<Rightarrow> bytes"
  assumes set1_lane: "i < n \<Longrightarrow> set1 x ! i = x"
    and counters_lane: "i < n \<Longrightarrow> load_counters c inc = (lo, hi) \<Longrightarrow>
      lo ! i = counter_low (c + (if inc then of_nat i else 0)) \<and>
      hi ! i = counter_high (c + (if inc then of_nat i else 0))"

locale hash_kernel = wide_kernel +
  fixes transpose_msg :: "bytes list \<Rightarrow> nat \<Rightarrow> vec list"
  assumes length_transpose: "length (transpose_msg inputs off) = 16"
    and transpose_lane: "i < n \<Longrightarrow>
      map (\<lambda>x. x ! i) (transpose_msg inputs off) = load_block_words (drop off (inputs ! i))"
    and store_lanes: "length h_vecs = 8 \<Longrightarrow>
      store_out h_vecs = concat (map (\<lambda>i. bytes_of_words (map (\<lambda>x. x ! i) h_vecs)) [0..<n])"
begin

lemma loop_lane:
  assumes "i < n" "length h_vecs = 8"
    "lo ! i = counter_low c" "hi ! i = counter_high c"
  shows "length (wide_hash_loop ops set1 transpose_msg inputs lo hi flags fe h_vecs bf block left) = 8 \<and>
    map (\<lambda>x. x ! i) (wide_hash_loop ops set1 transpose_msg inputs lo hi flags fe h_vecs bf block left) =
    hash_one_loop blake3_compress_in_place_portable (map (\<lambda>x. x ! i) h_vecs)
      (drop (64 * block) (inputs ! i)) left c flags bf fe"
  using assms(2)
proof (induction left arbitrary: h_vecs bf block)
  case (Suc left)
  define bf' where "bf' = (if Suc left = 1 then bf OR fe else bf)"
  define v where "v = vec_rounds ops (wide_state set1 h_vecs lo hi (set1 64) (set1 (ucast bf')))
    (transpose_msg inputs (block * 64))"
  define h' where "h' = [xorv ops (v ! 0) (v ! 8), xorv ops (v ! 1) (v ! 9),
                   xorv ops (v ! 2) (v ! 10), xorv ops (v ! 3) (v ! 11),
                   xorv ops (v ! 4) (v ! 12), xorv ops (v ! 5) (v ! 13),
                   xorv ops (v ! 6) (v ! 14), xorv ops (v ! 7) (v ! 15)]"
  let ?in = "drop (64 * block) (inputs ! i)" and ?cv = "map (\<lambda>x. x ! i) h_vecs"
  have lv: "length v = 16" by (simp add: v_def vec_rounds_def Let_def)
  have "map (\<lambda>x. x ! i) (wide_state set1 h_vecs lo hi (set1 64) (set1 (ucast bf'))) =
      start_state ?cv c 64 bf'"
    using assms Suc.prems by (simp add: wide_state_def start_state_def set1_lane ucast_64)
  then have "map (\<lambda>x. x ! i) v = word_rounds (start_state ?cv c 64 bf') (load_block_words ?in)"
    unfolding v_def using assms(1)
    by (simp add: rounds_lane length_transpose transpose_lane wide_state_def mult.commute)
  then have pre: "map (\<lambda>x. x ! i) v = compress_pre ?cv (take 64 ?in) 64 c bf'"
    by (simp add: compress_pre_rounds load_block_words_take)
  have vi: "v ! k ! i = compress_pre ?cv (take 64 ?in) 64 c bf' ! k" if "k < 16" for k
    using pre lv that by (metis nth_map)
  have h': "map (\<lambda>x. x ! i) h' = blake3_compress_in_place_portable ?cv (take 64 ?in) 64 c bf'"
    using assms(1) by (simp add: h'_def xor_lane vi blake3_compress_in_place_portable_def Let_def)
  have l8: "length h' = 8" by (simp add: h'_def)
  have st: "wide_hash_loop ops set1 transpose_msg inputs lo hi flags fe h_vecs bf block (Suc left) =
      wide_hash_loop ops set1 transpose_msg inputs lo hi flags fe h' flags (block + 1) left"
    by (simp add: Let_def BLAKE3_BLOCK_LEN_def h'_def v_def bf'_def)
  have "hash_one_loop blake3_compress_in_place_portable ?cv ?in (Suc left) c flags bf fe =
      hash_one_loop blake3_compress_in_place_portable (map (\<lambda>x. x ! i) h')
        (drop (64 * (block + 1)) (inputs ! i)) left c flags flags fe"
    by (simp add: Let_def BLAKE3_BLOCK_LEN_def buf_read_def h' bf'_def add.commute)
  then show ?case using Suc.IH [OF l8, of flags "block + 1"] st by simp
qed simp

theorem wide_hash_portable:
  assumes "length key = 8" "n \<le> length inputs"
  shows "wide_hash ops set1 transpose_msg load_counters store_out inputs blocks key counter inc flags fs fe =
    blake3_hash_many_portable (take n inputs) blocks key counter inc flags fs fe"
proof -
  obtain lo hi where ctr: "load_counters counter inc = (lo, hi)" by fastforce
  define h0 where "h0 = [set1 (key ! 0), set1 (key ! 1), set1 (key ! 2), set1 (key ! 3),
                   set1 (key ! 4), set1 (key ! 5), set1 (key ! 6), set1 (key ! 7)]"
  define h where "h = wide_hash_loop ops set1 transpose_msg inputs lo hi flags fe h0 (flags OR fs) 0 blocks"
  have "map (\<lambda>x. x ! i) h0 = key" if "i < n" for i
    using assms(1) by (elim length8E) (simp add: h0_def set1_lane that)
  then have lane: "map (\<lambda>x. x ! i) h = hash_one_loop blake3_compress_in_place_portable key
      (inputs ! i) blocks (counter + (if inc then of_nat i else 0)) flags (flags OR fs) fe" if "i < n" for i
    using loop_lane [OF that, of h0 lo "counter + (if inc then of_nat i else 0)" hi inputs flags fe "flags OR fs" 0 blocks]
      counters_lane [OF that ctr] that
    by (simp add: h_def h0_def)
  have l8: "length h = 8"
  proof (cases blocks)
    case 0 then show ?thesis by (simp add: h_def h0_def)
  next
    case (Suc k)
    have "length (wide_hash_loop ops set1 transpose_msg inputs lo hi flags fe hv bf b l) = 8"
      if "length hv = 8" for hv bf b l
      using that by (induction l arbitrary: hv bf b) (simp_all add: Let_def)
    then show ?thesis by (simp add: h_def h0_def)
  qed
  have cv8: "length (hash_one_loop blake3_compress_in_place_portable key x blocks c flags bf fe) = 8" for x c bf
    using assms(1) by (intro length_hash_one_loop) (simp_all add: length_compress_in_place)
  have "wide_hash ops set1 transpose_msg load_counters store_out inputs blocks key counter inc flags fs fe = store_out h"
    by (simp add: wide_hash_def ctr h_def h0_def Let_def)
  also have "\<dots> = concat (map (\<lambda>i. hash_one_portable (inputs ! i) blocks key
      (counter + (if inc then of_nat i else 0)) flags fs fe) [0..<n])"
    unfolding store_lanes [OF l8]
    by (rule arg_cong [where f = concat], rule map_cong)
      (simp_all add: lane hash_one_portable_def Let_def store_cv_words_eq cv8)
  also have "\<dots> = blake3_hash_many_portable (take n inputs) blocks key counter inc flags fs fe"
    unfolding hash_many_portable_conv
    by (rule arg_cong [where f = concat], rule map_cong) (use assms(2) in auto)
  finally show ?thesis .
qed

end

locale xof_kernel = wide_kernel +
  assumes store_lanes16: "length v = 16 \<Longrightarrow>
      store_out v = concat (map (\<lambda>i. bytes_of_words (map (\<lambda>x. x ! i) v)) [0..<n])"
begin

theorem wide_xof_portable:
  assumes "length cv = 8" "length block = 64"
  shows "wide_xof ops set1 load_counters store_out cv block block_len counter flags =
    concat (map (\<lambda>i. blake3_compress_xof_portable cv block block_len (counter + of_nat i) flags) [0..<n])"
proof -
  obtain lo hi where ctr: "load_counters counter True = (lo, hi)" by fastforce
  define h where "h = [set1 (cv ! 0), set1 (cv ! 1), set1 (cv ! 2), set1 (cv ! 3),
                   set1 (cv ! 4), set1 (cv ! 5), set1 (cv ! 6), set1 (cv ! 7)]"
  define m where "m = map (\<lambda>i. set1 (load_block_words block ! i)) [0..<16]"
  define v where "v = vec_rounds ops (wide_state set1 h lo hi (set1 (ucast block_len)) (set1 (ucast flags))) m"
  define w where "w = map (\<lambda>i. xorv ops (v ! i) (v ! (i + 8))) [0..<8] @
             map (\<lambda>i. xorv ops (v ! (i + 8)) (h ! i)) [0..<8]"
  have lv: "length v = 16" by (simp add: v_def vec_rounds_def Let_def)
  have lane: "bytes_of_words (map (\<lambda>x. x ! i) w) =
      blake3_compress_xof_portable cv block block_len (counter + of_nat i) flags" if "i < n" for i
  proof -
    let ?pre = "compress_pre cv block block_len (counter + of_nat i) flags"
    have "map (\<lambda>x. x ! i) m = load_block_words block"
      using that by (intro nth_equalityI) (simp_all add: m_def set1_lane length_load_block_words)
    moreover have hk: "map (\<lambda>x. x ! i) h = cv"
      using assms(1) by (elim length8E) (simp add: h_def set1_lane that)
    moreover have "map (\<lambda>x. x ! i) (wide_state set1 h lo hi (set1 (ucast block_len)) (set1 (ucast flags))) =
        start_state cv (counter + of_nat i) block_len flags"
      using counters_lane [OF that ctr] that
      by (simp add: wide_state_def start_state_def set1_lane h_def)
    ultimately have "map (\<lambda>x. x ! i) v = ?pre"
      unfolding v_def using that by (subst rounds_lane) (simp_all add: compress_pre_rounds m_def wide_state_def)
    then have vi: "v ! k ! i = ?pre ! k" if "k < 16" for k using lv that by (metis nth_map)
    have hi: "h ! k ! i = cv ! k" if "k < 8" for k
      using hk assms(1) that by (metis length_map nth_map)
    have "map (\<lambda>x. x ! i) w = map (\<lambda>k. ?pre ! k XOR ?pre ! (k + 8)) [0..<8] @ map (\<lambda>k. ?pre ! (k + 8) XOR cv ! k) [0..<8]"
      using that by (simp add: w_def xor_lane vi hi)
    then show ?thesis
      by (simp add: blake3_compress_xof_portable_def Let_def upt_8 bytes_of_words_append)
  qed
  have "wide_xof ops set1 load_counters store_out cv block block_len counter flags = store_out w"
    by (simp add: wide_xof_def ctr w_def v_def m_def h_def Let_def)
  also have "\<dots> = concat (map (\<lambda>i. bytes_of_words (map (\<lambda>x. x ! i) w)) [0..<n])"
    by (rule store_lanes16) (simp add: w_def)
  also have "\<dots> = concat (map (\<lambda>i. blake3_compress_xof_portable cv block block_len (counter + of_nat i) flags) [0..<n])"
    by (rule arg_cong [where f = concat], rule map_cong) (simp_all add: lane)
  finally show ?thesis .
qed

end

end
