(* ===== verification/Simd_Rows.thy ===== *)
theory Simd_Rows
  imports Simd
begin

text \<open>
  The row-wise compression function of \<open>blake3_sse2.c\<close>, \<open>blake3_sse41.c\<close> and
  \<open>blake3_avx512.c\<close>: the sixteen state words are four registers, the four column quarter
  rounds run in parallel, and \<open>diagonalize\<close> rotates three rows so that the diagonal quarter
  rounds do too. The three files differ in the rotations and in the blend intrinsic, which
  are the parameters \<open>ops\<close> and \<open>blend\<close>. Rounds 2 to 7 are one block of code repeated; it is
  \<open>row_round\<close> here. The result is proved equal to the portable \<open>compress_pre\<close>.
\<close>

type_synonym rows = "vec \<times> vec \<times> vec \<times> vec"

definition row_g1 :: "vec simd_ops \<Rightarrow> rows \<Rightarrow> vec \<Rightarrow> rows" where
  "row_g1 ops rows m =
    (let (row0, row1, row2, row3) = rows;
         row0 = addv ops (addv ops row0 m) row1;
         row3 = xorv ops row3 row0;
         row3 = rot16 ops row3;
         row2 = addv ops row2 row3;
         row1 = xorv ops row1 row2;
         row1 = rot12 ops row1
     in (row0, row1, row2, row3))"

definition row_g2 :: "vec simd_ops \<Rightarrow> rows \<Rightarrow> vec \<Rightarrow> rows" where
  "row_g2 ops rows m =
    (let (row0, row1, row2, row3) = rows;
         row0 = addv ops (addv ops row0 m) row1;
         row3 = xorv ops row3 row0;
         row3 = rot8 ops row3;
         row2 = addv ops row2 row3;
         row1 = xorv ops row1 row2;
         row1 = rot7 ops row1
     in (row0, row1, row2, row3))"

definition diagonalize :: "rows \<Rightarrow> rows" where
  "diagonalize rows =
    (let (row0, row1, row2, row3) = rows
     in (mm_shuffle_epi32 row0 (MM_SHUFFLE 2 1 0 3), row1,
         mm_shuffle_epi32 row2 (MM_SHUFFLE 0 3 2 1),
         mm_shuffle_epi32 row3 (MM_SHUFFLE 1 0 3 2)))"

definition undiagonalize :: "rows \<Rightarrow> rows" where
  "undiagonalize rows =
    (let (row0, row1, row2, row3) = rows
     in (mm_shuffle_epi32 row0 (MM_SHUFFLE 0 3 2 1), row1,
         mm_shuffle_epi32 row2 (MM_SHUFFLE 2 1 0 3),
         mm_shuffle_epi32 row3 (MM_SHUFFLE 1 0 3 2)))"

definition row_round1 :: "vec simd_ops \<Rightarrow> rows \<Rightarrow> rows \<Rightarrow> rows \<times> rows" where
  "row_round1 ops rows m =
    (let (m0, m1, m2, m3) = m;
         t0 = mm_shuffle_ps2 m0 m1 (MM_SHUFFLE 2 0 2 0);
         rows = row_g1 ops rows t0;
         t1 = mm_shuffle_ps2 m0 m1 (MM_SHUFFLE 3 1 3 1);
         rows = row_g2 ops rows t1;
         rows = diagonalize rows;
         t2 = mm_shuffle_ps2 m2 m3 (MM_SHUFFLE 2 0 2 0);
         t2 = mm_shuffle_epi32 t2 (MM_SHUFFLE 2 1 0 3);
         rows = row_g1 ops rows t2;
         t3 = mm_shuffle_ps2 m2 m3 (MM_SHUFFLE 3 1 3 1);
         t3 = mm_shuffle_epi32 t3 (MM_SHUFFLE 2 1 0 3);
         rows = row_g2 ops rows t3;
         rows = undiagonalize rows
     in (rows, (t0, t1, t2, t3)))"

definition row_round ::
  "vec simd_ops \<Rightarrow> (vec \<Rightarrow> vec \<Rightarrow> nat \<Rightarrow> vec) \<Rightarrow> rows \<Rightarrow> rows \<Rightarrow> rows \<times> rows" where
  "row_round ops blend rows m =
    (let (m0, m1, m2, m3) = m;
         t0 = mm_shuffle_ps2 m0 m1 (MM_SHUFFLE 3 1 1 2);
         t0 = mm_shuffle_epi32 t0 (MM_SHUFFLE 0 3 2 1);
         rows = row_g1 ops rows t0;
         t1 = mm_shuffle_ps2 m2 m3 (MM_SHUFFLE 3 3 2 2);
         tt = mm_shuffle_epi32 m0 (MM_SHUFFLE 0 0 3 3);
         t1 = blend tt t1 0xCC;
         rows = row_g2 ops rows t1;
         rows = diagonalize rows;
         t2 = mm_unpacklo_epi64 4 m3 m1;
         tt = blend t2 m2 0xC0;
         t2 = mm_shuffle_epi32 tt (MM_SHUFFLE 1 3 2 0);
         rows = row_g1 ops rows t2;
         t3 = mm_unpackhi_epi32 4 m1 m3;
         tt = mm_unpacklo_epi32 4 m2 t3;
         t3 = mm_shuffle_epi32 tt (MM_SHUFFLE 0 1 3 2);
         rows = row_g2 ops rows t3;
         rows = undiagonalize rows
     in (rows, (t0, t1, t2, t3)))"

text \<open>\<open>loadu\<close> reads the words of \<open>cv\<close> through a byte pointer.\<close>

definition row_compress_pre ::
  "vec simd_ops \<Rightarrow> (vec \<Rightarrow> vec \<Rightarrow> nat \<Rightarrow> vec) \<Rightarrow> words \<Rightarrow> bytes \<Rightarrow> u8 \<Rightarrow> u64 \<Rightarrow> u8 \<Rightarrow> rows" where
  "row_compress_pre ops blend cv block block_len counter flags =
    (let rows = (mm_loadu 4 (bytes_of_words cv), mm_loadu 4 (bytes_of_words (drop 4 cv)),
                 [IV ! 0, IV ! 1, IV ! 2, IV ! 3],
                 [counter_low counter, counter_high counter, ucast block_len, ucast flags]);
         m = (mm_loadu 4 (drop (16 * 0) block), mm_loadu 4 (drop (16 * 1) block),
              mm_loadu 4 (drop (16 * 2) block), mm_loadu 4 (drop (16 * 3) block));
         (rows, m) = row_round1 ops rows m;
         (rows, m) = row_round ops blend rows m;
         (rows, m) = row_round ops blend rows m;
         (rows, m) = row_round ops blend rows m;
         (rows, m) = row_round ops blend rows m;
         (rows, m) = row_round ops blend rows m;
         (rows, m) = row_round ops blend rows m
     in rows)"

definition row_compress_in_place ::
  "vec simd_ops \<Rightarrow> (vec \<Rightarrow> vec \<Rightarrow> nat \<Rightarrow> vec) \<Rightarrow> words \<Rightarrow> bytes \<Rightarrow> u8 \<Rightarrow> u64 \<Rightarrow> u8 \<Rightarrow> words" where
  "row_compress_in_place ops blend cv block block_len counter flags =
    (let (row0, row1, row2, row3) = row_compress_pre ops blend cv block block_len counter flags
     in words_of_bytes (mm_storeu (xorv ops row0 row2)) @
        words_of_bytes (mm_storeu (xorv ops row1 row3)))"

definition row_compress_xof ::
  "vec simd_ops \<Rightarrow> (vec \<Rightarrow> vec \<Rightarrow> nat \<Rightarrow> vec) \<Rightarrow> words \<Rightarrow> bytes \<Rightarrow> u8 \<Rightarrow> u64 \<Rightarrow> u8 \<Rightarrow> bytes" where
  "row_compress_xof ops blend cv block block_len counter flags =
    (let (row0, row1, row2, row3) = row_compress_pre ops blend cv block block_len counter flags
     in mm_storeu (xorv ops row0 row2) @
        mm_storeu (xorv ops row1 row3) @
        mm_storeu (xorv ops row2 (mm_loadu 4 (bytes_of_words cv))) @
        mm_storeu (xorv ops row3 (mm_loadu 4 (bytes_of_words (drop 4 cv)))))"

section \<open>Message order\<close>

definition id16 :: "nat list" where
  "id16 = [0, 1, 2, 3, 4, 5, 6, 7, 8, 9, 10, 11, 12, 13, 14, 15]"

lemma quarters_permute:
  "length s = 16 \<Longrightarrow> quarters ops v m s = quarters ops v (map (\<lambda>k. m ! k) s) id16"
  by (simp add: quarters_def Let_def id16_def)

text \<open>The message words of a round in the order the four registers hold them.\<close>

definition row_order :: "words \<Rightarrow> rows" where
  "row_order M = ([M ! 0, M ! 2, M ! 4, M ! 6], [M ! 1, M ! 3, M ! 5, M ! 7],
    [M ! 14, M ! 8, M ! 10, M ! 12], [M ! 15, M ! 9, M ! 11, M ! 13])"

definition rows_of :: "words \<Rightarrow> rows" where
  "rows_of st = ([st ! 0, st ! 1, st ! 2, st ! 3], [st ! 4, st ! 5, st ! 6, st ! 7],
    [st ! 8, st ! 9, st ! 10, st ! 11], [st ! 12, st ! 13, st ! 14, st ! 15])"

definition msg_of_round :: "words \<Rightarrow> nat \<Rightarrow> words" where
  "msg_of_round msg r = map (\<lambda>k. msg ! k) (MSG_SCHEDULE ! r)"

lemma schedule_step:
  assumes "r < 6"
  shows "MSG_SCHEDULE ! Suc r = map (\<lambda>k. MSG_SCHEDULE ! r ! k) (MSG_SCHEDULE ! 1)"
proof -
  have "r \<in> {0, 1, 2, 3, 4, 5}" using assms by auto
  then show ?thesis by (elim insertE) (simp_all add: MSG_SCHEDULE_def)
qed

lemma schedule_shape:
  assumes "r < 7"
  shows "length (MSG_SCHEDULE ! r) = 16" "\<forall>k\<in>set (MSG_SCHEDULE ! r). k < 16"
proof -
  have "r \<in> {0, 1, 2, 3, 4, 5, 6}" using assms by auto
  then show "length (MSG_SCHEDULE ! r) = 16" "\<forall>k\<in>set (MSG_SCHEDULE ! r). k < 16"
    by (auto simp: MSG_SCHEDULE_def)
qed

lemma msg_of_round_step:
  assumes "r < 6"
  shows "msg_of_round msg (Suc r) = map (\<lambda>k. msg_of_round msg r ! k) (MSG_SCHEDULE ! 1)"
  using schedule_shape [of r] schedule_shape [of 1] assms
  unfolding msg_of_round_def schedule_step [OF assms] by simp

lemma round_fn_msg:
  "length st = 16 \<Longrightarrow> r < 7 \<Longrightarrow> round_fn st msg r = quarters word_ops st (msg_of_round msg r) id16"
  by (simp add: round_fn_quarters quarters_permute [OF schedule_shape(1)] msg_of_round_def)

section \<open>Rows of four lanes\<close>

locale row_isa = vector_isa ops 4 for ops +
  fixes blend :: "vec \<Rightarrow> vec \<Rightarrow> nat \<Rightarrow> vec"
  assumes lens: "length (addv ops a b) = 4" "length (xorv ops a b) = 4" "length (rot16 ops a) = 4"
      "length (rot12 ops a) = 4" "length (rot8 ops a) = 4" "length (rot7 ops a) = 4"
    and blend_CC: "blend a b 0xCC = [a ! 0, b ! 1, a ! 2, b ! 3]"
    and blend_C0: "blend a b 0xC0 = [a ! 0, a ! 1, a ! 2, b ! 3]"
begin

lemma list4: "length xs = 4 \<Longrightarrow> xs = [xs ! 0, xs ! 1, xs ! 2, xs ! 3]"
  by (elim length4E) (simp add: numeral_2_eq_2 numeral_3_eq_3)

lemma ops4:
  "addv ops a b = [a ! 0 + b ! 0, a ! 1 + b ! 1, a ! 2 + b ! 2, a ! 3 + b ! 3]"
  "xorv ops a b = [a ! 0 XOR b ! 0, a ! 1 XOR b ! 1, a ! 2 XOR b ! 2, a ! 3 XOR b ! 3]"
  "rot16 ops a = [rotr32 (a ! 0) 16, rotr32 (a ! 1) 16, rotr32 (a ! 2) 16, rotr32 (a ! 3) 16]"
  "rot12 ops a = [rotr32 (a ! 0) 12, rotr32 (a ! 1) 12, rotr32 (a ! 2) 12, rotr32 (a ! 3) 12]"
  "rot8 ops a = [rotr32 (a ! 0) 8, rotr32 (a ! 1) 8, rotr32 (a ! 2) 8, rotr32 (a ! 3) 8]"
  "rot7 ops a = [rotr32 (a ! 0) 7, rotr32 (a ! 1) 7, rotr32 (a ! 2) 7, rotr32 (a ! 3) 7]"
  using list4 [OF lens(1), of a b] list4 [OF lens(2), of a b] list4 [OF lens(3), of a]
    list4 [OF lens(4), of a] list4 [OF lens(5), of a] list4 [OF lens(6), of a]
  by (simp_all add: add_lane xor_lane rot16_lane rot12_lane rot8_lane rot7_lane)

lemma row_g_lanes:
  "row_g1 ops ([a0, a1, a2, a3], [b0, b1, b2, b3], [c0, c1, c2, c3], [d0, d1, d2, d3]) [m0, m1, m2, m3] =
    ([h1a word_ops a0 b0 c0 d0 m0, h1a word_ops a1 b1 c1 d1 m1, h1a word_ops a2 b2 c2 d2 m2, h1a word_ops a3 b3 c3 d3 m3],
     [h1b word_ops a0 b0 c0 d0 m0, h1b word_ops a1 b1 c1 d1 m1, h1b word_ops a2 b2 c2 d2 m2, h1b word_ops a3 b3 c3 d3 m3],
     [h1c word_ops a0 b0 c0 d0 m0, h1c word_ops a1 b1 c1 d1 m1, h1c word_ops a2 b2 c2 d2 m2, h1c word_ops a3 b3 c3 d3 m3],
     [h1d word_ops a0 b0 c0 d0 m0, h1d word_ops a1 b1 c1 d1 m1, h1d word_ops a2 b2 c2 d2 m2, h1d word_ops a3 b3 c3 d3 m3])"
  "row_g2 ops ([a0, a1, a2, a3], [b0, b1, b2, b3], [c0, c1, c2, c3], [d0, d1, d2, d3]) [m0, m1, m2, m3] =
    ([h2a word_ops a0 b0 c0 d0 m0, h2a word_ops a1 b1 c1 d1 m1, h2a word_ops a2 b2 c2 d2 m2, h2a word_ops a3 b3 c3 d3 m3],
     [h2b word_ops a0 b0 c0 d0 m0, h2b word_ops a1 b1 c1 d1 m1, h2b word_ops a2 b2 c2 d2 m2, h2b word_ops a3 b3 c3 d3 m3],
     [h2c word_ops a0 b0 c0 d0 m0, h2c word_ops a1 b1 c1 d1 m1, h2c word_ops a2 b2 c2 d2 m2, h2c word_ops a3 b3 c3 d3 m3],
     [h2d word_ops a0 b0 c0 d0 m0, h2d word_ops a1 b1 c1 d1 m1, h2d word_ops a2 b2 c2 d2 m2, h2d word_ops a3 b3 c3 d3 m3])"
  by (simp_all add: row_g1_def row_g2_def ops4 half_defs)

lemma row_round1_eq:
  "row_round1 ops (rows_of st) ([M ! 0, M ! 1, M ! 2, M ! 3], [M ! 4, M ! 5, M ! 6, M ! 7],
      [M ! 8, M ! 9, M ! 10, M ! 11], [M ! 12, M ! 13, M ! 14, M ! 15]) =
    (rows_of (quarters word_ops st M id16), row_order M)"
  by (simp add: row_round1_def rows_of_def row_order_def quarters_def id16_def Let_def row_g_lanes
      mm_shuffle_ps2_def mm_shuffle_epi32_def diagonalize_def undiagonalize_def MM_SHUFFLE_def sel2_def
      quarter_defs)

lemma row_round_eq:
  "row_round ops blend (rows_of st) (row_order M) =
    (let M' = map (\<lambda>k. M ! k) (MSG_SCHEDULE ! 1)
     in (rows_of (quarters word_ops st M' id16), row_order M'))"
  by (simp add: row_round_def rows_of_def row_order_def quarters_def id16_def Let_def row_g_lanes
      mm_shuffle_ps2_def mm_shuffle_epi32_def diagonalize_def undiagonalize_def MM_SHUFFLE_def sel2_def
      mm_unpacklo_epi64_def mm_unpackhi_epi32_def mm_unpacklo_epi32_def lanes_4 blend_CC blend_C0
      quarter_defs MSG_SCHEDULE_def)

lemma loadu_words: "4 \<le> length ws \<Longrightarrow> mm_loadu 4 (bytes_of_words ws) = [ws ! 0, ws ! 1, ws ! 2, ws ! 3]"
proof -
  assume "4 \<le> length ws"
  then have "length (take 4 ws) = 4" by simp
  then obtain a b c d where "take 4 ws = [a, b, c, d]" by (rule length4E)
  then obtain r where "ws = a # b # c # d # r"
    by (metis append_Cons append_Nil append_take_drop_id)
  then show ?thesis
    by (simp add: mm_loadu_def lanes_4 length_store32 numeral_2_eq_2 numeral_3_eq_3)
qed

lemma row_rounds_eq:
  assumes "length st = 16" "r < 6"
  shows "row_round ops blend (rows_of st) (row_order (msg_of_round msg r)) =
    (rows_of (round_fn st msg (Suc r)), row_order (msg_of_round msg (Suc r)))"
  unfolding row_round_eq Let_def
  by (simp add: msg_of_round_step [OF assms(2), symmetric] round_fn_msg assms del: One_nat_def)

theorem row_compress_pre_eq:
  assumes "length cv = 8"
  shows "row_compress_pre ops blend cv block block_len counter flags =
    rows_of (compress_pre cv block block_len counter flags)"
proof -
  define msg where "msg = load_block_words block"
  define st where "st = [cv ! 0, cv ! 1, cv ! 2, cv ! 3, cv ! 4, cv ! 5, cv ! 6, cv ! 7,
    IV ! 0, IV ! 1, IV ! 2, IV ! 3, counter_low counter, counter_high counter, ucast block_len, ucast flags]"
  have st16: "length st = 16" by (simp add: st_def)
  have m0: "msg_of_round msg 0 = msg"
    by (rule nth_equalityI) (auto simp: msg_of_round_def MSG_SCHEDULE_def msg_def load_block_words_def nth_Cons' upt_rec)
  have msg: "mm_loadu 4 (drop (16 * 0) block) = [msg ! 0, msg ! 1, msg ! 2, msg ! 3]"
    "mm_loadu 4 (drop (16 * 1) block) = [msg ! 4, msg ! 5, msg ! 6, msg ! 7]"
    "mm_loadu 4 (drop (16 * 2) block) = [msg ! 8, msg ! 9, msg ! 10, msg ! 11]"
    "mm_loadu 4 (drop (16 * 3) block) = [msg ! 12, msg ! 13, msg ! 14, msg ! 15]"
    by (simp_all add: msg_def load_block_words_def mm_loadu_def lanes_4)
  have start: "(mm_loadu 4 (bytes_of_words cv), mm_loadu 4 (bytes_of_words (drop 4 cv)),
      [IV ! 0, IV ! 1, IV ! 2, IV ! 3],
      [counter_low counter, counter_high counter, ucast block_len, ucast flags]) = rows_of st"
    using assms by (simp add: loadu_words rows_of_def st_def)
  have r1: "row_round1 ops (rows_of st) ([msg ! 0, msg ! 1, msg ! 2, msg ! 3], [msg ! 4, msg ! 5, msg ! 6, msg ! 7],
      [msg ! 8, msg ! 9, msg ! 10, msg ! 11], [msg ! 12, msg ! 13, msg ! 14, msg ! 15]) =
    (rows_of (round_fn st msg 0), row_order (msg_of_round msg 0))"
    unfolding row_round1_eq by (simp add: round_fn_msg st16 m0)
  have "compress_pre cv block block_len counter flags =
    round_fn (round_fn (round_fn (round_fn (round_fn (round_fn (round_fn st msg 0) msg 1) msg 2) msg 3) msg 4) msg 5) msg 6"
    by (simp add: compress_pre_def Let_def st_def msg_def load_block_words_def upt_rec)
  then show ?thesis
    unfolding row_compress_pre_def start msg r1 Let_def prod.case
    by (simp add: row_rounds_eq length_round_fn st16 eval_nat_numeral)
qed

theorem row_compress_in_place_eq:
  assumes "length cv = 8"
  shows "row_compress_in_place ops blend cv block block_len counter flags =
    blake3_compress_in_place_portable cv block block_len counter flags"
  by (simp add: row_compress_in_place_def row_compress_pre_eq [OF assms] rows_of_def ops4 mm_storeu_def
      blake3_compress_in_place_portable_def Let_def del: bytes_of_words_simps)

theorem row_compress_xof_eq:
  assumes "length cv = 8"
  shows "row_compress_xof ops blend cv block block_len counter flags =
    blake3_compress_xof_portable cv block block_len counter flags"
  using assms
  by (simp add: row_compress_xof_def row_compress_pre_eq [OF assms] rows_of_def ops4 mm_storeu_def
      blake3_compress_xof_portable_def Let_def loadu_words)

end

end
