(* ===== verification/Simd_Lanes.thy ===== *)
theory Simd_Lanes
  imports Simd_Kernels Simd_Rows
begin

text \<open>
  Facts about single lanes that the back ends share: each way the files have of writing a
  rotation is \<open>rotr32\<close>, each way of computing the 64-bit counters from 32-bit halves carries
  correctly, and the in-register transpositions at the three widths are transpositions.
\<close>

section \<open>Rotations\<close>

lemma swap_halves:
  "(ucast (ucast (drop_bit 16 w) :: u16) OR push_bit 16 (ucast (ucast w :: u16)) :: u32) = rotr32 w 16"
  unfolding rotr32_def
  by (rule bit_word_eqI) (auto simp: bit_simps dest: bit_imp_le_length)

lemma join_halves: "(ucast (ucast w :: u16) OR push_bit 16 (ucast (ucast (drop_bit 16 w) :: u16)) :: u32) = w"
  by (rule bit_word_eqI) (auto simp: bit_simps dest: bit_imp_le_length)

lemma half_of_join:
  "(ucast (ucast (a :: u16) OR push_bit 16 (ucast (b :: u16)) :: u32) :: u16) = a"
  "(ucast (drop_bit 16 (ucast (a :: u16) OR push_bit 16 (ucast (b :: u16)) :: u32)) :: u16) = b"
  by (rule bit_word_eqI, auto simp: bit_simps dest: bit_imp_le_length)+

lemma rotr32_xor:
  "0 < k \<Longrightarrow> k < 32 \<Longrightarrow> drop_bit k w XOR push_bit (32 - k) w = rotr32 w k"
  unfolding rotr32_def
  by (rule bit_word_eqI) (use bit_imp_le_length [of w] in \<open>fastforce simp: bit_simps\<close>)

lemma word_rotr_rotr32: "0 < k \<Longrightarrow> k < 32 \<Longrightarrow> word_rotr k w = rotr32 w k"
proof (rule bit_word_eqI)
  fix i assume k: "0 < k" "k < 32" and i: "i < LENGTH(32)"
  then have "bit (word_rotr k w) i = bit w ((i + k) mod 32)" by (simp add: bit_word_rotr_iff)
  moreover have "bit (rotr32 w k) i = bit w ((i + k) mod 32)"
  proof (cases "i + k < 32")
    case True
    then show ?thesis using k i by (auto simp: rotr32_def bit_simps add.commute)
  next
    case False
    then have "(i + k) mod 32 = i - (32 - k)" using k i by (simp add: le_mod_geq)
    then show ?thesis using False k i bit_imp_le_length [of w "k + i"]
      by (auto simp: rotr32_def bit_simps)
  qed
  ultimately show "bit (word_rotr k w) i = bit (rotr32 w k) i" by simp
qed

lemma rot8_bytes:
  "load32 [ucast (drop_bit 8 w), ucast (drop_bit 16 w), ucast (drop_bit 24 w), ucast w] = rotr32 w 8"
proof (rule bit_word_eqI)
  fix n assume "n < LENGTH(32)"
  then consider "n < 8" | "8 \<le> n \<and> n < 16" | "16 \<le> n \<and> n < 24" | "24 \<le> n \<and> n < 32"
    by fastforce
  then show "bit (load32 [ucast (drop_bit 8 w), ucast (drop_bit 16 w), ucast (drop_bit 24 w), ucast w]) n =
      bit (rotr32 w 8) n"
    by cases (auto simp: load32_def rotr32_def bit_simps dest: bit_imp_le_length)
qed

lemma rot16_bytes:
  "load32 [ucast (drop_bit 16 w), ucast (drop_bit 24 w), ucast w, ucast (drop_bit 8 w)] = rotr32 w 16"
proof (rule bit_word_eqI)
  fix n assume "n < LENGTH(32)"
  then consider "n < 8" | "8 \<le> n \<and> n < 16" | "16 \<le> n \<and> n < 24" | "24 \<le> n \<and> n < 32"
    by fastforce
  then show "bit (load32 [ucast (drop_bit 16 w), ucast (drop_bit 24 w), ucast w, ucast (drop_bit 8 w)]) n =
      bit (rotr32 w 16) n"
    by cases (auto simp: load32_def rotr32_def bit_simps dest: bit_imp_le_length)
qed

section \<open>Counters\<close>

lemma unat_ucast_32: "unat (ucast (x :: u64) :: u32) = unat x mod 2 ^ 32"
  by (simp add: unsigned_ucast_eq take_bit_eq_mod)

lemma unat_low_add:
  "i < 2 ^ 32 \<Longrightarrow> unat (ucast (c :: u64) + of_nat i :: u32) = (unat c mod 2 ^ 32 + i) mod 2 ^ 32"
  by (simp add: unat_word_ariths unat_ucast_32 unat_of_nat_small)

lemma unat_counter_add: "i < 2 ^ 32 \<Longrightarrow> unat ((c :: u64) + of_nat i) = (unat c + i) mod 2 ^ 64"
  by (simp add: unat_word_ariths unat_of_nat_small)

lemma counter_low_add:
  assumes "i < 2 ^ 32"
  shows "counter_low (c + of_nat i) = ucast c + of_nat i"
proof -
  have "unat (counter_low (c + of_nat i)) = ((unat c + i) mod 2 ^ 64) mod 2 ^ 32"
    unfolding counter_low_def unat_ucast_32 unat_counter_add [OF assms] ..
  also have "\<dots> = (unat c + i) mod 2 ^ 32" by (rule mod_mod_cancel) simp
  also have "\<dots> = (unat c mod 2 ^ 32 + i) mod 2 ^ 32" by (simp add: mod_add_left_eq)
  finally show ?thesis unfolding word_unat_eq_iff unat_low_add [OF assms] .
qed

lemma unat_high: "unat (ucast (drop_bit 32 (c :: u64)) :: u32) = unat c div 2 ^ 32"
proof -
  have "unat c < 2 ^ 64" using unsigned_less [of c] by simp
  then have "unat c div 2 ^ 32 < 2 ^ 32" by (simp add: div_less_iff_less_mult)
  moreover have "unat (drop_bit 32 c) = unat c div 2 ^ 32"
    by (metis unat_drop_bit_eq drop_bit_eq_div)
  ultimately show ?thesis by (simp only: unat_ucast_32 mod_less)
qed

lemma wrap_less: "(m::nat) < k \<Longrightarrow> i < k \<Longrightarrow> (m + i) mod k < i \<longleftrightarrow> k \<le> m + i"
  by (cases "k \<le> m + i") (auto simp: le_mod_geq)

lemma low_carry_iff:
  assumes "i < 2 ^ 32"
  shows "ucast (c :: u64) + of_nat i < (of_nat i :: u32) \<longleftrightarrow> 2 ^ 32 \<le> unat c mod 2 ^ 32 + i"
proof -
  have i: "unat (of_nat i :: u32) = i" using assms by (intro unat_of_nat_small) simp
  have "(unat c mod 2 ^ 32 + i) mod 2 ^ 32 < i \<longleftrightarrow> 2 ^ 32 \<le> unat c mod 2 ^ 32 + i"
    by (rule wrap_less) (use assms in simp_all)
  then show ?thesis unfolding word_less_nat_alt unat_low_add [OF assms] i .
qed

lemma counter_high_add:
  assumes "i < 2 ^ 32"
  shows "counter_high (c + of_nat i) =
    ucast (drop_bit 32 c) + (if 2 ^ 32 \<le> unat c mod 2 ^ 32 + i then 1 else 0)"
proof -
  let ?l = "unat c mod 2 ^ 32" and ?h = "unat c div 2 ^ 32"
  have c: "unat c = ?h * 2 ^ 32 + ?l" by simp
  have q: "(?l + i) div 2 ^ 32 = (if 2 ^ 32 \<le> ?l + i then 1 else 0)"
  proof -
    have "?l < 2 ^ 32" by simp
    then have "2 ^ 32 \<le> ?l + i \<Longrightarrow> (?l + i) div 2 ^ 32 = 1"
      using assms by (intro div_nat_eqI) auto
    moreover have "\<not> 2 ^ 32 \<le> ?l + i \<Longrightarrow> (?l + i) div 2 ^ 32 = 0" by simp
    ultimately show ?thesis by auto
  qed
  have m: "x mod 2 ^ 64 div 2 ^ 32 = x div 2 ^ 32 mod 2 ^ 32" for x :: nat
  proof -
    have "x mod (2 ^ 32 * 2 ^ 32) = 2 ^ 32 * (x div 2 ^ 32 mod 2 ^ 32) + x mod 2 ^ 32"
      by (rule mod_mult2_eq)
    then show ?thesis by simp
  qed
  have "unat (counter_high (c + of_nat i)) = (unat c + i) mod 2 ^ 64 div 2 ^ 32"
    unfolding counter_high_def unat_high unat_counter_add [OF assms] ..
  also have "\<dots> = (unat c + i) div 2 ^ 32 mod 2 ^ 32" by (rule m)
  also have "unat c + i = (?l + i) + ?h * 2 ^ 32" using c by simp
  also have "((?l + i) + ?h * 2 ^ 32) div 2 ^ 32 = ?h + (?l + i) div 2 ^ 32"
    by (rule div_mult_self1) simp
  finally have "unat (counter_high (c + of_nat i)) = (?h + (if 2 ^ 32 \<le> ?l + i then 1 else 0)) mod 2 ^ 32"
    unfolding q by (simp add: add.commute)
  moreover have "unat (ucast (drop_bit 32 c) + (if 2 ^ 32 \<le> ?l + i then 1 else 0) :: u32) =
      (?h + (if 2 ^ 32 \<le> ?l + i then 1 else 0)) mod 2 ^ 32"
    unfolding unat_word_ariths unat_high by simp
  ultimately show ?thesis unfolding word_unat_eq_iff by simp
qed

lemma bit_2_31: "bit (0x80000000 :: u32) n \<longleftrightarrow> n = 31"
proof -
  have "(0x80000000 :: u32) = 2 ^ 31" by simp
  then show ?thesis by (simp only: bit_exp_iff possible_bit_word) auto
qed

lemma top_bit_iff: "bit (w :: u32) 31 \<longleftrightarrow> 2 ^ 31 \<le> unat w"
proof -
  have "(\<forall>j\<ge>31. \<not> bit w j) \<longleftrightarrow> \<not> bit w 31"
  proof (intro iffI allI impI)
    fix j :: nat assume "\<not> bit w 31" "31 \<le> j"
    then show "\<not> bit w j" using bit_imp_le_length [of w j] by (cases "j = 31") auto
  qed simp
  then have "unat w < 2 ^ 31 \<longleftrightarrow> \<not> bit w 31" by (simp only: bits_bound_iff)
  then show ?thesis by auto
qed

lemma u32_low_half:
  assumes "\<not> bit (y :: u32) 31"
  shows "y XOR 0x80000000 = y + 0x80000000" "uint y < 2 ^ 31" "uint (y XOR 0x80000000) = uint y + 2 ^ 31"
proof -
  have z: "y AND 0x80000000 = 0"
  proof (rule bit_word_eqI)
    show "bit (y AND 0x80000000) n = bit (0 :: u32) n" for n
      unfolding bit_and_iff bit_2_31 using assms by auto
  qed
  then show x: "y XOR 0x80000000 = y + 0x80000000"
    by (simp only: or_eq_xor_disjoint [OF z] disjunctive_add_eq_or [OF z])
  have "unat y < 2 ^ 31" using assms by (simp add: top_bit_iff)
  then have "int (unat y) < int (2 ^ 31)" by (simp only: of_nat_less_iff)
  then show lt: "uint y < 2 ^ 31" by (simp only: uint_nat of_nat_power of_nat_numeral)
  then show "uint (y XOR 0x80000000) = uint y + 2 ^ 31"
    unfolding x uint_word_ariths by simp
qed

lemma sint_conv: "sint (w :: u32) = uint w - 2 ^ 32 * of_bool (bit w 31)"
  using uint_bounded [of w] by (simp add: sint_uint signed_take_bit_eq_take_bit_minus take_bit_int_eq_self bit_uint_iff)

lemma sint_flip: "sint (x XOR 0x80000000 :: u32) = uint x - 2 ^ 31"
proof (cases "bit x 31")
  case True
  define y where "y = x XOR 0x80000000"
  have "bit (0x80000000 :: u32) 31" by (simp add: bit_2_31)
  then have y: "\<not> bit y 31" using True by (simp add: y_def bit_xor_iff)
  have "y XOR 0x80000000 = x" by (simp add: y_def xor.assoc)
  then show ?thesis
    using u32_low_half(3) [OF y] y by (simp add: sint_conv y_def)
next
  case False
  have "bit (0x80000000 :: u32) 31" by (simp add: bit_2_31)
  then have "bit (x XOR 0x80000000) 31" using False by (simp add: bit_xor_iff)
  then show ?thesis using u32_low_half(3) [OF False] by (simp add: sint_conv)
qed

lemma cmpgt_flip:
  "sint (a XOR 0x80000000 :: u32) > sint (b XOR 0x80000000 :: u32) \<longleftrightarrow> b < a"
  unfolding sint_flip by (simp add: word_less_def)

text \<open>The carry of \<open>load_counters16\<close>: bit 31 set before the addition and clear after it.\<close>

lemma carry_by_top_bit:
  assumes "i < 16"
  shows "drop_bit 31 ((NOT (ucast c + of_nat i :: u32)) AND ucast (c :: u64)) =
    (if 2 ^ 32 \<le> unat c mod 2 ^ 32 + i then 1 else 0)"
proof -
  let ?l = "ucast c :: u32" and ?n = "unat c mod 2 ^ 32"
  have l: "unat ?l = ?n" by (rule unat_ucast_32)
  have s: "unat (?l + of_nat i) = (?n + i) mod 2 ^ 32" by (rule unat_low_add) (use assms in simp)
  have "?n < 2 ^ 32" by simp
  then have iff: "bit ?l 31 \<and> \<not> bit (?l + of_nat i) 31 \<longleftrightarrow> 2 ^ 32 \<le> ?n + i"
    unfolding top_bit_iff l s using assms
    by (cases "2 ^ 32 \<le> ?n + i") (auto simp: le_mod_geq)
  show ?thesis
  proof (rule bit_word_eqI)
    fix k assume "k < LENGTH(32)"
    show "bit (drop_bit 31 ((NOT (?l + of_nat i)) AND ?l)) k =
      bit (if 2 ^ 32 \<le> ?n + i then 1 else 0 :: u32) k"
    proof (cases k)
      case 0
      then show ?thesis using iff by (auto simp: bit_drop_bit_eq bit_and_iff bit_not_iff)
    next
      case (Suc j)
      then show ?thesis using bit_imp_le_length [of ?l "31 + k"] by (auto simp: bit_drop_bit_eq bit_and_iff bit_1_iff)
    qed
  qed
qed


text \<open>
  \<open>load_counters\<close> of the SSE2, SSE4.1 and AVX2 files; \<open>add0\<close> is the register of the lane
  numbers.
\<close>

definition load_counters_cmp :: "nat \<Rightarrow> vec \<Rightarrow> u64 \<Rightarrow> bool \<Rightarrow> vec \<times> vec" where
  "load_counters_cmp n add0 counter increment_counter =
    (let mask = mm_set1_epi32 n (- (if increment_counter then 1 else 0));
         add1 = mm_and n mask add0;
         l = mm_add_epi32 n (mm_set1_epi32 n (ucast counter)) add1;
         carry = mm_cmpgt_epi32 n (mm_xor n add1 (mm_set1_epi32 n 0x80000000))
                   (mm_xor n l (mm_set1_epi32 n 0x80000000));
         h = mm_sub_epi32 n (mm_set1_epi32 n (ucast (drop_bit 32 counter))) carry
     in (l, h))"

lemma load_counters_cmp_lane:
  assumes "i < n" "i < 2 ^ 32" "add0 ! i = of_nat i"
    "load_counters_cmp n add0 c inc = (lo, hi)"
  shows "lo ! i = counter_low (c + (if inc then of_nat i else 0)) \<and>
    hi ! i = counter_high (c + (if inc then of_nat i else 0))"
proof -
  define j where "j = (if inc then i else 0)"
  have j: "j < 2 ^ 32" using assms(2) by (simp add: j_def)
  have add1: "(- (if inc then 1 else 0) AND add0 ! i :: u32) = of_nat j"
    by (simp add: j_def assms(3))
  have lo: "lo ! i = ucast c + of_nat j"
    using assms(1,4) add1 by (auto simp: load_counters_cmp_def Let_def mm_and_def mm_set1_epi32_def mm_add_epi32_def)
  have "hi ! i = ucast (drop_bit 32 c) -
      (if sint (of_nat j XOR 0x80000000 :: u32) > sint ((ucast c + of_nat j) XOR 0x80000000 :: u32) then - 1 else 0)"
    using assms(1,4) add1
    by (auto simp: load_counters_cmp_def Let_def mm_and_def mm_set1_epi32_def mm_add_epi32_def
        mm_sub_epi32_def mm_cmpgt_epi32_def mm_xor_def)
  also have "\<dots> = ucast (drop_bit 32 c) + (if 2 ^ 32 \<le> unat c mod 2 ^ 32 + j then 1 else 0)"
    unfolding cmpgt_flip low_carry_iff [OF j] by simp
  finally have "hi ! i = counter_high (c + of_nat j)" unfolding counter_high_add [OF j] .
  with lo show ?thesis using counter_low_add [OF j, of c] by (auto simp: j_def)
qed

section \<open>Transpositions\<close>

text \<open>Four vectors of four lanes: the SSE2, SSE4.1 and AVX-512 files.\<close>

definition transpose_vecs_128 :: "'a list list \<Rightarrow> 'a list list" where
  "transpose_vecs_128 vecs =
    (let ab_01 = mm_unpacklo_epi32 4 (vecs ! 0) (vecs ! 1);
         ab_23 = mm_unpackhi_epi32 4 (vecs ! 0) (vecs ! 1);
         cd_01 = mm_unpacklo_epi32 4 (vecs ! 2) (vecs ! 3);
         cd_23 = mm_unpackhi_epi32 4 (vecs ! 2) (vecs ! 3);
         abcd_0 = mm_unpacklo_epi64 4 ab_01 cd_01;
         abcd_1 = mm_unpackhi_epi64 4 ab_01 cd_01;
         abcd_2 = mm_unpacklo_epi64 4 ab_23 cd_23;
         abcd_3 = mm_unpackhi_epi64 4 ab_23 cd_23
     in [abcd_0, abcd_1, abcd_2, abcd_3])"

lemma transpose_vecs_128_eq:
  "transpose_vecs_128 vecs =
    [[vecs ! 0 ! 0, vecs ! 1 ! 0, vecs ! 2 ! 0, vecs ! 3 ! 0],
     [vecs ! 0 ! 1, vecs ! 1 ! 1, vecs ! 2 ! 1, vecs ! 3 ! 1],
     [vecs ! 0 ! 2, vecs ! 1 ! 2, vecs ! 2 ! 2, vecs ! 3 ! 2],
     [vecs ! 0 ! 3, vecs ! 1 ! 3, vecs ! 2 ! 3, vecs ! 3 ! 3]]"
  by (simp add: transpose_vecs_128_def Let_def lanes_4 mm_unpacklo_epi32_def mm_unpackhi_epi32_def
      mm_unpacklo_epi64_def mm_unpackhi_epi64_def
      numeral_2_eq_2 [symmetric] numeral_3_eq_3 [symmetric])

definition mm256_permute2x128 :: "'a list \<Rightarrow> 'a list \<Rightarrow> nat \<Rightarrow> 'a list" where
  "mm256_permute2x128 a b imm =
    (let half = (\<lambda>s. if s = 0 then take 4 a else if s = 1 then take 4 (drop 4 a)
                     else if s = 2 then take 4 b else take 4 (drop 4 b))
     in half (imm mod 4) @ half (imm div 16 mod 4))"

text \<open>Eight vectors of eight lanes: the AVX2 and AVX-512 files.\<close>

definition transpose_vecs_256 :: "'a list list \<Rightarrow> 'a list list" where
  "transpose_vecs_256 vecs =
    (let ab_0145 = mm_unpacklo_epi32 8 (vecs ! 0) (vecs ! 1);
         ab_2367 = mm_unpackhi_epi32 8 (vecs ! 0) (vecs ! 1);
         cd_0145 = mm_unpacklo_epi32 8 (vecs ! 2) (vecs ! 3);
         cd_2367 = mm_unpackhi_epi32 8 (vecs ! 2) (vecs ! 3);
         ef_0145 = mm_unpacklo_epi32 8 (vecs ! 4) (vecs ! 5);
         ef_2367 = mm_unpackhi_epi32 8 (vecs ! 4) (vecs ! 5);
         gh_0145 = mm_unpacklo_epi32 8 (vecs ! 6) (vecs ! 7);
         gh_2367 = mm_unpackhi_epi32 8 (vecs ! 6) (vecs ! 7);
         abcd_04 = mm_unpacklo_epi64 8 ab_0145 cd_0145;
         abcd_15 = mm_unpackhi_epi64 8 ab_0145 cd_0145;
         abcd_26 = mm_unpacklo_epi64 8 ab_2367 cd_2367;
         abcd_37 = mm_unpackhi_epi64 8 ab_2367 cd_2367;
         efgh_04 = mm_unpacklo_epi64 8 ef_0145 gh_0145;
         efgh_15 = mm_unpackhi_epi64 8 ef_0145 gh_0145;
         efgh_26 = mm_unpacklo_epi64 8 ef_2367 gh_2367;
         efgh_37 = mm_unpackhi_epi64 8 ef_2367 gh_2367
     in [mm256_permute2x128 abcd_04 efgh_04 0x20,
         mm256_permute2x128 abcd_15 efgh_15 0x20,
         mm256_permute2x128 abcd_26 efgh_26 0x20,
         mm256_permute2x128 abcd_37 efgh_37 0x20,
         mm256_permute2x128 abcd_04 efgh_04 0x31,
         mm256_permute2x128 abcd_15 efgh_15 0x31,
         mm256_permute2x128 abcd_26 efgh_26 0x31,
         mm256_permute2x128 abcd_37 efgh_37 0x31])"

lemma lanes_8: "lanes 8 f = [f 0, f 1, f 2, f 3, f 4, f 5, f 6, f 7]"
  by (simp add: lanes_def upt_8)

lemma transpose_vecs_256_eq:
  "transpose_vecs_256 vecs = lanes 8 (\<lambda>i. lanes 8 (\<lambda>j. vecs ! j ! i))"
  by (simp add: transpose_vecs_256_def Let_def lanes_8 mm_unpacklo_epi32_def mm_unpackhi_epi32_def
      mm_unpacklo_epi64_def mm_unpackhi_epi64_def mm256_permute2x128_def
      numeral_2_eq_2 [symmetric] numeral_3_eq_3 [symmetric])


lemma upt_16: "[0..<16] = [0, 1, 2, 3, 4, 5, 6, 7, 8, 9, 10, 11, 12, 13, 14, 15]"
  by (simp add: upt_rec numeral_eq_Suc)

definition mm512_shuffle_i32x4 :: "'a list \<Rightarrow> 'a list \<Rightarrow> nat \<Rightarrow> 'a list" where
  "mm512_shuffle_i32x4 a b imm =
    (let group = (\<lambda>v s. take 4 (drop (4 * s) v))
     in group a (sel2 imm 0) @ group a (sel2 imm 1) @ group b (sel2 imm 2) @ group b (sel2 imm 3))"

definition unpack_lo_128 :: "'a list \<Rightarrow> 'a list \<Rightarrow> 'a list" where
  "unpack_lo_128 a b = mm512_shuffle_i32x4 a b 0x88"

definition unpack_hi_128 :: "'a list \<Rightarrow> 'a list \<Rightarrow> 'a list" where
  "unpack_hi_128 a b = mm512_shuffle_i32x4 a b 0xdd"

text \<open>Sixteen vectors of sixteen lanes: the AVX-512 file.\<close>

definition transpose_vecs_512 :: "'a list list \<Rightarrow> 'a list list" where
  "transpose_vecs_512 vecs =
    (let ab_0 = mm_unpacklo_epi32 16 (vecs ! 0) (vecs ! 1);
         ab_2 = mm_unpackhi_epi32 16 (vecs ! 0) (vecs ! 1);
         cd_0 = mm_unpacklo_epi32 16 (vecs ! 2) (vecs ! 3);
         cd_2 = mm_unpackhi_epi32 16 (vecs ! 2) (vecs ! 3);
         ef_0 = mm_unpacklo_epi32 16 (vecs ! 4) (vecs ! 5);
         ef_2 = mm_unpackhi_epi32 16 (vecs ! 4) (vecs ! 5);
         gh_0 = mm_unpacklo_epi32 16 (vecs ! 6) (vecs ! 7);
         gh_2 = mm_unpackhi_epi32 16 (vecs ! 6) (vecs ! 7);
         ij_0 = mm_unpacklo_epi32 16 (vecs ! 8) (vecs ! 9);
         ij_2 = mm_unpackhi_epi32 16 (vecs ! 8) (vecs ! 9);
         kl_0 = mm_unpacklo_epi32 16 (vecs ! 10) (vecs ! 11);
         kl_2 = mm_unpackhi_epi32 16 (vecs ! 10) (vecs ! 11);
         mn_0 = mm_unpacklo_epi32 16 (vecs ! 12) (vecs ! 13);
         mn_2 = mm_unpackhi_epi32 16 (vecs ! 12) (vecs ! 13);
         op_0 = mm_unpacklo_epi32 16 (vecs ! 14) (vecs ! 15);
         op_2 = mm_unpackhi_epi32 16 (vecs ! 14) (vecs ! 15);
         abcd_0 = mm_unpacklo_epi64 16 ab_0 cd_0;
         abcd_1 = mm_unpackhi_epi64 16 ab_0 cd_0;
         abcd_2 = mm_unpacklo_epi64 16 ab_2 cd_2;
         abcd_3 = mm_unpackhi_epi64 16 ab_2 cd_2;
         efgh_0 = mm_unpacklo_epi64 16 ef_0 gh_0;
         efgh_1 = mm_unpackhi_epi64 16 ef_0 gh_0;
         efgh_2 = mm_unpacklo_epi64 16 ef_2 gh_2;
         efgh_3 = mm_unpackhi_epi64 16 ef_2 gh_2;
         ijkl_0 = mm_unpacklo_epi64 16 ij_0 kl_0;
         ijkl_1 = mm_unpackhi_epi64 16 ij_0 kl_0;
         ijkl_2 = mm_unpacklo_epi64 16 ij_2 kl_2;
         ijkl_3 = mm_unpackhi_epi64 16 ij_2 kl_2;
         mnop_0 = mm_unpacklo_epi64 16 mn_0 op_0;
         mnop_1 = mm_unpackhi_epi64 16 mn_0 op_0;
         mnop_2 = mm_unpacklo_epi64 16 mn_2 op_2;
         mnop_3 = mm_unpackhi_epi64 16 mn_2 op_2;
         abcdefgh_0 = unpack_lo_128 abcd_0 efgh_0;
         abcdefgh_1 = unpack_lo_128 abcd_1 efgh_1;
         abcdefgh_2 = unpack_lo_128 abcd_2 efgh_2;
         abcdefgh_3 = unpack_lo_128 abcd_3 efgh_3;
         abcdefgh_4 = unpack_hi_128 abcd_0 efgh_0;
         abcdefgh_5 = unpack_hi_128 abcd_1 efgh_1;
         abcdefgh_6 = unpack_hi_128 abcd_2 efgh_2;
         abcdefgh_7 = unpack_hi_128 abcd_3 efgh_3;
         ijklmnop_0 = unpack_lo_128 ijkl_0 mnop_0;
         ijklmnop_1 = unpack_lo_128 ijkl_1 mnop_1;
         ijklmnop_2 = unpack_lo_128 ijkl_2 mnop_2;
         ijklmnop_3 = unpack_lo_128 ijkl_3 mnop_3;
         ijklmnop_4 = unpack_hi_128 ijkl_0 mnop_0;
         ijklmnop_5 = unpack_hi_128 ijkl_1 mnop_1;
         ijklmnop_6 = unpack_hi_128 ijkl_2 mnop_2;
         ijklmnop_7 = unpack_hi_128 ijkl_3 mnop_3
     in [unpack_lo_128 abcdefgh_0 ijklmnop_0,
         unpack_lo_128 abcdefgh_1 ijklmnop_1,
         unpack_lo_128 abcdefgh_2 ijklmnop_2,
         unpack_lo_128 abcdefgh_3 ijklmnop_3,
         unpack_lo_128 abcdefgh_4 ijklmnop_4,
         unpack_lo_128 abcdefgh_5 ijklmnop_5,
         unpack_lo_128 abcdefgh_6 ijklmnop_6,
         unpack_lo_128 abcdefgh_7 ijklmnop_7,
         unpack_hi_128 abcdefgh_0 ijklmnop_0,
         unpack_hi_128 abcdefgh_1 ijklmnop_1,
         unpack_hi_128 abcdefgh_2 ijklmnop_2,
         unpack_hi_128 abcdefgh_3 ijklmnop_3,
         unpack_hi_128 abcdefgh_4 ijklmnop_4,
         unpack_hi_128 abcdefgh_5 ijklmnop_5,
         unpack_hi_128 abcdefgh_6 ijklmnop_6,
         unpack_hi_128 abcdefgh_7 ijklmnop_7])"

lemma lanes_16:
  "lanes 16 f = [f 0, f 1, f 2, f 3, f 4, f 5, f 6, f 7, f 8, f 9, f 10, f 11, f 12, f 13, f 14, f 15]"
  by (simp add: lanes_def upt_16)

lemma unpack_quads:
  "mm_unpacklo_epi64 16 (mm_unpacklo_epi32 16 a b) (mm_unpacklo_epi32 16 c d) =
    [a ! 0, b ! 0, c ! 0, d ! 0, a ! 4, b ! 4, c ! 4, d ! 4, a ! 8, b ! 8, c ! 8, d ! 8, a ! 12, b ! 12, c ! 12, d ! 12]"
  "mm_unpackhi_epi64 16 (mm_unpacklo_epi32 16 a b) (mm_unpacklo_epi32 16 c d) =
    [a ! 1, b ! 1, c ! 1, d ! 1, a ! 5, b ! 5, c ! 5, d ! 5, a ! 9, b ! 9, c ! 9, d ! 9, a ! 13, b ! 13, c ! 13, d ! 13]"
  "mm_unpacklo_epi64 16 (mm_unpackhi_epi32 16 a b) (mm_unpackhi_epi32 16 c d) =
    [a ! 2, b ! 2, c ! 2, d ! 2, a ! 6, b ! 6, c ! 6, d ! 6, a ! 10, b ! 10, c ! 10, d ! 10, a ! 14, b ! 14, c ! 14, d ! 14]"
  "mm_unpackhi_epi64 16 (mm_unpackhi_epi32 16 a b) (mm_unpackhi_epi32 16 c d) =
    [a ! 3, b ! 3, c ! 3, d ! 3, a ! 7, b ! 7, c ! 7, d ! 7, a ! 11, b ! 11, c ! 11, d ! 11, a ! 15, b ! 15, c ! 15, d ! 15]"
  by (simp_all add: lanes_16 mm_unpacklo_epi32_def mm_unpackhi_epi32_def
      mm_unpacklo_epi64_def mm_unpackhi_epi64_def numeral_2_eq_2 [symmetric] numeral_3_eq_3 [symmetric])

lemma unpack_groups:
  "unpack_lo_128 [x0, x1, x2, x3, x4, x5, x6, x7, x8, x9, x10, x11, x12, x13, x14, x15] [y0, y1, y2, y3, y4, y5, y6, y7, y8, y9, y10, y11, y12, y13, y14, y15] =
    [x0, x1, x2, x3, x8, x9, x10, x11, y0, y1, y2, y3, y8, y9, y10, y11]"
  "unpack_hi_128 [x0, x1, x2, x3, x4, x5, x6, x7, x8, x9, x10, x11, x12, x13, x14, x15] [y0, y1, y2, y3, y4, y5, y6, y7, y8, y9, y10, y11, y12, y13, y14, y15] =
    [x4, x5, x6, x7, x12, x13, x14, x15, y4, y5, y6, y7, y12, y13, y14, y15]"
  by (simp_all add: unpack_lo_128_def unpack_hi_128_def mm512_shuffle_i32x4_def sel2_def)

lemma transpose_vecs_512_eq:
  "transpose_vecs_512 vecs = lanes 16 (\<lambda>i. lanes 16 (\<lambda>j. vecs ! j ! i))"
  unfolding transpose_vecs_512_def Let_def unpack_quads unpack_groups lanes_16 by (rule refl)

section \<open>The transposes transpose\<close>

text \<open>
  Each of the three shuffle networks (128, 256 and 512-bit vectors) computes the matrix
  transpose: lane \<open>j\<close> of result \<open>i\<close> is lane \<open>i\<close> of argument \<open>j\<close>.
\<close>

theorem transpose_vecs_correct:
  "transpose_vecs_128 v4 = map (\<lambda>i. map (\<lambda>j. v4 ! j ! i) [0..<4]) [0..<4] \<and>
   transpose_vecs_256 v8 = map (\<lambda>i. map (\<lambda>j. v8 ! j ! i) [0..<8]) [0..<8] \<and>
   transpose_vecs_512 v16 = map (\<lambda>i. map (\<lambda>j. v16 ! j ! i) [0..<16]) [0..<16]"
  unfolding transpose_vecs_128_eq transpose_vecs_256_eq transpose_vecs_512_eq lanes_def
  by (simp add: upt_conv_Cons numeral_2_eq_2 [symmetric] numeral_3_eq_3 [symmetric])

end
