(* ===== verification/Simd_Many.thy ===== *)
theory Simd_Many
  imports Simd_Lanes
begin

text \<open>
  The loops around the kernels: \<open>hash_one_*\<close> chains a back end's compression function over the
  blocks of one input, \<open>hash_many_*\<close> takes \<open>DEGREE\<close> inputs at a time and leaves the rest to a
  narrower routine. The locales \<open>compressor\<close> and \<open>many_hash\<close> are the contracts under which
  these loops equal the portable ones. The loads, transpositions and stores that several
  files share at a width are here too.
\<close>

type_synonym compress_fn = "words \<Rightarrow> bytes \<Rightarrow> u8 \<Rightarrow> u64 \<Rightarrow> u8 \<Rightarrow> words"
type_synonym hash_many_fn =
  "bytes list \<Rightarrow> nat \<Rightarrow> words \<Rightarrow> u64 \<Rightarrow> bool \<Rightarrow> u8 \<Rightarrow> u8 \<Rightarrow> u8 \<Rightarrow> bytes"

section \<open>One input after the other\<close>

definition hash_one_with ::
  "compress_fn \<Rightarrow> bytes \<Rightarrow> nat \<Rightarrow> words \<Rightarrow> u64 \<Rightarrow> u8 \<Rightarrow> u8 \<Rightarrow> u8 \<Rightarrow> bytes" where
  "hash_one_with compress input blocks key counter flags flags_start flags_end =
    (let cv = key;
         block_flags = flags OR flags_start;
         cv = hash_one_loop compress cv input blocks counter flags block_flags flags_end
     in bytes_of_words cv)"

text \<open>The final loop of \<open>hash_many_*\<close>, over the inputs that are left.\<close>

fun hash_many_ones :: "compress_fn \<Rightarrow> hash_many_fn" where
  "hash_many_ones compress [] blocks key counter inc flags flags_start flags_end = []"
| "hash_many_ones compress (input # inputs) blocks key counter inc flags flags_start flags_end =
    hash_one_with compress input blocks key counter flags flags_start flags_end @
    hash_many_ones compress inputs blocks key (if inc then counter + 1 else counter) inc flags
      flags_start flags_end"

locale compressor =
  fixes compress :: compress_fn
  assumes compress_portable: "length cv = 8 \<Longrightarrow>
    compress cv block block_len counter flags =
    blake3_compress_in_place_portable cv block block_len counter flags"
begin

lemma hash_one_loop_portable:
  "length cv = 8 \<Longrightarrow> hash_one_loop compress cv input blocks counter flags bf fe =
    hash_one_loop blake3_compress_in_place_portable cv input blocks counter flags bf fe"
  by (induction blocks arbitrary: cv input bf)
    (simp_all add: Let_def compress_portable length_compress_in_place)

lemma hash_one_with_portable:
  assumes "length key = 8"
  shows "hash_one_with compress input blocks key counter flags fs fe =
    hash_one_portable input blocks key counter flags fs fe"
proof -
  have "length (hash_one_loop blake3_compress_in_place_portable key input blocks counter flags bf fe) = 8" for bf
    by (rule length_hash_one_loop) (simp_all add: length_compress_in_place assms)
  then show ?thesis
    using assms by (simp add: hash_one_with_def hash_one_portable_def Let_def
        hash_one_loop_portable store_cv_words_eq)
qed

lemma hash_many_ones_portable:
  "length key = 8 \<Longrightarrow> hash_many_ones compress inputs blocks key counter inc flags fs fe =
    blake3_hash_many_portable inputs blocks key counter inc flags fs fe"
  by (induction inputs arbitrary: counter) (simp_all add: hash_one_with_portable)

end

section \<open>A kernel at a time\<close>

text \<open>
  The first loop of \<open>hash_many_*\<close>; the pointer \<open>inputs\<close> moves on by \<open>DEGREE\<close>, a positive
  constant of the file.
\<close>

function hash_many_by :: "nat \<Rightarrow> hash_many_fn \<Rightarrow> hash_many_fn \<Rightarrow> hash_many_fn" where
  "hash_many_by degree kern rest inputs blocks key counter inc flags flags_start flags_end =
    (if 0 < degree \<and> degree \<le> length inputs then
       kern inputs blocks key counter inc flags flags_start flags_end @
       hash_many_by degree kern rest (drop degree inputs) blocks key
         (if inc then counter + of_nat degree else counter) inc flags flags_start flags_end
     else rest inputs blocks key counter inc flags flags_start flags_end)"
  by pat_completeness auto
termination
  by (relation "measure (\<lambda>(d, k, r, inputs, blocks, key, c, inc, f, fs, fe). length inputs)") auto

declare hash_many_by.simps [simp del]

locale many_hash =
  fixes degree :: nat and kern :: hash_many_fn and rest :: hash_many_fn
  assumes kernel_portable: "length key = 8 \<Longrightarrow> degree \<le> length inputs \<Longrightarrow>
      kern inputs blocks key counter inc flags fs fe =
      blake3_hash_many_portable (take degree inputs) blocks key counter inc flags fs fe"
    and rest_portable: "length key = 8 \<Longrightarrow>
      rest inputs blocks key counter inc flags fs fe =
      blake3_hash_many_portable inputs blocks key counter inc flags fs fe"
begin

lemma hash_many_by_portable:
  assumes "length key = 8"
  shows "hash_many_by degree kern rest inputs blocks key counter inc flags fs fe =
    blake3_hash_many_portable inputs blocks key counter inc flags fs fe"
proof (induction "length inputs" arbitrary: inputs counter rule: less_induct)
  case less
  show ?case
  proof (cases "0 < degree \<and> degree \<le> length inputs")
    case True
    let ?c = "if inc then counter + of_nat degree else counter"
    have "hash_many_by degree kern rest (drop degree inputs) blocks key ?c inc flags fs fe =
        blake3_hash_many_portable (drop degree inputs) blocks key ?c inc flags fs fe"
      by (rule less.hyps) (use True in auto)
    moreover have "length (take degree inputs) = degree" using True by simp
    ultimately have "hash_many_by degree kern rest inputs blocks key counter inc flags fs fe =
        blake3_hash_many_portable (take degree inputs @ drop degree inputs) blocks key counter inc flags fs fe"
      unfolding hash_many_portable_append
      using True by (subst hash_many_by.simps) (simp add: kernel_portable [OF assms])
    then show ?thesis by simp
  next
    case False
    show ?thesis
      unfolding hash_many_by.simps [of degree kern rest inputs] if_not_P [OF False]
      by (rule rest_portable [OF assms])
  qed
qed

end

section \<open>Loads and stores at four lanes\<close>

text \<open>\<open>transpose_msg_vecs\<close> for four inputs; \<open>tr\<close> is the file's \<open>transpose_vecs\<close>.\<close>

definition transpose_msg_vecs4 :: "(vec list \<Rightarrow> vec list) \<Rightarrow> bytes list \<Rightarrow> nat \<Rightarrow> vec list" where
  "transpose_msg_vecs4 tr inputs block_offset =
    (let out =
       [mm_loadu 4 (drop (block_offset + 0 * 16) (inputs ! 0)),
        mm_loadu 4 (drop (block_offset + 0 * 16) (inputs ! 1)),
        mm_loadu 4 (drop (block_offset + 0 * 16) (inputs ! 2)),
        mm_loadu 4 (drop (block_offset + 0 * 16) (inputs ! 3)),
        mm_loadu 4 (drop (block_offset + 1 * 16) (inputs ! 0)),
        mm_loadu 4 (drop (block_offset + 1 * 16) (inputs ! 1)),
        mm_loadu 4 (drop (block_offset + 1 * 16) (inputs ! 2)),
        mm_loadu 4 (drop (block_offset + 1 * 16) (inputs ! 3)),
        mm_loadu 4 (drop (block_offset + 2 * 16) (inputs ! 0)),
        mm_loadu 4 (drop (block_offset + 2 * 16) (inputs ! 1)),
        mm_loadu 4 (drop (block_offset + 2 * 16) (inputs ! 2)),
        mm_loadu 4 (drop (block_offset + 2 * 16) (inputs ! 3)),
        mm_loadu 4 (drop (block_offset + 3 * 16) (inputs ! 0)),
        mm_loadu 4 (drop (block_offset + 3 * 16) (inputs ! 1)),
        mm_loadu 4 (drop (block_offset + 3 * 16) (inputs ! 2)),
        mm_loadu 4 (drop (block_offset + 3 * 16) (inputs ! 3))]
     in tr (take 4 out) @ tr (take 4 (drop 4 out)) @ tr (take 4 (drop 8 out)) @
        tr (take 4 (drop 12 out)))"

definition store_out4 :: "(vec list \<Rightarrow> vec list) \<Rightarrow> vec list \<Rightarrow> bytes" where
  "store_out4 tr h_vecs =
    (let h_vecs = tr (take 4 h_vecs) @ drop 4 h_vecs;
         h_vecs = take 4 h_vecs @ tr (drop 4 h_vecs)
     in mm_storeu (h_vecs ! 0) @ mm_storeu (h_vecs ! 4) @ mm_storeu (h_vecs ! 1) @
        mm_storeu (h_vecs ! 5) @ mm_storeu (h_vecs ! 2) @ mm_storeu (h_vecs ! 6) @
        mm_storeu (h_vecs ! 3) @ mm_storeu (h_vecs ! 7))"

definition transpose4_spec :: "vec list \<Rightarrow> vec list" where
  "transpose4_spec vecs =
    [[vecs ! 0 ! 0, vecs ! 1 ! 0, vecs ! 2 ! 0, vecs ! 3 ! 0],
     [vecs ! 0 ! 1, vecs ! 1 ! 1, vecs ! 2 ! 1, vecs ! 3 ! 1],
     [vecs ! 0 ! 2, vecs ! 1 ! 2, vecs ! 2 ! 2, vecs ! 3 ! 2],
     [vecs ! 0 ! 3, vecs ! 1 ! 3, vecs ! 2 ! 3, vecs ! 3 ! 3]]"

lemma less4E:
  assumes "(i::nat) < 4"
  obtains "i = 0" | "i = 1" | "i = 2" | "i = 3"
  using assms by linarith

lemma transpose_msg_vecs4_lane:
  assumes "\<And>vecs. tr vecs = transpose4_spec vecs" "i < 4"
  shows "map (\<lambda>x. x ! i) (transpose_msg_vecs4 tr inputs off) = load_block_words (drop off (inputs ! i))"
  using assms(2)
  by (elim less4E)
    (simp_all add: transpose_msg_vecs4_def Let_def assms(1) transpose4_spec_def mm_loadu_def lanes_4
      load_block_words_list add.commute)

lemma length_transpose_msg_vecs4:
  assumes "\<And>vecs. tr vecs = transpose4_spec vecs"
  shows "length (transpose_msg_vecs4 tr inputs off) = 16"
  by (simp add: transpose_msg_vecs4_def Let_def assms transpose4_spec_def)

lemma store_out4_lanes:
  assumes "\<And>vecs. tr vecs = transpose4_spec vecs" "length h = 8"
  shows "store_out4 tr h = concat (map (\<lambda>i. bytes_of_words (map (\<lambda>x. x ! i) h)) [0..<4])"
  using assms(2)
  by (elim length8E) (simp add: store_out4_def Let_def assms(1) transpose4_spec_def mm_storeu_def
      upt_rec numeral_2_eq_2 [symmetric] numeral_3_eq_3 [symmetric])

lemma transpose_vecs_128_spec: "transpose_vecs_128 vecs = transpose4_spec vecs"
  by (simp add: transpose_vecs_128_eq transpose4_spec_def)

section \<open>Loads and stores at eight and sixteen lanes\<close>

definition transpose_msg_vecs8 :: "bytes list \<Rightarrow> nat \<Rightarrow> vec list" where
  "transpose_msg_vecs8 inputs block_offset =
    (let out =
       [mm_loadu 8 (drop (block_offset + 0 * 32) (inputs ! 0)),
        mm_loadu 8 (drop (block_offset + 0 * 32) (inputs ! 1)),
        mm_loadu 8 (drop (block_offset + 0 * 32) (inputs ! 2)),
        mm_loadu 8 (drop (block_offset + 0 * 32) (inputs ! 3)),
        mm_loadu 8 (drop (block_offset + 0 * 32) (inputs ! 4)),
        mm_loadu 8 (drop (block_offset + 0 * 32) (inputs ! 5)),
        mm_loadu 8 (drop (block_offset + 0 * 32) (inputs ! 6)),
        mm_loadu 8 (drop (block_offset + 0 * 32) (inputs ! 7)),
        mm_loadu 8 (drop (block_offset + 1 * 32) (inputs ! 0)),
        mm_loadu 8 (drop (block_offset + 1 * 32) (inputs ! 1)),
        mm_loadu 8 (drop (block_offset + 1 * 32) (inputs ! 2)),
        mm_loadu 8 (drop (block_offset + 1 * 32) (inputs ! 3)),
        mm_loadu 8 (drop (block_offset + 1 * 32) (inputs ! 4)),
        mm_loadu 8 (drop (block_offset + 1 * 32) (inputs ! 5)),
        mm_loadu 8 (drop (block_offset + 1 * 32) (inputs ! 6)),
        mm_loadu 8 (drop (block_offset + 1 * 32) (inputs ! 7))]
     in transpose_vecs_256 (take 8 out) @ transpose_vecs_256 (drop 8 out))"

definition store_out8 :: "vec list \<Rightarrow> bytes" where
  "store_out8 h_vecs =
    (let h_vecs = transpose_vecs_256 h_vecs
     in mm_storeu (h_vecs ! 0) @ mm_storeu (h_vecs ! 1) @ mm_storeu (h_vecs ! 2) @
        mm_storeu (h_vecs ! 3) @ mm_storeu (h_vecs ! 4) @ mm_storeu (h_vecs ! 5) @
        mm_storeu (h_vecs ! 6) @ mm_storeu (h_vecs ! 7))"

lemma load_block_words_lanes: "load_block_words b = lanes 16 (\<lambda>k. load32 (drop (4 * k) b))"
  by (simp add: load_block_words_def lanes_def mult.commute)

lemma map_lane_lanes: "map (\<lambda>x. x ! i) (lanes n f) = lanes n (\<lambda>k. f k ! i)"
  by (simp add: lanes_def)

lemma lanes_cong: "(\<And>k. k < n \<Longrightarrow> f k = f' k) \<Longrightarrow> lanes n f = lanes n f'"
  by (simp add: lanes_def)

lemma less8E:
  assumes "(i::nat) < 8"
  obtains "i = 0" | "i = 1" | "i = 2" | "i = 3" | "i = 4" | "i = 5" | "i = 6" | "i = 7"
  using assms by linarith

lemma transpose_msg_vecs8_map:
  "transpose_msg_vecs8 inputs off =
    transpose_vecs_256 (map (\<lambda>j. mm_loadu 8 (drop (off + 0 * 32) (inputs ! j))) [0..<8]) @
    transpose_vecs_256 (map (\<lambda>j. mm_loadu 8 (drop (off + 1 * 32) (inputs ! j))) [0..<8])"
  by (simp add: transpose_msg_vecs8_def Let_def upt_8)

lemma transpose_msg_vecs8_lane:
  assumes "i < 8"
  shows "map (\<lambda>x. x ! i) (transpose_msg_vecs8 inputs off) = load_block_words (drop off (inputs ! i))"
proof -
  have "map (\<lambda>x. x ! i) (transpose_vecs_256 (map (\<lambda>j. mm_loadu 8 (drop o' (inputs ! j))) [0..<8])) =
      lanes 8 (\<lambda>k. load32 (drop (4 * k + o') (inputs ! i)))" for o'
    unfolding transpose_vecs_256_eq map_lane_lanes
    by (rule lanes_cong) (use assms in \<open>simp add: mm_loadu_def\<close>)
  moreover have "lanes 8 (\<lambda>k. load32 (drop (4 * k + (off + 0 * 32)) (inputs ! i))) @
      lanes 8 (\<lambda>k. load32 (drop (4 * k + (off + 1 * 32)) (inputs ! i))) =
    lanes 16 (\<lambda>k. load32 (drop (4 * k) (drop off (inputs ! i))))"
    by (simp add: lanes_8 lanes_16 add.commute)
  ultimately show ?thesis
    unfolding transpose_msg_vecs8_map map_append load_block_words_lanes by simp
qed

lemma length_transpose_msg_vecs8: "length (transpose_msg_vecs8 inputs off) = 16"
  by (simp add: transpose_msg_vecs8_def Let_def transpose_vecs_256_eq)

lemma store_out8_lanes:
  assumes "length h = 8"
  shows "store_out8 h = concat (map (\<lambda>i. bytes_of_words (map (\<lambda>x. x ! i) h)) [0..<8])"
proof -
  have h: "map (\<lambda>x. x ! i) h = lanes 8 (\<lambda>j. h ! j ! i)" for i
    by (rule nth_equalityI) (simp_all add: assms)
  show ?thesis by (simp add: store_out8_def Let_def transpose_vecs_256_eq mm_storeu_def h upt_8)
qed

definition transpose_msg_vecs16 :: "bytes list \<Rightarrow> nat \<Rightarrow> vec list" where
  "transpose_msg_vecs16 inputs block_offset =
    transpose_vecs_512
       [mm_loadu 16 (drop block_offset (inputs ! 0)),
        mm_loadu 16 (drop block_offset (inputs ! 1)),
        mm_loadu 16 (drop block_offset (inputs ! 2)),
        mm_loadu 16 (drop block_offset (inputs ! 3)),
        mm_loadu 16 (drop block_offset (inputs ! 4)),
        mm_loadu 16 (drop block_offset (inputs ! 5)),
        mm_loadu 16 (drop block_offset (inputs ! 6)),
        mm_loadu 16 (drop block_offset (inputs ! 7)),
        mm_loadu 16 (drop block_offset (inputs ! 8)),
        mm_loadu 16 (drop block_offset (inputs ! 9)),
        mm_loadu 16 (drop block_offset (inputs ! 10)),
        mm_loadu 16 (drop block_offset (inputs ! 11)),
        mm_loadu 16 (drop block_offset (inputs ! 12)),
        mm_loadu 16 (drop block_offset (inputs ! 13)),
        mm_loadu 16 (drop block_offset (inputs ! 14)),
        mm_loadu 16 (drop block_offset (inputs ! 15))]"

text \<open>
  The sixteen-lane kernel pads its eight vectors with zero vectors, transposes the square
  matrix and stores the lower half (256 bits) of each row.
\<close>

definition store_out16 :: "vec list \<Rightarrow> bytes" where
  "store_out16 h_vecs =
    (let padded = h_vecs @ replicate 8 (mm_set1_epi32 16 0);
         padded = transpose_vecs_512 padded
     in concat (map (\<lambda>i. mm_storeu (take 8 (padded ! i))) [0..<16]))"

lemma transpose_msg_vecs16_lane:
  assumes "i < 16"
  shows "map (\<lambda>x. x ! i) (transpose_msg_vecs16 inputs off) = load_block_words (drop off (inputs ! i))"
proof -
  have "(map (\<lambda>j. mm_loadu 16 (drop off (inputs ! j))) [0..<16]) =
    [mm_loadu 16 (drop off (inputs ! 0)),
        mm_loadu 16 (drop off (inputs ! 1)),
        mm_loadu 16 (drop off (inputs ! 2)),
        mm_loadu 16 (drop off (inputs ! 3)),
        mm_loadu 16 (drop off (inputs ! 4)),
        mm_loadu 16 (drop off (inputs ! 5)),
        mm_loadu 16 (drop off (inputs ! 6)),
        mm_loadu 16 (drop off (inputs ! 7)),
        mm_loadu 16 (drop off (inputs ! 8)),
        mm_loadu 16 (drop off (inputs ! 9)),
        mm_loadu 16 (drop off (inputs ! 10)),
        mm_loadu 16 (drop off (inputs ! 11)),
        mm_loadu 16 (drop off (inputs ! 12)),
        mm_loadu 16 (drop off (inputs ! 13)),
        mm_loadu 16 (drop off (inputs ! 14)),
        mm_loadu 16 (drop off (inputs ! 15))]"
    by (simp add: upt_16)
  then have "transpose_msg_vecs16 inputs off =
      lanes 16 (\<lambda>k. lanes 16 (\<lambda>j. mm_loadu 16 (drop off (inputs ! j)) ! k))"
    unfolding transpose_msg_vecs16_def transpose_vecs_512_eq
    by (intro lanes_cong) (metis (no_types, lifting) nth_map_upt add_0 diff_zero)
  then show ?thesis
    using assms by (simp add: map_lane_lanes load_block_words_lanes mm_loadu_def cong: lanes_cong)
qed

lemma length_transpose_msg_vecs16: "length (transpose_msg_vecs16 inputs off) = 16"
  by (simp add: transpose_msg_vecs16_def transpose_vecs_512_eq)

lemma store_out16_lanes:
  assumes "length h = 8"
  shows "store_out16 h = concat (map (\<lambda>i. bytes_of_words (map (\<lambda>x. x ! i) h)) [0..<16])"
proof -
  have "take 8 (lanes 16 (\<lambda>j. (h @ replicate 8 z) ! j ! i)) = map (\<lambda>x. x ! i) h" for i and z :: vec
    using assms by (intro nth_equalityI) (simp_all add: nth_append)
  then show ?thesis
    unfolding store_out16_def Let_def transpose_vecs_512_eq mm_storeu_def
    by (intro arg_cong [where f = concat] map_cong) simp_all
qed

end
