(* ===== verification/Sse2.thy ===== *)
theory Sse2
  imports Simd_Many
begin

text \<open>
  The back end of \<open>c/blake3_sse2.c\<close>: four lanes, rotations by 16-bit shuffles and by shifts, and
  \<open>_mm_blend_epi16\<close> emulated with a mask. Every entry point equals the portable one.
\<close>

section \<open>Vector operations\<close>

definition rot16_sse2 :: "vec \<Rightarrow> vec" where
  "rot16_sse2 x = mm_shufflehi_epi16 (mm_shufflelo_epi16 x 0xB1) 0xB1"

definition rot12_sse2 :: "vec \<Rightarrow> vec" where
  "rot12_sse2 x = mm_xor 4 (mm_srli_epi32 4 x 12) (mm_slli_epi32 4 x (32 - 12))"

definition rot8_sse2 :: "vec \<Rightarrow> vec" where
  "rot8_sse2 x = mm_xor 4 (mm_srli_epi32 4 x 8) (mm_slli_epi32 4 x (32 - 8))"

definition rot7_sse2 :: "vec \<Rightarrow> vec" where
  "rot7_sse2 x = mm_xor 4 (mm_srli_epi32 4 x 7) (mm_slli_epi32 4 x (32 - 7))"


definition sse2_ops :: "vec simd_ops" where
  "sse2_ops = \<lparr>addv = mm_add_epi32 4, xorv = mm_xor 4, rot16 = rot16_sse2, rot12 = rot12_sse2,
     rot8 = rot8_sse2, rot7 = rot7_sse2\<rparr>"

text \<open>
  \<open>blend_epi16\<close> without the SSE4.1 instruction: a 16-bit lane is taken from \<open>b\<close> where its bit of
  the immediate is set, by a comparison mask.
\<close>

definition mm_set1_epi16 :: "u16 \<Rightarrow> vec" where
  "mm_set1_epi16 x = of_half_fun 4 (\<lambda>k. x)"

definition mm_set_epi16 :: "u16 list \<Rightarrow> vec" where
  "mm_set_epi16 xs = of_half_fun 4 (\<lambda>k. rev xs ! k)"

definition mm_cmpeq_epi16 :: "vec \<Rightarrow> vec \<Rightarrow> vec" where
  "mm_cmpeq_epi16 a b = of_half_fun 4 (\<lambda>k. if half_of a k = half_of b k then - 1 else 0)"

definition blend_sse2 :: "vec \<Rightarrow> vec \<Rightarrow> nat \<Rightarrow> vec" where
  "blend_sse2 a b imm8 =
    (let bits = mm_set_epi16 [0x80, 0x40, 0x20, 0x10, 0x08, 0x04, 0x02, 0x01];
         mask = mm_set1_epi16 (of_nat imm8);
         mask = mm_and 4 mask bits;
         mask = mm_cmpeq_epi16 mask bits
     in mm_or 4 (mm_and 4 mask b) (mm_andnot 4 mask a))"

section \<open>Compression and hashing\<close>

definition compress_pre_sse2 :: "words \<Rightarrow> bytes \<Rightarrow> u8 \<Rightarrow> u64 \<Rightarrow> u8 \<Rightarrow> rows" where
  "compress_pre_sse2 = row_compress_pre sse2_ops blend_sse2"

definition blake3_compress_in_place_sse2 :: compress_fn where
  "blake3_compress_in_place_sse2 = row_compress_in_place sse2_ops blend_sse2"

definition blake3_compress_xof_sse2 :: "words \<Rightarrow> bytes \<Rightarrow> u8 \<Rightarrow> u64 \<Rightarrow> u8 \<Rightarrow> bytes" where
  "blake3_compress_xof_sse2 = row_compress_xof sse2_ops blend_sse2"

definition round_fn_sse2 :: "vec list \<Rightarrow> vec list \<Rightarrow> nat \<Rightarrow> vec list" where
  "round_fn_sse2 = vec_round_fn sse2_ops"

definition transpose_msg_vecs_sse2 :: "bytes list \<Rightarrow> nat \<Rightarrow> vec list" where
  "transpose_msg_vecs_sse2 = transpose_msg_vecs4 transpose_vecs_128"

definition load_counters_sse2 :: "u64 \<Rightarrow> bool \<Rightarrow> vec \<times> vec" where
  "load_counters_sse2 = load_counters_cmp 4 (mm_set_epi32 [3, 2, 1, 0])"

definition blake3_hash4_sse2 :: hash_many_fn where
  "blake3_hash4_sse2 =
    wide_hash sse2_ops (mm_set1_epi32 4) transpose_msg_vecs_sse2 load_counters_sse2
      (store_out4 transpose_vecs_128)"

definition hash_one_sse2 :: "bytes \<Rightarrow> nat \<Rightarrow> words \<Rightarrow> u64 \<Rightarrow> u8 \<Rightarrow> u8 \<Rightarrow> u8 \<Rightarrow> bytes" where
  "hash_one_sse2 = hash_one_with blake3_compress_in_place_sse2"

definition blake3_hash_many_sse2 :: hash_many_fn where
  "blake3_hash_many_sse2 =
    hash_many_by 4 blake3_hash4_sse2 (hash_many_ones blake3_compress_in_place_sse2)"

section \<open>The contracts hold\<close>

lemma rot16_sse2_lanes: "rot16_sse2 x = lanes 4 (\<lambda>i. rotr32 (x ! i) 16)"
  by (simp add: rot16_sse2_def mm_shufflehi_epi16_def mm_shufflelo_epi16_def of_half_fun_def half_of_def
      lanes_4 sel2_def swap_halves half_of_join join_halves del: drop_bit_or)

lemma rot12_sse2_lanes: "rot12_sse2 x = lanes 4 (\<lambda>i. rotr32 (x ! i) 12)"
  using rotr32_xor [of 12] by (simp add: rot12_sse2_def lanes_4 mm_xor_def mm_srli_epi32_def mm_slli_epi32_def)

lemma rot8_sse2_lanes: "rot8_sse2 x = lanes 4 (\<lambda>i. rotr32 (x ! i) 8)"
  using rotr32_xor [of 8] by (simp add: rot8_sse2_def lanes_4 mm_xor_def mm_srli_epi32_def mm_slli_epi32_def)

lemma rot7_sse2_lanes: "rot7_sse2 x = lanes 4 (\<lambda>i. rotr32 (x ! i) 7)"
  using rotr32_xor [of 7] by (simp add: rot7_sse2_def lanes_4 mm_xor_def mm_srli_epi32_def mm_slli_epi32_def)

lemma blend_sse2_mask:
  "(let bits = mm_set_epi16 [0x80, 0x40, 0x20, 0x10, 0x08, 0x04, 0x02, 0x01]
    in mm_cmpeq_epi16 (mm_and 4 (mm_set1_epi16 0xCC) bits) bits) = [0, - 1, 0, - 1]"
  "(let bits = mm_set_epi16 [0x80, 0x40, 0x20, 0x10, 0x08, 0x04, 0x02, 0x01]
    in mm_cmpeq_epi16 (mm_and 4 (mm_set1_epi16 0xC0) bits) bits) = [0, 0, 0, - 1]"
  by code_simp+

lemma blend_sse2_lanes:
  "blend_sse2 a b 0xCC = [a ! 0, b ! 1, a ! 2, b ! 3]"
  "blend_sse2 a b 0xC0 = [a ! 0, a ! 1, a ! 2, b ! 3]"
  using blend_sse2_mask
  by (simp_all add: blend_sse2_def Let_def mm_or_def mm_and_def mm_andnot_def lanes_4)


interpretation sse2: row_isa sse2_ops blend_sse2
  by unfold_locales
    (simp_all add: sse2_ops_def mm_add_epi32_def mm_xor_def rot16_sse2_lanes rot12_sse2_lanes
      rot8_sse2_lanes rot7_sse2_lanes blend_sse2_lanes)

interpretation sse2_compress: compressor blake3_compress_in_place_sse2
  by unfold_locales (simp add: blake3_compress_in_place_sse2_def sse2.row_compress_in_place_eq)

interpretation sse2_kernel: hash_kernel sse2_ops 4 "mm_set1_epi32 4" load_counters_sse2
  "store_out4 transpose_vecs_128" transpose_msg_vecs_sse2
proof unfold_locales
  fix i :: nat and c inc lo hi
  assume i: "i < 4" and l: "load_counters_sse2 c inc = (lo, hi)"
  have "mm_set_epi32 [3, 2, 1, 0] ! i = of_nat i" using i by (elim less4E) (simp_all add: mm_set_epi32_def)
  with i l show "lo ! i = counter_low (c + (if inc then of_nat i else 0)) \<and>
      hi ! i = counter_high (c + (if inc then of_nat i else 0))"
    unfolding load_counters_sse2_def by (intro load_counters_cmp_lane) auto
qed (simp_all add: mm_set1_epi32_def transpose_msg_vecs_sse2_def transpose_vecs_128_spec
    transpose_msg_vecs4_lane length_transpose_msg_vecs4 store_out4_lanes)

interpretation sse2_many: many_hash 4 blake3_hash4_sse2 "hash_many_ones blake3_compress_in_place_sse2"
  by unfold_locales
    (simp_all add: blake3_hash4_sse2_def sse2_kernel.wide_hash_portable sse2_compress.hash_many_ones_portable)

lemma compress_in_place_sse2_eq [backend_eq]:
  "length cv = 8 \<Longrightarrow> blake3_compress_in_place_sse2 cv block block_len counter flags =
    blake3_compress_in_place_portable cv block block_len counter flags"
  by (rule sse2_compress.compress_portable)

lemma compress_xof_sse2_eq [backend_eq]:
  "length cv = 8 \<Longrightarrow> blake3_compress_xof_sse2 cv block block_len counter flags =
    blake3_compress_xof_portable cv block block_len counter flags"
  unfolding blake3_compress_xof_sse2_def by (rule sse2.row_compress_xof_eq)

lemma hash_many_sse2_eq [backend_eq]:
  "length key = 8 \<Longrightarrow> blake3_hash_many_sse2 inputs blocks key counter inc flags fs fe =
    blake3_hash_many_portable inputs blocks key counter inc flags fs fe"
  unfolding blake3_hash_many_sse2_def by (rule sse2_many.hash_many_by_portable)

end
