(* ===== verification/Sse41.thy ===== *)
theory Sse41
  imports Simd_Many
begin

text \<open>
  The back end of \<open>c/blake3_sse41.c\<close>: as SSE2, with byte shuffles for the rotations by 16 and 8
  and the blend instruction. Every entry point equals the portable one.
\<close>

section \<open>Vector operations\<close>

definition rot16_sse41 :: "vec \<Rightarrow> vec" where
  "rot16_sse41 x =
    mm_shuffle_epi8 4 x (mm_set_epi8 [13, 12, 15, 14, 9, 8, 11, 10, 5, 4, 7, 6, 1, 0, 3, 2])"

definition rot12_sse41 :: "vec \<Rightarrow> vec" where
  "rot12_sse41 x = mm_xor 4 (mm_srli_epi32 4 x 12) (mm_slli_epi32 4 x (32 - 12))"

definition rot8_sse41 :: "vec \<Rightarrow> vec" where
  "rot8_sse41 x =
    mm_shuffle_epi8 4 x (mm_set_epi8 [12, 15, 14, 13, 8, 11, 10, 9, 4, 7, 6, 5, 0, 3, 2, 1])"

definition rot7_sse41 :: "vec \<Rightarrow> vec" where
  "rot7_sse41 x = mm_xor 4 (mm_srli_epi32 4 x 7) (mm_slli_epi32 4 x (32 - 7))"


definition sse41_ops :: "vec simd_ops" where
  "sse41_ops = \<lparr>addv = mm_add_epi32 4, xorv = mm_xor 4, rot16 = rot16_sse41, rot12 = rot12_sse41,
     rot8 = rot8_sse41, rot7 = rot7_sse41\<rparr>"

text \<open>\<open>_mm_blend_epi16\<close>: a 16-bit lane is taken from \<open>b\<close> where its bit of the immediate is set.\<close>

definition blend_sse41 :: "vec \<Rightarrow> vec \<Rightarrow> nat \<Rightarrow> vec" where
  "blend_sse41 a b imm8 = of_half_fun 4 (\<lambda>k. if bit imm8 k then half_of b k else half_of a k)"

section \<open>Compression and hashing\<close>

definition compress_pre_sse41 :: "words \<Rightarrow> bytes \<Rightarrow> u8 \<Rightarrow> u64 \<Rightarrow> u8 \<Rightarrow> rows" where
  "compress_pre_sse41 = row_compress_pre sse41_ops blend_sse41"

definition blake3_compress_in_place_sse41 :: compress_fn where
  "blake3_compress_in_place_sse41 = row_compress_in_place sse41_ops blend_sse41"

definition blake3_compress_xof_sse41 :: "words \<Rightarrow> bytes \<Rightarrow> u8 \<Rightarrow> u64 \<Rightarrow> u8 \<Rightarrow> bytes" where
  "blake3_compress_xof_sse41 = row_compress_xof sse41_ops blend_sse41"

definition round_fn_sse41 :: "vec list \<Rightarrow> vec list \<Rightarrow> nat \<Rightarrow> vec list" where
  "round_fn_sse41 = vec_round_fn sse41_ops"

definition transpose_msg_vecs_sse41 :: "bytes list \<Rightarrow> nat \<Rightarrow> vec list" where
  "transpose_msg_vecs_sse41 = transpose_msg_vecs4 transpose_vecs_128"

definition load_counters_sse41 :: "u64 \<Rightarrow> bool \<Rightarrow> vec \<times> vec" where
  "load_counters_sse41 = load_counters_cmp 4 (mm_set_epi32 [3, 2, 1, 0])"

definition blake3_hash4_sse41 :: hash_many_fn where
  "blake3_hash4_sse41 =
    wide_hash sse41_ops (mm_set1_epi32 4) transpose_msg_vecs_sse41 load_counters_sse41
      (store_out4 transpose_vecs_128)"

definition hash_one_sse41 :: "bytes \<Rightarrow> nat \<Rightarrow> words \<Rightarrow> u64 \<Rightarrow> u8 \<Rightarrow> u8 \<Rightarrow> u8 \<Rightarrow> bytes" where
  "hash_one_sse41 = hash_one_with blake3_compress_in_place_sse41"

definition blake3_hash_many_sse41 :: hash_many_fn where
  "blake3_hash_many_sse41 =
    hash_many_by 4 blake3_hash4_sse41 (hash_many_ones blake3_compress_in_place_sse41)"

section \<open>The contracts hold\<close>

lemma rot16_sse41_lanes: "rot16_sse41 x = lanes 4 (\<lambda>i. rotr32 (x ! i) 16)"
  by (simp add: rot16_sse41_def mm_shuffle_epi8_def mm_set_epi8_def of_byte_fun_def byte_of_def
      lanes_4 rot16_bytes)

lemma rot12_sse41_lanes: "rot12_sse41 x = lanes 4 (\<lambda>i. rotr32 (x ! i) 12)"
  using rotr32_xor [of 12] by (simp add: rot12_sse41_def lanes_4 mm_xor_def mm_srli_epi32_def mm_slli_epi32_def)

lemma rot8_sse41_lanes: "rot8_sse41 x = lanes 4 (\<lambda>i. rotr32 (x ! i) 8)"
  by (simp add: rot8_sse41_def mm_shuffle_epi8_def mm_set_epi8_def of_byte_fun_def byte_of_def
      lanes_4 rot8_bytes)

lemma rot7_sse41_lanes: "rot7_sse41 x = lanes 4 (\<lambda>i. rotr32 (x ! i) 7)"
  using rotr32_xor [of 7] by (simp add: rot7_sse41_def lanes_4 mm_xor_def mm_srli_epi32_def mm_slli_epi32_def)

lemma blend_sse41_lanes:
  "blend_sse41 a b 0xCC = [a ! 0, b ! 1, a ! 2, b ! 3]"
  "blend_sse41 a b 0xC0 = [a ! 0, a ! 1, a ! 2, b ! 3]"
  by (simp_all add: blend_sse41_def of_half_fun_def half_of_def lanes_4 join_halves bit_0)


interpretation sse41: row_isa sse41_ops blend_sse41
  by unfold_locales
    (simp_all add: sse41_ops_def mm_add_epi32_def mm_xor_def rot16_sse41_lanes rot12_sse41_lanes
      rot8_sse41_lanes rot7_sse41_lanes blend_sse41_lanes)

interpretation sse41_compress: compressor blake3_compress_in_place_sse41
  by unfold_locales (simp add: blake3_compress_in_place_sse41_def sse41.row_compress_in_place_eq)

interpretation sse41_kernel: hash_kernel sse41_ops 4 "mm_set1_epi32 4" load_counters_sse41
  "store_out4 transpose_vecs_128" transpose_msg_vecs_sse41
proof unfold_locales
  fix i :: nat and c inc lo hi
  assume i: "i < 4" and l: "load_counters_sse41 c inc = (lo, hi)"
  have "mm_set_epi32 [3, 2, 1, 0] ! i = of_nat i" using i by (elim less4E) (simp_all add: mm_set_epi32_def)
  with i l show "lo ! i = counter_low (c + (if inc then of_nat i else 0)) \<and>
      hi ! i = counter_high (c + (if inc then of_nat i else 0))"
    unfolding load_counters_sse41_def by (intro load_counters_cmp_lane) auto
qed (simp_all add: mm_set1_epi32_def transpose_msg_vecs_sse41_def transpose_vecs_128_spec
    transpose_msg_vecs4_lane length_transpose_msg_vecs4 store_out4_lanes)

interpretation sse41_many: many_hash 4 blake3_hash4_sse41 "hash_many_ones blake3_compress_in_place_sse41"
  by unfold_locales
    (simp_all add: blake3_hash4_sse41_def sse41_kernel.wide_hash_portable sse41_compress.hash_many_ones_portable)

lemma compress_in_place_sse41_eq [backend_eq]:
  "length cv = 8 \<Longrightarrow> blake3_compress_in_place_sse41 cv block block_len counter flags =
    blake3_compress_in_place_portable cv block block_len counter flags"
  by (rule sse41_compress.compress_portable)

lemma compress_xof_sse41_eq [backend_eq]:
  "length cv = 8 \<Longrightarrow> blake3_compress_xof_sse41 cv block block_len counter flags =
    blake3_compress_xof_portable cv block block_len counter flags"
  unfolding blake3_compress_xof_sse41_def by (rule sse41.row_compress_xof_eq)

lemma hash_many_sse41_eq [backend_eq]:
  "length key = 8 \<Longrightarrow> blake3_hash_many_sse41 inputs blocks key counter inc flags fs fe =
    blake3_hash_many_portable inputs blocks key counter inc flags fs fe"
  unfolding blake3_hash_many_sse41_def by (rule sse41_many.hash_many_by_portable)

end
