(* ===== verification/Avx2.thy ===== *)
theory Avx2
  imports Sse41
begin

text \<open>
  The back end of \<open>c/blake3_avx2.c\<close>: eight lanes, for \<open>hash_many\<close> only. Inputs that do not fill
  eight lanes go to the SSE4.1 routine, or to the portable one in a build with
  \<open>BLAKE3_NO_SSE41\<close>, which is the first argument of \<open>blake3_hash_many_avx2\<close>.
\<close>

section \<open>Vector operations\<close>

definition rot16_avx2 :: "vec \<Rightarrow> vec" where
  "rot16_avx2 x =
    mm_shuffle_epi8 8 x
      (mm_set_epi8 [13, 12, 15, 14, 9, 8, 11, 10, 5, 4, 7, 6, 1, 0, 3, 2,
                    13, 12, 15, 14, 9, 8, 11, 10, 5, 4, 7, 6, 1, 0, 3, 2])"

definition rot12_avx2 :: "vec \<Rightarrow> vec" where
  "rot12_avx2 x = mm_or 8 (mm_srli_epi32 8 x 12) (mm_slli_epi32 8 x (32 - 12))"

definition rot8_avx2 :: "vec \<Rightarrow> vec" where
  "rot8_avx2 x =
    mm_shuffle_epi8 8 x
      (mm_set_epi8 [12, 15, 14, 13, 8, 11, 10, 9, 4, 7, 6, 5, 0, 3, 2, 1,
                    12, 15, 14, 13, 8, 11, 10, 9, 4, 7, 6, 5, 0, 3, 2, 1])"

definition rot7_avx2 :: "vec \<Rightarrow> vec" where
  "rot7_avx2 x = mm_or 8 (mm_srli_epi32 8 x 7) (mm_slli_epi32 8 x (32 - 7))"

definition avx2_ops :: "vec simd_ops" where
  "avx2_ops = \<lparr>addv = mm_add_epi32 8, xorv = mm_xor 8, rot16 = rot16_avx2, rot12 = rot12_avx2,
     rot8 = rot8_avx2, rot7 = rot7_avx2\<rparr>"

section \<open>Hashing\<close>

definition round_fn_avx2 :: "vec list \<Rightarrow> vec list \<Rightarrow> nat \<Rightarrow> vec list" where
  "round_fn_avx2 = vec_round_fn avx2_ops"

definition load_counters_avx2 :: "u64 \<Rightarrow> bool \<Rightarrow> vec \<times> vec" where
  "load_counters_avx2 = load_counters_cmp 8 (mm_set_epi32 [7, 6, 5, 4, 3, 2, 1, 0])"

definition blake3_hash8_avx2 :: hash_many_fn where
  "blake3_hash8_avx2 =
    wide_hash avx2_ops (mm_set1_epi32 8) transpose_msg_vecs8 load_counters_avx2 store_out8"

definition blake3_hash_many_avx2 :: "bool \<Rightarrow> hash_many_fn" where
  "blake3_hash_many_avx2 no_sse41 =
    hash_many_by 8 blake3_hash8_avx2
      (if \<not> no_sse41 then blake3_hash_many_sse41 else blake3_hash_many_portable)"

section \<open>The contracts hold\<close>

lemma rot16_avx2_lanes: "rot16_avx2 x = lanes 8 (\<lambda>i. rotr32 (x ! i) 16)"
  by (simp add: rot16_avx2_def mm_shuffle_epi8_def mm_set_epi8_def of_byte_fun_def byte_of_def
      lanes_8 rot16_bytes)

lemma rot8_avx2_lanes: "rot8_avx2 x = lanes 8 (\<lambda>i. rotr32 (x ! i) 8)"
  by (simp add: rot8_avx2_def mm_shuffle_epi8_def mm_set_epi8_def of_byte_fun_def byte_of_def
      lanes_8 rot8_bytes)

lemma rot12_7_avx2_lanes:
  "rot12_avx2 x = lanes 8 (\<lambda>i. rotr32 (x ! i) 12)" "rot7_avx2 x = lanes 8 (\<lambda>i. rotr32 (x ! i) 7)"
  by (simp_all add: rot12_avx2_def rot7_avx2_def lanes_8 mm_or_def mm_srli_epi32_def mm_slli_epi32_def
      rotr32_def)

interpretation avx2_kernel: hash_kernel avx2_ops 8 "mm_set1_epi32 8" load_counters_avx2 store_out8
  transpose_msg_vecs8
proof unfold_locales
  fix i :: nat and c inc lo hi
  assume i: "i < 8" and l: "load_counters_avx2 c inc = (lo, hi)"
  have "mm_set_epi32 [7, 6, 5, 4, 3, 2, 1, 0] ! i = of_nat i"
    using i by (elim less8E) (simp_all add: mm_set_epi32_def)
  with i l show "lo ! i = counter_low (c + (if inc then of_nat i else 0)) \<and>
      hi ! i = counter_high (c + (if inc then of_nat i else 0))"
    unfolding load_counters_avx2_def by (intro load_counters_cmp_lane) auto
qed (simp_all add: avx2_ops_def mm_add_epi32_def mm_xor_def rot16_avx2_lanes rot8_avx2_lanes
    rot12_7_avx2_lanes mm_set1_epi32_def transpose_msg_vecs8_lane length_transpose_msg_vecs8
    store_out8_lanes)

interpretation avx2_many: many_hash 8 blake3_hash8_avx2
  "if \<not> no_sse41 then blake3_hash_many_sse41 else blake3_hash_many_portable" for no_sse41
  by unfold_locales
    (simp_all add: blake3_hash8_avx2_def avx2_kernel.wide_hash_portable hash_many_sse41_eq)

lemma hash_many_avx2_eq [backend_eq]:
  "length key = 8 \<Longrightarrow> blake3_hash_many_avx2 no_sse41 inputs blocks key counter inc flags fs fe =
    blake3_hash_many_portable inputs blocks key counter inc flags fs fe"
  unfolding blake3_hash_many_avx2_def by (rule avx2_many.hash_many_by_portable)

end
