(* ===== verification/Avx512.thy ===== *)
theory Avx512
  imports Sse41
begin

text \<open>
  The back end of \<open>c/blake3_avx512.c\<close>: rotations are one instruction, the row-wise compression
  uses four lanes, and \<open>hash_many\<close> and \<open>xof_many\<close> have kernels of 16, 8 and 4 lanes. The
  counters are 64-bit lanes narrowed to 32 bits at the two smaller widths, and 32-bit lanes
  with a computed carry at 16. \<open>mm_blend_epi16\<close> is the instruction modelled for SSE4.1.
\<close>

section \<open>Vector operations\<close>

definition rot16_512 :: "nat \<Rightarrow> vec \<Rightarrow> vec" where "rot16_512 n x = mm_ror_epi32 n x 16"
definition rot12_512 :: "nat \<Rightarrow> vec \<Rightarrow> vec" where "rot12_512 n x = mm_ror_epi32 n x 12"
definition rot8_512 :: "nat \<Rightarrow> vec \<Rightarrow> vec" where "rot8_512 n x = mm_ror_epi32 n x 8"
definition rot7_512 :: "nat \<Rightarrow> vec \<Rightarrow> vec" where "rot7_512 n x = mm_ror_epi32 n x 7"

definition avx512_ops :: "nat \<Rightarrow> vec simd_ops" where
  "avx512_ops n = \<lparr>addv = mm_add_epi32 n, xorv = mm_xor n, rot16 = rot16_512 n, rot12 = rot12_512 n,
     rot8 = rot8_512 n, rot7 = rot7_512 n\<rparr>"

section \<open>Compression\<close>

definition compress_pre_avx512 :: "words \<Rightarrow> bytes \<Rightarrow> u8 \<Rightarrow> u64 \<Rightarrow> u8 \<Rightarrow> rows" where
  "compress_pre_avx512 = row_compress_pre (avx512_ops 4) blend_sse41"

definition blake3_compress_in_place_avx512 :: compress_fn where
  "blake3_compress_in_place_avx512 = row_compress_in_place (avx512_ops 4) blend_sse41"

definition blake3_compress_xof_avx512 :: "words \<Rightarrow> bytes \<Rightarrow> u8 \<Rightarrow> u64 \<Rightarrow> u8 \<Rightarrow> bytes" where
  "blake3_compress_xof_avx512 = row_compress_xof (avx512_ops 4) blend_sse41"

section \<open>Four and eight lanes\<close>

definition round_fn4_avx512 :: "vec list \<Rightarrow> vec list \<Rightarrow> nat \<Rightarrow> vec list" where
  "round_fn4_avx512 = vec_round_fn (avx512_ops 4)"

definition round_fn8_avx512 :: "vec list \<Rightarrow> vec list \<Rightarrow> nat \<Rightarrow> vec list" where
  "round_fn8_avx512 = vec_round_fn (avx512_ops 8)"

text \<open>A register of 64-bit lanes is a list of them.\<close>

definition load_counters_64 :: "nat \<Rightarrow> u64 list \<Rightarrow> u64 \<Rightarrow> bool \<Rightarrow> vec \<times> vec" where
  "load_counters_64 n deltas counter increment_counter =
    (let msk = (if increment_counter then NOT 0 else 0);
         mask_vec = lanes n (\<lambda>i. msk);
         deltas = lanes n (\<lambda>i. mask_vec ! i AND deltas ! i);
         counters = lanes n (\<lambda>i. counter + deltas ! i)
     in (lanes n (\<lambda>i. ucast (counters ! i)), lanes n (\<lambda>i. ucast (drop_bit 32 (counters ! i)))))"

definition load_counters4_avx512 :: "u64 \<Rightarrow> bool \<Rightarrow> vec \<times> vec" where
  "load_counters4_avx512 = load_counters_64 4 [0, 1, 2, 3]"

definition load_counters8_avx512 :: "u64 \<Rightarrow> bool \<Rightarrow> vec \<times> vec" where
  "load_counters8_avx512 = load_counters_64 8 [0, 1, 2, 3, 4, 5, 6, 7]"

definition transpose_msg_vecs4_avx512 :: "bytes list \<Rightarrow> nat \<Rightarrow> vec list" where
  "transpose_msg_vecs4_avx512 = transpose_msg_vecs4 transpose_vecs_128"

definition blake3_hash4_avx512 :: hash_many_fn where
  "blake3_hash4_avx512 =
    wide_hash (avx512_ops 4) (mm_set1_epi32 4) transpose_msg_vecs4_avx512 load_counters4_avx512
      (store_out4 transpose_vecs_128)"

definition blake3_hash8_avx512 :: hash_many_fn where
  "blake3_hash8_avx512 =
    wide_hash (avx512_ops 8) (mm_set1_epi32 8) transpose_msg_vecs8 load_counters8_avx512 store_out8"

definition store_xof4 :: "vec list \<Rightarrow> bytes" where
  "store_xof4 v =
    (let v = transpose_vecs_128 (take 4 v) @ transpose_vecs_128 (take 4 (drop 4 v)) @
             transpose_vecs_128 (take 4 (drop 8 v)) @ transpose_vecs_128 (take 4 (drop 12 v))
     in concat (map (\<lambda>i. mm_storeu (v ! (i + 0)) @ mm_storeu (v ! (i + 4)) @
                         mm_storeu (v ! (i + 8)) @ mm_storeu (v ! (i + 12))) [0..<4]))"

definition store_xof8 :: "vec list \<Rightarrow> bytes" where
  "store_xof8 v =
    (let v = transpose_vecs_256 (take 8 v) @ transpose_vecs_256 (drop 8 v)
     in concat (map (\<lambda>i. mm_storeu (v ! (i + 0)) @ mm_storeu (v ! (i + 8))) [0..<8]))"

definition blake3_xof4_avx512 :: "words \<Rightarrow> bytes \<Rightarrow> u8 \<Rightarrow> u64 \<Rightarrow> u8 \<Rightarrow> bytes" where
  "blake3_xof4_avx512 = wide_xof (avx512_ops 4) (mm_set1_epi32 4) load_counters4_avx512 store_xof4"

definition blake3_xof8_avx512 :: "words \<Rightarrow> bytes \<Rightarrow> u8 \<Rightarrow> u64 \<Rightarrow> u8 \<Rightarrow> bytes" where
  "blake3_xof8_avx512 = wide_xof (avx512_ops 8) (mm_set1_epi32 8) load_counters8_avx512 store_xof8"

section \<open>Sixteen lanes\<close>

definition round_fn16_avx512 :: "vec list \<Rightarrow> vec list \<Rightarrow> nat \<Rightarrow> vec list" where
  "round_fn16_avx512 = vec_round_fn (avx512_ops 16)"

definition load_counters16_avx512 :: "u64 \<Rightarrow> bool \<Rightarrow> vec \<times> vec" where
  "load_counters16_avx512 counter increment_counter =
    (let msk = mm_set1_epi32 16 (- (if increment_counter then 1 else 0));
         deltas = mm_set_epi32 [15, 14, 13, 12, 11, 10, 9, 8, 7, 6, 5, 4, 3, 2, 1, 0];
         masked_deltas = mm_and 16 deltas msk;
         low_words = mm_add_epi32 16 (mm_set1_epi32 16 (ucast counter)) masked_deltas;
         carries = mm_srli_epi32 16
                     (mm_andnot 16 low_words (mm_set1_epi32 16 (ucast counter))) 31;
         high_words = mm_add_epi32 16 (mm_set1_epi32 16 (ucast (drop_bit 32 counter))) carries
     in (low_words, high_words))"

definition blake3_hash16_avx512 :: hash_many_fn where
  "blake3_hash16_avx512 =
    wide_hash (avx512_ops 16) (mm_set1_epi32 16) transpose_msg_vecs16 load_counters16_avx512
      store_out16"

definition store_xof16 :: "vec list \<Rightarrow> bytes" where
  "store_xof16 v =
    (let v = transpose_vecs_512 v in concat (map (\<lambda>i. mm_storeu (v ! i)) [0..<16]))"

definition blake3_xof16_avx512 :: "words \<Rightarrow> bytes \<Rightarrow> u8 \<Rightarrow> u64 \<Rightarrow> u8 \<Rightarrow> bytes" where
  "blake3_xof16_avx512 =
    wide_xof (avx512_ops 16) (mm_set1_epi32 16) load_counters16_avx512 store_xof16"

section \<open>Many inputs, many output blocks\<close>

definition hash_one_avx512 :: "bytes \<Rightarrow> nat \<Rightarrow> words \<Rightarrow> u64 \<Rightarrow> u8 \<Rightarrow> u8 \<Rightarrow> u8 \<Rightarrow> bytes" where
  "hash_one_avx512 = hash_one_with blake3_compress_in_place_avx512"

definition blake3_hash_many_avx512 :: hash_many_fn where
  "blake3_hash_many_avx512 =
    hash_many_by 16 blake3_hash16_avx512
      (hash_many_by 8 blake3_hash8_avx512
        (hash_many_by 4 blake3_hash4_avx512
          (hash_many_ones blake3_compress_in_place_avx512)))"

function blake3_xof_many_avx512 ::
  "words \<Rightarrow> bytes \<Rightarrow> u8 \<Rightarrow> u64 \<Rightarrow> u8 \<Rightarrow> nat \<Rightarrow> bytes" where
  "blake3_xof_many_avx512 cv block block_len counter flags outblocks =
    (if outblocks \<ge> 16 then
       blake3_xof16_avx512 cv block block_len counter flags @
       blake3_xof_many_avx512 cv block block_len (counter + 16) flags (outblocks - 16)
     else if outblocks \<ge> 8 then
       blake3_xof8_avx512 cv block block_len counter flags @
       blake3_xof_many_avx512 cv block block_len (counter + 8) flags (outblocks - 8)
     else if outblocks \<ge> 4 then
       blake3_xof4_avx512 cv block block_len counter flags @
       blake3_xof_many_avx512 cv block block_len (counter + 4) flags (outblocks - 4)
     else if outblocks > 0 then
       blake3_compress_xof_avx512 cv block block_len counter flags @
       blake3_xof_many_avx512 cv block block_len (counter + 1) flags (outblocks - 1)
     else [])"
  by pat_completeness auto
termination
  by (relation "measure (\<lambda>(cv, block, bl, c, f, n). n)") auto

declare blake3_xof_many_avx512.simps [simp del]

section \<open>The contracts hold\<close>

lemma avx512_ops_lane:
  "i < n \<Longrightarrow> addv (avx512_ops n) a b ! i = a ! i + b ! i"
  "i < n \<Longrightarrow> xorv (avx512_ops n) a b ! i = (a ! i XOR b ! i)"
  "i < n \<Longrightarrow> rot16 (avx512_ops n) a ! i = rotr32 (a ! i) 16"
  "i < n \<Longrightarrow> rot12 (avx512_ops n) a ! i = rotr32 (a ! i) 12"
  "i < n \<Longrightarrow> rot8 (avx512_ops n) a ! i = rotr32 (a ! i) 8"
  "i < n \<Longrightarrow> rot7 (avx512_ops n) a ! i = rotr32 (a ! i) 7"
  by (simp_all add: avx512_ops_def mm_add_epi32_def mm_xor_def rot16_512_def rot12_512_def
      rot8_512_def rot7_512_def mm_ror_epi32_def word_rotr_rotr32)

interpretation avx512: row_isa "avx512_ops 4" blend_sse41
  by unfold_locales
    (simp_all add: avx512_ops_lane blend_sse41_lanes, simp_all add: avx512_ops_def mm_add_epi32_def
      mm_xor_def rot16_512_def rot12_512_def rot8_512_def rot7_512_def mm_ror_epi32_def)

interpretation avx512_compress: compressor blake3_compress_in_place_avx512
  by unfold_locales (simp add: blake3_compress_in_place_avx512_def avx512.row_compress_in_place_eq)

lemma load_counters_64_lane:
  assumes "i < n" "deltas ! i = of_nat i" "load_counters_64 n deltas c inc = (lo, hi)"
  shows "lo ! i = counter_low (c + (if inc then of_nat i else 0)) \<and>
    hi ! i = counter_high (c + (if inc then of_nat i else 0))"
  using assms by (auto simp: load_counters_64_def Let_def counter_low_def counter_high_def)

lemma load_counters4_avx512_lane:
  assumes "i < 4" "load_counters4_avx512 c inc = (lo, hi)"
  shows "lo ! i = counter_low (c + (if inc then of_nat i else 0)) \<and>
    hi ! i = counter_high (c + (if inc then of_nat i else 0))"
proof -
  have "[0, 1, 2, 3] ! i = (of_nat i :: u64)" using assms(1) by (elim less4E) simp_all
  with assms show ?thesis unfolding load_counters4_avx512_def by (intro load_counters_64_lane) auto
qed

lemma load_counters8_avx512_lane:
  assumes "i < 8" "load_counters8_avx512 c inc = (lo, hi)"
  shows "lo ! i = counter_low (c + (if inc then of_nat i else 0)) \<and>
    hi ! i = counter_high (c + (if inc then of_nat i else 0))"
proof -
  have "[0, 1, 2, 3, 4, 5, 6, 7] ! i = (of_nat i :: u64)" using assms(1) by (elim less8E) simp_all
  with assms show ?thesis unfolding load_counters8_avx512_def by (intro load_counters_64_lane) auto
qed

lemma load_counters16_avx512_lane:
  assumes "i < 16" "load_counters16_avx512 c inc = (lo, hi)"
  shows "lo ! i = counter_low (c + (if inc then of_nat i else 0)) \<and>
    hi ! i = counter_high (c + (if inc then of_nat i else 0))"
proof -
  define j where "j = (if inc then i else 0)"
  have j: "j < 16" "j < 2 ^ 32" using assms(1) by (simp_all add: j_def)
  have d: "mm_set_epi32 [15, 14, 13, 12, 11, 10, 9, 8, 7, 6, 5, 4, 3, 2, 1, 0] ! i = of_nat i"
  proof -
    have "mm_set_epi32 [15, 14, 13, 12, 11, 10, 9, 8, 7, 6, 5, 4, 3, 2, 1, 0] = lanes 16 of_nat"
      by (simp add: mm_set_epi32_def lanes_16)
    then show ?thesis using assms(1) by simp
  qed
  have delta: "(mm_set_epi32 [15, 14, 13, 12, 11, 10, 9, 8, 7, 6, 5, 4, 3, 2, 1, 0] ! i AND
      - (if inc then 1 else 0) :: u32) = of_nat j"
    by (simp add: d j_def)
  have lo: "lo ! i = ucast c + of_nat j"
    using assms delta
    by (auto simp: load_counters16_avx512_def Let_def mm_and_def mm_set1_epi32_def mm_add_epi32_def)
  have "hi ! i = ucast (drop_bit 32 c) + drop_bit 31 ((NOT (ucast c + of_nat j)) AND ucast c)"
    using assms delta
    by (auto simp: load_counters16_avx512_def Let_def mm_and_def mm_set1_epi32_def mm_add_epi32_def
        mm_srli_epi32_def mm_andnot_def)
  then have "hi ! i = counter_high (c + of_nat j)"
    unfolding carry_by_top_bit [OF j(1)] counter_high_add [OF j(2)] .
  with lo show ?thesis using counter_low_add [OF j(2), of c] by (auto simp: j_def)
qed

interpretation avx512_kernel4: hash_kernel "avx512_ops 4" 4 "mm_set1_epi32 4" load_counters4_avx512
  "store_out4 transpose_vecs_128" transpose_msg_vecs4_avx512
  by (unfold_locales; (rule load_counters4_avx512_lane, assumption, assumption | simp add: avx512_ops_lane mm_set1_epi32_def
      transpose_msg_vecs4_avx512_def transpose_vecs_128_spec transpose_msg_vecs4_lane
      length_transpose_msg_vecs4 store_out4_lanes))

interpretation avx512_kernel8: hash_kernel "avx512_ops 8" 8 "mm_set1_epi32 8" load_counters8_avx512
  store_out8 transpose_msg_vecs8
  by (unfold_locales; (rule load_counters8_avx512_lane, assumption, assumption | simp add: avx512_ops_lane mm_set1_epi32_def
      transpose_msg_vecs8_lane length_transpose_msg_vecs8 store_out8_lanes))

interpretation avx512_kernel16: hash_kernel "avx512_ops 16" 16 "mm_set1_epi32 16"
  load_counters16_avx512 store_out16 transpose_msg_vecs16
  by (unfold_locales; (rule load_counters16_avx512_lane, assumption, assumption | simp add: avx512_ops_lane mm_set1_epi32_def
      transpose_msg_vecs16_lane length_transpose_msg_vecs16 store_out16_lanes))

lemma store_xof4_lanes:
  assumes "length v = 16"
  shows "store_xof4 v = concat (map (\<lambda>i. bytes_of_words (map (\<lambda>x. x ! i) v)) [0..<4])"
proof -
  have v: "map (\<lambda>x. x ! i) v = lanes 16 (\<lambda>k. v ! k ! i)" for i
    by (rule nth_equalityI) (simp_all add: assms)
  have u: "[0..<4] = [0, 1, 2, 3]" by (simp add: upt_rec numeral_eq_Suc)
  show ?thesis
    using assms by (simp add: store_xof4_def Let_def transpose_vecs_128_eq mm_storeu_def v u lanes_16)
qed

lemma store_xof8_lanes:
  assumes "length v = 16"
  shows "store_xof8 v = concat (map (\<lambda>i. bytes_of_words (map (\<lambda>x. x ! i) v)) [0..<8])"
proof -
  have v: "map (\<lambda>x. x ! i) v = lanes 8 (\<lambda>k. take 8 v ! k ! i) @ lanes 8 (\<lambda>k. drop 8 v ! k ! i)" for i
    by (rule nth_equalityI) (auto simp: assms nth_append)
  show ?thesis
    unfolding store_xof8_def Let_def transpose_vecs_256_eq mm_storeu_def v bytes_of_words_append
    by (rule arg_cong [where f = concat], rule map_cong) (simp_all add: nth_append)
qed

lemma store_xof16_lanes:
  assumes "length v = 16"
  shows "store_xof16 v = concat (map (\<lambda>i. bytes_of_words (map (\<lambda>x. x ! i) v)) [0..<16])"
proof -
  have v: "map (\<lambda>x. x ! i) v = lanes 16 (\<lambda>k. v ! k ! i)" for i
    by (rule nth_equalityI) (simp_all add: assms)
  show ?thesis
    unfolding store_xof16_def Let_def transpose_vecs_512_eq mm_storeu_def v
    by (rule arg_cong [where f = concat], rule map_cong) simp_all
qed

interpretation avx512_xof4: xof_kernel "avx512_ops 4" 4 "mm_set1_epi32 4" load_counters4_avx512 store_xof4
  by (unfold_locales; (rule load_counters4_avx512_lane, assumption, assumption |
      simp add: avx512_ops_lane mm_set1_epi32_def store_xof4_lanes))

interpretation avx512_xof8: xof_kernel "avx512_ops 8" 8 "mm_set1_epi32 8" load_counters8_avx512 store_xof8
  by (unfold_locales; (rule load_counters8_avx512_lane, assumption, assumption |
      simp add: avx512_ops_lane mm_set1_epi32_def store_xof8_lanes))

interpretation avx512_xof16: xof_kernel "avx512_ops 16" 16 "mm_set1_epi32 16" load_counters16_avx512 store_xof16
  by (unfold_locales; (rule load_counters16_avx512_lane, assumption, assumption |
      simp add: avx512_ops_lane mm_set1_epi32_def store_xof16_lanes))

interpretation avx512_many4: many_hash 4 blake3_hash4_avx512 "hash_many_ones blake3_compress_in_place_avx512"
  by unfold_locales
    (simp_all add: blake3_hash4_avx512_def avx512_kernel4.wide_hash_portable avx512_compress.hash_many_ones_portable)

interpretation avx512_many8: many_hash 8 blake3_hash8_avx512
  "hash_many_by 4 blake3_hash4_avx512 (hash_many_ones blake3_compress_in_place_avx512)"
  by unfold_locales
    (simp_all add: blake3_hash8_avx512_def avx512_kernel8.wide_hash_portable avx512_many4.hash_many_by_portable)

interpretation avx512_many16: many_hash 16 blake3_hash16_avx512
  "hash_many_by 8 blake3_hash8_avx512
     (hash_many_by 4 blake3_hash4_avx512 (hash_many_ones blake3_compress_in_place_avx512))"
  by unfold_locales
    (simp_all add: blake3_hash16_avx512_def avx512_kernel16.wide_hash_portable avx512_many8.hash_many_by_portable)

lemma compress_in_place_avx512_eq [backend_eq]:
  "length cv = 8 \<Longrightarrow> blake3_compress_in_place_avx512 cv block block_len counter flags =
    blake3_compress_in_place_portable cv block block_len counter flags"
  by (rule avx512_compress.compress_portable)

lemma compress_xof_avx512_eq [backend_eq]:
  "length cv = 8 \<Longrightarrow> blake3_compress_xof_avx512 cv block block_len counter flags =
    blake3_compress_xof_portable cv block block_len counter flags"
  unfolding blake3_compress_xof_avx512_def by (rule avx512.row_compress_xof_eq)

lemma hash_many_avx512_eq [backend_eq]:
  "length key = 8 \<Longrightarrow> blake3_hash_many_avx512 inputs blocks key counter inc flags fs fe =
    blake3_hash_many_portable inputs blocks key counter inc flags fs fe"
  unfolding blake3_hash_many_avx512_def by (rule avx512_many16.hash_many_by_portable)

lemma xof_blocks_split:
  fixes f' :: "u64 \<Rightarrow> bytes"
  assumes "k \<le> n"
  shows "concat (map (\<lambda>i. f' (c + of_nat i)) [0..<k]) @ concat (map (\<lambda>i. f' (c + of_nat k + of_nat i)) [0..<n - k]) =
    concat (map (\<lambda>i. f' (c + of_nat i)) [0..<n])"
proof -
  have "[0..<n] = [0..<k] @ map (\<lambda>i. k + i) [0..<n - k]"
    using assms upt_add_eq_append [of 0 k "n - k"] map_add_upt [of k "n - k"]
    by (simp add: add.commute)
  then show ?thesis by (simp add: comp_def add.assoc)
qed

theorem xof_many_avx512_eq:
  assumes "length cv = 8" "length block = 64"
  shows "blake3_xof_many_avx512 cv block block_len counter flags n =
    concat (map (\<lambda>i. blake3_compress_xof_portable cv block block_len (counter + of_nat i) flags) [0..<n])"
proof (induction n arbitrary: counter rule: less_induct)
  case (less n)
  let ?f = "\<lambda>c. blake3_compress_xof_portable cv block block_len c flags"
  note kernels = avx512_xof16.wide_xof_portable [OF assms, folded blake3_xof16_avx512_def]
    avx512_xof8.wide_xof_portable [OF assms, folded blake3_xof8_avx512_def]
    avx512_xof4.wide_xof_portable [OF assms, folded blake3_xof4_avx512_def]
  have IH: "blake3_xof_many_avx512 cv block block_len (counter + of_nat k) flags (n - k) =
      concat (map (\<lambda>i. ?f (counter + of_nat k + of_nat i)) [0..<n - k])" if "0 < k" "k \<le> n" for k
    by (rule less.IH) (use that in auto)
  note split = xof_blocks_split [of _ n ?f counter]
  consider "16 \<le> n" | "\<not> 16 \<le> n" "8 \<le> n" | "\<not> 8 \<le> n" "4 \<le> n" | "\<not> 4 \<le> n" "0 < n" | "n = 0"
    by linarith
  then show ?case
  proof cases
    case 1
    then show ?thesis
      using IH [of 16] split [of 16] by (subst blake3_xof_many_avx512.simps) (simp add: kernels)
  next
    case 2
    then show ?thesis
      using IH [of 8] split [of 8] by (subst blake3_xof_many_avx512.simps) (simp add: kernels)
  next
    case 3
    then show ?thesis
      using IH [of 4] split [of 4] by (subst blake3_xof_many_avx512.simps) (simp add: kernels)
  next
    case 4
    then show ?thesis
      using IH [of 1] split [of 1]
      by (subst blake3_xof_many_avx512.simps) (simp add: compress_xof_avx512_eq assms)
  next
    case 5
    then show ?thesis by (subst blake3_xof_many_avx512.simps) simp
  qed
qed

end
