(* ===== verification/Neon.thy ===== *)
theory Neon
  imports Simd_Many
begin

text \<open>
  The back end of \<open>c/blake3_neon.c\<close>: four lanes, for \<open>hash_many\<close> only; single inputs use the
  portable compression function. \<open>rot8_128\<close> has a byte shuffle where the compiler has one
  (Clang, GCC 4.7) and shift-and-insert otherwise; the choice is the argument
  \<open>has_shuffle\<close>.
\<close>

section \<open>Vector operations\<close>

text \<open>
  \<open>vsriq_n_u32\<close> shifts the lanes of its second argument right and inserts them below the top
  \<open>n\<close> bits of the first; \<open>vrev32q_u16\<close> swaps the halves of each 32-bit lane.
\<close>

definition vsriq_n_u32 :: "vec \<Rightarrow> vec \<Rightarrow> nat \<Rightarrow> vec" where
  "vsriq_n_u32 a b n = lanes 4 (\<lambda>i. (a ! i AND NOT (mask (32 - n))) OR drop_bit n (b ! i))"

definition vrev32q_u16 :: "vec \<Rightarrow> vec" where
  "vrev32q_u16 x = of_half_fun 4 (\<lambda>k. half_of x (if even k then k + 1 else k - 1))"

definition shuffle_bytes :: "vec \<Rightarrow> nat list \<Rightarrow> vec" where
  "shuffle_bytes x idx = of_byte_fun 4 (\<lambda>k. byte_of x (idx ! k))"

definition rot16_neon :: "vec \<Rightarrow> vec" where
  "rot16_neon x = vrev32q_u16 x"

definition rot12_neon :: "vec \<Rightarrow> vec" where
  "rot12_neon x = vsriq_n_u32 (mm_slli_epi32 4 x (32 - 12)) x 12"

definition rot8_neon :: "bool \<Rightarrow> vec \<Rightarrow> vec" where
  "rot8_neon has_shuffle x =
    (if has_shuffle
     then shuffle_bytes x [1, 2, 3, 0, 5, 6, 7, 4, 9, 10, 11, 8, 13, 14, 15, 12]
     else vsriq_n_u32 (mm_slli_epi32 4 x (32 - 8)) x 8)"

definition rot7_neon :: "vec \<Rightarrow> vec" where
  "rot7_neon x = vsriq_n_u32 (mm_slli_epi32 4 x (32 - 7)) x 7"

definition neon_ops :: "bool \<Rightarrow> vec simd_ops" where
  "neon_ops has_shuffle = \<lparr>addv = mm_add_epi32 4, xorv = mm_xor 4, rot16 = rot16_neon,
     rot12 = rot12_neon, rot8 = rot8_neon has_shuffle, rot7 = rot7_neon\<rparr>"

section \<open>Hashing\<close>

definition round_fn4_neon :: "bool \<Rightarrow> vec list \<Rightarrow> vec list \<Rightarrow> nat \<Rightarrow> vec list" where
  "round_fn4_neon has_shuffle = vec_round_fn (neon_ops has_shuffle)"

text \<open>\<open>vtrnq_u32\<close> transposes 2x2 blocks; \<open>vcombine_u32\<close> joins two 64-bit halves.\<close>

definition vtrnq_u32 :: "vec \<Rightarrow> vec \<Rightarrow> vec \<times> vec" where
  "vtrnq_u32 a b = ([a ! 0, b ! 0, a ! 2, b ! 2], [a ! 1, b ! 1, a ! 3, b ! 3])"

definition vget_low_u32 :: "vec \<Rightarrow> vec" where "vget_low_u32 x = [x ! 0, x ! 1]"
definition vget_high_u32 :: "vec \<Rightarrow> vec" where "vget_high_u32 x = [x ! 2, x ! 3]"
definition vcombine_u32 :: "vec \<Rightarrow> vec \<Rightarrow> vec" where "vcombine_u32 a b = a @ b"

definition transpose_vecs_neon :: "vec list \<Rightarrow> vec list" where
  "transpose_vecs_neon vecs =
    (let rows01 = vtrnq_u32 (vecs ! 0) (vecs ! 1);
         rows23 = vtrnq_u32 (vecs ! 2) (vecs ! 3)
     in [vcombine_u32 (vget_low_u32 (fst rows01)) (vget_low_u32 (fst rows23)),
         vcombine_u32 (vget_low_u32 (snd rows01)) (vget_low_u32 (snd rows23)),
         vcombine_u32 (vget_high_u32 (fst rows01)) (vget_high_u32 (fst rows23)),
         vcombine_u32 (vget_high_u32 (snd rows01)) (vget_high_u32 (snd rows23))])"

definition transpose_msg_vecs_neon :: "bytes list \<Rightarrow> nat \<Rightarrow> vec list" where
  "transpose_msg_vecs_neon = transpose_msg_vecs4 transpose_vecs_neon"

definition load_counters4_neon :: "u64 \<Rightarrow> bool \<Rightarrow> vec \<times> vec" where
  "load_counters4_neon counter increment_counter =
    (let msk = (if increment_counter then NOT 0 else 0)
     in ([counter_low (counter + (msk AND 0)), counter_low (counter + (msk AND 1)),
          counter_low (counter + (msk AND 2)), counter_low (counter + (msk AND 3))],
         [counter_high (counter + (msk AND 0)), counter_high (counter + (msk AND 1)),
          counter_high (counter + (msk AND 2)), counter_high (counter + (msk AND 3))]))"

definition blake3_hash4_neon :: "bool \<Rightarrow> hash_many_fn" where
  "blake3_hash4_neon has_shuffle =
    wide_hash (neon_ops has_shuffle) (mm_set1_epi32 4) transpose_msg_vecs_neon load_counters4_neon
      (store_out4 transpose_vecs_neon)"

definition hash_one_neon :: "bytes \<Rightarrow> nat \<Rightarrow> words \<Rightarrow> u64 \<Rightarrow> u8 \<Rightarrow> u8 \<Rightarrow> u8 \<Rightarrow> bytes" where
  "hash_one_neon = hash_one_with blake3_compress_in_place_portable"

definition blake3_hash_many_neon :: "bool \<Rightarrow> hash_many_fn" where
  "blake3_hash_many_neon has_shuffle =
    hash_many_by 4 (blake3_hash4_neon has_shuffle) (hash_many_ones blake3_compress_in_place_portable)"

section \<open>The contracts hold\<close>

lemma shift_insert_rotr32:
  "0 < n \<Longrightarrow> n < 32 \<Longrightarrow> (push_bit (32 - n) w AND NOT (mask (32 - n))) OR drop_bit n w = rotr32 w n"
  unfolding rotr32_def by (rule bit_word_eqI) (auto simp: bit_simps)

lemma rot16_neon_lanes: "rot16_neon x = lanes 4 (\<lambda>i. rotr32 (x ! i) 16)"
  by (simp add: rot16_neon_def vrev32q_u16_def of_half_fun_def half_of_def lanes_4 swap_halves)

lemma rot_neon_lanes:
  "rot12_neon x = lanes 4 (\<lambda>i. rotr32 (x ! i) 12)" "rot7_neon x = lanes 4 (\<lambda>i. rotr32 (x ! i) 7)"
  using shift_insert_rotr32 [of 12] shift_insert_rotr32 [of 7]
  by (simp_all add: rot12_neon_def rot7_neon_def vsriq_n_u32_def mm_slli_epi32_def lanes_4)

lemma rot8_neon_lanes: "rot8_neon has_shuffle x = lanes 4 (\<lambda>i. rotr32 (x ! i) 8)"
  using shift_insert_rotr32 [of 8]
  by (simp add: rot8_neon_def shuffle_bytes_def of_byte_fun_def byte_of_def vsriq_n_u32_def
      mm_slli_epi32_def lanes_4 rot8_bytes)

lemma transpose_vecs_neon_spec: "transpose_vecs_neon vecs = transpose4_spec vecs"
  by (simp add: transpose_vecs_neon_def transpose4_spec_def Let_def vtrnq_u32_def vget_low_u32_def
      vget_high_u32_def vcombine_u32_def)

interpretation neon_kernel: hash_kernel "neon_ops has_shuffle" 4 "mm_set1_epi32 4" load_counters4_neon
  "store_out4 transpose_vecs_neon" transpose_msg_vecs_neon for has_shuffle
proof unfold_locales
  fix i :: nat and c inc lo hi
  assume i: "i < 4" and l: "load_counters4_neon c inc = (lo, hi)"
  then show "lo ! i = counter_low (c + (if inc then of_nat i else 0)) \<and>
      hi ! i = counter_high (c + (if inc then of_nat i else 0))"
    by (elim less4E) (auto simp: load_counters4_neon_def Let_def)
qed (simp_all add: neon_ops_def mm_add_epi32_def mm_xor_def rot16_neon_lanes rot8_neon_lanes
    rot_neon_lanes mm_set1_epi32_def transpose_msg_vecs_neon_def transpose_vecs_neon_spec
    transpose_msg_vecs4_lane length_transpose_msg_vecs4 store_out4_lanes)

interpretation portable_compress: compressor blake3_compress_in_place_portable
  by unfold_locales (rule refl)

interpretation neon_many: many_hash 4 "blake3_hash4_neon has_shuffle"
  "hash_many_ones blake3_compress_in_place_portable" for has_shuffle
  by unfold_locales
    (simp_all add: blake3_hash4_neon_def neon_kernel.wide_hash_portable
      portable_compress.hash_many_ones_portable)

lemma hash_many_neon_eq [backend_eq]:
  "length key = 8 \<Longrightarrow> blake3_hash_many_neon has_shuffle inputs blocks key counter inc flags fs fe =
    blake3_hash_many_portable inputs blocks key counter inc flags fs fe"
  unfolding blake3_hash_many_neon_def by (rule neon_many.hash_many_by_portable)

end
