(* ===== verification/Dispatch.thy ===== *)
theory Dispatch
  imports Sse2 Sse41 Avx2 Avx512 Neon
begin

text \<open>
  The run-time dispatcher, \<open>c/blake3_dispatch.c\<close>. A \<open>platform\<close> is what the preprocessor and the
  processor decide: the build flags (\<open>IS_X86\<close>, \<open>__amd64__\<close>, the \<open>BLAKE3_NO_*\<close> switches,
  \<open>_WIN32\<close>/\<open>__CYGWIN__\<close>, \<open>BLAKE3_USE_NEON\<close>) and the answers of the \<open>cpuid\<close> and \<open>xgetbv\<close>
  instructions, which are parameters. \<open>get_cpu_features\<close> caches its result in
  \<open>g_cpu_features\<close>; since the cache never changes an answer
  (\<open>get_cpu_features_cached\<close>), the dispatching functions read \<open>cpu_features\<close>.
\<close>

record platform =
  is_x86 :: bool
  is_amd64 :: bool
  no_sse2 :: bool
  no_sse41 :: bool
  no_avx2 :: bool
  no_avx512 :: bool
  is_windows :: bool
  use_neon :: bool
  neon_shuffle :: bool
  cpuidex :: "u32 \<Rightarrow> u32 \<Rightarrow> u32 \<times> u32 \<times> u32 \<times> u32"
  xgetbv :: u64

definition MAX_SIMD_DEGREE :: "platform \<Rightarrow> nat" where
  "MAX_SIMD_DEGREE p = (if is_x86 p then 16 else if use_neon p then 4 else 1)"

definition MAX_SIMD_DEGREE_OR_2 :: "platform \<Rightarrow> nat" where
  "MAX_SIMD_DEGREE_OR_2 p = (if MAX_SIMD_DEGREE p > 2 then MAX_SIMD_DEGREE p else 2)"

section \<open>Feature detection\<close>

definition SSE2 :: u32 where "SSE2 = push_bit 0 1"
definition SSSE3 :: u32 where "SSSE3 = push_bit 1 1"
definition SSE41 :: u32 where "SSE41 = push_bit 2 1"
definition AVX :: u32 where "AVX = push_bit 3 1"
definition AVX2 :: u32 where "AVX2 = push_bit 4 1"
definition AVX512F :: u32 where "AVX512F = push_bit 5 1"
definition AVX512VL :: u32 where "AVX512VL = push_bit 6 1"
definition UNDEFINED :: u32 where "UNDEFINED = push_bit 30 1"

lemmas feature_defs = SSE2_def SSSE3_def SSE41_def AVX_def AVX2_def AVX512F_def AVX512VL_def
  UNDEFINED_def

definition detect_cpu_features :: "platform \<Rightarrow> u32" where
  "detect_cpu_features p =
    (let features = 0;
         (eax, ebx, ecx, edx) = cpuidex p 0 0;
         max_id = sint eax;
         (eax, ebx, ecx, edx) = cpuidex p 1 0;
         features = (if is_amd64 p \<or> edx AND push_bit 26 1 \<noteq> 0 then features OR SSE2 else features);
         features = (if ecx AND push_bit 9 1 \<noteq> 0 then features OR SSSE3 else features);
         features = (if ecx AND push_bit 19 1 \<noteq> 0 then features OR SSE41 else features);
         features =
           (if ecx AND push_bit 27 1 \<noteq> 0 then
              let msk = xgetbv p
              in if msk AND 6 = 6 then
                   let features = (if ecx AND push_bit 28 1 \<noteq> 0 then features OR AVX else features)
                   in if max_id \<ge> 7 then
                        let (eax, ebx, ecx, edx) = cpuidex p 7 0;
                            features = (if ebx AND push_bit 5 1 \<noteq> 0 then features OR AVX2 else features)
                        in if msk AND 224 = 224 then
                             let features = (if ebx AND push_bit 31 1 \<noteq> 0 then features OR AVX512VL
                                             else features);
                                 features = (if ebx AND push_bit 16 1 \<noteq> 0 then features OR AVX512F
                                             else features)
                             in features
                           else features
                      else features
                 else features
            else features)
     in features)"

text \<open>The pair of the features and the new value of \<open>g_cpu_features\<close>.\<close>

definition get_cpu_features :: "platform \<Rightarrow> u32 \<Rightarrow> u32 \<times> u32" where
  "get_cpu_features p g_cpu_features =
    (let features = g_cpu_features
     in if features \<noteq> UNDEFINED then (features, g_cpu_features)
        else if is_x86 p then
          let features = detect_cpu_features p in (features, features)
        else (0, g_cpu_features))"

definition cpu_features :: "platform \<Rightarrow> u32" where
  "cpu_features p = fst (get_cpu_features p UNDEFINED)"

text \<open>The two tests of the dispatcher: \<open>features & F\<close> and \<open>(features & M) == M\<close>.\<close>

definition has_feature :: "platform \<Rightarrow> u32 \<Rightarrow> bool" where
  "has_feature p f = (cpu_features p AND f \<noteq> 0)"

definition has_features :: "platform \<Rightarrow> u32 \<Rightarrow> bool" where
  "has_features p m = (cpu_features p AND m = m)"

section \<open>Dispatch\<close>

definition blake3_compress_in_place ::
  "platform \<Rightarrow> words \<Rightarrow> bytes \<Rightarrow> u8 \<Rightarrow> u64 \<Rightarrow> u8 \<Rightarrow> words" where
  "blake3_compress_in_place p cv block block_len counter flags =
    (if is_x86 p \<and> \<not> no_avx512 p \<and> has_feature p AVX512VL then
       blake3_compress_in_place_avx512 cv block block_len counter flags
     else if is_x86 p \<and> \<not> no_sse41 p \<and> has_feature p SSE41 then
       blake3_compress_in_place_sse41 cv block block_len counter flags
     else if is_x86 p \<and> \<not> no_sse2 p \<and> has_feature p SSE2 then
       blake3_compress_in_place_sse2 cv block block_len counter flags
     else blake3_compress_in_place_portable cv block block_len counter flags)"

definition blake3_compress_xof ::
  "platform \<Rightarrow> words \<Rightarrow> bytes \<Rightarrow> u8 \<Rightarrow> u64 \<Rightarrow> u8 \<Rightarrow> bytes" where
  "blake3_compress_xof p cv block block_len counter flags =
    (if is_x86 p \<and> \<not> no_avx512 p \<and> has_feature p AVX512VL then
       blake3_compress_xof_avx512 cv block block_len counter flags
     else if is_x86 p \<and> \<not> no_sse41 p \<and> has_feature p SSE41 then
       blake3_compress_xof_sse41 cv block block_len counter flags
     else if is_x86 p \<and> \<not> no_sse2 p \<and> has_feature p SSE2 then
       blake3_compress_xof_sse2 cv block block_len counter flags
     else blake3_compress_xof_portable cv block block_len counter flags)"

definition blake3_xof_many ::
  "platform \<Rightarrow> words \<Rightarrow> bytes \<Rightarrow> u8 \<Rightarrow> u64 \<Rightarrow> u8 \<Rightarrow> nat \<Rightarrow> bytes" where
  "blake3_xof_many p cv block block_len counter flags outblocks =
    (if outblocks = 0 then []
     else if is_x86 p \<and> \<not> is_windows p \<and> \<not> no_avx512 p \<and> has_feature p AVX512VL then
       blake3_xof_many_avx512 cv block block_len counter flags outblocks
     else concat (map (\<lambda>i. blake3_compress_xof p cv block block_len (counter + of_nat i) flags)
                   [0..<outblocks]))"

definition blake3_hash_many :: "platform \<Rightarrow> hash_many_fn" where
  "blake3_hash_many p inputs blocks key counter increment_counter flags flags_start flags_end =
    (if is_x86 p \<and> \<not> no_avx512 p \<and> has_features p (AVX512F OR AVX512VL) then
       blake3_hash_many_avx512 inputs blocks key counter increment_counter flags flags_start
         flags_end
     else if is_x86 p \<and> \<not> no_avx2 p \<and> has_feature p AVX2 then
       blake3_hash_many_avx2 (no_sse41 p) inputs blocks key counter increment_counter flags
         flags_start flags_end
     else if is_x86 p \<and> \<not> no_sse41 p \<and> has_feature p SSE41 then
       blake3_hash_many_sse41 inputs blocks key counter increment_counter flags flags_start
         flags_end
     else if is_x86 p \<and> \<not> no_sse2 p \<and> has_feature p SSE2 then
       blake3_hash_many_sse2 inputs blocks key counter increment_counter flags flags_start
         flags_end
     else if use_neon p then
       blake3_hash_many_neon (neon_shuffle p) inputs blocks key counter increment_counter flags
         flags_start flags_end
     else
       blake3_hash_many_portable inputs blocks key counter increment_counter flags flags_start
         flags_end)"

definition blake3_simd_degree :: "platform \<Rightarrow> nat" where
  "blake3_simd_degree p =
    (if is_x86 p \<and> \<not> no_avx512 p \<and> has_features p (AVX512F OR AVX512VL) then 16
     else if is_x86 p \<and> \<not> no_avx2 p \<and> has_feature p AVX2 then 8
     else if is_x86 p \<and> \<not> no_sse41 p \<and> has_feature p SSE41 then 4
     else if is_x86 p \<and> \<not> no_sse2 p \<and> has_feature p SSE2 then 4
     else if use_neon p then 4
     else 1)"

section \<open>Every choice computes the portable function\<close>

lemma feature_bit30: "\<not> bit (detect_cpu_features p) 30"
  by (auto simp: detect_cpu_features_def Let_def feature_defs bit_simps split: prod.splits)

lemma detect_not_undefined: "detect_cpu_features p \<noteq> UNDEFINED"
proof
  assume "detect_cpu_features p = UNDEFINED"
  moreover have "bit UNDEFINED 30" by (simp add: UNDEFINED_def bit_simps)
  ultimately show False using feature_bit30 by metis
qed

lemma get_cpu_features_cached:
  "get_cpu_features p (snd (get_cpu_features p UNDEFINED)) =
    (cpu_features p, snd (get_cpu_features p UNDEFINED))"
  using detect_not_undefined [of p]
  by (auto simp: get_cpu_features_def cpu_features_def Let_def)


lemma blake3_compress_in_place_eq [backend_eq]:
  "length cv = 8 \<Longrightarrow> blake3_compress_in_place p cv block block_len counter flags =
   blake3_compress_in_place_portable cv block block_len counter flags"
  by (simp add: blake3_compress_in_place_def compress_in_place_avx512_eq compress_in_place_sse41_eq
      compress_in_place_sse2_eq)

lemma blake3_compress_xof_eq [backend_eq]:
  "length cv = 8 \<Longrightarrow> blake3_compress_xof p cv block block_len counter flags =
   blake3_compress_xof_portable cv block block_len counter flags"
  by (simp add: blake3_compress_xof_def compress_xof_avx512_eq compress_xof_sse41_eq
      compress_xof_sse2_eq)

lemma blake3_xof_many_eq [backend_eq]:
  "length cv = 8 \<Longrightarrow> length block = 64 \<Longrightarrow>
   blake3_xof_many p cv block block_len counter flags outblocks =
   concat (map (\<lambda>i. blake3_compress_xof_portable cv block block_len (counter + of_nat i) flags)
     [0..<outblocks])"
  by (simp add: blake3_xof_many_def blake3_compress_xof_eq xof_many_avx512_eq)

lemma blake3_hash_many_eq [backend_eq]:
  "length key = 8 \<Longrightarrow>
   blake3_hash_many p inputs blocks key counter increment_counter flags flags_start flags_end =
   blake3_hash_many_portable inputs blocks key counter increment_counter flags flags_start flags_end"
  by (simp add: blake3_hash_many_def hash_many_avx512_eq hash_many_avx2_eq hash_many_sse41_eq
      hash_many_sse2_eq hash_many_neon_eq)

lemma blake3_simd_degree_cases: "blake3_simd_degree p \<in> {1, 4, 8, 16}"
  by (simp add: blake3_simd_degree_def)

lemma blake3_simd_degree_le: "blake3_simd_degree p \<le> MAX_SIMD_DEGREE p"
  by (simp add: blake3_simd_degree_def MAX_SIMD_DEGREE_def)

lemma bit_feature_or:
  "n < 32 \<Longrightarrow> bit (if c then x OR push_bit k 1 else x :: u32) n \<longleftrightarrow> bit x n \<or> c \<and> n = k"
  by (auto simp: bit_simps)

lemma detect_cpu_features_bits:
  assumes "cpuidex p 0 0 = (a0, b0, c0, d0)" "cpuidex p 1 0 = (a1, b1, c1, d1)" "cpuidex p 7 0 = (a7, b7, c7, d7)"
  shows "bit (detect_cpu_features p) 4 \<longleftrightarrow>
      c1 AND push_bit 27 1 \<noteq> 0 \<and> xgetbv p AND 6 = 6 \<and> 7 \<le> sint a0 \<and> b7 AND push_bit 5 1 \<noteq> 0"
    and "bit (detect_cpu_features p) 5 \<longleftrightarrow>
      c1 AND push_bit 27 1 \<noteq> 0 \<and> xgetbv p AND 6 = 6 \<and> 7 \<le> sint a0 \<and> xgetbv p AND 224 = 224 \<and>
      b7 AND push_bit 16 1 \<noteq> 0"
    and "bit (detect_cpu_features p) 6 \<longleftrightarrow>
      c1 AND push_bit 27 1 \<noteq> 0 \<and> xgetbv p AND 6 = 6 \<and> 7 \<le> sint a0 \<and> xgetbv p AND 224 = 224 \<and>
      b7 AND push_bit 31 1 \<noteq> 0"
proof -
  define q where "q n = (push_bit n 1 :: u32)" for n
  note d = detect_cpu_features_def feature_defs Let_def assms prod.case q_def [symmetric]
  have o: "n < 32 \<Longrightarrow> bit (if c then x OR q k else x :: u32) n \<longleftrightarrow> bit x n \<or> c \<and> n = k" for c x k n
    unfolding q_def by (rule bit_feature_or)
  show "bit (detect_cpu_features p) 4 \<longleftrightarrow>
      c1 AND push_bit 27 1 \<noteq> 0 \<and> xgetbv p AND 6 = 6 \<and> 7 \<le> sint a0 \<and> b7 AND push_bit 5 1 \<noteq> 0"
    unfolding d
    by (cases "c1 AND q 27 \<noteq> 0"; cases "xgetbv p AND 6 = 6"; cases "7 \<le> sint a0"; cases "xgetbv p AND 224 = 224")
      (simp_all only: if_True if_False simp_thms, simp_all add: o split del: if_split)
  show "bit (detect_cpu_features p) 5 \<longleftrightarrow>
      c1 AND push_bit 27 1 \<noteq> 0 \<and> xgetbv p AND 6 = 6 \<and> 7 \<le> sint a0 \<and> xgetbv p AND 224 = 224 \<and>
      b7 AND push_bit 16 1 \<noteq> 0"
    unfolding d
    by (cases "c1 AND q 27 \<noteq> 0"; cases "xgetbv p AND 6 = 6"; cases "7 \<le> sint a0"; cases "xgetbv p AND 224 = 224")
      (simp_all only: if_True if_False simp_thms, simp_all add: o split del: if_split)
  show "bit (detect_cpu_features p) 6 \<longleftrightarrow>
      c1 AND push_bit 27 1 \<noteq> 0 \<and> xgetbv p AND 6 = 6 \<and> 7 \<le> sint a0 \<and> xgetbv p AND 224 = 224 \<and>
      b7 AND push_bit 31 1 \<noteq> 0"
    unfolding d
    by (cases "c1 AND q 27 \<noteq> 0"; cases "xgetbv p AND 6 = 6"; cases "7 \<le> sint a0"; cases "xgetbv p AND 224 = 224")
      (simp_all only: if_True if_False simp_thms, simp_all add: o split del: if_split)
qed

section \<open>What the backends and the dispatcher guarantee\<close>

text \<open>A platform for the concrete instances: every feature bit set, all register states enabled.\<close>

definition demo_platform :: platform where
  "demo_platform = \<lparr>is_x86 = True, is_amd64 = True, no_sse2 = False, no_sse41 = False, no_avx2 = False,
     no_avx512 = False, is_windows = False, use_neon = False, neon_shuffle = False,
     cpuidex = (\<lambda>leaf sub. (7, push_bit 5 1 OR push_bit 16 1 OR push_bit 31 1,
       push_bit 9 1 OR push_bit 19 1 OR push_bit 27 1 OR push_bit 28 1, push_bit 26 1)), xgetbv = 230\<rparr>"

text \<open>
  The four x86 versions of \<open>hash_many\<close> compute the portable one on every list of inputs: they
  hash full groups in the lanes of their vectors (four for SSE2 and SSE4.1, eight for AVX2,
  sixteen, eight and four for AVX-512), carry the counter across groups, and finish the rest one
  at a time (AVX2 by SSE4.1 or, when built without it, by the portable code).
\<close>

theorem x86_hash_many_portable:
  assumes "length key = 8"
  shows "blake3_hash_many_sse2 inputs blocks key counter increment flags flags_start flags_end =
      blake3_hash_many_portable inputs blocks key counter increment flags flags_start flags_end \<and>
    blake3_hash_many_sse41 inputs blocks key counter increment flags flags_start flags_end =
      blake3_hash_many_portable inputs blocks key counter increment flags flags_start flags_end \<and>
    blake3_hash_many_avx2 without_sse41 inputs blocks key counter increment flags flags_start flags_end =
      blake3_hash_many_portable inputs blocks key counter increment flags flags_start flags_end \<and>
    blake3_hash_many_avx512 inputs blocks key counter increment flags flags_start flags_end =
      blake3_hash_many_portable inputs blocks key counter increment flags flags_start flags_end"
  using assms by (simp add: hash_many_sse2_eq hash_many_sse41_eq hash_many_avx2_eq hash_many_avx512_eq)

theorem x86_hash_many_portable_witness:
  "blake3_hash_many_avx512 (replicate 29 (replicate 64 1)) 1 IV (2 ^ 32 - 2) True 0 1 2 =
    blake3_hash_many_portable (replicate 29 (replicate 64 1)) 1 IV (2 ^ 32 - 2) True 0 1 2"
  using x86_hash_many_portable [of IV "replicate 29 (replicate 64 1)" 1 "2 ^ 32 - 2" True 0 1 2] length_IV by metis

text \<open>
  The NEON \<open>hash_many\<close> computes the portable one, with either of the two byte rotations
  (the table shuffle or shift-and-insert).
\<close>

theorem neon_hash_many_portable:
  assumes "length key = 8"
  shows "blake3_hash_many_neon shuffle inputs blocks key counter increment flags flags_start flags_end =
    blake3_hash_many_portable inputs blocks key counter increment flags flags_start flags_end"
  using assms by (rule hash_many_neon_eq)

theorem neon_hash_many_portable_witness:
  "blake3_hash_many_neon True (replicate 5 (replicate 64 1)) 1 IV (2 ^ 32 - 2) True 0 1 2 =
    blake3_hash_many_portable (replicate 5 (replicate 64 1)) 1 IV (2 ^ 32 - 2) True 0 1 2"
  by (rule neon_hash_many_portable) simp

text \<open>
  The row-vector compression functions of SSE2, SSE4.1 and AVX-512 (which diagonalise the
  state and permute the message by shuffles and blends) compute the portable compression, both
  in place and as 64 bytes of extended output.
\<close>

theorem row_compress_portable:
  assumes "length cv = 8"
  shows "blake3_compress_in_place_sse2 cv block block_len counter flags =
      blake3_compress_in_place_portable cv block block_len counter flags \<and>
    blake3_compress_in_place_sse41 cv block block_len counter flags =
      blake3_compress_in_place_portable cv block block_len counter flags \<and>
    blake3_compress_in_place_avx512 cv block block_len counter flags =
      blake3_compress_in_place_portable cv block block_len counter flags \<and>
    blake3_compress_xof_sse2 cv block block_len counter flags =
      blake3_compress_xof_portable cv block block_len counter flags \<and>
    blake3_compress_xof_sse41 cv block block_len counter flags =
      blake3_compress_xof_portable cv block block_len counter flags \<and>
    blake3_compress_xof_avx512 cv block block_len counter flags =
      blake3_compress_xof_portable cv block block_len counter flags"
  using assms by (simp add: backend_eq)

theorem row_compress_portable_witness:
  "blake3_compress_in_place_sse2 IV (replicate 64 7) 64 5 3 =
     blake3_compress_in_place_portable IV (replicate 64 7) 64 5 3 \<and>
   blake3_compress_xof_avx512 IV (replicate 64 7) 64 5 3 =
     blake3_compress_xof_portable IV (replicate 64 7) 64 5 3"
  using row_compress_portable [of IV "replicate 64 7" 64 5 3] by simp

text \<open>
  \<open>blake3_xof_many\<close> writes, for every platform, the consecutive output blocks that the
  portable compression gives for the counters \<open>counter\<close>, \<open>counter + 1\<close> and so on; the wide AVX-512
  path, which produces up to sixteen blocks at a time, included.
\<close>

theorem xof_many_blocks:
  assumes "length cv = 8" "length block = 64"
  shows "blake3_xof_many p cv block block_len counter flags outblocks =
    concat (map (\<lambda>i. blake3_compress_xof_portable cv block block_len (counter + of_nat i) flags)
      [0..<outblocks])"
  using assms by (rule blake3_xof_many_eq)

theorem xof_many_blocks_witness:
  "blake3_xof_many demo_platform IV (replicate 64 7) 64 (2 ^ 32 - 1) 8 30 =
    concat (map (\<lambda>i. blake3_compress_xof_portable IV (replicate 64 7) 64 (2 ^ 32 - 1 + of_nat i) 8)
      [0..<30])"
  by (rule xof_many_blocks) simp_all

text \<open>
  C6. Whatever the build flags and the answers of \<open>cpuid\<close> and \<open>xgetbv\<close> select, the dispatched
  compression functions and \<open>hash_many\<close> compute the portable functions.
\<close>

theorem dispatch_portable:
  assumes "length cv = 8"
  shows "blake3_compress_in_place p cv block block_len counter flags =
      blake3_compress_in_place_portable cv block block_len counter flags \<and>
    blake3_compress_xof p cv block block_len counter flags =
      blake3_compress_xof_portable cv block block_len counter flags \<and>
    blake3_hash_many p inputs blocks cv counter increment flags flags_start flags_end =
      blake3_hash_many_portable inputs blocks cv counter increment flags flags_start flags_end"
  using assms by (simp add: blake3_compress_in_place_eq blake3_compress_xof_eq blake3_hash_many_eq)

theorem dispatch_portable_witness:
  "blake3_compress_in_place demo_platform IV (replicate 64 7) 64 5 3 =
      blake3_compress_in_place_portable IV (replicate 64 7) 64 5 3 \<and>
    blake3_compress_xof demo_platform IV (replicate 64 7) 64 5 3 =
      blake3_compress_xof_portable IV (replicate 64 7) 64 5 3 \<and>
    blake3_hash_many demo_platform (replicate 3 (replicate 64 1)) 1 IV 5 True 3 1 2 =
      blake3_hash_many_portable (replicate 3 (replicate 64 1)) 1 IV 5 True 3 1 2"
  by (rule dispatch_portable) simp

text \<open>
  The first call of \<open>get_cpu_features\<close> stores what it detected, a value that is never
  \<open>UNDEFINED\<close> on x86, so every later call returns the same features and leaves the cache alone.
\<close>

theorem cpu_features_cache:
  "get_cpu_features p (snd (get_cpu_features p UNDEFINED)) =
     (fst (get_cpu_features p UNDEFINED), snd (get_cpu_features p UNDEFINED)) \<and>
   (is_x86 p \<longrightarrow> snd (get_cpu_features p UNDEFINED) = detect_cpu_features p \<and>
     detect_cpu_features p \<noteq> UNDEFINED)"
  using get_cpu_features_cached [of p] detect_not_undefined [of p]
  by (auto simp: cpu_features_def get_cpu_features_def Let_def)

theorem cpu_features_cache_witness:
  "snd (get_cpu_features demo_platform UNDEFINED) = detect_cpu_features demo_platform \<and>
     detect_cpu_features demo_platform \<noteq> UNDEFINED"
  using cpu_features_cache [of demo_platform] by (simp add: demo_platform_def)

text \<open>
  AVX2 and AVX-512 are reported only if the processor has OSXSAVE and the operating system
  enables the vector state: XMM and YMM for AVX2, the opmask and ZMM state as well for AVX-512.
\<close>

theorem detected_features_enabled:
  assumes "cpuidex p 1 0 = (eax, ebx, ecx, edx)" "f \<in> {AVX2, AVX512F, AVX512VL}"
    "detect_cpu_features p AND f \<noteq> 0"
  shows "ecx AND push_bit 27 1 \<noteq> 0 \<and> xgetbv p AND 6 = 6 \<and> (f \<noteq> AVX2 \<longrightarrow> xgetbv p AND 224 = 224)"
proof -
  obtain a0 b0 c0 d0 where l0: "cpuidex p 0 0 = (a0, b0, c0, d0)" by (cases "cpuidex p 0 0")
  obtain a7 b7 c7 d7 where l7: "cpuidex p 7 0 = (a7, b7, c7, d7)" by (cases "cpuidex p 7 0")
  have "bit (detect_cpu_features p) 4 \<and> f = AVX2 \<or> bit (detect_cpu_features p) 5 \<or> bit (detect_cpu_features p) 6"
    using assms(2,3)
    unfolding AVX2_def AVX512F_def AVX512VL_def bit_iff_and_push_bit_not_eq_0 by (auto simp only: insert_iff empty_iff)
  then show ?thesis
    unfolding detect_cpu_features_bits [OF l0 assms(1) l7] by (auto simp only:)
qed

theorem detected_features_enabled_witness:
  "(push_bit 9 1 OR push_bit 19 1 OR push_bit 27 1 OR push_bit 28 1 :: u32) AND push_bit 27 1 \<noteq> 0 \<and>
    xgetbv demo_platform AND 6 = 6 \<and> xgetbv demo_platform AND 224 = 224"
proof -
  have l: "cpuidex demo_platform a b = (7, push_bit 5 1 OR push_bit 16 1 OR push_bit 31 1,
       push_bit 9 1 OR push_bit 19 1 OR push_bit 27 1 OR push_bit 28 1, push_bit 26 1)" for a b
    by (simp only: demo_platform_def platform.simps)
  have "bit (detect_cpu_features demo_platform) 6"
    unfolding detect_cpu_features_bits [OF l l l] by (simp add: demo_platform_def)
  then have "detect_cpu_features demo_platform AND AVX512VL \<noteq> 0"
    unfolding AVX512VL_def bit_iff_and_push_bit_not_eq_0 .
  moreover have "AVX512VL \<in> {AVX2, AVX512F, AVX512VL}" by simp
  moreover have "AVX512VL \<noteq> AVX2" by (simp add: AVX512VL_def AVX2_def)
  ultimately show ?thesis using detected_features_enabled [OF l] by blast
qed

end
