(* ===== verification/Chunk.thy ===== *)
theory Chunk
  imports Dispatch
begin

text \<open>
  The chunk state and the output node of \<open>c/blake3.c\<close>: \<open>blake3_chunk_state\<close> with its
  \<open>chunk_state_*\<close> functions, \<open>output_t\<close> with \<open>make_output\<close>, \<open>output_chaining_value\<close> and
  \<open>output_root_bytes\<close>. Every function that compresses takes the \<open>platform\<close> on which
  the dispatcher selects a back end. A pointer-and-length argument pair is one list; what
  is proved about the chunk state is in \<open>Tree_Spec\<close> terms, in \<open>Chunk_Correct\<close>.
\<close>

section \<open>The chunk state\<close>

record blake3_chunk_state =
  cs_cv :: words
  cs_chunk_counter :: u64
  cs_buf :: bytes
  cs_buf_len :: u8
  cs_blocks_compressed :: u8
  cs_flags :: u8

definition chunk_state_init :: "words \<Rightarrow> u8 \<Rightarrow> blake3_chunk_state" where
  "chunk_state_init key flags =
    \<lparr>cs_cv = key, cs_chunk_counter = 0, cs_buf = replicate BLAKE3_BLOCK_LEN 0,
     cs_buf_len = 0, cs_blocks_compressed = 0, cs_flags = flags\<rparr>"

definition chunk_state_reset ::
  "blake3_chunk_state \<Rightarrow> words \<Rightarrow> u64 \<Rightarrow> blake3_chunk_state" where
  "chunk_state_reset self key chunk_counter =
    self\<lparr>cs_cv := key, cs_chunk_counter := chunk_counter, cs_blocks_compressed := 0,
         cs_buf := replicate BLAKE3_BLOCK_LEN 0, cs_buf_len := 0\<rparr>"

definition chunk_state_len :: "blake3_chunk_state \<Rightarrow> nat" where
  "chunk_state_len self =
    BLAKE3_BLOCK_LEN * unat (cs_blocks_compressed self) + unat (cs_buf_len self)"

definition chunk_state_fill_buf ::
  "blake3_chunk_state \<Rightarrow> bytes \<Rightarrow> blake3_chunk_state \<times> nat" where
  "chunk_state_fill_buf self input =
    (let tk = BLAKE3_BLOCK_LEN - unat (cs_buf_len self);
         tk = (if tk > length input then length input else tk);
         self = self\<lparr>cs_buf := buf_write (cs_buf self) (unat (cs_buf_len self)) (take tk input)\<rparr>;
         self = self\<lparr>cs_buf_len := cs_buf_len self + of_nat tk\<rparr>
     in (self, tk))"

definition chunk_state_maybe_start_flag :: "blake3_chunk_state \<Rightarrow> u8" where
  "chunk_state_maybe_start_flag self =
    (if cs_blocks_compressed self = 0 then CHUNK_START else 0)"

section \<open>Output nodes\<close>

record output_t =
  o_input_cv :: words
  o_counter :: u64
  o_block :: bytes
  o_block_len :: u8
  o_flags :: u8

definition make_output :: "words \<Rightarrow> bytes \<Rightarrow> u8 \<Rightarrow> u64 \<Rightarrow> u8 \<Rightarrow> output_t" where
  "make_output input_cv block block_len counter flags =
    \<lparr>o_input_cv = input_cv, o_counter = counter, o_block = block,
     o_block_len = block_len, o_flags = flags\<rparr>"

definition output_chaining_value :: "platform \<Rightarrow> output_t \<Rightarrow> bytes" where
  "output_chaining_value p self =
    (let cv_words = o_input_cv self;
         cv_words = blake3_compress_in_place p cv_words (o_block self) (o_block_len self)
                      (o_counter self) (o_flags self)
     in store_cv_words cv_words)"

text \<open>\<open>out_len & -64\<close>, a \<open>size_t\<close> mask.\<close>

definition round_down_64 :: "nat \<Rightarrow> nat" where
  "round_down_64 out_len = unat ((of_nat out_len :: u64) AND (- 64))"

definition output_root_bytes :: "platform \<Rightarrow> output_t \<Rightarrow> u64 \<Rightarrow> nat \<Rightarrow> bytes" where
  "output_root_bytes p self seek out_len =
    (if out_len = 0 then [] else
     let xof = (\<lambda>c. blake3_compress_xof p (o_input_cv self) (o_block self)
                      (o_block_len self) c (o_flags self OR ROOT));
         output_block_counter = seek div 64;
         offset_within_block = unat (seek mod 64);
         (out, out_len, output_block_counter) =
           (if offset_within_block \<noteq> 0 then
              let wide_buf = xof output_block_counter;
                  available_bytes = 64 - offset_within_block;
                  n = (if out_len > available_bytes then available_bytes else out_len)
              in (buf_read wide_buf offset_within_block n, out_len - n,
                  output_block_counter + 1)
            else ([], out_len, output_block_counter));
         out = out @ (if out_len div 64 \<noteq> 0
                      then blake3_xof_many p (o_input_cv self) (o_block self)
                             (o_block_len self) output_block_counter
                             (o_flags self OR ROOT) (out_len div 64)
                      else []);
         output_block_counter = output_block_counter + of_nat (out_len div 64);
         out_len = out_len - round_down_64 out_len
     in out @ (if out_len \<noteq> 0 then take out_len (xof output_block_counter) else []))"

section \<open>Absorbing input\<close>

function chunk_state_update_blocks ::
  "platform \<Rightarrow> blake3_chunk_state \<Rightarrow> bytes \<Rightarrow> blake3_chunk_state \<times> bytes" where
  "chunk_state_update_blocks p self input =
    (if length input > BLAKE3_BLOCK_LEN then
       let self = self\<lparr>cs_cv := blake3_compress_in_place p (cs_cv self)
                         (take BLAKE3_BLOCK_LEN input) (of_nat BLAKE3_BLOCK_LEN)
                         (cs_chunk_counter self)
                         (cs_flags self OR chunk_state_maybe_start_flag self)\<rparr>;
           self = self\<lparr>cs_blocks_compressed := cs_blocks_compressed self + 1\<rparr>
       in chunk_state_update_blocks p self (drop BLAKE3_BLOCK_LEN input)
     else (self, input))"
  by pat_completeness auto
termination
  by (relation "measure (\<lambda>(p, self, input). length input)") (auto simp: BLAKE3_BLOCK_LEN_def)

declare chunk_state_update_blocks.simps [simp del]

definition chunk_state_update ::
  "platform \<Rightarrow> blake3_chunk_state \<Rightarrow> bytes \<Rightarrow> blake3_chunk_state" where
  "chunk_state_update p self input =
    (let (self, input) =
           (if cs_buf_len self > 0 then
              let (self, tk) = chunk_state_fill_buf self input;
                  input = drop tk input
              in if length input > 0 then
                   let self = self\<lparr>cs_cv := blake3_compress_in_place p (cs_cv self)
                                     (cs_buf self) (of_nat BLAKE3_BLOCK_LEN)
                                     (cs_chunk_counter self)
                                     (cs_flags self OR chunk_state_maybe_start_flag self)\<rparr>;
                       self = self\<lparr>cs_blocks_compressed := cs_blocks_compressed self + 1\<rparr>;
                       self = self\<lparr>cs_buf_len := 0\<rparr>;
                       self = self\<lparr>cs_buf := replicate BLAKE3_BLOCK_LEN 0\<rparr>
                   in (self, input)
                 else (self, input)
            else (self, input));
         (self, input) = chunk_state_update_blocks p self input
     in fst (chunk_state_fill_buf self input))"

definition chunk_state_output :: "blake3_chunk_state \<Rightarrow> output_t" where
  "chunk_state_output self =
    (let block_flags = cs_flags self OR chunk_state_maybe_start_flag self OR CHUNK_END
     in make_output (cs_cv self) (cs_buf self) (cs_buf_len self) (cs_chunk_counter self)
          block_flags)"

definition parent_output :: "bytes \<Rightarrow> words \<Rightarrow> u8 \<Rightarrow> output_t" where
  "parent_output block key flags =
    make_output key block (of_nat BLAKE3_BLOCK_LEN) 0 (flags OR PARENT)"

end
