(* ===== verification/Subtree.thy ===== *)
theory Subtree
  imports Chunk
begin

text \<open>
  The recursive subtree hashing of \<open>c/blake3.c\<close>: \<open>left_subtree_len\<close>,
  \<open>compress_chunks_parallel\<close>, \<open>compress_parents_parallel\<close>,
  \<open>blake3_compress_subtree_wide\<close> and \<open>compress_subtree_to_parent_node\<close>. Each of the
  three routines that write chaining values to \<open>out\<close> and return how many returns here the
  pair of the count and the bytes written to \<open>out\<close> from its start; a \<open>buf_write\<close> at the end
  of those bytes extends them. The \<open>use_tbb\<close> path runs the same two recursive
  calls on disjoint halves of \<open>cv_array\<close>, so it has the same result and is not modelled
  apart.
\<close>

definition left_subtree_len :: "nat \<Rightarrow> nat" where
  "left_subtree_len input_len =
    (let full_chunks = (input_len - 1) div BLAKE3_CHUNK_LEN
     in unat (round_down_to_power_of_2 (of_nat full_chunks)) * BLAKE3_CHUNK_LEN)"

text \<open>
  The loop that collects the chunk pointers: \<open>chunks_array\<close> so far is accumulated with
  \<open>input_position\<close>.
\<close>

function collect_chunks :: "bytes \<Rightarrow> nat \<Rightarrow> bytes list \<Rightarrow> bytes list \<times> nat" where
  "collect_chunks input input_position chunks_array =
    (if length input - input_position \<ge> BLAKE3_CHUNK_LEN then
       collect_chunks input (input_position + BLAKE3_CHUNK_LEN)
         (chunks_array @ [drop input_position input])
     else (chunks_array, input_position))"
  by pat_completeness auto
termination
  by (relation "measure (\<lambda>(input, pos, arr). length input - pos)")
    (auto simp: BLAKE3_CHUNK_LEN_def)

declare collect_chunks.simps [simp del]

definition compress_chunks_parallel ::
  "platform \<Rightarrow> bytes \<Rightarrow> words \<Rightarrow> u64 \<Rightarrow> u8 \<Rightarrow> nat \<times> bytes" where
  "compress_chunks_parallel p input key chunk_counter flags =
    (let (chunks_array, input_position) = collect_chunks input 0 [];
         chunks_array_len = length chunks_array;
         out = blake3_hash_many p chunks_array (BLAKE3_CHUNK_LEN div BLAKE3_BLOCK_LEN) key
                 chunk_counter True flags CHUNK_START CHUNK_END
     in if length input > input_position then
          let counter = chunk_counter + of_nat chunks_array_len;
              chunk_state = chunk_state_init key flags;
              chunk_state = chunk_state\<lparr>cs_chunk_counter := counter\<rparr>;
              chunk_state = chunk_state_update p chunk_state (drop input_position input);
              output = chunk_state_output chunk_state
          in (chunks_array_len + 1,
              buf_write out (chunks_array_len * BLAKE3_OUT_LEN) (output_chaining_value p output))
        else (chunks_array_len, out))"

function collect_parents :: "bytes \<Rightarrow> nat \<Rightarrow> bytes list \<Rightarrow> bytes list" where
  "collect_parents child_chaining_values num_chaining_values parents_array =
    (if num_chaining_values - 2 * length parents_array \<ge> 2 then
       collect_parents child_chaining_values num_chaining_values
         (parents_array @
           [drop (2 * length parents_array * BLAKE3_OUT_LEN) child_chaining_values])
     else parents_array)"
  by pat_completeness auto
termination
  by (relation "measure (\<lambda>(cvs, n, arr). n - 2 * length arr)") auto

declare collect_parents.simps [simp del]

definition compress_parents_parallel ::
  "platform \<Rightarrow> bytes \<Rightarrow> nat \<Rightarrow> words \<Rightarrow> u8 \<Rightarrow> nat \<times> bytes" where
  "compress_parents_parallel p child_chaining_values num_chaining_values key flags =
    (let parents_array = collect_parents child_chaining_values num_chaining_values [];
         parents_array_len = length parents_array;
         out = blake3_hash_many p parents_array 1 key 0 False (flags OR PARENT) 0 0
     in if num_chaining_values > 2 * parents_array_len then
          (parents_array_len + 1,
           buf_write out (parents_array_len * BLAKE3_OUT_LEN)
             (buf_read child_chaining_values (2 * parents_array_len * BLAKE3_OUT_LEN)
                BLAKE3_OUT_LEN))
        else (parents_array_len, out))"

text \<open>The recursion below stops because \<open>left_subtree_len\<close> splits its input properly.\<close>

lemma round_down_le:
  "0 < n \<Longrightarrow> 0 < unat (round_down_to_power_of_2 (of_nat n)) \<and>
             unat (round_down_to_power_of_2 (of_nat n)) \<le> n"
proof -
  assume "0 < n"
  let ?m = "n mod 2 ^ 64"
  have eq: "(of_nat n :: u64) = of_nat ?m"
    by (simp add: word_of_nat_eq_iff take_bit_eq_mod)
  show ?thesis
  proof (cases "?m = 0")
    case True
    have "round_down_to_power_of_2 0 = 1"
    proof -
      have "highest_one (0 OR 1) = 0" by (rule highest_one_unique) simp_all
      then show ?thesis by (simp add: round_down_to_power_of_2_def)
    qed
    then show ?thesis using \<open>0 < n\<close> by (simp only: eq True) simp
  next
    case False
    then obtain k where "unat (round_down_to_power_of_2 (of_nat ?m)) = 2 ^ k" "2 ^ k \<le> ?m"
      using round_down_bounds [of ?m] by auto
    moreover have "?m \<le> n" by simp
    ultimately show ?thesis by (simp add: eq del: of_nat_mod)
  qed
qed

lemma left_subtree_len_bounds:
  assumes "1024 < n"
  shows "0 < left_subtree_len n \<and> left_subtree_len n < n"
proof -
  let ?k = "(n - 1) div 1024"
  have "0 < ?k" using assms by (simp add: div_greater_zero_iff)
  then have "0 < unat (round_down_to_power_of_2 (of_nat ?k))"
    and "unat (round_down_to_power_of_2 (of_nat ?k)) \<le> ?k"
    using round_down_le by auto
  moreover have "?k * 1024 \<le> n - 1" by simp
  ultimately show ?thesis
    using assms by (simp add: left_subtree_len_def BLAKE3_CHUNK_LEN_def Let_def)
qed

lemma simd_degree_pos: "0 < blake3_simd_degree p"
  using blake3_simd_degree_cases [of p] by auto

function blake3_compress_subtree_wide ::
  "platform \<Rightarrow> bytes \<Rightarrow> words \<Rightarrow> u64 \<Rightarrow> u8 \<Rightarrow> nat \<times> bytes" where
  "blake3_compress_subtree_wide p input key chunk_counter flags =
    (if length input \<le> blake3_simd_degree p * BLAKE3_CHUNK_LEN then
       compress_chunks_parallel p input key chunk_counter flags
     else
       let left_input_len = left_subtree_len (length input);
           right_input = drop left_input_len input;
           right_chunk_counter =
             chunk_counter + of_nat (left_input_len div BLAKE3_CHUNK_LEN);
           cv_array = replicate (2 * MAX_SIMD_DEGREE_OR_2 p * BLAKE3_OUT_LEN) 0;
           degree = blake3_simd_degree p;
           degree = (if left_input_len > BLAKE3_CHUNK_LEN \<and> degree = 1 then 2 else degree);
           (left_n, left_cvs) = blake3_compress_subtree_wide p (take left_input_len input)
                                  key chunk_counter flags;
           cv_array = buf_write cv_array 0 left_cvs;
           (right_n, right_cvs) = blake3_compress_subtree_wide p right_input key
                                    right_chunk_counter flags;
           cv_array = buf_write cv_array (degree * BLAKE3_OUT_LEN) right_cvs
       in if left_n = 1 then (2, buf_read cv_array 0 (2 * BLAKE3_OUT_LEN))
          else compress_parents_parallel p cv_array (left_n + right_n) key flags)"
  by pat_completeness auto
termination
proof (relation "measure (\<lambda>(p, input, key, ctr, flags). length input)", goal_cases)
  case (2 p input key ctr flags l r rc arr d d')
  then have "1024 < length input"
    using simd_degree_pos [of p] by (auto simp: BLAKE3_CHUNK_LEN_def)
  with 2 show ?case using left_subtree_len_bounds [of "length input"] by auto
next
  case (3 p input key ctr flags l r rc arr d d')
  then have "1024 < length input"
    using simd_degree_pos [of p] by (auto simp: BLAKE3_CHUNK_LEN_def)
  with 3 show ?case using left_subtree_len_bounds [of "length input"] by auto
qed simp

declare blake3_compress_subtree_wide.simps [simp del]

text \<open>
  The condensing loop. It is compiled in only where \<open>MAX_SIMD_DEGREE_OR_2 > 2\<close>;
  \<open>out_array\<close> is copied over the front of \<open>cv_array\<close> after each layer. It makes progress
  because a layer of more than two values has fewer parents than children.
\<close>

lemma length_collect_parents:
  "length (collect_parents cvs n arr) = max (length arr) (n div 2)"
proof (induction cvs n arr rule: collect_parents.induct)
  case (1 cvs n arr)
  show ?case
  proof (cases "n - 2 * length arr \<ge> 2")
    case True
    with 1 show ?thesis by (subst collect_parents.simps) auto
  next
    case False
    then show ?thesis by (subst collect_parents.simps) auto
  qed
qed

lemma fst_compress_parents: "fst (compress_parents_parallel p cvs n key flags) = (n + 1) div 2"
  by (auto simp: compress_parents_parallel_def Let_def length_collect_parents)

function condense_cvs :: "platform \<Rightarrow> bytes \<Rightarrow> nat \<Rightarrow> words \<Rightarrow> u8 \<Rightarrow> bytes" where
  "condense_cvs p cv_array num_cvs key flags =
    (if num_cvs > 2 then
       let (n, out_array) = compress_parents_parallel p cv_array num_cvs key flags;
           cv_array = buf_write cv_array 0 (take (n * BLAKE3_OUT_LEN) out_array)
       in condense_cvs p cv_array n key flags
     else cv_array)"
  by pat_completeness auto
termination
proof (relation "measure (\<lambda>(p, arr, n, key, flags). n)", goal_cases)
  case (2 p arr num key flags x n out arr')
  then have "n = (num + 1) div 2"
    using fst_compress_parents [of p arr num key flags] by (simp add: prod_eq_iff)
  with 2 show ?case by auto
qed simp

declare condense_cvs.simps [simp del]

definition compress_subtree_to_parent_node ::
  "platform \<Rightarrow> bytes \<Rightarrow> words \<Rightarrow> u64 \<Rightarrow> u8 \<Rightarrow> bytes" where
  "compress_subtree_to_parent_node p input key chunk_counter flags =
    (let cv_array = replicate (MAX_SIMD_DEGREE_OR_2 p * BLAKE3_OUT_LEN) 0;
         (num_cvs, cvs) = blake3_compress_subtree_wide p input key chunk_counter flags;
         cv_array = buf_write cv_array 0 cvs;
         cv_array = (if MAX_SIMD_DEGREE_OR_2 p > 2
                     then condense_cvs p cv_array num_cvs key flags else cv_array)
     in buf_read cv_array 0 (2 * BLAKE3_OUT_LEN))"

end
