(* ===== verification/Hasher.thy ===== *)
theory Hasher
  imports Subtree
begin

text \<open>
  The incremental hasher of \<open>c/blake3.c\<close>: the record \<open>blake3_hasher\<close> with its stack of
  chaining values as one flat byte array, the init functions of the three modes, the lazy
  merging of \<open>hasher_merge_cv_stack\<close> and \<open>hasher_push_cv\<close>, \<open>blake3_hasher_update\<close> and the
  two \<open>finalize\<close> functions. Correctness is in \<open>Hasher_Correct\<close>.
\<close>

record blake3_hasher =
  h_key :: words
  h_chunk :: blake3_chunk_state
  h_cv_stack_len :: u8
  h_cv_stack :: bytes

definition CV_STACK_BYTES :: nat where
  "CV_STACK_BYTES = (BLAKE3_MAX_DEPTH + 1) * BLAKE3_OUT_LEN"

definition hasher_init_base :: "blake3_hasher \<Rightarrow> words \<Rightarrow> u8 \<Rightarrow> blake3_hasher" where
  "hasher_init_base self key flags =
    self\<lparr>h_key := key, h_chunk := chunk_state_init key flags, h_cv_stack_len := 0\<rparr>"

definition blake3_hasher_init :: "blake3_hasher \<Rightarrow> blake3_hasher" where
  "blake3_hasher_init self = hasher_init_base self IV 0"

definition blake3_hasher_init_keyed :: "blake3_hasher \<Rightarrow> bytes \<Rightarrow> blake3_hasher" where
  "blake3_hasher_init_keyed self key =
    (let key_words = load_key_words key
     in hasher_init_base self key_words KEYED_HASH)"

section \<open>The stack of chaining values\<close>

function hasher_merge_loop :: "platform \<Rightarrow> blake3_hasher \<Rightarrow> nat \<Rightarrow> blake3_hasher" where
  "hasher_merge_loop p self post_merge_stack_len =
    (if unat (h_cv_stack_len self) > post_merge_stack_len then
       let off = (unat (h_cv_stack_len self) - 2) * BLAKE3_OUT_LEN;
           parent_node = buf_read (h_cv_stack self) off BLAKE3_BLOCK_LEN;
           output = parent_output parent_node (h_key self) (cs_flags (h_chunk self));
           self = self\<lparr>h_cv_stack :=
                    buf_write (h_cv_stack self) off (output_chaining_value p output)\<rparr>;
           self = self\<lparr>h_cv_stack_len := h_cv_stack_len self - 1\<rparr>
       in hasher_merge_loop p self post_merge_stack_len
     else self)"
  by pat_completeness auto
termination
proof (relation "measure (\<lambda>(p, self, post). unat (h_cv_stack_len self))", goal_cases)
  case (2 p self post)
  then have "h_cv_stack_len self \<noteq> 0" by auto
  then show ?case using 2 by (simp add: unat_minus_one)
qed simp

declare hasher_merge_loop.simps [simp del]

definition hasher_merge_cv_stack :: "platform \<Rightarrow> blake3_hasher \<Rightarrow> u64 \<Rightarrow> blake3_hasher" where
  "hasher_merge_cv_stack p self total_len =
    (let post_merge_stack_len = popcnt total_len
     in hasher_merge_loop p self post_merge_stack_len)"

definition hasher_push_cv ::
  "platform \<Rightarrow> blake3_hasher \<Rightarrow> bytes \<Rightarrow> u64 \<Rightarrow> blake3_hasher" where
  "hasher_push_cv p self new_cv chunk_counter =
    (let self = hasher_merge_cv_stack p self chunk_counter;
         self = self\<lparr>h_cv_stack := buf_write (h_cv_stack self)
                  (unat (h_cv_stack_len self) * BLAKE3_OUT_LEN) new_cv\<rparr>
     in self\<lparr>h_cv_stack_len := h_cv_stack_len self + 1\<rparr>)"

section \<open>Update\<close>

text \<open>
  The inner loop halves \<open>subtree_len\<close> until it divides \<open>count_so_far\<close>; at length one the
  mask is zero, so it stops.
\<close>

function shrink_subtree :: "nat \<Rightarrow> u64 \<Rightarrow> nat" where
  "shrink_subtree subtree_len count_so_far =
    (if ((of_nat (subtree_len - 1) :: u64) AND count_so_far) \<noteq> 0
     then shrink_subtree (subtree_len div 2) count_so_far else subtree_len)"
  by pat_completeness auto
termination
proof (relation "measure fst", goal_cases)
  case (2 n c)
  then have "0 < n" by (cases n) auto
  then show ?case by simp
qed simp

declare shrink_subtree.simps [simp del]

lemma shrink_subtree_le: "shrink_subtree n c \<le> n"
proof (induction n c rule: shrink_subtree.induct)
  case (1 n c)
  then show ?case by (subst shrink_subtree.simps) (auto intro: le_trans)
qed

lemma shrink_subtree_pos: "0 < n \<Longrightarrow> 0 < shrink_subtree n c"
proof (induction n c rule: shrink_subtree.induct)
  case (1 n c)
  show ?case
  proof (cases "((of_nat (n - 1) :: u64) AND c) \<noteq> 0")
    case True
    have "n \<noteq> 1" using True by auto
    then have "0 < n div 2" using "1.prems" by (cases n) (auto simp: div_greater_zero_iff)
    with 1 True show ?thesis by (subst shrink_subtree.simps) simp
  next
    case False with 1 show ?thesis by (subst shrink_subtree.simps) simp
  qed
qed

definition hasher_hash_subtree ::
  "platform \<Rightarrow> blake3_hasher \<Rightarrow> bytes \<Rightarrow> nat \<Rightarrow> blake3_hasher" where
  "hasher_hash_subtree p self input_bytes subtree_len =
    (let subtree_chunks = (of_nat (subtree_len div BLAKE3_CHUNK_LEN) :: u64);
         self =
           (if subtree_len \<le> BLAKE3_CHUNK_LEN then
              let chunk_state = chunk_state_init (h_key self) (cs_flags (h_chunk self));
                  chunk_state = chunk_state\<lparr>cs_chunk_counter :=
                                  cs_chunk_counter (h_chunk self)\<rparr>;
                  chunk_state = chunk_state_update p chunk_state (take subtree_len input_bytes);
                  output = chunk_state_output chunk_state;
                  cv = output_chaining_value p output
              in hasher_push_cv p self cv (cs_chunk_counter chunk_state)
            else
              let cv_pair = compress_subtree_to_parent_node p (take subtree_len input_bytes)
                              (h_key self) (cs_chunk_counter (h_chunk self))
                              (cs_flags (h_chunk self));
                  self = hasher_push_cv p self (buf_read cv_pair 0 BLAKE3_OUT_LEN)
                           (cs_chunk_counter (h_chunk self))
              in hasher_push_cv p self (buf_read cv_pair BLAKE3_OUT_LEN BLAKE3_OUT_LEN)
                   (cs_chunk_counter (h_chunk self) + subtree_chunks div 2))
     in self\<lparr>h_chunk := (h_chunk self)\<lparr>cs_chunk_counter :=
               cs_chunk_counter (h_chunk self) + subtree_chunks\<rparr>\<rparr>)"

function hasher_update_loop ::
  "platform \<Rightarrow> blake3_hasher \<Rightarrow> bytes \<Rightarrow> blake3_hasher \<times> bytes" where
  "hasher_update_loop p self input_bytes =
    (if length input_bytes > BLAKE3_CHUNK_LEN then
       let subtree_len = unat (round_down_to_power_of_2 (of_nat (length input_bytes)));
           count_so_far = cs_chunk_counter (h_chunk self) * of_nat BLAKE3_CHUNK_LEN;
           subtree_len = shrink_subtree subtree_len count_so_far;
           self = hasher_hash_subtree p self input_bytes subtree_len
       in hasher_update_loop p self (drop subtree_len input_bytes)
     else (self, input_bytes))"
  by pat_completeness auto
termination
proof (relation "measure (\<lambda>(p, self, input). length input)", goal_cases)
  case (2 p self input s c s')
  then have pos: "0 < length input" by auto
  with round_down_le [of "length input"] have "0 < s'"
    using 2 shrink_subtree_pos by auto
  with pos show ?case by auto
qed simp

declare hasher_update_loop.simps [simp del]

definition blake3_hasher_update :: "platform \<Rightarrow> blake3_hasher \<Rightarrow> bytes \<Rightarrow> blake3_hasher" where
  "blake3_hasher_update p self input =
    (if length input = 0 then self
     else
       let (self, input_bytes, done) =
             (if chunk_state_len (h_chunk self) > 0 then
                let tk = BLAKE3_CHUNK_LEN - chunk_state_len (h_chunk self);
                    tk = (if tk > length input then length input else tk);
                    self = self\<lparr>h_chunk := chunk_state_update p (h_chunk self) (take tk input)\<rparr>;
                    input_bytes = drop tk input
                in if length input_bytes > 0 then
                     let output = chunk_state_output (h_chunk self);
                         chunk_cv = output_chaining_value p output;
                         self = hasher_push_cv p self chunk_cv (cs_chunk_counter (h_chunk self));
                         self = self\<lparr>h_chunk := chunk_state_reset (h_chunk self) (h_key self)
                                  (cs_chunk_counter (h_chunk self) + 1)\<rparr>
                     in (self, input_bytes, False)
                   else (self, input_bytes, True)
              else (self, input, False))
       in if done then self
          else
            let (self, input_bytes) = hasher_update_loop p self input_bytes
            in if length input_bytes > 0 then
                 let self = self\<lparr>h_chunk := chunk_state_update p (h_chunk self) input_bytes\<rparr>
                 in hasher_merge_cv_stack p self (cs_chunk_counter (h_chunk self))
               else self)"

section \<open>Finalize\<close>

fun finalize_rollup :: "platform \<Rightarrow> blake3_hasher \<Rightarrow> nat \<Rightarrow> output_t \<Rightarrow> output_t" where
  "finalize_rollup p self 0 output = output"
| "finalize_rollup p self (Suc cvs_remaining) output =
    (let parent_block = buf_read (h_cv_stack self) (cvs_remaining * 32) 32 @
                        output_chaining_value p output;
         output = parent_output parent_block (h_key self) (cs_flags (h_chunk self))
     in finalize_rollup p self cvs_remaining output)"

definition blake3_hasher_finalize_seek ::
  "platform \<Rightarrow> blake3_hasher \<Rightarrow> u64 \<Rightarrow> nat \<Rightarrow> bytes" where
  "blake3_hasher_finalize_seek p self seek out_len =
    (if out_len = 0 then []
     else if h_cv_stack_len self = 0 then
       let output = chunk_state_output (h_chunk self)
       in output_root_bytes p output seek out_len
     else
       let (output, cvs_remaining) =
             (if chunk_state_len (h_chunk self) > 0
              then (chunk_state_output (h_chunk self), unat (h_cv_stack_len self))
              else let cvs_remaining = unat (h_cv_stack_len self) - 2
                   in (parent_output (buf_read (h_cv_stack self) (cvs_remaining * 32)
                          BLAKE3_BLOCK_LEN) (h_key self) (cs_flags (h_chunk self)),
                       cvs_remaining));
           output = finalize_rollup p self cvs_remaining output
       in output_root_bytes p output seek out_len)"

definition blake3_hasher_finalize :: "platform \<Rightarrow> blake3_hasher \<Rightarrow> nat \<Rightarrow> bytes" where
  "blake3_hasher_finalize p self out_len = blake3_hasher_finalize_seek p self 0 out_len"

definition blake3_hasher_reset :: "blake3_hasher \<Rightarrow> blake3_hasher" where
  "blake3_hasher_reset self =
    self\<lparr>h_chunk := chunk_state_reset (h_chunk self) (h_key self) 0, h_cv_stack_len := 0\<rparr>"

section \<open>Key derivation\<close>

definition blake3_hasher_init_derive_key_raw ::
  "platform \<Rightarrow> blake3_hasher \<Rightarrow> blake3_hasher \<Rightarrow> bytes \<Rightarrow> blake3_hasher" where
  "blake3_hasher_init_derive_key_raw p self context_hasher context =
    (let context_hasher = hasher_init_base context_hasher IV DERIVE_KEY_CONTEXT;
         context_hasher = blake3_hasher_update p context_hasher context;
         context_key = blake3_hasher_finalize p context_hasher BLAKE3_KEY_LEN;
         context_key_words = load_key_words context_key
     in hasher_init_base self context_key_words DERIVE_KEY_MATERIAL)"

text \<open>The context of \<open>blake3_hasher_init_derive_key\<close> is a C string, which \<open>strlen\<close> ends at its first zero byte.\<close>

definition c_strlen :: "bytes \<Rightarrow> nat" where
  "c_strlen s = length (takeWhile (\<lambda>b. b \<noteq> 0) s)"

definition blake3_hasher_init_derive_key ::
  "platform \<Rightarrow> blake3_hasher \<Rightarrow> blake3_hasher \<Rightarrow> bytes \<Rightarrow> blake3_hasher" where
  "blake3_hasher_init_derive_key p self context_hasher context =
    blake3_hasher_init_derive_key_raw p self context_hasher (take (c_strlen context) context)"

end
