(* ===== verification/Custody.thy ===== *)
theory Custody
  imports Hasher
begin

text \<open>
  The packet custody layer of \<open>c/rafaelia_packet_custody.c\<close> (a client of the hasher): the
  domain-separated digest of a fragment, the root that commits to the table of fragments, and
  the receiver's state, which records which fragments have arrived in a bitmap. A pointer
  argument the code compares with \<open>NULL\<close> is an \<open>option\<close>; a result written through a pointer
  is returned beside the status. The \<open>blake3_hasher\<close> locals of the code are uninitialised, so
  they are arguments (\<open>h\<close>, and \<open>h0\<close> for the one inside \<open>blake3_hasher_init_derive_key_raw\<close>).
\<close>

datatype rpc_status =
  RPC_OK | RPC_DUPLICATE | RPC_INCOMPLETE | RPC_ERR_ARGUMENT | RPC_ERR_RANGE | RPC_ERR_DIGEST

definition RPC_PACKET_ID_LEN :: nat where "RPC_PACKET_ID_LEN = 16"
definition RPC_DIGEST_LEN :: nat where "RPC_DIGEST_LEN = BLAKE3_OUT_LEN"
definition RPC_MAX_CHUNKS :: u32 where "RPC_MAX_CHUNKS = 4096"
definition RPC_BITMAP_LEN :: nat where "RPC_BITMAP_LEN = unat ((RPC_MAX_CHUNKS + 7) div 8)"

record rpc_stream_state =
  rs_packet_id :: bytes
  rs_total_chunks :: u32
  rs_received_chunks :: u32
  rs_rejected_chunks :: u32
  rs_verified_bytes :: u64
  rs_received_bitmap :: bytes

definition RPC_CHUNK_CONTEXT :: bytes where
  "RPC_CHUNK_CONTEXT = map of_char ''RAFAELIA_PACKET_CUSTODY_CHUNK_V1'' @ [0]"

definition RPC_ROOT_CONTEXT :: bytes where
  "RPC_ROOT_CONTEXT = map of_char ''RAFAELIA_PACKET_CUSTODY_ROOT_V1'' @ [0]"

section \<open>Byte-level helpers\<close>

definition rpc_zero :: "nat \<Rightarrow> bytes" where
  "rpc_zero len = replicate len 0"

text \<open>The copy loop, byte by byte from index \<open>i\<close>.\<close>

function rpc_copy_loop :: "bytes \<Rightarrow> bytes \<Rightarrow> nat \<Rightarrow> nat \<Rightarrow> bytes" where
  "rpc_copy_loop d s i len =
    (if i < len then rpc_copy_loop (d[i := s ! i]) s (i + 1) len else d)"
  by pat_completeness auto
termination by (relation "measure (\<lambda>(d, s, i, len). len - i)") auto

declare rpc_copy_loop.simps [simp del]

definition rpc_copy :: "bytes \<Rightarrow> bytes \<Rightarrow> nat \<Rightarrow> bytes" where
  "rpc_copy dst src len = rpc_copy_loop dst src 0 len"

definition rpc_store32_le :: "u32 \<Rightarrow> bytes" where
  "rpc_store32_le value =
    [ucast value, ucast (drop_bit 8 value), ucast (drop_bit 16 value), ucast (drop_bit 24 value)]"

definition rpc_store64_le :: "u64 \<Rightarrow> bytes" where
  "rpc_store64_le value =
    [ucast value, ucast (drop_bit 8 value), ucast (drop_bit 16 value), ucast (drop_bit 24 value),
     ucast (drop_bit 32 value), ucast (drop_bit 40 value), ucast (drop_bit 48 value),
     ucast (drop_bit 56 value)]"

definition rpc_valid_total :: "u32 \<Rightarrow> bool" where
  "rpc_valid_total total_chunks \<longleftrightarrow> total_chunks > 0 \<and> total_chunks \<le> RPC_MAX_CHUNKS"

definition rpc_bit_is_set :: "rpc_stream_state \<Rightarrow> u32 \<Rightarrow> bool" where
  "rpc_bit_is_set state index =
    ((rs_received_bitmap state ! unat (drop_bit 3 index)) AND
     (push_bit (unat (index AND 7)) 1 :: u8) \<noteq> 0)"

definition rpc_bit_set :: "rpc_stream_state \<Rightarrow> u32 \<Rightarrow> rpc_stream_state" where
  "rpc_bit_set state index =
    (let j = unat (drop_bit 3 index)
     in state\<lparr>rs_received_bitmap := (rs_received_bitmap state)[j :=
          (rs_received_bitmap state ! j) OR (push_bit (unat (index AND 7)) 1 :: u8)]\<rparr>)"

section \<open>Digests\<close>

text \<open>
  The headers are local arrays filled field by field from offset 0; the fields cover the whole
  array, so a header is their concatenation.
\<close>

definition rpc_chunk_header :: "bytes \<Rightarrow> u32 \<Rightarrow> u32 \<Rightarrow> u64 \<Rightarrow> bytes" where
  "rpc_chunk_header packet_id chunk_index total_chunks payload_len =
    [of_char (CHR ''R''), of_char (CHR ''P''), of_char (CHR ''C''), 1] @
    buf_read packet_id 0 RPC_PACKET_ID_LEN @ rpc_store32_le chunk_index @
    rpc_store32_le total_chunks @ rpc_store64_le payload_len"

definition rpc_chunk_digest ::
  "platform \<Rightarrow> blake3_hasher \<Rightarrow> blake3_hasher \<Rightarrow> bytes option \<Rightarrow> u32 \<Rightarrow> u32 \<Rightarrow> bytes option \<Rightarrow> nat \<Rightarrow>
   bytes option \<Rightarrow> rpc_status \<times> bytes option" where
  "rpc_chunk_digest p h h0 packet_id chunk_index total_chunks payload payload_len out =
    (if packet_id = None \<or> out = None \<or> payload = None \<and> payload_len \<noteq> 0 then
       (RPC_ERR_ARGUMENT, out)
     else if \<not> rpc_valid_total total_chunks \<or> chunk_index \<ge> total_chunks then (RPC_ERR_RANGE, out)
     else
       let header = rpc_chunk_header (the packet_id) chunk_index total_chunks (of_nat payload_len);
           hasher = blake3_hasher_init_derive_key p h h0 RPC_CHUNK_CONTEXT;
           hasher = blake3_hasher_update p hasher header;
           hasher = (if payload_len \<noteq> 0
                     then blake3_hasher_update p hasher (buf_read (the payload) 0 payload_len)
                     else hasher)
       in (RPC_OK, Some (buf_write (the out) 0 (blake3_hasher_finalize p hasher RPC_DIGEST_LEN))))"

definition rpc_root_header :: "bytes \<Rightarrow> u32 \<Rightarrow> bytes" where
  "rpc_root_header packet_id total_chunks =
    [of_char (CHR ''R''), of_char (CHR ''P''), of_char (CHR ''R''), 1] @
    buf_read packet_id 0 RPC_PACKET_ID_LEN @ rpc_store32_le total_chunks"

definition rpc_record_header :: "u32 \<Rightarrow> u64 \<Rightarrow> bytes" where
  "rpc_record_header i len = rpc_store32_le i @ rpc_store64_le len"

text \<open>The loop over the table, from row \<open>i\<close>; \<open>total_chunks\<close> is at most 4096, so the index does not wrap.\<close>

function rpc_root_loop ::
  "platform \<Rightarrow> blake3_hasher \<Rightarrow> u64 list \<Rightarrow> bytes \<Rightarrow> nat \<Rightarrow> nat \<Rightarrow> blake3_hasher" where
  "rpc_root_loop p hasher chunk_lengths chunk_digests i total_chunks =
    (if i < total_chunks then
       let record_header = rpc_record_header (of_nat i) (chunk_lengths ! i);
           hasher = blake3_hasher_update p hasher record_header;
           hasher = blake3_hasher_update p hasher
                      (buf_read chunk_digests (i * RPC_DIGEST_LEN) RPC_DIGEST_LEN)
       in rpc_root_loop p hasher chunk_lengths chunk_digests (i + 1) total_chunks
     else hasher)"
  by pat_completeness auto
termination by (relation "measure (\<lambda>(p, h, ls, ds, i, total_chunks). total_chunks - i)") auto

declare rpc_root_loop.simps [simp del]

definition rpc_manifest_root ::
  "platform \<Rightarrow> blake3_hasher \<Rightarrow> blake3_hasher \<Rightarrow> bytes option \<Rightarrow> u32 \<Rightarrow> u64 list option \<Rightarrow> bytes option \<Rightarrow>
   bytes option \<Rightarrow> rpc_status \<times> bytes option" where
  "rpc_manifest_root p h h0 packet_id total_chunks chunk_lengths chunk_digests out =
    (if packet_id = None \<or> chunk_lengths = None \<or> chunk_digests = None \<or> out = None then
       (RPC_ERR_ARGUMENT, out)
     else if \<not> rpc_valid_total total_chunks then (RPC_ERR_RANGE, out)
     else
       let header = rpc_root_header (the packet_id) total_chunks;
           hasher = blake3_hasher_init_derive_key p h h0 RPC_ROOT_CONTEXT;
           hasher = blake3_hasher_update p hasher header;
           hasher = rpc_root_loop p hasher (the chunk_lengths) (the chunk_digests) 0
                      (unat total_chunks)
       in (RPC_OK, Some (buf_write (the out) 0 (blake3_hasher_finalize p hasher RPC_DIGEST_LEN))))"

text \<open>The comparison accumulates the differences of all 32 bytes before it decides.\<close>

fun rpc_diff_loop :: "bytes \<Rightarrow> bytes \<Rightarrow> u8 \<Rightarrow> nat \<Rightarrow> nat \<Rightarrow> u8" where
  "rpc_diff_loop left right diff i 0 = diff"
| "rpc_diff_loop left right diff i (Suc n) =
    rpc_diff_loop left right (diff OR (left ! i XOR right ! i)) (i + 1) n"

definition rpc_digest_equal :: "bytes option \<Rightarrow> bytes option \<Rightarrow> bool" where
  "rpc_digest_equal left right =
    (if left = None \<or> right = None then False
     else rpc_diff_loop (the left) (the right) 0 0 RPC_DIGEST_LEN = 0)"

section \<open>The receiver\<close>

definition rpc_stream_init ::
  "rpc_stream_state option \<Rightarrow> bytes option \<Rightarrow> u32 \<Rightarrow> rpc_status \<times> rpc_stream_state option" where
  "rpc_stream_init state pid total_chunks =
    (if state = None \<or> pid = None then (RPC_ERR_ARGUMENT, state)
     else if \<not> rpc_valid_total total_chunks then (RPC_ERR_RANGE, state)
     else
       let st = \<lparr>rs_packet_id = rpc_zero RPC_PACKET_ID_LEN, rs_total_chunks = 0, rs_received_chunks = 0,
                 rs_rejected_chunks = 0, rs_verified_bytes = 0, rs_received_bitmap = rpc_zero RPC_BITMAP_LEN\<rparr>;
           st = st\<lparr>rs_packet_id := rpc_copy (rs_packet_id st) (the pid) RPC_PACKET_ID_LEN\<rparr>;
           st = st\<lparr>rs_total_chunks := total_chunks\<rparr>
       in (RPC_OK, Some st))"

definition rpc_stream_record ::
  "platform \<Rightarrow> blake3_hasher \<Rightarrow> blake3_hasher \<Rightarrow> bytes \<Rightarrow> rpc_stream_state option \<Rightarrow> u32 \<Rightarrow> bytes option \<Rightarrow>
   nat \<Rightarrow> bytes option \<Rightarrow> rpc_status \<times> rpc_stream_state option" where
  "rpc_stream_record p h h0 actual state chunk_index payload payload_len expected_digest =
    (if state = None \<or> expected_digest = None \<or> payload = None \<and> payload_len \<noteq> 0 then
       (RPC_ERR_ARGUMENT, state)
     else
       let st = the state
       in if \<not> rpc_valid_total (rs_total_chunks st) \<or> chunk_index \<ge> rs_total_chunks st then
            (RPC_ERR_RANGE, state)
          else
            let (status, actual) = rpc_chunk_digest p h h0 (Some (rs_packet_id st)) chunk_index
                  (rs_total_chunks st) payload payload_len (Some actual)
            in if status \<noteq> RPC_OK then (status, state)
               else if \<not> rpc_digest_equal actual expected_digest then
                 (RPC_ERR_DIGEST, Some (st\<lparr>rs_rejected_chunks := rs_rejected_chunks st + 1\<rparr>))
               else if rpc_bit_is_set st chunk_index then (RPC_DUPLICATE, state)
               else
                 let st = rpc_bit_set st chunk_index;
                     st = st\<lparr>rs_received_chunks := rs_received_chunks st + 1\<rparr>;
                     st = st\<lparr>rs_verified_bytes := rs_verified_bytes st + of_nat payload_len\<rparr>
                 in (RPC_OK, Some st))"

text \<open>The search from \<open>i\<close> for \<open>n\<close> indices; \<open>None\<close> when every one of them has arrived.\<close>

fun rpc_missing_loop :: "rpc_stream_state \<Rightarrow> u32 \<Rightarrow> nat \<Rightarrow> u32 option" where
  "rpc_missing_loop state i 0 = None"
| "rpc_missing_loop state i (Suc n) =
    (if \<not> rpc_bit_is_set state i then Some i else rpc_missing_loop state (i + 1) n)"

definition rpc_stream_next_missing ::
  "rpc_stream_state option \<Rightarrow> u32 \<Rightarrow> u32 option \<Rightarrow> rpc_status \<times> u32 option" where
  "rpc_stream_next_missing state start_index missing_index =
    (if state = None \<or> missing_index = None then (RPC_ERR_ARGUMENT, missing_index)
     else
       let st = the state
       in if \<not> rpc_valid_total (rs_total_chunks st) \<or> start_index > rs_total_chunks st then
            (RPC_ERR_RANGE, missing_index)
          else
            case rpc_missing_loop st start_index (unat (rs_total_chunks st) - unat start_index) of
              Some i \<Rightarrow> (RPC_OK, Some i)
            | None \<Rightarrow> (RPC_INCOMPLETE, missing_index))"

definition rpc_stream_complete :: "rpc_stream_state option \<Rightarrow> bool" where
  "rpc_stream_complete state =
    (case state of
       None \<Rightarrow> False
     | Some st \<Rightarrow> (if \<not> rpc_valid_total (rs_total_chunks st) then False
                   else rs_received_chunks st = rs_total_chunks st))"

end
