(* ===== verification/Tree_Spec.thy ===== *)
theory Tree_Spec
  imports Chunk
begin

text \<open>
  The abstract specification of the hash, independent of any incremental state: a chunk is
  the chain of its 64-byte blocks, an input longer than a chunk is a binary tree whose left
  subtree holds the largest power-of-two number of chunks that leaves at least one byte for
  the right one, and the output is an infinite stream read from the root node at any
  position. The hasher is proved to compute this function.
\<close>

section \<open>Chunks\<close>

definition pad_block :: "bytes \<Rightarrow> bytes" where
  "pad_block bs = bs @ replicate (64 - length bs) 0"

definition start_flag :: "nat \<Rightarrow> u8" where
  "start_flag i = (if i = 0 then CHUNK_START else 0)"

text \<open>The chaining value after the first \<open>n\<close> full blocks of a chunk.\<close>

definition chain_blocks :: "words \<Rightarrow> u8 \<Rightarrow> u64 \<Rightarrow> bytes \<Rightarrow> nat \<Rightarrow> words" where
  "chain_blocks key flags counter bs n =
    foldl (\<lambda>cv i. blake3_compress_in_place_portable cv (take 64 (drop (64 * i) bs)) 64 counter
                    (flags OR start_flag i)) key [0..<n]"

text \<open>The number of blocks before the last one (an empty chunk has one empty block).\<close>

definition inner_blocks :: "bytes \<Rightarrow> nat" where
  "inner_blocks bs = (length bs - 1) div 64"

definition spec_chunk :: "words \<Rightarrow> u8 \<Rightarrow> u64 \<Rightarrow> bytes \<Rightarrow> output_t" where
  "spec_chunk key flags counter bs =
    (let n = inner_blocks bs
     in \<lparr>o_input_cv = chain_blocks key flags counter bs n, o_counter = counter,
         o_block = pad_block (drop (64 * n) bs), o_block_len = of_nat (length bs - 64 * n),
         o_flags = flags OR start_flag n OR CHUNK_END\<rparr>)"

section \<open>Nodes and the tree\<close>

definition spec_cv :: "output_t \<Rightarrow> bytes" where
  "spec_cv out = store_cv_words (blake3_compress_in_place_portable (o_input_cv out)
     (o_block out) (o_block_len out) (o_counter out) (o_flags out))"

definition spec_parent :: "words \<Rightarrow> u8 \<Rightarrow> bytes \<Rightarrow> bytes \<Rightarrow> output_t" where
  "spec_parent key flags l r =
    \<lparr>o_input_cv = key, o_counter = 0, o_block = l @ r, o_block_len = 64,
     o_flags = flags OR PARENT\<rparr>"

text \<open>The largest power of two that is at most \<open>n\<close>, and the one strictly below \<open>n\<close>.\<close>

fun pow2_le :: "nat \<Rightarrow> nat" where
  "pow2_le n = (if n \<le> 1 then 1 else 2 * pow2_le (n div 2))"

declare pow2_le.simps [simp del]

definition left_chunks :: "nat \<Rightarrow> nat" where
  "left_chunks n = pow2_le (n - 1)"

definition left_len :: "nat \<Rightarrow> nat" where
  "left_len len = 1024 * pow2_le ((len - 1) div 1024)"

lemma pow2_le_pos: "0 < pow2_le n"
  by (induction n rule: pow2_le.induct) (subst pow2_le.simps, auto)

lemma pow2_le_le: "0 < n \<Longrightarrow> pow2_le n \<le> n"
proof (induction n rule: pow2_le.induct)
  case (1 n)
  show ?case
  proof (cases "n \<le> 1")
    case True with 1 show ?thesis by (subst pow2_le.simps) auto
  next
    case False
    then have "pow2_le (n div 2) \<le> n div 2" by (intro "1.IH") auto
    with False show ?thesis by (subst pow2_le.simps) auto
  qed
qed

lemma pow2_le_less: "n < 2 * pow2_le n"
proof (induction n rule: pow2_le.induct)
  case (1 n)
  show ?case
  proof (cases "n \<le> 1")
    case True then show ?thesis by (subst pow2_le.simps) auto
  next
    case False
    then have "n div 2 < 2 * pow2_le (n div 2)" by (rule "1.IH")
    with False show ?thesis by (subst pow2_le.simps) auto
  qed
qed

lemma pow2_le_power: "\<exists>k. pow2_le n = 2 ^ k"
proof (induction n rule: pow2_le.induct)
  case (1 n)
  show ?case
  proof (cases "n \<le> 1")
    case True then show ?thesis by (subst pow2_le.simps) (auto intro: exI [of _ 0])
  next
    case False
    then obtain k where "pow2_le (n div 2) = 2 ^ k" using "1.IH" by auto
    then have "pow2_le n = 2 ^ Suc k" using False by (subst pow2_le.simps) auto
    then show ?thesis by blast
  qed
qed

lemma pow2_le_unique:
  assumes "2 ^ k \<le> n" "n < 2 ^ (k + 1)"
  shows "pow2_le n = 2 ^ k"
proof -
  obtain j where j: "pow2_le n = 2 ^ j" using pow2_le_power by blast
  have "0 < n" using assms(1) by (cases n) auto
  then have "2 ^ j \<le> n" "n < 2 ^ (j + 1)"
    using pow2_le_le [of n] pow2_le_less [of n] by (simp_all add: j)
  then have "j = k" using assms by (rule log2_unique)
  then show ?thesis by (simp add: j)
qed

lemma left_len_bounds:
  assumes "1024 < n"
  shows "0 < left_len n" and "left_len n < n" and "n \<le> 2 * left_len n"
proof -
  let ?k = "(n - 1) div 1024"
  have "0 < ?k" using assms by (simp add: div_greater_zero_iff)
  then have le: "pow2_le ?k \<le> ?k" and less: "?k < 2 * pow2_le ?k"
    using pow2_le_le pow2_le_less by auto
  show "0 < left_len n" by (simp add: left_len_def pow2_le_pos)
  have "1024 * ?k \<le> n - 1" by simp
  then show "left_len n < n" using le assms by (simp add: left_len_def)
  have "n - 1 < 1024 * (?k + 1)" by simp
  also have "\<dots> \<le> 1024 * (2 * pow2_le ?k)" using less by (intro mult_le_mono2) simp
  finally show "n \<le> 2 * left_len n" using assms by (simp add: left_len_def)
qed

function spec_tree :: "words \<Rightarrow> u8 \<Rightarrow> u64 \<Rightarrow> bytes \<Rightarrow> output_t" where
  "spec_tree key flags counter bs =
    (if length bs \<le> 1024 then spec_chunk key flags counter bs
     else let l = left_len (length bs)
          in spec_parent key flags
               (spec_cv (spec_tree key flags counter (take l bs)))
               (spec_cv (spec_tree key flags (counter + of_nat (l div 1024)) (drop l bs))))"
  by pat_completeness auto
termination
  by (relation "measure (\<lambda>(key, flags, counter, bs). length bs)")
    (auto simp: left_len_bounds not_le intro!: diff_less)

declare spec_tree.simps [simp del]

section \<open>The output stream\<close>

definition spec_xof_byte :: "output_t \<Rightarrow> nat \<Rightarrow> u8" where
  "spec_xof_byte out i =
    blake3_compress_xof_portable (o_input_cv out) (o_block out) (o_block_len out)
      (of_nat (i div 64)) (o_flags out OR ROOT) ! (i mod 64)"

definition spec_root_bytes :: "output_t \<Rightarrow> nat \<Rightarrow> nat \<Rightarrow> bytes" where
  "spec_root_bytes out seek n = map (spec_xof_byte out) [seek..<seek + n]"

text \<open>The three modes differ in the key words and the domain flags only.\<close>

definition blake3_spec :: "words \<Rightarrow> u8 \<Rightarrow> bytes \<Rightarrow> nat \<Rightarrow> nat \<Rightarrow> bytes" where
  "blake3_spec key flags bs seek n = spec_root_bytes (spec_tree key flags 0 bs) seek n"

end
