(* ===== verification/Cv_Tree.thy ===== *)
theory Cv_Tree
  imports Tree_Spec
begin

text \<open>
  Binary trees over a list of chaining values, for any joining function: \<open>cvtree\<close> is the
  value at the top of the left-balanced tree, \<open>cvtop\<close> its two halves, \<open>pairs\<close> one layer of
  parents as \<open>compress_parents_parallel\<close> forms them. Replacing a layer by its parents
  leaves the top of the tree unchanged, which is why the code may stop a subtree at any
  layer of at least two values.
\<close>

lemma length1E:
  assumes "length xs = 1"
  obtains a where "xs = [a]"
  using assms by (auto simp: length_Suc_conv)

section \<open>Trees over a list of chaining values\<close>

lemma left_chunks_bounds:
  assumes "2 \<le> n"
  shows "0 < left_chunks n" "left_chunks n < n" "n \<le> 2 * left_chunks n"
  using assms pow2_le_le [of "n - 1"] pow2_le_less [of "n - 1"] pow2_le_pos [of "n - 1"]
  by (simp_all add: left_chunks_def)

lemma left_chunks_power: "\<exists>k. left_chunks n = 2 ^ k"
  by (simp add: left_chunks_def pow2_le_power)

lemma left_chunks_eqI: "2 ^ k < n \<Longrightarrow> n \<le> 2 * 2 ^ k \<Longrightarrow> left_chunks n = 2 ^ k"
  unfolding left_chunks_def by (rule pow2_le_unique) auto

function cvtree :: "('a \<Rightarrow> 'a \<Rightarrow> 'a) \<Rightarrow> 'a list \<Rightarrow> 'a" where
  "cvtree f xs =
    (if length xs \<le> 1 then hd xs
     else f (cvtree f (take (left_chunks (length xs)) xs))
            (cvtree f (drop (left_chunks (length xs)) xs)))"
  by pat_completeness auto
termination
  by (relation "measure (\<lambda>(f, xs). length xs)")
    (auto simp: not_le Suc_le_eq intro!: diff_less left_chunks_bounds(1,2) min.strict_coboundedI2)

declare cvtree.simps [simp del]

lemma cvtree_single [simp]: "cvtree f [x] = x"
  by (simp add: cvtree.simps)

definition cvtop :: "('a \<Rightarrow> 'a \<Rightarrow> 'a) \<Rightarrow> 'a list \<Rightarrow> 'a \<times> 'a" where
  "cvtop f xs = (cvtree f (take (left_chunks (length xs)) xs),
                 cvtree f (drop (left_chunks (length xs)) xs))"

lemma cvtree_top: "2 \<le> length xs \<Longrightarrow> cvtree f xs = (case cvtop f xs of (l, r) \<Rightarrow> f l r)"
  by (subst cvtree.simps) (simp add: cvtop_def)

text \<open>One layer of parents: neighbours are joined, an odd one out is kept.\<close>

fun pairs :: "('a \<Rightarrow> 'a \<Rightarrow> 'a) \<Rightarrow> 'a list \<Rightarrow> 'a list" where
  "pairs f (x # y # xs) = f x y # pairs f xs"
| "pairs f xs = xs"

lemma length_pairs [len_simps]: "length (pairs f xs) = (length xs + 1) div 2"
  by (induction f xs rule: pairs.induct) auto

lemma take_pairs: "take k (pairs f xs) = pairs f (take (2 * k) xs)"
proof (induction f xs arbitrary: k rule: pairs.induct [case_names pair empty single])
  case (pair f x y xs)
  then show ?case by (cases k) auto
next
  case (single f v)
  then show ?case by (cases k) auto
qed simp

lemma drop_pairs: "drop k (pairs f xs) = pairs f (drop (2 * k) xs)"
proof (induction f xs arbitrary: k rule: pairs.induct [case_names pair empty single])
  case (pair f x y xs)
  then show ?case by (cases k) auto
next
  case (single f v)
  then show ?case by (cases k) auto
qed simp

lemma left_chunks_half:
  assumes "3 \<le> n"
  shows "left_chunks n = 2 * left_chunks ((n + 1) div 2)"
proof -
  obtain k where k: "left_chunks ((n + 1) div 2) = 2 ^ k" using left_chunks_power by blast
  have "2 \<le> (n + 1) div 2" using assms by simp
  note b = left_chunks_bounds [OF this, unfolded k]
  have "left_chunks n = 2 ^ Suc k" by (rule left_chunks_eqI) (use b assms in auto)
  then show ?thesis by (simp add: k [simplified])
qed

lemma cvtree_pairs: "2 \<le> length xs \<Longrightarrow> cvtree f (pairs f xs) = cvtree f xs"
proof (induction "length xs" arbitrary: xs rule: less_induct)
  case less
  show ?case
  proof (cases "length xs = 2")
    case True
    then obtain a b where "xs = [a, b]" by (auto simp: length_Suc_conv numeral_2_eq_2)
    moreover have "left_chunks (Suc (Suc 0)) = 1"
      using left_chunks_eqI [of 0 2] by (simp add: numeral_2_eq_2)
    ultimately show ?thesis by (simp add: cvtree.simps [of f "[a, b]"])
  next
    case False
    with less.prems have n: "3 \<le> length xs" by simp
    let ?l = "left_chunks ((length xs + 1) div 2)"
    have m: "2 \<le> length (pairs f xs)" using n by (simp add: length_pairs)
    note lh = left_chunks_half [OF n]
    have two: "2 \<le> length xs" using n by simp
    note b = left_chunks_bounds [OF two, unfolded lh]
    have "cvtree f (pairs f (take (2 * ?l) xs)) = cvtree f (take (2 * ?l) xs)"
      by (rule less.hyps) (use b in auto)
    moreover have "cvtree f (pairs f (drop (2 * ?l) xs)) = cvtree f (drop (2 * ?l) xs)"
    proof (cases "length (drop (2 * ?l) xs) = 1")
      case True
      then obtain x where "drop (2 * ?l) xs = [x]" by (rule length1E)
      then show ?thesis by simp
    next
      case False
      then show ?thesis by (intro less.hyps) (use b in auto)
    qed
    ultimately show ?thesis
      using m two by (simp add: cvtree_top cvtop_def length_pairs take_pairs drop_pairs lh)
  qed
qed

lemma cvtop_pairs:
  assumes "3 \<le> length xs"
  shows "cvtop f (pairs f xs) = cvtop f xs"
proof -
  let ?l = "left_chunks ((length xs + 1) div 2)"
  note lh = left_chunks_half [OF assms]
  have two: "2 \<le> length xs" using assms by simp
  note b = left_chunks_bounds [OF two, unfolded lh]
  have "cvtree f (pairs f (take (2 * ?l) xs)) = cvtree f (take (2 * ?l) xs)"
    by (rule cvtree_pairs) (use b in auto)
  moreover have "cvtree f (pairs f (drop (2 * ?l) xs)) = cvtree f (drop (2 * ?l) xs)"
  proof (cases "length (drop (2 * ?l) xs) = 1")
    case True
    then obtain x where "drop (2 * ?l) xs = [x]" by (rule length1E)
    then show ?thesis by simp
  next
    case False
    then show ?thesis by (intro cvtree_pairs) (use b in auto)
  qed
  ultimately show ?thesis by (simp add: cvtop_def length_pairs take_pairs drop_pairs lh)
qed

lemma cvtop_append:
  assumes "length xs = 2 ^ k" "0 < length ys" "length ys \<le> 2 ^ k"
  shows "cvtop f (xs @ ys) = (cvtree f xs, cvtree f ys)"
proof -
  have "left_chunks (length (xs @ ys)) = 2 ^ k"
    by (rule left_chunks_eqI) (use assms in auto)
  then show ?thesis using assms(1) by (simp add: cvtop_def)
qed

end
