(* ===== verification/Chunk_Correct.thy ===== *)
theory Chunk_Correct
  imports Tree_Spec
begin

text \<open>
  The chunk state and the output node against \<open>Tree_Spec\<close>. \<open>chunk_state_of\<close> is the one state
  that represents a given string of absorbed bytes; updates move between such states, and the
  output of a chunk state is the specified node. The root output read through
  \<open>output_root_bytes\<close> is the specified stream at any position.
\<close>

section \<open>Absorbing bytes\<close>

lemma length_pad_block [len_simps]: "length bs \<le> 64 \<Longrightarrow> length (pad_block bs) = 64"
  by (simp add: pad_block_def)

lemma chain_blocks_0 [simp]: "chain_blocks key flags counter bs 0 = key"
  by (simp add: chain_blocks_def)

lemma chain_blocks_Suc:
  "chain_blocks key flags counter bs (Suc n) =
   blake3_compress_in_place_portable (chain_blocks key flags counter bs n)
     (take 64 (drop (64 * n) bs)) 64 counter (flags OR start_flag n)"
  by (simp add: chain_blocks_def)

lemma length_chain_blocks [len_simps]:
  "length key = 8 \<Longrightarrow> length (chain_blocks key flags counter bs n) = 8"
  by (cases n) (simp_all add: chain_blocks_Suc length_compress_in_place)

lemma chain_blocks_append:
  "64 * n \<le> length bs \<Longrightarrow> chain_blocks key flags counter (bs @ xs) n = chain_blocks key flags counter bs n"
proof (induction n)
  case (Suc n)
  then show ?case by (simp add: chain_blocks_Suc)
qed simp

definition chunk_state_after :: "words \<Rightarrow> u8 \<Rightarrow> u64 \<Rightarrow> bytes \<Rightarrow> nat \<Rightarrow> blake3_chunk_state" where
  "chunk_state_after key flags counter bs n =
    \<lparr>cs_cv = chain_blocks key flags counter bs n, cs_chunk_counter = counter,
     cs_buf = pad_block (drop (64 * n) bs), cs_buf_len = of_nat (length bs - 64 * n),
     cs_blocks_compressed = of_nat n, cs_flags = flags\<rparr>"

definition chunk_state_of :: "words \<Rightarrow> u8 \<Rightarrow> u64 \<Rightarrow> bytes \<Rightarrow> blake3_chunk_state" where
  "chunk_state_of key flags counter bs = chunk_state_after key flags counter bs (inner_blocks bs)"

lemma inner_blocks_bounds:
  "64 * inner_blocks bs \<le> length bs" "length bs - 64 * inner_blocks bs \<le> 64"
  "bs \<noteq> [] \<Longrightarrow> 64 * inner_blocks bs < length bs"
proof -
  have "64 * ((length bs - 1) div 64) \<le> length bs - 1" by simp
  then show "64 * inner_blocks bs \<le> length bs" unfolding inner_blocks_def by linarith
  then show "bs \<noteq> [] \<Longrightarrow> 64 * inner_blocks bs < length bs"
    unfolding inner_blocks_def by (cases bs) auto
  have "length bs - 1 < 64 * ((length bs - 1) div 64) + 64" by simp
  then show "length bs - 64 * inner_blocks bs \<le> 64" unfolding inner_blocks_def by linarith
qed

lemma chunk_state_init_eq: "chunk_state_init key flags = chunk_state_of key flags 0 []"
  by (simp add: chunk_state_init_def chunk_state_of_def chunk_state_after_def inner_blocks_def
      pad_block_def BLAKE3_BLOCK_LEN_def)

lemma chunk_state_counter_eq:
  "(chunk_state_of key flags c [])\<lparr>cs_chunk_counter := counter\<rparr> = chunk_state_of key flags counter []"
  by (simp add: chunk_state_of_def chunk_state_after_def inner_blocks_def)

lemma chunk_state_reset_eq:
  "cs_flags self = flags \<Longrightarrow> chunk_state_reset self key counter = chunk_state_of key flags counter []"
  by (simp add: chunk_state_reset_def chunk_state_of_def chunk_state_after_def inner_blocks_def
      pad_block_def BLAKE3_BLOCK_LEN_def)

lemma cs_after_simps [simp]:
  "cs_cv (chunk_state_after key flags counter bs n) = chain_blocks key flags counter bs n"
  "cs_chunk_counter (chunk_state_after key flags counter bs n) = counter"
  "cs_flags (chunk_state_after key flags counter bs n) = flags"
  "cs_buf (chunk_state_after key flags counter bs n) = pad_block (drop (64 * n) bs)"
  "cs_blocks_compressed (chunk_state_after key flags counter bs n) = of_nat n"
  "cs_buf_len (chunk_state_after key flags counter bs n) = of_nat (length bs - 64 * n)"
  by (simp_all add: chunk_state_after_def)

lemma unat_u8: "n < 256 \<Longrightarrow> unat (of_nat n :: u8) = n"
  by (simp add: unat_of_nat take_bit_nat_eq_self)

lemma u8_eq_0_iff: "n < 256 \<Longrightarrow> (of_nat n :: u8) = 0 \<longleftrightarrow> n = 0"
  using unat_u8 [of n] by (auto simp: unat_eq_zero)

lemma chunk_state_len_of:
  assumes "length bs \<le> 1024"
  shows "chunk_state_len (chunk_state_of key flags counter bs) = length bs"
proof -
  have "inner_blocks bs \<le> 16" using assms inner_blocks_bounds(1) [of bs] by linarith
  then show ?thesis
    using inner_blocks_bounds [of bs]
    by (simp add: chunk_state_len_def chunk_state_of_def unat_u8 BLAKE3_BLOCK_LEN_def del: of_nat_diff)
qed

lemma fill_buf_after:
  assumes "64 * n \<le> length bs" "length bs - 64 * n \<le> 64"
  shows "chunk_state_fill_buf (chunk_state_after key flags counter bs n) input =
    (let tk = min (64 * (n + 1) - length bs) (length input)
     in (chunk_state_after key flags counter (bs @ take tk input) n, tk))"
proof -
  define r where "r = drop (64 * n) bs"
  have r: "length r = length bs - 64 * n" "length r \<le> 64" using assms by (simp_all add: r_def)
  define tk where "tk = min (64 * (n + 1) - length bs) (length input)"
  have tk: "(if 64 - length r > length input then length input else 64 - length r) = tk"
    "length r + tk \<le> 64"
    using r assms by (auto simp: tk_def)
  have u: "unat (of_nat (length r) :: u8) = length r" using r(2) by (intro unat_u8) simp
  have w: "buf_write (pad_block r) (length r) (take tk input) = pad_block (r @ take tk input)"
    using tk(2) r(2) by (simp add: buf_write_def pad_block_def tk_def min_def)
  have dr: "drop (64 * n) (bs @ take tk input) = r @ take tk input"
    using assms by (simp add: r_def)
  have "length (bs @ take tk input) - 64 * n = length r + tk"
    using assms r by (simp add: tk_def)
  then have l: "(of_nat (length (bs @ take tk input) - 64 * n) :: u8) = of_nat (length r) + of_nat tk"
    by (simp only: of_nat_add)
  show ?thesis
    unfolding chunk_state_fill_buf_def Let_def cs_after_simps r(1)[symmetric] u BLAKE3_BLOCK_LEN_def tk(1)
    unfolding tk_def [symmetric]
    unfolding chunk_state_after_def l dr r(1)[symmetric] r_def [symmetric]
    by (simp add: w chain_blocks_append assms)
qed

lemma maybe_start_flag_after:
  "n < 256 \<Longrightarrow> chunk_state_maybe_start_flag (chunk_state_after key flags counter bs n) = start_flag n"
  by (simp add: chunk_state_maybe_start_flag_def start_flag_def u8_eq_0_iff)

lemma update_blocks_after:
  assumes "length key = 8" "length bs = 64 * n" "length (bs @ input) \<le> 1024"
  shows "chunk_state_update_blocks p (chunk_state_after key flags counter bs n) input =
     (let k = (length input - 1) div 64
      in (chunk_state_after key flags counter (bs @ take (64 * k) input) (n + k), drop (64 * k) input))"
  using assms(2,3)
proof (induction "length input" arbitrary: bs n input rule: less_induct)
  case less
  show ?case
  proof (cases "64 < length input")
    case False
    then have "(length input - 1) div 64 = 0" by simp
    with False show ?thesis
      by (subst chunk_state_update_blocks.simps) (simp add: BLAKE3_BLOCK_LEN_def)
  next
    case True
    let ?b = "take 64 input"
    have n: "n < 256" using less.prems by simp
    have pb: "pad_block (drop (64 * n) bs) = replicate 64 0" "pad_block (drop (64 * Suc n) (bs @ ?b)) = replicate 64 0"
      using less.prems True by (simp_all add: pad_block_def)
    have step: "(chunk_state_after key flags counter bs n)
       \<lparr>cs_cv := blake3_compress_in_place p (chain_blocks key flags counter bs n) ?b 64 counter (flags OR start_flag n),
        cs_blocks_compressed := of_nat n + 1\<rparr> = chunk_state_after key flags counter (bs @ ?b) (Suc n)"
      using less.prems True pb
      by (simp add: chunk_state_after_def chain_blocks_Suc chain_blocks_append backend_eq
          length_chain_blocks assms(1) add.commute)
    have k: "(length input - 1) div 64 = Suc ((length (drop 64 input) - 1) div 64)"
      using True by (simp add: div_if)
    have "chunk_state_update_blocks p (chunk_state_after key flags counter bs n) input =
      chunk_state_update_blocks p (chunk_state_after key flags counter (bs @ ?b) (Suc n)) (drop 64 input)"
      using True n step
      by (subst chunk_state_update_blocks.simps)
         (simp add: BLAKE3_BLOCK_LEN_def maybe_start_flag_after Let_def)
    also have "\<dots> = (let k = (length (drop 64 input) - 1) div 64
      in (chunk_state_after key flags counter ((bs @ ?b) @ take (64 * k) (drop 64 input)) (Suc n + k), drop (64 * k) (drop 64 input)))"
      by (rule less.hyps) (use True less.prems in auto)
    finally show ?thesis unfolding k Let_def by (simp add: take_add add.commute)
  qed
qed

lemma finish_after:
  assumes "length key = 8" "length bs = 64 * n" "length (bs @ input) \<le> 1024"
    and u: "chunk_state_update_blocks p (chunk_state_after key flags counter bs n) input = (s, i)"
  shows "fst (chunk_state_fill_buf s i) =
    chunk_state_after key flags counter (bs @ input) (n + (length input - 1) div 64)"
proof -
  define k where "k = (length input - 1) div 64"
  have k: "64 * k \<le> length input" "length input - 64 * k \<le> 64"
    using inner_blocks_bounds [of input] by (simp_all add: inner_blocks_def k_def)
  have s: "s = chunk_state_after key flags counter (bs @ take (64 * k) input) (n + k)"
    and i: "i = drop (64 * k) input"
    using u update_blocks_after [OF assms(1-3), of p flags counter] by (simp_all add: Let_def k_def)
  have l: "length (bs @ take (64 * k) input) = 64 * (n + k)"
    using assms(2) k by simp
  have m: "min (64 * (n + k + 1) - 64 * (n + k)) (length i) = length i"
    unfolding i using k by simp
  have j: "(bs @ take (64 * k) input) @ take (length i) i = bs @ input"
    by (simp add: i)
  have "chunk_state_fill_buf s i = (chunk_state_after key flags counter
      ((bs @ take (64 * k) input) @ take (length i) i) (n + k), length i)"
    unfolding s by (subst fill_buf_after) (simp_all only: l m Let_def diff_self_eq_0 le0 order_refl)
  then show ?thesis by (simp only: j k_def [symmetric] fst_conv)
qed

lemma buf_len_after_pos:
  assumes "length bs - 64 * n \<le> 64"
  shows "0 < cs_buf_len (chunk_state_after key flags counter bs n) \<longleftrightarrow> 64 * n < length bs"
  using assms by (simp add: word_greater_zero_iff u8_eq_0_iff not_le del: of_nat_diff)

lemma inner_blocks_eqI: "64 * n < length bs \<Longrightarrow> length bs \<le> 64 * (n + 1) \<Longrightarrow> inner_blocks bs = n"
proof -
  assume a: "64 * n < length bs" "length bs \<le> 64 * (n + 1)"
  have "(length bs - 1) div 64 = n"
    by (rule div_nat_eqI) (use a in auto)
  then show ?thesis by (simp add: inner_blocks_def)
qed

lemma inner_blocks_nil [simp]: "inner_blocks [] = 0"
  by (simp add: inner_blocks_def)

lemma compress_full_buf:
  assumes "length key = 8" "length bs = 64 * Suc n" "n < 255"
  shows "(chunk_state_after key flags counter bs n)
    \<lparr>cs_cv := blake3_compress_in_place p (chain_blocks key flags counter bs n)
       (pad_block (drop (64 * n) bs)) 64 counter (flags OR start_flag n),
     cs_blocks_compressed := of_nat n + 1, cs_buf_len := 0, cs_buf := replicate 64 0\<rparr>
   = chunk_state_after key flags counter bs (Suc n)"
proof -
  have "pad_block (drop (64 * n) bs) = take 64 (drop (64 * n) bs)"
    using assms(2) by (simp add: pad_block_def)
  then show ?thesis
    using assms
    by (simp add: chunk_state_after_def chain_blocks_Suc backend_eq length_chain_blocks add.commute)
       (simp add: pad_block_def)
qed

theorem chunk_state_update_of:
  assumes "length key = 8" "length (bs @ input) \<le> 1024"
  shows "chunk_state_update p (chunk_state_of key flags counter bs) input =
    chunk_state_of key flags counter (bs @ input)"
proof (cases "bs = []")
  case True
  have b: "\<not> 0 < cs_buf_len (chunk_state_after key flags counter [] 0)"
    by (subst buf_len_after_pos) auto
  obtain s i where u: "chunk_state_update_blocks p (chunk_state_after key flags counter [] 0) input = (s, i)"
    by force
  have "fst (chunk_state_fill_buf s i) = chunk_state_after key flags counter input (inner_blocks input)"
    using finish_after [OF assms(1) _ _ u] assms(2) by (simp add: True inner_blocks_def)
  with b u show ?thesis
    by (simp add: True chunk_state_update_def chunk_state_of_def)
next
  case False
  define n where "n = inner_blocks bs"
  define tk where "tk = min (64 * (n + 1) - length bs) (length input)"
  note ib = inner_blocks_bounds [of bs, folded n_def]
  have n: "n < 255" using ib(1) assms(2) by simp
  have pos: "0 < cs_buf_len (chunk_state_after key flags counter bs n)"
    using buf_len_after_pos [OF ib(2)] ib(3) [OF False] by simp
  have fill: "chunk_state_fill_buf (chunk_state_after key flags counter bs n) input =
     (chunk_state_after key flags counter (bs @ take tk input) n, tk)"
    using fill_buf_after [OF ib(1,2)] by (simp add: tk_def Let_def)
  show ?thesis
  proof (cases "tk < length input")
    case False
    then have tk: "tk = length input" by (simp add: tk_def)
    have "64 * n < length (bs @ input)" "length (bs @ input) \<le> 64 * (n + 1)"
      using ib(3) [OF \<open>bs \<noteq> []\<close>] ib(1,2) tk tk_def by auto
    then have n': "inner_blocks (bs @ input) = n" by (rule inner_blocks_eqI)
    have "fst (chunk_state_fill_buf (chunk_state_after key flags counter (bs @ input) n) []) =
        chunk_state_after key flags counter (bs @ input) n"
      using inner_blocks_bounds [of "bs @ input", unfolded n'] by (simp add: fill_buf_after Let_def)
    with fill pos tk show ?thesis
      unfolding chunk_state_of_def n_def [symmetric] n'
      by (simp add: chunk_state_update_def chunk_state_update_blocks.simps)
  next
    case True
    then have tk: "tk = 64 * (n + 1) - length bs" by (simp add: tk_def)
    let ?bs = "bs @ take tk input"
    have lb: "length ?bs = 64 * Suc n" using True tk ib by simp
    obtain s i where u: "chunk_state_update_blocks p (chunk_state_after key flags counter ?bs (Suc n))
        (drop tk input) = (s, i)" by force
    have "chunk_state_update p (chunk_state_after key flags counter bs n) input = fst (chunk_state_fill_buf s i)"
      using True pos fill u compress_full_buf [OF assms(1) lb n, of p flags counter] n
      by (simp add: chunk_state_update_def Let_def maybe_start_flag_after BLAKE3_BLOCK_LEN_def)
    also have "\<dots> = chunk_state_after key flags counter (?bs @ drop tk input)
        (Suc n + (length (drop tk input) - 1) div 64)"
      by (rule finish_after [OF assms(1) lb _ u]) (use assms(2) in simp)
    also have "Suc n + (length (drop tk input) - 1) div 64 = inner_blocks (bs @ input)"
    proof -
      have "length (bs @ input) - 1 = (length (drop tk input) - 1) + 64 * Suc n"
        using True lb by (simp add: tk)
      then show ?thesis unfolding inner_blocks_def by (simp only: div_mult_self2)
    qed
    finally show ?thesis by (simp add: chunk_state_of_def n_def)
  qed
qed

theorem chunk_state_output_of:
  assumes "length bs \<le> 1024"
  shows "chunk_state_output (chunk_state_of key flags counter bs) = spec_chunk key flags counter bs"
proof -
  have "inner_blocks bs < 256" using assms inner_blocks_bounds(1) [of bs] by linarith
  then show ?thesis
    by (simp add: chunk_state_output_def chunk_state_of_def spec_chunk_def make_output_def Let_def
        maybe_start_flag_after)
qed

section \<open>Output nodes\<close>

definition wf_output :: "output_t \<Rightarrow> bool" where
  "wf_output out \<longleftrightarrow> length (o_input_cv out) = 8 \<and> length (o_block out) = 64"

lemma wf_spec_chunk: "length key = 8 \<Longrightarrow> wf_output (spec_chunk key flags counter bs)"
  using inner_blocks_bounds [of bs]
  by (simp add: wf_output_def spec_chunk_def Let_def length_chain_blocks length_pad_block)

lemma wf_spec_parent:
  "length key = 8 \<Longrightarrow> length l = 32 \<Longrightarrow> length r = 32 \<Longrightarrow> wf_output (spec_parent key flags l r)"
  by (simp add: wf_output_def spec_parent_def)

lemma length_spec_cv [len_simps]: "length (spec_cv out) = 32"
  by (simp add: spec_cv_def length_store_cv_words)

lemma wf_spec_tree: "length key = 8 \<Longrightarrow> wf_output (spec_tree key flags counter bs)"
  by (subst spec_tree.simps) (simp add: Let_def wf_spec_chunk wf_spec_parent length_spec_cv)

lemma output_chaining_value_eq: "wf_output out \<Longrightarrow> output_chaining_value p out = spec_cv out"
  by (simp add: output_chaining_value_def spec_cv_def wf_output_def backend_eq Let_def)

lemma parent_output_eq: "length l = 32 \<Longrightarrow> parent_output (l @ r) key flags = spec_parent key flags l r"
  by (simp add: parent_output_def make_output_def spec_parent_def BLAKE3_BLOCK_LEN_def)

section \<open>The output stream\<close>

definition xof_block :: "output_t \<Rightarrow> u64 \<Rightarrow> bytes" where
  "xof_block out c = blake3_compress_xof_portable (o_input_cv out) (o_block out) (o_block_len out) c
      (o_flags out OR ROOT)"

lemma length_xof_block [len_simps]: "length (xof_block out c) = 64"
  by (simp add: xof_block_def length_compress_xof)

lemma spec_xof_byte_block: "j < 64 \<Longrightarrow> spec_xof_byte out (64 * c + j) = xof_block out (of_nat c) ! j"
  by (simp add: spec_xof_byte_def xof_block_def)

lemma spec_bytes_in_block:
  assumes "off + n \<le> 64"
  shows "spec_root_bytes out (64 * c + off) n = take n (drop off (xof_block out (of_nat c)))"
proof (rule nth_equalityI)
  show "length (spec_root_bytes out (64 * c + off) n) = length (take n (drop off (xof_block out (of_nat c))))"
    using assms by (simp add: spec_root_bytes_def length_xof_block)
  fix i assume "i < length (spec_root_bytes out (64 * c + off) n)"
  then have "i < n" by (simp add: spec_root_bytes_def)
  then show "spec_root_bytes out (64 * c + off) n ! i = take n (drop off (xof_block out (of_nat c))) ! i"
    using assms spec_xof_byte_block [of "off + i" out c]
    by (simp add: spec_root_bytes_def length_xof_block add.assoc)
qed

lemma spec_root_bytes_append:
  "spec_root_bytes out s (n + m) = spec_root_bytes out s n @ spec_root_bytes out (s + n) m"
  using upt_add_eq_append [of s "s + n" m] by (simp add: spec_root_bytes_def add.assoc)

lemma spec_bytes_blocks:
  "spec_root_bytes out (64 * c) (64 * k) = concat (map (\<lambda>i. xof_block out (of_nat c + of_nat i)) [0..<k])"
proof (induction k)
  case 0
  then show ?case by (simp add: spec_root_bytes_def)
next
  case (Suc k)
  have "spec_root_bytes out (64 * (c + k) + 0) 64 = xof_block out (of_nat (c + k))"
    by (subst spec_bytes_in_block) (simp_all add: length_xof_block)
  then show ?case
    using spec_root_bytes_append [of out "64 * c" "64 * k" 64] Suc by (simp add: add_mult_distrib2 add.commute)
qed

lemma round_down_64_eq:
  assumes "n < 2 ^ 64"
  shows "round_down_64 n = 64 * (n div 64)"
proof -
  have m: "(- 64 :: u64) = NOT (mask 6)" by (simp add: mask_eq_exp_minus_1 not_eq_complement)
  have "(of_nat n :: u64) AND NOT (mask 6) = push_bit 6 (drop_bit 6 (of_nat n))"
    by (rule bit_word_eqI) (auto simp: bit_simps)
  also have "drop_bit 6 (of_nat n :: u64) = of_nat (n div 64)"
  proof -
    have "unat (drop_bit 6 (of_nat n :: u64)) = drop_bit 6 (unat (of_nat n :: u64))"
      by (rule unat_drop_bit_eq)
    also have "\<dots> = n div 64"
      using assms unat_of_nat_small [of n, where 'a = 64] by (simp add: drop_bit_eq_div)
    also have "\<dots> = unat (of_nat (n div 64) :: u64)"
      by (rule unat_of_nat_small [symmetric]) (use assms in simp)
    finally show ?thesis by (simp only: word_unat_eq_iff)
  qed
  finally have "round_down_64 n = unat (push_bit 6 (of_nat (n div 64) :: u64))"
    by (simp add: round_down_64_def m)
  also have "\<dots> = unat (of_nat (64 * (n div 64)) :: u64)"
    by (simp add: push_bit_eq_mult mult.commute)
  also have "\<dots> = 64 * (n div 64)"
    by (rule unat_of_nat_small) (use assms in simp)
  finally show ?thesis .
qed

text \<open>The part of \<open>output_root_bytes\<close> that starts at a block boundary.\<close>

lemma root_bytes_aligned:
  assumes wf: "wf_output out" and n: "n < 2 ^ 64"
  shows "(if n div 64 \<noteq> 0
          then blake3_xof_many p (o_input_cv out) (o_block out) (o_block_len out) (of_nat c)
                 (o_flags out OR ROOT) (n div 64) else []) @
         (if n - round_down_64 n \<noteq> 0
          then take (n - round_down_64 n) (blake3_compress_xof p (o_input_cv out) (o_block out)
                 (o_block_len out) (of_nat c + of_nat (n div 64)) (o_flags out OR ROOT))
          else []) = spec_root_bytes out (64 * c) n"
proof -
  have r: "n - round_down_64 n = n mod 64"
    using n by (simp add: round_down_64_eq minus_mult_div_eq_mod)
  have many: "blake3_xof_many p (o_input_cv out) (o_block out) (o_block_len out) (of_nat c)
      (o_flags out OR ROOT) (n div 64) = spec_root_bytes out (64 * c) (64 * (n div 64))"
    using wf by (simp add: backend_eq wf_output_def spec_bytes_blocks xof_block_def)
  have "spec_root_bytes out (64 * (c + n div 64) + 0) (n mod 64)
      = take (n mod 64) (xof_block out (of_nat (c + n div 64)))"
    by (subst spec_bytes_in_block) (simp_all add: less_imp_le)
  then have last: "take (n mod 64) (blake3_compress_xof p (o_input_cv out) (o_block out)
      (o_block_len out) (of_nat c + of_nat (n div 64)) (o_flags out OR ROOT))
      = spec_root_bytes out (64 * c + 64 * (n div 64)) (n mod 64)"
    using wf by (simp add: backend_eq wf_output_def xof_block_def add_mult_distrib2)
  have "spec_root_bytes out (64 * c) n =
      spec_root_bytes out (64 * c) (64 * (n div 64)) @
      spec_root_bytes out (64 * c + 64 * (n div 64)) (n mod 64)"
    using spec_root_bytes_append [of out "64 * c" "64 * (n div 64)" "n mod 64"] by simp
  moreover have "spec_root_bytes out x 0 = []" for x by (simp add: spec_root_bytes_def)
  ultimately show ?thesis unfolding r many last by auto
qed

theorem output_root_bytes_eq:
  assumes wf: "wf_output out" and n: "n < 2 ^ 64"
  shows "output_root_bytes p out seek n = spec_root_bytes out (unat seek) n"
proof -
  define c where "c = unat seek div 64"
  define off where "off = unat seek mod 64"
  have seek: "unat seek = 64 * c + off" and off: "off < 64" by (simp_all add: c_def off_def)
  have wc: "seek div 64 = of_nat c"
    by (simp only: c_def word_arith_nat_div) simp
  have wo: "unat (seek mod 64) = off" by (simp add: off_def unat_mod)
  have nil: "spec_root_bytes out x 0 = []" for x by (simp add: spec_root_bytes_def)
  note al = root_bytes_aligned [OF wf]
  show ?thesis
  proof (cases "n = 0")
    case True then show ?thesis by (simp add: output_root_bytes_def nil)
  next
    case n0: False
    show ?thesis
    proof (cases "off = 0")
      case True
      then show ?thesis
        using n0 al [OF n, of p c] by (simp add: output_root_bytes_def wc wo seek Let_def not_le)
    next
      case False
      define m where "m = (if n > 64 - off then 64 - off else n)"
      have m: "m \<le> n" "off + m \<le> 64" using off by (auto simp: m_def)
      have x: "blake3_compress_xof p (o_input_cv out) (o_block out) (o_block_len out) (of_nat c)
          (o_flags out OR ROOT) = xof_block out (of_nat c)"
        using wf by (simp add: backend_eq wf_output_def xof_block_def)
      have first: "buf_read (xof_block out (of_nat c)) off m = spec_root_bytes out (unat seek) m"
        using spec_bytes_in_block [OF m(2), of out c] by (simp add: buf_read_def seek)
      have rest: "spec_root_bytes out (unat seek + m) (n - m) = spec_root_bytes out (64 * (c + 1)) (n - m)"
        using off by (cases "n > 64 - off") (auto simp: m_def seek nil algebra_simps)
      define k where "k = n - m"
      have w: "(of_nat (c + 1) :: u64) = of_nat c + 1" by simp
      have k: "k < 2 ^ 64" using n by (simp add: k_def)
      have "output_root_bytes p out seek n = spec_root_bytes out (unat seek) m @
          spec_root_bytes out (64 * (c + 1)) k"
        unfolding al [OF k, of p "c + 1", symmetric] w
        using n0 False
        by (simp add: output_root_bytes_def wc wo x Let_def m_def [symmetric] first
            k_def [symmetric] not_le split del: if_split)
      then have "output_root_bytes p out seek n =
          spec_root_bytes out (unat seek) m @ spec_root_bytes out (unat seek + m) (n - m)"
        using rest by (simp add: k_def)
      also have "\<dots> = spec_root_bytes out (unat seek) n"
        using spec_root_bytes_append [of out "unat seek" m "n - m"] m(1) by simp
      finally show ?thesis .
    qed
  qed
qed

section \<open>What the chunk state and the output node guarantee\<close>

lemma chunk_state_update_fold:
  "length key = 8 \<Longrightarrow> length (bs @ concat inputs) \<le> 1024 \<Longrightarrow>
   foldl (chunk_state_update p) (chunk_state_of key flags counter bs) inputs =
   chunk_state_of key flags counter (bs @ concat inputs)"
  by (induction inputs arbitrary: bs) (simp_all add: chunk_state_update_of)

text \<open>
  A chunk state that has been reset to a counter and fed at most 1024 bytes, in any number of
  updates of any lengths, reports that many bytes and yields the output node of the specified
  chunk: the chain of its full blocks, the padded last block, and the start and end flags.
\<close>

theorem chunk_state_correct:
  assumes "length key = 8" "length (concat inputs) \<le> 1024" "cs_flags cs = flags"
  shows "(let cs' = foldl (chunk_state_update p) (chunk_state_reset cs key counter) inputs
    in chunk_state_len cs' = length (concat inputs) \<and>
       chunk_state_output cs' = spec_chunk key flags counter (concat inputs))"
proof -
  have "chunk_state_reset cs key counter = chunk_state_of key flags counter []"
    using assms(3) by (simp add: chunk_state_reset_eq)
  then show ?thesis
    using assms(1,2) chunk_state_update_fold [of key "[]" inputs p flags counter]
    by (simp add: chunk_state_len_of chunk_state_output_of)
qed

theorem chunk_state_correct_witness:
  "(let cs' = foldl (chunk_state_update demo_platform)
         (chunk_state_reset (chunk_state_init IV 16) IV 9) [replicate 64 1, [], replicate 70 2]
    in chunk_state_len cs' = 134 \<and>
       chunk_state_output cs' = spec_chunk IV 16 9 (replicate 64 1 @ replicate 70 2))"
  using chunk_state_correct [of IV "[replicate 64 1, [], replicate 70 2]" "chunk_state_init IV 16" 16 demo_platform 9]
  by (simp add: chunk_state_init_def)

text \<open>
  \<open>output_root_bytes\<close> returns exactly the requested window of the node's infinite output
  stream: the partial first block, the whole blocks written by \<open>blake3_xof_many\<close>, and the partial
  last block join without gap or overlap, for every starting position and length.
\<close>

theorem output_root_bytes_window:
  assumes "length (o_input_cv out) = 8" "length (o_block out) = 64" "n < 2 ^ 64"
  shows "output_root_bytes p out seek n = map (spec_xof_byte out) [unat seek..<unat seek + n]"
proof -
  have "wf_output out" using assms by (simp add: wf_output_def)
  from output_root_bytes_eq [OF this assms(3)] show ?thesis by (simp add: spec_root_bytes_def)
qed

theorem output_root_bytes_window_witness:
  "output_root_bytes demo_platform (make_output IV (replicate 64 3) 64 0 11) 70 200 =
    map (spec_xof_byte (make_output IV (replicate 64 3) 64 0 11)) [70..<270]"
  using output_root_bytes_window [of "make_output IV (replicate 64 3) 64 0 11" 200 demo_platform 70]
  by (simp add: make_output_def)

end
