(* ===== verification/Subtree_Correct.thy ===== *)
theory Subtree_Correct
  imports Cv_Tree Chunk_Correct Subtree
begin

text \<open>
  The subtree routines of \<open>Subtree\<close> compute the tree of \<open>Tree_Spec\<close>: whole chunks and
  layers of parents go through \<open>blake3_hash_many\<close>, \<open>blake3_compress_subtree_wide\<close> returns
  a layer of the subtree whose top is the specified one and which never overflows the
  caller's array, and \<open>compress_subtree_to_parent_node\<close> returns its two halves.
\<close>

section \<open>Chunk chaining values\<close>

definition num_chunks :: "nat \<Rightarrow> nat" where
  "num_chunks n = (n + 1023) div 1024"

definition leaf :: "words \<Rightarrow> u8 \<Rightarrow> u64 \<Rightarrow> bytes \<Rightarrow> nat \<Rightarrow> bytes" where
  "leaf key flags counter bs i =
     spec_cv (spec_chunk key flags (counter + of_nat i) (take 1024 (drop (1024 * i) bs)))"

definition leaves :: "words \<Rightarrow> u8 \<Rightarrow> u64 \<Rightarrow> bytes \<Rightarrow> bytes list" where
  "leaves key flags counter bs = map (leaf key flags counter bs) [0..<num_chunks (length bs)]"

definition node :: "words \<Rightarrow> u8 \<Rightarrow> bytes \<Rightarrow> bytes \<Rightarrow> bytes" where
  "node key flags l r = spec_cv (spec_parent key flags l r)"

lemma length_leaves [len_simps]: "length (leaves key flags counter bs) = num_chunks (length bs)"
  by (simp add: leaves_def)

lemma length_node [len_simps]: "length (node key flags l r) = 32"
  by (simp add: node_def length_spec_cv)

lemma leaves_take:
  assumes "1024 * l \<le> length bs"
  shows "leaves key flags counter (take (1024 * l) bs) = take l (leaves key flags counter bs)"
proof -
  have "l \<le> num_chunks (length bs)" using assms by (simp add: num_chunks_def)
  then have "take l (leaves key flags counter bs) = map (leaf key flags counter bs) [0..<l]"
    by (simp add: leaves_def take_map)
  moreover have "num_chunks (1024 * l) = l" by (simp add: num_chunks_def)
  moreover have "leaf key flags counter (take (1024 * l) bs) i = leaf key flags counter bs i" if "i < l" for i
  proof -
    have "1024 * i + 1024 \<le> 1024 * l" using that by simp
    then show ?thesis by (simp add: leaf_def drop_take min_def)
  qed
  ultimately show ?thesis using assms by (simp add: leaves_def min_def)
qed

lemma leaves_drop:
  assumes "1024 * l \<le> length bs"
  shows "leaves key flags (counter + of_nat l) (drop (1024 * l) bs) = drop l (leaves key flags counter bs)"
proof (rule nth_equalityI)
  have n: "num_chunks (length bs - 1024 * l) = num_chunks (length bs) - l"
  proof -
    have "length bs + 1023 = (length bs - 1024 * l + 1023) + 1024 * l" using assms by simp
    then have "num_chunks (length bs) = num_chunks (length bs - 1024 * l) + l"
      unfolding num_chunks_def by (metis add.commute div_mult_self2 zero_neq_numeral)
    then show ?thesis by simp
  qed
  then show "length (leaves key flags (counter + of_nat l) (drop (1024 * l) bs)) =
      length (drop l (leaves key flags counter bs))"
    by (simp add: length_leaves)
  fix i assume "i < length (leaves key flags (counter + of_nat l) (drop (1024 * l) bs))"
  then have i: "i < num_chunks (length bs) - l" by (simp add: length_leaves n)
  have "1024 * i + 1024 * l = 1024 * (l + i)" by simp
  then have "leaf key flags (counter + of_nat l) (drop (1024 * l) bs) i = leaf key flags counter bs (l + i)"
    by (simp only: leaf_def drop_drop of_nat_add add.assoc)
  with i show "leaves key flags (counter + of_nat l) (drop (1024 * l) bs) ! i =
      drop l (leaves key flags counter bs) ! i"
    by (simp add: leaves_def n)
qed

lemma left_len_chunks:
  assumes "0 < len"
  shows "left_len len = 1024 * left_chunks (num_chunks len)"
proof -
  have "len + 1023 = (len - 1) + 1024" using assms by simp
  then have "num_chunks len - 1 = (len - 1) div 1024" by (simp add: num_chunks_def)
  then show ?thesis by (simp add: left_len_def left_chunks_def)
qed

theorem spec_tree_cvtree:
  "bs \<noteq> [] \<Longrightarrow> spec_cv (spec_tree key flags counter bs) = cvtree (node key flags) (leaves key flags counter bs)"
proof (induction key flags counter bs rule: spec_tree.induct)
  case (1 key flags counter bs)
  have pos: "0 < length bs" using "1.prems" by simp
  show ?case
  proof (cases "length bs \<le> 1024")
    case True
    then have "num_chunks (length bs) = 1"
      unfolding num_chunks_def using pos by (intro div_nat_eqI) (auto simp: Suc_le_eq)
    with True show ?thesis by (simp add: spec_tree.simps leaves_def leaf_def)
  next
    case False
    let ?l = "left_len (length bs)"
    let ?c = "left_chunks (num_chunks (length bs))"
    note lb = left_len_bounds [of "length bs"]
    have l: "?l = 1024 * ?c" using left_len_chunks [OF pos] .
    have n2: "2 \<le> num_chunks (length bs)" using False by (simp add: num_chunks_def)
    have le: "1024 * ?c \<le> length bs" using lb False l by simp
    have "take ?l bs \<noteq> []" "drop ?l bs \<noteq> []" using lb False by auto
    then have "spec_cv (spec_tree key flags counter (take ?l bs)) = cvtree (node key flags) (take ?c (leaves key flags counter bs))"
      "spec_cv (spec_tree key flags (counter + of_nat (?l div 1024)) (drop ?l bs)) = cvtree (node key flags) (drop ?c (leaves key flags counter bs))"
      using "1.IH" False leaves_take [OF le] leaves_drop [OF le] by (simp_all add: l)
    with False n2 show ?thesis
      by (simp add: spec_tree.simps [of key flags counter bs] Let_def node_def [symmetric] cvtree.simps [of _ "leaves key flags counter bs"] length_leaves)
  qed
qed

section \<open>Whole chunks and parents through \<open>hash_many\<close>\<close>

lemma hash_one_loop_chunk:
  assumes "i + k = 15"
  shows "hash_one_loop blake3_compress_in_place_portable (chain_blocks key flags counter bs i)
      (drop (64 * i) bs) (Suc k) counter flags (flags OR start_flag i) CHUNK_END =
    blake3_compress_in_place_portable (chain_blocks key flags counter bs 15)
      (take 64 (drop (64 * 15) bs)) 64 counter (flags OR start_flag 15 OR CHUNK_END)"
  using assms
proof (induction k arbitrary: i)
  case 0
  then have "i = 15" by simp
  then show ?case by (simp add: buf_read_def BLAKE3_BLOCK_LEN_def or.assoc)
next
  case (Suc k)
  have "hash_one_loop blake3_compress_in_place_portable (chain_blocks key flags counter bs i)
      (drop (64 * i) bs) (Suc (Suc k)) counter flags (flags OR start_flag i) CHUNK_END =
    hash_one_loop blake3_compress_in_place_portable (chain_blocks key flags counter bs (Suc i))
      (drop (64 * Suc i) bs) (Suc k) counter flags (flags OR start_flag (Suc i)) CHUNK_END"
    by (subst hash_one_loop.simps)
      (simp add: chain_blocks_Suc buf_read_def BLAKE3_BLOCK_LEN_def start_flag_def add.commute
        del: hash_one_loop.simps)
  also have "\<dots> = blake3_compress_in_place_portable (chain_blocks key flags counter bs 15)
      (take 64 (drop (64 * 15) bs)) 64 counter (flags OR start_flag 15 OR CHUNK_END)"
    by (rule Suc.IH) (use Suc.prems in simp)
  finally show ?case .
qed

lemma hash_one_portable_chunk:
  assumes "1024 \<le> length bs"
  shows "hash_one_portable bs 16 key counter flags CHUNK_START CHUNK_END =
    spec_cv (spec_chunk key flags counter (take 1024 bs))"
proof -
  have loop: "hash_one_loop blake3_compress_in_place_portable key bs 16 counter flags
      (flags OR CHUNK_START) CHUNK_END =
    blake3_compress_in_place_portable (chain_blocks key flags counter bs 15)
      (take 64 (drop 960 bs)) 64 counter (flags OR start_flag 15 OR CHUNK_END)"
    using hash_one_loop_chunk [of 0 15 key flags counter bs] by (simp add: start_flag_def)
  have ib: "inner_blocks (take 1024 bs) = 15"
    using assms by (simp add: inner_blocks_def)
  have "chain_blocks key flags counter (take 1024 bs) 15 = chain_blocks key flags counter bs 15"
    using chain_blocks_append [of 15 "take 1024 bs" key flags counter "drop 1024 bs"] assms by simp
  moreover have "pad_block (drop 960 (take 1024 bs)) = take 64 (drop 960 bs)"
    using assms by (simp add: pad_block_def drop_take)
  ultimately show ?thesis
    using assms by (simp add: hash_one_portable_def loop spec_cv_def spec_chunk_def ib Let_def)
qed

lemma hash_one_portable_parent:
  assumes "length l = 32" "length r = 32"
  shows "hash_one_portable (l @ r @ xs) 1 key 0 (flags OR PARENT) 0 0 = node key flags l r"
  using assms
  by (simp add: hash_one_portable_def node_def spec_cv_def spec_parent_def buf_read_def
      BLAKE3_BLOCK_LEN_def numeral_eq_Suc [of num.One] Let_def One_nat_def)

lemma collect_chunks_eq:
  assumes "pos = 1024 * k" "k \<le> length input div 1024" "arr = map (\<lambda>i. drop (1024 * i) input) [0..<k]"
  shows "collect_chunks input pos arr =
    (map (\<lambda>i. drop (1024 * i) input) [0..<length input div 1024], 1024 * (length input div 1024))"
  using assms
proof (induction input pos arr arbitrary: k rule: collect_chunks.induct)
  case (1 input pos arr)
  show ?case
  proof (cases "1024 \<le> length input - pos")
    case True
    have k: "k < length input div 1024"
      using True "1.prems"(1) by (simp add: less_eq_div_iff_mult_less_eq Suc_le_eq [symmetric])
    have "collect_chunks input (pos + 1024) (arr @ [drop pos input]) =
      (map (\<lambda>i. drop (1024 * i) input) [0..<length input div 1024], 1024 * (length input div 1024))"
      by (rule "1.IH" [of "Suc k", unfolded BLAKE3_CHUNK_LEN_def])
        (use True k "1.prems" in \<open>auto simp: BLAKE3_CHUNK_LEN_def\<close>)
    with True show ?thesis by (subst collect_chunks.simps) (simp add: BLAKE3_CHUNK_LEN_def)
  next
    case False
    have "length input < 1024 * Suc k" using False "1.prems"(1) by simp
    then have "length input div 1024 < Suc k" by (simp add: div_less_iff_less_mult mult.commute)
    with "1.prems"(2) have "k = length input div 1024" by simp
    with False "1.prems" show ?thesis by (subst collect_chunks.simps) (simp add: BLAKE3_CHUNK_LEN_def)
  qed
qed

lemma collect_parents_eq:
  assumes "k \<le> n div 2" "arr = map (\<lambda>i. drop (64 * i) cvs) [0..<k]"
  shows "collect_parents cvs n arr = map (\<lambda>i. drop (64 * i) cvs) [0..<n div 2]"
  using assms
proof (induction cvs n arr arbitrary: k rule: collect_parents.induct)
  case (1 cvs n arr)
  have l: "length arr = k" using "1.prems" by simp
  show ?case
  proof (cases "2 \<le> n - 2 * length arr")
    case True
    then have k: "k < n div 2" by (auto simp: l)
    have "collect_parents cvs n (arr @ [drop (2 * length arr * BLAKE3_OUT_LEN) cvs]) =
        map (\<lambda>i. drop (64 * i) cvs) [0..<n div 2]"
      by (rule "1.IH" [of "Suc k"]) (use True k l "1.prems" in \<open>auto simp: BLAKE3_OUT_LEN_def\<close>)
    with True show ?thesis by (subst collect_parents.simps) simp
  next
    case False
    then have "k = n div 2" using "1.prems"(1) by (auto simp: l)
    with False "1.prems" show ?thesis by (subst collect_parents.simps) simp
  qed
qed

lemma hash_many_chunks:
  assumes "length key = 8" "m \<le> length input div 1024"
  shows "blake3_hash_many p (map (\<lambda>i. drop (1024 * i) input) [0..<m]) 16 key counter True flags
      CHUNK_START CHUNK_END = concat (map (leaf key flags counter input) [0..<m])"
proof -
  have len: "1024 \<le> length (drop (1024 * i) input)" if "i < m" for i
  proof -
    have "1024 * Suc i \<le> 1024 * (length input div 1024)" using that assms(2) by (intro mult_le_mono2) simp
    also have "\<dots> \<le> length input" by simp
    finally show ?thesis by simp
  qed
  have "blake3_hash_many p (map (\<lambda>i. drop (1024 * i) input) [0..<m]) 16 key counter True flags
      CHUNK_START CHUNK_END =
    blake3_hash_many_portable (map (\<lambda>i. drop (1024 * i) input) [0..<m]) 16 key counter True flags
      CHUNK_START CHUNK_END"
    by (rule blake3_hash_many_eq) (use assms(1) len in auto)
  also have "\<dots> = concat (map (leaf key flags counter input) [0..<m])"
    unfolding hash_many_portable_True
    by (rule arg_cong [where f = concat], rule map_cong)
      (use len in \<open>auto simp: hash_one_portable_chunk leaf_def\<close>)
  finally show ?thesis .
qed

lemma length_leaf [len_simps]: "length (leaf key flags counter bs i) = 32"
  by (simp add: leaf_def length_spec_cv)

lemma num_chunks_eq: "num_chunks n = n div 1024 + (if n mod 1024 = 0 then 0 else 1)"
proof -
  have "n + 1023 = n mod 1024 + 1023 + 1024 * (n div 1024)" by simp
  then have "num_chunks n = (n mod 1024 + 1023) div 1024 + n div 1024"
    unfolding num_chunks_def by (metis add.commute div_mult_self2 zero_neq_numeral)
  moreover have "(n mod 1024 + 1023) div 1024 = (if n mod 1024 = 0 then 0 else 1)"
  proof (cases "n mod 1024 = 0")
    case False
    moreover have "n mod 1024 < 1024" by simp
    ultimately have "(n mod 1024 + 1023) div 1024 = 1"
      by (intro div_nat_eqI) auto
    with False show ?thesis by simp
  qed simp
  ultimately show ?thesis by simp
qed

theorem compress_chunks_parallel_eq:
  assumes "length key = 8"
  shows "compress_chunks_parallel p input key counter flags =
    (num_chunks (length input), concat (leaves key flags counter input))"
proof -
  let ?m = "length input div 1024"
  have c: "collect_chunks input 0 [] = (map (\<lambda>i. drop (1024 * i) input) [0..<?m], 1024 * ?m)"
    using collect_chunks_eq [of 0 0 input "[]"] by simp
  have h: "blake3_hash_many p (map (\<lambda>i. drop (1024 * i) input) [0..<?m]) 16 key counter True flags
      CHUNK_START CHUNK_END = concat (map (leaf key flags counter input) [0..<?m])"
    using hash_many_chunks [OF assms order_refl] .
  have l: "length (concat (map (leaf key flags counter input) [0..<?m])) = ?m * 32"
    using length_concat_const [of "[0..<?m]" "leaf key flags counter input" 32]
    by (simp add: length_leaf)
  show ?thesis
  proof (cases "length input mod 1024 = 0")
    case True
    then have "1024 * ?m = length input" using mult_div_mod_eq [of 1024 "length input"] by simp
    then show ?thesis
      using True by (simp add: compress_chunks_parallel_def c h BLAKE3_CHUNK_LEN_def
          BLAKE3_BLOCK_LEN_def num_chunks_eq leaves_def Let_def)
  next
    case False
    have lt: "1024 * ?m < length input"
      using False by (metis le_neq_implies_less mod_mult_self1_is_0 times_div_less_eq_dividend)
    have rest: "length (drop (1024 * ?m) input) \<le> 1024" by simp
    have cv: "output_chaining_value p (chunk_state_output (chunk_state_update p
        ((chunk_state_init key flags)\<lparr>cs_chunk_counter := counter + of_nat ?m\<rparr>) (drop (1024 * ?m) input)))
      = leaf key flags counter input ?m"
      using chunk_state_update_of [OF assms, of "[]" "drop (1024 * ?m) input"] rest assms
      by (simp add: chunk_state_init_eq chunk_state_counter_eq chunk_state_output_of
          output_chaining_value_eq wf_spec_chunk leaf_def)
    show ?thesis
      using False lt l cv
      by (simp add: compress_chunks_parallel_def c h BLAKE3_CHUNK_LEN_def BLAKE3_BLOCK_LEN_def
          BLAKE3_OUT_LEN_def num_chunks_eq leaves_def Let_def buf_write_def)
  qed
qed


section \<open>Layers of parents\<close>

lemma drop_concat_32:
  assumes "\<forall>x\<in>set cvs. length x = 32" "k \<le> length cvs"
  shows "drop (32 * k) (concat cvs @ junk) = concat (drop k cvs) @ junk"
  using assms
proof (induction k arbitrary: cvs)
  case (Suc k)
  then obtain c cs where "cvs = c # cs" by (cases cvs) auto
  with Suc show ?case by simp
qed simp

lemma length_concat_32:
  "\<forall>x\<in>set cvs. length x = 32 \<Longrightarrow> length (concat cvs) = 32 * length cvs"
  by (induction cvs) auto

lemma pairs_conv:
  "pairs f xs = map (\<lambda>i. f (xs ! (2 * i)) (xs ! (2 * i + 1))) [0..<length xs div 2] @
     (if odd (length xs) then [last xs] else [])"
proof (induction f xs rule: pairs.induct)
  case (1 f x y xs)
  have "map (\<lambda>i. f ((x # y # xs) ! (2 * i)) ((x # y # xs) ! (2 * i + 1))) [0..<length (x # y # xs) div 2] =
    f x y # map (\<lambda>i. f (xs ! (2 * i)) (xs ! (2 * i + 1))) [0..<length xs div 2]"
    by (simp add: map_upt_Suc del: upt_Suc)
  moreover have "odd (length xs) \<Longrightarrow> xs \<noteq> []" by auto
  ultimately show ?case using 1 by auto
qed auto

lemma set_pairs_length:
  "\<forall>x\<in>set xs. length x = 32 \<Longrightarrow> x \<in> set (pairs (node key flags) xs) \<Longrightarrow> length x = 32"
  by (induction "node key flags" xs rule: pairs.induct) (auto simp: length_node)

theorem compress_parents_parallel_eq:
  assumes key: "length key = 8" and cvs: "\<forall>x\<in>set cvs. length x = 32"
  shows "compress_parents_parallel p (concat cvs @ junk) (length cvs) key flags =
    ((length cvs + 1) div 2, concat (pairs (node key flags) cvs))"
proof -
  let ?n = "length cvs"
  let ?A = "map (\<lambda>i. drop (64 * i) (concat cvs @ junk)) [0..<?n div 2]"
  let ?P = "map (\<lambda>i. node key flags (cvs ! (2 * i)) (cvs ! (2 * i + 1))) [0..<?n div 2]"
  have at: "drop (64 * i) (concat cvs @ junk) =
      cvs ! (2 * i) @ cvs ! (2 * i + 1) @ concat (drop (2 * i + 2) cvs) @ junk" if "i < ?n div 2" for i
  proof -
    have "drop (32 * (2 * i)) (concat cvs @ junk) = concat (drop (2 * i) cvs) @ junk"
      by (rule drop_concat_32) (use cvs that in auto)
    moreover have "drop (2 * i) cvs = cvs ! (2 * i) # cvs ! (2 * i + 1) # drop (2 * i + 2) cvs"
      using that by (simp add: Cons_nth_drop_Suc)
    ultimately show ?thesis by simp
  qed
  have len: "length (cvs ! j) = 32" if "j < ?n" for j using cvs that by simp
  have A: "collect_parents (concat cvs @ junk) ?n [] = ?A"
    by (rule collect_parents_eq [of 0]) auto
  have h: "blake3_hash_many p ?A 1 key 0 False (flags OR PARENT) 0 0 = concat ?P"
  proof -
    have "blake3_hash_many p ?A 1 key 0 False (flags OR PARENT) 0 0 =
        blake3_hash_many_portable ?A 1 key 0 False (flags OR PARENT) 0 0"
      by (rule blake3_hash_many_eq) (use key at len in auto)
    also have "\<dots> = concat (map (\<lambda>inp. hash_one_portable inp 1 key 0 (flags OR PARENT) 0 0) ?A)"
      by (rule hash_many_portable_False)
    also have "map (\<lambda>inp. hash_one_portable inp 1 key 0 (flags OR PARENT) 0 0) ?A = ?P"
      unfolding map_map
      by (rule map_cong [OF refl]) (use at len hash_one_portable_parent in auto)
    finally show ?thesis .
  qed
  have l: "length (concat ?P) = ?n div 2 * 32"
    using length_concat_const [of "[0..<?n div 2]" "\<lambda>i. node key flags (cvs ! (2 * i)) (cvs ! (2 * i + 1))" 32]
    by (simp add: length_node)
  show ?thesis
  proof (cases "odd ?n")
    case True
    then have n: "?n = Suc (2 * (?n div 2))" by simp
    have "drop (32 * (2 * (?n div 2))) (concat cvs @ junk) = concat (drop (2 * (?n div 2)) cvs) @ junk"
      by (rule drop_concat_32) (use cvs in auto)
    moreover have "drop (2 * (?n div 2)) cvs = [last cvs]"
    proof -
      have "drop (2 * (?n div 2)) cvs = cvs ! (2 * (?n div 2)) # drop (Suc (2 * (?n div 2))) cvs"
        using n by (intro Cons_nth_drop_Suc [symmetric]) simp
      also have "cvs ! (2 * (?n div 2)) = last cvs"
        using n by (metis diff_Suc_1 last_conv_nth list.size(3) nat.distinct(1))
      also have "drop (Suc (2 * (?n div 2))) cvs = []" using n by simp
      finally show ?thesis .
    qed
    moreover have "length (last cvs) = 32" using cvs True by (cases cvs rule: rev_cases) auto
    ultimately have r: "buf_read (concat cvs @ junk) (2 * (?n div 2) * 32) 32 = last cvs"
      by (simp add: buf_read_def mult.commute)
    define A P m where "A = ?A" and "P = concat ?P" and "m = ?n div 2"
    have "length A = m" "length P = m * 32" "2 * m < ?n" "(?n + 1) div 2 = m + 1"
      using l True n by (simp_all add: A_def P_def m_def del: One_nat_def)
    moreover have "concat (pairs (node key flags) cvs) = P @ last cvs"
      using True by (simp add: pairs_conv P_def)
    moreover have "collect_parents (concat cvs @ junk) ?n [] = A"
      and "blake3_hash_many p A 1 key 0 False (flags OR PARENT) 0 0 = P"
      and "buf_read (concat cvs @ junk) (2 * m * 32) 32 = last cvs"
      using A h r by (simp_all only: A_def P_def m_def)
    ultimately show ?thesis
      by (simp add: compress_parents_parallel_def Let_def BLAKE3_OUT_LEN_def buf_write_def
          del: One_nat_def)
  next
    case False
    define A P where "A = ?A" and "P = concat ?P"
    have "length A = ?n div 2" by (simp add: A_def)
    moreover have "concat (pairs (node key flags) cvs) = P"
      using False by (simp add: pairs_conv P_def)
    moreover have "collect_parents (concat cvs @ junk) ?n [] = A"
      and "blake3_hash_many p A 1 key 0 False (flags OR PARENT) 0 0 = P"
      using A h by (simp_all only: A_def P_def)
    ultimately show ?thesis
      using False by (simp add: compress_parents_parallel_def Let_def del: One_nat_def)
  qed
qed

section \<open>The wide subtree\<close>

lemma left_subtree_len_eq:
  assumes "1024 < n" "n < 2 ^ 64"
  shows "left_subtree_len n = left_len n"
proof -
  let ?k = "(n - 1) div 1024"
  have "0 < ?k" "?k < 2 ^ 64" using assms by (auto simp: div_greater_zero_iff)
  then obtain j where j: "unat (round_down_to_power_of_2 (of_nat ?k)) = 2 ^ j" "2 ^ j \<le> ?k" "?k < 2 ^ (j + 1)"
    using round_down_bounds by blast
  then have "pow2_le ?k = 2 ^ j" by (intro pow2_le_unique)
  then show ?thesis using j by (simp add: left_subtree_len_def left_len_def BLAKE3_CHUNK_LEN_def Let_def)
qed

text \<open>\<open>xs\<close> is a layer of the tree over \<open>ls\<close>: all of it when \<open>ls\<close> is a single value, and
  otherwise at least two values with the same two halves on top.\<close>

definition layer_of :: "('a \<Rightarrow> 'a \<Rightarrow> 'a) \<Rightarrow> 'a list \<Rightarrow> 'a list \<Rightarrow> bool" where
  "layer_of f ls xs \<longleftrightarrow>
    (if length ls = 1 then xs = ls else 2 \<le> length ls \<and> 2 \<le> length xs \<and> cvtop f xs = cvtop f ls)"

lemma layer_of_refl: "ls \<noteq> [] \<Longrightarrow> layer_of f ls ls"
  by (cases ls; cases "tl ls") (auto simp: layer_of_def)

lemma layer_of_cvtree: "layer_of f ls xs \<Longrightarrow> cvtree f xs = cvtree f ls"
  by (auto simp: layer_of_def cvtree_top split: if_splits)

lemma layer_of_pairs:
  assumes "layer_of f ls xs" "3 \<le> length xs"
  shows "layer_of f ls (pairs f xs)"
proof -
  have "length ls \<noteq> 1" using assms by (auto simp: layer_of_def)
  then show ?thesis using assms by (auto simp: layer_of_def cvtop_pairs length_pairs)
qed

lemma layer_of_append:
  assumes "layer_of f l xl" "layer_of f r xr"
    and "length l = 2 ^ j" "0 < length r" "length r \<le> 2 ^ j"
    and "length xl = 2 ^ k" "0 < length xr" "length xr \<le> 2 ^ k"
  shows "layer_of f (l @ r) (xl @ xr)"
proof -
  have "cvtop f (xl @ xr) = (cvtree f xl, cvtree f xr)"
    by (rule cvtop_append) (use assms in auto)
  moreover have "cvtop f (l @ r) = (cvtree f l, cvtree f r)"
    by (rule cvtop_append) (use assms in auto)
  moreover have "0 < length l" "0 < length xl" using assms by simp_all
  moreover have "2 \<le> length l + length r" "2 \<le> length xl + length xr"
    using calculation assms by linarith+
  ultimately show ?thesis
    using layer_of_cvtree [OF assms(1)] layer_of_cvtree [OF assms(2)]
    unfolding layer_of_def by auto
qed

definition wide_degree :: "platform \<Rightarrow> nat" where
  "wide_degree p = max (blake3_simd_degree p) 2"

lemma simd_degree_power: "\<exists>e. blake3_simd_degree p = 2 ^ e"
proof -
  have "blake3_simd_degree p \<in> {2 ^ 0, 2 ^ 2, 2 ^ 3, 2 ^ 4}"
    using blake3_simd_degree_cases [of p] by simp
  then show ?thesis by blast
qed

lemma wide_degree_power: "\<exists>e. wide_degree p = 2 ^ Suc e"
proof -
  have "wide_degree p \<in> {2 ^ Suc 0, 2 ^ Suc 1, 2 ^ Suc 2, 2 ^ Suc 3}"
    using blake3_simd_degree_cases [of p] by (auto simp: wide_degree_def)
  then show ?thesis by blast
qed

lemma wide_degree_le: "wide_degree p \<le> MAX_SIMD_DEGREE_OR_2 p"
  using blake3_simd_degree_le [of p] by (auto simp: wide_degree_def MAX_SIMD_DEGREE_OR_2_def)

definition wide_result ::
  "platform \<Rightarrow> words \<Rightarrow> u8 \<Rightarrow> bytes list \<Rightarrow> nat \<times> bytes \<Rightarrow> bool" where
  "wide_result p key flags ls res \<longleftrightarrow>
    (\<exists>xs. res = (length xs, concat xs) \<and> (\<forall>x\<in>set xs. length x = 32) \<and>
      layer_of (node key flags) ls xs \<and> length xs \<le> wide_degree p \<and>
      (\<forall>k. length ls = 2 ^ k \<longrightarrow> length xs = min (wide_degree p) (length ls)))"

lemma num_chunks_gt: "d * 1024 < n \<longleftrightarrow> d < num_chunks n"
proof -
  have "d < num_chunks n \<longleftrightarrow> Suc d * 1024 \<le> n + 1023"
    unfolding num_chunks_def by (simp only: Suc_le_eq [symmetric] less_eq_div_iff_mult_less_eq [OF zero_less_numeral])
  then show ?thesis by auto
qed

lemma left_chunks_ge_degree:
  assumes "2 ^ e < n"
  shows "2 ^ e \<le> left_chunks n"
proof -
  obtain k where k: "left_chunks n = 2 ^ k" using left_chunks_power by blast
  have "(1::nat) \<le> 2 ^ e" by simp
  then have "2 \<le> n" using assms by linarith
  from left_chunks_bounds(3) [OF this] k have "2 ^ e < (2::nat) ^ Suc k" using assms by simp
  then have "e \<le> k" using power_less_imp_less_exp [of "2::nat" e "Suc k"] by simp
  then show ?thesis by (simp add: k)
qed

lemma length_leaf_all: "\<forall>x\<in>set (leaves key flags counter bs). length x = 32"
  by (auto simp: leaves_def length_leaf)

lemma wide_result_leaves:
  assumes "bs \<noteq> []" "num_chunks (length bs) \<le> wide_degree p"
  shows "wide_result p key flags (leaves key flags counter bs)
    (num_chunks (length bs), concat (leaves key flags counter bs))"
proof -
  have "0 < num_chunks (length bs)" using num_chunks_gt [of 0 "length bs"] assms(1) by simp
  then have "leaves key flags counter bs \<noteq> []" by (simp add: leaves_def)
  then show ?thesis
    unfolding wide_result_def
    using assms length_leaf_all layer_of_refl
    by (intro exI [of _ "leaves key flags counter bs"]) (auto simp: length_leaves)
qed

lemma wide_result_single:
  assumes "wide_result p key flags ls (n, cv)" "length ls = 1"
  shows "n = 1" "cv = concat ls"
  using assms by (auto simp: wide_result_def layer_of_def)

lemma wide_result_join:
  assumes key: "length key = 8"
    and l: "wide_result p key flags ll (ln, lcv)" and r: "wide_result p key flags rl (rn, rcv)"
    and ll: "length ll = 2 ^ j" "wide_degree p \<le> length ll"
    and rl: "0 < length rl" "length rl \<le> length ll"
  shows "wide_result p key flags (ll @ rl)
    (compress_parents_parallel p
      (buf_write (buf_write (replicate (2 * MAX_SIMD_DEGREE_OR_2 p * BLAKE3_OUT_LEN) 0) 0 lcv)
        (wide_degree p * BLAKE3_OUT_LEN) rcv) (ln + rn) key flags)"
    and "ln = wide_degree p" "rn \<le> wide_degree p"
proof -
  obtain xl where xl: "ln = length xl" "lcv = concat xl" "\<forall>x\<in>set xl. length x = 32"
    "layer_of (node key flags) ll xl" "length xl = wide_degree p"
    using l ll by (auto simp: wide_result_def)
  obtain xr where xr: "rn = length xr" "rcv = concat xr" "\<forall>x\<in>set xr. length x = 32"
    "layer_of (node key flags) rl xr" "length xr \<le> wide_degree p"
    "\<And>k. length rl = 2 ^ k \<Longrightarrow> length xr = min (wide_degree p) (length rl)"
    using r by (auto simp: wide_result_def)
  show "ln = wide_degree p" "rn \<le> wide_degree p" using xl xr by simp_all
  obtain e where e: "wide_degree p = 2 ^ Suc e" using wide_degree_power by blast
  have xr0: "0 < length xr"
    using xr(4) rl(1) by (cases "length rl = 1") (auto simp: layer_of_def)
  have lay: "layer_of (node key flags) (ll @ rl) (xl @ xr)"
    by (rule layer_of_append [where j = j and k = "Suc e"]) (use xl xr ll rl xr0 e in auto)
  have len: "length (concat xl) = wide_degree p * BLAKE3_OUT_LEN"
    using length_concat_32 [OF xl(3)] xl(5) by (simp add: BLAKE3_OUT_LEN_def)
  obtain junk where arr: "buf_write (buf_write (replicate (2 * MAX_SIMD_DEGREE_OR_2 p * BLAKE3_OUT_LEN) 0) 0 lcv)
        (wide_degree p * BLAKE3_OUT_LEN) rcv = concat (xl @ xr) @ junk"
    using len by (simp add: buf_write_def xl(2) xr(2))
  have all: "\<forall>x\<in>set (xl @ xr). length x = 32" using xl xr by auto
  note cp = compress_parents_parallel_eq [OF key all, of p junk flags]
  have three: "3 \<le> length (xl @ xr)"
  proof -
    have "2 \<le> wide_degree p" by (simp add: wide_degree_def)
    then have "3 \<le> wide_degree p + length xr" using xr0 by linarith
    then show ?thesis using xl(5) by simp
  qed
  have "wide_result p key flags (ll @ rl)
      (length (pairs (node key flags) (xl @ xr)), concat (pairs (node key flags) (xl @ xr)))"
    unfolding wide_result_def
  proof (intro exI conjI)
    show "\<forall>x\<in>set (pairs (node key flags) (xl @ xr)). length x = 32"
      using set_pairs_length [OF all] by blast
    show "layer_of (node key flags) (ll @ rl) (pairs (node key flags) (xl @ xr))"
      by (rule layer_of_pairs [OF lay three])
    show "length (pairs (node key flags) (xl @ xr)) \<le> wide_degree p"
      using xl(5) xr(5) by (simp add: length_pairs)
    show "\<forall>k. length (ll @ rl) = 2 ^ k \<longrightarrow>
        length (pairs (node key flags) (xl @ xr)) = min (wide_degree p) (length (ll @ rl))"
    proof (intro allI impI)
      fix k assume k: "length (ll @ rl) = 2 ^ k"
      have "2 ^ j + length rl = 2 ^ k" "length rl \<le> 2 ^ j" using k ll(1) rl by simp_all
      then have lt: "(2::nat) ^ j < 2 ^ k" "(2::nat) ^ k \<le> 2 ^ Suc j"
        using rl(1) unfolding power_Suc by linarith+
      then have "j < k" "k \<le> Suc j"
        using power_less_imp_less_exp [of "2::nat" j k] power_le_imp_le_exp [of "2::nat" k "Suc j"] by auto
      then have "k = Suc j" by simp
      then have "length rl = 2 ^ j" using k ll(1) by simp
      then have "length xr = wide_degree p" using xr(6) ll by simp
      then show "length (pairs (node key flags) (xl @ xr)) = min (wide_degree p) (length (ll @ rl))"
        using xl(5) ll(2) by (simp add: length_pairs)
    qed
  qed simp
  then show "wide_result p key flags (ll @ rl)
    (compress_parents_parallel p
      (buf_write (buf_write (replicate (2 * MAX_SIMD_DEGREE_OR_2 p * BLAKE3_OUT_LEN) 0) 0 lcv)
        (wide_degree p * BLAKE3_OUT_LEN) rcv) (ln + rn) key flags)"
    using cp by (simp add: arr xl(1) xr(1) length_pairs)
qed

theorem subtree_wide_correct:
  "length key = 8 \<Longrightarrow> input \<noteq> [] \<Longrightarrow> length input < 2 ^ 64 \<Longrightarrow>
   wide_result p key flags (leaves key flags chunk_counter input)
     (blake3_compress_subtree_wide p input key chunk_counter flags)"
proof (induction p input key chunk_counter flags rule: blake3_compress_subtree_wide.induct)
  case (1 p input key counter flags)
  note key = "1.prems"(1)
  let ?n = "num_chunks (length input)"
  let ?d = "blake3_simd_degree p"
  show ?case
  proof (cases "length input \<le> ?d * BLAKE3_CHUNK_LEN")
    case True
    then have "?n \<le> ?d" using num_chunks_gt [of ?d "length input"] by (simp add: BLAKE3_CHUNK_LEN_def not_less)
    then have "?n \<le> wide_degree p" by (simp add: wide_degree_def)
    from wide_result_leaves [OF "1.prems"(2) this] True show ?thesis
      by (subst blake3_compress_subtree_wide.simps) (simp add: compress_chunks_parallel_eq [OF key])
  next
    case False
    let ?c = "left_chunks ?n"
    let ?l = "left_subtree_len (length input)"
    obtain e where e: "?d = 2 ^ e" using simd_degree_power by blast
    have dn: "?d < ?n" using False num_chunks_gt [of ?d "length input"] by (simp add: BLAKE3_CHUNK_LEN_def)
    have gt: "1024 < length input"
      using False simd_degree_pos [of p] by (auto simp: BLAKE3_CHUNK_LEN_def)
    have pos: "0 < length input" using gt by linarith
    have n2: "2 \<le> ?n" using num_chunks_gt [of 1 "length input"] gt by simp
    have l: "?l = 1024 * ?c"
      using left_subtree_len_eq [OF gt "1.prems"(3)] left_len_chunks [OF pos] by simp
    have cd: "?d \<le> ?c" using left_chunks_ge_degree [of e ?n] dn by (simp add: e)
    note lb = left_len_bounds [OF gt, folded left_subtree_len_eq [OF gt "1.prems"(3)]]
    obtain j where j: "?c = 2 ^ j" using left_chunks_power by blast
    let ?L = "leaves key flags counter (take ?l input)"
    let ?R = "leaves key flags (counter + of_nat (?l div BLAKE3_CHUNK_LEN)) (drop ?l input)"
    have le: "1024 * ?c \<le> length input" using lb l by simp
    have L: "?L = take ?c (leaves key flags counter input)"
      using leaves_take [OF le] by (simp add: l)
    have R: "?R = drop ?c (leaves key flags counter input)"
      using leaves_drop [OF le] by (simp add: l BLAKE3_CHUNK_LEN_def)
    have LR: "leaves key flags counter input = ?L @ ?R" by (simp add: L R)
    obtain ln lcv where lw: "blake3_compress_subtree_wide p (take ?l input) key counter flags = (ln, lcv)"
      by fastforce
    obtain rn rcv where rw: "blake3_compress_subtree_wide p (drop ?l input) key
        (counter + of_nat (?l div BLAKE3_CHUNK_LEN)) flags = (rn, rcv)"
      by fastforce
    have ne: "take ?l input \<noteq> []" "drop ?l input \<noteq> []" using lb gt "1.prems"(2) by auto
    have ih: "wide_result p key flags ?L (ln, lcv)" "wide_result p key flags ?R (rn, rcv)"
      using "1.IH"(1) [OF False refl refl refl refl refl refl key ne(1)]
        "1.IH"(2) [OF False refl refl refl refl refl refl lw [symmetric] refl refl key ne(2)] "1.prems"(3) lw rw
      by simp_all
    have cl: "length ?L = ?c" using L n2 left_chunks_bounds(2) [OF n2] by (simp add: length_leaves)
    have cr: "0 < length ?R" "length ?R \<le> ?c"
      unfolding R using left_chunks_bounds(2,3) [OF n2] by (simp_all add: length_leaves)
    have unf: "blake3_compress_subtree_wide p input key counter flags =
      (if ln = 1 then (2, buf_read (buf_write (buf_write (replicate (2 * MAX_SIMD_DEGREE_OR_2 p * BLAKE3_OUT_LEN) 0) 0 lcv)
          ((if ?l > BLAKE3_CHUNK_LEN \<and> ?d = 1 then 2 else ?d) * BLAKE3_OUT_LEN) rcv) 0 (2 * BLAKE3_OUT_LEN))
       else compress_parents_parallel p
         (buf_write (buf_write (replicate (2 * MAX_SIMD_DEGREE_OR_2 p * BLAKE3_OUT_LEN) 0) 0 lcv)
          ((if ?l > BLAKE3_CHUNK_LEN \<and> ?d = 1 then 2 else ?d) * BLAKE3_OUT_LEN) rcv) (ln + rn) key flags)"
      using False by (subst blake3_compress_subtree_wide.simps) (simp add: Let_def lw rw)
    show ?thesis
    proof (cases "?c = 1")
      case True
      have d1: "?d = 1" using True cd simd_degree_pos [of p] by linarith
      have LR1: "length ?L = 1" "length ?R = 1" using cl cr True by linarith+
      note w = wide_result_single [OF ih(1) LR1(1)] wide_result_single [OF ih(2) LR1(2)]
      have l32: "length (concat ?L) = 32" "length (concat ?R) = 32"
        unfolding length_concat_32 [OF length_leaf_all] LR1 by simp_all
      have "blake3_compress_subtree_wide p input key counter flags = (2, concat ?L @ concat ?R)"
        unfolding unf using w(1) l32 True l d1
        by (simp add: w BLAKE3_OUT_LEN_def BLAKE3_CHUNK_LEN_def buf_write_def buf_read_def)
      moreover have "num_chunks (length input) = 2"
        using LR1 LR length_leaves [of key flags counter input] by simp
      ultimately show ?thesis
        using wide_result_leaves [OF "1.prems"(2), of p key flags counter] LR
        by (simp add: wide_degree_def)
    next
      case False
      have c2: "2 \<le> ?c" using False left_chunks_bounds(1) [OF n2] by linarith
      have deg: "(if ?l > BLAKE3_CHUNK_LEN \<and> ?d = 1 then 2 else ?d) = wide_degree p"
        using c2 l blake3_simd_degree_cases [of p] by (auto simp: wide_degree_def BLAKE3_CHUNK_LEN_def)
      have wc: "wide_degree p \<le> length ?L" using cd c2 cl by (simp add: wide_degree_def)
      note jn = wide_result_join [OF key ih cl [unfolded j] wc cr(1)]
      have rl: "length ?R \<le> length ?L" using cr cl by simp
      have "ln \<noteq> 1" using jn(2) [OF rl] by (simp add: wide_degree_def)
      then show ?thesis using jn(1) [OF rl] by (simp only: unf deg LR if_False)
    qed
  qed
qed


section \<open>Condensing a layer to two values\<close>

lemma condense_cvs_eq:
  assumes "length key = 8" "\<forall>x\<in>set xs. length x = 32" "2 \<le> length xs"
  shows "\<exists>junk'. condense_cvs p (concat xs @ junk) (length xs) key flags =
    fst (cvtop (node key flags) xs) @ snd (cvtop (node key flags) xs) @ junk'"
  using assms
proof (induction "length xs" arbitrary: xs junk rule: less_induct)
  case less
  let ?f = "node key flags"
  show ?case
  proof (cases "length xs = 2")
    case True
    then obtain a b where xs: "xs = [a, b]" by (auto simp: length_Suc_conv numeral_2_eq_2)
    have "cvtop ?f xs = (a, b)"
      using cvtop_append [of "[a]" 0 "[b]" ?f] by (simp add: xs)
    with True show ?thesis by (subst condense_cvs.simps) (simp add: xs)
  next
    case False
    with less.prems have three: "3 \<le> length xs" by simp
    let ?ys = "pairs ?f xs"
    have len: "length (concat ?ys) = (length xs + 1) div 2 * 32"
      using length_concat_32 [of ?ys] set_pairs_length [OF less.prems(2)]
      by (simp add: length_pairs)
    obtain junk2 where arr: "buf_write (concat xs @ junk) 0 (concat ?ys) = concat ?ys @ junk2"
      by (simp add: buf_write_0)
    have "condense_cvs p (concat xs @ junk) (length xs) key flags =
      condense_cvs p (concat ?ys @ junk2) (length ?ys) key flags"
      using three len
      by (subst condense_cvs.simps)
        (simp add: compress_parents_parallel_eq [OF less.prems(1,2)] BLAKE3_OUT_LEN_def arr length_pairs)
    moreover have "\<exists>junk'. condense_cvs p (concat ?ys @ junk2) (length ?ys) key flags =
      fst (cvtop ?f ?ys) @ snd (cvtop ?f ?ys) @ junk'"
      by (rule less.hyps) (use three less.prems set_pairs_length in \<open>auto simp: length_pairs\<close>)
    ultimately show ?thesis using cvtop_pairs [OF three, of ?f] by simp
  qed
qed

lemma length_cvtree: "xs \<noteq> [] \<Longrightarrow> \<forall>x\<in>set xs. length x = 32 \<Longrightarrow> length (cvtree (node key flags) xs) = 32"
  by (subst cvtree.simps) (cases xs; simp add: length_node)

lemma length_cvtop:
  assumes "2 \<le> length xs" "\<forall>x\<in>set xs. length x = 32"
  shows "length (fst (cvtop (node key flags) xs)) = 32" "length (snd (cvtop (node key flags) xs)) = 32"
proof -
  note b = left_chunks_bounds [OF assms(1)]
  have "take (left_chunks (length xs)) xs \<noteq> []" "drop (left_chunks (length xs)) xs \<noteq> []"
    using b assms(1) by auto
  moreover have "\<forall>x\<in>set (take (left_chunks (length xs)) xs). length x = 32"
    "\<forall>x\<in>set (drop (left_chunks (length xs)) xs). length x = 32"
    using assms(2) by (auto dest: in_set_takeD in_set_dropD)
  ultimately show "length (fst (cvtop (node key flags) xs)) = 32" "length (snd (cvtop (node key flags) xs)) = 32"
    by (simp_all add: cvtop_def length_cvtree)
qed

theorem compress_subtree_to_parent_node_eq:
  assumes "length key = 8" "1024 < length input" "length input < 2 ^ 64"
  shows "compress_subtree_to_parent_node p input key counter flags =
    spec_cv (spec_tree key flags counter (take (left_len (length input)) input)) @
    spec_cv (spec_tree key flags (counter + of_nat (left_len (length input) div 1024))
      (drop (left_len (length input)) input))"
proof -
  let ?f = "node key flags" and ?ls = "leaves key flags counter input"
  let ?l = "left_len (length input)" and ?c = "left_chunks (num_chunks (length input))"
  have pos: "0 < length input" using assms(2) by linarith
  then have ne: "input \<noteq> []" by simp
  have n2: "2 \<le> length ?ls" using num_chunks_gt [of 1 "length input"] assms(2) by (simp add: length_leaves)
  obtain xs where xs: "blake3_compress_subtree_wide p input key counter flags = (length xs, concat xs)"
    "\<forall>x\<in>set xs. length x = 32" "layer_of ?f ?ls xs" "length xs \<le> wide_degree p"
    using subtree_wide_correct [OF assms(1) ne assms(3), of p flags counter] unfolding wide_result_def by blast
  have two: "2 \<le> length xs" "cvtop ?f xs = cvtop ?f ?ls"
    using xs(3) n2 by (auto simp: layer_of_def)
  obtain junk where arr: "buf_write (replicate (MAX_SIMD_DEGREE_OR_2 p * BLAKE3_OUT_LEN) 0) 0 (concat xs) = concat xs @ junk"
    by (simp add: buf_write_0)
  have "\<exists>junk'. (if MAX_SIMD_DEGREE_OR_2 p > 2 then condense_cvs p (concat xs @ junk) (length xs) key flags
      else concat xs @ junk) = fst (cvtop ?f xs) @ snd (cvtop ?f xs) @ junk'"
  proof (cases "MAX_SIMD_DEGREE_OR_2 p > 2")
    case True
    then show ?thesis using condense_cvs_eq [OF assms(1) xs(2) two(1)] by simp
  next
    case False
    then have "length xs = 2" using xs(4) two(1) wide_degree_le [of p] by simp
    then obtain a b where ab: "xs = [a, b]" by (auto simp: length_Suc_conv numeral_2_eq_2)
    have "cvtop ?f xs = (a, b)"
      using cvtop_append [of "[a]" 0 "[b]" ?f] by (simp add: ab)
    then show ?thesis using False by (simp add: ab)
  qed
  then obtain junk' where "(if MAX_SIMD_DEGREE_OR_2 p > 2 then condense_cvs p (concat xs @ junk) (length xs) key flags
      else concat xs @ junk) = fst (cvtop ?f xs) @ snd (cvtop ?f xs) @ junk'" ..
  then have "compress_subtree_to_parent_node p input key counter flags =
      fst (cvtop ?f ?ls) @ snd (cvtop ?f ?ls)"
    using length_cvtop [OF two(1) xs(2), of key flags]
    by (simp add: compress_subtree_to_parent_node_def Let_def xs(1) arr buf_read_def two(2)
        BLAKE3_OUT_LEN_def [THEN arg_cong, of "\<lambda>n. 2 * n"] cong: if_cong split del: if_split)
  moreover have "fst (cvtop ?f ?ls) = spec_cv (spec_tree key flags counter (take ?l input))"
    and "snd (cvtop ?f ?ls) = spec_cv (spec_tree key flags (counter + of_nat (?l div 1024)) (drop ?l input))"
  proof -
    note lb = left_len_bounds [OF assms(2)]
    have l: "?l = 1024 * ?c" by (rule left_len_chunks [OF pos])
    have le: "1024 * ?c \<le> length input" using lb l by simp
    have ne2: "take ?l input \<noteq> []" "drop ?l input \<noteq> []" using lb ne by auto
    show "fst (cvtop ?f ?ls) = spec_cv (spec_tree key flags counter (take ?l input))"
      using spec_tree_cvtree [OF ne2(1), of key flags counter] leaves_take [OF le, of key flags counter]
      by (simp add: l cvtop_def length_leaves)
    show "snd (cvtop ?f ?ls) = spec_cv (spec_tree key flags (counter + of_nat (?l div 1024)) (drop ?l input))"
      using spec_tree_cvtree [OF ne2(2), of key flags "counter + of_nat (?l div 1024)"]
        leaves_drop [OF le, of key flags counter]
      by (simp add: l cvtop_def length_leaves)
  qed
  ultimately show ?thesis by simp
qed

section \<open>What the subtree functions guarantee\<close>

text \<open>
  The left subtree takes the largest power-of-two number of whole chunks that leaves at least
  one byte for the right subtree.
\<close>

theorem left_subtree_len_correct:
  assumes "1024 < n" "n < 2 ^ 64"
  shows "\<exists>k. left_subtree_len n = 1024 * 2 ^ k \<and> left_subtree_len n < n \<and> n \<le> 2 * left_subtree_len n"
proof -
  obtain k where "pow2_le ((n - 1) div 1024) = 2 ^ k" using pow2_le_power by blast
  then show ?thesis
    using left_len_bounds [OF assms(1)] by (intro exI [of _ k]) (simp add: left_subtree_len_eq [OF assms] left_len_def)
qed

theorem left_subtree_len_correct_witness:
  "\<exists>k. left_subtree_len 5000 = 1024 * 2 ^ k \<and> left_subtree_len 5000 < 5000 \<and> 5000 \<le> 2 * left_subtree_len 5000"
  by (rule left_subtree_len_correct) simp_all

text \<open>
  \<open>compress_chunks_parallel\<close> produces, in order, the chaining value of every chunk of its
  input, the last one possibly partial.
\<close>

theorem compress_chunks_parallel_leaves:
  assumes "length key = 8"
  shows "compress_chunks_parallel p input key chunk_counter flags =
    (num_chunks (length input),
     concat (map (\<lambda>i. spec_cv (spec_chunk key flags (chunk_counter + of_nat i)
               (take 1024 (drop (1024 * i) input)))) [0..<num_chunks (length input)]))"
  using compress_chunks_parallel_eq [OF assms, of p input chunk_counter flags]
  by (simp add: leaves_def leaf_def [abs_def])

theorem compress_chunks_parallel_leaves_witness:
  "compress_chunks_parallel demo_platform (replicate 2000 5) IV 3 0 =
    (num_chunks 2000, concat (map (\<lambda>i. spec_cv (spec_chunk IV 0 (3 + of_nat i)
        (take 1024 (drop (1024 * i) (replicate 2000 5))))) [0..<num_chunks 2000]))"
  using compress_chunks_parallel_leaves [of IV demo_platform "replicate 2000 5" 3 0]
  by (simp only: length_IV length_replicate simp_thms HOL.refl)

text \<open>
  \<open>compress_parents_parallel\<close> replaces a row of chaining values by the row of their pairwise
  parents, passing an odd last value through.
\<close>

theorem compress_parents_parallel_pairs:
  assumes "length key = 8" "\<forall>x\<in>set cvs. length x = 32"
  shows "compress_parents_parallel p (concat cvs @ junk) (length cvs) key flags =
    ((length cvs + 1) div 2, concat (pairs (\<lambda>l r. spec_cv (spec_parent key flags l r)) cvs))"
  using compress_parents_parallel_eq [OF assms, of p junk flags] by (simp add: node_def [abs_def])

theorem compress_parents_parallel_pairs_witness:
  "compress_parents_parallel demo_platform (concat [replicate 32 1, replicate 32 2, replicate 32 3] @ [9]) 3 IV 0 =
    (2, concat (pairs (\<lambda>l r. spec_cv (spec_parent IV 0 l r)) [replicate 32 1, replicate 32 2, replicate 32 3]))"
proof -
  let ?cvs = "[replicate 32 1, replicate 32 2, replicate 32 3] :: bytes list"
  have "length IV = 8" "\<forall>x\<in>set ?cvs. length x = 32" "length ?cvs = 3" "((3 :: nat) + 1) div 2 = 2"
    by simp_all
  with compress_parents_parallel_pairs [of IV ?cvs demo_platform "[9]" 0] show ?thesis by metis
qed

text \<open>
  C5. \<open>blake3_compress_subtree_wide\<close> never returns more chaining values than
  \<open>MAX_SIMD_DEGREE_OR_2\<close>, the size of the caller's array, and returns exactly 32 bytes for each;
  for an input longer than a chunk it returns at least two.
\<close>

theorem subtree_wide_fits:
  assumes "length key = 8" "input \<noteq> []" "length input < 2 ^ 64"
    "blake3_compress_subtree_wide p input key chunk_counter flags = (num_cvs, out)"
  shows "length out = num_cvs * BLAKE3_OUT_LEN \<and> 0 < num_cvs \<and> num_cvs \<le> MAX_SIMD_DEGREE_OR_2 p \<and>
    (1024 < length input \<longrightarrow> 2 \<le> num_cvs)"
proof -
  let ?ls = "leaves key flags chunk_counter input"
  obtain xs where xs: "num_cvs = length xs" "out = concat xs" "\<forall>x\<in>set xs. length x = 32"
      "layer_of (node key flags) ?ls xs" "length xs \<le> wide_degree p"
    using subtree_wide_correct [OF assms(1-3), of p flags chunk_counter] assms(4) by (auto simp: wide_result_def)
  have "length out = num_cvs * 32" using length_concat_32 [of xs] xs by simp
  moreover have "0 < length ?ls"
    using assms(2) num_chunks_gt [of 0 "length input"] by (simp add: length_leaves)
  moreover have "1024 < length input \<longleftrightarrow> 1 < length ?ls"
    using num_chunks_gt [of 1 "length input"] by (simp add: length_leaves)
  ultimately show ?thesis
    using xs wide_degree_le [of p] by (auto simp: layer_of_def BLAKE3_OUT_LEN_def split: if_splits)
qed

theorem subtree_wide_fits_witness:
  "\<exists>num_cvs out. blake3_compress_subtree_wide demo_platform (replicate 3000 7) IV 0 0 = (num_cvs, out) \<and>
    length out = num_cvs * BLAKE3_OUT_LEN \<and> num_cvs \<le> MAX_SIMD_DEGREE_OR_2 demo_platform \<and> 2 \<le> num_cvs"
proof -
  obtain n out where e: "blake3_compress_subtree_wide demo_platform (replicate 3000 7) IV 0 0 = (n, out)"
    by (cases "blake3_compress_subtree_wide demo_platform (replicate 3000 7) IV 0 0")
  from subtree_wide_fits [OF _ _ _ this] e show ?thesis by simp
qed

text \<open>
  \<open>compress_subtree_to_parent_node\<close> returns the chaining values of the two halves of the
  specified tree over its input, whatever the SIMD degree of the platform is.
\<close>

theorem subtree_to_parent_node_halves:
  assumes "length key = 8" "1024 < length input" "length input < 2 ^ 64"
  shows "compress_subtree_to_parent_node p input key chunk_counter flags =
    (let l = left_len (length input)
     in spec_cv (spec_tree key flags chunk_counter (take l input)) @
        spec_cv (spec_tree key flags (chunk_counter + of_nat (l div 1024)) (drop l input)))"
  using compress_subtree_to_parent_node_eq [OF assms, of p chunk_counter flags] by (simp add: Let_def)

theorem subtree_to_parent_node_halves_witness:
  "compress_subtree_to_parent_node demo_platform (replicate 3000 7) IV 4 0 =
    (let l = left_len (length (replicate 3000 (7 :: u8)))
     in spec_cv (spec_tree IV 0 4 (take l (replicate 3000 7))) @
        spec_cv (spec_tree IV 0 (4 + of_nat (l div 1024)) (drop l (replicate 3000 7))))"
  by (rule subtree_to_parent_node_halves) simp_all

end
