(* ===== verification/Cv_Stack.thy ===== *)
theory Cv_Stack
  imports Impl
begin

text \<open>
  The arithmetic behind lazy merging in \<open>c/blake3.c\<close>: the subtrees on the stack are the
  1-bits of the number of chunks absorbed, highest first, with at most one unmerged subtree
  on top. \<open>exps\<close> lists these exponents, \<open>exps_push\<close> and \<open>exps_pop\<close> are the two steps
  of a binary counter, and \<open>dominated\<close> says that every entry is at least as large as all
  that lies above it, which makes the roll-up of \<open>finalize\<close> the specified tree.
\<close>

section \<open>The exponents on the stack\<close>

definition bits_desc :: "nat \<Rightarrow> nat \<Rightarrow> nat list" where
  "bits_desc n a = filter (bit a) (rev [0..<n])"

definition exps :: "nat \<Rightarrow> nat list" where
  "exps a = bits_desc 64 a"

definition chunks_in :: "nat list \<Rightarrow> nat" where
  "chunks_in es = sum_list (map (\<lambda>e. 2 ^ e) es)"

lemma chunks_in_simps [simp]:
  "chunks_in [] = 0" "chunks_in (e # es) = 2 ^ e + chunks_in es"
  "chunks_in (es @ fs) = chunks_in es + chunks_in fs"
  by (simp_all add: chunks_in_def)

lemma bits_desc_0 [simp]: "bits_desc 0 a = []" "bits_desc n 0 = []"
  by (simp_all add: bits_desc_def)

lemma bits_desc_Suc: "bits_desc (Suc n) a = (if bit a n then n # bits_desc n a else bits_desc n a)"
  by (simp add: bits_desc_def)

lemma bits_desc_cong: "(\<And>i. i < n \<Longrightarrow> bit a i = bit b i) \<Longrightarrow> bits_desc n a = bits_desc n b"
  by (auto simp: bits_desc_def intro: filter_cong)

lemma nat_bit_iff: "bit (a::nat) n \<longleftrightarrow> odd (a div 2 ^ n)"
  by (simp add: bit_iff_odd)

lemma bit_top_split:
  assumes "a < 2 ^ Suc n" "bit (a::nat) n"
  shows "2 ^ n \<le> a" "a - 2 ^ n < 2 ^ n" "bits_desc n a = bits_desc n (a - 2 ^ n)"
proof -
  show le: "2 ^ n \<le> a"
  proof (rule ccontr)
    assume "\<not> 2 ^ n \<le> a"
    then have "a div 2 ^ n = 0" by simp
    with assms(2) show False by (simp add: nat_bit_iff)
  qed
  show lt: "a - 2 ^ n < 2 ^ n" using assms(1) by simp
  have "take_bit n a = a - 2 ^ n"
  proof -
    have "a mod 2 ^ n = (a - 2 ^ n) mod 2 ^ n" using le by (simp add: le_mod_geq)
    then show ?thesis using lt by (simp add: take_bit_eq_mod)
  qed
  then show "bits_desc n a = bits_desc n (a - 2 ^ n)"
    by (metis bit_take_bit_iff bits_desc_cong)
qed

lemma bit_top_False:
  assumes "a < 2 ^ Suc n" "\<not> bit (a::nat) n"
  shows "a < 2 ^ n"
proof (rule ccontr)
  assume "\<not> a < 2 ^ n"
  then have "a div 2 ^ n = 1" using assms(1) by (intro div_nat_eqI) auto
  with assms(2) show False by (simp add: nat_bit_iff)
qed

lemma chunks_in_bits_desc: "a < 2 ^ n \<Longrightarrow> chunks_in (bits_desc n a) = a"
proof (induction n arbitrary: a)
  case (Suc n)
  show ?case
  proof (cases "bit a n")
    case True
    note s = bit_top_split [OF Suc.prems True]
    have "chunks_in (bits_desc n a) = a - 2 ^ n" using Suc.IH [OF s(2)] s(3) by simp
    with True s(1) show ?thesis by (simp add: bits_desc_Suc)
  next
    case False
    with Suc bit_top_False [OF Suc.prems False] show ?thesis by (simp add: bits_desc_Suc)
  qed
qed simp

lemma chunks_in_exps: "a < 2 ^ 64 \<Longrightarrow> chunks_in (exps a) = a"
  by (simp add: exps_def chunks_in_bits_desc)

lemma length_bits_desc: "length (bits_desc n a) \<le> n"
  unfolding bits_desc_def by (rule order_trans [OF length_filter_le]) simp

lemma bits_desc_bound:
  assumes "a < 2 ^ m" "m \<le> n"
  shows "bits_desc n a = bits_desc m a"
proof -
  have "bits_desc (m + k) a = bits_desc m a" for k
  proof (induction k)
    case (Suc k)
    have "a < 2 ^ (m + k)" using assms(1) by (rule less_le_trans) simp
    then have "\<not> bit a (m + k)" by (simp add: nat_bit_iff)
    with Suc show ?case by (simp add: bits_desc_Suc)
  qed simp
  from this [of "n - m"] assms(2) show ?thesis by simp
qed

lemma length_exps: "a < 2 ^ m \<Longrightarrow> m \<le> 64 \<Longrightarrow> length (exps a) \<le> m"
  unfolding exps_def using bits_desc_bound [of a m 64] length_bits_desc [of m a] by simp

lemma exps_eq_Nil: "a < 2 ^ 64 \<Longrightarrow> exps a = [] \<longleftrightarrow> a = 0"
  using chunks_in_exps [of a] by (auto simp: exps_def)

lemma popcnt_exps: "popcnt (of_nat c) = length (exps c)"
proof -
  have "popcnt (of_nat c) = length (filter (bit c) [0..<64])"
    unfolding popcnt_def builtin_popcountll_def
    by (rule arg_cong [where f = length], rule filter_cong) (auto simp: bit_simps)
  also have "\<dots> = length (rev (filter (bit c) [0..<64]))" by simp
  finally show ?thesis by (simp add: exps_def bits_desc_def rev_filter)
qed

lemma exps_push:
  assumes "2 ^ Suc j dvd a" "j < 64"
  shows "exps (a + 2 ^ j) = exps a @ [j]"
proof -
  have low: "\<not> bit a i" if "i \<le> j" for i
  proof -
    have "2 ^ Suc i dvd a" by (rule dvd_trans [OF _ assms(1)]) (rule le_imp_power_dvd, use that in simp)
    then obtain r where "a = 2 ^ i * (2 * r)" by (auto elim!: dvdE)
    then have "a div 2 ^ i = 2 * r" by simp
    then show ?thesis by (simp add: nat_bit_iff)
  qed
  have "a AND 2 ^ j = 0"
    by (rule bit_eqI) (auto simp: bit_simps low)
  then have or: "a + 2 ^ j = a OR 2 ^ j" by (simp add: disjunctive_add_eq_or)
  have b: "bit (a + 2 ^ j) i \<longleftrightarrow> bit a i \<or> i = j" for i
    by (auto simp: or bit_simps)
  have "bits_desc (Suc j + k) (a + 2 ^ j) = bits_desc (Suc j + k) a @ [j]" for k
  proof (induction k)
    case 0
    have "bits_desc j (a + 2 ^ j) = []" "bits_desc (Suc j) a = []"
      using low by (auto simp: bits_desc_def filter_empty_conv b)
    then show ?case by (simp add: bits_desc_Suc b)
  next
    case (Suc k)
    then show ?case using b [of "Suc j + k"] by (simp add: bits_desc_Suc)
  qed
  from this [of "63 - j"] assms(2) show ?thesis by (simp add: exps_def)
qed

lemma exps_pop:
  assumes "2 ^ j dvd a" "\<not> 2 ^ Suc j dvd a" "j < 64"
  shows "exps a = exps (a - 2 ^ j) @ [j]" "2 ^ j \<le> a" "2 ^ Suc j dvd a - 2 ^ j"
proof -
  obtain q where q: "a = 2 ^ j * q" using assms(1) by (rule dvdE)
  have "odd q"
  proof
    assume "even q"
    then obtain r where "q = 2 * r" by (rule evenE)
    then have "a = 2 ^ Suc j * r" using q by simp
    with assms(2) show False by simp
  qed
  then obtain r where "q = 2 * r + 1" by (rule oddE)
  then have a: "a = 2 ^ Suc j * r + 2 ^ j" using q by (simp add: algebra_simps)
  show "2 ^ j \<le> a" by (simp add: a)
  show d: "2 ^ Suc j dvd a - 2 ^ j" by (simp add: a)
  show "exps a = exps (a - 2 ^ j) @ [j]"
    using exps_push [OF d assms(3)] a by simp
qed

text \<open>
  Between two operations the stack has the exponents of the 1-bits of the chunk count,
  except that the last subtree pushed may still be unmerged.
\<close>

definition lazy_exps :: "nat \<Rightarrow> nat list \<Rightarrow> bool" where
  "lazy_exps c es \<longleftrightarrow>
    (c = 0 \<and> es = []) \<or> (\<exists>a j. es = exps a @ [j] \<and> c = a + 2 ^ j \<and> 2 ^ j dvd a)"

lemma pow2_dvd_exists:
  assumes "0 < (c::nat)"
  obtains j where "2 ^ j dvd c" "\<not> 2 ^ Suc j dvd c"
proof -
  have "\<exists>j. 2 ^ j dvd c \<and> \<not> 2 ^ Suc j dvd c"
    using assms
  proof (induction c rule: less_induct)
    case (less c)
    show ?case
    proof (cases "even c")
      case True
      then obtain d where d: "c = 2 * d" by (rule evenE)
      then obtain j where "2 ^ j dvd d" "\<not> 2 ^ Suc j dvd d" using less.IH [of d] less.prems by auto
      then show ?thesis by (intro exI [of _ "Suc j"]) (simp add: d)
    next
      case False
      then show ?thesis by (intro exI [of _ 0]) simp
    qed
  qed
  then show thesis using that by blast
qed

lemma lazy_exps_canonical: "c < 2 ^ 64 \<Longrightarrow> lazy_exps c (exps c)"
proof (cases "c = 0")
  case True then show ?thesis by (simp add: lazy_exps_def exps_def)
next
  case False
  assume c: "c < 2 ^ 64"
  obtain j where j: "2 ^ j dvd c" "\<not> 2 ^ Suc j dvd c" using False by (auto intro: pow2_dvd_exists)
  have "2 ^ j \<le> c" using j(1) False by (intro dvd_imp_le) auto
  then have "(2::nat) ^ j < 2 ^ 64" using c by linarith
  then have "j < 64" by (rule power_less_imp_less_exp [rotated]) simp
  note p = exps_pop [OF j this]
  have "2 ^ j dvd c - 2 ^ j" using p(3) by (metis dvd_trans le_imp_power_dvd lessI less_imp_le_nat)
  with p show ?thesis unfolding lazy_exps_def by (intro disjI2 exI [of _ "c - 2 ^ j"] exI [of _ j]) auto
qed

lemma lazy_exps_push: "2 ^ k dvd c \<Longrightarrow> lazy_exps (c + 2 ^ k) (exps c @ [k])"
  unfolding lazy_exps_def by blast

lemma chunks_in_lazy: "lazy_exps c es \<Longrightarrow> c < 2 ^ 64 \<Longrightarrow> chunks_in es = c"
  unfolding lazy_exps_def by (auto simp: chunks_in_exps)

text \<open>A stack is dominated by a rest of \<open>n\<close> chunks' worth of bytes if everything above an
  entry, the rest included, is no larger than the entry.\<close>

fun dominated :: "nat list \<Rightarrow> nat \<Rightarrow> bool" where
  "dominated [] n = True"
| "dominated (e # es) n = (1024 * chunks_in es + n \<le> 1024 * 2 ^ e \<and> dominated es n)"

lemma dominated_bits_desc:
  "a < 2 ^ m \<Longrightarrow> 2 ^ j dvd a \<Longrightarrow> n \<le> 1024 * 2 ^ j \<Longrightarrow> dominated (bits_desc m a) n"
proof (induction m arbitrary: a)
  case (Suc m)
  show ?case
  proof (cases "bit a m")
    case True
    note s = bit_top_split [OF Suc.prems(1) True]
    have "2 ^ j \<le> a" using Suc.prems(2) s(1) by (intro dvd_imp_le) (auto intro: less_le_trans [of 0 "2 ^ m"])
    then have "(2::nat) ^ j < 2 ^ Suc m" using Suc.prems(1) by linarith
    then have jm: "j \<le> m" using power_less_imp_less_exp [of "2::nat" j "Suc m"] by simp
    then have "2 ^ j dvd (2::nat) ^ m" by (rule le_imp_power_dvd)
    then have d: "2 ^ j dvd a - 2 ^ m" using Suc.prems(2) by (rule dvd_diff_nat [rotated])
    have "a - 2 ^ m + 2 ^ j \<le> 2 ^ m"
    proof -
      obtain q where q: "a - 2 ^ m = 2 ^ j * q" using d by (rule dvdE)
      obtain r where r: "(2::nat) ^ m = 2 ^ j * r" using \<open>2 ^ j dvd (2::nat) ^ m\<close> by (rule dvdE)
      have "2 ^ j * q < 2 ^ j * r" using s(2) q r by simp
      then have "Suc q \<le> r" by simp
      then have "2 ^ j * Suc q \<le> 2 ^ j * r" by (rule mult_le_mono2)
      then show ?thesis using q r by simp
    qed
    moreover have "dominated (bits_desc m (a - 2 ^ m)) n" by (rule Suc.IH [OF s(2) d Suc.prems(3)])
    ultimately show ?thesis
      using True s(3) Suc.prems(3) chunks_in_bits_desc [OF s(2)] by (simp add: bits_desc_Suc)
  next
    case False
    with Suc bit_top_False [OF Suc.prems(1) False] show ?thesis by (simp add: bits_desc_Suc)
  qed
qed simp

end
