(* ===== verification/Digest_Interface.thy ===== *)
theory Digest_Interface
  imports Prelude
begin

text \<open>
  The contract between an incremental digest and its clients: a state that has absorbed
  \<open>s\<close> absorbs \<open>s @ x\<close> by an update with \<open>x\<close>, and finalizing it gives the digest of what it
  absorbed. What follows for a sequence of updates is proved here once. Lengths are bounded by
  the \<open>limit\<close> of the implementation's counters.
\<close>

locale incremental_digest =
  fixes absorbed :: "'h \<Rightarrow> bytes \<Rightarrow> bool"
    and update :: "'h \<Rightarrow> bytes \<Rightarrow> 'h"
    and finalize :: "'h \<Rightarrow> bytes"
    and digest :: "bytes \<Rightarrow> bytes"
    and limit :: nat
  assumes update_absorbs:
      "absorbed h s \<Longrightarrow> length (s @ x) < limit \<Longrightarrow> absorbed (update h x) (s @ x)"
    and finalize_digest: "absorbed h s \<Longrightarrow> finalize h = digest s"
begin

lemma updates_absorb:
  "absorbed h s \<Longrightarrow> length (s @ concat xs) < limit \<Longrightarrow> absorbed (foldl update h xs) (s @ concat xs)"
proof (induction xs arbitrary: h s)
  case (Cons x xs)
  have "absorbed (update h x) (s @ x)" by (rule update_absorbs) (use Cons.prems in auto)
  from Cons.IH [OF this] Cons.prems show ?case by simp
qed simp

lemma finalize_updates:
  "absorbed h s \<Longrightarrow> length (s @ concat xs) < limit \<Longrightarrow>
   finalize (foldl update h xs) = digest (s @ concat xs)"
  by (rule finalize_digest [OF updates_absorb])

lemma updates_split_independent:
  "absorbed h s \<Longrightarrow> length (s @ concat xs) < limit \<Longrightarrow> concat xs = concat ys \<Longrightarrow>
   finalize (foldl update h xs) = finalize (foldl update h ys)"
  using finalize_updates [of h s xs] finalize_updates [of h s ys] by simp

end

end
