(* ===== verification/Hasher_Correct.thy ===== *)
theory Hasher_Correct
  imports Hasher Subtree_Correct Cv_Stack Digest_Interface
begin

text \<open>
  Correctness of the incremental hasher. \<open>stack_inv\<close> relates the flat stack array to the
  subtrees of the absorbed bytes, \<open>hasher_inv\<close> adds the chunk in progress; \<open>update\<close> keeps
  it (\<open>hasher_update_inv\<close>) and \<open>finalize_seek\<close> reads the specified output from it
  (\<open>finalize_seek_inv\<close>). The merge loop is a binary counter: each step carries one bit.
\<close>

section \<open>Subtrees of an input\<close>

definition subtree_cv :: "words \<Rightarrow> u8 \<Rightarrow> bytes \<Rightarrow> nat \<Rightarrow> nat \<Rightarrow> bytes" where
  "subtree_cv key flags s a e =
    spec_cv (spec_tree key flags (of_nat a) (take (1024 * 2 ^ e) (drop (1024 * a) s)))"

fun stack_cvs :: "words \<Rightarrow> u8 \<Rightarrow> bytes \<Rightarrow> nat \<Rightarrow> nat list \<Rightarrow> bytes list" where
  "stack_cvs key flags s a [] = []"
| "stack_cvs key flags s a (e # es) = subtree_cv key flags s a e # stack_cvs key flags s (a + 2 ^ e) es"

lemma length_subtree_cv [len_simps]: "length (subtree_cv key flags s a e) = 32"
  by (simp add: subtree_cv_def length_spec_cv)

lemma length_stack_cvs [len_simps]: "length (stack_cvs key flags s a es) = length es"
  by (induction es arbitrary: a) simp_all

lemma stack_cvs_append:
  "stack_cvs key flags s a (es @ fs) = stack_cvs key flags s a es @ stack_cvs key flags s (a + chunks_in es) fs"
  by (induction es arbitrary: a) (simp_all add: add.assoc)

lemma stack_cvs_32: "\<forall>x\<in>set (stack_cvs key flags s a es). length x = 32"
  by (induction es arbitrary: a) (simp_all add: length_subtree_cv)

lemma stack_cvs_extend:
  "1024 * (a + chunks_in es) \<le> length s \<Longrightarrow> stack_cvs key flags (s @ x) a es = stack_cvs key flags s a es"
proof (induction es arbitrary: a)
  case (Cons e es)
  have "1024 * 2 ^ e \<le> length s - 1024 * a" using Cons.prems by simp
  then have "subtree_cv key flags (s @ x) a e = subtree_cv key flags s a e"
    using Cons.prems by (simp add: subtree_cv_def)
  moreover have "stack_cvs key flags (s @ x) (a + 2 ^ e) es = stack_cvs key flags s (a + 2 ^ e) es"
    by (rule Cons.IH) (use Cons.prems in \<open>simp add: add.assoc\<close>)
  ultimately show ?case by simp
qed simp

lemma left_len_eqI: "1024 * 2 ^ k < n \<Longrightarrow> n \<le> 2 * (1024 * 2 ^ k) \<Longrightarrow> left_len n = 1024 * 2 ^ k"
proof -
  assume a: "1024 * 2 ^ k < n" "n \<le> 2 * (1024 * 2 ^ k)"
  have "2 ^ k \<le> (n - 1) div 1024" using a(1) by (simp add: less_eq_div_iff_mult_less_eq)
  moreover have "(n - 1) div 1024 < 2 ^ (k + 1)"
    by (rule less_mult_imp_div_less) (use a in \<open>simp add: power_add, linarith?\<close>)
  ultimately show "left_len n = 1024 * 2 ^ k" by (simp add: left_len_def pow2_le_unique)
qed

lemma spec_tree_split:
  assumes "1024 * 2 ^ k < length bs" "length bs \<le> 2 * (1024 * 2 ^ k)"
  shows "spec_tree key flags counter bs =
    spec_parent key flags (spec_cv (spec_tree key flags counter (take (1024 * 2 ^ k) bs)))
      (spec_cv (spec_tree key flags (counter + 2 ^ k) (drop (1024 * 2 ^ k) bs)))"
proof -
  have "(1::nat) \<le> 2 ^ k" by simp
  then have "\<not> length bs \<le> 1024" using assms(1) by linarith
  then show ?thesis by (subst spec_tree.simps) (simp add: left_len_eqI [OF assms] Let_def)
qed

lemma subtree_cv_merge:
  assumes "1024 * (a + 2 ^ Suc j) \<le> length s"
  shows "node key flags (subtree_cv key flags s a j) (subtree_cv key flags s (a + 2 ^ j) j) =
    subtree_cv key flags s a (Suc j)"
proof -
  let ?b = "take (1024 * 2 ^ Suc j) (drop (1024 * a) s)"
  have len: "length ?b = 2 * (1024 * 2 ^ j)" using assms by simp
  then have lt: "1024 * 2 ^ j < length ?b" by simp
  have "take (1024 * 2 ^ j) ?b = take (1024 * 2 ^ j) (drop (1024 * a) s)"
    by (simp add: min_def)
  moreover have "drop (1024 * 2 ^ j) ?b = take (1024 * 2 ^ j) (drop (1024 * (a + 2 ^ j)) s)"
    by (simp add: drop_take add.commute distrib_left)
  ultimately show ?thesis
    using spec_tree_split [OF lt eq_imp_le [OF len], of key flags "of_nat a"]
    by (simp add: node_def subtree_cv_def del: take_drop)
qed

section \<open>The stack as a list of chaining values\<close>

definition stack_rep :: "blake3_hasher \<Rightarrow> bytes list \<Rightarrow> bool" where
  "stack_rep h cvs \<longleftrightarrow>
    h_cv_stack_len h = of_nat (length cvs) \<and> length cvs \<le> BLAKE3_MAX_DEPTH + 1 \<and>
    (\<forall>x\<in>set cvs. length x = 32) \<and> length (h_cv_stack h) = CV_STACK_BYTES \<and>
    (\<exists>junk. h_cv_stack h = concat cvs @ junk)"

lemma stack_rep_unat: "stack_rep h cvs \<Longrightarrow> unat (h_cv_stack_len h) = length cvs"
  by (simp add: stack_rep_def unat_u8 BLAKE3_MAX_DEPTH_def)

lemma stack_rep_read:
  assumes "stack_rep h cvs" "i + n \<le> length cvs"
  shows "buf_read (h_cv_stack h) (i * 32) (n * 32) = concat (take n (drop i cvs))"
proof -
  obtain junk where j: "h_cv_stack h = concat cvs @ junk" and a: "\<forall>x\<in>set cvs. length x = 32"
    using assms(1) by (auto simp: stack_rep_def)
  have "drop (32 * i) (h_cv_stack h) = concat (drop i cvs) @ junk"
    unfolding j by (rule drop_concat_32) (use a assms(2) in auto)
  moreover have at: "\<forall>x\<in>set (take n (drop i cvs)). length x = 32"
    using a by (meson in_set_takeD in_set_dropD)
  moreover have "concat (drop i cvs) = concat (take n (drop i cvs)) @ concat (drop n (drop i cvs))"
    by (metis append_take_drop_id concat_append)
  moreover have "length (concat (take n (drop i cvs))) = n * 32"
    using length_concat_32 [of "take n (drop i cvs)"] at assms(2) by simp
  ultimately show ?thesis by (simp add: buf_read_def mult.commute)
qed

lemma stack_rep_write:
  assumes "stack_rep h cvs" "i \<le> length cvs" "i \<le> BLAKE3_MAX_DEPTH" "length cv = 32"
  shows "stack_rep (h\<lparr>h_cv_stack := buf_write (h_cv_stack h) (i * 32) cv, h_cv_stack_len := of_nat (Suc i)\<rparr>)
    (take i cvs @ [cv])"
proof -
  obtain junk where j: "h_cv_stack h = concat cvs @ junk" and a: "\<forall>x\<in>set cvs. length x = 32"
    and l: "length (h_cv_stack h) = CV_STACK_BYTES"
    using assms(1) by (auto simp: stack_rep_def)
  have t: "\<forall>x\<in>set (take i cvs). length x = 32" using a by (auto dest: in_set_takeD)
  have "concat cvs = concat (take i cvs) @ concat (drop i cvs)"
    by (metis append_take_drop_id concat_append)
  moreover have "length (concat (take i cvs)) = i * 32"
    using length_concat_32 [OF t] assms(2) by simp
  ultimately have tk: "take (i * 32) (h_cv_stack h) = concat (take i cvs)" by (simp add: j)
  have "i * 32 + length cv \<le> length (h_cv_stack h)"
    using assms(3,4) l by (simp add: CV_STACK_BYTES_def BLAKE3_OUT_LEN_def)
  then show ?thesis
    using t l assms(2-4) by (simp add: stack_rep_def tk) (simp add: buf_write_def tk)
qed

lemma stack_rep_upd [simp]: "stack_rep (h\<lparr>h_chunk := x\<rparr>) cvs = stack_rep h cvs"
  by (simp add: stack_rep_def)

lemma merge_step:
  assumes "stack_rep h (cvs @ [l, r])" "length (h_key h) = 8" "flags = cs_flags (h_chunk h)"
    "post < length cvs + 2"
  shows "\<exists>h'. hasher_merge_loop p h post = hasher_merge_loop p h' post \<and>
    stack_rep h' (cvs @ [node (h_key h) flags l r]) \<and> h_key h' = h_key h \<and> h_chunk h' = h_chunk h"
proof -
  let ?n = "length cvs"
  have len: "unat (h_cv_stack_len h) = ?n + 2" using stack_rep_unat [OF assms(1)] by simp
  have l32: "length l = 32" "length r = 32" using assms(1) by (auto simp: stack_rep_def)
  have d: "?n \<le> BLAKE3_MAX_DEPTH" using assms(1) by (simp add: stack_rep_def)
  have rd: "buf_read (h_cv_stack h) (?n * 32) 64 = l @ r"
    using stack_rep_read [OF assms(1), of ?n 2] by simp
  have cv: "output_chaining_value p (parent_output (l @ r) (h_key h) flags) = node (h_key h) flags l r"
    using assms(2) l32 by (simp add: parent_output_eq output_chaining_value_eq wf_spec_parent node_def)
  let ?h' = "h\<lparr>h_cv_stack := buf_write (h_cv_stack h) (?n * 32) (node (h_key h) flags l r),
      h_cv_stack_len := of_nat (Suc ?n)\<rparr>"
  have sl: "h_cv_stack_len h - 1 = of_nat (Suc ?n)" using assms(1) by (simp add: stack_rep_def)
  have "hasher_merge_loop p h post = hasher_merge_loop p ?h' post"
    using len assms(3,4) sl cv
    by (subst hasher_merge_loop.simps) (simp add: Let_def rd BLAKE3_OUT_LEN_def BLAKE3_BLOCK_LEN_def)
  moreover have "stack_rep ?h' (cvs @ [node (h_key h) flags l r])"
    using stack_rep_write [OF assms(1) _ d length_node, of "h_key h" flags l r] by simp
  ultimately show ?thesis by (intro exI [of _ ?h']) simp
qed

lemma merge_stop:
  "stack_rep h cvs \<Longrightarrow> length cvs \<le> post \<Longrightarrow> hasher_merge_loop p h post = h"
  by (subst hasher_merge_loop.simps) (simp add: stack_rep_unat)

lemma merge_exps:
  assumes "stack_rep h (stack_cvs key flags s 0 (exps a @ [j]))" "2 ^ j dvd a"
    "1024 * (a + 2 ^ j) \<le> length s" "length s < 2 ^ 64"
    "h_key h = key" "cs_flags (h_chunk h) = flags" "length key = 8"
  shows "length (exps (a + 2 ^ j)) \<le> Suc (length (exps a)) \<and>
    (let h' = hasher_merge_loop p h (length (exps (a + 2 ^ j)))
     in stack_rep h' (stack_cvs key flags s 0 (exps (a + 2 ^ j))) \<and> h_key h' = key \<and> h_chunk h' = h_chunk h)"
  using assms
proof (induction a arbitrary: j h rule: less_induct)
  case (less a)
  have c54: "a + 2 ^ j < 2 ^ 54" using less.prems(3,4) by simp
  have "(2::nat) ^ j < 2 ^ 54" using c54 by linarith
  then have j: "j < 54" by (rule power_less_imp_less_exp [rotated]) simp
  show ?case
  proof (cases "2 ^ Suc j dvd a")
    case True
    then have "exps (a + 2 ^ j) = exps a @ [j]" using j by (intro exps_push) auto
    then show ?thesis
      using merge_stop [OF less.prems(1), of "length (exps (a + 2 ^ j))" p] less.prems
      by (simp add: length_stack_cvs)
  next
    case False
    define b where "b = a - 2 ^ j"
    note pop = exps_pop [OF less.prems(2) False, folded b_def]
    have j64: "j < 64" using j by simp
    have a: "a = b + 2 ^ j" and ea: "exps a = exps b @ [j]" and b: "2 ^ Suc j dvd b"
      using pop [OF j64] by (simp_all add: b_def)
    have cb: "chunks_in (exps b) = b" by (rule chunks_in_exps) (use c54 a in simp)
    have st: "stack_cvs key flags s 0 (exps a @ [j]) =
        stack_cvs key flags s 0 (exps b) @ [subtree_cv key flags s b j, subtree_cv key flags s (b + 2 ^ j) j]"
      by (simp add: ea stack_cvs_append cb add.commute)
    have merged: "node key flags (subtree_cv key flags s b j) (subtree_cv key flags s (b + 2 ^ j) j) =
        subtree_cv key flags s b (Suc j)"
      by (rule subtree_cv_merge) (use less.prems(3) a in simp)
    have st': "stack_cvs key flags s 0 (exps b) @ [subtree_cv key flags s b (Suc j)] =
        stack_cvs key flags s 0 (exps b @ [Suc j])"
      by (simp add: stack_cvs_append cb)
    have sum: "a + 2 ^ j = b + 2 ^ Suc j" by (simp add: a)
    have lt: "b < a" by (simp add: a)
    have key: "length (h_key h) = 8" using less.prems(5,7) by simp
    have IH: "length (exps (a + 2 ^ j)) \<le> Suc (length (exps b)) \<and>
      (let h'' = hasher_merge_loop p h' (length (exps (a + 2 ^ j)))
       in stack_rep h'' (stack_cvs key flags s 0 (exps (a + 2 ^ j))) \<and> h_key h'' = key \<and> h_chunk h'' = h_chunk h)"
      if "stack_rep h' (stack_cvs key flags s 0 (exps b @ [Suc j]))" "h_key h' = key" "h_chunk h' = h_chunk h" for h'
      using less.IH [OF lt that(1) b _ less.prems(4) that(2) _ less.prems(7)] less.prems(3,6) that(3)
      by (simp only: sum)
    have rep: "stack_rep h (stack_cvs key flags s 0 (exps b) @ [subtree_cv key flags s b j, subtree_cv key flags s (b + 2 ^ j) j])"
      using less.prems(1) by (simp only: st)
    note step = merge_step [OF rep key less.prems(6) [symmetric], of "length (exps (a + 2 ^ j))" p,
        unfolded less.prems(5) merged st' length_stack_cvs]
    have some: "\<exists>h'. stack_rep h' (stack_cvs key flags s 0 (exps b @ [Suc j])) \<and> h_key h' = key \<and> h_chunk h' = h_chunk h"
      using merge_step [OF rep key less.prems(6) [symmetric], of 0 p,
        unfolded less.prems(5) merged st'] by auto
    then have le: "length (exps (a + 2 ^ j)) \<le> Suc (length (exps b))" using IH by blast
    then obtain h' where h': "hasher_merge_loop p h (length (exps (a + 2 ^ j))) =
        hasher_merge_loop p h' (length (exps (a + 2 ^ j)))"
      "stack_rep h' (stack_cvs key flags s 0 (exps b @ [Suc j]))" "h_key h' = key" "h_chunk h' = h_chunk h"
      using step by auto
    then show ?thesis using IH [OF h'(2-4)] le by (simp add: ea h'(1))
  qed
qed


section \<open>Merging and pushing\<close>

definition stack_inv :: "words \<Rightarrow> u8 \<Rightarrow> bytes \<Rightarrow> nat \<Rightarrow> nat list \<Rightarrow> blake3_hasher \<Rightarrow> bool" where
  "stack_inv key flags s c es h \<longleftrightarrow>
    h_key h = key \<and> length key = 8 \<and> cs_flags (h_chunk h) = flags \<and>
    stack_rep h (stack_cvs key flags s 0 es) \<and> lazy_exps c es \<and>
    1024 * c \<le> length s \<and> length s < 2 ^ 64"

lemma chunk_count_bound:
  "1024 * c \<le> length s \<Longrightarrow> length s < 2 ^ 64 \<Longrightarrow> c < 2 ^ 54"
  by simp

lemma merge_cv_stack_inv:
  assumes "stack_inv key flags s c es h"
  shows "stack_inv key flags s c (exps c) (hasher_merge_cv_stack p h (of_nat c))"
    and "h_chunk (hasher_merge_cv_stack p h (of_nat c)) = h_chunk h"
proof -
  have inv: "h_key h = key" "length key = 8" "cs_flags (h_chunk h) = flags"
      "stack_rep h (stack_cvs key flags s 0 es)" "lazy_exps c es" "1024 * c \<le> length s" "length s < 2 ^ 64"
    using assms by (auto simp: stack_inv_def)
  have c: "c < 2 ^ 64" using inv(6,7) by simp
  have "stack_inv key flags s c (exps c) (hasher_merge_cv_stack p h (of_nat c)) \<and>
    h_chunk (hasher_merge_cv_stack p h (of_nat c)) = h_chunk h"
  proof (cases "c = 0 \<and> es = []")
    case True
    then have "hasher_merge_cv_stack p h (of_nat c) = h"
      using merge_stop [OF inv(4), of _ p] by (simp add: hasher_merge_cv_stack_def Let_def)
    with True assms show ?thesis by (simp add: exps_def)
  next
    case False
    then obtain a j where aj: "es = exps a @ [j]" "c = a + 2 ^ j" "2 ^ j dvd a"
      using inv(5) by (auto simp: lazy_exps_def)
    have "let h' = hasher_merge_loop p h (length (exps c))
      in stack_rep h' (stack_cvs key flags s 0 (exps c)) \<and> h_key h' = key \<and> h_chunk h' = h_chunk h"
      using merge_exps [OF inv(4) [unfolded aj(1)] aj(3) inv(6) [unfolded aj(2)] inv(7,1,3,2)] aj(2) by blast
    then show ?thesis
      using inv c by (simp add: hasher_merge_cv_stack_def popcnt_exps Let_def stack_inv_def lazy_exps_canonical)
  qed
  then show "stack_inv key flags s c (exps c) (hasher_merge_cv_stack p h (of_nat c))"
    and "h_chunk (hasher_merge_cv_stack p h (of_nat c)) = h_chunk h" by auto
qed

lemma push_cv_inv:
  assumes "stack_inv key flags s c es h" "2 ^ k dvd c" "1024 * (c + 2 ^ k) \<le> length s"
  shows "stack_inv key flags s (c + 2 ^ k) (exps c @ [k])
      (hasher_push_cv p h (subtree_cv key flags s c k) (of_nat c))"
    and "h_chunk (hasher_push_cv p h (subtree_cv key flags s c k) (of_nat c)) = h_chunk h"
proof -
  define h1 where "h1 = hasher_merge_cv_stack p h (of_nat c)"
  note m = merge_cv_stack_inv [OF assms(1), of p, folded h1_def]
  have rep: "stack_rep h1 (stack_cvs key flags s 0 (exps c))" using m(1) by (simp add: stack_inv_def)
  have c: "c < 2 ^ 54" using assms(1) by (auto simp: stack_inv_def)
  then have d: "length (exps c) \<le> BLAKE3_MAX_DEPTH"
    using length_exps [of c 54] by (simp add: BLAKE3_MAX_DEPTH_def)
  have cc: "chunks_in (exps c) = c" by (rule chunks_in_exps) (use c in simp)
  have len: "unat (h_cv_stack_len h1) = length (exps c)"
    using stack_rep_unat [OF rep] by (simp add: length_stack_cvs)
  have sl: "h_cv_stack_len h1 = of_nat (length (exps c))"
    using rep by (simp add: stack_rep_def length_stack_cvs)
  have push: "hasher_push_cv p h (subtree_cv key flags s c k) (of_nat c) =
      h1\<lparr>h_cv_stack := buf_write (h_cv_stack h1) (length (exps c) * 32) (subtree_cv key flags s c k),
         h_cv_stack_len := of_nat (Suc (length (exps c)))\<rparr>"
    using len by (simp add: hasher_push_cv_def Let_def h1_def [symmetric] BLAKE3_OUT_LEN_def sl)
  show "h_chunk (hasher_push_cv p h (subtree_cv key flags s c k) (of_nat c)) = h_chunk h"
    using m(2) by (simp add: push)
  have "stack_rep (hasher_push_cv p h (subtree_cv key flags s c k) (of_nat c)) (stack_cvs key flags s 0 (exps c @ [k]))"
    using stack_rep_write [OF rep _ d length_subtree_cv, of key flags s c k]
    by (simp add: push length_stack_cvs stack_cvs_append cc)
  then show "stack_inv key flags s (c + 2 ^ k) (exps c @ [k])
      (hasher_push_cv p h (subtree_cv key flags s c k) (of_nat c))"
    using m(1,2) assms lazy_exps_push [OF assms(2)] by (simp add: stack_inv_def push)
qed

section \<open>Update\<close>

lemma mask_count:
  assumes "m < 2 ^ 64" "k \<le> 64"
  shows "((of_nat (2 ^ k - 1) :: u64) AND of_nat m) = 0 \<longleftrightarrow> 2 ^ k dvd m"
proof -
  have "(of_nat (2 ^ k - 1) :: u64) = mask k"
    by (simp add: mask_eq_exp_minus_1)
  then have "((of_nat (2 ^ k - 1) :: u64) AND of_nat m) = take_bit k (of_nat m)"
    by (simp add: take_bit_eq_mask and.commute)
  moreover have "unat (take_bit k (of_nat m :: u64)) = m mod 2 ^ k"
  proof -
    have "unat (of_nat m :: u64) = m" using assms(1) by (intro unat_of_nat_small) simp
    then show ?thesis by (metis unsigned_take_bit_eq take_bit_eq_mod)
  qed
  ultimately show ?thesis by (metis dvd_eq_mod_eq_0 unat_eq_zero)
qed

lemma shrink_subtree_eq:
  assumes "10 \<le> k" "k < 64" "1024 * c < 2 ^ 64"
  shows "\<exists>i. shrink_subtree (2 ^ k) (of_nat (1024 * c)) = 1024 * 2 ^ i \<and> i + 10 \<le> k \<and> 2 ^ i dvd c"
  using assms
proof (induction k)
  case (Suc k)
  have m: "((of_nat (2 ^ Suc k - 1) :: u64) AND of_nat (1024 * c)) = 0 \<longleftrightarrow> 2 ^ Suc k dvd 1024 * c"
    by (rule mask_count) (use Suc.prems in auto)
  show ?case
  proof (cases "2 ^ Suc k dvd 1024 * c")
    case True
    define i where "i = Suc k - 10"
    have e: "(2::nat) ^ Suc k = 1024 * 2 ^ i"
      using Suc.prems(1) power_add [of "2::nat" 10 i] by (simp add: i_def)
    then have "2 ^ i dvd c" using True by simp
    moreover have "shrink_subtree (2 ^ Suc k) (of_nat (1024 * c)) = 2 ^ Suc k"
      using True m by (subst shrink_subtree.simps) (intro if_not_P, simp only: not_not)
    ultimately show ?thesis using Suc.prems(1) unfolding e by (intro exI [of _ i]) (simp add: i_def)
  next
    case False
    have k: "10 \<le> k"
    proof (rule ccontr)
      assume "\<not> 10 \<le> k"
      with Suc.prems(1) have "Suc k = 10" by simp
      then have "2 ^ Suc k dvd 1024 * c" by (simp only: ) simp
      with False show False ..
    qed
    have "shrink_subtree (2 ^ Suc k) (of_nat (1024 * c)) = shrink_subtree (2 ^ k) (of_nat (1024 * c))"
      using False m by (subst shrink_subtree.simps) simp
    then show ?thesis using Suc.IH k Suc.prems by auto
  qed
qed simp


lemma chunk_cv_eq:
  assumes "length key = 8" "length bs \<le> 1024"
  shows "output_chaining_value p (chunk_state_output (chunk_state_of key flags counter bs)) =
    spec_cv (spec_tree key flags counter bs)"
  using assms
  by (simp add: chunk_state_output_of output_chaining_value_eq wf_spec_chunk spec_tree.simps)

lemma cs_of_simps [simp]:
  "cs_chunk_counter (chunk_state_of key flags counter bs) = counter"
  "cs_flags (chunk_state_of key flags counter bs) = flags"
  by (simp_all add: chunk_state_of_def)

lemma stack_inv_chunk_upd:
  "cs_flags x = flags \<Longrightarrow> stack_inv key flags s c es h \<Longrightarrow> stack_inv key flags s c es (h\<lparr>h_chunk := x\<rparr>)"
  by (simp add: stack_inv_def)

lemma hash_subtree_inv:
  assumes inv: "stack_inv key flags s c es h" and ch: "h_chunk h = chunk_state_of key flags (of_nat c) []"
    and i: "2 ^ i dvd c" "1024 * (c + 2 ^ i) \<le> length s" and input: "input = drop (1024 * c) s"
  shows "\<exists>es'. stack_inv key flags s (c + 2 ^ i) es' (hasher_hash_subtree p h input (1024 * 2 ^ i)) \<and>
    h_chunk (hasher_hash_subtree p h input (1024 * 2 ^ i)) = chunk_state_of key flags (of_nat (c + 2 ^ i)) [] \<and>
    (0 < i \<longrightarrow> 2 \<le> length es')"
proof -
  have key: "h_key h = key" "length key = 8" using inv by (auto simp: stack_inv_def)
  have slen: "length s < 2 ^ 64" using inv by (simp add: stack_inv_def)
  show ?thesis
  proof (cases i)
    case 0
    have cv: "output_chaining_value p (chunk_state_output (chunk_state_update p
        ((chunk_state_init key flags)\<lparr>cs_chunk_counter := of_nat c\<rparr>) (take 1024 input))) =
      subtree_cv key flags s c 0"
      using chunk_state_update_of [OF key(2), of "[]" "take 1024 input" p flags "of_nat c"]
        chunk_cv_eq [OF key(2), of "take 1024 input" p flags "of_nat c"]
      by (simp add: chunk_state_init_eq chunk_state_counter_eq subtree_cv_def input)
    have cnt: "cs_chunk_counter (chunk_state_update p
        ((chunk_state_init key flags)\<lparr>cs_chunk_counter := of_nat c\<rparr>) (take 1024 input)) = of_nat c"
      using chunk_state_update_of [OF key(2), of "[]" "take 1024 input" p flags "of_nat c"]
      by (simp add: chunk_state_init_eq chunk_state_counter_eq)
    have hs: "hasher_hash_subtree p h input 1024 =
      (let h' = hasher_push_cv p h (subtree_cv key flags s c 0) (of_nat c)
       in h'\<lparr>h_chunk := (h_chunk h')\<lparr>cs_chunk_counter := cs_chunk_counter (h_chunk h') + 1\<rparr>\<rparr>)"
      using cv cnt by (simp add: hasher_hash_subtree_def Let_def BLAKE3_CHUNK_LEN_def key ch)
    have i0: "2 ^ 0 dvd c" "1024 * (c + 2 ^ 0) \<le> length s" using i 0 by simp_all
    note pu = push_cv_inv [OF inv i0, of p]
    show ?thesis
      unfolding 0 power_0 mult_1_right hs Let_def pu(2) ch chunk_state_counter_eq cs_of_simps
      using stack_inv_chunk_upd [OF _ pu(1), of "chunk_state_of key flags (of_nat c + 1) []"]
      by (intro exI [of _ "exps c @ [0]"]) (simp add: add.commute)
  next
    case (Suc j)
    let ?in = "take (1024 * 2 ^ i) input"
    have len: "length ?in = 1024 * 2 ^ Suc j" using i(2) by (simp add: input Suc)
    have "(1::nat) \<le> 2 ^ j" by simp
    then have "1024 < 1024 * (2 * (2::nat) ^ j)" by linarith
    then have gt: "1024 < length ?in" unfolding len power_Suc .
    have gt2: "length ?in < 2 ^ 64" using len slen i(2) by (simp add: Suc)
    have "left_len (length ?in) = 1024 * 2 ^ j" by (rule left_len_eqI) (use len in auto)
    then have pr: "compress_subtree_to_parent_node p ?in key (of_nat c) flags =
        subtree_cv key flags s c j @ subtree_cv key flags s (c + 2 ^ j) j"
      using compress_subtree_to_parent_node_eq [OF key(2) gt gt2, of p "of_nat c" flags]
      by (simp add: subtree_cv_def input Suc drop_take add.commute distrib_left)
    have d: "2 ^ j dvd c" using i(1) by (simp add: Suc) (metis dvd_mult_right)
    have b: "1024 * (c + 2 ^ j) \<le> length s" "1024 * (c + 2 ^ j + 2 ^ j) \<le> length s"
      using i(2) by (simp_all add: Suc)
    have d2: "2 ^ j dvd c + 2 ^ j" using d by simp
    define h1 where "h1 = hasher_push_cv p h (subtree_cv key flags s c j) (of_nat c)"
    define h2 where "h2 = hasher_push_cv p h1 (subtree_cv key flags s (c + 2 ^ j) j) (of_nat c + 2 ^ j)"
    note p1 = push_cv_inv [OF inv d b(1), of p, folded h1_def]
    note p2 = push_cv_inv [OF p1(1) d2 b(2), of p, unfolded of_nat_add of_nat_power of_nat_numeral, folded h2_def]
    have half: "(of_nat (1024 * 2 ^ i div 1024) :: u64) div 2 = 2 ^ j"
    proof -
      have "(2::nat) ^ i < 2 ^ 64" using i(2) slen by simp
      then have "i < 64" by (rule power_less_imp_less_exp [rotated]) simp
      then have "(2 :: u64) ^ i div 2 = 2 ^ j"
        by (intro bit_word_eqI) (auto simp: bit_simps Suc drop_bit_Suc [symmetric] drop_bit_eq_div [of 1, symmetric, simplified])
      then show ?thesis by simp
    qed
    have hs: "hasher_hash_subtree p h input (1024 * 2 ^ i) =
      h2\<lparr>h_chunk := chunk_state_of key flags (of_nat (c + 2 ^ i)) []\<rparr>"
    proof -
      have "\<not> 1024 * 2 ^ i \<le> (1024::nat)" using gt unfolding len by (simp only: Suc not_le)
      then show ?thesis
        using half p1(2) p2(2) ch
        by (simp add: hasher_hash_subtree_def Let_def BLAKE3_CHUNK_LEN_def BLAKE3_OUT_LEN_def key pr
            buf_read_def length_subtree_cv h1_def [symmetric] h2_def [symmetric] chunk_state_counter_eq
            del: power_Suc)
    qed
    have "exps (c + 2 ^ j) \<noteq> []"
      using exps_eq_Nil [of "c + 2 ^ j"] b(1) slen by simp
    then have "2 \<le> length (exps (c + 2 ^ j) @ [j])" by (cases "exps (c + 2 ^ j)") auto
    moreover have "c + 2 ^ j + 2 ^ j = c + 2 ^ i" by (simp add: Suc)
    note p2 = p2 [unfolded this]
    ultimately show ?thesis
      using stack_inv_chunk_upd [OF _ p2(1), of "chunk_state_of key flags (of_nat (c + 2 ^ i)) []"]
      unfolding hs by (intro exI [of _ "exps (c + 2 ^ j) @ [j]"]) simp
  qed
qed


lemma update_loop_inv:
  assumes "stack_inv key flags s c es h" "h_chunk h = chunk_state_of key flags (of_nat c) []"
    "input = drop (1024 * c) s" "input \<noteq> [] \<or> 2 \<le> length es"
  shows "\<exists>c' es' h'. hasher_update_loop p h input = (h', drop (1024 * c') s) \<and>
    stack_inv key flags s c' es' h' \<and> h_chunk h' = chunk_state_of key flags (of_nat c') [] \<and>
    length s - 1024 * c' \<le> 1024 \<and> (length s = 1024 * c' \<longrightarrow> 2 \<le> length es')"
  using assms
proof (induction "length input" arbitrary: input c es h rule: less_induct)
  case less
  have sb: "1024 * c \<le> length s" "length s < 2 ^ 64" using less.prems(1) by (auto simp: stack_inv_def)
  have len: "length input = length s - 1024 * c" by (simp add: less.prems(3))
  show ?case
  proof (cases "1024 < length input")
    case False
    then have "hasher_update_loop p h input = (h, input)"
      by (subst hasher_update_loop.simps) (simp add: BLAKE3_CHUNK_LEN_def)
    moreover have "length s = 1024 * c \<longrightarrow> 2 \<le> length es" using less.prems(3,4) by auto
    ultimately show ?thesis
      using less.prems False len by (intro exI [of _ c] exI [of _ es] exI [of _ h]) auto
  next
    case True
    have "0 < length input" "length input < 2 ^ 64" using True sb len by auto
    then obtain k where k: "unat (round_down_to_power_of_2 (of_nat (length input))) = 2 ^ k"
      "2 ^ k \<le> length input" "length input < 2 ^ (k + 1)"
      using round_down_bounds by blast
    have "(2::nat) ^ 10 < 2 ^ (k + 1)" using True k(3) by simp
    then have k10: "10 \<le> k" using power_less_imp_less_exp [of "2::nat" 10 "k + 1"] by simp
    have "(2::nat) ^ k < 2 ^ 64" using k(2) sb(2) len by linarith
    then have k64: "k < 64" by (rule power_less_imp_less_exp [rotated]) simp
    have "1024 * c < 2 ^ 64" using sb by linarith
    from shrink_subtree_eq [OF k10 k64 this] obtain i where i:
      "shrink_subtree (2 ^ k) (of_nat (1024 * c)) = 1024 * 2 ^ i" "i + 10 \<le> k" "2 ^ i dvd c"
      by blast
    have "(2::nat) ^ (i + 10) \<le> 2 ^ k" using i(2) by (rule power_increasing) simp
    then have le: "1024 * 2 ^ i \<le> length input" using k(2) by (simp add: power_add)
    then have b: "1024 * (c + 2 ^ i) \<le> length s" using len sb by simp
    define h1 where "h1 = hasher_hash_subtree p h input (1024 * 2 ^ i)"
    obtain es1 where es1: "stack_inv key flags s (c + 2 ^ i) es1 h1"
      "h_chunk h1 = chunk_state_of key flags (of_nat (c + 2 ^ i)) []" "0 < i \<longrightarrow> 2 \<le> length es1"
      using hash_subtree_inv [OF less.prems(1,2) i(3) b less.prems(3), of p] unfolding h1_def by blast
    have cnt: "cs_chunk_counter (h_chunk h) * 1024 = of_nat (1024 * c)"
      using less.prems(2) by (simp add: mult.commute)
    have unf: "hasher_update_loop p h input = hasher_update_loop p h1 (drop (1024 * 2 ^ i) input)"
      using True k(1) i(1) cnt
      by (subst hasher_update_loop.simps) (simp add: Let_def BLAKE3_CHUNK_LEN_def h1_def)
    let ?in = "drop (1024 * 2 ^ i) input"
    have "(1::nat) \<le> 2 ^ i" by simp
    then have sm: "length ?in < length input" unfolding length_drop using True by linarith
    have ine: "?in = drop (1024 * (c + 2 ^ i)) s"
      by (simp add: less.prems(3) add.commute distrib_left)
    have nz: "?in \<noteq> [] \<or> 2 \<le> length es1"
    proof (cases "i = 0")
      case True
      then show ?thesis using \<open>1024 < length input\<close> by simp
    next
      case False
      then show ?thesis using es1(3) by simp
    qed
    show ?thesis unfolding unf by (rule less.hyps [OF sm es1(1,2) ine nz])
  qed
qed

text \<open>What a hasher knows between two calls, for the bytes \<open>s\<close> absorbed so far.\<close>

definition hasher_inv :: "words \<Rightarrow> u8 \<Rightarrow> bytes \<Rightarrow> blake3_hasher \<Rightarrow> bool" where
  "hasher_inv key flags s h \<longleftrightarrow>
    (\<exists>c es. stack_inv key flags s c es h \<and>
      h_chunk h = chunk_state_of key flags (of_nat c) (drop (1024 * c) s) \<and>
      length s - 1024 * c \<le> 1024 \<and>
      (if length s = 1024 * c \<and> 0 < c then 2 \<le> length es else es = exps c))"

lemma stack_inv_extend:
  assumes "stack_inv key flags s c es h" "length (s @ x) < 2 ^ 64"
  shows "stack_inv key flags (s @ x) c es h"
proof -
  have "1024 * c \<le> length s" "length s < 2 ^ 64" "lazy_exps c es" using assms(1) by (auto simp: stack_inv_def)
  then have "chunks_in es = c" using chunks_in_lazy [of c es] by simp
  then show ?thesis
    using assms stack_cvs_extend [of 0 es s key flags x] by (simp add: stack_inv_def)
qed

lemma update_tail:
  assumes "stack_inv key flags s c es h" "h_chunk h = chunk_state_of key flags (of_nat c) []"
    "input = drop (1024 * c) s" "input \<noteq> []"
  shows "hasher_inv key flags s
    (let (self, input_bytes) = hasher_update_loop p h input
     in if length input_bytes > 0 then
          let self = self\<lparr>h_chunk := chunk_state_update p (h_chunk self) input_bytes\<rparr>
          in hasher_merge_cv_stack p self (cs_chunk_counter (h_chunk self))
        else self)"
proof -
  have key: "length key = 8" using assms(1) by (simp add: stack_inv_def)
  obtain c' es' h' where r: "hasher_update_loop p h input = (h', drop (1024 * c') s)"
    "stack_inv key flags s c' es' h'" "h_chunk h' = chunk_state_of key flags (of_nat c') []"
    "length s - 1024 * c' \<le> 1024" "length s = 1024 * c' \<longrightarrow> 2 \<le> length es'"
    using update_loop_inv [OF assms(1-3), of p] assms(4) by blast
  show ?thesis
  proof (cases "drop (1024 * c') s = []")
    case True
    then have e: "length s = 1024 * c'" using r(2) by (simp add: stack_inv_def)
    moreover have "s \<noteq> []" using assms(3,4) by auto
    ultimately have "0 < c'" by (cases c') auto
    then show ?thesis using r True e
      by (auto simp: hasher_inv_def intro!: exI [of _ c'] exI [of _ es'])
  next
    case False
    then have ne: "length s \<noteq> 1024 * c'" by auto
    let ?t = "drop (1024 * c') s"
    have ch: "chunk_state_update p (h_chunk h') ?t = chunk_state_of key flags (of_nat c') ?t"
      using chunk_state_update_of [OF key, of "[]" ?t p flags "of_nat c'"] r(3,4) by simp
    let ?h = "h'\<lparr>h_chunk := chunk_state_of key flags (of_nat c') ?t\<rparr>"
    have "stack_inv key flags s c' es' ?h" by (rule stack_inv_chunk_upd [OF _ r(2)]) simp
    note m = merge_cv_stack_inv [OF this, of p]
    have "hasher_inv key flags s (hasher_merge_cv_stack p ?h (of_nat c'))"
      unfolding hasher_inv_def using m r(4) ne by (intro exI [of _ c'] exI [of _ "exps c'"]) simp
    then show ?thesis using False by (simp add: r(1) ch)
  qed
qed

theorem hasher_update_inv:
  assumes "hasher_inv key flags s h" "length (s @ input) < 2 ^ 64"
  shows "hasher_inv key flags (s @ input) (blake3_hasher_update p h input)"
proof (cases "input = []")
  case True
  then show ?thesis using assms(1) by (simp add: blake3_hasher_update_def)
next
  case False
  obtain c es where inv: "stack_inv key flags s c es h"
    and ch: "h_chunk h = chunk_state_of key flags (of_nat c) (drop (1024 * c) s)"
    and t: "length s - 1024 * c \<le> 1024"
    and es: "if length s = 1024 * c \<and> 0 < c then 2 \<le> length es else es = exps c"
    using assms(1) by (auto simp: hasher_inv_def)
  have key: "h_key h = key" "length key = 8" and le: "1024 * c \<le> length s" using inv by (auto simp: stack_inv_def)
  note inv' = stack_inv_extend [OF inv assms(2)]
  have cl: "chunk_state_len (h_chunk h) = length s - 1024 * c"
    using t by (simp add: ch chunk_state_len_of)
  show ?thesis
  proof (cases "length s = 1024 * c")
    case True
    then have ch0: "h_chunk h = chunk_state_of key flags (of_nat c) []" by (simp add: ch)
    have "input = drop (1024 * c) (s @ input)" by (simp add: True)
    from update_tail [OF inv' ch0 this False, of p] cl True False
    show ?thesis by (simp add: blake3_hasher_update_def)
  next
    case ne: False
    then have pos: "0 < chunk_state_len (h_chunk h)" using cl le by simp
    define tk where "tk = min (1024 - (length s - 1024 * c)) (length input)"
    have tk: "(if 1024 - (length s - 1024 * c) > length input then length input
        else 1024 - (length s - 1024 * c)) = tk" by (simp add: tk_def min_def)
    define u where "u = length s - 1024 * c"
    have cl': "chunk_state_len (h_chunk h) = u" and u0: "0 < u"
      using cl pos by (simp_all add: u_def)
    have tk': "(if 1024 - u > length input then length input else 1024 - u) = tk"
      using tk unfolding u_def .
    let ?t = "drop (1024 * c) s @ take tk input"
    have upd: "chunk_state_update p (h_chunk h) (take tk input) = chunk_state_of key flags (of_nat c) ?t"
      unfolding ch by (rule chunk_state_update_of) (use key t in \<open>auto simp: tk_def\<close>)
    let ?h = "h\<lparr>h_chunk := chunk_state_of key flags (of_nat c) ?t\<rparr>"
    have invh: "stack_inv key flags (s @ input) c es ?h" by (rule stack_inv_chunk_upd [OF _ inv']) simp
    show ?thesis
    proof (cases "tk = length input")
      case True
      then have t': "drop (1024 * c) (s @ input) = ?t" using le by simp
      have "blake3_hasher_update p h input = ?h"
        using False True upd tk' u0
        by (simp add: blake3_hasher_update_def Let_def BLAKE3_CHUNK_LEN_def cl' split del: if_split)
      moreover have "length (s @ input) - 1024 * c \<le> 1024" using True t le by (simp add: tk_def)
      moreover have "length (s @ input) \<noteq> 1024 * c" using le ne by simp
      ultimately show ?thesis
        unfolding hasher_inv_def using invh t' es ne
        by (intro exI [of _ c] exI [of _ es]) simp
    next
      case full: False
      then have tkv: "tk = 1024 - (length s - 1024 * c)" and tkl: "tk < length input"
        by (auto simp: tk_def min_def split: if_splits)
      have len: "length ?t = 1024" using tkv tkl t by simp
      have t1: "?t = take (1024 * 2 ^ 0) (drop (1024 * c) (s @ input))" using le tkv t by simp
      have cv: "output_chaining_value p (chunk_state_output (chunk_state_of key flags (of_nat c) ?t)) =
          subtree_cv key flags (s @ input) c 0"
        using chunk_cv_eq [OF key(2) eq_imp_le [OF len], of p flags "of_nat c"] t1
        by (simp add: subtree_cv_def)
      have b: "2 ^ 0 dvd c" "1024 * (c + 2 ^ 0) \<le> length (s @ input)" using tkv tkl t le by auto
      define h1 where "h1 = hasher_push_cv p ?h (subtree_cv key flags (s @ input) c 0) (of_nat c)"
      note pu = push_cv_inv [OF invh b, of p, folded h1_def]
      let ?h2 = "h1\<lparr>h_chunk := chunk_state_of key flags (of_nat (c + 1)) []\<rparr>"
      have inv2: "stack_inv key flags (s @ input) (c + 1) (exps c @ [0]) ?h2"
        using stack_inv_chunk_upd [OF _ pu(1), of "chunk_state_of key flags (of_nat (c + 1)) []"] by simp
      have rest: "drop tk input = drop (1024 * (c + 1)) (s @ input)" "drop tk input \<noteq> []"
        using tkv tkl t le by auto
      have k1: "h_key h1 = key" using pu(1) by (simp add: stack_inv_def)
      have "blake3_hasher_update p h input =
        (let (self, input_bytes) = hasher_update_loop p ?h2 (drop tk input)
         in if length input_bytes > 0 then
              let self = self\<lparr>h_chunk := chunk_state_update p (h_chunk self) input_bytes\<rparr>
              in hasher_merge_cv_stack p self (cs_chunk_counter (h_chunk self))
            else self)"
        using False tkl upd tk' u0 cv pu(2) k1
        by (simp add: blake3_hasher_update_def Let_def BLAKE3_CHUNK_LEN_def cl' h1_def [symmetric]
            chunk_state_reset_eq add.commute split del: if_split)
      then show ?thesis using update_tail [OF inv2 _ rest, of p] by simp
    qed
  qed
qed


section \<open>Initialisation and finalize\<close>

lemma hasher_init_base_inv:
  assumes "length (h_cv_stack h) = CV_STACK_BYTES" "length key = 8"
  shows "hasher_inv key flags [] (hasher_init_base h key flags)"
  unfolding hasher_inv_def
  using assms
  by (intro exI [of _ 0] exI [of _ "[]"])
    (simp add: hasher_init_base_def stack_inv_def stack_rep_def lazy_exps_def chunk_state_init_eq exps_def)

lemma hasher_reset_inv:
  assumes "hasher_inv key flags s h"
  shows "hasher_inv key flags [] (blake3_hasher_reset h)"
proof -
  have "h_key h = key" "length key = 8" "cs_flags (h_chunk h) = flags" "length (h_cv_stack h) = CV_STACK_BYTES"
    using assms by (auto simp: hasher_inv_def stack_inv_def stack_rep_def)
  then show ?thesis
    unfolding hasher_inv_def
    by (intro exI [of _ 0] exI [of _ "[]"])
      (simp add: blake3_hasher_reset_def stack_inv_def stack_rep_def lazy_exps_def chunk_state_reset_eq exps_def)
qed

lemma hasher_inv_stack_length: "hasher_inv key flags s h \<Longrightarrow> length (h_cv_stack h) = CV_STACK_BYTES"
  by (auto simp: hasher_inv_def stack_inv_def stack_rep_def)

lemma dominated_snoc: "dominated (es @ [e]) n \<longleftrightarrow> dominated es (1024 * 2 ^ e + n) \<and> n \<le> 1024 * 2 ^ e"
  by (induction es) auto

lemma rollup_eq:
  assumes "stack_rep h (stack_cvs key flags s 0 (es @ fs))" "h_key h = key" "cs_flags (h_chunk h) = flags"
    "length key = 8" "1024 * chunks_in es < length s"
    "dominated es (length s - 1024 * chunks_in es)"
  shows "finalize_rollup p h (length es)
      (spec_tree key flags (of_nat (chunks_in es)) (drop (1024 * chunks_in es) s)) =
    spec_tree key flags 0 s"
  using assms
proof (induction es arbitrary: fs rule: rev_induct)
  case (snoc e es)
  let ?a = "chunks_in es"
  let ?s = "drop (1024 * ?a) s" and ?r = "drop (1024 * (?a + 2 ^ e)) s"
  have d: "dominated es (length s - 1024 * ?a)" "length s - 1024 * (?a + 2 ^ e) \<le> 1024 * 2 ^ e"
    using snoc.prems(5,6) by (auto simp: dominated_snoc)
  have rd: "buf_read (h_cv_stack h) (length es * 32) 32 = subtree_cv key flags s ?a e"
    using stack_rep_read [OF snoc.prems(1), of "length es" 1]
    by (simp add: stack_cvs_append length_stack_cvs)
  have len: "1024 * 2 ^ e < length ?s" "length ?s \<le> 2 * (1024 * 2 ^ e)"
    using snoc.prems(5) d(2) by auto
  have "spec_tree key flags (of_nat ?a) ?s = spec_parent key flags (subtree_cv key flags s ?a e)
      (spec_cv (spec_tree key flags (of_nat (?a + 2 ^ e)) ?r))"
    using spec_tree_split [OF len, of key flags "of_nat ?a"]
    by (simp add: subtree_cv_def add.commute distrib_left)
  moreover have "finalize_rollup p h (length (es @ [e])) (spec_tree key flags (of_nat (?a + 2 ^ e)) ?r) =
      finalize_rollup p h (length es) (spec_parent key flags (subtree_cv key flags s ?a e)
        (spec_cv (spec_tree key flags (of_nat (?a + 2 ^ e)) ?r)))"
    using snoc.prems(2-4)
    by (simp add: Let_def rd parent_output_eq length_subtree_cv output_chaining_value_eq wf_spec_tree)
  moreover have "finalize_rollup p h (length es) (spec_tree key flags (of_nat ?a) ?s) = spec_tree key flags 0 s"
    by (rule snoc.IH [of "e # fs"]) (use snoc.prems d in auto)
  ultimately show ?case by simp
qed simp

theorem finalize_seek_inv:
  assumes "hasher_inv key flags s h" "n < 2 ^ 64"
  shows "blake3_hasher_finalize_seek p h seek n = blake3_spec key flags s (unat seek) n"
proof (cases "n = 0")
  case True
  then show ?thesis by (simp add: blake3_hasher_finalize_seek_def blake3_spec_def spec_root_bytes_def)
next
  case n0: False
  obtain c es where inv: "stack_inv key flags s c es h"
    and ch: "h_chunk h = chunk_state_of key flags (of_nat c) (drop (1024 * c) s)"
    and t: "length s - 1024 * c \<le> 1024"
    and es: "if length s = 1024 * c \<and> 0 < c then 2 \<le> length es else es = exps c"
    using assms(1) by (auto simp: hasher_inv_def)
  have key: "h_key h = key" "length key = 8" "cs_flags (h_chunk h) = flags"
    and rep: "stack_rep h (stack_cvs key flags s 0 es)" and lazy: "lazy_exps c es"
    and le: "1024 * c \<le> length s" "length s < 2 ^ 64"
    using inv by (auto simp: stack_inv_def)
  have c64: "c < 2 ^ 64" using le by simp
  have sum: "chunks_in es = c" by (rule chunks_in_lazy [OF lazy c64])
  have ulen: "unat (h_cv_stack_len h) = length es"
    using stack_rep_unat [OF rep] by (simp add: length_stack_cvs)
  have root: "output_root_bytes p (spec_tree key flags 0 s) seek n = blake3_spec key flags s (unat seek) n"
    by (simp add: output_root_bytes_eq [OF wf_spec_tree [OF key(2)] assms(2)] blake3_spec_def)
  have out: "chunk_state_output (h_chunk h) = spec_tree key flags (of_nat c) (drop (1024 * c) s)"
    using t by (simp add: ch chunk_state_output_of spec_tree.simps)
  have cl: "chunk_state_len (h_chunk h) = length s - 1024 * c"
    using t by (simp add: ch chunk_state_len_of)
  show ?thesis
  proof (cases "es = []")
    case True
    then have "c = 0" using sum by simp
    moreover have "h_cv_stack_len h = 0" using ulen True by (simp add: unat_eq_zero)
    ultimately show ?thesis using n0 out root by (simp add: blake3_hasher_finalize_seek_def)
  next
    case False
    then have sl: "h_cv_stack_len h \<noteq> 0" using ulen by auto
    have c0: "0 < c" using False sum by (cases es) auto
    show ?thesis
    proof (cases "length s = 1024 * c")
      case ne: False
      then have "es = exps c" using es by simp
      then have "dominated es (length s - 1024 * c)"
        unfolding exps_def by (simp add: dominated_bits_desc [OF c64, of 0] t)
      then have "finalize_rollup p h (length es) (chunk_state_output (h_chunk h)) = spec_tree key flags 0 s"
        using rollup_eq [of h key flags s es "[]" p] rep key le ne sum out by simp
      then show ?thesis
        using n0 sl cl ne le root ulen by (simp add: blake3_hasher_finalize_seek_def Let_def)
    next
      case True
      then have two: "2 \<le> length es" using es c0 by simp
      obtain a j where aj: "es = exps a @ [j]" "c = a + 2 ^ j" "2 ^ j dvd a"
        using lazy c0 by (auto simp: lazy_exps_def)
      have "exps a \<noteq> []" using two aj(1) by auto
      then obtain fs e where fs: "exps a = fs @ [e]" by (metis rev_exhaust)
      have a64: "a < 2 ^ 64" using c64 aj(2) by simp
      have dom: "dominated (fs @ [e]) (1024 * 2 ^ j)"
        unfolding fs [symmetric] exps_def by (rule dominated_bits_desc [OF a64 aj(3)]) simp
      then have df: "dominated fs (1024 * 2 ^ e + 1024 * 2 ^ j)" "2 ^ j \<le> (2::nat) ^ e"
        by (auto simp: dominated_snoc)
      let ?b = "chunks_in fs"
      have ab: "a = ?b + 2 ^ e" using chunks_in_exps [OF a64] fs by simp
      have len: "length s = 1024 * (?b + 2 ^ e + 2 ^ j)" using True aj(2) ab by simp
      have rd: "buf_read (h_cv_stack h) (length fs * 32) 64 =
          subtree_cv key flags s ?b e @ subtree_cv key flags s (?b + 2 ^ e) j"
        using stack_rep_read [OF rep, of "length fs" 2]
        by (simp add: aj(1) fs stack_cvs_append length_stack_cvs)
      let ?s = "drop (1024 * ?b) s"
      have sl2: "1024 * 2 ^ e < length ?s" "length ?s \<le> 2 * (1024 * 2 ^ e)"
        using len df(2) by simp_all
      have "spec_parent key flags (subtree_cv key flags s ?b e) (subtree_cv key flags s (?b + 2 ^ e) j) =
          spec_tree key flags (of_nat ?b) ?s"
        using spec_tree_split [OF sl2, of key flags "of_nat ?b"] len
        by (simp add: subtree_cv_def add.commute distrib_left)
      moreover have "finalize_rollup p h (length fs) (spec_tree key flags (of_nat ?b) ?s) = spec_tree key flags 0 s"
      proof (rule rollup_eq)
        show "stack_rep h (stack_cvs key flags s 0 (fs @ [e, j]))" using rep by (simp add: aj(1) fs)
        show "dominated fs (length s - 1024 * ?b)" using df(1) len by (simp add: distrib_left)
      qed (use key len in auto)
      ultimately have "finalize_rollup p h (length es - 2)
          (parent_output (buf_read (h_cv_stack h) ((length es - 2) * 32) BLAKE3_BLOCK_LEN) key flags) =
        spec_tree key flags 0 s"
        by (simp add: aj(1) fs rd BLAKE3_BLOCK_LEN_def parent_output_eq length_subtree_cv)
      then show ?thesis
        using n0 sl cl True root ulen key by (simp add: blake3_hasher_finalize_seek_def Let_def)
    qed
  qed
qed


section \<open>The hasher as an incremental digest\<close>

interpretation blake3: incremental_digest "\<lambda>h s. hasher_inv key flags s h" "blake3_hasher_update p"
  "\<lambda>h. blake3_hasher_finalize_seek p h seek (unat (n :: u64))"
  "\<lambda>s. blake3_spec key flags s (unat seek) (unat n)" "2 ^ 64"
  for p key flags seek n
proof
  show "blake3_hasher_finalize_seek p h seek (unat n) = blake3_spec key flags s (unat seek) (unat n)"
    if "hasher_inv key flags s h" for h s
    by (rule finalize_seek_inv [OF that]) (use unsigned_less [of n] in simp)
qed (rule hasher_update_inv)

section \<open>Key derivation\<close>

lemma take_c_strlen: "take (c_strlen s) s = takeWhile (\<lambda>b. b \<noteq> 0) s"
  by (metis c_strlen_def takeWhile_eq_take)

lemma c_strlen_le: "c_strlen s \<le> length s"
  by (simp add: c_strlen_def length_takeWhile_le)

lemma derive_key_raw_inv:
  assumes "length (h_cv_stack h) = CV_STACK_BYTES" "length (h_cv_stack h0) = CV_STACK_BYTES"
    "length context < 2 ^ 64"
  shows "hasher_inv (load_key_words (blake3_spec IV DERIVE_KEY_CONTEXT context 0 32))
    DERIVE_KEY_MATERIAL [] (blake3_hasher_init_derive_key_raw p h h0 context)"
proof -
  have "hasher_inv IV DERIVE_KEY_CONTEXT [] (hasher_init_base h0 IV DERIVE_KEY_CONTEXT)"
    by (rule hasher_init_base_inv) (use assms in simp_all)
  then have "hasher_inv IV DERIVE_KEY_CONTEXT ([] @ context)
      (blake3_hasher_update p (hasher_init_base h0 IV DERIVE_KEY_CONTEXT) context)"
    by (rule hasher_update_inv) (use assms in simp)
  then have "blake3_hasher_finalize p
      (blake3_hasher_update p (hasher_init_base h0 IV DERIVE_KEY_CONTEXT) context) BLAKE3_KEY_LEN =
    blake3_spec IV DERIVE_KEY_CONTEXT context 0 32"
    by (simp add: blake3_hasher_finalize_def finalize_seek_inv BLAKE3_KEY_LEN_def)
  then show ?thesis
    using assms(1)
    by (simp add: blake3_hasher_init_derive_key_raw_def Let_def hasher_init_base_inv len_simps)
qed

section \<open>What the hasher guarantees\<close>

text \<open>A hasher whose memory holds no meaningful values yet, for the concrete instances.\<close>

definition demo_hasher :: blake3_hasher where
  "demo_hasher = \<lparr>h_key = replicate 8 1, h_chunk = chunk_state_init (replicate 8 2) 3, h_cv_stack_len = 77,
     h_cv_stack = replicate CV_STACK_BYTES 4\<rparr>"

lemma demo_hasher_stack [simp]: "length (h_cv_stack demo_hasher) = CV_STACK_BYTES"
  by (simp add: demo_hasher_def)

text \<open>The states a caller can reach: an initialised hasher after any updates and resets.\<close>

inductive hasher_reachable :: "platform \<Rightarrow> words \<Rightarrow> u8 \<Rightarrow> bytes \<Rightarrow> blake3_hasher \<Rightarrow> bool"
  for p key flags where
  init: "length key = 8 \<Longrightarrow> length (h_cv_stack h) = CV_STACK_BYTES \<Longrightarrow>
    hasher_reachable p key flags [] (hasher_init_base h key flags)"
| update: "hasher_reachable p key flags s h \<Longrightarrow> length (s @ input) < 2 ^ 64 \<Longrightarrow>
    hasher_reachable p key flags (s @ input) (blake3_hasher_update p h input)"
| reset: "hasher_reachable p key flags s h \<Longrightarrow> hasher_reachable p key flags [] (blake3_hasher_reset h)"

lemma reachable_inv: "hasher_reachable p key flags s h \<Longrightarrow> hasher_inv key flags s h"
  by (induction rule: hasher_reachable.induct)
    (auto intro: hasher_init_base_inv hasher_update_inv hasher_reset_inv)

definition demo_absorbed :: blake3_hasher where
  "demo_absorbed = blake3_hasher_update demo_platform (blake3_hasher_init demo_hasher) (replicate 5000 9)"

lemma demo_reachable: "hasher_reachable demo_platform IV 0 (replicate 5000 9) demo_absorbed"
  unfolding blake3_hasher_init_def demo_absorbed_def
  using hasher_reachable.update [OF hasher_reachable.init [of IV demo_hasher demo_platform 0], of "replicate 5000 9"]
  by simp

lemma hasher_inv_stack_len:
  assumes "hasher_inv key flags s h"
  shows "unat (h_cv_stack_len h) \<le> BLAKE3_MAX_DEPTH + 1"
    and "h_cv_stack_len h \<noteq> 0 \<Longrightarrow> 0 < popcnt (cs_chunk_counter (h_chunk h))"
    and "h_cv_stack_len h \<noteq> 0 \<Longrightarrow> chunk_state_len (h_chunk h) = 0 \<Longrightarrow> 2 \<le> unat (h_cv_stack_len h)"
    and "chunk_state_len (h_chunk h) \<noteq> 0 \<Longrightarrow>
      unat (h_cv_stack_len h) = popcnt (cs_chunk_counter (h_chunk h))"
    and "length s = 1024 * unat (cs_chunk_counter (h_chunk h)) + chunk_state_len (h_chunk h)"
    and "chunk_state_len (h_chunk h) \<le> 1024"
proof -
  obtain c es where inv: "stack_inv key flags s c es h"
    and ch: "h_chunk h = chunk_state_of key flags (of_nat c) (drop (1024 * c) s)"
    and t: "length s - 1024 * c \<le> 1024"
    and es: "if length s = 1024 * c \<and> 0 < c then 2 \<le> length es else es = exps c"
    using assms by (auto simp: hasher_inv_def)
  have rep: "stack_rep h (stack_cvs key flags s 0 es)" and lazy: "lazy_exps c es"
    and sb: "1024 * c \<le> length s" "length s < 2 ^ 64"
    using inv by (auto simp: stack_inv_def)
  have c: "c < 2 ^ 54" using sb by (rule chunk_count_bound)
  have len: "unat (h_cv_stack_len h) = length es" using stack_rep_unat [OF rep] by (simp add: length_stack_cvs)
  have cl: "chunk_state_len (h_chunk h) = length s - 1024 * c" using t by (simp add: ch chunk_state_len_of)
  have cc: "cs_chunk_counter (h_chunk h) = of_nat c" by (simp add: ch)
  have cu: "unat (of_nat c :: u64) = c" using c by (intro unat_of_nat_small) simp
  have ne: "0 < c" if "es \<noteq> []"
    using chunks_in_lazy [OF lazy] c that by (cases es) auto
  show "unat (h_cv_stack_len h) \<le> BLAKE3_MAX_DEPTH + 1"
    unfolding len using rep by (simp add: stack_rep_def length_stack_cvs)
  have nz: "h_cv_stack_len h \<noteq> 0 \<longleftrightarrow> es \<noteq> []" using len by (auto simp: unat_eq_zero)
  show "0 < popcnt (cs_chunk_counter (h_chunk h))" if "h_cv_stack_len h \<noteq> 0"
    using that ne nz exps_eq_Nil [of c] c by (simp add: cc popcnt_exps)
  show "2 \<le> unat (h_cv_stack_len h)" if "h_cv_stack_len h \<noteq> 0" "chunk_state_len (h_chunk h) = 0"
    using that ne nz es sb by (simp add: len cl)
  show "unat (h_cv_stack_len h) = popcnt (cs_chunk_counter (h_chunk h))" if "chunk_state_len (h_chunk h) \<noteq> 0"
    using that es by (auto simp: len cl cc popcnt_exps split: if_splits)
  show "length s = 1024 * unat (cs_chunk_counter (h_chunk h)) + chunk_state_len (h_chunk h)"
    using sb by (simp add: cl cc cu)
  show "chunk_state_len (h_chunk h) \<le> 1024" using t by (simp add: cl)
qed

lemma demo_absorbed_chunks:
  "unat (cs_chunk_counter (h_chunk demo_absorbed)) = 4" "chunk_state_len (h_chunk demo_absorbed) = 904"
proof -
  have "c = 4 \<and> l = 904" if "5000 = 1024 * c + l" "l \<le> 1024" for c l :: nat
  proof -
    have "\<not> c \<le> 3" "\<not> 5 \<le> c" using that by linarith+
    then have "c = 4" by linarith
    moreover from this that(1) have "l = 904" by linarith
    ultimately show ?thesis ..
  qed
  with hasher_inv_stack_len(5,6) [OF reachable_inv [OF demo_reachable]]
  show "unat (cs_chunk_counter (h_chunk demo_absorbed)) = 4" "chunk_state_len (h_chunk demo_absorbed) = 904"
    by (metis length_replicate)+
qed

lemma demo_absorbed_stack: "unat (h_cv_stack_len demo_absorbed) = 1"
proof -
  have "cs_chunk_counter (h_chunk demo_absorbed) = 4"
    using demo_absorbed_chunks(1) unfolding word_unat_eq_iff by simp
  moreover have "popcnt 4 = 1" by code_simp
  ultimately show ?thesis
    using hasher_inv_stack_len(4) [OF reachable_inv [OF demo_reachable]] by (simp add: demo_absorbed_chunks)
qed

text \<open>
  C4. In every reachable state the array of chaining values keeps its size (so no write has left
  it), and its depth counter never exceeds the array's 55 slots.
\<close>

theorem cv_stack_in_bounds:
  assumes "hasher_reachable p key flags s h"
  shows "length (h_cv_stack h) = (BLAKE3_MAX_DEPTH + 1) * BLAKE3_OUT_LEN \<and>
    unat (h_cv_stack_len h) \<le> BLAKE3_MAX_DEPTH + 1"
  using hasher_inv_stack_length [OF reachable_inv [OF assms]] hasher_inv_stack_len(1) [OF reachable_inv [OF assms]]
  by (simp add: CV_STACK_BYTES_def)

theorem cv_stack_in_bounds_witness:
  "length (h_cv_stack demo_absorbed) = (BLAKE3_MAX_DEPTH + 1) * BLAKE3_OUT_LEN \<and>
    unat (h_cv_stack_len demo_absorbed) \<le> BLAKE3_MAX_DEPTH + 1"
  by (rule cv_stack_in_bounds [OF demo_reachable])

text \<open>
  The two subtractions \<open>cv_stack_len - 2\<close> never underflow: the merge loop pops only down to a
  positive target, and when \<open>finalize\<close> starts from the stack with an empty chunk there are at
  least two chaining values on it.
\<close>

theorem cv_stack_no_underflow:
  assumes "hasher_reachable p key flags s h" "h_cv_stack_len h \<noteq> 0"
  shows "0 < popcnt (cs_chunk_counter (h_chunk h)) \<and>
    (chunk_state_len (h_chunk h) = 0 \<longrightarrow> 2 \<le> unat (h_cv_stack_len h))"
  using hasher_inv_stack_len(2,3) [OF reachable_inv [OF assms(1)] assms(2)] by blast

theorem cv_stack_no_underflow_witness:
  "0 < popcnt (cs_chunk_counter (h_chunk demo_absorbed))"
proof -
  have "h_cv_stack_len demo_absorbed \<noteq> 0" using demo_absorbed_stack by auto
  with cv_stack_no_underflow [OF demo_reachable] show ?thesis by blast
qed

text \<open>
  No byte is lost or counted twice: the chunks counted and the at most 1024 buffered bytes add
  up to the bytes absorbed, and with a partial chunk in the
  buffer the stack holds one chaining value per one-bit of the chunk counter.
\<close>

theorem absorbed_bytes_accounted:
  assumes "hasher_reachable p key flags s h"
  shows "length s = BLAKE3_CHUNK_LEN * unat (cs_chunk_counter (h_chunk h)) + chunk_state_len (h_chunk h) \<and>
    chunk_state_len (h_chunk h) \<le> BLAKE3_CHUNK_LEN \<and>
    (chunk_state_len (h_chunk h) \<noteq> 0 \<longrightarrow>
      unat (h_cv_stack_len h) = popcnt (cs_chunk_counter (h_chunk h)))"
  using hasher_inv_stack_len(4-6) [OF reachable_inv [OF assms]] by (simp add: BLAKE3_CHUNK_LEN_def)

theorem absorbed_bytes_accounted_witness:
  "5000 = BLAKE3_CHUNK_LEN * unat (cs_chunk_counter (h_chunk demo_absorbed)) +
      chunk_state_len (h_chunk demo_absorbed) \<and>
    chunk_state_len (h_chunk demo_absorbed) \<le> BLAKE3_CHUNK_LEN \<and>
    unat (h_cv_stack_len demo_absorbed) = popcnt (cs_chunk_counter (h_chunk demo_absorbed))"
proof -
  have "chunk_state_len (h_chunk demo_absorbed) \<noteq> 0" by (simp add: demo_absorbed_chunks)
  with absorbed_bytes_accounted [OF demo_reachable] show ?thesis unfolding length_replicate by blast
qed

text \<open>
  C3. In every reachable state, however it was reached, \<open>finalize_seek\<close> returns the window of the
  specified output stream of the bytes absorbed since initialisation or the last reset; it
  leaves the hasher unchanged, so the stream can be read again or extended.
\<close>

theorem finalize_seek_correct:
  assumes "hasher_reachable p key flags s h" "n < 2 ^ 64"
  shows "blake3_hasher_finalize_seek p h seek n = blake3_spec key flags s (unat seek) n"
  using finalize_seek_inv [OF reachable_inv [OF assms(1)] assms(2)] .

theorem finalize_seek_correct_witness:
  "blake3_hasher_finalize_seek demo_platform demo_absorbed 100 64 =
   blake3_spec IV 0 (replicate 5000 9) (unat (100 :: u64)) 64"
  by (rule finalize_seek_correct [OF demo_reachable]) simp

text \<open>
  The halving loop of \<open>blake3_hasher_update\<close> ends with a power-of-two number of whole chunks
  that divides the number of chunks hashed so far, so the subtree can be aligned in the tree.
\<close>

theorem shrink_subtree_correct:
  assumes "10 \<le> k" "k < 64" "1024 * c < 2 ^ 64"
  shows "\<exists>i. shrink_subtree (2 ^ k) (of_nat c * of_nat BLAKE3_CHUNK_LEN) = BLAKE3_CHUNK_LEN * 2 ^ i \<and>
    i + 10 \<le> k \<and> 2 ^ i dvd c"
  using shrink_subtree_eq [OF assms] by (simp add: BLAKE3_CHUNK_LEN_def mult.commute)

theorem shrink_subtree_correct_witness:
  "\<exists>i. shrink_subtree (2 ^ 14) (of_nat 12 * of_nat BLAKE3_CHUNK_LEN) = BLAKE3_CHUNK_LEN * 2 ^ i \<and>
    i + 10 \<le> 14 \<and> 2 ^ i dvd (12 :: nat)"
  by (rule shrink_subtree_correct) simp_all

text \<open>A fresh hasher over any pieces of an input.\<close>

lemma hash_updates:
  assumes "length key = 8" "length (h_cv_stack h) = CV_STACK_BYTES" "length (concat inputs) < 2 ^ 64" "n < 2 ^ 64"
  shows "blake3_hasher_finalize_seek p (foldl (blake3_hasher_update p) (hasher_init_base h key flags) inputs) seek n =
    blake3_spec key flags (concat inputs) (unat seek) n"
proof -
  have "hasher_inv key flags [] (hasher_init_base h key flags)"
    by (rule hasher_init_base_inv [OF assms(2,1)])
  moreover have "unat (of_nat n :: u64) = n" using assms(4) by (intro unat_of_nat_small) simp
  ultimately show ?thesis
    using blake3.finalize_updates [of key flags "[]" _ inputs p seek "of_nat n"] assms(3) by simp
qed

end
