(* ===== verification/Custody_Correct.thy ===== *)
theory Custody_Correct
  imports Custody Hasher_Correct
begin

text \<open>
  Correctness of the packet custody layer: the two digests are the derive-key hash of an
  injective encoding of their arguments, the comparison decides equality, and the receiver's
  counters and bitmap agree with the history of its calls in every reachable state.
\<close>

section \<open>Byte-level helpers\<close>

lemma rpc_copy_loop_eq:
  "i \<le> len \<Longrightarrow> len \<le> length d \<Longrightarrow> len \<le> length s \<Longrightarrow>
   rpc_copy_loop d s i len = take i d @ take (len - i) (drop i s) @ drop len d"
proof (induction d s i len rule: rpc_copy_loop.induct)
  case (1 d s i len)
  show ?case
  proof (cases "i < len")
    case True
    have "rpc_copy_loop d s i len =
        take (i + 1) (d[i := s ! i]) @ take (len - (i + 1)) (drop (i + 1) s) @ drop len (d[i := s ! i])"
      using 1 True by (subst rpc_copy_loop.simps) simp
    also have "take (i + 1) (d[i := s ! i]) = take i d @ [s ! i]"
      using 1 True by (simp add: take_Suc_conv_app_nth)
    also have "take (len - i) (drop i s) = s ! i # take (len - (i + 1)) (drop (i + 1) s)"
      using 1 True by (metis Cons_nth_drop_Suc Suc_diff_Suc Suc_eq_plus1 less_le_trans take_Suc_Cons)
    ultimately show ?thesis using True by simp
  next
    case False with 1 show ?thesis by (subst rpc_copy_loop.simps) simp
  qed
qed

lemma rpc_copy_eq:
  "len \<le> length d \<Longrightarrow> len \<le> length s \<Longrightarrow> rpc_copy d s len = take len s @ drop len d"
  by (simp add: rpc_copy_def rpc_copy_loop_eq)

lemma length_rpc_store [len_simps]:
  "length (rpc_store32_le v) = 4" "length (rpc_store64_le w) = 8"
  by (simp_all add: rpc_store32_le_def rpc_store64_le_def)

lemma rpc_store32_le_eq: "rpc_store32_le v = store32 v"
  by (simp add: rpc_store32_le_def store32_def)

lemma rpc_store64_le_eq: "rpc_store64_le v = store32 (counter_low v) @ store32 (counter_high v)"
  by (simp add: rpc_store64_le_def store32_def counter_low_def counter_high_def)
    (intro conjI; rule bit_word_eqI; auto simp: bit_simps)

lemma counter_split_inj:
  assumes "counter_low v = counter_low w" "counter_high v = counter_high w" shows "v = w"
proof (rule bit_word_eqI)
  fix n assume "n < LENGTH(64)"
  moreover have "bit (counter_low v) n = bit (counter_low w) n"
    "bit (counter_high v) (n - 32) = bit (counter_high w) (n - 32)" using assms by simp_all
  ultimately show "bit v n = bit w n"
    by (cases "n < 32") (auto simp: counter_low_def counter_high_def bit_simps)
qed

lemma store32_inj [simp]: "store32 v = store32 w \<longleftrightarrow> v = w"
  by (metis append_Nil2 load32_store32)

lemma rpc_store32_le_inj [simp]: "rpc_store32_le v = rpc_store32_le w \<longleftrightarrow> v = w"
  by (simp add: rpc_store32_le_eq)

lemma rpc_store64_le_inj [simp]: "rpc_store64_le v = rpc_store64_le w \<longleftrightarrow> v = w"
proof
  assume "rpc_store64_le v = rpc_store64_le w"
  then have "counter_low v = counter_low w" "counter_high v = counter_high w"
    by (auto simp: rpc_store64_le_eq append_eq_append_conv len_simps)
  then show "v = w" by (rule counter_split_inj)
qed simp

lemma rpc_diff_loop_eq:
  "rpc_diff_loop l r d i n = 0 \<longleftrightarrow> d = 0 \<and> (\<forall>k<n. l ! (i + k) = r ! (i + k))"
proof (induction n arbitrary: d i)
  case (Suc n)
  have or0: "a OR b = 0 \<longleftrightarrow> a = 0 \<and> b = 0" for a b :: u8
    by (auto simp: bit_eq_iff bit_or_iff)
  have x: "l ! i XOR r ! i = 0 \<longleftrightarrow> l ! i = r ! i"
    by (auto simp: bit_eq_iff bit_xor_iff)
  show ?case
    by (auto simp: Suc or0 x less_Suc_eq_0_disj)
qed simp

section \<open>Key derivation from a context string\<close>

definition derived_key :: "bytes \<Rightarrow> words" where
  "derived_key ctx = load_key_words (blake3_spec IV DERIVE_KEY_CONTEXT ctx 0 32)"

lemma init_derive_key_inv:
  assumes "length (h_cv_stack h) = CV_STACK_BYTES" "length (h_cv_stack h0) = CV_STACK_BYTES"
    "length ctx < 2 ^ 64"
  shows "hasher_inv (derived_key (takeWhile (\<lambda>b. b \<noteq> 0) ctx)) DERIVE_KEY_MATERIAL []
    (blake3_hasher_init_derive_key p h h0 ctx)"
proof -
  have "length (takeWhile (\<lambda>b. b \<noteq> 0) ctx) < 2 ^ 64"
    using assms(3) length_takeWhile_le [of "\<lambda>b. b \<noteq> 0" ctx] by linarith
  then show ?thesis
    using assms(1,2) derive_key_raw_inv [of h h0 "takeWhile (\<lambda>b. b \<noteq> 0) ctx" p]
    by (simp add: blake3_hasher_init_derive_key_def take_c_strlen derived_key_def)
qed

text \<open>The digest of a message under a context: the specification the custody layer is measured against.\<close>

definition rpc_digest_spec :: "bytes \<Rightarrow> bytes \<Rightarrow> bytes" where
  "rpc_digest_spec ctx msg =
    blake3_spec (derived_key (takeWhile (\<lambda>b. b \<noteq> 0) ctx)) DERIVE_KEY_MATERIAL msg 0 32"

lemma length_rpc_digest_spec [len_simps]: "length (rpc_digest_spec ctx msg) = 32"
  by (simp add: rpc_digest_spec_def blake3_spec_def spec_root_bytes_def)

lemma finalize_digest_spec:
  assumes "hasher_inv (derived_key (takeWhile (\<lambda>b. b \<noteq> 0) ctx)) DERIVE_KEY_MATERIAL s h"
  shows "blake3_hasher_finalize p h RPC_DIGEST_LEN = rpc_digest_spec ctx s"
  using finalize_seek_inv [OF assms, of 32 p 0]
  by (simp add: blake3_hasher_finalize_def rpc_digest_spec_def RPC_DIGEST_LEN_def BLAKE3_OUT_LEN_def)

lemma length_contexts: "length RPC_CHUNK_CONTEXT = 33" "length RPC_ROOT_CONTEXT = 32"
  by (simp_all add: RPC_CHUNK_CONTEXT_def RPC_ROOT_CONTEXT_def)

section \<open>The digest of a fragment\<close>

definition chunk_message :: "bytes \<Rightarrow> u32 \<Rightarrow> u32 \<Rightarrow> bytes \<Rightarrow> bytes" where
  "chunk_message pid index total_chunks payload =
    rpc_chunk_header pid index total_chunks (of_nat (length payload)) @ payload"

lemma length_chunk_header [len_simps]:
  "16 \<le> length pid \<Longrightarrow> length (rpc_chunk_header pid i t n) = 36"
  by (simp add: rpc_chunk_header_def len_simps RPC_PACKET_ID_LEN_def)

lemma chunk_message_inject:
  assumes "length pid = 16" "length pid' = 16"
    and "chunk_message pid i t pl = chunk_message pid' i' t' pl'"
  shows "pid = pid' \<and> i = i' \<and> t = t' \<and> pl = pl'"
proof -
  have e: "rpc_chunk_header pid i t (of_nat (length pl)) = rpc_chunk_header pid' i' t' (of_nat (length pl')) \<and>
    pl = pl'"
    by (rule append_eq_append_conv [THEN iffD1, OF disjI1])
      (simp add: assms len_simps, rule assms(3) [unfolded chunk_message_def])
  then show ?thesis
    using assms(1,2)
    by (simp add: rpc_chunk_header_def append_eq_append_conv len_simps RPC_PACKET_ID_LEN_def buf_read_def)
qed

lemma chunk_digest_eq:
  assumes "length (h_cv_stack h) = CV_STACK_BYTES" "length (h_cv_stack h0) = CV_STACK_BYTES"
    "16 \<le> length pid" "length payload < 2 ^ 63" "rpc_valid_total t" "i < t" "length out = 32"
  shows "rpc_chunk_digest p h h0 (Some pid) i t (Some payload) (length payload) (Some out) =
    (RPC_OK, Some (rpc_digest_spec RPC_CHUNK_CONTEXT (chunk_message pid i t payload)))"
proof -
  let ?hd = "rpc_chunk_header pid i t (of_nat (length payload))"
  let ?inv = "hasher_inv (derived_key (takeWhile (\<lambda>b. b \<noteq> 0) RPC_CHUNK_CONTEXT)) DERIVE_KEY_MATERIAL"
  have "?inv [] (blake3_hasher_init_derive_key p h h0 RPC_CHUNK_CONTEXT)"
    by (rule init_derive_key_inv) (use assms in \<open>simp_all add: length_contexts\<close>)
  from blake3.updates_absorb [OF this, of "[?hd, payload]" p]
  have "?inv (?hd @ payload) (blake3_hasher_update p (blake3_hasher_update p
      (blake3_hasher_init_derive_key p h h0 RPC_CHUNK_CONTEXT) ?hd) payload)"
    using assms by (simp add: len_simps)
  note fin = finalize_digest_spec [OF this, of p]
  have skip: "blake3_hasher_update p x [] = x" for x by (simp add: blake3_hasher_update_def)
  show ?thesis
  proof (cases "payload = []")
    case True
    then show ?thesis using assms fin
      by (simp add: rpc_chunk_digest_def chunk_message_def buf_write_0 len_simps Let_def skip)
  next
    case False
    then show ?thesis using assms fin
      by (simp add: rpc_chunk_digest_def chunk_message_def buf_write_0 buf_read_def len_simps Let_def)
  qed
qed

section \<open>The root of the fragment table\<close>

definition table_row :: "u64 list \<Rightarrow> bytes \<Rightarrow> nat \<Rightarrow> bytes" where
  "table_row lens digests i = rpc_record_header (of_nat i) (lens ! i) @ buf_read digests (i * 32) 32"

definition manifest_message :: "bytes \<Rightarrow> u32 \<Rightarrow> u64 list \<Rightarrow> bytes \<Rightarrow> bytes" where
  "manifest_message pid t lens digests =
    rpc_root_header pid t @ concat (map (table_row lens digests) [0..<unat t])"

lemma length_root_header [len_simps]: "16 \<le> length pid \<Longrightarrow> length (rpc_root_header pid t) = 24"
  by (simp add: rpc_root_header_def len_simps RPC_PACKET_ID_LEN_def)

lemma length_record_header [len_simps]: "length (rpc_record_header i n) = 12"
  by (simp add: rpc_record_header_def len_simps)

lemma root_loop_inv:
  assumes "hasher_inv key flags s h" "i \<le> n"
    "length (s @ concat (map (table_row lens digests) [i..<n])) < 2 ^ 64"
  shows "hasher_inv key flags (s @ concat (map (table_row lens digests) [i..<n]))
    (rpc_root_loop p h lens digests i n)"
  using assms
proof (induction p h lens digests i n arbitrary: s rule: rpc_root_loop.induct)
  case (1 p h lens digests i n)
  show ?case
  proof (cases "i < n")
    case True
    let ?a = "rpc_record_header (of_nat i) (lens ! i)"
    let ?b = "buf_read digests (i * RPC_DIGEST_LEN) RPC_DIGEST_LEN"
    have row: "table_row lens digests i = ?a @ ?b"
      by (simp add: table_row_def RPC_DIGEST_LEN_def BLAKE3_OUT_LEN_def)
    have e: "concat (map (table_row lens digests) [i..<n]) =
        ?a @ ?b @ concat (map (table_row lens digests) [i + 1..<n])"
      using True by (simp add: upt_conv_Cons row)
    have "hasher_inv key flags (s @ concat [?a, ?b]) (foldl (blake3_hasher_update p) h [?a, ?b])"
      by (rule blake3.updates_absorb [OF 1(2)]) (use 1(4) in \<open>simp add: e\<close>)
    then have "hasher_inv key flags ((s @ ?a @ ?b) @ concat (map (table_row lens digests) [i + 1..<n]))
        (rpc_root_loop p (blake3_hasher_update p (blake3_hasher_update p h ?a) ?b) lens digests (i + 1) n)"
      by (intro 1(1) [OF True]) (use True 1(4) in \<open>simp_all add: e\<close>)
    then show ?thesis using True by (subst rpc_root_loop.simps) (simp add: e Let_def)
  next
    case False with 1 show ?thesis by (subst rpc_root_loop.simps) simp
  qed
qed

lemma length_table_le: "length (concat (map (table_row lens digests) [0..<n])) \<le> 44 * n"
  by (induction n) (auto simp: table_row_def len_simps buf_read_def)

lemma valid_total_bounds: "rpc_valid_total t \<Longrightarrow> 0 < unat t \<and> unat t \<le> 4096"
  by (auto simp: rpc_valid_total_def RPC_MAX_CHUNKS_def word_le_nat_alt unat_gt_0)

lemma manifest_root_eq:
  assumes "length (h_cv_stack h) = CV_STACK_BYTES" "length (h_cv_stack h0) = CV_STACK_BYTES"
    "16 \<le> length pid" "rpc_valid_total t" "length out = 32"
  shows "rpc_manifest_root p h h0 (Some pid) t (Some lens) (Some digests) (Some out) =
    (RPC_OK, Some (rpc_digest_spec RPC_ROOT_CONTEXT (manifest_message pid t lens digests)))"
proof -
  let ?inv = "hasher_inv (derived_key (takeWhile (\<lambda>b. b \<noteq> 0) RPC_ROOT_CONTEXT)) DERIVE_KEY_MATERIAL"
  have len: "length (manifest_message pid t lens digests) < 2 ^ 64"
    using valid_total_bounds [OF assms(4)] length_table_le [of lens digests "unat t"] assms(3)
    by (simp add: manifest_message_def len_simps)
  have "?inv [] (blake3_hasher_init_derive_key p h h0 RPC_ROOT_CONTEXT)"
    by (rule init_derive_key_inv) (use assms in \<open>simp_all add: length_contexts\<close>)
  from hasher_update_inv [OF this, of "rpc_root_header pid t" p]
  have "?inv (rpc_root_header pid t) (blake3_hasher_update p
      (blake3_hasher_init_derive_key p h h0 RPC_ROOT_CONTEXT) (rpc_root_header pid t))"
    using assms by (simp add: len_simps)
  from root_loop_inv [OF this, of 0 "unat t" lens digests p]
  have "?inv (manifest_message pid t lens digests) (rpc_root_loop p (blake3_hasher_update p
      (blake3_hasher_init_derive_key p h h0 RPC_ROOT_CONTEXT) (rpc_root_header pid t)) lens digests 0 (unat t))"
    using len by (simp add: manifest_message_def)
  from finalize_digest_spec [OF this, of p] show ?thesis
    using assms by (simp add: rpc_manifest_root_def buf_write_0 len_simps Let_def)
qed

section \<open>The encodings determine their arguments\<close>

lemma concat_rows_inject:
  assumes "concat (map f [0..<n]) = concat (map f' [0..<n])"
    and "\<And>i. i < n \<Longrightarrow> length (f i) = k \<and> length (f' i) = k"
  shows "\<forall>i<n. f i = f' i"
  using assms
proof (induction n)
  case (Suc n)
  have "length (concat (map f [0..<n])) = k * n" "length (concat (map f' [0..<n])) = k * n"
    using Suc.prems(2) length_concat_const [of "[0..<n]" f k] length_concat_const [of "[0..<n]" f' k] by auto
  then have "concat (map f [0..<n]) = concat (map f' [0..<n])" "f n = f' n"
    using Suc.prems(1) by auto
  moreover have "\<forall>i<n. f i = f' i"
    using Suc.prems(2) by (intro Suc.IH calculation(1)) simp
  ultimately show ?case by (simp add: less_Suc_eq)
qed simp

lemma bytes_rows_eqI:
  assumes "length xs = 32 * n" "length ys = 32 * n" "\<forall>i<n. buf_read xs (i * 32) 32 = buf_read ys (i * 32) 32"
  shows "xs = ys"
proof (rule nth_equalityI)
  fix k assume "k < length xs"
  then have k: "k div 32 < n" using assms(1) by (simp add: less_mult_imp_div_less mult.commute)
  then have "buf_read xs (k div 32 * 32) 32 ! (k mod 32) = buf_read ys (k div 32 * 32) 32 ! (k mod 32)"
    using assms(3) by simp
  moreover have "k div 32 * 32 \<le> length xs" "k div 32 * 32 \<le> length ys" using k assms(1,2) by linarith+
  ultimately show "xs ! k = ys ! k"
    by (simp add: buf_read_def)
qed (simp add: assms)

lemma manifest_message_inject:
  assumes "length pid = 16" "length pid' = 16"
    and "length lens = unat t" "length lens' = unat t'"
    and "length digests = 32 * unat t" "length digests' = 32 * unat t'"
    and "manifest_message pid t lens digests = manifest_message pid' t' lens' digests'"
  shows "pid = pid' \<and> t = t' \<and> lens = lens' \<and> digests = digests'"
proof -
  have e: "rpc_root_header pid t = rpc_root_header pid' t' \<and>
      concat (map (table_row lens digests) [0..<unat t]) = concat (map (table_row lens' digests') [0..<unat t'])"
    by (rule append_eq_append_conv [THEN iffD1, OF disjI1])
      (simp add: assms len_simps, rule assms(7) [unfolded manifest_message_def])
  then have pt: "pid = pid'" "t = t'"
    using assms(1,2) by (simp_all add: rpc_root_header_def append_eq_append_conv len_simps RPC_PACKET_ID_LEN_def buf_read_def)
  have len: "length (table_row lens digests i) = 44 \<and> length (table_row lens' digests' i) = 44" if "i < unat t" for i
    using that assms(5,6) pt by (simp add: table_row_def len_simps)
  have rows: "\<forall>i<unat t. table_row lens digests i = table_row lens' digests' i"
    by (rule concat_rows_inject [where k = 44]) (use e pt len in auto)
  have r: "lens ! i = lens' ! i \<and> buf_read digests (i * 32) 32 = buf_read digests' (i * 32) 32" if "i < unat t" for i
  proof -
    have "table_row lens digests i = table_row lens' digests' i" using rows that by simp
    then show ?thesis by (simp add: table_row_def rpc_record_header_def append_eq_append_conv len_simps)
  qed
  have "lens = lens'" using r assms(3,4) pt by (intro nth_equalityI) simp_all
  moreover have "digests = digests'" using r assms(5,6) pt by (intro bytes_rows_eqI [of _ "unat t"]) simp_all
  ultimately show ?thesis using pt by simp
qed

section \<open>What the digests guarantee\<close>

text \<open>
  The digest of a fragment is the derive-key hash, under the fragment context, of the header
  (identity, index, total count, payload length) followed by the payload; it is written over the
  32 bytes of the result, whatever they held.
\<close>

theorem custody_chunk_digest:
  assumes "length (h_cv_stack h) = CV_STACK_BYTES" "length (h_cv_stack h0) = CV_STACK_BYTES"
    "16 \<le> length pid" "length payload < 2 ^ 63" "rpc_valid_total t" "i < t" "length out = 32"
  shows "rpc_chunk_digest p h h0 (Some pid) i t (Some payload) (length payload) (Some out) =
    (RPC_OK, Some (blake3_spec (derived_key (map of_char ''RAFAELIA_PACKET_CUSTODY_CHUNK_V1'')) DERIVE_KEY_MATERIAL
       (rpc_chunk_header pid i t (of_nat (length payload)) @ payload) 0 32))"
proof -
  have "takeWhile (\<lambda>b. b \<noteq> 0) RPC_CHUNK_CONTEXT = map of_char ''RAFAELIA_PACKET_CUSTODY_CHUNK_V1''"
    by (simp add: RPC_CHUNK_CONTEXT_def)
  then show ?thesis
    using chunk_digest_eq [OF assms, of p] by (simp only: rpc_digest_spec_def chunk_message_def)
qed

theorem custody_chunk_digest_witness:
  "rpc_chunk_digest demo_platform demo_hasher demo_hasher (Some (replicate 16 1)) 2 3 (Some [4, 5]) (length [4, 5 :: u8])
      (Some (replicate 32 0)) =
    (RPC_OK, Some (blake3_spec (derived_key (map of_char ''RAFAELIA_PACKET_CUSTODY_CHUNK_V1'')) DERIVE_KEY_MATERIAL
       (rpc_chunk_header (replicate 16 1) 2 3 (of_nat (length [4, 5 :: u8])) @ [4, 5]) 0 32))"
  by (rule custody_chunk_digest) (simp_all add: rpc_valid_total_def RPC_MAX_CHUNKS_def)

text \<open>
  The root of a manifest is the derive-key hash, under the root context, of the header and of
  one row per fragment, in order: its index, its length and its digest.
\<close>

theorem custody_manifest_root:
  assumes "length (h_cv_stack h) = CV_STACK_BYTES" "length (h_cv_stack h0) = CV_STACK_BYTES"
    "16 \<le> length pid" "rpc_valid_total t" "length out = 32"
  shows "rpc_manifest_root p h h0 (Some pid) t (Some lens) (Some digests) (Some out) =
    (RPC_OK, Some (blake3_spec (derived_key (map of_char ''RAFAELIA_PACKET_CUSTODY_ROOT_V1'')) DERIVE_KEY_MATERIAL
       (rpc_root_header pid t @
        concat (map (\<lambda>i. rpc_record_header (of_nat i) (lens ! i) @ buf_read digests (i * 32) 32) [0..<unat t]))
       0 32))"
proof -
  have "takeWhile (\<lambda>b. b \<noteq> 0) RPC_ROOT_CONTEXT = map of_char ''RAFAELIA_PACKET_CUSTODY_ROOT_V1''"
    by (simp add: RPC_ROOT_CONTEXT_def)
  then show ?thesis
    using manifest_root_eq [OF assms, of p lens digests]
    by (simp only: rpc_digest_spec_def manifest_message_def table_row_def [abs_def])
qed

theorem custody_manifest_root_witness:
  "rpc_manifest_root demo_platform demo_hasher demo_hasher (Some (replicate 16 1)) 2 (Some [7, 8])
      (Some (replicate 64 9)) (Some (replicate 32 0)) =
    (RPC_OK, Some (blake3_spec (derived_key (map of_char ''RAFAELIA_PACKET_CUSTODY_ROOT_V1'')) DERIVE_KEY_MATERIAL
       (rpc_root_header (replicate 16 1) 2 @
        concat (map (\<lambda>i. rpc_record_header (of_nat i) ([7, 8] ! i) @ buf_read (replicate 64 9) (i * 32) 32)
          [0..<unat (2 :: u32)]))
       0 32))"
  by (rule custody_manifest_root) (simp_all add: rpc_valid_total_def RPC_MAX_CHUNKS_def)

text \<open>
  What a fragment digest hashes determines identity, index, count, length and payload, and
  what a manifest root hashes determines the identity, the count and the whole ordered table;
  so a reordered, truncated or substituted fragment never has the same hash input.
\<close>

theorem custody_messages_bind:
  assumes "length pid = 16" "length pid' = 16"
    and "length lens = unat t" "length lens' = unat t'"
    and "length digests = 32 * unat t" "length digests' = 32 * unat t'"
  shows "(rpc_chunk_header pid i t (of_nat (length payload)) @ payload =
      rpc_chunk_header pid' i' t' (of_nat (length payload')) @ payload' \<longrightarrow>
      pid = pid' \<and> i = i' \<and> t = t' \<and> payload = payload') \<and>
    (manifest_message pid t lens digests = manifest_message pid' t' lens' digests' \<longrightarrow>
      pid = pid' \<and> t = t' \<and> lens = lens' \<and> digests = digests')"
  using chunk_message_inject [OF assms(1,2), of i t payload i' t' payload'] manifest_message_inject [OF assms]
  unfolding chunk_message_def by blast

theorem custody_messages_bind_witness:
  "rpc_chunk_header (replicate 16 1) 0 1 (of_nat (length [3 :: u8])) @ [3] \<noteq>
      rpc_chunk_header (replicate 16 1) 0 1 (of_nat (length [4 :: u8])) @ [4] \<and>
    manifest_message (replicate 16 1) 1 [5] (replicate 32 6) \<noteq> manifest_message (replicate 16 1) 1 [5] (replicate 32 7)"
  using custody_messages_bind [of "replicate 16 1" "replicate 16 1" "[5]" 1 "[5]" 1 "replicate 32 6" "replicate 32 7"
      0 "[3]" 0 "[4]"] by simp

end
