(* ===== verification/Custody_Stream.thy ===== *)
theory Custody_Stream
  imports Custody_Correct
begin

text \<open>
  The receiver of the packet custody layer over the digests of \<open>Custody_Correct\<close>: the bitmap
  operations, the state invariant, the runs of a receiver as an inductive relation that keeps
  the history of its calls, and what the counters, the search for a missing fragment and the
  completeness test say about that history.
\<close>

section \<open>Bitmaps\<close>

text \<open>The interface the receiver needs: setting a bit sets that bit and no other one.\<close>

locale bitmap =
  fixes is_set :: "'b \<Rightarrow> nat \<Rightarrow> bool"
    and set_at :: "'b \<Rightarrow> nat \<Rightarrow> 'b"
    and wf :: "'b \<Rightarrow> bool"
    and size :: nat
  assumes is_set_set_at: "wf b \<Longrightarrow> i < size \<Longrightarrow> j < size \<Longrightarrow> is_set (set_at b i) j \<longleftrightarrow> j = i \<or> is_set b j"
    and wf_set_at: "wf b \<Longrightarrow> i < size \<Longrightarrow> wf (set_at b i)"
begin

lemma members_set_at:
  "wf b \<Longrightarrow> i < n \<Longrightarrow> n \<le> size \<Longrightarrow>
   {j. j < n \<and> is_set (set_at b i) j} = insert i {j. j < n \<and> is_set b j}"
  using is_set_set_at [of b i] by auto

lemma card_set_at:
  "wf b \<Longrightarrow> i < n \<Longrightarrow> n \<le> size \<Longrightarrow> \<not> is_set b i \<Longrightarrow>
   card {j. j < n \<and> is_set (set_at b i) j} = Suc (card {j. j < n \<and> is_set b j})"
  by (simp add: members_set_at)

lemma card_full: "card {j. j < n \<and> is_set b j} = n \<longleftrightarrow> (\<forall>j<n. is_set b j)"
proof
  assume "card {j. j < n \<and> is_set b j} = n"
  then have "{j. j < n \<and> is_set b j} = {..<n}" by (intro card_subset_eq) auto
  then show "\<forall>j<n. is_set b j" by auto
next
  assume "\<forall>j<n. is_set b j"
  then have "{j. j < n \<and> is_set b j} = {..<n}" by auto
  then show "card {j. j < n \<and> is_set b j} = n" by simp
qed

lemma card_le: "card {j. j < n \<and> is_set b j} \<le> n"
  using card_mono [of "{..<n}" "{j. j < n \<and> is_set b j}"] by auto

end

lemma index_split:
  assumes "i < 4096"
  shows "unat (drop_bit 3 (of_nat i :: u32)) = i div 8" "unat ((of_nat i :: u32) AND 7) = i mod 8"
proof -
  have u: "unat (of_nat i :: u32) = i" using assms by (intro unat_of_nat_small) simp
  then show "unat (drop_bit 3 (of_nat i :: u32)) = i div 8"
    by (simp add: drop_bit_eq_div unat_div_distrib)
  have "(7 :: u32) = mask 3" by (simp add: mask_eq_exp_minus_1)
  then have "(of_nat i :: u32) AND 7 = take_bit 3 (of_nat i)" by (simp add: take_bit_eq_mask)
  then show "unat ((of_nat i :: u32) AND 7) = i mod 8"
    using u by (simp add: take_bit_eq_mod unat_mod_distrib)
qed

lemma rpc_bit_is_set_nth:
  "i < 4096 \<Longrightarrow> rpc_bit_is_set st (of_nat i) \<longleftrightarrow> bit (rs_received_bitmap st ! (i div 8)) (i mod 8)"
  by (simp add: rpc_bit_is_set_def index_split bit_iff_and_push_bit_not_eq_0)

lemma rpc_bit_set_nth:
  "i < 4096 \<Longrightarrow> rs_received_bitmap (rpc_bit_set st (of_nat i)) =
    (rs_received_bitmap st)[i div 8 := (rs_received_bitmap st ! (i div 8)) OR push_bit (i mod 8) 1]"
  by (simp add: rpc_bit_set_def index_split Let_def)

lemma RPC_BITMAP_LEN_eq: "RPC_BITMAP_LEN = 512"
  by (simp add: RPC_BITMAP_LEN_def RPC_MAX_CHUNKS_def)

interpretation rpc_bits: bitmap "\<lambda>st i. rpc_bit_is_set st (of_nat i)" "\<lambda>st i. rpc_bit_set st (of_nat i)"
  "\<lambda>st. length (rs_received_bitmap st) = RPC_BITMAP_LEN" 4096
proof
  fix st :: rpc_stream_state and i j :: nat
  assume len: "length (rs_received_bitmap st) = RPC_BITMAP_LEN" and i: "i < 4096" and j: "j < 4096"
  have l: "j div 8 < length (rs_received_bitmap st)" using j by (simp add: len RPC_BITMAP_LEN_eq)
  show "rpc_bit_is_set (rpc_bit_set st (of_nat i)) (of_nat j) \<longleftrightarrow> j = i \<or> rpc_bit_is_set st (of_nat j)"
  proof (cases "j div 8 = i div 8")
    case True
    have "j = i \<longleftrightarrow> j mod 8 = i mod 8" using True by (metis div_mult_mod_eq)
    moreover have "j mod 8 < 8" by simp
    ultimately show ?thesis
      using i j l True by (auto simp: rpc_bit_is_set_nth rpc_bit_set_nth bit_simps)
  next
    case False
    then show ?thesis using i j by (auto simp: rpc_bit_is_set_nth rpc_bit_set_nth nth_list_update)
  qed
next
  fix st :: rpc_stream_state and i :: nat
  assume "length (rs_received_bitmap st) = RPC_BITMAP_LEN"
  then show "length (rs_received_bitmap (rpc_bit_set st (of_nat i))) = RPC_BITMAP_LEN"
    by (simp add: rpc_bit_set_def Let_def)
qed

lemma u32_index: "(i :: u32) < t \<Longrightarrow> rpc_valid_total t \<Longrightarrow> unat i < unat t \<and> unat i < 4096 \<and> of_nat (unat i) = i"
  using valid_total_bounds [of t] by (auto simp: word_less_nat_alt)

section \<open>Comparing digests\<close>

lemma rpc_digest_equal_eq:
  assumes "length l = 32" "length r = 32"
  shows "rpc_digest_equal (Some l) (Some r) \<longleftrightarrow> l = r"
  using assms by (auto simp: rpc_digest_equal_def rpc_diff_loop_eq RPC_DIGEST_LEN_def BLAKE3_OUT_LEN_def
      list_eq_iff_nth_eq)

section \<open>One call of the receiver\<close>

definition rpc_received :: "rpc_stream_state \<Rightarrow> nat set" where
  "rpc_received st = {j. j < unat (rs_total_chunks st) \<and> rpc_bit_is_set st (of_nat j)}"

definition rpc_inv :: "bytes \<Rightarrow> u32 \<Rightarrow> rpc_stream_state \<Rightarrow> bool" where
  "rpc_inv pid t st \<longleftrightarrow>
    rs_packet_id st = pid \<and> length pid = 16 \<and> rs_total_chunks st = t \<and> rpc_valid_total t \<and>
    length (rs_received_bitmap st) = RPC_BITMAP_LEN \<and>
    unat (rs_received_chunks st) = card (rpc_received st)"

definition rpc_accept :: "rpc_stream_state \<Rightarrow> u32 \<Rightarrow> nat \<Rightarrow> rpc_stream_state" where
  "rpc_accept st i n =
    (rpc_bit_set st i)\<lparr>rs_received_chunks := rs_received_chunks st + 1,
       rs_verified_bytes := rs_verified_bytes st + of_nat n\<rparr>"

definition fragment_digest :: "bytes \<Rightarrow> u32 \<Rightarrow> u32 \<Rightarrow> bytes \<Rightarrow> bytes" where
  "fragment_digest pid i t payload = rpc_digest_spec RPC_CHUNK_CONTEXT (chunk_message pid i t payload)"

lemma length_fragment_digest [len_simps]: "length (fragment_digest pid i t payload) = 32"
  by (simp add: fragment_digest_def len_simps)

text \<open>The memory of the local variables, and the sizes every call needs.\<close>

definition call_ok :: "blake3_hasher \<Rightarrow> blake3_hasher \<Rightarrow> bytes \<Rightarrow> bytes \<Rightarrow> bytes \<Rightarrow> bool" where
  "call_ok h h0 actual payload digest \<longleftrightarrow>
    length (h_cv_stack h) = CV_STACK_BYTES \<and> length (h_cv_stack h0) = CV_STACK_BYTES \<and>
    length actual = 32 \<and> length payload < 2 ^ 63 \<and> length digest = 32"

lemma rpc_stream_record_eq:
  assumes inv: "rpc_inv pid t st" and ok: "call_ok h h0 actual payload digest"
  shows "rpc_stream_record p h h0 actual (Some st) i (Some payload) (length payload) (Some digest) =
    (if i \<ge> t then (RPC_ERR_RANGE, Some st)
     else if digest \<noteq> fragment_digest pid i t payload then
       (RPC_ERR_DIGEST, Some (st\<lparr>rs_rejected_chunks := rs_rejected_chunks st + 1\<rparr>))
     else if rpc_bit_is_set st i then (RPC_DUPLICATE, Some st)
     else (RPC_OK, Some (rpc_accept st i (length payload))))"
proof (cases "i \<ge> t")
  case True
  then show ?thesis using inv by (simp add: rpc_stream_record_def rpc_inv_def)
next
  case False
  have d: "rpc_chunk_digest p h h0 (Some pid) i t (Some payload) (length payload) (Some actual) =
      (RPC_OK, Some (fragment_digest pid i t payload))"
    unfolding fragment_digest_def
    by (rule chunk_digest_eq) (use inv ok False in \<open>auto simp: rpc_inv_def call_ok_def\<close>)
  have e: "rpc_digest_equal (Some (fragment_digest pid i t payload)) (Some digest) \<longleftrightarrow>
      digest = fragment_digest pid i t payload"
    using ok by (subst rpc_digest_equal_eq) (auto simp: len_simps call_ok_def)
  have s: "rs_packet_id st = pid" "rs_total_chunks st = t" "rpc_valid_total t" using inv by (auto simp: rpc_inv_def)
  show ?thesis
    using False unfolding rpc_stream_record_def
    by (simp add: s d e Let_def rpc_accept_def rpc_bit_set_def)
qed

lemma rpc_accept_fields [simp]:
  "rs_packet_id (rpc_accept st i n) = rs_packet_id st"
  "rs_total_chunks (rpc_accept st i n) = rs_total_chunks st"
  "rs_received_chunks (rpc_accept st i n) = rs_received_chunks st + 1"
  "rs_rejected_chunks (rpc_accept st i n) = rs_rejected_chunks st"
  "rs_verified_bytes (rpc_accept st i n) = rs_verified_bytes st + of_nat n"
  "rs_received_bitmap (rpc_accept st i n) = rs_received_bitmap (rpc_bit_set st i)"
  by (simp_all add: rpc_accept_def rpc_bit_set_def Let_def)

lemma rpc_bit_is_set_cong:
  "rs_received_bitmap st = rs_received_bitmap st' \<Longrightarrow> rpc_bit_is_set st j = rpc_bit_is_set st' j"
  by (simp add: rpc_bit_is_set_def)

lemma rpc_received_accept:
  assumes "rpc_inv pid t st" "i < t"
  shows "rpc_received (rpc_accept st i n) = insert (unat i) (rpc_received st)"
proof -
  have t: "unat t \<le> 4096" "rs_total_chunks st = t" and len: "length (rs_received_bitmap st) = RPC_BITMAP_LEN"
    using assms(1) valid_total_bounds [of t] by (auto simp: rpc_inv_def)
  have i: "unat i < unat t" "of_nat (unat i) = i"
    using u32_index [OF assms(2)] assms(1) by (auto simp: rpc_inv_def)
  show ?thesis
    using rpc_bits.members_set_at [OF len i(1) t(1)]
    by (simp add: rpc_received_def t i rpc_bit_is_set_cong [of "rpc_accept st i n" "rpc_bit_set st i"])
qed

lemma rpc_inv_accept:
  assumes "rpc_inv pid t st" "i < t" "\<not> rpc_bit_is_set st i"
  shows "rpc_inv pid t (rpc_accept st i n)"
proof -
  have t: "unat t \<le> 4096" "rs_total_chunks st = t" and len: "length (rs_received_bitmap st) = RPC_BITMAP_LEN"
    using assms(1) valid_total_bounds [of t] by (auto simp: rpc_inv_def)
  have i: "unat i < unat t" "of_nat (unat i) = i"
    using u32_index [OF assms(2)] assms(1) by (auto simp: rpc_inv_def)
  have fresh: "unat i \<notin> rpc_received st" using assms(3) by (simp add: rpc_received_def i)
  have c: "unat (rs_received_chunks st) = card (rpc_received st)" using assms(1) by (simp add: rpc_inv_def)
  moreover have "card (rpc_received st) \<le> unat t" using rpc_bits.card_le by (simp add: rpc_received_def t)
  ultimately have "unat (rs_received_chunks st + 1) = Suc (unat (rs_received_chunks st))"
    using t(1) by (simp add: unat_word_ariths)
  moreover have "finite (rpc_received st)" by (simp add: rpc_received_def)
  ultimately have "unat (rs_received_chunks st + 1) = card (rpc_received (rpc_accept st i n))"
    using fresh by (simp add: rpc_received_accept [OF assms(1,2)] c)
  moreover have "length (rs_received_bitmap (rpc_bit_set st i)) = RPC_BITMAP_LEN"
    using rpc_bits.wf_set_at [OF len, of "unat i"] i t by simp
  ultimately show ?thesis using assms(1) by (simp add: rpc_inv_def)
qed

lemma rpc_stream_init_eq:
  assumes "16 \<le> length pid" "rpc_valid_total t"
  shows "rpc_stream_init (Some st0) (Some pid) t =
    (RPC_OK, Some \<lparr>rs_packet_id = take 16 pid, rs_total_chunks = t, rs_received_chunks = 0, rs_rejected_chunks = 0,
       rs_verified_bytes = 0, rs_received_bitmap = replicate 512 0\<rparr>)"
  using assms
  by (simp add: rpc_stream_init_def Let_def rpc_copy_eq rpc_zero_def RPC_PACKET_ID_LEN_def RPC_BITMAP_LEN_eq)

lemma no_bits: "i < 4096 \<Longrightarrow> rs_received_bitmap st = replicate 512 0 \<Longrightarrow> \<not> rpc_bit_is_set st (of_nat i)"
  by (simp add: rpc_bit_is_set_nth)

section \<open>Runs of a receiver\<close>

text \<open>
  A run starts with a successful \<open>rpc_stream_init\<close> and continues with calls of
  \<open>rpc_stream_record\<close> with any arguments, in any order; the history holds the index, the
  payload, the expected digest and the status of every call.
\<close>

type_synonym rpc_call = "u32 \<times> bytes \<times> bytes \<times> rpc_status"

inductive rpc_run :: "platform \<Rightarrow> bytes \<Rightarrow> u32 \<Rightarrow> rpc_call list \<Rightarrow> rpc_stream_state \<Rightarrow> bool" for p pid t where
  start: "length pid = 16 \<Longrightarrow> rpc_stream_init (Some st0) (Some pid) t = (RPC_OK, Some st) \<Longrightarrow>
    rpc_run p pid t [] st"
| call: "rpc_run p pid t calls st \<Longrightarrow> call_ok h h0 actual payload digest \<Longrightarrow>
    rpc_stream_record p h h0 actual (Some st) i (Some payload) (length payload) (Some digest) = (status, Some st') \<Longrightarrow>
    rpc_run p pid t (calls @ [(i, payload, digest, status)]) st'"

inductive_cases rpc_run_startE: "rpc_run p pid t [] st"
inductive_cases rpc_run_recordE: "rpc_run p pid t (calls @ [c]) st"

definition accepted :: "rpc_call list \<Rightarrow> rpc_call list" where
  "accepted calls = filter (\<lambda>(i, payload, digest, status). status = RPC_OK) calls"

definition rejected :: "rpc_call list \<Rightarrow> rpc_call list" where
  "rejected calls = filter (\<lambda>(i, payload, digest, status). status = RPC_ERR_DIGEST) calls"

definition payload_bytes :: "rpc_call list \<Rightarrow> nat" where
  "payload_bytes calls = sum_list (map (\<lambda>(i, payload, digest, status). length payload) calls)"

lemma accepted_simps [simp]:
  "accepted [] = []" "rejected [] = []" "payload_bytes [] = 0"
  "accepted (calls @ [(i, payload, digest, status)]) =
    accepted calls @ (if status = RPC_OK then [(i, payload, digest, status)] else [])"
  "rejected (calls @ [(i, payload, digest, status)]) =
    rejected calls @ (if status = RPC_ERR_DIGEST then [(i, payload, digest, status)] else [])"
  "payload_bytes (calls @ [(i, payload, digest, status)]) = payload_bytes calls + length payload"
  by (simp_all add: accepted_def rejected_def payload_bytes_def)

lemma run_inv:
  "rpc_run p pid t calls st \<Longrightarrow>
   rpc_inv pid t st \<and> rpc_received st = (\<lambda>c. unat (fst c)) ` set (accepted calls) \<and>
   length (accepted calls) = card (rpc_received st) \<and>
   rs_rejected_chunks st = of_nat (length (rejected calls)) \<and>
   rs_verified_bytes st = of_nat (payload_bytes (accepted calls)) \<and>
   (\<forall>(i, payload, digest, status) \<in> set (accepted calls).
      i < t \<and> digest = fragment_digest pid i t payload)"
proof (induction rule: rpc_run.induct)
  case (start st0 st)
  then have v: "rpc_valid_total t" by (auto simp: rpc_stream_init_def split: if_splits)
  then have st: "st = \<lparr>rs_packet_id = pid, rs_total_chunks = t, rs_received_chunks = 0, rs_rejected_chunks = 0,
       rs_verified_bytes = 0, rs_received_bitmap = replicate 512 0\<rparr>"
    using start rpc_stream_init_eq [of pid t st0] by simp
  have "rpc_received st = {}"
    using valid_total_bounds [OF v] no_bits [of _ st] by (auto simp: rpc_received_def st)
  then show ?case using start(1) v by (auto simp: rpc_inv_def st RPC_BITMAP_LEN_eq)
next
  case (call calls st h h0 actual payload digest i status st')
  let ?d = "fragment_digest pid i t payload"
  have inv: "rpc_inv pid t st" using call.IH by blast
  note r = call.hyps(3) [unfolded rpc_stream_record_eq [OF inv call.hyps(2)]]
  consider (range) "t \<le> i" | (digest) "\<not> t \<le> i" "digest \<noteq> ?d" | (dup) "\<not> t \<le> i" "digest = ?d" "rpc_bit_is_set st i"
    | (ok) "\<not> t \<le> i" "digest = ?d" "\<not> rpc_bit_is_set st i" by blast
  then show ?case
  proof cases
    case range
    then have "status = RPC_ERR_RANGE" "st' = st" using r by auto
    then show ?thesis using call.IH by simp
  next
    case digest
    then have st: "status = RPC_ERR_DIGEST" "st' = st\<lparr>rs_rejected_chunks := rs_rejected_chunks st + 1\<rparr>"
      using r by auto
    have rc: "rpc_received st' = rpc_received st"
      by (simp add: rpc_received_def st rpc_bit_is_set_def)
    then have "rpc_inv pid t st'" using inv by (simp add: rpc_inv_def st)
    then show ?thesis using call.IH st rc by (simp add: add.commute)
  next
    case dup
    then have "status = RPC_DUPLICATE" "st' = st" using r by auto
    then show ?thesis using call.IH by simp
  next
    case ok
    then have st: "status = RPC_OK" "st' = rpc_accept st i (length payload)" using r by auto
    have lt: "i < t" using ok(1) by simp
    have fresh: "unat i \<notin> rpc_received st"
      using ok u32_index [OF lt] inv by (auto simp: rpc_received_def rpc_inv_def)
    have rc: "rpc_received st' = insert (unat i) (rpc_received st)"
      using rpc_received_accept [OF inv lt] by (simp add: st)
    have "rpc_inv pid t st'" using rpc_inv_accept [OF inv lt ok(3)] by (simp add: st)
    moreover have "finite (rpc_received st)" by (simp add: rpc_received_def)
    ultimately show ?thesis using call.IH st rc fresh ok lt by (auto simp: payload_bytes_def)
  qed
qed

section \<open>Searching for a missing fragment\<close>

lemma rpc_missing_loop_eq:
  "i + n \<le> 4096 \<Longrightarrow>
   (case rpc_missing_loop st (of_nat i) n of
      Some m \<Rightarrow> \<exists>j. m = of_nat j \<and> i \<le> j \<and> j < i + n \<and> \<not> rpc_bit_is_set st m \<and>
        (\<forall>k. i \<le> k \<longrightarrow> k < j \<longrightarrow> rpc_bit_is_set st (of_nat k))
    | None \<Rightarrow> \<forall>k. i \<le> k \<longrightarrow> k < i + n \<longrightarrow> rpc_bit_is_set st (of_nat k))"
proof (induction n arbitrary: i)
  case (Suc n)
  show ?case
  proof (cases "rpc_bit_is_set st (of_nat i)")
    case True
    have eq: "rpc_missing_loop st (of_nat i) (Suc n) = rpc_missing_loop st (of_nat (i + 1)) n"
      using True by (simp add: add.commute)
    have ih: "case rpc_missing_loop st (of_nat (i + 1)) n of
        Some m \<Rightarrow> \<exists>j. m = of_nat j \<and> i + 1 \<le> j \<and> j < i + 1 + n \<and> \<not> rpc_bit_is_set st m \<and>
          (\<forall>k. i + 1 \<le> k \<longrightarrow> k < j \<longrightarrow> rpc_bit_is_set st (of_nat k))
      | None \<Rightarrow> \<forall>k. i + 1 \<le> k \<longrightarrow> k < i + 1 + n \<longrightarrow> rpc_bit_is_set st (of_nat k)"
      by (rule Suc.IH) (use Suc.prems in simp)
    have step: "\<forall>k. i \<le> k \<longrightarrow> k < b \<longrightarrow> rpc_bit_is_set st (of_nat k)"
      if "\<forall>k. i + 1 \<le> k \<longrightarrow> k < b \<longrightarrow> rpc_bit_is_set st (of_nat k)" for b
    proof (intro allI impI)
      fix k assume "i \<le> k" "k < b"
      then show "rpc_bit_is_set st (of_nat k)" using that True by (cases "k = i") simp_all
    qed
    show ?thesis
    proof (cases "rpc_missing_loop st (of_nat (i + 1)) n")
      case None
      with ih have "\<forall>k. i + 1 \<le> k \<longrightarrow> k < i + 1 + n \<longrightarrow> rpc_bit_is_set st (of_nat k)" by simp
      from step [OF this] show ?thesis unfolding eq None by simp
    next
      case (Some m)
      with ih obtain j where "m = of_nat j" "i + 1 \<le> j" "j < i + 1 + n" "\<not> rpc_bit_is_set st m"
        "\<forall>k. i + 1 \<le> k \<longrightarrow> k < j \<longrightarrow> rpc_bit_is_set st (of_nat k)" by auto
      with step [of j] show ?thesis unfolding eq Some option.case by (intro exI [of _ j]) simp
    qed
  next
    case False
    then show ?thesis by (auto intro!: exI [of _ i])
  qed
qed simp

section \<open>What the receiver guarantees\<close>

text \<open>A receiver of two fragments after one genuine and one forged call, for the concrete instances.\<close>

definition demo_pid :: bytes where "demo_pid = replicate 16 1"

definition demo_started :: rpc_stream_state where
  "demo_started = \<lparr>rs_packet_id = demo_pid, rs_total_chunks = 2, rs_received_chunks = 0, rs_rejected_chunks = 0,
     rs_verified_bytes = 0, rs_received_bitmap = replicate 512 0\<rparr>"

lemma demo_start: "rpc_run demo_platform demo_pid 2 [] demo_started"
proof (rule rpc_run.start)
  show "rpc_stream_init (Some demo_started) (Some demo_pid) 2 = (RPC_OK, Some demo_started)"
    using rpc_stream_init_eq [of demo_pid 2 demo_started]
    by (simp add: demo_started_def demo_pid_def rpc_valid_total_def RPC_MAX_CHUNKS_def)
qed (simp add: demo_pid_def)

lemma demo_call_ok: "length digest = 32 \<Longrightarrow> call_ok demo_hasher demo_hasher (replicate 32 0) [4, 5] digest"
  by (simp add: call_ok_def)

lemma demo_run:
  "rpc_run demo_platform demo_pid 2 [(1, [4, 5], fragment_digest demo_pid 1 2 [4, 5], RPC_OK)]
    (rpc_accept demo_started 1 2)"
proof -
  have inv: "rpc_inv demo_pid 2 demo_started" using run_inv [OF demo_start] by blast
  have "\<not> (2 :: u32) \<le> 1" by (simp add: word_le_nat_alt)
  moreover have "\<not> rpc_bit_is_set demo_started 1" using no_bits [of 1 demo_started] by (simp add: demo_started_def)
  ultimately have "rpc_stream_record demo_platform demo_hasher demo_hasher (replicate 32 0) (Some demo_started) 1
      (Some [4, 5]) (length [4, 5 :: u8]) (Some (fragment_digest demo_pid 1 2 [4, 5])) =
    (RPC_OK, Some (rpc_accept demo_started 1 2))"
    using rpc_stream_record_eq [OF inv demo_call_ok, of "fragment_digest demo_pid 1 2 [4, 5]" demo_platform 1]
    by (simp add: len_simps)
  from rpc_run.call [OF demo_start demo_call_ok this] show ?thesis by (simp add: len_simps)
qed

text \<open>
  C7. The result of recording a fragment, by case: an index out of range changes nothing, not even
  the count of rejections; a digest other than the fragment's own counts one rejection and changes
  nothing else; a genuine fragment seen before changes nothing; and a genuine new one sets its
  bit, adds one to the count and its length to the verified bytes.
\<close>

theorem custody_record_outcome:
  assumes "rpc_run p pid t calls st" "call_ok h h0 actual payload digest"
  shows "rpc_stream_record p h h0 actual (Some st) i (Some payload) (length payload) (Some digest) =
    (if i \<ge> t then (RPC_ERR_RANGE, Some st)
     else if digest \<noteq> fragment_digest pid i t payload then
       (RPC_ERR_DIGEST, Some (st\<lparr>rs_rejected_chunks := rs_rejected_chunks st + 1\<rparr>))
     else if rpc_bit_is_set st i then (RPC_DUPLICATE, Some st)
     else (RPC_OK, Some ((rpc_bit_set st i)\<lparr>rs_received_chunks := rs_received_chunks st + 1,
       rs_verified_bytes := rs_verified_bytes st + of_nat (length payload)\<rparr>)))"
proof -
  have "rpc_inv pid t st" using run_inv [OF assms(1)] by blast
  from rpc_stream_record_eq [OF this assms(2)] show ?thesis unfolding rpc_accept_def .
qed

theorem custody_record_outcome_witness:
  "rpc_stream_record demo_platform demo_hasher demo_hasher (replicate 32 0) (Some demo_started) 7 (Some [4, 5])
     (length [4, 5 :: u8]) (Some (replicate 32 3)) = (RPC_ERR_RANGE, Some demo_started)"
  using custody_record_outcome [OF demo_start demo_call_ok, of "replicate 32 3" 7] by simp

text \<open>
  C8. After any sequence of calls the receiver's state is a function of the history: its count is
  the number of accepted calls, which are for distinct indices in range and carry the genuine
  digest, its rejections and verified bytes are the totals over the history, and it reports
  completeness exactly when every index of the packet has been accepted.
\<close>

theorem custody_history:
  assumes "rpc_run p pid t calls st"
  shows "unat (rs_received_chunks st) = length (accepted calls) \<and>
    distinct (map fst (accepted calls)) \<and>
    (\<forall>(i, payload, digest, status) \<in> set (accepted calls). i < t \<and> digest = fragment_digest pid i t payload) \<and>
    rs_rejected_chunks st = of_nat (length (rejected calls)) \<and>
    rs_verified_bytes st = of_nat (payload_bytes (accepted calls)) \<and>
    (rpc_stream_complete (Some st) \<longleftrightarrow> (\<forall>i<t. i \<in> fst ` set (accepted calls)))"
proof -
  note inv = run_inv [OF assms]
  have st: "rs_total_chunks st = t" "rpc_valid_total t" "unat (rs_received_chunks st) = card (rpc_received st)"
    using inv by (auto simp: rpc_inv_def)
  have rc: "rpc_received st = unat ` fst ` set (accepted calls)" using inv by (simp add: image_image)
  have "card (fst ` set (accepted calls)) = card (rpc_received st)"
    unfolding rc by (rule card_image [symmetric]) (auto simp: inj_on_def word_unat_eq_iff)
  then have d: "distinct (map fst (accepted calls))"
    using inv by (intro card_distinct) simp
  have "rpc_stream_complete (Some st) \<longleftrightarrow> card (rpc_received st) = unat t"
    unfolding rpc_stream_complete_def word_unat_eq_iff using st(2,3) by (simp add: st(1))
  also have "\<dots> \<longleftrightarrow> (\<forall>j<unat t. j \<in> rpc_received st)"
    using rpc_bits.card_full [of "unat t" st] by (simp add: rpc_received_def st)
  also have "\<dots> \<longleftrightarrow> (\<forall>i<t. i \<in> fst ` set (accepted calls))"
  proof
    assume "\<forall>j<unat t. j \<in> rpc_received st"
    then show "\<forall>i<t. i \<in> fst ` set (accepted calls)"
      unfolding rc by (metis (no_types, lifting) imageE word_less_nat_alt word_unat_eq_iff)
  next
    assume a: "\<forall>i<t. i \<in> fst ` set (accepted calls)"
    show "\<forall>j<unat t. j \<in> rpc_received st"
    proof (intro allI impI)
      fix j assume j: "j < unat t"
      then have u: "unat (of_nat j :: u32) = j" using valid_total_bounds [OF st(2)] by (intro unat_of_nat_small) simp
      then have "of_nat j < t" using j by (simp add: word_less_nat_alt)
      with a have "(of_nat j :: u32) \<in> fst ` set (accepted calls)" by blast
      then show "j \<in> rpc_received st" unfolding rc using u by (metis imageI)
    qed
  qed
  finally show ?thesis using inv st d by auto
qed

theorem custody_history_witness:
  "unat (rs_received_chunks (rpc_accept demo_started 1 2)) = 1 \<and> \<not> rpc_stream_complete (Some (rpc_accept demo_started 1 2))"
proof -
  have "\<not> (\<forall>i<2 :: u32. i \<in> fst ` set (accepted [(1, [4, 5], fragment_digest demo_pid 1 2 [4, 5], RPC_OK)]))"
    by (auto simp: accepted_def intro!: exI [of _ 0])
  moreover have "length (accepted [(1, [4, 5], fragment_digest demo_pid 1 2 [4, 5], RPC_OK)]) = 1"
    by (simp add: accepted_def)
  ultimately show ?thesis using custody_history [OF demo_run] by simp
qed

text \<open>
  The search for a missing fragment returns the first index from the start on that has not been
  accepted; it reports \<open>RPC_INCOMPLETE\<close>, leaving the result alone, exactly when there is none.
\<close>

theorem custody_next_missing:
  assumes "rpc_run p pid t calls st" "start \<le> t"
  shows "case rpc_stream_next_missing (Some st) start (Some m0) of (status, m) \<Rightarrow>
    (status = RPC_OK \<and> (\<exists>j. m = Some (of_nat j) \<and> unat start \<le> j \<and> j < unat t \<and> j \<notin> rpc_received st \<and>
        (\<forall>k. unat start \<le> k \<longrightarrow> k < j \<longrightarrow> k \<in> rpc_received st))) \<or>
    (status = RPC_INCOMPLETE \<and> m = Some m0 \<and> (\<forall>k. unat start \<le> k \<longrightarrow> k < unat t \<longrightarrow> k \<in> rpc_received st))"
proof -
  have st: "rs_total_chunks st = t" "rpc_valid_total t" using run_inv [OF assms(1)] by (auto simp: rpc_inv_def)
  have le: "unat start \<le> unat t" using assms(2) by (simp add: word_le_nat_alt)
  have "unat start + (unat t - unat start) \<le> 4096" using le valid_total_bounds [OF st(2)] by simp
  from rpc_missing_loop_eq [OF this, of st]
  show ?thesis
    using assms(2) st le
    by (auto simp: rpc_stream_next_missing_def Let_def rpc_received_def split: option.splits)
qed

theorem custody_next_missing_witness: "rpc_stream_next_missing (Some demo_started) 0 (Some 9) = (RPC_OK, Some 0)"
proof -
  obtain status m where r: "rpc_stream_next_missing (Some demo_started) 0 (Some 9) = (status, m)" by force
  have e: "rpc_received demo_started = {}" using run_inv [OF demo_start] by simp
  have "status = RPC_OK \<and> (\<exists>j. m = Some (of_nat j) \<and> (\<forall>k<j. k \<in> rpc_received demo_started))"
    using custody_next_missing [OF demo_start, of 0 9] e by (auto simp: r dest: spec [of _ 0])
  then show ?thesis by (auto simp: r e dest: spec [of _ 0])
qed

end
