(* ===== verification/Zrf1.thy ===== *)
theory Zrf1
  imports Hasher
begin

text \<open>
  The ZRF1 container of \<open>rmr/android/free/src/main/cpp/zipraf_free.c\<close>: a header with the digest of
  the raw bytes, and a payload that is either the raw bytes or their run-length code. A pointer the
  code compares with \<open>NULL\<close> is an option; a result written through a pointer is returned beside the
  status. Lengths are naturals: the code's 32-bit lengths are below \<open>Z_MAX + Z_HDR\<close> or bounded by
  the length of the input, so its sums do not wrap. The JNI wrappers are not modelled.
\<close>

definition Z_MAX :: nat where "Z_MAX = 3 * 1024 * 1024"
definition Z_HDR :: nat where "Z_HDR = 46"

function z_copy_loop :: "bytes \<Rightarrow> bytes \<Rightarrow> nat \<Rightarrow> nat \<Rightarrow> bytes" where
  "z_copy_loop d s i n = (if i < n then z_copy_loop (buf_write d i [s ! i]) s (i + 1) n else d)"
  by pat_completeness auto
termination by (relation "measure (\<lambda>(d, s, i, n). n - i)") auto

declare z_copy_loop.simps [simp del]

text \<open>\<open>z_copy(dst + off, src, n)\<close>\<close>

definition z_copy :: "bytes \<Rightarrow> nat \<Rightarrow> bytes \<Rightarrow> nat \<Rightarrow> bytes" where
  "z_copy dst off src n = take off dst @ z_copy_loop (drop off dst) src 0 n"

definition z_put32 :: "u32 \<Rightarrow> bytes" where
  "z_put32 v = [ucast v, ucast (drop_bit 8 v), ucast (drop_bit 16 v), ucast (drop_bit 24 v)]"

definition z_get32 :: "bytes \<Rightarrow> u32" where
  "z_get32 p = ucast (p ! 0) OR push_bit 8 (ucast (p ! 1)) OR push_bit 16 (ucast (p ! 2)) OR
     push_bit 24 (ucast (p ! 3))"

definition z_hash :: "platform \<Rightarrow> blake3_hasher \<Rightarrow> bytes \<Rightarrow> nat \<Rightarrow> bytes" where
  "z_hash plat h p n =
    (let h = blake3_hasher_init h;
         h = blake3_hasher_update plat h (take n (if n \<noteq> 0 then p else [0]))
     in blake3_hasher_finalize plat h 32)"

section \<open>Run-length code\<close>

text \<open>The loop of \<open>z_run\<close>, from length \<open>m\<close> on.\<close>

function z_run_loop :: "bytes \<Rightarrow> nat \<Rightarrow> nat \<Rightarrow> nat \<Rightarrow> nat" where
  "z_run_loop src n pos m =
    (if m < 130 \<and> pos + m < n \<and> src ! (pos + m) = src ! pos then z_run_loop src n pos (m + 1) else m)"
  by pat_completeness auto
termination by (relation "measure (\<lambda>(src, n, pos, m). 130 - m)") auto

declare z_run_loop.simps [simp del]

definition z_run :: "bytes \<Rightarrow> nat \<Rightarrow> nat \<Rightarrow> nat" where
  "z_run src n pos = z_run_loop src n pos 1"

lemma z_run_loop_ge: "m \<le> z_run_loop src n pos m"
proof (induction src n pos m rule: z_run_loop.induct)
  case (1 src n pos m)
  then show ?case by (subst z_run_loop.simps) (auto intro: le_trans [of _ "m + 1"])
qed

lemma z_run_pos: "0 < z_run src n pos"
  using z_run_loop_ge [of 1 src n pos] by (simp add: z_run_def)

text \<open>The inner loop that extends a literal that starts at \<open>s\<close>.\<close>

function z_literal :: "bytes \<Rightarrow> nat \<Rightarrow> nat \<Rightarrow> nat \<Rightarrow> nat" where
  "z_literal src n s i =
    (if i < n \<and> i - s < 128 then
       let count = z_run src n i
       in if count \<ge> 4 \<or> i - s + count > 128 then i else z_literal src n s (i + count)
     else i)"
  by pat_completeness auto
termination
proof (relation "measure (\<lambda>(src, n, s, i). n - i)", goal_cases)
  case (2 src n s i x)
  then show ?case using z_run_pos [of src n i] by auto
qed simp

declare z_literal.simps [simp del]

lemma z_literal_ge: "i \<le> z_literal src n s i"
proof (induction src n s i rule: z_literal.induct)
  case (1 src n s i)
  then show ?case by (subst z_literal.simps) (auto simp: Let_def intro: le_trans [OF le_add1])
qed

text \<open>
  The traversal, from input position \<open>i\<close> and output position \<open>o\<close>; with \<open>dst = None\<close> it only measures.
\<close>

function z_rle_loop :: "bytes \<Rightarrow> nat \<Rightarrow> nat \<Rightarrow> nat \<Rightarrow> bytes option \<Rightarrow> nat \<times> bytes option" where
  "z_rle_loop src n i out dst =
    (if i < n then
       let count = z_run src n i
       in if count \<ge> 4 then
            let dst = map_option (\<lambda>d. buf_write d out [0x80 OR of_nat (count - 3), src ! i]) dst
            in z_rle_loop src n (i + count) (out + 2) dst
          else
            let s = i;
                i = z_literal src n s (i + count);
                count = i - s;
                dst = map_option (\<lambda>d. buf_write d out (of_nat (count - 1) # buf_read src s count)) dst
            in z_rle_loop src n i (out + count + 1) dst
     else (out, dst))"
  by pat_completeness auto
termination
proof (relation "measure (\<lambda>(src, n, i, out, dst). n - i)", goal_cases)
  case (2 src n i out dst x)
  then show ?case using z_run_pos [of src n i] by auto
next
  case (3 src n i out dst x)
  then show ?case using z_run_pos [of src n i] z_literal_ge [of "i + z_run src n i" src n i] by auto
qed simp

declare z_rle_loop.simps [simp del]

definition z_rle :: "bytes \<Rightarrow> nat \<Rightarrow> bytes option \<Rightarrow> nat \<times> bytes option" where
  "z_rle src n dst = z_rle_loop src n 0 0 dst"

section \<open>The container\<close>

definition rmr_zrf1_digest ::
  "platform \<Rightarrow> blake3_hasher \<Rightarrow> bytes option \<Rightarrow> nat \<Rightarrow> bytes option \<Rightarrow> int \<times> bytes option" where
  "rmr_zrf1_digest plat h src n out =
    (if src = None \<and> n \<noteq> 0 \<or> out = None \<or> n > Z_MAX + Z_HDR then (- 1, out)
     else (0, Some (buf_write (the out) 0 (z_hash plat h (case src of Some p \<Rightarrow> p | None \<Rightarrow> []) n))))"

definition rmr_zrf1_pack ::
  "platform \<Rightarrow> blake3_hasher \<Rightarrow> bytes option \<Rightarrow> nat \<Rightarrow> bytes option \<Rightarrow> nat \<Rightarrow> nat option \<Rightarrow>
   int \<times> bytes option \<times> nat option" where
  "rmr_zrf1_pack plat h src n dst cap written =
    (if src = None \<and> n \<noteq> 0 \<or> dst = None \<or> written = None \<or> n > Z_MAX then (- 1, dst, written)
     else
       let s = (case src of Some p \<Rightarrow> p | None \<Rightarrow> []);
           encoded = fst (z_rle s n None);
           mode = (if encoded < n then 1 else 0 :: u8);
           payload = (if mode \<noteq> 0 then encoded else n)
       in if cap < Z_HDR \<or> payload > cap - Z_HDR then (- 2, dst, written)
          else
            let d = the dst;
                d = buf_write d 0 [of_char (CHR ''Z''), of_char (CHR ''R''), of_char (CHR ''F''), of_char (CHR ''1'')];
                d = buf_write d 4 [1, mode];
                d = buf_write d 6 (z_put32 (of_nat n));
                d = buf_write d 10 (z_put32 (of_nat payload));
                d = buf_write d 14 (z_hash plat h s n);
                d = (if mode \<noteq> 0 then take Z_HDR d @ the (snd (z_rle s n (Some (drop Z_HDR d))))
                     else if n \<noteq> 0 then z_copy d Z_HDR s n
                     else d)
            in (0, Some d, Some (Z_HDR + payload)))"

text \<open>The decoding loop; \<open>Inl\<close> is the early return with its status and the buffer so far.\<close>

function z_unrle ::
  "bytes \<Rightarrow> nat \<Rightarrow> nat \<Rightarrow> nat \<Rightarrow> bytes \<Rightarrow> nat \<Rightarrow> (int \<times> bytes) + (nat \<times> bytes)" where
  "z_unrle src n ip op dst raw =
    (if ip < n then
       let token = src ! ip;
           ip = ip + 1
       in if token AND 0x80 \<noteq> 0 then
            let count = unat (token AND 0x7f) + 3
            in if ip \<ge> n \<or> count > raw - op then Inl (- 3, dst)
               else z_unrle src n (ip + 1) (op + count) (buf_write dst op (replicate count (src ! ip))) raw
          else
            let count = unat token + 1
            in if count > n - ip \<or> count > raw - op then Inl (- 3, dst)
               else z_unrle src n (ip + count) (op + count) (z_copy dst op (drop ip src) count) raw
     else Inr (op, dst))"
  by pat_completeness auto
termination by (relation "measure (\<lambda>(src, n, ip, op, dst, raw). n - ip)") auto

declare z_unrle.simps [simp del]

text \<open>The accumulated difference of the two digests, byte by byte.\<close>

fun z_diff :: "bytes \<Rightarrow> bytes \<Rightarrow> u32 \<Rightarrow> nat \<Rightarrow> nat \<Rightarrow> u32" where
  "z_diff dig src diff k 0 = diff"
| "z_diff dig src diff k (Suc left) =
    z_diff dig src (diff OR ucast (dig ! k XOR src ! (14 + k))) (k + 1) left"

definition rmr_zrf1_unpack ::
  "platform \<Rightarrow> blake3_hasher \<Rightarrow> bytes option \<Rightarrow> nat \<Rightarrow> bytes option \<Rightarrow> nat \<Rightarrow> nat option \<Rightarrow>
   int \<times> bytes option \<times> nat option" where
  "rmr_zrf1_unpack plat h src n dst cap written =
    (if src = None \<or> dst = None \<or> written = None \<or> n < Z_HDR then (- 1, dst, written)
     else
       let s = the src;
           d = the dst
       in if s ! 0 \<noteq> of_char (CHR ''Z'') \<or> s ! 1 \<noteq> of_char (CHR ''R'') \<or> s ! 2 \<noteq> of_char (CHR ''F'') \<or>
             s ! 3 \<noteq> of_char (CHR ''1'') \<or> s ! 4 \<noteq> 1 then (- 2, dst, written)
          else
            let mode = s ! 5
            in if mode > 1 then (- 2, dst, written)
               else
                 let raw = unat (z_get32 (drop 6 s));
                     plen = unat (z_get32 (drop 10 s))
                 in if raw > Z_MAX \<or> raw > cap \<or> plen \<noteq> n - Z_HDR then (- 2, dst, written)
                    else
                      let body =
                        (if mode = 0 then
                           (if plen \<noteq> raw then Inl (- 2, d) else Inr (raw, z_copy d 0 (drop Z_HDR s) raw))
                         else
                           case z_unrle s n Z_HDR 0 d raw of
                             Inl e \<Rightarrow> Inl e
                           | Inr (op, d) \<Rightarrow> if op \<noteq> raw then Inl (- 3, d) else Inr (op, d))
                      in case body of
                           Inl (status, d) \<Rightarrow> (status, Some d, written)
                         | Inr (op, d) \<Rightarrow>
                             let dig = z_hash plat h d raw;
                                 diff = z_diff dig s 0 0 32
                             in if diff \<noteq> 0 then (- 4, Some d, written) else (0, Some d, Some raw))"

end
