(* ===== verification/Zrf1_Correct.thy ===== *)
theory Zrf1_Correct
  imports Zrf1 Hasher_Correct
begin

text \<open>
  Correctness of the ZRF1 container: the run-length code in closed form (\<open>rle_bytes\<close>), the decoder
  as its inverse, and the container round trip with the digest of the raw bytes.
\<close>

section \<open>Helpers\<close>

lemma z_copy_loop_eq:
  "i \<le> n \<Longrightarrow> n \<le> length d \<Longrightarrow> n \<le> length s \<Longrightarrow>
   z_copy_loop d s i n = take i d @ take (n - i) (drop i s) @ drop n d"
proof (induction d s i n rule: z_copy_loop.induct)
  case (1 d s i n)
  show ?case
  proof (cases "i < n")
    case True
    let ?d = "buf_write d i [s ! i]"
    have "z_copy_loop d s i n = take (i + 1) ?d @ take (n - (i + 1)) (drop (i + 1) s) @ drop n ?d"
      using 1 True by (subst z_copy_loop.simps) simp
    also have "take (i + 1) ?d = take i d @ [s ! i]"
      using 1 True take_buf_write_end [of i d "[s ! i]"] by simp
    also have "drop n ?d = drop n d"
    proof -
      have "n - i = Suc (n - Suc i)" using True by simp
      moreover have "length (take i d) = i" using 1 True by simp
      ultimately show ?thesis using True by (simp add: buf_write_def)
    qed
    also have "take (n - i) (drop i s) = s ! i # take (n - (i + 1)) (drop (i + 1) s)"
      using 1 True by (metis Cons_nth_drop_Suc Suc_diff_Suc Suc_eq_plus1 less_le_trans take_Suc_Cons)
    ultimately show ?thesis using True by simp
  next
    case False with 1 show ?thesis by (subst z_copy_loop.simps) simp
  qed
qed

lemma z_copy_eq: "off + n \<le> length d \<Longrightarrow> n \<le> length s \<Longrightarrow> z_copy d off s n = buf_write d off (take n s)"
  by (simp add: z_copy_def z_copy_loop_eq buf_write_def min_def add.commute)

lemma length_z_put32 [len_simps]: "length (z_put32 v) = 4"
  by (simp add: z_put32_def)

lemma z_get32_put32 [simp]: "z_get32 (z_put32 v @ xs) = v"
proof -
  have "z_get32 (z_put32 v @ xs) = load32 (store32 v @ xs)"
    by (simp add: z_get32_def z_put32_def load32_def store32_def)
  then show ?thesis by simp
qed

lemma z_hash_eq:
  assumes "length (h_cv_stack h) = CV_STACK_BYTES" "n \<le> length p" "n < 2 ^ 64"
  shows "z_hash plat h p n = blake3_spec IV 0 (take n p) 0 32"
proof -
  have "hasher_inv IV 0 [] (blake3_hasher_init h)"
    unfolding blake3_hasher_init_def by (rule hasher_init_base_inv) (use assms in simp_all)
  then have "hasher_inv IV 0 ([] @ take n p) (blake3_hasher_update plat (blake3_hasher_init h) (take n p))"
    by (rule hasher_update_inv) (use assms in simp)
  moreover have "take n (if n \<noteq> 0 then p else [0]) = take n p" by simp
  ultimately show ?thesis
    by (simp add: z_hash_def blake3_hasher_finalize_def finalize_seek_inv del: take_eq_Nil)
qed

lemma length_blake3_spec [len_simps]: "length (blake3_spec key flags bs seek n) = n"
  by (simp add: blake3_spec_def spec_root_bytes_def)

section \<open>Runs and literals\<close>

lemma z_run_loop_props:
  "m \<le> 130 \<Longrightarrow> pos + m \<le> n \<Longrightarrow> \<forall>k<m. src ! (pos + k) = src ! pos \<Longrightarrow>
   z_run_loop src n pos m \<le> 130 \<and> pos + z_run_loop src n pos m \<le> n \<and>
   (\<forall>k<z_run_loop src n pos m. src ! (pos + k) = src ! pos)"
proof (induction src n pos m rule: z_run_loop.induct)
  case (1 src n pos m)
  show ?case
  proof (cases "m < 130 \<and> pos + m < n \<and> src ! (pos + m) = src ! pos")
    case True
    then have "\<forall>k<m + 1. src ! (pos + k) = src ! pos" using 1(4) by (auto simp: less_Suc_eq)
    moreover have "z_run_loop src n pos m = z_run_loop src n pos (m + 1)"
      using True by (subst z_run_loop.simps) simp
    ultimately show ?thesis using 1(1) [OF True] True by simp
  next
    case False
    then have "z_run_loop src n pos m = m" by (subst z_run_loop.simps) auto
    then show ?thesis using 1 by simp
  qed
qed

lemma z_run_props:
  assumes "pos < n" "n \<le> length src"
  shows "z_run src n pos \<le> 130" "pos + z_run src n pos \<le> n"
    and "take (z_run src n pos) (drop pos src) = replicate (z_run src n pos) (src ! pos)"
proof -
  note p = z_run_loop_props [of 1 pos n src, folded z_run_def]
  then show "z_run src n pos \<le> 130" "pos + z_run src n pos \<le> n" using assms by simp_all
  then have "length (take (z_run src n pos) (drop pos src)) = z_run src n pos" using assms by simp
  then show "take (z_run src n pos) (drop pos src) = replicate (z_run src n pos) (src ! pos)"
    using p assms by (intro nth_equalityI) simp_all
qed

lemma z_literal_props:
  "i \<le> n \<Longrightarrow> s \<le> i \<Longrightarrow> i - s \<le> 128 \<Longrightarrow> n \<le> length src \<Longrightarrow>
   z_literal src n s i \<le> n \<and> z_literal src n s i - s \<le> 128"
proof (induction src n s i rule: z_literal.induct)
  case (1 src n s i)
  let ?c = "z_run src n i"
  show ?case
  proof (cases "i < n \<and> i - s < 128 \<and> \<not> (?c \<ge> 4 \<or> i - s + ?c > 128)")
    case True
    have "z_literal src n s i = z_literal src n s (i + ?c)"
      using True by (subst z_literal.simps) (simp add: Let_def)
    moreover have "i + ?c \<le> n" using z_run_props(2) [of i n src] True 1(5) by simp
    ultimately show ?thesis using 1 True by (simp add: Let_def)
  next
    case False
    then have "z_literal src n s i = i" by (subst z_literal.simps) (auto simp: Let_def)
    then show ?thesis using 1 by simp
  qed
qed

section \<open>The code in closed form\<close>

function rle_bytes :: "bytes \<Rightarrow> nat \<Rightarrow> nat \<Rightarrow> bytes" where
  "rle_bytes src n i =
    (if i < n then
       let count = z_run src n i
       in if count \<ge> 4 then [0x80 OR of_nat (count - 3), src ! i] @ rle_bytes src n (i + count)
          else let e = z_literal src n i (i + count)
               in of_nat (e - i - 1) # buf_read src i (e - i) @ rle_bytes src n e
     else [])"
  by pat_completeness auto
termination
proof (relation "measure (\<lambda>(src, n, i). n - i)", goal_cases)
  case (2 src n i x)
  then show ?case using z_run_pos [of src n i] by auto
next
  case (3 src n i x xa)
  then show ?case using z_run_pos [of src n i] z_literal_ge [of "i + z_run src n i" src n i] by auto
qed simp

declare rle_bytes.simps [simp del]

lemma buf_write_join:
  "off + length xs + length ys \<le> length d \<Longrightarrow>
   buf_write (buf_write d off xs) (off + length xs) ys = buf_write d off (xs @ ys)"
  by (cases xs) (auto simp: buf_write_def min_def add.commute add.left_commute)

lemma z_rle_measure: "n \<le> length src \<Longrightarrow> z_rle_loop src n i out None = (out + length (rle_bytes src n i), None)"
proof (induction src n i arbitrary: out rule: rle_bytes.induct)
  case (1 src n i)
  let ?c = "z_run src n i"
  let ?e = "z_literal src n i (i + ?c)"
  show ?case
  proof (cases "i < n")
    case True
    note run = z_run_props [OF True 1(3)]
    show ?thesis
    proof (cases "4 \<le> ?c")
      case long: True
      then show ?thesis
        using 1(1) [OF True refl long 1(3)] True
        by (subst z_rle_loop.simps, subst rle_bytes.simps) (simp add: Let_def)
    next
      case False
      have "?e \<le> n" using z_literal_props [of "i + ?c" n i src] run(2) False 1(3) by simp
      then have "length (buf_read src i (?e - i)) = ?e - i"
        using z_literal_ge [of "i + ?c" src n i] 1(3) by (simp add: buf_read_def)
      then show ?thesis
        using 1(2) [OF True refl False refl 1(3)] True False
        by (subst z_rle_loop.simps, subst rle_bytes.simps) (simp add: Let_def)
    qed
  next
    case False
    then show ?thesis by (subst z_rle_loop.simps, subst rle_bytes.simps) simp
  qed
qed

lemma z_rle_emit:
  "n \<le> length src \<Longrightarrow> out + length (rle_bytes src n i) \<le> length d \<Longrightarrow>
   z_rle_loop src n i out (Some d) =
   (out + length (rle_bytes src n i), Some (buf_write d out (rle_bytes src n i)))"
proof (induction src n i arbitrary: out d rule: rle_bytes.induct)
  case (1 src n i)
  let ?c = "z_run src n i"
  let ?e = "z_literal src n i (i + ?c)"
  show ?case
  proof (cases "i < n")
    case True
    note run = z_run_props [OF True 1(3)]
    show ?thesis
    proof (cases "4 \<le> ?c")
      case long: True
      let ?t = "[0x80 OR of_nat (?c - 3), src ! i] :: bytes"
      have e: "rle_bytes src n i = ?t @ rle_bytes src n (i + ?c)"
        using True long by (subst rle_bytes.simps) (simp add: Let_def)
      have l: "z_rle_loop src n i out (Some d) = z_rle_loop src n (i + ?c) (out + 2) (Some (buf_write d out ?t))"
        using True long by (subst z_rle_loop.simps) (simp add: Let_def)
      have fit: "out + length ?t + length (rle_bytes src n (i + ?c)) \<le> length d" using 1(4) unfolding e by simp
      then have "out + 2 + length (rle_bytes src n (i + ?c)) \<le> length (buf_write d out ?t)" by simp
      from 1(1) [OF True refl long 1(3) this] show ?thesis
        unfolding l e using buf_write_join [OF fit] by simp
    next
      case False
      let ?t = "of_nat (?e - i - 1) # buf_read src i (?e - i) :: bytes"
      have en: "?e \<le> n" using z_literal_props [of "i + ?c" n i src] run(2) False 1(3) by simp
      have gt: "i < ?e" using z_literal_ge [of "i + ?c" src n i] z_run_pos [of src n i] by linarith
      have lt: "length ?t = ?e - i + 1" using en gt 1(3) by (simp add: buf_read_def)
      have e: "rle_bytes src n i = ?t @ rle_bytes src n ?e"
        using True False by (subst rle_bytes.simps) (simp add: Let_def)
      have l: "z_rle_loop src n i out (Some d) = z_rle_loop src n ?e (out + (?e - i) + 1) (Some (buf_write d out ?t))"
        using True False by (subst z_rle_loop.simps) (simp add: Let_def)
      have fit: "out + length ?t + length (rle_bytes src n ?e) \<le> length d" using 1(4) unfolding e by simp
      then have "out + (?e - i) + 1 + length (rle_bytes src n ?e) \<le> length (buf_write d out ?t)"
        using lt by simp
      from 1(2) [OF True refl False refl 1(3) this] show ?thesis
        unfolding l e using buf_write_join [OF fit] lt by (simp add: add.assoc)
    qed
  next
    case False
    then show ?thesis by (subst z_rle_loop.simps, subst (1 2) rle_bytes.simps) simp
  qed
qed

section \<open>Tokens\<close>

lemma run_token:
  assumes "c \<le> 127"
  shows "((0x80 :: u8) OR of_nat c) AND 0x80 \<noteq> 0" "((0x80 :: u8) OR of_nat c) AND 0x7f = of_nat c"
proof -
  have b: "bit (of_nat c :: u8) k \<Longrightarrow> k < 7" for k
  proof (rule ccontr)
    assume a: "bit (of_nat c :: u8) k" "\<not> k < 7"
    then have "bit c k" by (auto simp: bit_simps)
    then have "2 ^ k \<le> c" by (metis bit_iff_odd div_less even_zero not_le)
    moreover have "(2 :: nat) ^ 7 \<le> 2 ^ k" using a(2) by (intro power_increasing) auto
    ultimately show False using assms by simp
  qed
  have e80: "(0x80 :: u8) = push_bit 7 1" by simp
  have e7f: "(0x7f :: u8) = mask 7" by (simp add: mask_eq_exp_minus_1)
  have "bit (((0x80 :: u8) OR of_nat c) AND 0x80) 7" by (simp only: e80 bit_simps) simp
  then show "((0x80 :: u8) OR of_nat c) AND 0x80 \<noteq> 0" by (metis bit_0_eq bot_apply bot_bool_def)
  show "((0x80 :: u8) OR of_nat c) AND 0x7f = of_nat c"
    unfolding e80 e7f
    by (rule bit_word_eqI) (use b in \<open>auto simp only: bit_and_iff bit_or_iff bit_mask_iff bit_push_bit_iff\<close>; auto)
qed

lemma literal_token:
  assumes "c \<le> 127"
  shows "(of_nat c :: u8) AND 0x80 = 0"
proof -
  have "(of_nat c :: u8) AND 0x7f = of_nat c"
  proof -
    have "((0x80 :: u8) OR of_nat c) AND 0x7f = of_nat c" by (rule run_token(2) [OF assms])
    then show ?thesis by (metis and.assoc and.idem)
  qed
  then have "(of_nat c :: u8) AND 0x80 = of_nat c AND (0x7f AND 0x80)" by (metis and.assoc)
  then show ?thesis by simp
qed

section \<open>Decoding what was encoded\<close>

lemma buf_write_grow:
  assumes "take i dst = take i src" "i + k \<le> length src" "length src \<le> length dst" "w = take k (drop i src)"
  shows "take (i + k) (buf_write dst i w) = take (i + k) src" and "length (buf_write dst i w) = length dst"
    and "drop (length src) (buf_write dst i w) = drop (length src) dst"
proof -
  have lw: "length w = k" using assms by simp
  have "take (i + length w) (buf_write dst i w) = take i dst @ w"
    by (rule take_buf_write_end) (use assms in simp)
  also have "\<dots> = take (i + k) src" by (simp add: assms(1,4) take_add)
  finally show "take (i + k) (buf_write dst i w) = take (i + k) src" unfolding lw .
  show "length (buf_write dst i w) = length dst" using assms lw by simp
  have e: "buf_write dst i w = (take i dst @ w) @ drop (i + length w) dst"
    using assms lw by (simp add: buf_write_def)
  have "length (take i dst @ w) = i + k" using assms lw by simp
  then show "drop (length src) (buf_write dst i w) = drop (length src) dst"
    unfolding e drop_append using assms(2) lw by simp
qed

lemma z_unrle_inverse:
  "drop ip packed = rle_bytes src n i \<Longrightarrow> ip \<le> length packed \<Longrightarrow> i \<le> n \<Longrightarrow> n = length src \<Longrightarrow>
   n \<le> length dst \<Longrightarrow> take i dst = take i src \<Longrightarrow>
   z_unrle packed (length packed) ip i dst n = Inr (n, src @ drop n dst)"
proof (induction src n i arbitrary: ip dst rule: rle_bytes.induct)
  case (1 src n i)
  let ?c = "z_run src n i"
  let ?e = "z_literal src n i (i + ?c)"
  note prems = 1(3-8)
  show ?case
  proof (cases "i < n")
    case True
    have ns: "n \<le> length src" using prems(4) by simp
    note run = z_run_props [OF True ns]
    show ?thesis
    proof (cases "4 \<le> ?c")
      case long: True
      have dr: "drop ip packed = (0x80 OR of_nat (?c - 3)) # src ! i # rle_bytes src n (i + ?c)"
        using prems(1) True long by (subst (asm) rle_bytes.simps) (simp add: Let_def)
      then have ip: "ip + 1 < length packed" by (metis add.commute drop_eq_Nil2 drop_drop drop_Suc_Cons drop0 list.distinct(1) not_le plus_1_eq_Suc)
      have t: "packed ! ip = 0x80 OR of_nat (?c - 3)" using dr ip by (metis Cons_nth_drop_Suc add_lessD1 list.inject)
      have v: "packed ! (ip + 1) = src ! i" "drop (ip + 2) packed = rle_bytes src n (i + ?c)"
      proof -
        have "drop (ip + 1) packed = src ! i # rle_bytes src n (i + ?c)" using dr by (metis add.commute drop_drop drop_Suc_Cons drop0 plus_1_eq_Suc)
        then show "packed ! (ip + 1) = src ! i" "drop (ip + 2) packed = rle_bytes src n (i + ?c)"
          using ip by (auto simp: Cons_nth_drop_Suc [symmetric])
      qed
      have cc: "unat (of_nat (?c - 3) :: u8) + 3 = ?c" using long run(1) by (subst unat_of_nat_small) auto
      have k: "?c - 3 \<le> 127" using run(1) by simp
      let ?d = "buf_write dst i (replicate ?c (src ! i))"
      note g = buf_write_grow [OF prems(6) _ _ run(3) [symmetric]]
      have step: "z_unrle packed (length packed) ip i dst n =
          z_unrle packed (length packed) (ip + 2) (i + ?c) ?d n"
      proof -
        have "\<not> n - i < ?c" using run(2) by linarith
        then show ?thesis
          using ip v(1) by (subst z_unrle.simps) (simp add: t run_token [OF k] cc Let_def)
      qed
      have "z_unrle packed (length packed) (ip + 2) (i + ?c) ?d n = Inr (n, src @ drop n ?d)"
        by (rule 1(1) [OF True refl long v(2)]) (use ip run(2) prems g in auto)
      then show ?thesis using step g(3) run(2) prems by simp
    next
      case False
      have en: "?e \<le> n" "?e - i \<le> 128" using z_literal_props [of "i + ?c" n i src] run(2) False ns by simp_all
      have gt: "i < ?e" using z_literal_ge [of "i + ?c" src n i] z_run_pos [of src n i] by linarith
      have dr: "drop ip packed = of_nat (?e - i - 1) # buf_read src i (?e - i) @ rle_bytes src n ?e"
        using prems(1) True False by (subst (asm) rle_bytes.simps) (simp add: Let_def)
      then have ip: "ip < length packed" by (metis drop_eq_Nil2 list.distinct(1) not_le)
      have t: "packed ! ip = of_nat (?e - i - 1)" using dr ip by (metis Cons_nth_drop_Suc list.inject)
      have rest: "drop (ip + 1) packed = buf_read src i (?e - i) @ rle_bytes src n ?e"
        using dr by (metis add.commute drop_drop drop_Suc_Cons drop0 plus_1_eq_Suc)
      have lr: "length (buf_read src i (?e - i)) = ?e - i" using en gt ns by (simp add: buf_read_def)
      have room: "?e - i \<le> length packed - (ip + 1)" using arg_cong [OF rest, of length] lr by simp
      have tl: "take (?e - i) (drop (ip + 1) packed) = take (?e - i) (drop i src)"
        unfolding rest using lr by (simp add: buf_read_def)
      have dl: "drop (ip + 1 + (?e - i)) packed = rle_bytes src n ?e"
        using arg_cong [OF rest, of "drop (?e - i)"] lr by (simp add: add.commute)
      have cc: "unat (of_nat (?e - i - 1) :: u8) + 1 = ?e - i" using gt en by (subst unat_of_nat_small) auto
      have k: "?e - i - 1 \<le> 127" using en by simp
      let ?d = "buf_write dst i (take (?e - i) (drop i src))"
      note g = buf_write_grow [OF prems(6) _ _ refl, of "?e - i"]
      have cp: "z_copy dst i (drop (ip + 1) packed) (?e - i) = ?d"
        unfolding tl [symmetric] by (rule z_copy_eq) (use room en gt prems in simp_all)
      have step: "z_unrle packed (length packed) ip i dst n =
          z_unrle packed (length packed) (ip + 1 + (?e - i)) (i + (?e - i)) ?d n"
        using ip room en by (subst z_unrle.simps) (simp only: t literal_token [OF k] cc cp Let_def if_True if_False simp_thms, auto)
      have "z_unrle packed (length packed) (ip + 1 + (?e - i)) ?e ?d n = Inr (n, src @ drop n ?d)"
        by (rule 1(2) [OF True refl False refl dl]) (use ip room en gt prems g in auto)
      then show ?thesis using step g(3) en gt prems by simp
    qed
  next
    case False
    then have i: "i = n" using prems(3) by simp
    then have "drop ip packed = []" using prems(1) by (subst (asm) rle_bytes.simps) simp
    then have "ip = length packed" using prems(2) by simp
    moreover have "dst = src @ drop n dst"
      using prems(6) i prems(4) by (metis append_take_drop_id order_refl take_all)
    ultimately show ?thesis using i by (subst z_unrle.simps) simp
  qed
qed


section \<open>What pack writes\<close>

definition zrf1_bytes :: "bytes \<Rightarrow> bytes" where
  "zrf1_bytes s =
    (let code = rle_bytes s (length s) 0;
         mode = length code < length s;
         body = (if mode then code else s)
     in [of_char (CHR ''Z''), of_char (CHR ''R''), of_char (CHR ''F''), of_char (CHR ''1''), 1, (if mode then 1 else 0)]
        @ z_put32 (of_nat (length s)) @ z_put32 (of_nat (length body)) @ blake3_spec IV 0 s 0 32 @ body)"

lemma length_zrf1_bytes: "length (zrf1_bytes s) \<le> Z_HDR + length s"
  by (simp add: zrf1_bytes_def Let_def len_simps Z_HDR_def)

lemma buf_write_at:
  "off + length ys \<le> length d \<Longrightarrow> take off d @ buf_write (drop off d) 0 ys = buf_write d off ys"
  by (simp add: buf_write_def add.commute)

lemma pack_eq:
  assumes len: "length s \<le> Z_MAX" and st: "length (h_cv_stack h) = CV_STACK_BYTES"
  shows "rmr_zrf1_pack plat h (Some s) (length s) (Some d) (length d) (Some w0) =
    (if length d < length (zrf1_bytes s) then (- 2, Some d, Some w0)
     else (0, Some (buf_write d 0 (zrf1_bytes s)), Some (length (zrf1_bytes s))))"
proof -
  let ?code = "rle_bytes s (length s) 0"
  define m where "m \<longleftrightarrow> length ?code < length s"
  define body where "body = (if m then ?code else s)"
  define magic where "magic = [of_char (CHR ''Z''), of_char (CHR ''R''), of_char (CHR ''F''), of_char (CHR ''1'') :: u8]"
  define fl where "fl = [1, (if m then 1 else 0) :: u8]"
  define a where "a = z_put32 (of_nat (length s))"
  define b where "b = z_put32 (of_nat (length body))"
  define dg where "dg = blake3_spec IV 0 s 0 32"
  have z: "zrf1_bytes s = magic @ fl @ a @ b @ dg @ body"
    by (simp add: zrf1_bytes_def Let_def m_def body_def magic_def fl_def a_def b_def dg_def)
  have lens: "length magic = 4" "length fl = 2" "length a = 4" "length b = 4" "length dg = 32"
    by (simp_all add: magic_def fl_def a_def b_def dg_def len_simps)
  have zl: "length (zrf1_bytes s) = Z_HDR + length body" by (simp add: z lens Z_HDR_def)
  have hash: "z_hash plat h s (length s) = dg"
    using z_hash_eq [OF st, of "length s" s plat] len by (simp add: dg_def Z_MAX_def)
  have encoded: "fst (z_rle s (length s) None) = length ?code"
    by (simp add: z_rle_def z_rle_measure)
  show ?thesis
  proof (cases "length d < length (zrf1_bytes s)")
    case True
    then show ?thesis using len
      by (auto simp: rmr_zrf1_pack_def encoded zl body_def m_def Let_def split: if_splits)
  next
    case False
    then have fit: "46 + length body \<le> length d" by (simp add: zl Z_HDR_def)
    let ?D = "buf_write (buf_write (buf_write (buf_write (buf_write d 0 magic) 4 fl) 6 a) 10 b) 14 dg"
    have D: "?D = buf_write d 0 (magic @ fl @ a @ b @ dg)"
      using buf_write_join [of 0 magic fl d] buf_write_join [of 0 "magic @ fl" a d]
        buf_write_join [of 0 "magic @ fl @ a" b d] buf_write_join [of 0 "magic @ fl @ a @ b" dg d] fit
      by (simp add: lens)
    have lD: "length ?D = length d" using fit by (simp add: lens)
    have fin: "buf_write ?D Z_HDR body = buf_write d 0 (zrf1_bytes s)"
      unfolding D z using buf_write_join [of 0 "magic @ fl @ a @ b @ dg" body d] fit by (simp add: lens Z_HDR_def)
    have "(if m then take Z_HDR ?D @ the (snd (z_rle s (length s) (Some (drop Z_HDR ?D))))
           else if length s \<noteq> 0 then z_copy ?D Z_HDR s (length s) else ?D) = buf_write ?D Z_HDR body"
    proof (cases m)
      case True
      then have "snd (z_rle s (length s) (Some (drop Z_HDR ?D))) = Some (buf_write (drop Z_HDR ?D) 0 body)"
        using fit lD by (simp add: z_rle_def z_rle_emit body_def Z_HDR_def)
      then show ?thesis using True fit lD by (simp add: buf_write_at Z_HDR_def)
    next
      case F: False
      then show ?thesis using fit lD by (simp add: body_def z_copy_eq Z_HDR_def)
    qed
    then have "(if (if m then 1 else 0 :: u8) \<noteq> 0
           then take Z_HDR ?D @ the (snd (z_rle s (length s) (Some (drop Z_HDR ?D))))
           else if length s \<noteq> 0 then z_copy ?D Z_HDR s (length s) else ?D) = buf_write d 0 (zrf1_bytes s)"
      unfolding fin by (cases m) (simp_all only: if_True if_False one_neq_zero simp_thms)
    note final = this [unfolded magic_def fl_def a_def b_def]
    have pl: "length body = (if (if m then 1 else 0 :: u8) \<noteq> 0 then length ?code else length s)" by (simp add: body_def)
    show ?thesis
      using False len fit final
      unfolding rmr_zrf1_pack_def option.case option.sel encoded m_def [symmetric] Let_def pl [symmetric] hash zl
      by (simp only: a_def b_def) (simp add: Z_HDR_def del: length_greater_0_conv length_0_conv)
  qed
qed


section \<open>What unpack accepts\<close>

lemma z_diff_eq: "z_diff dig src d k n = 0 \<longleftrightarrow> d = 0 \<and> (\<forall>j<n. dig ! (k + j) = src ! (14 + (k + j)))"
proof (induction n arbitrary: d k)
  case (Suc n)
  have or0: "a OR b = 0 \<longleftrightarrow> a = 0 \<and> b = 0" for a b :: u32
    by (auto simp: bit_eq_iff bit_or_iff)
  have x: "a XOR b = 0 \<longleftrightarrow> a = b" for a b :: u8
    by (auto simp: bit_eq_iff bit_xor_iff)
  have u: "(ucast a :: u32) = 0 \<longleftrightarrow> a = 0" for a :: u8
    by (auto simp: bit_eq_iff bit_ucast_iff) (metis u8_bit_beyond not_le)
  show ?case
    unfolding z_diff.simps Suc.IH or0 u x All_less_Suc2 by simp
qed simp

lemma z_diff_digest:
  assumes "length dig = 32" "46 \<le> length s"
  shows "z_diff dig s 0 0 32 = 0 \<longleftrightarrow> take 32 (drop 14 s) = dig"
proof -
  let ?t = "take 32 (drop 14 s)"
  have l: "length ?t = length dig" using assms by simp
  have n: "?t ! j = s ! (14 + j)" if "j < 32" for j
    using that assms by (simp only: nth_take nth_drop)
  have "?t = dig \<longleftrightarrow> (\<forall>j<32. ?t ! j = dig ! j)"
    unfolding list_eq_iff_nth_eq l assms(1) by blast
  also have "\<dots> \<longleftrightarrow> (\<forall>j<32. dig ! j = s ! (14 + j))" using n by metis
  also have "\<dots> \<longleftrightarrow> z_diff dig s 0 0 32 = 0" unfolding z_diff_eq by simp
  finally show ?thesis by (rule sym)
qed

text \<open>The decoding loop stays inside the announced length.\<close>

lemma z_copy_bounds:
  fixes d s :: bytes
  assumes "op + k \<le> raw" "raw \<le> length d" "k \<le> length s"
  shows "length (z_copy d op s k) = length d" "drop raw (z_copy d op s k) = drop raw d"
proof -
  have e: "z_copy d op s k = buf_write d op (take k s)" using assms by (simp add: z_copy_eq)
  then show "length (z_copy d op s k) = length d" using assms by simp
  have "buf_write d op (take k s) = (take op d @ take k s) @ drop (op + k) d" using assms by (simp add: buf_write_def)
  then show "drop raw (z_copy d op s k) = drop raw d"
    unfolding e drop_append using assms by simp
qed

lemma buf_write_drop:
  "op + length w \<le> raw \<Longrightarrow> raw \<le> length d \<Longrightarrow> drop raw (buf_write d op w) = drop raw (d :: bytes)"
  using z_copy_bounds(2) [of op "length w" raw d w] by (simp add: z_copy_eq)

lemma z_unrle_safe:
  "n \<le> length src \<Longrightarrow> op \<le> raw \<Longrightarrow> raw \<le> length dst \<Longrightarrow>
   case z_unrle src n ip op dst raw of
     Inl (st, d) \<Rightarrow> st = - 3 \<and> length d = length dst \<and> drop raw d = drop raw dst
   | Inr (q, d) \<Rightarrow> q \<le> raw \<and> length d = length dst \<and> drop raw d = drop raw dst"
proof (induction src n ip op dst raw rule: z_unrle.induct)
  case (1 src n ip op dst raw)
  note ih = 1(1,2) and prems = 1(3-5)
  show ?case
  proof (cases "ip < n")
    case True
    show ?thesis
    proof (cases "src ! ip AND 0x80 \<noteq> 0")
      case run: True
      let ?k = "unat (src ! ip AND 0x7f) + 3"
      show ?thesis
      proof (cases "n \<le> ip + 1 \<or> raw - op < ?k")
        case bad: True
        then show ?thesis using True run by (subst z_unrle.simps) (simp add: Let_def)
      next
        case False
        let ?d = "buf_write dst op (replicate ?k (src ! (ip + 1)))"
        have fit: "op + ?k \<le> raw" using False prems(2) by linarith
        then have keep: "length ?d = length dst" "drop raw ?d = drop raw dst"
          using prems(3) by (simp_all add: buf_write_drop)
        have step: "z_unrle src n ip op dst raw = z_unrle src n (ip + 1 + 1) (op + ?k) ?d raw"
          using True run False by (subst z_unrle.simps) (simp add: Let_def)
        have "raw \<le> length ?d" using prems(3) keep(1) by simp
        from ih(1) [OF True refl refl run refl False prems(1) fit this]
        show ?thesis unfolding step keep .
      qed
    next
      case lit: False
      let ?k = "unat (src ! ip) + 1"
      show ?thesis
      proof (cases "n - (ip + 1) < ?k \<or> raw - op < ?k")
        case bad: True
        then show ?thesis using True lit by (subst z_unrle.simps) (simp add: Let_def)
      next
        case False
        let ?d = "z_copy dst op (drop (ip + 1) src) ?k"
        have fit: "op + ?k \<le> raw" using False prems(2) by linarith
        have k: "?k \<le> length (drop (ip + 1) src)" using False prems(1) unfolding length_drop by linarith
        note keep = z_copy_bounds [OF fit prems(3) k]
        have step: "z_unrle src n ip op dst raw = z_unrle src n (ip + 1 + ?k) (op + ?k) ?d raw"
          using True lit False by (subst z_unrle.simps) (simp add: Let_def)
        have "raw \<le> length ?d" using prems(3) keep(1) by simp
        from ih(2) [OF True refl refl lit refl False prems(1) fit this]
        show ?thesis unfolding step keep .
      qed
    qed
  next
    case False
    then show ?thesis using prems by (subst z_unrle.simps) simp
  qed
qed

section \<open>The container\<close>

lemma zrf1_bytes_fields:
  fixes s :: bytes
  assumes "length s \<le> Z_MAX"
  defines "p \<equiv> zrf1_bytes s" and "code \<equiv> rle_bytes s (length s) 0"
  defines "body \<equiv> if length code < length s then code else s"
  shows "p ! 0 = of_char (CHR ''Z'')" "p ! 1 = of_char (CHR ''R'')" "p ! 2 = of_char (CHR ''F'')"
    and "p ! 3 = of_char (CHR ''1'')" "p ! 4 = 1" "p ! 5 = (if length code < length s then 1 else 0)"
    and "unat (z_get32 (drop 6 p)) = length s" "unat (z_get32 (drop 10 p)) = length body"
    and "take 32 (drop 14 p) = blake3_spec IV 0 s 0 32" "drop 46 p = body" "length p = 46 + length body"
proof -
  have bl: "length body < 2 ^ 32" "length s < 2 ^ 32" using assms(1) by (auto simp: body_def Z_MAX_def)
  have l4: "length (z_put32 v) = 4" for v by (simp add: len_simps)
  have l32: "length (blake3_spec IV 0 s 0 32) = 32" by (simp add: len_simps)
  note simps = p_def zrf1_bytes_def Let_def code_def [symmetric] body_def [symmetric]
  show "p ! 0 = of_char (CHR ''Z'')" "p ! 1 = of_char (CHR ''R'')" "p ! 2 = of_char (CHR ''F'')"
    "p ! 3 = of_char (CHR ''1'')" "p ! 4 = 1" "p ! 5 = (if length code < length s then 1 else 0)"
    by (simp_all add: simps)
  show "unat (z_get32 (drop 6 p)) = length s"
    using bl by (simp add: simps unat_of_nat_small)
  show "unat (z_get32 (drop 10 p)) = length body"
    using bl by (simp add: simps l4 unat_of_nat_small)
  show "take 32 (drop 14 p) = blake3_spec IV 0 s 0 32" "drop 46 p = body" "length p = 46 + length body"
    by (simp_all add: simps l4 l32)
qed

lemma unpack_zrf1_bytes:
  assumes "length s \<le> Z_MAX" "length s \<le> length d" "length (h_cv_stack h) = CV_STACK_BYTES"
  shows "rmr_zrf1_unpack plat h (Some (zrf1_bytes s)) (length (zrf1_bytes s)) (Some d) (length d) (Some w) =
    (0, Some (s @ drop (length s) d), Some (length s))"
proof -
  note f = zrf1_bytes_fields [OF assms(1)]
  let ?p = "zrf1_bytes s" and ?d = "s @ drop (length s) d"
  have hash: "z_hash plat h ?d (length s) = blake3_spec IV 0 s 0 32"
    using z_hash_eq [OF assms(3), of "length s" ?d plat] assms(1) by (simp add: Z_MAX_def)
  have diff: "z_diff (blake3_spec IV 0 s 0 32) ?p 0 0 32 = 0"
    using f by (subst z_diff_digest) (simp_all add: len_simps)
  show ?thesis
  proof (cases "length (rle_bytes s (length s) 0) < length s")
    case True
    have "z_unrle ?p (length ?p) 46 0 d (length s) = Inr (length s, ?d)"
      by (rule z_unrle_inverse) (use f True assms(2) in simp_all)
    then show ?thesis
      using f True assms hash diff
      by (simp only: rmr_zrf1_unpack_def Z_HDR_def Let_def option.sel) simp
  next
    case False
    have "z_copy d 0 (drop 46 ?p) (length s) = ?d"
      using f False assms(2) by (simp add: z_copy_eq buf_write_0)
    then show ?thesis
      using f False assms hash diff
      by (simp only: rmr_zrf1_unpack_def Z_HDR_def Let_def option.sel) simp
  qed
qed


text \<open>
  C9. Packing \<open>n\<close> bytes into a buffer of at least \<open>n + 46\<close> bytes succeeds, never writes more than
  \<open>n + 46\<close> bytes, and unpacking what was written into any buffer of at least \<open>n\<close> bytes returns the
  same \<open>n\<close> bytes, whether the payload was stored or run-length coded and whatever the platforms of
  the two sides.
\<close>

theorem zrf1_round_trip:
  assumes "length s \<le> Z_MAX" "Z_HDR + length s \<le> length d" "length s \<le> length d'"
    "length (h_cv_stack h) = CV_STACK_BYTES" "length (h_cv_stack h') = CV_STACK_BYTES"
  shows "(case rmr_zrf1_pack plat h (Some s) (length s) (Some d) (length d) (Some w0) of
     (status, packed, written) \<Rightarrow>
       status = 0 \<and> the written \<le> Z_HDR + length s \<and>
       rmr_zrf1_unpack plat' h' (Some (take (the written) (the packed))) (the written) (Some d') (length d') (Some w1) =
         (0, Some (s @ drop (length s) d'), Some (length s)))"
proof -
  have fit: "length (zrf1_bytes s) \<le> length d" using length_zrf1_bytes [of s] assms(2) by linarith
  then have "take (length (zrf1_bytes s)) (buf_write d 0 (zrf1_bytes s)) = zrf1_bytes s"
    by (simp add: buf_write_0)
  then show ?thesis
    using fit length_zrf1_bytes [of s] unpack_zrf1_bytes [OF assms(1,3,5), of plat' w1]
    by (simp add: pack_eq [OF assms(1,4)])
qed

lemma zrf1_round_trip_witness:
  "(case rmr_zrf1_pack demo_platform demo_hasher (Some (replicate 300 7)) (length (replicate 300 7 :: bytes))
       (Some (replicate 400 0)) (length (replicate 400 0 :: bytes)) (Some 0) of
     (status, packed, written) \<Rightarrow>
       status = 0 \<and> the written \<le> Z_HDR + length (replicate 300 7 :: bytes) \<and>
       rmr_zrf1_unpack demo_platform demo_hasher (Some (take (the written) (the packed))) (the written)
         (Some (replicate 300 1)) (length (replicate 300 1 :: bytes)) (Some 0) =
         (0, Some (replicate 300 7 @ drop (length (replicate 300 7 :: bytes)) (replicate 300 1)),
          Some (length (replicate 300 7 :: bytes))))"
  by (rule zrf1_round_trip) (simp_all add: Z_MAX_def Z_HDR_def demo_hasher_def)

text \<open>
  On any input whatever, \<open>rmr_zrf1_unpack\<close> returns one of five statuses, leaves the output buffer
  at its length and its bytes beyond the announced raw size untouched; it reports success only if the
  bytes it wrote have the digest the header names, and then the announced size fits the buffer and
  the 3 MiB limit.
\<close>

theorem zrf1_unpack_safe:
  assumes "length (h_cv_stack h) = CV_STACK_BYTES"
  shows "let raw = unat (z_get32 (drop 6 s));
      (status, d', written) = rmr_zrf1_unpack plat h (Some s) (length s) (Some d) (length d) (Some w)
    in status \<in> {0, - 1, - 2, - 3, - 4} \<and> length (the d') = length d \<and> drop raw (the d') = drop raw d \<and>
      (if status = 0
       then written = Some raw \<and> raw \<le> Z_MAX \<and> raw \<le> length d \<and>
            blake3_spec IV 0 (take raw (the d')) 0 32 = take 32 (drop 14 s)
       else written = Some w)"
proof -
  define raw where "raw = unat (z_get32 (drop 6 s))"
  define r where "r = rmr_zrf1_unpack plat h (Some s) (length s) (Some d) (length d) (Some w)"
  consider (short) "length s < Z_HDR"
    | (magic) "Z_HDR \<le> length s" "\<not> (s ! 0 = of_char (CHR ''Z'') \<and> s ! 1 = of_char (CHR ''R'') \<and>
        s ! 2 = of_char (CHR ''F'') \<and> s ! 3 = of_char (CHR ''1'') \<and> s ! 4 = 1 \<and> s ! 5 \<le> 1 \<and>
        raw \<le> Z_MAX \<and> raw \<le> length d \<and> unat (z_get32 (drop 10 s)) = length s - Z_HDR)"
    | (body) "Z_HDR \<le> length s" "s ! 0 = of_char (CHR ''Z'') \<and> s ! 1 = of_char (CHR ''R'') \<and>
        s ! 2 = of_char (CHR ''F'') \<and> s ! 3 = of_char (CHR ''1'') \<and> s ! 4 = 1 \<and> s ! 5 \<le> 1 \<and>
        raw \<le> Z_MAX \<and> raw \<le> length d \<and> unat (z_get32 (drop 10 s)) = length s - Z_HDR"
    using not_le by blast
  then have "case r of (status, d', written) \<Rightarrow>
     status \<in> {0, - 1, - 2, - 3, - 4} \<and> length (the d') = length d \<and> drop raw (the d') = drop raw d \<and>
     (if status = 0
      then written = Some raw \<and> raw \<le> Z_MAX \<and> raw \<le> length d \<and>
           blake3_spec IV 0 (take raw (the d')) 0 32 = take 32 (drop 14 s)
      else written = Some w)"
  proof cases
    case short
    then show ?thesis by (simp add: r_def rmr_zrf1_unpack_def)
  next
    case magic
    then have "r = (- 2, Some d, Some w)"
      unfolding r_def rmr_zrf1_unpack_def Let_def option.sel raw_def by (auto simp: not_le not_less)
    then show ?thesis by simp
  next
    case body
    define B where "B = (if s ! 5 = 0 then
        (if length s - Z_HDR \<noteq> raw then Inl (- 2, d) else Inr (raw, z_copy d 0 (drop Z_HDR s) raw))
      else case z_unrle s (length s) Z_HDR 0 d raw of
        Inl e \<Rightarrow> Inl e | Inr (op, d) \<Rightarrow> if op \<noteq> raw then Inl (- 3, d) else Inr (op, d))"
    have r: "r = (case B of Inl (status, d) \<Rightarrow> (status, Some d, Some w)
      | Inr (op, d) \<Rightarrow> if z_diff (z_hash plat h d raw) s 0 0 32 \<noteq> 0 then (- 4, Some d, Some w) else (0, Some d, Some raw))"
      using body unfolding r_def rmr_zrf1_unpack_def Let_def option.sel B_def raw_def [symmetric]
      by (auto simp: leD)
    have B: "case B of Inl (st, d') \<Rightarrow> st \<in> {- 2, - 3} \<and> length d' = length d \<and> drop raw d' = drop raw d
      | Inr (op, d') \<Rightarrow> length d' = length d \<and> drop raw d' = drop raw d"
      using z_unrle_safe [of "length s" s 0 raw d Z_HDR] z_copy_bounds [of 0 raw raw d "drop Z_HDR s"] body(2)
      unfolding B_def by (auto split: sum.splits prod.splits)
    have hash: "z_hash plat h d' raw = blake3_spec IV 0 (take raw d') 0 32" if "length d' = length d" for d'
      by (rule z_hash_eq) (use that assms body(2) in \<open>simp_all add: Z_MAX_def\<close>)
    have diff: "z_diff (blake3_spec IV 0 b 0 32) s 0 0 32 = 0 \<longleftrightarrow> take 32 (drop 14 s) = blake3_spec IV 0 b 0 32" for b
      by (rule z_diff_digest) (use body(1) in \<open>simp_all add: len_simps Z_HDR_def\<close>)
    show ?thesis
      unfolding r using B body(2) hash diff by (auto split: sum.splits prod.splits)
  qed
  then show ?thesis unfolding raw_def r_def Let_def .
qed

lemma zrf1_unpack_safe_witness:
  "let raw = unat (z_get32 (drop 6 (replicate 50 9)));
      (status, d', written) = rmr_zrf1_unpack demo_platform demo_hasher (Some (replicate 50 9))
        (length (replicate 50 9 :: bytes)) (Some (replicate 20 0)) (length (replicate 20 0 :: bytes)) (Some 5)
    in status \<in> {0, - 1, - 2, - 3, - 4} \<and> length (the d') = length (replicate 20 0 :: bytes) \<and>
      drop raw (the d') = drop raw (replicate 20 0) \<and>
      (if status = 0
       then written = Some raw \<and> raw \<le> Z_MAX \<and> raw \<le> length (replicate 20 0 :: bytes) \<and>
            blake3_spec IV 0 (take raw (the d')) 0 32 = take 32 (drop 14 (replicate 50 9))
       else written = Some 5)"
  by (rule zrf1_unpack_safe) simp

end
