(* ===== verification/Cf140.thy ===== *)
theory Cf140
  imports Prelude
begin

text \<open>
  The freestanding substrate \<open>rmr/crypto_freestanding140\<close>: the inline operations of \<open>rmr_cf140.h\<close>,
  the fixed-shape byte operations of \<open>rmr_cf140_ops.c\<close> and the supervisor automaton of
  \<open>rmr_cf140_guard.c\<close>.
\<close>

section \<open>Word operations\<close>

definition rmr_cf_xor32 :: "u32 \<Rightarrow> u32 \<Rightarrow> u32" where "rmr_cf_xor32 a b = a XOR b"
definition rmr_cf_xor64 :: "u64 \<Rightarrow> u64 \<Rightarrow> u64" where "rmr_cf_xor64 a b = a XOR b"
definition rmr_cf_and32 :: "u32 \<Rightarrow> u32 \<Rightarrow> u32" where "rmr_cf_and32 a b = a AND b"
definition rmr_cf_or32 :: "u32 \<Rightarrow> u32 \<Rightarrow> u32" where "rmr_cf_or32 a b = a OR b"
definition rmr_cf_not32 :: "u32 \<Rightarrow> u32" where "rmr_cf_not32 a = NOT a"
definition rmr_cf_add32 :: "u32 \<Rightarrow> u32 \<Rightarrow> u32" where "rmr_cf_add32 a b = a + b"
definition rmr_cf_add64 :: "u64 \<Rightarrow> u64 \<Rightarrow> u64" where "rmr_cf_add64 a b = a + b"

definition rmr_cf_rotl32 :: "u32 \<Rightarrow> u32 \<Rightarrow> u32" where
  "rmr_cf_rotl32 x n =
    (let s = n AND 31
     in push_bit (unat s) x OR drop_bit (unat ((32 - s) AND 31)) x)"

definition rmr_cf_rotr32 :: "u32 \<Rightarrow> u32 \<Rightarrow> u32" where
  "rmr_cf_rotr32 x n =
    (let s = n AND 31
     in drop_bit (unat s) x OR push_bit (unat ((32 - s) AND 31)) x)"

definition rmr_cf_rotl64 :: "u64 \<Rightarrow> u32 \<Rightarrow> u64" where
  "rmr_cf_rotl64 x n =
    (let s = n AND 63
     in push_bit (unat s) x OR drop_bit (unat ((64 - s) AND 63)) x)"

definition rmr_cf_rotr64 :: "u64 \<Rightarrow> u32 \<Rightarrow> u64" where
  "rmr_cf_rotr64 x n =
    (let s = n AND 63
     in drop_bit (unat s) x OR push_bit (unat ((64 - s) AND 63)) x)"

definition rmr_cf_select32 :: "u32 \<Rightarrow> u32 \<Rightarrow> u32 \<Rightarrow> u32" where
  "rmr_cf_select32 msk when_one when_zero = (msk AND when_one) OR (NOT msk AND when_zero)"

definition rmr_cf_select64 :: "u64 \<Rightarrow> u64 \<Rightarrow> u64 \<Rightarrow> u64" where
  "rmr_cf_select64 msk when_one when_zero = (msk AND when_one) OR (NOT msk AND when_zero)"

section \<open>Bytes\<close>

definition rmr_cf_load32_le :: "bytes \<Rightarrow> u32" where
  "rmr_cf_load32_le src = ucast (src ! 0) OR push_bit 8 (ucast (src ! 1)) OR
     push_bit 16 (ucast (src ! 2)) OR push_bit 24 (ucast (src ! 3))"

definition rmr_cf_load64_le :: "bytes \<Rightarrow> u64" where
  "rmr_cf_load64_le src = ucast (src ! 0) OR push_bit 8 (ucast (src ! 1)) OR
     push_bit 16 (ucast (src ! 2)) OR push_bit 24 (ucast (src ! 3)) OR
     push_bit 32 (ucast (src ! 4)) OR push_bit 40 (ucast (src ! 5)) OR
     push_bit 48 (ucast (src ! 6)) OR push_bit 56 (ucast (src ! 7))"

definition rmr_cf_load32_be :: "bytes \<Rightarrow> u32" where
  "rmr_cf_load32_be src = push_bit 24 (ucast (src ! 0)) OR push_bit 16 (ucast (src ! 1)) OR
     push_bit 8 (ucast (src ! 2)) OR ucast (src ! 3)"

definition rmr_cf_store32_le :: "u32 \<Rightarrow> bytes" where
  "rmr_cf_store32_le v = [ucast v, ucast (drop_bit 8 v), ucast (drop_bit 16 v), ucast (drop_bit 24 v)]"

definition rmr_cf_store64_le :: "u64 \<Rightarrow> bytes" where
  "rmr_cf_store64_le v = [ucast v, ucast (drop_bit 8 v), ucast (drop_bit 16 v), ucast (drop_bit 24 v),
     ucast (drop_bit 32 v), ucast (drop_bit 40 v), ucast (drop_bit 48 v), ucast (drop_bit 56 v)]"

definition rmr_cf_store32_be :: "u32 \<Rightarrow> bytes" where
  "rmr_cf_store32_be v = [ucast (drop_bit 24 v), ucast (drop_bit 16 v), ucast (drop_bit 8 v), ucast v]"

text \<open>The sixteen bytes that \<open>rmr_cf_xor16\<close> writes.\<close>

definition rmr_cf_xor16 :: "bytes \<Rightarrow> bytes \<Rightarrow> bytes" where
  "rmr_cf_xor16 left right =
    [left ! 0 XOR right ! 0, left ! 1 XOR right ! 1, left ! 2 XOR right ! 2, left ! 3 XOR right ! 3,
     left ! 4 XOR right ! 4, left ! 5 XOR right ! 5, left ! 6 XOR right ! 6, left ! 7 XOR right ! 7,
     left ! 8 XOR right ! 8, left ! 9 XOR right ! 9, left ! 10 XOR right ! 10, left ! 11 XOR right ! 11,
     left ! 12 XOR right ! 12, left ! 13 XOR right ! 13, left ! 14 XOR right ! 14, left ! 15 XOR right ! 15]"

definition rmr_cf_xor32_bytes :: "bytes \<Rightarrow> bytes \<Rightarrow> bytes" where
  "rmr_cf_xor32_bytes left right =
    rmr_cf_xor16 left right @ rmr_cf_xor16 (drop 16 left) (drop 16 right)"

definition rmr_cf_xor64_bytes :: "bytes \<Rightarrow> bytes \<Rightarrow> bytes" where
  "rmr_cf_xor64_bytes left right =
    rmr_cf_xor32_bytes left right @ rmr_cf_xor32_bytes (drop 32 left) (drop 32 right)"

definition rmr_cf_diff16 :: "bytes \<Rightarrow> bytes \<Rightarrow> u32" where
  "rmr_cf_diff16 left right =
    ucast (left ! 0 XOR right ! 0) OR ucast (left ! 1 XOR right ! 1) OR ucast (left ! 2 XOR right ! 2) OR ucast (left ! 3 XOR right ! 3) OR
    ucast (left ! 4 XOR right ! 4) OR ucast (left ! 5 XOR right ! 5) OR ucast (left ! 6 XOR right ! 6) OR ucast (left ! 7 XOR right ! 7) OR
    ucast (left ! 8 XOR right ! 8) OR ucast (left ! 9 XOR right ! 9) OR ucast (left ! 10 XOR right ! 10) OR ucast (left ! 11 XOR right ! 11) OR
    ucast (left ! 12 XOR right ! 12) OR ucast (left ! 13 XOR right ! 13) OR ucast (left ! 14 XOR right ! 14) OR ucast (left ! 15 XOR right ! 15)"

definition rmr_cf_diff32 :: "bytes \<Rightarrow> bytes \<Rightarrow> u32" where
  "rmr_cf_diff32 left right =
    rmr_cf_diff16 left right OR rmr_cf_diff16 (drop 16 left) (drop 16 right)"

section \<open>The supervisor\<close>

text \<open>
  States, events and actions are \<open>uint32_t\<close> constants in the code, and the automaton's last case
  is for any other state; the record keeps the machine words.
\<close>

definition GUARD_RETRY_LIMIT :: u32 where "GUARD_RETRY_LIMIT = 7"
definition GUARD_IDLE :: u32 where "GUARD_IDLE = 0"
definition GUARD_RUNNING :: u32 where "GUARD_RUNNING = 1"
definition GUARD_ACK_WAIT :: u32 where "GUARD_ACK_WAIT = 2"
definition GUARD_ROLLBACK :: u32 where "GUARD_ROLLBACK = 3"
definition GUARD_FAILSAFE :: u32 where "GUARD_FAILSAFE = 4"
definition GUARD_HALTED :: u32 where "GUARD_HALTED = 5"
definition EVENT_ARM :: u32 where "EVENT_ARM = 1"
definition EVENT_EXEC_OK :: u32 where "EVENT_EXEC_OK = 2"
definition EVENT_EXEC_FAIL :: u32 where "EVENT_EXEC_FAIL = 3"
definition EVENT_ACK_OK :: u32 where "EVENT_ACK_OK = 4"
definition EVENT_ACK_FAIL :: u32 where "EVENT_ACK_FAIL = 5"
definition EVENT_WATCHDOG_EXPIRED :: u32 where "EVENT_WATCHDOG_EXPIRED = 6"
definition EVENT_ROLLBACK_OK :: u32 where "EVENT_ROLLBACK_OK = 7"
definition EVENT_ROLLBACK_FAIL :: u32 where "EVENT_ROLLBACK_FAIL = 8"
definition EVENT_OPERATOR_RESET :: u32 where "EVENT_OPERATOR_RESET = 9"
definition ACTION_NONE :: u32 where "ACTION_NONE = 0"
definition ACTION_EXECUTE :: u32 where "ACTION_EXECUTE = 1"
definition ACTION_REQUEST_ACK :: u32 where "ACTION_REQUEST_ACK = 2"
definition ACTION_COMMIT :: u32 where "ACTION_COMMIT = 3"
definition ACTION_RETRY :: u32 where "ACTION_RETRY = 4"
definition ACTION_ROLLBACK :: u32 where "ACTION_ROLLBACK = 5"
definition ACTION_ENTER_FAILSAFE :: u32 where "ACTION_ENTER_FAILSAFE = 6"
definition ACTION_HALT :: u32 where "ACTION_HALT = 7"
definition ACTION_RESET_ACCEPTED :: u32 where "ACTION_RESET_ACCEPTED = 8"

record rmr_cf_guard =
  g_state :: u32
  g_retries :: u32
  g_max_retries :: u32
  g_sequence :: u32
  g_last_event :: u32

definition rmr_cf_guard_retry_or_rollback :: "rmr_cf_guard \<Rightarrow> rmr_cf_guard \<times> u32" where
  "rmr_cf_guard_retry_or_rollback guard =
    (if g_retries guard < g_max_retries guard then
       (guard\<lparr>g_retries := g_retries guard + 1, g_state := GUARD_RUNNING\<rparr>, ACTION_RETRY)
     else (guard\<lparr>g_state := GUARD_ROLLBACK\<rparr>, ACTION_ROLLBACK))"

definition rmr_cf_guard_fail_closed :: "rmr_cf_guard \<Rightarrow> rmr_cf_guard \<times> u32" where
  "rmr_cf_guard_fail_closed guard = (guard\<lparr>g_state := GUARD_FAILSAFE\<rparr>, ACTION_ENTER_FAILSAFE)"

definition rmr_cf_guard_init :: "rmr_cf_guard option \<Rightarrow> u32 \<Rightarrow> rmr_cf_guard option" where
  "rmr_cf_guard_init guard max_retries =
    (case guard of
       None \<Rightarrow> None
     | Some g \<Rightarrow>
         Some (g\<lparr>g_state := GUARD_IDLE, g_retries := 0,
                 g_max_retries := (if max_retries \<le> GUARD_RETRY_LIMIT then max_retries else GUARD_RETRY_LIMIT),
                 g_sequence := 0, g_last_event := 0\<rparr>))"

definition guard_step_state :: "rmr_cf_guard \<Rightarrow> u32 \<Rightarrow> rmr_cf_guard \<times> u32" where
  "guard_step_state guard event =
    (if g_state guard = GUARD_IDLE then
       if event = EVENT_ARM then (guard\<lparr>g_state := GUARD_RUNNING, g_retries := 0\<rparr>, ACTION_EXECUTE)
       else rmr_cf_guard_fail_closed guard
     else if g_state guard = GUARD_RUNNING then
       if event = EVENT_EXEC_OK then (guard\<lparr>g_state := GUARD_ACK_WAIT\<rparr>, ACTION_REQUEST_ACK)
       else if event = EVENT_EXEC_FAIL \<or> event = EVENT_WATCHDOG_EXPIRED then rmr_cf_guard_retry_or_rollback guard
       else rmr_cf_guard_fail_closed guard
     else if g_state guard = GUARD_ACK_WAIT then
       if event = EVENT_ACK_OK then (guard\<lparr>g_state := GUARD_IDLE, g_retries := 0\<rparr>, ACTION_COMMIT)
       else if event = EVENT_ACK_FAIL \<or> event = EVENT_WATCHDOG_EXPIRED then rmr_cf_guard_retry_or_rollback guard
       else rmr_cf_guard_fail_closed guard
     else if g_state guard = GUARD_ROLLBACK then
       if event = EVENT_ROLLBACK_OK then (guard\<lparr>g_state := GUARD_FAILSAFE\<rparr>, ACTION_ENTER_FAILSAFE)
       else if event = EVENT_ROLLBACK_FAIL then (guard\<lparr>g_state := GUARD_HALTED\<rparr>, ACTION_HALT)
       else rmr_cf_guard_fail_closed guard
     else if g_state guard = GUARD_FAILSAFE then
       if event = EVENT_OPERATOR_RESET then (guard\<lparr>g_state := GUARD_IDLE, g_retries := 0\<rparr>, ACTION_RESET_ACCEPTED)
       else (guard, ACTION_ENTER_FAILSAFE)
     else if g_state guard = GUARD_HALTED then (guard, ACTION_HALT)
     else rmr_cf_guard_fail_closed guard)"

definition rmr_cf_guard_step :: "rmr_cf_guard option \<Rightarrow> u32 \<Rightarrow> rmr_cf_guard option \<times> u32" where
  "rmr_cf_guard_step guard event =
    (case guard of
       None \<Rightarrow> (None, ACTION_HALT)
     | Some g \<Rightarrow>
         let (g, action) = guard_step_state (g\<lparr>g_sequence := g_sequence g + 1, g_last_event := event\<rparr>) event
         in (Some g, action))"

end
