(* ===== verification/Cf140_Correct.thy ===== *)
theory Cf140_Correct
  imports Cf140
begin

text \<open>
  The byte operations of the substrate are inverse to each other and its comparison is exact. The
  supervisor is followed along its history of events and actions: what a commit is preceded by, how
  often an operation is tried, and that the failed states do nothing.
\<close>

section \<open>Bytes and words\<close>

lemma cf_bytes32: "k < 8 \<Longrightarrow> bit (ucast (drop_bit m v :: u32) :: u8) k = bit v (m + k)"
  by (simp add: bit_ucast_iff bit_drop_bit_eq)

lemma load32_le_store [simp]: "rmr_cf_load32_le (rmr_cf_store32_le v) = v"
proof (rule bit_word_eqI)
  fix n assume "n < LENGTH(32)"
  then consider "0 \<le> n \<and> n < 8" | "8 \<le> n \<and> n < 16" | "16 \<le> n \<and> n < 24" | "24 \<le> n \<and> n < 32"
    by fastforce
  then show "bit (rmr_cf_load32_le (rmr_cf_store32_le v)) n = bit v n"
    by cases (auto simp: rmr_cf_load32_le_def rmr_cf_store32_le_def bit_simps)
qed

lemma load32_be_store [simp]: "rmr_cf_load32_be (rmr_cf_store32_be v) = v"
proof (rule bit_word_eqI)
  fix n assume "n < LENGTH(32)"
  then consider "0 \<le> n \<and> n < 8" | "8 \<le> n \<and> n < 16" | "16 \<le> n \<and> n < 24" | "24 \<le> n \<and> n < 32"
    by fastforce
  then show "bit (rmr_cf_load32_be (rmr_cf_store32_be v)) n = bit v n"
    by cases (auto simp: rmr_cf_load32_be_def rmr_cf_store32_be_def bit_simps)
qed

lemma load64_le_store [simp]: "rmr_cf_load64_le (rmr_cf_store64_le v) = v"
proof (rule bit_word_eqI)
  fix n assume "n < LENGTH(64)"
  then have "n < 64" by simp
  from byte_cases64 [OF this] show "bit (rmr_cf_load64_le (rmr_cf_store64_le v)) n = bit v n"
    by (elim disjE conjE) (auto simp: rmr_cf_load64_le_def rmr_cf_store64_le_def bit_simps)
qed

lemma u32_or_eq_0: "a OR b = 0 \<longleftrightarrow> a = 0 \<and> b = 0" for a b :: u32
  by (auto simp: bit_eq_iff bit_or_iff)

lemma ucast_xor_eq_0: "(ucast (a XOR b :: u8) :: u32) = 0 \<longleftrightarrow> a = b"
proof -
  have "(ucast c :: u32) = 0 \<longleftrightarrow> c = 0" for c :: u8
    by (auto simp: bit_eq_iff bit_ucast_iff) (metis u8_bit_beyond not_le)
  moreover have "a XOR b = 0 \<longleftrightarrow> a = b" by (auto simp: bit_eq_iff bit_xor_iff)
  ultimately show ?thesis by simp
qed

lemma diff16_eq_0:
  assumes "length a = 16" "length b = 16"
  shows "rmr_cf_diff16 a b = 0 \<longleftrightarrow> a = b"
  using assms by (elim length16E) (simp add: rmr_cf_diff16_def u32_or_eq_0 ucast_xor_eq_0)

lemma diff32_eq_0:
  assumes "length a = 32" "length b = 32"
  shows "rmr_cf_diff32 a b = 0 \<longleftrightarrow> a = b"
proof -
  have "rmr_cf_diff16 a b = rmr_cf_diff16 (take 16 a) (take 16 b)"
    by (simp add: rmr_cf_diff16_def)
  then have "rmr_cf_diff32 a b = 0 \<longleftrightarrow> take 16 a = take 16 b \<and> drop 16 a = drop 16 b"
    using assms by (simp add: rmr_cf_diff32_def u32_or_eq_0 diff16_eq_0)
  then show ?thesis by (metis append_take_drop_id)
qed

lemma xor16_eq_map2:
  assumes "length a = 16" "length b = 16"
  shows "rmr_cf_xor16 a b = map2 (XOR) a b"
  using assms by (elim length16E) (simp add: rmr_cf_xor16_def)

lemma xor16_take: "rmr_cf_xor16 a b = rmr_cf_xor16 (take 16 a) (take 16 b)"
  by (simp add: rmr_cf_xor16_def)

lemma map2_split: "map2 f (take n a) (take n b) @ map2 f (drop n a) (drop n b) = map2 f a b"
  by (simp add: take_map [symmetric] drop_map [symmetric] take_zip [symmetric] drop_zip [symmetric])

lemma xor32_eq_map2:
  assumes "32 \<le> length a" "32 \<le> length b"
  shows "rmr_cf_xor32_bytes a b = map2 (XOR) (take 32 a) (take 32 b)"
proof -
  have "rmr_cf_xor16 a b = map2 (XOR) (take 16 (take 32 a)) (take 16 (take 32 b))"
    using assms by (subst xor16_take) (simp add: xor16_eq_map2)
  moreover have "rmr_cf_xor16 (drop 16 a) (drop 16 b) = map2 (XOR) (drop 16 (take 32 a)) (drop 16 (take 32 b))"
    using assms by (subst xor16_take) (simp add: xor16_eq_map2 drop_take)
  ultimately show ?thesis
    unfolding rmr_cf_xor32_bytes_def by (simp only: map2_split)
qed

section \<open>Rotations\<close>

text \<open>The masked counts make every rotation amount defined in C; they rotate by the amount modulo 32.\<close>

lemma rot_amount:
  fixes n :: u32
  shows "unat (n AND 31) = unat n mod 32" "unat (32 - (n AND 31)) = 32 - unat n mod 32"
proof -
  have m: "(31 :: u32) = mask 5" by (simp add: mask_eq_exp_minus_1)
  have u: "unat (x AND 31) = unat x mod 32" for x :: u32
    unfolding m take_bit_eq_mask [symmetric] by (simp add: unsigned_take_bit_eq) (simp add: take_bit_eq_mod)
  then show "unat (n AND 31) = unat n mod 32" .
  show "unat (32 - (n AND 31)) = 32 - unat n mod 32"
    using u [of n] by (subst unat_sub) (simp_all add: word_le_nat_alt)
qed

lemma bit_rotl: "i < 32 \<Longrightarrow> bit (rmr_cf_rotl32 x n) i = bit x ((i + (32 - unat n mod 32)) mod 32)"
proof -
  assume i: "i < 32"
  define k where "k = unat n mod 32"
  have k: "k < 32" by (simp add: k_def)
  have "bit (push_bit k x OR drop_bit ((32 - k) mod 32) x) i = bit x ((i + (32 - k)) mod 32)"
  proof (cases "k = 0")
    case False
    then have "(32 - k) mod 32 = 32 - k" using k by simp
    then show ?thesis
      using i k False by (cases "k \<le> i")
        (auto simp: bit_or_iff bit_push_bit_iff bit_drop_bit_eq le_mod_geq add.commute dest: bit_imp_le_length)
  qed (use i in \<open>simp add: bit_or_iff\<close>)
  then show ?thesis unfolding rmr_cf_rotl32_def Let_def rot_amount k_def .
qed

lemma bit_rotr: "i < 32 \<Longrightarrow> bit (rmr_cf_rotr32 x n) i = bit x ((i + unat n mod 32) mod 32)"
proof -
  assume i: "i < 32"
  define k where "k = unat n mod 32"
  have k: "k < 32" by (simp add: k_def)
  have "bit (drop_bit k x OR push_bit ((32 - k) mod 32) x) i = bit x ((i + k) mod 32)"
  proof (cases "k = 0")
    case False
    then have "(32 - k) mod 32 = 32 - k" using k by simp
    then show ?thesis
      using i k False by (cases "32 - k \<le> i")
        (auto simp: bit_or_iff bit_push_bit_iff bit_drop_bit_eq le_mod_geq add.commute dest: bit_imp_le_length)
  qed (use i in \<open>simp add: bit_or_iff\<close>)
  then show ?thesis unfolding rmr_cf_rotr32_def Let_def rot_amount k_def .
qed

lemma rotr_rotl: "rmr_cf_rotr32 (rmr_cf_rotl32 x n) n = x"
proof (rule bit_word_eqI)
  fix i assume "i < LENGTH(32)"
  then have i: "i < 32" by simp
  define k where "k = unat n mod 32"
  have k: "k < 32" by (simp add: k_def)
  have "((i + k) mod 32 + (32 - k)) mod 32 = i"
    using i k by (cases "i + k < 32") (simp_all add: le_mod_geq)
  then show "bit (rmr_cf_rotr32 (rmr_cf_rotl32 x n) n) i = bit x i"
    using i by (simp add: bit_rotr bit_rotl k_def)
qed

text \<open>
  The substrate's byte operations are exact: storing and loading a word is the identity in both
  byte orders and widths, the exclusive or of two 64-byte blocks is bytewise, the branch-free
  comparison of 32 bytes is zero exactly for equal bytes, and a rotation to the left by any amount,
  also 0 and more than 31, is undone by the rotation to the right.
\<close>

theorem cf140_operations:
  assumes "length a = 32" "length b = 32" "length c = 64" "length d = 64"
  shows "rmr_cf_load32_le (rmr_cf_store32_le v) = v \<and> rmr_cf_load32_be (rmr_cf_store32_be v) = v \<and>
    rmr_cf_load64_le (rmr_cf_store64_le w) = w \<and>
    rmr_cf_xor64_bytes c d = map2 (XOR) c d \<and>
    (rmr_cf_diff32 a b = 0) = (a = b) \<and> rmr_cf_rotr32 (rmr_cf_rotl32 v n) n = v"
proof -
  have "rmr_cf_xor64_bytes c d = map2 (XOR) (take 32 c) (take 32 d) @ map2 (XOR) (drop 32 c) (drop 32 d)"
    using assms(3,4) by (simp add: rmr_cf_xor64_bytes_def xor32_eq_map2)
  then show ?thesis
    using assms(1,2) by (simp add: map2_split diff32_eq_0 rotr_rotl)
qed

lemma cf140_operations_witness:
  "rmr_cf_load32_le (rmr_cf_store32_le 0x01020304) = 0x01020304 \<and>
    rmr_cf_load32_be (rmr_cf_store32_be 0x01020304) = 0x01020304 \<and>
    rmr_cf_load64_le (rmr_cf_store64_le 9) = 9 \<and>
    rmr_cf_xor64_bytes (replicate 64 3) (replicate 64 5) = map2 (XOR) (replicate 64 3) (replicate 64 5) \<and>
    (rmr_cf_diff32 (replicate 32 1) (replicate 32 2) = 0) = (replicate 32 1 = (replicate 32 2 :: bytes)) \<and>
    rmr_cf_rotr32 (rmr_cf_rotl32 0x01020304 40) 40 = 0x01020304"
  by (rule cf140_operations) simp_all

section \<open>The supervisor along a history\<close>

text \<open>The states a caller can reach from an initialised supervisor, with the events it was given and
  the actions it answered, the last one first.\<close>

inductive guard_reachable :: "u32 \<Rightarrow> rmr_cf_guard \<Rightarrow> (u32 \<times> u32) list \<Rightarrow> bool" where
  guard_start: "rmr_cf_guard_init (Some g0) m = Some g \<Longrightarrow> guard_reachable m g []"
| guard_event: "guard_reachable m g h \<Longrightarrow> rmr_cf_guard_step (Some g) event = (Some g', action) \<Longrightarrow>
    guard_reachable m g' ((event, action) # h)"

inductive_cases guard_reachable_ConsE: "guard_reachable m g ((event, action) # h)"

text \<open>How often the operation was started since it was armed.\<close>

fun attempts :: "(u32 \<times> u32) list \<Rightarrow> nat" where
  "attempts [] = 0"
| "attempts ((event, action) # h) =
    (if action = ACTION_EXECUTE then 1 else if action = ACTION_RETRY then Suc (attempts h) else attempts h)"

lemmas guard_consts =
  GUARD_IDLE_def GUARD_RUNNING_def GUARD_ACK_WAIT_def GUARD_ROLLBACK_def GUARD_FAILSAFE_def GUARD_HALTED_def
  EVENT_ARM_def EVENT_EXEC_OK_def EVENT_EXEC_FAIL_def EVENT_ACK_OK_def EVENT_ACK_FAIL_def
  EVENT_WATCHDOG_EXPIRED_def EVENT_ROLLBACK_OK_def EVENT_ROLLBACK_FAIL_def EVENT_OPERATOR_RESET_def
  ACTION_EXECUTE_def ACTION_REQUEST_ACK_def ACTION_COMMIT_def ACTION_RETRY_def ACTION_ROLLBACK_def
  ACTION_ENTER_FAILSAFE_def ACTION_HALT_def ACTION_RESET_ACCEPTED_def

lemmas guard_defs =
  rmr_cf_guard_step_def guard_step_state_def rmr_cf_guard_retry_or_rollback_def rmr_cf_guard_fail_closed_def

definition guard_inv :: "u32 \<Rightarrow> rmr_cf_guard \<Rightarrow> (u32 \<times> u32) list \<Rightarrow> bool" where
  "guard_inv m g h \<longleftrightarrow>
    g_state g \<le> GUARD_HALTED \<and> g_max_retries g = min m GUARD_RETRY_LIMIT \<and> g_retries g \<le> g_max_retries g \<and>
    g_sequence g = of_nat (length h) \<and>
    (g_state g = GUARD_RUNNING \<longrightarrow> h \<noteq> [] \<and> snd (hd h) \<in> {ACTION_EXECUTE, ACTION_RETRY}) \<and>
    (g_state g = GUARD_ACK_WAIT \<longrightarrow> h \<noteq> [] \<and> hd h = (EVENT_EXEC_OK, ACTION_REQUEST_ACK)) \<and>
    (g_state g = GUARD_ROLLBACK \<longrightarrow> g_retries g = g_max_retries g) \<and>
    (g_state g \<in> {GUARD_RUNNING, GUARD_ACK_WAIT, GUARD_ROLLBACK} \<longrightarrow> attempts h = Suc (unat (g_retries g)))"

lemma guard_inv_init: "rmr_cf_guard_init (Some g0) m = Some g \<Longrightarrow> guard_inv m g []"
  by (auto simp: rmr_cf_guard_init_def guard_inv_def guard_consts min_def)

lemma guard_state_cases:
  assumes "g_state g \<le> GUARD_HALTED"
  shows "g_state g = GUARD_IDLE \<or> g_state g = GUARD_RUNNING \<or> g_state g = GUARD_ACK_WAIT \<or>
    g_state g = GUARD_ROLLBACK \<or> g_state g = GUARD_FAILSAFE \<or> g_state g = GUARD_HALTED"
proof -
  let ?n = "unat (g_state g)"
  have "?n \<le> 5" using assms by (simp add: word_le_nat_alt guard_consts)
  then have "?n = 0 \<or> ?n = 1 \<or> ?n = 2 \<or> ?n = 3 \<or> ?n = 4 \<or> ?n = 5" by linarith
  then show ?thesis unfolding guard_consts by (auto simp: word_unat_eq_iff)
qed


text \<open>The kinds of step, with what each does to the state and the retry counter.\<close>

lemma guard_step_kinds:
  assumes "rmr_cf_guard_step (Some g) event = (Some g', action)"
  shows "g_sequence g' = g_sequence g + 1" "g_max_retries g' = g_max_retries g"
    and "g_state g' = GUARD_RUNNING \<and> action = ACTION_EXECUTE \<and> g_retries g' = 0 \<or>
      g_state g' = GUARD_RUNNING \<and> action = ACTION_RETRY \<and> g_retries g < g_max_retries g \<and>
        g_retries g' = g_retries g + 1 \<and> g_state g \<in> {GUARD_RUNNING, GUARD_ACK_WAIT} \<or>
      g_state g' = GUARD_ROLLBACK \<and> action = ACTION_ROLLBACK \<and> \<not> g_retries g < g_max_retries g \<and>
        g_retries g' = g_retries g \<and> g_state g \<in> {GUARD_RUNNING, GUARD_ACK_WAIT} \<or>
      g_state g' = GUARD_ACK_WAIT \<and> g_state g = GUARD_RUNNING \<and> event = EVENT_EXEC_OK \<and>
        action = ACTION_REQUEST_ACK \<and> g_retries g' = g_retries g \<or>
      g_state g' \<in> {GUARD_IDLE, GUARD_FAILSAFE, GUARD_HALTED} \<and> g_retries g' \<in> {0, g_retries g}"
proof -
  let ?r = "guard_step_state (g\<lparr>g_sequence := g_sequence g + 1, g_last_event := event\<rparr>) event"
  have r: "?r = (g', action)" using assms by (simp add: rmr_cf_guard_step_def Let_def split_beta prod_eq_iff)
  show "g_sequence g' = g_sequence g + 1" "g_max_retries g' = g_max_retries g"
    using r by (auto simp: guard_step_state_def rmr_cf_guard_retry_or_rollback_def rmr_cf_guard_fail_closed_def
        split: if_splits)
  show "g_state g' = GUARD_RUNNING \<and> action = ACTION_EXECUTE \<and> g_retries g' = 0 \<or>
      g_state g' = GUARD_RUNNING \<and> action = ACTION_RETRY \<and> g_retries g < g_max_retries g \<and>
        g_retries g' = g_retries g + 1 \<and> g_state g \<in> {GUARD_RUNNING, GUARD_ACK_WAIT} \<or>
      g_state g' = GUARD_ROLLBACK \<and> action = ACTION_ROLLBACK \<and> \<not> g_retries g < g_max_retries g \<and>
        g_retries g' = g_retries g \<and> g_state g \<in> {GUARD_RUNNING, GUARD_ACK_WAIT} \<or>
      g_state g' = GUARD_ACK_WAIT \<and> g_state g = GUARD_RUNNING \<and> event = EVENT_EXEC_OK \<and>
        action = ACTION_REQUEST_ACK \<and> g_retries g' = g_retries g \<or>
      g_state g' \<in> {GUARD_IDLE, GUARD_FAILSAFE, GUARD_HALTED} \<and> g_retries g' \<in> {0, g_retries g}"
    using r unfolding guard_step_state_def rmr_cf_guard_retry_or_rollback_def rmr_cf_guard_fail_closed_def
    by (simp only: prod.inject split: if_split_asm) (elim conjE, hypsubst, simp)+
qed

lemma guard_inv_step:
  assumes inv: "guard_inv m g h" and step: "rmr_cf_guard_step (Some g) event = (Some g', action)"
  shows "guard_inv m g' ((event, action) # h)"
proof -
  note k = guard_step_kinds [OF step]
  have base: "g_max_retries g = min m GUARD_RETRY_LIMIT" "g_retries g \<le> g_max_retries g"
    "g_sequence g = of_nat (length h)"
    "g_state g \<in> {GUARD_RUNNING, GUARD_ACK_WAIT} \<Longrightarrow> attempts h = Suc (unat (g_retries g))"
    using inv unfolding guard_inv_def by blast+
  have bound: "g_max_retries g \<le> 7" unfolding base(1) by (simp add: GUARD_RETRY_LIMIT_def)
  have inc: "unat (g_retries g + 1) = Suc (unat (g_retries g)) \<and> g_retries g + 1 \<le> g_max_retries g"
    if "g_retries g < g_max_retries g"
    using that bound by (simp add: word_less_nat_alt word_le_nat_alt unat_word_ariths)
  have seq: "g_sequence g' = of_nat (length ((event, action) # h))" by (simp add: k(1) base(3))
  from k(3) show ?thesis
    by (elim disjE) (use base inc seq k(2) in \<open>auto simp: guard_inv_def guard_consts not_less\<close>)
qed

lemma guard_reachable_inv: "guard_reachable m g h \<Longrightarrow> guard_inv m g h"
  by (induction rule: guard_reachable.induct) (auto intro: guard_inv_init guard_inv_step)

text \<open>What each action tells of the state before and of the event.\<close>

lemma guard_commit_step:
  assumes "guard_inv m g h" "rmr_cf_guard_step (Some g) event = (Some g', ACTION_COMMIT)"
  shows "event = EVENT_ACK_OK \<and> g_state g = GUARD_ACK_WAIT \<and> g_state g' = GUARD_IDLE"
  using assms unfolding guard_defs by (auto simp: guard_consts Let_def split: if_splits)

lemma guard_stop_states:
  assumes "rmr_cf_guard_step (Some g) event = (Some g', action)"
  shows "g_state g = GUARD_HALTED \<Longrightarrow> g_state g' = GUARD_HALTED \<and> action = ACTION_HALT"
    and "g_state g = GUARD_FAILSAFE \<Longrightarrow> event \<noteq> EVENT_OPERATOR_RESET \<Longrightarrow>
      g_state g' = GUARD_FAILSAFE \<and> action = ACTION_ENTER_FAILSAFE"
  using assms unfolding guard_defs by (auto simp: guard_consts Let_def split: if_splits)

fun guard_run :: "rmr_cf_guard \<Rightarrow> u32 list \<Rightarrow> rmr_cf_guard \<times> u32 list" where
  "guard_run g [] = (g, [])"
| "guard_run g (event # events) =
    (let (g', action) = rmr_cf_guard_step (Some g) event; (g'', actions) = guard_run (the g') events
     in (g'', action # actions))"

lemma guard_step_Some: "\<exists>g' action. rmr_cf_guard_step (Some g) event = (Some g', action)"
  by (simp add: rmr_cf_guard_step_def split_beta Let_def)

text \<open>
  C12. Along any history of an initialised supervisor, a commit is answered only to an
  acknowledgement that directly follows a successful execution, the operation has been started at
  least once and at most \<open>1 + min max_retries 7\<close> times since it was armed, and the sequence
  number counts the events modulo \<open>2 ^ 32\<close>.
\<close>

theorem guard_commit_history:
  assumes "guard_reachable m g ((event, ACTION_COMMIT) # h)"
  shows "event = EVENT_ACK_OK \<and> h \<noteq> [] \<and> hd h = (EVENT_EXEC_OK, ACTION_REQUEST_ACK) \<and>
    1 \<le> attempts h \<and> attempts h \<le> 1 + unat (min m GUARD_RETRY_LIMIT) \<and>
    g_state g = GUARD_IDLE \<and> g_sequence g = of_nat (Suc (length h))"
  using assms
proof (rule guard_reachable_ConsE)
  fix g0 assume g0: "guard_reachable m g0 h" "rmr_cf_guard_step (Some g0) event = (Some g, ACTION_COMMIT)"
  have inv: "guard_inv m g0 h" by (rule guard_reachable_inv [OF g0(1)])
  have c: "event = EVENT_ACK_OK \<and> g_state g0 = GUARD_ACK_WAIT \<and> g_state g = GUARD_IDLE"
    by (rule guard_commit_step [OF inv g0(2)])
  have "g_retries g0 \<le> min m GUARD_RETRY_LIMIT" using inv unfolding guard_inv_def by (metis (no_types))
  then have "unat (g_retries g0) \<le> unat (min m GUARD_RETRY_LIMIT)" by (simp only: word_le_nat_alt)
  then show ?thesis
    using inv c guard_inv_step [OF inv g0(2)] by (simp add: guard_inv_def)
qed

lemma guard_commit_history_witness:
  "EVENT_ACK_OK = EVENT_ACK_OK \<and>
   [(EVENT_EXEC_OK, ACTION_REQUEST_ACK), (EVENT_ARM, ACTION_EXECUTE)] \<noteq> [] \<and>
   hd [(EVENT_EXEC_OK, ACTION_REQUEST_ACK), (EVENT_ARM, ACTION_EXECUTE)] = (EVENT_EXEC_OK, ACTION_REQUEST_ACK) \<and>
   1 \<le> attempts [(EVENT_EXEC_OK, ACTION_REQUEST_ACK), (EVENT_ARM, ACTION_EXECUTE)] \<and>
   attempts [(EVENT_EXEC_OK, ACTION_REQUEST_ACK), (EVENT_ARM, ACTION_EXECUTE)] \<le> 1 + unat (min 3 GUARD_RETRY_LIMIT) \<and>
   g_state \<lparr>g_state = 0, g_retries = 0, g_max_retries = 3, g_sequence = 3, g_last_event = 4\<rparr> = GUARD_IDLE \<and>
   g_sequence \<lparr>g_state = 0, g_retries = 0, g_max_retries = 3, g_sequence = 3, g_last_event = 4\<rparr> =
     of_nat (Suc (length [(EVENT_EXEC_OK, ACTION_REQUEST_ACK), (EVENT_ARM, ACTION_EXECUTE)]))"
proof (rule guard_commit_history)
  let ?g = "\<lambda>s n e. \<lparr>g_state = s, g_retries = 0, g_max_retries = 3, g_sequence = n, g_last_event = e\<rparr>"
  have "guard_reachable 3 (?g 0 0 0) []"
    by (rule guard_start [of "?g 9 9 9"]) (simp add: rmr_cf_guard_init_def guard_consts GUARD_RETRY_LIMIT_def)
  then have "guard_reachable 3 (?g 1 1 1) [(EVENT_ARM, ACTION_EXECUTE)]"
    by (rule guard_event) (simp add: guard_defs guard_consts)
  then have "guard_reachable 3 (?g 2 2 2) [(EVENT_EXEC_OK, ACTION_REQUEST_ACK), (EVENT_ARM, ACTION_EXECUTE)]"
    by (rule guard_event) (simp add: guard_defs guard_consts)
  then show "guard_reachable 3 (?g 0 3 4)
      ((EVENT_ACK_OK, ACTION_COMMIT) # [(EVENT_EXEC_OK, ACTION_REQUEST_ACK), (EVENT_ARM, ACTION_EXECUTE)])"
    by (rule guard_event) (simp add: guard_defs guard_consts)
qed

text \<open>
  The supervisor fails closed: whatever events follow, a halted supervisor stays halted and
  answers only \<open>HALT\<close>; one in the failsafe state stays there and starts nothing until an operator
  reset; and in any other state an event that the state does not expect leads to the failsafe state.
\<close>

theorem guard_fails_closed:
  "(g_state g = GUARD_HALTED \<longrightarrow>
     g_state (fst (guard_run g events)) = GUARD_HALTED \<and> set (snd (guard_run g events)) \<subseteq> {ACTION_HALT}) \<and>
   (g_state g = GUARD_FAILSAFE \<and> EVENT_OPERATOR_RESET \<notin> set events \<longrightarrow>
     g_state (fst (guard_run g events)) = GUARD_FAILSAFE \<and>
     set (snd (guard_run g events)) \<subseteq> {ACTION_ENTER_FAILSAFE}) \<and>
   (g_state g \<noteq> GUARD_HALTED \<and> EVENT_OPERATOR_RESET < event \<longrightarrow>
     (case rmr_cf_guard_step (Some g) event of (g', action) \<Rightarrow>
        g_state (the g') = GUARD_FAILSAFE \<and> action = ACTION_ENTER_FAILSAFE))"
proof (intro conjI impI)
  show "g_state (fst (guard_run g events)) = GUARD_HALTED" "set (snd (guard_run g events)) \<subseteq> {ACTION_HALT}"
    if "g_state g = GUARD_HALTED"
    using that
  proof (induction events arbitrary: g)
    case (Cons event events)
    case 1
    obtain g' action where s: "rmr_cf_guard_step (Some g) event = (Some g', action)" using guard_step_Some by blast
    show ?case using Cons(1) [of g'] guard_stop_states(1) [OF s 1] s by (simp add: split_beta Let_def)
    case 2
    obtain g' action where s: "rmr_cf_guard_step (Some g) event = (Some g', action)" using guard_step_Some by blast
    show ?case using Cons(2) [of g'] guard_stop_states(1) [OF s 2] s by (simp add: split_beta Let_def)
  qed simp_all
next
  assume "g_state g = GUARD_FAILSAFE \<and> EVENT_OPERATOR_RESET \<notin> set events"
  then have "g_state (fst (guard_run g events)) = GUARD_FAILSAFE \<and>
     set (snd (guard_run g events)) \<subseteq> {ACTION_ENTER_FAILSAFE}"
  proof (induction events arbitrary: g)
    case (Cons event events)
    obtain g' action where s: "rmr_cf_guard_step (Some g) event = (Some g', action)" using guard_step_Some by blast
    show ?case using Cons(1) [of g'] guard_stop_states(2) [OF s] Cons(2) s by (auto simp: split_beta Let_def)
  qed simp
  then show "g_state (fst (guard_run g events)) = GUARD_FAILSAFE"
    "set (snd (guard_run g events)) \<subseteq> {ACTION_ENTER_FAILSAFE}" by simp_all
next
  assume a: "g_state g \<noteq> GUARD_HALTED \<and> EVENT_OPERATOR_RESET < event"
  then have "event \<notin> {1, 2, 3, 4, 5, 6, 7, 8, 9}" by (auto simp: guard_consts)
  then show "case rmr_cf_guard_step (Some g) event of (g', action) \<Rightarrow>
      g_state (the g') = GUARD_FAILSAFE \<and> action = ACTION_ENTER_FAILSAFE"
    using a unfolding guard_defs guard_consts by (simp add: Let_def)
qed


lemma guard_fails_closed_witness:
  "let g = (\<lambda>s. \<lparr>g_state = s, g_retries = 0, g_max_retries = 3, g_sequence = 5, g_last_event = 1\<rparr>) in
   set (snd (guard_run (g GUARD_HALTED) [EVENT_OPERATOR_RESET, EVENT_ARM])) \<subseteq> {ACTION_HALT} \<and>
   set (snd (guard_run (g GUARD_FAILSAFE) [EVENT_ARM, EVENT_ACK_OK])) \<subseteq> {ACTION_ENTER_FAILSAFE} \<and>
   (case rmr_cf_guard_step (Some (g GUARD_RUNNING)) 99 of (g', action) \<Rightarrow>
      g_state (the g') = GUARD_FAILSAFE \<and> action = ACTION_ENTER_FAILSAFE)"
proof -
  let ?g = "\<lambda>s. \<lparr>g_state = s, g_retries = 0, g_max_retries = 3, g_sequence = 5, g_last_event = 1\<rparr>"
  have "set (snd (guard_run (?g GUARD_HALTED) [EVENT_OPERATOR_RESET, EVENT_ARM])) \<subseteq> {ACTION_HALT}"
    by (rule guard_fails_closed [THEN conjunct1, THEN mp, THEN conjunct2]) simp
  moreover have "set (snd (guard_run (?g GUARD_FAILSAFE) [EVENT_ARM, EVENT_ACK_OK])) \<subseteq> {ACTION_ENTER_FAILSAFE}"
    by (rule guard_fails_closed [THEN conjunct2, THEN conjunct1, THEN mp, THEN conjunct2]) (simp add: guard_consts)
  moreover have "case rmr_cf_guard_step (Some (?g GUARD_RUNNING)) 99 of (g', action) \<Rightarrow>
      g_state (the g') = GUARD_FAILSAFE \<and> action = ACTION_ENTER_FAILSAFE"
    by (rule guard_fails_closed [THEN conjunct2, THEN conjunct2, THEN mp]) (simp add: guard_consts)
  ultimately show ?thesis unfolding Let_def by blast
qed

end
