(* ===== verification/Crc32.thy ===== *)
theory Crc32
  imports Prelude
begin

text \<open>
  The checksums: \<open>rmr/freestanding_custody16/src/rmr_fc16_crc32c.c\<close> (CRC-32C by a table of nibbles or by
  the CRC instructions, and the CRC-32 of the ZIP format) and the bitwise CRC-32C of
  \<open>rmr/src/rmr_stability.c\<close>. The instructions are modelled by what the manuals of the processors
  document: they divide by the reflected polynomial one bit at a time. Which of the four variants
  is compiled is the parameter \<open>crc_backend\<close>.
\<close>

section \<open>The CRC instructions\<close>

text \<open>One step of the division by the reflected polynomial \<open>P\<close>.\<close>

definition crc_bit :: "'a::len word \<Rightarrow> 'a word \<Rightarrow> 'a word" where
  "crc_bit P x = drop_bit 1 x XOR (if bit x 0 then P else 0)"

definition crc_bits :: "'a::len word \<Rightarrow> nat \<Rightarrow> 'a word \<Rightarrow> 'a word" where
  "crc_bits P n x = (crc_bit P ^^ n) x"

definition crc32_instr8 :: "u32 \<Rightarrow> u8 \<Rightarrow> u32" where
  "crc32_instr8 crc v = ucast (crc_bits (0x82f63b78 :: u64) 8 (ucast crc XOR ucast v))"

definition crc32_instr32 :: "u32 \<Rightarrow> u32 \<Rightarrow> u32" where
  "crc32_instr32 crc v = ucast (crc_bits (0x82f63b78 :: u64) 32 (ucast crc XOR ucast v))"

definition crc32_instr64 :: "u32 \<Rightarrow> u64 \<Rightarrow> u32" where
  "crc32_instr64 crc v = ucast (crc_bits (0x82f63b78 :: u64) 64 (ucast crc XOR v))"

section \<open>Custody16\<close>

datatype crc_backend = CRC_AARCH64 | CRC_X86_64 | CRC_I386 | CRC_SOFTWARE

definition crc32c_nibble :: words where
  "crc32c_nibble =
    [0x00000000, 0x105ec76f, 0x20bd8ede, 0x30e349b1, 0x417b1dbc, 0x5125dad3, 0x61c69362, 0x7198540d,
     0x82f63b78, 0x92a8fc17, 0xa24bb5a6, 0xb21572c9, 0xc38d26c4, 0xd3d3e1ab, 0xe330a81a, 0xf36e6f75]"

definition crc32_nibble :: words where
  "crc32_nibble =
    [0x00000000, 0x1db71064, 0x3b6e20c8, 0x26d930ac, 0x76dc4190, 0x6b6b51f4, 0x4db26158, 0x5005713c,
     0xedb88320, 0xf00f9344, 0xd6d6a3e8, 0xcb61b38c, 0x9b64c2b0, 0x86d3d2d4, 0xa00ae278, 0xbdbdf21c]"

definition load_le64 :: "bytes \<Rightarrow> u64" where
  "load_le64 p = foldl (\<lambda>v i. v OR push_bit (i * 8) (ucast (p ! i))) 0 [0..<8]"

definition load_le32 :: "bytes \<Rightarrow> u32" where
  "load_le32 p = ucast (p ! 0) OR push_bit 8 (ucast (p ! 1)) OR push_bit 16 (ucast (p ! 2)) OR
     push_bit 24 (ucast (p ! 3))"

definition FLAG_CRC32C_HW_ARM :: u32 where "FLAG_CRC32C_HW_ARM = push_bit 0 1"
definition FLAG_CRC32C_HW_X86 :: u32 where "FLAG_CRC32C_HW_X86 = push_bit 1 1"

definition rmr_fc16_crc32c_backend_flags :: "crc_backend \<Rightarrow> u32" where
  "rmr_fc16_crc32c_backend_flags be =
    (case be of
       CRC_AARCH64 \<Rightarrow> FLAG_CRC32C_HW_ARM
     | CRC_X86_64 \<Rightarrow> FLAG_CRC32C_HW_X86
     | CRC_I386 \<Rightarrow> FLAG_CRC32C_HW_X86
     | CRC_SOFTWARE \<Rightarrow> 0)"

text \<open>The loops of the update: each returns the state and the bytes that are left.\<close>

function crc_loop64 :: "u32 \<Rightarrow> bytes \<Rightarrow> u32 \<times> bytes" where
  "crc_loop64 state data =
    (if 8 \<le> length data then crc_loop64 (crc32_instr64 state (load_le64 data)) (drop 8 data)
     else (state, data))"
  by pat_completeness auto
termination by (relation "measure (length \<circ> snd)") auto

function crc_loop32 :: "u32 \<Rightarrow> bytes \<Rightarrow> u32 \<times> bytes" where
  "crc_loop32 state data =
    (if 4 \<le> length data then crc_loop32 (crc32_instr32 state (load_le32 data)) (drop 4 data)
     else (state, data))"
  by pat_completeness auto
termination by (relation "measure (length \<circ> snd)") auto

declare crc_loop64.simps [simp del] crc_loop32.simps [simp del]

text \<open>The body of the table-driven loop, with the table as a parameter.\<close>

definition nibble_step :: "words \<Rightarrow> u32 \<Rightarrow> u8 \<Rightarrow> u32" where
  "nibble_step table state b =
    (let state = state XOR ucast b;
         state = drop_bit 4 state XOR table ! unat (state AND 0x0f)
     in drop_bit 4 state XOR table ! unat (state AND 0x0f))"

definition rmr_fc16_crc32c_update :: "crc_backend \<Rightarrow> u32 \<Rightarrow> bytes option \<Rightarrow> nat \<Rightarrow> u32" where
  "rmr_fc16_crc32c_update be state data len =
    (case data of
       None \<Rightarrow> state
     | Some p \<Rightarrow>
         let p = take len p
         in (case be of
               CRC_SOFTWARE \<Rightarrow> foldl (nibble_step crc32c_nibble) state p
             | CRC_I386 \<Rightarrow> (let (state, p) = crc_loop32 state p in foldl crc32_instr8 state p)
             | _ \<Rightarrow>
                 let (state, p) = crc_loop64 state p;
                     (state, p) = crc_loop32 state p
                 in foldl crc32_instr8 state p))"

definition rmr_fc16_crc32c_finish :: "u32 \<Rightarrow> u32" where
  "rmr_fc16_crc32c_finish state = state XOR 0xffffffff"

definition rmr_fc16_crc32_ieee :: "bytes option \<Rightarrow> nat \<Rightarrow> u32" where
  "rmr_fc16_crc32_ieee data len =
    (case data of
       None \<Rightarrow> 0
     | Some p \<Rightarrow> foldl (nibble_step crc32_nibble) 0xffffffff (take len p) XOR 0xffffffff)"

section \<open>The bitwise version\<close>

definition stability_crc_bit :: "u32 \<Rightarrow> u32" where
  "stability_crc_bit crc = (let m = - (crc AND 1) in drop_bit 1 crc XOR (0x82F63B78 AND m))"

fun stability_crc32c_update :: "u32 \<Rightarrow> bytes \<Rightarrow> u32" where
  "stability_crc32c_update crc [] = crc"
| "stability_crc32c_update crc (b # p) = stability_crc32c_update ((stability_crc_bit ^^ 8) (crc XOR ucast b)) p"

definition RmR_Stability_CRC32C :: "bytes option \<Rightarrow> nat \<Rightarrow> u32" where
  "RmR_Stability_CRC32C data n =
    (if data = None \<and> n \<noteq> 0 then 0
     else stability_crc32c_update 0xFFFFFFFF (take n (case data of Some p \<Rightarrow> p | None \<Rightarrow> [])) XOR 0xFFFFFFFF)"

section \<open>Reference\<close>

text \<open>Division of the message by the reflected polynomial, bit by bit.\<close>

definition crc_byte :: "u32 \<Rightarrow> u32 \<Rightarrow> u8 \<Rightarrow> u32" where
  "crc_byte P crc b = crc_bits P 8 (crc XOR ucast b)"

definition crc_spec :: "u32 \<Rightarrow> u32 \<Rightarrow> bytes \<Rightarrow> u32" where
  "crc_spec P = foldl (crc_byte P)"

definition CRC32C_POLY :: u32 where "CRC32C_POLY = 0x82f63b78"
definition CRC32_POLY :: u32 where "CRC32_POLY = 0xedb88320"

subsection \<open>Linearity\<close>

lemma crc_bit_xor: "crc_bit P (x XOR y) = crc_bit P x XOR crc_bit P y"
  by (rule bit_word_eqI) (auto simp: crc_bit_def bit_xor_iff bit_drop_bit_eq)

lemma crc_bits_xor: "crc_bits P n (x XOR y) = crc_bits P n x XOR crc_bits P n y"
  by (induction n) (simp_all add: crc_bits_def crc_bit_xor)

lemma crc_bits_add: "crc_bits P (m + n) x = crc_bits P n (crc_bits P m x)"
  unfolding crc_bits_def by (subst add.commute) (simp add: funpow_add)

text \<open>Zeros at the low end are only shifted out.\<close>

lemma crc_bits_shift:
  "(\<And>k. k < n \<Longrightarrow> \<not> bit x k) \<Longrightarrow> crc_bits P n x = drop_bit n x"
proof (induction n)
  case (Suc n)
  have "crc_bits P (Suc n) x = crc_bit P (drop_bit n x)"
    using Suc by (simp add: crc_bits_def)
  also have "\<dots> = drop_bit (Suc n) x"
    using Suc.prems [of n] by (simp add: crc_bit_def bit_drop_bit_eq)
  finally show ?case .
qed (simp add: crc_bits_def)

lemma crc_bits_split: "crc_bits P n x = crc_bits P n (take_bit n x) XOR drop_bit n x"
proof -
  have "x = take_bit n x XOR (x AND NOT (mask n))"
    by (rule bit_word_eqI) (auto simp: bit_simps)
  then have "crc_bits P n x = crc_bits P n (take_bit n x) XOR crc_bits P n (x AND NOT (mask n))"
    by (metis crc_bits_xor)
  also have "crc_bits P n (x AND NOT (mask n)) = drop_bit n (x AND NOT (mask n))"
    by (rule crc_bits_shift) (simp add: bit_simps)
  also have "\<dots> = drop_bit n x"
    by (rule bit_word_eqI) (auto simp: bit_simps dest: bit_imp_le_length)
  finally show ?thesis .
qed


subsection \<open>The tables\<close>

lemma nibble_tables:
  "crc32c_nibble = map (\<lambda>i. crc_bits CRC32C_POLY 4 (of_nat i)) [0..<16]"
  "crc32_nibble = map (\<lambda>i. crc_bits CRC32_POLY 4 (of_nat i)) [0..<16]"
  by code_simp+

lemma u32_low_nibble: "unat (s AND 0x0f :: u32) < 16" "of_nat (unat (s AND 0x0f :: u32)) = take_bit 4 (s :: u32)"
proof -
  have m: "s AND 0x0f = take_bit 4 s" by (simp add: take_bit_eq_mask mask_eq_exp_minus_1)
  show "unat (s AND 0x0f) < 16" unfolding m by (simp add: unsigned_take_bit_eq take_bit_nat_less_exp [where n = 4, simplified])
  show "of_nat (unat (s AND 0x0f)) = take_bit 4 s" unfolding m by simp
qed

lemma nibble_step_byte:
  assumes "table = map (\<lambda>i. crc_bits P 4 (of_nat i)) [0..<16]"
  shows "nibble_step table s b = crc_byte P s b"
proof -
  have n: "drop_bit 4 x XOR table ! unat (x AND 0x0f) = crc_bits P 4 x" for x
    using u32_low_nibble [of x] by (subst crc_bits_split) (simp add: assms xor.commute)
  show ?thesis
    using crc_bits_add [of P 4 4] unfolding nibble_step_def Let_def n crc_byte_def by simp
qed

lemma stability_bit: "stability_crc_bit x = crc_bit CRC32C_POLY x"
proof -
  have "x AND 1 = (if bit x 0 then 1 else 0)"
    by (simp add: and_one_eq odd_iff_mod_2_eq_one bit_0)
  then show ?thesis
    by (cases "bit x 0") (simp_all add: stability_crc_bit_def crc_bit_def CRC32C_POLY_def Let_def)
qed

lemma stability_eq: "stability_crc32c_update crc p = crc_spec CRC32C_POLY crc p"
proof -
  have "stability_crc_bit = crc_bit CRC32C_POLY" by (simp add: fun_eq_iff stability_bit)
  then show ?thesis
    by (induction crc p rule: stability_crc32c_update.induct) (simp_all add: crc_spec_def crc_byte_def crc_bits_def)
qed

subsection \<open>The instructions\<close>

lemma crc_bit_ucast: "crc_bit (ucast P :: u64) (ucast x) = ucast (crc_bit P x)" for P x :: u32
proof (rule bit_word_eqI)
  fix n assume "n < LENGTH(64)"
  have "bit x 0 = bit (ucast x :: u64) 0" by (simp add: bit_ucast_iff)
  moreover have "\<not> bit x k" if "32 \<le> k" for k using bit_imp_le_length [of x k] that by auto
  ultimately show "bit (crc_bit (ucast P :: u64) (ucast x)) n = bit (ucast (crc_bit P x) :: u64) n"
    using \<open>n < LENGTH(64)\<close>
    by (auto simp: crc_bit_def bit_xor_iff bit_drop_bit_eq bit_ucast_iff dest: bit_imp_le_length)
qed

lemma crc_bits_ucast: "crc_bits (ucast P :: u64) n (ucast x) = ucast (crc_bits P n x)" for P x :: u32
  by (induction n) (simp_all add: crc_bits_def crc_bit_ucast)

lemma ucast_xor_64: "(ucast (a XOR b) :: u64) = ucast a XOR ucast b" for a b :: u32
  by (rule bit_word_eqI) (auto simp: bit_xor_iff bit_ucast_iff)

lemma ucast_byte_64: "(ucast (ucast b :: u32) :: u64) = ucast b" for b :: u8
  by (rule bit_word_eqI) (auto simp: bit_ucast_iff dest: bit_imp_le_length)

lemma ucast_32_64_32 [simp]: "(ucast (ucast x :: u64) :: u32) = x" for x :: u32
  by (rule bit_word_eqI) (simp add: bit_ucast_iff)

text \<open>The value of a little-endian group of bytes, and the group fed to the divider at once.\<close>

fun le_val :: "bytes \<Rightarrow> u64" where
  "le_val [] = 0"
| "le_val (b # bs) = ucast b XOR push_bit 8 (le_val bs)"

lemma le_val_bound: "bit (le_val bs) k \<Longrightarrow> k < 8 * length bs"
proof (induction bs arbitrary: k)
  case (Cons b bs)
  from Cons.prems consider "bit b k" | "8 \<le> k" "bit (le_val bs) (k - 8)"
    by (auto simp: bit_xor_iff bit_ucast_iff bit_push_bit_iff)
  then show ?case
  proof cases
    case 1
    then have "k < 8" using bit_imp_le_length [of b k] by simp
    then show ?thesis by simp
  next
    case 2
    then have "k - 8 < 8 * length bs" by (intro Cons.IH)
    then show ?thesis using 2 by simp
  qed
qed simp

lemma crc_bits_group:
  assumes "length bs \<le> 8"
  shows "crc_bits (ucast P :: u64) (8 * length bs) (ucast crc XOR le_val bs) = ucast (crc_spec P crc bs)"
  using assms
proof (induction bs arbitrary: crc)
  case (Cons b bs)
  let ?P = "ucast P :: u64" and ?r = "le_val bs"
  have top: "\<not> bit ?r k" if "56 \<le> k" for k
    using le_val_bound [of bs k] that Cons.prems by auto
  have "crc_bits ?P 8 (push_bit 8 ?r) = drop_bit 8 (push_bit 8 ?r)"
    by (rule crc_bits_shift) (simp add: bit_push_bit_iff)
  also have "\<dots> = ?r"
    by (rule bit_word_eqI) (use top not_le in \<open>auto simp: bit_drop_bit_eq bit_push_bit_iff\<close>)
  finally have r: "crc_bits ?P 8 (push_bit 8 ?r) = ?r" .
  have "ucast crc XOR le_val (b # bs) = ucast (crc XOR ucast b) XOR push_bit 8 ?r"
    by (simp add: ucast_xor_64 ucast_byte_64 xor.assoc)
  then have "crc_bits ?P (8 * length (b # bs)) (ucast crc XOR le_val (b # bs)) =
      crc_bits ?P (8 * length bs) (crc_bits ?P 8 (ucast (crc XOR ucast b) XOR push_bit 8 ?r))"
    using crc_bits_add [of ?P 8 "8 * length bs"] by simp
  also have "crc_bits ?P 8 (ucast (crc XOR ucast b) XOR push_bit 8 ?r) = ucast (crc_byte P crc b) XOR ?r"
    by (simp only: crc_bits_xor [of ?P] r crc_bits_ucast crc_byte_def)
  also have "crc_bits ?P (8 * length bs) (ucast (crc_byte P crc b) XOR ?r) = ucast (crc_spec P crc (b # bs))"
    using Cons by (simp add: crc_spec_def)
  finally show ?case .
qed (simp add: crc_bits_def crc_spec_def)

lemma le_val_load64:
  assumes "length p = 8"
  shows "load_le64 p = le_val p"
proof (rule bit_word_eqI)
  obtain a b c d e f g h where p: "p = [a, b, c, d, e, f, g, h]" using assms by (rule length8E)
  have l: "load_le64 p = ((((((ucast a OR push_bit 8 (ucast b)) OR push_bit 16 (ucast c)) OR push_bit 24 (ucast d)) OR
      push_bit 32 (ucast e)) OR push_bit 40 (ucast f)) OR push_bit 48 (ucast g)) OR push_bit 56 (ucast h)"
    unfolding load_le64_def upt8 p by (simp only: foldl.simps mult_0 nth_Cons_0 nth_Cons_numeral) simp
  have r: "le_val p = ucast a XOR push_bit 8 (ucast b) XOR push_bit 16 (ucast c) XOR push_bit 24 (ucast d) XOR
      push_bit 32 (ucast e) XOR push_bit 40 (ucast f) XOR push_bit 48 (ucast g) XOR push_bit 56 (ucast h)"
    unfolding p by (simp add: push_bit_xor)
  fix n assume "n < LENGTH(64)"
  then have "n < 64" by simp
  from byte_cases64 [OF this] show "bit (load_le64 p) n = bit (le_val p) n"
    unfolding l r by (elim disjE conjE) (simp_all add: bit_or_iff bit_xor_iff bit_push_bit_iff bit_ucast_iff u8_bit_beyond)
qed

lemma le_val_load32:
  assumes "length p = 4"
  shows "ucast (load_le32 p) = le_val p"
proof (rule bit_word_eqI)
  obtain a b c d where p: "p = [a, b, c, d]" using assms by (rule length4E)
  fix n assume "n < LENGTH(64)"
  then consider "n < 8" | "8 \<le> n \<and> n < 16" | "16 \<le> n \<and> n < 24" | "24 \<le> n \<and> n < 32" | "32 \<le> n \<and> n < 64"
    by fastforce
  then show "bit (ucast (load_le32 p) :: u64) n = bit (le_val p) n"
    unfolding p load_le32_def by cases (auto simp: bit_simps u8_bit_beyond)
qed

lemma poly64: "(0x82f63b78 :: u64) = ucast CRC32C_POLY"
  by (simp add: CRC32C_POLY_def)

lemma instr_spec:
  "crc32_instr8 crc b = crc_byte CRC32C_POLY crc b"
  "length q = 4 \<Longrightarrow> crc32_instr32 crc (load_le32 q) = crc_spec CRC32C_POLY crc q"
  "length p = 8 \<Longrightarrow> crc32_instr64 crc (load_le64 p) = crc_spec CRC32C_POLY crc p"
proof -
  show "crc32_instr8 crc b = crc_byte CRC32C_POLY crc b"
    using crc_bits_group [of "[b]" CRC32C_POLY crc] by (simp add: crc32_instr8_def poly64 crc_spec_def)
  show "crc32_instr32 crc (load_le32 q) = crc_spec CRC32C_POLY crc q" if "length q = 4"
    using crc_bits_group [of q CRC32C_POLY crc] that by (simp add: crc32_instr32_def poly64 le_val_load32)
  show "crc32_instr64 crc (load_le64 p) = crc_spec CRC32C_POLY crc p" if "length p = 8"
    using crc_bits_group [of p CRC32C_POLY crc] that by (simp add: crc32_instr64_def poly64 le_val_load64)
qed

lemma crc_spec_append: "crc_spec P crc (a @ b) = crc_spec P (crc_spec P crc a) b"
  by (simp add: crc_spec_def)

lemma instr8_loop: "foldl crc32_instr8 crc p = crc_spec CRC32C_POLY crc p"
  by (simp add: crc_spec_def instr_spec(1) [abs_def])

lemma crc_loop32_spec:
  "crc_loop32 crc p = (crc', p') \<Longrightarrow> crc_spec CRC32C_POLY crc' p' = crc_spec CRC32C_POLY crc p"
proof (induction crc p rule: crc_loop32.induct)
  case (1 crc p)
  show ?case
  proof (cases "4 \<le> length p")
    case True
    then have "crc_spec CRC32C_POLY crc' p' = crc_spec CRC32C_POLY (crc32_instr32 crc (load_le32 p)) (drop 4 p)"
      using 1 by (subst (asm) crc_loop32.simps) simp
    also have "load_le32 p = load_le32 (take 4 p)" by (simp add: load_le32_def)
    also have "crc_spec CRC32C_POLY (crc32_instr32 crc (load_le32 (take 4 p))) (drop 4 p) = crc_spec CRC32C_POLY crc p"
      using True by (simp add: instr_spec(2) crc_spec_append [symmetric])
    finally show ?thesis .
  next
    case False
    then show ?thesis using 1(2) by (subst (asm) crc_loop32.simps) simp
  qed
qed

lemma crc_loop64_spec:
  "crc_loop64 crc p = (crc', p') \<Longrightarrow> crc_spec CRC32C_POLY crc' p' = crc_spec CRC32C_POLY crc p"
proof (induction crc p rule: crc_loop64.induct)
  case (1 crc p)
  show ?case
  proof (cases "8 \<le> length p")
    case True
    then have "crc_spec CRC32C_POLY crc' p' = crc_spec CRC32C_POLY (crc32_instr64 crc (load_le64 p)) (drop 8 p)"
      using 1 by (subst (asm) crc_loop64.simps) simp
    also have "load_le64 p = load_le64 (take 8 p)" by (simp add: load_le64_def upt8)
    also have "crc_spec CRC32C_POLY (crc32_instr64 crc (load_le64 (take 8 p))) (drop 8 p) = crc_spec CRC32C_POLY crc p"
      using True by (simp add: instr_spec(3) crc_spec_append [symmetric])
    finally show ?thesis .
  next
    case False
    then show ?thesis using 1(2) by (subst (asm) crc_loop64.simps) simp
  qed
qed

text \<open>The equation the clients use.\<close>

lemma crc32c_update_spec: "rmr_fc16_crc32c_update be crc (Some p) n = crc_spec CRC32C_POLY crc (take n p)"
proof -
  let ?p = "take n p"
  have l32: "(let (s, q) = crc_loop32 c r in foldl crc32_instr8 s q) = crc_spec CRC32C_POLY c r" for c r
    by (cases "crc_loop32 c r") (simp add: instr8_loop crc_loop32_spec)
  have l64: "(let (s, q) = crc_loop64 crc ?p; (s, q) = crc_loop32 s q in foldl crc32_instr8 s q) =
      crc_spec CRC32C_POLY crc ?p"
    by (cases "crc_loop64 crc ?p") (use l32 in \<open>simp add: crc_loop64_spec\<close>)
  have "nibble_step crc32c_nibble = crc_byte CRC32C_POLY"
    by (simp add: fun_eq_iff nibble_step_byte [OF nibble_tables(1)])
  then show ?thesis
    using l32 l64 by (cases be) (simp_all add: rmr_fc16_crc32c_update_def crc_spec_def Let_def)
qed

section \<open>The checksum is a bijection of its state\<close>

lemma crc_bit_inject: "bit P 31 \<Longrightarrow> crc_bit P x = crc_bit P y \<Longrightarrow> x = y" for P x y :: u32
proof -
  assume P: "bit P 31" and e: "crc_bit P x = crc_bit P y"
  have b: "bit (crc_bit P x) k = (bit x (Suc k) \<noteq> (bit x 0 \<and> bit P k))" for k and x :: u32
    by (simp add: crc_bit_def bit_simps bit_0)
  have top: "\<not> bit z 32" for z :: u32 using bit_imp_le_length [of z 32] by auto
  have z: "bit x 0 = bit y 0"
    using b [of x 31] b [of y 31] P top e by simp
  have s: "bit x (Suc k) = bit y (Suc k)" for k
    using b [of x k] b [of y k] z e by metis
  show ?thesis
    by (rule bit_word_eqI) (metis z s not0_implies_Suc)
qed

lemma crc_bits_inject: "bit P 31 \<Longrightarrow> crc_bits P n x = crc_bits P n y \<Longrightarrow> x = y" for P x y :: u32
  by (induction n) (auto simp: crc_bits_def dest: crc_bit_inject)

lemma xor_cancel_word: "x XOR c = y XOR c \<longleftrightarrow> x = y" for x y c :: "'a::len word"
proof
  have "z = (z XOR c) XOR c" for z by (simp add: xor.assoc)
  then show "x XOR c = y XOR c \<Longrightarrow> x = y" by metis
qed simp

lemma crc_byte_inject_state: "bit P 31 \<Longrightarrow> crc_byte P x b = crc_byte P y b \<Longrightarrow> x = y"
  unfolding crc_byte_def by (drule (1) crc_bits_inject) (simp only: xor_cancel_word)

lemma crc_byte_inject_byte:
  assumes "bit P 31" "crc_byte P x b = crc_byte P x b'"
  shows "b = b'"
proof -
  have "ucast b XOR x = ucast b' XOR x"
    using crc_bits_inject [OF assms(1)] assms(2) unfolding crc_byte_def by (simp only: xor.commute)
  then have "(ucast b :: u32) = ucast b'" by (simp only: xor_cancel_word)
  then have e: "bit (ucast b :: u32) k = bit (ucast b' :: u32) k" for k by simp
  have "bit b k = bit b' k" if "k < 8" for k
    using e [of k] that by (simp add: bit_simps)
  then show ?thesis by (intro bit_word_eqI) simp
qed

lemma crc_spec_inject_state: "bit P 31 \<Longrightarrow> crc_spec P x d = crc_spec P y d \<Longrightarrow> x = y"
  unfolding crc_spec_def by (induction d arbitrary: x y) (auto dest: crc_byte_inject_state)

lemma crc_spec_one_byte:
  assumes "bit P 31" "k < length d" "x \<noteq> d ! k"
  shows "crc_spec P c (d[k := x]) \<noteq> crc_spec P c d"
proof
  let ?s = "crc_spec P c (take k d)"
  assume e: "crc_spec P c (d[k := x]) = crc_spec P c d"
  have d: "d = take k d @ (d ! k # drop (Suc k) d)"
    using assms(2) by (simp add: id_take_nth_drop)
  have u: "d[k := x] = take k d @ (x # drop (Suc k) d)"
    using assms(2) by (simp add: upd_conv_take_nth_drop)
  have "crc_spec P (crc_byte P ?s x) (drop (Suc k) d) = crc_spec P (crc_byte P ?s (d ! k)) (drop (Suc k) d)"
    using e by (subst (asm) u, subst (asm) (2) d) (simp add: crc_spec_append, simp add: crc_spec_def)
  then show False
    using crc_spec_inject_state crc_byte_inject_byte assms(1,3) by blast
qed

lemma crc_poly_top [simp]: "bit CRC32C_POLY 31" "bit CRC32_POLY 31"
  by (simp_all add: CRC32C_POLY_def CRC32_POLY_def bit_simps)

text \<open>
  C13. Every build of the CRC-32C update, by the CRC instructions eight, four and one byte at a time
  or by the table of sixteen entries, divides the message by the Castagnoli polynomial bit by bit,
  continues over pieces, and gives the checksum of the bitwise routine of the stability module; the
  other table gives the CRC-32 of the ZIP format.
\<close>

theorem crc32c_backends_agree:
  "rmr_fc16_crc32c_update be crc (Some (a @ b)) (length (a @ b)) =
     rmr_fc16_crc32c_update be' (rmr_fc16_crc32c_update be'' crc (Some a) (length a)) (Some b) (length b) \<and>
   rmr_fc16_crc32c_update be crc (Some a) (length a) = crc_spec CRC32C_POLY crc a \<and>
   rmr_fc16_crc32c_finish (rmr_fc16_crc32c_update be 0xffffffff (Some a) (length a)) =
     RmR_Stability_CRC32C (Some a) (length a) \<and>
   rmr_fc16_crc32_ieee (Some a) (length a) = crc_spec CRC32_POLY 0xffffffff a XOR 0xffffffff"
proof (intro conjI)
  have "nibble_step crc32_nibble = crc_byte CRC32_POLY"
    by (simp add: fun_eq_iff nibble_step_byte [OF nibble_tables(2)])
  then show "rmr_fc16_crc32_ieee (Some a) (length a) = crc_spec CRC32_POLY 0xffffffff a XOR 0xffffffff"
    by (simp add: rmr_fc16_crc32_ieee_def crc_spec_def)
qed (simp_all add: crc32c_update_spec crc_spec_append rmr_fc16_crc32c_finish_def RmR_Stability_CRC32C_def stability_eq)

end
