(* ===== verification/Sha256.thy ===== *)
theory Sha256
  imports Cf140
begin

text \<open>
  The three SHA-256 implementations of the repository: the streaming one of \<open>rmr/core/hash_sha256.c\<close>,
  the streaming one of \<open>rmr/freestanding_custody16/src/rmr_fc16_sha256.c\<close> and the unrolled block function of
  \<open>rmr/crypto_freestanding140/addresses/H01/kernel/rmr_cf140_sha256_compress.c\<close>. The padding loop of
  the streaming ones ends only for a fill level of at most 64, so it is a partial function to an
  option. The fill level (\<open>size_t\<close> and \<open>uint32_t\<close>) is a natural number: it never exceeds 64.
\<close>

section \<open>The core implementation\<close>

definition ROTR :: "u32 \<Rightarrow> nat \<Rightarrow> u32" where "ROTR x n = drop_bit n x OR push_bit (32 - n) x"
definition CH :: "u32 \<Rightarrow> u32 \<Rightarrow> u32 \<Rightarrow> u32" where "CH x y z = (x AND y) XOR (NOT x AND z)"
definition MAJ :: "u32 \<Rightarrow> u32 \<Rightarrow> u32 \<Rightarrow> u32" where "MAJ x y z = (x AND y) XOR (x AND z) XOR (y AND z)"
definition EP0 :: "u32 \<Rightarrow> u32" where "EP0 x = ROTR x 2 XOR ROTR x 13 XOR ROTR x 22"
definition EP1 :: "u32 \<Rightarrow> u32" where "EP1 x = ROTR x 6 XOR ROTR x 11 XOR ROTR x 25"
definition SIG0 :: "u32 \<Rightarrow> u32" where "SIG0 x = ROTR x 7 XOR ROTR x 18 XOR drop_bit 3 x"
definition SIG1 :: "u32 \<Rightarrow> u32" where "SIG1 x = ROTR x 17 XOR ROTR x 19 XOR drop_bit 10 x"

definition SHA_K :: words where
  "SHA_K = concat
    [[0x428a2f98, 0x71374491, 0xb5c0fbcf, 0xe9b5dba5], [0x3956c25b, 0x59f111f1, 0x923f82a4, 0xab1c5ed5],
     [0xd807aa98, 0x12835b01, 0x243185be, 0x550c7dc3], [0x72be5d74, 0x80deb1fe, 0x9bdc06a7, 0xc19bf174],
     [0xe49b69c1, 0xefbe4786, 0x0fc19dc6, 0x240ca1cc], [0x2de92c6f, 0x4a7484aa, 0x5cb0a9dc, 0x76f988da],
     [0x983e5152, 0xa831c66d, 0xb00327c8, 0xbf597fc7], [0xc6e00bf3, 0xd5a79147, 0x06ca6351, 0x14292967],
     [0x27b70a85, 0x2e1b2138, 0x4d2c6dfc, 0x53380d13], [0x650a7354, 0x766a0abb, 0x81c2c92e, 0x92722c85],
     [0xa2bfe8a1, 0xa81a664b, 0xc24b8b70, 0xc76c51a3], [0xd192e819, 0xd6990624, 0xf40e3585, 0x106aa070],
     [0x19a4c116, 0x1e376c08, 0x2748774c, 0x34b0bcb5], [0x391c0cb3, 0x4ed8aa4a, 0x5b9cca4f, 0x682e6ff3],
     [0x748f82ee, 0x78a5636f, 0x84c87814, 0x8cc70208], [0x90befffa, 0xa4506ceb, 0xbef9a3f7, 0xc67178f2]]"

record pai_sha256_ctx =
  sha_h :: words
  sha_len :: u64
  sha_buf :: bytes
  sha_buf_len :: nat

text \<open>The first sixteen words of the schedule, then the words from \<open>i = length w\<close> on.\<close>

definition sha_words :: "bytes \<Rightarrow> words" where
  "sha_words block = map (\<lambda>i.
     push_bit 24 (ucast (block ! (i * 4))) OR push_bit 16 (ucast (block ! (i * 4 + 1))) OR
     push_bit 8 (ucast (block ! (i * 4 + 2))) OR ucast (block ! (i * 4 + 3))) [0..<16]"

fun sha_extend :: "words \<Rightarrow> nat \<Rightarrow> words" where
  "sha_extend w 0 = w"
| "sha_extend w (Suc n) =
    (let i = length w
     in sha_extend (w @ [SIG1 (w ! (i - 2)) + w ! (i - 7) + SIG0 (w ! (i - 15)) + w ! (i - 16)]) n)"

type_synonym sha_vars = "u32 \<times> u32 \<times> u32 \<times> u32 \<times> u32 \<times> u32 \<times> u32 \<times> u32"

fun sha_round :: "u32 \<Rightarrow> u32 \<Rightarrow> sha_vars \<Rightarrow> sha_vars" where
  "sha_round k w (a, b, c, d, e, f, g, h) =
    (let t1 = h + EP1 e + CH e f g + k + w;
         t2 = EP0 a + MAJ a b c
     in (t1 + t2, a, b, c, d + t1, e, f, g))"

definition process_block :: "pai_sha256_ctx \<Rightarrow> bytes \<Rightarrow> pai_sha256_ctx" where
  "process_block ctx block =
    (let w = sha_extend (sha_words block) 48;
         s = sha_h ctx;
         (a, b, c, d, e, f, g, h) =
           foldl (\<lambda>v i. sha_round (SHA_K ! i) (w ! i) v)
             (s ! 0, s ! 1, s ! 2, s ! 3, s ! 4, s ! 5, s ! 6, s ! 7) [0..<64]
     in ctx\<lparr>sha_h := [s ! 0 + a, s ! 1 + b, s ! 2 + c, s ! 3 + d, s ! 4 + e, s ! 5 + f, s ! 6 + g, s ! 7 + h]\<rparr>)"

definition pai_sha256_init :: "pai_sha256_ctx \<Rightarrow> pai_sha256_ctx" where
  "pai_sha256_init ctx =
    ctx\<lparr>sha_h := [0x6a09e667, 0xbb67ae85, 0x3c6ef372, 0xa54ff53a, 0x510e527f, 0x9b05688c, 0x1f83d9ab, 0x5be0cd19],
        sha_len := 0, sha_buf_len := 0\<rparr>"

text \<open>\<open>ctx->buf[ctx->buf_len++] = x\<close>, and the test for a full buffer.\<close>

definition sha_put :: "pai_sha256_ctx \<Rightarrow> u8 \<Rightarrow> pai_sha256_ctx" where
  "sha_put ctx x =
    ctx\<lparr>sha_buf := (sha_buf ctx)[sha_buf_len ctx := x], sha_buf_len := sha_buf_len ctx + 1\<rparr>"

definition sha_flush :: "pai_sha256_ctx \<Rightarrow> pai_sha256_ctx" where
  "sha_flush ctx =
    (if sha_buf_len ctx = 64 then (process_block ctx (sha_buf ctx))\<lparr>sha_buf_len := 0\<rparr> else ctx)"

fun sha_update_loop :: "pai_sha256_ctx \<Rightarrow> bytes \<Rightarrow> pai_sha256_ctx" where
  "sha_update_loop ctx [] = ctx"
| "sha_update_loop ctx (x # data) = sha_update_loop (sha_flush (sha_put ctx x)) data"

definition pai_sha256_update :: "pai_sha256_ctx \<Rightarrow> bytes \<Rightarrow> pai_sha256_ctx" where
  "pai_sha256_update ctx data =
    sha_update_loop (ctx\<lparr>sha_len := sha_len ctx + of_nat (length data) * 8\<rparr>) data"

partial_function (option) sha_pad_loop :: "pai_sha256_ctx \<Rightarrow> pai_sha256_ctx option" where
  "sha_pad_loop ctx =
    (if sha_buf_len ctx \<noteq> 56 then sha_pad_loop (sha_put (sha_flush ctx) 0) else Some ctx)"

definition sha_out :: "words \<Rightarrow> bytes" where
  "sha_out h = concat (map (\<lambda>i.
     [ucast (drop_bit 24 (h ! i)), ucast (drop_bit 16 (h ! i)), ucast (drop_bit 8 (h ! i)), ucast (h ! i)]) [0..<8])"

definition pai_sha256_final :: "pai_sha256_ctx \<Rightarrow> (pai_sha256_ctx \<times> bytes) option" where
  "pai_sha256_final ctx =
    (case sha_pad_loop (sha_put ctx 0x80) of
       None \<Rightarrow> None
     | Some ctx \<Rightarrow>
         let ctx = foldl (\<lambda>c i. sha_put c (ucast (drop_bit (i * 8) (sha_len c)))) ctx [7, 6, 5, 4, 3, 2, 1, 0];
             ctx = process_block ctx (sha_buf ctx)
         in Some (ctx, sha_out (sha_h ctx)))"

definition pai_sha256_hex :: "bytes \<Rightarrow> string" where
  "pai_sha256_hex hash =
    concat (map (\<lambda>i. [''0123456789abcdef'' ! unat (drop_bit 4 (hash ! i)),
                      ''0123456789abcdef'' ! unat (hash ! i AND 0x0f)]) [0..<32]) @ [CHR 0x00]"

section \<open>The unrolled block function\<close>

record rmr_cf_sha256_state =
  cf_h0 :: u32
  cf_h1 :: u32
  cf_h2 :: u32
  cf_h3 :: u32
  cf_h4 :: u32
  cf_h5 :: u32
  cf_h6 :: u32
  cf_h7 :: u32

definition RMR_CF_CH :: "u32 \<Rightarrow> u32 \<Rightarrow> u32 \<Rightarrow> u32" where "RMR_CF_CH x y z = (x AND y) XOR (NOT x AND z)"
definition RMR_CF_MAJ :: "u32 \<Rightarrow> u32 \<Rightarrow> u32 \<Rightarrow> u32" where
  "RMR_CF_MAJ x y z = (x AND y) XOR (x AND z) XOR (y AND z)"
definition RMR_CF_BSIG0 :: "u32 \<Rightarrow> u32" where
  "RMR_CF_BSIG0 x = rmr_cf_rotr32 x 2 XOR rmr_cf_rotr32 x 13 XOR rmr_cf_rotr32 x 22"
definition RMR_CF_BSIG1 :: "u32 \<Rightarrow> u32" where
  "RMR_CF_BSIG1 x = rmr_cf_rotr32 x 6 XOR rmr_cf_rotr32 x 11 XOR rmr_cf_rotr32 x 25"
definition RMR_CF_SSIG0 :: "u32 \<Rightarrow> u32" where
  "RMR_CF_SSIG0 x = rmr_cf_rotr32 x 7 XOR rmr_cf_rotr32 x 18 XOR drop_bit 3 x"
definition RMR_CF_SSIG1 :: "u32 \<Rightarrow> u32" where
  "RMR_CF_SSIG1 x = rmr_cf_rotr32 x 17 XOR rmr_cf_rotr32 x 19 XOR drop_bit 10 x"

text \<open>The macro changes only its arguments \<open>d\<close> and \<open>h\<close>; it returns their new values.\<close>

definition RMR_CF_ROUND ::
  "u32 \<Rightarrow> u32 \<Rightarrow> u32 \<Rightarrow> u32 \<Rightarrow> u32 \<Rightarrow> u32 \<Rightarrow> u32 \<Rightarrow> u32 \<Rightarrow> u32 \<Rightarrow> u32 \<Rightarrow> u32 \<times> u32" where
  "RMR_CF_ROUND a b c d e f g h k wv =
    (let t1 = h + RMR_CF_BSIG1 e + RMR_CF_CH e f g + k + wv;
         t2 = RMR_CF_BSIG0 a + RMR_CF_MAJ a b c
     in (d + t1, t1 + t2))"

definition rmr_cf_sha256_init :: "rmr_cf_sha256_state \<Rightarrow> rmr_cf_sha256_state" where
  "rmr_cf_sha256_init state =
    state\<lparr>cf_h0 := 0x6a09e667, cf_h1 := 0xbb67ae85, cf_h2 := 0x3c6ef372, cf_h3 := 0xa54ff53a,
      cf_h4 := 0x510e527f, cf_h5 := 0x9b05688c, cf_h6 := 0x1f83d9ab, cf_h7 := 0x5be0cd19\<rparr>"

text \<open>
  The code assigns \<open>w[16]\<close> to \<open>w[63]\<close> one by one; the assignments of \<open>w[32]\<close> to \<open>w[47]\<close> and of \<open>w[48]\<close>
  to \<open>w[63]\<close> are those of \<open>w[16]\<close> to \<open>w[31]\<close> with the indices shifted by 16 and 32. So sixteen
  assignments are written out and used three times.
\<close>

definition cf_expand16 :: "words \<Rightarrow> words" where
  "cf_expand16 w =
    (let w16 = RMR_CF_SSIG1 (w ! 14) + w ! 9 + RMR_CF_SSIG0 (w ! 1) + w ! 0;
         w17 = RMR_CF_SSIG1 (w ! 15) + w ! 10 + RMR_CF_SSIG0 (w ! 2) + w ! 1;
         w18 = RMR_CF_SSIG1 w16 + w ! 11 + RMR_CF_SSIG0 (w ! 3) + w ! 2;
         w19 = RMR_CF_SSIG1 w17 + w ! 12 + RMR_CF_SSIG0 (w ! 4) + w ! 3;
         w20 = RMR_CF_SSIG1 w18 + w ! 13 + RMR_CF_SSIG0 (w ! 5) + w ! 4;
         w21 = RMR_CF_SSIG1 w19 + w ! 14 + RMR_CF_SSIG0 (w ! 6) + w ! 5;
         w22 = RMR_CF_SSIG1 w20 + w ! 15 + RMR_CF_SSIG0 (w ! 7) + w ! 6;
         w23 = RMR_CF_SSIG1 w21 + w16 + RMR_CF_SSIG0 (w ! 8) + w ! 7;
         w24 = RMR_CF_SSIG1 w22 + w17 + RMR_CF_SSIG0 (w ! 9) + w ! 8;
         w25 = RMR_CF_SSIG1 w23 + w18 + RMR_CF_SSIG0 (w ! 10) + w ! 9;
         w26 = RMR_CF_SSIG1 w24 + w19 + RMR_CF_SSIG0 (w ! 11) + w ! 10;
         w27 = RMR_CF_SSIG1 w25 + w20 + RMR_CF_SSIG0 (w ! 12) + w ! 11;
         w28 = RMR_CF_SSIG1 w26 + w21 + RMR_CF_SSIG0 (w ! 13) + w ! 12;
         w29 = RMR_CF_SSIG1 w27 + w22 + RMR_CF_SSIG0 (w ! 14) + w ! 13;
         w30 = RMR_CF_SSIG1 w28 + w23 + RMR_CF_SSIG0 (w ! 15) + w ! 14;
         w31 = RMR_CF_SSIG1 w29 + w24 + RMR_CF_SSIG0 w16 + w ! 15
     in [w16, w17, w18, w19, w20, w21, w22, w23, w24, w25, w26, w27, w28, w29, w30, w31])"

text \<open>
  Likewise eight rounds, after which the variables are back in their places, are written out and
  used eight times, with the constants of the calls in \<open>CF_K\<close>.
\<close>

definition CF_K :: words where
  "CF_K = concat
    [[0x428a2f98, 0x71374491, 0xb5c0fbcf, 0xe9b5dba5, 0x3956c25b, 0x59f111f1, 0x923f82a4, 0xab1c5ed5],
     [0xd807aa98, 0x12835b01, 0x243185be, 0x550c7dc3, 0x72be5d74, 0x80deb1fe, 0x9bdc06a7, 0xc19bf174],
     [0xe49b69c1, 0xefbe4786, 0x0fc19dc6, 0x240ca1cc, 0x2de92c6f, 0x4a7484aa, 0x5cb0a9dc, 0x76f988da],
     [0x983e5152, 0xa831c66d, 0xb00327c8, 0xbf597fc7, 0xc6e00bf3, 0xd5a79147, 0x06ca6351, 0x14292967],
     [0x27b70a85, 0x2e1b2138, 0x4d2c6dfc, 0x53380d13, 0x650a7354, 0x766a0abb, 0x81c2c92e, 0x92722c85],
     [0xa2bfe8a1, 0xa81a664b, 0xc24b8b70, 0xc76c51a3, 0xd192e819, 0xd6990624, 0xf40e3585, 0x106aa070],
     [0x19a4c116, 0x1e376c08, 0x2748774c, 0x34b0bcb5, 0x391c0cb3, 0x4ed8aa4a, 0x5b9cca4f, 0x682e6ff3],
     [0x748f82ee, 0x78a5636f, 0x84c87814, 0x8cc70208, 0x90befffa, 0xa4506ceb, 0xbef9a3f7, 0xc67178f2]]"

fun cf_rounds8 :: "words \<Rightarrow> words \<Rightarrow> nat \<Rightarrow> sha_vars \<Rightarrow> sha_vars" where
  "cf_rounds8 k w i (a, b, c, d, e, f, g, h) =
    (let (d, h) = RMR_CF_ROUND a b c d e f g h (k ! i) (w ! i);
         (c, g) = RMR_CF_ROUND h a b c d e f g (k ! (i + 1)) (w ! (i + 1));
         (b, f) = RMR_CF_ROUND g h a b c d e f (k ! (i + 2)) (w ! (i + 2));
         (a, e) = RMR_CF_ROUND f g h a b c d e (k ! (i + 3)) (w ! (i + 3));
         (h, d) = RMR_CF_ROUND e f g h a b c d (k ! (i + 4)) (w ! (i + 4));
         (g, c) = RMR_CF_ROUND d e f g h a b c (k ! (i + 5)) (w ! (i + 5));
         (f, b) = RMR_CF_ROUND c d e f g h a b (k ! (i + 6)) (w ! (i + 6));
         (e, a) = RMR_CF_ROUND b c d e f g h a (k ! (i + 7)) (w ! (i + 7))
     in (a, b, c, d, e, f, g, h))"

definition rmr_cf_sha256_compress_block :: "rmr_cf_sha256_state \<Rightarrow> bytes \<Rightarrow> rmr_cf_sha256_state" where
  "rmr_cf_sha256_compress_block st block =
    (let w0 = map (\<lambda>i. rmr_cf_load32_be (drop i block)) [0, 4, 8, 12, 16, 20, 24, 28, 32, 36, 40, 44, 48, 52, 56, 60];
         w1 = cf_expand16 w0;
         w2 = cf_expand16 w1;
         w3 = cf_expand16 w2;
         w = w0 @ w1 @ w2 @ w3;
         (a, b, c, d, e, f, g, h) =
           foldl (\<lambda>v i. cf_rounds8 CF_K w i v)
             (cf_h0 st, cf_h1 st, cf_h2 st, cf_h3 st, cf_h4 st, cf_h5 st, cf_h6 st, cf_h7 st)
             [0, 8, 16, 24, 32, 40, 48, 56]
     in \<lparr>cf_h0 = cf_h0 st + a, cf_h1 = cf_h1 st + b, cf_h2 = cf_h2 st + c, cf_h3 = cf_h3 st + d,
         cf_h4 = cf_h4 st + e, cf_h5 = cf_h5 st + f, cf_h6 = cf_h6 st + g, cf_h7 = cf_h7 st + h\<rparr>)"

section \<open>The implementation of Custody16\<close>

definition k256 :: words where
  "k256 = concat
    [[0x428a2f98, 0x71374491, 0xb5c0fbcf, 0xe9b5dba5, 0x3956c25b, 0x59f111f1, 0x923f82a4, 0xab1c5ed5],
     [0xd807aa98, 0x12835b01, 0x243185be, 0x550c7dc3, 0x72be5d74, 0x80deb1fe, 0x9bdc06a7, 0xc19bf174],
     [0xe49b69c1, 0xefbe4786, 0x0fc19dc6, 0x240ca1cc, 0x2de92c6f, 0x4a7484aa, 0x5cb0a9dc, 0x76f988da],
     [0x983e5152, 0xa831c66d, 0xb00327c8, 0xbf597fc7, 0xc6e00bf3, 0xd5a79147, 0x06ca6351, 0x14292967],
     [0x27b70a85, 0x2e1b2138, 0x4d2c6dfc, 0x53380d13, 0x650a7354, 0x766a0abb, 0x81c2c92e, 0x92722c85],
     [0xa2bfe8a1, 0xa81a664b, 0xc24b8b70, 0xc76c51a3, 0xd192e819, 0xd6990624, 0xf40e3585, 0x106aa070],
     [0x19a4c116, 0x1e376c08, 0x2748774c, 0x34b0bcb5, 0x391c0cb3, 0x4ed8aa4a, 0x5b9cca4f, 0x682e6ff3],
     [0x748f82ee, 0x78a5636f, 0x84c87814, 0x8cc70208, 0x90befffa, 0xa4506ceb, 0xbef9a3f7, 0xc67178f2]]"

record rmr_fc16_sha256_ctx =
  fs_h :: words
  fs_bit_len :: u64
  fs_buffer :: bytes
  fs_buffer_len :: nat

definition fc16_block :: "rmr_fc16_sha256_ctx \<Rightarrow> bytes \<Rightarrow> rmr_fc16_sha256_ctx" where
  "fc16_block c b =
    (let w = sha_extend (sha_words b) 48;
         s = fs_h c;
         (a, bb, cc, d, e, f, g, h) =
           foldl (\<lambda>v i. sha_round (k256 ! i) (w ! i) v)
             (s ! 0, s ! 1, s ! 2, s ! 3, s ! 4, s ! 5, s ! 6, s ! 7) [0..<64]
     in c\<lparr>fs_h := [s ! 0 + a, s ! 1 + bb, s ! 2 + cc, s ! 3 + d, s ! 4 + e, s ! 5 + f, s ! 6 + g, s ! 7 + h]\<rparr>)"

definition rmr_fc16_sha256_init :: "rmr_fc16_sha256_ctx option \<Rightarrow> rmr_fc16_sha256_ctx option" where
  "rmr_fc16_sha256_init c =
    (case c of
       None \<Rightarrow> None
     | Some c \<Rightarrow> Some (c\<lparr>fs_h := [0x6a09e667, 0xbb67ae85, 0x3c6ef372, 0xa54ff53a, 0x510e527f, 0x9b05688c, 0x1f83d9ab, 0x5be0cd19],
         fs_bit_len := 0, fs_buffer_len := 0\<rparr>))"

definition fs_put :: "rmr_fc16_sha256_ctx \<Rightarrow> u8 \<Rightarrow> rmr_fc16_sha256_ctx" where
  "fs_put c x =
    c\<lparr>fs_buffer := (fs_buffer c)[fs_buffer_len c := x], fs_buffer_len := fs_buffer_len c + 1\<rparr>"

definition fs_flush :: "rmr_fc16_sha256_ctx \<Rightarrow> rmr_fc16_sha256_ctx" where
  "fs_flush c = (if fs_buffer_len c = 64 then (fc16_block c (fs_buffer c))\<lparr>fs_buffer_len := 0\<rparr> else c)"

fun fs_update_loop :: "rmr_fc16_sha256_ctx \<Rightarrow> bytes \<Rightarrow> rmr_fc16_sha256_ctx" where
  "fs_update_loop c [] = c"
| "fs_update_loop c (x # p) = fs_update_loop (fs_flush (fs_put c x)) p"

definition rmr_fc16_sha256_update ::
  "rmr_fc16_sha256_ctx option \<Rightarrow> bytes option \<Rightarrow> nat \<Rightarrow> rmr_fc16_sha256_ctx option" where
  "rmr_fc16_sha256_update c p n =
    (if c = None \<or> p = None \<and> n \<noteq> 0 then c
     else let c = the c;
              data = take n (case p of Some p \<Rightarrow> p | None \<Rightarrow> []);
              c = c\<lparr>fs_bit_len := fs_bit_len c + of_nat n * 8\<rparr>
          in Some (fs_update_loop c data))"

partial_function (option) fs_pad_loop :: "rmr_fc16_sha256_ctx \<Rightarrow> rmr_fc16_sha256_ctx option" where
  "fs_pad_loop c = (if fs_buffer_len c \<noteq> 56 then fs_pad_loop (fs_put (fs_flush c) 0) else Some c)"

text \<open>The finished context and the bytes written to \<open>out\<close>.\<close>

definition fs_final :: "rmr_fc16_sha256_ctx \<Rightarrow> (rmr_fc16_sha256_ctx \<times> bytes) option" where
  "fs_final c =
    (case fs_pad_loop (fs_put c 0x80) of
       None \<Rightarrow> None
     | Some c \<Rightarrow>
         let c = foldl (\<lambda>c i. fs_put c (ucast (drop_bit (i * 8) (fs_bit_len c)))) c [7, 6, 5, 4, 3, 2, 1, 0];
             c = fc16_block c (fs_buffer c)
         in Some (c, sha_out (fs_h c)))"

definition rmr_fc16_sha256_final ::
  "rmr_fc16_sha256_ctx option \<Rightarrow> bytes option \<Rightarrow> (rmr_fc16_sha256_ctx option \<times> bytes option) option" where
  "rmr_fc16_sha256_final c out =
    (if c = None \<or> out = None then Some (c, out)
     else map_option (\<lambda>(c, digest). (Some c, Some (buf_write (the out) 0 digest))) (fs_final (the c)))"

end
