(* ===== verification/Fc16.thy ===== *)
theory Fc16
  imports Crc32 Sha256
begin

text \<open>
  Custody16: the vector helpers \<open>rmr_fc16_vector.c\<close>, the entry accumulator, the sparse word deltas and
  the median of \<open>rmr_fc16_core.c\<close>, and the seal and the stored ZIP of \<open>rmr_fc16_zip.c\<close>, all under
  \<open>rmr/freestanding_custody16/src\<close>. The build flags that select the checksum and vector code are a
  parameter. A pointer the code compares with \<open>NULL\<close> is an option.
\<close>

section \<open>Builds and status codes\<close>

datatype vec_backend = VEC_NEON | VEC_SSE2 | VEC_NONE

record fc16_build =
  b_crc :: crc_backend
  b_vec :: vec_backend

definition RMR_FC16_VERSION :: u32 where "RMR_FC16_VERSION = 1"
definition RMR_FC16_LANES :: nat where "RMR_FC16_LANES = 16"
definition RMR_FC16_MAX_BENCH_SAMPLES :: nat where "RMR_FC16_MAX_BENCH_SAMPLES = 31"

definition FC16_OK :: u32 where "FC16_OK = 0"
definition FC16_ERR_ARGUMENT :: u32 where "FC16_ERR_ARGUMENT = 1"
definition FC16_ERR_STATE :: u32 where "FC16_ERR_STATE = 2"
definition FC16_ERR_CAPACITY :: u32 where "FC16_ERR_CAPACITY = 3"
definition FC16_ERR_SIZE :: u32 where "FC16_ERR_SIZE = 4"
definition FC16_ERR_INTEGRITY :: u32 where "FC16_ERR_INTEGRITY = 5"
definition FC16_ERR_THERMAL :: u32 where "FC16_ERR_THERMAL = 6"

definition FLAG_SIMD_NEON :: u32 where "FLAG_SIMD_NEON = push_bit 2 1"
definition FLAG_SIMD_SSE2 :: u32 where "FLAG_SIMD_SSE2 = push_bit 3 1"
definition FLAG_THERMAL_ACCEPT :: u32 where "FLAG_THERMAL_ACCEPT = push_bit 4 1"
definition FLAG_HW_STAMP_VALID :: u32 where "FLAG_HW_STAMP_VALID = push_bit 6 1"

section \<open>Vectors of sixteen bytes\<close>

definition rmr_fc16_vector_backend_flags :: "vec_backend \<Rightarrow> u32" where
  "rmr_fc16_vector_backend_flags v =
    (case v of VEC_NEON \<Rightarrow> FLAG_SIMD_NEON | VEC_SSE2 \<Rightarrow> FLAG_SIMD_SSE2 | VEC_NONE \<Rightarrow> 0)"

text \<open>\<open>veorq_u8\<close> and \<open>_mm_xor_si128\<close> on loaded vectors, or the loop.\<close>

definition vec_xor16 :: "vec_backend \<Rightarrow> bytes \<Rightarrow> bytes \<Rightarrow> bytes" where
  "vec_xor16 v a b =
    (case v of
       VEC_NONE \<Rightarrow> map (\<lambda>i. a ! i XOR b ! i) [0..<16]
     | _ \<Rightarrow> map2 (XOR) (take 16 a) (take 16 b))"

definition rmr_fc16_diff16 ::
  "vec_backend \<Rightarrow> bytes option \<Rightarrow> bytes option \<Rightarrow> bytes option \<Rightarrow> u32 \<times> bytes option" where
  "rmr_fc16_diff16 v before after xor_mask =
    (if before = None \<or> after = None \<or> xor_mask = None then (0, xor_mask)
     else
       let d = vec_xor16 v (the before) (the after);
           changed = foldl (\<lambda>c i. c OR ucast (d ! i)) (0 :: u32) [0..<16]
       in (if changed \<noteq> 0 then 1 else 0, Some (buf_write (the xor_mask) 0 d)))"

definition rmr_fc16_apply16 :: "vec_backend \<Rightarrow> bytes option \<Rightarrow> bytes option \<Rightarrow> bytes option" where
  "rmr_fc16_apply16 v target xor_mask =
    (if target = None \<or> xor_mask = None then target
     else Some (buf_write (the target) 0 (vec_xor16 v (the target) (the xor_mask))))"

definition rmr_fc16_xor_fold16 :: "bytes option \<Rightarrow> u32" where
  "rmr_fc16_xor_fold16 data =
    (case data of
       None \<Rightarrow> 0
     | Some d \<Rightarrow> foldl (\<lambda>v i. v XOR push_bit (unat ((of_nat i AND 3 :: u32) * 8)) (ucast (d ! i))) 0 [0..<16])"

section \<open>The accumulator\<close>

record rmr_fc16_lane =
  l_crc_state :: u32
  l_xor_fold :: u32
  l_bytes :: u64
  l_blocks16 :: u64

record rmr_fc16_context =
  c_lane :: "rmr_fc16_lane list"
  c_sha :: rmr_fc16_sha256_ctx
  c_root_crc_state :: u32
  c_entry_crc_state :: u32
  c_path_crc_final :: u32
  c_flags :: u32
  c_entry_declared_size :: u64
  c_entry_seen_size :: u64
  c_entry_count :: u64
  c_total_bytes :: u64
  c_hw_stamp :: u64
  c_thermal_before_milli_c :: u32
  c_thermal_after_milli_c :: u32
  c_thermal_limit_milli_c :: u32
  c_thermal_max_delta_milli_c :: u32
  c_entry_open :: u8
  c_entry_base_lane :: u8
  c_reserved :: u16

record rmr_fc16_snapshot =
  s_version :: u32
  s_flags :: u32
  s_root_crc32c :: u32
  s_path_count_low :: u32
  s_entry_count :: u64
  s_total_bytes :: u64
  s_hw_stamp :: u64
  s_thermal_before_milli_c :: u32
  s_thermal_after_milli_c :: u32
  s_warmup_rounds :: u32
  s_benchmark_samples :: u32
  s_benchmark_a_ns :: u64
  s_benchmark_b_ns :: u64
  s_lane_crc32c :: words
  s_lane_xor_fold :: words
  s_lane_bytes :: "u64 list"
  s_sha256 :: bytes

text \<open>The structures after \<open>zero_bytes\<close>.\<close>

definition zero_context :: rmr_fc16_context where
  "zero_context =
    \<lparr>c_lane = replicate 16 \<lparr>l_crc_state = 0, l_xor_fold = 0, l_bytes = 0, l_blocks16 = 0\<rparr>,
     c_sha = \<lparr>fs_h = replicate 8 0, fs_bit_len = 0, fs_buffer = replicate 64 0, fs_buffer_len = 0\<rparr>,
     c_root_crc_state = 0, c_entry_crc_state = 0, c_path_crc_final = 0, c_flags = 0,
     c_entry_declared_size = 0, c_entry_seen_size = 0, c_entry_count = 0, c_total_bytes = 0,
     c_hw_stamp = 0, c_thermal_before_milli_c = 0, c_thermal_after_milli_c = 0,
     c_thermal_limit_milli_c = 0, c_thermal_max_delta_milli_c = 0, c_entry_open = 0,
     c_entry_base_lane = 0, c_reserved = 0\<rparr>"

definition zero_snapshot :: rmr_fc16_snapshot where
  "zero_snapshot =
    \<lparr>s_version = 0, s_flags = 0, s_root_crc32c = 0, s_path_count_low = 0, s_entry_count = 0,
     s_total_bytes = 0, s_hw_stamp = 0, s_thermal_before_milli_c = 0, s_thermal_after_milli_c = 0,
     s_warmup_rounds = 0, s_benchmark_samples = 0, s_benchmark_a_ns = 0, s_benchmark_b_ns = 0,
     s_lane_crc32c = replicate 16 0, s_lane_xor_fold = replicate 16 0, s_lane_bytes = replicate 16 0,
     s_sha256 = replicate 32 0\<rparr>"

definition put_u32 :: "u32 \<Rightarrow> bytes" where
  "put_u32 v = [ucast v, ucast (drop_bit 8 v), ucast (drop_bit 16 v), ucast (drop_bit 24 v)]"

definition put_u64 :: "u64 \<Rightarrow> bytes" where
  "put_u64 v = map (\<lambda>i. ucast (drop_bit (i * 8) v)) [0..<8]"

definition feed_meta :: "fc16_build \<Rightarrow> rmr_fc16_context \<Rightarrow> bytes \<Rightarrow> nat \<Rightarrow> rmr_fc16_context" where
  "feed_meta b c p n =
    c\<lparr>c_root_crc_state := rmr_fc16_crc32c_update (b_crc b) (c_root_crc_state c) (Some p) n,
      c_sha := the (rmr_fc16_sha256_update (Some (c_sha c)) (Some p) n)\<rparr>"

definition rmr_fc16_init ::
  "fc16_build \<Rightarrow> rmr_fc16_context option \<Rightarrow> u64 \<Rightarrow> u32 \<Rightarrow> u32 \<Rightarrow> u32 \<Rightarrow> rmr_fc16_context option" where
  "rmr_fc16_init b c hw tb limit delta =
    (case c of
       None \<Rightarrow> None
     | Some _ \<Rightarrow>
         let c = zero_context\<lparr>
                   c_root_crc_state := 0xffffffff, c_entry_crc_state := 0xffffffff, c_hw_stamp := hw,
                   c_thermal_before_milli_c := tb, c_thermal_limit_milli_c := limit,
                   c_thermal_max_delta_milli_c := delta,
                   c_flags := rmr_fc16_crc32c_backend_flags (b_crc b) OR rmr_fc16_vector_backend_flags (b_vec b)\<rparr>;
             c = (if hw \<noteq> 0 then c\<lparr>c_flags := c_flags c OR FLAG_HW_STAMP_VALID\<rparr> else c);
             c = c\<lparr>c_lane := map (\<lambda>l. l\<lparr>l_crc_state := 0xffffffff\<rparr>) (c_lane c)\<rparr>;
             c = c\<lparr>c_sha := the (rmr_fc16_sha256_init (Some (c_sha c)))\<rparr>
         in Some (feed_meta b c [of_char (CHR ''R''), of_char (CHR ''F''), of_char (CHR ''C''), of_char (CHR ''1''),
                                 of_char (CHR ''6''), 0, 1, 0] 8))"

definition rmr_fc16_entry_begin ::
  "fc16_build \<Rightarrow> rmr_fc16_context option \<Rightarrow> bytes option \<Rightarrow> u32 \<Rightarrow> u64 \<Rightarrow> u32 \<Rightarrow> rmr_fc16_context option \<times> u32" where
  "rmr_fc16_entry_begin b c path path_len declared kind =
    (if c = None \<or> path = None \<or> path_len = 0 then (c, FC16_ERR_ARGUMENT)
     else if c_entry_open (the c) \<noteq> 0 then (c, FC16_ERR_STATE)
     else
       let p = the path;
           n = unat path_len;
           ps = rmr_fc16_crc32c_update (b_crc b) 0xffffffff (Some p) n;
           c = the c;
           c = c\<lparr>c_path_crc_final := rmr_fc16_crc32c_finish ps\<rparr>;
           c = c\<lparr>c_entry_base_lane := ucast (c_path_crc_final c AND 15), c_entry_crc_state := 0xffffffff,
                 c_entry_declared_size := declared, c_entry_seen_size := 0, c_entry_open := 1\<rparr>;
           meta = [of_char (CHR ''E''), of_char (CHR ''N''), of_char (CHR ''T''), of_char (CHR ''R'')]
             @ put_u32 path_len @ put_u64 declared @ put_u32 kind;
           c = feed_meta b c meta 20;
           c = feed_meta b c p n;
           k = unat (c_entry_base_lane c);
           l = c_lane c ! k;
           l = l\<lparr>l_crc_state := rmr_fc16_crc32c_update (b_crc b) (l_crc_state l) (Some meta) 20\<rparr>;
           l = l\<lparr>l_crc_state := rmr_fc16_crc32c_update (b_crc b) (l_crc_state l) (Some p) n\<rparr>;
           l = l\<lparr>l_xor_fold := l_xor_fold l XOR c_path_crc_final c\<rparr>
       in (Some (c\<lparr>c_lane := (c_lane c)[k := l]\<rparr>), FC16_OK))"

text \<open>
  The three loops of \<open>rmr_fc16_entry_data\<close> on the lanes: up to a boundary of sixteen bytes, whole
  groups, the rest. \<open>base\<close> is the entry's first lane and \<open>seen\<close> the position of \<open>data\<close> in the entry.
\<close>

definition lane_of :: "u8 \<Rightarrow> u64 \<Rightarrow> nat" where
  "lane_of base absolute = unat ((ucast base + ucast (drop_bit 4 absolute)) AND (15 :: u32))"

definition lane_byte ::
  "fc16_build \<Rightarrow> u8 \<Rightarrow> u64 \<Rightarrow> bytes \<Rightarrow> nat \<Rightarrow> rmr_fc16_lane list \<Rightarrow> rmr_fc16_lane list" where
  "lane_byte b base seen data i lanes =
    (let absolute = seen + of_nat i;
         k = lane_of base absolute;
         l = lanes ! k
     in lanes[k := l\<lparr>
          l_crc_state := rmr_fc16_crc32c_update (b_crc b) (l_crc_state l) (Some (drop i data)) 1,
          l_xor_fold := l_xor_fold l XOR push_bit (unat ((ucast (absolute AND 3) :: u32) * 8)) (ucast (data ! i)),
          l_bytes := l_bytes l + 1\<rparr>])"

definition lane_block ::
  "fc16_build \<Rightarrow> u8 \<Rightarrow> u64 \<Rightarrow> bytes \<Rightarrow> nat \<Rightarrow> rmr_fc16_lane list \<Rightarrow> rmr_fc16_lane list" where
  "lane_block b base seen data i lanes =
    (let absolute = seen + of_nat i;
         k = lane_of base absolute;
         l = lanes ! k
     in lanes[k := l\<lparr>
          l_crc_state := rmr_fc16_crc32c_update (b_crc b) (l_crc_state l) (Some (drop i data)) 16,
          l_xor_fold := l_xor_fold l XOR rmr_fc16_xor_fold16 (Some (drop i data)),
          l_bytes := l_bytes l + 16,
          l_blocks16 := l_blocks16 l + 1\<rparr>])"

function lanes_head ::
  "fc16_build \<Rightarrow> u8 \<Rightarrow> u64 \<Rightarrow> bytes \<Rightarrow> nat \<Rightarrow> nat \<Rightarrow> rmr_fc16_lane list \<Rightarrow> nat \<times> rmr_fc16_lane list" where
  "lanes_head b base seen data len i lanes =
    (if i < len \<and> (seen + of_nat i) AND 15 \<noteq> 0
     then lanes_head b base seen data len (i + 1) (lane_byte b base seen data i lanes)
     else (i, lanes))"
  by pat_completeness auto
termination by (relation "measure (\<lambda>(b, base, seen, data, len, i, lanes). len - i)") auto

function lanes_blocks ::
  "fc16_build \<Rightarrow> u8 \<Rightarrow> u64 \<Rightarrow> bytes \<Rightarrow> nat \<Rightarrow> nat \<Rightarrow> rmr_fc16_lane list \<Rightarrow> nat \<times> rmr_fc16_lane list" where
  "lanes_blocks b base seen data len i lanes =
    (if i + 16 \<le> len
     then lanes_blocks b base seen data len (i + 16) (lane_block b base seen data i lanes)
     else (i, lanes))"
  by pat_completeness auto
termination by (relation "measure (\<lambda>(b, base, seen, data, len, i, lanes). len - i)") auto

function lanes_tail ::
  "fc16_build \<Rightarrow> u8 \<Rightarrow> u64 \<Rightarrow> bytes \<Rightarrow> nat \<Rightarrow> nat \<Rightarrow> rmr_fc16_lane list \<Rightarrow> rmr_fc16_lane list" where
  "lanes_tail b base seen data len i lanes =
    (if i < len then lanes_tail b base seen data len (i + 1) (lane_byte b base seen data i lanes) else lanes)"
  by pat_completeness auto
termination by (relation "measure (\<lambda>(b, base, seen, data, len, i, lanes). len - i)") auto

declare lanes_head.simps [simp del] lanes_blocks.simps [simp del] lanes_tail.simps [simp del]

definition rmr_fc16_entry_data ::
  "fc16_build \<Rightarrow> rmr_fc16_context option \<Rightarrow> bytes option \<Rightarrow> nat \<Rightarrow> rmr_fc16_context option \<times> u32" where
  "rmr_fc16_entry_data b c data len =
    (if c = None \<or> data = None \<and> len \<noteq> 0 then (c, FC16_ERR_ARGUMENT)
     else if c_entry_open (the c) = 0 then (c, FC16_ERR_STATE)
     else if c_entry_seen_size (the c) + of_nat len > c_entry_declared_size (the c) then (c, FC16_ERR_SIZE)
     else
       let c = the c;
           d = (case data of Some d \<Rightarrow> d | None \<Rightarrow> []);
           base = c_entry_base_lane c;
           seen = c_entry_seen_size c;
           c = c\<lparr>c_entry_crc_state := rmr_fc16_crc32c_update (b_crc b) (c_entry_crc_state c) data len,
                 c_sha := the (rmr_fc16_sha256_update (Some (c_sha c)) data len)\<rparr>;
           (i, lanes) = lanes_head b base seen d len 0 (c_lane c);
           (i, lanes) = lanes_blocks b base seen d len i lanes;
           lanes = lanes_tail b base seen d len i lanes
       in (Some (c\<lparr>c_lane := lanes, c_entry_seen_size := seen + of_nat len,
                   c_total_bytes := c_total_bytes c + of_nat len\<rparr>), FC16_OK))"

definition rmr_fc16_entry_end ::
  "fc16_build \<Rightarrow> rmr_fc16_context option \<Rightarrow> rmr_fc16_context option \<times> u32" where
  "rmr_fc16_entry_end b c =
    (if c = None then (c, FC16_ERR_ARGUMENT)
     else if c_entry_open (the c) = 0 then (c, FC16_ERR_STATE)
     else if c_entry_seen_size (the c) \<noteq> c_entry_declared_size (the c) then (c, FC16_ERR_SIZE)
     else
       let c = the c;
           e = [of_char (CHR ''E''), of_char (CHR ''N''), of_char (CHR ''D''), of_char (CHR ''R'')]
             @ put_u32 (c_path_crc_final c) @ put_u32 (rmr_fc16_crc32c_finish (c_entry_crc_state c))
             @ put_u64 (c_entry_seen_size c) @ put_u32 (ucast (c_entry_base_lane c));
           c = feed_meta b c e 24
       in (Some (c\<lparr>c_entry_count := c_entry_count c + 1, c_entry_open := 0\<rparr>), FC16_OK))"

definition thermal_accepted :: "rmr_fc16_context \<Rightarrow> u32 \<Rightarrow> bool" where
  "thermal_accepted c ta =
    (let accepted = \<not> (c_thermal_limit_milli_c c \<noteq> 0 \<and>
           (c_thermal_before_milli_c c > c_thermal_limit_milli_c c \<or> ta > c_thermal_limit_milli_c c));
         d = (if ta > c_thermal_before_milli_c c then ta - c_thermal_before_milli_c c
              else c_thermal_before_milli_c c - ta)
     in if c_thermal_max_delta_milli_c c \<noteq> 0 \<and> d > c_thermal_max_delta_milli_c c then False else accepted)"

text \<open>The outer option is \<open>None\<close> if the padding loop of the digest does not end.\<close>

definition rmr_fc16_finalize ::
  "fc16_build \<Rightarrow> rmr_fc16_context option \<Rightarrow> u32 \<Rightarrow> rmr_fc16_snapshot option \<Rightarrow>
   (rmr_fc16_context option \<times> rmr_fc16_snapshot option \<times> u32) option" where
  "rmr_fc16_finalize b c ta out =
    (if c = None \<or> out = None then Some (c, out, FC16_ERR_ARGUMENT)
     else if c_entry_open (the c) \<noteq> 0 then Some (c, out, FC16_ERR_STATE)
     else
       let c = (the c)\<lparr>c_thermal_after_milli_c := ta\<rparr>;
           accepted = thermal_accepted c ta;
           c = (if accepted then c\<lparr>c_flags := c_flags c OR FLAG_THERMAL_ACCEPT\<rparr> else c);
           final_meta = [of_char (CHR ''F''), of_char (CHR ''I''), of_char (CHR ''N''), of_char (CHR ''L'')]
             @ put_u64 (c_entry_count c) @ put_u64 (c_total_bytes c)
             @ put_u32 (c_thermal_before_milli_c c) @ put_u32 ta;
           c = feed_meta b c final_meta 28;
           o1 = zero_snapshot\<lparr>s_version := RMR_FC16_VERSION, s_flags := c_flags c,
                  s_root_crc32c := rmr_fc16_crc32c_finish (c_root_crc_state c),
                  s_path_count_low := ucast (c_entry_count c), s_entry_count := c_entry_count c,
                  s_total_bytes := c_total_bytes c, s_hw_stamp := c_hw_stamp c,
                  s_thermal_before_milli_c := c_thermal_before_milli_c c, s_thermal_after_milli_c := ta,
                  s_lane_crc32c := map (\<lambda>i. rmr_fc16_crc32c_finish (l_crc_state (c_lane c ! i))) [0..<16],
                  s_lane_xor_fold := map (\<lambda>i. l_xor_fold (c_lane c ! i)) [0..<16],
                  s_lane_bytes := map (\<lambda>i. l_bytes (c_lane c ! i)) [0..<16]\<rparr>
       in (case rmr_fc16_sha256_final (Some (c_sha c)) (Some (s_sha256 o1)) of
             None \<Rightarrow> None
           | Some (sha, digest) \<Rightarrow>
               Some (Some (c\<lparr>c_sha := the sha\<rparr>), Some (o1\<lparr>s_sha256 := the digest\<rparr>),
                     if accepted then FC16_OK else FC16_ERR_THERMAL)))"

definition rmr_fc16_snapshot_equal :: "rmr_fc16_snapshot option \<Rightarrow> rmr_fc16_snapshot option \<Rightarrow> u32" where
  "rmr_fc16_snapshot_equal a b =
    (if a = None \<or> b = None then 0
     else
       let a = the a; b = the b;
           diff = s_root_crc32c a XOR s_root_crc32c b;
           diff = diff OR (s_path_count_low a XOR s_path_count_low b);
           diff = diff OR ucast (s_entry_count a XOR s_entry_count b);
           diff = diff OR ucast (drop_bit 32 (s_entry_count a XOR s_entry_count b));
           diff = diff OR ucast (s_total_bytes a XOR s_total_bytes b);
           diff = diff OR ucast (drop_bit 32 (s_total_bytes a XOR s_total_bytes b));
           diff = foldl (\<lambda>diff i.
             diff OR (s_lane_crc32c a ! i XOR s_lane_crc32c b ! i) OR (s_lane_xor_fold a ! i XOR s_lane_xor_fold b ! i)
               OR ucast (s_lane_bytes a ! i XOR s_lane_bytes b ! i)
               OR ucast (drop_bit 32 (s_lane_bytes a ! i XOR s_lane_bytes b ! i))) diff [0..<16];
           diff = foldl (\<lambda>diff i. diff OR ucast (s_sha256 a ! i XOR s_sha256 b ! i)) diff [0..<32]
       in if diff = 0 then 1 else 0)"

section \<open>Sparse word deltas\<close>

record rmr_fc16_delta64 =
  d_word_index :: u64
  d_xor_mask :: u64

text \<open>The loop of the build: \<open>None\<close> as the count is the early return for a full output.\<close>

fun delta64_loop ::
  "u64 list \<Rightarrow> u64 list \<Rightarrow> nat \<Rightarrow> nat \<Rightarrow> rmr_fc16_delta64 list \<Rightarrow> nat \<Rightarrow> nat \<Rightarrow> rmr_fc16_delta64 list \<times> nat option" where
  "delta64_loop before after cap i out k 0 = (out, Some k)"
| "delta64_loop before after cap i out k (Suc left) =
    (let m = before ! i XOR after ! i
     in if m \<noteq> 0 then
          if k \<ge> cap then (out, None)
          else delta64_loop before after cap (i + 1)
                 (out[k := \<lparr>d_word_index = of_nat i, d_xor_mask = m\<rparr>]) (k + 1) left
        else delta64_loop before after cap (i + 1) out k left)"

definition rmr_fc16_delta64_build ::
  "u64 list option \<Rightarrow> u64 list option \<Rightarrow> nat \<Rightarrow> rmr_fc16_delta64 list option \<Rightarrow> nat \<Rightarrow> nat option \<Rightarrow>
   rmr_fc16_delta64 list option \<times> nat option \<times> u32" where
  "rmr_fc16_delta64_build before after n out cap out_n =
    (if before = None \<or> after = None \<or> out_n = None \<or> cap \<noteq> 0 \<and> out = None then (out, out_n, FC16_ERR_ARGUMENT)
     else
       case delta64_loop (the before) (the after) cap 0 (case out of Some d \<Rightarrow> d | None \<Rightarrow> []) 0 n of
         (d, None) \<Rightarrow> (map_option (\<lambda>_. d) out, out_n, FC16_ERR_CAPACITY)
       | (d, Some k) \<Rightarrow> (map_option (\<lambda>_. d) out, Some k, FC16_OK))"

fun delta64_apply_loop ::
  "u64 list \<Rightarrow> nat \<Rightarrow> rmr_fc16_delta64 list \<Rightarrow> u64 list \<times> u32" where
  "delta64_apply_loop target n [] = (target, FC16_OK)"
| "delta64_apply_loop target n (d # ds) =
    (if unat (d_word_index d) \<ge> n then (target, FC16_ERR_SIZE)
     else let k = unat (d_word_index d)
          in delta64_apply_loop (target[k := target ! k XOR d_xor_mask d]) n ds)"

definition rmr_fc16_delta64_apply ::
  "u64 list option \<Rightarrow> nat \<Rightarrow> rmr_fc16_delta64 list option \<Rightarrow> nat \<Rightarrow> u64 list option \<times> u32" where
  "rmr_fc16_delta64_apply target n d dn =
    (if target = None \<or> d = None \<and> dn \<noteq> 0 then (target, FC16_ERR_ARGUMENT)
     else case delta64_apply_loop (the target) n (take dn (case d of Some d \<Rightarrow> d | None \<Rightarrow> [])) of
            (t, status) \<Rightarrow> (Some t, status))"

section \<open>Warm-up and median\<close>

text \<open>The body of the warm-up for round \<open>r\<close> and one lane; the mask lives across the iterations.\<close>

definition warmup_lane :: "vec_backend \<Rightarrow> u32 \<Rightarrow> bytes \<times> bytes \<Rightarrow> bytes \<Rightarrow> nat \<Rightarrow> bytes \<times> bytes" where
  "warmup_lane v r am b lane =
    (let (a, m) = am;
         off = lane * 16;
         m = the (snd (rmr_fc16_diff16 v (Some (drop off a)) (Some (drop off b)) (Some m)));
         a = take off a @ the (rmr_fc16_apply16 v (Some (drop off a)) (Some m));
         a = take off a @ the (rmr_fc16_apply16 v (Some (drop off a)) (Some m));
         k = off + unat (r AND 15);
         a = a[k := a ! k XOR ucast (of_nat lane + r)];
         a = a[k := a ! k XOR ucast (of_nat lane + r)]
     in (a, m))"

definition rmr_fc16_warmup :: "vec_backend \<Rightarrow> bytes option \<Rightarrow> bytes option \<Rightarrow> u32 \<Rightarrow> bytes \<Rightarrow> bytes option" where
  "rmr_fc16_warmup v a b rounds m =
    (if a = None \<or> b = None then a
     else Some (fst (foldl (\<lambda>am r. foldl (\<lambda>am lane. warmup_lane v (of_nat r) am (the b) lane) am [0..<16])
                  (the a, m) [0..<unat rounds])))"

text \<open>The inner loop of the insertion sort, and the sort.\<close>

fun median_shift :: "u64 list \<Rightarrow> u64 \<Rightarrow> nat \<Rightarrow> u64 list \<times> nat" where
  "median_shift s key 0 = (s, 0)"
| "median_shift s key (Suc j) =
    (if s ! j > key then median_shift (s[Suc j := s ! j]) key j else (s, Suc j))"

definition median_insert :: "u64 list \<Rightarrow> nat \<Rightarrow> u64 list" where
  "median_insert s i = (let key = s ! i; (s, j) = median_shift s key i in s[j := key])"

definition rmr_fc16_median_u64 ::
  "u64 list option \<Rightarrow> u32 \<Rightarrow> u64 option \<Rightarrow> u64 list option \<times> u64 option \<times> u32" where
  "rmr_fc16_median_u64 s n out =
    (if s = None \<or> out = None \<or> n = 0 \<or> unat n > RMR_FC16_MAX_BENCH_SAMPLES then (s, out, FC16_ERR_ARGUMENT)
     else
       let s = foldl median_insert (the s) [1..<unat n]
       in (Some s, Some (s ! unat (drop_bit 1 n)), FC16_OK))"

section \<open>Seal and stored ZIP\<close>

definition p16 :: "u16 \<Rightarrow> bytes" where
  "p16 v = [ucast v, ucast (drop_bit 8 v)]"

definition p32 :: "u32 \<Rightarrow> bytes" where
  "p32 v = [ucast v, ucast (drop_bit 8 v), ucast (drop_bit 16 v), ucast (drop_bit 24 v)]"

definition p64 :: "u64 \<Rightarrow> bytes" where
  "p64 v = map (\<lambda>i. ucast (drop_bit (i * 8) v)) [0..<8]"

definition g16 :: "bytes \<Rightarrow> u16" where
  "g16 p = ucast (p ! 0) OR push_bit 8 (ucast (p ! 1))"

definition g32 :: "bytes \<Rightarrow> u32" where
  "g32 p = ucast (p ! 0) OR push_bit 8 (ucast (p ! 1)) OR push_bit 16 (ucast (p ! 2)) OR push_bit 24 (ucast (p ! 3))"

fun copyb :: "bytes \<Rightarrow> nat \<Rightarrow> bytes" where
  "copyb s 0 = []"
| "copyb s (Suc n) = hd s # copyb (tl s) n"

text \<open>
  The bodies write one field after the other at the running offset \<open>o\<close>, which starts at 0 and
  advances by the size of the field: \<open>emit\<close> is one such write on the pair of buffer and offset.
\<close>

definition emit :: "bytes \<Rightarrow> bytes \<times> nat \<Rightarrow> bytes \<times> nat" where
  "emit field = (\<lambda>(out, pos). (buf_write out pos field, pos + length field))"

definition SEAL_BODY :: nat where
  "SEAL_BODY = 8 + 4 * 9 + 8 * 5 + 16 * 4 + 16 * 4 + 16 * 8 + 32"

definition rmr_fc16_seal ::
  "fc16_build \<Rightarrow> rmr_fc16_snapshot option \<Rightarrow> bytes option \<Rightarrow> nat \<Rightarrow> nat option \<Rightarrow> bytes option \<times> nat option \<times> u32" where
  "rmr_fc16_seal b s out cap out_len =
    (if s = None \<or> out = None \<or> out_len = None then (out, out_len, FC16_ERR_ARGUMENT)
     else if cap < SEAL_BODY + 4 then (out, out_len, FC16_ERR_CAPACITY)
     else
       let s = the s;
           magic = [of_char (CHR ''R''), of_char (CHR ''F''), of_char (CHR ''C''), of_char (CHR ''1''),
                    of_char (CHR ''6''), of_char (CHR ''S''), of_char (CHR ''1''), 0];
           x = (the out, 0);
           x = emit (copyb magic 8) x;
           x = emit (p32 (s_version s)) x;
           x = emit (p32 (s_flags s)) x;
           x = emit (p32 (of_nat RMR_FC16_LANES)) x;
           x = emit (p32 (s_root_crc32c s)) x;
           x = emit (p32 (s_path_count_low s)) x;
           x = emit (p32 (s_thermal_before_milli_c s)) x;
           x = emit (p32 (s_thermal_after_milli_c s)) x;
           x = emit (p32 (s_warmup_rounds s)) x;
           x = emit (p32 (s_benchmark_samples s)) x;
           x = emit (p64 (s_benchmark_a_ns s)) x;
           x = emit (p64 (s_benchmark_b_ns s)) x;
           x = emit (p64 (s_entry_count s)) x;
           x = emit (p64 (s_total_bytes s)) x;
           x = emit (p64 (s_hw_stamp s)) x;
           x = foldl (\<lambda>x i. emit (p32 (s_lane_crc32c s ! i)) x) x [0..<16];
           x = foldl (\<lambda>x i. emit (p32 (s_lane_xor_fold s ! i)) x) x [0..<16];
           x = foldl (\<lambda>x i. emit (p64 (s_lane_bytes s ! i)) x) x [0..<16];
           x = emit (copyb (s_sha256 s) 32) x;
           x = emit (p32 (rmr_fc16_crc32c_finish
                 (rmr_fc16_crc32c_update (b_crc b) 0xffffffff (Some (fst x)) (snd x)))) x
       in (Some (fst x), Some (snd x), FC16_OK))"

definition rmr_fc16_verify_seal :: "fc16_build \<Rightarrow> bytes option \<Rightarrow> nat \<Rightarrow> u32" where
  "rmr_fc16_verify_seal b s n =
    (if s = None \<or> n < 12 then FC16_ERR_ARGUMENT
     else
       let s = the s;
           m = [of_char (CHR ''R''), of_char (CHR ''F''), of_char (CHR ''C''), of_char (CHR ''1''),
                of_char (CHR ''6''), of_char (CHR ''S''), of_char (CHR ''1'')]
       in if \<exists>i\<in>set [0..<7]. s ! i \<noteq> m ! i then FC16_ERR_INTEGRITY
          else
            let expected = g32 (drop (n - 4) s);
                actual = rmr_fc16_crc32c_finish (rmr_fc16_crc32c_update (b_crc b) 0xffffffff (Some s) (n - 4))
            in if expected = actual then FC16_OK else FC16_ERR_INTEGRITY)"

definition rmr_fc16_zip_store ::
  "bytes option \<Rightarrow> nat \<Rightarrow> bytes option \<Rightarrow> nat \<Rightarrow> nat option \<Rightarrow> bytes option \<times> nat option \<times> u32" where
  "rmr_fc16_zip_store payload n out cap out_len =
    (if payload = None \<or> out = None \<or> out_len = None \<or> n > 0xffffffff then (out, out_len, FC16_ERR_ARGUMENT)
     else if cap < 30 + 13 + n + 46 + 13 + 22 then (out, out_len, FC16_ERR_CAPACITY)
     else
       let name = map of_char ''custody16.bin'';
           crc = rmr_fc16_crc32_ieee payload n;
           x = (the out, 0);
           x = emit (p32 0x04034b50) x;
           x = emit (p16 20) x;
           x = emit (p16 0) x;
           x = emit (p16 0) x;
           x = emit (p16 0) x;
           x = emit (p16 0) x;
           x = emit (p32 crc) x;
           x = emit (p32 (of_nat n)) x;
           x = emit (p32 (of_nat n)) x;
           x = emit (p16 13) x;
           x = emit (p16 0) x;
           x = emit (copyb name 13) x;
           x = emit (copyb (the payload) n) x;
           cd = snd x;
           x = emit (p32 0x02014b50) x;
           x = emit (p16 20) x;
           x = emit (p16 20) x;
           x = emit (p16 0) x;
           x = emit (p16 0) x;
           x = emit (p16 0) x;
           x = emit (p16 0) x;
           x = emit (p32 crc) x;
           x = emit (p32 (of_nat n)) x;
           x = emit (p32 (of_nat n)) x;
           x = emit (p16 13) x;
           x = emit (p16 0) x;
           x = emit (p16 0) x;
           x = emit (p16 0) x;
           x = emit (p16 0) x;
           x = emit (p32 0) x;
           x = emit (p32 0) x;
           x = emit (copyb name 13) x;
           cds = snd x - cd;
           x = emit (p32 0x06054b50) x;
           x = emit (p16 0) x;
           x = emit (p16 0) x;
           x = emit (p16 1) x;
           x = emit (p16 1) x;
           x = emit (p32 (of_nat cds)) x;
           x = emit (p32 (of_nat cd)) x;
           x = emit (p16 0) x
       in (Some (fst x), Some (snd x), FC16_OK))"

definition rmr_fc16_zip_verify_roundtrip :: "bytes option \<Rightarrow> nat \<Rightarrow> bytes option \<Rightarrow> nat \<Rightarrow> u32" where
  "rmr_fc16_zip_verify_roundtrip z zn e en =
    (if z = None \<or> e = None \<or> zn < 43 \<or> g32 (the z) \<noteq> 0x04034b50 then FC16_ERR_ARGUMENT
     else
       let z = the z; e = the e
       in if g16 (drop 8 z) \<noteq> 0 then FC16_ERR_INTEGRITY
          else
            let crc = g32 (drop 14 z); cs = g32 (drop 18 z); us = g32 (drop 22 z);
                nl = g16 (drop 26 z); xl = g16 (drop 28 z)
            in if cs \<noteq> us \<or> unat us \<noteq> en then FC16_ERR_INTEGRITY
               else
                 let off = 30 + unat nl + unat xl
                 in if off + en > zn then FC16_ERR_INTEGRITY
                    else
                      let d = foldl (\<lambda>d i. d OR (z ! (off + i) XOR e ! i)) (0 :: u8) [0..<en]
                      in if d \<noteq> 0 \<or> rmr_fc16_crc32_ieee (Some (drop off z)) en \<noteq> crc then FC16_ERR_INTEGRITY
                         else FC16_OK)"

end
