(* ===== verification/Fc16_Seal.thy ===== *)
theory Fc16_Seal
  imports Fc16
begin

text \<open>
  The seal and the stored ZIP of Custody16: their bytes as a concatenation of fields, verification of
  what the writers produce, and the detection of damaged bytes, which follows from the checksum being
  a bijection of its state.
\<close>

section \<open>Writing fields\<close>

definition emits :: "bytes list \<Rightarrow> bytes \<times> nat \<Rightarrow> bytes \<times> nat" where
  "emits fs x = foldl (\<lambda>x f. emit f x) x fs"

lemma emits_Nil: "(a, 0) = emits [] (a, 0)"
  by (simp add: emits_def)

lemma emit_emits: "emit f (emits fs x) = emits (fs @ [f]) x"
  by (simp add: emits_def)

lemma foldl_emits: "foldl (\<lambda>x i. emit (g i) x) (emits fs x) is = emits (fs @ map g is) x"
  by (induction "is" arbitrary: fs) (simp_all add: emit_emits)

lemma emit_first: "emit f (a, 0) = emits [f] (a, 0)"
  by (simp add: emits_def)

lemma emits_at:
  "emits fs (pre @ rest, length pre) =
    ((pre @ concat fs) @ drop (length (concat fs)) rest, length (pre @ concat fs))"
proof (induction fs arbitrary: pre rest)
  case (Cons f fs)
  have "emits (f # fs) (pre @ rest, length pre) = emits fs ((pre @ f) @ drop (length f) rest, length (pre @ f))"
    by (simp add: emits_def emit_def buf_write_def)
  then show ?case by (simp only: Cons.IH) (simp add: add.commute add.left_commute)
qed (simp add: emits_def)

lemma emits_0: "emits fs (a, 0) = (concat fs @ drop (length (concat fs)) a, length (concat fs))"
  using emits_at [of fs "[]" a] by simp

lemma copyb_take: "n \<le> length s \<Longrightarrow> copyb s n = take n s"
  by (induction n arbitrary: s) (auto simp: neq_Nil_conv Suc_le_length_iff)

lemma length_copyb [simp]: "length (copyb s n) = n"
  by (induction n arbitrary: s) simp_all

lemma length_fields [simp]: "length (p16 h) = 2" "length (p32 v) = 4" "length (p64 w) = 8"
  by (simp_all add: p16_def p32_def p64_def)

lemma g32_p32 [simp]: "g32 (p32 v @ rest) = v"
proof (rule bit_word_eqI)
  fix k assume "k < LENGTH(32)"
  then consider "k < 8" | "8 \<le> k \<and> k < 16" | "16 \<le> k \<and> k < 24" | "24 \<le> k \<and> k < 32" by fastforce
  then show "bit (g32 (p32 v @ rest)) k = bit v k"
    by cases (auto simp: g32_def p32_def bit_simps)
qed

lemma g16_p16 [simp]: "g16 (p16 v @ rest) = v"
  by (rule bit_word_eqI) (auto simp: g16_def p16_def bit_simps)

lemma p32_inject [simp]: "p32 v = p32 w \<longleftrightarrow> v = w"
  by (metis g32_p32)

lemma p64_inject [simp]: "p64 v = p64 w \<longleftrightarrow> v = w"
proof
  assume e: "p64 v = p64 w"
  show "v = w"
  proof (rule bit_word_eqI)
    fix k assume k: "k < LENGTH(64)"
    have "p64 v ! (k div 8) = p64 w ! (k div 8)" using e by simp
    moreover have "k div 8 < length [0..<8 :: nat]" "[0..<8] ! (k div 8) = k div 8" using k by simp_all
    ultimately have "(ucast (drop_bit (k div 8 * 8) v) :: u8) = ucast (drop_bit (k div 8 * 8) w)"
      unfolding p64_def by (simp only: nth_map)
    then have "bit (ucast (drop_bit (k div 8 * 8) v) :: u8) (k mod 8) =
        bit (ucast (drop_bit (k div 8 * 8) w) :: u8) (k mod 8)"
      by simp
    then show "bit v k = bit w k" by (simp add: bit_simps)
  qed
qed simp

section \<open>The seal\<close>

text \<open>The fields of the body in order, and the seal of a snapshot.\<close>

definition seal_fields :: "rmr_fc16_snapshot \<Rightarrow> bytes list" where
  "seal_fields s =
    [[82, 70, 67, 49, 54, 83, 49, 0], p32 (s_version s), p32 (s_flags s), p32 16, p32 (s_root_crc32c s),
     p32 (s_path_count_low s), p32 (s_thermal_before_milli_c s), p32 (s_thermal_after_milli_c s),
     p32 (s_warmup_rounds s), p32 (s_benchmark_samples s), p64 (s_benchmark_a_ns s), p64 (s_benchmark_b_ns s),
     p64 (s_entry_count s), p64 (s_total_bytes s), p64 (s_hw_stamp s)]
    @ map (\<lambda>i. p32 (s_lane_crc32c s ! i)) [0..<16] @ map (\<lambda>i. p32 (s_lane_xor_fold s ! i)) [0..<16]
    @ map (\<lambda>i. p64 (s_lane_bytes s ! i)) [0..<16] @ [copyb (s_sha256 s) 32]"

definition seal_body :: "rmr_fc16_snapshot \<Rightarrow> bytes" where
  "seal_body s = concat (seal_fields s)"

definition seal_bytes :: "rmr_fc16_snapshot \<Rightarrow> bytes" where
  "seal_bytes s = seal_body s @ p32 (rmr_fc16_crc32c_finish (crc_spec CRC32C_POLY 0xffffffff (seal_body s)))"

lemma length_concat_const_map: "(\<And>i. length (g i) = n) \<Longrightarrow> length (concat (map g is)) = n * length is"
  by (induction "is") simp_all

lemma length_seal_body [simp]: "length (seal_body s) = 372"
  by (simp add: seal_body_def seal_fields_def length_concat_const_map)

lemma length_seal_bytes [simp]: "length (seal_bytes s) = 376"
  by (simp add: seal_bytes_def)

lemma seal_writes:
  assumes "SEAL_BODY + 4 \<le> cap"
  shows "rmr_fc16_seal b (Some s) (Some out) cap (Some k) = (Some (seal_bytes s @ drop 376 out), Some 376, FC16_OK)"
proof -
  let ?m = "copyb [of_char (CHR ''R''), of_char (CHR ''F''), of_char (CHR ''C''), of_char (CHR ''1''),
    of_char (CHR ''6''), of_char (CHR ''S''), of_char (CHR ''1''), 0] 8 :: bytes"
  have m: "?m = [82, 70, 67, 49, 54, 83, 49, 0]"
    by (simp add: eval_nat_numeral)
  have body: "length (concat (seal_fields s)) = 372"
    using length_seal_body [of s] unfolding seal_body_def .
  have fields: "emits ([?m] @ [p32 (s_version s)] @ [p32 (s_flags s)] @ [p32 (of_nat RMR_FC16_LANES)] @ rest) x
      = emits ([82, 70, 67, 49, 54, 83, 49, 0] # p32 (s_version s) # p32 (s_flags s) # p32 16 # rest) x" for rest x
    unfolding m by (simp add: RMR_FC16_LANES_def)
  have e: "\<not> cap < SEAL_BODY + 4" using assms by simp
  have tail: "rmr_fc16_seal b (Some s) (Some out) cap (Some k) =
      (let x = emits (seal_fields s) (out, 0);
           x = emit (p32 (rmr_fc16_crc32c_finish
                 (rmr_fc16_crc32c_update (b_crc b) 0xffffffff (Some (fst x)) (snd x)))) x
       in (Some (fst x), Some (snd x), FC16_OK))"
    unfolding rmr_fc16_seal_def Let_def emit_first emit_emits foldl_emits
    using e fields by (simp add: seal_fields_def)
  show ?thesis
    unfolding tail emits_0
    by (simp add: Let_def body emit_def buf_write_def crc32c_update_spec seal_bytes_def seal_body_def)
qed

lemma g32_inject:
  assumes "g32 (a # b # c # d # xs) = g32 (a' # b' # c' # d' # ys)"
  shows "a = a' \<and> b = b' \<and> c = c' \<and> d = d'"
proof -
  have r: "ucast (drop_bit 0 (g32 (a # b # c # d # xs))) = a" "ucast (drop_bit 8 (g32 (a # b # c # d # xs))) = b"
    "ucast (drop_bit 16 (g32 (a # b # c # d # xs))) = c" "ucast (drop_bit 24 (g32 (a # b # c # d # xs))) = d"
    for a b c d :: u8 and xs
    by (rule bit_word_eqI, auto simp: g32_def bit_simps dest: bit_imp_le_length)+
  show ?thesis using assms by (metis r)
qed

lemma g32_update:
  assumes "length c = 4" "j < 4" "x \<noteq> c ! j"
  shows "g32 (c[j := x]) \<noteq> g32 c"
proof -
  obtain p q r t where c: "c = [p, q, r, t]" using length4E [OF assms(1)] by blast
  consider "j = 0" | "j = 1" | "j = 2" | "j = 3" using assms(2) by linarith
  then show ?thesis
    by cases (use assms(3) in \<open>simp_all add: c numeral_2_eq_2 numeral_3_eq_3, auto dest: g32_inject\<close>)
qed

text \<open>The test of the magic bytes and of the checksum on a list of 376 bytes.\<close>

lemma verify_seal_iff:
  assumes "length z = 376"
  shows "rmr_fc16_verify_seal b (Some z) 376 =
    (if take 7 z = [82, 70, 67, 49, 54, 83, 49] \<and>
        g32 (drop 372 z) = rmr_fc16_crc32c_finish (crc_spec CRC32C_POLY 0xffffffff (take 372 z))
     then FC16_OK else FC16_ERR_INTEGRITY)"
proof -
  let ?m = "[of_char (CHR ''R''), of_char (CHR ''F''), of_char (CHR ''C''), of_char (CHR ''1''),
    of_char (CHR ''6''), of_char (CHR ''S''), of_char (CHR ''1'')] :: bytes"
  have m: "?m = [82, 70, 67, 49, 54, 83, 49]" by simp
  have "(\<exists>i\<in>set [0..<7]. z ! i \<noteq> ?m ! i) \<longleftrightarrow> take 7 z \<noteq> [82, 70, 67, 49, 54, 83, 49]"
    unfolding m using assms by (subst list_eq_iff_nth_eq) auto
  then show ?thesis
    unfolding rmr_fc16_verify_seal_def Let_def by (simp add: crc32c_update_spec)
qed

lemma verify_seal_bytes: "rmr_fc16_verify_seal b (Some (seal_bytes s @ rest)) 376 = rmr_fc16_verify_seal b (Some (seal_bytes s)) 376"
  unfolding rmr_fc16_verify_seal_def Let_def
  by (simp add: crc32c_update_spec nth_append g32_def)

lemma take7_body: "take 7 (seal_body s) = [82, 70, 67, 49, 54, 83, 49]"
  by (simp add: seal_body_def seal_fields_def)

lemma verify_seal_ok: "rmr_fc16_verify_seal b (Some (seal_bytes s)) 376 = FC16_OK"
  using g32_p32 [of _ "[]"] by (simp add: verify_seal_iff) (simp add: seal_bytes_def take7_body)

lemma verify_seal_damaged:
  assumes "i < 376" "x \<noteq> seal_bytes s ! i"
  shows "rmr_fc16_verify_seal b (Some ((seal_bytes s)[i := x])) 376 = FC16_ERR_INTEGRITY"
proof -
  let ?z = "(seal_bytes s)[i := x]"
  let ?crc = "\<lambda>d. rmr_fc16_crc32c_finish (crc_spec CRC32C_POLY 0xffffffff d)"
  consider "i < 372" | "372 \<le> i" by linarith
  then have "take 7 ?z \<noteq> [82, 70, 67, 49, 54, 83, 49] \<or> g32 (drop 372 ?z) \<noteq> ?crc (take 372 ?z)"
  proof cases
    case 1
    have "take 372 ?z = (seal_body s)[i := x]" "drop 372 ?z = p32 (?crc (seal_body s))"
      using 1 by (simp_all add: seal_bytes_def list_update_append)
    moreover have "x \<noteq> seal_body s ! i" using assms(2) 1 by (simp add: seal_bytes_def nth_append)
    then have "crc_spec CRC32C_POLY 0xffffffff ((seal_body s)[i := x]) \<noteq> crc_spec CRC32C_POLY 0xffffffff (seal_body s)"
      using crc_spec_one_byte [of CRC32C_POLY i "seal_body s" x] 1 by simp
    then have "?crc ((seal_body s)[i := x]) \<noteq> ?crc (seal_body s)"
      unfolding rmr_fc16_crc32c_finish_def by (simp only: xor_cancel_word) simp
    ultimately show ?thesis using g32_p32 [of _ "[]"] by simp
  next
    case 2
    let ?c = "p32 (?crc (seal_body s))"
    have "take 372 ?z = seal_body s" "drop 372 ?z = ?c[i - 372 := x]"
      using 2 by (simp_all add: seal_bytes_def list_update_append)
    moreover have "x \<noteq> ?c ! (i - 372)" using assms(2) 2 by (simp add: seal_bytes_def nth_append)
    then have "g32 (?c[i - 372 := x]) \<noteq> g32 ?c"
      using assms(1) 2 by (intro g32_update) simp_all
    ultimately show ?thesis using g32_p32 [of "?crc (seal_body s)" "[]"] by simp
  qed
  then show ?thesis by (auto simp: verify_seal_iff)
qed

text \<open>
  C14. Writing a seal succeeds whenever 376 bytes fit, touches only these bytes, and what it wrote
  verifies under every build; changing any one of the 376 bytes, wherever it is, makes the
  verification fail.
\<close>

theorem seal_verified_and_tamper_evident:
  assumes "376 \<le> cap"
  shows "\<exists>z. rmr_fc16_seal b (Some s) (Some out) cap (Some k) = (Some (z @ drop 376 out), Some 376, FC16_OK) \<and>
    length z = 376 \<and>
    rmr_fc16_verify_seal b' (Some (z @ drop 376 out)) 376 = FC16_OK \<and>
    (\<forall>i < 376. \<forall>x. x \<noteq> z ! i \<longrightarrow>
      rmr_fc16_verify_seal b' (Some (z[i := x])) 376 = FC16_ERR_INTEGRITY)"
proof (intro exI conjI allI impI)
  show "rmr_fc16_seal b (Some s) (Some out) cap (Some k) = (Some (seal_bytes s @ drop 376 out), Some 376, FC16_OK)"
    using assms by (intro seal_writes) (simp add: SEAL_BODY_def)
qed (simp_all add: verify_seal_bytes verify_seal_ok verify_seal_damaged)

lemma seal_verified_and_tamper_evident_witness:
  "\<exists>z. rmr_fc16_seal \<lparr>b_crc = CRC_AARCH64, b_vec = VEC_NEON\<rparr> (Some zero_snapshot) (Some (replicate 512 0)) 512 (Some 0) =
      (Some (z @ drop 376 (replicate 512 0)), Some 376, FC16_OK)"
  using seal_verified_and_tamper_evident [of 512 "\<lparr>b_crc = CRC_AARCH64, b_vec = VEC_NEON\<rparr>" zero_snapshot
      "replicate 512 0" 0 "\<lparr>b_crc = CRC_SOFTWARE, b_vec = VEC_NONE\<rparr>"] by auto

text \<open>A snapshot whose arrays have the lengths declared in the header.\<close>

definition snapshot_arrays :: "rmr_fc16_snapshot \<Rightarrow> bool" where
  "snapshot_arrays s \<longleftrightarrow> length (s_lane_crc32c s) = 16 \<and> length (s_lane_xor_fold s) = 16 \<and>
    length (s_lane_bytes s) = 16 \<and> length (s_sha256 s) = 32"

lemma concat_fields_inject:
  "map length fs = map length gs \<Longrightarrow> concat fs = concat gs \<Longrightarrow> fs = gs"
proof (induction fs arbitrary: gs)
  case (Cons f fs)
  then obtain g gs' where "gs = g # gs'" "length f = length g" "map length fs = map length gs'" by fastforce
  with Cons show ?case by (metis append_eq_append_conv concat.simps(2))
qed simp

lemma seal_fields_lengths: "map length (seal_fields s) = map length (seal_fields s')"
  by (simp add: seal_fields_def)

lemma seal_bytes_inject:
  assumes "snapshot_arrays s" "snapshot_arrays s'" "seal_bytes s = seal_bytes s'"
  shows "s = s'"
proof -
  have "seal_body s = seal_body s'"
    using assms(3) unfolding seal_bytes_def by (metis append_eq_append_conv length_seal_body)
  then have "seal_fields s = seal_fields s'"
    unfolding seal_body_def by (intro concat_fields_inject seal_fields_lengths)
  then show ?thesis
    using assms(1,2) unfolding seal_fields_def snapshot_arrays_def
    by (cases s; cases s') (simp add: copyb_take del: upt_rec_numeral, auto simp: list_eq_iff_nth_eq)
qed

text \<open>
  The seal is an encoding of the whole snapshot: two snapshots, even sealed by different builds,
  give the same 376 bytes only if they are equal.
\<close>

theorem seal_determines_snapshot:
  assumes "snapshot_arrays s" "snapshot_arrays s'" "376 \<le> cap" "376 \<le> cap'"
    and "rmr_fc16_seal b (Some s) (Some out) cap (Some k) = (Some z, n, status)"
    and "rmr_fc16_seal b' (Some s') (Some out') cap' (Some k') = (Some z', n', status')"
    and "take 376 z = take 376 z'"
  shows "s = s'"
proof -
  have "z = seal_bytes s @ drop 376 out" "z' = seal_bytes s' @ drop 376 out'"
    using assms(3-6) by (simp_all add: seal_writes SEAL_BODY_def)
  then have "seal_bytes s = seal_bytes s'" using assms(7) by simp
  then show ?thesis using seal_bytes_inject assms(1,2) by blast
qed

lemma zero_snapshot_arrays: "snapshot_arrays zero_snapshot"
  by (simp add: snapshot_arrays_def zero_snapshot_def)

lemma seal_determines_snapshot_witness:
  "\<exists>z z'. rmr_fc16_seal \<lparr>b_crc = CRC_X86_64, b_vec = VEC_SSE2\<rparr> (Some zero_snapshot)
        (Some (replicate 400 1)) 400 (Some 5) = (Some z, Some 376, FC16_OK) \<and>
    rmr_fc16_seal \<lparr>b_crc = CRC_I386, b_vec = VEC_NONE\<rparr> (Some (zero_snapshot\<lparr>s_flags := 0\<rparr>))
        (Some (replicate 376 2)) 376 (Some 0) = (Some z', Some 376, FC16_OK) \<and>
    zero_snapshot\<lparr>s_flags := 0\<rparr> = zero_snapshot"
proof -
  let ?A = "\<lparr>b_crc = CRC_X86_64, b_vec = VEC_SSE2\<rparr>" and ?B = "\<lparr>b_crc = CRC_I386, b_vec = VEC_NONE\<rparr>"
  let ?s = "zero_snapshot\<lparr>s_flags := 0\<rparr>"
  have s: "?s = zero_snapshot" by (simp add: zero_snapshot_def)
  have 1: "rmr_fc16_seal ?A (Some zero_snapshot) (Some (replicate 400 1)) 400 (Some 5) =
      (Some (seal_bytes zero_snapshot @ drop 376 (replicate 400 1)), Some 376, FC16_OK)"
    by (rule seal_writes) (simp add: SEAL_BODY_def)
  have 2: "rmr_fc16_seal ?B (Some ?s) (Some (replicate 376 2)) 376 (Some 0) =
      (Some (seal_bytes ?s @ drop 376 (replicate 376 2)), Some 376, FC16_OK)"
    by (rule seal_writes) (simp add: SEAL_BODY_def)
  have "?s = zero_snapshot"
    by (rule seal_determines_snapshot [OF _ _ _ _ 2 1]) (simp_all add: s zero_snapshot_arrays)
  then show ?thesis using 1 2 by blast
qed

end
