(* ===== verification/Fc16_Zip.thy ===== *)
theory Fc16_Zip
  imports Fc16_Seal
begin

text \<open>
  The stored ZIP of Custody16: the bytes the writer produces and what the comparison with an expected
  payload accepts.
\<close>

section \<open>The bytes\<close>

abbreviation zip_name :: bytes where
  "zip_name \<equiv> map of_char ''custody16.bin''"

definition zip_local :: "bytes \<Rightarrow> nat \<Rightarrow> bytes list" where
  "zip_local p n =
    [p32 0x04034b50, p16 20, p16 0, p16 0, p16 0, p16 0, p32 (rmr_fc16_crc32_ieee (Some p) n), p32 (of_nat n),
     p32 (of_nat n), p16 13, p16 0, copyb zip_name 13, copyb p n]"

definition zip_central :: "bytes \<Rightarrow> nat \<Rightarrow> bytes list" where
  "zip_central p n =
    [p32 0x02014b50, p16 20, p16 20, p16 0, p16 0, p16 0, p16 0, p32 (rmr_fc16_crc32_ieee (Some p) n),
     p32 (of_nat n), p32 (of_nat n), p16 13, p16 0, p16 0, p16 0, p16 0, p32 0, p32 0, copyb zip_name 13]"

definition zip_end :: "nat \<Rightarrow> bytes list" where
  "zip_end n = [p32 0x06054b50, p16 0, p16 0, p16 1, p16 1, p32 59, p32 (of_nat (43 + n)), p16 0]"

definition zip_bytes :: "bytes \<Rightarrow> nat \<Rightarrow> bytes" where
  "zip_bytes p n = concat (zip_local p n) @ concat (zip_central p n) @ concat (zip_end n)"

lemma zip_lengths [simp]:
  "length (concat (zip_local p n)) = 43 + n" "length (concat (zip_central p n)) = 59"
  "length (concat (zip_end n)) = 22"
  by (simp_all add: zip_local_def zip_central_def zip_end_def)

lemma length_zip_bytes [simp]: "length (zip_bytes p n) = n + 124"
  by (simp add: zip_bytes_def)

lemma zip_store_writes:
  assumes "n \<le> 0xffffffff" "n + 124 \<le> cap"
  shows "rmr_fc16_zip_store (Some p) n (Some out) cap (Some k) =
    (Some (zip_bytes p n @ drop (n + 124) out), Some (n + 124), FC16_OK)"
proof -
  have g: "(n > 0xffffffff) = False" "(cap < 30 + 13 + n + 46 + 13 + 22) = False" using assms by simp_all
  have 1: "rmr_fc16_zip_store (Some p) n (Some out) cap (Some k) =
      (let x = emits (zip_local p n) (out, 0);
           cd = snd x;
           x = emits (zip_local p n @ zip_central p n) (out, 0);
           cds = snd x - cd;
           x = emits (zip_local p n @ zip_central p n @
                 [p32 0x06054b50, p16 0, p16 0, p16 1, p16 1, p32 (of_nat cds), p32 (of_nat cd), p16 0]) (out, 0)
       in (Some (fst x), Some (snd x), FC16_OK))"
    unfolding rmr_fc16_zip_store_def g Let_def emit_first emit_emits
    by (simp add: zip_local_def zip_central_def)
  show ?thesis
    unfolding 1 emits_0 Let_def
    by (simp add: zip_bytes_def zip_end_def add.commute)
qed

section \<open>Comparison with a payload\<close>

lemma word_or_zero: "(a OR b = 0) \<longleftrightarrow> a = 0 \<and> b = 0" for a b :: "'a::len word"
  by (auto simp: bit_eq_iff bit_simps)

lemma foldl_or_zero: "foldl (\<lambda>d i. d OR f i) a is = (0 :: 'a::len word) \<longleftrightarrow> a = 0 \<and> (\<forall>i\<in>set is. f i = 0)"
  by (induction "is" arbitrary: a) (auto simp: word_or_zero)

lemma xor_zero_word: "a XOR b = 0 \<longleftrightarrow> a = b" for a b :: "'a::len word"
  using xor_cancel_word [of a b b] by simp

lemma zip_header:
  assumes "z = zip_bytes p n @ rest"
  shows "g32 z = 0x04034b50" "g16 (drop 8 z) = 0" "g32 (drop 14 z) = rmr_fc16_crc32_ieee (Some p) n"
    "g32 (drop 18 z) = of_nat n" "g32 (drop 22 z) = of_nat n" "g16 (drop 26 z) = 13" "g16 (drop 28 z) = 0"
  unfolding assms zip_bytes_def zip_local_def by simp_all

lemma zip_payload:
  assumes "z = zip_bytes p n @ rest" "n \<le> length p"
  shows "take n (drop 43 z) = take n p" "i < n \<Longrightarrow> z ! (43 + i) = p ! i"
proof -
  have "zip_bytes p n = concat (butlast (zip_local p n)) @ take n p @ concat (zip_central p n) @ concat (zip_end n)"
    "length (concat (butlast (zip_local p n))) = 43"
    using assms(2) by (simp_all add: zip_bytes_def zip_local_def copyb_take)
  then have d: "drop 43 z = take n p @ concat (zip_central p n) @ concat (zip_end n) @ rest"
    unfolding assms(1) by simp
  show "take n (drop 43 z) = take n p" using assms(2) by (simp add: d)
  assume "i < n"
  moreover have "z ! (43 + i) = drop 43 z ! i" by (subst nth_drop) (simp_all add: assms(1))
  ultimately show "z ! (43 + i) = p ! i" using assms(2) by (simp add: d nth_append)
qed

lemma zip_verify_iff:
  assumes "z = zip_bytes p n @ rest" "n \<le> length p" "n \<le> 0xffffffff" "n + 124 \<le> zn" "m \<le> length e"
  shows "rmr_fc16_zip_verify_roundtrip (Some z) zn (Some e) m =
    (if m = n \<and> take m e = take n p then FC16_OK else FC16_ERR_INTEGRITY)"
proof -
  have u: "unat (of_nat n :: u32) = n" using assms(3) by (intro unat_of_nat_small) simp
  have zn: "(zn < 43) = False" "(43 + n > zn) = False" using assms(4) by simp_all
  have crc: "rmr_fc16_crc32_ieee (Some (drop 43 z)) n = rmr_fc16_crc32_ieee (Some p) n"
    using zip_payload(1) [OF assms(1,2)] by (simp add: rmr_fc16_crc32_ieee_def)
  have eq: "foldl (\<lambda>d i. d OR (z ! (43 + i) XOR e ! i)) (0 :: u8) [0..<n] = 0 \<longleftrightarrow> take n e = take n p"
    if "n \<le> length e"
    using zip_payload(2) [OF assms(1,2)] assms(2) that
    by (auto simp: foldl_or_zero xor_zero_word list_eq_iff_nth_eq)
  show ?thesis
  proof (cases "m = n")
    case True
    show ?thesis
      unfolding rmr_fc16_zip_verify_roundtrip_def Let_def option.sel zip_header [OF assms(1)] u True
      using assms(5) by (simp add: zn crc eq True)
  next
    case False
    then show ?thesis
      unfolding rmr_fc16_zip_verify_roundtrip_def Let_def option.sel zip_header [OF assms(1)] u
      by (simp add: zn)
  qed
qed

text \<open>
  C15. The stored ZIP of any payload below 4 GiB is written whenever 124 bytes more than the payload
  fit, and comparing it with any expected bytes succeeds exactly when these are the payload; every
  other comparison is an integrity error.
\<close>

theorem zip_round_trip:
  assumes "n \<le> 0xffffffff" "n \<le> length p" "n + 124 \<le> cap"
  shows "\<exists>z. rmr_fc16_zip_store (Some p) n (Some out) cap (Some k) = (Some z, Some (n + 124), FC16_OK) \<and>
    (cap \<le> length out \<longrightarrow> length z = length out) \<and>
    (\<forall>e. rmr_fc16_zip_verify_roundtrip (Some z) (n + 124) (Some e) (length e) =
      (if e = take n p then FC16_OK else FC16_ERR_INTEGRITY))"
proof (intro exI conjI allI impI)
  let ?z = "zip_bytes p n @ drop (n + 124) out"
  show "rmr_fc16_zip_store (Some p) n (Some out) cap (Some k) = (Some ?z, Some (n + 124), FC16_OK)"
    using assms(1,3) by (rule zip_store_writes)
  show "length ?z = length out" if "cap \<le> length out" using assms(3) that by simp
  show "rmr_fc16_zip_verify_roundtrip (Some ?z) (n + 124) (Some e) (length e) =
      (if e = take n p then FC16_OK else FC16_ERR_INTEGRITY)" for e
    using assms(2) by (subst zip_verify_iff [OF refl assms(2,1) order_refl order_refl]) auto
qed

lemma zip_round_trip_witness:
  "\<exists>z. rmr_fc16_zip_store (Some [1, 2, 3]) 3 (Some (replicate 127 0)) 127 (Some 0) = (Some z, Some 127, FC16_OK) \<and>
    rmr_fc16_zip_verify_roundtrip (Some z) 127 (Some [1, 2, 4]) 3 = FC16_ERR_INTEGRITY"
proof -
  obtain z where z: "rmr_fc16_zip_store (Some [1, 2, 3]) 3 (Some (replicate 127 0)) 127 (Some 0) = (Some z, Some 127, FC16_OK)"
    "\<And>e. rmr_fc16_zip_verify_roundtrip (Some z) 127 (Some e) (length e) =
      (if e = [1, 2, 3] then FC16_OK else FC16_ERR_INTEGRITY)"
    using zip_round_trip [of 3 "[1, 2, 3]" 127 "replicate 127 0" 0] by auto
  have 3: "length [1, 2, 4 :: u8] = 3" by simp
  have "rmr_fc16_zip_verify_roundtrip (Some z) 127 (Some [1, 2, 4]) 3 = FC16_ERR_INTEGRITY"
    using z(2) [of "[1, 2, 4]"] unfolding 3 by simp
  then show ?thesis using z(1) by blast
qed

text \<open>
  The offset of the central directory in the end record is the position of the directory reduced to
  32 bits: for a payload within 43 bytes of the limit it is not the position.
\<close>

lemma zip_directory_offset_wraps:
  assumes "n \<le> 0xffffffff" "0xffffffff < 43 + n" "n + 124 \<le> cap"
  shows "\<exists>z. rmr_fc16_zip_store (Some p) n (Some out) cap (Some k) = (Some z, Some (n + 124), FC16_OK) \<and>
    g32 (drop (n + 118) z) = of_nat (43 + n) \<and> unat (g32 (drop (n + 118) z)) \<noteq> 43 + n"
proof (intro exI conjI)
  let ?z = "zip_bytes p n @ drop (n + 124) out"
  show "rmr_fc16_zip_store (Some p) n (Some out) cap (Some k) = (Some ?z, Some (n + 124), FC16_OK)"
    using assms(1,3) by (rule zip_store_writes)
  have "drop (n + 118) ?z = drop 16 (concat (zip_end n) @ drop (n + 124) out)"
    by (simp add: zip_bytes_def)
  then show g: "g32 (drop (n + 118) ?z) = of_nat (43 + n)"
    by (simp add: zip_end_def)
  have "unat (of_nat (43 + n) :: u32) < 2 ^ 32" using unsigned_less [of "of_nat (43 + n) :: u32"] by simp
  then show "unat (g32 (drop (n + 118) ?z)) \<noteq> 43 + n"
    using assms(2) unfolding g by simp
qed

end
