(* ===== verification/Fc16_Lanes.thy ===== *)
theory Fc16_Lanes
  imports Fc16
begin

text \<open>
  The lane matrix of Custody16 byte by byte: the three loops of \<open>rmr_fc16_entry_data\<close> put every byte in
  the lane of its position in the entry (\<open>lanes_put\<close>), whatever the alignment of the piece; only the
  counter \<open>blocks16\<close>, which no snapshot contains, depends on how the data was cut.
\<close>

section \<open>Feeding the digest in pieces\<close>

lemma fc16_block_bit_len: "fc16_block (c\<lparr>fs_bit_len := v\<rparr>) p = (fc16_block c p)\<lparr>fs_bit_len := v\<rparr>"
  by (simp add: fc16_block_def Let_def split_beta)

lemma fs_update_loop_bit_len:
  "fs_update_loop (c\<lparr>fs_bit_len := v\<rparr>) p = (fs_update_loop c p)\<lparr>fs_bit_len := v\<rparr>"
proof (induction c p rule: fs_update_loop.induct)
  case (2 c x p)
  have "fs_flush (fs_put (c\<lparr>fs_bit_len := v\<rparr>) x) = (fs_flush (fs_put c x))\<lparr>fs_bit_len := v\<rparr>"
  proof -
    have a: "fs_put (c\<lparr>fs_bit_len := v\<rparr>) x = (fs_put c x)\<lparr>fs_bit_len := v\<rparr>" by (simp add: fs_put_def)
    show ?thesis unfolding a fs_flush_def by (simp add: fc16_block_bit_len)
  qed
  with 2 show ?case by simp
qed simp

lemma fs_update_loop_append: "fs_update_loop c (p @ q) = fs_update_loop (fs_update_loop c p) q"
  by (induction c p rule: fs_update_loop.induct) simp_all

definition sha_feed :: "rmr_fc16_sha256_ctx \<Rightarrow> bytes \<Rightarrow> rmr_fc16_sha256_ctx" where
  "sha_feed c p = the (rmr_fc16_sha256_update (Some c) (Some p) (length p))"

lemma sha_feed_append: "sha_feed c (p @ q) = sha_feed (sha_feed c p) q"
proof -
  let ?n = "fs_bit_len c + of_nat (length p) * 8"
  have "fs_bit_len (fs_update_loop (c\<lparr>fs_bit_len := ?n\<rparr>) p) = ?n"
    by (simp add: fs_update_loop_bit_len)
  then show ?thesis
    by (simp add: sha_feed_def rmr_fc16_sha256_update_def fs_update_loop_append fs_update_loop_bit_len distrib_right
        add.assoc)
qed

lemma sha_update_feed:
  "n \<le> length p \<Longrightarrow> the (rmr_fc16_sha256_update (Some c) (Some p) n) = sha_feed c (take n p)"
  by (simp add: sha_feed_def rmr_fc16_sha256_update_def min_def)

section \<open>One byte in its lane\<close>

definition lane_put1 :: "u64 \<Rightarrow> u8 \<Rightarrow> rmr_fc16_lane \<Rightarrow> rmr_fc16_lane" where
  "lane_put1 a x l = l\<lparr>
     l_crc_state := crc_byte CRC32C_POLY (l_crc_state l) x,
     l_xor_fold := l_xor_fold l XOR push_bit (unat ((ucast (a AND 3) :: u32) * 8)) (ucast x),
     l_bytes := l_bytes l + 1\<rparr>"

definition lane_put :: "u8 \<Rightarrow> u64 \<Rightarrow> u8 \<Rightarrow> rmr_fc16_lane list \<Rightarrow> rmr_fc16_lane list" where
  "lane_put base a x lanes = lanes[lane_of base a := lane_put1 a x (lanes ! lane_of base a)]"

fun lanes_put :: "u8 \<Rightarrow> u64 \<Rightarrow> bytes \<Rightarrow> rmr_fc16_lane list \<Rightarrow> rmr_fc16_lane list" where
  "lanes_put base a [] lanes = lanes"
| "lanes_put base a (x # xs) lanes = lanes_put base (a + 1) xs (lane_put base a x lanes)"

lemma lanes_put_append:
  "lanes_put base a (xs @ ys) lanes = lanes_put base (a + of_nat (length xs)) ys (lanes_put base a xs lanes)"
  by (induction base a xs lanes rule: lanes_put.induct) (simp_all add: add.assoc)

lemma lane_of_bound: "lane_of base a < 16"
proof -
  have "(ucast base + ucast (drop_bit 4 a)) AND (15 :: u32) = take_bit 4 (ucast base + ucast (drop_bit 4 a))"
    by (simp add: take_bit_eq_mask mask_eq_exp_minus_1)
  then show ?thesis
    by (simp add: lane_of_def unsigned_take_bit_eq take_bit_nat_less_exp [where n = 4, simplified])
qed

lemma length_lane_put [simp]: "length (lane_put base a x lanes) = length lanes"
  by (simp add: lane_put_def)

lemma length_lanes_put [simp]: "length (lanes_put base a xs lanes) = length lanes"
  by (induction base a xs lanes rule: lanes_put.induct) simp_all

lemma lane_byte_put:
  assumes "i < length data"
  shows "lane_byte b base seen data i lanes = lane_put base (seen + of_nat i) (data ! i) lanes"
proof -
  have "take 1 (drop i data) = [data ! i]" using assms by (simp add: take_Suc_conv_app_nth hd_drop_conv_nth take_Suc)
  then show ?thesis
    by (simp add: lane_byte_def lane_put_def lane_put1_def crc32c_update_spec crc_spec_def Let_def)
qed

section \<open>Sixteen aligned bytes\<close>

definition unblock :: "rmr_fc16_lane \<Rightarrow> rmr_fc16_lane" where
  "unblock l = l\<lparr>l_blocks16 := 0\<rparr>"

lemma unblock_put1: "unblock (lane_put1 a x l) = lane_put1 a x (unblock l)"
  by (simp add: unblock_def lane_put1_def)

lemma unblock_put:
  "length lanes = 16 \<Longrightarrow> map unblock (lane_put base a x lanes) = lane_put base a x (map unblock lanes)"
  using lane_of_bound [of base a] by (simp add: lane_put_def map_update unblock_put1)

lemma unblock_lanes_put:
  "length lanes = 16 \<Longrightarrow> map unblock (lanes_put base a xs lanes) = lanes_put base a xs (map unblock lanes)"
  by (induction base a xs lanes rule: lanes_put.induct) (simp_all add: unblock_put)

lemma unat_take_bit_mod: "unat (take_bit n x) = unat x mod 2 ^ n"
  by (simp add: unsigned_take_bit_eq) (simp add: take_bit_eq_mod)

lemma unat_drop_bit_div: "unat (drop_bit n x) = unat x div 2 ^ n"
  by (simp add: unat_drop_bit_eq) (simp add: drop_bit_eq_div)

lemma aligned_unat: "(a :: u64) AND 15 = 0 \<longleftrightarrow> unat a mod 16 = 0"
proof -
  have "a AND 15 = take_bit 4 a" by (simp add: take_bit_eq_mask mask_eq_exp_minus_1)
  then have "a AND 15 = 0 \<longleftrightarrow> unat (take_bit 4 a) = 0" by (simp only: unat_eq_0)
  then show ?thesis unfolding unat_take_bit_mod by simp
qed

lemma aligned_add:
  assumes "(a :: u64) AND 15 = 0" "j < 16"
  shows "unat (a + of_nat j) = unat a + j"
proof -
  obtain q where q: "unat a = 16 * q" using assms(1) unfolding aligned_unat by auto
  have "unat a < 2 ^ 64" using unsigned_less [of a] by simp
  then have "unat a + j < 2 ^ 64" using q assms(2) by simp
  then show ?thesis using assms(2) by (simp add: unat_word_ariths unat_of_nat_small)
qed

lemma aligned_lane:
  assumes "(a :: u64) AND 15 = 0" "j < 16"
  shows "lane_of base (a + of_nat j) = lane_of base a"
proof -
  obtain q where q: "unat a = 16 * q" using assms(1) unfolding aligned_unat by auto
  have "unat (drop_bit 4 (a + of_nat j)) = unat (drop_bit 4 a)"
    unfolding unat_drop_bit_div aligned_add [OF assms] q using assms(2) by simp
  then have "drop_bit 4 (a + of_nat j) = drop_bit 4 a" by (simp only: word_unat_eq_iff)
  then show ?thesis by (simp only: lane_of_def)
qed

lemma aligned_shift:
  assumes "(a :: u64) AND 15 = 0" "j < 16"
  shows "unat ((ucast ((a + of_nat j) AND 3) :: u32) * 8) = unat ((of_nat j AND 3 :: u32) * 8)"
proof -
  obtain q where q: "unat a = 16 * q" using assms(1) unfolding aligned_unat by auto
  have m: "x AND 3 = take_bit 2 x" for x :: u64 by (simp add: take_bit_eq_mask mask_eq_exp_minus_1)
  have n: "x AND 3 = take_bit 2 x" for x :: u32 by (simp add: take_bit_eq_mask mask_eq_exp_minus_1)
  have "unat ((a + of_nat j) AND 3) = (unat a + j) mod 4"
    unfolding m unat_take_bit_mod aligned_add [OF assms] by simp
  also have "(unat a + j) mod 4 = j mod 4" unfolding q by presburger
  finally have l: "unat ((a + of_nat j) AND 3) = j mod 4" .
  have r: "unat (of_nat j AND 3 :: u32) = j mod 4"
    unfolding n unat_take_bit_mod using assms(2) by (simp add: unat_of_nat_small)
  have "ucast ((a + of_nat j) AND 3) = (of_nat (j mod 4) :: u32)" by (metis l of_nat_unat)
  moreover have "(of_nat j AND 3 :: u32) = of_nat (j mod 4)" by (metis r of_nat_unat ucast_id)
  ultimately have "ucast ((a + of_nat j) AND 3) = (of_nat j AND 3 :: u32)" by simp
  then show ?thesis by simp
qed

text \<open>Bytes that stay in one lane.\<close>

fun lane_feed :: "u64 \<Rightarrow> bytes \<Rightarrow> rmr_fc16_lane \<Rightarrow> rmr_fc16_lane" where
  "lane_feed a [] l = l"
| "lane_feed a (x # xs) l = lane_feed (a + 1) xs (lane_put1 a x l)"

lemma lanes_put_same:
  "(\<And>j. j < length xs \<Longrightarrow> lane_of base (a + of_nat j) = k) \<Longrightarrow> k < length lanes \<Longrightarrow>
   lanes_put base a xs lanes = lanes[k := lane_feed a xs (lanes ! k)]"
proof (induction xs arbitrary: a lanes)
  case (Cons x xs)
  have k: "lane_of base a = k" using Cons.prems(1) [of 0] by simp
  have "lanes_put base (a + 1) xs (lane_put base a x lanes) =
      (lane_put base a x lanes)[k := lane_feed (a + 1) xs (lane_put base a x lanes ! k)]"
  proof (rule Cons.IH)
    show "lane_of base (a + 1 + of_nat j) = k" if "j < length xs" for j
      using Cons.prems(1) [of "Suc j"] that by (simp add: add.assoc)
  qed (use Cons.prems(2) in simp)
  then show ?case using Cons.prems(2) by (simp add: lane_put_def k)
qed simp

lemma lane_feed_crc: "l_crc_state (lane_feed a xs l) = crc_spec CRC32C_POLY (l_crc_state l) xs"
  by (induction a xs l rule: lane_feed.induct) (simp_all add: crc_spec_def lane_put1_def)

lemma lane_feed_bytes: "l_bytes (lane_feed a xs l) = l_bytes l + of_nat (length xs)"
  by (induction a xs l rule: lane_feed.induct) (simp_all add: lane_put1_def add.assoc)

lemma lane_feed_fold:
  "l_xor_fold (lane_feed a xs l) = foldl (\<lambda>v i. v XOR push_bit (unat ((ucast ((a + of_nat i) AND 3) :: u32) * 8)) (ucast (xs ! i)))
     (l_xor_fold l) [0..<length xs]"
proof (induction a xs l rule: lane_feed.induct)
  case (2 a x xs l)
  have "[0..<length (x # xs)] = 0 # map Suc [0..<length xs]" by (simp add: upt_conv_Cons map_Suc_upt del: upt_Suc)
  then show ?case using 2 by (simp add: foldl_map lane_put1_def add.assoc)
qed simp

lemmas lane_feed_fields = lane_feed_crc lane_feed_bytes lane_feed_fold

lemma foldl_xor_init:
  "foldl (\<lambda>v i. v XOR f i) (w :: 'a::len word) is = w XOR foldl (\<lambda>v i. v XOR f i) 0 is"
proof (induction "is" arbitrary: w)
  case (Cons i "is")
  show ?case using Cons [of "w XOR f i"] Cons [of "f i"] by (simp add: xor.assoc)
qed simp

lemma foldl_cong_upt: "(\<And>i v. i < n \<Longrightarrow> f v i = g v i) \<Longrightarrow> foldl f w [0..<n] = foldl g w [0..<n]"
  by (rule foldl_cong) auto

lemma lane_block_put:
  assumes "length lanes = 16" "(seen + of_nat i) AND 15 = 0" "i + 16 \<le> length data"
  shows "map unblock (lane_block b base seen data i lanes) =
    map unblock (lanes_put base (seen + of_nat i) (take 16 (drop i data)) lanes)"
proof -
  let ?a = "seen + of_nat i" and ?xs = "take 16 (drop i data)"
  let ?k = "lane_of base ?a"
  have len: "length ?xs = 16" using assms(3) by simp
  have "lanes_put base ?a ?xs lanes = lanes[?k := lane_feed ?a ?xs (lanes ! ?k)]"
    by (rule lanes_put_same) (use aligned_lane [OF assms(2)] len assms(1) lane_of_bound in auto)
  moreover have "l_xor_fold (lane_feed ?a ?xs l) = l_xor_fold l XOR rmr_fc16_xor_fold16 (Some (drop i data))" for l
  proof -
    have "l_xor_fold (lane_feed ?a ?xs l) = l_xor_fold l XOR
        foldl (\<lambda>v j. v XOR push_bit (unat ((ucast ((?a + of_nat j) AND 3) :: u32) * 8)) (ucast (?xs ! j))) 0 [0..<16]"
      unfolding lane_feed_fields len by (rule foldl_xor_init)
    also have "foldl (\<lambda>v j. v XOR push_bit (unat ((ucast ((?a + of_nat j) AND 3) :: u32) * 8)) (ucast (?xs ! j))) 0 [0..<16] =
        rmr_fc16_xor_fold16 (Some (drop i data))"
      unfolding rmr_fc16_xor_fold16_def option.case
      by (rule foldl_cong_upt) (use aligned_shift [OF assms(2)] in simp)
    finally show ?thesis .
  qed
  ultimately have "unblock (lane_feed ?a ?xs (lanes ! ?k)) = unblock ((lanes ! ?k)\<lparr>
      l_crc_state := rmr_fc16_crc32c_update (b_crc b) (l_crc_state (lanes ! ?k)) (Some (drop i data)) 16,
      l_xor_fold := l_xor_fold (lanes ! ?k) XOR rmr_fc16_xor_fold16 (Some (drop i data)),
      l_bytes := l_bytes (lanes ! ?k) + 16, l_blocks16 := l_blocks16 (lanes ! ?k) + 1\<rparr>)"
    using len by (simp add: unblock_def lane_feed_crc lane_feed_bytes crc32c_update_spec)
  moreover have "lanes_put base ?a ?xs lanes = lanes[?k := lane_feed ?a ?xs (lanes ! ?k)]"
    by (rule lanes_put_same) (use aligned_lane [OF assms(2)] len assms(1) lane_of_bound in auto)
  ultimately show ?thesis by (simp add: lane_block_def Let_def map_update)
qed

section \<open>The three loops\<close>

lemma take_extend: "i < m \<Longrightarrow> m \<le> length d \<Longrightarrow> d ! i # take (m - Suc i) (drop (Suc i) d) = take (m - i) (drop i d)"
  by (metis Cons_nth_drop_Suc Suc_diff_Suc less_le_trans take_Suc_Cons)

lemma lanes_head_put:
  "len \<le> length data \<Longrightarrow> i \<le> len \<Longrightarrow> lanes_head b base seen data len i lanes = (i', lanes') \<Longrightarrow>
   i \<le> i' \<and> i' \<le> len \<and> lanes' = lanes_put base (seen + of_nat i) (take (i' - i) (drop i data)) lanes \<and>
   (i' = len \<or> (seen + of_nat i') AND 15 = 0)"
proof (induction b base seen data len i lanes rule: lanes_head.induct)
  case (1 b base seen data len i lanes)
  show ?case
  proof (cases "i < len \<and> (seen + of_nat i) AND 15 \<noteq> 0")
    case True
    have l: "lanes_head b base seen data len (i + 1) (lane_byte b base seen data i lanes) = (i', lanes')"
      using 1(4) True by (subst (asm) lanes_head.simps) simp
    have ih: "i + 1 \<le> i'" "i' \<le> len"
      "lanes' = lanes_put base (seen + of_nat (i + 1)) (take (i' - (i + 1)) (drop (i + 1) data)) (lane_byte b base seen data i lanes)"
      "i' = len \<or> (seen + of_nat i') AND 15 = 0"
      using 1(1) [OF True 1(2) _ l] True by auto
    moreover have "lane_byte b base seen data i lanes = lane_put base (seen + of_nat i) (data ! i) lanes"
      by (rule lane_byte_put) (use True 1(2) in simp)
    moreover have "data ! i # take (i' - Suc i) (drop (Suc i) data) = take (i' - i) (drop i data)"
      by (rule take_extend) (use ih 1(2) in auto)
    ultimately show ?thesis
      using lanes_put.simps(2) [of base "seen + of_nat i" "data ! i" "take (i' - Suc i) (drop (Suc i) data)" lanes]
      by (simp add: add.assoc add.commute [of 1])
  next
    case False
    then have "lanes_head b base seen data len i lanes = (i, lanes)" by (subst lanes_head.simps) auto
    then show ?thesis using 1(3,4) False by auto
  qed
qed

lemma lanes_blocks_put:
  "len \<le> length data \<Longrightarrow> i \<le> len \<Longrightarrow> i = len \<or> (seen + of_nat i) AND 15 = 0 \<Longrightarrow> length lanes = 16 \<Longrightarrow>
   lanes_blocks b base seen data len i lanes = (i', lanes') \<Longrightarrow>
   i \<le> i' \<and> i' \<le> len \<and> length lanes' = 16 \<and>
   map unblock lanes' = map unblock (lanes_put base (seen + of_nat i) (take (i' - i) (drop i data)) lanes)"
proof (induction b base seen data len i lanes rule: lanes_blocks.induct)
  case (1 b base seen data len i lanes)
  show ?case
  proof (cases "i + 16 \<le> len")
    case True
    let ?l = "lane_block b base seen data i lanes" and ?a = "seen + of_nat i"
    have al: "?a AND 15 = 0" using 1(4) True by auto
    have al': "(seen + of_nat (i + 16)) AND 15 = 0"
    proof -
      have "seen + of_nat (i + 16) = ?a + 16" by (simp add: add.assoc)
      moreover have "(?a + 16) AND 15 = 0"
        using al by (simp add: aligned_unat unat_word_ariths mod_mod_cancel)
      ultimately show ?thesis by (simp only:)
    qed
    have len: "length ?l = 16" using 1(5) by (simp add: lane_block_def Let_def)
    have l: "lanes_blocks b base seen data len (i + 16) ?l = (i', lanes')"
      using 1(6) True by (subst (asm) lanes_blocks.simps) simp
    have ih: "i + 16 \<le> i'" "i' \<le> len" "length lanes' = 16"
      "map unblock lanes' = map unblock (lanes_put base (seen + of_nat (i + 16)) (take (i' - (i + 16)) (drop (i + 16) data)) ?l)"
      using 1(1) [OF True 1(2) True _ len l] al' by auto
    have t: "take (i' - i) (drop i data) = take 16 (drop i data) @ take (i' - (i + 16)) (drop (i + 16) data)"
      using take_add [of 16 "i' - (i + 16)" "drop i data"] ih(1) by (simp add: add.commute)
    have "map unblock lanes' = lanes_put base (seen + of_nat (i + 16)) (take (i' - (i + 16)) (drop (i + 16) data)) (map unblock ?l)"
      using ih(4) len by (simp add: unblock_lanes_put)
    also have "map unblock ?l = map unblock (lanes_put base ?a (take 16 (drop i data)) lanes)"
      by (rule lane_block_put) (use 1(2,5) al True in auto)
    also have "lanes_put base (seen + of_nat (i + 16)) (take (i' - (i + 16)) (drop (i + 16) data))
        (map unblock (lanes_put base ?a (take 16 (drop i data)) lanes)) =
      map unblock (lanes_put base ?a (take (i' - i) (drop i data)) lanes)"
      unfolding t lanes_put_append using 1(2,5) True by (simp add: unblock_lanes_put add.assoc)
    finally show ?thesis using ih by simp
  next
    case False
    then have "lanes_blocks b base seen data len i lanes = (i, lanes)" by (subst lanes_blocks.simps) simp
    then show ?thesis using 1 by auto
  qed
qed

lemma lanes_tail_put:
  "len \<le> length data \<Longrightarrow> i \<le> len \<Longrightarrow>
   lanes_tail b base seen data len i lanes = lanes_put base (seen + of_nat i) (take (len - i) (drop i data)) lanes"
proof (induction b base seen data len i lanes rule: lanes_tail.induct)
  case (1 b base seen data len i lanes)
  show ?case
  proof (cases "i < len")
    case True
    have "lanes_tail b base seen data len i lanes =
        lanes_put base (seen + of_nat (i + 1)) (take (len - (i + 1)) (drop (i + 1) data)) (lane_byte b base seen data i lanes)"
      using 1(1) [OF True 1(2)] True by (subst lanes_tail.simps) simp
    also have "lane_byte b base seen data i lanes = lane_put base (seen + of_nat i) (data ! i) lanes"
      by (rule lane_byte_put) (use True 1(2) in simp)
    also have "lanes_put base (seen + of_nat (i + 1)) (take (len - (i + 1)) (drop (i + 1) data))
        (lane_put base (seen + of_nat i) (data ! i) lanes) =
      lanes_put base (seen + of_nat i) (data ! i # take (len - Suc i) (drop (Suc i) data)) lanes"
      by (simp add: add.assoc add.commute [of 1])
    also have "data ! i # take (len - Suc i) (drop (Suc i) data) = take (len - i) (drop i data)"
      by (rule take_extend) (use True 1(2) in auto)
    finally show ?thesis .
  next
    case False
    then show ?thesis using 1(3) by (subst lanes_tail.simps) simp
  qed
qed

text \<open>All loops together.\<close>

lemma lanes_data:
  assumes "len \<le> length data" "length lanes = 16"
    "lanes_head b base seen data len 0 lanes = (i1, lanes1)" "lanes_blocks b base seen data len i1 lanes1 = (i2, lanes2)"
  shows "map unblock (lanes_tail b base seen data len i2 lanes2) =
    lanes_put base seen (take len data) (map unblock lanes)"
proof -
  have h: "i1 \<le> len" "lanes1 = lanes_put base seen (take i1 data) lanes" "i1 = len \<or> (seen + of_nat i1) AND 15 = 0"
    using lanes_head_put [OF assms(1) _ assms(3)] by auto
  have l1: "length lanes1 = 16" using h(2) assms(2) by simp
  have k: "i1 \<le> i2" "i2 \<le> len" "length lanes2 = 16"
    "map unblock lanes2 = map unblock (lanes_put base (seen + of_nat i1) (take (i2 - i1) (drop i1 data)) lanes1)"
    using lanes_blocks_put [OF assms(1) h(1,3) l1 assms(4)] by auto
  have "map unblock lanes2 = lanes_put base seen (take i2 data) (map unblock lanes)"
  proof -
    have "take i2 data = take i1 data @ take (i2 - i1) (drop i1 data)"
      using k(1) by (simp add: take_append_drop_eq)
    then show ?thesis
      using k(2,4) h(1,2) assms(1,2) l1 k(1) by (simp add: unblock_lanes_put lanes_put_append)
  qed
  moreover have "take len data = take i2 data @ take (len - i2) (drop i2 data)"
    using k(2) by (simp add: take_append_drop_eq)
  ultimately show ?thesis
    using k(2,3) assms(1) by (simp add: lanes_tail_put unblock_lanes_put lanes_put_append)
qed

end
