(* ===== verification/Sha256_Correct.thy ===== *)
theory Sha256_Correct
  imports Sha256
begin

text \<open>
  SHA-256: the specification pads the message, cuts it into blocks of 64 bytes and folds the block
  function over them. The streaming states are related to the bytes absorbed by \<open>sha_inv\<close>; the
  context of Custody16 is simulated by the core one; the unrolled block function is the loop.
\<close>

section \<open>Specification\<close>

definition sha_compress :: "words \<Rightarrow> bytes \<Rightarrow> words" where
  "sha_compress h block = sha_h (process_block \<lparr>sha_h = h, sha_len = 0, sha_buf = [], sha_buf_len = 0\<rparr> block)"

function sha_blocks :: "words \<Rightarrow> bytes \<Rightarrow> words" where
  "sha_blocks h bs = (if length bs < 64 then h else sha_blocks (sha_compress h (take 64 bs)) (drop 64 bs))"
  by pat_completeness auto
termination by (relation "measure (length \<circ> snd)") auto

declare sha_blocks.simps [simp del]

definition SHA_IV :: words where
  "SHA_IV = [0x6a09e667, 0xbb67ae85, 0x3c6ef372, 0xa54ff53a, 0x510e527f, 0x9b05688c, 0x1f83d9ab, 0x5be0cd19]"

definition be64 :: "u64 \<Rightarrow> bytes" where
  "be64 v = map (\<lambda>i. ucast (drop_bit (i * 8) v)) [7, 6, 5, 4, 3, 2, 1, 0]"

definition sha_padding :: "nat \<Rightarrow> bytes" where
  "sha_padding n = 0x80 # replicate ((119 - n mod 64) mod 64) 0 @ be64 (of_nat n * 8)"

definition sha256_spec :: "bytes \<Rightarrow> bytes" where
  "sha256_spec msg = sha_out (sha_blocks SHA_IV (msg @ sha_padding (length msg)))"

lemma sha_padding_blocks: "64 dvd length (msg @ sha_padding (length msg))"
proof -
  define m where "m = length msg mod 64"
  have "m < 64" by (simp add: m_def)
  then consider "m \<le> 55" | "55 < m" "m < 64" by linarith
  then have "(m + (119 - m) mod 64 + 9) mod 64 = 0"
    by cases (simp_all add: le_mod_geq)
  then have "(length msg + (119 - m) mod 64 + 9) mod 64 = 0"
    unfolding m_def by (simp only: add.assoc mod_add_left_eq)
  moreover have "length (msg @ sha_padding (length msg)) = length msg + (119 - m) mod 64 + 9"
    unfolding sha_padding_def be64_def m_def [symmetric] by simp
  ultimately show ?thesis by (simp only: dvd_eq_mod_eq_0)
qed

section \<open>Blocks\<close>

lemma sha_h_process: "sha_h (process_block ctx b) = sha_compress (sha_h ctx) b"
  by (simp add: process_block_def sha_compress_def Let_def split_beta)

lemma process_keeps [simp]:
  "sha_len (process_block ctx b) = sha_len ctx" "sha_buf (process_block ctx b) = sha_buf ctx"
  "sha_buf_len (process_block ctx b) = sha_buf_len ctx"
  by (simp_all add: process_block_def Let_def split_beta)

lemma sha_blocks_short [simp]: "length bs < 64 \<Longrightarrow> sha_blocks h bs = h"
  by (subst sha_blocks.simps) simp

lemma sha_blocks_append:
  "64 dvd length xs \<Longrightarrow> sha_blocks h (xs @ ys) = sha_blocks (sha_blocks h xs) ys"
proof (induction h xs rule: sha_blocks.induct)
  case (1 h xs)
  show ?case
  proof (cases "length xs < 64")
    case True
    with 1(2) have "xs = []" by (auto elim: dvdE)
    then show ?thesis by simp
  next
    case False
    then have "sha_blocks h (xs @ ys) = sha_blocks (sha_compress h (take 64 xs)) (drop 64 xs @ ys)"
      by (subst sha_blocks.simps) simp
    also have "\<dots> = sha_blocks (sha_blocks (sha_compress h (take 64 xs)) (drop 64 xs)) ys"
      by (rule 1(1) [OF False]) (use 1(2) False in \<open>simp add: dvd_diff_nat\<close>)
    also have "sha_blocks (sha_compress h (take 64 xs)) (drop 64 xs) = sha_blocks h xs"
      using False by (subst (2) sha_blocks.simps) simp
    finally show ?thesis .
  qed
qed

lemma sha_blocks_one: "length b = 64 \<Longrightarrow> sha_blocks h b = sha_compress h b"
  by (subst sha_blocks.simps) simp

section \<open>The streaming state\<close>

text \<open>\<open>bs\<close> went into the buffer; \<open>full\<close> is what was compressed, the rest is in the buffer.\<close>

definition sha_inv :: "words \<Rightarrow> bytes \<Rightarrow> pai_sha256_ctx \<Rightarrow> bool" where
  "sha_inv iv bs ctx \<longleftrightarrow>
    length (sha_buf ctx) = 64 \<and> sha_buf_len ctx \<le> 64 \<and> sha_buf_len ctx \<le> length bs \<and>
    64 dvd length bs - sha_buf_len ctx \<and>
    take (sha_buf_len ctx) (sha_buf ctx) = drop (length bs - sha_buf_len ctx) bs \<and>
    sha_h ctx = sha_blocks iv (take (length bs - sha_buf_len ctx) bs)"

lemma sha_put_keeps [simp]:
  "sha_len (sha_put ctx x) = sha_len ctx" "sha_h (sha_put ctx x) = sha_h ctx"
  "sha_buf_len (sha_put ctx x) = sha_buf_len ctx + 1"
  by (simp_all add: sha_put_def)

lemma sha_inv_put:
  assumes "sha_inv iv bs ctx" "sha_buf_len ctx < 64"
  shows "sha_inv iv (bs @ [x]) (sha_put ctx x)"
proof -
  let ?n = "sha_buf_len ctx"
  have "take (?n + 1) ((sha_buf ctx)[?n := x]) = take ?n (sha_buf ctx) @ [x]"
    using assms by (simp add: sha_inv_def take_Suc_conv_app_nth)
  then show ?thesis using assms by (auto simp: sha_inv_def sha_put_def)
qed

lemma sha_flush_keeps [simp]: "sha_len (sha_flush ctx) = sha_len ctx"
  by (simp add: sha_flush_def)

lemma sha_inv_flush:
  assumes "sha_inv iv bs ctx"
  shows "sha_inv iv bs (sha_flush ctx)"
    and "sha_buf_len (sha_flush ctx) = (if sha_buf_len ctx = 64 then 0 else sha_buf_len ctx)"
proof -
  show "sha_buf_len (sha_flush ctx) = (if sha_buf_len ctx = 64 then 0 else sha_buf_len ctx)"
    by (simp add: sha_flush_def)
  show "sha_inv iv bs (sha_flush ctx)"
  proof (cases "sha_buf_len ctx = 64")
    case True
    let ?k = "length bs - 64"
    have a: "64 \<le> length bs" "64 dvd ?k" "sha_buf ctx = drop ?k bs" "length (sha_buf ctx) = 64"
      "sha_h ctx = sha_blocks iv (take ?k bs)"
      using assms True by (auto simp: sha_inv_def)
    have "sha_blocks iv bs = sha_blocks iv (take ?k bs @ drop ?k bs)" by simp
    also have "\<dots> = sha_compress (sha_h ctx) (sha_buf ctx)"
      using a by (subst sha_blocks_append) (simp_all add: sha_blocks_one)
    finally have "sha_compress (sha_h ctx) (sha_buf ctx) = sha_blocks iv bs" ..
    moreover have "64 dvd length bs" using a(1,2) by (metis dvd_add_right_iff dvd_refl le_add_diff_inverse)
    ultimately show ?thesis using a True by (simp add: sha_inv_def sha_flush_def sha_h_process)
  qed (use assms in \<open>simp add: sha_flush_def\<close>)
qed

lemma sha_update_loop_inv:
  "sha_inv iv bs ctx \<Longrightarrow> sha_buf_len ctx < 64 \<Longrightarrow>
   sha_inv iv (bs @ data) (sha_update_loop ctx data) \<and> sha_buf_len (sha_update_loop ctx data) < 64 \<and>
   sha_len (sha_update_loop ctx data) = sha_len ctx"
proof (induction data arbitrary: bs ctx)
  case (Cons x data)
  note p = sha_inv_put [OF Cons.prems, of x]
  note f = sha_inv_flush [OF p]
  have "sha_buf_len (sha_flush (sha_put ctx x)) < 64" using Cons.prems(2) by (simp add: f(2))
  from Cons.IH [OF f(1) this] show ?case by simp
qed simp

text \<open>What a caller can know of a context: the bytes it absorbed.\<close>

definition sha_absorbed :: "bytes \<Rightarrow> pai_sha256_ctx \<Rightarrow> bool" where
  "sha_absorbed bs ctx \<longleftrightarrow>
    sha_inv SHA_IV bs ctx \<and> sha_buf_len ctx < 64 \<and> sha_len ctx = of_nat (length bs) * 8"

lemma sha_absorbed_init: "length (sha_buf ctx) = 64 \<Longrightarrow> sha_absorbed [] (pai_sha256_init ctx)"
  by (simp add: sha_absorbed_def sha_inv_def pai_sha256_init_def SHA_IV_def)

lemma sha_absorbed_update:
  assumes "sha_absorbed bs ctx"
  shows "sha_absorbed (bs @ data) (pai_sha256_update ctx data)"
proof -
  let ?c = "ctx\<lparr>sha_len := sha_len ctx + of_nat (length data) * 8\<rparr>"
  have "sha_inv SHA_IV bs ?c" "sha_buf_len ?c < 64"
    using assms by (simp_all add: sha_absorbed_def sha_inv_def)
  from sha_update_loop_inv [OF this, of data] show ?thesis
    using assms by (simp add: sha_absorbed_def pai_sha256_update_def distrib_right)
qed

lemma sha_absorbed_pieces:
  "sha_absorbed bs ctx \<Longrightarrow> sha_absorbed (bs @ concat pieces) (foldl pai_sha256_update ctx pieces)"
proof (induction pieces arbitrary: bs ctx)
  case (Cons p pieces)
  from Cons.IH [OF sha_absorbed_update [OF Cons.prems, of p]] show ?case by simp
qed simp

section \<open>Padding\<close>

text \<open>One turn of the padding loop brings the fill level \<open>b\<close> one step closer to 56.\<close>

lemma pad_count:
  assumes "b \<le> 64" "b \<noteq> 56" "(120 - b) mod 64 = Suc n"
  shows "(120 - (if b = 64 then 1 else b + 1)) mod 64 = n"
proof -
  consider "b < 56" | "56 < b" "b < 64" | "b = 64" using assms(1,2) by linarith
  then show ?thesis using assms(3) by cases (auto simp: le_mod_geq)
qed

lemma sha_pad_loop_done: "sha_buf_len ctx = 56 \<Longrightarrow> sha_pad_loop ctx = Some ctx"
  by (subst sha_pad_loop.simps) simp

lemma sha_pad_loop_inv:
  "sha_inv iv bs ctx \<Longrightarrow> (120 - sha_buf_len ctx) mod 64 = n \<Longrightarrow>
   \<exists>c. sha_pad_loop ctx = Some c \<and> sha_inv iv (bs @ replicate n 0) c \<and> sha_buf_len c = 56 \<and> sha_len c = sha_len ctx"
proof (induction n arbitrary: bs ctx)
  case 0
  then have "sha_buf_len ctx \<le> 64" by (simp add: sha_inv_def)
  then have "sha_buf_len ctx = 56" using 0(2) by presburger
  with 0 show ?case by (simp add: sha_pad_loop_done)
next
  case (Suc n)
  let ?c = "sha_put (sha_flush ctx) 0"
  have le: "sha_buf_len ctx \<le> 64" using Suc.prems(1) by (simp add: sha_inv_def)
  note f = sha_inv_flush [OF Suc.prems(1)]
  have fl: "sha_buf_len (sha_flush ctx) < 64" using le by (auto simp: f(2))
  have inv: "sha_inv iv (bs @ [0]) ?c" by (rule sha_inv_put [OF f(1) fl])
  have ne: "sha_buf_len ctx \<noteq> 56" using Suc.prems(2) by auto
  have "(120 - sha_buf_len ?c) mod 64 = n"
    using pad_count [OF le ne Suc.prems(2)] by (simp add: f(2) split: if_splits)
  from Suc.IH [OF inv this] show ?case
    using ne by (subst sha_pad_loop.simps) simp
qed

lemma foldl_sha_put:
  "sha_inv iv bs ctx \<Longrightarrow> sha_buf_len ctx + length xs \<le> 64 \<Longrightarrow>
   sha_inv iv (bs @ xs) (foldl sha_put ctx xs) \<and> sha_buf_len (foldl sha_put ctx xs) = sha_buf_len ctx + length xs"
proof (induction xs arbitrary: bs ctx)
  case (Cons x xs)
  have "sha_buf_len ctx < 64" using Cons.prems(2) by simp
  from Cons.IH [OF sha_inv_put [OF Cons.prems(1) this, of x]] show ?case using Cons.prems(2) by simp
qed simp

lemma foldl_sha_put_len: "sha_len ctx = l \<Longrightarrow>
   foldl (\<lambda>c i. sha_put c (ucast (drop_bit (i * 8) (sha_len c)))) ctx is =
   foldl sha_put ctx (map (\<lambda>i. ucast (drop_bit (i * 8) l)) is)"
  by (induction "is" arbitrary: ctx) simp_all

lemma sha_final_absorbed:
  assumes "sha_absorbed bs ctx"
  shows "\<exists>c. pai_sha256_final ctx = Some (c, sha256_spec bs)"
proof -
  have a: "sha_inv SHA_IV bs ctx" "sha_buf_len ctx < 64" "sha_len ctx = of_nat (length bs) * 8"
    using assms by (simp_all add: sha_absorbed_def)
  let ?p = "sha_put ctx 0x80" and ?k = "(119 - length bs mod 64) mod 64"
  have "length bs mod 64 = sha_buf_len ctx"
    using a(1,2) unfolding sha_inv_def by (metis add_0 le_add_diff_inverse2 dvd_imp_mod_0 mod_add_left_eq mod_less)
  then have "(120 - sha_buf_len ?p) mod 64 = ?k" by simp
  from sha_pad_loop_inv [OF sha_inv_put [OF a(1,2)] this] obtain c where
    c: "sha_pad_loop ?p = Some c" "sha_inv SHA_IV ((bs @ [0x80]) @ replicate ?k 0) c" "sha_buf_len c = 56"
      "sha_len c = of_nat (length bs) * 8"
    using a(3) by auto
  let ?d = "foldl sha_put c (be64 (of_nat (length bs) * 8))"
  have d: "sha_inv SHA_IV (bs @ sha_padding (length bs)) ?d" "sha_buf_len ?d = 64"
    using foldl_sha_put [OF c(2), of "be64 (of_nat (length bs) * 8)"] c(3)
    by (simp_all add: sha_padding_def be64_def)
  have "sha_h (process_block ?d (sha_buf ?d)) = sha_blocks SHA_IV (bs @ sha_padding (length bs))"
    using sha_inv_flush(1) [OF d(1)] d(2) by (simp add: sha_inv_def sha_flush_def)
  then show ?thesis
    unfolding pai_sha256_final_def c(1) option.case Let_def foldl_sha_put_len [OF c(4)] be64_def [symmetric]
    by (simp add: sha256_spec_def)
qed

section \<open>Custody16\<close>

text \<open>The two streaming contexts have the same fields.\<close>

definition core_ctx :: "rmr_fc16_sha256_ctx \<Rightarrow> pai_sha256_ctx" where
  "core_ctx c = \<lparr>sha_h = fs_h c, sha_len = fs_bit_len c, sha_buf = fs_buffer c, sha_buf_len = fs_buffer_len c\<rparr>"

lemma k256_eq: "k256 = SHA_K"
  by (simp add: k256_def SHA_K_def)

lemma core_block: "core_ctx (fc16_block c b) = process_block (core_ctx c) b"
  by (simp add: core_ctx_def fc16_block_def process_block_def k256_eq Let_def split_beta)

lemma core_put: "core_ctx (fs_put c x) = sha_put (core_ctx c) x"
  by (simp add: core_ctx_def fs_put_def sha_put_def)

lemma core_flush: "core_ctx (fs_flush c) = sha_flush (core_ctx c)"
proof (cases "fs_buffer_len c = 64")
  case True
  have "core_ctx (fs_flush c) = (core_ctx (fc16_block c (fs_buffer c)))\<lparr>sha_buf_len := 0\<rparr>"
    using True by (simp add: fs_flush_def core_ctx_def)
  also have "\<dots> = sha_flush (core_ctx c)"
    unfolding core_block using True by (simp add: sha_flush_def core_ctx_def)
  finally show ?thesis .
qed (simp add: fs_flush_def sha_flush_def core_ctx_def)

lemma core_update_loop: "core_ctx (fs_update_loop c p) = sha_update_loop (core_ctx c) p"
  by (induction c p rule: fs_update_loop.induct) (simp_all add: core_put core_flush)

lemma core_update:
  "length p = n \<Longrightarrow> core_ctx (the (rmr_fc16_sha256_update (Some c) (Some p) n)) = pai_sha256_update (core_ctx c) p"
  by (simp add: rmr_fc16_sha256_update_def pai_sha256_update_def core_update_loop)
    (simp add: core_ctx_def)

lemma core_pad_loop:
  "fs_buffer_len c \<le> 64 \<Longrightarrow> (120 - fs_buffer_len c) mod 64 = n \<Longrightarrow>
   \<exists>d. fs_pad_loop c = Some d \<and> sha_pad_loop (core_ctx c) = Some (core_ctx d)"
proof (induction n arbitrary: c)
  case 0
  then have "fs_buffer_len c = 56" by presburger
  moreover from this have "sha_pad_loop (core_ctx c) = Some (core_ctx c)"
    by (intro sha_pad_loop_done) (simp add: core_ctx_def)
  ultimately show ?case by (subst fs_pad_loop.simps) simp
next
  case (Suc n)
  let ?c = "fs_put (fs_flush c) 0"
  have ne: "fs_buffer_len c \<noteq> 56" using Suc.prems(2) by auto
  have l: "fs_buffer_len ?c = (if fs_buffer_len c = 64 then 1 else fs_buffer_len c + 1)"
    by (simp add: fs_put_def fs_flush_def)
  have "(120 - fs_buffer_len ?c) mod 64 = n"
    unfolding l by (rule pad_count [OF Suc.prems(1) ne Suc.prems(2)])
  from Suc.IH [OF _ this] have "\<exists>d. fs_pad_loop ?c = Some d \<and> sha_pad_loop (core_ctx ?c) = Some (core_ctx d)"
    using Suc.prems(1) by (simp add: l)
  moreover have "sha_buf_len (core_ctx c) \<noteq> 56" using ne by (simp add: core_ctx_def)
  ultimately show ?case
    using ne by (subst fs_pad_loop.simps, subst sha_pad_loop.simps) (simp add: core_put core_flush)
qed

lemma fs_put_keeps [simp]: "fs_bit_len (fs_put c x) = fs_bit_len c" "fs_buffer_len (fs_put c x) = fs_buffer_len c + 1"
  by (simp_all add: fs_put_def)

lemma core_foldl_put:
  "core_ctx (foldl (\<lambda>c i. fs_put c (ucast (drop_bit (i * 8) (fs_bit_len c)))) c is) =
   foldl (\<lambda>c i. sha_put c (ucast (drop_bit (i * 8) (sha_len c)))) (core_ctx c) is"
  by (induction "is" arbitrary: c) (simp_all add: core_put, simp add: core_ctx_def)

lemma core_final:
  assumes "fs_buffer_len c < 64"
  shows "map_option snd (fs_final c) = map_option snd (pai_sha256_final (core_ctx c))"
proof -
  have "fs_buffer_len (fs_put c 0x80) \<le> 64" using assms by simp
  from core_pad_loop [OF this refl] obtain d where
    d: "fs_pad_loop (fs_put c 0x80) = Some d" "sha_pad_loop (sha_put (core_ctx c) 0x80) = Some (core_ctx d)"
    by (auto simp: core_put)
  let ?is = "[7, 6, 5, 4, 3, 2, 1, 0] :: nat list"
  define D where "D = foldl (\<lambda>c i. fs_put c (ucast (drop_bit (i * 8) (fs_bit_len c)))) d ?is"
  have E: "foldl (\<lambda>c i. sha_put c (ucast (drop_bit (i * 8) (sha_len c)))) (core_ctx d) ?is = core_ctx D"
    unfolding D_def core_foldl_put ..
  have "fs_h (fc16_block x b) = sha_h (process_block (core_ctx x) b)" for x b
    unfolding core_block [symmetric] by (simp add: core_ctx_def)
  moreover have "fs_buffer D = sha_buf (core_ctx D)" by (simp add: core_ctx_def)
  ultimately show ?thesis
    unfolding fs_final_def pai_sha256_final_def d option.case Let_def E D_def [symmetric] by simp
qed

section \<open>The unrolled block function\<close>

lemma cf_rotr: "0 < n \<Longrightarrow> n < 32 \<Longrightarrow> rmr_cf_rotr32 x (of_nat n) = ROTR x n"
proof -
  assume n: "0 < n" "n < 32"
  have m: "(31 :: u32) = mask 5" by (simp add: mask_eq_exp_minus_1)
  have s: "of_nat k AND (31 :: u32) = of_nat k" if "k < 32" for k
    unfolding m take_bit_eq_mask [symmetric] using that by (simp add: take_bit_of_nat take_bit_nat_eq_self)
  have "(32 :: u32) - of_nat n = of_nat (32 - n)" using n by (simp add: of_nat_diff)
  then show ?thesis
    using n by (simp add: rmr_cf_rotr32_def ROTR_def s unat_of_nat_small del: of_nat_diff)
qed

lemma cf_functions:
  "RMR_CF_CH = CH" "RMR_CF_MAJ = MAJ" "RMR_CF_BSIG0 = EP0" "RMR_CF_BSIG1 = EP1" "RMR_CF_SSIG0 = SIG0"
  "RMR_CF_SSIG1 = SIG1"
  using cf_rotr [of 2] cf_rotr [of 13] cf_rotr [of 22] cf_rotr [of 6] cf_rotr [of 11] cf_rotr [of 25]
    cf_rotr [of 7] cf_rotr [of 18] cf_rotr [of 17] cf_rotr [of 19]
  by (auto simp: fun_eq_iff RMR_CF_CH_def CH_def RMR_CF_MAJ_def MAJ_def RMR_CF_BSIG0_def EP0_def
      RMR_CF_BSIG1_def EP1_def RMR_CF_SSIG0_def SIG0_def RMR_CF_SSIG1_def SIG1_def)

lemma CF_K_eq: "CF_K = SHA_K"
  by (simp add: CF_K_def SHA_K_def)

lemma sha_extend_prefix: "16 \<le> length w \<Longrightarrow> sha_extend (p @ w) n = p @ sha_extend w n"
proof (induction n arbitrary: w)
  case (Suc n)
  have nth: "(p @ w) ! (length (p @ w) - k) = w ! (length w - k)" if "k \<in> {1..16}" for k
    using that Suc.prems by (auto simp: nth_append)
  have "sha_extend (p @ w) (Suc n) = sha_extend ((p @ w) @ [SIG1 (w ! (length w - 2)) + w ! (length w - 7) +
      SIG0 (w ! (length w - 15)) + w ! (length w - 16)]) n"
    unfolding sha_extend.simps Let_def by (subst (1 2 3 4) nth) simp_all
  also have "\<dots> = p @ sha_extend w (Suc n)"
    using Suc by (simp add: Let_def)
  finally show ?case .
qed simp

lemma sha_extend_add: "sha_extend w (m + n) = sha_extend (sha_extend w m) n"
  by (induction m arbitrary: w) (simp_all add: Let_def)

lemma sha_extend_window:
  "sha_extend (p @ [a, b, c, d, e, f, g, h, i, j, k, l, m, n, q, r]) (Suc s) =
   sha_extend ((p @ [a]) @ [b, c, d, e, f, g, h, i, j, k, l, m, n, q, r, SIG1 q + j + SIG0 b + a]) s"
  by (simp add: Let_def nth_append)

lemma sha_extend_16:
  assumes "length w = 16"
  shows "sha_extend w 16 = w @ cf_expand16 w"
proof -
  obtain a b c d e f g h i j k l m n p q where w: "w = [] @ [a, b, c, d, e, f, g, h, i, j, k, l, m, n, p, q]"
    using length16E [OF assms] by (metis append_Nil)
  have sixteen: "(16 :: nat) = Suc (Suc (Suc (Suc (Suc (Suc (Suc (Suc (Suc (Suc (Suc (Suc (Suc (Suc (Suc (Suc 0)))))))))))))))"
    by simp
  have nths: "w ! 0 = a" "w ! 1 = b" "w ! 2 = c" "w ! 3 = d" "w ! 4 = e" "w ! 5 = f" "w ! 6 = g" "w ! 7 = h"
    "w ! 8 = i" "w ! 9 = j" "w ! 10 = k" "w ! 11 = l" "w ! 12 = m" "w ! 13 = n" "w ! 14 = p" "w ! 15 = q"
    unfolding w by simp_all
  show ?thesis
    unfolding cf_expand16_def nths cf_functions Let_def 
    unfolding sixteen w sha_extend_window sha_extend.simps(1)
    by (simp only: append.simps append_assoc)
qed

lemma sha_extend_48:
  assumes "length w = 16"
  shows "sha_extend w 48 = (let w1 = cf_expand16 w; w2 = cf_expand16 w1; w3 = cf_expand16 w2 in w @ w1 @ w2 @ w3)"
proof -
  have l: "length (cf_expand16 v) = 16" for v by (simp add: cf_expand16_def Let_def)
  have s: "sha_extend (p @ v) 16 = p @ v @ cf_expand16 v" if "length v = 16" for p v
    using that by (simp add: sha_extend_prefix sha_extend_16)
  have "sha_extend w (16 + (16 + 16)) = w @ cf_expand16 w @ cf_expand16 (cf_expand16 w) @
      cf_expand16 (cf_expand16 (cf_expand16 w))"
    unfolding sha_extend_add sha_extend_16 [OF assms] s [OF l]
    using s [OF l, of "w @ cf_expand16 w"] by simp
  then show ?thesis by (simp add: Let_def)
qed

lemma sha_round_cf:
  "sha_round k w (a, b, c, d, e, f, g, h) =
   (case RMR_CF_ROUND a b c d e f g h k w of (d', h') \<Rightarrow> (h', a, b, c, d', e, f, g))"
  by (simp add: RMR_CF_ROUND_def cf_functions Let_def)

lemma cf_rounds8_eq:
  "cf_rounds8 k w i v = foldl (\<lambda>v j. sha_round (k ! j) (w ! j) v) v [i..<i + 8]"
proof -
  obtain a b c d e f g h where v: "v = (a, b, c, d, e, f, g, h)" by (metis surj_pair)
  have js: "[i..<i + 8] = [i, i + 1, i + 2, i + 3, i + 4, i + 5, i + 6, i + 7]"
    by (simp add: upt_rec)
  obtain d1 h1 where 1: "RMR_CF_ROUND a b c d e f g h (k ! i) (w ! i) = (d1, h1)" by fastforce
  obtain c1 g1 where 2: "RMR_CF_ROUND h1 a b c d1 e f g (k ! (i + 1)) (w ! (i + 1)) = (c1, g1)" by fastforce
  obtain b1 f1 where 3: "RMR_CF_ROUND g1 h1 a b c1 d1 e f (k ! (i + 2)) (w ! (i + 2)) = (b1, f1)" by fastforce
  obtain a1 e1 where 4: "RMR_CF_ROUND f1 g1 h1 a b1 c1 d1 e (k ! (i + 3)) (w ! (i + 3)) = (a1, e1)" by fastforce
  obtain h2 d2 where 5: "RMR_CF_ROUND e1 f1 g1 h1 a1 b1 c1 d1 (k ! (i + 4)) (w ! (i + 4)) = (h2, d2)" by fastforce
  obtain g2 c2 where 6: "RMR_CF_ROUND d2 e1 f1 g1 h2 a1 b1 c1 (k ! (i + 5)) (w ! (i + 5)) = (g2, c2)" by fastforce
  obtain f2 b2 where 7: "RMR_CF_ROUND c2 d2 e1 f1 g2 h2 a1 b1 (k ! (i + 6)) (w ! (i + 6)) = (f2, b2)" by fastforce
  obtain e2 a2 where 8: "RMR_CF_ROUND b2 c2 d2 e1 f2 g2 h2 a1 (k ! (i + 7)) (w ! (i + 7)) = (e2, a2)" by fastforce
  show ?thesis
    unfolding v js
    by (simp only: cf_rounds8.simps Let_def 1 2 3 4 5 6 7 8 prod.case foldl.simps sha_round_cf)
qed

lemma cf_rounds64: "foldl (\<lambda>v i. cf_rounds8 k w i v) v [0, 8, 16, 24, 32, 40, 48, 56] =
  foldl (\<lambda>v j. sha_round (k ! j) (w ! j) v) v [0..<64]"
proof -
  have "[0..<64::nat] = [0..<8] @ [8..<16] @ [16..<24] @ [24..<32] @ [32..<40] @ [40..<48] @ [48..<56] @ [56..<64]"
    by (simp add: upt_rec)
  then show ?thesis by (simp add: cf_rounds8_eq)
qed


section \<open>Properties\<close>

definition cf_words :: "rmr_cf_sha256_state \<Rightarrow> words" where
  "cf_words st = [cf_h0 st, cf_h1 st, cf_h2 st, cf_h3 st, cf_h4 st, cf_h5 st, cf_h6 st, cf_h7 st]"

lemma cf_load_words:
  "map (\<lambda>i. rmr_cf_load32_be (drop i block)) [0, 4, 8, 12, 16, 20, 24, 28, 32, 36, 40, 44, 48, 52, 56, 60] =
   sha_words block" if "length block = 64"
  using that by (simp add: sha_words_def rmr_cf_load32_be_def upt_rec add.commute numeral_2_eq_2)

text \<open>
  C10. The streaming SHA-256 of the core, initialised in a context of any content and fed a message
  in any pieces, always finishes, and the digest is that of the padded message: the block function
  folded over the message, a one bit, the zeros up to 56 modulo 64 and the bit length modulo
  \<open>2 ^ 64\<close> in big-endian order.
\<close>

theorem sha256_streaming:
  assumes "length (sha_buf ctx) = 64"
  shows "map_option snd (pai_sha256_final (foldl pai_sha256_update (pai_sha256_init ctx) pieces)) =
    Some (sha256_spec (concat pieces))"
  using sha_final_absorbed [OF sha_absorbed_pieces [OF sha_absorbed_init [OF assms], of pieces]] by auto

lemma sha256_streaming_witness:
  "map_option snd (pai_sha256_final (foldl pai_sha256_update
     (pai_sha256_init \<lparr>sha_h = [], sha_len = 5, sha_buf = replicate 64 9, sha_buf_len = 3\<rparr>) [[1, 2], [], replicate 70 7])) =
   Some (sha256_spec (concat [[1, 2], [], replicate 70 7]))"
  by (rule sha256_streaming) simp

text \<open>
  C11. The three SHA-256 implementations agree: the unrolled block function of the freestanding
  substrate computes the eight words that the loop of the core computes from the same state and
  block, and the streaming context of Custody16 gives the digest of the core for every message.
\<close>

theorem sha256_implementations_agree:
  assumes "length block = 64" "length (fs_buffer c) = 64"
  shows "cf_words (rmr_cf_sha256_compress_block st block) = sha_compress (cf_words st) block \<and>
    map_option snd (rmr_fc16_sha256_final
      (rmr_fc16_sha256_update (rmr_fc16_sha256_init (Some c)) (Some msg) (length msg)) (Some out)) =
    Some (Some (buf_write out 0 (sha256_spec msg)))"
proof
  have len: "length (sha_words block) = 16" by (simp add: sha_words_def)
  have K: "foldl (\<lambda>v i. cf_rounds8 SHA_K w i v) v [0, 8, 16, 24, 32, 40, 48, 56] =
      foldl (\<lambda>v j. sha_round (SHA_K ! j) (w ! j) v) v [0..<64]" for w v
    by (rule cf_rounds64)
  show "cf_words (rmr_cf_sha256_compress_block st block) = sha_compress (cf_words st) block"
    unfolding rmr_cf_sha256_compress_block_def sha_compress_def process_block_def cf_load_words [OF assms(1)]
      sha_extend_48 [OF len] CF_K_eq Let_def K
    by (simp add: cf_words_def split_beta)
  define i where "i = the (rmr_fc16_sha256_init (Some c))"
  define u where "u = the (rmr_fc16_sha256_update (Some i) (Some msg) (length msg))"
  have u: "rmr_fc16_sha256_update (rmr_fc16_sha256_init (Some c)) (Some msg) (length msg) = Some u"
    by (simp add: u_def i_def rmr_fc16_sha256_update_def rmr_fc16_sha256_init_def)
  have "core_ctx i = pai_sha256_init (core_ctx c)"
    by (simp add: i_def rmr_fc16_sha256_init_def pai_sha256_init_def core_ctx_def)
  then have "core_ctx u = pai_sha256_update (pai_sha256_init (core_ctx c)) msg"
    unfolding u_def by (simp add: core_update)
  then have a: "sha_absorbed msg (core_ctx u)"
    using sha_absorbed_update [OF sha_absorbed_init, of "core_ctx c" msg] assms(2) by (simp add: core_ctx_def)
  then have "fs_buffer_len u < 64" by (simp add: sha_absorbed_def core_ctx_def)
  from core_final [OF this] have "map_option snd (fs_final u) = Some (sha256_spec msg)"
    using sha_final_absorbed [OF a] by auto
  then obtain r where "fs_final u = Some (r, sha256_spec msg)" by auto
  then show "map_option snd (rmr_fc16_sha256_final
      (rmr_fc16_sha256_update (rmr_fc16_sha256_init (Some c)) (Some msg) (length msg)) (Some out)) =
    Some (Some (buf_write out 0 (sha256_spec msg)))"
    by (simp add: u rmr_fc16_sha256_final_def)
qed

lemma sha256_implementations_agree_witness:
  "cf_words (rmr_cf_sha256_compress_block \<lparr>cf_h0 = 1, cf_h1 = 2, cf_h2 = 3, cf_h3 = 4, cf_h4 = 5, cf_h5 = 6, cf_h6 = 7, cf_h7 = 8\<rparr>
      (replicate 64 5)) =
    sha_compress (cf_words \<lparr>cf_h0 = 1, cf_h1 = 2, cf_h2 = 3, cf_h3 = 4, cf_h4 = 5, cf_h5 = 6, cf_h6 = 7, cf_h7 = 8\<rparr>) (replicate 64 5) \<and>
   map_option snd (rmr_fc16_sha256_final
      (rmr_fc16_sha256_update (rmr_fc16_sha256_init (Some \<lparr>fs_h = [], fs_bit_len = 0, fs_buffer = replicate 64 0, fs_buffer_len = 9\<rparr>))
        (Some [97, 98, 99]) (length [97, 98, 99 :: u8])) (Some (replicate 32 0))) =
    Some (Some (buf_write (replicate 32 0) 0 (sha256_spec [97, 98, 99])))"
  by (rule sha256_implementations_agree) simp_all

end
