(* ===== verification/Fc16_Correct.thy ===== *)
theory Fc16_Correct
  imports Fc16_Lanes Sha256_Correct
begin

text \<open>
  What the accumulator of Custody16 computes. Every operation depends only on the context up to the
  build flags, the hardware stamp, the thermal limits and \<open>blocks16\<close> (\<open>erase\<close>), and data may be cut into
  pieces at any place, so that the snapshots of two runs over the same entries compare equal.
\<close>

section \<open>Builds\<close>

lemma crc_any_build: "rmr_fc16_crc32c_update be s p n = rmr_fc16_crc32c_update CRC_SOFTWARE s p n"
  by (cases p) (simp_all add: crc32c_update_spec, simp add: rmr_fc16_crc32c_update_def)

lemma feed_meta_any_build: "feed_meta b = feed_meta b'"
  by (simp add: fun_eq_iff feed_meta_def crc32c_update_spec)

lemma begin_any_build: "rmr_fc16_entry_begin b = rmr_fc16_entry_begin b'"
  unfolding fun_eq_iff rmr_fc16_entry_begin_def crc_any_build [of "b_crc b"] crc_any_build [of "b_crc b'"]
    feed_meta_any_build [of b b'] by blast

lemma end_any_build: "rmr_fc16_entry_end b = rmr_fc16_entry_end b'"
  unfolding fun_eq_iff rmr_fc16_entry_end_def feed_meta_any_build [of b b'] by blast

lemma finalize_any_build: "rmr_fc16_finalize b = rmr_fc16_finalize b'"
  unfolding fun_eq_iff rmr_fc16_finalize_def feed_meta_any_build [of b b'] by blast

section \<open>What an operation can see\<close>

definition erase :: "rmr_fc16_context \<Rightarrow> rmr_fc16_context" where
  "erase c = c\<lparr>c_lane := map unblock (c_lane c), c_flags := 0, c_hw_stamp := 0,
     c_thermal_after_milli_c := 0, c_thermal_limit_milli_c := 0, c_thermal_max_delta_milli_c := 0\<rparr>"

lemma erase_fields [simp]:
  "c_sha (erase c) = c_sha c" "c_root_crc_state (erase c) = c_root_crc_state c"
  "c_entry_crc_state (erase c) = c_entry_crc_state c" "c_path_crc_final (erase c) = c_path_crc_final c"
  "c_entry_declared_size (erase c) = c_entry_declared_size c" "c_entry_seen_size (erase c) = c_entry_seen_size c"
  "c_entry_count (erase c) = c_entry_count c" "c_total_bytes (erase c) = c_total_bytes c"
  "c_thermal_before_milli_c (erase c) = c_thermal_before_milli_c c" "c_entry_open (erase c) = c_entry_open c"
  "c_entry_base_lane (erase c) = c_entry_base_lane c" "c_lane (erase c) = map unblock (c_lane c)"
  by (simp_all add: erase_def)

text \<open>The bytes of an entry as one step.\<close>

definition data_spec :: "bytes \<Rightarrow> rmr_fc16_context \<Rightarrow> rmr_fc16_context" where
  "data_spec xs c = c\<lparr>
     c_entry_crc_state := crc_spec CRC32C_POLY (c_entry_crc_state c) xs,
     c_sha := sha_feed (c_sha c) xs,
     c_lane := lanes_put (c_entry_base_lane c) (c_entry_seen_size c) xs (c_lane c),
     c_entry_seen_size := c_entry_seen_size c + of_nat (length xs),
     c_total_bytes := c_total_bytes c + of_nat (length xs)\<rparr>"

lemma data_spec_append: "data_spec (xs @ ys) c = data_spec ys (data_spec xs c)"
  by (simp add: data_spec_def crc_spec_append sha_feed_append lanes_put_append add.assoc)

lemma data_spec_Nil: "sha_feed (c_sha c) [] = c_sha c \<Longrightarrow> data_spec [] c = c"
  by (simp add: data_spec_def crc_spec_def)

lemma sha_feed_Nil [simp]: "sha_feed s [] = s"
  by (simp add: sha_feed_def rmr_fc16_sha256_update_def)

lemma entry_data_accept:
  assumes "c_entry_open c \<noteq> 0" "c_entry_seen_size c + of_nat (length d) \<le> c_entry_declared_size c"
    "length (c_lane c) = 16"
  shows "\<exists>c'. rmr_fc16_entry_data b (Some c) (Some d) (length d) = (Some c', FC16_OK) \<and>
    erase c' = data_spec d (erase c)"
proof -
  let ?base = "c_entry_base_lane c" and ?seen = "c_entry_seen_size c"
  obtain i1 l1 where 1: "lanes_head b ?base ?seen d (length d) 0 (c_lane c) = (i1, l1)" by fastforce
  obtain i2 l2 where 2: "lanes_blocks b ?base ?seen d (length d) i1 l1 = (i2, l2)" by fastforce
  have l: "map unblock (lanes_tail b ?base ?seen d (length d) i2 l2) = lanes_put ?base ?seen d (map unblock (c_lane c))"
    using lanes_data [OF order_refl assms(3) 1 2] by simp
  have n: "(c_entry_declared_size c < c_entry_seen_size c + of_nat (length d)) = False" using assms(2) leD by blast
  show ?thesis
    using assms(1) l
    by (simp add: rmr_fc16_entry_data_def Let_def 1 2 n crc32c_update_spec sha_update_feed data_spec_def erase_def)
qed

section \<open>The other operations up to erasure\<close>

lemma erase_feed_meta: "erase (feed_meta b c p n) = feed_meta b (erase c) p n"
  by (simp add: feed_meta_def erase_def)

lemma base_lane_bound: "unat (ucast (x AND 15 :: u32) :: u8) < 16"
proof -
  have "ucast (x AND 15) = take_bit 4 (ucast x :: u8)"
    by (rule bit_word_eqI) (auto simp: bit_simps take_bit_eq_mask mask_eq_exp_minus_1 bit_numeral_rec)
  then show ?thesis by (simp add: unat_take_bit_mod)
qed


text \<open>A context between entries, and one inside an entry.\<close>

definition sha_ok :: "rmr_fc16_sha256_ctx \<Rightarrow> bool" where
  "sha_ok s \<longleftrightarrow> (\<exists>bs. sha_absorbed bs (core_ctx s))"

definition fc16_ok :: "rmr_fc16_context \<Rightarrow> bool" where
  "fc16_ok c \<longleftrightarrow> length (c_lane c) = 16 \<and> sha_ok (c_sha c)"

lemma sha_ok_feed: "sha_ok s \<Longrightarrow> sha_ok (sha_feed s p)"
  unfolding sha_ok_def sha_feed_def core_update [OF refl] by (blast intro: sha_absorbed_update)

lemma feed_meta_fields [simp]:
  "c_lane (feed_meta b c p n) = c_lane c" "c_entry_open (feed_meta b c p n) = c_entry_open c"
  "c_entry_seen_size (feed_meta b c p n) = c_entry_seen_size c"
  "c_entry_declared_size (feed_meta b c p n) = c_entry_declared_size c"
  "c_entry_base_lane (feed_meta b c p n) = c_entry_base_lane c"
  "c_path_crc_final (feed_meta b c p n) = c_path_crc_final c"
  by (simp_all add: feed_meta_def)

lemma sha_ok_feed_meta: "n \<le> length p \<Longrightarrow> sha_ok (c_sha c) \<Longrightarrow> sha_ok (c_sha (feed_meta b c p n))"
  by (simp add: feed_meta_def sha_update_feed sha_ok_feed)

definition build0 :: fc16_build where
  "build0 = \<lparr>b_crc = CRC_SOFTWARE, b_vec = VEC_NONE\<rparr>"

definition begin_spec :: "bytes \<Rightarrow> u32 \<Rightarrow> nat \<Rightarrow> rmr_fc16_context \<Rightarrow> rmr_fc16_context" where
  "begin_spec path kind n c =
    the (fst (rmr_fc16_entry_begin build0 (Some c) (Some path) (of_nat (length path)) (of_nat n) kind))"

definition end_spec :: "rmr_fc16_context \<Rightarrow> rmr_fc16_context" where
  "end_spec c = the (fst (rmr_fc16_entry_end build0 (Some c)))"

lemma path_len_nonzero:
  "path \<noteq> [] \<Longrightarrow> length path < 2 ^ 32 \<Longrightarrow> (of_nat (length path) :: u32) \<noteq> 0"
  by (simp add: word_unat_eq_iff unat_of_nat_small)

lemma length_meta [simp]: "length (put_u32 v) = 4" "length (put_u64 w) = 8"
  by (simp_all add: put_u32_def put_u64_def)

lemma unblock_upd: "unblock (l\<lparr>l_crc_state := x, l_xor_fold := y\<rparr>) = (unblock l)\<lparr>l_crc_state := x, l_xor_fold := y\<rparr>"
  by (cases l) (simp add: unblock_def)

lemma entry_begin_ok:
  assumes "fc16_ok c" "c_entry_open c = 0" "path \<noteq> []" "length path < 2 ^ 32"
  shows "\<exists>c'. rmr_fc16_entry_begin b (Some c) (Some path) (of_nat (length path)) (of_nat n) kind = (Some c', FC16_OK) \<and>
    erase c' = begin_spec path kind n (erase c) \<and> fc16_ok c' \<and> c_entry_open c' \<noteq> 0 \<and>
    c_entry_seen_size c' = 0 \<and> c_entry_declared_size c' = of_nat n"
proof -
  let ?n = "of_nat (length path) :: u32"
  have n: "unat ?n = length path" using assms(4) by (simp add: unat_of_nat_small)
  define k where "k = unat (ucast (rmr_fc16_crc32c_finish (rmr_fc16_crc32c_update CRC_SOFTWARE 0xffffffff (Some path) (length path)) AND 15) :: u8)"
  have k: "k < 16" unfolding k_def by (rule base_lane_bound)
  have lanes: "length (c_lane c) = 16" using assms(1) by (simp add: fc16_ok_def)
  have sha: "sha_ok (c_sha c)" using assms(1) by (simp add: fc16_ok_def)
  have nth: "l_crc_state (map unblock (c_lane c) ! k) = l_crc_state (c_lane c ! k)"
    "l_xor_fold (map unblock (c_lane c) ! k) = l_xor_fold (c_lane c ! k)"
    using k lanes by (simp_all add: unblock_def)
  obtain c' where c': "rmr_fc16_entry_begin build0 (Some c) (Some path) ?n (of_nat n) kind = (Some c', FC16_OK)"
    using assms(2) path_len_nonzero [OF assms(3,4)] by (simp add: rmr_fc16_entry_begin_def Let_def)
  have "c' = the (fst (rmr_fc16_entry_begin build0 (Some c) (Some path) ?n (of_nat n) kind))" by (simp add: c')
  then have "erase c' = begin_spec path kind n (erase c) \<and> fc16_ok c' \<and> c_entry_open c' \<noteq> 0 \<and>
    c_entry_seen_size c' = 0 \<and> c_entry_declared_size c' = of_nat n"
    using assms(2) path_len_nonzero [OF assms(3,4)] k lanes sha nth
    by (simp add: begin_spec_def rmr_fc16_entry_begin_def Let_def n k_def [symmetric] build0_def fc16_ok_def
        sha_update_feed sha_ok_feed feed_meta_def erase_def map_update unblock_upd)
  with c' show ?thesis using begin_any_build [of b build0] by auto
qed


lemma entry_end_ok:
  assumes "fc16_ok c" "c_entry_open c \<noteq> 0" "c_entry_seen_size c = c_entry_declared_size c"
  shows "\<exists>c'. rmr_fc16_entry_end b (Some c) = (Some c', FC16_OK) \<and> erase c' = end_spec (erase c) \<and>
    fc16_ok c' \<and> c_entry_open c' = 0"
proof -
  obtain c' where c': "rmr_fc16_entry_end build0 (Some c) = (Some c', FC16_OK)"
    using assms(2,3) by (simp add: rmr_fc16_entry_end_def Let_def)
  have "c' = the (fst (rmr_fc16_entry_end build0 (Some c)))" by (simp add: c')
  then have "erase c' = end_spec (erase c) \<and> fc16_ok c' \<and> c_entry_open c' = 0"
    using assms by (simp add: end_spec_def rmr_fc16_entry_end_def Let_def fc16_ok_def sha_update_feed sha_ok_feed
        feed_meta_def erase_def)
  with c' show ?thesis using end_any_build [of b build0] by auto
qed

section \<open>Data in pieces\<close>

text \<open>Running a list of pieces through \<open>rmr_fc16_entry_data\<close>, with the statuses.\<close>

fun feed_pieces :: "fc16_build \<Rightarrow> rmr_fc16_context option \<Rightarrow> bytes list \<Rightarrow> rmr_fc16_context option \<times> u32 list" where
  "feed_pieces b c [] = (c, [])"
| "feed_pieces b c (d # ds) =
    (let (c, s) = rmr_fc16_entry_data b c (Some d) (length d); (c, ss) = feed_pieces b c ds in (c, s # ss))"

lemma data_spec_fields [simp]:
  "c_entry_open (data_spec d c) = c_entry_open c" "c_entry_declared_size (data_spec d c) = c_entry_declared_size c"
  "c_entry_seen_size (data_spec d c) = c_entry_seen_size c + of_nat (length d)"
  "length (c_lane (data_spec d c)) = length (c_lane c)" "c_sha (data_spec d c) = sha_feed (c_sha c) d"
  by (simp_all add: data_spec_def)

lemma erase_eqD:
  assumes "erase c = e"
  shows "c_entry_open c = c_entry_open e" "c_entry_declared_size c = c_entry_declared_size e"
    "c_entry_seen_size c = c_entry_seen_size e" "length (c_lane c) = length (c_lane e)" "c_sha c = c_sha e"
    "c_total_bytes c = c_total_bytes e"
  unfolding assms [symmetric] by simp_all

lemma feed_pieces_ok:
  "fc16_ok c \<Longrightarrow> c_entry_open c \<noteq> 0 \<Longrightarrow>
   unat (c_entry_seen_size c) + length (concat ds) \<le> unat (c_entry_declared_size c) \<Longrightarrow>
   \<exists>c'. feed_pieces b (Some c) ds = (Some c', replicate (length ds) FC16_OK) \<and>
     erase c' = data_spec (concat ds) (erase c) \<and> fc16_ok c' \<and> c_entry_open c' \<noteq> 0 \<and>
     c_entry_declared_size c' = c_entry_declared_size c \<and>
     unat (c_entry_seen_size c') = unat (c_entry_seen_size c) + length (concat ds)"
proof (induction ds arbitrary: c)
  case Nil
  then show ?case by (simp add: data_spec_Nil)
next
  case (Cons d ds)
  let ?D = "c_entry_declared_size c" and ?S = "c_entry_seen_size c"
  have "unat ?D < 2 ^ 64" using unsigned_less [of ?D] by simp
  then have u: "unat (?S + of_nat (length d)) = unat ?S + length d"
    using Cons.prems(3) by (simp add: unat_word_ariths unat_of_nat_small)
  have le: "?S + of_nat (length d) \<le> ?D" using Cons.prems(3) by (simp add: word_le_nat_alt u)
  have lanes: "length (c_lane c) = 16" using Cons.prems(1) by (simp add: fc16_ok_def)
  obtain c1 where c1: "rmr_fc16_entry_data b (Some c) (Some d) (length d) = (Some c1, FC16_OK)"
    "erase c1 = data_spec d (erase c)"
    using entry_data_accept [OF Cons.prems(2) le lanes] by blast
  note f = erase_eqD [OF c1(2)]
  have ok: "fc16_ok c1"
    using Cons.prems(1) f by (simp add: fc16_ok_def sha_ok_feed)
  have "unat (c_entry_seen_size c1) + length (concat ds) \<le> unat (c_entry_declared_size c1)"
    using Cons.prems(3) f u by simp
  moreover have "c_entry_open c1 \<noteq> 0" using Cons.prems(2) f by simp
  ultimately obtain c' where c': "feed_pieces b (Some c1) ds = (Some c', replicate (length ds) FC16_OK)"
     "erase c' = data_spec (concat ds) (erase c1)" "fc16_ok c'" "c_entry_open c' \<noteq> 0"
     "c_entry_declared_size c' = c_entry_declared_size c1"
     "unat (c_entry_seen_size c') = unat (c_entry_seen_size c1) + length (concat ds)"
    using Cons.IH [OF ok] by blast
  then show ?case
    using c1 f u by (simp add: data_spec_append)
qed

section \<open>Whole entries and whole runs\<close>

type_synonym fc16_entry = "bytes \<times> u32 \<times> bytes list"

definition run_entry ::
  "fc16_build \<Rightarrow> rmr_fc16_context option \<Rightarrow> fc16_entry \<Rightarrow> rmr_fc16_context option \<times> u32 list" where
  "run_entry b c e =
    (case e of (path, kind, ds) \<Rightarrow>
       let (c, s1) = rmr_fc16_entry_begin b c (Some path) (of_nat (length path)) (of_nat (length (concat ds))) kind;
           (c, ss) = feed_pieces b c ds;
           (c, s2) = rmr_fc16_entry_end b c
       in (c, s1 # ss @ [s2]))"

fun run_entries ::
  "fc16_build \<Rightarrow> rmr_fc16_context option \<Rightarrow> fc16_entry list \<Rightarrow> rmr_fc16_context option \<times> u32 list" where
  "run_entries b c [] = (c, [])"
| "run_entries b c (e # es) =
    (let (c, s) = run_entry b c e; (c, ss) = run_entries b c es in (c, s @ ss))"

definition entry_ok :: "fc16_entry \<Rightarrow> bool" where
  "entry_ok e \<longleftrightarrow> (case e of (path, kind, ds) \<Rightarrow>
     path \<noteq> [] \<and> length path < 2 ^ 32 \<and> length (concat ds) < 2 ^ 64)"

text \<open>What an entry is, without the cuts.\<close>

definition whole_entry :: "fc16_entry \<Rightarrow> bytes \<times> u32 \<times> bytes" where
  "whole_entry e = (case e of (path, kind, ds) \<Rightarrow> (path, kind, concat ds))"

definition entry_spec :: "bytes \<times> u32 \<times> bytes \<Rightarrow> rmr_fc16_context \<Rightarrow> rmr_fc16_context" where
  "entry_spec e c = (case e of (path, kind, bs) \<Rightarrow> end_spec (data_spec bs (begin_spec path kind (length bs) c)))"

lemma run_entry_ok:
  assumes "fc16_ok c" "c_entry_open c = 0" "entry_ok e"
  shows "\<exists>c' ss. run_entry b (Some c) e = (Some c', ss) \<and> set ss = {FC16_OK} \<and>
    erase c' = entry_spec (whole_entry e) (erase c) \<and> fc16_ok c' \<and> c_entry_open c' = 0"
proof -
  obtain path kind ds where e: "e = (path, kind, ds)" by (metis surj_pair)
  let ?n = "length (concat ds)"
  have p: "path \<noteq> []" "length path < 2 ^ 32" and n: "unat (of_nat ?n :: u64) = ?n"
    using assms(3) by (simp_all add: e entry_ok_def unat_of_nat_small)
  obtain c1 where c1: "rmr_fc16_entry_begin b (Some c) (Some path) (of_nat (length path)) (of_nat ?n) kind = (Some c1, FC16_OK)"
    "erase c1 = begin_spec path kind ?n (erase c)" "fc16_ok c1" "c_entry_open c1 \<noteq> 0" "c_entry_seen_size c1 = 0"
    "c_entry_declared_size c1 = of_nat ?n"
    using entry_begin_ok [OF assms(1,2) p] by blast
  have "unat (c_entry_seen_size c1) + ?n \<le> unat (c_entry_declared_size c1)"
    unfolding c1(5,6) n by simp
  from feed_pieces_ok [OF c1(3,4) this, of b] obtain c2 where
    c2: "feed_pieces b (Some c1) ds = (Some c2, replicate (length ds) FC16_OK)"
      "erase c2 = data_spec (concat ds) (erase c1)" "fc16_ok c2" "c_entry_open c2 \<noteq> 0"
      "c_entry_declared_size c2 = c_entry_declared_size c1"
      "unat (c_entry_seen_size c2) = unat (c_entry_seen_size c1) + ?n" by blast
  have "c_entry_seen_size c2 = c_entry_declared_size c2"
    using c2(5,6) c1(5,6) n by (simp add: word_unat_eq_iff del: length_concat)
  from entry_end_ok [OF c2(3,4) this, of b] obtain c3 where
    c3: "rmr_fc16_entry_end b (Some c2) = (Some c3, FC16_OK)" "erase c3 = end_spec (erase c2)"
      "fc16_ok c3" "c_entry_open c3 = 0" by blast
  have "run_entry b (Some c) e = (Some c3, FC16_OK # replicate (length ds) FC16_OK @ [FC16_OK])"
    by (simp add: run_entry_def e c1(1) c2(1) c3(1) del: length_concat)
  moreover have "set (FC16_OK # replicate (length ds) FC16_OK @ [FC16_OK]) = {FC16_OK}" by auto
  ultimately show ?thesis
    using c1(2) c2(2) c3 by (simp add: entry_spec_def whole_entry_def e)
qed

lemma run_entries_ok:
  "fc16_ok c \<Longrightarrow> c_entry_open c = 0 \<Longrightarrow> \<forall>e\<in>set es. entry_ok e \<Longrightarrow>
   \<exists>c' ss. run_entries b (Some c) es = (Some c', ss) \<and> set ss \<subseteq> {FC16_OK} \<and>
     erase c' = fold entry_spec (map whole_entry es) (erase c) \<and> fc16_ok c' \<and> c_entry_open c' = 0"
proof (induction es arbitrary: c)
  case Nil
  then show ?case by simp
next
  case (Cons e es)
  obtain c1 ss1 where c1: "run_entry b (Some c) e = (Some c1, ss1)" "set ss1 = {FC16_OK}"
    "erase c1 = entry_spec (whole_entry e) (erase c)" "fc16_ok c1" "c_entry_open c1 = 0"
    using run_entry_ok [OF Cons.prems(1,2), of e b] Cons.prems(3) by auto
  obtain c2 ss2 where c2: "run_entries b (Some c1) es = (Some c2, ss2)" "set ss2 \<subseteq> {FC16_OK}"
    "erase c2 = fold entry_spec (map whole_entry es) (erase c1)" "fc16_ok c2" "c_entry_open c2 = 0"
    using Cons.IH [OF c1(4,5)] Cons.prems(3) by auto
  then show ?case using c1 by (auto simp: Let_def)
qed

section \<open>Snapshots\<close>

lemma sha_final_ok:
  assumes "sha_ok s"
  shows "\<exists>s' d. rmr_fc16_sha256_final (Some s) (Some out) = Some (Some s', Some (buf_write out 0 d)) \<and>
    map_option snd (fs_final s) = Some d"
proof -
  obtain bs where a: "sha_absorbed bs (core_ctx s)" using assms by (auto simp: sha_ok_def)
  then have "fs_buffer_len s < 64" by (simp add: sha_absorbed_def core_ctx_def)
  from core_final [OF this] sha_final_absorbed [OF a] obtain d where "map_option snd (fs_final s) = Some d" by auto
  then obtain s' where "fs_final s = Some (s', d)" by auto
  then show ?thesis by (simp add: rmr_fc16_sha256_final_def)
qed

text \<open>The fields that \<open>rmr_fc16_snapshot_equal\<close> compares.\<close>

definition compared :: "rmr_fc16_snapshot \<Rightarrow> _" where
  "compared s = (s_root_crc32c s, s_path_count_low s, s_entry_count s, s_total_bytes s,
     s_lane_crc32c s, s_lane_xor_fold s, s_lane_bytes s, s_sha256 s)"

lemma foldl_ignore [simp]: "foldl (\<lambda>d i. d) w is = w"
  by (induction "is") simp_all

lemma snapshot_equalI: "compared s = compared s' \<Longrightarrow> rmr_fc16_snapshot_equal (Some s) (Some s') = 1"
  by (simp add: compared_def rmr_fc16_snapshot_equal_def Let_def)

lemma erase_eq_fields:
  assumes "erase c = erase c'"
  shows "c_sha c = c_sha c'" "c_root_crc_state c = c_root_crc_state c'" "c_entry_count c = c_entry_count c'"
    "c_total_bytes c = c_total_bytes c'" "c_thermal_before_milli_c c = c_thermal_before_milli_c c'"
    "map unblock (c_lane c) = map unblock (c_lane c')"
  using arg_cong [OF assms, of c_sha] arg_cong [OF assms, of c_root_crc_state] arg_cong [OF assms, of c_entry_count]
    arg_cong [OF assms, of c_total_bytes] arg_cong [OF assms, of c_thermal_before_milli_c]
    arg_cong [OF assms, of c_lane] by simp_all

lemma unblock_eq_lane:
  assumes "map unblock ls = map unblock ls'" "i < length ls"
  shows "l_crc_state (ls ! i) = l_crc_state (ls' ! i)" "l_xor_fold (ls ! i) = l_xor_fold (ls' ! i)"
    "l_bytes (ls ! i) = l_bytes (ls' ! i)"
proof -
  have "length ls = length ls'" using map_eq_imp_length_eq [OF assms(1)] .
  then have "unblock (ls ! i) = unblock (ls' ! i)" using assms by (metis nth_map)
  then show "l_crc_state (ls ! i) = l_crc_state (ls' ! i)" "l_xor_fold (ls ! i) = l_xor_fold (ls' ! i)"
    "l_bytes (ls ! i) = l_bytes (ls' ! i)"
    unfolding unblock_def by (auto dest: arg_cong [of _ _ l_crc_state] arg_cong [of _ _ l_xor_fold] arg_cong [of _ _ l_bytes])
qed

text \<open>The bytes fed last, and the digest over them.\<close>

definition final_meta :: "rmr_fc16_context \<Rightarrow> u32 \<Rightarrow> bytes" where
  "final_meta c ta = [of_char (CHR ''F''), of_char (CHR ''I''), of_char (CHR ''N''), of_char (CHR ''L'')]
     @ put_u64 (c_entry_count c) @ put_u64 (c_total_bytes c) @ put_u32 (c_thermal_before_milli_c c) @ put_u32 ta"

lemma finalize_ok:
  assumes "fc16_ok c" "c_entry_open c = 0"
  shows "\<exists>x s d. rmr_fc16_finalize b (Some c) ta (Some out) =
      Some (x, Some s, if thermal_accepted c ta then FC16_OK else FC16_ERR_THERMAL) \<and>
    map_option snd (fs_final (sha_feed (c_sha c) (final_meta c ta))) = Some d \<and>
    compared s = (rmr_fc16_crc32c_finish (crc_spec CRC32C_POLY (c_root_crc_state c) (final_meta c ta)),
      ucast (c_entry_count c), c_entry_count c, c_total_bytes c,
      map (\<lambda>i. rmr_fc16_crc32c_finish (l_crc_state (c_lane c ! i))) [0..<16],
      map (\<lambda>i. l_xor_fold (c_lane c ! i)) [0..<16], map (\<lambda>i. l_bytes (c_lane c ! i)) [0..<16],
      buf_write (replicate 32 0) 0 d)"
proof -
  have "sha_ok (sha_feed (c_sha c) (final_meta c ta))"
    using assms(1) by (simp add: fc16_ok_def sha_ok_feed)
  from sha_final_ok [OF this] obtain s' d where
    f: "rmr_fc16_sha256_final (Some (sha_feed (c_sha c) (final_meta c ta))) (Some (replicate 32 0)) =
      Some (Some s', Some (buf_write (replicate 32 0) 0 d))"
      "map_option snd (fs_final (sha_feed (c_sha c) (final_meta c ta))) = Some d" by blast
  have l: "28 \<le> length (final_meta c ta)" "take 28 (final_meta c ta) = final_meta c ta"
    by (simp_all add: final_meta_def)
  have acc: "thermal_accepted (c\<lparr>c_thermal_after_milli_c := ta\<rparr>) ta = thermal_accepted c ta"
    by (simp add: thermal_accepted_def)
  have fm: "70 # 73 # 78 # 76 # put_u64 (c_entry_count c) @ put_u64 (c_total_bytes c) @
      put_u32 (c_thermal_before_milli_c c) @ put_u32 ta = final_meta c ta"
    by (simp add: final_meta_def)
  have z: "s_sha256 zero_snapshot = replicate 32 0" by (simp add: zero_snapshot_def)
  show ?thesis
    using assms(2) f
    by (cases "thermal_accepted c ta") (auto simp: rmr_fc16_finalize_def Let_def acc fm z feed_meta_def
        sha_update_feed [OF l(1)] crc32c_update_spec l(2) compared_def)
qed

lemma finalize_compared:
  assumes "fc16_ok c" "c_entry_open c = 0" "fc16_ok c'" "c_entry_open c' = 0" "erase c = erase c'"
  shows "\<exists>x s x' s'. rmr_fc16_finalize b (Some c) ta (Some o1) =
      Some (x, Some s, if thermal_accepted c ta then FC16_OK else FC16_ERR_THERMAL) \<and>
    rmr_fc16_finalize b' (Some c') ta (Some o2) =
      Some (x', Some s', if thermal_accepted c' ta then FC16_OK else FC16_ERR_THERMAL) \<and> compared s = compared s'"
proof -
  obtain x s d where 1: "rmr_fc16_finalize b (Some c) ta (Some o1) =
      Some (x, Some s, if thermal_accepted c ta then FC16_OK else FC16_ERR_THERMAL)"
    "map_option snd (fs_final (sha_feed (c_sha c) (final_meta c ta))) = Some d"
    "compared s = (rmr_fc16_crc32c_finish (crc_spec CRC32C_POLY (c_root_crc_state c) (final_meta c ta)),
      ucast (c_entry_count c), c_entry_count c, c_total_bytes c,
      map (\<lambda>i. rmr_fc16_crc32c_finish (l_crc_state (c_lane c ! i))) [0..<16],
      map (\<lambda>i. l_xor_fold (c_lane c ! i)) [0..<16], map (\<lambda>i. l_bytes (c_lane c ! i)) [0..<16],
      buf_write (replicate 32 0) 0 d)"
    using finalize_ok [OF assms(1,2)] by blast
  obtain x' s' d' where 2: "rmr_fc16_finalize b' (Some c') ta (Some o2) =
      Some (x', Some s', if thermal_accepted c' ta then FC16_OK else FC16_ERR_THERMAL)"
    "map_option snd (fs_final (sha_feed (c_sha c') (final_meta c' ta))) = Some d'"
    "compared s' = (rmr_fc16_crc32c_finish (crc_spec CRC32C_POLY (c_root_crc_state c') (final_meta c' ta)),
      ucast (c_entry_count c'), c_entry_count c', c_total_bytes c',
      map (\<lambda>i. rmr_fc16_crc32c_finish (l_crc_state (c_lane c' ! i))) [0..<16],
      map (\<lambda>i. l_xor_fold (c_lane c' ! i)) [0..<16], map (\<lambda>i. l_bytes (c_lane c' ! i)) [0..<16],
      buf_write (replicate 32 0) 0 d')"
    using finalize_ok [OF assms(3,4)] by blast
  note e = erase_eq_fields [OF assms(5)]
  have m: "final_meta c ta = final_meta c' ta" by (simp add: final_meta_def e)
  have "length (c_lane c) = 16" using assms(1) by (simp add: fc16_ok_def)
  then have "compared s = compared s'"
    using 1(2) 2(2) unfolding 1(3) 2(3) m e(1,2,3,4) by (auto simp: unblock_eq_lane [OF e(6)])
  with 1(1) 2(1) show ?thesis by blast
qed

section \<open>Reproducible snapshots\<close>

text \<open>A run: initialise, feed the entries, finish; the statuses and what finalisation returns.\<close>

definition custody_run ::
  "fc16_build \<Rightarrow> u64 \<Rightarrow> u32 \<Rightarrow> u32 \<Rightarrow> u32 \<Rightarrow> fc16_entry list \<Rightarrow> u32 \<Rightarrow>
   u32 list \<times> (rmr_fc16_context option \<times> rmr_fc16_snapshot option \<times> u32) option" where
  "custody_run b hw tb limit delta es ta =
    (let (c, ss) = run_entries b (rmr_fc16_init b (Some zero_context) hw tb limit delta) es
     in (ss, rmr_fc16_finalize b c ta (Some zero_snapshot)))"

lemma replicate_upd_const: "map f (replicate n x) = replicate n (f x)"
  by simp

lemma init_ok:
  "\<exists>c. rmr_fc16_init b (Some c0) hw tb limit delta = Some c \<and> fc16_ok c \<and> c_entry_open c = 0 \<and>
    erase c = erase (the (rmr_fc16_init build0 (Some c0) 0 tb 0 0))"
proof -
  let ?s = "the (rmr_fc16_sha256_init (Some (c_sha zero_context)))"
  have "core_ctx ?s = pai_sha256_init (core_ctx (c_sha zero_context))"
    by (simp add: rmr_fc16_sha256_init_def pai_sha256_init_def core_ctx_def)
  moreover have "sha_absorbed [] (pai_sha256_init (core_ctx (c_sha zero_context)))"
    by (rule sha_absorbed_init) (simp add: core_ctx_def zero_context_def)
  ultimately have "sha_ok ?s" unfolding sha_ok_def by metis
  then show ?thesis
    by (simp add: rmr_fc16_init_def Let_def fc16_ok_def feed_meta_def sha_update_feed sha_ok_feed erase_def
        crc32c_update_spec zero_context_def)
qed

text \<open>
  The snapshot of Custody16 depends only on what was archived: two runs over the same entries
  (path, kind and bytes in order), with any builds, hardware stamps and thermal limits and with the
  bytes of every entry cut into pieces anywhere, accept every call and produce snapshots that
  \<open>rmr_fc16_snapshot_equal\<close> calls equal: the root checksum, the sixteen lanes and the SHA-256 do not
  see the cuts. The thermal readings are part of the digest and are the same in both runs.
\<close>

theorem fc16_snapshot_reproducible:
  assumes "\<forall>e\<in>set es. entry_ok e" "\<forall>e\<in>set es'. entry_ok e" "map whole_entry es = map whole_entry es'"
  shows "(case (custody_run b hw tb limit delta es ta, custody_run b' hw' tb limit' delta' es' ta) of
      ((ss, r), (ss', r')) \<Rightarrow>
        set ss \<subseteq> {FC16_OK} \<and> set ss' \<subseteq> {FC16_OK} \<and> r \<noteq> None \<and> r' \<noteq> None \<and>
        rmr_fc16_snapshot_equal (fst (snd (the r))) (fst (snd (the r'))) = 1)"
proof -
  obtain c where c: "rmr_fc16_init b (Some zero_context) hw tb limit delta = Some c" "fc16_ok c" "c_entry_open c = 0"
    "erase c = erase (the (rmr_fc16_init build0 (Some zero_context) 0 tb 0 0))" using init_ok by blast
  obtain c' where c': "rmr_fc16_init b' (Some zero_context) hw' tb limit' delta' = Some c'" "fc16_ok c'"
    "c_entry_open c' = 0" "erase c' = erase (the (rmr_fc16_init build0 (Some zero_context) 0 tb 0 0))"
    using init_ok by blast
  obtain d ss where d: "run_entries b (Some c) es = (Some d, ss)" "set ss \<subseteq> {FC16_OK}"
    "erase d = fold entry_spec (map whole_entry es) (erase c)" "fc16_ok d" "c_entry_open d = 0"
    using run_entries_ok [OF c(2,3) assms(1)] by blast
  obtain d' ss' where d': "run_entries b' (Some c') es' = (Some d', ss')" "set ss' \<subseteq> {FC16_OK}"
    "erase d' = fold entry_spec (map whole_entry es') (erase c')" "fc16_ok d'" "c_entry_open d' = 0"
    using run_entries_ok [OF c'(2,3) assms(2)] by blast
  have "erase d = erase d'" by (simp only: d(3) d'(3) c(4) c'(4) assms(3))
  from finalize_compared [OF d(4,5) d'(4,5) this, of b ta zero_snapshot b' zero_snapshot]
  obtain x s y x' s' y' where "rmr_fc16_finalize b (Some d) ta (Some zero_snapshot) = Some (x, Some s, y)"
    "rmr_fc16_finalize b' (Some d') ta (Some zero_snapshot) = Some (x', Some s', y')" "compared s = compared s'" by blast
  then show ?thesis
    using c(1) c'(1) d(1,2) d'(1,2) by (simp add: custody_run_def snapshot_equalI)
qed

lemma fc16_snapshot_reproducible_witness:
  "(case (custody_run build0 5 30000 0 0 [([97, 98], 1, [replicate 5 7, [], replicate 40 8])] 31000,
          custody_run \<lparr>b_crc = CRC_X86_64, b_vec = VEC_SSE2\<rparr> 9 30000 45000 5 [([97, 98], 1, [replicate 5 7 @ replicate 40 8])] 31000) of
      ((ss, r), (ss', r')) \<Rightarrow>
        set ss \<subseteq> {FC16_OK} \<and> set ss' \<subseteq> {FC16_OK} \<and> r \<noteq> None \<and> r' \<noteq> None \<and>
        rmr_fc16_snapshot_equal (fst (snd (the r))) (fst (snd (the r'))) = 1)"
  by (rule fc16_snapshot_reproducible) (simp_all add: entry_ok_def whole_entry_def)

end
