(* ===== verification/Fc16_Words.thy ===== *)
theory Fc16_Words
  imports Fc16_Zip Fc16_Correct "HOL-Library.Multiset"
begin

text \<open>
  The sparse word deltas, the median, the warm-up and the protocol of entries of Custody16.
\<close>

section \<open>Sparse deltas\<close>

text \<open>The words that differ from position \<open>i\<close> on, in order, as entries of a delta.\<close>

definition delta_list :: "u64 list \<Rightarrow> u64 list \<Rightarrow> nat \<Rightarrow> nat \<Rightarrow> rmr_fc16_delta64 list" where
  "delta_list before after i n =
    map (\<lambda>i. \<lparr>d_word_index = of_nat i, d_xor_mask = before ! i XOR after ! i\<rparr>)
      (filter (\<lambda>i. before ! i \<noteq> after ! i) [i..<n])"

lemma delta_list_step:
  "i < n \<Longrightarrow> delta_list before after i n =
    (if before ! i \<noteq> after ! i then [\<lparr>d_word_index = of_nat i, d_xor_mask = before ! i XOR after ! i\<rparr>] else [])
    @ delta_list before after (Suc i) n"
  by (simp add: delta_list_def upt_conv_Cons)

lemma delta64_loop_result:
  assumes "length pre = k" "cap \<le> length (pre @ rest)" "k \<le> cap"
  shows "\<exists>out'. delta64_loop before after cap i (pre @ rest) k left =
      (out', let d = delta_list before after i (i + left) in
             if k + length d \<le> cap then Some (k + length d) else None) \<and>
    length out' = length (pre @ rest) \<and>
    (let d = delta_list before after i (i + left) in
     k + length d \<le> cap \<longrightarrow> out' = pre @ d @ drop (length d) rest)"
  using assms
proof (induction left arbitrary: i k pre rest)
  case 0
  then show ?case by (simp add: delta_list_def Let_def)
next
  case (Suc left)
  have m: "(before ! i XOR after ! i \<noteq> 0) = (before ! i \<noteq> after ! i)" by (simp add: xor_zero_word)
  have d: "delta_list before after i (Suc (i + left)) =
      (if before ! i \<noteq> after ! i then [\<lparr>d_word_index = of_nat i, d_xor_mask = before ! i XOR after ! i\<rparr>] else [])
      @ delta_list before after (Suc i) (Suc (i + left))"
    using delta_list_step [of i "Suc (i + left)"] by simp
  show ?case
  proof (cases "before ! i \<noteq> after ! i")
    case False
    then show ?thesis using Suc.IH [OF Suc.prems, of "Suc i"] by (simp add: d m Let_def)
  next
    case True
    show ?thesis
    proof (cases "k < cap")
      case full: False
      then show ?thesis using True by (simp add: d m Let_def)
    next
      case ktrue: True
      obtain r rest' where r: "rest = r # rest'" using ktrue Suc.prems by (cases rest) auto
      let ?e = "\<lparr>d_word_index = of_nat i, d_xor_mask = before ! i XOR after ! i\<rparr> :: rmr_fc16_delta64"
      have u: "(pre @ rest)[k := ?e] = (pre @ [?e]) @ rest'" using Suc.prems(1) by (simp add: r list_update_append)
      have "length (pre @ [?e]) = Suc k" "cap \<le> length ((pre @ [?e]) @ rest')" "Suc k \<le> cap"
        using Suc.prems ktrue r by auto
      from Suc.IH [OF this, of "Suc i"] show ?thesis
        using True ktrue u by (auto simp: d m r Let_def split: if_splits)
    qed
  qed
qed

text \<open>Applying the entries of a delta moves the words it names from \<open>before\<close> to \<open>after\<close>.\<close>

lemma delta64_apply_list:
  assumes "length t = n" "length before = n" "length after = n" "n < 2 ^ 64"
    and "\<forall>j. i \<le> j \<and> j < n \<longrightarrow> t ! j = before ! j" "\<forall>j < i. t ! j = after ! j" "i \<le> n"
  shows "delta64_apply_loop t n (delta_list before after i n) = (after, FC16_OK)"
  using assms
proof (induction "n - i" arbitrary: i t)
  case 0
  then have "t = after" by (auto simp: list_eq_iff_nth_eq)
  then show ?case using 0 by (simp add: delta_list_def)
next
  case (Suc m)
  then have i: "i < n" by simp
  have u: "unat (of_nat i :: u64) = i" using i Suc.prems(4) by (intro unat_of_nat_small) simp
  have ti: "t ! i = before ! i" using Suc.prems(5) i by simp
  show ?case
  proof (cases "before ! i = after ! i")
    case True
    have "\<forall>j < Suc i. t ! j = after ! j" using Suc.prems(6) True ti by (auto simp: less_Suc_eq)
    then have "delta64_apply_loop t n (delta_list before after (Suc i) n) = (after, FC16_OK)"
      using Suc.hyps(2) Suc.prems i by (intro Suc.hyps(1)) auto
    then show ?thesis using True i by (simp add: delta_list_step)
  next
    case False
    let ?t = "t[i := after ! i]"
    have "before ! i XOR (before ! i XOR after ! i) = after ! i" by (simp add: xor.assoc [symmetric])
    moreover have "delta64_apply_loop ?t n (delta_list before after (Suc i) n) = (after, FC16_OK)"
      using Suc.hyps(2) Suc.prems i by (intro Suc.hyps(1)) (auto simp: less_Suc_eq nth_list_update)
    ultimately show ?thesis using False i by (simp add: delta_list_step u ti)
  qed
qed

text \<open>
  A delta of two arrays of equal length lists exactly the words that differ, in order; with room
  for them the build reports their number, and applying the delta to the first array gives the second.
  Without room the build fails with the capacity error and leaves the count alone. No write leaves
  the output array.
\<close>

theorem delta64_round_trip:
  assumes "length before = n" "length after = n" "n < 2 ^ 64" "cap \<le> length out"
  defines "changed \<equiv> filter (\<lambda>i. before ! i \<noteq> after ! i) [0..<n]"
  shows "\<exists>out'. length out' = length out \<and>
    (if length changed \<le> cap
     then rmr_fc16_delta64_build (Some before) (Some after) n (Some out) cap (Some k) =
            (Some out', Some (length changed), FC16_OK) \<and>
          map (unat \<circ> d_word_index) (take (length changed) out') = changed \<and>
          rmr_fc16_delta64_apply (Some before) n (Some out') (length changed) = (Some after, FC16_OK)
     else rmr_fc16_delta64_build (Some before) (Some after) n (Some out) cap (Some k) =
            (Some out', Some k, FC16_ERR_CAPACITY))"
proof -
  let ?d = "delta_list before after 0 n"
  have l: "length ?d = length changed" by (simp add: delta_list_def changed_def)
  obtain out' where o: "delta64_loop before after cap 0 out 0 n =
      (out', if length ?d \<le> cap then Some (length ?d) else None)" "length out' = length out"
    "length ?d \<le> cap \<Longrightarrow> out' = ?d @ drop (length ?d) out"
    using delta64_loop_result [of "[]" 0 cap out before after 0 n] assms(4) by (auto simp: Let_def)
  have idx: "map (unat \<circ> d_word_index) ?d = changed"
    unfolding delta_list_def changed_def using assms(3)
    by (auto simp: map_idI unat_of_nat_small intro!: map_idI)
  have apply_ok: "delta64_apply_loop before n ?d = (after, FC16_OK)"
    using assms(1-3) by (intro delta64_apply_list) simp_all
  show ?thesis
  proof (cases "length changed \<le> cap")
    case True
    then have t: "take (length changed) out' = ?d" using o(3) l by simp
    show ?thesis
      using True o(1,2) l t idx apply_ok
      by (intro exI [of _ out']) (simp add: rmr_fc16_delta64_build_def rmr_fc16_delta64_apply_def)
  next
    case False
    then show ?thesis
      using o(1,2) l by (intro exI [of _ out']) (simp add: rmr_fc16_delta64_build_def)
  qed
qed

lemma delta64_round_trip_witness:
  "\<exists>out'. rmr_fc16_delta64_build (Some [1, 2, 3]) (Some [1, 5, 3]) 3 (Some [\<lparr>d_word_index = 9, d_xor_mask = 9\<rparr>]) 1 (Some 7) =
      (Some out', Some 1, FC16_OK) \<and>
    rmr_fc16_delta64_apply (Some [1, 2, 3]) 3 (Some out') 1 = (Some [1, 5, 3], FC16_OK)"
proof -
  have c: "filter (\<lambda>i. [1, 2, 3 :: u64] ! i \<noteq> [1, 5, 3] ! i) [0..<3] = [1]"
  proof -
    have "[0..<3 :: nat] = [0, 1, 2]" by (simp add: upt_rec)
    then show ?thesis by simp
  qed
  show ?thesis
    using delta64_round_trip [of "[1, 2, 3]" 3 "[1, 5, 3]" 1 "[\<lparr>d_word_index = 9, d_xor_mask = 9\<rparr>]" 7]
    unfolding c by auto
qed

section \<open>The median\<close>

lemma median_shift_result:
  assumes "j < length s" "sorted (take j s)"
  shows "\<exists>i \<le> j. median_shift s key j = (take i s @ s ! i # drop i (take j s) @ drop (Suc j) s, i) \<and>
    (\<forall>x \<in> set (take i s). x \<le> key) \<and> (\<forall>x \<in> set (drop i (take j s)). key < x)"
  using assms
proof (induction j arbitrary: s)
  case 0
  then show ?case by (simp add: Cons_nth_drop_Suc)
next
  case (Suc j)
  show ?case
  proof (cases "s ! j > key")
    case False
    have "\<forall>x \<in> set (take (Suc j) s). x \<le> s ! j"
      using Suc.prems by (auto simp: take_Suc_conv_app_nth sorted_append)
    then have "\<forall>x \<in> set (take (Suc j) s). x \<le> key" using False by force
    then show ?thesis
      using False Suc.prems by (intro exI [of _ "Suc j"]) (simp add: id_take_nth_drop [symmetric])
  next
    case True
    let ?s = "s[Suc j := s ! j]"
    have "sorted (take j ?s)" using Suc.prems by (simp add: take_Suc_conv_app_nth sorted_append)
    then obtain i where i: "i \<le> j" "median_shift ?s key j = (take i ?s @ ?s ! i # drop i (take j ?s) @ drop (Suc j) ?s, i)"
      "\<forall>x \<in> set (take i ?s). x \<le> key" "\<forall>x \<in> set (drop i (take j ?s)). key < x"
      using Suc.IH [of ?s] Suc.prems by auto
    have e: "take i ?s = take i s" "?s ! i = s ! i" "take j ?s = take j s"
      "drop (Suc j) ?s = s ! j # drop (Suc (Suc j)) s"
      using i(1) Suc.prems by (simp_all add: drop_update_swap Cons_nth_drop_Suc [symmetric])
    have d: "drop i (take (Suc j) s) = drop i (take j s) @ [s ! j]"
      using i(1) Suc.prems by (simp add: take_Suc_conv_app_nth)
    show ?thesis
      using True i Suc.prems by (intro exI [of _ i]) (auto simp: e d)
  qed
qed

lemma median_insert_result:
  assumes "i < length s" "sorted (take i s)"
  shows "sorted (take (Suc i) (median_insert s i))" "mset (take (Suc i) (median_insert s i)) = mset (take (Suc i) s)"
    "drop (Suc i) (median_insert s i) = drop (Suc i) s" "length (median_insert s i) = length s"
proof -
  let ?key = "s ! i"
  obtain k where k: "k \<le> i" "median_shift s ?key i = (take k s @ s ! k # drop k (take i s) @ drop (Suc i) s, k)"
    "\<forall>x \<in> set (take k s). x \<le> ?key" "\<forall>x \<in> set (drop k (take i s)). ?key < x"
    using median_shift_result [OF assms] by blast
  have m: "median_insert s i = take k s @ ?key # drop k (take i s) @ drop (Suc i) s"
    using k(1) assms(1) by (simp add: median_insert_def k(2) list_update_append)
  have t: "take (Suc i) (median_insert s i) = take k s @ ?key # drop k (take i s)"
    using k(1) assms(1) by (simp add: m Suc_diff_le)
  have s: "take i s = take k s @ drop k (take i s)"
    using k(1) by (metis append_take_drop_id min.absorb1 take_take)
  have "sorted (take k s @ drop k (take i s))" using assms(2) s by simp
  then show "sorted (take (Suc i) (median_insert s i))"
    unfolding t using k(3,4) by (auto simp: sorted_append less_imp_le)
  have "mset (take i s) = mset (take k s) + mset (drop k (take i s))" using s by (metis mset_append)
  then show "mset (take (Suc i) (median_insert s i)) = mset (take (Suc i) s)"
    unfolding t using assms(1) by (simp add: take_Suc_conv_app_nth)
  show "drop (Suc i) (median_insert s i) = drop (Suc i) s" "length (median_insert s i) = length s"
    using k(1) assms(1) by (simp_all add: m Suc_diff_le)
qed

lemma median_sort:
  "n \<le> length s \<Longrightarrow> 0 < n \<Longrightarrow>
    sorted (take n (foldl median_insert s [1..<n])) \<and> mset (take n (foldl median_insert s [1..<n])) = mset (take n s) \<and>
    drop n (foldl median_insert s [1..<n]) = drop n s \<and> length (foldl median_insert s [1..<n]) = length s"
proof (induction n)
  case (Suc n)
  show ?case
  proof (cases "n = 0")
    case True
    then show ?thesis by (cases s) simp_all
  next
    case False
    let ?t = "foldl median_insert s [1..<n]"
    have IH: "sorted (take n ?t)" "mset (take n ?t) = mset (take n s)" "drop n ?t = drop n s" "length ?t = length s"
      using Suc.IH Suc.prems False by auto
    have n: "n < length ?t" using IH(4) Suc.prems by simp
    have "?t ! n = s ! n" "drop (Suc n) ?t = drop (Suc n) s"
      using IH(3,4) n by (metis Cons_nth_drop_Suc list.inject)+
    then show ?thesis
      using median_insert_result [OF n IH(1)] IH(2,4) n False Suc.prems
      by (simp add: take_Suc_conv_app_nth)
  qed
qed simp

text \<open>
  For 1 to 31 samples the median routine succeeds, sorts the samples in place without losing or
  inventing any, leaves what follows them alone and returns the element at half their number; no
  sample is too few and 32 are too many, and then nothing is touched.
\<close>

theorem median_correct:
  assumes "unat n \<le> length s"
  shows "if n = 0 \<or> 31 < n then rmr_fc16_median_u64 (Some s) n (Some m) = (Some s, Some m, FC16_ERR_ARGUMENT)
    else \<exists>s'. rmr_fc16_median_u64 (Some s) n (Some m) = (Some s', Some (s' ! (unat n div 2)), FC16_OK) \<and>
      sorted (take (unat n) s') \<and> mset (take (unat n) s') = mset (take (unat n) s) \<and>
      drop (unat n) s' = drop (unat n) s"
proof -
  have b: "(unat n > RMR_FC16_MAX_BENCH_SAMPLES) = (31 < n)"
    by (simp add: RMR_FC16_MAX_BENCH_SAMPLES_def word_less_nat_alt)
  have h: "unat (drop_bit 1 n) = unat n div 2" using unat_drop_bit_div [of 1 n] by simp
  show ?thesis
    using median_sort [OF assms] unfolding rmr_fc16_median_u64_def h
    by (simp add: b Let_def unat_gt_0)
qed

lemma median_correct_witness:
  "\<exists>s'. rmr_fc16_median_u64 (Some [5, 9, 1, 7]) 3 (Some 0) = (Some s', Some (s' ! 1), FC16_OK) \<and>
    sorted (take 3 s') \<and> mset (take 3 s') = mset [5, 9, 1] \<and> drop 3 s' = [7]"
  using median_correct [of 3 "[5, 9, 1, 7]" 0] by simp

section \<open>Vectors and the warm-up\<close>

lemma vec_xor16_any:
  "16 \<le> length a \<Longrightarrow> 16 \<le> length b \<Longrightarrow> vec_xor16 v a b = map (\<lambda>i. a ! i XOR b ! i) [0..<16]"
  by (cases v) (simp_all add: vec_xor16_def list_eq_iff_nth_eq del: upt_rec_numeral)

lemma length_vec_xor16: "16 \<le> length a \<Longrightarrow> 16 \<le> length b \<Longrightarrow> length (vec_xor16 v a b) = 16"
  by (simp add: vec_xor16_any)

lemma xor_write:
  "16 \<le> length t \<Longrightarrow> 16 \<le> length m \<Longrightarrow>
    buf_write t 0 (vec_xor16 v t m) = map (\<lambda>i. t ! i XOR m ! i) [0..<16] @ drop 16 t"
  by (simp add: vec_xor16_any buf_write_0 del: upt_rec_numeral)

lemma apply16_twice:
  assumes "16 \<le> length t" "16 \<le> length m"
  shows "rmr_fc16_apply16 v (rmr_fc16_apply16 v (Some t) (Some m)) (Some m) = Some t"
proof -
  let ?u = "map (\<lambda>i. t ! i XOR m ! i) [0..<16] @ drop 16 t"
  have "buf_write ?u 0 (vec_xor16 v ?u m) = map (\<lambda>i. ?u ! i XOR m ! i) [0..<16] @ drop 16 ?u"
    using assms by (intro xor_write) simp_all
  also have "\<dots> = map (\<lambda>i. (t ! i XOR m ! i) XOR m ! i) [0..<16] @ drop 16 t"
    by (simp add: nth_append del: upt_rec_numeral)
  also have "map (\<lambda>i. (t ! i XOR m ! i) XOR m ! i) [0..<16] = take 16 t"
    using assms(1) by (simp add: list_eq_iff_nth_eq xor.assoc del: upt_rec_numeral)
  finally have "buf_write ?u 0 (vec_xor16 v ?u m) = t" by simp
  then show ?thesis by (simp add: rmr_fc16_apply16_def xor_write [OF assms] del: upt_rec_numeral)
qed

lemma xor_update_twice:
  "(let a = a[k := a ! k XOR y] in a[k := a ! k XOR y]) = (a :: 'a::len word list)"
  by (cases "k < length a") (simp_all add: Let_def xor.assoc list_update_beyond not_less)

lemma warmup_lane_restores:
  assumes "length a = 256" "256 \<le> length b" "length m = 16" "lane < 16"
  shows "fst (warmup_lane v r (a, m) b lane) = a \<and> length (snd (warmup_lane v r (a, m) b lane)) = 16"
proof -
  let ?off = "lane * 16"
  let ?d = "vec_xor16 v (drop ?off a) (drop ?off b)"
  have o: "16 \<le> length (drop ?off a)" "16 \<le> length (drop ?off b)" using assms by simp_all
  have d: "length ?d = 16" using o by (rule length_vec_xor16)
  have m: "the (snd (rmr_fc16_diff16 v (Some (drop ?off a)) (Some (drop ?off b)) (Some m))) = ?d"
    using assms(3) d by (simp add: rmr_fc16_diff16_def Let_def buf_write_0)
  obtain a1 where a1: "rmr_fc16_apply16 v (Some (drop ?off a)) (Some ?d) = Some a1"
    by (simp add: rmr_fc16_apply16_def)
  have a2: "rmr_fc16_apply16 v (Some a1) (Some ?d) = Some (drop ?off a)"
    using apply16_twice [OF o(1), of ?d v] a1 d by simp
  have l: "length (take ?off a) = ?off" using assms by simp
  have dr: "drop ?off (take ?off a @ a1) = a1" "take ?off (take ?off a @ a1) = take ?off a" using l by simp_all
  have a: "take ?off a @ drop ?off a = a" by simp
  show ?thesis
    using xor_update_twice [of a]
    by (simp only: warmup_lane_def Let_def prod.case m a1 option.sel dr a2 a fst_conv snd_conv d)
qed

text \<open>
  The warm-up writes only inside its first scratch buffer and leaves its contents as they were,
  for any number of rounds, whatever the second buffer holds and on every vector backend; a missing
  buffer stops it.
\<close>

theorem warmup_restores:
  assumes "length a = 256" "256 \<le> length b" "length m = 16"
  shows "rmr_fc16_warmup v (Some a) (Some b) rounds m = Some a \<and>
    rmr_fc16_warmup v None (Some b) rounds m = None \<and> rmr_fc16_warmup v (Some a) None rounds m = Some a"
proof -
  have inner: "\<forall>l \<in> set ls. l < 16 \<Longrightarrow> length m = 16 \<Longrightarrow>
      fst (foldl (\<lambda>am lane. warmup_lane v r am b lane) (a, m) ls) = a \<and>
      length (snd (foldl (\<lambda>am lane. warmup_lane v r am b lane) (a, m) ls)) = 16" for ls r m
  proof (induction ls arbitrary: m)
    case (Cons l ls)
    obtain m' where "warmup_lane v r (a, m) b l = (a, m')" "length m' = 16"
      using warmup_lane_restores [OF assms(1,2) Cons.prems(2), of l v r] Cons.prems(1) by (cases "warmup_lane v r (a, m) b l") auto
    then show ?case using Cons.IH [of m'] Cons.prems(1) by simp
  qed simp
  have "length m = 16 \<Longrightarrow> fst (foldl (\<lambda>am r. foldl (\<lambda>am lane. warmup_lane v (of_nat r) am b lane) am [0..<16]) (a, m) rs) = a"
    for rs :: "nat list" and m
  proof (induction rs arbitrary: m)
    case (Cons r rs)
    obtain m' where m': "foldl (\<lambda>am lane. warmup_lane v (of_nat r) am b lane) (a, m) [0..<16] = (a, m')" "length m' = 16"
      using inner [of "[0..<16]" m "of_nat r"] Cons.prems
      by (cases "foldl (\<lambda>am lane. warmup_lane v (of_nat r) am b lane) (a, m) [0..<16]") auto
    show ?case
      using Cons.IH [OF m'(2)] unfolding foldl.simps m'(1) .
  qed simp
  then show ?thesis using assms(3) by (simp add: rmr_fc16_warmup_def del: upt_rec_numeral)
qed

lemma warmup_restores_witness:
  "rmr_fc16_warmup VEC_SSE2 (Some (replicate 256 3)) (Some (replicate 256 5)) 64 (replicate 16 0) = Some (replicate 256 3)"
  using warmup_restores [of "replicate 256 3" "replicate 256 5" "replicate 16 0" VEC_SSE2 64] by simp

end
