(* ===== verification/Fc16_Protocol.thy ===== *)
theory Fc16_Protocol
  imports Fc16_Correct
begin

text \<open>
  The protocol of entries of Custody16 as an abstract automaton, and the proof that the accumulator
  implements it: which calls succeed, with which status the others fail, and what is counted.
\<close>

section \<open>The automaton\<close>

datatype fc16_phase = Idle | Within (declared: nat) (seen: nat)

record fc16_abs =
  phase :: fc16_phase
  entries :: nat
  total :: nat

text \<open>
  What an entry has seen after \<open>n\<close> more bytes. The code adds in 64 bits (\<open>wraps\<close>); the intended automaton adds
  exactly.
\<close>

definition seen_after :: "bool \<Rightarrow> nat \<Rightarrow> nat \<Rightarrow> nat" where
  "seen_after wraps s n = (if wraps then (s + n) mod 2 ^ 64 else s + n)"

datatype fc16_call =
    Begin "bytes option" u32 u64 u32
  | Data "bytes option" nat
  | End

fun abs_step :: "bool \<Rightarrow> fc16_abs \<Rightarrow> fc16_call \<Rightarrow> fc16_abs \<times> u32" where
  "abs_step wraps a (Begin path n d kind) =
    (if path = None \<or> n = 0 then (a, FC16_ERR_ARGUMENT)
     else case phase a of
            Idle \<Rightarrow> (a\<lparr>phase := Within (unat d) 0\<rparr>, FC16_OK)
          | Within _ _ \<Rightarrow> (a, FC16_ERR_STATE))"
| "abs_step wraps a (Data data n) =
    (if data = None \<and> n \<noteq> 0 then (a, FC16_ERR_ARGUMENT)
     else case phase a of
            Idle \<Rightarrow> (a, FC16_ERR_STATE)
          | Within d s \<Rightarrow>
              if seen_after wraps s n \<le> d then (a\<lparr>phase := Within d (seen_after wraps s n), total := total a + n\<rparr>, FC16_OK)
              else (a, FC16_ERR_SIZE))"
| "abs_step wraps a End =
    (case phase a of
       Idle \<Rightarrow> (a, FC16_ERR_STATE)
     | Within d s \<Rightarrow> if s = d then (a\<lparr>phase := Idle, entries := entries a + 1\<rparr>, FC16_OK) else (a, FC16_ERR_SIZE))"

fun conc_step :: "fc16_build \<Rightarrow> rmr_fc16_context \<Rightarrow> fc16_call \<Rightarrow> rmr_fc16_context option \<times> u32" where
  "conc_step b c (Begin path n d kind) = rmr_fc16_entry_begin b (Some c) path n d kind"
| "conc_step b c (Data data n) = rmr_fc16_entry_data b (Some c) data n"
| "conc_step b c End = rmr_fc16_entry_end b (Some c)"

fun abs_run :: "bool \<Rightarrow> fc16_abs \<Rightarrow> fc16_call list \<Rightarrow> fc16_abs \<times> u32 list" where
  "abs_run wraps a [] = (a, [])"
| "abs_run wraps a (k # ks) = (let (a, r) = abs_step wraps a k; (a, rs) = abs_run wraps a ks in (a, r # rs))"

fun conc_run :: "fc16_build \<Rightarrow> rmr_fc16_context \<Rightarrow> fc16_call list \<Rightarrow> rmr_fc16_context \<times> u32 list" where
  "conc_run b c [] = (c, [])"
| "conc_run b c (k # ks) =
    (let (c, r) = conc_step b c k; (c, rs) = conc_run b (the c) ks in (c, r # rs))"

text \<open>
  Sizes below \<open>2\<^sup>6\<^sup>3\<close>, which every buffer and file of a real machine has; the sum of two of them does not wrap.
\<close>

fun size_small :: "fc16_call \<Rightarrow> bool" where
  "size_small (Begin path n d kind) \<longleftrightarrow> unat d < 2 ^ 63"
| "size_small (Data data n) \<longleftrightarrow> n < 2 ^ 63"
| "size_small End \<longleftrightarrow> True"

section \<open>Refinement\<close>

definition implements :: "rmr_fc16_context \<Rightarrow> fc16_abs \<Rightarrow> bool" where
  "implements c a \<longleftrightarrow>
    (case phase a of
       Idle \<Rightarrow> c_entry_open c = 0
     | Within d s \<Rightarrow> c_entry_open c \<noteq> 0 \<and> unat (c_entry_declared_size c) = d \<and>
         unat (c_entry_seen_size c) = s \<and> s \<le> d) \<and>
    c_entry_count c = of_nat (entries a) \<and> c_total_bytes c = of_nat (total a)"

lemma feed_meta_counters [simp]:
  "c_entry_count (feed_meta b c p n) = c_entry_count c" "c_total_bytes (feed_meta b c p n) = c_total_bytes c"
  by (simp_all add: feed_meta_def)

lemma begin_refines:
  assumes "implements c a"
  shows "\<exists>c'. rmr_fc16_entry_begin b (Some c) path n d kind = (Some c', snd (abs_step True a (Begin path n d kind))) \<and>
    implements c' (fst (abs_step True a (Begin path n d kind)))"
proof (cases "path = None \<or> n = 0")
  case True
  then show ?thesis using assms(1) by (simp add: rmr_fc16_entry_begin_def)
next
  case False
  show ?thesis
  proof (cases "phase a")
    case (Within x s)
    then show ?thesis using False assms(1)
      by (auto simp: rmr_fc16_entry_begin_def implements_def)
  next
    case Idle
    then have "c_entry_open c = 0" using assms(1) by (simp add: implements_def)
    then show ?thesis
      using False Idle assms
      by (simp add: rmr_fc16_entry_begin_def Let_def implements_def)
  qed
qed

text \<open>The sum of the code, in 64 bits, whatever the length.\<close>

lemma seen_test:
  fixes seen declared :: u64
  shows "unat (seen + of_nat n) = seen_after True (unat seen) n"
    "(declared < seen + of_nat n) = (unat declared < seen_after True (unat seen) n)"
proof -
  show 1: "unat (seen + of_nat n) = seen_after True (unat seen) n"
    by (simp add: seen_after_def unat_word_ariths unsigned_of_nat take_bit_nat_def mod_add_right_eq)
  show "(declared < seen + of_nat n) = (unat declared < seen_after True (unat seen) n)"
    by (simp add: word_less_nat_alt 1)
qed

lemma data_refines:
  assumes "implements c a"
  shows "\<exists>c'. rmr_fc16_entry_data b (Some c) data n = (Some c', snd (abs_step True a (Data data n))) \<and>
    implements c' (fst (abs_step True a (Data data n)))"
proof (cases "data = None \<and> n \<noteq> 0")
  case True
  then show ?thesis using assms(1) by (simp add: rmr_fc16_entry_data_def)
next
  case False
  show ?thesis
  proof (cases "phase a")
    case Idle
    then show ?thesis using False assms(1)
      by (auto simp: rmr_fc16_entry_data_def implements_def)
  next
    case (Within d s)
    then have c: "c_entry_open c \<noteq> 0" "unat (c_entry_declared_size c) = d" "unat (c_entry_seen_size c) = s" "s \<le> d"
      using assms(1) by (auto simp: implements_def)
    have t: "unat (c_entry_seen_size c + of_nat n) = seen_after True s n"
        "(c_entry_declared_size c < c_entry_seen_size c + of_nat n) = (d < seen_after True s n)"
      using seen_test(1) [of "c_entry_seen_size c" n] seen_test(2) [of "c_entry_declared_size c" "c_entry_seen_size c" n] c by simp_all
    show ?thesis
    proof (cases "seen_after True s n \<le> d")
      case f: False
      then show ?thesis using False Within assms(1) c(1) by (auto simp: rmr_fc16_entry_data_def t)
    next
      case True
      then show ?thesis
        using False Within assms(1) c
        by (auto simp: rmr_fc16_entry_data_def t Let_def implements_def split: prod.splits)
    qed
  qed
qed

lemma end_refines:
  assumes "implements c a"
  shows "\<exists>c'. rmr_fc16_entry_end b (Some c) = (Some c', snd (abs_step True a End)) \<and> implements c' (fst (abs_step True a End))"
proof (cases "phase a")
  case Idle
  then show ?thesis using assms by (auto simp: rmr_fc16_entry_end_def implements_def)
next
  case (Within d s)
  then have c: "c_entry_open c \<noteq> 0" "(c_entry_seen_size c = c_entry_declared_size c) = (s = d)"
    using assms by (auto simp: implements_def word_unat_eq_iff)
  then show ?thesis
    using Within assms by (auto simp: rmr_fc16_entry_end_def Let_def implements_def)
qed

lemma step_refines:
  "implements c a \<Longrightarrow>
    \<exists>c'. conc_step b c k = (Some c', snd (abs_step True a k)) \<and> implements c' (fst (abs_step True a k))"
  by (cases k) (simp_all only: conc_step.simps begin_refines data_refines end_refines)

lemma run_refines:
  "implements c a \<Longrightarrow>
    snd (conc_run b c ks) = snd (abs_run True a ks) \<and> implements (fst (conc_run b c ks)) (fst (abs_run True a ks))"
proof (induction ks arbitrary: c a)
  case (Cons k ks)
  obtain c' where c': "conc_step b c k = (Some c', snd (abs_step True a k))" "implements c' (fst (abs_step True a k))"
    using step_refines [OF Cons.prems, of b k] by auto
  obtain c'' rs where c'': "conc_run b c' ks = (c'', rs)" by fastforce
  obtain a' rs' where a': "abs_run True (fst (abs_step True a k)) ks = (a', rs')" by fastforce
  obtain a1 r where a1: "abs_step True a k = (a1, r)" by fastforce
  show ?case
    using Cons.IH [OF c'(2)] c'(1) c'' a' a1 by simp
qed simp

text \<open>With small sizes the sum is exact, so the two automata are one.\<close>

definition phase_small :: "fc16_phase \<Rightarrow> bool" where
  "phase_small ph \<longleftrightarrow> (case ph of Idle \<Rightarrow> True | Within d s \<Rightarrow> s \<le> d \<and> d < 2 ^ 63)"

lemma small_step:
  "phase_small (phase a) \<Longrightarrow> size_small k \<Longrightarrow>
    abs_step True a k = abs_step False a k \<and> phase_small (phase (fst (abs_step False a k)))"
  by (cases k) (auto simp: phase_small_def seen_after_def split: fc16_phase.splits)

lemma small_run:
  "phase_small (phase a) \<Longrightarrow> \<forall>k \<in> set ks. size_small k \<Longrightarrow> abs_run True a ks = abs_run False a ks"
proof (induction ks arbitrary: a)
  case (Cons k ks)
  obtain a1 r where a1: "abs_step False a k = (a1, r)" by force
  have "abs_step True a k = (a1, r)" "phase_small (phase a1)" using small_step [of a k] Cons.prems a1 by simp_all
  then show ?case using Cons.IH [of a1] Cons.prems a1 by simp
qed simp

text \<open>
  C16. The accumulator implements the automaton of entries: for every sequence of calls after
  initialisation, whatever their arguments and order, each call returns the status of the automaton
  (an entry inside an entry, data or an end outside, more data than declared, an end before all
  declared data), and the open flag, the declared and seen sizes and the two counters are those of the
  automaton, in which a failed call changes nothing. The automaton adds the sizes in 64 bits as the code does:
  a length near \<open>2\<^sup>6\<^sup>4\<close> wraps past the test of the declared size. When all sizes of the sequence are below \<open>2\<^sup>6\<^sup>3\<close>
  nothing wraps, and the automaton with exact sums gives the same statuses and states.
\<close>

theorem fc16_protocol:
  assumes "rmr_fc16_init b (Some c0) hw tb limit delta = Some c"
  defines "start \<equiv> \<lparr>phase = Idle, entries = 0, total = 0\<rparr>"
  shows "snd (conc_run b c ks) = snd (abs_run True start ks) \<and>
    implements (fst (conc_run b c ks)) (fst (abs_run True start ks)) \<and>
    ((\<forall>k \<in> set ks. size_small k) \<longrightarrow> abs_run True start ks = abs_run False start ks)"
proof -
  have "c_entry_open c = 0" "c_entry_count c = 0" "c_total_bytes c = 0"
    using assms(1) by (auto simp: rmr_fc16_init_def Let_def zero_context_def)
  then have "implements c start" by (simp add: implements_def start_def)
  moreover have "phase_small (phase start)" by (simp add: phase_small_def start_def)
  ultimately show ?thesis using run_refines [of c start b ks] small_run [of start ks] by blast
qed

lemma fc16_protocol_witness:
  "snd (conc_run build0 (the (rmr_fc16_init build0 (Some zero_context) 0 0 0 0))
      [End, Begin (Some [97]) 1 3 1, Data (Some [1, 2]) 2, Begin (Some [98]) 1 0 1, End,
       Data (Some [3, 4]) 2, Data None 1, Data (Some [3]) 1, End, Data (Some []) 0]) =
    [FC16_ERR_STATE, FC16_OK, FC16_OK, FC16_ERR_STATE, FC16_ERR_SIZE,
     FC16_ERR_SIZE, FC16_ERR_ARGUMENT, FC16_OK, FC16_OK, FC16_ERR_STATE]"
  using fc16_protocol [of build0 zero_context 0 0 0 0 "the (rmr_fc16_init build0 (Some zero_context) 0 0 0 0)"
       "[End, Begin (Some [97]) 1 3 1, Data (Some [1, 2]) 2, Begin (Some [98]) 1 0 1, End,
       Data (Some [3, 4]) 2, Data None 1, Data (Some [3]) 1, End, Data (Some []) 0]"]
  by (simp add: rmr_fc16_init_def Let_def seen_after_def)

text \<open>
  The wrap: ten bytes declared, two seen, and a length of \<open>2\<^sup>6\<^sup>4 - 1\<close> is taken for one that fits, after which one
  byte counts as seen; exact sums refuse it.
\<close>

lemma size_test_wraps:
  "snd (conc_run b c [Begin (Some p) 1 10 kind, Data (Some d) 2, Data (Some d) (2 ^ 64 - 1)]) = [FC16_OK, FC16_OK, FC16_OK]"
  "snd (abs_run False \<lparr>phase = Idle, entries = 0, total = 0\<rparr>
      [Begin (Some p) 1 10 kind, Data (Some d) 2, Data (Some d) (2 ^ 64 - 1)]) = [FC16_OK, FC16_OK, FC16_ERR_SIZE]"
  if "rmr_fc16_init b (Some c0) hw tb limit delta = Some c"
proof -
  have "implements c \<lparr>phase = Idle, entries = 0, total = 0\<rparr>"
    using that by (auto simp: implements_def rmr_fc16_init_def Let_def zero_context_def)
  note r = run_refines [OF this, of b "[Begin (Some p) 1 10 kind, Data (Some d) 2, Data (Some d) (2 ^ 64 - 1)]"]
  show "snd (conc_run b c [Begin (Some p) 1 10 kind, Data (Some d) 2, Data (Some d) (2 ^ 64 - 1)]) = [FC16_OK, FC16_OK, FC16_OK]"
    unfolding r [THEN conjunct1] by (simp add: seen_after_def)
qed (simp add: seen_after_def)

end
