(* ===== verification/Reducer.thy ===== *)
theory Reducer
  imports Fc16_Zip
begin

text \<open>
  Two freestanding building blocks: the 256-byte reducer \<open>rmr/portable/src/rmr_portable_v1.c\<close> and the
  byte routines \<open>rmr/standalone/src/rmr_standalone_core.c\<close>. The byte routines take addresses in one
  memory, so that the regions of a copy may overlap; a null pointer is \<open>None\<close>.
\<close>

section \<open>The reducer\<close>

definition pv1_column :: "bytes \<Rightarrow> nat \<Rightarrow> u8" where
  "pv1_column i j =
    i ! j XOR i ! (j + 16) XOR i ! (j + 32) XOR i ! (j + 48) XOR i ! (j + 64) XOR i ! (j + 80) XOR i ! (j + 96)
    XOR i ! (j + 112) XOR i ! (j + 128) XOR i ! (j + 144) XOR i ! (j + 160) XOR i ! (j + 176) XOR i ! (j + 192)
    XOR i ! (j + 208) XOR i ! (j + 224) XOR i ! (j + 240)"

definition rmr_pv1_reduce256 :: "bytes \<Rightarrow> bytes" where
  "rmr_pv1_reduce256 i =
    [pv1_column i 0, pv1_column i 1, pv1_column i 2, pv1_column i 3, pv1_column i 4, pv1_column i 5,
     pv1_column i 6, pv1_column i 7, pv1_column i 8, pv1_column i 9, pv1_column i 10, pv1_column i 11,
     pv1_column i 12, pv1_column i 13, pv1_column i 14, pv1_column i 15]"

definition rmr_pv1_batch4 :: "bytes \<Rightarrow> bytes" where
  "rmr_pv1_batch4 i =
    rmr_pv1_reduce256 i @ rmr_pv1_reduce256 (drop 256 i) @ rmr_pv1_reduce256 (drop 512 i)
    @ rmr_pv1_reduce256 (drop 768 i)"

definition rmr_pv1_equal16 :: "bytes \<Rightarrow> bytes \<Rightarrow> u32" where
  "rmr_pv1_equal16 a b =
    (let x = \<lambda>i. ucast (a ! i XOR b ! i) :: u32;
         d = x 0 OR x 1 OR x 2 OR x 3 OR x 4 OR x 5 OR x 6 OR x 7 OR x 8 OR x 9 OR x 10 OR x 11 OR x 12
             OR x 13 OR x 14 OR x 15
     in if d = 0 then 1 else 0)"

definition rmr_pv1_selftest :: u32 where
  "rmr_pv1_selftest =
    (let x = (replicate 256 0)[0 := 1, 17 := 2, 34 := 4, 51 := 8];
         e = [1, 2, 4, 8, 0, 0, 0, 0, 0, 0, 0, 0, 0, 0, 0, 0];
         y = rmr_pv1_reduce256 x
     in rmr_pv1_equal16 y e)"

section \<open>Byte routines\<close>

definition RMR_SA_OK :: u32 where "RMR_SA_OK = 0"
definition RMR_SA_ERR_ARGUMENT :: u32 where "RMR_SA_ERR_ARGUMENT = 1"
definition RMR_SA_ERR_UNSUPPORTED_Q :: u32 where "RMR_SA_ERR_UNSUPPORTED_Q = 2"
definition RMR_SA_Q8_FRAC :: u32 where "RMR_SA_Q8_FRAC = 8"
definition RMR_SA_Q16_FRAC :: u32 where "RMR_SA_Q16_FRAC = 16"
definition RMR_SA_Q32_FRAC :: u32 where "RMR_SA_Q32_FRAC = 32"
definition RMR_SA_Q42_FRAC :: u32 where "RMR_SA_Q42_FRAC = 42"

record rmr_sa_q_profile =
  fraction_bits :: u32
  storage_bits :: u32
  arithmetic_bits :: u32
  q_flags :: u32

definition rmr_sa_zero :: "bytes \<Rightarrow> nat option \<Rightarrow> nat \<Rightarrow> bytes" where
  "rmr_sa_zero mem dst len =
    (case dst of
       None \<Rightarrow> mem
     | Some d \<Rightarrow> foldl (\<lambda>mem i. mem[d + i := 0]) mem [0..<len])"

definition rmr_sa_copy :: "bytes \<Rightarrow> nat option \<Rightarrow> nat option \<Rightarrow> nat \<Rightarrow> bytes" where
  "rmr_sa_copy mem dst src len =
    (if dst = None \<or> src = None \<or> dst = src then mem
     else foldl (\<lambda>mem i. mem[the dst + i := mem ! (the src + i)]) mem [0..<len])"

definition rmr_sa_equal :: "bytes option \<Rightarrow> bytes option \<Rightarrow> nat \<Rightarrow> u32" where
  "rmr_sa_equal left right len =
    (if (left = None \<or> right = None) \<and> len \<noteq> 0 then 0
     else
       let diff = foldl (\<lambda>diff i. diff OR ucast (the left ! i XOR the right ! i)) (0 :: u32) [0..<len]
       in if diff = 0 then 1 else 0)"

definition rmr_sa_xor_fold32 :: "bytes option \<Rightarrow> nat \<Rightarrow> u32" where
  "rmr_sa_xor_fold32 data len =
    (if data = None \<and> len \<noteq> 0 then 0
     else foldl (\<lambda>fold i. fold XOR push_bit (unat ((of_nat i AND 3 :: u64) * 8)) (ucast (the data ! i))) 0 [0..<len])"

definition rmr_sa_q_profile_get :: "u32 \<Rightarrow> rmr_sa_q_profile option \<Rightarrow> rmr_sa_q_profile option \<times> u32" where
  "rmr_sa_q_profile_get frac out =
    (case out of
       None \<Rightarrow> (None, RMR_SA_ERR_ARGUMENT)
     | Some q \<Rightarrow>
         let q = q\<lparr>fraction_bits := frac\<rparr>; q = q\<lparr>q_flags := 0\<rparr>
         in if frac = RMR_SA_Q8_FRAC then (Some (q\<lparr>storage_bits := 32, arithmetic_bits := 32\<rparr>), RMR_SA_OK)
            else if frac = RMR_SA_Q16_FRAC then (Some (q\<lparr>storage_bits := 32, arithmetic_bits := 32\<rparr>), RMR_SA_OK)
            else if frac = RMR_SA_Q32_FRAC then (Some (q\<lparr>storage_bits := 64, arithmetic_bits := 64\<rparr>), RMR_SA_OK)
            else if frac = RMR_SA_Q42_FRAC then (Some (q\<lparr>storage_bits := 64, arithmetic_bits := 64\<rparr>), RMR_SA_OK)
            else (Some (q\<lparr>storage_bits := 0, arithmetic_bits := 0\<rparr>), RMR_SA_ERR_UNSUPPORTED_Q))"

section \<open>The reducer is linear\<close>

definition xor_list :: "bytes \<Rightarrow> bytes \<Rightarrow> bytes" where
  "xor_list a b = map2 (XOR) a b"

lemma column_linear:
  assumes "length a = 256" "length b = 256" "j < 16"
  shows "pv1_column (xor_list a b) j = pv1_column a j XOR pv1_column b j"
proof -
  have n: "xor_list a b ! (j + k) = a ! (j + k) XOR b ! (j + k)" if "k \<le> 240" for k
    using assms that by (simp add: xor_list_def)
  have n0: "xor_list a b ! j = a ! j XOR b ! j" using n [of 0] by simp
  show ?thesis
    unfolding pv1_column_def n0
    by (simp add: n xor.assoc xor.commute xor.left_commute)
qed

lemma upt16: "[0..<16 :: nat] = [0, 1, 2, 3, 4, 5, 6, 7, 8, 9, 10, 11, 12, 13, 14, 15]"
  by (simp add: upt_rec)

lemma reduce_columns: "rmr_pv1_reduce256 i = map (pv1_column i) [0..<16]"
  unfolding upt16 by (simp add: rmr_pv1_reduce256_def)

lemma reduce_linear:
  "length a = 256 \<Longrightarrow> length b = 256 \<Longrightarrow>
    rmr_pv1_reduce256 (xor_list a b) = xor_list (rmr_pv1_reduce256 a) (rmr_pv1_reduce256 b)"
  by (simp add: reduce_columns xor_list_def [of "map _ _"] list_eq_iff_nth_eq column_linear del: upt_rec_numeral)

lemma ucast_byte_zero: "(ucast w = (0 :: u32)) = (w = 0)" for w :: u8
proof
  assume z: "ucast w = (0 :: u32)"
  show "w = 0"
  proof (rule bit_word_eqI)
    fix k assume "k < LENGTH(8)"
    then have "bit w k = bit (ucast w :: u32) k" by (simp add: bit_simps)
    then show "bit w k = bit 0 k" by (simp add: z)
  qed
qed simp

lemma equal16_iff:
  assumes "length a = 16" "length b = 16"
  shows "rmr_pv1_equal16 a b = (if a = b then 1 else 0)"
proof -
  have z: "(ucast (x XOR y) = (0 :: u32)) = (x = y)" for x y :: u8
    by (simp add: ucast_byte_zero xor_zero_word)
  obtain a0 a1 a2 a3 a4 a5 a6 a7 a8 a9 a10 a11 a12 a13 a14 a15 where
    a: "a = [a0, a1, a2, a3, a4, a5, a6, a7, a8, a9, a10, a11, a12, a13, a14, a15]"
    using length16E [OF assms(1)] by metis
  obtain b0 b1 b2 b3 b4 b5 b6 b7 b8 b9 b10 b11 b12 b13 b14 b15 where
    b: "b = [b0, b1, b2, b3, b4, b5, b6, b7, b8, b9, b10, b11, b12, b13, b14, b15]"
    using length16E [OF assms(2)] by metis
  show ?thesis
    by (simp add: rmr_pv1_equal16_def Let_def word_or_zero z a b)
qed

text \<open>A frame that is zero but for one byte.\<close>

definition one_byte :: "nat \<Rightarrow> u8 \<Rightarrow> bytes" where
  "one_byte p m = (replicate 256 0)[p := m]"

lemma column_one_byte:
  assumes "j < 16" "k < 16" "j' < 16"
  shows "pv1_column (one_byte (j + 16 * k) m) j' = (if j' = j then m else 0)"
proof -
  have n: "one_byte (j + 16 * k) m ! (j' + 16 * t) = (if j' = j \<and> t = k then m else 0)" if "t < 16" for t
  proof -
    have "(j + 16 * k = j' + 16 * t) = (j' = j \<and> t = k)"
    proof
      assume e: "j + 16 * k = j' + 16 * t"
      have "(j + 16 * k) mod 16 = (j' + 16 * t) mod 16" "(j + 16 * k) div 16 = (j' + 16 * t) div 16"
        unfolding e by simp_all
      then show "j' = j \<and> t = k" using assms by simp
    qed simp
    then show ?thesis using assms that by (auto simp: one_byte_def nth_list_update)
  qed
  have c: "pv1_column x j' = foldl (\<lambda>v t. v XOR x ! (j' + 16 * t)) 0 [0..<16]" for x
    unfolding upt16 pv1_column_def by (simp add: xor.assoc)
  have f: "foldl (\<lambda>v t. v XOR one_byte (j + 16 * k) m ! (j' + 16 * t)) 0 [0..<n] = (if j' = j \<and> k < n then m else 0)"
    if "n \<le> 16" for n
    using that by (induction n) (auto simp: n less_Suc_eq)
  show ?thesis unfolding c using f [of 16] assms(2) by (simp del: upt_rec_numeral)
qed

text \<open>
  The reducer is the linear map its header describes and not a digest: it carries the exclusive or
  of two frames to the exclusive or of their reductions, two frames are reported equal exactly when
  every column of their difference is zero, and changing any two bytes of one column by the same mask
  is such a collision. The self-test passes.
\<close>

theorem reducer_linear:
  assumes "length a = 256" "length b = 256" "j < 16" "k < 16" "l < 16" "k \<noteq> l"
  shows "rmr_pv1_reduce256 (xor_list a b) = xor_list (rmr_pv1_reduce256 a) (rmr_pv1_reduce256 b) \<and>
    rmr_pv1_equal16 (rmr_pv1_reduce256 a) (rmr_pv1_reduce256 b) =
      (if \<forall>j < 16. pv1_column (xor_list a b) j = 0 then 1 else 0) \<and>
    rmr_pv1_reduce256 (xor_list a (xor_list (one_byte (j + 16 * k) m) (one_byte (j + 16 * l) m))) =
      rmr_pv1_reduce256 a \<and>
    rmr_pv1_selftest = 1"
proof (intro conjI)
  show "rmr_pv1_reduce256 (xor_list a b) = xor_list (rmr_pv1_reduce256 a) (rmr_pv1_reduce256 b)"
    using assms by (intro reduce_linear)
  have l: "length (rmr_pv1_reduce256 i) = 16" for i by (simp add: rmr_pv1_reduce256_def)
  have "(rmr_pv1_reduce256 a = rmr_pv1_reduce256 b) = (\<forall>j < 16. pv1_column (xor_list a b) j = 0)"
    using assms(1,2) by (auto simp: reduce_columns list_eq_iff_nth_eq column_linear xor_zero_word simp del: upt_rec_numeral)
  then show "rmr_pv1_equal16 (rmr_pv1_reduce256 a) (rmr_pv1_reduce256 b) =
      (if \<forall>j < 16. pv1_column (xor_list a b) j = 0 then 1 else 0)"
    by (simp add: equal16_iff [OF l l])
  let ?e = "one_byte (j + 16 * k) m" and ?f = "one_byte (j + 16 * l) m"
  have ef: "length ?e = 256" "length ?f = 256" by (simp_all add: one_byte_def)
  have x: "length (xor_list ?e ?f) = 256" by (simp add: xor_list_def ef)
  have "pv1_column (xor_list a (xor_list ?e ?f)) j' = pv1_column a j'" if "j' < 16" for j'
    using that assms ef x by (simp add: column_linear column_one_byte)
  then show "rmr_pv1_reduce256 (xor_list a (xor_list ?e ?f)) = rmr_pv1_reduce256 a"
    by (simp add: reduce_columns list_eq_iff_nth_eq del: upt_rec_numeral)
  show "rmr_pv1_selftest = 1"
    by (simp add: rmr_pv1_selftest_def Let_def rmr_pv1_reduce256_def pv1_column_def rmr_pv1_equal16_def)
qed

lemma reducer_linear_witness:
  "rmr_pv1_reduce256 (xor_list (replicate 256 7) (xor_list (one_byte (3 + 16 * 0) 9) (one_byte (3 + 16 * 5) 9))) =
    rmr_pv1_reduce256 (replicate 256 7)"
  using reducer_linear [of "replicate 256 7" "replicate 256 0" 3 0 5 9] by simp

section \<open>Byte routines\<close>

lemma copy_loop:
  assumes "s + n \<le> length mem" "d + n \<le> length mem" "d \<le> s \<or> s + n \<le> d"
  shows "foldl (\<lambda>mem i. mem[d + i := mem ! (s + i)]) mem [0..<n] = buf_write mem d (take n (drop s mem))"
  using assms
proof (induction n)
  case (Suc n)
  let ?m = "buf_write mem d (take n (drop s mem))"
  have IH: "foldl (\<lambda>mem i. mem[d + i := mem ! (s + i)]) mem [0..<n] = ?m" using Suc by (intro Suc.IH) auto
  have r: "?m ! (s + n) = mem ! (s + n)"
    using Suc.prems by (auto simp: buf_write_def nth_append min_def)
  have t: "take (Suc n) (drop s mem) = take n (drop s mem) @ [mem ! (s + n)]"
    using Suc.prems by (simp add: take_Suc_conv_app_nth)
  have dr: "drop (d + n) mem = mem ! (d + n) # drop (Suc (d + n)) mem"
    using Suc.prems by (simp add: Cons_nth_drop_Suc)
  have "?m[d + n := mem ! (s + n)] = buf_write mem d (take (Suc n) (drop s mem))"
    using Suc.prems by (simp add: buf_write_def list_update_append t dr)
  then show ?case using IH r by simp
qed simp

lemma zero_loop:
  "d + n \<le> length mem \<Longrightarrow> foldl (\<lambda>mem i. mem[d + i := 0]) mem [0..<n] = buf_write mem d (replicate n 0)"
proof (induction n)
  case (Suc n)
  then show ?case
    by (simp add: buf_write_def list_update_append Cons_nth_drop_Suc [symmetric] replicate_append_same)
qed simp

lemma foldl_xor_out:
  "foldl (\<lambda>v i. v XOR f i) (a XOR b) is = a XOR foldl (\<lambda>v i. v XOR f i) (b :: u32) is"
  by (induction "is" arbitrary: b) (simp_all add: xor.assoc)

lemma and3_mod: "of_nat i AND (3 :: 'a::len word) = of_nat (i mod 4)"
proof -
  have "of_nat i AND (3 :: 'a word) = take_bit 2 (of_nat i)"
    by (simp add: take_bit_eq_mask mask_eq_exp_minus_1)
  also have "\<dots> = of_nat (i mod 4)"
    by (simp only: take_bit_of_nat) (simp add: take_bit_nat_def)
  finally show ?thesis .
qed

lemma and3_of_nat: "unat ((of_nat i AND 3 :: u64) * 8) = i mod 4 * 8" "unat ((of_nat i AND 3 :: u32) * 8) = i mod 4 * 8"
proof -
  have "i mod 4 < 4" by simp
  then show "unat ((of_nat i AND 3 :: u64) * 8) = i mod 4 * 8" "unat ((of_nat i AND 3 :: u32) * 8) = i mod 4 * 8"
    unfolding and3_mod by (simp_all add: unat_word_ariths unat_of_nat)
qed

text \<open>
  Inside the memory the copy moves the bytes as they were before the call for disjoint regions and
  for a destination below the source, and zeroing clears exactly its region; comparison succeeds
  exactly on equal bytes; the 32-bit fold of sixteen bytes is the one of the Custody16 lanes; a null
  pointer changes nothing.
\<close>

theorem standalone_bytes:
  assumes "s + n \<le> length mem" "d + n \<le> length mem" "d \<le> s \<or> s + n \<le> d"
    and "n \<le> length x" "n \<le> length y" "16 \<le> length x"
  shows "rmr_sa_copy mem (Some d) (Some s) n = buf_write mem d (buf_read mem s n) \<and>
    rmr_sa_zero mem (Some d) n = buf_write mem d (replicate n 0) \<and>
    rmr_sa_copy mem None (Some s) n = mem \<and> rmr_sa_copy mem (Some d) None n = mem \<and> rmr_sa_zero mem None n = mem \<and>
    rmr_sa_equal (Some x) (Some y) n = (if take n x = take n y then 1 else 0) \<and>
    rmr_sa_xor_fold32 (Some x) 16 = rmr_fc16_xor_fold16 (Some x)"
proof (intro conjI)
  show "rmr_sa_copy mem (Some d) (Some s) n = buf_write mem d (buf_read mem s n)"
  proof (cases "d = s")
    case True
    then show ?thesis
      using assms(1)
      by (simp add: rmr_sa_copy_def buf_write_def buf_read_def add.commute [of s n] drop_drop [symmetric] del: drop_drop)
  next
    case False
    then show ?thesis using copy_loop [OF assms(1-3)] by (simp add: rmr_sa_copy_def buf_read_def)
  qed
  show "rmr_sa_zero mem (Some d) n = buf_write mem d (replicate n 0)"
    using zero_loop [OF assms(2)] by (simp add: rmr_sa_zero_def)
  show "rmr_sa_equal (Some x) (Some y) n = (if take n x = take n y then 1 else 0)"
    using assms(4,5)
    by (auto simp: rmr_sa_equal_def Let_def foldl_or_zero ucast_byte_zero xor_zero_word list_eq_iff_nth_eq)
  show "rmr_sa_xor_fold32 (Some x) 16 = rmr_fc16_xor_fold16 (Some x)"
    by (simp add: rmr_sa_xor_fold32_def rmr_fc16_xor_fold16_def and3_of_nat del: upt_rec_numeral)
qed (simp_all add: rmr_sa_copy_def rmr_sa_zero_def)

lemma standalone_bytes_witness:
  "rmr_sa_copy [1, 2, 3, 4, 5] (Some 0) (Some 1) 3 = [2, 3, 4, 4, 5] \<and>
    rmr_sa_equal (Some (replicate 16 1)) (Some [1, 1, 2]) 3 = 0"
proof -
  have "replicate 3 1 = [1, 1, 1 :: u8]" by (simp add: numeral_3_eq_3)
  then show ?thesis
    using standalone_bytes [of 1 3 "[1, 2, 3, 4, 5]" 0 "replicate 16 1" "[1, 1, 2]"]
    by (simp add: buf_write_def buf_read_def)
qed

end
