(* ===== verification/Release.thy ===== *)
theory Release
  imports Reducer
begin

text \<open>
  The draft packet of \<open>rmr/prospective_release_v020/src/rmr_release_evidence_v020.c\<close>: 64 bytes with a
  fixed header, a caller's digest and reference, and a bitwise CRC-32C. Its producer, its checker and
  what the checker accepts.
\<close>

definition RMR_RE_SCHEMA :: u8 where "RMR_RE_SCHEMA = 1"
definition RMR_RE_VERSION_MAJOR :: u8 where "RMR_RE_VERSION_MAJOR = 0"
definition RMR_RE_VERSION_MINOR :: u8 where "RMR_RE_VERSION_MINOR = 2"
definition RMR_RE_VERSION_PATCH :: u8 where "RMR_RE_VERSION_PATCH = 0"
definition RMR_RE_VERSION_RC :: u8 where "RMR_RE_VERSION_RC = 1"
definition RMR_RE_STATUS_DRAFT :: u8 where "RMR_RE_STATUS_DRAFT = 1"
definition RMR_RE_OK :: u32 where "RMR_RE_OK = 0"
definition RMR_RE_ERR_ARGUMENT :: u32 where "RMR_RE_ERR_ARGUMENT = 1"
definition RMR_RE_ERR_FORMAT :: u32 where "RMR_RE_ERR_FORMAT = 2"
definition RMR_RE_ERR_CRC :: u32 where "RMR_RE_ERR_CRC = 3"
definition RMR_RE_ERR_ZERO_DIGEST :: u32 where "RMR_RE_ERR_ZERO_DIGEST = 4"

definition re_crc_bit :: "u32 \<Rightarrow> u32" where
  "re_crc_bit crc = (let mask = 0 - (crc AND 1) in drop_bit 1 crc XOR (0x82f63b78 AND mask))"

definition rmr_re_crc32c :: "bytes option \<Rightarrow> nat \<Rightarrow> u32" where
  "rmr_re_crc32c data n =
    (if data = None \<and> n \<noteq> 0 then 0
     else NOT (foldl (\<lambda>crc i. (re_crc_bit ^^ 8) (crc XOR ucast (the data ! i))) 0xffffffff [0..<n]))"

definition re_load32le :: "bytes \<Rightarrow> u32" where
  "re_load32le p =
    ucast (p ! 0) OR push_bit 8 (ucast (p ! 1)) OR push_bit 16 (ucast (p ! 2)) OR push_bit 24 (ucast (p ! 3))"

definition re_nonzero :: "bytes \<Rightarrow> nat list \<Rightarrow> u32" where
  "re_nonzero p is = foldl (\<lambda>nonzero i. nonzero OR ucast (p ! i)) 0 is"

definition rmr_re_make_draft :: "bytes option \<Rightarrow> bytes option \<Rightarrow> bytes option \<Rightarrow> bytes option \<times> u32" where
  "rmr_re_make_draft packet asset_sha256 reference =
    (if packet = None \<or> asset_sha256 = None \<or> reference = None then (packet, RMR_RE_ERR_ARGUMENT)
     else if re_nonzero (the asset_sha256) [0..<32] = 0 then (packet, RMR_RE_ERR_ZERO_DIGEST)
     else
       let p = buf_write (the packet) 0
             [of_char (CHR ''R''), of_char (CHR ''M''), of_char (CHR ''R''), of_char (CHR ''E''), RMR_RE_SCHEMA,
              RMR_RE_VERSION_MAJOR, RMR_RE_VERSION_MINOR, RMR_RE_VERSION_PATCH, RMR_RE_VERSION_RC,
              RMR_RE_STATUS_DRAFT, 0, 0];
           p = foldl (\<lambda>p i. p[12 + i := the asset_sha256 ! i]) p [0..<32];
           p = foldl (\<lambda>p i. p[44 + i := the reference ! i]) p [0..<16];
           crc = rmr_re_crc32c (Some p) 60;
           p = p[60 := ucast crc];
           p = p[61 := ucast (drop_bit 8 crc)];
           p = p[62 := ucast (drop_bit 16 crc)];
           p = p[63 := ucast (drop_bit 24 crc)]
       in (Some p, RMR_RE_OK))"

definition rmr_re_check_format :: "bytes option \<Rightarrow> u32" where
  "rmr_re_check_format packet =
    (case packet of
       None \<Rightarrow> RMR_RE_ERR_ARGUMENT
     | Some p \<Rightarrow>
         if p ! 0 \<noteq> of_char (CHR ''R'') \<or> p ! 1 \<noteq> of_char (CHR ''M'') \<or> p ! 2 \<noteq> of_char (CHR ''R'')
           \<or> p ! 3 \<noteq> of_char (CHR ''E'') \<or> p ! 4 \<noteq> RMR_RE_SCHEMA \<or> p ! 5 \<noteq> RMR_RE_VERSION_MAJOR
           \<or> p ! 6 \<noteq> RMR_RE_VERSION_MINOR \<or> p ! 7 \<noteq> RMR_RE_VERSION_PATCH \<or> p ! 8 \<noteq> RMR_RE_VERSION_RC
           \<or> p ! 9 \<noteq> RMR_RE_STATUS_DRAFT \<or> p ! 10 \<noteq> 0 \<or> p ! 11 \<noteq> 0
         then RMR_RE_ERR_FORMAT
         else if re_nonzero p [12..<44] = 0 then RMR_RE_ERR_ZERO_DIGEST
         else if re_load32le (drop 60 p) \<noteq> rmr_re_crc32c (Some p) 60 then RMR_RE_ERR_CRC
         else RMR_RE_OK)"

section \<open>The checksum\<close>

lemma re_crc_bit: "re_crc_bit = crc_bit CRC32C_POLY"
  using stability_bit by (auto simp: fun_eq_iff re_crc_bit_def stability_crc_bit_def)

lemma foldl_nth_take:
  "n \<le> length p \<Longrightarrow> foldl (\<lambda>c i. f c (p ! i)) c [0..<n] = foldl f c (take n p)"
  by (induction n) (simp_all add: take_Suc_conv_app_nth)

lemma rmr_re_crc32c_spec:
  "n \<le> length p \<Longrightarrow> rmr_re_crc32c (Some p) n = NOT (crc_spec CRC32C_POLY 0xffffffff (take n p))"
  using foldl_nth_take [of n p "crc_byte CRC32C_POLY"]
  by (simp add: rmr_re_crc32c_def re_crc_bit crc_byte_def crc_bits_def crc_spec_def)

lemma xor_all_ones: "x XOR 0xffffffff = NOT x" for x :: u32
proof -
  have "(0xffffffff :: u32) = -1" by simp
  then show ?thesis by (simp only:) simp
qed

lemma rmr_re_crc32c_fc16:
  "n \<le> length p \<Longrightarrow> rmr_re_crc32c (Some p) n = rmr_fc16_crc32c_finish (rmr_fc16_crc32c_update be 0xffffffff (Some p) n)"
  by (simp add: rmr_re_crc32c_spec crc32c_update_spec rmr_fc16_crc32c_finish_def xor_all_ones)

section \<open>Packets\<close>

definition re_header :: bytes where
  "re_header = [82, 77, 82, 69, 1, 0, 2, 0, 1, 1, 0, 0]"

definition re_body :: "bytes \<Rightarrow> bytes \<Rightarrow> bytes" where
  "re_body d r = re_header @ d @ r"

definition re_packet :: "bytes \<Rightarrow> bytes \<Rightarrow> bytes" where
  "re_packet d r = re_body d r @ p32 (NOT (crc_spec CRC32C_POLY 0xffffffff (re_body d r)))"

lemma length_re_header [simp]: "length re_header = 12"
  by (simp add: re_header_def)

lemma length_re_body [simp]: "length d = 32 \<Longrightarrow> length r = 16 \<Longrightarrow> length (re_body d r) = 60"
  by (simp add: re_body_def)

lemma length_re_packet [simp]: "length d = 32 \<Longrightarrow> length r = 16 \<Longrightarrow> length (re_packet d r) = 64"
  by (simp add: re_packet_def)

lemma copy_bytes:
  "off + n \<le> length p \<Longrightarrow> n \<le> length s \<Longrightarrow> foldl (\<lambda>p i. p[off + i := s ! i]) p [0..<n] = buf_write p off (take n s)"
proof (induction n)
  case (Suc n)
  have dr: "drop (off + n) p = p ! (off + n) # drop (Suc (off + n)) p" using Suc.prems by (simp add: Cons_nth_drop_Suc)
  show ?case
    using Suc by (simp add: buf_write_def list_update_append take_Suc_conv_app_nth dr)
qed simp

lemma re_nonzero_iff:
  "length d = 32 \<Longrightarrow> re_nonzero (pre @ d @ post) [length pre..<length pre + 32] = 0 \<longleftrightarrow> d = replicate 32 0"
proof -
  assume d: "length d = 32"
  have "re_nonzero (pre @ d @ post) [length pre..<length pre + 32] = 0 \<longleftrightarrow>
      (\<forall>i \<in> {length pre..<length pre + 32}. (pre @ d @ post) ! i = 0)"
    unfolding re_nonzero_def by (subst foldl_or_zero) (simp add: ucast_byte_zero)
  also have "\<dots> \<longleftrightarrow> (\<forall>j < 32. d ! j = 0)"
  proof
    assume *: "\<forall>i \<in> {length pre..<length pre + 32}. (pre @ d @ post) ! i = 0"
    show "\<forall>j < 32. d ! j = 0"
      using * [THEN bspec, of "length pre + j" for j] d by (auto simp: nth_append)
  qed (use d in \<open>auto simp: nth_append\<close>)
  also have "\<dots> \<longleftrightarrow> d = replicate 32 0"
    using d by (auto simp: list_eq_iff_nth_eq)
  finally show ?thesis .
qed

lemma make_draft_writes:
  assumes "length p = 64" "length d = 32" "length r = 16" "d \<noteq> replicate 32 0"
  shows "rmr_re_make_draft (Some p) (Some d) (Some r) = (Some (re_packet d r), RMR_RE_OK)"
proof -
  have nz: "re_nonzero d [0..<32] \<noteq> 0"
    using re_nonzero_iff [OF assms(2), of "[]" "[]"] assms(4) by (simp del: upt_rec_numeral)
  let ?h = "[of_char (CHR ''R''), of_char (CHR ''M''), of_char (CHR ''R''), of_char (CHR ''E''), RMR_RE_SCHEMA,
              RMR_RE_VERSION_MAJOR, RMR_RE_VERSION_MINOR, RMR_RE_VERSION_PATCH, RMR_RE_VERSION_RC,
              RMR_RE_STATUS_DRAFT, 0, 0] :: bytes"
  have h: "?h = re_header"
    by (simp add: re_header_def RMR_RE_SCHEMA_def RMR_RE_VERSION_MAJOR_def RMR_RE_VERSION_MINOR_def
        RMR_RE_VERSION_PATCH_def RMR_RE_VERSION_RC_def RMR_RE_STATUS_DRAFT_def)
  have b: "buf_write (buf_write (buf_write p 0 re_header) 12 (take 32 d)) 44 (take 16 r) = re_body d r @ drop 60 p"
    using assms by (simp add: buf_write_def re_body_def)
  have l: "12 + 32 \<le> length (buf_write p 0 re_header)" "44 + 16 \<le> length (buf_write (buf_write p 0 re_header) 12 (take 32 d))"
    using assms by simp_all
  obtain a0 a1 a2 a3 where tl: "drop 60 p = [a0, a1, a2, a3]"
  proof -
    have "length (drop 60 p) = 4" using assms(1) by simp
    then show ?thesis using that length4E by blast
  qed
  have c: "rmr_re_crc32c (Some (re_body d r @ drop 60 p)) 60 = NOT (crc_spec CRC32C_POLY 0xffffffff (re_body d r))"
    using assms by (simp add: rmr_re_crc32c_spec)
  have n: "length (re_body d r) = 60" using assms by simp
  show ?thesis
    unfolding rmr_re_make_draft_def Let_def h option.sel copy_bytes [OF l(1) eq_refl [OF assms(2) [symmetric]]]
      copy_bytes [OF l(2) eq_refl [OF assms(3) [symmetric]]] b c
    using nz n by (simp add: tl list_update_append re_packet_def p32_def numeral_2_eq_2 numeral_3_eq_3)
qed

lemma re_load32le_g32: "re_load32le = g32"
  by (simp add: fun_eq_iff re_load32le_def g32_def)

lemma g32_p32_iff: "length c = 4 \<Longrightarrow> g32 c = w \<longleftrightarrow> c = p32 w"
proof
  assume l: "length c = 4" and e: "g32 c = w"
  obtain a0 a1 a2 a3 where c: "c = [a0, a1, a2, a3]" using length4E [OF l] by blast
  have "g32 [a0, a1, a2, a3] = g32 [ucast w, ucast (drop_bit 8 w), ucast (drop_bit 16 w), ucast (drop_bit 24 w)]"
    using g32_p32 [of w "[]"] e by (simp add: c p32_def)
  then show "c = p32 w" unfolding c p32_def using g32_inject by blast
qed (use g32_p32 [of w "[]"] in simp)

lemma iff_not_swap: "(A \<longleftrightarrow> \<not> B) \<Longrightarrow> B = (\<not> A)"
  by blast

lemma check_header:
  assumes "length p = 64"
  shows "take 12 p = re_header \<longleftrightarrow> \<not> (p ! 0 \<noteq> of_char (CHR ''R'') \<or> p ! 1 \<noteq> of_char (CHR ''M'') \<or> p ! 2 \<noteq> of_char (CHR ''R'')
           \<or> p ! 3 \<noteq> of_char (CHR ''E'') \<or> p ! 4 \<noteq> RMR_RE_SCHEMA \<or> p ! 5 \<noteq> RMR_RE_VERSION_MAJOR
           \<or> p ! 6 \<noteq> RMR_RE_VERSION_MINOR \<or> p ! 7 \<noteq> RMR_RE_VERSION_PATCH \<or> p ! 8 \<noteq> RMR_RE_VERSION_RC
           \<or> p ! 9 \<noteq> RMR_RE_STATUS_DRAFT \<or> p ! 10 \<noteq> 0 \<or> p ! 11 \<noteq> 0)"
proof -
  have t: "take 12 p = map (\<lambda>i. p ! i) [0, 1, 2, 3, 4, 5, 6, 7, 8, 9, 10, 11]"
  proof -
    have "[0..<12 :: nat] = [0, 1, 2, 3, 4, 5, 6, 7, 8, 9, 10, 11]" by (simp add: upt_rec)
    moreover have "take 12 p = map (\<lambda>i. p ! i) [0..<12]"
      using assms by (intro nth_equalityI) (simp_all del: upt_rec_numeral)
    ultimately show ?thesis by simp
  qed
  show ?thesis
    unfolding t by (simp add: re_header_def RMR_RE_SCHEMA_def RMR_RE_VERSION_MAJOR_def RMR_RE_VERSION_MINOR_def
        RMR_RE_VERSION_PATCH_def RMR_RE_VERSION_RC_def RMR_RE_STATUS_DRAFT_def) blast
qed

lemma check_format_iff:
  assumes "length p = 64"
  shows "rmr_re_check_format (Some p) = RMR_RE_OK \<longleftrightarrow>
    take 12 p = re_header \<and> take 32 (drop 12 p) \<noteq> replicate 32 0 \<and>
    drop 60 p = p32 (NOT (crc_spec CRC32C_POLY 0xffffffff (take 60 p)))"
proof -
  have "p = take 12 p @ take 32 (drop 12 p) @ drop 44 p"
  proof -
    have "drop 44 p = drop 32 (drop 12 p)" by simp
    then show ?thesis by (metis append_take_drop_id)
  qed
  then have nz: "re_nonzero p [12..<44] = 0 \<longleftrightarrow> take 32 (drop 12 p) = replicate 32 0"
    using re_nonzero_iff [of "take 32 (drop 12 p)" "take 12 p" "drop 44 p"] assms by simp
  have c: "re_load32le (drop 60 p) = rmr_re_crc32c (Some p) 60 \<longleftrightarrow>
      drop 60 p = p32 (NOT (crc_spec CRC32C_POLY 0xffffffff (take 60 p)))"
    using assms by (simp add: re_load32le_g32 g32_p32_iff rmr_re_crc32c_spec)
  show ?thesis
    unfolding rmr_re_check_format_def option.case check_header [OF assms, THEN iff_not_swap] nz c
    by (simp add: RMR_RE_OK_def RMR_RE_ERR_FORMAT_def RMR_RE_ERR_ZERO_DIGEST_def RMR_RE_ERR_CRC_def)
qed

lemma check_format_packet:
  assumes "length p = 64"
  defines "d \<equiv> take 32 (drop 12 p)" and "r \<equiv> take 16 (drop 44 p)"
  shows "rmr_re_check_format (Some p) = RMR_RE_OK \<longleftrightarrow> d \<noteq> replicate 32 0 \<and> p = re_packet d r"
proof -
  have l: "length d = 32" "length r = 16" using assms(1) by (simp_all add: d_def r_def)
  have "drop 44 p = drop 32 (drop 12 p)" "drop 60 p = drop 16 (drop 44 p)" by simp_all
  then have p: "p = take 12 p @ d @ r @ drop 60 p" unfolding d_def r_def by (metis append_take_drop_id)
  have "take 60 (take 12 p @ d @ r @ drop 60 p) = take 12 p @ d @ r" using l assms(1) by simp
  then have t60: "take 60 p = take 12 p @ d @ r" using p by simp
  show ?thesis
    unfolding check_format_iff [OF assms(1)] d_def [symmetric] t60
  proof
    assume "take 12 p = re_header \<and> d \<noteq> replicate 32 0 \<and> drop 60 p = p32 (NOT (crc_spec CRC32C_POLY 0xffffffff (take 12 p @ d @ r)))"
    then show "d \<noteq> replicate 32 0 \<and> p = re_packet d r"
      using p by (simp add: re_packet_def re_body_def)
  next
    assume "d \<noteq> replicate 32 0 \<and> p = re_packet d r"
    then show "take 12 p = re_header \<and> d \<noteq> replicate 32 0 \<and> drop 60 p = p32 (NOT (crc_spec CRC32C_POLY 0xffffffff (take 12 p @ d @ r)))"
      using l by (simp add: re_packet_def re_body_def)
  qed
qed

lemma check_format_one_byte:
  assumes "length p = 64" "rmr_re_check_format (Some p) = RMR_RE_OK" "i < 64" "x \<noteq> p ! i"
  shows "rmr_re_check_format (Some (p[i := x])) \<noteq> RMR_RE_OK"
proof -
  let ?crc = "\<lambda>d. NOT (crc_spec CRC32C_POLY 0xffffffff d)"
  have sum: "drop 60 p = p32 (?crc (take 60 p))" using assms(2) check_format_iff [OF assms(1)] by simp
  have "drop 60 (p[i := x]) \<noteq> p32 (?crc (take 60 (p[i := x])))"
  proof (cases "i < 60")
    case True
    have "crc_spec CRC32C_POLY 0xffffffff ((take 60 p)[i := x]) \<noteq> crc_spec CRC32C_POLY 0xffffffff (take 60 p)"
      using crc_spec_one_byte [of CRC32C_POLY i "take 60 p" x] True assms(1,4) by simp
    then have "?crc ((take 60 p)[i := x]) \<noteq> ?crc (take 60 p)" by simp
    moreover have "take 60 (p[i := x]) = (take 60 p)[i := x]" "drop 60 (p[i := x]) = drop 60 p"
      using True by (simp_all add: take_update_swap)
    ultimately show ?thesis by (simp add: sum)
  next
    case False
    then have "take 60 (p[i := x]) = take 60 p" by simp
    moreover have "drop 60 (p[i := x]) ! (i - 60) \<noteq> drop 60 p ! (i - 60)" using False assms by simp
    then have "drop 60 (p[i := x]) \<noteq> drop 60 p" by force
    ultimately show ?thesis by (simp add: sum)
  qed
  then show ?thesis using check_format_iff [of "p[i := x]"] assms(1) by simp
qed

lemma make_draft_zero_digest:
  "rmr_re_make_draft (Some p0) (Some (replicate 32 0)) (Some r) = (Some p0, RMR_RE_ERR_ZERO_DIGEST)"
  using re_nonzero_iff [of "replicate 32 0" "[]" "[]"] by (simp add: rmr_re_make_draft_def del: upt_rec_numeral)

text \<open>
  C18. The checker accepts exactly the packets the producer can make: a 64-byte packet passes if and
  only if it is what the producer writes for its own digest and reference fields, and these are not
  lost. A zero digest is refused and leaves the packet alone, and no accepted packet stays accepted
  when one of its bytes is changed.
\<close>

theorem release_packet_exact:
  assumes "length p = 64" "length p0 = 64"
  defines "d \<equiv> take 32 (drop 12 p)" and "r \<equiv> take 16 (drop 44 p)"
  shows "(rmr_re_check_format (Some p) = RMR_RE_OK) =
      (rmr_re_make_draft (Some p0) (Some d) (Some r) = (Some p, RMR_RE_OK)) \<and>
    rmr_re_make_draft (Some p0) (Some (replicate 32 0)) (Some r) = (Some p0, RMR_RE_ERR_ZERO_DIGEST) \<and>
    (rmr_re_check_format (Some p) = RMR_RE_OK \<longrightarrow>
      (\<forall>i < 64. \<forall>x. x \<noteq> p ! i \<longrightarrow> rmr_re_check_format (Some (p[i := x])) \<noteq> RMR_RE_OK))"
proof (intro conjI impI allI)
  have l: "length d = 32" "length r = 16" using assms(1) by (simp_all add: d_def r_def)
  have "rmr_re_check_format (Some p) = RMR_RE_OK \<longleftrightarrow> d \<noteq> replicate 32 0 \<and> p = re_packet d r"
    unfolding d_def r_def by (rule check_format_packet [OF assms(1)])
  then show "(rmr_re_check_format (Some p) = RMR_RE_OK) =
      (rmr_re_make_draft (Some p0) (Some d) (Some r) = (Some p, RMR_RE_OK))"
    using make_draft_zero_digest [of p0 r] make_draft_writes [OF assms(2) l]
    by (cases "d = replicate 32 0") (auto simp: RMR_RE_OK_def RMR_RE_ERR_ZERO_DIGEST_def)
qed (use make_draft_zero_digest check_format_one_byte [OF assms(1)] in auto)

lemma release_packet_exact_witness:
  "(rmr_re_check_format (Some (re_packet (replicate 32 7) (replicate 16 9))) = RMR_RE_OK) =
    (rmr_re_make_draft (Some (replicate 64 0)) (Some (replicate 32 7)) (Some (replicate 16 9)) =
      (Some (re_packet (replicate 32 7) (replicate 16 9)), RMR_RE_OK))"
proof -
  let ?p = "re_packet (replicate 32 7) (replicate 16 9)"
  have "length ?p = 64" by simp
  moreover have "take 32 (drop 12 ?p) = replicate 32 7" "take 16 (drop 44 ?p) = replicate 16 9"
    by (simp_all add: re_packet_def re_body_def)
  ultimately show ?thesis
    using release_packet_exact [of ?p "replicate 64 0"] by simp
qed

end
