(* ===== verification/Topology.thy ===== *)
theory Topology
  imports Prelude
begin

text \<open>
  Build and pointer topology, \<open>rmr/include/rmr_arch.h\<close> and \<open>rmr/topology/src/rmr_topology.c\<close>: what the
  preprocessor selects as a function of the predefined macros, the snapshot of it, pointer metadata
  and the saturating counters. The predefined macros, with their values, and the sizes of the C types
  are parameters: they are the compiler's.
\<close>

section \<open>Detection by macros\<close>

type_synonym macros = "string \<Rightarrow> int option"

datatype rmr_compiler = RMR_COMPILER_CLANG | RMR_COMPILER_GCC | RMR_COMPILER_MSVC

datatype rmr_os = RMR_OS_WINDOWS | RMR_OS_DARWIN | RMR_OS_ANDROID | RMR_OS_LINUX | RMR_OS_FREEBSD
  | RMR_OS_OPENBSD | RMR_OS_NETBSD

datatype rmr_arch = RMR_ARCH_X86_64 | RMR_ARCH_X86_32 | RMR_ARCH_AARCH64 | RMR_ARCH_ARM | RMR_ARCH_PPC64
  | RMR_ARCH_PPC32 | RMR_ARCH_RISCV

datatype rmr_endian = RMR_LITTLE_ENDIAN | RMR_BIG_ENDIAN

definition defined_macro :: "macros \<Rightarrow> string \<Rightarrow> bool" where
  "defined_macro m x = (m x \<noteq> None)"

definition rmr_compiler_of :: "macros \<Rightarrow> rmr_compiler option" where
  "rmr_compiler_of m =
    (if defined_macro m ''__clang__'' then Some RMR_COMPILER_CLANG
     else if defined_macro m ''__GNUC__'' then Some RMR_COMPILER_GCC
     else if defined_macro m ''_MSC_VER'' then Some RMR_COMPILER_MSVC
     else None)"

definition rmr_os_of :: "macros \<Rightarrow> rmr_os list" where
  "rmr_os_of m =
    (if defined_macro m ''_WIN32'' \<or> defined_macro m ''_WIN64'' then [RMR_OS_WINDOWS]
     else if defined_macro m ''__APPLE__'' \<and> defined_macro m ''__MACH__'' then [RMR_OS_DARWIN]
     else if defined_macro m ''__ANDROID__'' then [RMR_OS_ANDROID, RMR_OS_LINUX]
     else if defined_macro m ''__linux__'' then [RMR_OS_LINUX]
     else if defined_macro m ''__FreeBSD__'' then [RMR_OS_FREEBSD]
     else if defined_macro m ''__OpenBSD__'' then [RMR_OS_OPENBSD]
     else if defined_macro m ''__NetBSD__'' then [RMR_OS_NETBSD]
     else [])"

definition rmr_arch_of :: "macros \<Rightarrow> rmr_arch option" where
  "rmr_arch_of m =
    (if defined_macro m ''__x86_64__'' \<or> defined_macro m ''_M_X64'' then Some RMR_ARCH_X86_64
     else if defined_macro m ''__i386__'' \<or> defined_macro m ''_M_IX86'' then Some RMR_ARCH_X86_32
     else if defined_macro m ''__aarch64__'' \<or> defined_macro m ''_M_ARM64'' then Some RMR_ARCH_AARCH64
     else if defined_macro m ''__arm__'' \<or> defined_macro m ''_M_ARM'' then Some RMR_ARCH_ARM
     else if defined_macro m ''__powerpc64__'' \<or> defined_macro m ''__ppc64__'' then Some RMR_ARCH_PPC64
     else if defined_macro m ''__powerpc__'' \<or> defined_macro m ''__ppc__'' then Some RMR_ARCH_PPC32
     else if defined_macro m ''__riscv'' \<or> defined_macro m ''__riscv__'' then Some RMR_ARCH_RISCV
     else None)"

definition rmr_endian_of :: "macros \<Rightarrow> rmr_endian option" where
  "rmr_endian_of m =
    (if defined_macro m ''__BYTE_ORDER__'' \<and> defined_macro m ''__ORDER_LITTLE_ENDIAN__''
     then if the (m ''__BYTE_ORDER__'') = the (m ''__ORDER_LITTLE_ENDIAN__'') then Some RMR_LITTLE_ENDIAN
          else Some RMR_BIG_ENDIAN
     else if defined_macro m ''_WIN32'' \<or> defined_macro m ''__LITTLE_ENDIAN__'' then Some RMR_LITTLE_ENDIAN
     else if defined_macro m ''__BIG_ENDIAN__'' then Some RMR_BIG_ENDIAN
     else None)"

section \<open>The snapshot\<close>

definition RMR_TOPOLOGY_PREPROCESSOR :: u32 where "RMR_TOPOLOGY_PREPROCESSOR = push_bit 0 1"
definition RMR_TOPOLOGY_COMPILER :: u32 where "RMR_TOPOLOGY_COMPILER = push_bit 1 1"
definition RMR_TOPOLOGY_LINKER :: u32 where "RMR_TOPOLOGY_LINKER = push_bit 2 1"
definition RMR_TOPOLOGY_BINARY :: u32 where "RMR_TOPOLOGY_BINARY = push_bit 3 1"
definition RMR_TOPOLOGY_SYMBOL :: u32 where "RMR_TOPOLOGY_SYMBOL = push_bit 4 1"
definition RMR_TOPOLOGY_POINTER :: u32 where "RMR_TOPOLOGY_POINTER = push_bit 5 1"
definition RMR_TOPOLOGY_LOOP :: u32 where "RMR_TOPOLOGY_LOOP = push_bit 6 1"
definition RMR_TOPOLOGY_IO :: u32 where "RMR_TOPOLOGY_IO = push_bit 7 1"
definition RMR_TOPOLOGY_COMMENT :: u32 where "RMR_TOPOLOGY_COMMENT = push_bit 8 1"
definition RMR_TOPOLOGY_WARNING :: u32 where "RMR_TOPOLOGY_WARNING = push_bit 9 1"
definition RMR_TOPOLOGY_MODULE :: u32 where "RMR_TOPOLOGY_MODULE = push_bit 10 1"
definition RMR_TOPOLOGY_OVERLAP :: u32 where "RMR_TOPOLOGY_OVERLAP = push_bit 11 1"
definition RMR_TOPOLOGY_CONDITION :: u32 where "RMR_TOPOLOGY_CONDITION = push_bit 12 1"
definition RMR_TOPOLOGY_COLOR :: u32 where "RMR_TOPOLOGY_COLOR = push_bit 13 1"
definition RMR_TOPOLOGY_IOPS :: u32 where "RMR_TOPOLOGY_IOPS = push_bit 14 1"

definition RMR_TOPOLOGY_ARCH_UNKNOWN :: u8 where "RMR_TOPOLOGY_ARCH_UNKNOWN = 0"
definition RMR_TOPOLOGY_ARCH_X86 :: u8 where "RMR_TOPOLOGY_ARCH_X86 = 1"
definition RMR_TOPOLOGY_ARCH_AARCH64 :: u8 where "RMR_TOPOLOGY_ARCH_AARCH64 = 2"
definition RMR_TOPOLOGY_ARCH_ARM :: u8 where "RMR_TOPOLOGY_ARCH_ARM = 3"
definition RMR_TOPOLOGY_ARCH_RISCV :: u8 where "RMR_TOPOLOGY_ARCH_RISCV = 4"
definition RMR_TOPOLOGY_ARCH_PPC :: u8 where "RMR_TOPOLOGY_ARCH_PPC = 5"
definition RMR_TOPOLOGY_COMPILER_UNKNOWN :: u8 where "RMR_TOPOLOGY_COMPILER_UNKNOWN = 0"
definition RMR_TOPOLOGY_COMPILER_CLANG :: u8 where "RMR_TOPOLOGY_COMPILER_CLANG = 1"
definition RMR_TOPOLOGY_COMPILER_GCC :: u8 where "RMR_TOPOLOGY_COMPILER_GCC = 2"
definition RMR_TOPOLOGY_COMPILER_MSVC :: u8 where "RMR_TOPOLOGY_COMPILER_MSVC = 3"
definition RMR_TOPOLOGY_ENDIAN_UNKNOWN :: u8 where "RMR_TOPOLOGY_ENDIAN_UNKNOWN = 0"
definition RMR_TOPOLOGY_ENDIAN_LITTLE :: u8 where "RMR_TOPOLOGY_ENDIAN_LITTLE = 1"
definition RMR_TOPOLOGY_ENDIAN_BIG :: u8 where "RMR_TOPOLOGY_ENDIAN_BIG = 2"

record rmr_build_topology =
  t_surface_mask :: u32
  t_stdc_version :: u32
  t_pointer_bits :: u16
  t_size_t_bits :: u16
  t_char_bits :: u16
  t_arch :: u8
  t_compiler :: u8
  t_endian :: u8
  t_reserved :: u8

record rmr_pointer_topology =
  pt_address :: u64
  pt_requested_alignment :: u64
  pt_pointer_bits :: u16
  pt_is_null :: u8
  pt_is_aligned :: u8

record rmr_runtime_counters =
  loop_iterations :: u64
  logical_reads :: u64
  logical_writes :: u64
  bytes_read :: u64
  bytes_written :: u64

definition rmr_topology_surface_mask :: u32 where
  "rmr_topology_surface_mask =
    RMR_TOPOLOGY_PREPROCESSOR OR RMR_TOPOLOGY_COMPILER OR RMR_TOPOLOGY_LINKER OR RMR_TOPOLOGY_BINARY
    OR RMR_TOPOLOGY_SYMBOL OR RMR_TOPOLOGY_POINTER OR RMR_TOPOLOGY_LOOP OR RMR_TOPOLOGY_IO
    OR RMR_TOPOLOGY_COMMENT OR RMR_TOPOLOGY_WARNING OR RMR_TOPOLOGY_MODULE OR RMR_TOPOLOGY_OVERLAP
    OR RMR_TOPOLOGY_CONDITION OR RMR_TOPOLOGY_COLOR OR RMR_TOPOLOGY_IOPS"

text \<open>The sizes of a pointer and of \<open>size_t\<close>, and the bits of a byte.\<close>

record c_sizes =
  sizeof_ptr :: nat
  sizeof_size_t :: nat
  char_bit :: nat

definition rmr_topology_compile_snapshot :: "macros \<Rightarrow> c_sizes \<Rightarrow> rmr_build_topology" where
  "rmr_topology_compile_snapshot m z =
    \<lparr>t_surface_mask = rmr_topology_surface_mask,
     t_stdc_version = (case m ''__STDC_VERSION__'' of Some v \<Rightarrow> word_of_int v | None \<Rightarrow> 0),
     t_pointer_bits = of_nat (sizeof_ptr z * char_bit z),
     t_size_t_bits = of_nat (sizeof_size_t z * char_bit z),
     t_char_bits = of_nat (char_bit z),
     t_arch = (case rmr_arch_of m of
         None \<Rightarrow> RMR_TOPOLOGY_ARCH_UNKNOWN
       | Some RMR_ARCH_X86_64 \<Rightarrow> RMR_TOPOLOGY_ARCH_X86
       | Some RMR_ARCH_X86_32 \<Rightarrow> RMR_TOPOLOGY_ARCH_X86
       | Some RMR_ARCH_AARCH64 \<Rightarrow> RMR_TOPOLOGY_ARCH_AARCH64
       | Some RMR_ARCH_ARM \<Rightarrow> RMR_TOPOLOGY_ARCH_ARM
       | Some RMR_ARCH_RISCV \<Rightarrow> RMR_TOPOLOGY_ARCH_RISCV
       | Some RMR_ARCH_PPC64 \<Rightarrow> RMR_TOPOLOGY_ARCH_PPC
       | Some RMR_ARCH_PPC32 \<Rightarrow> RMR_TOPOLOGY_ARCH_PPC),
     t_compiler = (case rmr_compiler_of m of
         None \<Rightarrow> RMR_TOPOLOGY_COMPILER_UNKNOWN
       | Some RMR_COMPILER_CLANG \<Rightarrow> RMR_TOPOLOGY_COMPILER_CLANG
       | Some RMR_COMPILER_GCC \<Rightarrow> RMR_TOPOLOGY_COMPILER_GCC
       | Some RMR_COMPILER_MSVC \<Rightarrow> RMR_TOPOLOGY_COMPILER_MSVC),
     t_endian = (case rmr_endian_of m of
         None \<Rightarrow> RMR_TOPOLOGY_ENDIAN_UNKNOWN
       | Some RMR_LITTLE_ENDIAN \<Rightarrow> RMR_TOPOLOGY_ENDIAN_LITTLE
       | Some RMR_BIG_ENDIAN \<Rightarrow> RMR_TOPOLOGY_ENDIAN_BIG),
     t_reserved = 0\<rparr>"

section \<open>Pointers and counters\<close>

text \<open>A pointer is its address; the null pointer has address 0.\<close>

definition rmr_topology_pointer :: "c_sizes \<Rightarrow> u64 \<Rightarrow> u64 \<Rightarrow> rmr_pointer_topology" where
  "rmr_topology_pointer z address requested_alignment =
    \<lparr>pt_address = address, pt_requested_alignment = requested_alignment,
     pt_pointer_bits = of_nat (sizeof_ptr z * char_bit z),
     pt_is_null = (if address = 0 then 1 else 0),
     pt_is_aligned = (if address \<noteq> 0 \<and> requested_alignment \<noteq> 0
       then if address mod requested_alignment = 0 then 1 else 0 else 0)\<rparr>"

definition rmr_topology_masks_overlap :: "u64 \<Rightarrow> u64 \<Rightarrow> bool" where
  "rmr_topology_masks_overlap lhs rhs = (lhs AND rhs \<noteq> 0)"

definition rmr_sat_add_u64 :: "u64 \<Rightarrow> u64 \<Rightarrow> u64" where
  "rmr_sat_add_u64 lhs rhs = (if - 1 - lhs < rhs then - 1 else lhs + rhs)"

definition rmr_topology_counter_reset :: "rmr_runtime_counters option \<Rightarrow> rmr_runtime_counters option" where
  "rmr_topology_counter_reset counters =
    map_option (\<lambda>c. c\<lparr>loop_iterations := 0, logical_reads := 0, logical_writes := 0, bytes_read := 0,
      bytes_written := 0\<rparr>) counters"

definition rmr_topology_counter_note_loop ::
  "rmr_runtime_counters option \<Rightarrow> u64 \<Rightarrow> rmr_runtime_counters option" where
  "rmr_topology_counter_note_loop counters iterations =
    (case counters of
       None \<Rightarrow> None
     | Some c \<Rightarrow> Some (c\<lparr>loop_iterations := rmr_sat_add_u64 (loop_iterations c) iterations\<rparr>))"

definition rmr_topology_counter_note_io ::
  "rmr_runtime_counters option \<Rightarrow> u64 \<Rightarrow> u64 \<Rightarrow> u64 \<Rightarrow> u64 \<Rightarrow> rmr_runtime_counters option" where
  "rmr_topology_counter_note_io counters reads writes br bw =
    (case counters of
       None \<Rightarrow> None
     | Some c \<Rightarrow>
         let c = c\<lparr>logical_reads := rmr_sat_add_u64 (logical_reads c) reads\<rparr>;
             c = c\<lparr>logical_writes := rmr_sat_add_u64 (logical_writes c) writes\<rparr>;
             c = c\<lparr>bytes_read := rmr_sat_add_u64 (bytes_read c) br\<rparr>;
             c = c\<lparr>bytes_written := rmr_sat_add_u64 (bytes_written c) bw\<rparr>
         in Some c)"

definition rmr_topology_logical_io_ops :: "rmr_runtime_counters option \<Rightarrow> u64" where
  "rmr_topology_logical_io_ops counters =
    (case counters of None \<Rightarrow> 0 | Some c \<Rightarrow> rmr_sat_add_u64 (logical_reads c) (logical_writes c))"

section \<open>What the counters hold\<close>

definition sat64 :: "nat \<Rightarrow> nat" where
  "sat64 n = min n (2 ^ 64 - 1)"

lemma unat_max64: "unat (- 1 :: u64) = 2 ^ 64 - 1"
  by (simp add: unsigned_minus_1_eq_mask mask_eq_exp_minus_1)

lemma unat_sat_add: "unat (rmr_sat_add_u64 a b) = sat64 (unat a + unat b)"
proof -
  have lt: "unat a < 2 ^ LENGTH(64)" "unat b < 2 ^ LENGTH(64)" by (rule unsigned_less)+
  have m: "unat (- 1 - a) = 2 ^ 64 - 1 - unat a"
    unfolding unat_sub_if' unat_max64 using lt by simp
  show ?thesis
  proof (cases "- 1 - a < b")
    case True
    then have "2 ^ 64 - 1 - unat a < unat b" by (simp add: word_less_nat_alt m)
    then show ?thesis using True by (simp add: rmr_sat_add_u64_def sat64_def unat_max64)
  next
    case False
    then have b: "unat b \<le> 2 ^ 64 - 1 - unat a" by (simp add: word_less_nat_alt m)
    then have "unat a + unat b < 2 ^ LENGTH(64)" using lt by simp
    then have "unat (a + b) = unat a + unat b" using unat_add_lem by blast
    then show ?thesis using False b lt by (simp add: rmr_sat_add_u64_def sat64_def)
  qed
qed

lemma sat64_idem: "sat64 (sat64 a + b) = sat64 (a + b)"
  by (simp add: sat64_def)

text \<open>The calls that change counters, and a run of them.\<close>

datatype topo_note = NoteLoop u64 | NoteIo u64 u64 u64 u64

fun note_step :: "rmr_runtime_counters option \<Rightarrow> topo_note \<Rightarrow> rmr_runtime_counters option" where
  "note_step c (NoteLoop n) = rmr_topology_counter_note_loop c n"
| "note_step c (NoteIo r w br bw) = rmr_topology_counter_note_io c r w br bw"

fun note_amounts :: "topo_note \<Rightarrow> nat list" where
  "note_amounts (NoteLoop n) = [unat n, 0, 0, 0, 0]"
| "note_amounts (NoteIo r w br bw) = [0, unat r, unat w, unat br, unat bw]"

definition counter_values :: "rmr_runtime_counters \<Rightarrow> nat list" where
  "counter_values c = [unat (loop_iterations c), unat (logical_reads c), unat (logical_writes c),
     unat (bytes_read c), unat (bytes_written c)]"

definition noted :: "topo_note list \<Rightarrow> nat list" where
  "noted ns = map (\<lambda>j. \<Sum>n\<leftarrow>ns. note_amounts n ! j) [0, 1, 2, 3, 4]"

lemma sat64_unat [simp]: "sat64 (unat (w :: u64)) = unat w"
proof -
  have "unat w < 2 ^ LENGTH(64)" by (rule unsigned_less)
  then show ?thesis by (simp add: sat64_def)
qed

lemma note_run:
  "\<exists>c'. foldl note_step (Some c) ns = Some c' \<and> counter_values c' = map2 (\<lambda>a b. sat64 (a + b)) (counter_values c) (noted ns)"
proof (induction ns arbitrary: c)
  case Nil
  then show ?case by (simp add: counter_values_def noted_def)
next
  case (Cons n ns)
  obtain c1 where c1: "note_step (Some c) n = Some c1"
    "counter_values c1 = map2 (\<lambda>a b. sat64 (a + b)) (counter_values c) (noted [n])"
    by (cases n) (simp_all add: rmr_topology_counter_note_loop_def rmr_topology_counter_note_io_def Let_def
        counter_values_def noted_def unat_sat_add)
  obtain c2 where c2: "foldl note_step (Some c1) ns = Some c2"
    "counter_values c2 = map2 (\<lambda>a b. sat64 (a + b)) (counter_values c1) (noted ns)"
    using Cons.IH by blast
  have "counter_values c2 = map2 (\<lambda>a b. sat64 (a + b)) (counter_values c) (noted (n # ns))"
    using c1(2) c2(2) by (simp add: counter_values_def noted_def sat64_idem add.assoc)
  then show ?case using c1(1) c2(1) by simp
qed

text \<open>
  C19. Counters never wrap: after a reset and any sequence of notes each counter is the sum of what was
  noted for it, capped at the largest 64-bit value, and the number of logical operations is the capped
  sum of the two counters it adds. An alignment is reported exactly when the address is not null and
  a multiple of a requested alignment.
\<close>

theorem topology_counters_saturate:
  "\<exists>c. foldl note_step (rmr_topology_counter_reset (Some c0)) ns = Some c \<and>
     counter_values c = map sat64 (noted ns) \<and>
     unat (rmr_topology_logical_io_ops (Some c)) = sat64 (sat64 (noted ns ! 1) + sat64 (noted ns ! 2)) \<and>
     (pt_is_aligned (rmr_topology_pointer z a al) = 1) = (a \<noteq> 0 \<and> al \<noteq> 0 \<and> unat al dvd unat a)"
proof -
  obtain c where c: "foldl note_step (rmr_topology_counter_reset (Some c0)) ns = Some c"
    "counter_values c = map sat64 (noted ns)"
    using note_run [of "the (rmr_topology_counter_reset (Some c0))" ns]
    by (auto simp: rmr_topology_counter_reset_def counter_values_def noted_def)
  then have "unat (logical_reads c) = sat64 (noted ns ! 1)" "unat (logical_writes c) = sat64 (noted ns ! 2)"
    by (simp_all add: counter_values_def noted_def)
  then have "unat (rmr_topology_logical_io_ops (Some c)) = sat64 (sat64 (noted ns ! 1) + sat64 (noted ns ! 2))"
    by (simp add: rmr_topology_logical_io_ops_def unat_sat_add)
  moreover have "(a mod al = 0) = (unat al dvd unat a)"
    by (simp add: word_unat_eq_iff unat_mod_distrib dvd_eq_mod_eq_0)
  ultimately show ?thesis using c by (auto simp: rmr_topology_pointer_def)
qed

end
