(* ===== verification/Lowlevel.thy ===== *)
theory Lowlevel
  imports Reducer
begin

text \<open>
  The memory routines of \<open>rmr/include/rmr_lowlevel.h\<close>: \<open>rmr_memcpy\<close> and \<open>rmr_memset\<close> with their switch for
  short lengths, their word loop for aligned pointers and their byte loop, and the allocator of the
  freestanding build. Sizes are 64 bits wide (\<open>size_t\<close> of the LP64 builds) except in the word loops,
  whose word has \<open>w\<close> bytes, 8 or 4; addresses are numbers, used only for the alignment test. The
  pointers of the copy are \<open>restrict\<close>, so its two regions are two lists. Prefetches have no effect.
\<close>

section \<open>Copying and filling\<close>

text \<open>The switch falls through from the case of the length to the first byte.\<close>

fun memcpy_switch :: "bytes \<Rightarrow> bytes \<Rightarrow> nat \<Rightarrow> bytes" where
  "memcpy_switch out i 0 = out"
| "memcpy_switch out i (Suc n) = memcpy_switch (out[n := i ! n]) i n"

definition memcpy_words :: "nat \<Rightarrow> bytes \<Rightarrow> bytes \<Rightarrow> nat \<Rightarrow> bytes" where
  "memcpy_words w out inp words = foldl (\<lambda>out i. buf_write out (i * w) (buf_read inp (i * w) w)) out [0..<words]"

definition memcpy_bytes :: "bytes \<Rightarrow> bytes \<Rightarrow> nat \<Rightarrow> nat \<Rightarrow> bytes" where
  "memcpy_bytes out inp i len = foldl (\<lambda>out i. out[i := inp ! i]) out [i..<len]"

definition rmr_memcpy :: "nat \<Rightarrow> nat \<Rightarrow> nat \<Rightarrow> bytes \<Rightarrow> bytes \<Rightarrow> nat \<Rightarrow> bytes" where
  "rmr_memcpy w out_addr in_addr out inp len =
    (if len = 0 then out
     else if len \<le> 16 then memcpy_switch out inp len
     else
       let (out, i) =
         (if (out_addr OR in_addr) mod w = 0
          then let words = len div w in (memcpy_words w out inp words, words * w)
          else (out, 0))
       in memcpy_bytes out inp i len)"

fun memset_switch :: "bytes \<Rightarrow> u8 \<Rightarrow> nat \<Rightarrow> bytes" where
  "memset_switch out value 0 = out"
| "memset_switch out value (Suc n) = memset_switch (out[n := value]) value n"

text \<open>The pattern, at the width of \<open>size_t\<close>, and the bytes a store of it writes.\<close>

definition memset_pattern64 :: "u8 \<Rightarrow> u64" where
  "memset_pattern64 value =
    (let pattern = ucast value; pattern = pattern OR push_bit 8 pattern; pattern = pattern OR push_bit 16 pattern
     in pattern OR push_bit 32 pattern)"

definition memset_pattern32 :: "u8 \<Rightarrow> u32" where
  "memset_pattern32 value =
    (let pattern = ucast value; pattern = pattern OR push_bit 8 pattern
     in pattern OR push_bit 16 pattern)"

definition memset_word :: "nat \<Rightarrow> bool \<Rightarrow> u8 \<Rightarrow> bytes" where
  "memset_word w big value =
    (let le = (if w = 8 then map (\<lambda>i. ucast (drop_bit (8 * i) (memset_pattern64 value))) [0..<8]
               else map (\<lambda>i. ucast (drop_bit (8 * i) (memset_pattern32 value))) [0..<4])
     in if big then rev le else le)"

definition rmr_memset :: "nat \<Rightarrow> bool \<Rightarrow> nat \<Rightarrow> bytes \<Rightarrow> u8 \<Rightarrow> nat \<Rightarrow> bytes" where
  "rmr_memset w big out_addr out value len =
    (if len = 0 then out
     else if len \<le> 16 then memset_switch out value len
     else
       let (out, i) =
         (if out_addr mod w = 0
          then let words = len div w
               in (foldl (\<lambda>out i. buf_write out (i * w) (memset_word w big value)) out [0..<words], words * w)
          else (out, 0))
       in foldl (\<lambda>out i. out[i := value]) out [i..<len])"

section \<open>The arena\<close>

definition RMR_FREESTANDING_ARENA_SIZE :: u64 where "RMR_FREESTANDING_ARENA_SIZE = 64 * 1024"

record arena =
  rmr_freestanding_arena :: bytes
  rmr_freestanding_arena_head :: u64

definition rmr_ll_freestanding_available :: "arena \<Rightarrow> u64" where
  "rmr_ll_freestanding_available a = RMR_FREESTANDING_ARENA_SIZE - rmr_freestanding_arena_head a"

text \<open>
  A pointer is its address; \<open>base\<close> is the address of the array \<open>rmr_freestanding_arena\<close>, which is declared as bytes and so
  may be any. \<open>uintptr_t\<close> has 8 bytes.
\<close>

definition rmr_ll_malloc :: "nat \<Rightarrow> arena \<Rightarrow> u64 \<Rightarrow> arena \<times> nat option" where
  "rmr_ll_malloc base a size' =
    (let aligned = (size' + (8 - 1)) AND NOT (8 - 1)
     in if aligned = 0 then (a, None)
        else if aligned > rmr_ll_freestanding_available a then (a, None)
        else (a\<lparr>rmr_freestanding_arena_head := rmr_freestanding_arena_head a + aligned\<rparr>,
              Some (base + unat (rmr_freestanding_arena_head a))))"

definition rmr_ll_free :: "arena \<Rightarrow> nat option \<Rightarrow> arena" where
  "rmr_ll_free a p = a"

definition rmr_ll_freestanding_reset_allocator :: "arena \<Rightarrow> arena" where
  "rmr_ll_freestanding_reset_allocator a = a\<lparr>rmr_freestanding_arena_head := 0\<rparr>"

definition rmr_ll_calloc :: "nat \<Rightarrow> bool \<Rightarrow> nat \<Rightarrow> arena \<Rightarrow> u64 \<Rightarrow> u64 \<Rightarrow> arena \<times> nat option" where
  "rmr_ll_calloc w big base a count size' =
    (if count = 0 \<or> size' = 0 then (a, None)
     else if count > - 1 div size' then (a, None)
     else
       case rmr_ll_malloc base a (count * size') of
         (a, None) \<Rightarrow> (a, None)
       | (a, Some p) \<Rightarrow>
           let m = rmr_freestanding_arena a;
               k = p - base
           in (a\<lparr>rmr_freestanding_arena := take k m @ rmr_memset w big p (drop k m) 0 (unat (count * size'))\<rparr>,
               Some p))"

section \<open>Copying and filling are right\<close>

lemma memcpy_switch_copies:
  "n \<le> length out \<Longrightarrow> n \<le> length inp \<Longrightarrow> memcpy_switch out inp n = take n inp @ drop n out"
proof (induction n arbitrary: out)
  case (Suc n)
  have d: "drop n (out[n := inp ! n]) = inp ! n # drop (Suc n) out"
    using Suc.prems by (simp add: drop_update_swap Cons_nth_drop_Suc [symmetric])
  have "memcpy_switch out inp (Suc n) = take n inp @ drop n (out[n := inp ! n])"
    using Suc by simp
  then show ?case using Suc.prems by (simp only: d take_Suc_conv_app_nth Suc_le_eq append_assoc append.simps)
qed simp

lemma memset_switch_fills: "n \<le> length out \<Longrightarrow> memset_switch out v n = replicate n v @ drop n out"
proof (induction n arbitrary: out)
  case (Suc n)
  have d: "drop n (out[n := v]) = v # drop (Suc n) out"
    using Suc.prems by (simp add: drop_update_swap Cons_nth_drop_Suc [symmetric])
  have "memset_switch out v (Suc n) = replicate n v @ drop n (out[n := v])" using Suc by simp
  then show ?case by (simp only: d replicate_Suc replicate_app_Cons_same append_Cons)
qed simp

lemma words_step:
  assumes "length pre = i * w" "length b = w" "Suc i * w \<le> length (pre @ rest)"
  shows "buf_write (pre @ rest) (i * w) b = (pre @ b) @ drop w rest"
  using assms by (simp add: buf_write_def)

lemma memcpy_words_copies:
  "k * w \<le> length out \<Longrightarrow> k * w \<le> length inp \<Longrightarrow> memcpy_words w out inp k = take (k * w) inp @ drop (k * w) out"
proof (induction k)
  case (Suc k)
  have "memcpy_words w out inp (Suc k) = buf_write (take (k * w) inp @ drop (k * w) out) (k * w) (buf_read inp (k * w) w)"
    using Suc by (simp add: memcpy_words_def)
  also have "\<dots> = (take (k * w) inp @ buf_read inp (k * w) w) @ drop w (drop (k * w) out)"
    using Suc.prems by (intro words_step) (simp_all add: buf_read_def)
  finally show ?case
    using take_add [of "k * w" w inp] by (simp add: buf_read_def add.commute)
qed (simp add: memcpy_words_def)

lemma bytes_step: "i < length p \<Longrightarrow> length p = length q \<Longrightarrow> (take i q @ drop i p)[i := q ! i] = take (Suc i) q @ drop (Suc i) p"
  by (simp add: list_update_append take_Suc_conv_app_nth Cons_nth_drop_Suc [symmetric])

lemma memcpy_bytes_copies:
  assumes "i \<le> len" "len \<le> length out" "len \<le> length inp"
  shows "memcpy_bytes (take i inp @ drop i out) inp i len = take len inp @ drop len out"
  using assms(1,2,3)
proof (induction len)
  case (Suc len)
  show ?case
  proof (cases "i \<le> len")
    case True
    have "memcpy_bytes (take i inp @ drop i out) inp i (Suc len) = (take len inp @ drop len out)[len := inp ! len]"
      using True Suc by (simp add: memcpy_bytes_def)
    then show ?thesis
      using Suc.prems by (simp add: list_update_append take_Suc_conv_app_nth Cons_nth_drop_Suc [symmetric])
  next
    case False
    then have "i = Suc len" using Suc.prems by simp
    then show ?thesis by (simp add: memcpy_bytes_def)
  qed
qed (simp add: memcpy_bytes_def)

lemma rmr_memcpy_copies:
  assumes "len \<le> length out" "len \<le> length inp"
  shows "rmr_memcpy w oa ia out inp len = take len inp @ drop len out"
proof -
  have wl: "len div w * w \<le> len" by simp
  have a: "memcpy_words w out inp (len div w) = take (len div w * w) inp @ drop (len div w * w) out"
    using assms wl by (intro memcpy_words_copies) linarith+
  show ?thesis
    using assms memcpy_switch_copies [OF assms] memcpy_bytes_copies [of 0 len out inp]
      memcpy_bytes_copies [OF wl assms]
    by (simp add: rmr_memcpy_def Let_def a)
qed

text \<open>Every byte of the pattern is the value.\<close>

lemma pattern_bits64: "bit (memset_pattern64 v) k \<longleftrightarrow> k < 64 \<and> bit v (k mod 8)"
proof (cases "k < 64")
  case True
  have "k mod 8 = k \<or> 8 \<le> k" by auto
  from byte_cases64 [OF True] show ?thesis
    by (elim disjE conjE)
      (auto simp: memset_pattern64_def Let_def bit_simps mod_if dest: bit_imp_le_length)
next
  case False
  then show ?thesis using bit_imp_le_length [of "memset_pattern64 v" k] by auto
qed

lemma pattern_bits32: "bit (memset_pattern32 v) k \<longleftrightarrow> k < 32 \<and> bit v (k mod 8)"
proof (cases "k < 32")
  case True
  then have "k < 8 \<or> (8 \<le> k \<and> k < 16) \<or> (16 \<le> k \<and> k < 24) \<or> (24 \<le> k \<and> k < 32)" by linarith
  then show ?thesis
    by (elim disjE conjE)
      (auto simp: memset_pattern32_def Let_def bit_simps mod_if dest: bit_imp_le_length)
next
  case False
  then show ?thesis using bit_imp_le_length [of "memset_pattern32 v" k] by auto
qed

lemma memset_word_replicate: "w = 8 \<or> w = 4 \<Longrightarrow> memset_word w big v = replicate w v"
proof -
  have 64: "(ucast (drop_bit (8 * i) (memset_pattern64 v)) :: u8) = v" if "i < 8" for i
  proof (rule bit_word_eqI)
    fix k assume "k < LENGTH(8)"
    then have "(8 * i + k) mod 8 = k" "8 * i + k < 64" using that by auto
    then show "bit (ucast (drop_bit (8 * i) (memset_pattern64 v)) :: u8) k = bit v k"
      using \<open>k < LENGTH(8)\<close> by (simp add: bit_simps pattern_bits64)
  qed
  have 32: "(ucast (drop_bit (8 * i) (memset_pattern32 v)) :: u8) = v" if "i < 4" for i
  proof (rule bit_word_eqI)
    fix k assume "k < LENGTH(8)"
    then have "(8 * i + k) mod 8 = k" "8 * i + k < 32" using that by auto
    then show "bit (ucast (drop_bit (8 * i) (memset_pattern32 v)) :: u8) k = bit v k"
      using \<open>k < LENGTH(8)\<close> by (simp add: bit_simps pattern_bits32)
  qed
  have m: "map (\<lambda>i. ucast (drop_bit (8 * i) (memset_pattern64 v))) [0..<8] = replicate 8 v"
    "map (\<lambda>i. ucast (drop_bit (8 * i) (memset_pattern32 v))) [0..<4] = replicate 4 v"
    by (rule nth_equalityI, simp_all add: 64 32 del: upt_rec_numeral)+
  assume "w = 8 \<or> w = 4"
  then show ?thesis unfolding memset_word_def Let_def m by auto
qed

lemma memset_words_fill:
  "k * w \<le> length out \<Longrightarrow>
    foldl (\<lambda>out i. buf_write out (i * w) (replicate w v)) out [0..<k] = replicate (k * w) v @ drop (k * w) out"
proof (induction k)
  case (Suc k)
  have "buf_write (replicate (k * w) v @ drop (k * w) out) (k * w) (replicate w v) =
      (replicate (k * w) v @ replicate w v) @ drop w (drop (k * w) out)"
    using Suc.prems by (intro words_step) simp_all
  then show ?case using Suc by (simp add: replicate_add [symmetric] add.commute)
qed simp

lemma memset_bytes_fill:
  "i \<le> len \<Longrightarrow> len \<le> length out \<Longrightarrow>
    foldl (\<lambda>out i. out[i := v]) (replicate i v @ drop i out) [i..<len] = replicate len v @ drop len out"
proof (induction len)
  case (Suc len)
  show ?case
  proof (cases "i \<le> len")
    case True
    then have "foldl (\<lambda>out i. out[i := v]) (replicate i v @ drop i out) [i..<Suc len] = (replicate len v @ drop len out)[len := v]"
      using Suc by simp
    then show ?thesis
      using Suc.prems by (simp add: list_update_append Cons_nth_drop_Suc [symmetric] replicate_app_Cons_same)
  next
    case False
    then have "i = Suc len" using Suc.prems by simp
    then show ?thesis by simp
  qed
qed simp

lemma rmr_memset_fills:
  assumes "len \<le> length out" "w = 8 \<or> w = 4"
  shows "rmr_memset w big oa out v len = replicate len v @ drop len out"
proof -
  have wl: "len div w * w \<le> len" by simp
  have a: "foldl (\<lambda>out i. buf_write out (i * w) (memset_word w big v)) out [0..<len div w] =
      replicate (len div w * w) v @ drop (len div w * w) out"
    unfolding memset_word_replicate [OF assms(2)] using assms wl by (intro memset_words_fill) linarith
  show ?thesis
    using assms memset_switch_fills [OF assms(1)] memset_bytes_fill [of 0 len out]
      memset_bytes_fill [OF wl assms(1)]
    by (simp add: rmr_memset_def Let_def a)
qed

text \<open>
  Whatever the length, the alignment of the two pointers, the word size and the byte order, the
  copy moves exactly the first bytes of its source and the fill sets exactly the first bytes of its
  destination; everything after them is left alone.
\<close>

theorem lowlevel_copy_and_fill:
  assumes "len \<le> length out" "len \<le> length inp" "w = 8 \<or> w = 4"
  shows "rmr_memcpy w oa ia out inp len = take len inp @ drop len out \<and>
    rmr_memset w big oa out v len = replicate len v @ drop len out"
  using rmr_memcpy_copies [OF assms(1,2)] rmr_memset_fills [OF assms(1,3)] by simp

lemma lowlevel_copy_and_fill_witness:
  "rmr_memcpy 8 64 128 (replicate 20 0) (replicate 17 1 @ [5, 6, 7]) 19 = replicate 17 1 @ [5, 6, 0] \<and>
    rmr_memset 8 True 64 (replicate 20 0) 9 19 = replicate 19 9 @ [0]"
  using lowlevel_copy_and_fill [of 19 "replicate 20 0" "replicate 17 1 @ [5, 6, 7]" 8 64 128 True 9] by simp

section \<open>The arena\<close>

datatype alloc_request = Malloc u64 | Calloc u64 u64

fun alloc_step :: "nat \<Rightarrow> bool \<Rightarrow> nat \<Rightarrow> arena \<Rightarrow> alloc_request \<Rightarrow> arena \<times> nat option" where
  "alloc_step w big base a (Malloc n) = rmr_ll_malloc base a n"
| "alloc_step w big base a (Calloc c n) = rmr_ll_calloc w big base a c n"

fun request_bytes :: "alloc_request \<Rightarrow> nat" where
  "request_bytes (Malloc n) = unat n"
| "request_bytes (Calloc c n) = unat c * unat n"

text \<open>The requests of a sequence that were served, each with the address of its block, and the final arena.\<close>

fun alloc_run ::
  "nat \<Rightarrow> bool \<Rightarrow> nat \<Rightarrow> arena \<Rightarrow> alloc_request list \<Rightarrow> arena \<times> (alloc_request \<times> nat) list" where
  "alloc_run w big base a [] = (a, [])"
| "alloc_run w big base a (r # rs) =
    (case alloc_step w big base a r of
       (a, None) \<Rightarrow> alloc_run w big base a rs
     | (a, Some p) \<Rightarrow> (let (a, bs) = alloc_run w big base a rs in (a, (r, p) # bs)))"

definition arena_ok :: "arena \<Rightarrow> bool" where
  "arena_ok a \<longleftrightarrow> length (rmr_freestanding_arena a) = 65536 \<and> unat (rmr_freestanding_arena_head a) \<le> 65536 \<and>
    8 dvd unat (rmr_freestanding_arena_head a)"

lemma and_not_split: "(x AND NOT y) + (x AND y) = x" for x y :: "'a::len word"
proof -
  have "(x AND NOT y) + (x AND y) = (x AND NOT y) OR (x AND y)"
    by (rule disjunctive_add) (auto simp: bit_and_iff bit_not_iff)
  also have "\<dots> = x"
    by (rule bit_word_eqI) (auto simp: bit_and_iff bit_or_iff bit_not_iff)
  finally show ?thesis .
qed

lemma and_not7: "unat (x AND NOT 7 :: u64) = unat x - unat x mod 8"
proof -
  have t: "x AND 7 = take_bit 3 x" by (simp add: take_bit_eq_mask mask_eq_exp_minus_1)
  have "x AND NOT 7 = x - take_bit 3 x"
    using and_not_split [of x 7] unfolding t by (metis add_diff_cancel_right')
  moreover have u: "unat (take_bit 3 x) = unat x mod 8"
    by (simp add: unsigned_take_bit_eq take_bit_nat_def)
  moreover have "take_bit 3 x \<le> x"
    by (simp add: word_le_nat_alt u)
  ultimately show ?thesis
    by (simp add: unat_sub_if' word_le_nat_alt)
qed

text \<open>The rounded size, unless the rounding wraps; then it is zero and the request fails.\<close>

lemma aligned_size:
  fixes n :: u64
  defines "al \<equiv> (n + (8 - 1)) AND NOT (8 - 1)"
  shows "unat al = (if unat n + 7 < 2 ^ 64 then (unat n + 7) div 8 * 8 else 0)"
proof -
  have a: "unat al = unat (n + 7) - unat (n + 7) mod 8"
    using and_not7 [of "n + 7"] by (simp add: al_def)
  show ?thesis
  proof (cases "unat n + 7 < 2 ^ 64")
    case True
    then have "unat (n + 7) = unat n + 7" by (simp add: unat_word_ariths)
    then show ?thesis using True a by (simp add: minus_mod_eq_div_mult)
  next
    case False
    moreover have "unat n < 2 ^ LENGTH(64)" by (rule unsigned_less)
    ultimately have "unat (n + 7) = unat n + 7 - 2 ^ 64"
      by (simp add: unat_word_ariths le_mod_geq)
    moreover have "unat n + 7 - 2 ^ 64 < 8" using \<open>unat n < 2 ^ LENGTH(64)\<close> by simp
    ultimately show ?thesis using False a by simp
  qed
qed

definition rounded :: "nat \<Rightarrow> nat" where
  "rounded n = (n + 7) div 8 * 8"

lemma rounded_ge: "n \<le> rounded n" "8 dvd rounded n" "0 < n \<Longrightarrow> 0 < rounded n"
  by (auto simp: rounded_def)

lemma malloc_result:
  assumes "arena_ok a"
  defines "h \<equiv> unat (rmr_freestanding_arena_head a)"
  shows "if n = 0 \<or> 65536 < h + rounded (unat n) then rmr_ll_malloc base a n = (a, None)
    else \<exists>p. rmr_ll_malloc base a n = (a\<lparr>rmr_freestanding_arena_head := p\<rparr>, Some (base + h)) \<and>
      unat p = h + rounded (unat n) \<and> arena_ok (a\<lparr>rmr_freestanding_arena_head := p\<rparr>)"
proof -
  define A where "A = (n + (8 - 1)) AND NOT (8 - 1)"
  have h: "h \<le> 65536" "8 dvd h" using assms by (simp_all add: arena_ok_def)
  have av: "unat (rmr_ll_freestanding_available a) = 65536 - h"
    using h(1) by (simp add: rmr_ll_freestanding_available_def RMR_FREESTANDING_ARENA_SIZE_def unat_sub_if' h_def)
  note al = aligned_size [of n, folded A_def]
  show ?thesis
  proof (cases "unat n + 7 < 2 ^ 64 \<and> n \<noteq> 0")
    case False
    then have "unat A = 0" using al by auto
    then have A: "A = 0" by (simp only: word_unat_eq_iff unat_0)
    have "n = 0 \<or> 65536 < h + rounded (unat n)"
      using False rounded_ge(1) [of "unat n"] by auto
    then show ?thesis using A unfolding rmr_ll_malloc_def Let_def A_def [symmetric] by simp
  next
    case True
    then have A: "unat A = rounded (unat n)" using al by (simp add: rounded_def)
    then have nz: "A \<noteq> 0" using True rounded_ge(3) [of "unat n"] by (auto simp: unat_gt_0)
    have gt: "(A > rmr_ll_freestanding_available a) = (65536 < h + rounded (unat n))"
      using h(1) by (auto simp: word_less_nat_alt A av)
    show ?thesis
    proof (cases "65536 < h + rounded (unat n)")
      case full: True
      then show ?thesis using gt unfolding rmr_ll_malloc_def Let_def A_def [symmetric] by simp
    next
      case room: False
      have p: "unat (rmr_freestanding_arena_head a + A) = h + rounded (unat n)"
        using room A by (simp add: unat_word_ariths h_def)
      have "arena_ok (a\<lparr>rmr_freestanding_arena_head := rmr_freestanding_arena_head a + A\<rparr>)"
        using assms(1) room h(2) rounded_ge(2) unfolding arena_ok_def by (simp add: p)
      then show ?thesis
        using room gt nz True p unfolding h_def rmr_ll_malloc_def Let_def A_def [symmetric] by auto
    qed
  qed
qed

lemma calloc_product:
  fixes c n :: u64
  assumes "n \<noteq> 0"
  shows "(c > - 1 div n) = (2 ^ 64 \<le> unat c * unat n)" "\<not> 2 ^ 64 \<le> unat c * unat n \<Longrightarrow> unat (c * n) = unat c * unat n"
proof -
  have n: "0 < unat n" using assms by (simp add: unat_gt_0)
  have less64: "(2 ^ 64 - 1 < x) = (2 ^ 64 \<le> x)" for x :: nat by auto
  have d: "unat (- 1 div n :: u64) = (2 ^ 64 - 1) div unat n"
    by (simp only: unat_div_distrib unsigned_minus_1_eq_mask mask_eq_exp_minus_1) simp
  have "(2 ^ 64 - 1) div unat n < unat c \<longleftrightarrow> 2 ^ 64 - 1 < unat c * unat n"
    using n by (simp add: div_less_iff_less_mult)
  then show "(c > - 1 div n) = (2 ^ 64 \<le> unat c * unat n)"
    using less64 unfolding word_less_nat_alt d by blast
  show "unat (c * n) = unat c * unat n" if "\<not> 2 ^ 64 \<le> unat c * unat n"
    using that unat_mult_lem [of c n] by simp
qed

text \<open>What a step may do: nothing, or hand out the block at the head and move the head behind it.\<close>

definition served :: "arena \<Rightarrow> alloc_request \<Rightarrow> arena \<Rightarrow> bool" where
  "served a r a' \<longleftrightarrow>
    (let h = unat (rmr_freestanding_arena_head a); n = request_bytes r;
         m = rmr_freestanding_arena a; m' = rmr_freestanding_arena a'
     in unat (rmr_freestanding_arena_head a') = h + rounded n \<and>
        m' = (case r of Malloc _ \<Rightarrow> m | Calloc _ _ \<Rightarrow> buf_write m h (replicate n 0)))"

lemma step_result:
  assumes "arena_ok a" "w = 8 \<or> w = 4"
  defines "h \<equiv> unat (rmr_freestanding_arena_head a)"
  shows "if request_bytes r = 0 \<or> 65536 < h + rounded (request_bytes r) then alloc_step w big base a r = (a, None)
    else \<exists>a'. alloc_step w big base a r = (a', Some (base + h)) \<and> arena_ok a' \<and> served a r a'"
proof (cases r)
  case (Malloc n)
  then show ?thesis
    using malloc_result [OF assms(1), of n base] by (auto simp: h_def served_def Let_def unat_eq_zero split: if_splits)
next
  case (Calloc c n)
  have len: "length (rmr_freestanding_arena a) = 65536" using assms(1) by (simp add: arena_ok_def)
  show ?thesis
  proof (cases "c = 0 \<or> n = 0 \<or> 2 ^ 64 \<le> unat c * unat n")
    case True
    have big: "65536 < h + rounded (unat c * unat n)" if "2 ^ 64 \<le> unat c * unat n"
      using that rounded_ge(1) [of "unat c * unat n"] by simp
    show ?thesis
      using True big calloc_product(1) [of n c] Calloc by (auto simp: rmr_ll_calloc_def unat_eq_zero)
  next
    case False
    then have p: "unat (c * n) = unat c * unat n" "\<not> c > - 1 div n" and z: "c * n \<noteq> 0"
      using calloc_product [of n c] by (auto simp: word_unat_eq_iff)
    have r: "request_bytes r = unat (c * n)" using Calloc p by simp
    show ?thesis
    proof (cases "65536 < h + rounded (unat (c * n))")
      case True
      then have "rmr_ll_malloc base a (c * n) = (a, None)" using malloc_result [OF assms(1), of "c * n" base] by (simp add: h_def)
      then show ?thesis using True r Calloc False p(2) by (simp add: rmr_ll_calloc_def)
    next
      case room: False
      then obtain q where q: "rmr_ll_malloc base a (c * n) = (a\<lparr>rmr_freestanding_arena_head := q\<rparr>, Some (base + h))"
        "unat q = h + rounded (unat (c * n))" "arena_ok (a\<lparr>rmr_freestanding_arena_head := q\<rparr>)"
        using malloc_result [OF assms(1), of "c * n" base] z by (auto simp: h_def)
      let ?m = "rmr_freestanding_arena a"
      have n: "unat (c * n) \<le> length (drop h ?m)" using room rounded_ge(1) [of "unat (c * n)"] len by simp
      have fill: "take h ?m @ rmr_memset w big (base + h) (drop h ?m) 0 (unat (c * n)) = buf_write ?m h (replicate (unat (c * n)) 0)"
        unfolding rmr_memset_fills [OF n assms(2)] by (simp add: buf_write_def add.commute)
      have l: "length (buf_write ?m h (replicate (unat (c * n)) 0)) = 65536" using n len room by simp
      have "alloc_step w big base a r = (a\<lparr>rmr_freestanding_arena_head := q,
          rmr_freestanding_arena := buf_write ?m h (replicate (unat (c * n)) 0)\<rparr>, Some (base + h))"
        using Calloc False p(2) q(1) fill by (simp add: rmr_ll_calloc_def Let_def h_def)
      moreover have "request_bytes r \<noteq> 0" using r z by (simp add: unat_eq_zero)
      ultimately show ?thesis
        using room r q(2,3) l Calloc p(1) by (simp add: served_def Let_def arena_ok_def h_def)
    qed
  qed
qed

abbreviation arena_used :: "arena \<Rightarrow> nat" where
  "arena_used a \<equiv> unat (rmr_freestanding_arena_head a)"

text \<open>
  A block starts a multiple of 8 bytes after the arena (so its address is aligned as the address of the arena is)
  and lies between two offsets.
\<close>

definition block_in :: "nat \<Rightarrow> nat \<Rightarrow> nat \<Rightarrow> alloc_request \<times> nat \<Rightarrow> bool" where
  "block_in base lo hi b \<longleftrightarrow> snd b mod 8 = base mod 8 \<and> 0 < request_bytes (fst b) \<and>
     base + lo \<le> snd b \<and> snd b + request_bytes (fst b) \<le> base + hi"

definition block_zero :: "nat \<Rightarrow> bytes \<Rightarrow> alloc_request \<times> nat \<Rightarrow> bool" where
  "block_zero base m b \<longleftrightarrow> (case fst b of Malloc _ \<Rightarrow> True
     | Calloc c n \<Rightarrow> buf_read m (snd b - base) (request_bytes (fst b)) = replicate (request_bytes (fst b)) 0)"

definition before_block :: "alloc_request \<times> nat \<Rightarrow> alloc_request \<times> nat \<Rightarrow> bool" where
  "before_block b b' \<longleftrightarrow> snd b + request_bytes (fst b) \<le> snd b'"

definition run_ok :: "nat \<Rightarrow> arena \<Rightarrow> arena \<times> (alloc_request \<times> nat) list \<Rightarrow> bool" where
  "run_ok base a res \<longleftrightarrow> (case res of (a', bs) \<Rightarrow>
     arena_ok a' \<and> arena_used a' = arena_used a + (\<Sum>b\<leftarrow>bs. rounded (request_bytes (fst b))) \<and>
     (\<forall>b \<in> set bs. block_in base (arena_used a) (arena_used a') b) \<and> sorted_wrt before_block bs \<and>
     take (arena_used a) (rmr_freestanding_arena a') = take (arena_used a) (rmr_freestanding_arena a) \<and>
     (\<forall>b \<in> set bs. block_zero base (rmr_freestanding_arena a') b))"

lemma take_mono_eq: "take n xs = take n ys \<Longrightarrow> m \<le> n \<Longrightarrow> take m xs = take m ys"
  by (metis min.absorb1 take_take)

lemma run_cons:
  assumes a: "arena_ok a" and s: "served a r a1" "arena_ok a1" and nz: "request_bytes r \<noteq> 0"
    and run: "run_ok base a1 (a', bs)"
  shows "run_ok base a (a', (r, base + arena_used a) # bs)"
proof -
  let ?h = "arena_used a" and ?n = "request_bytes r"
  let ?m = "rmr_freestanding_arena a" and ?m1 = "rmr_freestanding_arena a1" and ?m' = "rmr_freestanding_arena a'"
  have h1: "arena_used a1 = ?h + rounded ?n" using s(1) by (simp add: served_def Let_def)
  have m1: "?m1 = (case r of Malloc _ \<Rightarrow> ?m | Calloc _ _ \<Rightarrow> buf_write ?m ?h (replicate ?n 0))"
    using s(1) by (simp add: served_def Let_def)
  have n: "?n \<le> rounded ?n" "?h + rounded ?n \<le> 65536" "length ?m = 65536" "length ?m' = 65536"
    using rounded_ge(1) [of ?n] s(2) h1 a run by (simp_all add: arena_ok_def run_ok_def)
  have r: "arena_used a' = arena_used a1 + (\<Sum>b\<leftarrow>bs. rounded (request_bytes (fst b)))"
    "\<forall>b \<in> set bs. block_in base (arena_used a1) (arena_used a') b" "sorted_wrt before_block bs" "arena_ok a'"
    "take (arena_used a1) ?m' = take (arena_used a1) ?m1" "\<forall>b \<in> set bs. block_zero base ?m' b"
    using run unfolding run_ok_def prod.case by blast+
  have t: "take (?h + ?n) ?m' = take (?h + ?n) ?m1"
    by (rule take_mono_eq [OF r(5)]) (simp add: h1 n(1))
  then have "take ?h ?m' = take ?h ?m1" by (rule take_mono_eq) simp
  moreover have "take ?h ?m1 = take ?h ?m"
    using n by (simp add: m1 buf_write_def split: alloc_request.split)
  moreover have "block_zero base ?m' (r, base + ?h)"
  proof (cases r)
    case (Calloc c k)
    then have b: "?m1 = buf_write ?m ?h (replicate ?n 0)" by (simp add: m1)
    have "buf_read ?m' ?h ?n = drop ?h (take (?h + ?n) ?m')" by (simp add: buf_read_def drop_take)
    also have "\<dots> = replicate ?n 0" unfolding t b using n by (simp add: buf_write_def)
    finally show ?thesis using Calloc by (simp add: block_zero_def)
  qed (simp add: block_zero_def)
  moreover have "block_in base ?h (arena_used a') (r, base + ?h)"
    using a nz n r(1) h1 by (auto simp: block_in_def arena_ok_def elim!: dvdE)
  moreover have "\<forall>b \<in> set bs. block_in base ?h (arena_used a') b \<and> before_block (r, base + ?h) b"
    using r(2) h1 n(1) by (auto simp: block_in_def before_block_def)
  ultimately show ?thesis
    using r h1 by (auto simp: run_ok_def)
qed

lemma run_result: "arena_ok a \<Longrightarrow> w = 8 \<or> w = 4 \<Longrightarrow> run_ok base a (alloc_run w big base a rs)"
proof (induction rs arbitrary: a)
  case Nil
  then show ?case by (simp add: run_ok_def)
next
  case (Cons r rs)
  show ?case
  proof (cases "request_bytes r = 0 \<or> 65536 < arena_used a + rounded (request_bytes r)")
    case True
    then have "alloc_step w big base a r = (a, None)" using step_result [OF Cons.prems, of r] by simp
    then show ?thesis using Cons by simp
  next
    case False
    then obtain a1 where a1: "alloc_step w big base a r = (a1, Some (base + arena_used a))" "arena_ok a1" "served a r a1"
      using step_result [OF Cons.prems, of r big base] by auto
    obtain a' bs where rest: "alloc_run w big base a1 rs = (a', bs)" by fastforce
    have "run_ok base a (a', (r, base + arena_used a) # bs)"
      using run_cons [OF Cons.prems(1) a1(3,2)] False Cons.IH [OF a1(2) Cons.prems(2)] rest by simp
    then show ?thesis using a1(1) rest by simp
  qed
qed

text \<open>
  C20. From a reset of the arena, the blocks served to any sequence of requests lie inside the arena in the order of
  the requests and never overlap, cleared blocks hold zeros and stay so while later blocks are handed
  out, and the head is the sum of the rounded sizes. Every block starts a multiple of 8 bytes after the arena, so
  the blocks are aligned to 8 bytes if and only if the array of the arena is, which its declaration as bytes does not
  ensure. After the sequence a request is served exactly when its size (the product, computed without
  wrap-around, for the array form) is not zero and its rounded size still fits.
\<close>

theorem arena_allocations:
  assumes "length (rmr_freestanding_arena a0) = 65536" "w = 8 \<or> w = 4"
    and "alloc_run w big base (rmr_ll_freestanding_reset_allocator a0) rs = (a, bs)"
  shows "arena_used a = (\<Sum>b\<leftarrow>bs. rounded (request_bytes (fst b))) \<and>
    (\<forall>b \<in> set bs. block_in base 0 65536 b \<and> (8 dvd snd b \<longleftrightarrow> 8 dvd base)) \<and> sorted_wrt before_block bs \<and>
    (\<forall>b \<in> set bs. block_zero base (rmr_freestanding_arena a) b) \<and>
    (snd (alloc_step w big base a r) \<noteq> None) =
      (request_bytes r \<noteq> 0 \<and> arena_used a + rounded (request_bytes r) \<le> 65536)"
proof -
  have "arena_ok (rmr_ll_freestanding_reset_allocator a0)"
    using assms(1) by (simp add: arena_ok_def rmr_ll_freestanding_reset_allocator_def)
  from run_result [OF this assms(2), of base big rs] assms(3)
  have r: "run_ok base (rmr_ll_freestanding_reset_allocator a0) (a, bs)" by simp
  then have ok: "arena_ok a" by (simp add: run_ok_def)
  have "(snd (alloc_step w big base a r) \<noteq> None) = (request_bytes r \<noteq> 0 \<and> arena_used a + rounded (request_bytes r) \<le> 65536)"
    using step_result [OF ok assms(2), of r big base] by (auto split: if_splits)
  moreover have "block_in base 0 65536 b \<and> (8 dvd snd b \<longleftrightarrow> 8 dvd base)" if "b \<in> set bs" for b
    using r ok that by (fastforce simp: run_ok_def rmr_ll_freestanding_reset_allocator_def block_in_def arena_ok_def dvd_eq_mod_eq_0)
  ultimately show ?thesis
    using r by (auto simp: run_ok_def rmr_ll_freestanding_reset_allocator_def)
qed

lemma arena_allocations_witness:
  "\<exists>a bs. alloc_run 8 False 1 (rmr_ll_freestanding_reset_allocator
        \<lparr>rmr_freestanding_arena = replicate 65536 1, rmr_freestanding_arena_head = 40\<rparr>) [Malloc 5, Calloc 3 7, Malloc 0] = (a, bs) \<and>
    sorted_wrt before_block bs \<and> list_all (block_zero 1 (rmr_freestanding_arena a)) bs"
proof -
  obtain a bs where r: "alloc_run 8 False 1 (rmr_ll_freestanding_reset_allocator
        \<lparr>rmr_freestanding_arena = replicate 65536 1, rmr_freestanding_arena_head = 40\<rparr>) [Malloc 5, Calloc 3 7, Malloc 0] = (a, bs)"
    by fastforce
  then show ?thesis using arena_allocations [OF _ _ r] by (auto simp: list_all_iff)
qed

text \<open>The first block of an arena at an odd address is not aligned.\<close>

lemma arena_block_misaligned:
  assumes "length (rmr_freestanding_arena a0) = 65536"
  shows "snd (rmr_ll_malloc 1 (rmr_ll_freestanding_reset_allocator a0) 8) = Some 1"
proof -
  have "arena_ok (rmr_ll_freestanding_reset_allocator a0)"
    using assms by (simp add: arena_ok_def rmr_ll_freestanding_reset_allocator_def)
  from malloc_result [OF this, of 8 1] show ?thesis
    by (auto simp: rounded_def rmr_ll_freestanding_reset_allocator_def)
qed

end
