(* ===== verification/Pai42_Circle.thy ===== *)
theory Pai42_Circle
  imports Complex_Main
begin

text \<open>
  The circle that the tables of \<open>rmr/pai42/src/rmr_pai42.c\<close> round: the points at 42 equal angles to twelve
  decimal places, with a proof that this is what they are. The first angle is \<open>\<pi>/3 - 2\<pi>/7\<close>; the cosine of \<open>2\<pi>/7\<close> is the
  positive root of a cubic, and every point is the one before it turned by the first angle.
\<close>

section \<open>The first angle\<close>

lemma cos_7_root:
  defines "c \<equiv> cos (2 * pi / 7)"
  shows "0 < c" "8 * c ^ 3 + 4 * c ^ 2 - 4 * c - 1 = 0"
proof -
  let ?t = "2 * pi / 7"
  show "0 < c" unfolding c_def by (rule cos_gt_zero) simp_all
  have "4 * ?t = 2 * pi - 3 * ?t" by simp
  then have "cos (4 * ?t) = cos (3 * ?t)" by (metis cos_2pi_minus)
  moreover have "cos (4 * ?t) = 2 * (2 * c ^ 2 - 1) ^ 2 - 1"
    using cos_double_cos [of "2 * ?t"] cos_double_cos [of ?t] by (simp add: c_def)
  moreover have "cos (3 * ?t) = 4 * c ^ 3 - 3 * c" using cos_treble_cos [of ?t] by (simp add: c_def)
  ultimately have "2 * (2 * c ^ 2 - 1) ^ 2 - 1 = 4 * c ^ 3 - 3 * c" by simp
  then have "(c - 1) * (8 * c ^ 3 + 4 * c ^ 2 - 4 * c - 1) = 0" by algebra
  moreover have "c < 1"
  proof -
    have "cos ?t < cos 0" by (rule cos_monotone_0_pi) simp_all
    then show ?thesis by (simp add: c_def)
  qed
  ultimately show "8 * c ^ 3 + 4 * c ^ 2 - 4 * c - 1 = 0" by simp
qed

lemma cubic_less:
  fixes x y :: real
  assumes "1 / 2 < y" "0 < x" "x < y"
  shows "8 * x ^ 3 + 4 * x ^ 2 - 4 * x - 1 < 8 * y ^ 3 + 4 * y ^ 2 - 4 * y - 1"
proof -
  have "1 / 2 * (1 / 2) < y * y" using assms(1) by (intro mult_strict_mono) auto
  then have "1 / 4 < y * y" by simp
  moreover have p: "0 < x * x" "0 < x * y" using assms by simp_all
  ultimately have "1 / 4 < y * y + x * y + x * x" by linarith
  then have "0 < 8 * (y * y + x * y + x * x) + 4 * (x + y) - 4" using assms by simp
  then have "0 < (y - x) * (8 * (y * y + x * y + x * x) + 4 * (x + y) - 4)" using assms(3) by simp
  then show ?thesis by (simp add: power3_eq_cube power2_eq_square algebra_simps)
qed

lemma cos_7_bounds: "62348980185873 / 10 ^ 14 \<le> cos (2 * pi / 7)" "cos (2 * pi / 7) \<le> 62348980185874 / 10 ^ 14"
proof -
  let ?c = "cos (2 * pi / 7)"
  show l: "62348980185873 / 10 ^ 14 \<le> ?c"
  proof (rule ccontr)
    assume "\<not> 62348980185873 / 10 ^ 14 \<le> ?c"
    then have "?c < 62348980185873 / 10 ^ 14" by simp
    from cubic_less [OF _ cos_7_root(1) this] cos_7_root(2) show False by (simp add: power3_eq_cube power2_eq_square)
  qed
  show "?c \<le> 62348980185874 / 10 ^ 14"
  proof (rule ccontr)
    assume "\<not> ?c \<le> 62348980185874 / 10 ^ 14"
    then have "62348980185874 / 10 ^ 14 < ?c" by simp
    moreover have "1 / 2 < ?c" using l by simp
    ultimately show False using cubic_less [of ?c "62348980185874 / 10 ^ 14"] cos_7_root(2) by (simp add: power3_eq_cube power2_eq_square)
  qed
qed

lemma sin_7_bounds: "78183148246800 / 10 ^ 14 \<le> sin (2 * pi / 7)" "sin (2 * pi / 7) \<le> 78183148246805 / 10 ^ 14"
proof -
  let ?c = "cos (2 * pi / 7)" and ?s = "sin (2 * pi / 7)"
  have s: "0 \<le> ?s" by (rule sin_ge_zero) simp_all
  have q: "?s ^ 2 = 1 - ?c ^ 2" by (rule sin_squared_eq)
  have c: "(62348980185873 / 10 ^ 14) ^ 2 \<le> ?c ^ 2" "?c ^ 2 \<le> (62348980185874 / 10 ^ 14) ^ 2"
    using cos_7_bounds cos_7_root(1) by (auto intro!: power_mono)
  show "78183148246800 / 10 ^ 14 \<le> ?s"
    by (rule power2_le_imp_le [OF _ s]) (use q c(2) in \<open>simp add: power2_eq_square\<close>)
  show "?s \<le> 78183148246805 / 10 ^ 14"
    by (rule power2_le_imp_le) (use q c(1) in \<open>simp_all add: power2_eq_square\<close>)
qed

lemma sqrt_3_bounds: "173205080756887 / 10 ^ 14 \<le> sqrt 3" "sqrt 3 \<le> 173205080756888 / 10 ^ 14"
  by (rule real_le_rsqrt, simp add: power2_eq_square) (rule real_le_lsqrt, simp_all add: power2_eq_square)

lemma product_bounds:
  fixes x y :: real
  assumes "a \<le> x" "x \<le> b" "c \<le> y" "y \<le> d" "0 \<le> a" "0 \<le> c"
  shows "a * c \<le> x * y" "x * y \<le> b * d"
  using assms by (auto intro: mult_mono)

definition circle_scale :: real where "circle_scale = 10 ^ 12"

lemma first_point:
  "\<bar>988830826225 - circle_scale * cos (2 * pi / 42)\<bar> \<le> 2" "\<bar>149042266176 - circle_scale * sin (2 * pi / 42)\<bar> \<le> 2"
proof -
  let ?c = "cos (2 * pi / 7)" and ?s = "sin (2 * pi / 7)"
  have a: "2 * pi / 42 = pi / 3 - 2 * pi / 7" by simp
  have c: "cos (2 * pi / 42) = ?c / 2 + sqrt 3 * ?s / 2" and s: "sin (2 * pi / 42) = sqrt 3 * ?c / 2 - ?s / 2"
    unfolding a cos_diff sin_diff cos_60 sin_60 by simp_all
  note rs = product_bounds [OF sqrt_3_bounds sin_7_bounds] and rc = product_bounds [OF sqrt_3_bounds cos_7_bounds]
  show "\<bar>988830826225 - circle_scale * cos (2 * pi / 42)\<bar> \<le> 2"
    using rs cos_7_bounds unfolding c circle_scale_def by (simp add: abs_le_iff)
  show "\<bar>149042266176 - circle_scale * sin (2 * pi / 42)\<bar> \<le> 2"
    using rc sin_7_bounds unfolding s circle_scale_def by (simp add: abs_le_iff)
qed

section \<open>All of them\<close>

definition circle :: "(int \<times> int) list" where
  "circle =
    [(1000000000000, 0), (988830826225, 149042266176), (955572805786, 294755174411),
     (900968867902, 433883739118), (826238774316, 563320058064), (733051871830, 680172737771),
     (623489801859, 781831482468), (500000000000, 866025403784), (365341024366, 930873748644),
     (222520933956, 974927912182), (74730093586, 997203797181), (-74730093586, 997203797181),
     (-222520933956, 974927912182), (-365341024366, 930873748644), (-500000000000, 866025403784),
     (-623489801859, 781831482468), (-733051871830, 680172737771), (-826238774316, 563320058064),
     (-900968867902, 433883739118), (-955572805786, 294755174411), (-988830826225, 149042266176),
     (-1000000000000, 0), (-988830826225, -149042266176), (-955572805786, -294755174411),
     (-900968867902, -433883739118), (-826238774316, -563320058064), (-733051871830, -680172737771),
     (-623489801859, -781831482468), (-500000000000, -866025403784), (-365341024366, -930873748644),
     (-222520933956, -974927912182), (-74730093586, -997203797181), (74730093586, -997203797181),
     (222520933956, -974927912182), (365341024366, -930873748644), (500000000000, -866025403784),
     (623489801859, -781831482468), (733051871830, -680172737771), (826238774316, -563320058064),
     (900968867902, -433883739118), (955572805786, -294755174411), (988830826225, -149042266176)]"

definition turned :: "int \<times> int \<Rightarrow> int \<times> int \<Rightarrow> bool" where
  "turned = (\<lambda>(a, b) (a', b').
     \<bar>a' * 10 ^ 12 - (a * 988830826225 - b * 149042266176)\<bar> \<le> 2 * 10 ^ 12 \<and>
     \<bar>b' * 10 ^ 12 - (a * 149042266176 + b * 988830826225)\<bar> \<le> 2 * 10 ^ 12)"

fun all_turned :: "(int \<times> int) list \<Rightarrow> bool" where
  "all_turned (p # q # ps) \<longleftrightarrow> turned p q \<and> all_turned (q # ps)"
| "all_turned ps \<longleftrightarrow> True"

lemma all_turned_nth: "all_turned ps \<Longrightarrow> Suc k < length ps \<Longrightarrow> turned (ps ! k) (ps ! Suc k)"
  by (induction ps arbitrary: k rule: all_turned.induct) (auto simp: nth_Cons split: nat.splits)

lemma circle_turned: "all_turned circle" "length circle = 42" "circle ! 0 = (10 ^ 12, 0)"
  by (simp_all add: circle_def turned_def)

definition point :: "nat \<Rightarrow> complex" where
  "point k = Complex (real_of_int (fst (circle ! k))) (real_of_int (snd (circle ! k)))"

definition unit_turn :: complex where "unit_turn = cis (2 * pi / 42)"

definition first_approx :: complex where "first_approx = Complex 988830826225 149042266176"

lemma first_approx: "cmod (first_approx - circle_scale * unit_turn) \<le> 4" "cmod first_approx \<le> circle_scale"
proof -
  have "cmod (first_approx - circle_scale * unit_turn) \<le>
      \<bar>Re (first_approx - circle_scale * unit_turn)\<bar> + \<bar>Im (first_approx - circle_scale * unit_turn)\<bar>" by (rule cmod_le)
  then show "cmod (first_approx - circle_scale * unit_turn) \<le> 4"
    using first_point by (simp add: first_approx_def unit_turn_def)
  show "cmod first_approx \<le> circle_scale"
    unfolding cmod_def first_approx_def circle_scale_def by (rule real_le_lsqrt) (simp_all add: power2_eq_square)
qed

lemma point_step:
  assumes "Suc k < 42"
  shows "cmod (circle_scale * point (Suc k) - point k * first_approx) \<le> 4 * circle_scale"
proof -
  obtain a b a' b' where p: "circle ! k = (a, b)" "circle ! Suc k = (a', b')" by (metis prod.exhaust)
  have "turned (a, b) (a', b')" using all_turned_nth [OF circle_turned(1), of k] assms circle_turned(2) p by simp
  then have "\<bar>real_of_int (a' * 10 ^ 12 - (a * 988830826225 - b * 149042266176))\<bar> \<le> real_of_int (2 * 10 ^ 12)"
    "\<bar>real_of_int (b' * 10 ^ 12 - (a * 149042266176 + b * 988830826225))\<bar> \<le> real_of_int (2 * 10 ^ 12)"
    unfolding turned_def prod.case of_int_abs [symmetric] of_int_le_iff by blast+
  then have t: "\<bar>Re (circle_scale * point (Suc k) - point k * first_approx)\<bar> \<le> 2 * circle_scale"
    "\<bar>Im (circle_scale * point (Suc k) - point k * first_approx)\<bar> \<le> 2 * circle_scale"
    by (simp_all add: point_def first_approx_def circle_scale_def p algebra_simps)
  then show ?thesis using cmod_le [of "circle_scale * point (Suc k) - point k * first_approx"] by linarith
qed

lemma point_near: "k < 42 \<Longrightarrow> cmod (point k - circle_scale * unit_turn ^ k) \<le> 8 * real k"
proof (induction k)
  case 0
  then show ?case by (simp add: point_def circle_turned(3) circle_scale_def complex_eq_iff)
next
  case (Suc k)
  let ?S = "complex_of_real circle_scale" and ?e = "point k - circle_scale * unit_turn ^ k"
  have S: "0 < circle_scale" by (simp add: circle_scale_def)
  have "?S * (point (Suc k) - ?S * unit_turn ^ Suc k) =
      (?S * point (Suc k) - point k * first_approx) + ?e * first_approx + ?S * unit_turn ^ k * (first_approx - ?S * unit_turn)"
    by (simp add: algebra_simps)
  then have "cmod (?S * (point (Suc k) - ?S * unit_turn ^ Suc k)) \<le>
      cmod (?S * point (Suc k) - point k * first_approx) + cmod (?e * first_approx) +
      cmod (?S * unit_turn ^ k * (first_approx - ?S * unit_turn))"
    by (simp only:) (rule order_trans [OF norm_triangle_ineq add_right_mono [OF norm_triangle_ineq]])
  also have "\<dots> \<le> 4 * circle_scale + 8 * real k * circle_scale + circle_scale * 4"
  proof (intro add_mono)
    show "cmod (?S * point (Suc k) - point k * first_approx) \<le> 4 * circle_scale" using point_step [of k] Suc.prems by simp
    show "cmod (?e * first_approx) \<le> 8 * real k * circle_scale"
      unfolding norm_mult using Suc first_approx(2) by (intro mult_mono) auto
    show "cmod (?S * unit_turn ^ k * (first_approx - ?S * unit_turn)) \<le> circle_scale * 4"
      using first_approx(1) S by (simp add: norm_mult norm_power unit_turn_def)
  qed
  finally have "circle_scale * cmod (point (Suc k) - ?S * unit_turn ^ Suc k) \<le> circle_scale * (8 * real (Suc k))"
    unfolding norm_mult norm_of_real using S by (simp add: distrib_left mult.commute [of _ circle_scale])
  then show ?case using S by simp
qed

lemma circle_points:
  assumes "k < 42"
  shows "\<bar>real_of_int (fst (circle ! k)) - circle_scale * cos (2 * pi * real k / 42)\<bar> \<le> 336"
    "\<bar>real_of_int (snd (circle ! k)) - circle_scale * sin (2 * pi * real k / 42)\<bar> \<le> 336"
proof -
  have u: "unit_turn ^ k = cis (2 * pi * real k / 42)"
    by (simp add: unit_turn_def DeMoivre mult.commute)
  have n: "cmod (point k - circle_scale * unit_turn ^ k) \<le> 336" using point_near [OF assms] assms by simp
  show "\<bar>real_of_int (fst (circle ! k)) - circle_scale * cos (2 * pi * real k / 42)\<bar> \<le> 336"
    using order_trans [OF abs_Re_le_cmod n] by (simp add: u point_def)
  show "\<bar>real_of_int (snd (circle ! k)) - circle_scale * sin (2 * pi * real k / 42)\<bar> \<le> 336"
    using order_trans [OF abs_Im_le_cmod n] by (simp add: u point_def)
qed

end
