(* ===== verification/Pai42.thy ===== *)
theory Pai42
  imports Prelude Pai42_Circle
begin

text \<open>
  The projection of 42 cycle counts of \<open>rmr/pai42/src/rmr_pai42.c\<close>: the fixed-point ratio without
  wide multiplication, the construction of an observation, its validation, and the place on the circle of every cycle.
\<close>

section \<open>Data\<close>

definition RMR_PAI42_COUNT :: nat where "RMR_PAI42_COUNT = 42"
definition RMR_PAI42_Q16_ONE :: u32 where "RMR_PAI42_Q16_ONE = 65536"
definition RMR_PAI42_VERSION :: u32 where "RMR_PAI42_VERSION = 1"

record rmr_pai42_observation =
  o_version :: u32
  o_count :: u32
  o_hw_sig64 :: u64
  o_min_cycle :: u64
  o_max_cycle :: u64
  o_mean_radius_q16 :: u32
  o_variance_q16 :: u32
  o_symmetry_q16 :: u32
  o_stability_q16 :: u32
  o_prototype_score_q16 :: u32
  o_radius_q16 :: words
  o_x_q16 :: words
  o_y_q16 :: words

text \<open>The tables hold signed 32-bit values.\<close>

definition RMR_PAI42_COS_Q16 :: words where
  "RMR_PAI42_COS_Q16 = map word_of_int
    [65536, 64804, 62624, 59046, 54148, 48041, 40861,
     32768, 23943, 14583, 4898, -4898, -14583, -23943,
     -32768, -40861, -48041, -54148, -59046, -62624, -64804,
     -65536, -64804, -62624, -59046, -54148, -48041, -40861,
     -32768, -23943, -14583, -4898, 4898, 14583, 23943,
     32768, 40861, 48041, 54148, 59046, 62624, 64804]"

definition RMR_PAI42_SIN_Q16 :: words where
  "RMR_PAI42_SIN_Q16 = map word_of_int
    [0, 9768, 19317, 28435, 36918, 44576, 51238,
     56756, 61006, 63893, 65353, 65353, 63893, 61006,
     56756, 51238, 44576, 36918, 28435, 19317, 9768,
     0, -9768, -19317, -28435, -36918, -44576, -51238,
     -56756, -61006, -63893, -65353, -65353, -63893, -61006,
     -56756, -51238, -44576, -36918, -28435, -19317, -9768]"

section \<open>Arithmetic\<close>

definition rmr_pai42_abs_diff_u32 :: "u32 \<Rightarrow> u32 \<Rightarrow> u32" where
  "rmr_pai42_abs_diff_u32 a b = (if a \<ge> b then a - b else b - a)"

definition rmr_pai42_clamp_q16 :: "u64 \<Rightarrow> u32" where
  "rmr_pai42_clamp_q16 value =
    (if value > ucast RMR_PAI42_Q16_ONE then RMR_PAI42_Q16_ONE else ucast value)"

text \<open>The loop of the ratio with \<open>k\<close> rounds left.\<close>

fun ratio_loop :: "u64 \<Rightarrow> u64 \<Rightarrow> u32 \<Rightarrow> nat \<Rightarrow> u32" where
  "ratio_loop numerator denominator quo 0 = quo"
| "ratio_loop numerator denominator quo (Suc k) =
    (let quo = push_bit 1 quo
     in if numerator \<ge> denominator - numerator
        then ratio_loop (numerator - (denominator - numerator)) denominator (quo OR 1) k
        else ratio_loop (numerator + numerator) denominator quo k)"

definition rmr_pai42_ratio_q16 :: "u64 \<Rightarrow> u64 \<Rightarrow> u32" where
  "rmr_pai42_ratio_q16 numerator denominator =
    (if denominator = 0 then RMR_PAI42_Q16_ONE div 2
     else if numerator \<ge> denominator then RMR_PAI42_Q16_ONE
     else ratio_loop numerator denominator 0 16)"

section \<open>Observation\<close>

definition rmr_pai42_validate :: "rmr_pai42_observation option \<Rightarrow> bool" where
  "rmr_pai42_validate obs =
    (case obs of
       None \<Rightarrow> False
     | Some x \<Rightarrow>
         if o_version x \<noteq> RMR_PAI42_VERSION then False
         else if o_count x \<noteq> of_nat RMR_PAI42_COUNT then False
         else if o_min_cycle x > o_max_cycle x then False
         else if o_mean_radius_q16 x > RMR_PAI42_Q16_ONE then False
         else if o_variance_q16 x > RMR_PAI42_Q16_ONE then False
         else if o_symmetry_q16 x > RMR_PAI42_Q16_ONE then False
         else if o_stability_q16 x > RMR_PAI42_Q16_ONE then False
         else if o_prototype_score_q16 x > RMR_PAI42_Q16_ONE then False
         else if \<exists>i\<in>set [0..<RMR_PAI42_COUNT]. o_radius_q16 x ! i > RMR_PAI42_Q16_ONE then False
         else True)"

definition min_max_step :: "u64 list \<Rightarrow> u64 \<times> u64 \<Rightarrow> nat \<Rightarrow> u64 \<times> u64" where
  "min_max_step cycles = (\<lambda>(min_cycle, max_cycle) i.
    (if cycles ! i < min_cycle then cycles ! i else min_cycle,
     if cycles ! i > max_cycle then cycles ! i else max_cycle))"

definition pai42_radius :: "u64 list \<Rightarrow> u64 \<Rightarrow> u64 \<Rightarrow> nat \<Rightarrow> u32" where
  "pai42_radius cycles min_cycle span' i =
    (if span' = 0 then RMR_PAI42_Q16_ONE div 2
     else let delta = cycles ! i - min_cycle in rmr_pai42_ratio_q16 delta span')"

text \<open>\<open>(int32_t)(((int64_t)t * radius) >> 16)\<close>; the shift of a signed value is arithmetic.\<close>

definition pai42_project :: "u32 \<Rightarrow> u32 \<Rightarrow> u32" where
  "pai42_project t radius = ucast (signed_drop_bit 16 (scast t * ucast radius :: 64 word))"

definition pai42_point ::
  "u64 list \<Rightarrow> u64 \<Rightarrow> u64 \<Rightarrow> rmr_pai42_observation \<times> u64 \<Rightarrow> nat \<Rightarrow> rmr_pai42_observation \<times> u64" where
  "pai42_point cycles min_cycle span' = (\<lambda>(out, sum_radius) i.
    let radius = pai42_radius cycles min_cycle span' i
    in (out\<lparr>o_radius_q16 := (o_radius_q16 out)[i := radius],
            o_x_q16 := (o_x_q16 out)[i := pai42_project (RMR_PAI42_COS_Q16 ! i) radius],
            o_y_q16 := (o_y_q16 out)[i := pai42_project (RMR_PAI42_SIN_Q16 ! i) radius]\<rparr>,
        sum_radius + ucast radius))"

definition rmr_pai42_build ::
  "u64 \<Rightarrow> u64 list option \<Rightarrow> rmr_pai42_observation option \<Rightarrow> rmr_pai42_observation option \<times> int" where
  "rmr_pai42_build hw_sig64 cycles out =
    (if cycles = None \<or> out = None then (out, -1)
     else
       let cycles = the cycles; out = the out;
           (min_cycle, max_cycle) = foldl (min_max_step cycles) (cycles ! 0, cycles ! 0) [1..<RMR_PAI42_COUNT];
           span' = max_cycle - min_cycle;
           out = out\<lparr>o_version := RMR_PAI42_VERSION, o_count := of_nat RMR_PAI42_COUNT,
                     o_hw_sig64 := hw_sig64, o_min_cycle := min_cycle, o_max_cycle := max_cycle\<rparr>;
           (out, sum_radius) = foldl (pai42_point cycles min_cycle span') (out, 0) [0..<RMR_PAI42_COUNT];
           mean_radius = ucast (sum_radius div of_nat RMR_PAI42_COUNT);
           out = out\<lparr>o_mean_radius_q16 := mean_radius\<rparr>;
           sum_squared = foldl (\<lambda>s i.
             let deviation = rmr_pai42_abs_diff_u32 (o_radius_q16 out ! i) mean_radius
             in s + ucast deviation * ucast deviation) (0 :: u64) [0..<RMR_PAI42_COUNT];
           sum_opposite = foldl (\<lambda>s i.
             s + ucast (rmr_pai42_abs_diff_u32 (o_radius_q16 out ! i)
                          (o_radius_q16 out ! (i + RMR_PAI42_COUNT div 2)))) (0 :: u64)
             [0..<RMR_PAI42_COUNT div 2];
           out = out\<lparr>o_variance_q16 := rmr_pai42_clamp_q16
             (sum_squared div (of_nat RMR_PAI42_COUNT * ucast RMR_PAI42_Q16_ONE))\<rparr>;
           out = out\<lparr>o_symmetry_q16 := RMR_PAI42_Q16_ONE -
             rmr_pai42_clamp_q16 (sum_opposite div of_nat (RMR_PAI42_COUNT div 2))\<rparr>;
           out = out\<lparr>o_stability_q16 := RMR_PAI42_Q16_ONE - o_variance_q16 out\<rparr>;
           out = out\<lparr>o_prototype_score_q16 := ucast
             ((55 * ucast (o_symmetry_q16 out) + 45 * ucast (o_stability_q16 out) :: u64) div 100)\<rparr>
       in (Some out, if rmr_pai42_validate (Some out) then 0 else -2))"

section \<open>The ratio\<close>

text \<open>Doubling a remainder below \<open>d\<close> without leaving 64 bits.\<close>

lemma double_step:
  fixes n d :: u64
  assumes "n < d"
  shows "(d - n \<le> n) = (unat d \<le> 2 * unat n)"
    "d - n \<le> n \<Longrightarrow> unat (n - (d - n)) = 2 * unat n - unat d"
    "\<not> d - n \<le> n \<Longrightarrow> unat (n + n) = 2 * unat n"
proof -
  have lt: "unat n < unat d" using assms by (simp add: word_less_nat_alt)
  have dn: "unat (d - n) = unat d - unat n"
    using assms by (simp add: unat_sub_if' less_imp_le word_le_nat_alt [symmetric])
  show c: "(d - n \<le> n) = (unat d \<le> 2 * unat n)"
    using lt by (auto simp: word_le_nat_alt dn)
  show "unat (n - (d - n)) = 2 * unat n - unat d" if "d - n \<le> n"
    using that lt unfolding unat_sub_if' [of n "d - n"] dn by (simp add: word_le_nat_alt dn)
  show "unat (n + n) = 2 * unat n" if "\<not> d - n \<le> n"
  proof -
    have "2 * unat n < unat d" using that c by simp
    moreover have "unat d < 2 ^ LENGTH(64)" by (rule unsigned_less)
    ultimately have "unat n + unat n < 2 ^ LENGTH(64)" by linarith
    then show ?thesis using unat_add_lem [of n n] by simp
  qed
qed

lemma double_quotient:
  "q < 2 ^ 31 \<Longrightarrow> unat (push_bit 1 q) = 2 * unat q" "q < 2 ^ 31 \<Longrightarrow> unat (push_bit 1 q OR 1) = 2 * unat q + 1"
  for q :: u32
proof -
  assume q: "q < 2 ^ 31"
  then have u: "unat q < 2 ^ 31" by (simp add: word_less_nat_alt)
  show 1: "unat (push_bit 1 q) = 2 * unat q"
    using u by (simp add: push_bit_eq_mult unat_mult_lem [THEN iffD1] mult.commute unat_word_ariths)
  have "push_bit 1 q OR 1 = push_bit 1 q + 1"
    by (rule disjunctive_add [symmetric]) (metis bit_1_iff bit_push_bit_iff not_one_le_zero)
  moreover have "unat (push_bit 1 q + 1) = unat (push_bit 1 q) + 1"
    using 1 u by (simp add: unat_word_ariths)
  ultimately show "unat (push_bit 1 q OR 1) = 2 * unat q + 1" using 1 by simp
qed

lemma div_double:
  fixes N D :: nat
  assumes "r = N mod D" "0 < D"
  shows "2 * N div D = 2 * (N div D) + (if D \<le> 2 * r then 1 else 0)"
    "2 * N mod D = (if D \<le> 2 * r then 2 * r - D else 2 * r)"
proof -
  have r: "r < D" using assms by simp
  have "2 * N = 2 * (N div D) * D + 2 * r" using assms(1) by (metis distrib_left div_mult_mod_eq mult.assoc)
  then have N: "2 * N = 2 * r + 2 * (N div D) * D" by simp
  have "2 * N div D = 2 * (N div D) + 2 * r div D" unfolding N using assms(2) by simp
  moreover have "2 * r div D = (if D \<le> 2 * r then 1 else 0)" using r by (simp add: le_div_geq)
  ultimately show "2 * N div D = 2 * (N div D) + (if D \<le> 2 * r then 1 else 0)" by simp
  have "2 * N mod D = 2 * r mod D" unfolding N by simp
  then show "2 * N mod D = (if D \<le> 2 * r then 2 * r - D else 2 * r)"
    using r by (simp add: le_mod_geq)
qed

lemma ratio_loop_floor:
  assumes "unat n = N mod D" "unat d = D" "0 < D" "unat q = N div D" "N div D < 2 ^ j" "j + k \<le> 31"
  shows "unat (ratio_loop n d q k) = N * 2 ^ k div D"
  using assms
proof (induction k arbitrary: n q N j)
  case (Suc k)
  have n: "n < d" using Suc.prems by (simp add: word_less_nat_alt)
  have "(2 :: nat) ^ j \<le> 2 ^ 31" using Suc.prems(6) by (intro power_increasing) simp_all
  then have "N div D < 2 ^ 31" using Suc.prems(5) by linarith
  then have q: "q < 2 ^ 31" using Suc.prems(4) by (simp add: word_less_nat_alt)
  note s = double_step [OF n] double_quotient [OF q] div_double [OF Suc.prems(1,3)]
  have b: "2 * N div D < 2 ^ Suc j" using s(6) Suc.prems(5) by simp
  show ?case
  proof (cases "d - n \<le> n")
    case True
    have "unat (ratio_loop (n - (d - n)) d (push_bit 1 q OR 1) k) = (2 * N) * 2 ^ k div D"
      using True s Suc.prems by (intro Suc.IH [OF _ _ _ _ b]) simp_all
    then show ?thesis using True by (simp add: mult_ac)
  next
    case False
    have "unat (ratio_loop (n + n) d (push_bit 1 q) k) = (2 * N) * 2 ^ k div D"
      using False s Suc.prems by (intro Suc.IH [OF _ _ _ _ b]) simp_all
    then show ?thesis using False by (simp add: mult_ac)
  qed
qed simp

lemma ratio_floor:
  "num < den \<Longrightarrow> unat (rmr_pai42_ratio_q16 num den) = unat num * 65536 div unat den"
proof -
  assume "num < den"
  then have lt: "unat num < unat den" by (simp add: word_less_nat_alt)
  have "unat (ratio_loop num den 0 16) = unat num * 2 ^ 16 div unat den"
    using lt by (intro ratio_loop_floor [where j = 0]) simp_all
  moreover have "den \<noteq> 0" using lt by auto
  moreover have "(den \<le> num) = False" using \<open>num < den\<close> by (simp add: not_le)
  ultimately show ?thesis by (simp add: rmr_pai42_ratio_q16_def)
qed

lemma pai42_ratio_exact':
  "unat (rmr_pai42_ratio_q16 num den) =
    (if den = 0 then 32768 else min 65536 (unat num * 65536 div unat den))"
proof (cases "den = 0")
  case True
  then show ?thesis by (simp add: rmr_pai42_ratio_q16_def RMR_PAI42_Q16_ONE_def)
next
  case False
  then have d: "0 < unat den" by (simp add: unat_gt_0)
  have "unat (rmr_pai42_ratio_q16 num den) = min 65536 (unat num * 65536 div unat den)"
  proof (cases "num < den")
    case True
    then have "unat num < unat den" by (simp add: word_less_nat_alt)
    then have "unat num * 65536 div unat den < 65536" using d by (simp add: less_mult_imp_div_less mult.commute)
    then show ?thesis by (simp add: ratio_floor [OF True] min_def)
  next
    case ge: False
    then have "unat den * 65536 \<le> unat num * 65536" by (simp add: word_le_nat_alt not_less)
    then have "65536 \<le> unat num * 65536 div unat den"
      using d by (metis div_le_mono nonzero_mult_div_cancel_left less_numeral_extra(3))
    moreover have "den \<le> num" using ge by (simp add: not_less)
    ultimately show ?thesis using False by (simp add: rmr_pai42_ratio_q16_def RMR_PAI42_Q16_ONE_def)
  qed
  then show ?thesis using False by simp
qed

text \<open>
  The ratio in 16-bit fixed point, computed by sixteen doublings inside 64 bits, is the exact
  floor of the quotient for every pair of 64-bit numbers, one for a numerator at or above the
  denominator and a half for a zero denominator; it never exceeds one.
\<close>

theorem pai42_ratio_exact:
  "unat (rmr_pai42_ratio_q16 num den) =
    (if den = 0 then 32768 else min 65536 (unat num * 65536 div unat den)) \<and>
   rmr_pai42_ratio_q16 num den \<le> RMR_PAI42_Q16_ONE"
  by (simp add: word_le_nat_alt pai42_ratio_exact' RMR_PAI42_Q16_ONE_def)

section \<open>The observation\<close>

text \<open>The quantities of an observation over natural numbers.\<close>

definition pai_min :: "u64 list \<Rightarrow> nat" where "pai_min cs = Min (unat ` set cs)"
definition pai_max :: "u64 list \<Rightarrow> nat" where "pai_max cs = Max (unat ` set cs)"

definition pai_radius :: "u64 list \<Rightarrow> nat \<Rightarrow> nat" where
  "pai_radius cs i =
    (if pai_max cs = pai_min cs then 32768 else (unat (cs ! i) - pai_min cs) * 65536 div (pai_max cs - pai_min cs))"

definition pai_mean :: "u64 list \<Rightarrow> nat" where
  "pai_mean cs = (\<Sum>i\<leftarrow>[0..<42]. pai_radius cs i) div 42"

definition nat_diff :: "nat \<Rightarrow> nat \<Rightarrow> nat" where
  "nat_diff a b = (if b \<le> a then a - b else b - a)"

definition pai_variance :: "u64 list \<Rightarrow> nat" where
  "pai_variance cs = min 65536 ((\<Sum>i\<leftarrow>[0..<42]. nat_diff (pai_radius cs i) (pai_mean cs) ^ 2) div (42 * 65536))"

definition pai_symmetry :: "u64 list \<Rightarrow> nat" where
  "pai_symmetry cs = 65536 - min 65536 ((\<Sum>i\<leftarrow>[0..<21]. nat_diff (pai_radius cs i) (pai_radius cs (i + 21))) div 21)"

lemma foldl_unat_sum:
  assumes "\<And>i. i \<in> set is \<Longrightarrow> unat (f i) \<le> B" "unat a + length is * B < 2 ^ 64"
  shows "unat (foldl (\<lambda>s i. s + f i) (a :: u64) is) = unat a + (\<Sum>i\<leftarrow>is. unat (f i))"
  using assms
proof (induction "is" arbitrary: a)
  case (Cons i js)
  have "unat a + unat (f i) < 2 ^ LENGTH(64)" using Cons.prems(1) [of i] Cons.prems(2) by simp
  then have u: "unat (a + f i) = unat a + unat (f i)" using unat_add_lem by blast
  have "unat (a + f i) + length js * B < 2 ^ 64" using Cons.prems(1) [of i] Cons.prems(2) by (simp add: u)
  then show ?case
    using Cons.IH [of "a + f i"] Cons.prems(1) by (simp add: u)
qed simp

lemma foldl_sum_exact:
  assumes "\<And>i. i \<in> set is \<Longrightarrow> unat (f i) = g i" "\<And>i. i \<in> set is \<Longrightarrow> g i \<le> B" "length is * B < 2 ^ 64"
  shows "unat (foldl (\<lambda>s i. s + f i) (0 :: u64) is) = (\<Sum>i\<leftarrow>is. g i)"
proof -
  have "(\<Sum>i\<leftarrow>is. unat (f i)) = (\<Sum>i\<leftarrow>is. g i)"
    using assms(1) by (intro arg_cong [of _ _ sum_list] map_cong) simp_all
  then show ?thesis using foldl_unat_sum [of "is" f B 0] assms by simp
qed

lemma min_max_step_eq: "min_max_step cs (m, M) i = (min (cs ! i) m, max (cs ! i) M)"
  by (auto simp: min_max_step_def min_def max_def)

lemma min_max_fold:
  assumes "cs \<noteq> []"
  shows "foldl (min_max_step cs) (cs ! 0, cs ! 0) [1..<length cs] = (Min (set cs), Max (set cs))"
proof -
  have "foldl (min_max_step cs) (cs ! 0, cs ! 0) [1..<Suc k] = (Min (set (take (Suc k) cs)), Max (set (take (Suc k) cs)))"
    if "k < length cs" for k
    using that
  proof (induction k)
    case 0
    then show ?case using assms by (cases cs) simp_all
  next
    case (Suc k)
    let ?t = "set (take (Suc k) cs)"
    have "?t \<noteq> {}" using assms by (cases cs) simp_all
    moreover have "set (take (Suc (Suc k)) cs) = insert (cs ! Suc k) ?t"
      using Suc.prems by (subst take_Suc_conv_app_nth) simp_all
    moreover have "foldl (min_max_step cs) (cs ! 0, cs ! 0) [1..<Suc (Suc k)] =
        min_max_step cs (foldl (min_max_step cs) (cs ! 0, cs ! 0) [1..<Suc k]) (Suc k)" by simp
    ultimately show ?case
      using Suc by (simp add: min_max_step_eq)
  qed
  from this [of "length cs - 1"] show ?thesis using assms by (cases cs) simp_all
qed

lemma fill_step: "k < length a \<Longrightarrow> (map f [0..<k] @ drop k a)[k := f k] = map f [0..<Suc k] @ drop (Suc k) a"
  by (simp add: list_update_append Cons_nth_drop_Suc [symmetric])

lemma points_fold:
  assumes r: "r = pai42_radius cs mn sp" and "length (o_radius_q16 o0) = 42" "length (o_x_q16 o0) = 42" "length (o_y_q16 o0) = 42" "k \<le> 42"
  shows "foldl (pai42_point cs mn sp) (o0, 0) [0..<k] =
    (o0\<lparr>o_radius_q16 := map r [0..<k] @ drop k (o_radius_q16 o0),
        o_x_q16 := map (\<lambda>i. pai42_project (RMR_PAI42_COS_Q16 ! i) (r i)) [0..<k] @ drop k (o_x_q16 o0),
        o_y_q16 := map (\<lambda>i. pai42_project (RMR_PAI42_SIN_Q16 ! i) (r i)) [0..<k] @ drop k (o_y_q16 o0)\<rparr>,
     foldl (\<lambda>s i. s + ucast (r i)) 0 [0..<k])"
  using assms(5)
proof (induction k)
  case 0
  then show ?case by simp
next
  case (Suc k)
  then show ?case
    using assms(2-4)
    by (simp add: pai42_point_def Let_def r [symmetric] fill_step del: upt_Suc)
       (simp add: upt_Suc pai42_point_def Let_def r [symmetric] list_update_append Cons_nth_drop_Suc [symmetric])
qed

lemma unat_ucast_32_64 [simp]: "unat (ucast (w :: u32) :: u64) = unat w"
proof -
  have "unat w < 2 ^ LENGTH(32)" by (rule unsigned_less)
  then show ?thesis by (simp add: unsigned_ucast_eq take_bit_nat_eq_self)
qed

lemma unat_abs_diff: "unat (rmr_pai42_abs_diff_u32 a b) = nat_diff (unat a) (unat b)"
  by (simp add: rmr_pai42_abs_diff_u32_def nat_diff_def word_le_nat_alt unat_sub_if')

lemma unat_clamp: "unat (rmr_pai42_clamp_q16 v) = min 65536 (unat v)"
proof -
  have "unat (ucast v :: u32) = unat v" if "unat v \<le> 65536"
    using that by (simp add: unsigned_ucast_eq take_bit_nat_eq_self)
  then show ?thesis
    by (auto simp: rmr_pai42_clamp_q16_def RMR_PAI42_Q16_ONE_def word_less_nat_alt min_def)
qed

lemma unat_Min_Max:
  assumes "cs \<noteq> []"
  shows "unat (Min (set cs)) = pai_min cs" "unat (Max (set cs)) = pai_max cs"
proof -
  have m: "mono (unat :: u64 \<Rightarrow> nat)" by (rule monoI) (simp add: word_le_nat_alt)
  show "unat (Min (set cs)) = pai_min cs" "unat (Max (set cs)) = pai_max cs"
    using assms mono_Min_commute [OF m] mono_Max_commute [OF m] by (simp_all add: pai_min_def pai_max_def)
qed

lemma radius_nat:
  assumes "length cs = 42" "i < 42"
  shows "unat (pai42_radius cs (Min (set cs)) (Max (set cs) - Min (set cs)) i) = pai_radius cs i"
    "pai_radius cs i \<le> 65536"
proof -
  let ?mn = "Min (set cs)" and ?mx = "Max (set cs)"
  have ne: "cs \<noteq> []" using assms(1) by auto
  have mem: "cs ! i \<in> set cs" using assms by simp
  have "?mn \<le> cs ! i" "cs ! i \<le> ?mx" using mem by simp_all
  then have le: "?mn \<le> cs ! i" "cs ! i \<le> ?mx" "?mn \<le> ?mx" by (auto intro: order_trans)
  have u: "unat (cs ! i - ?mn) = unat (cs ! i) - pai_min cs" "unat (?mx - ?mn) = pai_max cs - pai_min cs"
    "unat (cs ! i) - pai_min cs \<le> pai_max cs - pai_min cs" "pai_min cs \<le> pai_max cs"
    using le unfolding unat_Min_Max [OF ne, symmetric] by (simp_all add: unat_sub_if' word_le_nat_alt)
  have z: "(?mx - ?mn = 0) = (pai_max cs = pai_min cs)"
    using u(2,4) by (auto simp: word_unat_eq_iff)
  have bound: "a * 65536 div b \<le> 65536" if "a \<le> b" for a b :: nat
    using div_le_mono [of "a * 65536" "b * 65536" b] that by (cases "b = 0") simp_all
  show "pai_radius cs i \<le> 65536"
    using bound [OF u(3)] by (simp add: pai_radius_def)
  show "unat (pai42_radius cs ?mn (?mx - ?mn) i) = pai_radius cs i"
  proof (cases "pai_max cs = pai_min cs")
    case True
    then show ?thesis using z by (simp add: pai42_radius_def pai_radius_def RMR_PAI42_Q16_ONE_def)
  next
    case False
    then have "\<not> ?mx - ?mn = 0" using z by simp
    then show ?thesis
      using bound [OF u(3)] False
      by (simp add: pai42_radius_def pai_radius_def Let_def pai42_ratio_exact' u)
  qed
qed

lemma pai_spec_bounds:
  assumes "length cs = 42"
  shows "(\<Sum>i\<leftarrow>[0..<42]. pai_radius cs i) \<le> 42 * 65536" "pai_mean cs \<le> 65536" "pai_variance cs \<le> 65536"
    "pai_symmetry cs \<le> 65536"
proof -
  have "(\<Sum>i\<leftarrow>[0..<42]. pai_radius cs i) \<le> (\<Sum>i\<leftarrow>[0..<42 :: nat]. 65536)"
    using radius_nat(2) [OF assms] by (intro sum_list_mono) auto
  then show s: "(\<Sum>i\<leftarrow>[0..<42]. pai_radius cs i) \<le> 42 * 65536"
    by (simp add: sum_list_triv del: upt_rec_numeral)
  show "pai_mean cs \<le> 65536"
    using div_le_mono [OF s, of 42] by (simp add: pai_mean_def del: upt_rec_numeral)
qed (simp_all add: pai_variance_def pai_symmetry_def)

lemma square_bound: "n \<le> 65536 \<Longrightarrow> n ^ 2 \<le> (4294967296 :: nat)"
  using power_mono [of n 65536 2] by simp

lemma unat_deviation_square:
  fixes w :: u32
  assumes "unat w \<le> 65536"
  shows "unat (ucast w * ucast w :: u64) = unat w ^ 2"
proof -
  have "unat (ucast w :: u64) * unat (ucast w :: u64) < 2 ^ LENGTH(64)"
    using square_bound [OF assms] by (simp add: power2_eq_square)
  then show "unat (ucast w * ucast w :: u64) = unat w ^ 2"
    using unat_mult_lem [of "ucast w :: u64" "ucast w"] by (simp add: power2_eq_square)
qed

lemma nat_diff_bound: "a \<le> B \<Longrightarrow> b \<le> B \<Longrightarrow> nat_diff a b \<le> B"
  by (auto simp: nat_diff_def)

text \<open>The radii the code computes, and each of the figures that follow from them.\<close>

abbreviation code_radius :: "u64 list \<Rightarrow> nat \<Rightarrow> u32" where
  "code_radius cs \<equiv> pai42_radius cs (Min (set cs)) (Max (set cs) - Min (set cs))"

lemma pai_mean_exact:
  assumes "length cs = 42"
  shows "unat (ucast (foldl (\<lambda>s i. s + ucast (code_radius cs i)) 0 [0..<42] div 42 :: u64) :: u32) = pai_mean cs"
proof -
  let ?sum = "foldl (\<lambda>s i. s + ucast (code_radius cs i)) 0 [0..<42] :: u64"
  have "unat ?sum = (\<Sum>i\<leftarrow>[0..<42]. pai_radius cs i)"
    by (rule foldl_sum_exact [where B = 65536]) (use radius_nat [OF assms] in \<open>simp_all del: upt_rec_numeral\<close>)
  then have "unat (?sum div 42) = pai_mean cs" by (simp add: unat_div_distrib pai_mean_def)
  then show ?thesis using pai_spec_bounds(2) [OF assms] by (simp add: unsigned_ucast_eq take_bit_nat_eq_self)
qed

lemma pai_variance_exact:
  assumes "length cs = 42" "unat (mean :: u32) = pai_mean cs"
  shows "unat (rmr_pai42_clamp_q16 (foldl (\<lambda>s i. let d = rmr_pai42_abs_diff_u32 (map (code_radius cs) [0..<42] ! i) mean
      in s + ucast d * ucast d) 0 [0..<42] div (42 * ucast RMR_PAI42_Q16_ONE) :: u64)) = pai_variance cs"
proof -
  let ?sq = "foldl (\<lambda>s i. let d = rmr_pai42_abs_diff_u32 (map (code_radius cs) [0..<42] ! i) mean in s + ucast d * ucast d) 0 [0..<42] :: u64"
  have dev: "unat (rmr_pai42_abs_diff_u32 (code_radius cs i) mean) = nat_diff (pai_radius cs i) (pai_mean cs)"
    "nat_diff (pai_radius cs i) (pai_mean cs) \<le> 65536" if "i < 42" for i
    using radius_nat [OF assms(1) that] pai_spec_bounds(2) [OF assms(1)] by (simp_all add: unat_abs_diff assms(2) nat_diff_bound)
  have "unat ?sq = (\<Sum>i\<leftarrow>[0..<42]. nat_diff (pai_radius cs i) (pai_mean cs) ^ 2)"
    unfolding Let_def
    by (rule foldl_sum_exact [where B = 4294967296])
      (use dev unat_deviation_square square_bound in \<open>simp_all del: upt_rec_numeral\<close>)
  then show ?thesis
    by (simp add: unat_clamp RMR_PAI42_Q16_ONE_def unat_div_distrib pai_variance_def del: upt_rec_numeral)
qed

lemma pai_symmetry_exact:
  assumes "length cs = 42"
  shows "unat (RMR_PAI42_Q16_ONE - rmr_pai42_clamp_q16 (foldl (\<lambda>s i. s + ucast (rmr_pai42_abs_diff_u32
      (map (code_radius cs) [0..<42] ! i) (map (code_radius cs) [0..<42] ! (i + 21)))) 0 [0..<21] div 21 :: u64)) = pai_symmetry cs"
proof -
  let ?op = "foldl (\<lambda>s i. s + ucast (rmr_pai42_abs_diff_u32
      (map (code_radius cs) [0..<42] ! i) (map (code_radius cs) [0..<42] ! (i + 21)))) 0 [0..<21] :: u64"
  have "unat ?op = (\<Sum>i\<leftarrow>[0..<21]. nat_diff (pai_radius cs i) (pai_radius cs (i + 21)))"
    by (rule foldl_sum_exact [where B = 65536])
      (use radius_nat [OF assms] in \<open>simp_all add: unat_abs_diff nat_diff_bound del: upt_rec_numeral\<close>)
  then show ?thesis
    by (simp add: unat_clamp unat_sub_if' RMR_PAI42_Q16_ONE_def unat_div_distrib pai_symmetry_def del: upt_rec_numeral)
qed

lemma pai_score_exact:
  fixes sym stab :: u32
  assumes "length cs = 42" "unat sym = pai_symmetry cs" "unat stab = 65536 - pai_variance cs"
  shows "unat (ucast ((55 * ucast sym + 45 * ucast stab :: u64) div 100) :: u32) =
      (55 * pai_symmetry cs + 45 * (65536 - pai_variance cs)) div 100"
    "(55 * pai_symmetry cs + 45 * (65536 - pai_variance cs)) div 100 \<le> 65536"
proof -
  note b = pai_spec_bounds [OF assms(1)]
  have "unat (55 * ucast sym + 45 * ucast stab :: u64) = 55 * pai_symmetry cs + 45 * (65536 - pai_variance cs)"
    using b(4) by (simp add: unat_word_ariths assms(2,3))
  then have "unat ((55 * ucast sym + 45 * ucast stab :: u64) div 100) =
      (55 * pai_symmetry cs + 45 * (65536 - pai_variance cs)) div 100"
    by (simp add: unat_div_distrib)
  moreover show "(55 * pai_symmetry cs + 45 * (65536 - pai_variance cs)) div 100 \<le> 65536" using b(4) by simp
  ultimately show "unat (ucast ((55 * ucast sym + 45 * ucast stab :: u64) div 100) :: u32) =
      (55 * pai_symmetry cs + 45 * (65536 - pai_variance cs)) div 100"
    by (simp add: unsigned_ucast_eq take_bit_nat_eq_self)
qed

section \<open>The coordinates\<close>

text \<open>The tables hold the sixteen-bit roundings of the 42 points of the circle.\<close>

definition rounds :: "int \<Rightarrow> int \<Rightarrow> bool" where
  "rounds t a \<longleftrightarrow> \<bar>t * 10 ^ 12 - 65536 * a\<bar> \<le> 499 * 10 ^ 9"

lemma tables_round:
  "list_all2 rounds (map sint RMR_PAI42_COS_Q16) (map fst circle)"
  "list_all2 rounds (map sint RMR_PAI42_SIN_Q16) (map snd circle)"
  by (simp_all add: RMR_PAI42_COS_Q16_def RMR_PAI42_SIN_Q16_def circle_def rounds_def)

lemma tables_bounded:
  "list_all (\<lambda>t. \<bar>sint t\<bar> \<le> 65536) RMR_PAI42_COS_Q16" "list_all (\<lambda>t. \<bar>sint t\<bar> \<le> 65536) RMR_PAI42_SIN_Q16"
  "length RMR_PAI42_COS_Q16 = 42" "length RMR_PAI42_SIN_Q16 = 42"
  by (simp_all add: RMR_PAI42_COS_Q16_def RMR_PAI42_SIN_Q16_def)

lemma rounds_near:
  assumes "rounds t a" "\<bar>real_of_int a - circle_scale * v\<bar> \<le> 336"
  shows "\<bar>real_of_int t - 65536 * v\<bar> \<le> 1 / 2"
proof -
  have "real_of_int \<bar>t * 10 ^ 12 - 65536 * a\<bar> \<le> real_of_int (499 * 10 ^ 9)"
    using assms(1) unfolding rounds_def of_int_le_iff .
  then have "\<bar>real_of_int t * 10 ^ 12 - 65536 * real_of_int a\<bar> \<le> 499 * 10 ^ 9" by simp
  then have "real_of_int t * 10 ^ 12 - 65536 * real_of_int a \<le> 499 * 10 ^ 9"
    "65536 * real_of_int a - real_of_int t * 10 ^ 12 \<le> 499 * 10 ^ 9" by (simp_all add: abs_le_iff)
  moreover have "real_of_int a - 10 ^ 12 * v \<le> 336" "10 ^ 12 * v - real_of_int a \<le> 336"
    using assms(2) by (simp_all add: circle_scale_def abs_le_iff)
  ultimately show ?thesis by (intro abs_leI) simp_all
qed

lemma tables_near:
  assumes "i < 42"
  shows "\<bar>real_of_int (sint (RMR_PAI42_COS_Q16 ! i)) - 65536 * cos (2 * pi * real i / 42)\<bar> \<le> 1 / 2"
    "\<bar>real_of_int (sint (RMR_PAI42_SIN_Q16 ! i)) - 65536 * sin (2 * pi * real i / 42)\<bar> \<le> 1 / 2"
proof -
  have "rounds (sint (RMR_PAI42_COS_Q16 ! i)) (fst (circle ! i))" "rounds (sint (RMR_PAI42_SIN_Q16 ! i)) (snd (circle ! i))"
    using list_all2_nthD [OF tables_round(1), of i] list_all2_nthD [OF tables_round(2), of i] assms
    by (simp_all add: tables_bounded(3,4) circle_turned(2))
  from rounds_near [OF this(1) circle_points(1) [OF assms]] rounds_near [OF this(2) circle_points(2) [OF assms]]
  show "\<bar>real_of_int (sint (RMR_PAI42_COS_Q16 ! i)) - 65536 * cos (2 * pi * real i / 42)\<bar> \<le> 1 / 2"
    "\<bar>real_of_int (sint (RMR_PAI42_SIN_Q16 ! i)) - 65536 * sin (2 * pi * real i / 42)\<bar> \<le> 1 / 2" .
qed

lemma sint_ucast_down:
  fixes w :: "64 word"
  assumes "- 2147483648 \<le> sint w" "sint w < 2147483648"
  shows "sint (ucast w :: u32) = sint w"
proof -
  have "sint (ucast w :: u32) = signed_take_bit 31 (uint w)" by (simp add: signed_ucast_eq)
  also have "\<dots> = signed_take_bit 31 (sint w)" by (simp add: sint_uint)
  finally show ?thesis using assms by (simp add: signed_take_bit_int_eq_self)
qed

lemma project_exact:
  fixes t r :: u32
  assumes "\<bar>sint t\<bar> \<le> 65536" "unat r \<le> 65536"
  shows "sint (pai42_project t r) = sint t * int (unat r) div 65536"
proof -
  let ?p = "sint t * int (unat r)"
  have r: "int (unat r) \<le> 65536" using assms(2) by linarith
  have "\<bar>?p\<bar> \<le> 65536 * 65536" unfolding abs_mult abs_of_nat by (intro mult_mono assms(1) r) simp_all
  then have p: "\<bar>?p\<bar> \<le> 4294967296" by simp
  have "- 9223372036854775808 \<le> uint r" by (rule order_trans [OF _ unsigned_greater_eq]) simp
  moreover have "uint r \<le> 65536" using r by simp
  ultimately have "sint (ucast r :: 64 word) = int (unat r)"
    by (simp add: sint_uint unsigned_ucast_eq take_bit_int_eq_self signed_take_bit_int_eq_self)
  moreover have "sint (scast t :: 64 word) = sint t"
    using assms(1) by (simp add: signed_scast_eq signed_take_bit_int_eq_self abs_le_iff)
  ultimately have "sint (scast t * ucast r :: 64 word) = ?p"
    using p by (simp add: sint_word_ariths signed_take_bit_int_eq_self)
  then have q: "sint (signed_drop_bit 16 (scast t * ucast r :: 64 word)) = ?p div 65536"
    by (simp add: sint_signed_drop_bit_eq drop_bit_eq_div)
  have "- 65536 \<le> ?p div 65536" "?p div 65536 \<le> 65536" using p by simp_all
  then show ?thesis
    using sint_ucast_down [of "signed_drop_bit 16 (scast t * ucast r)", unfolded q] by (simp add: pai42_project_def)
qed

lemma floor_near:
  fixes t :: int and r :: nat and v :: real
  assumes "\<bar>real_of_int t - 65536 * v\<bar> \<le> 1 / 2" "r \<le> 65536"
  shows "\<bar>real_of_int (t * int r div 65536) - real r * v\<bar> < 3 / 2"
proof -
  have "real_of_int (t * int r) / 65536 - real r * v = (real_of_int t - 65536 * v) * (real r / 65536)"
    by (simp add: field_simps)
  then have "\<bar>real_of_int (t * int r) / 65536 - real r * v\<bar> = \<bar>real_of_int t - 65536 * v\<bar> * (real r / 65536)"
    by (simp only: abs_mult abs_divide abs_of_nat abs_numeral)
  also have "\<dots> \<le> 1 / 2 * 1" using assms by (intro mult_mono) simp_all
  finally have "\<bar>real_of_int (t * int r) / 65536 - real r * v\<bar> \<le> 1 / 2" by simp
  moreover have "real_of_int (t * int r div 65536) = of_int \<lfloor>real_of_int (t * int r) / 65536\<rfloor>"
    using floor_divide_of_int_eq [of "t * int r" 65536, where 'a = real] by simp
  ultimately show ?thesis by linarith
qed

text \<open>The signed value of each coordinate, and its distance from the point of the circle.\<close>

lemma coordinates_exact:
  assumes "length cs = 42" "i < 42"
  shows "sint (pai42_project (RMR_PAI42_COS_Q16 ! i) (code_radius cs i)) =
      sint (RMR_PAI42_COS_Q16 ! i) * int (pai_radius cs i) div 65536"
    "sint (pai42_project (RMR_PAI42_SIN_Q16 ! i) (code_radius cs i)) =
      sint (RMR_PAI42_SIN_Q16 ! i) * int (pai_radius cs i) div 65536"
  using project_exact [of "RMR_PAI42_COS_Q16 ! i" "code_radius cs i"] project_exact [of "RMR_PAI42_SIN_Q16 ! i" "code_radius cs i"]
    tables_bounded assms radius_nat [OF assms]
  by (simp_all add: list_all_length)

lemma coordinates_near:
  assumes "length cs = 42" "i < 42"
  shows "\<bar>real_of_int (sint (RMR_PAI42_COS_Q16 ! i) * int (pai_radius cs i) div 65536) - real (pai_radius cs i) * cos (2 * pi * real i / 42)\<bar> < 3 / 2"
    "\<bar>real_of_int (sint (RMR_PAI42_SIN_Q16 ! i) * int (pai_radius cs i) div 65536) - real (pai_radius cs i) * sin (2 * pi * real i / 42)\<bar> < 3 / 2"
  by (rule floor_near [OF tables_near(1) [OF assms(2)] radius_nat(2) [OF assms]],
      rule floor_near [OF tables_near(2) [OF assms(2)] radius_nat(2) [OF assms]])

text \<open>
  C17. For any 42 cycle counts the construction succeeds and its own validation accepts the result.
  Minimum, maximum, radii, mean, variance, symmetry, stability and score are the values of the exact
  arithmetic on natural numbers, and every one of the 84 coordinates is the exact integer product of its table
  entry and the radius divided by 65536 and rounded down: no sum, product or difference of the routine wraps.
  The coordinates of cycle \<open>i\<close> lie within one and a half units of the real point at that radius and the
  angle \<open>2\<pi>i/42\<close>, the cosine in \<open>x\<close> and the sine in \<open>y\<close>.
\<close>

theorem pai42_build_exact:
  assumes "length cs = 42" "length (o_radius_q16 o0) = 42" "length (o_x_q16 o0) = 42" "length (o_y_q16 o0) = 42"
  shows "\<exists>ob. rmr_pai42_build sig (Some cs) (Some o0) = (Some ob, 0) \<and> rmr_pai42_validate (Some ob) \<and>
    unat (o_min_cycle ob) = pai_min cs \<and> unat (o_max_cycle ob) = pai_max cs \<and>
    map unat (o_radius_q16 ob) = map (pai_radius cs) [0..<42] \<and>
    unat (o_mean_radius_q16 ob) = pai_mean cs \<and> unat (o_variance_q16 ob) = pai_variance cs \<and>
    unat (o_symmetry_q16 ob) = pai_symmetry cs \<and> unat (o_stability_q16 ob) = 65536 - pai_variance cs \<and>
    unat (o_prototype_score_q16 ob) = (55 * pai_symmetry cs + 45 * (65536 - pai_variance cs)) div 100 \<and>
    map sint (o_x_q16 ob) = map (\<lambda>i. sint (RMR_PAI42_COS_Q16 ! i) * int (pai_radius cs i) div 65536) [0..<42] \<and>
    map sint (o_y_q16 ob) = map (\<lambda>i. sint (RMR_PAI42_SIN_Q16 ! i) * int (pai_radius cs i) div 65536) [0..<42] \<and>
    (\<forall>i<42. \<bar>real_of_int (sint (o_x_q16 ob ! i)) - real (pai_radius cs i) * cos (2 * pi * real i / 42)\<bar> < 3 / 2 \<and>
      \<bar>real_of_int (sint (o_y_q16 ob ! i)) - real (pai_radius cs i) * sin (2 * pi * real i / 42)\<bar> < 3 / 2)"
proof -
  let ?mn = "Min (set cs)" and ?mx = "Max (set cs)" and ?r = "code_radius cs"
  have ne: "cs \<noteq> []" using assms(1) by auto
  have mm: "foldl (min_max_step cs) (cs ! 0, cs ! 0) [1..<42] = (?mn, ?mx)"
    using min_max_fold [OF ne] assms(1) by simp
  note r = radius_nat [OF assms(1)] and bounds = pai_spec_bounds [OF assms(1)]
  define mean :: u32 where "mean = ucast (foldl (\<lambda>s i. s + ucast (?r i)) 0 [0..<42] div 42 :: u64)"
  note mean = pai_mean_exact [OF assms(1), folded mean_def]
  define var where "var = rmr_pai42_clamp_q16 (foldl (\<lambda>s i. let d = rmr_pai42_abs_diff_u32 (map ?r [0..<42] ! i) mean
    in s + ucast d * ucast d) 0 [0..<42] div (42 * ucast RMR_PAI42_Q16_ONE))"
  note var = pai_variance_exact [OF assms(1) mean, folded var_def]
  define sym where "sym = RMR_PAI42_Q16_ONE - rmr_pai42_clamp_q16 (foldl (\<lambda>s i. s + ucast (rmr_pai42_abs_diff_u32
    (map ?r [0..<42] ! i) (map ?r [0..<42] ! (i + 21)))) 0 [0..<21] div 21)"
  note sym = pai_symmetry_exact [OF assms(1), folded sym_def]
  define stab where "stab = RMR_PAI42_Q16_ONE - var"
  have stab: "unat stab = 65536 - pai_variance cs"
    using bounds(3) by (simp add: stab_def unat_sub_if' var RMR_PAI42_Q16_ONE_def)
  define score :: u32 where "score = ucast ((55 * ucast sym + 45 * ucast stab :: u64) div 100)"
  note score = pai_score_exact [OF assms(1) sym stab, folded score_def]
  let ?ob = "o0\<lparr>o_version := RMR_PAI42_VERSION, o_count := 42, o_hw_sig64 := sig, o_min_cycle := ?mn, o_max_cycle := ?mx,
      o_radius_q16 := map ?r [0..<42],
      o_x_q16 := map (\<lambda>i. pai42_project (RMR_PAI42_COS_Q16 ! i) (?r i)) [0..<42],
      o_y_q16 := map (\<lambda>i. pai42_project (RMR_PAI42_SIN_Q16 ! i) (?r i)) [0..<42],
      o_mean_radius_q16 := mean, o_variance_q16 := var, o_symmetry_q16 := sym, o_stability_q16 := stab,
      o_prototype_score_q16 := score\<rparr>"
  have build: "rmr_pai42_build sig (Some cs) (Some o0) = (Some ?ob, if rmr_pai42_validate (Some ?ob) then 0 else -2)"
    unfolding rmr_pai42_build_def RMR_PAI42_COUNT_def mm Let_def prod.case option.sel
    using assms(2-4)
    by (simp add: points_fold [OF refl] mean_def Let_def var_def sym_def stab_def score_def
        del: upt_rec_numeral)
  have le: "?mn \<le> ?mx" using ne by (auto intro: order_trans [OF Min_le Max_ge])
  have valid: "rmr_pai42_validate (Some ?ob)"
    using le [unfolded word_le_nat_alt] r bounds mean var sym stab score
    by (simp add: rmr_pai42_validate_def RMR_PAI42_COUNT_def word_less_nat_alt RMR_PAI42_Q16_ONE_def
        not_less del: upt_rec_numeral)
  show ?thesis
    using build valid unat_Min_Max [OF ne] r mean var sym stab score coordinates_exact [OF assms(1)] coordinates_near [OF assms(1)]
    by (intro exI [of _ ?ob]) (simp del: upt_rec_numeral)
qed

lemma pai42_build_exact_witness:
  "\<exists>ob. rmr_pai42_build 7 (Some (map of_nat [10..<52]))
      (Some \<lparr>o_version = 0, o_count = 0, o_hw_sig64 = 0, o_min_cycle = 0, o_max_cycle = 0, o_mean_radius_q16 = 0,
        o_variance_q16 = 0, o_symmetry_q16 = 0, o_stability_q16 = 0, o_prototype_score_q16 = 0,
        o_radius_q16 = replicate 42 0, o_x_q16 = replicate 42 0, o_y_q16 = replicate 42 0\<rparr>) = (Some ob, 0) \<and>
    rmr_pai42_validate (Some ob)"
  using pai42_build_exact [of "map of_nat [10..<52]"
      "\<lparr>o_version = 0, o_count = 0, o_hw_sig64 = 0, o_min_cycle = 0, o_max_cycle = 0, o_mean_radius_q16 = 0,
        o_variance_q16 = 0, o_symmetry_q16 = 0, o_stability_q16 = 0, o_prototype_score_q16 = 0,
        o_radius_q16 = replicate 42 0, o_x_q16 = replicate 42 0, o_y_q16 = replicate 42 0\<rparr>" 7]
  by (auto simp del: upt_rec_numeral)

end
