(* ===== verification/Stability.thy ===== *)
theory Stability
  imports Crc32
begin

text \<open>
  The stability records of \<open>rmr/src/rmr_stability.c\<close>: the event state, the trace counters and their
  rates, the Otsu threshold and the descriptor of a grey image with its angles, and the comparison of two
  descriptors. It is the portable build: the ARMv7 step is not in the repository. A status that the C code
  accumulates through a pointer is passed and returned; signed integers are \<open>int\<close> where they cannot
  leave their type.
\<close>

section \<open>Words and ratios\<close>

definition STATUS_OK :: u32 where "STATUS_OK = 0"
definition STATUS_NO_SAMPLES :: u32 where "STATUS_NO_SAMPLES = push_bit 0 1"
definition STATUS_NO_PEAK_SAMPLES :: u32 where "STATUS_NO_PEAK_SAMPLES = push_bit 1 1"
definition STATUS_NO_NONPEAK_SAMPLES :: u32 where "STATUS_NO_NONPEAK_SAMPLES = push_bit 2 1"
definition STATUS_BAD_ARGUMENT :: u32 where "STATUS_BAD_ARGUMENT = push_bit 3 1"
definition STATUS_COUNTER_SATURATED :: u32 where "STATUS_COUNTER_SATURATED = push_bit 4 1"
definition STATUS_ANGLE_SATURATED :: u32 where "STATUS_ANGLE_SATURATED = push_bit 5 1"
definition Q16_ONE :: u64 where "Q16_ONE = 65536"

definition stab_rotl32 :: "u32 \<Rightarrow> nat \<Rightarrow> u32" where
  "stab_rotl32 x n = push_bit n x OR drop_bit (32 - n) x"

definition stab_rotr32 :: "u32 \<Rightarrow> nat \<Rightarrow> u32" where
  "stab_rotr32 x n = drop_bit n x OR push_bit (32 - n) x"

definition absdiff32 :: "u32 \<Rightarrow> u32 \<Rightarrow> u32" where
  "absdiff32 a b = (if a \<ge> b then a - b else b - a)"

definition satadd32 :: "u32 \<Rightarrow> u32 \<Rightarrow> u32 \<Rightarrow> u32 \<times> u32" where
  "satadd32 a b st =
    (if 0xFFFFFFFF - a < b then (0xFFFFFFFF, st OR STATUS_COUNTER_SATURATED) else (a + b, st))"

definition ratio_q30 :: "u32 \<Rightarrow> u32 \<Rightarrow> u32" where
  "ratio_q30 n d = (if d \<noteq> 0 then ucast (push_bit 30 (ucast n :: u64) div ucast d) else 0)"

definition ratio_q16 :: "u32 \<Rightarrow> u32 \<Rightarrow> u32" where
  "ratio_q16 n d = (if d \<noteq> 0 then ucast (push_bit 16 (ucast n :: u64) div ucast d) else 0)"

section \<open>Event state\<close>

record stability_state =
  s0 :: u32
  s1 :: u32
  s2 :: u32
  s3 :: u32

definition RmR_StabilityState_Init :: "u32 \<Rightarrow> stability_state" where
  "RmR_StabilityState_Init seed =
    (let x = (if seed \<noteq> 0 then seed else 0x963)
     in \<lparr>s0 = x XOR 0x243F6A88, s1 = stab_rotl32 x 7 XOR 0x85A308D3, s2 = stab_rotl32 x 13 XOR 0x13198A2E,
         s3 = stab_rotl32 x 21 XOR 0x03707344\<rparr>)"

definition stability_event :: "u32 \<times> u32 \<times> u32 \<times> u32 \<Rightarrow> u8 \<Rightarrow> u32 \<times> u32 \<times> u32 \<times> u32" where
  "stability_event = (\<lambda>(a, b, c, d) e.
     let a = a XOR b;
         b = b + ucast e;
         c = stab_rotr32 c 5;
         c = c + a;
         d = d XOR c;
         a = a + d
     in (a, b, c, d))"

definition RmR_StabilityStepPortable ::
  "stability_state option \<Rightarrow> bytes option \<Rightarrow> nat \<Rightarrow> u32 \<times> stability_state option" where
  "RmR_StabilityStepPortable s e n =
    (if s = None \<or> (e = None \<and> n \<noteq> 0) then (0, s)
     else
       let s' = the s;
           (a, b, c, d) = foldl stability_event (s0 s', s1 s', s2 s', s3 s')
                            (take n (case e of Some p \<Rightarrow> p | None \<Rightarrow> []))
       in ((((a XOR b) + c) XOR d) AND 0x7FFFFFFF, Some \<lparr>s0 = a, s1 = b, s2 = c, s3 = d\<rparr>))"

definition RmR_StabilityStep ::
  "stability_state option \<Rightarrow> bytes option \<Rightarrow> nat \<Rightarrow> u32 \<times> stability_state option" where
  "RmR_StabilityStep s e n =
    (if s = None \<or> (e = None \<and> n \<noteq> 0) then (0, s) else RmR_StabilityStepPortable s e n)"

section \<open>Trace\<close>

record stability_trace =
  rows :: u32
  peak_total :: u32
  peak_stable :: u32
  nonpeak_total :: u32
  nonpeak_stable :: u32
  peak_rate_q30 :: u32
  nonpeak_rate_q30 :: u32
  delta_p_q30 :: int
  status :: u32

definition RmR_StabilityTrace_Init :: stability_trace where
  "RmR_StabilityTrace_Init =
    \<lparr>rows = 0, peak_total = 0, peak_stable = 0, nonpeak_total = 0, nonpeak_stable = 0,
     peak_rate_q30 = 0, nonpeak_rate_q30 = 0, delta_p_q30 = 0,
     status = STATUS_NO_SAMPLES OR STATUS_NO_PEAK_SAMPLES OR STATUS_NO_NONPEAK_SAMPLES\<rparr>"

definition is_peak :: "u32 \<Rightarrow> u8 \<Rightarrow> bool" where
  "is_peak gate peak_flag \<longleftrightarrow> peak_flag \<noteq> 0 \<or> gate = 3 \<or> gate = 4 \<or> gate = 8"

definition RmR_StabilityTrace_Add :: "stability_trace \<Rightarrow> u32 \<Rightarrow> u8 \<Rightarrow> u8 \<Rightarrow> stability_trace" where
  "RmR_StabilityTrace_Add t gate stable_any peak_flag =
    (let peak = is_peak gate peak_flag;
         (v, st) = satadd32 (rows t) 1 (status t);
         t = t\<lparr>rows := v, status := st\<rparr>
     in if peak then
          let (v, st) = satadd32 (peak_total t) 1 (status t);
              t = t\<lparr>peak_total := v, status := st\<rparr>
          in if stable_any \<noteq> 0 then
               let (v, st) = satadd32 (peak_stable t) 1 (status t) in t\<lparr>peak_stable := v, status := st\<rparr>
             else t
        else
          let (v, st) = satadd32 (nonpeak_total t) 1 (status t);
              t = t\<lparr>nonpeak_total := v, status := st\<rparr>
          in if stable_any \<noteq> 0 then
               let (v, st) = satadd32 (nonpeak_stable t) 1 (status t) in t\<lparr>nonpeak_stable := v, status := st\<rparr>
             else t)"

definition RmR_StabilityTrace_Finalize :: "stability_trace \<Rightarrow> u32 \<times> stability_trace" where
  "RmR_StabilityTrace_Finalize t =
    (let st = status t AND STATUS_COUNTER_SATURATED;
         st = (if rows t = 0 then st OR STATUS_NO_SAMPLES else st);
         st = (if peak_total t = 0 then st OR STATUS_NO_PEAK_SAMPLES else st);
         st = (if nonpeak_total t = 0 then st OR STATUS_NO_NONPEAK_SAMPLES else st);
         p = ratio_q30 (peak_stable t) (peak_total t);
         n = ratio_q30 (nonpeak_stable t) (nonpeak_total t);
         t = t\<lparr>status := st, peak_rate_q30 := p, nonpeak_rate_q30 := n, delta_p_q30 := sint p - sint n\<rparr>
     in (status t, t))"

section \<open>Otsu threshold\<close>

text \<open>The histogram and the sum of the grey values; rows are \<open>stride\<close> bytes apart.\<close>

definition otsu_pixel :: "words \<times> u64 \<Rightarrow> u8 \<Rightarrow> words \<times> u64" where
  "otsu_pixel = (\<lambda>(hist, gsum) p. (hist[unat p := hist ! unat p + 1], gsum + ucast p))"

definition otsu_histogram :: "bytes \<Rightarrow> nat \<Rightarrow> nat \<Rightarrow> nat \<Rightarrow> words \<times> u64" where
  "otsu_histogram g w h stride =
    foldl (\<lambda>hs y. foldl (\<lambda>hs x. otsu_pixel hs (g ! (y * stride + x))) hs [0..<w]) (replicate 256 0, 0) [0..<h]"

lemma drop_bit_beyond: "LENGTH('a) \<le> n \<Longrightarrow> drop_bit n w = 0" for w :: "'a::len word"
  by (rule bit_word_eqI) (auto simp: bit_simps dest: bit_imp_le_length)

function otsu_shift :: "u64 \<Rightarrow> nat \<Rightarrow> nat" where
  "otsu_shift pixels shift = (if drop_bit shift pixels > 65535 then otsu_shift pixels (shift + 1) else shift)"
  by pat_completeness auto
termination
proof (relation "measure (\<lambda>(pixels, shift). 64 - shift)")
  fix pixels :: u64 and shift assume "65535 < drop_bit shift pixels"
  then have "shift < 64" using drop_bit_beyond [of shift pixels] by (cases "64 \<le> shift") auto
  then show "((pixels, shift + 1), (pixels, shift)) \<in> measure (\<lambda>(pixels, shift). 64 - shift)" by simp
qed simp

declare otsu_shift.simps [simp del]

definition otsu_score :: "u64 \<Rightarrow> u64 \<Rightarrow> nat \<Rightarrow> u64 \<Rightarrow> u64 \<Rightarrow> u64" where
  "otsu_score pixels gsum shift wb sb =
    (let wf = pixels - wb;
         mb = push_bit 16 sb div wb;
         mf = push_bit 16 (gsum - sb) div wf;
         d = drop_bit 8 (if mb \<ge> mf then mb - mf else mf - mb);
         swb = drop_bit shift wb;
         swf = drop_bit shift wf;
         swb = (if swb = 0 then 1 else swb);
         swf = (if swf = 0 then 1 else swf)
     in (d * d) * swb * swf)"

text \<open>The scan over the grey levels left, with \<open>continue\<close> and \<open>break\<close>.\<close>

fun otsu_scan :: "words \<Rightarrow> u64 \<Rightarrow> u64 \<Rightarrow> nat \<Rightarrow> nat list \<Rightarrow> u64 \<times> u64 \<times> u64 \<times> u8 \<Rightarrow> u8" where
  "otsu_scan hist pixels gsum shift [] (wb, sb, best, threshold) = threshold"
| "otsu_scan hist pixels gsum shift (i # is) (wb, sb, best, threshold) =
    (let wb = wb + ucast (hist ! i)
     in if wb = 0 then otsu_scan hist pixels gsum shift is (wb, sb, best, threshold)
        else if pixels - wb = 0 then threshold
        else
          let sb = sb + of_nat i * ucast (hist ! i);
              score = otsu_score pixels gsum shift wb sb
          in if score > best then otsu_scan hist pixels gsum shift is (wb, sb, score, of_nat i)
             else otsu_scan hist pixels gsum shift is (wb, sb, best, threshold))"

text \<open>The second component is what is written to \<open>status\<close>; \<open>pixels\<close> and \<open>gsum\<close> are its \<open>total\<close> and \<open>sum\<close>.\<close>

definition RmR_Vision_OtsuThreshold :: "bytes option \<Rightarrow> u32 \<Rightarrow> u32 \<Rightarrow> u32 \<Rightarrow> u8 \<times> u32" where
  "RmR_Vision_OtsuThreshold g w h stride =
    (if g = None \<or> w = 0 \<or> h = 0 \<or> stride < w then (0, STATUS_BAD_ARGUMENT)
     else
       let pixels = ucast w * ucast h :: u64
       in if pixels > 0xFFFFFFFF then (0, STATUS_COUNTER_SATURATED)
          else
            let (hist, gsum) = otsu_histogram (the g) (unat w) (unat h) (unat stride);
                shift = otsu_shift pixels 0
            in (otsu_scan hist pixels gsum shift [0..<256] (0, 0, 0, 0), 0))"

section \<open>Angles\<close>

text \<open>The two loops that bring an angle into one turn.\<close>

function angle_up :: "int \<Rightarrow> int" where
  "angle_up a = (if a < 0 then angle_up (a + 360) else a)"
  by pat_completeness auto
termination by (relation "measure (\<lambda>a. nat (- a))") auto

function angle_down :: "int \<Rightarrow> int" where
  "angle_down a = (if a \<ge> 360 then angle_down (a - 360) else a)"
  by pat_completeness auto
termination by (relation "measure nat") auto

declare angle_up.simps [simp del] angle_down.simps [simp del]

definition angle_bin :: "u16 \<Rightarrow> nat" where
  "angle_bin deg =
    (let a = angle_down (angle_up (sint deg)) in unat ((word_of_int ((a + 22) div 45) :: u32) AND 7))"

text \<open>The quotient with 16 fractional bits, saturated, as the code splits it.\<close>

definition chi2_quotient :: "u64 \<Rightarrow> u64 \<Rightarrow> u32" where
  "chi2_quotient num den =
    (if num div den > drop_bit 16 0xFFFFFFFF then 0xFFFFFFFF
     else let q = push_bit 16 (num div den) + push_bit 16 (num mod den) div den
          in if q > 0xFFFFFFFF then 0xFFFFFFFF else ucast q)"

definition angular_chi2_q16 :: "words \<Rightarrow> u32 \<Rightarrow> u32 \<Rightarrow> u32 \<times> u32" where
  "angular_chi2_q16 hist n st =
    (if n = 0 then (0, st)
     else
       let (n, st) = (if n > 1000000 then (1000000, st OR STATUS_ANGLE_SATURATED) else (n, st));
           num = foldl (\<lambda>num i. let d = uint (8 * hist ! i :: u32) - uint n in num + word_of_int (d * d)) (0 :: u64) [0..<8];
           den = ucast (8 :: u32) * ucast n
       in (chi2_quotient num den, st))"

definition angular_concentration_q16 :: "words \<Rightarrow> u32 \<Rightarrow> u32" where
  "angular_concentration_q16 hist n =
    (if n = 0 then 0
     else
       let m = foldl (\<lambda>m i. if hist ! i > m then hist ! i else m) (hist ! 0) [1..<8];
           s = ucast m * 8 :: u64
       in if s \<le> ucast n then 0 else ucast (push_bit 16 (s - ucast n) div (7 * ucast n)))"

section \<open>Descriptor\<close>

record vision_descriptor =
  width :: u32
  height :: u32
  pixel_count :: u32
  foreground_count :: u32
  foreground_q16 :: u32
  angle_count :: u32
  angle_hist :: words
  angular_chi2 :: u32
  angular_concentration :: u32
  gray_crc32c :: u32
  descriptor_crc32c :: u32
  vision_status :: u32
  otsu_threshold :: u8
  vision_reserved :: bytes

definition crc_u32 :: "u32 \<Rightarrow> u32 \<Rightarrow> u32" where
  "crc_u32 crc v =
    stability_crc32c_update crc [ucast v, ucast (drop_bit 8 v), ucast (drop_bit 16 v), ucast (drop_bit 24 v)]"

definition vision_rows :: "bytes \<Rightarrow> nat \<Rightarrow> nat \<Rightarrow> nat \<Rightarrow> u8 \<Rightarrow> u32 \<times> u32" where
  "vision_rows g w h stride threshold =
    foldl (\<lambda>(crc, fg) y.
       (stability_crc32c_update crc (take w (drop (y * stride) g)),
        foldl (\<lambda>fg x. if g ! (y * stride + x) \<le> threshold then fg + 1 else fg) fg [0..<w]))
     (0xFFFFFFFF, 0) [0..<h]"

definition vision_angle :: "words \<times> u32 \<Rightarrow> u16 \<Rightarrow> words \<times> u32" where
  "vision_angle = (\<lambda>(hist, st) a.
     let b = angle_bin a;
         (v, st) = satadd32 (hist ! b) 1 st
     in (hist[b := v], st))"

definition descriptor_crc :: "vision_descriptor \<Rightarrow> u32" where
  "descriptor_crc d =
    (let crc = foldl crc_u32 0xFFFFFFFF
                 ([width d, height d, pixel_count d, foreground_count d, foreground_q16 d, angle_count d]
                  @ map (\<lambda>i. angle_hist d ! i) [0..<8]
                  @ [angular_chi2 d, angular_concentration d, gray_crc32c d]);
         crc = stability_crc32c_update crc [otsu_threshold d]
     in crc XOR 0xFFFFFFFF)"

definition vision_zero :: vision_descriptor where
  "vision_zero =
    \<lparr>width = 0, height = 0, pixel_count = 0, foreground_count = 0, foreground_q16 = 0, angle_count = 0,
     angle_hist = replicate 8 0, angular_chi2 = 0, angular_concentration = 0, gray_crc32c = 0,
     descriptor_crc32c = 0, vision_status = 0, otsu_threshold = 0,
     vision_reserved = replicate 3 0\<rparr>"

definition RmR_Vision_BuildDescriptor ::
  "bytes option \<Rightarrow> u32 \<Rightarrow> u32 \<Rightarrow> u32 \<Rightarrow> u16 list option \<Rightarrow> u32 \<Rightarrow> u32 \<times> vision_descriptor" where
  "RmR_Vision_BuildDescriptor g w h stride angles count =
    (let d = vision_zero\<lparr>width := w, height := h\<rparr>
     in if g = None \<or> w = 0 \<or> h = 0 \<or> stride < w \<or> (angles = None \<and> count \<noteq> 0)
        then (STATUS_BAD_ARGUMENT, d\<lparr>vision_status := STATUS_BAD_ARGUMENT\<rparr>)
        else
          let pc = ucast w * ucast h :: u64
          in if pc > 0xFFFFFFFF then (STATUS_COUNTER_SATURATED, d\<lparr>vision_status := STATUS_COUNTER_SATURATED\<rparr>)
             else
               let (t, st) = RmR_Vision_OtsuThreshold g w h stride;
                   (crc, fg) = vision_rows (the g) (unat w) (unat h) (unat stride) t;
                   d = d\<lparr>pixel_count := ucast pc, otsu_threshold := t, foreground_count := fg,
                         gray_crc32c := crc XOR 0xFFFFFFFF, foreground_q16 := ratio_q16 fg (ucast pc)\<rparr>;
                   used = (if count > 1000000 then 1000000 else count);
                   st = (if used \<noteq> count then st OR STATUS_ANGLE_SATURATED else st);
                   (hist, st) = foldl vision_angle (angle_hist d, st)
                                  (take (unat used) (case angles of Some a \<Rightarrow> a | None \<Rightarrow> []));
                   (chi2, st) = angular_chi2_q16 hist used st;
                   d = d\<lparr>angle_count := used, angle_hist := hist, angular_chi2 := chi2,
                         angular_concentration := angular_concentration_q16 hist used, vision_status := st\<rparr>;
                   d = d\<lparr>descriptor_crc32c := descriptor_crc d\<rparr>
               in (st, d))"

section \<open>Comparison\<close>

definition RmR_Vision_DifferenceQ16 :: "vision_descriptor option \<Rightarrow> vision_descriptor option \<Rightarrow> u32" where
  "RmR_Vision_DifferenceQ16 a b =
    (if a = None \<or> b = None then 0xFFFFFFFF
     else
       let a = the a; b = the b;
           th = push_bit 16 (absdiff32 (ucast (otsu_threshold a)) (ucast (otsu_threshold b))) div 255;
           fg = absdiff32 (foreground_q16 a) (foreground_q16 b);
           tv = (if angle_count a \<noteq> 0 \<or> angle_count b \<noteq> 0 then
                   let tv = foldl (\<lambda>tv i. tv + ucast (absdiff32 (ratio_q16 (angle_hist a ! i) (angle_count a))
                                                             (ratio_q16 (angle_hist b ! i) (angle_count b)))) (0 :: u64) [0..<8];
                       tv = drop_bit 1 tv
                   in if tv > Q16_ONE then Q16_ONE else tv
                 else 0)
       in ucast ((ucast th + ucast fg + tv) div 3))"

definition RmR_Stability_DifferenceHash :: "vision_descriptor option \<Rightarrow> vision_descriptor option \<Rightarrow> u32" where
  "RmR_Stability_DifferenceHash x y =
    (if x = None \<or> y = None then 0
     else
       let a = the x; b = the y;
           v = [descriptor_crc32c a XOR descriptor_crc32c b, gray_crc32c a XOR gray_crc32c b,
                absdiff32 (foreground_q16 a) (foreground_q16 b), absdiff32 (angular_chi2 a) (angular_chi2 b),
                absdiff32 (angular_concentration a) (angular_concentration b), RmR_Vision_DifferenceQ16 x y];
           crc = foldl crc_u32 0xFFFFFFFF v;
           crc = foldl (\<lambda>crc i. crc_u32 crc (angle_hist a ! i XOR angle_hist b ! i)) crc [0..<8]
       in crc XOR 0xFFFFFFFF)"

end
