(* ===== verification/Stability_Trace.thy ===== *)
theory Stability_Trace
  imports Stability
begin

text \<open>
  The event state and the trace: a step forgets nothing, and the counters, rates and status of a trace
  are those of its list of events whatever its length. Then the angles: the normalising loops, the bins
  and the two statistics over them are exact.
\<close>

section \<open>Event state\<close>

definition unrotr :: "u32 \<Rightarrow> u32" where
  "unrotr x = push_bit 5 x OR drop_bit 27 x"

lemma unrotr_rotr [simp]: "unrotr (stab_rotr32 x 5) = x"
  by (rule bit_word_eqI) (auto simp: unrotr_def stab_rotr32_def bit_simps)

lemma stability_event_inj: "stability_event s e = stability_event s' e \<Longrightarrow> s = s'"
proof -
  define unevent where "unevent = (\<lambda>(a, b, c, d) (e :: u8).
    let a = a - d; d = d XOR c; c = unrotr (c - a); b = b - ucast e in (a XOR b, b, c, d))"
  have "unevent (stability_event s e) e = s" for s
    by (simp add: unevent_def stability_event_def Let_def split: prod.splits) (simp add: xor.assoc)
  then show "stability_event s e = stability_event s' e \<Longrightarrow> s = s'" by metis
qed

lemma stability_events_inj: "foldl stability_event s es = foldl stability_event s' es \<Longrightarrow> s = s'"
proof (induction es arbitrary: s s')
  case (Cons e es)
  from Cons.IH [of "stability_event s e" "stability_event s' e"] Cons.prems
  have "stability_event s e = stability_event s' e" by simp
  then show ?case by (rule stability_event_inj)
qed simp

lemma unat_and_mask31: "unat (x AND 0x7FFFFFFF :: u32) < 2 ^ 31"
proof -
  have "x AND 0x7FFFFFFF = take_bit 31 x" by (simp add: take_bit_eq_mask mask_eq_exp_minus_1)
  then show ?thesis using take_bit_nat_less_exp [of 31 "unat x"] by (simp add: unsigned_take_bit_eq)
qed

lemma stability_step_returns: "\<exists>r t. RmR_StabilityStep (Some s) (Some es) n = (r, Some t)"
  by (auto simp: RmR_StabilityStep_def RmR_StabilityStepPortable_def Let_def split: prod.splits)

text \<open>
  The event state never merges two histories. Two states that reach the same state on the same
  events were the same state; the step over a concatenation is the step over its parts; and the
  value it returns has 31 bits.
\<close>

theorem stability_step_injective:
  assumes "RmR_StabilityStep (Some s) (Some es) n = (r, Some t)"
    and "RmR_StabilityStep (Some s') (Some es) n = (r', Some t')"
  shows "(t = t' \<longleftrightarrow> s = s') \<and> unat r < 2 ^ 31 \<and>
    (n \<le> length es \<longrightarrow> RmR_StabilityStep (Some t) (Some fs) m = RmR_StabilityStep (Some s) (Some (take n es @ fs)) (n + m))"
proof -
  let ?f = "\<lambda>s. foldl stability_event (s0 s, s1 s, s2 s, s3 s) (take n es)"
  have t: "(s0 t, s1 t, s2 t, s3 t) = ?f s" "(s0 t', s1 t', s2 t', s3 t') = ?f s'"
    using assms by (auto simp: RmR_StabilityStep_def RmR_StabilityStepPortable_def Let_def split: prod.splits)
  have "unat r < 2 ^ 31"
    using assms(1) unat_and_mask31 by (auto simp: RmR_StabilityStep_def RmR_StabilityStepPortable_def Let_def split: prod.splits)
  moreover have "t = t' \<longleftrightarrow> s = s'"
  proof
    assume "t = t'"
    then have "(s0 s, s1 s, s2 s, s3 s) = (s0 s', s1 s', s2 s', s3 s')"
      using t stability_events_inj [of _ "take n es"] by metis
    then show "s = s'" by (cases s; cases s') simp
  qed (use assms in auto)
  moreover have "RmR_StabilityStep (Some t) (Some fs) m = RmR_StabilityStep (Some s) (Some (take n es @ fs)) (n + m)"
    if "n \<le> length es"
    using that t(1) by (simp add: RmR_StabilityStep_def RmR_StabilityStepPortable_def)
  ultimately show ?thesis by blast
qed

lemma stability_step_injective_witness:
  "\<exists>r t r' t'. RmR_StabilityStep (Some (RmR_StabilityState_Init 1)) (Some [1, 2]) 2 = (r, Some t) \<and>
    RmR_StabilityStep (Some (RmR_StabilityState_Init 2)) (Some [1, 2]) 2 = (r', Some t') \<and> t \<noteq> t'"
proof -
  have s: "RmR_StabilityState_Init 1 \<noteq> RmR_StabilityState_Init 2"
    by (simp add: RmR_StabilityState_Init_def Let_def)
  obtain r t where 1: "RmR_StabilityStep (Some (RmR_StabilityState_Init 1)) (Some [1, 2]) 2 = (r, Some t)"
    using stability_step_returns by blast
  obtain r' t' where 2: "RmR_StabilityStep (Some (RmR_StabilityState_Init 2)) (Some [1, 2]) 2 = (r', Some t')"
    using stability_step_returns by blast
  from stability_step_injective [OF 1 2] s 1 2 show ?thesis by blast
qed

section \<open>Trace\<close>

definition sat32 :: "nat \<Rightarrow> nat" where
  "sat32 n = min n (2 ^ 32 - 1)"

lemma sat32_le [simp]: "sat32 n \<le> 4294967295"
  by (simp add: sat32_def)

lemma sat32_mono: "n \<le> m \<Longrightarrow> sat32 n \<le> sat32 m"
  by (simp add: sat32_def)

lemma sat32_0 [simp]: "sat32 0 = 0" and sat32_eq_0 [simp]: "sat32 n = 0 \<longleftrightarrow> n = 0"
  by (auto simp: sat32_def min_def)

lemma satadd1:
  assumes "unat a = sat32 n"
  shows "unat (fst (satadd32 a 1 st)) = sat32 (Suc n)"
    and "snd (satadd32 a 1 st) = (if n < 2 ^ 32 - 1 then st else st OR STATUS_COUNTER_SATURATED)"
proof -
  have c: "(0xFFFFFFFF - a < 1) = (a = 0xFFFFFFFF)"
    using word_less_1 [of "0xFFFFFFFF - a"] by (auto simp: eq_diff_eq)
  have e: "(a = 0xFFFFFFFF) = (2 ^ 32 - 1 \<le> n)"
    using assms by (simp add: word_unat_eq_iff sat32_def min_def)
  have "unat (a + 1) = unat a + 1" if "a \<noteq> 0xFFFFFFFF"
  proof -
    have "unat a < 2 ^ 32" using unsigned_less [of a] by simp
    moreover have "unat a \<noteq> 4294967295" using that by (simp add: word_unat_eq_iff)
    ultimately show ?thesis by (simp add: unat_word_ariths(1))
  qed
  then show "unat (fst (satadd32 a 1 st)) = sat32 (Suc n)"
    and "snd (satadd32 a 1 st) = (if n < 2 ^ 32 - 1 then st else st OR STATUS_COUNTER_SATURATED)"
    unfolding satadd32_def c using assms e by (auto simp: sat32_def min_def)
qed

type_synonym trace_event = "u32 \<times> u8 \<times> u8"

definition peaks :: "trace_event list \<Rightarrow> trace_event list" where
  "peaks es = filter (\<lambda>(g, s, p). is_peak g p) es"

definition others :: "trace_event list \<Rightarrow> trace_event list" where
  "others es = filter (\<lambda>(g, s, p). \<not> is_peak g p) es"

definition stables :: "trace_event list \<Rightarrow> nat" where
  "stables es = length (filter (\<lambda>(g, s, p). s \<noteq> 0) es)"

definition run_trace :: "trace_event list \<Rightarrow> stability_trace" where
  "run_trace es = foldl (\<lambda>t (g, s, p). RmR_StabilityTrace_Add t g s p) RmR_StabilityTrace_Init es"

definition counts :: "stability_trace \<Rightarrow> trace_event list \<Rightarrow> bool" where
  "counts t es \<longleftrightarrow>
    unat (rows t) = sat32 (length es) \<and>
    unat (peak_total t) = sat32 (length (peaks es)) \<and> unat (peak_stable t) = sat32 (stables (peaks es)) \<and>
    unat (nonpeak_total t) = sat32 (length (others es)) \<and> unat (nonpeak_stable t) = sat32 (stables (others es)) \<and>
    status t AND STATUS_COUNTER_SATURATED = (if length es < 2 ^ 32 then 0 else STATUS_COUNTER_SATURATED)"

lemma split_lengths: "length (peaks es) \<le> length es" "length (others es) \<le> length es" "stables es \<le> length es"
  by (simp_all add: peaks_def others_def stables_def)

lemma sat_bit [simp]:
  "(st OR STATUS_COUNTER_SATURATED) AND STATUS_COUNTER_SATURATED = STATUS_COUNTER_SATURATED"
  by (simp add: and.commute)

lemma counts_step:
  assumes "counts t es"
  shows "counts (RmR_StabilityTrace_Add t g s p) (es @ [(g, s, p)])"
proof -
  note c = assms [unfolded counts_def]
  have l: "length (peaks es) \<le> length es" "length (others es) \<le> length es"
    "stables (peaks es) \<le> length es" "stables (others es) \<le> length es"
    using split_lengths [of es] split_lengths(3) [of "peaks es"] split_lengths(3) [of "others es"] by auto
  have sn: "stables (xs @ [(g, s, p)]) = stables xs + (if s = 0 then 0 else 1)" for xs
    by (simp add: stables_def)
  have p: "peaks (es @ [(g, s, p)]) = peaks es @ (if is_peak g p then [(g, s, p)] else [])"
    "others (es @ [(g, s, p)]) = others es @ (if is_peak g p then [] else [(g, s, p)])"
    by (simp_all add: peaks_def others_def)
  note satadd1' = satadd1 [of "rows t" "length es"] satadd1 [of "peak_total t" "length (peaks es)"]
    satadd1 [of "nonpeak_total t" "length (others es)"] satadd1 [of "peak_stable t" "stables (peaks es)"]
    satadd1 [of "nonpeak_stable t" "stables (others es)"]
  show ?thesis
    using c l
    by (auto simp: counts_def RmR_StabilityTrace_Add_def Let_def case_prod_beta satadd1' p sn)
qed

lemma counts_run: "counts (run_trace es) es"
proof (induction es rule: rev_induct)
  case Nil
  show ?case
    by (simp add: counts_def run_trace_def RmR_StabilityTrace_Init_def peaks_def others_def stables_def
        STATUS_COUNTER_SATURATED_def STATUS_NO_SAMPLES_def STATUS_NO_PEAK_SAMPLES_def STATUS_NO_NONPEAK_SAMPLES_def)
next
  case (snoc e es)
  then show ?case using counts_step by (cases e) (simp add: run_trace_def)
qed

lemma unat_shifted_div:
  fixes n d :: u32
  assumes "k \<le> 30" "unat n \<le> unat d" "d \<noteq> 0"
  shows "unat (ucast (push_bit k (ucast n :: u64) div ucast d) :: u32) = unat n * 2 ^ k div unat d"
    and "unat n * 2 ^ k div unat d \<le> 2 ^ k"
proof -
  have n: "unat n < 2 ^ 32" using unsigned_less [of n, where 'a = nat] by simp
  have p: "(2 :: nat) ^ k \<le> 2 ^ 30" using assms(1) by (intro power_increasing) simp_all
  have b: "unat n * 2 ^ k < 2 ^ 64"
    using mult_le_mono [OF less_imp_le [OF n] p] by simp
  have d: "unat d > 0" using assms(3) by (simp add: unat_gt_0)
  have "unat (push_bit k (ucast n :: u64)) = unat n * 2 ^ k"
    unfolding unsigned_push_bit_eq using b n by (simp add: push_bit_eq_mult unsigned_ucast_eq take_bit_nat_eq_self)
  moreover have "unat (ucast d :: u64) = unat d"
    using unsigned_less [of d, where 'a = nat] by (simp add: unsigned_ucast_eq take_bit_nat_eq_self)
  ultimately have "unat (push_bit k (ucast n :: u64) div ucast d) = unat n * 2 ^ k div unat d"
    by (simp add: unat_div_distrib)
  moreover show q: "unat n * 2 ^ k div unat d \<le> 2 ^ k"
    using d assms(2) by (metis div_le_mono mult.commute mult_le_mono1 nonzero_mult_div_cancel_left not_less_zero)
  ultimately show "unat (ucast (push_bit k (ucast n :: u64) div ucast d) :: u32) = unat n * 2 ^ k div unat d"
    using p by (simp add: unsigned_ucast_eq take_bit_nat_eq_self)
qed

lemma ratio_q30_exact:
  assumes "unat n \<le> unat d"
  shows "unat (ratio_q30 n d) = unat n * 2 ^ 30 div unat d" "unat (ratio_q30 n d) \<le> 2 ^ 30"
  using unat_shifted_div [of 30 n d] assms by (auto simp: ratio_q30_def)

lemma ratio_q16_exact:
  assumes "unat n \<le> unat d"
  shows "unat (ratio_q16 n d) = unat n * 2 ^ 16 div unat d" "unat (ratio_q16 n d) \<le> 2 ^ 16"
  using unat_shifted_div [of 16 n d] assms by (auto simp: ratio_q16_def)

lemma sint_small: "unat (x :: u32) \<le> 2 ^ 30 \<Longrightarrow> sint x = int (unat x)"
proof -
  assume "unat x \<le> 2 ^ 30"
  then have "int (unat x) \<le> int (2 ^ 30)" by (simp only: of_nat_le_iff)
  then have "uint x < 2 ^ 31" by simp
  moreover have "- (2 ^ 31) \<le> uint x" by (rule order_trans [of _ 0]) simp_all
  ultimately have "signed_take_bit 31 (uint x) = uint x" by (intro signed_take_bit_int_eq_self)
  then show ?thesis by (simp add: sint_uint)
qed

text \<open>
  The trace of any list of events, however long, holds its numbers of events, of events at a peak and
  of stable ones, each saturated at the largest 32-bit value. Finalizing gives the two rates as exact
  30-bit fractions of those counts, their signed difference, within one unit either way, and a status
  that reports saturation exactly when there were more events than the counter holds, and each kind of
  sample missing exactly when it is.
\<close>

theorem trace_exact:
  "let (st, t) = RmR_StabilityTrace_Finalize (run_trace es);
       rate = (\<lambda>es. sat32 (stables es) * 2 ^ 30 div sat32 (length es))
   in unat (rows t) = sat32 (length es)
      \<and> unat (peak_total t) = sat32 (length (peaks es)) \<and> unat (nonpeak_total t) = sat32 (length (others es))
      \<and> unat (peak_rate_q30 t) = rate (peaks es) \<and> unat (nonpeak_rate_q30 t) = rate (others es)
      \<and> delta_p_q30 t = int (rate (peaks es)) - int (rate (others es)) \<and> \<bar>delta_p_q30 t\<bar> \<le> 2 ^ 30
      \<and> st = (if length es < 2 ^ 32 then 0 else STATUS_COUNTER_SATURATED) OR (if es = [] then STATUS_NO_SAMPLES else 0)
           OR (if peaks es = [] then STATUS_NO_PEAK_SAMPLES else 0)
           OR (if others es = [] then STATUS_NO_NONPEAK_SAMPLES else 0)"
proof -
  define t where "t = run_trace es"
  have c: "counts t es" unfolding t_def by (rule counts_run)
  then have z: "(rows t = 0) = (es = [])" "(peak_total t = 0) = (peaks es = [])" "(nonpeak_total t = 0) = (others es = [])"
    by (auto simp: counts_def word_unat_eq_iff)
  have l: "unat (peak_stable t) \<le> unat (peak_total t)" "unat (nonpeak_stable t) \<le> unat (nonpeak_total t)"
    using c split_lengths(3) by (auto simp: counts_def intro: sat32_mono)
  note r = ratio_q30_exact [OF l(1)] ratio_q30_exact [OF l(2)]
  have d: "\<bar>int a - int b\<bar> \<le> 2 ^ 30" if "a \<le> 2 ^ 30" "b \<le> 2 ^ 30" for a b :: nat
    using that by (simp add: abs_le_iff)
  show ?thesis
    using c r d [OF r(2,4)]
    unfolding t_def [symmetric] RmR_StabilityTrace_Finalize_def Let_def sint_small [OF r(2)] sint_small [OF r(4)] z
    by (auto simp: counts_def or.assoc)
qed

end
