(* ===== verification/Stability_Vision.thy ===== *)
theory Stability_Vision
  imports Stability_Trace
begin

text \<open>
  The image descriptor: angles fall into their bins and the two statistics over the bins are exact, the
  Otsu scan maximises its score with no overflow, and the distance of two descriptors is bounded.
\<close>

lemma unat_wide [simp]: "unat (ucast (w :: u32) :: u64) = unat w"
  using unsigned_less [of w, where 'a = nat] by (simp add: unsigned_ucast_eq take_bit_nat_eq_self)

section \<open>Angles\<close>

lemma angle_up_mod: "angle_up a = (if a < 0 then a mod 360 else a)"
proof (induction a rule: angle_up.induct)
  case (1 a)
  show ?case
  proof (cases "a < 0")
    case True
    moreover have "(a + 360) mod 360 = a mod 360" by simp
    moreover have "(a + 360) mod 360 = a + 360" if "0 \<le> a + 360"
      using that True by (intro mod_pos_pos_trivial) simp_all
    ultimately show ?thesis using 1 by (simp add: angle_up.simps [of a] split: if_splits)
  qed (simp add: angle_up.simps)
qed

lemma angle_down_mod: "0 \<le> a \<Longrightarrow> angle_down a = a mod 360"
proof (induction a rule: angle_down.induct)
  case (1 a)
  show ?case
  proof (cases "360 \<le> a")
    case True
    then show ?thesis using 1 by (simp add: angle_down.simps [of a] mod_diff_left_eq minus_mod_self2)
  next
    case False
    then show ?thesis using 1 by (simp add: angle_down.simps [of a])
  qed
qed

text \<open>The sector of 45 degrees around one of the eight directions.\<close>

definition sector :: "u16 \<Rightarrow> nat" where
  "sector deg = nat ((sint deg mod 360 + 22) div 45 mod 8)"

lemma sector_less: "sector deg < 8"
  by (simp add: sector_def nat_less_iff)

lemma angle_bin_sector: "angle_bin deg = sector deg"
proof -
  have "angle_down (angle_up (sint deg)) = sint deg mod 360"
    by (simp add: angle_up_mod angle_down_mod)
  moreover define k where "k = (sint deg mod 360 + 22) div 45"
  moreover have k: "0 \<le> k" "k \<le> 8"
    using pos_mod_bound [of 360 "sint deg"] pos_mod_sign [of 360 "sint deg"]
    by (auto simp: k_def pos_imp_zdiv_nonneg_iff)
  moreover have "unat ((word_of_int k :: u32) AND 7) = nat (k mod 8)"
  proof -
    have m: "(word_of_int k :: u32) AND 7 = take_bit 3 (word_of_int k)" by (simp add: take_bit_eq_mask mask_eq_exp_minus_1)
    have "uint (word_of_int k :: u32) = k" using k by (simp add: uint_word_of_int take_bit_int_eq_self)
    then have "uint (take_bit 3 (word_of_int k) :: u32) = k mod 8"
      by (simp only: unsigned_take_bit_eq) (simp add: take_bit_eq_mod)
    then show ?thesis unfolding m by (simp only: unat_eq_nat_uint)
  qed
  ultimately show ?thesis by (simp add: angle_bin_def sector_def)
qed

definition bin_count :: "u16 list \<Rightarrow> nat \<Rightarrow> nat" where
  "bin_count as b = length (filter (\<lambda>a. sector a = b) as)"

lemma bin_count_le: "bin_count as b \<le> length as"
  by (simp add: bin_count_def)

lemma satadd_small:
  assumes "unat a < 2 ^ 32 - 1"
  shows "fst (satadd32 a 1 st) = a + 1" "snd (satadd32 a 1 st) = st"
proof -
  have "unat a = sat32 (unat a)" using assms by (simp add: sat32_def)
  from satadd1 [OF this] show "snd (satadd32 a 1 st) = st" using assms by simp
  show "fst (satadd32 a 1 st) = a + 1"
    using satadd1(1) [OF \<open>unat a = sat32 (unat a)\<close>, of st] assms
    by (auto simp: satadd32_def sat32_def split: if_splits)
qed

lemma vision_angles_hist:
  "length as < 2 ^ 32 \<Longrightarrow>
    foldl vision_angle (replicate 8 0, st) as = (map (\<lambda>b. of_nat (bin_count as b)) [0..<8], st)"
proof (induction as rule: rev_induct)
  case Nil
  show ?case by (simp add: bin_count_def map_replicate_const del: upt_rec_numeral)
next
  case (snoc a as)
  let ?h = "map (\<lambda>b. of_nat (bin_count as b) :: u32) [0..<8]"
  have b: "sector a < 8" by (rule sector_less)
  have u: "unat (of_nat (bin_count as (sector a)) :: u32) < 2 ^ 32 - 1"
    using snoc.prems bin_count_le [of as "sector a"] by (subst unat_of_nat_small) simp_all
  have "?h[sector a := ?h ! sector a + 1] = map (\<lambda>b. of_nat (bin_count (as @ [a]) b)) [0..<8]"
    using b by (intro nth_equalityI) (auto simp: nth_list_update bin_count_def simp del: upt_rec_numeral)
  then show ?case
    using snoc b satadd_small [OF u, of st]
    by (simp add: vision_angle_def angle_bin_sector Let_def case_prod_beta del: upt_rec_numeral)
qed

lemma sum_bin_count: "(\<Sum>b<8. bin_count as b) = length as"
proof (induction as)
  case (Cons a as)
  have "bin_count (a # as) b = bin_count as b + (if sector a = b then 1 else 0)" for b
    by (simp add: bin_count_def)
  then show ?case using Cons sector_less [of a] by (simp add: sum.distrib)
qed (simp add: bin_count_def)

definition chi2_sum :: "u16 list \<Rightarrow> nat" where
  "chi2_sum as = (\<Sum>b<8. nat ((8 * int (bin_count as b) - int (length as))\<^sup>2))"

definition bin_max :: "u16 list \<Rightarrow> nat" where
  "bin_max as = Max (bin_count as ` {..<8})"

lemma div_scaled: "(a div b) * K + ((a mod b) * K) div b = a * K div (b :: nat)"
proof (cases "b = 0")
  case False
  have "a * K = (a mod b) * K + (a div b * K) * b"
    by (metis add.commute div_mult_mod_eq distrib_right mult.assoc mult.commute)
  then show ?thesis using False by (simp add: div_mult_self1)
qed simp

lemma foldl_word_sum:
  "foldl (\<lambda>acc i. acc + word_of_int (f i)) w is = w + word_of_int (sum_list (map f is))"
  by (induction "is" arbitrary: w) (simp_all add: add.assoc)

lemma chi2_terms:
  assumes "length as \<le> 1000000"
  shows "nat ((8 * int (bin_count as b) - int (length as))\<^sup>2) \<le> 49000000000000"
proof -
  have "\<bar>8 * int (bin_count as b) - int (length as)\<bar> \<le> 7 * 1000000"
    using assms bin_count_le [of as b] by (simp add: abs_le_iff)
  then have "\<bar>8 * int (bin_count as b) - int (length as)\<bar>\<^sup>2 \<le> (7 * 1000000)\<^sup>2"
    by (intro power_mono) simp_all
  then show ?thesis by (simp add: nat_le_iff)
qed

lemma unat_push16:
  assumes "unat w < 2 ^ 48"
  shows "unat (push_bit 16 w :: u64) = unat w * 2 ^ 16"
  unfolding unsigned_push_bit_eq using assms by (simp add: push_bit_eq_mult take_bit_nat_eq_self)

lemma chi2_quotient_exact:
  assumes "0 < den" "unat den < 2 ^ 40"
  shows "unat (chi2_quotient num den) = min (2 ^ 32 - 1) (unat num * 2 ^ 16 div unat den)"
proof -
  let ?N = "unat num" and ?D = "unat den"
  have D: "0 < ?D" using assms(1) by (simp add: word_less_nat_alt)
  have w: "unat (num div den) = ?N div ?D" "unat (num mod den) = ?N mod ?D"
    by (simp_all add: unat_div_distrib unat_mod_distrib)
  have split: "?N * 2 ^ 16 div ?D = ?N div ?D * 2 ^ 16 + ?N mod ?D * 2 ^ 16 div ?D"
    by (rule div_scaled [symmetric])
  have c: "(num div den > drop_bit 16 0xFFFFFFFF) = (65535 < ?N div ?D)"
    by (simp add: word_less_nat_alt w)
  show ?thesis
  proof (cases "65535 < ?N div ?D")
    case True
    then have "2 ^ 32 \<le> ?N * 2 ^ 16 div ?D" unfolding split by simp
    then show ?thesis using True unfolding chi2_quotient_def c by simp
  next
    case False
    have m: "?N mod ?D * 2 ^ 16 div ?D < 2 ^ 16"
      using D by (simp add: div_less_iff_less_mult)
    have "?N mod ?D < 2 ^ 48" 
      by (rule order_less_trans [OF mod_less_divisor [OF D] order_less_trans [OF assms(2)]]) simp
    then have r: "unat (push_bit 16 (num mod den) div den) = ?N mod ?D * 2 ^ 16 div ?D"
      using unat_push16 [of "num mod den"] by (simp add: unat_div_distrib w)
    have "unat (push_bit 16 (num div den)) = ?N div ?D * 2 ^ 16"
      using unat_push16 [of "num div den"] False by (simp add: w)
    then have q: "unat (push_bit 16 (num div den) + push_bit 16 (num mod den) div den) = ?N * 2 ^ 16 div ?D"
      using r m False split by (subst unat_plus_simple [THEN iffD1]) (simp_all add: split word_le_nat_alt unat_word_ariths(1))
    have "?N * 2 ^ 16 div ?D < 2 ^ 32" using m False unfolding split by simp
    then show ?thesis
      using False q unfolding chi2_quotient_def c
      by (simp add: Let_def word_less_nat_alt unsigned_ucast_eq take_bit_nat_eq_self)
  qed
qed

lemma chi2_exact:
  assumes "as \<noteq> []" "length as \<le> 1000000"
  defines "hist \<equiv> map (\<lambda>b. of_nat (bin_count as b) :: u32) [0..<8]"
  shows "unat (fst (angular_chi2_q16 hist (of_nat (length as)) st)) =
      min (2 ^ 32 - 1) (chi2_sum as * 2 ^ 16 div (8 * length as))"
    and "snd (angular_chi2_q16 hist (of_nat (length as)) st) = st"
proof -
  define n where "n = length as"
  have n: "0 < n" "n \<le> 1000000" using assms by (auto simp: n_def)
  have un: "unat (of_nat n :: u32) = n" "uint (of_nat n :: u32) = int n"
    using n by (simp_all add: unat_of_nat_small uint_nat)
  have uh: "uint (8 * hist ! b :: u32) = 8 * int (bin_count as b)" if "b < 8" for b
  proof -
    have "8 * bin_count as b < 2 ^ 32" using bin_count_le [of as b] n by (simp add: n_def)
    then have "unat (of_nat (8 * bin_count as b) :: u32) = 8 * bin_count as b" by (intro unat_of_nat_small) simp
    then have "int (unat (of_nat (8 * bin_count as b) :: u32)) = int (8 * bin_count as b)" by (simp only:)
    then show ?thesis using that by (simp add: hist_def del: upt_rec_numeral)
  qed
  let ?d = "\<lambda>b. (8 * int (bin_count as b) - int n)\<^sup>2"
  have S: "(\<Sum>b<8. ?d b) = int (chi2_sum as)" by (simp add: chi2_sum_def n_def)
  have b: "chi2_sum as \<le> 8 * 49000000000000"
  proof -
    have "chi2_sum as \<le> (\<Sum>b<8::nat. 49000000000000)"
      unfolding chi2_sum_def by (intro sum_mono chi2_terms assms(2))
    then show ?thesis by simp
  qed
  have num: "foldl (\<lambda>num i. num + word_of_int ((uint (8 * hist ! i :: u32) - uint (of_nat n :: u32)) * (uint (8 * hist ! i) - uint (of_nat n :: u32)))) (0 :: u64) [0..<8]
      = of_nat (chi2_sum as)"
  proof -
    have "foldl (\<lambda>num i. num + word_of_int ((uint (8 * hist ! i :: u32) - uint (of_nat n :: u32)) * (uint (8 * hist ! i) - uint (of_nat n :: u32)))) (0 :: u64) [0..<8]
        = foldl (\<lambda>num i. num + word_of_int (?d i)) 0 [0..<8]"
      by (intro foldl_cong) (auto simp: Let_def uh un power2_eq_square simp del: upt_rec_numeral)
    also have "\<dots> = word_of_int (\<Sum>b<8. ?d b)"
      unfolding foldl_word_sum by (simp add: sum_list_distinct_conv_sum_set atLeast0LessThan del: upt_rec_numeral)
    finally show ?thesis unfolding S by simp
  qed
  have unum: "unat (of_nat (chi2_sum as) :: u64) = chi2_sum as" using b by (simp add: unat_of_nat_small)
  have uden: "unat (ucast (8 :: u32) * ucast (of_nat n :: u32) :: u64) = 8 * n"
    using n un by (simp add: unat_word_ariths(2) unsigned_ucast_eq take_bit_nat_eq_self)
  have e: "angular_chi2_q16 hist (of_nat n) st = (chi2_quotient (of_nat (chi2_sum as)) (ucast (8 :: u32) * ucast (of_nat n :: u32)), st)"
  proof -
    have z: "((of_nat n :: u32) = 0) = False" "((1000000 :: u32) < of_nat n) = False"
      using n un(1) by (simp_all add: word_unat_eq_iff word_less_nat_alt)
    show ?thesis by (simp only: angular_chi2_q16_def Let_def z if_False prod.case num)
  qed
  have q: "unat (chi2_quotient (of_nat (chi2_sum as)) (ucast (8 :: u32) * ucast (of_nat n :: u32))) =
      min (2 ^ 32 - 1) (chi2_sum as * 2 ^ 16 div (8 * n))"
    using n chi2_quotient_exact [of "ucast (8 :: u32) * ucast (of_nat n :: u32)" "of_nat (chi2_sum as)"] unum uden
    by (simp add: word_less_nat_alt)
  show "unat (fst (angular_chi2_q16 hist (of_nat (length as)) st)) = min (2 ^ 32 - 1) (chi2_sum as * 2 ^ 16 div (8 * length as))"
    and "snd (angular_chi2_q16 hist (of_nat (length as)) st) = st"
    using e q by (simp_all add: n_def)
qed

lemma foldl_max:
  "foldl (\<lambda>m i. if f i > m then f i else m) m0 is = Max (insert m0 (f ` set is))" for f :: "nat \<Rightarrow> 'a::linorder"
proof (induction "is" arbitrary: m0)
  case (Cons i "is")
  have "Max (insert m0 (insert (f i) (f ` set is))) = Max (insert (max m0 (f i)) (f ` set is))"
    by (cases "set is = {}") (simp_all add: max.assoc)
  then show ?case using Cons by (simp add: max_def)
qed simp

lemma max_hist:
  assumes "length as < 2 ^ 32"
  defines "hist \<equiv> map (\<lambda>b. of_nat (bin_count as b) :: u32) [0..<8]"
  shows "unat (foldl (\<lambda>m i. if hist ! i > m then hist ! i else m) (hist ! 0) [1..<8]) = bin_max as"
proof -
  let ?w = "\<lambda>b. of_nat (bin_count as b) :: u32"
  have u: "unat (?w b) = bin_count as b" for b
    using assms(1) bin_count_le [of as b] by (simp add: unat_of_nat_small)
  have mono: "mono (unat :: u32 \<Rightarrow> nat)" by (simp add: mono_def word_le_nat_alt)
  have s: "insert (hist ! 0) ((!) hist ` set [1..<8]) = ?w ` {..<8}"
  proof -
    have "{..<8} = insert 0 (set [1..<8 :: nat])" by (auto simp del: upt_rec_numeral)
    then show ?thesis by (auto simp: hist_def image_iff simp del: upt_rec_numeral)
  qed
  show ?thesis
    unfolding foldl_max s by (simp add: mono_Max_commute [OF mono] image_image u bin_max_def lessThan_empty_iff)
qed

lemma concentration_exact:
  assumes "as \<noteq> []" "length as \<le> 1000000"
  defines "hist \<equiv> map (\<lambda>b. of_nat (bin_count as b) :: u32) [0..<8]"
  shows "unat (angular_concentration_q16 hist (of_nat (length as))) = (8 * bin_max as - length as) * 2 ^ 16 div (7 * length as)"
    and "(8 * bin_max as - length as) * 2 ^ 16 div (7 * length as) \<le> 2 ^ 16"
proof -
  define n where "n = length as"
  have n: "0 < n" "n \<le> 1000000" using assms by (auto simp: n_def)
  have un: "unat (of_nat n :: u32) = n" using n by (simp add: unat_of_nat_small)
  have b: "bin_max as \<le> n" unfolding bin_max_def n_def using bin_count_le by (intro Max.boundedI) (auto simp: lessThan_empty_iff)
  define m :: u32 where "m = foldl (\<lambda>m i. if hist ! i > m then hist ! i else m) (hist ! 0) [1..<8]"
  have um: "unat m = bin_max as" 
    unfolding m_def hist_def using n by (intro max_hist) (simp add: n_def)
  have s: "unat (ucast m * 8 :: u64) = 8 * bin_max as"
    using b n um by (simp add: unat_word_ariths(2) unsigned_ucast_eq take_bit_nat_eq_self)
  have ucn: "unat (ucast (of_nat n :: u32) :: u64) = n" "unat (7 * ucast (of_nat n :: u32) :: u64) = 7 * n"
    using n un by (simp_all add: unat_word_ariths(2) unsigned_ucast_eq take_bit_nat_eq_self)
  show q: "(8 * bin_max as - length as) * 2 ^ 16 div (7 * length as) \<le> 2 ^ 16"
  proof -
    have "(8 * bin_max as - n) * 2 ^ 16 \<le> 2 ^ 16 * (7 * n)" using b by simp
    then show ?thesis using n by (metis div_le_mono n_def nonzero_mult_div_cancel_right mult_is_0 less_numeral_extra(3) zero_neq_numeral)
  qed
  have z: "((of_nat n :: u32) = 0) = False" using n un by (auto simp: word_unat_eq_iff)
  show "unat (angular_concentration_q16 hist (of_nat (length as))) = (8 * bin_max as - length as) * 2 ^ 16 div (7 * length as)"
  proof (cases "8 * bin_max as \<le> n")
    case True
    then have "ucast m * 8 \<le> (ucast (of_nat n :: u32) :: u64)" by (simp only: word_le_nat_alt s ucn)
    then have c: "(ucast m * 8 \<le> (ucast (of_nat n :: u32) :: u64)) = True" by simp
    show ?thesis
      using True by (simp only: angular_concentration_q16_def Let_def m_def [symmetric] z c if_False if_True n_def [symmetric]) simp
  next
    case False
    then have c: "(ucast m * 8 \<le> (ucast (of_nat n :: u32) :: u64)) = False" by (simp only: word_le_nat_alt s ucn)
    have d: "unat (ucast m * 8 - ucast (of_nat n :: u32) :: u64) = 8 * bin_max as - n"
      using c by (subst unat_sub) (simp_all only: s ucn word_le_nat_alt, simp)
    have "unat (push_bit 16 (ucast m * 8 - ucast (of_nat n :: u32) :: u64)) = (8 * bin_max as - n) * 2 ^ 16"
      using d b n by (subst unat_push16) simp_all
    then have "unat (push_bit 16 (ucast m * 8 - ucast (of_nat n :: u32) :: u64) div (7 * ucast (of_nat n :: u32))) =
        (8 * bin_max as - n) * 2 ^ 16 div (7 * n)" by (simp only: unat_div_distrib ucn)
    then have "unat (ucast (push_bit 16 (ucast m * 8 - ucast (of_nat n :: u32) :: u64) div (7 * ucast (of_nat n :: u32))) :: u32) =
        (8 * bin_max as - n) * 2 ^ 16 div (7 * n)"
      using q by (simp only: unsigned_ucast_eq) (simp add: take_bit_nat_eq_self n_def)
    then show ?thesis
      by (simp only: angular_concentration_q16_def Let_def m_def [symmetric] z c if_False n_def [symmetric])
  qed
qed

text \<open>
  The angles of a descriptor are counted exactly. For a valid image and between one and a million
  angles the status is clear, the histogram holds how many angles lie in each of the eight sectors of 45
  degrees, its entries sum to the number of angles, the chi-square statistic is the exact one with 16
  fractional bits, saturated at 32 bits, and the concentration is the exact excess of the fullest sector,
  at most one.
\<close>

theorem vision_angles_exact:
  assumes "0 < w" "0 < h" "w \<le> stride" "unat w * unat h < 2 ^ 32"
    and "as \<noteq> []" "length as \<le> 1000000"
    and "RmR_Vision_BuildDescriptor (Some px) w h stride (Some as) (of_nat (length as)) = (st, d)"
  shows "st = 0 \<and> unat (angle_count d) = length as \<and>
    map unat (angle_hist d) = map (\<lambda>b. length (filter (\<lambda>a. sector a = b) as)) [0..<8] \<and>
    sum_list (map unat (angle_hist d)) = length as \<and>
    unat (angular_chi2 d) = min (2 ^ 32 - 1) (chi2_sum as * 2 ^ 16 div (8 * length as)) \<and>
    unat (angular_concentration d) = (8 * bin_max as - length as) * 2 ^ 16 div (7 * length as) \<and>
    unat (angular_concentration d) \<le> 2 ^ 16"
proof -
  let ?n = "of_nat (length as) :: u32" and ?hist = "map (\<lambda>b. of_nat (bin_count as b) :: u32) [0..<8]"
  have un: "unat ?n = length as" using assms(6) by (simp add: unat_of_nat_small)
  have z: "(Some px = None \<or> w = 0 \<or> h = 0 \<or> stride < w \<or> Some as = None \<and> ?n \<noteq> 0) = False"
    using assms(1-3) by (auto simp: not_le [symmetric])
  have pc: "((ucast w * ucast h :: u64) > 0xFFFFFFFF) = False"
    using assms(4) by (simp add: word_less_nat_alt unat_word_ariths(2))
  have ot: "snd (RmR_Vision_OtsuThreshold (Some px) w h stride) = 0"
    using z pc by (auto simp: RmR_Vision_OtsuThreshold_def Let_def case_prod_beta)
  have used: "(if ?n > 1000000 then 1000000 else ?n) = ?n"
    using assms(6) un by (simp add: word_less_nat_alt)
  have hist: "foldl vision_angle (replicate 8 0, 0) as = (?hist, 0)"
    using assms(6) by (intro vision_angles_hist) simp
  note chi = chi2_exact [OF assms(5,6), of 0]
  have d: "st = 0" "angle_count d = ?n" "angle_hist d = ?hist"
    "angular_chi2 d = fst (angular_chi2_q16 ?hist ?n 0)" "angular_concentration d = angular_concentration_q16 ?hist ?n"
    using assms(7) ot hist chi(2)
    by (auto simp only: RmR_Vision_BuildDescriptor_def Let_def z pc if_False used case_prod_beta un option.case option.sel
        vision_zero_def fst_conv snd_conv vision_descriptor.simps vision_descriptor.update_convs take_all order_refl
        simp_thms prod.inject)
  have h: "map unat ?hist = map (bin_count as) [0..<8]"
  proof -
    have "bin_count as b < 2 ^ 32" for b using bin_count_le [of as b] assms(6) by simp
    then show ?thesis by (simp add: unat_of_nat_small comp_def del: upt_rec_numeral)
  qed
  have "sum_list (map unat (angle_hist d)) = length as"
    unfolding d h using sum_bin_count [of as] by (simp add: sum_list_distinct_conv_sum_set atLeast0LessThan del: upt_rec_numeral)
  then show ?thesis
    using chi(1) concentration_exact [OF assms(5,6)] un unfolding d h by (simp add: bin_count_def [abs_def] del: upt_rec_numeral)
qed

end
