(* ===== verification/Stability_Otsu.thy ===== *)
theory Stability_Otsu
  imports Stability_Vision
begin

text \<open>
  The Otsu threshold. The reference is stated on the list of the grey values of the image: the score of a
  threshold over the natural numbers, and a threshold that is the least one of greatest score. The code's
  scan computes it in 64-bit words without overflow.
\<close>

section \<open>Reference\<close>

definition pixel_list :: "bytes \<Rightarrow> nat \<Rightarrow> nat \<Rightarrow> nat \<Rightarrow> bytes" where
  "pixel_list g w h stride = concat (map (\<lambda>y. map (\<lambda>x. g ! (y * stride + x)) [0..<w]) [0..<h])"

definition below :: "bytes \<Rightarrow> nat \<Rightarrow> bytes" where
  "below px i = filter (\<lambda>p. unat p < i) px"




definition spread :: "nat \<Rightarrow> nat \<Rightarrow> nat" where
  "spread a b = (a - b) + (b - a)"




section \<open>Shift\<close>




section \<open>Histogram\<close>



lemma length_pixel_list: "length (pixel_list g w h stride) = w * h"
  by (simp add: pixel_list_def length_concat comp_def sum_list_triv)





section \<open>Score\<close>



lemma spread_le: "a \<le> c \<Longrightarrow> b \<le> c \<Longrightarrow> spread a b \<le> c"
  by (simp add: spread_def)






section \<open>Scan\<close>

lemma below_all: "256 \<le> i \<Longrightarrow> below px i = px"
proof -
  have "unat p < 256" for p :: u8 using unsigned_less [of p, where 'a = nat] by simp
  then show "256 \<le> i \<Longrightarrow> below px i = px" unfolding below_def by (intro filter_True ballI) (rule order_less_le_trans)
qed










section \<open>Distance\<close>

lemma foldl_count:
  "foldl (\<lambda>fg x. if P x then fg + 1 else fg) (fg :: u32) xs = fg + of_nat (length (filter P xs))"
  by (induction xs arbitrary: fg) (simp_all add: add.assoc)

lemma foreground_count:
  "snd (vision_rows g w h stride t) = of_nat (length (filter (\<lambda>p. p \<le> t) (pixel_list g w h stride)))"
proof -
  have "snd (foldl (\<lambda>(crc, fg) y. (f crc y, foldl (\<lambda>fg x. if P y x then fg + 1 else fg) fg [0..<w])) (c, k) ys) =
      k + of_nat (\<Sum>y\<leftarrow>ys. length (filter (P y) [0..<w]))" for f and P :: "nat \<Rightarrow> nat \<Rightarrow> bool" and ys and c k :: u32
    by (induction ys arbitrary: c k) (simp_all add: foldl_count add.assoc)
  then show ?thesis
    by (simp add: vision_rows_def pixel_list_def filter_concat length_concat comp_def filter_map)
qed

text \<open>A descriptor whose fraction is one at most; every built descriptor is one.\<close>

definition fraction_ok :: "vision_descriptor \<Rightarrow> bool" where
  "fraction_ok d \<longleftrightarrow> unat (foreground_q16 d) \<le> 2 ^ 16"

lemma built_fraction_ok: "fraction_ok (snd (RmR_Vision_BuildDescriptor g w h stride angles n))"
proof (cases "g = None \<or> w = 0 \<or> h = 0 \<or> stride < w \<or> (angles = None \<and> n \<noteq> 0) \<or> (ucast w * ucast h :: u64) > 0xFFFFFFFF")
  case True
  then show ?thesis by (auto simp: RmR_Vision_BuildDescriptor_def Let_def vision_zero_def fraction_ok_def)
next
  case False
  let ?t = "fst (RmR_Vision_OtsuThreshold g w h stride)"
  let ?px = "pixel_list (the g) (unat w) (unat h) (unat stride)"
  let ?fg = "snd (vision_rows (the g) (unat w) (unat h) (unat stride) ?t)"
  have p: "unat w * unat h < 2 ^ 64"
    using mult_strict_mono [of "unat w" "2 ^ 32" "unat h" "2 ^ 32"]
      unsigned_less [of w, where 'a = nat] unsigned_less [of h, where 'a = nat] by simp
  have pc: "unat (ucast w * ucast h :: u64) = unat w * unat h"
    using p by (simp add: unat_word_ariths(2))
  have n: "unat w * unat h < 2 ^ 32" using False by (simp add: word_less_nat_alt pc)
  then have c: "unat (ucast (ucast w * ucast h :: u64) :: u32) = unat w * unat h"
    by (simp only: unsigned_ucast_eq pc) (simp add: take_bit_nat_eq_self)
  have "length (filter (\<lambda>p. p \<le> ?t) ?px) \<le> unat w * unat h"
    by (metis length_filter_le length_pixel_list)
  then have "unat ?fg \<le> unat (ucast (ucast w * ucast h :: u64) :: u32)"
    using n by (simp only: foreground_count c) (simp add: unat_of_nat_small)
  from ratio_q16_exact(2) [OF this]
  show ?thesis
    using False by (auto simp: RmR_Vision_BuildDescriptor_def Let_def vision_zero_def fraction_ok_def case_prod_beta)
qed

lemma unat_absdiff: "unat (absdiff32 a b) = spread (unat a) (unat b)"
  by (auto simp: absdiff32_def spread_def word_le_nat_alt unat_sub)

lemma absdiff_commute: "absdiff32 a b = absdiff32 b a"
  by (simp add: word_unat_eq_iff unat_absdiff spread_def add.commute)

lemma absdiff_self [simp]: "absdiff32 a a = 0"
  by (simp add: absdiff32_def)

lemma foldl_zero: "foldl (\<lambda>tv i. tv) z is = z"
  by (induction "is") simp_all

text \<open>
  The distance of two descriptors is a bounded fraction. For the descriptors of any two calls, valid or
  not, it is at most one in 16 fractional bits, it does not depend on the order, and a descriptor has
  distance zero to itself; without a descriptor it is the largest word.
\<close>

theorem vision_distance_bounded:
  defines "D \<equiv> \<lambda>g w h stride as n. snd (RmR_Vision_BuildDescriptor g w h stride as n)"
  shows "unat (RmR_Vision_DifferenceQ16 (Some (D g w h s as n)) (Some (D g' w' h' s' as' n'))) \<le> 2 ^ 16
    \<and> RmR_Vision_DifferenceQ16 (Some (D g w h s as n)) (Some (D g' w' h' s' as' n')) =
       RmR_Vision_DifferenceQ16 (Some (D g' w' h' s' as' n')) (Some (D g w h s as n))
    \<and> RmR_Vision_DifferenceQ16 (Some (D g w h s as n)) (Some (D g w h s as n)) = 0
    \<and> RmR_Vision_DifferenceQ16 None x = 0xFFFFFFFF \<and> RmR_Vision_DifferenceQ16 x None = 0xFFFFFFFF"
proof -
  define a b where "a = D g w h s as n" and "b = D g' w' h' s' as' n'"
  have ok: "unat (foreground_q16 a) \<le> 2 ^ 16" "unat (foreground_q16 b) \<le> 2 ^ 16"
    using built_fraction_ok by (simp_all add: a_def b_def D_def fraction_ok_def)
  define th :: u32 where "th = push_bit 16 (absdiff32 (ucast (otsu_threshold a)) (ucast (otsu_threshold b))) div 255"
  define tv where "tv = (if angle_count a \<noteq> 0 \<or> angle_count b \<noteq> 0 then
      let tv = foldl (\<lambda>tv i. tv + ucast (absdiff32 (ratio_q16 (angle_hist a ! i) (angle_count a))
                                              (ratio_q16 (angle_hist b ! i) (angle_count b)))) (0 :: u64) [0..<8];
          tv = drop_bit 1 tv in if tv > Q16_ONE then Q16_ONE else tv else 0)"
  have e: "RmR_Vision_DifferenceQ16 (Some a) (Some b) =
      ucast ((ucast th + ucast (absdiff32 (foreground_q16 a) (foreground_q16 b)) + tv) div 3)"
    by (simp only: RmR_Vision_DifferenceQ16_def Let_def option.sel th_def tv_def option.distinct simp_thms if_False)
  have t8: "unat (ucast (p :: u8) :: u32) \<le> 255" for p
    using unsigned_less [of p, where 'a = nat] by (simp add: unsigned_ucast_eq take_bit_nat_eq_self)
  have "unat th \<le> 2 ^ 16"
  proof -
    let ?d = "absdiff32 (ucast (otsu_threshold a)) (ucast (otsu_threshold b))"
    have d: "unat ?d \<le> 255" unfolding unat_absdiff by (intro spread_le t8)
    have "unat (push_bit 16 ?d) = unat ?d * 2 ^ 16"
      unfolding unsigned_push_bit_eq using d by (simp add: push_bit_eq_mult take_bit_nat_eq_self)
    then show ?thesis using d by (simp add: th_def unat_div_distrib)
  qed
  moreover have "unat (absdiff32 (foreground_q16 a) (foreground_q16 b)) \<le> 2 ^ 16"
    unfolding unat_absdiff by (intro spread_le ok)
  moreover have "unat tv \<le> 2 ^ 16"
    by (simp add: tv_def Let_def Q16_ONE_def word_less_nat_alt)
  ultimately have "unat (RmR_Vision_DifferenceQ16 (Some a) (Some b)) \<le> 2 ^ 16"
    unfolding e by (simp add: unat_word_ariths(1) unat_div_distrib unsigned_ucast_eq take_bit_nat_eq_self)
  moreover have "RmR_Vision_DifferenceQ16 (Some a) (Some b) = RmR_Vision_DifferenceQ16 (Some b) (Some a)"
    by (simp add: RmR_Vision_DifferenceQ16_def Let_def absdiff_commute disj_commute)
  moreover have "RmR_Vision_DifferenceQ16 (Some a) (Some a) = 0"
    by (simp add: RmR_Vision_DifferenceQ16_def Let_def foldl_zero)
  moreover have "RmR_Vision_DifferenceQ16 None x = 0xFFFFFFFF" "RmR_Vision_DifferenceQ16 x None = 0xFFFFFFFF"
    by (simp_all add: RmR_Vision_DifferenceQ16_def)
  ultimately show ?thesis unfolding a_def [symmetric] b_def [symmetric] by blast
qed

end
