(* ===== verification/Visual.thy ===== *)
theory Visual
  imports Stability_Otsu
begin

text \<open>
  The visual prototypes of \<open>rmr/src/rmr_visual_prototype.c\<close>: named sets of image descriptors with their
  seal, the comparison with a query, the byte capsule, and the store with its classification. Pointers
  are options; where the C code writes a count through an optional pointer, the written value is
  returned. A C string is its list of bytes with the final zero. \<open>size_t\<close> has 64 bits and no sum below
  reaches its limit.
\<close>

section \<open>Constants\<close>

definition RMR_VISUAL_CAPSULE_HEADER_SIZE :: nat where "RMR_VISUAL_CAPSULE_HEADER_SIZE = 36"
definition RMR_VISUAL_CAPSULE_VIEW_SIZE :: nat where "RMR_VISUAL_CAPSULE_VIEW_SIZE = 92"
definition RMR_VISUAL_CAPSULE_TRAILER_SIZE :: nat where "RMR_VISUAL_CAPSULE_TRAILER_SIZE = 4"

definition RMR_VISUAL_API_VERSION :: u32 where "RMR_VISUAL_API_VERSION = 1"
definition RMR_VISUAL_PROTOTYPE_MAGIC :: u32 where "RMR_VISUAL_PROTOTYPE_MAGIC = 0x52565031"
definition RMR_VISUAL_CAPSULE_MAGIC :: u32 where "RMR_VISUAL_CAPSULE_MAGIC = 0x52564331"
definition RMR_VISUAL_MAX_LABEL :: nat where "RMR_VISUAL_MAX_LABEL = 32"
definition RMR_VISUAL_MAX_VIEWS :: nat where "RMR_VISUAL_MAX_VIEWS = 16"
definition RMR_VISUAL_VIEW_ANY :: u8 where "RMR_VISUAL_VIEW_ANY = 0xff"

definition VISUAL_OK :: u32 where "VISUAL_OK = 0"
definition VISUAL_BAD_ARGUMENT :: u32 where "VISUAL_BAD_ARGUMENT = push_bit 0 1"
definition VISUAL_EMPTY :: u32 where "VISUAL_EMPTY = push_bit 1 1"
definition VISUAL_FULL :: u32 where "VISUAL_FULL = push_bit 2 1"
definition VISUAL_DUPLICATE_VIEW :: u32 where "VISUAL_DUPLICATE_VIEW = push_bit 3 1"
definition VISUAL_NO_MATCH :: u32 where "VISUAL_NO_MATCH = push_bit 4 1"
definition VISUAL_AMBIGUOUS :: u32 where "VISUAL_AMBIGUOUS = push_bit 5 1"
definition VISUAL_BAD_MAGIC :: u32 where "VISUAL_BAD_MAGIC = push_bit 6 1"
definition VISUAL_BAD_VERSION :: u32 where "VISUAL_BAD_VERSION = push_bit 7 1"
definition VISUAL_TRUNCATED :: u32 where "VISUAL_TRUNCATED = push_bit 8 1"
definition VISUAL_CRC_MISMATCH :: u32 where "VISUAL_CRC_MISMATCH = push_bit 9 1"
definition VISUAL_UNSEALED :: u32 where "VISUAL_UNSEALED = push_bit 10 1"
definition RMR_VISUAL_ADD_REPLACE :: u32 where "RMR_VISUAL_ADD_REPLACE = push_bit 0 1"

section \<open>Data\<close>

record visual_view =
  view_id :: u8
  view_flags :: u8
  view_reserved :: u16
  sample_id :: u32
  source_crc32c :: u32
  view_descriptor :: vision_descriptor

record visual_prototype =
  proto_magic :: u32
  proto_version :: u32
  class_id :: u32
  proto_flags :: u32
  view_count :: u32
  view_mask :: u32
  prototype_crc32c :: u32
  label :: bytes
  views :: "visual_view list"

record visual_match =
  match_status :: u32
  distance_q16 :: u32
  score_q16 :: u32
  best_view_id :: u32
  compared_views :: u32
  match_crc32c :: u32

record visual_store =
  slots :: "visual_prototype list option"
  capacity :: u32
  store_count :: u32

record visual_classification =
  class_status :: u32
  slot_index :: u32
  found_class_id :: u32
  found_score_q16 :: u32
  runner_up_q16 :: u32
  margin_q16 :: u32
  found_view_id :: u32

text \<open>The results of \<open>rmr_visual_zero\<close> on each structure.\<close>

definition visual_zero_view :: visual_view where
  "visual_zero_view =
    \<lparr>view_id = 0, view_flags = 0, view_reserved = 0, sample_id = 0, source_crc32c = 0, view_descriptor = vision_zero\<rparr>"

definition visual_zero_prototype :: visual_prototype where
  "visual_zero_prototype =
    \<lparr>proto_magic = 0, proto_version = 0, class_id = 0, proto_flags = 0, view_count = 0, view_mask = 0,
     prototype_crc32c = 0, label = replicate RMR_VISUAL_MAX_LABEL 0,
     views = replicate RMR_VISUAL_MAX_VIEWS visual_zero_view\<rparr>"

definition visual_zero_match :: visual_match where
  "visual_zero_match =
    \<lparr>match_status = 0, distance_q16 = 0, score_q16 = 0, best_view_id = 0, compared_views = 0, match_crc32c = 0\<rparr>"

definition visual_zero_classification :: visual_classification where
  "visual_zero_classification =
    \<lparr>class_status = 0, slot_index = 0, found_class_id = 0, found_score_q16 = 0, runner_up_q16 = 0,
     margin_q16 = 0, found_view_id = 0\<rparr>"

section \<open>Strings, bytes and checksums\<close>

definition rmr_visual_strnlen :: "bytes option \<Rightarrow> nat \<Rightarrow> nat" where
  "rmr_visual_strnlen s cap = (case s of None \<Rightarrow> 0 | Some s \<Rightarrow> length (takeWhile (\<lambda>b. b \<noteq> 0) (take cap s)))"

definition visual_crc_bit :: "u32 \<Rightarrow> u32" where
  "visual_crc_bit crc = (let m = - (crc AND 1) in drop_bit 1 crc XOR (0x82F63B78 AND m))"

definition rmr_crc32c_update :: "u32 \<Rightarrow> bytes \<Rightarrow> u32" where
  "rmr_crc32c_update = foldl (\<lambda>crc b. (visual_crc_bit ^^ 8) (crc XOR ucast b))"

definition rmr_crc_u8 :: "u32 \<Rightarrow> u8 \<Rightarrow> u32" where
  "rmr_crc_u8 crc v = rmr_crc32c_update crc [v]"

definition rmr_crc_u16 :: "u32 \<Rightarrow> u16 \<Rightarrow> u32" where
  "rmr_crc_u16 crc v = rmr_crc32c_update crc [ucast v, ucast (drop_bit 8 v)]"

definition rmr_crc_u32 :: "u32 \<Rightarrow> u32 \<Rightarrow> u32" where
  "rmr_crc_u32 crc v =
    rmr_crc32c_update crc [ucast v, ucast (drop_bit 8 v), ucast (drop_bit 16 v), ucast (drop_bit 24 v)]"

text \<open>What the \<open>put\<close> functions store at the cursor, and what the \<open>get\<close> functions read there.\<close>

definition rmr_put_u16 :: "u16 \<Rightarrow> bytes" where
  "rmr_put_u16 v = [ucast v, ucast (drop_bit 8 v)]"

definition rmr_put_u32 :: "u32 \<Rightarrow> bytes" where
  "rmr_put_u32 v = [ucast v, ucast (drop_bit 8 v), ucast (drop_bit 16 v), ucast (drop_bit 24 v)]"

definition rmr_get_u16 :: "bytes \<Rightarrow> u16 \<times> bytes" where
  "rmr_get_u16 p = (ucast (p ! 0) OR push_bit 8 (ucast (p ! 1)), drop 2 p)"

definition rmr_get_u32 :: "bytes \<Rightarrow> u32 \<times> bytes" where
  "rmr_get_u32 p =
    (ucast (p ! 0) OR push_bit 8 (ucast (p ! 1)) OR push_bit 16 (ucast (p ! 2)) OR push_bit 24 (ucast (p ! 3)), drop 4 p)"

definition rmr_descriptor_crc :: "u32 \<Rightarrow> vision_descriptor \<Rightarrow> u32" where
  "rmr_descriptor_crc crc d =
    (let crc = foldl rmr_crc_u32 crc
                 ([width d, height d, pixel_count d, foreground_count d, foreground_q16 d, angle_count d]
                  @ map (\<lambda>i. angle_hist d ! i) [0..<8]
                  @ [angular_chi2 d, angular_concentration d, gray_crc32c d, descriptor_crc32c d, vision_status d])
     in rmr_crc_u8 crc (otsu_threshold d))"

definition view_crc :: "u32 \<Rightarrow> visual_view \<Rightarrow> u32" where
  "view_crc crc v =
    (let crc = rmr_crc_u8 crc (view_id v);
         crc = rmr_crc_u8 crc (view_flags v);
         crc = rmr_crc_u16 crc (view_reserved v);
         crc = rmr_crc_u32 crc (sample_id v);
         crc = rmr_crc_u32 crc (source_crc32c v)
     in rmr_descriptor_crc crc (view_descriptor v))"

definition rmr_prototype_crc :: "visual_prototype \<Rightarrow> u32" where
  "rmr_prototype_crc p =
    (let n = rmr_visual_strnlen (Some (label p)) RMR_VISUAL_MAX_LABEL;
         crc = foldl rmr_crc_u32 0xFFFFFFFF
                 [proto_magic p, proto_version p, class_id p, proto_flags p, view_count p, view_mask p, of_nat n];
         crc = rmr_crc32c_update crc (take n (label p));
         crc = foldl (\<lambda>crc i. view_crc crc (views p ! i)) crc [0..<unat (view_count p)]
     in crc XOR 0xFFFFFFFF)"

section \<open>Building and sealing\<close>

definition RmR_Visual_ClassId :: "bytes option \<Rightarrow> u32" where
  "RmR_Visual_ClassId s =
    (let n = rmr_visual_strnlen s RMR_VISUAL_MAX_LABEL
     in if n = 0 \<or> n \<ge> RMR_VISUAL_MAX_LABEL then 0 else RmR_Stability_CRC32C s n)"

definition RmR_VisualPrototype_Init ::
  "visual_prototype option \<Rightarrow> bytes option \<Rightarrow> u32 \<Rightarrow> u32 \<times> visual_prototype option" where
  "RmR_VisualPrototype_Init p s fl =
    (let n = rmr_visual_strnlen s RMR_VISUAL_MAX_LABEL
     in if p = None \<or> s = None \<or> n = 0 \<or> n \<ge> RMR_VISUAL_MAX_LABEL then (VISUAL_BAD_ARGUMENT, p)
        else
          let p = visual_zero_prototype\<lparr>proto_magic := RMR_VISUAL_PROTOTYPE_MAGIC,
                proto_version := RMR_VISUAL_API_VERSION, proto_flags := fl\<rparr>;
              p = p\<lparr>label := (buf_write (label p) 0 (take n (the s)))[n := 0]\<rparr>;
              p = p\<lparr>class_id := RmR_Visual_ClassId s\<rparr>
          in (if class_id p \<noteq> 0 then VISUAL_OK else VISUAL_BAD_ARGUMENT, Some p))"

text \<open>The search for a view of the same identifier: its slot, if there is one.\<close>

definition find_view :: "visual_prototype \<Rightarrow> u8 \<Rightarrow> nat option" where
  "find_view p vid = List.find (\<lambda>i. view_id (views p ! i) = vid) [0..<unat (view_count p)]"

definition store_view :: "visual_prototype \<Rightarrow> nat \<Rightarrow> u8 \<Rightarrow> u8 \<Rightarrow> u32 \<Rightarrow> u32 \<Rightarrow> vision_descriptor \<Rightarrow> visual_prototype" where
  "store_view p slot vid sfl sid src d =
    p\<lparr>views := (views p)[slot := visual_zero_view\<lparr>view_id := vid, view_flags := sfl, sample_id := sid,
        source_crc32c := src, view_descriptor := d\<rparr>],
      view_mask := view_mask p OR push_bit (unat vid) 1, prototype_crc32c := 0\<rparr>"

definition RmR_VisualPrototype_AddView ::
  "visual_prototype option \<Rightarrow> u8 \<Rightarrow> u8 \<Rightarrow> u32 \<Rightarrow> u32 \<Rightarrow> vision_descriptor option \<Rightarrow> u32 \<Rightarrow> u32 \<times> visual_prototype option" where
  "RmR_VisualPrototype_AddView p vid sfl sid src d afl =
    (if p = None \<or> d = None \<or> proto_magic (the p) \<noteq> RMR_VISUAL_PROTOTYPE_MAGIC
        \<or> proto_version (the p) \<noteq> RMR_VISUAL_API_VERSION \<or> unat vid \<ge> RMR_VISUAL_MAX_VIEWS
     then (VISUAL_BAD_ARGUMENT, p)
     else
       let q = the p
       in case find_view q vid of
            Some slot \<Rightarrow>
              if afl AND RMR_VISUAL_ADD_REPLACE = 0 then (VISUAL_DUPLICATE_VIEW, p)
              else (VISUAL_OK, Some (store_view q slot vid sfl sid src (the d)))
          | None \<Rightarrow>
              if unat (view_count q) \<ge> RMR_VISUAL_MAX_VIEWS then (VISUAL_FULL, p)
              else (VISUAL_OK, Some (store_view (q\<lparr>view_count := view_count q + 1\<rparr>) (unat (view_count q))
                                       vid sfl sid src (the d))))"

text \<open>The mask of the views, or the status the loop returns with.\<close>

fun structure_mask :: "visual_view list \<Rightarrow> u32 \<Rightarrow> u32 + u32" where
  "structure_mask [] m = Inr m"
| "structure_mask (v # vs) m =
    (if unat (view_id v) \<ge> RMR_VISUAL_MAX_VIEWS then Inl VISUAL_BAD_ARGUMENT
     else
       let bit = push_bit (unat (view_id v)) 1
       in if m AND bit \<noteq> 0 then Inl VISUAL_DUPLICATE_VIEW else structure_mask vs (m OR bit))"

definition rmr_visual_structure_status :: "visual_prototype option \<Rightarrow> u32" where
  "rmr_visual_structure_status p =
    (case p of
       None \<Rightarrow> VISUAL_BAD_ARGUMENT
     | Some p \<Rightarrow>
         if proto_magic p \<noteq> RMR_VISUAL_PROTOTYPE_MAGIC then VISUAL_BAD_MAGIC
         else if proto_version p \<noteq> RMR_VISUAL_API_VERSION then VISUAL_BAD_VERSION
         else
           let n = rmr_visual_strnlen (Some (label p)) RMR_VISUAL_MAX_LABEL
           in if n = 0 \<or> n \<ge> RMR_VISUAL_MAX_LABEL then VISUAL_BAD_ARGUMENT
              else if class_id p = 0 \<or> class_id p \<noteq> RmR_Visual_ClassId (Some (label p)) then VISUAL_CRC_MISMATCH
              else if view_count p = 0 then VISUAL_EMPTY
              else if unat (view_count p) > RMR_VISUAL_MAX_VIEWS then VISUAL_BAD_ARGUMENT
              else case structure_mask (take (unat (view_count p)) (views p)) 0 of
                     Inl st \<Rightarrow> st
                   | Inr m \<Rightarrow> if m \<noteq> view_mask p then VISUAL_CRC_MISMATCH else VISUAL_OK)"

definition RmR_VisualPrototype_Seal :: "visual_prototype option \<Rightarrow> u32 \<times> visual_prototype option" where
  "RmR_VisualPrototype_Seal p =
    (let st = rmr_visual_structure_status p
     in if st \<noteq> VISUAL_OK then (st, p)
        else (VISUAL_OK, Some ((the p)\<lparr>prototype_crc32c := rmr_prototype_crc (the p)\<rparr>)))"

definition RmR_VisualPrototype_Verify :: "visual_prototype option \<Rightarrow> u32" where
  "RmR_VisualPrototype_Verify p =
    (let st = rmr_visual_structure_status p
     in if st \<noteq> VISUAL_OK then st
        else if prototype_crc32c (the p) = 0 then VISUAL_UNSEALED
        else if rmr_prototype_crc (the p) = prototype_crc32c (the p) then VISUAL_OK else VISUAL_CRC_MISMATCH)"

section \<open>Comparing\<close>

type_synonym compare_state = "u32 \<times> u32 \<times> u32"

text \<open>One pass over the views: the best distance, the view it belongs to and the number of comparisons.\<close>

definition compare_view ::
  "vision_descriptor \<Rightarrow> u8 \<Rightarrow> nat \<Rightarrow> compare_state \<Rightarrow> visual_view \<Rightarrow> compare_state" where
  "compare_view query preferred pass = (\<lambda>(best, vid, n) v.
     let exact = (preferred \<noteq> RMR_VISUAL_VIEW_ANY \<and> view_id v = preferred)
     in if (if preferred \<noteq> RMR_VISUAL_VIEW_ANY then pass = 0 \<and> \<not> exact \<or> pass = 1 \<and> exact else pass = 1)
        then (best, vid, n)
        else
          let d = RmR_Vision_DifferenceQ16 (Some (view_descriptor v)) (Some query)
          in if d < best then (d, ucast (view_id v), n + 1) else (best, vid, n + 1))"

definition compare_passes :: "visual_prototype \<Rightarrow> vision_descriptor \<Rightarrow> u8 \<Rightarrow> compare_state" where
  "compare_passes p query preferred =
    (let vs = map (\<lambda>i. views p ! i) [0..<unat (view_count p)];
         s = foldl (compare_view query preferred 0) (0xFFFFFFFF, ucast RMR_VISUAL_VIEW_ANY, 0) vs
     in if fst s \<noteq> 0xFFFFFFFF \<or> preferred = RMR_VISUAL_VIEW_ANY then s
        else foldl (compare_view query preferred 1) s vs)"

definition RmR_VisualPrototype_Compare ::
  "visual_prototype option \<Rightarrow> vision_descriptor option \<Rightarrow> u8 \<Rightarrow> u32 \<times> visual_match" where
  "RmR_VisualPrototype_Compare p query preferred =
    (let out = visual_zero_match\<lparr>best_view_id := ucast RMR_VISUAL_VIEW_ANY\<rparr>;
         fail = (\<lambda>st out. (st, out\<lparr>match_status := st\<rparr>))
     in if p = None \<or> query = None then fail VISUAL_BAD_ARGUMENT out
        else
          let verify = RmR_VisualPrototype_Verify p
          in if verify \<noteq> VISUAL_OK then fail verify out
             else
               let (best, vid, n) = compare_passes (the p) (the query) preferred;
                   out = out\<lparr>best_view_id := vid\<rparr>
               in if best = 0xFFFFFFFF then fail VISUAL_NO_MATCH out
                  else
                    let best = (if best > ucast Q16_ONE then ucast Q16_ONE else best)
                    in (VISUAL_OK, out\<lparr>distance_q16 := best, score_q16 := ucast Q16_ONE - best,
                          compared_views := n, match_crc32c := prototype_crc32c (the p), match_status := VISUAL_OK\<rparr>))"

section \<open>Capsule\<close>

definition RmR_VisualPrototype_SerializedSize :: "visual_prototype option \<Rightarrow> nat" where
  "RmR_VisualPrototype_SerializedSize p =
    (case p of
       None \<Rightarrow> 0
     | Some p \<Rightarrow>
         if unat (view_count p) > RMR_VISUAL_MAX_VIEWS then 0
         else RMR_VISUAL_CAPSULE_HEADER_SIZE + rmr_visual_strnlen (Some (label p)) RMR_VISUAL_MAX_LABEL
              + unat (view_count p) * RMR_VISUAL_CAPSULE_VIEW_SIZE + RMR_VISUAL_CAPSULE_TRAILER_SIZE)"

definition rmr_serialize_descriptor :: "vision_descriptor \<Rightarrow> bytes" where
  "rmr_serialize_descriptor d =
    rmr_put_u32 (width d) @ rmr_put_u32 (height d) @ rmr_put_u32 (pixel_count d) @ rmr_put_u32 (foreground_count d)
    @ rmr_put_u32 (foreground_q16 d) @ rmr_put_u32 (angle_count d)
    @ concat (map (\<lambda>i. rmr_put_u32 (angle_hist d ! i)) [0..<8])
    @ rmr_put_u32 (angular_chi2 d) @ rmr_put_u32 (angular_concentration d) @ rmr_put_u32 (gray_crc32c d)
    @ rmr_put_u32 (descriptor_crc32c d) @ rmr_put_u32 (vision_status d) @ [otsu_threshold d, 0, 0, 0]"

fun get_words :: "nat \<Rightarrow> bytes \<Rightarrow> words \<times> bytes" where
  "get_words 0 c = ([], c)"
| "get_words (Suc n) c = (case rmr_get_u32 c of (w, c) \<Rightarrow> case get_words n c of (ws, c) \<Rightarrow> (w # ws, c))"

definition rmr_deserialize_descriptor :: "bytes \<Rightarrow> vision_descriptor \<times> bytes" where
  "rmr_deserialize_descriptor c =
    (let (v1, c) = rmr_get_u32 c;
         (v2, c) = rmr_get_u32 c;
         (v3, c) = rmr_get_u32 c;
         (v4, c) = rmr_get_u32 c;
         (v5, c) = rmr_get_u32 c;
         (v6, c) = rmr_get_u32 c;
         (hist, c) = get_words 8 c;
         (v7, c) = rmr_get_u32 c;
         (v8, c) = rmr_get_u32 c;
         (v9, c) = rmr_get_u32 c;
         (v10, c) = rmr_get_u32 c;
         (v11, c) = rmr_get_u32 c
     in (\<lparr>width = v1, height = v2, pixel_count = v3, foreground_count = v4, foreground_q16 = v5, angle_count = v6,
          angle_hist = hist, angular_chi2 = v7, angular_concentration = v8, gray_crc32c = v9, descriptor_crc32c = v10,
          vision_status = v11, otsu_threshold = c ! 0, vision_reserved = [c ! 1, c ! 2, c ! 3]\<rparr>, drop 4 c))"

definition serialize_view :: "visual_view \<Rightarrow> bytes" where
  "serialize_view v =
    [view_id v, view_flags v] @ rmr_put_u16 (view_reserved v) @ rmr_put_u32 (sample_id v)
    @ rmr_put_u32 (source_crc32c v) @ rmr_serialize_descriptor (view_descriptor v)"

definition deserialize_view :: "bytes \<Rightarrow> visual_view \<times> bytes" where
  "deserialize_view c =
    (let vid = c ! 0; fl = c ! 1;
         (r, c) = rmr_get_u16 (drop 2 c);
         (sid, c) = rmr_get_u32 c;
         (src, c) = rmr_get_u32 c;
         (d, c) = rmr_deserialize_descriptor c
     in (\<lparr>view_id = vid, view_flags = fl, view_reserved = r, sample_id = sid, source_crc32c = src, view_descriptor = d\<rparr>, c))"

text \<open>The views are read into the first slots.\<close>

fun deserialize_views :: "visual_view list \<Rightarrow> nat \<Rightarrow> nat \<Rightarrow> bytes \<Rightarrow> visual_view list \<times> bytes" where
  "deserialize_views vs i 0 c = (vs, c)"
| "deserialize_views vs i (Suc n) c =
    (case deserialize_view c of (v, c) \<Rightarrow> deserialize_views (vs[i := v]) (i + 1) n c)"

definition capsule_header :: "visual_prototype \<Rightarrow> nat \<Rightarrow> nat \<Rightarrow> bytes" where
  "capsule_header p total_size n =
    rmr_put_u32 RMR_VISUAL_CAPSULE_MAGIC @ rmr_put_u16 (ucast RMR_VISUAL_API_VERSION)
    @ rmr_put_u16 (of_nat RMR_VISUAL_CAPSULE_HEADER_SIZE) @ rmr_put_u32 (of_nat total_size)
    @ rmr_put_u32 (class_id p) @ rmr_put_u32 (proto_flags p) @ rmr_put_u32 (view_count p)
    @ rmr_put_u32 (view_mask p) @ rmr_put_u32 (of_nat n) @ rmr_put_u32 (prototype_crc32c p)"

text \<open>The result is the status, the buffer and what \<open>out_written\<close> receives.\<close>

definition RmR_VisualPrototype_Serialize ::
  "visual_prototype option \<Rightarrow> bytes option \<Rightarrow> nat \<Rightarrow> u32 \<times> bytes option \<times> nat" where
  "RmR_VisualPrototype_Serialize p out cap =
    (let verify = RmR_VisualPrototype_Verify p
     in if verify \<noteq> VISUAL_OK \<or> out = None
        then (if verify \<noteq> VISUAL_OK then verify else VISUAL_BAD_ARGUMENT, out, 0)
        else
          let q = the p;
              n = rmr_visual_strnlen (Some (label q)) RMR_VISUAL_MAX_LABEL;
              t = RmR_VisualPrototype_SerializedSize p
          in if cap < t \<or> t > 0xFFFFFFFF then (VISUAL_TRUNCATED, out, 0)
             else
               let body = capsule_header q t n @ take n (label q)
                     @ concat (map (\<lambda>i. serialize_view (views q ! i)) [0..<unat (view_count q)]);
                   buf = buf_write (the out) 0 body;
                   crc = RmR_Stability_CRC32C (Some buf) (t - RMR_VISUAL_CAPSULE_TRAILER_SIZE);
                   buf = buf_write buf (length body) (rmr_put_u32 crc)
               in if length body + 4 \<noteq> t then (VISUAL_BAD_ARGUMENT, Some buf, 0)
                  else (VISUAL_OK, Some buf, t))"

definition RmR_VisualPrototype_Deserialize ::
  "bytes option \<Rightarrow> nat \<Rightarrow> visual_prototype option \<Rightarrow> u32 \<times> visual_prototype option \<times> nat" where
  "RmR_VisualPrototype_Deserialize data sz out =
    (if data = None \<or> out = None \<or> sz < RMR_VISUAL_CAPSULE_HEADER_SIZE + RMR_VISUAL_CAPSULE_TRAILER_SIZE
     then (VISUAL_TRUNCATED, out, 0)
     else
       let data = the data;
           (magic, c) = rmr_get_u32 data;
           (version, c) = rmr_get_u16 c;
           (hsize, c) = rmr_get_u16 c;
           (t, c) = rmr_get_u32 c;
           (cid, c) = rmr_get_u32 c;
           (fl, c) = rmr_get_u32 c;
           (vcount, c) = rmr_get_u32 c;
           (vmask, c) = rmr_get_u32 c;
           (n, c) = rmr_get_u32 c;
           (pcrc, c) = rmr_get_u32 c
       in if magic \<noteq> RMR_VISUAL_CAPSULE_MAGIC then (VISUAL_BAD_MAGIC, out, 0)
          else if version \<noteq> ucast RMR_VISUAL_API_VERSION \<or> unat hsize \<noteq> RMR_VISUAL_CAPSULE_HEADER_SIZE
          then (VISUAL_BAD_VERSION, out, 0)
          else if unat t > sz \<or> unat t < RMR_VISUAL_CAPSULE_HEADER_SIZE + RMR_VISUAL_CAPSULE_TRAILER_SIZE
          then (VISUAL_TRUNCATED, out, 0)
          else if vcount = 0 \<or> unat vcount > RMR_VISUAL_MAX_VIEWS \<or> n = 0 \<or> unat n \<ge> RMR_VISUAL_MAX_LABEL
          then (VISUAL_BAD_ARGUMENT, out, 0)
          else if RMR_VISUAL_CAPSULE_HEADER_SIZE + unat n + unat vcount * RMR_VISUAL_CAPSULE_VIEW_SIZE
                  + RMR_VISUAL_CAPSULE_TRAILER_SIZE \<noteq> unat t
          then (VISUAL_TRUNCATED, out, 0)
          else if RmR_Stability_CRC32C (Some data) (unat t - 4) \<noteq> fst (rmr_get_u32 (drop (unat t - 4) data))
          then (VISUAL_CRC_MISMATCH, out, 0)
          else
            let p = visual_zero_prototype\<lparr>proto_magic := RMR_VISUAL_PROTOTYPE_MAGIC,
                  proto_version := RMR_VISUAL_API_VERSION, class_id := cid, proto_flags := fl, view_count := vcount,
                  view_mask := vmask, prototype_crc32c := pcrc\<rparr>;
                p = p\<lparr>label := (buf_write (label p) 0 (take (unat n) c))[unat n := 0]\<rparr>;
                (vs, c) = deserialize_views (views p) 0 (unat vcount) (drop (unat n) c);
                p = p\<lparr>views := vs\<rparr>;
                c = drop RMR_VISUAL_CAPSULE_TRAILER_SIZE c
            in if length data - length c \<noteq> unat t then (VISUAL_TRUNCATED, Some p, 0)
               else if RmR_VisualPrototype_Verify (Some p) \<noteq> VISUAL_OK \<or> class_id p \<noteq> RmR_Visual_ClassId (Some (label p))
               then (VISUAL_CRC_MISMATCH, Some p, 0)
               else (VISUAL_OK, Some p, unat t))"

section \<open>Store\<close>

definition RmR_VisualStore_Init ::
  "visual_store option \<Rightarrow> visual_prototype list option \<Rightarrow> u32 \<Rightarrow> u32 \<times> visual_store option" where
  "RmR_VisualStore_Init store sl cap =
    (if store = None \<or> sl = None \<or> cap = 0 then (VISUAL_BAD_ARGUMENT, store)
     else
       (VISUAL_OK, Some \<lparr>slots = Some (replicate (unat cap) visual_zero_prototype @ drop (unat cap) (the sl)),
          capacity = cap, store_count = 0\<rparr>))"

definition find_class :: "visual_store \<Rightarrow> u32 \<Rightarrow> nat option" where
  "find_class s cid = List.find (\<lambda>i. class_id (the (slots s) ! i) = cid) [0..<unat (store_count s)]"

definition RmR_VisualStore_Find :: "visual_store option \<Rightarrow> u32 \<Rightarrow> visual_prototype option" where
  "RmR_VisualStore_Find store cid =
    (if store = None \<or> slots (the store) = None \<or> cid = 0 then None
     else map_option (\<lambda>i. the (slots (the store)) ! i) (find_class (the store) cid))"

text \<open>The last component is what \<open>out_slot\<close> receives.\<close>

definition RmR_VisualStore_Upsert ::
  "visual_store option \<Rightarrow> visual_prototype option \<Rightarrow> u32 \<times> visual_store option \<times> u32" where
  "RmR_VisualStore_Upsert store p =
    (if store = None \<or> slots (the store) = None \<or> p = None then (VISUAL_BAD_ARGUMENT, store, 0xFFFFFFFF)
     else
       let verify = RmR_VisualPrototype_Verify p; s = the store
       in if verify \<noteq> VISUAL_OK then (verify, store, 0xFFFFFFFF)
          else case find_class s (class_id (the p)) of
                 Some i \<Rightarrow> (VISUAL_OK, Some (s\<lparr>slots := Some ((the (slots s))[i := the p])\<rparr>), of_nat i)
               | None \<Rightarrow>
                   if store_count s \<ge> capacity s then (VISUAL_FULL, store, 0xFFFFFFFF)
                   else (VISUAL_OK, Some (s\<lparr>store_count := store_count s + 1,
                           slots := Some ((the (slots s))[unat (store_count s) := the p])\<rparr>), store_count s))"

type_synonym ranking = "u32 \<times> u32 \<times> u32 \<times> u32"

text \<open>One step of the ranking: best score, second score, slot and view of the best.\<close>

definition rank_slot ::
  "visual_store \<Rightarrow> vision_descriptor \<Rightarrow> u8 \<Rightarrow> ranking \<Rightarrow> nat \<Rightarrow> ranking" where
  "rank_slot s query preferred = (\<lambda>(best, second, slot, vid) i.
     case RmR_VisualPrototype_Compare (Some (the (slots s) ! i)) (Some query) preferred of (st, m) \<Rightarrow>
       if st \<noteq> VISUAL_OK then (best, second, slot, vid)
       else if score_q16 m > best then (score_q16 m, best, of_nat i, best_view_id m)
       else if score_q16 m > second then (best, score_q16 m, slot, vid)
       else (best, second, slot, vid))"

definition RmR_VisualStore_Classify ::
  "visual_store option \<Rightarrow> vision_descriptor option \<Rightarrow> u8 \<Rightarrow> u32 \<Rightarrow> u32 \<Rightarrow> u32 \<times> visual_classification" where
  "RmR_VisualStore_Classify store query preferred min_score min_margin =
    (let out = visual_zero_classification\<lparr>slot_index := 0xFFFFFFFF, found_view_id := ucast RMR_VISUAL_VIEW_ANY\<rparr>;
         done' = (\<lambda>st out. (st, out\<lparr>class_status := st\<rparr>))
     in if store = None \<or> slots (the store) = None \<or> query = None \<or> store_count (the store) = 0 then done' VISUAL_EMPTY out
        else
          let s = the store;
              (best, second, slot, vid) = foldl (rank_slot s (the query) preferred)
                 (0, 0, 0xFFFFFFFF, ucast RMR_VISUAL_VIEW_ANY) [0..<unat (store_count s)]
          in if slot = 0xFFFFFFFF \<or> best < min_score then done' VISUAL_NO_MATCH out
             else
               let out = out\<lparr>slot_index := slot, found_class_id := class_id (the (slots s) ! unat slot),
                     found_score_q16 := best, runner_up_q16 := second, margin_q16 := best - second, found_view_id := vid\<rparr>
               in if margin_q16 out < min_margin then done' VISUAL_AMBIGUOUS out else done' VISUAL_OK out)"

end
