(* ===== verification/Visual_Capsule.thy ===== *)
theory Visual_Capsule
  imports Visual
begin

text \<open>
  Well-formed prototypes: building keeps them, a sealed one is accepted, and its capsule is read back.
  The checksum of this file is that of the stability records.
\<close>

section \<open>Well-formed prototypes\<close>

definition label_length :: "visual_prototype \<Rightarrow> nat" where
  "label_length p = rmr_visual_strnlen (Some (label p)) RMR_VISUAL_MAX_LABEL"

text \<open>A descriptor as the library builds it.\<close>

definition descriptor_wf :: "vision_descriptor \<Rightarrow> bool" where
  "descriptor_wf d \<longleftrightarrow> length (angle_hist d) = 8 \<and> vision_reserved d = [0, 0, 0]"

definition view_ids :: "visual_prototype \<Rightarrow> nat list" where
  "view_ids p = map (\<lambda>v. unat (view_id v)) (take (unat (view_count p)) (views p))"

definition mask_of :: "nat list \<Rightarrow> u32" where
  "mask_of ids = foldr (\<lambda>i m. m OR push_bit i 1) ids 0"

definition visual_wf :: "visual_prototype \<Rightarrow> bool" where
  "visual_wf p \<longleftrightarrow>
    proto_magic p = RMR_VISUAL_PROTOTYPE_MAGIC \<and> proto_version p = RMR_VISUAL_API_VERSION \<and>
    length (label p) = 32 \<and> 0 < label_length p \<and> label_length p < 32 \<and>
    drop (label_length p) (label p) = replicate (32 - label_length p) 0 \<and>
    class_id p = RmR_Visual_ClassId (Some (label p)) \<and>
    length (views p) = 16 \<and> unat (view_count p) \<le> 16 \<and>
    (\<forall>v \<in> set (take (unat (view_count p)) (views p)). descriptor_wf (view_descriptor v)) \<and>
    drop (unat (view_count p)) (views p) = replicate (16 - unat (view_count p)) visual_zero_view \<and>
    distinct (view_ids p) \<and> (\<forall>i \<in> set (view_ids p). i < 16) \<and> (\<forall>i. bit (view_mask p) i \<longleftrightarrow> i \<in> set (view_ids p))"

lemma visual_consts [simp]:
  "RMR_VISUAL_MAX_LABEL = 32" "RMR_VISUAL_MAX_VIEWS = 16" "RMR_VISUAL_CAPSULE_HEADER_SIZE = 36"
  "RMR_VISUAL_CAPSULE_VIEW_SIZE = 92" "RMR_VISUAL_CAPSULE_TRAILER_SIZE = 4" "VISUAL_OK = 0"
  by (simp_all add: RMR_VISUAL_MAX_LABEL_def RMR_VISUAL_MAX_VIEWS_def RMR_VISUAL_CAPSULE_HEADER_SIZE_def
      RMR_VISUAL_CAPSULE_VIEW_SIZE_def RMR_VISUAL_CAPSULE_TRAILER_SIZE_def VISUAL_OK_def)

lemma visual_status_nonzero [simp]:
  "VISUAL_BAD_ARGUMENT \<noteq> 0" "VISUAL_EMPTY \<noteq> 0" "VISUAL_FULL \<noteq> 0" "VISUAL_DUPLICATE_VIEW \<noteq> 0" "VISUAL_NO_MATCH \<noteq> 0"
  "VISUAL_AMBIGUOUS \<noteq> 0" "VISUAL_BAD_MAGIC \<noteq> 0" "VISUAL_BAD_VERSION \<noteq> 0" "VISUAL_TRUNCATED \<noteq> 0"
  "VISUAL_CRC_MISMATCH \<noteq> 0" "VISUAL_UNSEALED \<noteq> 0"
  by (simp_all add: VISUAL_BAD_ARGUMENT_def VISUAL_EMPTY_def VISUAL_FULL_def VISUAL_DUPLICATE_VIEW_def VISUAL_NO_MATCH_def
      VISUAL_AMBIGUOUS_def VISUAL_BAD_MAGIC_def VISUAL_BAD_VERSION_def VISUAL_TRUNCATED_def VISUAL_CRC_MISMATCH_def
      VISUAL_UNSEALED_def)

lemma strnlen_prefix:
  assumes "n = rmr_visual_strnlen (Some s) cap" "n < cap" "n < length s"
  shows "s ! n = 0" "\<forall>i<n. s ! i \<noteq> 0"
proof -
  let ?t = "takeWhile (\<lambda>b. b \<noteq> 0) (take cap s)"
  have n: "n = length ?t" using assms(1) by (simp add: rmr_visual_strnlen_def)
  have "\<not> take cap s ! n \<noteq> 0" unfolding n by (rule nth_length_takeWhile) (use assms n in simp)
  then show "s ! n = 0" using assms by simp
  have "take cap s ! i \<noteq> 0" if "i < n" for i
    using that nth_mem [of i ?t] set_takeWhileD [of "?t ! i" "\<lambda>b. b \<noteq> 0" "take cap s"] takeWhile_nth [of i "\<lambda>b. b \<noteq> 0" "take cap s"]
    by (simp add: n)
  then show "\<forall>i<n. s ! i \<noteq> 0" using assms by simp
qed

lemma strnlen_padded:
  assumes "\<forall>b \<in> set s. b \<noteq> 0" "length s < cap"
  shows "rmr_visual_strnlen (Some (s @ 0 # z)) cap = length s"
proof -
  have "take cap (s @ 0 # z) = s @ 0 # take (cap - length s - 1) z"
    using assms(2) by (simp add: take_Cons')
  then show ?thesis using assms(1) by (simp add: rmr_visual_strnlen_def takeWhile_append2)
qed

text \<open>The mask loop succeeds exactly on distinct identifiers below 16.\<close>

lemma structure_mask_ok:
  "structure_mask vs m = Inr m' \<longleftrightarrow>
    distinct (map (\<lambda>v. unat (view_id v)) vs) \<and> (\<forall>v \<in> set vs. unat (view_id v) < 16 \<and> \<not> bit m (unat (view_id v))) \<and>
    (\<forall>i. bit m' i \<longleftrightarrow> bit m i \<or> i \<in> (\<lambda>v. unat (view_id v)) ` set vs)"
proof (induction vs arbitrary: m)
  case Nil
  show ?case by (auto intro: bit_word_eqI dest: bit_imp_le_length)
next
  case (Cons v vs)
  let ?k = "unat (view_id v)"
  have b: "(m AND push_bit ?k 1 \<noteq> 0) = bit m ?k" if "?k < 16"
    by (rule bit_iff_and_push_bit_not_eq_0 [symmetric])
  have o: "bit (m OR push_bit ?k 1) i \<longleftrightarrow> bit m i \<or> i = ?k" if "?k < 16" for i
    using that by (auto simp: bit_simps)
  show ?case
  proof (cases "?k < 16")
    case False
    then show ?thesis by auto
  next
    case True
    obtain B where B: "B = push_bit ?k (1 :: u32)" by simp
    have step: "structure_mask (v # vs) m = (if bit m ?k then Inl VISUAL_DUPLICATE_VIEW else structure_mask vs (m OR B))"
      using True b [OF True] by (simp only: structure_mask.simps Let_def B visual_consts not_le) simp
    show ?thesis
      using True Cons.IH [of "m OR B"] o [OF True, folded B] unfolding step by (auto simp: image_iff)
  qed
qed

text \<open>The structure check accepts exactly the well-formed shape, views apart from their payload.\<close>

lemma structure_ok_wf:
  assumes "visual_wf p" "0 < view_count p" "class_id p \<noteq> 0"
  shows "rmr_visual_structure_status (Some p) = VISUAL_OK"
proof -
  let ?vs = "take (unat (view_count p)) (views p)"
  have "structure_mask ?vs 0 = Inr (view_mask p)"
    using assms(1) by (auto simp: structure_mask_ok visual_wf_def view_ids_def)
  moreover have "view_count p \<noteq> 0" using assms(2) by auto
  ultimately show ?thesis
    using assms by (auto simp: rmr_visual_structure_status_def Let_def visual_wf_def label_length_def)
qed

lemma structure_ok_D:
  assumes "rmr_visual_structure_status (Some p) = VISUAL_OK"
  shows "proto_magic p = RMR_VISUAL_PROTOTYPE_MAGIC" "proto_version p = RMR_VISUAL_API_VERSION"
    "0 < label_length p" "label_length p < 32" "class_id p = RmR_Visual_ClassId (Some (label p))" "class_id p \<noteq> 0"
    "view_count p \<noteq> 0" "unat (view_count p) \<le> 16"
  using assms
  by (auto simp: rmr_visual_structure_status_def Let_def label_length_def not_less split: if_splits sum.splits)

section \<open>Building\<close>

lemma list_find_upt:
  "List.find P [0..<n] = Some i \<Longrightarrow> i < n \<and> P i \<and> (\<forall>j<i. \<not> P j)"
  "List.find P [0..<n] = None \<Longrightarrow> \<forall>j<n. \<not> P j"
  by (auto simp: find_Some_iff find_None_iff)

lemma init_wf:
  assumes "RmR_VisualPrototype_Init (Some q) (Some s) fl = (VISUAL_OK, Some p)" "length s \<ge> 32 \<or> 0 \<in> set s"
  shows "visual_wf p \<and> view_count p = 0 \<and> class_id p \<noteq> 0"
proof -
  define n where "n = rmr_visual_strnlen (Some s) 32"
  have n: "0 < n" "n < 32" and p: "p = visual_zero_prototype\<lparr>proto_magic := RMR_VISUAL_PROTOTYPE_MAGIC,
      proto_version := RMR_VISUAL_API_VERSION, proto_flags := fl,
      label := (buf_write (replicate 32 0) 0 (take n s))[n := 0], class_id := RmR_Visual_ClassId (Some s)\<rparr>"
    and c: "RmR_Visual_ClassId (Some s) \<noteq> 0"
    using assms(1) by (auto simp: RmR_VisualPrototype_Init_def Let_def n_def visual_zero_prototype_def split: if_splits)
  have t: "take n s = takeWhile (\<lambda>b. b \<noteq> 0) (take 32 s)"
    using takeWhile_eq_take [of "\<lambda>b. b \<noteq> 0" "take 32 s"] n by (simp add: n_def rmr_visual_strnlen_def min_def)
  have ln: "length (take n s) = n" unfolding t by (simp add: n_def rmr_visual_strnlen_def)
  have nz: "\<forall>b \<in> set (take n s). b \<noteq> 0" unfolding t by (auto dest: set_takeWhileD)
  have lab: "label p = take n s @ 0 # replicate (31 - n) 0"
  proof -
    have "32 - n = Suc (31 - n)" using n by simp
    then have "(take n s @ replicate (32 - n) 0)[n := 0] = take n s @ 0 # replicate (31 - n) 0"
      using ln by (simp add: list_update_append)
    then show ?thesis using n ln by (simp add: p buf_write_0)
  qed
  have len: "rmr_visual_strnlen (Some (label p)) 32 = n"
    unfolding lab using strnlen_padded [OF nz, of 32] ln n by simp
  have cid: "RmR_Visual_ClassId (Some (label p)) = RmR_Visual_ClassId (Some s)"
    using len n ln by (simp add: RmR_Visual_ClassId_def Let_def n_def [symmetric] RmR_Stability_CRC32C_def) (simp add: lab)
  have "drop n (label p) = replicate (32 - n) 0"
    unfolding lab using ln n by (simp add: replicate_Suc [symmetric] Suc_diff_le del: replicate_Suc)
  moreover have "proto_magic p = RMR_VISUAL_PROTOTYPE_MAGIC" "proto_version p = RMR_VISUAL_API_VERSION" "view_count p = 0"
    "class_id p = RmR_Visual_ClassId (Some s)" "views p = replicate 16 visual_zero_view" "view_mask p = 0"
    by (simp_all add: p visual_zero_prototype_def)
  ultimately show ?thesis
    using len n c cid ln by (simp add: visual_wf_def label_length_def view_ids_def) (simp add: lab)
qed

lemma take_as_map: "n \<le> length xs \<Longrightarrow> take n xs = map (\<lambda>i. xs ! i) [0..<n]"
  by (intro nth_equalityI) simp_all

lemma view_ids_map:
  "unat (view_count p) \<le> length (views p) \<Longrightarrow>
    view_ids p = map (\<lambda>i. unat (view_id (views p ! i))) [0..<unat (view_count p)]"
  by (simp add: view_ids_def take_as_map)

lemma find_view_ids:
  assumes "visual_wf p"
  shows "find_view p vid = None \<longleftrightarrow> unat vid \<notin> set (view_ids p)"
    and "find_view p vid = Some i \<Longrightarrow> i < unat (view_count p) \<and> view_id (views p ! i) = vid"
proof -
  have l: "unat (view_count p) \<le> length (views p)" using assms by (simp add: visual_wf_def)
  then show "find_view p vid = None \<longleftrightarrow> unat vid \<notin> set (view_ids p)"
    by (auto simp: find_view_def find_None_iff view_ids_map image_iff word_unat_eq_iff) (metis atLeastLessThan_iff zero_le)
  show "find_view p vid = Some i \<Longrightarrow> i < unat (view_count p) \<and> view_id (views p ! i) = vid"
    using list_find_upt(1) unfolding find_view_def by fastforce
qed

lemma push_bit_iff: "k < 32 \<Longrightarrow> bit (push_bit k (1 :: u32)) i \<longleftrightarrow> i = k"
  by (auto simp: bit_simps)

lemma add_view_wf:
  assumes "visual_wf p" "descriptor_wf d"
    and "RmR_VisualPrototype_AddView (Some p) vid sfl sid src (Some d) afl = (st, Some q)"
  shows "visual_wf q" and "class_id q = class_id p"
    and "st \<noteq> VISUAL_OK \<Longrightarrow> q = p" and "st = VISUAL_OK \<Longrightarrow> 0 < unat (view_count q)"
proof -
  define n where "n = unat (view_count p)"
  have wf: "length (views p) = 16" "n \<le> 16" using assms(1) by (simp_all add: visual_wf_def n_def)
  define v where "v = visual_zero_view\<lparr>view_id := vid, view_flags := sfl, sample_id := sid,
      source_crc32c := src, view_descriptor := d\<rparr>"
  have dv: "view_id v = vid" "view_descriptor v = d" by (simp_all add: v_def)
  consider (bad) "16 \<le> unat vid" | (ok) "unat vid < 16" by linarith
  then have "visual_wf q \<and> class_id q = class_id p \<and> (st \<noteq> VISUAL_OK \<longrightarrow> q = p) \<and> (st = VISUAL_OK \<longrightarrow> 0 < unat (view_count q))"
  proof cases
    case bad
    then show ?thesis using assms by (simp add: RmR_VisualPrototype_AddView_def)
  next
    case ok
    have m: "proto_magic p = RMR_VISUAL_PROTOTYPE_MAGIC" "proto_version p = RMR_VISUAL_API_VERSION"
      using assms(1) by (simp_all add: visual_wf_def)
    show ?thesis
    proof (cases "find_view p vid")
      case (Some i)
      have i: "i < n" "view_id (views p ! i) = vid"
        using find_view_ids(2) [OF assms(1) Some] by (simp_all add: n_def)
      show ?thesis
      proof (cases "afl AND RMR_VISUAL_ADD_REPLACE = 0")
        case True
        then show ?thesis using assms m ok Some by (simp add: RmR_VisualPrototype_AddView_def)
      next
        case False
        then have r: "st = VISUAL_OK" "q = store_view p i vid sfl sid src d"
          using assms(3) m ok Some by (simp_all add: RmR_VisualPrototype_AddView_def)
        have q: "view_count q = view_count p" "views q = (views p)[i := v]" "view_mask q = view_mask p OR push_bit (unat vid) 1"
          "class_id q = class_id p" "label q = label p" "proto_magic q = proto_magic p" "proto_version q = proto_version p"
          by (simp_all add: r store_view_def v_def)
        have t: "take n ((views p)[i := v]) = (take n (views p))[i := v]" "drop n ((views p)[i := v]) = drop n (views p)"
          using i by (simp_all add: take_update_swap)
        have ids: "view_ids q = view_ids p"
          using i wf dv by (simp add: view_ids_def q n_def [symmetric] t map_update list_update_same_conv)
        have bit: "bit (view_mask p) (unat vid)"
        proof -
          have "unat vid \<in> set (view_ids p)" using find_view_ids(1) [OF assms(1), of vid] Some by simp
          then show ?thesis using assms(1) by (simp add: visual_wf_def)
        qed
        have mask: "bit (view_mask q) j \<longleftrightarrow> bit (view_mask p) j" for j
          using bit push_bit_iff [of "unat vid" j] ok by (auto simp: q bit_or_iff)
        have "\<forall>w \<in> set (take n (views q)). descriptor_wf (view_descriptor w)"
          using assms(1,2) dv unfolding q t by (auto simp: visual_wf_def n_def dest!: set_update_subset_insert [THEN subsetD])
        then show ?thesis
          using assms(1) ids mask i wf t r(1) by (auto simp: visual_wf_def q label_length_def n_def)
      qed
    next
      case None
      show ?thesis
      proof (cases "16 \<le> n")
        case True
        then show ?thesis using assms m ok None by (simp add: RmR_VisualPrototype_AddView_def n_def)
      next
        case False
        then have r: "st = VISUAL_OK" "q = store_view (p\<lparr>view_count := view_count p + 1\<rparr>) n vid sfl sid src d"
          using assms(3) m ok None by (simp_all add: RmR_VisualPrototype_AddView_def n_def)
        have c: "unat (view_count p + 1) = Suc n"
          using False by (simp add: unat_word_ariths(1) n_def)
        have q: "view_count q = view_count p + 1" "views q = (views p)[n := v]" "view_mask q = view_mask p OR push_bit (unat vid) 1"
          "class_id q = class_id p" "label q = label p" "proto_magic q = proto_magic p" "proto_version q = proto_version p"
          by (simp_all add: r store_view_def v_def)
        have t: "take (Suc n) ((views p)[n := v]) = take n (views p) @ [v]" "drop (Suc n) ((views p)[n := v]) = drop (Suc n) (views p)"
          using False wf by (simp_all add: take_Suc_conv_app_nth)
        have ids: "view_ids q = view_ids p @ [unat vid]"
          by (simp add: view_ids_def q c t dv n_def [symmetric])
        have "drop (Suc n) (views p) = replicate (16 - Suc n) visual_zero_view"
        proof -
          have "drop n (views p) = replicate (16 - n) visual_zero_view" using assms(1) by (simp add: visual_wf_def n_def)
          then have "drop 1 (drop n (views p)) = drop 1 (replicate (16 - n) visual_zero_view)" by simp
          then show ?thesis by simp
        qed
        moreover have "bit (view_mask q) j \<longleftrightarrow> j \<in> set (view_ids q)" for j
          using assms(1) push_bit_iff [of "unat vid" j] ok by (auto simp: q bit_or_iff ids visual_wf_def)
        moreover have "unat vid \<notin> set (view_ids p)" using find_view_ids(1) [OF assms(1), of vid] None by simp
        ultimately show ?thesis
          using assms(1,2) False wf c t r(1) dv ok by (auto simp: visual_wf_def q label_length_def ids n_def [symmetric])
      qed
    qed
  qed
  then show "visual_wf q" "class_id q = class_id p" "st \<noteq> VISUAL_OK \<Longrightarrow> q = p" "st = VISUAL_OK \<Longrightarrow> 0 < unat (view_count q)"
    by blast+
qed

lemma vision_angle_length: "length (fst (foldl vision_angle (h, st) as)) = length h"
  by (induction as arbitrary: h st) (simp_all add: vision_angle_def Let_def case_prod_beta)

lemma built_descriptor_wf: "descriptor_wf (snd (RmR_Vision_BuildDescriptor g w h stride angles n))"
proof -
  have "replicate 3 (0 :: u8) = [0, 0, 0]" by (simp add: numeral_3_eq_3)
  then show ?thesis
    using vision_angle_length
    by (auto simp: RmR_Vision_BuildDescriptor_def Let_def vision_zero_def descriptor_wf_def case_prod_beta)
qed

type_synonym add_call = "u8 \<times> u8 \<times> u32 \<times> u32 \<times> vision_descriptor \<times> u32"

definition add_one :: "visual_prototype \<Rightarrow> add_call \<Rightarrow> visual_prototype" where
  "add_one p = (\<lambda>(vid, sfl, sid, src, d, afl). the (snd (RmR_VisualPrototype_AddView (Some p) vid sfl sid src (Some d) afl)))"

definition call_descriptor :: "add_call \<Rightarrow> vision_descriptor" where
  "call_descriptor = (\<lambda>(vid, sfl, sid, src, d, afl). d)"

lemma add_returns: "\<exists>st q. RmR_VisualPrototype_AddView (Some p) vid sfl sid src (Some d) afl = (st, Some q)"
  by (auto simp: RmR_VisualPrototype_AddView_def Let_def split: option.splits)

lemma add_one_wf:
  assumes "visual_wf p" "descriptor_wf (call_descriptor c)"
  shows "visual_wf (add_one p c)" "class_id (add_one p c) = class_id p"
proof -
  obtain vid sfl sid src d afl where c: "c = (vid, sfl, sid, src, d, afl)" by (metis prod_cases6)
  obtain st q where r: "RmR_VisualPrototype_AddView (Some p) vid sfl sid src (Some d) afl = (st, Some q)"
    using add_returns by blast
  show "visual_wf (add_one p c)" "class_id (add_one p c) = class_id p"
    using add_view_wf(1,2) [OF assms(1) _ r] assms(2) r by (simp_all add: c add_one_def call_descriptor_def)
qed

lemma adds_wf:
  assumes "visual_wf p" "\<forall>c \<in> set calls. descriptor_wf (call_descriptor c)"
  shows "visual_wf (foldl add_one p calls) \<and> class_id (foldl add_one p calls) = class_id p"
  using assms by (induction calls arbitrary: p) (simp_all add: add_one_wf)

lemma wf_crc_update: "visual_wf p \<Longrightarrow> visual_wf (p\<lparr>prototype_crc32c := c\<rparr>)"
  by (simp add: visual_wf_def label_length_def view_ids_def)

lemma prototype_crc_update: "rmr_prototype_crc (p\<lparr>prototype_crc32c := c\<rparr>) = rmr_prototype_crc p"
  by (simp add: rmr_prototype_crc_def Let_def)

text \<open>
  C23. Every prototype that the library builds is well formed. After a successful initialisation and any
  sequence of added views, accepted or refused, the prototype keeps its magic, its zero-padded label and
  the class of that label, at most 16 views with distinct identifiers, a mask with exactly their bits and
  zero slots above. Sealing it fails only when it has no view, and the sealed prototype verifies unless
  its checksum happens to be zero, which reads as not sealed.
\<close>

theorem visual_building:
  assumes "RmR_VisualPrototype_Init (Some q0) (Some s) fl = (VISUAL_OK, Some p0)" "32 \<le> length s \<or> 0 \<in> set s"
    and "\<forall>c \<in> set calls. descriptor_wf (call_descriptor c)"
    and "p = foldl add_one p0 calls" "RmR_VisualPrototype_Seal (Some p) = (st, Some q)"
  shows "visual_wf p \<and> visual_wf q \<and> class_id q = RmR_Visual_ClassId (Some s) \<and>
    st = (if view_count p = 0 then VISUAL_EMPTY else VISUAL_OK) \<and>
    (st = VISUAL_OK \<longrightarrow> RmR_VisualPrototype_Verify (Some q) = (if rmr_prototype_crc p = 0 then VISUAL_UNSEALED else VISUAL_OK))"
proof -
  have p0: "visual_wf p0" "class_id p0 \<noteq> 0" using init_wf [OF assms(1)] assms(2) by auto
  have c0: "class_id p0 = RmR_Visual_ClassId (Some s)"
    using assms(1) by (auto simp: RmR_VisualPrototype_Init_def Let_def split: if_splits)
  have p: "visual_wf p" "class_id p = class_id p0" using adds_wf [OF p0(1) assms(3)] assms(4) by simp_all
  show ?thesis
  proof (cases "view_count p = 0")
    case True
    then have "rmr_visual_structure_status (Some p) = VISUAL_EMPTY"
      using p p0(2) by (auto simp: rmr_visual_structure_status_def Let_def visual_wf_def label_length_def)
    then show ?thesis
      using assms(5) p c0 True by (auto simp: RmR_VisualPrototype_Seal_def Let_def)
  next
    case False
    then have ok: "rmr_visual_structure_status (Some p) = VISUAL_OK"
      using structure_ok_wf [OF p(1)] p p0(2) by (simp add: word_neq_0_conv)
    then have q: "st = VISUAL_OK" "q = p\<lparr>prototype_crc32c := rmr_prototype_crc p\<rparr>"
      using assms(5) by (auto simp: RmR_VisualPrototype_Seal_def Let_def)
    have "rmr_visual_structure_status (Some q) = VISUAL_OK"
      using structure_ok_wf [of q] wf_crc_update [OF p(1)] p p0(2) False by (simp add: q word_neq_0_conv)
    then have "RmR_VisualPrototype_Verify (Some q) = (if rmr_prototype_crc p = 0 then VISUAL_UNSEALED else VISUAL_OK)"
      by (auto simp: RmR_VisualPrototype_Verify_def Let_def q prototype_crc_update)
    then show ?thesis using p c0 q False wf_crc_update [OF p(1)] by simp
  qed
qed

lemma seal_returns: "\<exists>st q. RmR_VisualPrototype_Seal (Some p) = (st, Some q)"
  by (cases "rmr_visual_structure_status (Some p) = VISUAL_OK") (simp_all add: RmR_VisualPrototype_Seal_def Let_def)

lemma label_ab_class: "RmR_Visual_ClassId (Some [97, 98, 0]) \<noteq> 0"
  by code_simp

lemma visual_building_witness:
  "\<exists>p0 p st q. RmR_VisualPrototype_Init (Some visual_zero_prototype) (Some [97, 98, 0]) 0 = (VISUAL_OK, Some p0) \<and>
    p = foldl add_one p0 [(3, 1, 7, 9, vision_zero, 0), (3, 1, 8, 9, vision_zero, 0), (5, 1, 7, 9, vision_zero, 0)] \<and>
    RmR_VisualPrototype_Seal (Some p) = (st, Some q) \<and> visual_wf q \<and> st = (if view_count p = 0 then VISUAL_EMPTY else VISUAL_OK)"
proof -
  let ?calls = "[(3, 1, 7, 9, vision_zero, 0), (3, 1, 8, 9, vision_zero, 0), (5, 1, 7, 9, vision_zero, 0)] :: add_call list"
  have n: "rmr_visual_strnlen (Some [97, 98, 0]) 32 = 2"
    by (simp add: rmr_visual_strnlen_def take_Cons')
  obtain p0 where p0: "RmR_VisualPrototype_Init (Some visual_zero_prototype) (Some [97, 98, 0]) 0 = (VISUAL_OK, Some p0)"
    using label_ab_class n by (simp add: RmR_VisualPrototype_Init_def Let_def)
  define p where "p = foldl add_one p0 ?calls"
  obtain st q where q: "RmR_VisualPrototype_Seal (Some p) = (st, Some q)"
    using seal_returns by blast
  have d: "\<forall>c \<in> set ?calls. descriptor_wf (call_descriptor c)"
    by (simp add: call_descriptor_def descriptor_wf_def vision_zero_def numeral_3_eq_3)
  from visual_building [OF p0 _ d p_def q] p0 q show ?thesis
    by (intro exI [of _ p0] exI [of _ p] exI [of _ st] exI [of _ q]) (simp add: p_def)
qed

section \<open>Capsule\<close>

lemma bytes_of_u32:
  "(ucast (ucast v :: u8) OR push_bit 8 (ucast (ucast (drop_bit 8 v) :: u8)) OR push_bit 16 (ucast (ucast (drop_bit 16 v) :: u8))
    OR push_bit 24 (ucast (ucast (drop_bit 24 v) :: u8)) :: u32) = v"
proof (rule bit_word_eqI)
  fix k assume "k < LENGTH(32)"
  then have "k < 8 \<or> (8 \<le> k \<and> k < 16) \<or> (16 \<le> k \<and> k < 24) \<or> (24 \<le> k \<and> k < 32)" by auto
  then show "bit (ucast (ucast v :: u8) OR push_bit 8 (ucast (ucast (drop_bit 8 v) :: u8))
      OR push_bit 16 (ucast (ucast (drop_bit 16 v) :: u8)) OR push_bit 24 (ucast (ucast (drop_bit 24 v) :: u8)) :: u32) k = bit v k"
    by (elim disjE conjE) (auto simp: bit_simps)
qed

lemma bytes_of_u16:
  "(ucast (ucast v :: u8) OR push_bit 8 (ucast (ucast (drop_bit 8 v) :: u8)) :: u16) = v"
proof (rule bit_word_eqI)
  fix k assume "k < LENGTH(16)"
  then have "k < 8 \<or> (8 \<le> k \<and> k < 16)" by auto
  then show "bit (ucast (ucast v :: u8) OR push_bit 8 (ucast (ucast (drop_bit 8 v) :: u8)) :: u16) k = bit v k"
    by (elim disjE conjE) (auto simp: bit_simps)
qed

lemma visual_get_put [simp]:
  "rmr_get_u32 (rmr_put_u32 v @ c) = (v, c)" "rmr_get_u16 (rmr_put_u16 w @ c) = (w, c)"
  using bytes_of_u32 [of v] bytes_of_u16 [of w]
  by (simp_all add: rmr_get_u32_def rmr_put_u32_def rmr_get_u16_def rmr_put_u16_def or.assoc)

lemma visual_put_length [simp]: "length (rmr_put_u32 v) = 4" "length (rmr_put_u16 w) = 2"
  by (simp_all add: rmr_put_u32_def rmr_put_u16_def)

lemma get_words_put: "get_words (length ws) (concat (map rmr_put_u32 ws) @ c) = (ws, c)"
  by (induction ws) simp_all

lemma descriptor_length [simp]: "length (rmr_serialize_descriptor d) = 80"
  by (simp add: rmr_serialize_descriptor_def length_concat comp_def sum_list_triv del: upt_rec_numeral)

lemma descriptor_round_trip:
  assumes "descriptor_wf d"
  shows "rmr_deserialize_descriptor (rmr_serialize_descriptor d @ c) = (d, c)"
proof -
  have h: "concat (map (\<lambda>i. rmr_put_u32 (angle_hist d ! i)) [0..<8]) = concat (map rmr_put_u32 (angle_hist d))"
    using assms map_nth [of "angle_hist d"] unfolding descriptor_wf_def by (metis map_map comp_def map_eq_conv)
  have w: "length ws = 8 \<Longrightarrow> get_words 8 (concat (map rmr_put_u32 ws) @ c) = (ws, c)" for ws c
    using get_words_put [of ws c] by simp
  show ?thesis
    using assms unfolding rmr_serialize_descriptor_def rmr_deserialize_descriptor_def h
    by (cases d) (simp add: w descriptor_wf_def)
qed

lemma view_length [simp]: "length (serialize_view v) = 92"
  by (simp add: serialize_view_def)

lemma view_round_trip: "descriptor_wf (view_descriptor v) \<Longrightarrow> deserialize_view (serialize_view v @ c) = (v, c)"
  by (cases v) (simp add: serialize_view_def deserialize_view_def Let_def descriptor_round_trip)

lemma views_round_trip:
  "\<forall>v \<in> set vs. descriptor_wf (view_descriptor v) \<Longrightarrow> i + length vs \<le> length zs \<Longrightarrow>
    deserialize_views zs i (length vs) (concat (map serialize_view vs) @ c) = (buf_write zs i vs, c)"
proof (induction vs arbitrary: i zs)
  case (Cons v vs)
  have "buf_write (zs[i := v]) (i + 1) vs = buf_write zs i (v # vs)"
    using Cons.prems(2) by (simp add: buf_write_def take_Suc_conv_app_nth)
  then show ?case using Cons by (simp add: view_round_trip)
qed simp

lemma verify_ok_D:
  assumes "RmR_VisualPrototype_Verify (Some p) = VISUAL_OK"
  shows "rmr_visual_structure_status (Some p) = VISUAL_OK"
  using assms by (auto simp: RmR_VisualPrototype_Verify_def Let_def split: if_splits)

lemma label_shape:
  assumes "visual_wf p"
  shows "(buf_write (replicate 32 0) 0 (take (label_length p) (label p)))[label_length p := 0] = label p"
proof -
  let ?n = "label_length p"
  have n: "?n < 32" "length (label p) = 32" "drop ?n (label p) = replicate (32 - ?n) 0"
    using assms by (simp_all add: visual_wf_def)
  have "32 - ?n = Suc (31 - ?n)" using n by simp
  then have "(take ?n (label p) @ replicate (32 - ?n) 0)[?n := 0] = take ?n (label p) @ replicate (32 - ?n) 0"
    using n by (simp add: list_update_append)
  also have "\<dots> = label p" unfolding n(3) [symmetric] by simp
  finally show ?thesis using n by (simp add: buf_write_0)
qed

text \<open>The capsule as a function of the prototype.\<close>

definition capsule_body :: "visual_prototype \<Rightarrow> bytes" where
  "capsule_body p = capsule_header p (RmR_VisualPrototype_SerializedSize (Some p)) (label_length p) @
    take (label_length p) (label p) @ concat (map serialize_view (take (unat (view_count p)) (views p)))"

definition capsule_crc :: "visual_prototype \<Rightarrow> u32" where
  "capsule_crc p = RmR_Stability_CRC32C (Some (capsule_body p)) (length (capsule_body p))"

lemma verified_fields:
  assumes "visual_wf p" "RmR_VisualPrototype_Verify (Some p) = VISUAL_OK"
  shows "0 < label_length p" "label_length p < 32" "0 < unat (view_count p)" "unat (view_count p) \<le> 16"
    "length (label p) = 32" "length (views p) = 16" "rmr_visual_strnlen (Some (label p)) 32 = label_length p"
  using structure_ok_D [OF verify_ok_D [OF assms(2)]] assms(1) by (simp_all add: unat_gt_0 label_length_def visual_wf_def)

lemma capsule_size:
  assumes "visual_wf p" "RmR_VisualPrototype_Verify (Some p) = VISUAL_OK"
  shows "RmR_VisualPrototype_SerializedSize (Some p) = 36 + label_length p + unat (view_count p) * 92 + 4"
    "length (capsule_body p) = 36 + label_length p + unat (view_count p) * 92"
  using verified_fields [OF assms]
  by (simp_all add: RmR_VisualPrototype_SerializedSize_def capsule_body_def capsule_header_def length_concat comp_def sum_list_triv)

lemma capsule_crc_prefix: "RmR_Stability_CRC32C (Some (capsule_body p @ rest)) (length (capsule_body p)) = capsule_crc p"
  by (simp add: RmR_Stability_CRC32C_def capsule_crc_def)

lemma serialize_writes:
  assumes "visual_wf p" "RmR_VisualPrototype_Verify (Some p) = VISUAL_OK"
    and "RmR_VisualPrototype_SerializedSize (Some p) \<le> cap" "cap \<le> length out"
  defines "t \<equiv> RmR_VisualPrototype_SerializedSize (Some p)"
  shows "RmR_VisualPrototype_Serialize (Some p) (Some out) cap =
    (VISUAL_OK, Some (capsule_body p @ rmr_put_u32 (capsule_crc p) @ drop t out), t)"
proof -
  note f = verified_fields [OF assms(1,2)] and sz = capsule_size [OF assms(1,2), folded t_def]
  let ?b1 = "capsule_body p @ drop (length (capsule_body p)) out"
  have vs: "concat (map (\<lambda>i. serialize_view (views p ! i)) [0..<unat (view_count p)]) =
      concat (map serialize_view (take (unat (view_count p)) (views p)))"
    using f by (simp add: take_as_map comp_def)
  have b: "buf_write out 0 (capsule_body p) = ?b1"
    "buf_write ?b1 (length (capsule_body p)) (rmr_put_u32 (capsule_crc p)) = capsule_body p @ rmr_put_u32 (capsule_crc p) @ drop t out"
    using assms(3,4) sz by (simp_all add: buf_write_0 t_def [symmetric]) (simp add: buf_write_def)
  have lt: "t - 4 = length (capsule_body p)" using sz by simp
  have c: "(cap < t \<or> 0xFFFFFFFF < t) = False" "(length (capsule_body p) + 4 \<noteq> t) = False"
    "(RmR_VisualPrototype_Verify (Some p) \<noteq> VISUAL_OK \<or> Some out = None) = False"
    using assms(2,3) sz f by (simp_all add: t_def [symmetric])
  show ?thesis
    by (simp only: RmR_VisualPrototype_Serialize_def Let_def c if_False option.sel t_def [symmetric] visual_consts(1,5) f(7)
        vs capsule_body_def [of p, folded t_def, symmetric] b capsule_crc_prefix lt)
qed

lemma deserialize_capsule_views:
  assumes "visual_wf p" "unat (view_count p) \<le> 16" "length (views p) = 16"
  shows "deserialize_views (replicate 16 visual_zero_view) 0 (unat (view_count p))
      (concat (map serialize_view (take (unat (view_count p)) (views p))) @ rest) = (views p, rest)"
proof -
  let ?k = "unat (view_count p)"
  have "\<forall>v \<in> set (take ?k (views p)). descriptor_wf (view_descriptor v)"
    "drop ?k (views p) = replicate (16 - ?k) visual_zero_view" using assms(1) by (simp_all add: visual_wf_def)
  moreover have "views p = take ?k (views p) @ drop ?k (views p)" by simp
  ultimately show ?thesis
    using views_round_trip [of "take ?k (views p)" 0 "replicate 16 visual_zero_view"] assms(2,3) by (simp add: buf_write_0)
qed

lemma deserialize_reads:
  fixes rest :: bytes
  assumes "visual_wf p" "RmR_VisualPrototype_Verify (Some p) = VISUAL_OK"
  defines "t \<equiv> RmR_VisualPrototype_SerializedSize (Some p)"
    and "buf \<equiv> capsule_body p @ rmr_put_u32 (capsule_crc p) @ rest"
  shows "RmR_VisualPrototype_Deserialize (Some buf) (length buf) (Some q) = (VISUAL_OK, Some p, t)"
proof -
  define n where "n = label_length p"
  define k where "k = unat (view_count p)"
  define c0 where "c0 = take n (label p) @ concat (map serialize_view (take k (views p))) @ rmr_put_u32 (capsule_crc p) @ rest"
  note st = structure_ok_D [OF verify_ok_D [OF assms(2)]]
  note f = verified_fields [OF assms(1,2), folded n_def k_def] and sz = capsule_size [OF assms(1,2), folded n_def k_def t_def]
  have buf: "buf = capsule_header p t n @ c0" by (simp add: buf_def c0_def capsule_body_def n_def k_def t_def)
  have hdr: "rmr_get_u32 buf = (RMR_VISUAL_CAPSULE_MAGIC, drop 4 buf)"
    "rmr_get_u16 (drop 4 buf) = (ucast RMR_VISUAL_API_VERSION, drop 6 buf)"
    "rmr_get_u16 (drop 6 buf) = (of_nat 36, drop 8 buf)" "rmr_get_u32 (drop 8 buf) = (of_nat t, drop 12 buf)"
    "rmr_get_u32 (drop 12 buf) = (class_id p, drop 16 buf)" "rmr_get_u32 (drop 16 buf) = (proto_flags p, drop 20 buf)"
    "rmr_get_u32 (drop 20 buf) = (view_count p, drop 24 buf)" "rmr_get_u32 (drop 24 buf) = (view_mask p, drop 28 buf)"
    "rmr_get_u32 (drop 28 buf) = (of_nat n, drop 32 buf)" "rmr_get_u32 (drop 32 buf) = (prototype_crc32c p, c0)"
    by (simp_all add: buf capsule_header_def)
  have lt: "t - 4 = length (capsule_body p)" using sz by simp
  have crc: "RmR_Stability_CRC32C (Some buf) (t - 4) = capsule_crc p" "fst (rmr_get_u32 (drop (t - 4) buf)) = capsule_crc p"
    by (simp_all add: lt buf_def capsule_crc_prefix)
  have "t < 2 ^ 32" "n < 2 ^ 32" using sz f by simp_all
  then have "unat (of_nat t :: u32) = t" "unat (of_nat n :: u32) = n" by (intro unat_of_nat_small, simp)+
  moreover have "unat (of_nat 36 :: u16) = 36" by simp
  ultimately have u: "unat (of_nat 36 :: u16) = 36" "unat (of_nat t :: u32) = t" "unat (of_nat n :: u32) = n" by blast+
  have tn: "take n c0 = take n (label p)"
    "drop n c0 = concat (map serialize_view (take k (views p))) @ rmr_put_u32 (capsule_crc p) @ rest"
    using f by (simp_all add: c0_def)
  have c: "(length buf < 36 + 4) = False" "(unat (of_nat 36 :: u16) \<noteq> 36) = False"
    "(length buf < t \<or> t < 36 + 4) = False"
    "(view_count p = 0 \<or> 16 < k \<or> (of_nat n :: u32) = 0 \<or> 32 \<le> n) = False"
    "(36 + n + k * 92 + 4 \<noteq> t) = False" "(capsule_crc p \<noteq> capsule_crc p) = False"
    "(length buf - length rest \<noteq> t) = False"
    "(RmR_VisualPrototype_Verify (Some p) \<noteq> VISUAL_OK \<or> class_id p \<noteq> RmR_Visual_ClassId (Some (label p))) = False"
    using sz f st(5,7) assms(2) u by (auto simp: word_unat_eq_iff k_def buf_def)
  let ?z = "visual_zero_prototype\<lparr>proto_magic := RMR_VISUAL_PROTOTYPE_MAGIC, proto_version := RMR_VISUAL_API_VERSION,
      class_id := class_id p, proto_flags := proto_flags p, view_count := view_count p, view_mask := view_mask p,
      prototype_crc32c := prototype_crc32c p\<rparr>"
  have z: "label ?z = replicate 32 0" "\<And>l. views (?z\<lparr>label := l\<rparr>) = replicate 16 visual_zero_view"
    and pp: "?z\<lparr>label := label p, views := views p\<rparr> = p"
    using st(1,2) by (simp_all add: visual_zero_prototype_def)
  note vr = deserialize_capsule_views [OF assms(1) f(4,6) [unfolded k_def], folded k_def]
  note lr = label_shape [OF assms(1), folded n_def]
  show ?thesis
    using c u
    by (simp only: RmR_VisualPrototype_Deserialize_def Let_def option.sel option.distinct hdr prod.case visual_consts
        simp_thms if_False if_True tn k_def [symmetric] crc visual_prototype.simps visual_prototype.update_convs z vr lr pp
        drop_append drop_all visual_put_length) (simp add: pp)
qed

text \<open>
  C24. A capsule is read back as it was written. A verified well-formed prototype serializes into any buffer
  of at least its serialized size, at most 1543 bytes, touching nothing past it, and the capsule, followed by
  anything, deserializes to the same prototype and reports the bytes consumed.
\<close>

theorem visual_capsule_round_trip:
  assumes "visual_wf p" "RmR_VisualPrototype_Verify (Some p) = VISUAL_OK"
    and "RmR_VisualPrototype_SerializedSize (Some p) \<le> cap" "cap \<le> length out"
  shows "\<exists>buf. RmR_VisualPrototype_Serialize (Some p) (Some out) cap =
      (VISUAL_OK, Some buf, RmR_VisualPrototype_SerializedSize (Some p)) \<and> length buf = length out \<and>
    RmR_VisualPrototype_SerializedSize (Some p) \<le> 1543 \<and>
    drop (RmR_VisualPrototype_SerializedSize (Some p)) buf = drop (RmR_VisualPrototype_SerializedSize (Some p)) out \<and>
    RmR_VisualPrototype_Deserialize (Some buf) (length buf) (Some q) =
      (VISUAL_OK, Some p, RmR_VisualPrototype_SerializedSize (Some p))"
proof -
  let ?t = "RmR_VisualPrototype_SerializedSize (Some p)"
  let ?buf = "capsule_body p @ rmr_put_u32 (capsule_crc p) @ drop ?t out"
  note f = verified_fields [OF assms(1,2)] and sz = capsule_size [OF assms(1,2)]
  have "length ?buf = length out" "drop ?t ?buf = drop ?t out" "?t \<le> 1543" using sz f assms(3,4) by simp_all
  then show ?thesis
    using serialize_writes [OF assms] deserialize_reads [OF assms(1,2), of "drop ?t out" q] by (intro exI [of _ ?buf]) simp
qed

text \<open>The last byte of the checksummed fields decides between two checksums, so one of two is not zero.\<close>

lemma rmr_crc32c_spec: "rmr_crc32c_update = crc_spec CRC32C_POLY"
proof -
  have v: "visual_crc_bit = crc_bit CRC32C_POLY"
    using stability_bit by (simp add: fun_eq_iff visual_crc_bit_def stability_crc_bit_def)
  show ?thesis
    by (intro ext) (simp add: rmr_crc32c_update_def crc_spec_def crc_byte_def [abs_def] crc_bits_def v)
qed

lemma rmr_crc_u8_inject: "rmr_crc_u8 c a = rmr_crc_u8 c b \<Longrightarrow> a = b"
  using crc_byte_inject_byte [of CRC32C_POLY c a b] by (simp add: rmr_crc_u8_def rmr_crc32c_spec crc_spec_def)

definition demo_prototype :: "u8 \<Rightarrow> visual_prototype" where
  "demo_prototype t = visual_zero_prototype\<lparr>proto_magic := RMR_VISUAL_PROTOTYPE_MAGIC, proto_version := RMR_VISUAL_API_VERSION,
     class_id := RmR_Visual_ClassId (Some [97, 98, 0]), view_count := 1, view_mask := 8, label := [97, 98] @ replicate 30 0,
     views := visual_zero_view\<lparr>view_id := 3, view_descriptor := vision_zero\<lparr>otsu_threshold := t\<rparr>\<rparr>
       # replicate 15 visual_zero_view\<rparr>"

lemma demo_crc: "rmr_prototype_crc (demo_prototype 0) \<noteq> rmr_prototype_crc (demo_prototype 1)"
proof
  assume "rmr_prototype_crc (demo_prototype 0) = rmr_prototype_crc (demo_prototype 1)"
  moreover obtain c where "rmr_prototype_crc (demo_prototype t) = rmr_crc_u8 c t XOR 0xFFFFFFFF" for t
    by (simp add: demo_prototype_def rmr_prototype_crc_def view_crc_def rmr_descriptor_crc_def Let_def visual_zero_prototype_def
        visual_zero_view_def vision_zero_def)
  ultimately show False using rmr_crc_u8_inject [of c 0 1] by (simp only: xor_cancel_word) simp
qed

lemma demo_wf: "visual_wf (demo_prototype t)"
proof -
  have n: "rmr_visual_strnlen (Some ([97, 98] @ 0 # replicate 29 0)) 32 = 2"
    using strnlen_padded [of "[97, 98]" 32 "replicate 29 0"] by simp
  have r: "replicate 30 (0 :: u8) = 0 # replicate 29 0" by (simp add: replicate_Suc [symmetric] del: replicate_Suc)
  have b: "bit (8 :: u32) i \<longleftrightarrow> i = 3" for i
    using push_bit_iff [of 3 i] by simp
  have "rmr_visual_strnlen (Some [97, 98, 0]) 32 = 2" using strnlen_padded [of "[97, 98]" 32 "[]"] by simp
  then have "RmR_Visual_ClassId (Some ([97, 98] @ 0 # replicate 29 0)) = RmR_Visual_ClassId (Some [97, 98, 0])"
    using n by (simp add: RmR_Visual_ClassId_def RmR_Stability_CRC32C_def)
  moreover have "replicate 3 (0 :: u8) = [0, 0, 0]" by (simp add: numeral_3_eq_3)
  ultimately show ?thesis
    using n b by (simp add: visual_wf_def demo_prototype_def label_length_def view_ids_def r visual_zero_prototype_def
        descriptor_wf_def vision_zero_def)
qed

lemma demo_sealed:
  "\<exists>p t c. visual_wf p \<and> RmR_VisualPrototype_Verify (Some p) = VISUAL_OK \<and>
    RmR_VisualPrototype_SerializedSize (Some p) = 134 \<and> p = demo_prototype t\<lparr>prototype_crc32c := c\<rparr>"
proof -
  obtain t where t: "rmr_prototype_crc (demo_prototype t) \<noteq> 0" using demo_crc by metis
  define d where "d = demo_prototype t"
  define p where "p = d\<lparr>prototype_crc32c := rmr_prototype_crc d\<rparr>"
  have d: "view_count d = 1" "class_id d \<noteq> 0" "label_length d = 2" "visual_wf d"
    using label_ab_class demo_wf strnlen_padded [of "[97, 98]" 32 "replicate 29 0"]
    by (simp_all add: d_def demo_prototype_def visual_zero_prototype_def label_length_def) (simp add: numeral_eq_Suc)
  then have "visual_wf p" by (simp add: p_def wf_crc_update)
  moreover from this d have "RmR_VisualPrototype_Verify (Some p) = VISUAL_OK"
    using structure_ok_wf [of p] t by (simp add: RmR_VisualPrototype_Verify_def p_def prototype_crc_update d_def)
  moreover have "RmR_VisualPrototype_SerializedSize (Some p) = 134"
    using d(1,3) by (simp add: RmR_VisualPrototype_SerializedSize_def p_def label_length_def)
  ultimately show ?thesis unfolding p_def d_def by blast
qed

lemma visual_capsule_round_trip_witness:
  "\<exists>p buf. RmR_VisualPrototype_Serialize (Some p) (Some (replicate 200 7)) 150 = (VISUAL_OK, Some buf, 134) \<and>
    RmR_VisualPrototype_Deserialize (Some buf) 200 (Some visual_zero_prototype) = (VISUAL_OK, Some p, 134)"
proof -
  obtain p where p: "visual_wf p" "RmR_VisualPrototype_Verify (Some p) = VISUAL_OK"
    "RmR_VisualPrototype_SerializedSize (Some p) = 134" using demo_sealed by blast
  from visual_capsule_round_trip [OF p(1,2), of 150 "replicate 200 7" visual_zero_prototype] p(3)
  obtain buf where b: "RmR_VisualPrototype_Serialize (Some p) (Some (replicate 200 7)) 150 = (VISUAL_OK, Some buf, 134)"
    "length buf = 200"
    "RmR_VisualPrototype_Deserialize (Some buf) (length buf) (Some visual_zero_prototype) = (VISUAL_OK, Some p, 134)"
    by auto
  show ?thesis using b by (intro exI [of _ p] exI [of _ buf]) simp
qed

end
