(* ===== verification/Visual_Match.thy ===== *)
theory Visual_Match
  imports Visual_Capsule
begin

text \<open>
  What the comparison, the store and the classification of the visual prototypes compute: the nearest
  view, a finite map from classes to prototypes, and the first slot of the greatest score with its
  runner-up.
\<close>

section \<open>Comparison\<close>

text \<open>One pass keeps the first of the least distances.\<close>

definition nearest_step :: "(visual_view \<Rightarrow> u32) \<Rightarrow> compare_state \<Rightarrow> visual_view \<Rightarrow> compare_state" where
  "nearest_step D = (\<lambda>(b, vid, n) v. if D v < b then (D v, ucast (view_id v), n + 1) else (b, vid, n + 1))"

lemma nearest_scan:
  assumes "foldl (nearest_step D) (0xFFFFFFFF, vid, 0) vs = (b, w, n)"
  shows "n = of_nat (length vs) \<and> (\<forall>v \<in> set vs. b \<le> D v) \<and>
    (if \<forall>v \<in> set vs. D v = 0xFFFFFFFF then b = 0xFFFFFFFF \<and> w = vid
     else \<exists>i < length vs. b = D (vs ! i) \<and> b \<noteq> 0xFFFFFFFF \<and> w = ucast (view_id (vs ! i)) \<and> (\<forall>j<i. b < D (vs ! j)))"
  using assms
proof (induction vs arbitrary: b w n rule: rev_induct)
  case (snoc v vs)
  obtain b' w' n' where r: "foldl (nearest_step D) (0xFFFFFFFF, vid, 0) vs = (b', w', n')" by (cases rule: prod_cases3)
  note IH = snoc.IH [OF r]
  have top: "x \<le> 0xFFFFFFFF" for x :: u32
    using unsigned_less [of x, where 'a = nat] by (simp add: word_le_nat_alt)
  have e: "(b, w, n) = (if D v < b' then (D v, ucast (view_id v), n' + 1) else (b', w', n' + 1))"
    using snoc.prems r by (simp add: nearest_step_def)
  show ?case
  proof (cases "D v < b'")
    case True
    have "\<forall>j < length vs. D v < D (vs ! j)"
      using IH True by (meson nth_mem order_less_le_trans)
    then have "\<exists>i < length (vs @ [v]). b = D ((vs @ [v]) ! i) \<and> b \<noteq> 0xFFFFFFFF \<and> w = ucast (view_id ((vs @ [v]) ! i)) \<and>
        (\<forall>j<i. b < D ((vs @ [v]) ! j))"
      using e IH top [of b'] by (intro exI [of _ "length vs"]) (use True in \<open>auto simp: nth_append\<close>)
    moreover have "D v \<noteq> 0xFFFFFFFF" using True top [of b'] by auto
    ultimately show ?thesis using True e IH by auto
  next
    case False
    show ?thesis
    proof (cases "\<forall>u \<in> set vs. D u = 0xFFFFFFFF")
      case True
      then show ?thesis using False e IH top [of "D v"] by auto
    next
      case nt: False
      with IH obtain i where i: "i < length vs" "b' = D (vs ! i)" "b' \<noteq> 0xFFFFFFFF" "w' = ucast (view_id (vs ! i))"
        "\<forall>j<i. b' < D (vs ! j)"
        by (metis (no_types, lifting))
      then have "\<exists>i < length (vs @ [v]). b = D ((vs @ [v]) ! i) \<and> b \<noteq> 0xFFFFFFFF \<and> w = ucast (view_id ((vs @ [v]) ! i)) \<and>
          (\<forall>j<i. b < D ((vs @ [v]) ! j))"
        using False e by (intro exI [of _ i]) (simp add: nth_append)
      then show ?thesis using False e IH nt by auto
    qed
  qed
qed simp

abbreviation "view_distance q v \<equiv> RmR_Vision_DifferenceQ16 (Some (view_descriptor v)) (Some q)"

lemma pass_all: "preferred = RMR_VISUAL_VIEW_ANY \<Longrightarrow> foldl (compare_view q preferred 0) s vs = foldl (nearest_step (view_distance q)) s vs"
  by (intro foldl_cong) (auto simp: compare_view_def nearest_step_def Let_def)

lemma pass_exact:
  "preferred \<noteq> RMR_VISUAL_VIEW_ANY \<Longrightarrow>
    foldl (compare_view q preferred 0) s vs = foldl (nearest_step (view_distance q)) s (filter (\<lambda>v. view_id v = preferred) vs)"
  by (induction vs arbitrary: s) (auto simp: compare_view_def nearest_step_def Let_def split: prod.splits)

lemma pass_others:
  "preferred \<noteq> RMR_VISUAL_VIEW_ANY \<Longrightarrow> \<forall>v \<in> set vs. view_id v \<noteq> preferred \<Longrightarrow>
    foldl (compare_view q preferred 1) s vs = foldl (nearest_step (view_distance q)) s vs"
  by (induction vs arbitrary: s) (auto simp: compare_view_def nearest_step_def Let_def split: prod.splits)

lemma filter_unique:
  "distinct (map f xs) \<Longrightarrow> i < length xs \<Longrightarrow> f (xs ! i) = y \<Longrightarrow> filter (\<lambda>x. f x = y) xs = [xs ! i]"
proof (induction xs arbitrary: i)
  case (Cons x xs)
  show ?case
  proof (cases i)
    case 0
    then have "f x = y" using Cons.prems(3) by simp
    then have "filter (\<lambda>z. f z = y) xs = []" using Cons.prems(1) by (simp add: filter_empty_conv) (metis imageI)
    then show ?thesis using 0 \<open>f x = y\<close> by simp
  next
    case (Suc j)
    then have "f x \<noteq> y" using Cons.prems by (metis distinct.simps(2) length_map list.simps(9) nth_Cons_Suc nth_map nth_mem Suc_less_eq length_Cons)
    then show ?thesis using Cons.IH [of j] Cons.prems Suc by simp
  qed
qed simp

lemma structure_mask_Inl: "structure_mask vs m = Inl st \<Longrightarrow> st \<noteq> 0"
  by (induction vs m rule: structure_mask.induct) (auto simp: Let_def split: if_splits)

lemma structure_ids:
  assumes "rmr_visual_structure_status (Some p) = VISUAL_OK"
  shows "distinct (view_ids p) \<and> (\<forall>v \<in> set (take (unat (view_count p)) (views p)). unat (view_id v) < 16)"
proof -
  have "\<exists>m. structure_mask (take (unat (view_count p)) (views p)) 0 = Inr m"
  proof (cases "structure_mask (take (unat (view_count p)) (views p)) 0")
    case (Inl st)
    then have "rmr_visual_structure_status (Some p) \<noteq> 0"
      using structure_mask_Inl [OF Inl] structure_ok_D(5-8) [OF assms]
      by (auto simp: rmr_visual_structure_status_def Let_def)
    then show ?thesis using assms by simp
  qed simp
  then show ?thesis by (auto simp: structure_mask_ok view_ids_def)
qed

text \<open>
  The comparison finds the nearest view. For a verified prototype none of whose views is at the largest
  possible distance, the result is the preferred view, after one comparison, if the prototype has it, and
  otherwise, after comparing every view, the first of the views at the least distance. The distance is
  capped at one, the score is its complement, and the seal is reported.
\<close>

theorem visual_compare_nearest:
  fixes p :: visual_prototype
  defines "vs \<equiv> take (unat (view_count p)) (views p)"
  assumes "RmR_VisualPrototype_Verify (Some p) = VISUAL_OK" "length (views p) = 16"
    and "\<forall>v \<in> set vs. view_distance query v \<noteq> 0xFFFFFFFF"
    and "RmR_VisualPrototype_Compare (Some p) (Some query) preferred = (st, out)"
  shows "st = VISUAL_OK \<and> match_status out = VISUAL_OK \<and> match_crc32c out = prototype_crc32c p \<and>
    (\<exists>i < length vs. best_view_id out = ucast (view_id (vs ! i)) \<and>
      unat (distance_q16 out) = min (unat (view_distance query (vs ! i))) (2 ^ 16) \<and>
      unat (score_q16 out) = 2 ^ 16 - unat (distance_q16 out) \<and>
      (if \<exists>v \<in> set vs. view_id v = preferred then view_id (vs ! i) = preferred \<and> compared_views out = 1
       else (\<forall>v \<in> set vs. view_distance query (vs ! i) \<le> view_distance query v) \<and>
         (\<forall>j<i. view_distance query (vs ! i) < view_distance query (vs ! j)) \<and> compared_views out = view_count p))"
proof -
  let ?D = "view_distance query"
  have ok: "rmr_visual_structure_status (Some p) = VISUAL_OK"
    using assms(2) by (auto simp: RmR_VisualPrototype_Verify_def Let_def split: if_splits)
  have n: "length vs = unat (view_count p)" "vs \<noteq> []" "map (\<lambda>i. views p ! i) [0..<unat (view_count p)] = vs"
    using structure_ok_D(7,8) [OF ok] assms(3) by (auto simp: vs_def take_as_map unat_eq_0)
  have ids: "distinct (map view_id vs)" "\<forall>v \<in> set vs. view_id v \<noteq> RMR_VISUAL_VIEW_ANY"
    using structure_ids [OF ok]
    by (auto simp: vs_def view_ids_def RMR_VISUAL_VIEW_ANY_def distinct_map inj_on_def)
  obtain b w k where r: "compare_passes p query preferred = (b, w, k)" by (cases rule: prod_cases3)
  have key: "\<exists>i < length vs. w = ucast (view_id (vs ! i)) \<and> b = ?D (vs ! i) \<and>
      (if \<exists>v \<in> set vs. view_id v = preferred then view_id (vs ! i) = preferred \<and> k = 1
       else (\<forall>v \<in> set vs. ?D (vs ! i) \<le> ?D v) \<and> (\<forall>j<i. ?D (vs ! i) < ?D (vs ! j)) \<and> k = view_count p)"
  proof (cases "\<exists>v \<in> set vs. view_id v = preferred")
    case True
    then obtain i where i: "i < length vs" "view_id (vs ! i) = preferred" by (auto simp: in_set_conv_nth)
    have np: "preferred \<noteq> RMR_VISUAL_VIEW_ANY" using ids(2) i by auto
    have nm: "?D (vs ! i) \<noteq> 0xFFFFFFFF" using assms(4) i(1) by simp
    then have "?D (vs ! i) < 0xFFFFFFFF"
      using unsigned_less [of "?D (vs ! i)", where 'a = nat] by (simp add: word_less_nat_alt word_unat_eq_iff)
    then have "compare_passes p query preferred = (?D (vs ! i), ucast (view_id (vs ! i)), 1)"
      using filter_unique [OF ids(1), of i preferred] i nm
      unfolding compare_passes_def n(3) pass_exact [OF np] by (simp add: nearest_step_def Let_def)
    then show ?thesis using r i True by auto
  next
    case False
    define s0 :: compare_state where "s0 = (0xFFFFFFFF, ucast RMR_VISUAL_VIEW_ANY, 0)"
    have "filter (\<lambda>v. view_id v = preferred) vs = []" using False by (simp add: filter_empty_conv)
    then have "compare_passes p query preferred = foldl (nearest_step ?D) s0 vs"
      using False pass_all [of preferred query s0 vs] pass_exact [of preferred query s0 vs] pass_others [of preferred vs query s0]
      unfolding compare_passes_def n(3) s0_def [symmetric]
      by (cases "preferred = RMR_VISUAL_VIEW_ANY") (simp_all add: Let_def, simp add: s0_def)
    with r nearest_scan [of ?D "ucast RMR_VISUAL_VIEW_ANY" vs b w k] False assms(4) n show ?thesis
      by (auto simp: s0_def hd_in_set)
  qed
  then obtain i where i: "i < length vs" "w = ucast (view_id (vs ! i))" "b = ?D (vs ! i)"
    "if \<exists>v \<in> set vs. view_id v = preferred then view_id (vs ! i) = preferred \<and> k = 1
       else (\<forall>v \<in> set vs. ?D (vs ! i) \<le> ?D v) \<and> (\<forall>j<i. ?D (vs ! i) < ?D (vs ! j)) \<and> k = view_count p" by blast
  have "b \<noteq> 0xFFFFFFFF" using assms(4) i(1,3) by simp
  then have o: "st = VISUAL_OK" "match_status out = VISUAL_OK" "match_crc32c out = prototype_crc32c p" "best_view_id out = w"
    "distance_q16 out = (if 0x10000 < b then 0x10000 else b)" "score_q16 out = 0x10000 - distance_q16 out" "compared_views out = k"
    using assms(2,5) r by (auto simp: RmR_VisualPrototype_Compare_def Let_def Q16_ONE_def)
  have d: "unat (distance_q16 out) = min (unat b) (2 ^ 16)" "unat (score_q16 out) = 2 ^ 16 - unat (distance_q16 out)"
    by (auto simp: o(5,6) word_less_nat_alt unat_sub word_le_nat_alt)
  show ?thesis using o(1-4,7) d i by (intro conjI exI [of _ i]) auto
qed

lemma vision_self: "RmR_Vision_DifferenceQ16 (Some d) (Some d) = 0"
proof -
  have "foldl (\<lambda>tv i. tv) (0 :: u64) ns = 0" for ns :: "nat list" by (induction ns) simp_all
  then show ?thesis by (simp add: RmR_Vision_DifferenceQ16_def Let_def absdiff32_def del: upt_rec_numeral)
qed

lemma visual_compare_nearest_witness:
  "\<exists>p d out. RmR_VisualPrototype_Compare (Some p) (Some d) 3 = (VISUAL_OK, out) \<and> best_view_id out = 3 \<and>
    RmR_VisualPrototype_Verify (Some p) = VISUAL_OK \<and> compared_views out = 1"
proof -
  obtain p t c where p: "visual_wf p" "RmR_VisualPrototype_Verify (Some p) = VISUAL_OK" "p = demo_prototype t\<lparr>prototype_crc32c := c\<rparr>"
    using demo_sealed by blast
  have v: "take (unat (view_count p)) (views p) =
      [visual_zero_view\<lparr>view_id := 3, view_descriptor := vision_zero\<lparr>otsu_threshold := t\<rparr>\<rparr>]"
    by (simp add: p(3) demo_prototype_def)
  define d where "d = vision_zero\<lparr>otsu_threshold := t\<rparr>"
  obtain st out where r: "RmR_VisualPrototype_Compare (Some p) (Some d) 3 = (st, out)" by force
  have "length (views p) = 16" using p(1) by (simp add: visual_wf_def)
  with visual_compare_nearest [OF p(2) _ _ r] show ?thesis
    using r p(2) unfolding v d_def [symmetric]
    by (intro exI [of _ p] exI [of _ d] exI [of _ out]) (simp add: vision_self)
qed

section \<open>Store\<close>

text \<open>
  A store whose slots are in bounds, its used slots verified and of distinct classes; what it holds is a
  map from classes to prototypes, and the two changes of that map.
\<close>

definition store_ok :: "visual_store \<Rightarrow> bool" where
  "store_ok s \<longleftrightarrow> (\<exists>sl. slots s = Some sl \<and> unat (capacity s) \<le> length sl \<and> store_count s \<le> capacity s \<and>
    (\<forall>i < unat (store_count s). RmR_VisualPrototype_Verify (Some (sl ! i)) = VISUAL_OK) \<and>
    distinct (map class_id (take (unat (store_count s)) sl)))"

definition store_map :: "visual_store \<Rightarrow> u32 \<rightharpoonup> visual_prototype" where
  "store_map s = RmR_VisualStore_Find (Some s)"

definition map_upsert :: "nat \<Rightarrow> visual_prototype \<Rightarrow> (u32 \<rightharpoonup> visual_prototype) \<Rightarrow> u32 \<times> (u32 \<rightharpoonup> visual_prototype)" where
  "map_upsert cap p m =
    (if RmR_VisualPrototype_Verify (Some p) \<noteq> VISUAL_OK then (RmR_VisualPrototype_Verify (Some p), m)
     else if class_id p \<notin> dom m \<and> cap \<le> card (dom m) then (VISUAL_FULL, m)
     else (VISUAL_OK, m(class_id p \<mapsto> p)))"

lemma verify_class: "RmR_VisualPrototype_Verify (Some p) = VISUAL_OK \<Longrightarrow> class_id p \<noteq> 0"
  using verify_ok_D structure_ok_D(6) by blast

lemma store_find:
  assumes "store_ok s" "slots s = Some sl"
  shows "store_map s cid = (case find_class s cid of None \<Rightarrow> None | Some i \<Rightarrow> Some (sl ! i))"
    and "find_class s cid = Some i \<longleftrightarrow> i < unat (store_count s) \<and> class_id (sl ! i) = cid"
    and "find_class s cid = None \<longleftrightarrow> (\<forall>i < unat (store_count s). class_id (sl ! i) \<noteq> cid)"
proof -
  let ?n = "unat (store_count s)"
  have n: "?n \<le> length sl" using assms by (auto simp: store_ok_def word_le_nat_alt)
  have d: "\<forall>i<?n. \<forall>j<?n. class_id (sl ! i) = class_id (sl ! j) \<longrightarrow> i = j"
  proof (intro allI impI)
    fix i j assume ij: "i < ?n" "j < ?n" "class_id (sl ! i) = class_id (sl ! j)"
    have "distinct (map class_id (take ?n sl))" using assms by (auto simp: store_ok_def)
    from nth_eq_iff_index_eq [OF this, of i j] ij n show "i = j" by simp
  qed
  have sl: "slots s = Some sl" by (rule assms(2))
  show find: "find_class s cid = Some i \<longleftrightarrow> i < ?n \<and> class_id (sl ! i) = cid" for i
  proof -
    have "find_class s cid = Some i \<longleftrightarrow> i < ?n \<and> class_id (sl ! i) = cid \<and> (\<forall>j<i. class_id (sl ! j) \<noteq> cid)"
      by (auto simp: find_class_def find_Some_iff sl)
    moreover have "class_id (sl ! j) \<noteq> cid" if "i < ?n" "class_id (sl ! i) = cid" "j < i" for j
      using d [rule_format, of i j] that by auto
    ultimately show ?thesis by blast
  qed
  show none: "find_class s cid = None \<longleftrightarrow> (\<forall>i<?n. class_id (sl ! i) \<noteq> cid)"
    using assms(2) by (auto simp: find_class_def find_None_iff)
  have "cid \<noteq> 0" if "find_class s cid = Some i" for i
    using that find assms verify_class by (auto simp: store_ok_def)
  then show "store_map s cid = (case find_class s cid of None \<Rightarrow> None | Some i \<Rightarrow> Some (sl ! i))"
    using assms(2) by (cases "find_class s cid") (auto simp: store_map_def RmR_VisualStore_Find_def)
qed

lemma store_dom:
  assumes "store_ok s" "slots s = Some sl"
  shows "dom (store_map s) = class_id ` set (take (unat (store_count s)) sl)"
    and "card (dom (store_map s)) = unat (store_count s)"
proof -
  have n: "unat (store_count s) \<le> length sl" using assms by (auto simp: store_ok_def word_le_nat_alt)
  show d: "dom (store_map s) = class_id ` set (take (unat (store_count s)) sl)"
  proof (intro set_eqI)
    fix c
    show "c \<in> dom (store_map s) \<longleftrightarrow> c \<in> class_id ` set (take (unat (store_count s)) sl)"
    proof -
      have "c \<in> dom (store_map s) \<longleftrightarrow> (\<exists>i < unat (store_count s). class_id (sl ! i) = c)"
        using store_find(1,3) [OF assms, of c] by (cases "find_class s c") auto
      also have "\<dots> \<longleftrightarrow> c \<in> class_id ` set (take (unat (store_count s)) sl)"
        unfolding take_as_map [OF n] by (auto simp: image_iff)
      finally show ?thesis .
    qed
  qed
  have "distinct (map class_id (take (unat (store_count s)) sl))" using assms by (auto simp: store_ok_def)
  then have "card (set (map class_id (take (unat (store_count s)) sl))) = unat (store_count s)"
    using n by (subst distinct_card) simp_all
  then show "card (dom (store_map s)) = unat (store_count s)" unfolding d by simp
qed

lemma store_upsert:
  assumes "store_ok s"
  shows "\<exists>st s' slot. RmR_VisualStore_Upsert (Some s) (Some p) = (st, Some s', slot) \<and> store_ok s' \<and> capacity s' = capacity s \<and>
    (st, store_map s') = map_upsert (unat (capacity s)) p (store_map s) \<and>
    (st \<noteq> VISUAL_OK \<longrightarrow> s' = s \<and> slot = 0xFFFFFFFF) \<and>
    (st = VISUAL_OK \<longrightarrow> slot < store_count s' \<and> the (slots s') ! unat slot = p)"
proof -
  obtain sl where sl: "slots s = Some sl" using assms by (auto simp: store_ok_def)
  let ?n = "unat (store_count s)" and ?c = "class_id p"
  note ok = assms [unfolded store_ok_def sl, simplified]
  note F = store_find [OF assms sl]
  show ?thesis
  proof (cases "RmR_VisualPrototype_Verify (Some p) = VISUAL_OK")
    case False
    then show ?thesis using assms sl by (simp add: RmR_VisualStore_Upsert_def Let_def map_upsert_def)
  next
    case v: True
    show ?thesis
    proof (cases "find_class s ?c")
      case (Some i)
      then have i: "i < ?n" "class_id (sl ! i) = ?c" using F(2) by blast+
      define s' where "s' = s\<lparr>slots := Some (sl[i := p])\<rparr>"
      have u: "unat (of_nat i :: u32) = i"
        using i(1) unsigned_less [of "store_count s", where 'a = nat] by (intro unat_of_nat_small) simp
      have il: "i < length sl" using i(1) ok by (simp add: word_le_nat_alt)
      have "map class_id (take ?n (sl[i := p])) = map class_id (take ?n sl)"
        using i il by (intro nth_equalityI) (auto simp: nth_list_update)
      then have ok': "store_ok s'"
        using ok i il v by (auto simp: store_ok_def s'_def nth_list_update)
      have cs: "class_id (sl[i := p] ! j) = class_id (sl ! j)" for j
        using i il by (cases "j = i") simp_all
      have m: "store_map s' = (store_map s)(?c \<mapsto> p)"
      proof
        fix c
        have sl': "slots s' = Some (sl[i := p])" by (simp add: s'_def)
        have fc: "find_class s' c = find_class s c"
          by (simp add: find_class_def s'_def sl cs)
        show "store_map s' c = ((store_map s)(?c \<mapsto> p)) c"
        proof (cases "find_class s c")
          case fn: None
          then have "c \<noteq> ?c" using Some by auto
          then show ?thesis using store_find(1) [OF ok' sl', of c] F(1) [of c] fc fn by simp
        next
          case fs: (Some j)
          then have "class_id (sl ! j) = c" using F(2) by blast
          then have "j = i \<longleftrightarrow> c = ?c" using i(2) fs Some by auto
          then show ?thesis using store_find(1) [OF ok' sl', of c] F(1) [of c] fc fs il by (auto simp: nth_list_update)
        qed
      qed
      have "store_map s ?c \<noteq> None" using F(1) [of ?c] Some by simp
      then have "(VISUAL_OK, store_map s') = map_upsert (unat (capacity s)) p (store_map s)"
        using v m by (auto simp: map_upsert_def dom_def)
      moreover have "RmR_VisualStore_Upsert (Some s) (Some p) = (VISUAL_OK, Some s', of_nat i)"
        using v Some by (simp add: RmR_VisualStore_Upsert_def Let_def sl s'_def)
      moreover have "of_nat i < store_count s'" using i u by (simp add: word_less_nat_alt s'_def)
      ultimately show ?thesis
        using ok' u il by (intro exI [of _ VISUAL_OK] exI [of _ s'] exI [of _ "of_nat i"]) (simp add: s'_def)
    next
      case None
      then have new: "\<forall>i<?n. class_id (sl ! i) \<noteq> ?c" using F(3) by blast
      have cd: "?c \<notin> dom (store_map s)" using F(1) [of ?c] None by auto
      have cc: "card (dom (store_map s)) = ?n" using store_dom(2) [OF assms sl] .
      show ?thesis
      proof (cases "store_count s \<ge> capacity s")
        case True
        then have "map_upsert (unat (capacity s)) p (store_map s) = (VISUAL_FULL, store_map s)"
          using v cd cc by (simp add: map_upsert_def word_le_nat_alt)
        moreover have "RmR_VisualStore_Upsert (Some s) (Some p) = (VISUAL_FULL, Some s, 0xFFFFFFFF)"
          using v None True by (simp add: RmR_VisualStore_Upsert_def Let_def sl)
        ultimately show ?thesis using assms by simp
      next
        case False
        then have room: "?n < unat (capacity s)" by (simp add: word_less_nat_alt not_le)
        then have c1: "unat (store_count s + 1) = Suc ?n"
          using unsigned_less [of "capacity s", where 'a = nat] by (simp add: unat_word_ariths(1))
        have nl: "?n < length sl" using room ok by simp
        define s' where "s' = s\<lparr>store_count := store_count s + 1, slots := Some (sl[?n := p])\<rparr>"
        have tk: "take (Suc ?n) (sl[?n := p]) = take ?n sl @ [p]"
          using nl by (simp add: take_Suc_conv_app_nth)
        have "?c \<notin> class_id ` set (take ?n sl)" using store_dom(1) [OF assms sl] cd by simp
        then have ok': "store_ok s'"
          using ok v room nl c1 tk
          by (auto simp: store_ok_def s'_def nth_list_update less_Suc_eq word_le_nat_alt)
        have m: "store_map s' = (store_map s)(?c \<mapsto> p)"
        proof
          fix c
          have sl': "slots s' = Some (sl[?n := p])" "unat (store_count s') = Suc ?n" using c1 by (simp_all add: s'_def)
          note F' = store_find [OF ok' sl'(1), unfolded sl'(2)]
          show "store_map s' c = ((store_map s)(?c \<mapsto> p)) c"
          proof (cases "c = ?c")
            case True
            then have "find_class s' c = Some ?n" using F'(2) nl by simp
            then show ?thesis using F'(1) True nl by simp
          next
            case ne: False
            then have "find_class s' c = find_class s c"
            proof (cases "find_class s c")
              case fn: None
              then show ?thesis using F(3) [of c] F'(3) [of c] ne nl by (auto simp: less_Suc_eq nth_list_update)
            next
              case fs: (Some j)
              then have "j < ?n" "class_id (sl ! j) = c" using F(2) by blast+
              then show ?thesis using F'(2) [of c j] fs by simp
            qed
            moreover have "j < ?n" if "find_class s c = Some j" for j using F(2) that by blast
            ultimately show ?thesis using F(1) [of c] F'(1) [of c] ne by (auto split: option.splits)
          qed
        qed
        then have "(VISUAL_OK, store_map s') = map_upsert (unat (capacity s)) p (store_map s)"
          using v cd cc room by (simp add: map_upsert_def)
        moreover have "RmR_VisualStore_Upsert (Some s) (Some p) = (VISUAL_OK, Some s', store_count s)"
          using v None False by (simp add: RmR_VisualStore_Upsert_def Let_def sl s'_def)
        moreover have "store_count s < store_count s'" using c1 by (simp add: s'_def word_less_nat_alt)
        ultimately show ?thesis
          using ok' nl by (intro exI [of _ VISUAL_OK] exI [of _ s'] exI [of _ "store_count s"]) (simp add: s'_def)
      qed
    qed
  qed
qed

lemma store_init:
  assumes "0 < cap" "unat cap \<le> length sl"
  shows "\<exists>s. RmR_VisualStore_Init (Some so) (Some sl) cap = (VISUAL_OK, Some s) \<and> store_ok s \<and> store_map s = Map.empty \<and>
    capacity s = cap"
  using assms
  by (auto simp: RmR_VisualStore_Init_def store_ok_def store_map_def RmR_VisualStore_Find_def find_class_def fun_eq_iff)

text \<open>A history of upserts, in the code and on the map, with the statuses they return.\<close>

fun store_run :: "visual_store \<Rightarrow> visual_prototype list \<Rightarrow> words \<times> visual_store" where
  "store_run s [] = ([], s)"
| "store_run s (p # ps) =
    (case RmR_VisualStore_Upsert (Some s) (Some p) of (st, s', slot) \<Rightarrow>
       case store_run (the s') ps of (sts, s'') \<Rightarrow> (st # sts, s''))"

fun map_run :: "nat \<Rightarrow> (u32 \<rightharpoonup> visual_prototype) \<Rightarrow> visual_prototype list \<Rightarrow> words \<times> (u32 \<rightharpoonup> visual_prototype)" where
  "map_run cap m [] = ([], m)"
| "map_run cap m (p # ps) =
    (case map_upsert cap p m of (st, m') \<Rightarrow> case map_run cap m' ps of (sts, m'') \<Rightarrow> (st # sts, m''))"

lemma store_run_map:
  "store_ok s \<Longrightarrow> case store_run s ps of (sts, s') \<Rightarrow> store_ok s' \<and> capacity s' = capacity s \<and>
     (sts, store_map s') = map_run (unat (capacity s)) (store_map s) ps"
proof (induction ps arbitrary: s)
  case (Cons p ps)
  obtain st s' slot where u: "RmR_VisualStore_Upsert (Some s) (Some p) = (st, Some s', slot)" "store_ok s'"
    "capacity s' = capacity s" "(st, store_map s') = map_upsert (unat (capacity s)) p (store_map s)"
    using store_upsert [OF Cons.prems, of p] by blast
  from Cons.IH [OF u(2)] u show ?case by (auto split: prod.splits)
qed simp

text \<open>
  C25. The store is a bounded map from classes to prototypes. Over any history of upserts of any prototypes,
  starting from an initialised store, every call returns the status of the map operation (an invalid
  prototype is refused with its own status, a new class in a full store with \<open>FULL\<close>, and both leave the
  store alone), a search finds what the map holds, and the number of used slots is the size of the map.
\<close>

theorem visual_store_refines:
  assumes "0 < cap" "unat cap \<le> length sl"
    and "RmR_VisualStore_Init (Some so) (Some sl) cap = (st, Some s)" "store_run s ps = (sts, s')"
  shows "st = VISUAL_OK \<and> map_run (unat cap) Map.empty ps = (sts, RmR_VisualStore_Find (Some s')) \<and>
    unat (store_count s') = card (dom (RmR_VisualStore_Find (Some s'))) \<and> store_count s' \<le> cap"
proof -
  have i: "st = VISUAL_OK" "store_ok s" "store_map s = Map.empty" "capacity s = cap"
    using store_init [OF assms(1,2), of so] assms(3) by auto
  then have r: "store_ok s'" "capacity s' = cap" "(sts, store_map s') = map_run (unat cap) Map.empty ps"
    using store_run_map [OF i(2), of ps] assms(4) by auto
  then obtain sl' where "slots s' = Some sl'" "store_count s' \<le> capacity s'" by (auto simp: store_ok_def)
  then show ?thesis using i(1) r store_dom(2) [OF r(1)] by (simp add: store_map_def)
qed

lemma visual_store_refines_witness:
  "\<exists>s p s'. RmR_VisualStore_Init (Some s) (Some [visual_zero_prototype]) 1 = (VISUAL_OK, Some s) \<and>
    store_run s [p, visual_zero_prototype] = ([VISUAL_OK, VISUAL_BAD_MAGIC], s') \<and>
    RmR_VisualStore_Find (Some s') (class_id p) = Some p"
proof -
  obtain p where p: "RmR_VisualPrototype_Verify (Some p) = VISUAL_OK" using demo_sealed by blast
  define s where "s = \<lparr>slots = Some [visual_zero_prototype], capacity = 1, store_count = 0\<rparr>"
  have i: "RmR_VisualStore_Init (Some s) (Some [visual_zero_prototype]) 1 = (VISUAL_OK, Some s)"
    by (simp add: RmR_VisualStore_Init_def s_def)
  obtain sts s' where r: "store_run s [p, visual_zero_prototype] = (sts, s')" by force
  have z: "RmR_VisualPrototype_Verify (Some visual_zero_prototype) = VISUAL_BAD_MAGIC"
    by (simp add: RmR_VisualPrototype_Verify_def rmr_visual_structure_status_def visual_zero_prototype_def
        RMR_VISUAL_PROTOTYPE_MAGIC_def)
  have m: "map_run 1 Map.empty [p, visual_zero_prototype] = ([VISUAL_OK, VISUAL_BAD_MAGIC], [class_id p \<mapsto> p])"
    using p z by (simp add: map_upsert_def)
  from visual_store_refines [OF _ _ i r] m have "sts = [VISUAL_OK, VISUAL_BAD_MAGIC]"
    "RmR_VisualStore_Find (Some s') = [class_id p \<mapsto> p]" by simp_all
  then show ?thesis using i r by (intro exI [of _ s] exI [of _ p] exI [of _ s']) simp
qed

section \<open>Classification\<close>

text \<open>The score of a slot: what the comparison gives when it succeeds.\<close>

definition slot_score :: "visual_store \<Rightarrow> vision_descriptor \<Rightarrow> u8 \<Rightarrow> nat \<Rightarrow> u32" where
  "slot_score s query preferred i =
    (case RmR_VisualPrototype_Compare (Some (the (slots s) ! i)) (Some query) preferred of (st, m) \<Rightarrow>
       if st = VISUAL_OK then score_q16 m else 0)"

definition slot_view :: "visual_store \<Rightarrow> vision_descriptor \<Rightarrow> u8 \<Rightarrow> nat \<Rightarrow> u32" where
  "slot_view s query preferred i =
    best_view_id (snd (RmR_VisualPrototype_Compare (Some (the (slots s) ! i)) (Some query) preferred))"

lemma rank_slot_score:
  "rank_slot s query preferred (best, second, slot, vid) i =
    (let x = slot_score s query preferred i
     in if x > best then (x, best, of_nat i, slot_view s query preferred i)
        else if x > second then (best, x, slot, vid) else (best, second, slot, vid))"
  by (auto simp: rank_slot_def slot_score_def slot_view_def Let_def split: prod.splits)

text \<open>The state of the ranking after the first slots: the first greatest score and the greatest of the others.\<close>

definition ranked :: "(nat \<Rightarrow> u32) \<Rightarrow> (nat \<Rightarrow> u32) \<Rightarrow> nat \<Rightarrow> ranking \<Rightarrow> bool" where
  "ranked S V n = (\<lambda>(best, second, slot, vid).
     if \<forall>i<n. S i = 0 then best = 0 \<and> second = 0 \<and> slot = 0xFFFFFFFF
     else \<exists>i<n. best = S i \<and> best \<noteq> 0 \<and> slot = of_nat i \<and> vid = V i \<and> (\<forall>j<n. S j \<le> S i) \<and> (\<forall>j<i. S j < S i) \<and>
       (\<forall>j<n. j \<noteq> i \<longrightarrow> S j \<le> second) \<and> (second = 0 \<or> (\<exists>j<n. j \<noteq> i \<and> second = S j)))"

lemma rank_all:
  "ranked (slot_score s query preferred) (slot_view s query preferred) n
    (foldl (rank_slot s query preferred) (0, 0, 0xFFFFFFFF, vid0) [0..<n])"
proof (induction n)
  case 0
  show ?case by (simp add: ranked_def)
next
  case (Suc n)
  let ?S = "slot_score s query preferred" and ?V = "slot_view s query preferred"
  obtain best second slot vid where r: "foldl (rank_slot s query preferred) (0, 0, 0xFFFFFFFF, vid0) [0..<n] =
      (best, second, slot, vid)" by (cases rule: prod_cases4)
  have step: "foldl (rank_slot s query preferred) (0, 0, 0xFFFFFFFF, vid0) [0..<Suc n] =
      (if ?S n > best then (?S n, best, of_nat n, ?V n)
        else if ?S n > second then (best, ?S n, slot, vid) else (best, second, slot, vid))"
    by (simp add: r rank_slot_score Let_def)
  note IH = Suc.IH [unfolded r ranked_def prod.case]
  have z: "x \<le> 0 \<longleftrightarrow> x = 0" "0 \<le> x" for x :: u32 by simp_all
  show ?case
  proof (cases "\<forall>i<n. ?S i = 0")
    case True
    then have b: "best = 0" "second = 0" "slot = 0xFFFFFFFF" using IH by simp_all
    show ?thesis
    proof (cases "?S n = 0")
      case zero: True
      then show ?thesis unfolding step using True b by (auto simp: ranked_def less_Suc_eq)
    next
      case False
      then have "?S n > best" using b by (simp add: word_neq_0_conv)
      then show ?thesis unfolding step using True b False by (auto simp: ranked_def less_Suc_eq)
    qed
  next
    case False
    then obtain i where i: "i < n" "best = ?S i" "best \<noteq> 0" "slot = of_nat i" "vid = ?V i" "\<forall>j<n. ?S j \<le> ?S i"
      "\<forall>j<i. ?S j < ?S i" "\<forall>j<n. j \<noteq> i \<longrightarrow> ?S j \<le> second" "second = 0 \<or> (\<exists>j<n. j \<noteq> i \<and> second = ?S j)"
      using IH unfolding if_not_P [OF False] by blast
    have nz: "\<not> (\<forall>i<Suc n. ?S i = 0)" using False by (auto simp: less_Suc_eq)
    consider (top) "?S n > best" | (mid) "?S n \<le> best" "?S n > second" | (low) "?S n \<le> best" "?S n \<le> second"
      by (meson not_le)
    then show ?thesis
    proof cases
      case top
      then have "?S n \<noteq> 0" by auto
      with top i have "\<exists>k<Suc n. ?S n = ?S k \<and> ?S n \<noteq> 0 \<and> of_nat n = (of_nat k :: u32) \<and> ?V n = ?V k \<and> (\<forall>j<Suc n. ?S j \<le> ?S k) \<and>
          (\<forall>j<k. ?S j < ?S k) \<and> (\<forall>j<Suc n. j \<noteq> k \<longrightarrow> ?S j \<le> best) \<and> (best = 0 \<or> (\<exists>j<Suc n. j \<noteq> k \<and> best = ?S j))"
        by (intro exI [of _ n]) (auto simp: less_Suc_eq intro: le_less_trans order_trans less_imp_le)
      then show ?thesis
        using top nz step by (simp only: ranked_def prod.case if_not_P [OF nz] not_less [symmetric] if_True if_False simp_thms)
    next
      case mid
      with i have "\<exists>k<Suc n. best = ?S k \<and> best \<noteq> 0 \<and> slot = of_nat k \<and> vid = ?V k \<and> (\<forall>j<Suc n. ?S j \<le> ?S k) \<and>
          (\<forall>j<k. ?S j < ?S k) \<and> (\<forall>j<Suc n. j \<noteq> k \<longrightarrow> ?S j \<le> ?S n) \<and> (?S n = 0 \<or> (\<exists>j<Suc n. j \<noteq> k \<and> ?S n = ?S j))"
        by (intro exI [of _ i]) (auto simp: less_Suc_eq intro: order_trans less_imp_le)
      then show ?thesis
        using mid nz step by (simp only: ranked_def prod.case if_not_P [OF nz] not_less [symmetric] if_True if_False simp_thms)
    next
      case low
      with i have "\<exists>k<Suc n. best = ?S k \<and> best \<noteq> 0 \<and> slot = of_nat k \<and> vid = ?V k \<and> (\<forall>j<Suc n. ?S j \<le> ?S k) \<and>
          (\<forall>j<k. ?S j < ?S k) \<and> (\<forall>j<Suc n. j \<noteq> k \<longrightarrow> ?S j \<le> second) \<and> (second = 0 \<or> (\<exists>j<Suc n. j \<noteq> k \<and> second = ?S j))"
        by (intro exI [of _ i]) (auto simp: less_Suc_eq)
      then show ?thesis
        using low nz step by (simp only: ranked_def prod.case if_not_P [OF nz] not_less [symmetric] if_True if_False simp_thms)
    qed
  qed
qed

text \<open>
  Classification finds the best class. On a store with fewer than \<open>2 ^ 32 - 1\<close> used slots, the outcome is
  \<open>NO_MATCH\<close> when no slot has a positive score or the best stays under the minimum; otherwise it is the
  first slot of the greatest score with the greatest score among the other slots as runner-up and their
  difference as margin, \<open>AMBIGUOUS\<close> when the margin is under the minimum.
\<close>

theorem visual_classify_best:
  fixes s :: visual_store and query :: vision_descriptor and preferred :: u8
  defines "S \<equiv> slot_score s query preferred" and "n \<equiv> unat (store_count s)"
  assumes "slots s \<noteq> None" "0 < n" "n < 2 ^ 32 - 1"
    and "RmR_VisualStore_Classify (Some s) (Some query) preferred min_score min_margin = (st, out)"
  shows "class_status out = st \<and>
    (if (\<forall>i<n. S i = 0) \<or> (\<forall>i<n. S i < min_score) then st = VISUAL_NO_MATCH \<and> slot_index out = 0xFFFFFFFF
     else \<exists>i<n. slot_index out = of_nat i \<and> found_class_id out = class_id (the (slots s) ! i) \<and> found_score_q16 out = S i \<and>
       found_view_id out = slot_view s query preferred i \<and> (\<forall>j<n. S j \<le> S i) \<and> (\<forall>j<i. S j < S i) \<and>
       (\<forall>j<n. j \<noteq> i \<longrightarrow> S j \<le> runner_up_q16 out) \<and>
       (runner_up_q16 out = 0 \<or> (\<exists>j<n. j \<noteq> i \<and> runner_up_q16 out = S j)) \<and>
       unat (margin_q16 out) = unat (S i) - unat (runner_up_q16 out) \<and>
       st = (if margin_q16 out < min_margin then VISUAL_AMBIGUOUS else VISUAL_OK))"
proof -
  obtain best second slot vid where r: "foldl (rank_slot s query preferred) (0, 0, 0xFFFFFFFF, ucast RMR_VISUAL_VIEW_ANY) [0..<n] =
      (best, second, slot, vid)" by (cases rule: prod_cases4)
  note R = rank_all [of s query preferred n "ucast RMR_VISUAL_VIEW_ANY", unfolded r ranked_def prod.case, folded S_def]
  have sc: "store_count s \<noteq> 0" using assms(4) by (auto simp: n_def)
  obtain y where y: "slots s = Some y" using assms(3) by blast
  define base where "base = visual_zero_classification\<lparr>slot_index := 0xFFFFFFFF, found_view_id := ucast RMR_VISUAL_VIEW_ANY\<rparr>"
  define full where "full = base\<lparr>slot_index := slot, found_class_id := class_id (the (slots s) ! unat slot),
      found_score_q16 := best, runner_up_q16 := second, margin_q16 := best - second, found_view_id := vid\<rparr>"
  have C: "(st, out) = (if slot = 0xFFFFFFFF \<or> best < min_score then (VISUAL_NO_MATCH, base\<lparr>class_status := VISUAL_NO_MATCH\<rparr>)
      else if best - second < min_margin then (VISUAL_AMBIGUOUS, full\<lparr>class_status := VISUAL_AMBIGUOUS\<rparr>)
      else (VISUAL_OK, full\<lparr>class_status := VISUAL_OK\<rparr>))"
    using assms(6) sc y unfolding RmR_VisualStore_Classify_def base_def [symmetric]
    by (auto simp: Let_def n_def [symmetric] r full_def split: if_splits)
  show ?thesis
  proof (cases "\<forall>i<n. S i = 0")
    case True
    then have "slot = 0xFFFFFFFF" using R by simp
    then show ?thesis using C True by (simp add: base_def)
  next
    case False
    then obtain i where i: "i < n" "best = S i" "slot = of_nat i" "vid = slot_view s query preferred i" "\<forall>j<n. S j \<le> S i"
      "\<forall>j<i. S j < S i" "\<forall>j<n. j \<noteq> i \<longrightarrow> S j \<le> second" "second = 0 \<or> (\<exists>j<n. j \<noteq> i \<and> second = S j)"
      using R unfolding if_not_P [OF False] by blast
    have u: "unat (of_nat i :: u32) = i" using i(1) assms(5) by (intro unat_of_nat_small) simp
    have sn: "slot \<noteq> 0xFFFFFFFF" using u i(1,3) assms(5) by (auto simp: word_unat_eq_iff)
    have le: "second \<le> best" using i(2,5,8) by auto
    show ?thesis
    proof (cases "best < min_score")
      case True
      then have "\<forall>j<n. S j < min_score" using i(2,5) by (meson le_less_trans)
      then show ?thesis using C True by (simp add: base_def)
    next
      case ge: False
      then have "\<not> (\<forall>j<n. S j < min_score)" using i(1,2) by auto
      moreover have "out = full\<lparr>class_status := st\<rparr>" "st = (if best - second < min_margin then VISUAL_AMBIGUOUS else VISUAL_OK)"
        using C ge sn by (auto split: if_splits)
      moreover have "unat (best - second) = unat best - unat second" using le by (simp add: unat_sub)
      ultimately show ?thesis using False i(1,4-8) by (auto simp: full_def u i(2,3))
    qed
  qed
qed

lemma demo_match:
  assumes "RmR_VisualPrototype_Verify (Some p) = VISUAL_OK" "p = demo_prototype t\<lparr>prototype_crc32c := c\<rparr>"
  shows "RmR_VisualPrototype_Compare (Some p) (Some (vision_zero\<lparr>otsu_threshold := t\<rparr>)) RMR_VISUAL_VIEW_ANY =
    (VISUAL_OK, \<lparr>match_status = VISUAL_OK, distance_q16 = 0, score_q16 = 0x10000, best_view_id = 3, compared_views = 1,
       match_crc32c = c\<rparr>)"
proof -
  have "view_count p = 1" "views p ! 0 = visual_zero_view\<lparr>view_id := 3, view_descriptor := vision_zero\<lparr>otsu_threshold := t\<rparr>\<rparr>"
    "prototype_crc32c p = c"
    by (simp_all add: assms(2) demo_prototype_def)
  then show ?thesis
    using assms(1)
    by (simp add: RmR_VisualPrototype_Compare_def compare_passes_def compare_view_def vision_self Let_def visual_zero_match_def
        Q16_ONE_def)
qed

lemma visual_classify_best_witness:
  "\<exists>s query out. RmR_VisualStore_Classify (Some s) (Some query) RMR_VISUAL_VIEW_ANY 60000 30000 = (VISUAL_OK, out) \<and>
    slot_index out = 0 \<and> found_score_q16 out = 0x10000 \<and> class_status out = VISUAL_OK"
proof -
  obtain p t c where p: "RmR_VisualPrototype_Verify (Some p) = VISUAL_OK" "p = demo_prototype t\<lparr>prototype_crc32c := c\<rparr>"
    using demo_sealed by blast
  define s where "s = \<lparr>slots = Some [p], capacity = 1, store_count = 1\<rparr>"
  define query where "query = vision_zero\<lparr>otsu_threshold := t\<rparr>"
  have S: "slot_score s query RMR_VISUAL_VIEW_ANY 0 = 0x10000"
    using demo_match [OF p] by (simp add: slot_score_def s_def query_def)
  obtain st out where r: "RmR_VisualStore_Classify (Some s) (Some query) RMR_VISUAL_VIEW_ANY 60000 30000 = (st, out)" by force
  have s: "slots s \<noteq> None" "unat (store_count s) = 1" by (simp_all add: s_def)
  have below_one: "(\<forall>i<1. P i) = P 0" "(\<exists>i<1. P i) = P 0" for P :: "nat \<Rightarrow> bool" by (simp_all add: less_Suc_eq)
  have o: "class_status out = st" "slot_index out = 0" "found_score_q16 out = 0x10000" "runner_up_q16 out = 0"
    "unat (margin_q16 out) = 0x10000" "st = (if margin_q16 out < 30000 then VISUAL_AMBIGUOUS else VISUAL_OK)"
    using visual_classify_best [OF s(1) _ _ r, unfolded s(2) below_one] S by simp_all
  have "\<not> margin_q16 out < 30000" using o(5) by (simp add: word_less_nat_alt)
  then have "st = VISUAL_OK" using o(6) by simp
  then show ?thesis using r o by blast
qed

end
