(* ===== verification/Crypto.thy ===== *)
theory Crypto
  imports Hasher
begin

text \<open>
  The provider of cryptographic primitives: \<open>rmr/crypto/runtime/src/rmr_crypto_openssl.c\<close>,
  \<open>rmr_crypto_blake3.c\<close> and \<open>rmr_crypto_common.c\<close>. The OpenSSL library is a parameter: a function that
  answers each call from the sequence of the calls made so far, this one included, so that it may
  answer in any way at all. A trace records the calls and their answers. An answer holds the integer
  result, the pointer of a constructor (0 for \<open>NULL\<close>), the bytes stored through the output pointer and
  the length stored through a length pointer, if one is stored. Pointers are options; a buffer with a
  length passes its first bytes; an array argument of fixed size passes that many bytes.
\<close>

section \<open>Names\<close>

text \<open>The last constructor is any value outside of the enumeration.\<close>

datatype rmr_crypto_algorithm =
    RMR_CRYPTO_BLAKE3 | RMR_CRYPTO_MD5 | RMR_CRYPTO_SHA1 | RMR_CRYPTO_SHA256 | RMR_CRYPTO_SHA512 | RMR_CRYPTO_SHA3_256
  | RMR_CRYPTO_BLAKE2B_512 | RMR_CRYPTO_HMAC_SHA256 | RMR_CRYPTO_HMAC_SHA512 | RMR_CRYPTO_HKDF_SHA256 | RMR_CRYPTO_ED25519
  | RMR_CRYPTO_CHACHA20_POLY1305 | RMR_CRYPTO_AES_256_GCM | RMR_CRYPTO_X25519 | RMR_CRYPTO_PBKDF2_HMAC_SHA256
  | RMR_CRYPTO_SHA224 | RMR_CRYPTO_SHA384 | RMR_CRYPTO_SHA3_512 | RMR_CRYPTO_SHAKE128 | RMR_CRYPTO_SHAKE256
  | RMR_CRYPTO_BLAKE2S_256 | RMR_CRYPTO_ED448 | RMR_CRYPTO_X448 | RMR_CRYPTO_SHA512_224 | RMR_CRYPTO_SHA512_256
  | RMR_CRYPTO_SHA3_224 | RMR_CRYPTO_SHA3_384 | RMR_CRYPTO_SM3 | RMR_CRYPTO_INVALID int

definition rmr_crypto_algorithm_name :: "rmr_crypto_algorithm \<Rightarrow> string" where
  "rmr_crypto_algorithm_name algorithm =
    (case algorithm of
       RMR_CRYPTO_BLAKE3 \<Rightarrow> ''BLAKE3''
     | RMR_CRYPTO_MD5 \<Rightarrow> ''MD5''
     | RMR_CRYPTO_SHA1 \<Rightarrow> ''SHA-1''
     | RMR_CRYPTO_SHA256 \<Rightarrow> ''SHA-256''
     | RMR_CRYPTO_SHA512 \<Rightarrow> ''SHA-512''
     | RMR_CRYPTO_SHA3_256 \<Rightarrow> ''SHA3-256''
     | RMR_CRYPTO_BLAKE2B_512 \<Rightarrow> ''BLAKE2b-512''
     | RMR_CRYPTO_HMAC_SHA256 \<Rightarrow> ''HMAC-SHA256''
     | RMR_CRYPTO_HMAC_SHA512 \<Rightarrow> ''HMAC-SHA512''
     | RMR_CRYPTO_HKDF_SHA256 \<Rightarrow> ''HKDF-SHA256''
     | RMR_CRYPTO_ED25519 \<Rightarrow> ''Ed25519''
     | RMR_CRYPTO_CHACHA20_POLY1305 \<Rightarrow> ''ChaCha20-Poly1305''
     | RMR_CRYPTO_AES_256_GCM \<Rightarrow> ''AES-256-GCM''
     | RMR_CRYPTO_X25519 \<Rightarrow> ''X25519''
     | RMR_CRYPTO_PBKDF2_HMAC_SHA256 \<Rightarrow> ''PBKDF2-HMAC-SHA256''
     | RMR_CRYPTO_SHA224 \<Rightarrow> ''SHA-224''
     | RMR_CRYPTO_SHA384 \<Rightarrow> ''SHA-384''
     | RMR_CRYPTO_SHA3_512 \<Rightarrow> ''SHA3-512''
     | RMR_CRYPTO_SHAKE128 \<Rightarrow> ''SHAKE128''
     | RMR_CRYPTO_SHAKE256 \<Rightarrow> ''SHAKE256''
     | RMR_CRYPTO_BLAKE2S_256 \<Rightarrow> ''BLAKE2s-256''
     | RMR_CRYPTO_ED448 \<Rightarrow> ''Ed448''
     | RMR_CRYPTO_X448 \<Rightarrow> ''X448''
     | RMR_CRYPTO_SHA512_224 \<Rightarrow> ''SHA-512/224''
     | RMR_CRYPTO_SHA512_256 \<Rightarrow> ''SHA-512/256''
     | RMR_CRYPTO_SHA3_224 \<Rightarrow> ''SHA3-224''
     | RMR_CRYPTO_SHA3_384 \<Rightarrow> ''SHA3-384''
     | RMR_CRYPTO_SM3 \<Rightarrow> ''SM3''
     | _ \<Rightarrow> ''UNKNOWN'')"

definition rmr_crypto_provider_name :: string where
  "rmr_crypto_provider_name = ''openssl+blake3-upstream''"

section \<open>The library\<close>

datatype evp_md =
    EVP_md5 | EVP_sha1 | EVP_sha256 | EVP_sha512 | EVP_sha3_256 | EVP_blake2b512 | EVP_sha224 | EVP_sha384 | EVP_sha3_512
  | EVP_blake2s256 | EVP_sha512_224 | EVP_sha512_256 | EVP_sha3_224 | EVP_sha3_384 | EVP_sm3 | EVP_shake128 | EVP_shake256

datatype evp_cipher = EVP_chacha20_poly1305 | EVP_aes_256_gcm

datatype evp_pkey_type = EVP_PKEY_ED25519 | EVP_PKEY_ED448 | EVP_PKEY_X25519 | EVP_PKEY_X448

datatype ossl_param = OSSL_PARAM_utf8_string string string | OSSL_PARAM_octet_string string "bytes option"

datatype (plugins only: code size) ossl_call =
    EVP_MD_get_size evp_md
  | EVP_Digest "bytes option" evp_md
  | EVP_MD_CTX_new
  | EVP_DigestInit_ex nat evp_md
  | EVP_DigestUpdate nat bytes
  | EVP_DigestFinalXOF nat nat
  | EVP_MD_CTX_free nat
  | EVP_MAC_fetch string
  | EVP_MAC_CTX_new nat
  | EVP_MAC_init nat "bytes option" "ossl_param list"
  | EVP_MAC_update nat bytes
  | EVP_MAC_final nat nat
  | EVP_MAC_CTX_free nat
  | EVP_MAC_free nat
  | EVP_KDF_fetch string
  | EVP_KDF_CTX_new nat
  | EVP_KDF_derive nat nat "ossl_param list"
  | EVP_KDF_CTX_free nat
  | EVP_KDF_free nat
  | EVP_PKEY_new_raw_private_key evp_pkey_type bytes
  | EVP_PKEY_new_raw_public_key evp_pkey_type bytes
  | EVP_PKEY_get_raw_public_key nat nat
  | EVP_PKEY_free nat
  | EVP_DigestSignInit nat nat
  | EVP_DigestSign nat nat bytes
  | EVP_DigestVerifyInit nat nat
  | EVP_DigestVerify nat bytes bytes
  | EVP_PKEY_CTX_new nat
  | EVP_PKEY_derive_init nat
  | EVP_PKEY_derive_set_peer nat nat
  | EVP_PKEY_derive nat nat
  | EVP_PKEY_CTX_free nat
  | PKCS5_PBKDF2_HMAC "bytes option" "bytes option" nat evp_md nat
  | EVP_CIPHER_CTX_new
  | EVP_CIPHER_CTX_set_ivlen nat nat
  | EVP_CIPHER_CTX_get_tag nat nat
  | EVP_CIPHER_CTX_set_tag nat bytes
  | EVP_EncryptInit_ex nat "evp_cipher option" "bytes option" "bytes option"
  | EVP_EncryptUpdate nat bool bytes
  | EVP_EncryptFinal_ex nat
  | EVP_DecryptInit_ex nat "evp_cipher option" "bytes option" "bytes option"
  | EVP_DecryptUpdate nat bool bytes
  | EVP_DecryptFinal_ex nat
  | EVP_CIPHER_CTX_free nat

record ossl_answer =
  a_ret :: int
  a_ptr :: nat
  a_out :: bytes
  a_len :: "int option"

type_synonym ossl = "ossl_call list \<Rightarrow> ossl_answer"
type_synonym ossl_trace = "(ossl_call \<times> ossl_answer) list"

definition ask :: "ossl \<Rightarrow> ossl_call \<Rightarrow> ossl_trace \<Rightarrow> ossl_answer \<times> ossl_trace" where
  "ask lib c h = (let a = lib (map fst h @ [c]) in (a, h @ [(c, a)]))"

text \<open>A chain of calls joined by \<open>||\<close>: each must return 1, and the first that does not ends it.\<close>

fun all_one :: "ossl \<Rightarrow> ossl_call list \<Rightarrow> ossl_trace \<Rightarrow> bool \<times> ossl_trace" where
  "all_one lib [] h = (True, h)"
| "all_one lib (c # cs) h = (let (a, h) = ask lib c h in if a_ret a \<noteq> 1 then (False, h) else all_one lib cs h)"

definition INT_MAX :: nat where "INT_MAX = 2147483647"

text \<open>What a length variable holds after the call, and what a buffer holds.\<close>

definition len_after :: "ossl_answer \<Rightarrow> int \<Rightarrow> int" where
  "len_after a n = (case a_len a of None \<Rightarrow> n | Some v \<Rightarrow> v)"

definition buf_after :: "bytes option \<Rightarrow> ossl_answer \<Rightarrow> bytes option" where
  "buf_after out a = map_option (\<lambda>b. buf_write b 0 (a_out a)) out"

definition null_input :: "bytes option \<Rightarrow> nat \<Rightarrow> bool" where
  "null_input input n \<longleftrightarrow> input = None \<and> n \<noteq> 0"

text \<open>The message that is passed, with the static empty byte where there is none.\<close>

definition message_of :: "bytes option \<Rightarrow> nat \<Rightarrow> bytes" where
  "message_of input n = (if n \<noteq> 0 then take n (the input) else [])"

section \<open>Digests\<close>

definition rmr_crypto_blake3_digest ::
  "platform \<Rightarrow> blake3_hasher \<Rightarrow> bytes option \<Rightarrow> nat \<Rightarrow> bytes option \<Rightarrow> nat \<Rightarrow> int option \<Rightarrow> int \<times> bytes option \<times> int option" where
  "rmr_crypto_blake3_digest p hasher input n out cap out_len =
    (if out = None \<or> out_len = None \<or> cap < 32 then (-1, out, out_len)
     else if null_input input n then (-1, out, out_len)
     else
       let hasher = blake3_hasher_init hasher;
           hasher = (if n \<noteq> 0 then blake3_hasher_update p hasher (take n (the input)) else hasher)
       in (0, Some (buf_write (the out) 0 (blake3_hasher_finalize p hasher 32)), Some 32))"

definition rmr_digest_for :: "rmr_crypto_algorithm \<Rightarrow> evp_md option" where
  "rmr_digest_for algorithm =
    (case algorithm of
       RMR_CRYPTO_MD5 \<Rightarrow> Some EVP_md5
     | RMR_CRYPTO_SHA1 \<Rightarrow> Some EVP_sha1
     | RMR_CRYPTO_SHA256 \<Rightarrow> Some EVP_sha256
     | RMR_CRYPTO_SHA512 \<Rightarrow> Some EVP_sha512
     | RMR_CRYPTO_SHA3_256 \<Rightarrow> Some EVP_sha3_256
     | RMR_CRYPTO_BLAKE2B_512 \<Rightarrow> Some EVP_blake2b512
     | RMR_CRYPTO_SHA224 \<Rightarrow> Some EVP_sha224
     | RMR_CRYPTO_SHA384 \<Rightarrow> Some EVP_sha384
     | RMR_CRYPTO_SHA3_512 \<Rightarrow> Some EVP_sha3_512
     | RMR_CRYPTO_BLAKE2S_256 \<Rightarrow> Some EVP_blake2s256
     | RMR_CRYPTO_SHA512_224 \<Rightarrow> Some EVP_sha512_224
     | RMR_CRYPTO_SHA512_256 \<Rightarrow> Some EVP_sha512_256
     | RMR_CRYPTO_SHA3_224 \<Rightarrow> Some EVP_sha3_224
     | RMR_CRYPTO_SHA3_384 \<Rightarrow> Some EVP_sha3_384
     | RMR_CRYPTO_SM3 \<Rightarrow> Some EVP_sm3
     | _ \<Rightarrow> None)"

definition rmr_crypto_digest ::
  "platform \<Rightarrow> blake3_hasher \<Rightarrow> ossl \<Rightarrow> rmr_crypto_algorithm \<Rightarrow> bytes option \<Rightarrow> nat \<Rightarrow> bytes option \<Rightarrow> nat \<Rightarrow> int option \<Rightarrow>
    ossl_trace \<Rightarrow> int \<times> bytes option \<times> int option \<times> ossl_trace" where
  "rmr_crypto_digest p hasher lib algorithm input n out cap out_len h =
    (if algorithm = RMR_CRYPTO_BLAKE3
     then case rmr_crypto_blake3_digest p hasher input n out cap out_len of (st, out, out_len) \<Rightarrow> (st, out, out_len, h)
     else
       let md = rmr_digest_for algorithm
       in if md = None \<or> out = None \<or> out_len = None \<or> null_input input n then (-1, out, out_len, h)
          else
            let (s, h) = ask lib (EVP_MD_get_size (the md)) h
            in if a_ret s \<le> 0 \<or> int cap < a_ret s then (-1, out, out_len, h)
               else
                 let (a, h) = ask lib (EVP_Digest (map_option (take n) input) (the md)) h;
                     out = buf_after out a
                 in if a_ret a \<noteq> 1 then (-1, out, out_len, h) else (0, out, Some (len_after a 0), h))"

definition rmr_xof_for :: "rmr_crypto_algorithm \<Rightarrow> evp_md option" where
  "rmr_xof_for algorithm =
    (case algorithm of
       RMR_CRYPTO_SHAKE128 \<Rightarrow> Some EVP_shake128
     | RMR_CRYPTO_SHAKE256 \<Rightarrow> Some EVP_shake256
     | _ \<Rightarrow> None)"

definition rmr_crypto_xof ::
  "ossl \<Rightarrow> rmr_crypto_algorithm \<Rightarrow> bytes option \<Rightarrow> nat \<Rightarrow> bytes option \<Rightarrow> nat \<Rightarrow> ossl_trace \<Rightarrow> int \<times> bytes option \<times> ossl_trace" where
  "rmr_crypto_xof lib algorithm input n out out_len h =
    (let md = rmr_xof_for algorithm
     in if md = None \<or> out = None \<or> null_input input n then (-1, out, h)
        else
          let (c, h) = ask lib EVP_MD_CTX_new h; ctx = a_ptr c
          in if ctx = 0 then (-1, out, h)
             else
               let (ok, h) = all_one lib [EVP_DigestInit_ex ctx (the md), EVP_DigestUpdate ctx (message_of input n)] h;
                   (ok, out, h) =
                     (if \<not> ok then (-1, out, h)
                      else
                        let (a, h) = ask lib (EVP_DigestFinalXOF ctx out_len) h
                        in (if a_ret a \<noteq> 1 then -1 else 0, buf_after out a, h));
                   (_, h) = ask lib (EVP_MD_CTX_free ctx) h
               in (ok, out, h))"

section \<open>Message authentication and key derivation\<close>

text \<open>What happens between the two objects and the label \<open>done\<close>.\<close>

definition hmac_body ::
  "ossl \<Rightarrow> nat \<Rightarrow> string \<Rightarrow> bytes option \<Rightarrow> nat \<Rightarrow> bytes option \<Rightarrow> nat \<Rightarrow> bytes option \<Rightarrow> nat \<Rightarrow> nat \<Rightarrow> ossl_trace \<Rightarrow>
    int \<times> bytes option \<times> ossl_trace" where
  "hmac_body lib ctx digest_name key key_len input n out cap expected_len h =
    (let params = [OSSL_PARAM_utf8_string ''digest'' digest_name];
         (ok, h) = all_one lib ([EVP_MAC_init ctx (map_option (take key_len) key) params]
                     @ (if n \<noteq> 0 then [EVP_MAC_update ctx (take n (the input))] else [])) h
     in if \<not> ok then (-1, out, h)
        else
          let (a, h) = ask lib (EVP_MAC_final ctx cap) h
          in (if a_ret a \<noteq> 1 \<or> len_after a 0 \<noteq> int expected_len then -1 else 0, buf_after out a, h))"

definition rmr_crypto_hmac_named ::
  "ossl \<Rightarrow> string option \<Rightarrow> bytes option \<Rightarrow> nat \<Rightarrow> bytes option \<Rightarrow> nat \<Rightarrow> bytes option \<Rightarrow> nat \<Rightarrow> nat \<Rightarrow> ossl_trace \<Rightarrow>
    int \<times> bytes option \<times> ossl_trace" where
  "rmr_crypto_hmac_named lib digest_name key key_len input n out cap expected_len h =
    (if digest_name = None \<or> out = None \<or> cap < expected_len \<or> null_input key key_len \<or> null_input input n then (-1, out, h)
     else
       let (m, h) = ask lib (EVP_MAC_fetch ''HMAC'') h; mac = a_ptr m;
           (ok, ctx, out, h) =
             (if mac = 0 then (-1, 0, out, h)
              else
                let (c, h) = ask lib (EVP_MAC_CTX_new mac) h; ctx = a_ptr c
                in if ctx = 0 then (-1, ctx, out, h)
                   else case hmac_body lib ctx (the digest_name) key key_len input n out cap expected_len h of
                          (ok, out, h) \<Rightarrow> (ok, ctx, out, h));
           (_, h) = ask lib (EVP_MAC_CTX_free ctx) h;
           (_, h) = ask lib (EVP_MAC_free mac) h
       in (ok, out, h))"

definition rmr_crypto_hmac_sha256 ::
  "ossl \<Rightarrow> bytes option \<Rightarrow> nat \<Rightarrow> bytes option \<Rightarrow> nat \<Rightarrow> bytes option \<Rightarrow> ossl_trace \<Rightarrow> int \<times> bytes option \<times> ossl_trace" where
  "rmr_crypto_hmac_sha256 lib key key_len input n out h =
    rmr_crypto_hmac_named lib (Some ''SHA256'') key key_len input n out 32 32 h"

definition rmr_crypto_hmac_sha512 ::
  "ossl \<Rightarrow> bytes option \<Rightarrow> nat \<Rightarrow> bytes option \<Rightarrow> nat \<Rightarrow> bytes option \<Rightarrow> ossl_trace \<Rightarrow> int \<times> bytes option \<times> ossl_trace" where
  "rmr_crypto_hmac_sha512 lib key key_len input n out h =
    rmr_crypto_hmac_named lib (Some ''SHA512'') key key_len input n out 64 64 h"

definition rmr_crypto_hkdf_sha256 ::
  "ossl \<Rightarrow> bytes option \<Rightarrow> nat \<Rightarrow> bytes option \<Rightarrow> nat \<Rightarrow> bytes option \<Rightarrow> nat \<Rightarrow> bytes option \<Rightarrow> nat \<Rightarrow> ossl_trace \<Rightarrow>
    int \<times> bytes option \<times> ossl_trace" where
  "rmr_crypto_hkdf_sha256 lib ikm ikm_len salt salt_len info info_len out out_len h =
    (if out = None \<or> null_input ikm ikm_len \<or> null_input salt salt_len \<or> null_input info info_len then (-1, out, h)
     else
       let (m, h) = ask lib (EVP_KDF_fetch ''HKDF'') h; kdf = a_ptr m;
           (ok, ctx, out, h) =
             (if kdf = 0 then (-1, 0, out, h)
              else
                let (c, h) = ask lib (EVP_KDF_CTX_new kdf) h; ctx = a_ptr c
                in if ctx = 0 then (-1, ctx, out, h)
                   else
                     let params = [OSSL_PARAM_utf8_string ''digest'' ''SHA256'',
                                   OSSL_PARAM_octet_string ''key'' (map_option (take ikm_len) ikm),
                                   OSSL_PARAM_octet_string ''salt'' (map_option (take salt_len) salt),
                                   OSSL_PARAM_octet_string ''info'' (map_option (take info_len) info)];
                         (a, h) = ask lib (EVP_KDF_derive ctx out_len params) h
                     in (if a_ret a \<noteq> 1 then -1 else 0, ctx, buf_after out a, h));
           (_, h) = ask lib (EVP_KDF_CTX_free ctx) h;
           (_, h) = ask lib (EVP_KDF_free kdf) h
       in (ok, out, h))"

definition rmr_crypto_pbkdf2_hmac_sha256 ::
  "ossl \<Rightarrow> bytes option \<Rightarrow> nat \<Rightarrow> bytes option \<Rightarrow> nat \<Rightarrow> u32 \<Rightarrow> bytes option \<Rightarrow> nat \<Rightarrow> ossl_trace \<Rightarrow>
    int \<times> bytes option \<times> ossl_trace" where
  "rmr_crypto_pbkdf2_hmac_sha256 lib password password_len salt salt_len iterations out out_len h =
    (if null_input password password_len \<or> null_input salt salt_len \<or> out = None \<or> iterations = 0
        \<or> password_len > INT_MAX \<or> salt_len > INT_MAX \<or> out_len > INT_MAX \<or> unat iterations > INT_MAX
     then (-1, out, h)
     else
       let (a, h) = ask lib (PKCS5_PBKDF2_HMAC (map_option (take password_len) password) (map_option (take salt_len) salt)
                       (unat iterations) EVP_sha256 out_len) h
       in (if a_ret a = 1 then 0 else -1, buf_after out a, h))"

section \<open>Signatures and key agreement\<close>

text \<open>
  The functions of the two signature schemes, and those of the two key agreements, repeat one body with
  another key type and other sizes.
\<close>

definition raw_public ::
  "ossl \<Rightarrow> evp_pkey_type \<Rightarrow> nat \<Rightarrow> bytes option \<Rightarrow> bytes option \<Rightarrow> ossl_trace \<Rightarrow> int \<times> bytes option \<times> ossl_trace" where
  "raw_public lib ty sz seed public_key h =
    (if seed = None \<or> public_key = None then (-1, public_key, h)
     else
       let (k, h) = ask lib (EVP_PKEY_new_raw_private_key ty (take sz (the seed))) h; pkey = a_ptr k
       in if pkey = 0 then (-1, public_key, h)
          else
            let (a, h) = ask lib (EVP_PKEY_get_raw_public_key pkey sz) h;
                ok = (if a_ret a = 1 \<and> len_after a (int sz) = int sz then 0 else -1);
                (_, h) = ask lib (EVP_PKEY_free pkey) h
            in (ok, buf_after public_key a, h))"

definition sign_with ::
  "ossl \<Rightarrow> evp_pkey_type \<Rightarrow> nat \<Rightarrow> nat \<Rightarrow> bytes option \<Rightarrow> bytes option \<Rightarrow> nat \<Rightarrow> bytes option \<Rightarrow> ossl_trace \<Rightarrow>
    int \<times> bytes option \<times> ossl_trace" where
  "sign_with lib ty sz sig_len seed message n signature h =
    (if seed = None \<or> signature = None \<or> null_input message n then (-1, signature, h)
     else
       let (k, h) = ask lib (EVP_PKEY_new_raw_private_key ty (take sz (the seed))) h; pkey = a_ptr k;
           (c, h) = ask lib EVP_MD_CTX_new h; ctx = a_ptr c;
           (ok, signature, h) =
             (if pkey = 0 \<or> ctx = 0 then (-1, signature, h)
              else
                let (ok, h) = all_one lib [EVP_DigestSignInit ctx pkey] h
                in if \<not> ok then (-1, signature, h)
                   else
                     let (a, h) = ask lib (EVP_DigestSign ctx sig_len (message_of message n)) h
                     in (if a_ret a \<noteq> 1 \<or> len_after a (int sig_len) \<noteq> int sig_len then -1 else 0, buf_after signature a, h));
           (_, h) = ask lib (EVP_MD_CTX_free ctx) h;
           (_, h) = ask lib (EVP_PKEY_free pkey) h
       in (ok, signature, h))"

definition verify_with ::
  "ossl \<Rightarrow> evp_pkey_type \<Rightarrow> nat \<Rightarrow> nat \<Rightarrow> bytes option \<Rightarrow> bytes option \<Rightarrow> nat \<Rightarrow> bytes option \<Rightarrow> ossl_trace \<Rightarrow> int \<times> ossl_trace" where
  "verify_with lib ty sz sig_len public_key message n signature h =
    (if public_key = None \<or> signature = None \<or> null_input message n then (-1, h)
     else
       let (k, h) = ask lib (EVP_PKEY_new_raw_public_key ty (take sz (the public_key))) h; pkey = a_ptr k;
           (c, h) = ask lib EVP_MD_CTX_new h; ctx = a_ptr c;
           (rc, h) =
             (if pkey = 0 \<or> ctx = 0 then (-1, h)
              else
                let (ok, h) = all_one lib [EVP_DigestVerifyInit ctx pkey] h
                in if \<not> ok then (-1, h)
                   else
                     let (a, h) = ask lib (EVP_DigestVerify ctx (take sig_len (the signature)) (message_of message n)) h
                     in (if a_ret a = 1 then 0 else if a_ret a = 0 then 1 else -1, h));
           (_, h) = ask lib (EVP_MD_CTX_free ctx) h;
           (_, h) = ask lib (EVP_PKEY_free pkey) h
       in (rc, h))"

definition shared_secret_with ::
  "ossl \<Rightarrow> evp_pkey_type \<Rightarrow> nat \<Rightarrow> bytes option \<Rightarrow> bytes option \<Rightarrow> bytes option \<Rightarrow> ossl_trace \<Rightarrow> int \<times> bytes option \<times> ossl_trace" where
  "shared_secret_with lib ty sz private_key peer_public_key shared_secret h =
    (if private_key = None \<or> peer_public_key = None \<or> shared_secret = None then (-1, shared_secret, h)
     else
       let (k, h) = ask lib (EVP_PKEY_new_raw_private_key ty (take sz (the private_key))) h; priv = a_ptr k;
           (q, h) = ask lib (EVP_PKEY_new_raw_public_key ty (take sz (the peer_public_key))) h; peer = a_ptr q;
           (ok, ctx, shared_secret, h) =
             (if priv = 0 \<or> peer = 0 then (-1, 0, shared_secret, h)
              else
                let (c, h) = ask lib (EVP_PKEY_CTX_new priv) h; ctx = a_ptr c
                in if ctx = 0 then (-1, ctx, shared_secret, h)
                   else
                     let (ok, h) = all_one lib [EVP_PKEY_derive_init ctx, EVP_PKEY_derive_set_peer ctx peer] h
                     in if \<not> ok then (-1, ctx, shared_secret, h)
                        else
                          let (a, h) = ask lib (EVP_PKEY_derive ctx sz) h
                          in (if a_ret a \<noteq> 1 \<or> len_after a (int sz) \<noteq> int sz then -1 else 0, ctx, buf_after shared_secret a, h));
           (_, h) = ask lib (EVP_PKEY_CTX_free ctx) h;
           (_, h) = ask lib (EVP_PKEY_free peer) h;
           (_, h) = ask lib (EVP_PKEY_free priv) h
       in (ok, shared_secret, h))"

definition rmr_crypto_ed25519_public_from_seed :: "ossl \<Rightarrow> bytes option \<Rightarrow> bytes option \<Rightarrow> ossl_trace \<Rightarrow> int \<times> bytes option \<times> ossl_trace" where
  "rmr_crypto_ed25519_public_from_seed lib = raw_public lib EVP_PKEY_ED25519 32"

definition rmr_crypto_ed25519_sign ::
  "ossl \<Rightarrow> bytes option \<Rightarrow> bytes option \<Rightarrow> nat \<Rightarrow> bytes option \<Rightarrow> ossl_trace \<Rightarrow> int \<times> bytes option \<times> ossl_trace" where
  "rmr_crypto_ed25519_sign lib = sign_with lib EVP_PKEY_ED25519 32 64"

definition rmr_crypto_ed25519_verify ::
  "ossl \<Rightarrow> bytes option \<Rightarrow> bytes option \<Rightarrow> nat \<Rightarrow> bytes option \<Rightarrow> ossl_trace \<Rightarrow> int \<times> ossl_trace" where
  "rmr_crypto_ed25519_verify lib = verify_with lib EVP_PKEY_ED25519 32 64"

definition rmr_crypto_ed448_public_from_seed :: "ossl \<Rightarrow> bytes option \<Rightarrow> bytes option \<Rightarrow> ossl_trace \<Rightarrow> int \<times> bytes option \<times> ossl_trace" where
  "rmr_crypto_ed448_public_from_seed lib = raw_public lib EVP_PKEY_ED448 57"

definition rmr_crypto_ed448_sign ::
  "ossl \<Rightarrow> bytes option \<Rightarrow> bytes option \<Rightarrow> nat \<Rightarrow> bytes option \<Rightarrow> ossl_trace \<Rightarrow> int \<times> bytes option \<times> ossl_trace" where
  "rmr_crypto_ed448_sign lib = sign_with lib EVP_PKEY_ED448 57 114"

definition rmr_crypto_ed448_verify ::
  "ossl \<Rightarrow> bytes option \<Rightarrow> bytes option \<Rightarrow> nat \<Rightarrow> bytes option \<Rightarrow> ossl_trace \<Rightarrow> int \<times> ossl_trace" where
  "rmr_crypto_ed448_verify lib = verify_with lib EVP_PKEY_ED448 57 114"

definition rmr_crypto_x25519_public_from_private :: "ossl \<Rightarrow> bytes option \<Rightarrow> bytes option \<Rightarrow> ossl_trace \<Rightarrow> int \<times> bytes option \<times> ossl_trace" where
  "rmr_crypto_x25519_public_from_private lib = raw_public lib EVP_PKEY_X25519 32"

definition rmr_crypto_x25519_shared_secret ::
  "ossl \<Rightarrow> bytes option \<Rightarrow> bytes option \<Rightarrow> bytes option \<Rightarrow> ossl_trace \<Rightarrow> int \<times> bytes option \<times> ossl_trace" where
  "rmr_crypto_x25519_shared_secret lib = shared_secret_with lib EVP_PKEY_X25519 32"

definition rmr_crypto_x448_public_from_private :: "ossl \<Rightarrow> bytes option \<Rightarrow> bytes option \<Rightarrow> ossl_trace \<Rightarrow> int \<times> bytes option \<times> ossl_trace" where
  "rmr_crypto_x448_public_from_private lib = raw_public lib EVP_PKEY_X448 56"

definition rmr_crypto_x448_shared_secret ::
  "ossl \<Rightarrow> bytes option \<Rightarrow> bytes option \<Rightarrow> bytes option \<Rightarrow> ossl_trace \<Rightarrow> int \<times> bytes option \<times> ossl_trace" where
  "rmr_crypto_x448_shared_secret lib = shared_secret_with lib EVP_PKEY_X448 56"

section \<open>Authenticated encryption\<close>

definition rmr_cipher_for :: "rmr_crypto_algorithm \<Rightarrow> evp_cipher option" where
  "rmr_cipher_for algorithm =
    (if algorithm = RMR_CRYPTO_CHACHA20_POLY1305 then Some EVP_chacha20_poly1305
     else if algorithm = RMR_CRYPTO_AES_256_GCM then Some EVP_aes_256_gcm
     else None)"

text \<open>An update that is skipped for an empty input: whether to go on, the bytes stored and the length variable.\<close>

definition update_with :: "ossl \<Rightarrow> (bytes \<Rightarrow> ossl_call) \<Rightarrow> bytes option \<Rightarrow> nat \<Rightarrow> int \<Rightarrow> ossl_trace \<Rightarrow> bool \<times> bytes \<times> int \<times> ossl_trace" where
  "update_with lib f input len n h =
    (if len \<noteq> 0 then let (a, h) = ask lib (f (take len (the input))) h in (a_ret a = 1, a_out a, len_after a n, h)
     else (True, [], n, h))"

definition encrypt_body ::
  "ossl \<Rightarrow> nat \<Rightarrow> evp_cipher \<Rightarrow> bytes \<Rightarrow> bytes \<Rightarrow> bytes option \<Rightarrow> nat \<Rightarrow> bytes option \<Rightarrow> nat \<Rightarrow> bytes \<Rightarrow> bytes \<Rightarrow> ossl_trace \<Rightarrow>
    int \<times> bytes \<times> bytes \<times> ossl_trace" where
  "encrypt_body lib ctx cipher key nonce aad aad_len plaintext plaintext_len ciphertext tag h =
    (let (ok, h) = all_one lib [EVP_EncryptInit_ex ctx (Some cipher) None None, EVP_CIPHER_CTX_set_ivlen ctx 12,
                     EVP_EncryptInit_ex ctx None (Some (take 32 key)) (Some (take 12 nonce))] h
     in if \<not> ok then (-1, ciphertext, tag, h)
        else
          let (ok, _, n, h) = update_with lib (EVP_EncryptUpdate ctx False) aad aad_len 0 h
          in if \<not> ok then (-1, ciphertext, tag, h)
             else
               let (ok, bs, n, h) = update_with lib (EVP_EncryptUpdate ctx True) plaintext plaintext_len n h;
                   ciphertext = buf_write ciphertext 0 bs
               in if \<not> ok then (-1, ciphertext, tag, h)
                  else
                    let tot = n;
                        (a, h) = ask lib (EVP_EncryptFinal_ex ctx) h;
                        ciphertext = buf_write ciphertext (nat tot) (a_out a);
                        tot = tot + len_after a n
                    in if a_ret a \<noteq> 1 \<or> tot \<noteq> int plaintext_len then (-1, ciphertext, tag, h)
                       else
                         let (g, h) = ask lib (EVP_CIPHER_CTX_get_tag ctx 16) h
                         in (if a_ret g \<noteq> 1 then -1 else 0, ciphertext, buf_write tag 0 (a_out g), h))"

definition aead_arguments_bad ::
  "rmr_crypto_algorithm \<Rightarrow> bytes option \<Rightarrow> bytes option \<Rightarrow> bytes option \<Rightarrow> nat \<Rightarrow> bytes option \<Rightarrow> nat \<Rightarrow> bytes option \<Rightarrow> bytes option \<Rightarrow> bool" where
  "aead_arguments_bad algorithm key nonce aad aad_len input n out tag \<longleftrightarrow>
    rmr_cipher_for algorithm = None \<or> key = None \<or> nonce = None \<or> out = None \<or> tag = None
    \<or> null_input aad aad_len \<or> null_input input n \<or> aad_len > INT_MAX \<or> n > INT_MAX"

definition rmr_crypto_aead_encrypt ::
  "ossl \<Rightarrow> rmr_crypto_algorithm \<Rightarrow> bytes option \<Rightarrow> bytes option \<Rightarrow> bytes option \<Rightarrow> nat \<Rightarrow> bytes option \<Rightarrow> nat \<Rightarrow> bytes option \<Rightarrow>
    bytes option \<Rightarrow> ossl_trace \<Rightarrow> int \<times> bytes option \<times> bytes option \<times> ossl_trace" where
  "rmr_crypto_aead_encrypt lib algorithm key nonce aad aad_len plaintext plaintext_len ciphertext tag h =
    (if aead_arguments_bad algorithm key nonce aad aad_len plaintext plaintext_len ciphertext tag then (-1, ciphertext, tag, h)
     else
       let (c, h) = ask lib EVP_CIPHER_CTX_new h; ctx = a_ptr c
       in if ctx = 0 then (-1, ciphertext, tag, h)
          else
            let (ok, ct, tg, h) = encrypt_body lib ctx (the (rmr_cipher_for algorithm)) (the key) (the nonce) aad aad_len
                                    plaintext plaintext_len (the ciphertext) (the tag) h;
                (_, h) = ask lib (EVP_CIPHER_CTX_free ctx) h
            in (ok, Some ct, Some tg, h))"

text \<open>The part of the decryption up to the context's release: the result is an error or what the final call and the lengths gave.\<close>

definition decrypt_body ::
  "ossl \<Rightarrow> nat \<Rightarrow> evp_cipher \<Rightarrow> bytes \<Rightarrow> bytes \<Rightarrow> bytes option \<Rightarrow> nat \<Rightarrow> bytes option \<Rightarrow> nat \<Rightarrow> bytes \<Rightarrow> bytes \<Rightarrow> ossl_trace \<Rightarrow>
    (int \<times> int) option \<times> bytes \<times> ossl_trace" where
  "decrypt_body lib ctx cipher key nonce aad aad_len ciphertext ciphertext_len tag plaintext h =
    (let (ok, h) = all_one lib [EVP_DecryptInit_ex ctx (Some cipher) None None, EVP_CIPHER_CTX_set_ivlen ctx 12,
                     EVP_DecryptInit_ex ctx None (Some (take 32 key)) (Some (take 12 nonce))] h
     in if \<not> ok then (None, plaintext, h)
        else
          let (ok, _, n, h) = update_with lib (EVP_DecryptUpdate ctx False) aad aad_len 0 h
          in if \<not> ok then (None, plaintext, h)
             else
               let (ok, bs, n, h) = update_with lib (EVP_DecryptUpdate ctx True) ciphertext ciphertext_len n h;
                   plaintext = buf_write plaintext 0 bs
               in if \<not> ok then (None, plaintext, h)
                  else
                    let tot = n;
                        (ok, h) = all_one lib [EVP_CIPHER_CTX_set_tag ctx (take 16 tag)] h
                    in if \<not> ok then (None, plaintext, h)
                       else
                         let (a, h) = ask lib (EVP_DecryptFinal_ex ctx) h
                         in (Some (a_ret a, tot + len_after a n), buf_write plaintext (nat tot) (a_out a), h))"

definition rmr_crypto_aead_decrypt ::
  "ossl \<Rightarrow> rmr_crypto_algorithm \<Rightarrow> bytes option \<Rightarrow> bytes option \<Rightarrow> bytes option \<Rightarrow> nat \<Rightarrow> bytes option \<Rightarrow> nat \<Rightarrow> bytes option \<Rightarrow>
    bytes option \<Rightarrow> ossl_trace \<Rightarrow> int \<times> bytes option \<times> ossl_trace" where
  "rmr_crypto_aead_decrypt lib algorithm key nonce aad aad_len ciphertext ciphertext_len tag plaintext h =
    (if aead_arguments_bad algorithm key nonce aad aad_len ciphertext ciphertext_len plaintext tag then (-1, plaintext, h)
     else
       let (c, h) = ask lib EVP_CIPHER_CTX_new h; ctx = a_ptr c
       in if ctx = 0 then (-1, plaintext, h)
          else
            let (r, pt, h) = decrypt_body lib ctx (the (rmr_cipher_for algorithm)) (the key) (the nonce) aad aad_len
                               ciphertext ciphertext_len (the tag) (the plaintext) h;
                (_, h) = ask lib (EVP_CIPHER_CTX_free ctx) h
            in (case r of
                  None \<Rightarrow> -1
                | Some (rc, tot) \<Rightarrow> if rc \<noteq> 1 then 1 else if tot = int ciphertext_len then 0 else -1, Some pt, h))"

end
