(* ===== verification/Crypto_Correct.thy ===== *)
theory Crypto_Correct
  imports Crypto Hasher_Correct "HOL-Library.Multiset"
begin

text \<open>
  What the provider promises whatever the library answers: every object it obtains is released exactly
  once and none is used before it exists or after its release, and a decryption is accepted only after
  the library accepted the whole message with its tag.
\<close>

section \<open>Objects\<close>

datatype ossl_kind = K_MD_CTX | K_MAC | K_MAC_CTX | K_KDF | K_KDF_CTX | K_PKEY | K_PKEY_CTX | K_CIPHER_CTX

type_synonym ossl_object = "ossl_kind \<times> nat"

fun acquires :: "ossl_call \<Rightarrow> ossl_kind option" where
  "acquires EVP_MD_CTX_new = Some K_MD_CTX"
| "acquires (EVP_MAC_fetch s) = Some K_MAC"
| "acquires (EVP_MAC_CTX_new m) = Some K_MAC_CTX"
| "acquires (EVP_KDF_fetch s) = Some K_KDF"
| "acquires (EVP_KDF_CTX_new k) = Some K_KDF_CTX"
| "acquires (EVP_PKEY_new_raw_private_key t b) = Some K_PKEY"
| "acquires (EVP_PKEY_new_raw_public_key t b) = Some K_PKEY"
| "acquires (EVP_PKEY_CTX_new k) = Some K_PKEY_CTX"
| "acquires EVP_CIPHER_CTX_new = Some K_CIPHER_CTX"
| "acquires _ = None"

fun releases :: "ossl_call \<Rightarrow> ossl_object option" where
  "releases (EVP_MD_CTX_free c) = Some (K_MD_CTX, c)"
| "releases (EVP_MAC_CTX_free c) = Some (K_MAC_CTX, c)"
| "releases (EVP_MAC_free m) = Some (K_MAC, m)"
| "releases (EVP_KDF_CTX_free c) = Some (K_KDF_CTX, c)"
| "releases (EVP_KDF_free k) = Some (K_KDF, k)"
| "releases (EVP_PKEY_free k) = Some (K_PKEY, k)"
| "releases (EVP_PKEY_CTX_free c) = Some (K_PKEY_CTX, c)"
| "releases (EVP_CIPHER_CTX_free c) = Some (K_CIPHER_CTX, c)"
| "releases _ = None"

fun uses :: "ossl_call \<Rightarrow> ossl_object list" where
  "uses (EVP_DigestInit_ex c md) = [(K_MD_CTX, c)]"
| "uses (EVP_DigestUpdate c b) = [(K_MD_CTX, c)]"
| "uses (EVP_DigestFinalXOF c n) = [(K_MD_CTX, c)]"
| "uses (EVP_MAC_CTX_new m) = [(K_MAC, m)]"
| "uses (EVP_MAC_init c k ps) = [(K_MAC_CTX, c)]"
| "uses (EVP_MAC_update c b) = [(K_MAC_CTX, c)]"
| "uses (EVP_MAC_final c n) = [(K_MAC_CTX, c)]"
| "uses (EVP_KDF_CTX_new k) = [(K_KDF, k)]"
| "uses (EVP_KDF_derive c n ps) = [(K_KDF_CTX, c)]"
| "uses (EVP_PKEY_get_raw_public_key k n) = [(K_PKEY, k)]"
| "uses (EVP_DigestSignInit c k) = [(K_MD_CTX, c), (K_PKEY, k)]"
| "uses (EVP_DigestSign c n b) = [(K_MD_CTX, c)]"
| "uses (EVP_DigestVerifyInit c k) = [(K_MD_CTX, c), (K_PKEY, k)]"
| "uses (EVP_DigestVerify c s b) = [(K_MD_CTX, c)]"
| "uses (EVP_PKEY_CTX_new k) = [(K_PKEY, k)]"
| "uses (EVP_PKEY_derive_init c) = [(K_PKEY_CTX, c)]"
| "uses (EVP_PKEY_derive_set_peer c k) = [(K_PKEY_CTX, c), (K_PKEY, k)]"
| "uses (EVP_PKEY_derive c n) = [(K_PKEY_CTX, c)]"
| "uses (EVP_CIPHER_CTX_set_ivlen c n) = [(K_CIPHER_CTX, c)]"
| "uses (EVP_CIPHER_CTX_get_tag c n) = [(K_CIPHER_CTX, c)]"
| "uses (EVP_CIPHER_CTX_set_tag c b) = [(K_CIPHER_CTX, c)]"
| "uses (EVP_EncryptInit_ex c x k n) = [(K_CIPHER_CTX, c)]"
| "uses (EVP_EncryptUpdate c t b) = [(K_CIPHER_CTX, c)]"
| "uses (EVP_EncryptFinal_ex c) = [(K_CIPHER_CTX, c)]"
| "uses (EVP_DecryptInit_ex c x k n) = [(K_CIPHER_CTX, c)]"
| "uses (EVP_DecryptUpdate c t b) = [(K_CIPHER_CTX, c)]"
| "uses (EVP_DecryptFinal_ex c) = [(K_CIPHER_CTX, c)]"
| "uses _ = []"

text \<open>
  The objects alive after a call, \<open>None\<close> once a rule was broken: a call used or released an object that is
  not alive. Releasing \<open>NULL\<close> does nothing.
\<close>

definition live_step :: "ossl_object multiset option \<Rightarrow> ossl_call \<times> ossl_answer \<Rightarrow> ossl_object multiset option" where
  "live_step L = (\<lambda>(c, a).
     case L of
       None \<Rightarrow> None
     | Some L \<Rightarrow>
         if \<not> list_all (\<lambda>u. u \<in># L) (uses c) then None
         else
           case releases c of
             Some (k, p) \<Rightarrow> if p = 0 then Some L else if (k, p) \<in># L then Some (L - {#(k, p)#}) else None
           | None \<Rightarrow>
               (case acquires c of
                  Some k \<Rightarrow> if a_ptr a \<noteq> 0 then Some (add_mset (k, a_ptr a) L) else Some L
                | None \<Rightarrow> Some L))"

definition live :: "ossl_trace \<Rightarrow> ossl_object multiset option" where
  "live h = foldl live_step (Some {#}) h"

section \<open>Rules\<close>

text \<open>
  A small logic for the functions: what holds of the result of a program made of calls, conditions and
  local values. \<open>own\<close> adds an object to those alive unless it is \<open>NULL\<close>, \<open>disown\<close> removes it.
\<close>

definition own :: "ossl_kind \<Rightarrow> nat \<Rightarrow> ossl_object multiset \<Rightarrow> ossl_object multiset" where
  "own k p L = (if p \<noteq> 0 then add_mset (k, p) L else L)"

definition disown :: "ossl_object \<Rightarrow> ossl_object multiset \<Rightarrow> ossl_object multiset" where
  "disown u L = (if snd u \<noteq> 0 then L - {#u#} else L)"

definition holds :: "('r \<Rightarrow> bool) \<Rightarrow> 'r \<Rightarrow> bool" where
  "holds P r \<longleftrightarrow> P r"

definition call_ok :: "ossl_object multiset \<Rightarrow> ossl_call \<Rightarrow> bool" where
  "call_ok L c \<longleftrightarrow> list_all (\<lambda>u. u \<in># L) (uses c) \<and> (case releases c of None \<Rightarrow> True | Some u \<Rightarrow> snd u = 0 \<or> u \<in># L)"

definition alive_after :: "ossl_object multiset \<Rightarrow> ossl_call \<Rightarrow> ossl_answer \<Rightarrow> ossl_object multiset" where
  "alive_after L c a =
    (case releases c of
       Some u \<Rightarrow> disown u L
     | None \<Rightarrow> (case acquires c of Some k \<Rightarrow> own k (a_ptr a) L | None \<Rightarrow> L))"

lemma in_own [simp]: "u \<in># own k p L \<longleftrightarrow> (p \<noteq> 0 \<and> u = (k, p)) \<or> u \<in># L"
  by (auto simp: own_def)

lemma own_null [simp]: "own k 0 L = L" "disown (k, 0) L = L"
  by (simp_all add: own_def disown_def)

lemma disown_own [simp]: "disown (k, p) (own k p L) = L"
  by (simp add: own_def disown_def)

lemma live_ask: "ask lib c h = (a, h') \<Longrightarrow> live h = Some L \<Longrightarrow> call_ok L c \<Longrightarrow> live h' = Some (alive_after L c a)"
  by (auto simp: ask_def live_def Let_def live_step_def call_ok_def alive_after_def own_def disown_def split: option.splits)

lemma holds_if: "(b \<Longrightarrow> holds P x) \<Longrightarrow> (\<not> b \<Longrightarrow> holds P y) \<Longrightarrow> holds P (if b then x else y)"
  by simp

lemma holds_let_if:
  "(b \<Longrightarrow> holds P (Let x K)) \<Longrightarrow> (\<not> b \<Longrightarrow> holds P (Let y K)) \<Longrightarrow> holds P (Let (if b then x else y) K)"
  by simp

lemma holds_bind: "holds Q e \<Longrightarrow> (\<And>x. Q x \<Longrightarrow> holds P (K x)) \<Longrightarrow> holds P (Let e K)"
  by (simp add: holds_def)

lemma holds_ask:
  "live h = Some L \<Longrightarrow> call_ok L c \<Longrightarrow> (\<And>a h'. live h' = Some (alive_after L c a) \<Longrightarrow> holds P (K a h')) \<Longrightarrow>
    holds P (let (a, h) = ask lib c h in K a h)"
  by (cases "ask lib c h") (simp add: live_ask)

lemma live_all_one:
  "all_one lib cs h = (ok, h') \<Longrightarrow> live h = Some L \<Longrightarrow> \<forall>c \<in> set cs. call_ok L c \<and> releases c = None \<and> acquires c = None \<Longrightarrow>
    live h' = Some L"
proof (induction lib cs h rule: all_one.induct)
  case (2 lib c cs h)
  obtain a h1 where a: "ask lib c h = (a, h1)" by force
  have "live h1 = Some L" using live_ask [OF a "2.prems"(2)] "2.prems"(3) by (simp add: alive_after_def)
  then show ?case using "2.IH" [OF a [symmetric] refl] "2.prems" a by (cases "a_ret a = 1") auto
qed simp

lemma holds_all:
  "live h = Some L \<Longrightarrow> \<forall>c \<in> set cs. call_ok L c \<and> releases c = None \<and> acquires c = None \<Longrightarrow>
    (\<And>ok h'. live h' = Some L \<Longrightarrow> holds P (K ok h')) \<Longrightarrow> holds P (let (ok, h) = all_one lib cs h in K ok h)"
  by (cases "all_one lib cs h") (simp add: live_all_one)

lemma holds_update:
  "live h = Some L \<Longrightarrow> \<forall>b. call_ok L (f b) \<and> releases (f b) = None \<and> acquires (f b) = None \<Longrightarrow>
    (\<And>ok bs n h'. live h' = Some L \<Longrightarrow> holds P (K ok bs n h')) \<Longrightarrow>
    holds P (let (ok, bs, n, h) = update_with lib f input len n h in K ok bs n h)"
  by (auto simp: update_with_def holds_def live_ask alive_after_def split: prod.splits)

text \<open>Blocks are flattened, and local values other than calls are put in place.\<close>

lemma holds_flatten:
  "holds P (let (a, h) = ask lib c h in Let (K a h) M) \<Longrightarrow> holds P (Let (let (a, h) = ask lib c h in K a h) M)"
  "holds P (let (ok, h) = all_one lib cs h in Let (K' ok h) M') \<Longrightarrow> holds P (Let (let (ok, h) = all_one lib cs h in K' ok h) M')"
  by (simp_all add: Let_def split: prod.splits)

lemma let_values:
  "Let (a_ptr a) K1 = K1 (a_ptr a)" "Let (rmr_xof_for alg) K2 = K2 (rmr_xof_for alg)" "Let (x # xs) K3 = K3 (x # xs)"
  "Let (rmr_digest_for alg) K4 = K4 (rmr_digest_for alg)" "Let (buf_after out a) K5 = K5 (buf_after out a)"
  "Let (i, y) (case_prod K6) = K6 i y" "case_prod K7 (i', y') = K7 i' y'" "Let (j :: int) K8 = K8 j" "Let (buf_write b o' bs) K9 = K9 (buf_write b o' bs)"
  by (simp_all add: Let_def)

lemma holds_call:
  "holds Q e \<Longrightarrow> (\<And>x y z. Q (x, y, z) \<Longrightarrow> holds P (Let (K x y z) M)) \<Longrightarrow>
    holds P (Let (case e of (x, y, z) \<Rightarrow> K x y z) M)"
  by (auto simp: holds_def split: prod.splits)

lemmas prog_rules = holds_ask holds_all holds_update holds_if holds_let_if holds_flatten

lemmas prog_simps = call_ok_def alive_after_def holds_def

section \<open>Every function keeps the objects\<close>

abbreviation "keeps2 L \<equiv> holds (\<lambda>r. live (snd r) = Some L)"
abbreviation "keeps3 L \<equiv> holds (\<lambda>r. live (snd (snd r)) = Some L)"
abbreviation "keeps4 L \<equiv> holds (\<lambda>r. live (snd (snd (snd r))) = Some L)"

lemma live_digest:
  "live h = Some L \<Longrightarrow> keeps4 L (rmr_crypto_digest p hs lib alg input n out cap out_len h)"
  unfolding rmr_crypto_digest_def let_values
  by (assumption | intro prog_rules | simp only: let_values | (simp add: prog_simps split: prod.splits; fail))+

lemma live_xof:
  "live h = Some L \<Longrightarrow> keeps3 L (rmr_crypto_xof lib alg input n out out_len h)"
  unfolding rmr_crypto_xof_def let_values
  by (assumption | intro prog_rules | simp only: let_values | (simp add: prog_simps; fail) | (auto simp: prog_simps; fail))+

lemma live_hmac_body:
  "live h = Some L \<Longrightarrow> (K_MAC_CTX, ctx) \<in># L \<Longrightarrow> keeps3 L (hmac_body lib ctx dn key key_len input n out cap expected h)"
  unfolding hmac_body_def let_values
  by (assumption | intro prog_rules | simp only: let_values | (simp add: prog_simps; fail) | (auto simp: prog_simps; fail))+

lemma live_hmac:
  "live h = Some L \<Longrightarrow> keeps3 L (rmr_crypto_hmac_named lib dn key key_len input n out cap expected h)"
  unfolding rmr_crypto_hmac_named_def let_values
  by (assumption | intro prog_rules holds_call [OF live_hmac_body] | simp only: let_values | (simp add: prog_simps; fail) | (auto simp: prog_simps; fail))+

lemma live_hkdf:
  "live h = Some L \<Longrightarrow> keeps3 L (rmr_crypto_hkdf_sha256 lib ikm ikm_len salt salt_len info info_len out out_len h)"
  unfolding rmr_crypto_hkdf_sha256_def let_values
  by (assumption | intro prog_rules | simp only: let_values | (simp add: prog_simps; fail) | (auto simp: prog_simps; fail))+

lemma live_pbkdf2:
  "live h = Some L \<Longrightarrow> keeps3 L (rmr_crypto_pbkdf2_hmac_sha256 lib pw pw_len salt salt_len it out out_len h)"
  unfolding rmr_crypto_pbkdf2_hmac_sha256_def let_values
  by (assumption | intro prog_rules | simp only: let_values | (simp add: prog_simps; fail) | (auto simp: prog_simps; fail))+

lemma live_raw_public:
  "live h = Some L \<Longrightarrow> keeps3 L (raw_public lib ty sz seed pk h)"
  unfolding raw_public_def let_values
  by (assumption | intro prog_rules | simp only: let_values | (simp add: prog_simps; fail) | (auto simp: prog_simps; fail))+

lemma live_sign:
  "live h = Some L \<Longrightarrow> keeps3 L (sign_with lib ty sz sl seed m n sg h)"
  unfolding sign_with_def let_values
  by (assumption | intro prog_rules | simp only: let_values | (simp add: prog_simps; fail) | (auto simp: prog_simps; fail))+

lemma live_verify:
  "live h = Some L \<Longrightarrow> keeps2 L (verify_with lib ty sz sl pk m n sg h)"
  unfolding verify_with_def let_values
  by (assumption | intro prog_rules | simp only: let_values | (simp add: prog_simps; fail) | (auto simp: prog_simps; fail))+

lemma live_shared:
  "live h = Some L \<Longrightarrow> keeps3 L (shared_secret_with lib ty sz sk pk sh h)"
  unfolding shared_secret_with_def let_values
  by (assumption | intro prog_rules | simp only: let_values | (simp add: prog_simps; fail) | (auto simp: prog_simps; fail))+

lemma live_encrypt_body:
  "live h = Some L \<Longrightarrow> (K_CIPHER_CTX, ctx) \<in># L \<Longrightarrow> keeps4 L (encrypt_body lib ctx ci key nonce aad al pt pl ct tag h)"
  unfolding encrypt_body_def let_values
  by (assumption | intro prog_rules | simp only: let_values | (simp add: prog_simps; fail) | (auto simp: prog_simps; fail))+

lemma live_decrypt_body:
  "live h = Some L \<Longrightarrow> (K_CIPHER_CTX, ctx) \<in># L \<Longrightarrow> keeps3 L (decrypt_body lib ctx ci key nonce aad al ct cl tag pt h)"
  unfolding decrypt_body_def let_values
  by (assumption | intro prog_rules | simp only: let_values | (simp add: prog_simps; fail) | (auto simp: prog_simps; fail))+

lemma keeps_call:
  "keeps3 L e3 \<Longrightarrow> (\<And>x y h'. live h' = Some L \<Longrightarrow> holds P (K3 x y h')) \<Longrightarrow> holds P (let (x, y, h) = e3 in K3 x y h)"
  "keeps4 L e4 \<Longrightarrow> (\<And>x y z h'. live h' = Some L \<Longrightarrow> holds P (K4 x y z h')) \<Longrightarrow> holds P (let (x, y, z, h) = e4 in K4 x y z h)"
  by (auto simp: holds_def split: prod.splits)

lemma live_encrypt:
  "live h = Some L \<Longrightarrow> keeps4 L (rmr_crypto_aead_encrypt lib alg key nonce aad al pt pl ct tag h)"
  unfolding rmr_crypto_aead_encrypt_def let_values
  by (assumption | intro prog_rules keeps_call(2) [OF live_encrypt_body] | simp only: let_values | (simp add: prog_simps; fail) | (auto simp: prog_simps; fail))+

lemma live_decrypt:
  "live h = Some L \<Longrightarrow> keeps3 L (rmr_crypto_aead_decrypt lib alg key nonce aad al ct cl tag pt h)"
  unfolding rmr_crypto_aead_decrypt_def let_values
  by (assumption | intro prog_rules keeps_call(1) [OF live_decrypt_body] | simp only: let_values | (simp add: prog_simps; fail) | (auto simp: prog_simps; fail))+

text \<open>A call of the programming interface, and a sequence of them.\<close>

datatype crypto_op =
    Op_digest rmr_crypto_algorithm "bytes option" nat "bytes option" nat "int option"
  | Op_xof rmr_crypto_algorithm "bytes option" nat "bytes option" nat
  | Op_hmac_sha256 "bytes option" nat "bytes option" nat "bytes option"
  | Op_hmac_sha512 "bytes option" nat "bytes option" nat "bytes option"
  | Op_hkdf "bytes option" nat "bytes option" nat "bytes option" nat "bytes option" nat
  | Op_pbkdf2 "bytes option" nat "bytes option" nat u32 "bytes option" nat
  | Op_ed25519_public "bytes option" "bytes option"
  | Op_ed25519_sign "bytes option" "bytes option" nat "bytes option"
  | Op_ed25519_verify "bytes option" "bytes option" nat "bytes option"
  | Op_ed448_public "bytes option" "bytes option"
  | Op_ed448_sign "bytes option" "bytes option" nat "bytes option"
  | Op_ed448_verify "bytes option" "bytes option" nat "bytes option"
  | Op_x25519_public "bytes option" "bytes option"
  | Op_x25519_shared "bytes option" "bytes option" "bytes option"
  | Op_x448_public "bytes option" "bytes option"
  | Op_x448_shared "bytes option" "bytes option" "bytes option"
  | Op_encrypt rmr_crypto_algorithm "bytes option" "bytes option" "bytes option" nat "bytes option" nat "bytes option" "bytes option"
  | Op_decrypt rmr_crypto_algorithm "bytes option" "bytes option" "bytes option" nat "bytes option" nat "bytes option" "bytes option"

fun crypto_step :: "platform \<Rightarrow> blake3_hasher \<Rightarrow> ossl \<Rightarrow> ossl_trace \<Rightarrow> crypto_op \<Rightarrow> ossl_trace" where
  "crypto_step p hs lib h (Op_digest alg i n out cap ol) = snd (snd (snd (rmr_crypto_digest p hs lib alg i n out cap ol h)))"
| "crypto_step p hs lib h (Op_xof alg i n out ol) = snd (snd (rmr_crypto_xof lib alg i n out ol h))"
| "crypto_step p hs lib h (Op_hmac_sha256 k kl i n out) = snd (snd (rmr_crypto_hmac_sha256 lib k kl i n out h))"
| "crypto_step p hs lib h (Op_hmac_sha512 k kl i n out) = snd (snd (rmr_crypto_hmac_sha512 lib k kl i n out h))"
| "crypto_step p hs lib h (Op_hkdf k kl s sl f fl out ol) = snd (snd (rmr_crypto_hkdf_sha256 lib k kl s sl f fl out ol h))"
| "crypto_step p hs lib h (Op_pbkdf2 w wl s sl it out ol) = snd (snd (rmr_crypto_pbkdf2_hmac_sha256 lib w wl s sl it out ol h))"
| "crypto_step p hs lib h (Op_ed25519_public s pk) = snd (snd (rmr_crypto_ed25519_public_from_seed lib s pk h))"
| "crypto_step p hs lib h (Op_ed25519_sign s m n sg) = snd (snd (rmr_crypto_ed25519_sign lib s m n sg h))"
| "crypto_step p hs lib h (Op_ed25519_verify pk m n sg) = snd (rmr_crypto_ed25519_verify lib pk m n sg h)"
| "crypto_step p hs lib h (Op_ed448_public s pk) = snd (snd (rmr_crypto_ed448_public_from_seed lib s pk h))"
| "crypto_step p hs lib h (Op_ed448_sign s m n sg) = snd (snd (rmr_crypto_ed448_sign lib s m n sg h))"
| "crypto_step p hs lib h (Op_ed448_verify pk m n sg) = snd (rmr_crypto_ed448_verify lib pk m n sg h)"
| "crypto_step p hs lib h (Op_x25519_public s pk) = snd (snd (rmr_crypto_x25519_public_from_private lib s pk h))"
| "crypto_step p hs lib h (Op_x25519_shared s pk ss) = snd (snd (rmr_crypto_x25519_shared_secret lib s pk ss h))"
| "crypto_step p hs lib h (Op_x448_public s pk) = snd (snd (rmr_crypto_x448_public_from_private lib s pk h))"
| "crypto_step p hs lib h (Op_x448_shared s pk ss) = snd (snd (rmr_crypto_x448_shared_secret lib s pk ss h))"
| "crypto_step p hs lib h (Op_encrypt alg k n aad al i il out tag) =
    snd (snd (snd (rmr_crypto_aead_encrypt lib alg k n aad al i il out tag h)))"
| "crypto_step p hs lib h (Op_decrypt alg k n aad al i il tag out) =
    snd (snd (rmr_crypto_aead_decrypt lib alg k n aad al i il tag out h))"

lemma live_step_op: "live h = Some L \<Longrightarrow> live (crypto_step p hs lib h op) = Some L"
  using live_digest live_xof live_hmac live_hkdf live_pbkdf2 live_raw_public live_sign live_verify live_shared live_encrypt live_decrypt
  by (cases op)
    (simp_all add: holds_def rmr_crypto_hmac_sha256_def rmr_crypto_hmac_sha512_def rmr_crypto_ed25519_public_from_seed_def
      rmr_crypto_ed25519_sign_def rmr_crypto_ed25519_verify_def rmr_crypto_ed448_public_from_seed_def rmr_crypto_ed448_sign_def
      rmr_crypto_ed448_verify_def rmr_crypto_x25519_public_from_private_def rmr_crypto_x25519_shared_secret_def
      rmr_crypto_x448_public_from_private_def rmr_crypto_x448_shared_secret_def)

text \<open>
  C26. No object leaks and none is misused. Whatever the library answers, over any sequence of calls of the
  programming interface with any arguments, each object that the library handed out is released exactly
  once, before the call that obtained it returns, and no call receives \<open>NULL\<close>, a released object or one of
  another kind where an object is needed.
\<close>

theorem crypto_no_leak: "live (foldl (crypto_step p hs lib) [] ops) = Some {#}"
proof -
  have "live h = Some L \<Longrightarrow> live (foldl (crypto_step p hs lib) h ops) = Some L" for h L
    by (induction ops arbitrary: h) (simp_all add: live_step_op)
  then show ?thesis by (simp add: live_def)
qed

section \<open>Accepted messages\<close>

text \<open>A call did what it was asked to: an object was made, or the result is 1; releases have no result.\<close>

definition went_well :: "ossl_call \<times> ossl_answer \<Rightarrow> bool" where
  "went_well = (\<lambda>(c, a).
     if releases c \<noteq> None then True else if acquires c \<noteq> None then a_ptr a \<noteq> 0 else a_ret a = 1)"

text \<open>What a program adds to the trace: calls that went well, in order.\<close>

definition adds :: "ossl_trace \<Rightarrow> ossl_call list \<Rightarrow> ossl_trace \<Rightarrow> bool" where
  "adds h cs h' \<longleftrightarrow> (\<exists>t. h' = h @ t \<and> map fst t = cs \<and> list_all went_well t)"

lemma adds_trans: "adds h cs h1 \<Longrightarrow> adds h1 ds h2 \<Longrightarrow> adds h (cs @ ds) h2"
  unfolding adds_def by force

lemma adds_ask: "ask lib c h = (a, h') \<Longrightarrow> went_well (c, a) \<Longrightarrow> adds h [c] h'"
  by (auto simp: ask_def adds_def Let_def)

lemma adds_all_one:
  "all_one lib cs h = (True, h') \<Longrightarrow> \<forall>c \<in> set cs. releases c = None \<and> acquires c = None \<Longrightarrow> adds h cs h'"
proof (induction lib cs h rule: all_one.induct)
  case (1 lib h)
  then show ?case by (simp add: adds_def)
next
  case (2 lib c cs h)
  obtain a h1 where a: "ask lib c h = (a, h1)" by force
  have "adds h [c] h1" using 2(2,3) a by (intro adds_ask [OF a]) (auto simp: went_well_def split: if_splits)
  moreover have "adds h1 cs h'" using 2 a by (auto split: if_splits)
  ultimately show ?case using adds_trans by fastforce
qed

lemma adds_update:
  assumes "update_with lib f input len n h = (True, bs, n', h')" "\<not> null_input input len"
    and "\<And>b. releases (f b) = None \<and> acquires (f b) = None"
  shows "adds h (if len \<noteq> 0 then [f (take len (the input))] else []) h'"
  using assms by (auto simp: update_with_def went_well_def adds_def [of h "[]"] split: if_splits prod.splits intro!: adds_ask)

definition decrypt_calls :: "nat \<Rightarrow> evp_cipher \<Rightarrow> bytes \<Rightarrow> bytes \<Rightarrow> bytes option \<Rightarrow> nat \<Rightarrow> bytes option \<Rightarrow> nat \<Rightarrow> bytes \<Rightarrow> ossl_call list" where
  "decrypt_calls ctx cipher key nonce aad aad_len ct ct_len tag =
    [EVP_DecryptInit_ex ctx (Some cipher) None None, EVP_CIPHER_CTX_set_ivlen ctx 12,
     EVP_DecryptInit_ex ctx None (Some (take 32 key)) (Some (take 12 nonce))]
    @ (if aad_len \<noteq> 0 then [EVP_DecryptUpdate ctx False (take aad_len (the aad))] else [])
    @ (if ct_len \<noteq> 0 then [EVP_DecryptUpdate ctx True (take ct_len (the ct))] else [])
    @ [EVP_CIPHER_CTX_set_tag ctx (take 16 tag), EVP_DecryptFinal_ex ctx]"

lemma decrypt_body_accepted:
  assumes "decrypt_body lib ctx cipher key nonce aad aad_len ct ct_len tag pt h = (Some (1, n), pt', h')"
    and "\<not> null_input aad aad_len" "\<not> null_input ct ct_len"
  shows "adds h (decrypt_calls ctx cipher key nonce aad aad_len ct ct_len tag) h'"
proof -
  obtain o1 h2 where o1: "all_one lib [EVP_DecryptInit_ex ctx (Some cipher) None None, EVP_CIPHER_CTX_set_ivlen ctx 12,
      EVP_DecryptInit_ex ctx None (Some (take 32 key)) (Some (take 12 nonce))] h = (o1, h2)" by force
  obtain o2 b2 n2 h3 where o2: "update_with lib (EVP_DecryptUpdate ctx False) aad aad_len 0 h2 = (o2, b2, n2, h3)"
    by (cases rule: prod_cases4)
  obtain o3 b3 n3 h4 where o3: "update_with lib (EVP_DecryptUpdate ctx True) ct ct_len n2 h3 = (o3, b3, n3, h4)"
    by (cases rule: prod_cases4)
  obtain o4 h5 where o4: "all_one lib [EVP_CIPHER_CTX_set_tag ctx (take 16 tag)] h4 = (o4, h5)" by force
  obtain a h6 where a: "ask lib (EVP_DecryptFinal_ex ctx) h5 = (a, h6)" by force
  have t: "o1" "o2" "o3" "o4" "a_ret a = 1" "h6 = h'"
    using assms(1) unfolding decrypt_body_def o1 Let_def prod.case o2 o3 o4 a by (auto split: if_splits)
  have C: "adds h2 (if aad_len \<noteq> 0 then [EVP_DecryptUpdate ctx False (take aad_len (the aad))] else []) h3"
    by (rule adds_update) (use o2 t(2) assms in simp_all)
  have D: "adds h3 (if ct_len \<noteq> 0 then [EVP_DecryptUpdate ctx True (take ct_len (the ct))] else []) h4"
    by (rule adds_update) (use o3 t(3) assms in simp_all)
  have F: "adds h5 [EVP_DecryptFinal_ex ctx] h'" using adds_ask [OF a] t(5,6) by (simp add: went_well_def)
  from adds_trans [OF adds_all_one [OF o4 [unfolded eqTrueI [OF t(4)]]] F]
  have EF: "adds h4 [EVP_CIPHER_CTX_set_tag ctx (take 16 tag), EVP_DecryptFinal_ex ctx] h'" by simp
  show ?thesis
    unfolding decrypt_calls_def
    by (rule adds_trans [OF adds_all_one [OF o1 [unfolded eqTrueI [OF t(1)]]] adds_trans [OF C adds_trans [OF D EF]]]) simp_all
qed

text \<open>
  C27. A decryption is accepted only after the library accepted it. When the result is 0, the calls made were
  exactly a new context, its cipher, the nonce length 12, the key and the nonce, the associated data, the
  whole ciphertext, the 16 bytes of the tag, the final check and the release of the context, in this order
  and each with success; so no unauthenticated message is ever reported as good. Every other outcome is
  1 or -1.
\<close>

theorem aead_decrypt_accepted:
  assumes "rmr_crypto_aead_decrypt lib alg key nonce aad aad_len ct ct_len tag pt h = (st, pt', h')"
  shows "(st = 0 \<or> st = 1 \<or> st = -1) \<and>
    (st = 0 \<longrightarrow> (\<exists>ctx cipher. rmr_cipher_for alg = Some cipher \<and> key \<noteq> None \<and> nonce \<noteq> None \<and> tag \<noteq> None \<and>
      adds h ([EVP_CIPHER_CTX_new, EVP_DecryptInit_ex ctx (Some cipher) None None, EVP_CIPHER_CTX_set_ivlen ctx 12,
           EVP_DecryptInit_ex ctx None (Some (take 32 (the key))) (Some (take 12 (the nonce)))]
        @ (if aad_len \<noteq> 0 then [EVP_DecryptUpdate ctx False (take aad_len (the aad))] else [])
        @ (if ct_len \<noteq> 0 then [EVP_DecryptUpdate ctx True (take ct_len (the ct))] else [])
        @ [EVP_CIPHER_CTX_set_tag ctx (take 16 (the tag)), EVP_DecryptFinal_ex ctx, EVP_CIPHER_CTX_free ctx]) h'))"
proof (intro conjI impI)
  show "st = 0 \<or> st = 1 \<or> st = -1"
    using assms by (auto simp: rmr_crypto_aead_decrypt_def Let_def split: if_splits prod.splits option.splits)
  assume "st = 0"
  note r = assms [unfolded this]
  have ok: "\<not> aead_arguments_bad alg key nonce aad aad_len ct ct_len pt tag"
    using r by (auto simp: rmr_crypto_aead_decrypt_def split: if_splits)
  obtain c h1 where c: "ask lib EVP_CIPHER_CTX_new h = (c, h1)" by force
  let ?ctx = "a_ptr c" and ?ci = "the (rmr_cipher_for alg)"
  obtain rc pt2 h8 where b: "decrypt_body lib ?ctx ?ci (the key) (the nonce) aad aad_len ct ct_len (the tag) (the pt) h1 = (rc, pt2, h8)"
    by (cases rule: prod_cases3)
  obtain f h9 where f: "ask lib (EVP_CIPHER_CTX_free ?ctx) h8 = (f, h9)" by force
  have nz: "?ctx \<noteq> 0" and h9: "h' = h9" and rc: "\<exists>n. rc = Some (1, n)"
    using r ok c b f by (auto simp: rmr_crypto_aead_decrypt_def Let_def split: if_splits option.splits)
  then obtain n where n: "rc = Some (1, n)" by blast
  have args: "\<not> null_input aad aad_len" "\<not> null_input ct ct_len" "rmr_cipher_for alg \<noteq> None" "key \<noteq> None" "nonce \<noteq> None" "tag \<noteq> None"
    using ok by (auto simp: aead_arguments_bad_def)
  have A: "adds h [EVP_CIPHER_CTX_new] h1" by (rule adds_ask [OF c]) (use nz in \<open>simp add: went_well_def\<close>)
  have G: "adds h8 [EVP_CIPHER_CTX_free ?ctx] h'" using adds_ask [OF f] h9 by (simp add: went_well_def)
  from adds_trans [OF A adds_trans [OF decrypt_body_accepted [OF b [unfolded n] args(1,2)] G]] args
  show "\<exists>ctx cipher. rmr_cipher_for alg = Some cipher \<and> key \<noteq> None \<and> nonce \<noteq> None \<and> tag \<noteq> None \<and>
      adds h ([EVP_CIPHER_CTX_new, EVP_DecryptInit_ex ctx (Some cipher) None None, EVP_CIPHER_CTX_set_ivlen ctx 12,
           EVP_DecryptInit_ex ctx None (Some (take 32 (the key))) (Some (take 12 (the nonce)))]
        @ (if aad_len \<noteq> 0 then [EVP_DecryptUpdate ctx False (take aad_len (the aad))] else [])
        @ (if ct_len \<noteq> 0 then [EVP_DecryptUpdate ctx True (take ct_len (the ct))] else [])
        @ [EVP_CIPHER_CTX_set_tag ctx (take 16 (the tag)), EVP_DecryptFinal_ex ctx, EVP_CIPHER_CTX_free ctx]) h'"
    by (intro exI [of _ ?ctx] exI [of _ ?ci]) (simp add: decrypt_calls_def)
qed

text \<open>A library that agrees to everything, inverts the bytes and reports how many it processed.\<close>

definition demo_ossl :: ossl where
  "demo_ossl cs = (case last cs of
     EVP_DecryptUpdate c d bs \<Rightarrow> \<lparr>a_ret = 1, a_ptr = 0, a_out = (if d then map (\<lambda>b. NOT b) bs else []), a_len = Some (int (length bs))\<rparr>
   | EVP_EncryptUpdate c d bs \<Rightarrow> \<lparr>a_ret = 1, a_ptr = 0, a_out = (if d then map (\<lambda>b. NOT b) bs else []), a_len = Some (int (length bs))\<rparr>
   | _ \<Rightarrow> \<lparr>a_ret = 1, a_ptr = 1, a_out = [], a_len = Some 0\<rparr>)"

lemma aead_decrypt_accepted_witness:
  "\<exists>h'. rmr_crypto_aead_decrypt demo_ossl RMR_CRYPTO_AES_256_GCM (Some (replicate 32 7)) (Some (replicate 12 1)) None 0
      (Some [1, 2]) 2 (Some (replicate 16 9)) (Some [0, 0, 5]) [] = (0, Some [254, 253, 5], h') \<and>
    (\<exists>ctx. adds [] [EVP_CIPHER_CTX_new, EVP_DecryptInit_ex ctx (Some EVP_aes_256_gcm) None None, EVP_CIPHER_CTX_set_ivlen ctx 12,
       EVP_DecryptInit_ex ctx None (Some (replicate 32 7)) (Some (replicate 12 1)), EVP_DecryptUpdate ctx True [1, 2],
       EVP_CIPHER_CTX_set_tag ctx (replicate 16 9), EVP_DecryptFinal_ex ctx, EVP_CIPHER_CTX_free ctx] h')"
proof -
  obtain st pt' h' where r: "rmr_crypto_aead_decrypt demo_ossl RMR_CRYPTO_AES_256_GCM (Some (replicate 32 7)) (Some (replicate 12 1)) None 0
      (Some [1, 2]) 2 (Some (replicate 16 9)) (Some [0, 0, 5]) [] = (st, pt', h')" by (cases rule: prod_cases3)
  have "st = 0" "pt' = Some [254, 253, 5]"
    using r by (auto simp: rmr_crypto_aead_decrypt_def aead_arguments_bad_def decrypt_body_def update_with_def demo_ossl_def ask_def
        Let_def rmr_cipher_for_def null_input_def INT_MAX_def len_after_def buf_write_def)
  then show ?thesis
    using r aead_decrypt_accepted [OF r] by (auto simp: rmr_cipher_for_def)
qed

text \<open>
  The length variable is shared by the associated data and the message. The library stores the number of
  authenticated bytes in it, so a message with associated data and no text of its own does not add up
  to its length: encrypting it fails, and decrypting it fails after the tag was accepted.
\<close>

lemma aead_associated_data_only_fails:
  assumes "\<And>cs ctx b. a_len (lib (cs @ [EVP_EncryptUpdate ctx False b])) = Some (int (length b))"
    and "\<And>cs ctx b. a_len (lib (cs @ [EVP_DecryptUpdate ctx False b])) = Some (int (length b))"
    and "\<And>cs ctx. a_len (lib (cs @ [EVP_EncryptFinal_ex ctx])) = Some 0"
    and "\<And>cs ctx. a_len (lib (cs @ [EVP_DecryptFinal_ex ctx])) = Some 0"
    and "0 < aad_len" "aad_len \<le> length a"
  shows "fst (rmr_crypto_aead_encrypt lib alg key nonce (Some a) aad_len pt 0 ct tag h) = -1"
    and "fst (rmr_crypto_aead_decrypt lib alg key nonce (Some a) aad_len ct 0 tag pt h) \<noteq> 0"
  using assms
  by (auto simp: rmr_crypto_aead_encrypt_def rmr_crypto_aead_decrypt_def encrypt_body_def decrypt_body_def update_with_def
      ask_def Let_def len_after_def split: if_splits prod.splits)

section \<open>The BLAKE3 provider\<close>

text \<open>
  The BLAKE3 digest of the provider is the specified hash: for valid arguments and on any platform the
  32 bytes of the hash of the input are stored at the start of the output buffer, nothing else of it
  changes, the length is 32, and the library is not called; otherwise nothing is stored and the result is -1.
\<close>

theorem crypto_blake3_digest:
  assumes "length (h_cv_stack hs) = CV_STACK_BYTES" "n < 2 ^ 64" "\<And>i. input = Some i \<Longrightarrow> n \<le> length i"
  shows "rmr_crypto_digest p hs lib RMR_CRYPTO_BLAKE3 input n out cap out_len h =
    (if out = None \<or> out_len = None \<or> cap < 32 \<or> input = None \<and> n \<noteq> 0 then (-1, out, out_len, h)
     else (0, Some (buf_write (the out) 0 (blake3_spec IV 0 (if n = 0 then [] else take n (the input)) 0 32)), Some 32, h))"
proof -
  have "blake3_hasher_finalize p (foldl (blake3_hasher_update p) (blake3_hasher_init hs) xs) 32 = blake3_spec IV 0 (concat xs) 0 32"
    if "length (concat xs) < 2 ^ 64" for xs
    unfolding blake3_hasher_finalize_def blake3_hasher_init_def using hash_updates [of IV hs xs 32 p 0 0] assms(1) that by simp
  from this [of "[]"] this [of "[take n (the input)]"] assms(2) show ?thesis
    by (auto simp: rmr_crypto_digest_def rmr_crypto_blake3_digest_def null_input_def Let_def)
qed

lemma crypto_blake3_digest_witness:
  "rmr_crypto_digest demo_platform demo_hasher demo_ossl RMR_CRYPTO_BLAKE3 (Some [1, 2, 3]) 2 (Some (replicate 40 0)) 40 (Some 0) [] =
    (0, Some (buf_write (replicate 40 0) 0 (blake3_spec IV 0 [1, 2] 0 32)), Some 32, [])"
  using crypto_blake3_digest [of demo_hasher 2 "Some [1, 2, 3]" demo_platform demo_ossl "Some (replicate 40 0)" 40 "Some 0" "[]"]
  by simp

end
