(* ===== verification/Once.thy ===== *)
theory Once
  imports Prelude
begin

text \<open>
  The once-only initialisation that \<open>rmr_hwif_bootstrap\<close> (\<open>rmr/hwif/rmr_hwif.c\<close>) and \<open>rmr_get_cpu_caps\<close>
  (\<open>rmr/hwif/detect/detect_*.c\<close>) share, as a step relation on any number of threads. A state holds the shared
  data, the atomic state byte (0: not started, 1: being initialised, 2: published) and the program counter of
  every thread; a step is one access to the shared memory. The accesses are interleaved: every read of the data
  follows an acquiring load that saw the releasing store of 2, so the weaker orders of the code allow no more.

  What the initialising thread does between its compare-and-swap and the publication is a plan: the writes to the
  shared data, in order, and the value the thread returns. The set of the possible plans is a parameter, and so
  is whether the program has a second entry that loads the state byte first (\<open>rmr_hwif_current\<close>).
\<close>

type_synonym ('d, 'r) plan = "('d \<Rightarrow> 'd) list \<times> 'r"

datatype (plugins only: code size) ('d, 'r) pc =
    Idle                            \<comment> \<open>not called yet\<close>
  | Peek                            \<comment> \<open>the load of \<open>rmr_hwif_current\<close>\<close>
  | Enter                           \<comment> \<open>the first load of the state byte\<close>
  | Try                             \<comment> \<open>the compare-and-swap\<close>
  | Probe                           \<comment> \<open>the swap succeeded: choose\<close>
  | Owner "('d \<Rightarrow> 'd) list" 'r      \<comment> \<open>the writes left and the result\<close>
  | Spin                            \<comment> \<open>the waiting loop\<close>
  | Fetch                           \<comment> \<open>the load of the data\<close>
  | Returned 'r

record ('d, 'r) once =
  shared :: 'd
  state_byte :: nat
  pcs :: "nat \<Rightarrow> ('d, 'r) pc"

definition goto :: "nat \<Rightarrow> ('d, 'r) pc \<Rightarrow> ('d, 'r) once \<Rightarrow> ('d, 'r) once" where
  "goto t p s = s\<lparr>pcs := (pcs s)(t := p)\<rparr>"

inductive once_step :: "bool \<Rightarrow> ('d, 'r) plan set \<Rightarrow> ('d \<Rightarrow> 'r) \<Rightarrow> nat \<Rightarrow> ('d, 'r) once \<Rightarrow> ('d, 'r) once \<Rightarrow> bool"
  for cur :: bool and plans :: "('d, 'r) plan set" and fetch :: "'d \<Rightarrow> 'r" and t :: nat where
  call: "pcs s t = Idle \<Longrightarrow> once_step cur plans fetch t s (goto t Enter s)"
| call_current: "cur \<Longrightarrow> pcs s t = Idle \<Longrightarrow> once_step cur plans fetch t s (goto t Peek s)"
| peek: "pcs s t = Peek \<Longrightarrow> once_step cur plans fetch t s (goto t (if state_byte s \<noteq> 2 then Enter else Fetch) s)"
| enter: "pcs s t = Enter \<Longrightarrow> once_step cur plans fetch t s (goto t (if state_byte s = 2 then Fetch else Try) s)"
| swap: "pcs s t = Try \<Longrightarrow> state_byte s = 0 \<Longrightarrow> once_step cur plans fetch t s (goto t Probe (s\<lparr>state_byte := 1\<rparr>))"
| swap_fails: "pcs s t = Try \<Longrightarrow> state_byte s \<noteq> 0 \<Longrightarrow> once_step cur plans fetch t s (goto t Spin s)"
| probe: "pcs s t = Probe \<Longrightarrow> (ws, r) \<in> plans \<Longrightarrow> once_step cur plans fetch t s (goto t (Owner ws r) s)"
| store: "pcs s t = Owner (w # ws) r \<Longrightarrow>
    once_step cur plans fetch t s (goto t (Owner ws r) (s\<lparr>shared := w (shared s)\<rparr>))"
| publish: "pcs s t = Owner [] r \<Longrightarrow> once_step cur plans fetch t s (goto t (Returned r) (s\<lparr>state_byte := 2\<rparr>))"
| spin: "pcs s t = Spin \<Longrightarrow> once_step cur plans fetch t s (goto t (if state_byte s \<noteq> 2 then Spin else Fetch) s)"
| load: "pcs s t = Fetch \<Longrightarrow> once_step cur plans fetch t s (goto t (Returned (fetch (shared s))) s)"

inductive_cases once_stepE: "once_step cur plans fetch t s s'"

text \<open>The states that \<open>n\<close> threads reach from the static initial value.\<close>

definition once_start :: "'d \<Rightarrow> ('d, 'r) once" where
  "once_start d = \<lparr>shared = d, state_byte = 0, pcs = (\<lambda>_. Idle)\<rparr>"

inductive once_run :: "bool \<Rightarrow> ('d, 'r) plan set \<Rightarrow> ('d \<Rightarrow> 'r) \<Rightarrow> nat set \<Rightarrow> ('d, 'r) once \<Rightarrow> ('d, 'r) once \<Rightarrow> bool"
  for cur :: bool and plans :: "('d, 'r) plan set" and fetch :: "'d \<Rightarrow> 'r" and T :: "nat set" where
  stop: "once_run cur plans fetch T s s"
| more: "once_run cur plans fetch T s s' \<Longrightarrow> t \<in> T \<Longrightarrow> once_step cur plans fetch t s' s'' \<Longrightarrow> once_run cur plans fetch T s s''"

lemma once_run_trans:
  "once_run cur plans fetch T b c \<Longrightarrow> once_run cur plans fetch T a b \<Longrightarrow> once_run cur plans fetch T a c"
  by (induction rule: once_run.induct) (auto intro: once_run.more)

lemma once_run_mono: "once_run cur plans fetch T a b \<Longrightarrow> T \<subseteq> U \<Longrightarrow> once_run cur plans fetch U a b"
  by (induction rule: once_run.induct) (auto intro: once_run.intros)

section \<open>The contract of the initialiser and what the protocol makes of it\<close>

fun apply_all :: "('d \<Rightarrow> 'd) list \<Rightarrow> 'd \<Rightarrow> 'd" where
  "apply_all [] d = d"
| "apply_all (w # ws) d = apply_all ws (w d)"

fun owns :: "('d, 'r) pc \<Rightarrow> bool" where
  "owns Probe = True"
| "owns (Owner ws r) = True"
| "owns _ = False"

fun before_swap :: "('d, 'r) pc \<Rightarrow> bool" where
  "before_swap Idle = True"
| "before_swap Peek = True"
| "before_swap Enter = True"
| "before_swap Try = True"
| "before_swap _ = False"

fun waits :: "('d, 'r) pc \<Rightarrow> bool" where
  "waits Fetch = False"
| "waits (Returned r) = False"
| "waits _ = True"

text \<open>The states of the protocol: before the swap, with one owner at work, and published.\<close>

definition fresh :: "'d \<Rightarrow> ('d, 'r) once \<Rightarrow> bool" where
  "fresh d s \<longleftrightarrow> state_byte s = 0 \<and> shared s = d \<and> (\<forall>t. before_swap (pcs s t))"

definition busy :: "('d, 'r) plan set \<Rightarrow> 'd \<Rightarrow> nat \<Rightarrow> ('d, 'r) once \<Rightarrow> bool" where
  "busy plans d p s \<longleftrightarrow> state_byte s = 1 \<and>
    (pcs s p = Probe \<and> shared s = d \<or>
     (\<exists>ws0 ws r. (ws0, r) \<in> plans \<and> pcs s p = Owner ws r \<and> apply_all ws (shared s) = apply_all ws0 d)) \<and>
    (\<forall>t. t \<noteq> p \<longrightarrow> waits (pcs s t) \<and> \<not> owns (pcs s t))"

definition published :: "('d, 'r) plan set \<Rightarrow> 'd \<Rightarrow> ('d, 'r) once \<Rightarrow> bool" where
  "published plans d s \<longleftrightarrow> state_byte s = 2 \<and>
    (\<exists>ws0 r. (ws0, r) \<in> plans \<and> shared s = apply_all ws0 d \<and>
      (\<forall>t. \<not> owns (pcs s t) \<and> (\<forall>r'. pcs s t = Returned r' \<longrightarrow> r' = r)))"

locale once_init =
  fixes cur :: bool
    and plans :: "('d, 'r) plan set"
    and fetch :: "'d \<Rightarrow> 'r"
    and initial :: 'd
    and longest :: nat
  assumes some_plan: "plans \<noteq> {}"
    and plan_result: "(ws, r) \<in> plans \<Longrightarrow> fetch (apply_all ws initial) = r"
    and plan_length: "(ws, r) \<in> plans \<Longrightarrow> length ws \<le> longest"
begin

abbreviation reached :: "nat set \<Rightarrow> ('d, 'r) once \<Rightarrow> bool" where
  "reached T s \<equiv> once_run cur plans fetch T (once_start initial) s"

lemma fresh_step:
  assumes "fresh initial s" "once_step cur plans fetch t s s'"
  shows "fresh initial s' \<or> busy plans initial t s'"
proof -
  have b: "before_swap (pcs s u)" for u using assms(1) by (simp add: fresh_def)
  have w: "before_swap p \<Longrightarrow> waits p \<and> \<not> owns p" for p :: "('d, 'r) pc" by (cases p) simp_all
  from assms(2) show ?thesis
    by (rule once_stepE) (use assms(1) b [of t] w [OF b] in \<open>simp_all add: fresh_def busy_def goto_def\<close>)
qed

lemma busy_step_owner:
  assumes "busy plans initial t s" "once_step cur plans fetch t s s'"
  shows "busy plans initial t s' \<or> published plans initial s'"
  using assms(2)
proof (rule once_stepE)
  fix ws r assume "s' = goto t (Owner ws r) s" "pcs s t = Probe" "(ws, r) \<in> plans"
  then show ?thesis using assms(1) by (auto simp: busy_def goto_def)
next
  fix w ws r assume "s' = goto t (Owner ws r) (s\<lparr>shared := w (shared s)\<rparr>)" "pcs s t = Owner (w # ws) r"
  then show ?thesis using assms(1) by (auto simp: busy_def goto_def)
next
  fix r assume s': "s' = goto t (Returned r) (s\<lparr>state_byte := 2\<rparr>)" "pcs s t = Owner [] r"
  then obtain ws0 where ws0: "(ws0, r) \<in> plans" "shared s = apply_all ws0 initial"
    using assms(1) by (auto simp: busy_def)
  have "waits (pcs s u) \<and> \<not> owns (pcs s u)" if "u \<noteq> t" for u using assms(1) that by (simp add: busy_def)
  then have "\<not> owns (pcs s' u) \<and> (\<forall>r'. pcs s' u = Returned r' \<longrightarrow> r' = r)" for u
    using s' by (cases "u = t") (auto simp: goto_def, metis waits.simps(2))
  moreover have "state_byte s' = 2" "shared s' = apply_all ws0 initial" using s' ws0(2) by (simp_all add: goto_def)
  ultimately have "published plans initial s'" using ws0(1) unfolding published_def by blast
  then show ?thesis ..
qed (use assms(1) in \<open>auto simp: busy_def\<close>)

lemma busy_step_other:
  assumes "busy plans initial p s" "once_step cur plans fetch t s s'" "t \<noteq> p"
  shows "busy plans initial p s'"
proof -
  have w: "waits (pcs s t) \<and> \<not> owns (pcs s t)" using assms(1,3) by (simp add: busy_def)
  from assms(2) show ?thesis
    by (rule once_stepE) (use assms(1,3) w in \<open>simp_all add: busy_def goto_def\<close>)
qed

lemma published_step:
  assumes "published plans initial s" "once_step cur plans fetch t s s'"
  shows "published plans initial s' \<and> shared s' = shared s"
proof -
  from assms(1) obtain ws0 r where p: "state_byte s = 2" "(ws0, r) \<in> plans" "shared s = apply_all ws0 initial"
    "\<And>u. \<not> owns (pcs s u)" "\<And>u r'. pcs s u = Returned r' \<Longrightarrow> r' = r" by (auto simp: published_def)
  have "fetch (shared s) = r" using p(2,3) plan_result by simp
  moreover have "\<not> owns (pcs s t)" by (rule p(4))
  ultimately have "\<not> owns (pcs s' u) \<and> (\<forall>r'. pcs s' u = Returned r' \<longrightarrow> r' = r)" for u
    using assms(2) p(1,4,5) by (elim once_stepE) (auto simp: goto_def)
  moreover have "state_byte s' = 2" "shared s' = shared s"
    using assms(2) p(1) \<open>\<not> owns (pcs s t)\<close> by (auto elim!: once_stepE simp: goto_def)
  ultimately show ?thesis using p by (auto simp: published_def)
qed

text \<open>Every reachable state is of one of the three kinds.\<close>

lemma run_kind:
  assumes "once_run cur plans fetch T a s" "a = once_start initial"
  shows "fresh initial s \<or> (\<exists>p \<in> T. busy plans initial p s) \<or> published plans initial s"
  using assms
proof (induction rule: once_run.induct)
  case (stop s)
  then show ?case by (simp add: fresh_def once_start_def)
next
  case (more a s t s')
  from more.IH [OF more.prems] consider "fresh initial s" | p where "p \<in> T" "busy plans initial p s"
    | "published plans initial s" by blast
  then show ?case
  proof cases
    case 1
    then show ?thesis using fresh_step [OF _ more.hyps(3)] more.hyps(2) by blast
  next
    case 2
    then show ?thesis
      using busy_step_owner [of p s s'] busy_step_other [OF 2(2) more.hyps(3)] more.hyps(2,3) by (cases "t = p") blast+
  next
    case 3
    then show ?thesis using published_step [OF _ more.hyps(3)] by blast
  qed
qed

lemmas reached_kind = run_kind [OF _ refl]

text \<open>All calls that return, return the same value; from the first return on, the data is the whole of one plan.\<close>

lemma returned_published: "reached T s \<Longrightarrow> pcs s t = Returned r \<Longrightarrow> published plans initial s"
  using reached_kind [of T s] by (auto simp: fresh_def busy_def) (metis before_swap.simps(9) waits.simps(2) owns.simps)+

lemma agreement:
  assumes "reached T s" "pcs s t = Returned r"
  shows "\<exists>ws. (ws, r) \<in> plans \<and> shared s = apply_all ws initial \<and> (\<forall>u r'. pcs s u = Returned r' \<longrightarrow> r' = r)"
proof -
  from returned_published [OF assms] obtain ws0 r0 where p: "(ws0, r0) \<in> plans" "shared s = apply_all ws0 initial"
    "\<And>u r'. pcs s u = Returned r' \<Longrightarrow> r' = r0" by (auto simp: published_def)
  from p(3) [OF assms(2)] have "r0 = r" ..
  with p show ?thesis by blast
qed

lemma data_fixed:
  assumes "once_run cur plans fetch U s s'" "published plans initial s"
  shows "published plans initial s' \<and> shared s' = shared s"
  using assms by (induction rule: once_run.induct) (auto dest: published_step)

text \<open>Progress: a measure that every step but a turn of the waiting loop lowers.\<close>

fun weight :: "('d, 'r) pc \<Rightarrow> nat" where
  "weight Idle = longest + 7"
| "weight Peek = longest + 6"
| "weight Enter = longest + 5"
| "weight Try = longest + 4"
| "weight Probe = longest + 3"
| "weight (Owner ws r) = length ws + 2"
| "weight Spin = 2"
| "weight Fetch = 1"
| "weight (Returned r) = 0"

definition work :: "nat set \<Rightarrow> ('d, 'r) once \<Rightarrow> nat" where
  "work T s = (\<Sum>t \<in> T. weight (pcs s t))"

lemma work_goto:
  assumes "finite T" "t \<in> T" "pcs s1 = pcs s" "weight p < weight (pcs s t)"
  shows "work T (goto t p s1) < work T s"
  unfolding work_def using assms by (intro sum_strict_mono_ex1) (auto simp: goto_def)

lemma step_work:
  assumes "once_step cur plans fetch t s s'" "finite T" "t \<in> T"
  shows "s' = s \<or> work T s' < work T s"
  using assms(1)
proof (rule once_stepE)
  assume "s' = goto t (if state_byte s \<noteq> 2 then Spin else Fetch) s" "pcs s t = Spin"
  then show ?thesis using work_goto [OF assms(2,3) refl, of Fetch] by (auto simp: goto_def fun_upd_idem)
next
  fix ws r assume "s' = goto t (Owner ws r) s" "pcs s t = Probe" "(ws, r) \<in> plans"
  then show ?thesis using work_goto [OF assms(2,3) refl, of "Owner ws r"] plan_length [of ws r] by simp
qed (use assms(2,3) in \<open>auto intro!: work_goto\<close>)

lemma weight_0: "weight p = 0 \<longleftrightarrow> (\<exists>r. p = Returned r)"
  by (cases p) simp_all

text \<open>
  Whatever has happened, some thread that has not returned can take a step that is not a turn of the waiting
  loop: the owner when there is one.
\<close>

lemma progress:
  assumes "reached T s" "finite T" "t \<in> T" "\<nexists>r. pcs s t = Returned r"
  shows "\<exists>u \<in> T. \<exists>s'. once_step cur plans fetch u s s' \<and> work T s' < work T s"
proof -
  have go: ?thesis if "u \<in> T" "once_step cur plans fetch u s s'" "pcs s u \<noteq> pcs s' u" for u s'
    using step_work [OF that(2) assms(2) that(1)] that by auto
  from reached_kind [OF assms(1)] consider "fresh initial s" | p where "p \<in> T" "busy plans initial p s"
    | "published plans initial s" by blast
  then show ?thesis
  proof cases
    case 1
    then have "before_swap (pcs s t)" "state_byte s = 0" by (simp_all add: fresh_def)
    then show ?thesis
      by (cases "pcs s t") (auto intro!: go [OF assms(3)] dest: once_step.intros simp: goto_def)
  next
    case 2
    then consider "pcs s p = Probe" | ws r where "pcs s p = Owner ws r" by (auto simp: busy_def)
    then show ?thesis
    proof cases
      case 1
      obtain ws r where "(ws, r) \<in> plans" using some_plan by auto
      from go [OF 2(1) once_step.probe [OF 1 this]] 1 show ?thesis by (simp add: goto_def)
    next
      case (2 ws r)
      show ?thesis
      proof (cases ws)
        case Nil
        from go [OF \<open>p \<in> T\<close> once_step.publish] 2 Nil show ?thesis by (simp add: goto_def)
      next
        case (Cons w ws')
        from go [OF \<open>p \<in> T\<close> once_step.store] 2 Cons show ?thesis by (simp add: goto_def)
      qed
    qed
  next
    case 3
    then have "\<not> owns (pcs s t)" "state_byte s = 2" by (auto simp: published_def)
    then show ?thesis using assms(4)
      by (cases "pcs s t") (auto intro!: go [OF assms(3)] dest: once_step.intros simp: goto_def)
  qed
qed

lemma finish:
  assumes "reached T s" "finite T"
  shows "\<exists>s'. once_run cur plans fetch T s s' \<and> (\<forall>t \<in> T. \<exists>r. pcs s' t = Returned r)"
  using assms(1)
proof (induction "work T s" arbitrary: s rule: less_induct)
  case less
  show ?case
  proof (cases "\<forall>t \<in> T. \<exists>r. pcs s t = Returned r")
    case True
    then show ?thesis by (blast intro: once_run.stop)
  next
    case False
    then obtain u s' where u: "u \<in> T" "once_step cur plans fetch u s s'" "work T s' < work T s"
      using progress [OF less.prems assms(2)] by blast
    from less.hyps [OF u(3) once_run.more [OF less.prems u(1,2)]] obtain s'' where
      "once_run cur plans fetch T s' s''" "\<forall>t \<in> T. \<exists>r. pcs s'' t = Returned r" by blast
    moreover have "once_run cur plans fetch T s s'" using u by (blast intro: once_run.intros)
    ultimately show ?thesis by (blast intro: once_run_trans)
  qed
qed

text \<open>
  The wait is not lock-free: between the swap and the publication, no run of the other threads, however long,
  makes any call return.
\<close>

lemma blocked:
  assumes "once_run cur plans fetch U s s'" "busy plans initial p s" "p \<notin> U"
  shows "busy plans initial p s'"
  using assms by (induction rule: once_run.induct) (auto intro: busy_step_other)

lemma busy_none_returned: "busy plans initial p s \<Longrightarrow> pcs s t \<noteq> Returned r"
  by (cases "t = p") (auto simp: busy_def)

end

end
