(* ===== verification/Hwif.thy ===== *)
theory Hwif
  imports Once Dispatch
begin

text \<open>
  The hardware interface: the backend tables and the bootstrap of \<open>rmr/hwif/rmr_hwif.c\<close>, and the three
  capability detectors \<open>rmr/hwif/detect/detect_x86.c\<close>, \<open>detect_aarch64.c\<close> and \<open>detect_fallback.c\<close>. Preprocessor
  macros, the answers of the processor's instructions (in the \<open>platform\<close> of \<open>Dispatch\<close> on x86) and the assembly
  routines' probes are parameters; the assembly routines themselves are names. Both initialisers run under the
  protocol of \<open>Once\<close>.
\<close>

section \<open>Backends\<close>

definition RMR_HWIF_CAP_TIME_HARDWARE :: u32 where "RMR_HWIF_CAP_TIME_HARDWARE = push_bit 0 1"
definition RMR_HWIF_CAP_CPU_ID_HARDWARE :: u32 where "RMR_HWIF_CAP_CPU_ID_HARDWARE = push_bit 1 1"
definition RMR_HWIF_CAP_RAW_WRITE_DIRECT :: u32 where "RMR_HWIF_CAP_RAW_WRITE_DIRECT = push_bit 2 1"
definition RMR_HWIF_CAP_PRIVILEGED_REGS :: u32 where "RMR_HWIF_CAP_PRIVILEGED_REGS = push_bit 3 1"

lemmas hwif_cap_defs = RMR_HWIF_CAP_TIME_HARDWARE_def RMR_HWIF_CAP_CPU_ID_HARDWARE_def
  RMR_HWIF_CAP_RAW_WRITE_DIRECT_def RMR_HWIF_CAP_PRIVILEGED_REGS_def

text \<open>The functions a table may point to: the fallbacks of the file and the assembly routines, by name.\<close>

datatype (plugins only: code size) time_fn = Fallback_time | Aarch64_time | X86_64_time | Armv7_priv_time
datatype (plugins only: code size) cpu_id_fn = Fallback_cpu_id | Aarch64_cpu_id | X86_64_cpu_id | Armv7_priv_cpu_id
datatype (plugins only: code size) write_fn = Fallback_write | Aarch64_write | X86_64_write | Armv7_user_write

record rmr_hwif_ops =
  read_time_raw :: time_fn
  read_cpu_id_raw :: cpu_id_fn
  raw_write :: write_fn
  capability_flags :: u32
  backend_name :: string

text \<open>The fallback clock: the reading and the new value of \<open>g_fallback_tick\<close>.\<close>

definition g_fallback_tick :: u64 where "g_fallback_tick = 0xC0DEC0DEC0DEC0DE"

definition fallback_time_raw :: "u64 \<Rightarrow> u64 \<times> u64" where
  "fallback_time_raw tick = (let tick = tick + 0x9E3779B97F4A7C15 in (tick, tick))"

definition fallback_cpu_id_raw :: u64 where "fallback_cpu_id_raw = 0x524D525F46414C4C"

definition fallback_raw_write :: "int \<Rightarrow> bytes \<Rightarrow> u64 \<Rightarrow> 64 word" where
  "fallback_raw_write fd buf n = n"

definition g_fallback_ops :: rmr_hwif_ops where
  "g_fallback_ops = \<lparr>read_time_raw = Fallback_time, read_cpu_id_raw = Fallback_cpu_id, raw_write = Fallback_write,
     capability_flags = 0, backend_name = ''c_fallback''\<rparr>"

definition g_aarch64_ops :: rmr_hwif_ops where
  "g_aarch64_ops = \<lparr>read_time_raw = Aarch64_time, read_cpu_id_raw = Aarch64_cpu_id, raw_write = Aarch64_write,
     capability_flags = RMR_HWIF_CAP_TIME_HARDWARE OR RMR_HWIF_CAP_CPU_ID_HARDWARE OR
       RMR_HWIF_CAP_RAW_WRITE_DIRECT OR RMR_HWIF_CAP_PRIVILEGED_REGS,
     backend_name = ''aarch64_asm''\<rparr>"

definition g_x86_64_ops :: rmr_hwif_ops where
  "g_x86_64_ops = \<lparr>read_time_raw = X86_64_time, read_cpu_id_raw = X86_64_cpu_id, raw_write = X86_64_write,
     capability_flags = RMR_HWIF_CAP_TIME_HARDWARE OR RMR_HWIF_CAP_CPU_ID_HARDWARE OR RMR_HWIF_CAP_RAW_WRITE_DIRECT,
     backend_name = ''x86_64_asm''\<rparr>"

definition g_armv7_user_ops :: rmr_hwif_ops where
  "g_armv7_user_ops = \<lparr>read_time_raw = Fallback_time, read_cpu_id_raw = Fallback_cpu_id,
     raw_write = Armv7_user_write, capability_flags = RMR_HWIF_CAP_RAW_WRITE_DIRECT,
     backend_name = ''armv7_linux_user''\<rparr>"

definition g_armv7_privileged_ops :: rmr_hwif_ops where
  "g_armv7_privileged_ops = \<lparr>read_time_raw = Armv7_priv_time, read_cpu_id_raw = Armv7_priv_cpu_id,
     raw_write = Fallback_write,
     capability_flags = RMR_HWIF_CAP_TIME_HARDWARE OR RMR_HWIF_CAP_CPU_ID_HARDWARE OR RMR_HWIF_CAP_PRIVILEGED_REGS,
     backend_name = ''armv7_privileged''\<rparr>"

lemmas ops_defs = g_fallback_ops_def g_aarch64_ops_def g_x86_64_ops_def g_armv7_user_ops_def
  g_armv7_privileged_ops_def

text \<open>The target of the build: \<open>Arm assume_privileged linux\<close>.\<close>

datatype (plugins only: code size) hwif_target = Aarch64 | X86_64 | Arm bool bool | Other_target

text \<open>What the winner of the swap selects, given the answer of the probe compiled in.\<close>

fun select_backend :: "hwif_target \<Rightarrow> u64 \<Rightarrow> rmr_hwif_ops" where
  "select_backend (Arm privileged linux) probe =
    (if privileged then if probe = 1 then g_armv7_privileged_ops else g_fallback_ops
     else if linux then if probe = 1 then g_armv7_user_ops else g_fallback_ops
     else g_fallback_ops)"
| "select_backend Aarch64 probe = (if probe = 1 then g_aarch64_ops else g_fallback_ops)"
| "select_backend X86_64 probe = (if probe = 1 then g_x86_64_ops else g_fallback_ops)"
| "select_backend Other_target probe = g_fallback_ops"

definition bootstrap_plans :: "hwif_target \<Rightarrow> (rmr_hwif_ops, rmr_hwif_ops) plan set" where
  "bootstrap_plans b = range (\<lambda>answer. let selected = select_backend b answer in ([\<lambda>g_current. selected], selected))"

type_synonym hwif_state = "(rmr_hwif_ops, rmr_hwif_ops) once"

text \<open>One step of a thread in \<open>rmr_hwif_bootstrap\<close> or \<open>rmr_hwif_current\<close>, from the static initial state.\<close>

definition hwif_step :: "hwif_target \<Rightarrow> nat \<Rightarrow> hwif_state \<Rightarrow> hwif_state \<Rightarrow> bool" where
  "hwif_step b = once_step True (bootstrap_plans b) (\<lambda>g_current. g_current)"

definition hwif_reached :: "hwif_target \<Rightarrow> nat set \<Rightarrow> hwif_state \<Rightarrow> bool" where
  "hwif_reached b T = once_run True (bootstrap_plans b) (\<lambda>g_current. g_current) T (once_start g_fallback_ops)"

interpretation hw: once_init True "bootstrap_plans b" "\<lambda>g_current. g_current" g_fallback_ops 1 for b
  by unfold_locales (auto simp: bootstrap_plans_def Let_def)

text \<open>The flags of a table say which of its operations come from the hardware.\<close>

definition flags_honest :: "rmr_hwif_ops \<Rightarrow> bool" where
  "flags_honest ops \<longleftrightarrow>
    (capability_flags ops AND RMR_HWIF_CAP_TIME_HARDWARE \<noteq> 0 \<longleftrightarrow> read_time_raw ops \<noteq> Fallback_time) \<and>
    (capability_flags ops AND RMR_HWIF_CAP_CPU_ID_HARDWARE \<noteq> 0 \<longleftrightarrow> read_cpu_id_raw ops \<noteq> Fallback_cpu_id) \<and>
    (capability_flags ops AND RMR_HWIF_CAP_RAW_WRITE_DIRECT \<noteq> 0 \<longleftrightarrow> raw_write ops \<noteq> Fallback_write)"

lemma selected_honest: "flags_honest (select_backend b answer)"
  by (cases b) (simp_all add: flags_honest_def ops_defs hwif_cap_defs)

text \<open>
  C35. However many threads call \<open>rmr_hwif_bootstrap\<close> and \<open>rmr_hwif_current\<close>, in whatever interleaving and
  whatever the probe answers, every call that has returned returned the same table: one that the build's target
  can select, now published in \<open>g_current\<close>, and whose capability flags are set exactly for the operations that
  are not the C fallbacks.
\<close>

theorem hwif_bootstrap_agrees:
  assumes "hwif_reached b T s" "pcs s t = Returned ops"
  shows "shared s = ops \<and> (\<exists>answer. ops = select_backend b answer) \<and> flags_honest ops \<and>
    (\<forall>u ops'. pcs s u = Returned ops' \<longrightarrow> ops' = ops)"
proof -
  from hw.agreement [OF assms(1) [unfolded hwif_reached_def] assms(2)] obtain ws where
    ws: "(ws, ops) \<in> bootstrap_plans b" "shared s = apply_all ws g_fallback_ops"
    "\<forall>u ops'. pcs s u = Returned ops' \<longrightarrow> ops' = ops" by blast
  then obtain answer where "ops = select_backend b answer" "ws = [\<lambda>g_current. ops]"
    by (auto simp: bootstrap_plans_def Let_def)
  with ws selected_honest [of b answer] show ?thesis by auto
qed

theorem hwif_bootstrap_agrees_witness:
  "\<exists>s ops. hwif_reached X86_64 {0, 1} s \<and> pcs s 0 = Returned ops \<and> pcs s 1 = Returned ops \<and> flags_honest ops"
proof -
  obtain s where s: "hwif_reached X86_64 {0, 1} s" "\<forall>t \<in> {0, 1}. \<exists>r. pcs s t = Returned r"
    using hw.finish [OF once_run.stop, of "{0, 1}" X86_64] by (auto simp: hwif_reached_def)
  then obtain r r' where "pcs s 0 = Returned r" "pcs s 1 = Returned r'" by auto
  with s(1) hwif_bootstrap_agrees [of X86_64 "{0, 1}" s 0 r] show ?thesis by blast
qed

text \<open>
  C36. No call waits for ever unless the scheduler lets it: from every reachable state all the threads can still
  return, and the only steps that get no nearer to that are turns of the waiting loop, which change nothing.
\<close>

theorem hwif_bootstrap_returns:
  assumes "hwif_reached b T s" "finite T"
  shows "(\<exists>s'. once_run True (bootstrap_plans b) (\<lambda>g_current. g_current) T s s' \<and>
      (\<forall>t \<in> T. \<exists>ops. pcs s' t = Returned ops)) \<and>
    (\<forall>t s'. t \<in> T \<and> hwif_step b t s s' \<longrightarrow> s' = s \<or> hw.work T s' < hw.work T s)"
  using hw.finish [OF assms(1) [unfolded hwif_reached_def] assms(2)] hw.step_work [OF _ assms(2)]
  unfolding hwif_step_def by blast

theorem hwif_bootstrap_returns_witness:
  "\<exists>s. hwif_reached (Arm False True) {0, 1, 2} s \<and> (\<exists>ops. pcs s 0 = Returned ops) \<and>
    (\<exists>ops. pcs s 1 = Returned ops) \<and> (\<exists>ops. pcs s 2 = Returned ops)"
proof -
  have "hwif_reached (Arm False True) {0, 1, 2} (once_start g_fallback_ops)"
    by (simp add: hwif_reached_def once_run.stop)
  from hwif_bootstrap_returns [OF this] show ?thesis by (auto simp: hwif_reached_def)
qed

text \<open>
  The bootstrap is not lock-free: there is a reachable state, one call in its critical section and another
  waiting, from which no run without the first thread lets any call return.
\<close>

lemma hwif_bootstrap_blocks:
  "\<exists>s. hwif_reached b {0, 1} s \<and> pcs s 0 = Probe \<and> pcs s 1 = Spin \<and>
    (\<forall>U s' t. 0 \<notin> U \<longrightarrow> once_run True (bootstrap_plans b) (\<lambda>g_current. g_current) U s s' \<longrightarrow>
      (\<nexists>ops. pcs s' t = Returned ops))"
proof -
  let ?s0 = "once_start g_fallback_ops :: hwif_state"
  let ?st = "once_step True (bootstrap_plans b) (\<lambda>g_current. g_current)"
  define s1 where "s1 = goto 1 Enter (goto 0 Enter ?s0)"
  define s2 where "s2 = goto 1 Try (goto 0 Try s1)"
  define s3 where "s3 = goto 0 Probe (s2\<lparr>state_byte := 1\<rparr>)"
  define s4 where "s4 = goto 1 Spin s3"
  note d = s1_def s2_def s3_def s4_def goto_def once_start_def
  have "?st 0 ?s0 (goto 0 Enter ?s0)" "?st 1 (goto 0 Enter ?s0) s1"
    unfolding s1_def by (rule once_step.call, simp add: goto_def once_start_def)+
  moreover have "?st 0 s1 (goto 0 Try s1)" "?st 1 (goto 0 Try s1) s2"
    using once_step.enter [of s1 0] once_step.enter [of "goto 0 Try s1" 1] by (simp_all add: d)
  moreover have "?st 0 s2 s3" "?st 1 s3 s4"
    unfolding s3_def s4_def by (rule once_step.swap once_step.swap_fails; simp add: d)+
  ultimately have r: "hwif_reached b {0, 1} s4"
    unfolding hwif_reached_def by (meson insertI1 insertI2 once_run.intros)
  have busy: "busy (bootstrap_plans b) g_fallback_ops 0 s4" by (auto simp: busy_def d)
  show ?thesis
    using r hw.blocked [OF _ busy] hw.busy_none_returned
    by (intro exI [of _ s4]) (auto simp: d, blast)
qed

section \<open>Processor capabilities\<close>

datatype (plugins only: code size) endian_macros = Little_endian | Big_endian | No_endian

record rmr_cpu_caps =
  architecture :: u32
  simd_extensions :: u32
  endianness :: u8
  register_width :: u8
  execution_mode :: u8
  reserved :: u8

definition zero_caps :: rmr_cpu_caps where
  "zero_caps = \<lparr>architecture = 0, simd_extensions = 0, endianness = 0, register_width = 0, execution_mode = 0,
     reserved = 0\<rparr>"

definition RMR_SIMD_SSE2 :: u32 where "RMR_SIMD_SSE2 = push_bit 0 1"
definition RMR_SIMD_SSE41 :: u32 where "RMR_SIMD_SSE41 = push_bit 1 1"
definition RMR_SIMD_AVX2 :: u32 where "RMR_SIMD_AVX2 = push_bit 2 1"
definition RMR_SIMD_AVX512 :: u32 where "RMR_SIMD_AVX512 = push_bit 3 1"
definition RMR_SIMD_NEON :: u32 where "RMR_SIMD_NEON = push_bit 4 1"

lemmas rmr_simd_defs = RMR_SIMD_SSE2_def RMR_SIMD_SSE41_def RMR_SIMD_AVX2_def RMR_SIMD_AVX512_def
  RMR_SIMD_NEON_def

definition endian_code :: "endian_macros \<Rightarrow> u8" where
  "endian_code e = (case e of Little_endian \<Rightarrow> 1 | Big_endian \<Rightarrow> 2 | No_endian \<Rightarrow> 0)"

text \<open>A detector is the list of its writes to the caller's structure, in order.\<close>

type_synonym caps_write = "rmr_cpu_caps \<Rightarrow> rmr_cpu_caps"

definition set_simd :: "u32 \<Rightarrow> caps_write" where
  "set_simd flag c = c\<lparr>simd_extensions := simd_extensions c OR flag\<rparr>"

definition base_writes :: "u32 \<Rightarrow> endian_macros \<Rightarrow> u8 \<Rightarrow> u8 \<Rightarrow> caps_write list" where
  "base_writes arch e width exec_mode =
    [\<lambda>c. c\<lparr>architecture := arch\<rparr>, \<lambda>c. c\<lparr>simd_extensions := 0\<rparr>, \<lambda>c. c\<lparr>endianness := endian_code e\<rparr>,
     \<lambda>c. c\<lparr>register_width := width\<rparr>, \<lambda>c. c\<lparr>execution_mode := exec_mode\<rparr>, \<lambda>c. c\<lparr>reserved := 0\<rparr>]"

definition x86_detect_writes :: "platform \<Rightarrow> endian_macros \<Rightarrow> caps_write list" where
  "x86_detect_writes p e = base_writes 1 e (if is_amd64 p then 64 else 32) 1 @
    (let (eax, ebx, ecx, edx) = cpuidex p 0 0; max_leaf = eax
     in if max_leaf < 1 then []
        else let (eax, ebx, ecx, edx) = cpuidex p 1 0
          in (if edx AND push_bit 26 1 \<noteq> 0 then [set_simd RMR_SIMD_SSE2] else []) @
             (if ecx AND push_bit 19 1 \<noteq> 0 then [set_simd RMR_SIMD_SSE41] else []) @
             (if ecx AND push_bit 27 1 \<noteq> 0 \<and> ecx AND push_bit 28 1 \<noteq> 0 then
                let xcr0 = xgetbv p
                in if xcr0 AND 6 = 6 \<and> max_leaf \<ge> 7 then
                     let (eax, ebx, ecx, edx) = cpuidex p 7 0
                     in (if ebx AND push_bit 5 1 \<noteq> 0 then [set_simd RMR_SIMD_AVX2] else []) @
                        (if ebx AND push_bit 16 1 \<noteq> 0 \<and> xcr0 AND 0xe6 = 0xe6 then [set_simd RMR_SIMD_AVX512] else [])
                   else []
              else []))"

text \<open>On AArch64: the build flags and the two system registers read when the build assumes privilege.\<close>

record aarch64_build =
  assume_privileged :: bool
  neon_macro :: bool
  id_aa64isar0 :: u64
  current_el :: u64

definition aarch64_mode :: "u64 \<Rightarrow> u8" where
  "aarch64_mode el = (let f = drop_bit 2 el AND 3 in if f = 1 then 2 else if f = 2 then 3 else if f = 3 then 4 else 1)"

definition aarch64_detect_writes :: "aarch64_build \<Rightarrow> endian_macros \<Rightarrow> caps_write list" where
  "aarch64_detect_writes a e = base_writes 2 e 64 1 @
    (if assume_privileged a then
       (if (ucast (drop_bit 20 (id_aa64isar0 a) AND 0x0f) :: u32) \<noteq> 0x0f then [set_simd RMR_SIMD_NEON] else []) @
       [\<lambda>c. c\<lparr>execution_mode := aarch64_mode (current_el a)\<rparr>]
     else if neon_macro a then [set_simd RMR_SIMD_NEON] else [])"

datatype (plugins only: code size) other_arch = Arch_arm | Arch_riscv | Arch_ppc | Arch_unknown

definition other_arch_code :: "other_arch \<Rightarrow> u32" where
  "other_arch_code a = (case a of Arch_arm \<Rightarrow> 3 | Arch_riscv \<Rightarrow> 4 | Arch_ppc \<Rightarrow> 5 | Arch_unknown \<Rightarrow> 0)"

text \<open>The structure is written in another order here.\<close>

definition fallback_detect_writes :: "other_arch \<Rightarrow> bool \<Rightarrow> nat \<Rightarrow> endian_macros \<Rightarrow> caps_write list" where
  "fallback_detect_writes a neon pointer_size e =
    [\<lambda>c. c\<lparr>architecture := other_arch_code a\<rparr>, \<lambda>c. c\<lparr>simd_extensions := 0\<rparr>] @
    (if neon then [set_simd RMR_SIMD_NEON] else []) @
    [\<lambda>c. c\<lparr>endianness := endian_code e\<rparr>, \<lambda>c. c\<lparr>register_width := of_nat (pointer_size * 8)\<rparr>,
     \<lambda>c. c\<lparr>execution_mode := 1\<rparr>, \<lambda>c. c\<lparr>reserved := 0\<rparr>]"

text \<open>\<open>rmr_detect_cpu_caps\<close> on the caller's structure, or on the null pointer.\<close>

definition rmr_detect_cpu_caps :: "caps_write list \<Rightarrow> rmr_cpu_caps option \<Rightarrow> rmr_cpu_caps option" where
  "rmr_detect_cpu_caps writes out = map_option (apply_all writes) out"

text \<open>
  \<open>rmr_get_cpu_caps\<close>: the winner of the swap runs the detector on the static structure, and every call returns
  its address.
\<close>

type_synonym caps_state = "(rmr_cpu_caps, unit) once"

definition caps_step :: "caps_write list \<Rightarrow> nat \<Rightarrow> caps_state \<Rightarrow> caps_state \<Rightarrow> bool" where
  "caps_step writes = once_step False {(writes, ())} (\<lambda>caps. ())"

definition caps_run :: "caps_write list \<Rightarrow> nat set \<Rightarrow> caps_state \<Rightarrow> caps_state \<Rightarrow> bool" where
  "caps_run writes = once_run False {(writes, ())} (\<lambda>caps. ())"

text \<open>\<open>RMR_HAS_*\<close> of \<open>rmr/include/rmr_dispatch.h\<close>, once the capabilities are there.\<close>

definition rmr_dispatch_has_simd :: "bool \<Rightarrow> rmr_cpu_caps \<Rightarrow> u32 \<Rightarrow> bool \<Rightarrow> bool" where
  "rmr_dispatch_has_simd disable_runtime_detect caps simd_bit fallback_value =
    (if disable_runtime_detect then fallback_value else simd_extensions caps AND simd_bit \<noteq> 0)"

interpretation caps: once_init False "{(writes, ())}" "\<lambda>caps. ()" zero_caps "length writes"
  for writes :: "caps_write list"
  by unfold_locales auto

text \<open>What the static structure held before a detector ran does not matter.\<close>

lemma apply_all_append: "apply_all (ws @ vs) d = apply_all vs (apply_all ws d)"
  by (induction ws arbitrary: d) simp_all

lemma base_writes_initial: "apply_all (base_writes a e w m @ ws) c = apply_all (base_writes a e w m @ ws) c'"
  by (cases c; cases c') (simp add: apply_all_append base_writes_def)

lemma fallback_writes_initial:
  "apply_all (fallback_detect_writes a neon w e) c = apply_all (fallback_detect_writes a neon w e) c'"
  by (cases c; cases c') (simp add: fallback_detect_writes_def set_simd_def)

text \<open>
  A caller of \<open>rmr_get_cpu_caps\<close> never sees a partly written structure: as soon as any call has returned, the
  structure holds the detector's whole result, whatever the order of the writes, and no further step of any
  thread changes it.
\<close>

theorem caps_never_partial:
  assumes "caps_run writes T (once_start zero_caps) s" "pcs s t = Returned ()" "caps_run writes U s s'"
  shows "Some (shared s') = rmr_detect_cpu_caps writes (Some zero_caps)"
proof -
  note r = assms(1) [unfolded caps_run_def]
  have "shared s' = shared s"
    using caps.data_fixed [OF assms(3) [unfolded caps_run_def]] caps.returned_published [OF r assms(2)] by blast
  then show ?thesis
    using caps.agreement [OF r assms(2)] by (auto simp: rmr_detect_cpu_caps_def)
qed

theorem caps_never_partial_witness:
  "\<exists>s. caps_run (x86_detect_writes demo_platform Little_endian) {0, 1} (once_start zero_caps) s \<and>
    Some (shared s) = rmr_detect_cpu_caps (x86_detect_writes demo_platform Little_endian) (Some zero_caps)"
proof -
  let ?w = "x86_detect_writes demo_platform Little_endian"
  obtain s where s: "caps_run ?w {0, 1} (once_start zero_caps) s" "\<forall>t \<in> {0, 1}. \<exists>r. pcs s t = Returned r"
    using caps.finish [OF once_run.stop, of "{0, 1}" ?w] by (auto simp: caps_run_def)
  then have "pcs s 0 = Returned ()" by simp
  from caps_never_partial [OF s(1) this, of "{0, 1}" s] s(1) show ?thesis
    by (auto simp: caps_run_def once_run.stop)
qed

section \<open>The two detectors agree\<close>

lemma detect_cpu_features_low_bits:
  assumes "cpuidex p 0 0 = (a0, b0, c0, d0)" "cpuidex p 1 0 = (a1, b1, c1, d1)"
  shows "bit (detect_cpu_features p) 0 \<longleftrightarrow> is_amd64 p \<or> d1 AND push_bit 26 1 \<noteq> 0"
    and "bit (detect_cpu_features p) 2 \<longleftrightarrow> c1 AND push_bit 19 1 \<noteq> 0"
    and "bit (detect_cpu_features p) 3 \<longleftrightarrow>
      c1 AND push_bit 27 1 \<noteq> 0 \<and> xgetbv p AND 6 = 6 \<and> c1 AND push_bit 28 1 \<noteq> 0"
proof -
  obtain a7 b7 c7 d7 where l7: "cpuidex p 7 0 = (a7, b7, c7, d7)" by (cases "cpuidex p 7 0")
  define q where "q n = (push_bit n 1 :: u32)" for n
  note d = detect_cpu_features_def feature_defs Let_def assms l7 prod.case q_def [symmetric]
  have o: "n < 32 \<Longrightarrow> bit (if c then x OR q k else x :: u32) n \<longleftrightarrow> bit x n \<or> c \<and> n = k" for c x k n
    unfolding q_def by (rule bit_feature_or)
  show "bit (detect_cpu_features p) 0 \<longleftrightarrow> is_amd64 p \<or> d1 AND push_bit 26 1 \<noteq> 0"
    unfolding d
    by (cases "c1 AND q 27 \<noteq> 0"; cases "xgetbv p AND 6 = 6"; cases "7 \<le> sint a0"; cases "xgetbv p AND 224 = 224")
      (simp_all only: if_True if_False simp_thms, simp_all add: o split del: if_split)
  show "bit (detect_cpu_features p) 2 \<longleftrightarrow> c1 AND push_bit 19 1 \<noteq> 0"
    unfolding d
    by (cases "c1 AND q 27 \<noteq> 0"; cases "xgetbv p AND 6 = 6"; cases "7 \<le> sint a0"; cases "xgetbv p AND 224 = 224")
      (simp_all only: if_True if_False simp_thms, simp_all add: o split del: if_split)
  show "bit (detect_cpu_features p) 3 \<longleftrightarrow>
      c1 AND push_bit 27 1 \<noteq> 0 \<and> xgetbv p AND 6 = 6 \<and> c1 AND push_bit 28 1 \<noteq> 0"
    unfolding d
    by (cases "c1 AND q 27 \<noteq> 0"; cases "xgetbv p AND 6 = 6"; cases "7 \<le> sint a0"; cases "xgetbv p AND 224 = 224")
      (simp_all only: if_True if_False simp_thms, simp_all add: o split del: if_split)
qed

lemma mask_e6: "x AND 0xe6 = 0xe6 \<longleftrightarrow> x AND 6 = 6 \<and> x AND 224 = 224" for x :: u64
proof -
  have "0xe6 = (6 :: u64) OR 224" by simp
  then have "x AND 0xe6 = (x AND 6) OR (x AND 224)" by (simp only: bit.conj_disj_distrib)
  moreover have "(x AND 0xe6) AND 6 = x AND 6" "(x AND 0xe6) AND 224 = x AND 224"
    by (simp_all add: and.assoc)
  ultimately show ?thesis by auto
qed

lemma simd_if: "apply_all (if b then [set_simd f] else []) c = (if b then set_simd f c else c)"
  by simp

lemma simd_set_simd: "simd_extensions (if b then set_simd f c else c) = (if b then simd_extensions c OR f else simd_extensions c)"
  by (simp add: set_simd_def)

lemma x86_caps_bits:
  assumes "cpuidex p 0 0 = (a0, b0, c0, d0)" "cpuidex p 1 0 = (a1, b1, c1, d1)" "cpuidex p 7 0 = (a7, b7, c7, d7)"
    "1 \<le> a0" "n < 32"
  shows "bit (simd_extensions (apply_all (x86_detect_writes p e) c)) n \<longleftrightarrow>
    (n = 0 \<and> d1 AND push_bit 26 1 \<noteq> 0) \<or> (n = 1 \<and> c1 AND push_bit 19 1 \<noteq> 0) \<or>
    (c1 AND push_bit 27 1 \<noteq> 0 \<and> c1 AND push_bit 28 1 \<noteq> 0 \<and> xgetbv p AND 6 = 6 \<and> 7 \<le> a0 \<and>
      ((n = 2 \<and> b7 AND push_bit 5 1 \<noteq> 0) \<or> (n = 3 \<and> b7 AND push_bit 16 1 \<noteq> 0 \<and> xgetbv p AND 0xe6 = 0xe6)))"
proof -
  define q where "q n = (push_bit n 1 :: u32)" for n
  have o: "n < 32 \<Longrightarrow> bit (if c then x OR q k else x :: u32) n \<longleftrightarrow> bit x n \<or> c \<and> n = k" for c x k n
    unfolding q_def by (rule bit_feature_or)
  have max_leaf: "\<not> a0 < 1" using assms(4) by (simp only: not_less)
  show ?thesis
    unfolding x86_detect_writes_def Let_def assms(1-3) prod.case rmr_simd_defs q_def [symmetric] if_not_P [OF max_leaf]
    by (cases "c1 AND q 27 \<noteq> 0"; cases "c1 AND q 28 \<noteq> 0"; cases "xgetbv p AND 6 = 6"; cases "7 \<le> a0")
      (simp_all only: if_True if_False simp_thms apply_all_append simd_if apply_all.simps simd_set_simd,
       use assms(5) in \<open>auto simp: o base_writes_def split del: if_split\<close>)
qed

text \<open>Bit 31 of \<open>ebx\<close> of leaf 7, the vector length extensions of AVX-512.\<close>

definition leaf7_vl :: "platform \<Rightarrow> bool" where
  "leaf7_vl p = (case cpuidex p 7 0 of (_, ebx, _, _) \<Rightarrow> ebx AND push_bit 31 1 \<noteq> 0)"

text \<open>
  C37. On an x86 processor whose highest basic leaf is at least 1 and below \<open>2\<^sup>3\<^sup>1\<close> (an ordinary one: below 1 the
  capability detector reports nothing, and from \<open>2\<^sup>3\<^sup>1\<close> on the dispatcher's signed comparison hides leaf 7) the
  capability detector and the feature detection of the BLAKE3 dispatcher compare as follows: the same answer for
  SSE4.1; AVX2 exactly when the dispatcher sees AVX and AVX2; AVX-512 exactly when it sees AVX and AVX512F, the
  foundation only; SSE2 never without the dispatcher's SSE2. The AVX-512 kernels of the dispatcher also need AVX512VL,
  which the capability does not cover: it stands for both features exactly when bit 31 of register \<open>ebx\<close> of
  leaf 7 is set as well.
\<close>

theorem x86_detectors_agree:
  assumes "1 \<le> fst (cpuidex p 0 0)" "fst (cpuidex p 0 0) < 2 ^ 31"
  shows "let caps = apply_all (x86_detect_writes p e) c; has = (\<lambda>f. rmr_dispatch_has_simd False caps f False);
      sees = (\<lambda>f. detect_cpu_features p AND f \<noteq> 0)
    in (has RMR_SIMD_SSE41 \<longleftrightarrow> sees SSE41) \<and> (has RMR_SIMD_AVX2 \<longleftrightarrow> sees AVX \<and> sees AVX2) \<and>
       (has RMR_SIMD_AVX512 \<longleftrightarrow> sees AVX \<and> sees AVX512F) \<and>
       (has RMR_SIMD_AVX512 \<and> leaf7_vl p \<longleftrightarrow> sees AVX \<and> sees AVX512F \<and> sees AVX512VL) \<and>
       (has RMR_SIMD_SSE2 \<longrightarrow> sees SSE2) \<and> \<not> has RMR_SIMD_NEON"
proof -
  obtain a0 b0 c0 d0 where l0: "cpuidex p 0 0 = (a0, b0, c0, d0)" by (cases "cpuidex p 0 0")
  obtain a1 b1 c1 d1 where l1: "cpuidex p 1 0 = (a1, b1, c1, d1)" by (cases "cpuidex p 1 0")
  obtain a7 b7 c7 d7 where l7: "cpuidex p 7 0 = (a7, b7, c7, d7)" by (cases "cpuidex p 7 0")
  have vl: "leaf7_vl p \<longleftrightarrow> b7 AND push_bit 31 1 \<noteq> 0" by (simp add: leaf7_vl_def l7)
  have a0: "1 \<le> a0" "a0 < 2 ^ 31" using assms by (simp_all add: l0)
  have u: "uint a0 < 2 ^ 31" using a0(2) by (simp add: word_less_def)
  have "- (2 ^ 31) \<le> uint a0" using uint_ge_0 [of a0] by (rule order_trans [rotated]) simp
  with u have "sint a0 = uint a0" using signed_take_bit_int_eq_self [of 31 "uint a0"] by (simp add: sint_uint)
  then have seven: "7 \<le> sint a0 \<longleftrightarrow> 7 \<le> a0" by (simp add: word_le_def)
  note low = detect_cpu_features_low_bits [OF l0 l1, folded bit_iff_and_push_bit_not_eq_0]
  note high = detect_cpu_features_bits [OF l0 l1 l7, folded bit_iff_and_push_bit_not_eq_0]
  note caps = x86_caps_bits [OF l0 l1 l7 a0(1), of _ e c, folded bit_iff_and_push_bit_not_eq_0]
  show ?thesis
    unfolding Let_def rmr_dispatch_has_simd_def if_False rmr_simd_defs feature_defs
      bit_iff_and_push_bit_not_eq_0 [symmetric] low high seven mask_e6 vl
    by (simp only: caps mask_e6) auto
qed

theorem x86_detectors_agree_witness:
  "rmr_dispatch_has_simd False (apply_all (x86_detect_writes demo_platform Little_endian) zero_caps) RMR_SIMD_AVX2 False
    \<longleftrightarrow> detect_cpu_features demo_platform AND AVX \<noteq> 0 \<and> detect_cpu_features demo_platform AND AVX2 \<noteq> 0"
  using x86_detectors_agree [of demo_platform Little_endian zero_caps] by (simp only: Let_def) (simp add: demo_platform_def)

text \<open>
  A processor with the foundation of AVX-512 but not its vector lengths: the capability is reported, and the
  dispatcher keeps away from its AVX-512 kernels.
\<close>

definition foundation_only :: platform where
  "foundation_only = demo_platform\<lparr>cpuidex := (\<lambda>leaf sub. (7, push_bit 5 1 OR push_bit 16 1,
     push_bit 9 1 OR push_bit 19 1 OR push_bit 27 1 OR push_bit 28 1, push_bit 26 1))\<rparr>"

lemma avx512_without_vector_lengths:
  "rmr_dispatch_has_simd False (apply_all (x86_detect_writes foundation_only e) c) RMR_SIMD_AVX512 False \<and>
    detect_cpu_features foundation_only AND AVX512VL = 0"
proof -
  have l: "cpuidex foundation_only a b = (7, push_bit 5 1 OR push_bit 16 1,
      push_bit 9 1 OR push_bit 19 1 OR push_bit 27 1 OR push_bit 28 1, push_bit 26 1)" for a b
    by (simp add: foundation_only_def)
  have x: "xgetbv foundation_only = 230" by (simp add: foundation_only_def demo_platform_def)
  have "bit (simd_extensions (apply_all (x86_detect_writes foundation_only e) c)) 3"
    using x86_caps_bits [OF l l l, of 3 e c] by (simp add: x)
  moreover have "\<not> bit (detect_cpu_features foundation_only) 6"
    using detect_cpu_features_bits(3) [OF l l l] by (simp add: x)
  ultimately show ?thesis
    unfolding rmr_dispatch_has_simd_def if_False AVX512VL_def RMR_SIMD_AVX512_def bit_iff_and_push_bit_not_eq_0 by blast
qed

end
