(* ===== verification/Ata.thy ===== *)
theory Ata
  imports Prelude
begin

text \<open>
  The ATA OMEGA stream of \<open>rmr/runtime/ata_omega_format.h\<close>: header and record encoding, reading a fixed
  number of bytes through a caller's read function, and the loader of the canonical and the historical
  form. \<open>unsigned long\<close> has 64 bits. The read function is a parameter: it takes its state and the number
  of bytes wanted and returns its result, the bytes it stored and its new state.
\<close>

section \<open>Encoding\<close>

definition RMR_ATA_MAGIC_SIZE :: nat where "RMR_ATA_MAGIC_SIZE = 4"
definition RMR_ATA_V1_VERSION :: u32 where "RMR_ATA_V1_VERSION = 1"
definition RMR_ATA_RECORD_SIZE :: u32 where "RMR_ATA_RECORD_SIZE = 24"
definition RMR_ATA_RECORD_COUNT :: u32 where "RMR_ATA_RECORD_COUNT = 42"
definition RMR_ATA_V1_HEADER_SIZE :: nat where "RMR_ATA_V1_HEADER_SIZE = 28"
definition RMR_ATA_FORMAT_LEGACY :: int where "RMR_ATA_FORMAT_LEGACY = 0"
definition RMR_ATA_FORMAT_V1 :: int where "RMR_ATA_FORMAT_V1 = 1"

definition rmr_ata_magic_ok :: "bytes \<Rightarrow> bool" where
  "rmr_ata_magic_ok b = (b ! 0 = of_char (CHR ''R'') \<and> b ! 1 = of_char (CHR ''F'') \<and> b ! 2 = of_char (CHR ''A'') \<and> b ! 3 = 0)"

definition rmr_ata_put_u32_le :: "u32 \<Rightarrow> bytes" where
  "rmr_ata_put_u32_le v =
    [ucast (v AND 0xff), ucast (drop_bit 8 v AND 0xff), ucast (drop_bit 16 v AND 0xff), ucast (drop_bit 24 v AND 0xff)]"

definition rmr_ata_get_u32_le :: "bytes \<Rightarrow> u32" where
  "rmr_ata_get_u32_le i =
    ucast (i ! 0) OR push_bit 8 (ucast (i ! 1)) OR push_bit 16 (ucast (i ! 2)) OR push_bit 24 (ucast (i ! 3))"

definition rmr_ata_put_u64_le :: "u64 \<Rightarrow> bytes" where
  "rmr_ata_put_u64_le v = map (\<lambda>i. ucast (drop_bit (i * 8) v AND 0xff)) [0..<8]"

definition rmr_ata_get_u64_le :: "bytes \<Rightarrow> u64" where
  "rmr_ata_get_u64_le b = foldl (\<lambda>v i. v OR push_bit (i * 8) (ucast (b ! i))) 0 [0..<8]"

definition rmr_ata_build_v1_header :: "u64 \<Rightarrow> bytes" where
  "rmr_ata_build_v1_header hw_sig =
    [of_char (CHR ''R''), of_char (CHR ''F''), of_char (CHR ''A''), 0]
    @ rmr_ata_put_u32_le RMR_ATA_V1_VERSION @ rmr_ata_put_u32_le RMR_ATA_RECORD_SIZE
    @ rmr_ata_put_u32_le RMR_ATA_RECORD_COUNT @ rmr_ata_put_u32_le 0 @ rmr_ata_put_u64_le hw_sig"

definition rmr_ata_encode_record :: "u64 \<Rightarrow> u64 \<Rightarrow> u64 \<Rightarrow> bytes" where
  "rmr_ata_encode_record k cyc par = rmr_ata_put_u64_le k @ rmr_ata_put_u64_le cyc @ rmr_ata_put_u64_le par"

definition rmr_ata_decode_record :: "bytes \<Rightarrow> u64 \<times> u64 \<times> u64" where
  "rmr_ata_decode_record i =
    (rmr_ata_get_u64_le i, rmr_ata_get_u64_le (drop 8 i), rmr_ata_get_u64_le (drop 16 i))"

definition rmr_ata_record_valid :: "u64 \<Rightarrow> u64 \<Rightarrow> bool" where
  "rmr_ata_record_valid k par = (k \<ge> 1 \<and> k \<le> ucast RMR_ATA_RECORD_COUNT \<and> par \<ge> 1 \<and> par \<le> 9)"

section \<open>Reading\<close>

type_synonym 's read_fn = "'s \<Rightarrow> nat \<Rightarrow> int \<times> bytes \<times> 's"

text \<open>Every successful call makes progress, so the loop ends whatever the read function does.\<close>

function read_loop :: "'s read_fn \<Rightarrow> 's \<Rightarrow> bytes \<Rightarrow> nat \<Rightarrow> nat \<Rightarrow> int \<times> bytes \<times> 's" where
  "read_loop rd st out len pos =
    (if pos < len then
       (case rd st (len - pos) of (got, data, st) \<Rightarrow>
          if got < 0 then (-1, out, st)
          else if got = 0 then (if pos = 0 then 0 else -1, out, st)
          else read_loop rd st (buf_write out pos data) len (pos + nat got))
     else (1, out, st))"
  by pat_completeness auto
termination by (relation "measure (\<lambda>(rd, st, out, len, pos). len - pos)") auto

declare read_loop.simps [simp del]

definition rmr_ata_read_exact :: "'s read_fn \<Rightarrow> 's \<Rightarrow> bytes \<Rightarrow> nat \<Rightarrow> int \<times> bytes \<times> 's" where
  "rmr_ata_read_exact rd st buf len = read_loop rd st buf len 0"

record ata_out =
  hw_sig_out :: u64
  arena_out :: "u64 list"
  format_out :: "int option"

text \<open>The record loops with \<open>n\<close> records left to read, \<open>loaded\<close> being the number already stored.\<close>

fun load_v1 :: "'s read_fn \<Rightarrow> 's \<Rightarrow> bytes \<Rightarrow> ata_out \<Rightarrow> nat \<Rightarrow> nat \<Rightarrow> int \<times> ata_out \<times> 's" where
  "load_v1 rd st record out loaded 0 = (int loaded, out, st)"
| "load_v1 rd st record out loaded (Suc n) =
    (case rmr_ata_read_exact rd st record (unat RMR_ATA_RECORD_SIZE) of (status, record, st) \<Rightarrow>
       if status \<noteq> 1 then (-6, out, st)
       else
         case rmr_ata_decode_record record of (k, cyc, par) \<Rightarrow>
           if \<not> rmr_ata_record_valid k par \<or> k \<noteq> of_nat (loaded + 1) then (-7, out, st)
           else load_v1 rd st record (out\<lparr>arena_out := (arena_out out)[loaded := cyc]\<rparr>) (loaded + 1) n)"

fun load_legacy :: "'s read_fn \<Rightarrow> 's \<Rightarrow> bytes \<Rightarrow> ata_out \<Rightarrow> nat \<Rightarrow> nat \<Rightarrow> int \<times> ata_out \<times> 's" where
  "load_legacy rd st record out loaded 0 = (int loaded, out, st)"
| "load_legacy rd st record out loaded (Suc n) =
    (case rmr_ata_read_exact rd st record (unat RMR_ATA_RECORD_SIZE) of (status, record, st) \<Rightarrow>
       if status = 0 then (int loaded, out, st)
       else if status < 0 then (-10, out, st)
       else
         case rmr_ata_decode_record record of (k, cyc, par) \<Rightarrow>
           if \<not> rmr_ata_record_valid k par then (-11, out, st)
           else load_legacy rd st record (out\<lparr>arena_out := (arena_out out)[loaded := cyc]\<rparr>) (loaded + 1) n)"

text \<open>The test that tells the canonical header from the start of a historical stream.\<close>

definition probe_is_v1 :: "bytes \<Rightarrow> bool" where
  "probe_is_v1 probe \<longleftrightarrow>
    rmr_ata_get_u32_le probe = RMR_ATA_V1_VERSION
    \<and> rmr_ata_get_u32_le (drop 4 probe) = RMR_ATA_RECORD_SIZE
    \<and> rmr_ata_get_u32_le (drop 8 probe) \<ge> 1
    \<and> rmr_ata_get_u32_le (drop 8 probe) \<le> RMR_ATA_RECORD_COUNT
    \<and> rmr_ata_get_u32_le (drop 12 probe) = 0"

text \<open>
  The loader; \<open>magic\<close>, \<open>probe\<close>, \<open>record\<close> and \<open>tail\<close> are the uninitialised local buffers. A missing output
  is \<open>None\<close>; \<open>format_out\<close> is \<open>None\<close> when the caller passes no pointer for it.
\<close>

definition rmr_ata_load_fd ::
  "'s read_fn option \<Rightarrow> 's \<Rightarrow> bytes \<Rightarrow> bytes \<Rightarrow> bytes \<Rightarrow> bytes \<Rightarrow> ata_out option \<Rightarrow> int \<Rightarrow> int \<times> ata_out option \<times> 's" where
  "rmr_ata_load_fd rd st magic probe record tail out cap =
    (if rd = None \<or> out = None \<or> cap \<le> 0 then (-1, out, st)
     else
       let rd = the rd; out = the out
       in case rmr_ata_read_exact rd st magic RMR_ATA_MAGIC_SIZE of (status, magic, st) \<Rightarrow>
          if status \<noteq> 1 then (-2, Some out, st)
          else if \<not> rmr_ata_magic_ok magic then (-3, Some out, st)
          else case rmr_ata_read_exact rd st probe 24 of (status, probe, st) \<Rightarrow>
            if status \<noteq> 1 then (-4, Some out, st)
            else if probe_is_v1 probe then
              let count = rmr_ata_get_u32_le (drop 8 probe)
              in if int (unat count) > cap then (-5, Some out, st)
                 else
                   let out = out\<lparr>hw_sig_out := rmr_ata_get_u64_le (drop 16 probe)\<rparr>;
                       out = out\<lparr>format_out := map_option (\<lambda>_. RMR_ATA_FORMAT_V1) (format_out out)\<rparr>
                   in (case load_v1 rd st record out 0 (unat count) of (r, out, st) \<Rightarrow> (r, Some out, st))
            else
              let out = out\<lparr>hw_sig_out := rmr_ata_get_u64_le probe\<rparr>;
                  out = out\<lparr>format_out := map_option (\<lambda>_. RMR_ATA_FORMAT_LEGACY) (format_out out)\<rparr>
              in case rmr_ata_read_exact rd st tail 8 of (status, tail, st) \<Rightarrow>
                   if status \<noteq> 1 then (-8, Some out, st)
                   else
                     let record = foldl (\<lambda>record i. record[i := probe ! (8 + i)]) record [0..<16];
                         record = foldl (\<lambda>record i. record[16 + i := tail ! i]) record [0..<8]
                     in case rmr_ata_decode_record record of (k, cyc, par) \<Rightarrow>
                          if \<not> rmr_ata_record_valid k par then (-9, Some out, st)
                          else
                            case load_legacy rd st record (out\<lparr>arena_out := (arena_out out)[0 := cyc]\<rparr>) 1 (nat cap - 1)
                            of (r, out, st) \<Rightarrow> (r, Some out, st))"

section \<open>Codec\<close>

lemma length_put [simp]: "length (rmr_ata_put_u32_le v) = 4" "length (rmr_ata_put_u64_le w) = 8"
  by (simp_all add: rmr_ata_put_u32_le_def rmr_ata_put_u64_le_def)

lemma length_header [simp]: "length (rmr_ata_build_v1_header hw) = 28"
  by (simp add: rmr_ata_build_v1_header_def)

lemma length_record [simp]: "length (rmr_ata_encode_record k c p) = 24"
  by (simp add: rmr_ata_encode_record_def)

lemma low_byte [simp]: "(ucast (v AND 0xff) :: u8) = ucast v" for v :: "'a::len word"
proof -
  have "v AND 0xff = take_bit 8 v" by (simp add: take_bit_eq_mask mask_eq_exp_minus_1)
  then show ?thesis
    by (simp only:) (rule bit_word_eqI, auto simp: bit_simps dest: bit_imp_le_length)
qed

lemma get_put_u32 [simp]: "rmr_ata_get_u32_le (rmr_ata_put_u32_le v @ rest) = v"
proof (rule bit_word_eqI)
  fix k assume "k < LENGTH(32)"
  then have "k < 8 \<or> (8 \<le> k \<and> k < 16) \<or> (16 \<le> k \<and> k < 24) \<or> (24 \<le> k \<and> k < 32)" by auto
  then show "bit (rmr_ata_get_u32_le (rmr_ata_put_u32_le v @ rest)) k = bit v k"
    unfolding rmr_ata_put_u32_le_def low_byte
    by (elim disjE conjE) (auto simp: rmr_ata_get_u32_le_def bit_simps)
qed

lemma get_u64_bit:
  "n \<le> 8 \<Longrightarrow> bit (foldl (\<lambda>v i. v OR push_bit (i * 8) (ucast (b ! i))) (0 :: u64) [0..<n]) k \<longleftrightarrow>
    k < 8 * n \<and> bit (b ! (k div 8) :: u8) (k mod 8)"
proof (induction n)
  case (Suc n)
  have u: "bit (push_bit (n * 8) (ucast (b ! n)) :: u64) k \<longleftrightarrow> 8 * n \<le> k \<and> k < 8 * n + 8 \<and> bit (b ! (k div 8)) (k mod 8)"
  proof (cases "8 * n \<le> k \<and> k < 8 * n + 8")
    case True
    then have "k div 8 = n" "k mod 8 = k - n * 8" by (auto simp: div_nat_eqI modulo_nat_def)
    moreover have "k - n * 8 < 64" using True by linarith
    ultimately show ?thesis using True Suc.prems by (simp add: bit_simps)
  next
    case False
    then consider "k < 8 * n" | "8 \<le> k - n * 8" "8 * n + 8 \<le> k" by linarith
    then show ?thesis by cases (use u8_bit_beyond [of "k - n * 8" "b ! n"] in \<open>auto simp: bit_simps\<close>)
  qed
  show ?case using Suc u by (auto simp: bit_or_iff)
qed simp

lemma get_put_u64 [simp]: "rmr_ata_get_u64_le (rmr_ata_put_u64_le v @ rest) = v"
proof (rule bit_word_eqI)
  fix k assume "k < LENGTH(64)"
  then have k: "k < 64" "k div 8 < 8" by auto
  have p: "(rmr_ata_put_u64_le v @ rest) ! (k div 8) = ucast (drop_bit (k div 8 * 8) v)"
    using k(2) by (simp add: nth_append) (simp add: rmr_ata_put_u64_le_def del: upt_rec_numeral)
  show "bit (rmr_ata_get_u64_le (rmr_ata_put_u64_le v @ rest)) k = bit v k"
    using k unfolding rmr_ata_get_u64_le_def get_u64_bit [OF order_refl] p by (simp add: bit_simps)
qed

lemma decode_encode [simp]: "rmr_ata_decode_record (rmr_ata_encode_record k c p @ rest) = (k, c, p)"
  using get_put_u64 [of p "[]"] by (simp add: rmr_ata_decode_record_def rmr_ata_encode_record_def)

section \<open>Sources\<close>

text \<open>
  What the loader relies on when it reads a file or a pipe, as for \<open>read\<close> on one: a call returns at
  least one byte and at most as many as wanted, the next of the stream, until the stream is exhausted,
  and then zero. \<open>rest\<close> is what the stream still holds in a state.
\<close>

definition byte_source :: "'s read_fn \<Rightarrow> ('s \<Rightarrow> bytes) \<Rightarrow> bool" where
  "byte_source rd rest \<longleftrightarrow>
    (\<forall>st n. 0 < n \<longrightarrow>
      (if rest st = [] then fst (rd st n) = 0 \<and> rest (snd (snd (rd st n))) = []
       else \<exists>m. 0 < m \<and> m \<le> n \<and> m \<le> length (rest st) \<and> fst (rd st n) = int m \<and>
         fst (snd (rd st n)) = take m (rest st) \<and> rest (snd (snd (rd st n))) = drop m (rest st)))"

lemma read_loop_result:
  assumes src: "byte_source rd rest" and len: "length out = len"
  shows "pos \<le> len \<Longrightarrow> \<exists>r out' st'. read_loop rd st out len pos = (r, out', st') \<and>
    (if len - pos \<le> length (rest st)
     then r = 1 \<and> out' = take pos out @ take (len - pos) (rest st) \<and> rest st' = drop (len - pos) (rest st)
     else r = (if pos = 0 \<and> rest st = [] then 0 else -1))"
  using len
proof (induction "len - pos" arbitrary: pos out st rule: less_induct)
  case less
  show ?case
  proof (cases "pos < len")
    case False
    then show ?thesis using less.prems by (simp add: read_loop.simps)
  next
    case True
    obtain got data st1 where rd: "rd st (len - pos) = (got, data, st1)" by (metis prod_cases3)
    show ?thesis
    proof (cases "rest st = []")
      case e: True
      then have "got = 0" using src rd True unfolding byte_source_def by (metis fst_conv zero_less_diff)
      then show ?thesis using True e by (simp add: read_loop.simps [of rd st] rd)
    next
      case False
      then obtain m where m: "0 < m" "m \<le> len - pos" "m \<le> length (rest st)" "got = int m"
        "data = take m (rest st)" "rest st1 = drop m (rest st)"
        using src rd True unfolding byte_source_def by (metis fst_conv snd_conv zero_less_diff)
      let ?out = "buf_write out pos data"
      have l: "length ?out = len" using m less.prems True by simp
      have t: "take (pos + m) ?out = take pos out @ take m (rest st)"
        using m less.prems True by (simp add: buf_write_def)
      have step: "read_loop rd st out len pos = read_loop rd st1 ?out len (pos + m)"
        using True m by (subst read_loop.simps) (simp add: rd)
      have "len - (pos + m) < len - pos" "pos + m \<le> len" using m True by simp_all
      from less.hyps [OF this l, of st1] obtain r out' st' where
        r: "read_loop rd st1 ?out len (pos + m) = (r, out', st')"
        "if len - (pos + m) \<le> length (rest st1)
         then r = 1 \<and> out' = take (pos + m) ?out @ take (len - (pos + m)) (rest st1) \<and>
           rest st' = drop (len - (pos + m)) (rest st1)
         else r = (if pos + m = 0 \<and> rest st1 = [] then 0 else -1)" by blast
      have c: "(len - (pos + m) \<le> length (rest st1)) = (len - pos \<le> length (rest st))"
        "len - (pos + m) + m = len - pos" "(len - (pos + m) \<le> length (rest st) - m) = (len - pos \<le> length (rest st))"
        using m by auto
      have s: "take m (rest st) @ take (len - (pos + m)) (drop m (rest st)) = take (len - pos) (rest st)"
        "drop (len - (pos + m)) (drop m (rest st)) = drop (len - pos) (rest st)"
        using m take_add [of m "len - pos - m" "rest st"] by simp_all
      show ?thesis
        using r(2) m(1) False unfolding c(1) t m(6)
        by (intro exI [of _ r] exI [of _ out'] exI [of _ st']) (simp add: step r(1) s(1) c split: if_splits)
    qed
  qed
qed

lemma read_exact_ok:
  assumes "byte_source rd rest" "length buf = len" "rest st = xs @ tl'" "length xs = len"
  shows "\<exists>st'. rmr_ata_read_exact rd st buf len = (1, xs, st') \<and> rest st' = tl'"
  using read_loop_result [OF assms(1,2), of 0 st] assms(3,4) by (auto simp: rmr_ata_read_exact_def)

lemma read_exact_end:
  assumes "byte_source rd rest" "length buf = len" "rest st = []" "0 < len"
  shows "\<exists>buf' st'. rmr_ata_read_exact rd st buf len = (0, buf', st')"
  using read_loop_result [OF assms(1,2), of 0 st] assms(3,4) by (auto simp: rmr_ata_read_exact_def)

section \<open>Loading what was written\<close>

definition records :: "nat \<Rightarrow> (u64 \<times> u64) list \<Rightarrow> bytes" where
  "records i cps = concat (map2 (\<lambda>k (c, p). rmr_ata_encode_record (of_nat k) c p) [i + 1..<i + 1 + length cps] cps)"

lemma records_Nil [simp]: "records i [] = []"
  by (simp add: records_def)

lemma records_Cons: "records i ((c, p) # cps) = rmr_ata_encode_record (of_nat (i + 1)) c p @ records (i + 1) cps"
proof -
  have "[i + 1..<i + 1 + length ((c, p) # cps)] = (i + 1) # [i + 1 + 1..<i + 1 + 1 + length cps]"
    by (subst upt_conv_Cons) simp_all
  then show ?thesis by (simp only: records_def) simp
qed

definition pars_ok :: "(u64 \<times> u64) list \<Rightarrow> bool" where
  "pars_ok cps \<longleftrightarrow> (\<forall>(c, p) \<in> set cps. 1 \<le> p \<and> p \<le> 9)"

lemma record_size [simp]: "unat RMR_ATA_RECORD_SIZE = 24"
  by (simp add: RMR_ATA_RECORD_SIZE_def)

lemma index_valid:
  assumes "i < 42" "1 \<le> p" "p \<le> 9"
  shows "rmr_ata_record_valid (of_nat (i + 1)) p"
proof -
  have "unat (of_nat (i + 1) :: u64) = i + 1" using assms(1) by (intro unat_of_nat_small) simp
  then show ?thesis
    using assms by (simp add: rmr_ata_record_valid_def word_le_nat_alt RMR_ATA_RECORD_COUNT_def)
qed

lemma load_v1_records:
  assumes "byte_source rd rest"
  shows "length rcd = 24 \<Longrightarrow> rest st = records i cps @ tl' \<Longrightarrow> pars_ok cps \<Longrightarrow> i + length cps \<le> 42 \<Longrightarrow>
    i + length cps \<le> length (arena_out out) \<Longrightarrow>
    \<exists>st'. load_v1 rd st rcd out i (length cps) =
      (int (i + length cps), out\<lparr>arena_out := buf_write (arena_out out) i (map fst cps)\<rparr>, st') \<and> rest st' = tl'"
proof (induction cps arbitrary: st rcd out i)
  case Nil
  then show ?case by simp
next
  case (Cons cp cps)
  obtain c p where cp: "cp = (c, p)" by (cases cp)
  let ?e = "rmr_ata_encode_record (of_nat (i + 1)) c p"
  have "rest st = ?e @ (records (i + 1) cps @ tl')" using Cons.prems(2) by (simp add: cp records_Cons)
  from read_exact_ok [OF assms Cons.prems(1) this] obtain st1 where
    st1: "rmr_ata_read_exact rd st rcd 24 = (1, ?e, st1)" "rest st1 = records (i + 1) cps @ tl'" by auto
  have v: "rmr_ata_record_valid (of_nat (i + 1)) p"
    using Cons.prems(3,4) by (intro index_valid) (auto simp: pars_ok_def cp)
  let ?out = "out\<lparr>arena_out := (arena_out out)[i := c]\<rparr>"
  have step: "load_v1 rd st rcd out i (length (cp # cps)) = load_v1 rd st1 ?e ?out (i + 1) (length cps)"
    using st1(1) v decode_encode [of "of_nat (i + 1)" c p "[]"] by simp
  have a: "buf_write ((arena_out out)[i := c]) (i + 1) (map fst cps) = buf_write (arena_out out) i (c # map fst cps)"
    using Cons.prems(5) by (simp add: buf_write_def take_Suc_conv_app_nth)
  obtain st' where "load_v1 rd st1 ?e ?out (i + 1) (length cps) =
      (int (i + 1 + length cps), ?out\<lparr>arena_out := buf_write (arena_out ?out) (i + 1) (map fst cps)\<rparr>, st')" "rest st' = tl'"
    using Cons.IH [OF _ st1(2), of ?e ?out] Cons.prems(3-5) by (auto simp: pars_ok_def)
  then show ?case unfolding step using a by (simp add: cp)
qed

lemma v1_probe:
  fixes hw :: u64
  defines "probe \<equiv> drop 4 (rmr_ata_build_v1_header hw)"
  shows "length probe = 24" "probe_is_v1 probe" "rmr_ata_get_u32_le (drop 8 probe) = RMR_ATA_RECORD_COUNT"
    "rmr_ata_get_u64_le (drop 16 probe) = hw"
    "rmr_ata_build_v1_header hw = take 4 (rmr_ata_build_v1_header hw) @ probe"
    "rmr_ata_magic_ok (take 4 (rmr_ata_build_v1_header hw))"
  using get_put_u32 [of 0 "rmr_ata_put_u64_le hw"] get_put_u64 [of hw "[]"]
  by (simp_all add: probe_def rmr_ata_build_v1_header_def rmr_ata_magic_ok_def probe_is_v1_def RMR_ATA_RECORD_COUNT_def)

lemma v1_stream_loads:
  assumes "byte_source rd rest"
    and "rest st = rmr_ata_build_v1_header hw @ records 0 cps @ tl'"
    and "length cps = 42" "pars_ok cps" "42 \<le> cap" "nat cap \<le> length (arena_out out)"
    and "length magic = 4" "length probe = 24" "length record = 24"
  shows "\<exists>st'. rmr_ata_load_fd (Some rd) st magic probe record tail (Some out) cap =
      (42, Some (out\<lparr>hw_sig_out := hw, arena_out := map fst cps @ drop 42 (arena_out out),
                     format_out := map_option (\<lambda>_. RMR_ATA_FORMAT_V1) (format_out out)\<rparr>), st') \<and> rest st' = tl'"
proof -
  let ?h = "rmr_ata_build_v1_header hw" and ?p = "drop 4 (rmr_ata_build_v1_header hw)"
  have "rest st = take 4 ?h @ (?p @ records 0 cps @ tl')" using assms(2) v1_probe(5) [of hw] by simp
  from read_exact_ok [OF assms(1,7) this] obtain st1 where
    st1: "rmr_ata_read_exact rd st magic 4 = (1, take 4 ?h, st1)" "rest st1 = ?p @ (records 0 cps @ tl')" by auto
  from read_exact_ok [OF assms(1,8) st1(2)] obtain st2 where
    st2: "rmr_ata_read_exact rd st1 probe 24 = (1, ?p, st2)" "rest st2 = records 0 cps @ tl'" by auto
  have "42 \<le> nat cap" using assms(5) by simp
  then have room: "42 \<le> length (arena_out out)" using assms(6) by linarith
  define o1 where "o1 = out\<lparr>hw_sig_out := hw, format_out := map_option (\<lambda>_. RMR_ATA_FORMAT_V1) (format_out out)\<rparr>"
  obtain st3 where st3: "load_v1 rd st2 record o1 0 42 =
      (42, o1\<lparr>arena_out := buf_write (arena_out o1) 0 (map fst cps)\<rparr>, st3)" "rest st3 = tl'"
    using load_v1_records [OF assms(1,9) st2(2) assms(4), of o1] assms(3) room by (auto simp: o1_def)
  have c: "unat RMR_ATA_RECORD_COUNT = 42" "uint RMR_ATA_RECORD_COUNT = 42" by (simp_all add: RMR_ATA_RECORD_COUNT_def)
  have w: "buf_write (arena_out o1) 0 (map fst cps) = map fst cps @ drop 42 (arena_out out)"
    using assms(3) by (simp add: buf_write_def o1_def)
  show ?thesis
    using assms(5) c v1_probe [of hw] st1(1) st2(1) st3 w
    by (intro exI [of _ st3]) (simp add: rmr_ata_load_fd_def Let_def RMR_ATA_MAGIC_SIZE_def o1_def)
qed

text \<open>
  A canonical stream is read back as it was written. From any source that delivers the header built for
  a hardware signature followed by the 42 encoded records, in whatever pieces, the loader returns 42,
  the signature, the 42 cycle counts in order and the V1 format, leaves the rest of the arena as it was
  and stops just after the last record.
\<close>

theorem ata_v1_round_trip:
  assumes "byte_source rd rest"
    and "rest st = rmr_ata_build_v1_header hw @ records 0 cps @ tl'"
    and "length cps = 42" "pars_ok cps" "42 \<le> cap" "nat cap \<le> length (arena_out out)"
    and "length magic = 4" "length probe = 24" "length record = 24"
  shows "\<exists>st'. rmr_ata_load_fd (Some rd) st magic probe record tail (Some out) cap =
      (42, Some (out\<lparr>hw_sig_out := hw, arena_out := map fst cps @ drop 42 (arena_out out),
                     format_out := map_option (\<lambda>_. RMR_ATA_FORMAT_V1) (format_out out)\<rparr>), st') \<and> rest st' = tl'"
  using assms by (rule v1_stream_loads)


text \<open>The historical stream, whose length is marked by its end alone.\<close>

definition legacy_stream :: "u64 \<Rightarrow> (u64 \<times> u64) list \<Rightarrow> bytes" where
  "legacy_stream hw cps = take 4 (rmr_ata_build_v1_header hw) @ rmr_ata_put_u64_le hw @ records 0 cps"

lemma load_legacy_records:
  assumes "byte_source rd rest"
  shows "length rcd = 24 \<Longrightarrow> rest st = records i cps \<Longrightarrow> pars_ok cps \<Longrightarrow> i + length cps \<le> 42 \<Longrightarrow>
    i + length cps \<le> length (arena_out out) \<Longrightarrow> length cps \<le> room \<Longrightarrow>
    \<exists>st'. load_legacy rd st rcd out i room =
      (int (i + length cps), out\<lparr>arena_out := buf_write (arena_out out) i (map fst cps)\<rparr>, st')"
proof (induction cps arbitrary: st rcd out i room)
  case Nil
  then have e: "rest st = []" by simp
  show ?case
  proof (cases room)
    case (Suc n)
    obtain b st' where "rmr_ata_read_exact rd st rcd 24 = (0, b, st')"
      using read_exact_end [OF assms Nil.prems(1) e] by auto
    then show ?thesis by (simp add: Suc)
  qed simp
next
  case (Cons cp cps)
  obtain c p where cp: "cp = (c, p)" by (cases cp)
  obtain n where n: "room = Suc n" "length cps \<le> n" using Cons.prems(6) by (cases room) auto
  let ?e = "rmr_ata_encode_record (of_nat (i + 1)) c p"
  have "rest st = ?e @ records (i + 1) cps" using Cons.prems(2) by (simp add: cp records_Cons)
  from read_exact_ok [OF assms Cons.prems(1) this] obtain st1 where
    st1: "rmr_ata_read_exact rd st rcd 24 = (1, ?e, st1)" "rest st1 = records (i + 1) cps" by auto
  have v: "rmr_ata_record_valid (of_nat (i + 1)) p"
    using Cons.prems(3,4) by (intro index_valid) (auto simp: pars_ok_def cp)
  let ?out = "out\<lparr>arena_out := (arena_out out)[i := c]\<rparr>"
  have step: "load_legacy rd st rcd out i room = load_legacy rd st1 ?e ?out (i + 1) n"
    using st1(1) v decode_encode [of "of_nat (i + 1)" c p "[]"] by (simp add: n)
  have a: "buf_write ((arena_out out)[i := c]) (i + 1) (map fst cps) = buf_write (arena_out out) i (c # map fst cps)"
    using Cons.prems(5) by (simp add: buf_write_def take_Suc_conv_app_nth)
  obtain st' where "load_legacy rd st1 ?e ?out (i + 1) n =
      (int (i + 1 + length cps), ?out\<lparr>arena_out := buf_write (arena_out ?out) (i + 1) (map fst cps)\<rparr>, st')"
    using Cons.IH [OF _ st1(2), of ?e ?out n] Cons.prems(3-5) n by (auto simp: pars_ok_def)
  then show ?case unfolding step using a by (simp add: cp)
qed

lemma copy_record:
  assumes "length r = 24" "length a = 16" "length b = 8"
  shows "foldl (\<lambda>r i. r[16 + i := b ! i]) (foldl (\<lambda>r i. r[i := a ! i]) r [0..<16]) [0..<8] = a @ b"
proof -
  have 1: "n \<le> 16 \<Longrightarrow> foldl (\<lambda>r i. r[i := a ! i]) r [0..<n] = take n a @ drop n r" for n
  proof (induction n)
    case (Suc n)
    then have "n < length a" "n < length r" using assms by simp_all
    then show ?case using Suc by (simp add: list_update_append take_Suc_conv_app_nth Cons_nth_drop_Suc [symmetric])
  qed simp
  have 2: "n \<le> 8 \<Longrightarrow> foldl (\<lambda>r i. r[16 + i := b ! i]) (a @ drop 16 r) [0..<n] = a @ take n b @ drop (16 + n) r" for n
  proof (induction n)
    case (Suc n)
    then have "n < length b" "16 + n < length r" using assms by simp_all
    then show ?case
      using Suc assms(2) by (simp add: list_update_append take_Suc_conv_app_nth Cons_nth_drop_Suc [symmetric])
  qed simp
  show ?thesis
    using 1 [of 16] 2 [of 8] assms by (simp del: upt_rec_numeral)
qed

section \<open>Bounds\<close>

text \<open>What the record loops keep, however the read function behaves.\<close>

definition stored :: "nat \<Rightarrow> ata_out \<Rightarrow> ata_out \<Rightarrow> bool" where
  "stored n o1 o2 \<longleftrightarrow> length (arena_out o2) = length (arena_out o1) \<and> drop n (arena_out o2) = drop n (arena_out o1)"

lemma stored_refl [simp]: "stored n o1 o1"
  by (simp add: stored_def)

lemma stored_mono: "stored n o1 o2 \<Longrightarrow> n \<le> m \<Longrightarrow> stored m o1 o2"
  unfolding stored_def by (metis drop_drop le_add_diff_inverse2)

lemma stored_update: "stored n (o1\<lparr>arena_out := (arena_out o1)[i := c]\<rparr>) o2 \<Longrightarrow> i < n \<Longrightarrow> stored n o1 o2"
  by (simp add: stored_def)

lemma load_v1_stored:
  "load_v1 rd st rcd out i n = (r, o', st') \<Longrightarrow> (r = int (i + n) \<or> r \<in> {-6, -7}) \<and> stored (i + n) out o'"
proof (induction n arbitrary: st rcd out i)
  case (Suc n)
  obtain s r1 st1 where rd: "rmr_ata_read_exact rd st rcd 24 = (s, r1, st1)" by (metis prod_cases3)
  obtain k c p where d: "rmr_ata_decode_record r1 = (k, c, p)" by (metis prod_cases3)
  show ?case
  proof (cases "s = 1 \<and> rmr_ata_record_valid k p \<and> k = of_nat (i + 1)")
    case True
    then have "load_v1 rd st1 r1 (out\<lparr>arena_out := (arena_out out)[i := c]\<rparr>) (i + 1) n = (r, o', st')"
      using Suc.prems by (auto simp: rd d)
    from Suc.IH [OF this] show ?thesis using stored_update [of "Suc (i + n)" out i c o'] by auto
  next
    case False
    then show ?thesis using Suc.prems by (auto simp: rd d split: if_splits)
  qed
qed auto

lemma load_legacy_stored:
  "load_legacy rd st rcd out i n = (r, o', st') \<Longrightarrow>
    (int i \<le> r \<and> r \<le> int (i + n) \<and> stored (nat r) out o' \<or> r \<in> {-10, -11}) \<and> stored (i + n) out o'"
proof (induction n arbitrary: st rcd out i)
  case (Suc n)
  obtain s r1 st1 where rd: "rmr_ata_read_exact rd st rcd 24 = (s, r1, st1)" by (metis prod_cases3)
  obtain k c p where d: "rmr_ata_decode_record r1 = (k, c, p)" by (metis prod_cases3)
  show ?case
  proof (cases "s > 0 \<and> rmr_ata_record_valid k p")
    case True
    then have "load_legacy rd st1 r1 (out\<lparr>arena_out := (arena_out out)[i := c]\<rparr>) (i + 1) n = (r, o', st')"
      using Suc.prems by (simp add: rd d)
    from Suc.IH [OF this] show ?thesis
      using stored_update [of "Suc (i + n)" out i c o'] stored_update [of "nat r" out i c o'] by auto
  next
    case False
    then show ?thesis using Suc.prems by (auto simp: rd d split: if_splits)
  qed
qed auto

text \<open>A pipe that hands out the stream at most \<open>m\<close> bytes at a time.\<close>

definition pipe :: "nat \<Rightarrow> bytes read_fn" where
  "pipe m st n = (int (min m (min n (length st))), take (min m (min n (length st))) st, drop (min m (min n (length st))) st)"

lemma pipe_source: "0 < m \<Longrightarrow> byte_source (pipe m) (\<lambda>st. st)"
  by (auto simp: byte_source_def pipe_def intro!: exI [of _ "min m (min _ (length _))"])

lemma ata_v1_round_trip_witness:
  defines "cps \<equiv> replicate 42 (123, 9)"
  shows "\<exists>st'. rmr_ata_load_fd (Some (pipe 5)) (rmr_ata_build_v1_header 7 @ records 0 cps @ [1, 2])
      (replicate 4 0) (replicate 24 0) (replicate 24 0) (replicate 8 0)
      (Some \<lparr>hw_sig_out = 0, arena_out = replicate 64 0, format_out = None\<rparr>) 64 =
    (42, Some \<lparr>hw_sig_out = 7, arena_out = replicate 42 123 @ replicate 22 0, format_out = None\<rparr>, st') \<and> st' = [1, 2]"
  using ata_v1_round_trip [of "pipe 5" "\<lambda>st. st" "rmr_ata_build_v1_header 7 @ records 0 cps @ [1, 2]" 7 cps "[1, 2]" 64
      "\<lparr>hw_sig_out = 0, arena_out = replicate 64 0, format_out = None\<rparr>" "replicate 4 0" "replicate 24 0" "replicate 24 0"
      "replicate 8 0"] pipe_source [of 5]
  by (simp add: cps_def pars_ok_def)

text \<open>What the loader may leave: an error and at most \<open>cap\<close> slots written, or a count and that many.\<close>

definition confined :: "int \<Rightarrow> ata_out \<Rightarrow> int \<Rightarrow> ata_out option \<Rightarrow> bool" where
  "confined cap out r out' \<longleftrightarrow>
    (\<exists>o'. out' = Some o' \<and> (r \<in> {-11..-2} \<or> 1 \<le> r \<and> r \<le> cap \<and> stored (nat r) out o') \<and> stored (nat cap) out o')"

lemma confined_v1:
  assumes "load_v1 rd st record out 0 n = (r, out', st')" "Suc 0 \<le> n" "\<not> cap < int n"
  shows "confined cap out r (Some out')"
  using load_v1_stored [OF assms(1)] stored_mono [of n out out' "nat cap"] assms(2,3) by (auto simp: confined_def)

lemma confined_legacy:
  assumes "load_legacy rd st record (out\<lparr>arena_out := (arena_out out)[0 := c]\<rparr>) 1 (nat cap - 1) = (r, out', st')" "0 < cap"
  shows "confined cap out r (Some out')"
  using load_legacy_stored [OF assms(1)] stored_update [of "nat r" out 0 c out'] stored_update [of "nat cap" out 0 c out'] assms(2)
  by (auto simp: confined_def of_nat_diff)

lemma confined_error:
  assumes "r \<in> {-11..-2}"
  shows "confined cap out r (Some out)" "confined cap out r (Some (out\<lparr>hw_sig_out := hw, format_out := f\<rparr>))"
  using assms by (simp_all add: confined_def stored_def)

lemma confined_fields:
  "confined cap (out\<lparr>hw_sig_out := hw, format_out := f\<rparr>) r out' = confined cap out r out'"
  by (simp add: confined_def stored_def)

lemma confined_legacy_fields:
  assumes "load_legacy rd st record (out\<lparr>hw_sig_out := hw, format_out := f, arena_out := (arena_out out)[0 := c]\<rparr>)
      (Suc 0) (nat cap - Suc 0) = (r, out', st')" "0 < cap"
  shows "confined cap out r (Some out')"
  using confined_legacy [of rd st "record" "out\<lparr>hw_sig_out := hw, format_out := f\<rparr>" c cap r out' st'] assms
  by (simp add: confined_fields)

text \<open>
  C21. Whatever its read function does, the loader ends with an error code or a number of records between
  one and the capacity, and it stores into the arena below the capacity only; when it succeeds it stored
  nothing past the records it counts.
\<close>

theorem ata_load_confined:
  assumes "rmr_ata_load_fd (Some rd) st magic probe record tail (Some out) cap = (r, out', st')" "0 < cap"
  shows "\<exists>o'. out' = Some o' \<and> (r \<in> {-11..-2} \<or> 1 \<le> r \<and> r \<le> cap \<and> stored (nat r) out o') \<and> stored (nat cap) out o'"
proof -
  obtain s1 m st1 where 1: "rmr_ata_read_exact rd st magic 4 = (s1, m, st1)" by (metis prod_cases3)
  obtain s2 p st2 where 2: "rmr_ata_read_exact rd st1 probe 24 = (s2, p, st2)" by (metis prod_cases3)
  obtain s3 t st3 where 3: "rmr_ata_read_exact rd st2 tail 8 = (s3, t, st3)" by (metis prod_cases3)
  note defs = rmr_ata_load_fd_def Let_def RMR_ATA_MAGIC_SIZE_def
  have "confined cap out r out'"
  proof (cases "s1 = 1 \<and> rmr_ata_magic_ok m \<and> s2 = 1")
    case False
    then show ?thesis using assms by (auto simp: defs 1 2 confined_error split: if_splits)
  next
    case ok: True
    show ?thesis
    proof (cases "probe_is_v1 p")
      case True
      define n where "n = unat (rmr_ata_get_u32_le (drop 8 p))"
      have "1 \<le> n" using True by (simp add: probe_is_v1_def word_le_nat_alt n_def)
      moreover have u: "uint (rmr_ata_get_u32_le (drop 8 p)) = int n" by (simp add: n_def)
      ultimately show ?thesis
        using assms ok True by (auto simp: defs 1 2 n_def [symmetric] u confined_fields
          intro!: confined_error dest: confined_v1 split: if_splits prod.splits)
    next
      case False
      then show ?thesis
        using assms ok by (auto simp: defs 1 2 3 confined_fields simp del: upt_rec_numeral
          intro!: confined_error dest: confined_legacy_fields split: if_splits prod.splits)
    qed
  qed
  then show ?thesis by (simp add: confined_def)
qed

lemma put_u64_halves:
  "rmr_ata_put_u64_le v = rmr_ata_put_u32_le (ucast v) @ rmr_ata_put_u32_le (ucast (drop_bit 32 v))"
proof -
  have u: "[0..<8] = [0, 1, 2, 3, 4, 5, 6, 7 :: nat]" by (simp add: upt_rec)
  have b: "(ucast (drop_bit k (ucast w :: u32)) :: u8) = ucast (drop_bit k w)" if "k \<le> 24" for k and w :: u64
    using that by (intro bit_word_eqI) (auto simp: bit_simps)
  show ?thesis
    unfolding rmr_ata_put_u64_le_def u low_byte rmr_ata_put_u32_le_def
    using b [of 0 v] b [of 0 "drop_bit 32 v"] by (simp add: b)
qed

text \<open>With a first record, only one signature reads as a canonical header.\<close>

lemma probe_v1_signature:
  assumes "probe_is_v1 (rmr_ata_put_u64_le hw @ rmr_ata_put_u64_le 1 @ xs)"
  shows "hw = 0x1800000001"
proof -
  have lo: "(ucast hw :: u32) = 1" and hi: "(ucast (drop_bit 32 hw) :: u32) = 24"
    using assms get_put_u32 [of "ucast hw" "rmr_ata_put_u32_le (ucast (drop_bit 32 hw)) @ rmr_ata_put_u64_le 1 @ xs"]
      get_put_u32 [of "ucast (drop_bit 32 hw)" "rmr_ata_put_u64_le 1 @ xs"]
    unfolding probe_is_v1_def put_u64_halves [of hw]
    by (auto simp: RMR_ATA_V1_VERSION_def RMR_ATA_RECORD_SIZE_def)
  have "hw = ucast (ucast hw :: u32) OR push_bit 32 (ucast (ucast (drop_bit 32 hw) :: u32))"
    by (rule bit_word_eqI) (auto simp: bit_simps)
  then show ?thesis unfolding lo hi by simp
qed

text \<open>
  A historical stream, which carries no count, is read back too: from any source that delivers the
  magic, the signature and at least one but no more records than the capacity and then ends, the loader
  returns the number of records, the signature, the cycle counts and the legacy format. It needs the
  signature and the first record not to look like a canonical header.
\<close>

theorem ata_legacy_round_trip:
  assumes "byte_source rd rest" "rest st = legacy_stream hw ((c, p) # cps)" "pars_ok ((c, p) # cps)"
    and "length cps < 42" "1 + int (length cps) \<le> cap" "nat cap \<le> length (arena_out out)"
    and "\<not> (hw = 0x1800000001)"
    and "length magic = 4" "length probe = 24" "length record = 24" "length tail = 8"
  shows "\<exists>st'. rmr_ata_load_fd (Some rd) st magic probe record tail (Some out) cap =
      (1 + int (length cps), Some (out\<lparr>hw_sig_out := hw,
         arena_out := c # map fst cps @ drop (1 + length cps) (arena_out out),
         format_out := map_option (\<lambda>_. RMR_ATA_FORMAT_LEGACY) (format_out out)\<rparr>), st')"
proof -
  let ?h = "take 4 (rmr_ata_build_v1_header hw)"
  let ?p = "rmr_ata_put_u64_le hw @ rmr_ata_put_u64_le 1 @ rmr_ata_put_u64_le c"
  let ?e = "rmr_ata_encode_record 1 c p"
  have "rest st = ?h @ (?p @ (rmr_ata_put_u64_le p @ records 1 cps))"
    using assms(2) records_Cons [of 0 c p cps] by (simp add: legacy_stream_def rmr_ata_encode_record_def)
  from read_exact_ok [OF assms(1) assms(8) this] obtain st1 where
    st1: "rmr_ata_read_exact rd st magic 4 = (1, ?h, st1)" "rest st1 = ?p @ (rmr_ata_put_u64_le p @ records 1 cps)" by auto
  from read_exact_ok [OF assms(1) assms(9) st1(2)] obtain st2 where
    st2: "rmr_ata_read_exact rd st1 probe 24 = (1, ?p, st2)" "rest st2 = rmr_ata_put_u64_le p @ records 1 cps" by auto
  from read_exact_ok [OF assms(1) assms(11) st2(2)] obtain st3 where
    st3: "rmr_ata_read_exact rd st2 tail 8 = (1, rmr_ata_put_u64_le p, st3)" "rest st3 = records 1 cps" by auto
  have rcd: "foldl (\<lambda>r i. r[16 + i := rmr_ata_put_u64_le p ! i]) (foldl (\<lambda>r i. r[i := ?p ! (8 + i)]) record [0..<16]) [0..<8] = ?e"
    using copy_record [of "record" "rmr_ata_put_u64_le 1 @ rmr_ata_put_u64_le c" "rmr_ata_put_u64_le p"] assms(10)
    by (simp add: rmr_ata_encode_record_def nth_append del: upt_rec_numeral)
  define o1 where "o1 = out\<lparr>hw_sig_out := hw, format_out := map_option (\<lambda>_. RMR_ATA_FORMAT_LEGACY) (format_out out),
      arena_out := (arena_out out)[0 := c]\<rparr>"
  have room: "1 + length cps \<le> length (arena_out out)" "length cps \<le> nat cap - 1" using assms(5,6) by linarith+
  obtain st4 where st4: "load_legacy rd st3 ?e o1 1 (nat cap - 1) =
      (int (1 + length cps), o1\<lparr>arena_out := buf_write (arena_out o1) 1 (map fst cps)\<rparr>, st4)"
    using load_legacy_records [OF assms(1) _ st3(2), of ?e o1 "nat cap - 1"] assms(3,4) room by (auto simp: pars_ok_def o1_def)
  have w: "buf_write (arena_out o1) 1 (map fst cps) = c # map fst cps @ drop (1 + length cps) (arena_out out)"
    using room(1) by (cases "arena_out out") (simp_all add: buf_write_def o1_def)
  have v: "rmr_ata_record_valid 1 p" using index_valid [of 0 p] assms(3) by (simp add: pars_ok_def)
  have n: "\<not> probe_is_v1 ?p" using assms(7) probe_v1_signature by blast
  show ?thesis
    using assms(5) v1_probe(6) [of hw] st1(1) st2(1) st3(1) st4 w v n rcd decode_encode [of 1 c p "[]"]
    by (intro exI [of _ st4]) (simp add: rmr_ata_load_fd_def Let_def RMR_ATA_MAGIC_SIZE_def o1_def del: upt_rec_numeral)
qed

lemma ata_legacy_round_trip_witness:
  defines "cps \<equiv> [(123, 9), (45, 1)]"
  shows "\<exists>st'. rmr_ata_load_fd (Some (pipe 5)) (legacy_stream 7 cps)
      (replicate 4 0) (replicate 24 0) (replicate 24 0) (replicate 8 0)
      (Some \<lparr>hw_sig_out = 0, arena_out = replicate 4 0, format_out = Some 5\<rparr>) 3 =
    (2, Some \<lparr>hw_sig_out = 7, arena_out = 123 # 45 # replicate 2 0, format_out = Some 0\<rparr>, st')"
  using ata_legacy_round_trip [of "pipe 5" "\<lambda>st. st" "legacy_stream 7 cps" 7 123 9 "[(45, 1)]" 3
      "\<lparr>hw_sig_out = 0, arena_out = replicate 4 0, format_out = Some 5\<rparr>" "replicate 4 0" "replicate 24 0" "replicate 24 0"
      "replicate 8 0"] pipe_source [of 5]
  by (simp add: cps_def pars_ok_def RMR_ATA_FORMAT_LEGACY_def)

lemma ata_load_confined_witness:
  "\<exists>o'. (\<exists>r st'. rmr_ata_load_fd (Some (pipe 5)) [] (replicate 4 0) (replicate 24 0) (replicate 24 0) (replicate 8 0)
      (Some \<lparr>hw_sig_out = 0, arena_out = replicate 4 0, format_out = None\<rparr>) 3 = (r, Some o', st')
      \<and> (r \<in> {-11..-2} \<or> 1 \<le> r \<and> r \<le> 3))"
proof -
  let ?c = "rmr_ata_load_fd (Some (pipe 5)) [] (replicate 4 0) (replicate 24 0) (replicate 24 0) (replicate 8 0)
      (Some \<lparr>hw_sig_out = 0, arena_out = replicate 4 0, format_out = None\<rparr>) 3"
  obtain r o1 st' where "?c = (r, o1, st')" by (metis prod_cases3)
  with ata_load_confined [OF this] show ?thesis by auto
qed

text \<open>
  The signature excluded above is read as a canonical header: the historical stream of one record it
  starts is refused.
\<close>

lemma legacy_read_as_v1:
  "fst (rmr_ata_load_fd (Some (pipe 24)) (legacy_stream 0x1800000001 [(123, 9)])
      (replicate 4 0) (replicate 24 0) (replicate 24 0) (replicate 8 0)
      (Some \<lparr>hw_sig_out = 0, arena_out = replicate 4 0, format_out = None\<rparr>) 3) = -6"
  by code_simp

end
