(* ===== verification/Integers.thy ===== *)
theory Integers
  imports Prelude "HOL-Library.Signed_Division"
begin

text \<open>
  The integer tools of the \<open>pai\<close> program: the prime neighbours of \<open>rmr/core/base_prime.c\<close>, the discrete gate
  of \<open>rmr/core/validate_core.c\<close> and the number formatting of \<open>rmr/core/base.c\<close>. Signed C integers are
  integers: the theorems bound every intermediate value, and the one expression that may leave its type
  gives \<open>None\<close>. Division and remainder truncate in C, which is \<open>div\<close> and \<open>mod\<close> where no operand is negative and
  \<open>smod\<close> elsewhere.
\<close>

section \<open>Prime neighbours\<close>

definition INT64_MAX :: int where "INT64_MAX = 2 ^ 63 - 1"

function prime_loop :: "int \<Rightarrow> int \<Rightarrow> bool" where
  "prime_loop x d = (if d \<le> x div d then if x mod d = 0 then False else prime_loop x (d + 2) else True)"
  by auto

text \<open>A divisor that passes the test of the loop is at most \<open>x\<close>.\<close>

lemma le_div_self: "d \<le> x div d \<Longrightarrow> d < max x 0 + 2" for d x :: int
proof (cases "0 < d")
  case True
  assume "d \<le> x div d"
  then have "d * d \<le> d * (x div d)" using True by (simp add: mult_left_mono)
  also have "\<dots> \<le> x" using mult_div_mod_eq [of d x] pos_mod_sign [OF True, of x] by linarith
  finally have "d * d \<le> x" .
  moreover have "1 * d \<le> d * d" using True by (intro mult_right_mono) auto
  ultimately show ?thesis by linarith
qed simp

termination prime_loop
  by (relation "measure (\<lambda>(x, d). nat (max x 0 + 2 - d))") (auto dest: le_div_self)

declare prime_loop.simps [simp del]

definition is_prime_i64 :: "int \<Rightarrow> bool" where
  "is_prime_i64 x = (if x < 2 then False else if x mod 2 = 0 then x = 2 else prime_loop x 3)"

function prev_prime_loop :: "int \<Rightarrow> int" where
  "prev_prime_loop x = (if x \<ge> 2 then if is_prime_i64 x then x else prev_prime_loop (x - 1) else -1)"
  by auto
termination by (relation "measure nat") auto

declare prev_prime_loop.simps [simp del]

definition pai_prev_prime :: "int \<Rightarrow> int" where
  "pai_prev_prime n = (if n \<le> 2 then -1 else prev_prime_loop (n - 1))"

text \<open>This loop has no bound of its own: not returning is \<open>None\<close>.\<close>

partial_function (option) next_prime_loop :: "int \<Rightarrow> int option" where
  "next_prime_loop x =
    (if is_prime_i64 x then Some x else if x = INT64_MAX then Some (-1) else next_prime_loop (x + 1))"

definition pai_next_prime :: "int \<Rightarrow> int option" where
  "pai_next_prime n = (if n = INT64_MAX then Some (-1) else next_prime_loop (if n < 2 then 2 else n + 1))"

definition prime_int :: "int \<Rightarrow> bool" where
  "prime_int x \<longleftrightarrow> 2 \<le> x \<and> (\<forall>d. 2 \<le> d \<and> d < x \<longrightarrow> \<not> d dvd x)"

lemma le_div_iff: "0 < d \<Longrightarrow> d \<le> x div d \<longleftrightarrow> d * d \<le> x" for d x :: int
proof
  assume d: "0 < d" "d \<le> x div d"
  then have "d * d \<le> d * (x div d)" by (simp add: mult_left_mono)
  also have "\<dots> \<le> x" using mult_div_mod_eq [of d x] pos_mod_sign [OF d(1), of x] by linarith
  finally show "d * d \<le> x" .
next
  assume d: "0 < d" "d * d \<le> x"
  then have "(d * d) div d \<le> x div d" by (intro zdiv_mono1) auto
  then show "d \<le> x div d" using d by simp
qed

lemma prime_loop_iff:
  "0 < d \<Longrightarrow> odd d \<Longrightarrow> prime_loop x d \<longleftrightarrow> (\<forall>e. d \<le> e \<and> odd e \<and> e * e \<le> x \<longrightarrow> \<not> e dvd x)"
proof (induction x d rule: prime_loop.induct)
  case (1 x d)
  note d = "1.prems"
  show ?case
  proof (cases "d * d \<le> x")
    case False
    then have "\<not> e * e \<le> x" if "d \<le> e" for e using mult_mono [of d e d e] d(1) that by linarith
    then show ?thesis using False d(1) by (subst prime_loop.simps) (auto simp: le_div_iff)
  next
    case True
    show ?thesis
    proof (cases "x mod d = 0")
      case dv: True
      then have "d dvd x" by auto
      then show ?thesis using True d dv by (subst prime_loop.simps) (auto simp: le_div_iff)
    next
      case nd: False
      have split: "d \<le> e \<and> odd e \<longleftrightarrow> e = d \<or> d + 2 \<le> e \<and> odd e" for e
        using d(2) by presburger
      have "prime_loop x d = prime_loop x (d + 2)"
        using True nd d(1) by (subst prime_loop.simps) (simp add: le_div_iff)
      also have "\<dots> \<longleftrightarrow> (\<forall>e. d + 2 \<le> e \<and> odd e \<and> e * e \<le> x \<longrightarrow> \<not> e dvd x)"
        using "1.IH" True nd d by (simp add: le_div_iff)
      also have "\<dots> \<longleftrightarrow> (\<forall>e. d \<le> e \<and> odd e \<and> e * e \<le> x \<longrightarrow> \<not> e dvd x)"
        using split nd by (metis dvd_imp_mod_0)
      finally show ?thesis .
    qed
  qed
qed

text \<open>A composite number has a divisor whose square is at most the number.\<close>

lemma small_divisor:
  fixes d x :: int
  assumes "2 \<le> d" "d < x" "d dvd x"
  shows "\<exists>e. 2 \<le> e \<and> e < x \<and> e * e \<le> x \<and> e dvd x"
proof -
  obtain k where k: "x = d * k" using assms(3) by auto
  have "1 < k"
  proof (rule ccontr)
    assume "\<not> 1 < k"
    then have "d * k \<le> d * 1" using assms(1) by (intro mult_left_mono) auto
    then show False using k assms(2) by simp
  qed
  have "k < d * k" using mult_strict_right_mono [of 1 d k] assms(1) \<open>1 < k\<close> by simp
  show ?thesis
  proof (cases "d \<le> k")
    case True
    then have "d * d \<le> x" using k assms(1) by (simp add: mult_left_mono)
    then show ?thesis using assms by blast
  next
    case False
    then have "k * k \<le> x" using k \<open>1 < k\<close> by (simp add: mult_right_mono)
    then show ?thesis using k \<open>1 < k\<close> \<open>k < d * k\<close> by (intro exI [of _ k]) simp
  qed
qed

lemma is_prime_i64_iff: "is_prime_i64 x \<longleftrightarrow> prime_int x"
proof -
  consider "x < 2" | "2 \<le> x" "even x" | "2 \<le> x" "odd x" by linarith
  then show ?thesis
  proof cases
    case 1
    then show ?thesis by (simp add: is_prime_i64_def prime_int_def)
  next
    case 2
    then have "is_prime_i64 x \<longleftrightarrow> x = 2" by (auto simp: is_prime_i64_def)
    moreover have "prime_int x \<longleftrightarrow> x = 2"
    proof
      assume "prime_int x"
      then show "x = 2" using 2 by (auto simp: prime_int_def dest!: spec [of _ 2])
    qed (auto simp: prime_int_def)
    ultimately show ?thesis by simp
  next
    case 3
    then have "is_prime_i64 x \<longleftrightarrow> (\<forall>e. 3 \<le> e \<and> odd e \<and> e * e \<le> x \<longrightarrow> \<not> e dvd x)"
      using prime_loop_iff [of 3 x] by (simp add: is_prime_i64_def odd_iff_mod_2_eq_one)
    also have "\<dots> \<longleftrightarrow> prime_int x"
    proof
      assume a: "\<forall>e. 3 \<le> e \<and> odd e \<and> e * e \<le> x \<longrightarrow> \<not> e dvd x"
      have "\<not> d dvd x" if "2 \<le> d" "d < x" for d
      proof
        assume "d dvd x"
        from small_divisor [OF that this] obtain e where e: "2 \<le> e" "e * e \<le> x" "e dvd x" by blast
        moreover have "odd e" using e(3) 3(2) by (metis dvd_trans)
        moreover have "e \<noteq> 2" using \<open>odd e\<close> by auto
        ultimately show False using a by force
      qed
      then show "prime_int x" using 3 by (simp add: prime_int_def)
    next
      assume p: "prime_int x"
      have "e < x" if "3 \<le> e" "e * e \<le> x" for e
      proof -
        have "3 * e \<le> e * e" using that(1) by (intro mult_right_mono) auto
        then show ?thesis using that by linarith
      qed
      then show "\<forall>e. 3 \<le> e \<and> odd e \<and> e * e \<le> x \<longrightarrow> \<not> e dvd x" using p by (auto simp: prime_int_def)
    qed
    finally show ?thesis .
  qed
qed

lemma prev_prime_loop_result:
  "prev_prime_loop x = r \<Longrightarrow>
    (r = -1 \<and> (\<forall>p \<le> x. \<not> prime_int p)) \<or> (prime_int r \<and> r \<le> x \<and> (\<forall>p. r < p \<and> p \<le> x \<longrightarrow> \<not> prime_int p))"
proof (induction x rule: prev_prime_loop.induct)
  case (1 x)
  show ?case
  proof (cases "2 \<le> x \<and> \<not> is_prime_i64 x")
    case True
    then have "prev_prime_loop (x - 1) = r" using "1.prems" by (simp add: prev_prime_loop.simps [of x])
    with "1.IH" True have "(r = -1 \<and> (\<forall>p \<le> x - 1. \<not> prime_int p)) \<or>
        (prime_int r \<and> r \<le> x - 1 \<and> (\<forall>p. r < p \<and> p \<le> x - 1 \<longrightarrow> \<not> prime_int p))" by simp
    moreover have "p \<le> x \<longleftrightarrow> p = x \<or> p \<le> x - 1" for p by linarith
    ultimately show ?thesis using True by (auto simp: is_prime_i64_iff)
  next
    case False
    then show ?thesis
      using "1.prems" by (subst (asm) prev_prime_loop.simps) (auto simp: is_prime_i64_iff prime_int_def split: if_splits)
  qed
qed

lemma next_prime_loop_result:
  "x \<le> INT64_MAX \<Longrightarrow> \<exists>r. next_prime_loop x = Some r \<and>
    ((r = -1 \<and> (\<forall>p. x \<le> p \<and> p \<le> INT64_MAX \<longrightarrow> \<not> prime_int p)) \<or>
     (prime_int r \<and> x \<le> r \<and> r \<le> INT64_MAX \<and> (\<forall>p. x \<le> p \<and> p < r \<longrightarrow> \<not> prime_int p)))"
proof (induction "nat (INT64_MAX - x)" arbitrary: x)
  case 0
  then have "x = INT64_MAX" by simp
  then show ?case by (subst next_prime_loop.simps) (auto simp: is_prime_i64_iff)
next
  case (Suc n)
  have x: "x < INT64_MAX" using Suc.hyps(2) by simp
  show ?case
  proof (cases "prime_int x")
    case True
    then show ?thesis using x by (subst next_prime_loop.simps) (auto simp: is_prime_i64_iff)
  next
    case False
    have "n = nat (INT64_MAX - (x + 1))" using Suc.hyps(2) by simp
    from Suc.hyps(1) [OF this] x obtain r where r: "next_prime_loop (x + 1) = Some r"
      "(r = -1 \<and> (\<forall>p. x + 1 \<le> p \<and> p \<le> INT64_MAX \<longrightarrow> \<not> prime_int p)) \<or>
       (prime_int r \<and> x + 1 \<le> r \<and> r \<le> INT64_MAX \<and> (\<forall>p. x + 1 \<le> p \<and> p < r \<longrightarrow> \<not> prime_int p))" by auto
    moreover have "next_prime_loop x = next_prime_loop (x + 1)"
      using False x by (subst next_prime_loop.simps) (simp add: is_prime_i64_iff)
    moreover have "x \<le> p \<longleftrightarrow> p = x \<or> x + 1 \<le> p" for p by linarith
    ultimately show ?thesis using False by (intro exI [of _ r]) auto
  qed
qed

lemma pai_next_prime_result:
  assumes "n \<le> INT64_MAX"
  shows "\<exists>r. pai_next_prime n = Some r \<and>
      (if \<exists>p. prime_int p \<and> n < p \<and> p \<le> INT64_MAX
       then prime_int r \<and> n < r \<and> r \<le> INT64_MAX \<and> (\<forall>p. prime_int p \<and> n < p \<longrightarrow> r \<le> p) else r = -1)"
proof -
  have two: "2 \<le> p" if "prime_int p" for p using that by (simp add: prime_int_def)
  show "\<exists>r. pai_next_prime n = Some r \<and>
      (if \<exists>p. prime_int p \<and> n < p \<and> p \<le> INT64_MAX
       then prime_int r \<and> n < r \<and> r \<le> INT64_MAX \<and> (\<forall>p. prime_int p \<and> n < p \<longrightarrow> r \<le> p) else r = -1)"
  proof (cases "n = INT64_MAX")
    case True
    then show ?thesis by (auto simp: pai_next_prime_def)
  next
    case False
    let ?x = "if n < 2 then 2 else n + 1"
    have x: "?x \<le> INT64_MAX" using False assms by (simp add: INT64_MAX_def)
    have above: "prime_int p \<and> n < p \<longleftrightarrow> prime_int p \<and> ?x \<le> p" for p using two [of p] by auto
    from next_prime_loop_result [OF x] obtain r where r: "next_prime_loop ?x = Some r"
      "(r = -1 \<and> (\<forall>p. ?x \<le> p \<and> p \<le> INT64_MAX \<longrightarrow> \<not> prime_int p)) \<or>
       (prime_int r \<and> ?x \<le> r \<and> r \<le> INT64_MAX \<and> (\<forall>p. ?x \<le> p \<and> p < r \<longrightarrow> \<not> prime_int p))" by blast
    have "pai_next_prime n = Some r" using False r(1) by (simp add: pai_next_prime_def)
    moreover have "if \<exists>p. prime_int p \<and> ?x \<le> p \<and> p \<le> INT64_MAX
       then prime_int r \<and> ?x \<le> r \<and> r \<le> INT64_MAX \<and> (\<forall>p. prime_int p \<and> ?x \<le> p \<longrightarrow> r \<le> p) else r = -1"
      using r(2) by (auto simp del: not_le simp: not_le [symmetric])
    ultimately show ?thesis using above by (metis (no_types, lifting))
  qed
qed

lemma pai_prev_prime_result:
  "if \<exists>p. prime_int p \<and> p < n
   then prime_int (pai_prev_prime n) \<and> pai_prev_prime n < n \<and> (\<forall>p. prime_int p \<and> p < n \<longrightarrow> p \<le> pai_prev_prime n)
   else pai_prev_prime n = -1"
proof -
  have two: "2 \<le> p" if "prime_int p" for p using that by (simp add: prime_int_def)
  show ?thesis
  proof (cases "n \<le> 2")
    case True
    then show ?thesis using two by (force simp: pai_prev_prime_def)
  next
    case False
    have below: "p < n \<longleftrightarrow> p \<le> n - 1" for p by linarith
    show ?thesis
      using prev_prime_loop_result [OF refl, of "n - 1"] False
      by (auto simp: pai_prev_prime_def below not_less simp flip: not_le)
  qed
qed

text \<open>
  C38. Both searches return, on every 64-bit integer, and with the neighbour they name: the greatest prime
  below the argument and the least prime above it that fits in 64 bits, or -1 when there is none. No value they
  compute leaves the type: each divisor tried is at most the number it is tried on.
\<close>

theorem prime_neighbours:
  assumes "n \<le> INT64_MAX"
  shows "(if \<exists>p. prime_int p \<and> p < n
      then prime_int (pai_prev_prime n) \<and> pai_prev_prime n < n \<and> (\<forall>p. prime_int p \<and> p < n \<longrightarrow> p \<le> pai_prev_prime n)
      else pai_prev_prime n = -1) \<and>
    (\<exists>r. pai_next_prime n = Some r \<and>
      (if \<exists>p. prime_int p \<and> n < p \<and> p \<le> INT64_MAX
       then prime_int r \<and> n < r \<and> r \<le> INT64_MAX \<and> (\<forall>p. prime_int p \<and> n < p \<longrightarrow> r \<le> p) else r = -1))"
  using pai_prev_prime_result pai_next_prime_result [OF assms] by (rule conjI)

theorem prime_neighbours_witness:
  "(\<exists>r. pai_next_prime 24 = Some r \<and> 24 < r) \<and> pai_prev_prime 24 < 24 \<and> prime_int (pai_prev_prime 24)"
proof -
  have p: "prime_int 23" "prime_int 29"
    by (simp_all add: is_prime_i64_iff [symmetric] is_prime_i64_def prime_loop.simps)
  have b: "\<exists>p. prime_int p \<and> p < 24" using p(1) by (intro exI [of _ 23]) simp
  have c: "\<exists>p. prime_int p \<and> 24 < p \<and> p \<le> INT64_MAX" using p(2) by (intro exI [of _ 29]) (simp add: INT64_MAX_def)
  have "24 \<le> INT64_MAX" by (simp add: INT64_MAX_def)
  from prime_neighbours [OF this] show ?thesis unfolding if_P [OF b] if_P [OF c] by blast
qed

section \<open>The discrete gate\<close>

function gcd_loop :: "int \<Rightarrow> int \<Rightarrow> int" where
  "gcd_loop a b = (if b \<noteq> 0 then gcd_loop b (a smod b) else if a < 0 then - a else a)"
  by auto

lemma abs_smod_less: "b \<noteq> 0 \<Longrightarrow> \<bar>a smod b\<bar> < \<bar>b\<bar>" for a b :: int
  using smod_int_range [where a = a and b = b] by auto

termination gcd_loop
  by (relation "measure (\<lambda>(a, b). nat \<bar>b\<bar>)") (auto simp: abs_smod_less)

declare gcd_loop.simps [simp del]

definition gcd_i :: "int \<Rightarrow> int \<Rightarrow> int" where
  "gcd_i a b = gcd_loop a b"

lemma gcd_loop_correct: "gcd_loop a b = gcd a b"
proof (induction a b rule: gcd_loop.induct)
  case (1 a b)
  have "gcd b (a smod b) = gcd a b"
    by (metis gcd.commute gcd_add_mult mult.commute smod_sdiv_mult_eq add.commute)
  with 1 show ?case by (subst gcd_loop.simps) simp
qed

record pai_validate_core_result =
  v_ok :: bool
  v_alpha_ok :: bool
  v_attractors_ok :: bool
  v_gcd_r :: int
  v_gcd_c :: int

text \<open>
  The return code and what the result holds; an absent result object is \<open>None\<close>. The length takes part only in
  the guard.
\<close>

definition pai_validate_core_check ::
    "int \<Rightarrow> int \<Rightarrow> int \<Rightarrow> int \<Rightarrow> int \<Rightarrow> int \<Rightarrow> int \<Rightarrow> pai_validate_core_result option \<Rightarrow> nat \<times> pai_validate_core_result option" where
  "pai_validate_core_check alpha attractors rows cols dr dc len out = (case out of
     None \<Rightarrow> (1, None)
   | Some r \<Rightarrow>
      let r = r\<lparr>v_ok := False, v_alpha_ok := (alpha \<noteq> 0), v_attractors_ok := False, v_gcd_r := 0, v_gcd_c := 0\<rparr>
      in if rows \<le> 0 \<or> cols \<le> 0 \<or> len \<le> 1 then (2, Some r)
         else let r = r\<lparr>v_attractors_ok := (attractors = 42), v_gcd_r := gcd_i dr rows, v_gcd_c := gcd_i dc cols\<rparr>
           in (0, Some (r\<lparr>v_ok := (v_alpha_ok r \<and> v_attractors_ok r \<and> v_gcd_r r = 1 \<and> v_gcd_c r = 1)\<rparr>)))"

text \<open>The bound that keeps the gate inside \<open>int\<close>: the greatest common divisor it stores is at most the modulus.\<close>

lemma gcd_i_bounds: "0 < m \<Longrightarrow> 0 < gcd_i a m \<and> gcd_i a m \<le> m"
  by (simp add: gcd_i_def gcd_loop_correct gcd_le2_int)

text \<open>
  A step \<open>d\<close> that passes the gate visits every row: its multiples cover all residues. This is what the gate is
  for, and it fails for every other step.
\<close>

lemma coprime_covers:
  fixes d m :: int
  assumes "0 < m"
  shows "gcd_i d m = 1 \<longleftrightarrow> (\<forall>i. 0 \<le> i \<and> i < m \<longrightarrow> (\<exists>k. (k * d) mod m = i))"
proof
  assume "gcd_i d m = 1"
  then obtain u v where uv: "u * d + v * m = 1"
    using bezout_int [of d m] by (auto simp: gcd_i_def gcd_loop_correct)
  show "\<forall>i. 0 \<le> i \<and> i < m \<longrightarrow> (\<exists>k. (k * d) mod m = i)"
  proof (intro allI impI)
    fix i assume i: "0 \<le> i \<and> i < m"
    have "i * u * d = i * (u * d + v * m) + m * (- (i * v))" by (simp add: algebra_simps)
    then have "i * u * d = i + m * (- (i * v))" using uv by simp
    then have "(i * u * d) mod m = i mod m" by (metis mod_mult_self2)
    then show "\<exists>k. (k * d) mod m = i" using i by (intro exI [of _ "i * u"]) simp
  qed
next
  assume a: "\<forall>i. 0 \<le> i \<and> i < m \<longrightarrow> (\<exists>k. (k * d) mod m = i)"
  show "gcd_i d m = 1"
  proof (cases "m = 1")
    case True
    then show ?thesis by (simp add: gcd_i_def gcd_loop_correct)
  next
    case False
    then obtain k where k: "(k * d) mod m = 1" using a assms by force
    have g: "gcd d m dvd k * d" "gcd d m dvd m" by simp_all
    then have "gcd d m dvd (k * d) mod m" by (rule dvd_mod)
    then show ?thesis using k by (simp add: gcd_i_def gcd_loop_correct)
  qed
qed

text \<open>
  The discrete gate opens exactly for a good parameter set: the numeric gate passed, 42 attractors, and
  a row step and a column step whose multiples reach every row and every column. The code computes the last
  two by Euclid's algorithm on signed integers; what is stored stays between 1 and the grid's sides.
\<close>

theorem validate_gate:
  assumes "0 < rows" "0 < cols" "1 < len"
  shows "\<exists>r'. pai_validate_core_check alpha attractors rows cols dr dc len (Some r) = (0, Some r') \<and>
    (v_ok r' \<longleftrightarrow> alpha \<noteq> 0 \<and> attractors = 42 \<and>
      (\<forall>i. 0 \<le> i \<and> i < rows \<longrightarrow> (\<exists>k. (k * dr) mod rows = i)) \<and>
      (\<forall>j. 0 \<le> j \<and> j < cols \<longrightarrow> (\<exists>k. (k * dc) mod cols = j))) \<and>
    v_gcd_r r' \<in> {1..rows} \<and> v_gcd_c r' \<in> {1..cols}"
  using assms gcd_i_bounds [of rows dr] gcd_i_bounds [of cols dc]
  by (auto simp: pai_validate_core_check_def Let_def coprime_covers [symmetric])

theorem validate_gate_witness:
  "\<exists>r'. pai_validate_core_check 1 42 10 9 (- 3) 4 7
      (Some \<lparr>v_ok = False, v_alpha_ok = False, v_attractors_ok = False, v_gcd_r = 0, v_gcd_c = 0\<rparr>) = (0, Some r') \<and>
    v_gcd_r r' \<in> {1..10}"
  using validate_gate [of 10 9 7 1 42 "- 3" 4
      "\<lparr>v_ok = False, v_alpha_ok = False, v_attractors_ok = False, v_gcd_r = 0, v_gcd_c = 0\<rparr>"] by auto

section \<open>Numbers in a base\<close>

text \<open>The digits, least significant first, in the 256 cells of the caller's array.\<close>

fun to_base_loop :: "nat \<Rightarrow> nat \<Rightarrow> nat \<Rightarrow> nat list" where
  "to_base_loop base v 0 = []"
| "to_base_loop base v (Suc room) = (if v = 0 then [] else v mod base # to_base_loop base (v div base) room)"

definition to_base_vec_u64 :: "nat \<Rightarrow> nat \<Rightarrow> nat list" where
  "to_base_vec_u64 v base = (if base < 2 then [] else if v = 0 then [0] else to_base_loop base v 256)"

definition ALPHA62 :: string where
  "ALPHA62 = ''0123456789ABCDEFGHIJKLMNOPQRSTUVWXYZabcdefghijklmnopqrstuvwxyz''"

text \<open>What \<open>%u\<close> prints.\<close>

definition dec_text :: "nat \<Rightarrow> string" where
  "dec_text n = map (\<lambda>d. ALPHA62 ! d) (rev (to_base_vec_u64 n 10))"

fun comma_text :: "nat list \<Rightarrow> string" where
  "comma_text [] = []"
| "comma_text [d] = dec_text d"
| "comma_text (d # ds) = dec_text d @ CHR '','' # comma_text ds"

text \<open>The bytes of a string.\<close>

definition text_bytes :: "string \<Rightarrow> bytes" where
  "text_bytes s = map of_char s"

text \<open>
  The line written for one value. The absolute value is taken with \<open>-(value + 1) + 1\<close> in the signed type, which
  the least 64-bit integer leaves: \<open>None\<close>.
\<close>

definition abs_i64 :: "int \<Rightarrow> nat option" where
  "abs_i64 x = (if 0 \<le> x then Some (nat x) else if - (x + 1) + 1 > INT64_MAX then None else Some (nat (- (x + 1) + 1)))"

definition base_body :: "int \<Rightarrow> nat \<Rightarrow> nat \<Rightarrow> string" where
  "base_body x v base = (let digits = to_base_vec_u64 v base; neg = (if x < 0 then ''-'' else '''') in
     if base \<le> 62 then neg @ map (\<lambda>d. ALPHA62 ! d) (rev digits)
     else neg @ ''['' @ comma_text (rev digits) @ '']'')"

definition fmt_base :: "int \<Rightarrow> nat \<Rightarrow> string option" where
  "fmt_base x base =
    (if base < 2 then Some (''base '' @ dec_text base @ '': [invalida]'' @ [CHR 0x0A])
     else case abs_i64 x of None \<Rightarrow> None
       | Some v \<Rightarrow> Some (''base '' @ dec_text base @ '': '' @ base_body x v base @ [CHR 0x0A]))"

text \<open>The value a list of digits denotes, and a reader of the short form.\<close>

fun digits_value :: "nat \<Rightarrow> nat list \<Rightarrow> nat" where
  "digits_value base [] = 0"
| "digits_value base (d # ds) = d + base * digits_value base ds"

lemma to_base_loop_0: "to_base_loop base 0 room = []"
  by (cases room) simp_all

lemma to_base_loop_value:
  "2 \<le> base \<Longrightarrow> v < 2 ^ room \<Longrightarrow>
    digits_value base (to_base_loop base v room) = v \<and> length (to_base_loop base v room) \<le> room \<and>
    (\<forall>d \<in> set (to_base_loop base v room). d < base) \<and>
    (v \<noteq> 0 \<longrightarrow> to_base_loop base v room \<noteq> [] \<and> last (to_base_loop base v room) \<noteq> 0)"
proof (induction room arbitrary: v)
  case (Suc room)
  have "v div base \<le> v div 2" using Suc.prems(1) by (rule div_le_mono2 [rotated]) simp
  then have "v div base < 2 ^ room" using Suc.prems(2) by simp
  from Suc.IH [OF Suc.prems(1) this] Suc.prems(1) show ?case
    by (auto simp: div_eq_0_iff to_base_loop_0)
qed simp

lemma to_base_loop_room: "2 \<le> base \<Longrightarrow> v < 2 ^ room \<Longrightarrow> room \<le> n \<Longrightarrow> to_base_loop base v n = to_base_loop base v room"
proof (induction room arbitrary: v n)
  case 0
  then show ?case by (cases n) auto
next
  case (Suc room)
  obtain n' where n': "n = Suc n'" using Suc.prems(3) by (cases n) auto
  have "v div base \<le> v div 2" using Suc.prems(1) by (rule div_le_mono2 [rotated]) simp
  then have "v div base < 2 ^ room" using Suc.prems(2) by simp
  moreover have "room \<le> n'" using Suc.prems(3) n' by simp
  ultimately have "to_base_loop base (v div base) n' = to_base_loop base (v div base) room"
    by (rule Suc.IH [OF Suc.prems(1)])
  then show ?case using n' by simp
qed

lemma to_base_loop_length: "v < base ^ n \<Longrightarrow> length (to_base_loop base v room) \<le> n"
proof (induction n arbitrary: v room)
  case 0
  then show ?case by (cases room) simp_all
next
  case (Suc n)
  then have "v div base < base ^ n" by (simp add: less_mult_imp_div_less mult.commute)
  with Suc.IH show ?case by (cases room) auto
qed

definition char_digit :: "char \<Rightarrow> nat" where
  "char_digit c = length (takeWhile (\<lambda>x. x \<noteq> c) ALPHA62)"

definition read_short :: "nat \<Rightarrow> string \<Rightarrow> int" where
  "read_short base s = (if take 1 s = ''-'' then - int (digits_value base (rev (map char_digit (tl s))))
     else int (digits_value base (rev (map char_digit s))))"

lemma char_digit_alpha: "d < 62 \<Longrightarrow> char_digit (ALPHA62 ! d) = d \<and> ALPHA62 ! d \<noteq> CHR ''-''"
proof -
  have "\<forall>d \<in> set [0..<62]. char_digit (ALPHA62 ! d) = d \<and> ALPHA62 ! d \<noteq> CHR ''-''" by code_simp
  then show "d < 62 \<Longrightarrow> ?thesis" by (simp del: upt_rec_numeral)
qed

lemma to_base_vec_value:
  assumes "2 \<le> base" "v < 2 ^ 64"
  shows "digits_value base (to_base_vec_u64 v base) = v \<and> to_base_vec_u64 v base \<noteq> [] \<and>
    length (to_base_vec_u64 v base) \<le> 64 \<and> (\<forall>d \<in> set (to_base_vec_u64 v base). d < base) \<and>
    (v \<noteq> 0 \<longrightarrow> last (to_base_vec_u64 v base) \<noteq> 0)"
proof -
  have "to_base_loop base v 256 = to_base_loop base v 64"
    using assms by (intro to_base_loop_room) simp_all
  then show ?thesis using to_base_loop_value [OF assms] assms(1) by (auto simp: to_base_vec_u64_def)
qed

text \<open>
  C39. The base converter is a round trip: for every 64-bit value but the least, in every base up to 62, the
  line written carries a numeral that reads back as the value, with its sign, and with at most 64 digits: the
  array of 256 digits and the text of 512 bytes cannot overflow. On the least value the code's absolute value
  leaves its type.
\<close>

theorem fmt_base_roundtrip:
  assumes "2 \<le> base" "base \<le> 62" "- INT64_MAX \<le> x" "x \<le> INT64_MAX"
  shows "\<exists>t. fmt_base x base = Some (''base '' @ dec_text base @ '': '' @ t @ [CHR 0x0A]) \<and>
    read_short base t = x \<and> 1 \<le> length t \<and> length t \<le> 65"
proof -
  let ?v = "nat \<bar>x\<bar>"
  let ?ds = "to_base_vec_u64 ?v base"
  let ?t = "map (\<lambda>d. ALPHA62 ! d) (rev ?ds)"
  have abs: "abs_i64 x = Some ?v" using assms(3,4) by (auto simp: abs_i64_def)
  have "?v < 2 ^ 64" using assms(3,4) by (simp add: INT64_MAX_def nat_less_iff)
  note ds = to_base_vec_value [OF assms(1) this]
  have small: "d < 62" if "d \<in> set ?ds" for d using ds that assms(2) by force
  have digits: "map char_digit ?t = rev ?ds" using small by (auto intro!: map_idI simp: char_digit_alpha)
  have "?t \<noteq> []" using ds by simp
  then obtain c cs where t: "?t = c # cs" by (cases ?t) auto
  then have "c \<in> set ?t" by simp
  then have "c \<noteq> CHR ''-''" using small char_digit_alpha by auto
  then have rd: "read_short base ?t = int ?v"
    unfolding read_short_def digits rev_rev_ident using t ds by simp
  have rdn: "read_short base (CHR ''-'' # ?t) = - int ?v"
    unfolding read_short_def list.sel digits rev_rev_ident using ds by simp
  have body: "base_body x ?v base = (if x < 0 then CHR ''-'' # ?t else ?t)"
    using assms(2) by (simp add: base_body_def Let_def)
  have len: "1 \<le> length ?t" "length ?t \<le> 64" using ds \<open>?t \<noteq> []\<close> by (simp_all add: Suc_le_eq)
  have "read_short base (base_body x ?v base) = x" using body rd rdn by (cases "x < 0") simp_all
  moreover have "1 \<le> length (base_body x ?v base) \<and> length (base_body x ?v base) \<le> 65"
    using body len by (cases "x < 0") simp_all
  moreover have "fmt_base x base = Some (''base '' @ dec_text base @ '': '' @ base_body x ?v base @ [CHR 0x0A])"
    using assms(1) abs by (simp add: fmt_base_def)
  ultimately show ?thesis by blast
qed

theorem fmt_base_roundtrip_witness:
  "\<exists>t. fmt_base (- 255) 16 = Some (''base '' @ dec_text 16 @ '': '' @ t @ [CHR 0x0A]) \<and> read_short 16 t = - 255"
  using fmt_base_roundtrip [of 16 "- 255"] by (auto simp: INT64_MAX_def)

lemma fmt_base_least_overflows: "fmt_base (- (2 ^ 63)) 10 = None"
  by (simp add: fmt_base_def abs_i64_def INT64_MAX_def)

end
