(* ===== verification/Omega.thy ===== *)
theory Omega
  imports Ata Integers
begin

text \<open>
  The programs around the ATA OMEGA stream: the writer \<open>rmr/runtime/rafaelia_core.c\<close> and the two readers
  \<open>rmr/runtime/sync_omega.c\<close> and \<open>rmr/runtime/sync_fast.c\<close>. The system calls and the hardware registers are
  parameters: the backend's \<open>raw_write\<close> on a state of its own, the readings of the counters (the \<open>k\<close>-th of the
  loop is \<open>ticks k\<close>) and the results of \<open>openat\<close> and \<open>fsync\<close>.
\<close>

section \<open>Numerals, digit roots and mixing\<close>

definition G20 :: string where "G20 = ''0123456789ABCDEFGHIJ''"

function v20_tmp :: "u64 \<Rightarrow> string" where
  "v20_tmp x = (if x \<noteq> 0 then G20 ! unat (x mod 20) # v20_tmp (x div 20) else [])"
  by auto
termination
  by (relation "measure unat") (auto simp: unat_div unat_eq_zero intro!: div_less_dividend, metis gr0I unat_eq_zero)

declare v20_tmp.simps [simp del]

text \<open>The digits come out of \<open>tmp\<close> in reverse.\<close>

definition v20 :: "u64 \<Rightarrow> string" where
  "v20 x = (if x = 0 then ''0'' else rev (v20_tmp x))"

definition p9 :: "u64 \<Rightarrow> nat" where
  "p9 n = (if n = 0 then 0 else 1 + unat ((n - 1) mod 9))"

definition mix64 :: "u64 \<Rightarrow> u64" where
  "mix64 x = (let x = x XOR drop_bit 12 x; x = x XOR push_bit 25 x; x = x XOR drop_bit 27 x in x * 2685821657736338717)"

lemma v20_tmp_0 [simp]: "v20_tmp 0 = []"
  by (subst v20_tmp.simps) simp

lemma v20_tmp_digits:
  "unat x < 2 ^ room \<Longrightarrow> v20_tmp x = map (\<lambda>d. ALPHA62 ! d) (to_base_loop 20 (unat x) room)"
proof (induction room arbitrary: x)
  case 0
  then show ?case by (simp add: unat_eq_zero)
next
  case (Suc room)
  show ?case
  proof (cases "x = 0")
    case False
    have "unat (x div 20) < 2 ^ room" using Suc.prems by (simp add: unat_div)
    note Suc.IH [OF this]
    moreover have "G20 ! (unat x mod 20) = ALPHA62 ! (unat x mod 20)"
    proof -
      have "\<forall>d \<in> set [0..<20]. G20 ! d = ALPHA62 ! d" by code_simp
      moreover have "unat x mod 20 < 20" by simp
      ultimately show ?thesis by (simp del: upt_rec_numeral)
    qed
    ultimately show ?thesis
      using False by (subst v20_tmp.simps) (simp add: unat_mod unat_div unat_eq_zero)
  qed simp
qed

text \<open>The numeral reads back as the number, and fits in the 24 bytes of the writer's buffers with its terminator.\<close>

lemma v20_reads_back: "digits_value 20 (rev (map char_digit (v20 x))) = unat x \<and> 1 \<le> length (v20 x) \<and> length (v20 x) \<le> 15"
proof (cases "x = 0")
  case True
  then show ?thesis by (simp add: v20_def char_digit_def ALPHA62_def)
next
  case False
  have lt: "unat x < 2 ^ 64" using unsigned_less [of x, where 'a = nat] by simp
  let ?ds = "to_base_loop 20 (unat x) 64"
  have v: "v20 x = rev (map (\<lambda>d. ALPHA62 ! d) ?ds)" using v20_tmp_digits [OF lt] False by (simp add: v20_def)
  have ds: "digits_value 20 ?ds = unat x" "\<forall>d \<in> set ?ds. d < 20" "?ds \<noteq> []"
    using to_base_loop_value [of 20 "unat x" 64] lt False by (auto simp: unat_eq_zero)
  then have "map char_digit (map (\<lambda>d. ALPHA62 ! d) ?ds) = ?ds" by (auto intro!: map_idI simp: char_digit_alpha)
  moreover have "unat x < 20 ^ 15" using lt by simp
  ultimately show ?thesis
    using ds to_base_loop_length [of "unat x" 20 15 64] by (simp add: v rev_map [symmetric] Suc_le_eq)
qed

lemma p9_range: "n \<noteq> 0 \<Longrightarrow> 1 \<le> p9 n \<and> p9 n \<le> 9"
proof -
  have "unat ((n - 1) mod 9) < 9" using word_mod_less_divisor [of 9 "n - 1"] by (simp add: word_less_nat_alt)
  then show "n \<noteq> 0 \<Longrightarrow> ?thesis" by (simp add: p9_def)
qed

text \<open>The mixer loses nothing: each of its four steps can be undone.\<close>

lemma xor_drop_bit_inj: "0 < k \<Longrightarrow> x XOR drop_bit k x = y XOR drop_bit k y \<Longrightarrow> x = y" for x y :: "'a::len word"
proof -
  assume k: "0 < k" and e: "x XOR drop_bit k x = y XOR drop_bit k y"
  have step: "bit x n \<noteq> bit x (k + n) \<longleftrightarrow> bit y n \<noteq> bit y (k + n)" for n
    using arg_cong [OF e, of "\<lambda>w. bit w n"] by (simp add: bit_simps)
  have "bit x n = bit y n" for n
  proof (induction "LENGTH('a) - n" arbitrary: n rule: less_induct)
    case less
    show ?case
    proof (cases "n < LENGTH('a)")
      case True
      then have "LENGTH('a) - (k + n) < LENGTH('a) - n" using k by linarith
      from less [OF this] step [of n] show ?thesis by auto
    next
      case False
      then show ?thesis by (simp add: bit_word.rep_eq not_less)
    qed
  qed
  then show "x = y" by (simp add: bit_eq_iff)
qed

lemma xor_push_bit_inj: "0 < k \<Longrightarrow> x XOR push_bit k x = y XOR push_bit k y \<Longrightarrow> x = y" for x y :: "'a::len word"
proof -
  assume k: "0 < k" and e: "x XOR push_bit k x = y XOR push_bit k y"
  have step: "n < LENGTH('a) \<Longrightarrow> (bit x n \<noteq> (k \<le> n \<and> bit x (n - k))) \<longleftrightarrow> (bit y n \<noteq> (k \<le> n \<and> bit y (n - k)))" for n
    using arg_cong [OF e, of "\<lambda>w. bit w n"] by (simp add: bit_simps)
  have "n < LENGTH('a) \<Longrightarrow> bit x n = bit y n" for n
  proof (induction n rule: less_induct)
    case (less n)
    show ?case
    proof (cases "k \<le> n")
      case True
      then have "n - k < n" "n - k < LENGTH('a)" using k less.prems by auto
      from less.IH [OF this] step [OF less.prems] show ?thesis by auto
    next
      case False
      then show ?thesis using step [OF less.prems] by auto
    qed
  qed
  then show "x = y" by (simp add: bit_word_eqI)
qed

lemma mult_odd_inj: "c * d = 1 \<Longrightarrow> x * c = y * c \<Longrightarrow> x = y" for c :: "'a::len word"
  by (metis mult.assoc mult.right_neutral)

lemma mix64_inj: "mix64 x = mix64 y \<longleftrightarrow> x = y"
proof
  assume e: "mix64 x = mix64 y"
  have inv: "(2685821657736338717 :: u64) * 0x59071d96d81ecd35 = 1" by simp
  define s1 s2 s3 where "s1 = (\<lambda>x :: u64. x XOR drop_bit 12 x)" and "s2 = (\<lambda>x :: u64. x XOR push_bit 25 x)"
    and "s3 = (\<lambda>x :: u64. x XOR drop_bit 27 x)"
  have "mix64 z = s3 (s2 (s1 z)) * 2685821657736338717" for z by (simp only: mix64_def Let_def s1_def s2_def s3_def)
  then have "s3 (s2 (s1 x)) * 2685821657736338717 = s3 (s2 (s1 y)) * 2685821657736338717" using e by (simp only:)
  then have "s3 (s2 (s1 x)) = s3 (s2 (s1 y))" by (rule mult_odd_inj [OF inv])
  then have "s2 (s1 x) = s2 (s1 y)" unfolding s3_def by (rule xor_drop_bit_inj [rotated]) simp
  then have "s1 x = s1 y" unfolding s2_def by (rule xor_push_bit_inj [rotated]) simp
  then show "x = y" unfolding s1_def by (rule xor_drop_bit_inj [rotated]) simp
qed simp

section \<open>The writer\<close>

text \<open>
  \<open>raw_write(fd, buf, len)\<close> of the chosen backend: the state, the descriptor and the bytes offered (\<open>len\<close> of them)
  give the result and the new state.
\<close>

type_synonym 's write_fn = "'s \<Rightarrow> int \<Rightarrow> bytes \<Rightarrow> int \<times> 's"

definition raw_print :: "'s write_fn \<Rightarrow> string \<Rightarrow> 's \<Rightarrow> 's" where
  "raw_print wr text st = snd (wr st 1 (text_bytes text))"

fun raw_prints :: "'s write_fn \<Rightarrow> string list \<Rightarrow> 's \<Rightarrow> 's" where
  "raw_prints wr [] st = st"
| "raw_prints wr (t # ts) st = raw_prints wr ts (raw_print wr t st)"

text \<open>
  Every turn of the loop advances or ends it. \<open>pos\<close> is \<open>done\<close> of the code: below \<open>n\<close>, which is at most 28, before
  the last call, it cannot wrap.
\<close>

function mem_write_loop :: "'s write_fn \<Rightarrow> int \<Rightarrow> bytes \<Rightarrow> nat \<Rightarrow> nat \<Rightarrow> 's \<Rightarrow> int \<times> 's" where
  "mem_write_loop wr fd p n pos st =
    (if pos < n then
       (case wr st fd (take (n - pos) (drop pos p)) of (wrote, st) \<Rightarrow>
          if wrote \<le> 0 then (-1, st) else mem_write_loop wr fd p n (pos + nat wrote) st)
     else (0, st))"
  by pat_completeness auto
termination by (relation "measure (\<lambda>(wr, fd, p, n, pos, st). n - pos)") auto

declare mem_write_loop.simps [simp del]

definition mem_write_all :: "'s write_fn \<Rightarrow> int \<Rightarrow> bytes \<Rightarrow> nat \<Rightarrow> 's \<Rightarrow> int \<times> 's" where
  "mem_write_all wr fd p n st = mem_write_loop wr fd p n 0 st"

definition u3_text :: "u64 \<Rightarrow> string" where
  "u3_text k = [char_of (unat (k div 100 + 48)), char_of (unat ((k div 10) mod 10 + 48)), char_of (unat (k mod 10 + 48))]"

definition class_text :: "nat \<Rightarrow> string" where
  "class_text par = (if par = 9 then ''SINGULARIDADE_OMEGA'' else if par = 3 \<or> par = 6 then ''RESSONANCIA'' else ''FLUXO'')"

definition digit_text :: "nat \<Rightarrow> string" where
  "digit_text p = [char_of (48 + p)]"

definition newline :: string where "newline = [CHR 0x0A]"

text \<open>The record loop from \<open>k\<close> on, with \<open>n\<close> records left.\<close>

fun record_loop :: "'s write_fn \<Rightarrow> (u64 \<Rightarrow> u64) \<Rightarrow> int \<Rightarrow> nat \<Rightarrow> u64 \<Rightarrow> bool \<Rightarrow> 's \<Rightarrow> bool \<times> 's" where
  "record_loop wr ticks fd 0 k write_ok st = (write_ok, st)"
| "record_loop wr ticks fd (Suc n) k write_ok st =
    (let cyc = ticks k;
         par = p9 (cyc + k);
         (write_ok, st) =
           (if write_ok then
              (case mem_write_all wr fd (rmr_ata_encode_record k cyc (of_nat par)) (unat RMR_ATA_RECORD_SIZE) st of
                (r, st) \<Rightarrow> (r = 0, st))
            else (write_ok, st));
         st = raw_prints wr [''[CHAVE:'', u3_text k, ''] [CYC:'', v20 cyc, ''] [P:'', digit_text par, ''] '',
           class_text par @ newline] st
     in record_loop wr ticks fd n (k + 1) write_ok st)"

record omega_env =
  opened :: int
  cpu_id :: u64
  midr_mpidr :: "(u64 \<times> u64) option"   \<comment> \<open>only on AArch64\<close>
  backend :: string
  fsync_result :: int
  ticks :: "u64 \<Rightarrow> u64"

text \<open>What is printed before the file is written.\<close>

definition omega_head :: "'s write_fn \<Rightarrow> omega_env \<Rightarrow> 's \<Rightarrow> 's" where
  "omega_head wr env st =
    (let hw_sig64 = cpu_id env;
         st = raw_prints wr [newline @ ''[RAFAELIA_OMEGA] ATA(V1) :: AUTO-ID64 + 42'' @ newline,
           ''BACKEND: '', backend env, newline] st;
         st = (case midr_mpidr env of None \<Rightarrow> st
           | Some (midr, mpidr) \<Rightarrow> raw_prints wr [''MIDR(V20): '', v20 midr, newline, ''MPIDR(V20): '', v20 mpidr, newline] st)
     in raw_prints wr [''CPU_ID_RAW(V20): '', v20 (cpu_id env), newline, ''HW_SIG64(V20): '', v20 hw_sig64, newline,
           ''ATA_FORMAT: V1 header=28 record=24 count=42 LE'' @ newline, replicate 62 (CHR ''-'') @ newline] st)"

definition omega_end :: "'s write_fn \<Rightarrow> bool \<Rightarrow> 's \<Rightarrow> 's" where
  "omega_end wr write_ok st = raw_prints wr [replicate 62 (CHR ''-'') @ newline,
     if write_ok then ''OK: ATA_OMEGA.bin V1 gravada.'' @ newline
     else ''ERRO: ATA_OMEGA.bin incompleta ou nao gravada.'' @ newline] st"

text \<open>The whole program: whether it ends with the message of success, and the state.\<close>

definition omega_main :: "'s write_fn \<Rightarrow> omega_env \<Rightarrow> 's \<Rightarrow> bool \<times> 's" where
  "omega_main wr env st =
    (let fd = opened env;
         hw_sig64 = cpu_id env;
         st = omega_head wr env st;
         (write_ok, st) =
           (if fd \<ge> 0 then
              (case mem_write_all wr fd (rmr_ata_build_v1_header hw_sig64) RMR_ATA_V1_HEADER_SIZE st of (r, st) \<Rightarrow> (r = 0, st))
            else (False, st));
         (write_ok, st) = record_loop wr (ticks env) fd (unat RMR_ATA_RECORD_COUNT) 1 write_ok st;
         write_ok = (if fd \<ge> 0 \<and> write_ok \<and> fsync_result env < 0 then False else write_ok)
     in (write_ok, omega_end wr write_ok st))"

text \<open>
  What a file descriptor promises: a positive result counts the bytes of the offer, from its start, that the file
  got; otherwise it got none; and writing to standard output leaves the file alone. \<open>content\<close> is what the file
  holds in a state.
\<close>

definition byte_sink :: "'s write_fn \<Rightarrow> int \<Rightarrow> ('s \<Rightarrow> bytes) \<Rightarrow> bool" where
  "byte_sink wr fd content \<longleftrightarrow>
    (\<forall>st p. fst (wr st fd p) \<le> int (length p) \<and>
      content (snd (wr st fd p)) = content st @ take (nat (fst (wr st fd p))) p \<and>
      content (snd (wr st 1 p)) = content st)"

lemma raw_prints_content: "byte_sink wr fd content \<Longrightarrow> content (raw_prints wr ts st) = content st"
  by (induction ts arbitrary: st) (simp_all add: raw_print_def byte_sink_def)

lemma omega_head_content: "byte_sink wr fd content \<Longrightarrow> content (omega_head wr env st) = content st"
  by (auto simp: omega_head_def raw_prints_content Let_def simp del: raw_prints.simps split: option.split)

lemma omega_end_content: "byte_sink wr fd content \<Longrightarrow> content (omega_end wr ok st) = content st"
  by (simp add: omega_end_def raw_prints_content del: raw_prints.simps)

lemma mem_write_loop_ok:
  "byte_sink wr fd content \<Longrightarrow> mem_write_loop wr fd p n pos st = (0, st') \<Longrightarrow> pos \<le> n \<Longrightarrow> n \<le> length p \<Longrightarrow>
    content st' = content st @ take (n - pos) (drop pos p)"
proof (induction wr fd p n pos st rule: mem_write_loop.induct)
  case (1 wr fd p n pos st)
  show ?case
  proof (cases "pos < n")
    case False
    then have "mem_write_loop wr fd p n pos st = (0, st)" by (simp add: mem_write_loop.simps [of wr fd p n pos])
    then show ?thesis using "1.prems" False by simp
  next
    case True
    let ?q = "take (n - pos) (drop pos p)"
    obtain wrote st1 where w: "wr st fd ?q = (wrote, st1)" by (cases "wr st fd ?q")
    have pos_w: "0 < wrote" and go: "mem_write_loop wr fd p n (pos + nat wrote) st1 = (0, st')"
      using "1.prems"(2) True w by (auto simp: mem_write_loop.simps [of wr fd p n pos] split: if_splits)
    have len: "length ?q = n - pos" using "1.prems"(4) by simp
    have sink: "wrote \<le> int (length ?q) \<and> content st1 = content st @ take (nat wrote) ?q"
      using "1.prems"(1) w unfolding byte_sink_def by (metis fst_conv snd_conv)
    then have m: "nat wrote \<le> n - pos" using len by linarith
    have "content st' = content st1 @ take (n - (pos + nat wrote)) (drop (pos + nat wrote) p)"
      using "1.IH" [OF True w [symmetric]] pos_w go "1.prems"(1,4) m by simp
    also have "\<dots> = content st @ (take (nat wrote) ?q @ take (n - pos - nat wrote) (drop (nat wrote) (drop pos p)))"
      using sink by (simp add: add.commute)
    also have "take (nat wrote) ?q @ take (n - pos - nat wrote) (drop (nat wrote) (drop pos p)) = ?q"
      using take_append_drop_eq [OF m, of "drop pos p"] m by (simp only: take_take min_absorb1)
    finally show ?thesis .
  qed
qed

lemma mem_write_all_ok:
  "byte_sink wr fd content \<Longrightarrow> mem_write_all wr fd p (length p) st = (0, st') \<Longrightarrow> content st' = content st @ p"
  using mem_write_loop_ok [of wr fd content p "length p" 0 st st'] by (simp add: mem_write_all_def)

text \<open>A sink that takes at least a byte of every offer is written to the end.\<close>

definition eager :: "'s write_fn \<Rightarrow> int \<Rightarrow> bool" where
  "eager wr fd \<longleftrightarrow> (\<forall>st p. p \<noteq> [] \<longrightarrow> 0 < fst (wr st fd p))"

lemma mem_write_loop_progress:
  "eager wr fd \<Longrightarrow> n \<le> length p \<Longrightarrow> fst (mem_write_loop wr fd p n pos st) = 0"
proof (induction wr fd p n pos st rule: mem_write_loop.induct)
  case (1 wr fd p n pos st)
  show ?case
  proof (cases "pos < n")
    case True
    let ?q = "take (n - pos) (drop pos p)"
    obtain wrote st1 where w: "wr st fd ?q = (wrote, st1)" by (cases "wr st fd ?q")
    have "?q \<noteq> []" using True "1.prems"(2) by simp
    then have "0 < wrote" using "1.prems"(1) w by (metis eager_def fst_conv)
    then show ?thesis
      using "1.IH" [OF True w [symmetric] _ "1.prems"] True w by (simp add: mem_write_loop.simps [of wr fd p n pos])
  qed (simp add: mem_write_loop.simps [of wr fd p n pos])
qed

text \<open>The records of a successful run.\<close>

definition omega_cps :: "(u64 \<Rightarrow> u64) \<Rightarrow> nat \<Rightarrow> nat \<Rightarrow> (u64 \<times> u64) list" where
  "omega_cps tk i n = map (\<lambda>j. (tk (of_nat j), of_nat (p9 (tk (of_nat j) + of_nat j)))) [i + 1..<i + 1 + n]"

lemma omega_cps_Suc:
  "omega_cps tk i (Suc n) = (tk (of_nat (i + 1)), of_nat (p9 (tk (of_nat (i + 1)) + of_nat (i + 1)))) # omega_cps tk (i + 1) n"
proof -
  have "[i + 1..<i + 1 + Suc n] = (i + 1) # [i + 1 + 1..<i + 1 + 1 + n]" by (subst upt_conv_Cons) simp_all
  then show ?thesis by (simp add: omega_cps_def del: upt_Suc)
qed

lemma record_loop_false: "fst (record_loop wr tk fd n k False st) = False"
  by (induction n arbitrary: k st) (simp_all add: Let_def)

lemma record_loop_ok:
  assumes "byte_sink wr fd content"
  shows "record_loop wr tk fd n (of_nat (i + 1)) True st = (True, st') \<Longrightarrow>
    content st' = content st @ records i (omega_cps tk i n)"
proof (induction n arbitrary: i st)
  case 0
  then show ?case by (simp add: omega_cps_def)
next
  case (Suc n)
  let ?k = "of_nat (i + 1) :: u64" and ?c = "tk (of_nat (i + 1))"
  let ?e = "rmr_ata_encode_record ?k ?c (of_nat (p9 (?c + ?k)))"
  obtain r st1 where w: "mem_write_all wr fd ?e 24 st = (r, st1)" by (cases "mem_write_all wr fd ?e 24 st")
  define st2 where "st2 = raw_prints wr [''[CHAVE:'', u3_text ?k, ''] [CYC:'', v20 ?c, ''] [P:'', digit_text (p9 (?c + ?k)),
    ''] '', class_text (p9 (?c + ?k)) @ newline] st1"
  have run: "record_loop wr tk fd n (?k + 1) (r = 0) st2 = (True, st')"
    using Suc.prems w by (simp add: Let_def st2_def del: raw_prints.simps of_nat_add of_nat_Suc)
  have r: "r = 0"
    using run record_loop_false [of wr tk fd n "?k + 1" st2] by (cases "r = 0") auto
  have k: "?k + 1 = of_nat (i + 1 + 1)" by simp
  have "content st' = content st2 @ records (i + 1) (omega_cps tk (i + 1) n)"
    using Suc.IH [of "i + 1" st2] run r unfolding k by simp
  moreover have "content st2 = content st @ ?e"
    using raw_prints_content [OF assms] mem_write_all_ok [OF assms, of ?e st st1] w r by (simp add: st2_def del: raw_prints.simps)
  ultimately show ?case by (simp only: omega_cps_Suc records_Cons append_assoc)
qed

lemma record_loop_progress:
  "eager wr fd \<Longrightarrow> fst (record_loop wr tk fd n k True st)"
proof (induction n arbitrary: k st)
  case (Suc n)
  let ?e = "rmr_ata_encode_record k (tk k) (of_nat (p9 (tk k + k)))"
  have "fst (mem_write_all wr fd ?e 24 st) = 0"
    using mem_write_loop_progress [OF Suc.prems, of 24 ?e] by (simp add: mem_write_all_def)
  then show ?case
    using Suc by (cases "mem_write_all wr fd ?e 24 st") (simp add: Let_def del: raw_prints.simps)
qed simp

section \<open>What the writer wrote\<close>

text \<open>The arena the loader should find: the readings in order.\<close>

definition omega_ticks :: "(u64 \<Rightarrow> u64) \<Rightarrow> u64 list" where
  "omega_ticks tk = map (\<lambda>j. tk (of_nat j)) [1..<43]"

lemma omega_cps_ok:
  assumes "\<forall>j \<in> {1..42}. tk (of_nat j) + of_nat j \<noteq> 0"
  shows "length (omega_cps tk 0 42) = 42 \<and> map fst (omega_cps tk 0 42) = omega_ticks tk \<and> pars_ok (omega_cps tk 0 42)"
proof -
  have r: "1 \<le> (of_nat m :: u64) \<and> (of_nat m :: u64) \<le> 9" if "1 \<le> m \<and> m \<le> 9" for m
    using that by (simp add: word_le_nat_alt unat_of_nat_small)
  show ?thesis
    using p9_range assms
    by (auto simp: omega_cps_def omega_ticks_def pars_ok_def comp_def simp del: upt_rec_numeral intro!: r [THEN conjunct1] r [THEN conjunct2])
qed

lemma omega_main_content:
  assumes "byte_sink wr (opened env) content" "omega_main wr env st = (True, st')"
  shows "content st' = content st @ rmr_ata_build_v1_header (cpu_id env) @ records 0 (omega_cps (ticks env) 0 42)"
proof -
  have c: "unat RMR_ATA_RECORD_COUNT = 42" by (simp add: RMR_ATA_RECORD_COUNT_def)
  define st3 where "st3 = omega_head wr env st"
  have c3: "content st3 = content st" unfolding st3_def by (rule omega_head_content [OF assms(1)])
  obtain r st4 where w: "mem_write_all wr (opened env) (rmr_ata_build_v1_header (cpu_id env)) RMR_ATA_V1_HEADER_SIZE st3 = (r, st4)"
    by (cases "mem_write_all wr (opened env) (rmr_ata_build_v1_header (cpu_id env)) RMR_ATA_V1_HEADER_SIZE st3")
  obtain ok st5 where l: "record_loop wr (ticks env) (opened env) 42 1 (r = 0) st4 = (ok, st5)"
    by (cases "record_loop wr (ticks env) (opened env) 42 1 (r = 0) st4")
  note main = assms(2) [unfolded omega_main_def Let_def c st3_def [symmetric]]
  have nn: "0 \<le> opened env"
  proof (rule ccontr)
    assume "\<not> 0 \<le> opened env"
    then have "fst (record_loop wr (ticks env) (opened env) 42 1 False st3)"
      using main by (cases "record_loop wr (ticks env) (opened env) 42 1 False st3") (simp del: record_loop.simps)
    then show False by (simp add: record_loop_false)
  qed
  then have run: "ok" "st' = omega_end wr True st5"
    using main w l by (auto simp del: record_loop.simps split: if_splits)
  then have run2: "content st' = content st5" by (simp add: omega_end_content [OF assms(1)])
  have r: "r = 0" using l run(1) record_loop_false [of wr "ticks env" "opened env" 42 1 st4] by (cases "r = 0") auto
  have "content st4 = content st3 @ rmr_ata_build_v1_header (cpu_id env)"
    using mem_write_all_ok [OF assms(1), of "rmr_ata_build_v1_header (cpu_id env)" st3 st4] w r
    by (simp add: RMR_ATA_V1_HEADER_SIZE_def)
  moreover have "content st5 = content st4 @ records 0 (omega_cps (ticks env) 0 42)"
    using record_loop_ok [OF assms(1), of "ticks env" 42 0 st4 st5] l run(1) r by simp
  ultimately show ?thesis using run2 c3 by simp
qed

text \<open>
  C33. The writer and the loader fit together: when the writer reports success, however its writes were split,
  the file it opened empty is one that the loader reads, from any source that delivers it in whatever pieces, as
  42 records with the writer's hardware signature and clock readings in order. The one thing it needs is that no
  reading plus its index wraps round to zero, which has no digit root.
\<close>

theorem omega_file_loads:
  assumes "byte_sink wr (opened env) content" "content st = []" "omega_main wr env st = (True, st')"
    and "\<forall>j \<in> {1..42}. ticks env (of_nat j) + of_nat j \<noteq> 0"
    and "byte_source rd rest" "rest src = content st'"
    and "length (arena_out out) = 42" "length magic = 4" "length probe = 24" "length record = 24"
  shows "\<exists>src'. rmr_ata_load_fd (Some rd) src magic probe record tail (Some out) 42 =
    (42, Some (out\<lparr>hw_sig_out := cpu_id env, arena_out := omega_ticks (ticks env),
                   format_out := map_option (\<lambda>_. RMR_ATA_FORMAT_V1) (format_out out)\<rparr>), src') \<and> rest src' = []"
proof -
  note cps = omega_cps_ok [OF assms(4)]
  have "rest src = rmr_ata_build_v1_header (cpu_id env) @ records 0 (omega_cps (ticks env) 0 42) @ []"
    using omega_main_content [OF assms(1,3)] assms(2,6) by simp
  from v1_stream_loads [OF assms(5) this, of 42 out magic probe "record" tail] show ?thesis
    using cps assms(7-10) by simp
qed

text \<open>And a descriptor that takes at least a byte of every offer gets it that far.\<close>

lemma omega_main_succeeds:
  assumes "eager wr (opened env)" "0 \<le> opened env" "0 \<le> fsync_result env"
  shows "fst (omega_main wr env st)"
proof -
  have h: "fst (mem_write_all wr (opened env) (rmr_ata_build_v1_header hw) RMR_ATA_V1_HEADER_SIZE s1) = 0" for hw s1
    using mem_write_loop_progress [OF assms(1)] by (simp add: mem_write_all_def RMR_ATA_V1_HEADER_SIZE_def)
  have l: "fst (record_loop wr (ticks env) (opened env) n k True s1)" for n k s1 by (rule record_loop_progress [OF assms(1)])
  show ?thesis
    unfolding omega_main_def Let_def
    using assms(2,3) h l by (simp add: split_beta not_less del: record_loop.simps)
qed

definition slow_file :: "nat \<Rightarrow> bytes write_fn" where
  "slow_file m st fd p = (if fd = 1 then (int (length p), st) else (int (min m (length p)), st @ take m p))"

lemma slow_file_sink: "fd \<noteq> 1 \<Longrightarrow> byte_sink (slow_file m) fd (\<lambda>st. st)"
  by (auto simp: byte_sink_def slow_file_def min_def)

definition demo_run_env :: omega_env where
  "demo_run_env = \<lparr>opened = 3, cpu_id = 7, midr_mpidr = None, backend = ''c_fallback'', fsync_result = 0,
    ticks = (\<lambda>k. 1000 + k)\<rparr>"

theorem omega_file_loads_witness:
  "\<exists>st' src'. omega_main (slow_file 5) demo_run_env [] = (True, st') \<and>
    rmr_ata_load_fd (Some (pipe 3)) st' (replicate 4 0) (replicate 24 0) (replicate 24 0) (replicate 8 0)
      (Some \<lparr>hw_sig_out = 0, arena_out = replicate 42 0, format_out = None\<rparr>) 42 =
    (42, Some \<lparr>hw_sig_out = 7, arena_out = omega_ticks (\<lambda>k. 1000 + k), format_out = None\<rparr>, src')"
proof -
  have e: "opened demo_run_env = 3" "cpu_id demo_run_env = 7" "fsync_result demo_run_env = 0" "ticks demo_run_env = (\<lambda>k. 1000 + k)" by (simp_all add: demo_run_env_def)
  have "fst (omega_main (slow_file 5) demo_run_env [])"
    using omega_main_succeeds [of "slow_file 5" demo_run_env] e by (simp add: eager_def slow_file_def min_def)
  then obtain st' where st': "omega_main (slow_file 5) demo_run_env [] = (True, st')" by (cases "omega_main (slow_file 5) demo_run_env []") auto
  have nz: "\<forall>j \<in> {1..42}. ticks demo_run_env (of_nat j) + of_nat j \<noteq> 0"
  proof
    fix j :: nat assume "j \<in> {1..42}"
    then have "ticks demo_run_env (of_nat j) + of_nat j = of_nat (1000 + 2 * j)" "1000 + 2 * j < 2 ^ LENGTH(64)" by (auto simp: e)
    then have "unat (ticks demo_run_env (of_nat j) + of_nat j) = 1000 + 2 * j" by (simp only: unat_of_nat_small)
    then show "ticks demo_run_env (of_nat j) + of_nat j \<noteq> 0" by (intro notI) simp
  qed
  have sink: "byte_sink (slow_file 5) (opened demo_run_env) (\<lambda>st. st)" by (rule slow_file_sink) (simp add: e)
  have src: "byte_source (pipe 3) (\<lambda>st. st)" by (rule pipe_source) simp
  from omega_file_loads [OF sink refl st' nz src refl, of
      "\<lparr>hw_sig_out = 0, arena_out = replicate 42 0, format_out = None\<rparr>" "replicate 4 0" "replicate 24 0" "replicate 24 0" "replicate 8 0"]
  obtain src' where "rmr_ata_load_fd (Some (pipe 3)) st' (replicate 4 0) (replicate 24 0) (replicate 24 0) (replicate 8 0)
      (Some \<lparr>hw_sig_out = 0, arena_out = replicate 42 0, format_out = None\<rparr>) 42 =
    (42, Some \<lparr>hw_sig_out = 7, arena_out = omega_ticks (\<lambda>k. 1000 + k), format_out = None\<rparr>, src')"
    by (auto simp: e)
  with st' show ?thesis by blast
qed

end
