(* ===== verification/Omega_Sync.thy ===== *)
theory Omega_Sync
  imports Omega
begin

text \<open>
  The two readers of the ATA OMEGA stream: \<open>rmr/runtime/sync_omega.c\<close>, which prints piece by piece, and
  \<open>rmr/runtime/sync_fast.c\<close>, which collects its output in one array of 128 KiB and writes it at the end. The
  registers \<open>CNTFRQ\<close> and \<open>MIDR\<close> are constants of the machine; \<open>cntvct i\<close> is the reading of the virtual counter for
  line \<open>i\<close>, \<open>cntvct 0\<close> the one of the heading. What is printed is a string.
\<close>

record sync_env =
  cntfrq :: u64
  midr :: u64
  cntvct :: "nat \<Rightarrow> u64"

definition load_ata ::
  "int \<Rightarrow> 's read_fn \<Rightarrow> 's \<Rightarrow> bytes \<Rightarrow> bytes \<Rightarrow> bytes \<Rightarrow> bytes \<Rightarrow> ata_out \<Rightarrow> int \<Rightarrow> int \<times> ata_out \<times> 's" where
  "load_ata fd rd st magic probe record tail out cap =
    (if fd < 0 then (-1, out, st)
     else case rmr_ata_load_fd (Some rd) st magic probe record tail (Some out) cap of
       (loaded, out', st) \<Rightarrow> (loaded, the out', st))"

definition sync_seed :: "sync_env \<Rightarrow> u64" where
  "sync_seed e = 0x524641 XOR push_bit 1 (midr e) XOR push_bit 7 (cntfrq e)"

text \<open>The value of line \<open>i\<close>; both programs compute it the same way.\<close>

definition sync_x :: "sync_env \<Rightarrow> int \<Rightarrow> u64 list \<Rightarrow> nat \<Rightarrow> u64" where
  "sync_x e loaded arena i =
    (let t = cntvct e i;
         cyc = (if loaded > 0 then arena ! ((i - 1) mod nat loaded) else 0)
     in mix64 (sync_seed e XOR t XOR (cyc * 0x9e3779b97f4a7c15) XOR of_nat i))"

definition id_text :: "nat \<Rightarrow> string" where
  "id_text n = [char_of (48 + (n div 100) mod 10), char_of (48 + (n div 10) mod 10), char_of (48 + n mod 10)]"

definition dashes :: string where "dashes = replicate 62 (CHR ''-'')"

definition at_or_first :: "int \<Rightarrow> nat \<Rightarrow> u64 list \<Rightarrow> u64" where
  "at_or_first loaded i arena = arena ! (if loaded > int i then i else 0)"

section \<open>The printing reader\<close>

definition omega_line :: "sync_env \<Rightarrow> int \<Rightarrow> u64 list \<Rightarrow> nat \<Rightarrow> string" where
  "omega_line e loaded arena i =
    (let x = sync_x e loaded arena i; p = p9 x; bx = v20 x; id = id_text i; pc = digit_text p
     in ''[CHAVE:'' @ id @ ''] [X:'' @ bx @ ''] [P:'' @ pc @ ''] '' @
        (if p = 9 then ''SINGULARIDADE_OMEGA'' @ newline
         else if p = 3 \<or> p = 6 then ''RESSONANCIA'' @ newline else ''FLUXO'' @ newline))"

fun omega_lines :: "sync_env \<Rightarrow> int \<Rightarrow> u64 list \<Rightarrow> nat \<Rightarrow> nat \<Rightarrow> string" where
  "omega_lines e loaded arena i 0 = []"
| "omega_lines e loaded arena i (Suc n) = omega_line e loaded arena i @ omega_lines e loaded arena (i + 1) n"

definition sync_omega_head :: "sync_env \<Rightarrow> int \<Rightarrow> ata_out \<Rightarrow> string" where
  "sync_omega_head e loaded out =
    newline @ ''[RAFAELIA_SYNC_OMEGA] ARM64 no-libc :: ATA + CLOCK + 3-6-9'' @ newline @
    ''CNTFRQ(V20): '' @ v20 (cntfrq e) @ newline @ ''CNTVCT(V20): '' @ v20 (cntvct e 0) @ newline @
    ''MIDR (V20): '' @ v20 (midr e AND 0xffffffff) @ newline @ dashes @ newline @
    (if loaded > 0 then
       ''ATA_FORMAT: '' @ (if format_out out = Some RMR_ATA_FORMAT_V1 then ''V1_EXTENDED'' else ''LEGACY_COMPACT'') @ newline @
       ''ATA_HW_SIG(V20): '' @ v20 (hw_sig_out out) @ newline @
       ''ATA_LOADED: '' @ [char_of (48 + nat loaded div 10), char_of (48 + nat loaded mod 10)] @ newline @
       ''CYC0: '' @ v20 (arena_out out ! 0) @ newline @
       ''CYC1: '' @ v20 (at_or_first loaded 1 (arena_out out)) @ newline @
       ''CYC2: '' @ v20 (at_or_first loaded 2 (arena_out out)) @ newline @ dashes @ newline
     else ''WARN: ATA_OMEGA.bin invalida/ausente. SYNC em modo clock-only.'' @ newline @ dashes @ newline)"

definition sync_omega_main :: "sync_env \<Rightarrow> int \<Rightarrow> ata_out \<Rightarrow> string" where
  "sync_omega_main e loaded out =
    sync_omega_head e loaded out @ omega_lines e loaded (arena_out out) 1 42 @
    dashes @ newline @ ''OK: SYNC concluido.'' @ newline"

section \<open>The buffering reader\<close>

definition OUT_CAP :: nat where "OUT_CAP = 128 * 1024"

definition b_putc :: "string \<Rightarrow> char \<Rightarrow> string" where
  "b_putc OUT c = (if length OUT < OUT_CAP then OUT @ [c] else OUT)"

fun b_puts :: "string \<Rightarrow> string \<Rightarrow> string" where
  "b_puts OUT [] = OUT"
| "b_puts OUT (c # cs) = b_puts (b_putc OUT c) cs"

definition b_putnl :: "string \<Rightarrow> string" where
  "b_putnl OUT = b_putc OUT (CHR 0x0A)"

definition b_put_u3 :: "string \<Rightarrow> nat \<Rightarrow> string" where
  "b_put_u3 OUT n = b_putc (b_putc (b_putc OUT (char_of (48 + (n div 100) mod 10))) (char_of (48 + (n div 10) mod 10)))
     (char_of (48 + n mod 10))"

text \<open>The numeral's characters leave \<open>tmp\<close> from the last to the first.\<close>

fun b_put_back :: "string \<Rightarrow> string \<Rightarrow> string" where
  "b_put_back OUT [] = OUT"
| "b_put_back OUT (c # tmp) = b_putc (b_put_back OUT tmp) c"

definition b_put_v20 :: "string \<Rightarrow> u64 \<Rightarrow> string" where
  "b_put_v20 OUT n = (if n = 0 then b_putc OUT (CHR ''0'') else b_put_back OUT (v20_tmp n))"

definition fast_hdr :: "sync_env \<Rightarrow> string \<Rightarrow> string" where
  "fast_hdr e OUT =
    (let OUT = b_puts OUT ''[RAFAELIA_SYNC_OMEGA_FAST] ARM64 no-libc :: ATA + CLOCK + 3-6-9''; OUT = b_putnl OUT;
         OUT = b_puts OUT ''CNTFRQ(V20): ''; OUT = b_put_v20 OUT (cntfrq e); OUT = b_putnl OUT;
         OUT = b_puts OUT ''CNTVCT(V20): ''; OUT = b_put_v20 OUT (cntvct e 0); OUT = b_putnl OUT;
         OUT = b_puts OUT ''MIDR (V20): ''; OUT = b_put_v20 OUT (midr e AND 0xffffffff); OUT = b_putnl OUT;
         OUT = b_puts OUT dashes
     in b_putnl OUT)"

definition fast_ata :: "int \<Rightarrow> ata_out \<Rightarrow> string \<Rightarrow> string" where
  "fast_ata loaded out OUT =
    (if loaded > 0 then
       let OUT = b_puts OUT ''ATA_FORMAT: '';
           OUT = b_puts OUT (if format_out out = Some RMR_ATA_FORMAT_V1 then ''V1_EXTENDED'' else ''LEGACY_COMPACT'');
           OUT = b_putnl OUT;
           OUT = b_puts OUT ''ATA_HW_SIG(V20): ''; OUT = b_put_v20 OUT (hw_sig_out out); OUT = b_putnl OUT;
           OUT = b_puts OUT ''ATA_LOADED: ''; OUT = b_put_v20 OUT (of_int loaded); OUT = b_putnl OUT;
           OUT = b_puts OUT ''CYC0: ''; OUT = b_put_v20 OUT (arena_out out ! 0); OUT = b_putnl OUT;
           OUT = b_puts OUT ''CYC1: ''; OUT = b_put_v20 OUT (at_or_first loaded 1 (arena_out out)); OUT = b_putnl OUT;
           OUT = b_puts OUT ''CYC2: ''; OUT = b_put_v20 OUT (at_or_first loaded 2 (arena_out out)); OUT = b_putnl OUT;
           OUT = b_puts OUT dashes
       in b_putnl OUT
     else
       let OUT = b_puts OUT ''WARN: ATA_OMEGA.bin invalida/ausente. (clock-only)''; OUT = b_putnl OUT;
           OUT = b_puts OUT dashes
       in b_putnl OUT)"

definition fast_line :: "sync_env \<Rightarrow> int \<Rightarrow> u64 list \<Rightarrow> nat \<Rightarrow> string \<Rightarrow> string" where
  "fast_line e loaded arena i OUT =
    (let x = sync_x e loaded arena i;
         p = p9 x;
         OUT = b_puts OUT ''[CHAVE:''; OUT = b_put_u3 OUT i; OUT = b_puts OUT ''] [X:'';
         OUT = b_put_v20 OUT x;
         OUT = b_puts OUT ''] [P:''; OUT = b_putc OUT (char_of (48 + p)); OUT = b_puts OUT ''] '';
         OUT = (if p = 9 then b_puts OUT ''SINGULARIDADE_OMEGA''
                else if p = 3 \<or> p = 6 then b_puts OUT ''RESSONANCIA'' else b_puts OUT ''FLUXO'')
     in b_putnl OUT)"

fun fast_lines :: "sync_env \<Rightarrow> int \<Rightarrow> u64 list \<Rightarrow> nat \<Rightarrow> nat \<Rightarrow> string \<Rightarrow> string" where
  "fast_lines e loaded arena i 0 OUT = OUT"
| "fast_lines e loaded arena i (Suc n) OUT = fast_lines e loaded arena (i + 1) n (fast_line e loaded arena i OUT)"

text \<open>What the single \<open>sys_write\<close> at the end gets.\<close>

definition sync_fast_main :: "sync_env \<Rightarrow> int \<Rightarrow> ata_out \<Rightarrow> string" where
  "sync_fast_main e loaded out =
    (let OUT = fast_hdr e [];
         OUT = fast_ata loaded out OUT;
         OUT = fast_lines e loaded (arena_out out) 1 42 OUT;
         OUT = b_puts OUT dashes; OUT = b_putnl OUT;
         OUT = b_puts OUT ''OK: SYNC FAST concluido.''
     in b_putnl OUT)"

section \<open>The buffer loses nothing\<close>

text \<open>Writing into the buffer is appending and cutting at the capacity.\<close>

definition cut :: "string \<Rightarrow> string" where
  "cut s = take OUT_CAP s"

lemma b_putc_cut [simp]: "b_putc (cut s) c = cut (s @ [c])"
  by (auto simp: b_putc_def cut_def min_def not_less)

lemma b_puts_cut [simp]: "b_puts (cut s) t = cut (s @ t)"
  by (induction t arbitrary: s) simp_all

declare b_puts.simps [simp del]

lemma b_putnl_cut [simp]: "b_putnl (cut s) = cut (s @ newline)"
  by (simp add: b_putnl_def newline_def)

lemma b_put_back_cut: "b_put_back (cut s) t = cut (s @ rev t)"
  by (induction t) simp_all

lemma b_put_v20_cut [simp]: "b_put_v20 (cut s) n = cut (s @ v20 n)"
  by (simp add: b_put_v20_def v20_def b_put_back_cut)

lemma b_put_u3_cut [simp]: "b_put_u3 (cut s) n = cut (s @ id_text n)"
  by (simp add: b_put_u3_def id_text_def)

lemma fast_line_cut [simp]: "fast_line e loaded arena i (cut s) = cut (s @ omega_line e loaded arena i)"
  by (simp add: fast_line_def omega_line_def Let_def digit_text_def)

lemma fast_lines_cut [simp]: "fast_lines e loaded arena i n (cut s) = cut (s @ omega_lines e loaded arena i n)"
  by (induction n arbitrary: i s) simp_all

text \<open>The text before and after the lines of the keys.\<close>

definition fast_hdr_text :: "sync_env \<Rightarrow> string" where
  "fast_hdr_text e =
    ''[RAFAELIA_SYNC_OMEGA_FAST] ARM64 no-libc :: ATA + CLOCK + 3-6-9'' @ newline @
    ''CNTFRQ(V20): '' @ v20 (cntfrq e) @ newline @ ''CNTVCT(V20): '' @ v20 (cntvct e 0) @ newline @
    ''MIDR (V20): '' @ v20 (midr e AND 0xffffffff) @ newline @ dashes @ newline"

definition fast_ata_text :: "int \<Rightarrow> ata_out \<Rightarrow> string" where
  "fast_ata_text loaded out =
    (if loaded > 0 then
       ''ATA_FORMAT: '' @ (if format_out out = Some RMR_ATA_FORMAT_V1 then ''V1_EXTENDED'' else ''LEGACY_COMPACT'') @ newline @
       ''ATA_HW_SIG(V20): '' @ v20 (hw_sig_out out) @ newline @
       ''ATA_LOADED: '' @ v20 (of_int loaded) @ newline @
       ''CYC0: '' @ v20 (arena_out out ! 0) @ newline @
       ''CYC1: '' @ v20 (at_or_first loaded 1 (arena_out out)) @ newline @
       ''CYC2: '' @ v20 (at_or_first loaded 2 (arena_out out)) @ newline @ dashes @ newline
     else ''WARN: ATA_OMEGA.bin invalida/ausente. (clock-only)'' @ newline @ dashes @ newline)"

lemma fast_hdr_cut [simp]: "fast_hdr e (cut s) = cut (s @ fast_hdr_text e)"
  by (simp add: fast_hdr_def fast_hdr_text_def Let_def)

lemma fast_ata_cut [simp]: "fast_ata loaded out (cut s) = cut (s @ fast_ata_text loaded out)"
  by (simp add: fast_ata_def fast_ata_text_def Let_def)

definition fast_after :: string where
  "fast_after = dashes @ newline @ ''OK: SYNC FAST concluido.'' @ newline"

lemma v20_length: "length (v20 x) \<le> 15"
  using v20_reads_back [of x] by simp

lemma omega_line_length: "length (omega_line e loaded arena i) \<le> 58"
  using v20_length [of "sync_x e loaded arena i"] by (simp add: omega_line_def Let_def id_text_def digit_text_def newline_def)

lemma omega_lines_length: "length (omega_lines e loaded arena i n) \<le> 58 * n"
proof (induction n arbitrary: i)
  case (Suc n)
  show ?case using omega_line_length [of e loaded arena i] Suc [of "i + 1"] by simp
qed simp

lemma fast_heading_length: "length (fast_hdr_text e @ fast_ata_text loaded out) \<le> 1000"
  using v20_length [of "cntfrq e"] v20_length [of "cntvct e 0"] v20_length [of "midr e AND 0xffffffff"]
    v20_length [of "hw_sig_out out"] v20_length [of "of_int loaded"] v20_length [of "arena_out out ! 0"]
    v20_length [of "at_or_first loaded 1 (arena_out out)"] v20_length [of "at_or_first loaded 2 (arena_out out)"]
  by (simp add: fast_hdr_text_def fast_ata_text_def newline_def dashes_def)

text \<open>
  C34. The buffer of the fast reader never drops a character, whatever was loaded and whatever the counters
  show, and between its heading and its last lines it prints, character for character, the 42 lines that the
  unbuffered reader prints for the same readings.
\<close>

theorem sync_readers_agree:
  "sync_fast_main e loaded out =
     fast_hdr_text e @ fast_ata_text loaded out @ omega_lines e loaded (arena_out out) 1 42 @ fast_after \<and>
   length (sync_fast_main e loaded out) < OUT_CAP \<and>
   sync_omega_main e loaded out = sync_omega_head e loaded out @ omega_lines e loaded (arena_out out) 1 42 @
     dashes @ newline @ ''OK: SYNC concluido.'' @ newline"
proof -
  let ?t = "fast_hdr_text e @ fast_ata_text loaded out @ omega_lines e loaded (arena_out out) 1 42 @ fast_after"
  have nil: "[] = cut []" by (simp add: cut_def)
  have "sync_fast_main e loaded out = cut ?t"
    unfolding sync_fast_main_def Let_def
    by (subst nil) (simp only: fast_hdr_cut fast_ata_cut fast_lines_cut b_puts_cut b_putnl_cut append_Nil append_assoc fast_after_def)
  moreover have "length ?t < OUT_CAP"
    using fast_heading_length [of e loaded out] omega_lines_length [of e loaded "arena_out out" 1 42]
    by (simp add: fast_after_def newline_def dashes_def OUT_CAP_def del: omega_lines.simps)
  ultimately show ?thesis by (simp add: cut_def sync_omega_main_def del: omega_lines.simps)
qed

text \<open>
  The two readers name the number of loaded records differently: \<open>22\<close> to base 20 in the buffered one, under the
  same label.
\<close>

lemma loaded_named_differently: "v20 (of_int 42) = ''22'' \<and> [char_of (48 + nat 42 div 10), char_of (48 + nat 42 mod 10)] = ''42''"
proof -
  have "v20_tmp 42 = ''22''" by (simp add: v20_tmp.simps G20_def)
  moreover have "[char_of (48 + nat 42 div 10), char_of (48 + nat 42 mod 10)] = ''42''" by code_simp
  ultimately show ?thesis by (simp add: v20_def)
qed

end
