(* ===== verification/File_Hash.thy ===== *)
theory File_Hash
  imports Hasher_Correct Sha256_Correct Integers
begin

text \<open>
  The file digests of the \<open>pai\<close> program: \<open>rmr/core/hash_blake3.c\<close>, \<open>hash_blake3_file.c\<close> and
  \<open>hash_sha256_file.c\<close>, on the hashers modelled in \<open>Hasher\<close> and \<open>Sha256\<close>. A file that can be opened is the bytes
  that \<open>fread\<close> delivers before it stops, and whether it stopped on an error; one that cannot is \<open>None\<close>.
\<close>

type_synonym file_bytes = "(bytes \<times> bool) option"

definition pai_digest_hex32 :: "bytes \<Rightarrow> string" where
  "pai_digest_hex32 digest =
    concat (map (\<lambda>i. [''0123456789abcdef'' ! unat (drop_bit 4 (digest ! i)), ''0123456789abcdef'' ! unat (digest ! i AND 0x0f)])
      [0..<32])"

text \<open>A missing pointer is \<open>None\<close>; the length of a present buffer is its own.\<close>

definition pai_blake3_bytes :: "platform \<Rightarrow> blake3_hasher \<Rightarrow> bytes option \<Rightarrow> nat \<Rightarrow> bool \<Rightarrow> int \<times> bytes option" where
  "pai_blake3_bytes p hasher data len out_present =
    (if (data = None \<and> len \<noteq> 0) \<or> \<not> out_present then (-1, None)
     else
       let hasher = blake3_hasher_init hasher;
           hasher = blake3_hasher_update p hasher (case data of None \<Rightarrow> [] | Some d \<Rightarrow> take len d)
       in (0, Some (blake3_hasher_finalize p hasher 32)))"

text \<open>
  The reading loop of both files: each \<open>fread\<close> fills a buffer of \<open>size\<close> bytes unless the file ends first. \<open>None\<close>
  is the return after \<open>ferror\<close>.
\<close>

function read_all :: "('c \<Rightarrow> bytes \<Rightarrow> 'c) \<Rightarrow> nat \<Rightarrow> 'c \<Rightarrow> bytes \<Rightarrow> bool \<Rightarrow> 'c option" where
  "read_all update buf_size ctx data err =
    (let piece = take buf_size data;
         ctx = (if length piece \<noteq> 0 then update ctx piece else ctx)
     in if length piece < buf_size \<or> buf_size = 0 then if err then None else Some ctx
        else read_all update buf_size ctx (drop buf_size data) err)"
  by pat_completeness auto
termination by (relation "measure (\<lambda>(update, buf_size, ctx, data, err). length data)") auto

declare read_all.simps [simp del]

definition pai_blake3_file :: "platform \<Rightarrow> blake3_hasher \<Rightarrow> file_bytes \<Rightarrow> bytes option" where
  "pai_blake3_file p hasher f = (case f of None \<Rightarrow> None
   | Some (data, err) \<Rightarrow>
       (case read_all (blake3_hasher_update p) (64 * 1024) (blake3_hasher_init hasher) data err of
          None \<Rightarrow> None
        | Some hasher \<Rightarrow> Some (blake3_hasher_finalize p hasher 32)))"

definition pai_sha256_file :: "pai_sha256_ctx \<Rightarrow> file_bytes \<Rightarrow> bytes option" where
  "pai_sha256_file ctx f = (case f of None \<Rightarrow> None
   | Some (data, err) \<Rightarrow>
       (case read_all pai_sha256_update 4096 (pai_sha256_init ctx) data err of
          None \<Rightarrow> None
        | Some ctx \<Rightarrow> map_option snd (pai_sha256_final ctx)))"

section \<open>The loops absorb the file\<close>

lemma read_all_pieces:
  "0 < size' \<Longrightarrow> \<exists>pieces. concat pieces = data \<and>
    read_all update size' ctx data err = (if err then None else Some (foldl update ctx pieces))"
proof (induction update size' ctx data err rule: read_all.induct)
  case (1 update size' ctx data err)
  let ?p = "take size' data" and ?c = "if length (take size' data) \<noteq> 0 then update ctx (take size' data) else ctx"
  show ?case
  proof (cases "length ?p < size'")
    case True
    then have "data = ?p" using "1.prems" by simp
    then show ?thesis
      using True by (subst read_all.simps) (intro exI [of _ "if data = [] then [] else [data]"], auto simp: Let_def)
  next
    case False
    have "\<exists>pieces. concat pieces = drop size' data \<and>
      read_all update size' ?c (drop size' data) err = (if err then None else Some (foldl update ?c pieces))"
      by (rule "1.IH" [OF refl refl _ "1.prems"]) (use False "1.prems" in auto)
    then obtain pieces where pieces: "concat pieces = drop size' data"
        "read_all update size' ?c (drop size' data) err = (if err then None else Some (foldl update ?c pieces))" by blast
    have "?c = update ctx ?p" using False "1.prems" by auto
    then have "read_all update size' ctx data err = (if err then None else Some (foldl update ctx (?p # pieces)))"
      using False pieces(2) "1.prems" by (subst read_all.simps) (simp add: Let_def)
    moreover have "concat (?p # pieces) = data" using pieces(1) by simp
    ultimately show ?thesis by blast
  qed
qed

text \<open>The two digests as functions of the contents.\<close>

definition blake3_of :: "bytes \<Rightarrow> bytes" where
  "blake3_of data = blake3_spec IV 0 data 0 32"

lemma hasher_digest:
  assumes "length (h_cv_stack h) = CV_STACK_BYTES" "length (concat pieces) < 2 ^ 64"
  shows "blake3_hasher_finalize p (foldl (blake3_hasher_update p) (blake3_hasher_init h) pieces) 32 = blake3_of (concat pieces)"
  unfolding blake3_hasher_finalize_def blake3_hasher_init_def blake3_of_def
  using hash_updates [of IV h pieces 32 p 0 0] assms by simp

lemma sha_digest:
  assumes "length (sha_buf ctx) = 64"
  shows "map_option snd (pai_sha256_final (foldl pai_sha256_update (pai_sha256_init ctx) pieces)) = Some (sha256_spec (concat pieces))"
  using sha_final_absorbed [OF sha_absorbed_pieces [OF sha_absorbed_init [OF assms]], of pieces] by auto

lemma pai_blake3_file_result:
  assumes "length (h_cv_stack h) = CV_STACK_BYTES" "length data < 2 ^ 64"
  shows "pai_blake3_file p h (Some (data, err)) = (if err then None else Some (blake3_of data))"
  using read_all_pieces [of "64 * 1024" data "blake3_hasher_update p" "blake3_hasher_init h" err] hasher_digest [OF assms(1)] assms(2)
  by (auto simp: pai_blake3_file_def)

lemma pai_sha256_file_result:
  assumes "length (sha_buf ctx) = 64"
  shows "pai_sha256_file ctx (Some (data, err)) = (if err then None else Some (sha256_spec data))"
  using read_all_pieces [of 4096 data pai_sha256_update "pai_sha256_init ctx" err] sha_digest [OF assms]
  by (auto simp: pai_sha256_file_def)

end
