(* ===== verification/Scan.thy ===== *)
theory Scan
  imports File_Hash "HOL-Library.List_Lexorder" "HOL-Library.Char_ord" "HOL-Library.Multiset"
begin

text \<open>
  The directory scanner \<open>rmr/core/scan.c\<close>: the filters on paths, the recursive walk that writes the manifest and
  feeds its digest, and the command. The file system is a parameter: what \<open>opendir\<close>/\<open>readdir\<close>, \<open>stat\<close>/\<open>lstat\<close> and the
  reads of a file give for a path. A path is a C string without its terminator; \<open>snprintf\<close> into a buffer of
  \<open>PAI_MAX_PATH\<close> bytes cuts it. Allocation always succeeds, and what is printed on the terminal is left out.
\<close>

type_synonym path = string

datatype (plugins only: code size) node_kind = Dir_node | Reg_node | Other_node

record file_system =
  opendir :: "path \<Rightarrow> string list option"            \<comment> \<open>the names in the order \<open>readdir\<close> gives them\<close>
  stat_of :: "bool \<Rightarrow> path \<Rightarrow> (node_kind \<times> int) option"  \<comment> \<open>\<open>stat\<close> if links are followed, else \<open>lstat\<close>\<close>
  contents :: "path \<Rightarrow> file_bytes"

record pai_scan_opts =
  base_dir :: "path option"
  out_dir :: "path option"
  include_hidden :: bool
  follow_symlinks :: bool
  max_depth :: int
  max_size :: int
  hash_algo :: "string option"
  excludes :: "string option list"

definition PAI_MAX_PATH :: nat where "PAI_MAX_PATH = 4096"
definition PAI_MAX_ENTRIES :: nat where "PAI_MAX_ENTRIES = 200000"

section \<open>Paths\<close>

definition is_hidden_name :: "string \<Rightarrow> bool" where
  "is_hidden_name n = (take 1 n = ''.'' \<and> n \<noteq> ''.'' \<and> n \<noteq> ''..'')"

definition join_path :: "nat \<Rightarrow> path option \<Rightarrow> path option \<Rightarrow> path" where
  "join_path cap a b = (case (a, b) of
     (Some a, Some b) \<Rightarrow>
       let la = length a
       in if la = 0 then take (cap - 1) b
          else if a ! (la - 1) = CHR ''/'' then take (cap - 1) (a @ b) else take (cap - 1) (a @ ''/'' @ b)
   | _ \<Rightarrow> [])"

definition rel_path :: "path \<Rightarrow> path \<Rightarrow> path" where
  "rel_path base full =
    (let lb = length base
     in if lb = 0 then full
        else if take lb full = base then
          if lb < length full \<and> full ! lb = CHR ''/'' then drop (lb + 1) full
          else if length full = lb then ''.'' else full
        else full)"

definition path_eq_or_prefix :: "path \<Rightarrow> path \<Rightarrow> bool" where
  "path_eq_or_prefix p q =
    (let lp = length p
     in if p = q then True else if take lp q = p \<and> lp < length q \<and> q ! lp = CHR ''/'' then True else False)"

definition is_excluded :: "pai_scan_opts \<Rightarrow> path \<Rightarrow> path \<Rightarrow> bool" where
  "is_excluded opt base full =
    (let rp = rel_path base full
     in list_ex (\<lambda>ex. case ex of None \<Rightarrow> False
          | Some ex \<Rightarrow> ex \<noteq> [] \<and> (if hd ex = CHR ''/'' then path_eq_or_prefix ex full else path_eq_or_prefix ex rp))
        (excludes opt))"

section \<open>The digest of the manifest\<close>

record pai_manifest_digest_ctx =
  use_blake3 :: bool
  md_sha256 :: pai_sha256_ctx
  md_blake3 :: blake3_hasher

definition algo_is_blake3 :: "string option \<Rightarrow> bool" where
  "algo_is_blake3 algo = (algo = Some ''blake3'')"

definition manifest_digest_init :: "pai_manifest_digest_ctx \<Rightarrow> string option \<Rightarrow> pai_manifest_digest_ctx" where
  "manifest_digest_init ctx algo =
    (let ctx = ctx\<lparr>use_blake3 := algo_is_blake3 algo\<rparr>
     in if use_blake3 ctx then ctx\<lparr>md_blake3 := blake3_hasher_init (md_blake3 ctx)\<rparr>
        else ctx\<lparr>md_sha256 := pai_sha256_init (md_sha256 ctx)\<rparr>)"

definition manifest_digest_update :: "platform \<Rightarrow> pai_manifest_digest_ctx \<Rightarrow> bytes \<Rightarrow> pai_manifest_digest_ctx" where
  "manifest_digest_update p ctx data =
    (if use_blake3 ctx then ctx\<lparr>md_blake3 := blake3_hasher_update p (md_blake3 ctx) data\<rparr>
     else ctx\<lparr>md_sha256 := pai_sha256_update (md_sha256 ctx) data\<rparr>)"

definition manifest_digest_final :: "platform \<Rightarrow> pai_manifest_digest_ctx \<Rightarrow> bytes option" where
  "manifest_digest_final p ctx =
    (if use_blake3 ctx then Some (blake3_hasher_finalize p (md_blake3 ctx) 32)
     else map_option snd (pai_sha256_final (md_sha256 ctx)))"

text \<open>The two uninitialised contexts of a call of the file digest come with the model's parameter \<open>u\<close>.\<close>

definition hash_file_for_algo ::
  "platform \<Rightarrow> pai_manifest_digest_ctx \<Rightarrow> string option \<Rightarrow> file_bytes \<Rightarrow> bytes option" where
  "hash_file_for_algo p u algo f =
    (if algo_is_blake3 algo then pai_blake3_file p (md_blake3 u) f else pai_sha256_file (md_sha256 u) f)"

definition lld_text :: "int \<Rightarrow> string" where
  "lld_text x = (if x < 0 then ''-'' @ dec_text (nat (- x)) else dec_text (nat x))"

definition manifest_line :: "string \<Rightarrow> int \<Rightarrow> string \<Rightarrow> string" where
  "manifest_line rel sz hex = rel @ [CHR 0x09] @ lld_text sz @ [CHR 0x09] @ hex @ [CHR 0x0A]"

text \<open>
  The line is formatted into 4224 bytes; the digest gets as many as the whole line has, so the text must fit
  (\<open>manifest_line_fits\<close>).
\<close>

definition manifest_line_update ::
  "platform \<Rightarrow> pai_manifest_digest_ctx \<Rightarrow> string \<Rightarrow> int \<Rightarrow> string \<Rightarrow> pai_manifest_digest_ctx option" where
  "manifest_line_update p mctx rel sz hex =
    (let buf = manifest_line rel sz hex; n = length buf
     in if n > 0 then if n < PAI_MAX_PATH + 128 then Some (manifest_digest_update p mctx (text_bytes buf)) else None
        else Some mctx)"

section \<open>The walk\<close>

text \<open>The manifest written so far and its digest.\<close>

record scan_out =
  mf :: string
  mctx :: pai_manifest_digest_ctx

text \<open>
  The first loop of \<open>scan_dir_rec\<close>: the accepted names, \<open>n\<close> of them before this call, or \<open>None\<close> where the limit is
  hit.
\<close>

fun read_entries :: "pai_scan_opts \<Rightarrow> path \<Rightarrow> path \<Rightarrow> nat \<Rightarrow> string list \<Rightarrow> string list option" where
  "read_entries opt base dirpath n [] = Some []"
| "read_entries opt base dirpath n (name # names) =
    (if name = ''.'' \<or> name = ''..'' then read_entries opt base dirpath n names
     else if \<not> include_hidden opt \<and> is_hidden_name name then read_entries opt base dirpath n names
     else if n \<ge> PAI_MAX_ENTRIES then None
     else
       let full = join_path PAI_MAX_PATH (Some dirpath) (Some name)
       in if is_excluded opt base full then read_entries opt base dirpath n names
          else map_option (\<lambda>es. name # es) (read_entries opt base dirpath (n + 1) names))"

text \<open>
  The second loop, over the sorted names. \<open>visit\<close> is the recursive call; its return code is dropped. \<open>None\<close> is a
  recursive call that does not return within the fuel, or a line that overflows its buffer.
\<close>

fun scan_entries ::
  "platform \<Rightarrow> pai_manifest_digest_ctx \<Rightarrow> file_system \<Rightarrow> pai_scan_opts \<Rightarrow> path \<Rightarrow> path \<Rightarrow>
   (path \<Rightarrow> scan_out \<Rightarrow> (int \<times> scan_out) option) \<Rightarrow> string list \<Rightarrow> scan_out \<Rightarrow> scan_out option" where
  "scan_entries p u fs opt base dirpath visit [] s = Some s"
| "scan_entries p u fs opt base dirpath visit (name # names) s =
    (let full = join_path PAI_MAX_PATH (Some dirpath) (Some name);
         next = scan_entries p u fs opt base dirpath visit names
     in if is_excluded opt base full then next s
        else case stat_of fs (follow_symlinks opt) full of
          None \<Rightarrow> next s
        | Some (kind, sz) \<Rightarrow>
            if kind = Dir_node then (case visit full s of None \<Rightarrow> None | Some (r, s) \<Rightarrow> next s)
            else if kind = Reg_node then
              if max_size opt \<ge> 0 \<and> sz > max_size opt then next s
              else case hash_file_for_algo p u (hash_algo opt) (contents fs full) of
                None \<Rightarrow> next s
              | Some h \<Rightarrow>
                  let hex = pai_digest_hex32 h;
                      rp = rel_path base full;
                      s = s\<lparr>mf := mf s @ manifest_line rp sz hex\<rparr>
                  in (case manifest_line_update p (mctx s) rp sz hex of None \<Rightarrow> None
                     | Some c \<Rightarrow> next (s\<lparr>mctx := c\<rparr>))
            else next s)"

fun scan_dir_rec ::
  "nat \<Rightarrow> platform \<Rightarrow> pai_manifest_digest_ctx \<Rightarrow> file_system \<Rightarrow> pai_scan_opts \<Rightarrow> path \<Rightarrow> path \<Rightarrow> int \<Rightarrow> scan_out \<Rightarrow>
   (int \<times> scan_out) option" where
  "scan_dir_rec 0 p u fs opt base dirpath depth s = None"
| "scan_dir_rec (Suc fuel) p u fs opt base dirpath depth s =
    (if max_depth opt \<ge> 0 \<and> depth > max_depth opt then Some (0, s)
     else if is_excluded opt base dirpath then Some (0, s)
     else case opendir fs dirpath of
       None \<Rightarrow> Some (-1, s)
     | Some names \<Rightarrow>
         (case read_entries opt base dirpath 0 names of
            None \<Rightarrow> Some (-1, s)
          | Some entries \<Rightarrow>
              map_option (\<lambda>s. (0, s))
                (scan_entries p u fs opt base dirpath
                   (\<lambda>full s. scan_dir_rec fuel p u fs opt base full (depth + 1) s) (sort entries) s)))"

section \<open>The command\<close>

text \<open>Which of the files to be written can be created.\<close>

record scan_env =
  mkdir_ok :: bool
  manifest_opens :: bool
  linear_root_opens :: bool
  merkle_opens :: bool

record scan_result =
  code :: int
  manifest :: "string option"
  linear_root :: "string option"
  merkle_root :: "string option"

definition write_root_file :: "bool \<Rightarrow> string \<Rightarrow> string option" where
  "write_root_file opens hex = (if opens then Some (hex @ [CHR 0x0A]) else None)"

definition pai_scan_run ::
  "nat \<Rightarrow> platform \<Rightarrow> pai_manifest_digest_ctx \<Rightarrow> file_system \<Rightarrow> scan_env \<Rightarrow> pai_scan_opts option \<Rightarrow> scan_result option" where
  "pai_scan_run fuel p u fs env opt =
    (let none = \<lparr>code = 0, manifest = None, linear_root = None, merkle_root = None\<rparr>
     in case opt of
       None \<Rightarrow> Some (none\<lparr>code := 1\<rparr>)
     | Some opt \<Rightarrow>
         if base_dir opt = None \<or> out_dir opt = None then Some (none\<lparr>code := 1\<rparr>)
         else
           let base = the (base_dir opt)
           in if opendir fs base = None then Some (none\<lparr>code := 3\<rparr>)
              else if \<not> mkdir_ok env then Some (none\<lparr>code := 4\<rparr>)
              else if \<not> (hash_algo opt = None \<or> hash_algo opt = Some ''sha256'' \<or> hash_algo opt = Some ''blake3'') then
                Some (none\<lparr>code := 5\<rparr>)
              else if \<not> manifest_opens env then Some (none\<lparr>code := 1\<rparr>)
              else
                let head = ''# hash='' @ (case hash_algo opt of None \<Rightarrow> ''sha256'' | Some a \<Rightarrow> a) @ [CHR 0x0A]
                in case scan_dir_rec fuel p u fs opt base base 0 \<lparr>mf = head, mctx = manifest_digest_init u (hash_algo opt)\<rparr> of
                     None \<Rightarrow> None
                   | Some (rc, s) \<Rightarrow>
                       (case manifest_digest_final p (mctx s) of
                          None \<Rightarrow> None
                        | Some root \<Rightarrow>
                            let hex = pai_digest_hex32 root;
                                res = none\<lparr>manifest := Some (mf s)\<rparr>
                            in case write_root_file (linear_root_opens env) hex of
                                 None \<Rightarrow> Some (res\<lparr>code := 1\<rparr>)
                               | Some lr \<Rightarrow>
                                   (case write_root_file (merkle_opens env) hex of
                                      None \<Rightarrow> Some (res\<lparr>code := 1, linear_root := Some lr\<rparr>)
                                    | Some mr \<Rightarrow>
                                        Some (res\<lparr>code := (if rc = 0 then 0 else 2), linear_root := Some lr, merkle_root := Some mr\<rparr>))))"

text \<open>\<open>atoi\<close> and \<open>atoll\<close>: the value of the longest numeral after white space (that it fits its type is the caller's business).\<close>

definition ascii_space :: "char \<Rightarrow> bool" where
  "ascii_space c = (c = CHR '' '' \<or> (9 \<le> (of_char c :: nat) \<and> (of_char c :: nat) \<le> 13))"

definition ascii_digit :: "char \<Rightarrow> bool" where
  "ascii_digit c = (48 \<le> (of_char c :: nat) \<and> (of_char c :: nat) \<le> 57)"

definition numeral_value :: "string \<Rightarrow> int" where
  "numeral_value s = foldl (\<lambda>v c. 10 * v + (of_char c - 48)) 0 (takeWhile ascii_digit s)"

definition atoi :: "string \<Rightarrow> int" where
  "atoi s = (let s = dropWhile ascii_space s
     in if take 1 s = ''-'' then - numeral_value (tl s) else if take 1 s = ''+'' then numeral_value (tl s) else numeral_value s)"

text \<open>The loop over the arguments; the second component is \<open>ex_list\<close>.\<close>

function scan_args :: "string list \<Rightarrow> pai_scan_opts \<Rightarrow> string list \<Rightarrow> pai_scan_opts \<times> string list" where
  "scan_args [] opt ex_list = (opt, ex_list)"
| "scan_args (a # rest) opt ex_list =
    (if a = ''--base'' \<and> rest \<noteq> [] then scan_args (tl rest) (opt\<lparr>base_dir := Some (hd rest)\<rparr>) ex_list
     else if a = ''--out'' \<and> rest \<noteq> [] then scan_args (tl rest) (opt\<lparr>out_dir := Some (hd rest)\<rparr>) ex_list
     else if a = ''--hidden'' then scan_args rest (opt\<lparr>include_hidden := True\<rparr>) ex_list
     else if a = ''--follow'' then scan_args rest (opt\<lparr>follow_symlinks := True\<rparr>) ex_list
     else if a = ''--max-depth'' \<and> rest \<noteq> [] then scan_args (tl rest) (opt\<lparr>max_depth := atoi (hd rest)\<rparr>) ex_list
     else if a = ''--max-size'' \<and> rest \<noteq> [] then scan_args (tl rest) (opt\<lparr>max_size := atoi (hd rest)\<rparr>) ex_list
     else if a = ''--hash'' \<and> rest \<noteq> [] then scan_args (tl rest) (opt\<lparr>hash_algo := Some (hd rest)\<rparr>) ex_list
     else if a = ''--exclude'' \<and> rest \<noteq> [] then
       if length ex_list < 64 then scan_args (tl rest) opt (ex_list @ [hd rest]) else scan_args (tl rest) opt ex_list
     else scan_args rest opt ex_list)"
  by pat_completeness auto
termination by (relation "measure (\<lambda>(args, opt, ex_list). length args)") (auto simp: less_Suc_eq_le)

text \<open>
  The options of the command, or its usage error \<open>Inl 1\<close>. The output directory goes to the list of excludes
  after the loop; a list of 64 is then written past its end, which is \<open>None\<close>.
\<close>

definition pai_cmd_scan_opts :: "string list \<Rightarrow> (int + pai_scan_opts) option" where
  "pai_cmd_scan_opts argv =
    (let opt = \<lparr>base_dir = None, out_dir = None, include_hidden = False, follow_symlinks = False, max_depth = -1,
           max_size = -1, hash_algo = Some ''sha256'', excludes = []\<rparr>;
         (opt, ex_list) = scan_args (drop 2 argv) opt []
     in if base_dir opt = None \<or> out_dir opt = None then Some (Inl 1)
        else if length ex_list = 64 then None
        else Some (Inr (opt\<lparr>excludes := map Some (ex_list @ [the (out_dir opt)])\<rparr>)))"

definition pai_cmd_scan ::
  "nat \<Rightarrow> platform \<Rightarrow> pai_manifest_digest_ctx \<Rightarrow> file_system \<Rightarrow> scan_env \<Rightarrow> string list \<Rightarrow> scan_result option" where
  "pai_cmd_scan fuel p u fs env argv = (case pai_cmd_scan_opts argv of
     None \<Rightarrow> None
   | Some (Inl c) \<Rightarrow> Some \<lparr>code = c, manifest = None, linear_root = None, merkle_root = None\<rparr>
   | Some (Inr opt) \<Rightarrow> pai_scan_run fuel p u fs env (Some opt))"

end
