(* ===== verification/Scan_Correct.thy ===== *)
theory Scan_Correct
  imports Scan
begin

text \<open>
  What the scanner promises: the root is the digest of the manifest's lines, the manifest does not depend on the
  order in which the file system lists its directories, and a walk with a depth limit ends.
\<close>

section \<open>The lines of a walk\<close>

text \<open>The manifest and its digest stay in step: both get each line.\<close>

definition emit :: "platform \<Rightarrow> scan_out \<Rightarrow> string \<Rightarrow> scan_out" where
  "emit p s line = s\<lparr>mf := mf s @ line, mctx := manifest_digest_update p (mctx s) (text_bytes line)\<rparr>"

definition sane_sizes :: "file_system \<Rightarrow> bool" where
  "sane_sizes fs \<longleftrightarrow> (\<forall>follow full kind sz. stat_of fs follow full = Some (kind, sz) \<longrightarrow> - (2 ^ 63) \<le> sz \<and> sz < 2 ^ 63)"

lemma dec_text_length: "n < 10 ^ 19 \<Longrightarrow> length (dec_text n) \<le> 19"
  using to_base_loop_length [of n 10 19 256] by (simp add: dec_text_def to_base_vec_u64_def)

lemma lld_text_length: "- (2 ^ 63) \<le> x \<Longrightarrow> x < 2 ^ 63 \<Longrightarrow> length (lld_text x) \<le> 20"
  using dec_text_length [of "nat x"] dec_text_length [of "nat (- x)"]
  by (cases "x < 0") (simp_all add: lld_text_def nat_less_iff)

lemma hex32_length [simp]: "length (pai_digest_hex32 h) = 64"
  by (simp add: pai_digest_hex32_def length_concat comp_def sum_list_triv)

lemma join_path_length: "length (join_path PAI_MAX_PATH a b) \<le> 4095"
  by (auto simp: join_path_def Let_def PAI_MAX_PATH_def split: option.split)

lemma rel_path_length: "length (rel_path base full) \<le> max 1 (length full)"
  by (auto simp: rel_path_def Let_def)

lemma manifest_line_fits:
  assumes "sane_sizes fs" "stat_of fs follow full = Some (kind, sz)" "full = join_path PAI_MAX_PATH a b"
  shows "manifest_line_update p c (rel_path base full) sz (pai_digest_hex32 h) =
    Some (manifest_digest_update p c (text_bytes (manifest_line (rel_path base full) sz (pai_digest_hex32 h))))"
proof -
  have "length (lld_text sz) \<le> 20" using assms(1,2) by (intro lld_text_length) (auto simp: sane_sizes_def)
  moreover have "length (rel_path base full) \<le> 4095"
    using rel_path_length [of base full] join_path_length [of a b] assms(3) by simp
  ultimately show ?thesis by (simp add: manifest_line_update_def manifest_line_def Let_def PAI_MAX_PATH_def)
qed

fun lines_of_entries ::
  "platform \<Rightarrow> pai_manifest_digest_ctx \<Rightarrow> file_system \<Rightarrow> pai_scan_opts \<Rightarrow> path \<Rightarrow> path \<Rightarrow>
   (path \<Rightarrow> string list option) \<Rightarrow> string list \<Rightarrow> string list option" where
  "lines_of_entries p u fs opt base dirpath visit [] = Some []"
| "lines_of_entries p u fs opt base dirpath visit (name # names) =
    (let full = join_path PAI_MAX_PATH (Some dirpath) (Some name);
         next = lines_of_entries p u fs opt base dirpath visit names
     in if is_excluded opt base full then next
        else case stat_of fs (follow_symlinks opt) full of
          None \<Rightarrow> next
        | Some (kind, sz) \<Rightarrow>
            if kind = Dir_node then (case visit full of None \<Rightarrow> None | Some ls \<Rightarrow> map_option (\<lambda>ms. ls @ ms) next)
            else if kind = Reg_node \<and> (max_size opt < 0 \<or> sz \<le> max_size opt) then
              (case hash_file_for_algo p u (hash_algo opt) (contents fs full) of
                 None \<Rightarrow> next
               | Some h \<Rightarrow> map_option (\<lambda>ms. manifest_line (rel_path base full) sz (pai_digest_hex32 h) # ms) next)
            else next)"

fun scan_lines ::
  "nat \<Rightarrow> platform \<Rightarrow> pai_manifest_digest_ctx \<Rightarrow> file_system \<Rightarrow> pai_scan_opts \<Rightarrow> path \<Rightarrow> path \<Rightarrow> int \<Rightarrow>
   string list option" where
  "scan_lines 0 p u fs opt base dirpath depth = None"
| "scan_lines (Suc fuel) p u fs opt base dirpath depth =
    (if max_depth opt \<ge> 0 \<and> depth > max_depth opt \<or> is_excluded opt base dirpath then Some []
     else case opendir fs dirpath of None \<Rightarrow> Some []
     | Some names \<Rightarrow>
         (case read_entries opt base dirpath 0 names of None \<Rightarrow> Some []
          | Some entries \<Rightarrow> lines_of_entries p u fs opt base dirpath
              (\<lambda>full. scan_lines fuel p u fs opt base full (depth + 1)) (sort entries)))"

lemma scan_entries_lines:
  assumes "sane_sizes fs"
    and "\<And>full s. map_option snd (visit full s) = map_option (foldl (emit p) s) (visit' full)"
  shows "scan_entries p u fs opt base dirpath visit names s =
    map_option (foldl (emit p) s) (lines_of_entries p u fs opt base dirpath visit' names)"
proof (induction names arbitrary: s)
  case (Cons name names)
  let ?full = "join_path PAI_MAX_PATH (Some dirpath) (Some name)"
  show ?case
  proof (cases "is_excluded opt base ?full \<or> stat_of fs (follow_symlinks opt) ?full = None")
    case True
    then show ?thesis using Cons.IH by (auto simp: Let_def)
  next
    case False
    then obtain kind sz where st: "stat_of fs (follow_symlinks opt) ?full = Some (kind, sz)" "\<not> is_excluded opt base ?full" by auto
    note fits = manifest_line_fits [OF assms(1) st(1) refl]
    consider "kind = Dir_node" | "kind = Reg_node" | "kind = Other_node" by (cases kind)
    then show ?thesis
    proof cases
      case 1
      then show ?thesis
        using Cons.IH assms(2) [of ?full s] st
        by (cases "visit ?full s"; cases "visit' ?full";
            cases "lines_of_entries p u fs opt base dirpath visit' names") (auto simp: Let_def)
    next
      case 2
      then show ?thesis
        using Cons.IH st
        by (auto simp: Let_def fits emit_def option.map_comp comp_def split: option.split)
    next
      case 3
      then show ?thesis using Cons.IH st by (simp add: Let_def)
    qed
  qed
qed simp

lemma scan_dir_rec_lines:
  assumes "sane_sizes fs"
  shows "map_option snd (scan_dir_rec fuel p u fs opt base dirpath depth s) =
    map_option (foldl (emit p) s) (scan_lines fuel p u fs opt base dirpath depth)"
proof (induction fuel arbitrary: dirpath depth s)
  case (Suc fuel)
  note e = scan_entries_lines [OF assms, of "\<lambda>full s. scan_dir_rec fuel p u fs opt base full (depth + 1) s" p
      "\<lambda>full. scan_lines fuel p u fs opt base full (depth + 1)", OF Suc.IH]
  show ?case
    by (auto simp: e option.map_comp comp_def split: option.split)
qed simp

section \<open>The root\<close>

definition manifest_head :: "string option \<Rightarrow> string" where
  "manifest_head algo = ''# hash='' @ (case algo of None \<Rightarrow> ''sha256'' | Some a \<Rightarrow> a) @ [CHR 0x0A]"

definition digest_of :: "string option \<Rightarrow> bytes \<Rightarrow> bytes" where
  "digest_of algo data = (if algo_is_blake3 algo then blake3_of data else sha256_spec data)"

text \<open>Uninitialised contexts are buffers of the right sizes.\<close>

definition good_ctx :: "pai_manifest_digest_ctx \<Rightarrow> bool" where
  "good_ctx u \<longleftrightarrow> length (sha_buf (md_sha256 u)) = 64 \<and> length (h_cv_stack (md_blake3 u)) = CV_STACK_BYTES"

lemma mf_emits: "mf (foldl (emit p) s ls) = mf s @ concat ls"
  by (induction ls arbitrary: s) (simp_all add: emit_def)

lemma mctx_emits: "mctx (foldl (emit p) s ls) = foldl (manifest_digest_update p) (mctx s) (map text_bytes ls)"
  by (induction ls arbitrary: s) (simp_all add: emit_def)

lemma digest_updates:
  "foldl (manifest_digest_update p) c ds =
    (if use_blake3 c then c\<lparr>md_blake3 := foldl (blake3_hasher_update p) (md_blake3 c) ds\<rparr>
     else c\<lparr>md_sha256 := foldl pai_sha256_update (md_sha256 c) ds\<rparr>)"
  by (induction ds arbitrary: c) (simp_all add: manifest_digest_update_def)

lemma text_bytes_concat: "concat (map text_bytes ls) = text_bytes (concat ls)"
  by (simp add: text_bytes_def [abs_def] map_concat)

lemma manifest_digest:
  assumes "good_ctx u" "length (concat ls) < 2 ^ 64"
  shows "manifest_digest_final p (foldl (manifest_digest_update p) (manifest_digest_init u algo) (map text_bytes ls)) =
    Some (digest_of algo (text_bytes (concat ls)))"
proof -
  have "length (concat (map text_bytes ls)) < 2 ^ 64" unfolding text_bytes_concat using assms(2) by (simp add: text_bytes_def)
  then show ?thesis
    using assms(1) hasher_digest [of "md_blake3 u" "map text_bytes ls" p] sha_digest [of "md_sha256 u" "map text_bytes ls"]
    by (simp add: manifest_digest_init_def digest_updates manifest_digest_final_def digest_of_def good_ctx_def Let_def text_bytes_concat)
qed

lemma scan_root_result:
  assumes "sane_sizes fs" "good_ctx u" "pai_scan_run fuel p u fs env (Some opt) = Some res" "manifest res = Some text"
    "length text < 2 ^ 64"
  shows "\<exists>ls. scan_lines fuel p u fs opt (the (base_dir opt)) (the (base_dir opt)) 0 = Some ls \<and>
    text = manifest_head (hash_algo opt) @ concat ls \<and>
    (let hex = pai_digest_hex32 (digest_of (hash_algo opt) (text_bytes (concat ls))) @ [CHR 0x0A]
     in linear_root res = (if linear_root_opens env then Some hex else None) \<and>
        merkle_root res = (if linear_root_opens env \<and> merkle_opens env then Some hex else None))"
proof -
  let ?b = "the (base_dir opt)" and ?h = "manifest_head (hash_algo opt)"
  let ?s = "\<lparr>mf = ?h, mctx = manifest_digest_init u (hash_algo opt)\<rparr>"
  note run = assms(3) [unfolded pai_scan_run_def Let_def option.case manifest_head_def [symmetric]]
  obtain rc s where s: "scan_dir_rec fuel p u fs opt ?b ?b 0 ?s = Some (rc, s)"
    using run assms(4) by (auto split: if_splits option.splits)
  then obtain ls where ls: "scan_lines fuel p u fs opt ?b ?b 0 = Some ls" "s = foldl (emit p) ?s ls"
    using scan_dir_rec_lines [OF assms(1), of fuel p u opt ?b ?b 0 ?s]
    by (cases "scan_lines fuel p u fs opt ?b ?b 0") simp_all
  have mf: "mf s = ?h @ concat ls" unfolding ls(2) by (simp add: mf_emits)
  have tx: "text = mf s"
    using run s assms(4) by (auto split: if_splits option.splits)
  then have "length (concat ls) < 2 ^ 64" using assms(5) mf by simp
  from manifest_digest [OF assms(2) this, of p "hash_algo opt"] have dg:
    "manifest_digest_final p (mctx s) = Some (digest_of (hash_algo opt) (text_bytes (concat ls)))"
    unfolding ls(2) mctx_emits by simp
  have "linear_root res = (if linear_root_opens env then Some (pai_digest_hex32 (digest_of (hash_algo opt) (text_bytes (concat ls))) @ [CHR 0x0A]) else None)"
    "merkle_root res = (if linear_root_opens env \<and> merkle_opens env
      then Some (pai_digest_hex32 (digest_of (hash_algo opt) (text_bytes (concat ls))) @ [CHR 0x0A]) else None)"
    using run s dg assms(4) by (auto simp: write_root_file_def split: if_splits)
  then show ?thesis using ls(1) mf tx by (auto simp: Let_def)
qed

text \<open>
  C28. The root commits to the manifest: whenever a scan has written a manifest, it is the heading followed by the
  lines of the walk, and both root files, where they could be written, hold the digest (BLAKE3 or SHA-256, as
  asked) of exactly those lines, in hexadecimal. The digest was fed line by line during the walk, through
  sub-directories too, and never from the file.
\<close>

theorem scan_root_commits:
  assumes "sane_sizes fs" "good_ctx u" "pai_scan_run fuel p u fs env (Some opt) = Some res" "manifest res = Some text"
    "length text < 2 ^ 64"
  shows "\<exists>ls. scan_lines fuel p u fs opt (the (base_dir opt)) (the (base_dir opt)) 0 = Some ls \<and>
    text = manifest_head (hash_algo opt) @ concat ls \<and>
    (let hex = pai_digest_hex32 (digest_of (hash_algo opt) (text_bytes (concat ls))) @ [CHR 0x0A]
     in linear_root res = (if linear_root_opens env then Some hex else None) \<and>
        merkle_root res = (if linear_root_opens env \<and> merkle_opens env then Some hex else None))"
  using assms by (rule scan_root_result)

section \<open>Directory order\<close>

definition wanted :: "pai_scan_opts \<Rightarrow> path \<Rightarrow> path \<Rightarrow> string \<Rightarrow> bool" where
  "wanted opt base dirpath name \<longleftrightarrow> name \<noteq> ''.'' \<and> name \<noteq> ''..'' \<and> (include_hidden opt \<or> \<not> is_hidden_name name) \<and>
    \<not> is_excluded opt base (join_path PAI_MAX_PATH (Some dirpath) (Some name))"

lemma read_entries_filter:
  "n + length names \<le> PAI_MAX_ENTRIES \<Longrightarrow> read_entries opt base dirpath n names = Some (filter (wanted opt base dirpath) names)"
  by (induction names arbitrary: n) (auto simp: wanted_def Let_def)

lemma sort_mset: "mset xs = mset ys \<Longrightarrow> sort xs = sort ys" for xs ys :: "'a::linorder list"
  by (metis sorted_list_of_multiset_mset)

lemma scan_entries_fs:
  "stat_of fs = stat_of fs' \<Longrightarrow> contents fs = contents fs' \<Longrightarrow>
    scan_entries p u fs opt base dirpath visit names s = scan_entries p u fs' opt base dirpath visit names s"
  by (induction names arbitrary: s) (simp_all add: Let_def split: option.split)

definition same_files :: "file_system \<Rightarrow> file_system \<Rightarrow> bool" where
  "same_files fs fs' \<longleftrightarrow> stat_of fs = stat_of fs' \<and> contents fs = contents fs' \<and>
    (\<forall>d. rel_option (\<lambda>xs ys. mset xs = mset ys \<and> length xs \<le> PAI_MAX_ENTRIES) (opendir fs d) (opendir fs' d))"

lemma scan_dir_rec_order:
  assumes "same_files fs fs'"
  shows "scan_dir_rec fuel p u fs opt base dirpath depth s = scan_dir_rec fuel p u fs' opt base dirpath depth s"
proof (induction fuel arbitrary: dirpath depth s)
  case (Suc fuel)
  have fs: "stat_of fs = stat_of fs'" "contents fs = contents fs'"
    "rel_option (\<lambda>xs ys. mset xs = mset ys \<and> length xs \<le> PAI_MAX_ENTRIES) (opendir fs dirpath) (opendir fs' dirpath)"
    using assms by (simp_all add: same_files_def)
  show ?case
  proof (cases "opendir fs dirpath")
    case None
    then show ?thesis using fs(3) by (cases "opendir fs' dirpath") simp_all
  next
    case (Some xs)
    then obtain ys where ys: "opendir fs' dirpath = Some ys" "mset xs = mset ys" "length xs \<le> PAI_MAX_ENTRIES"
      using fs(3) by (cases "opendir fs' dirpath") auto
    then have len: "length ys \<le> PAI_MAX_ENTRIES" by (metis mset_eq_length)
    have "sort (filter (wanted opt base dirpath) xs) = sort (filter (wanted opt base dirpath) ys)"
      using ys(2) by (intro sort_mset) simp
    moreover have "scan_dir_rec fuel p u fs opt base full d = scan_dir_rec fuel p u fs' opt base full d" for full d
      by (rule ext) (rule Suc.IH)
    ultimately show ?thesis
      using Some ys len by (simp add: read_entries_filter scan_entries_fs [OF fs(1,2)])
  qed
qed simp

text \<open>
  C29. The result of a scan, code, manifest and root, does not depend on the order in which the file system
  lists the entries of its directories, in any directory of the tree: the walk sorts what it keeps. (The one
  thing that could depend on it is which entry meets the limit of 200000, so no directory exceeds it.)
\<close>

theorem scan_order_irrelevant:
  assumes "same_files fs fs'"
  shows "pai_scan_run fuel p u fs env opt = pai_scan_run fuel p u fs' env opt"
proof -
  have "opendir fs d = None \<longleftrightarrow> opendir fs' d = None" for d
    using assms by (cases "opendir fs d"; cases "opendir fs' d") (auto simp: same_files_def dest!: spec [of _ d])
  then show ?thesis
    unfolding pai_scan_run_def Let_def scan_dir_rec_order [OF assms] by (cases opt) simp_all
qed

section \<open>Termination\<close>

lemma scan_dir_rec_stable:
  "0 \<le> max_depth opt \<Longrightarrow> nat (max_depth opt + 1 - depth) + 1 \<le> n \<Longrightarrow>
    scan_dir_rec (Suc n) p u fs opt base dirpath depth s = scan_dir_rec n p u fs opt base dirpath depth s"
proof (induction n arbitrary: dirpath depth s)
  case (Suc m)
  show ?case
  proof (cases "depth > max_depth opt")
    case True
    then show ?thesis using Suc.prems(1) by simp
  next
    case False
    then have "nat (max_depth opt + 1 - (depth + 1)) + 1 \<le> m" using Suc.prems(2) by linarith
    then have ih: "scan_dir_rec (Suc m) p u fs opt base full (depth + 1) = scan_dir_rec m p u fs opt base full (depth + 1)" for full
      using Suc.IH [OF Suc.prems(1)] by blast
    show ?thesis by (subst (1 2) scan_dir_rec.simps(2)) (simp only: ih)
  qed
qed simp

lemma lines_of_entries_some:
  "\<exists>ls. lines_of_entries p u fs opt base dirpath (\<lambda>full. Some (v full)) names = Some ls"
proof (induction names)
  case (Cons name names)
  then obtain ls where "lines_of_entries p u fs opt base dirpath (\<lambda>full. Some (v full)) names = Some ls" by blast
  then show ?case by (auto simp: Let_def split: option.split)
qed simp

lemma scan_lines_some:
  "0 \<le> max_depth opt \<Longrightarrow> nat (max_depth opt + 1 - depth) + 1 \<le> n \<Longrightarrow> scan_lines n p u fs opt base dirpath depth \<noteq> None"
proof (induction n arbitrary: dirpath depth)
  case (Suc m)
  show ?case
  proof (cases "depth > max_depth opt")
    case False
    then have "nat (max_depth opt + 1 - (depth + 1)) + 1 \<le> m" using Suc.prems(2) by linarith
    note ih = Suc.IH [OF Suc.prems(1) this]
    have "scan_lines m p u fs opt base full (depth + 1) = Some (the (scan_lines m p u fs opt base full (depth + 1)))" for full
      using ih by simp
    then have v: "(\<lambda>full. scan_lines m p u fs opt base full (depth + 1)) =
        (\<lambda>full. Some (the (scan_lines m p u fs opt base full (depth + 1))))" by (rule ext)
    show ?thesis
      using lines_of_entries_some [of p u fs opt base dirpath "\<lambda>full. the (scan_lines m p u fs opt base full (depth + 1))"]
      unfolding scan_lines.simps v by (auto split: option.split)
  qed (use Suc.prems(1) in simp)
qed simp

lemma scan_returns:
  assumes "sane_sizes fs" "good_ctx u" "0 \<le> max_depth opt" "nat (max_depth opt) + 2 \<le> fuel"
  shows "\<exists>res. pai_scan_run fuel p u fs env (Some opt) = Some res"
proof -
  let ?b = "the (base_dir opt)" and ?s = "\<lparr>mf = manifest_head (hash_algo opt), mctx = manifest_digest_init u (hash_algo opt)\<rparr>"
  obtain ls where ls: "scan_lines fuel p u fs opt ?b ?b 0 = Some ls"
    using scan_lines_some [of opt 0 fuel p u fs ?b ?b] assms(3,4) by fastforce
  then obtain rc s where s: "scan_dir_rec fuel p u fs opt ?b ?b 0 ?s = Some (rc, s)" "s = foldl (emit p) ?s ls"
    using scan_dir_rec_lines [OF assms(1), of fuel p u opt ?b ?b 0 ?s] by auto
  have "\<exists>d. manifest_digest_final p (mctx s) = Some d"
    using assms(2) sha_digest [of "md_sha256 u" "map text_bytes ls"]
    unfolding s(2) mctx_emits
    by (auto simp: digest_updates manifest_digest_init_def manifest_digest_final_def good_ctx_def Let_def)
  then obtain d where d: "manifest_digest_final p (mctx s) = Some d" ..
  define hd_text where "hd_text = manifest_head (hash_algo opt)"
  note s1 = s(1) [folded hd_text_def]
  have some: "\<exists>r. (if b then Some x else y) = Some r" if "\<exists>r. y = Some r" for b :: bool and x y
    using that by simp
  show ?thesis
    unfolding pai_scan_run_def Let_def option.case manifest_head_def [symmetric] hd_text_def [symmetric] s1 prod.case d
    by (intro some) (simp add: write_root_file_def)
qed

text \<open>
  C30. With a depth limit the scan ends on every file system, even one where links lead back up and are
  followed, and the fuel of the model plays no part in the result: every amount from the limit plus two on gives
  the same.
\<close>

theorem scan_terminates:
  assumes "sane_sizes fs" "good_ctx u" "0 \<le> max_depth opt"
  shows "\<exists>res. \<forall>fuel \<ge> nat (max_depth opt) + 2. pai_scan_run fuel p u fs env (Some opt) = Some res"
proof -
  let ?n = "nat (max_depth opt) + 2"
  have same: "scan_dir_rec fuel p u fs opt base base 0 s = scan_dir_rec ?n p u fs opt base base 0 s" if "?n \<le> fuel" for fuel base s
    using that
  proof (induction fuel rule: dec_induct)
    case (step n)
    have "scan_dir_rec (Suc n) p u fs opt base base 0 s = scan_dir_rec n p u fs opt base base 0 s"
      by (rule scan_dir_rec_stable [OF assms(3)]) (use step.hyps in linarith)
    then show ?case using step.IH by simp
  qed simp
  obtain res where res: "pai_scan_run ?n p u fs env (Some opt) = Some res"
    using scan_returns [OF assms, of ?n] by blast
  have "pai_scan_run fuel p u fs env (Some opt) = Some res" if "?n \<le> fuel" for fuel
    using res unfolding pai_scan_run_def Let_def option.case same [OF that] .
  then show ?thesis by blast
qed

text \<open>After 64 excludes the command writes past its list of them.\<close>

lemma scan_excludes_overflow:
  "pai_cmd_scan_opts ([''pai'', ''scan'', ''--base'', ''b'', ''--out'', ''o''] @ concat (replicate 64 [''--exclude'', ''x''])) = None"
  by code_simp

section \<open>Instances\<close>

text \<open>A directory that holds a file and a link back to itself.\<close>

definition demo_fs :: file_system where
  "demo_fs = \<lparr>opendir = (\<lambda>d. if take 1 d = ''b'' then Some [''up'', ''.'', ''f'', ''..''] else None),
     stat_of = (\<lambda>follow q. if drop (length q - 2) q = ''up'' then Some (if follow then Dir_node else Other_node, 0) else Some (Reg_node, 3)),
     contents = (\<lambda>q. Some ([1, 2, 3], False))\<rparr>"

definition demo_opts :: pai_scan_opts where
  "demo_opts = \<lparr>base_dir = Some ''b'', out_dir = Some ''o'', include_hidden = False, follow_symlinks = True, max_depth = 5,
     max_size = -1, hash_algo = Some ''blake3'', excludes = []\<rparr>"

definition demo_env :: scan_env where
  "demo_env = \<lparr>mkdir_ok = True, manifest_opens = True, linear_root_opens = True, merkle_opens = True\<rparr>"

lemma demo_sizes: "sane_sizes demo_fs"
  by (auto simp: sane_sizes_def demo_fs_def split: if_splits)

definition demo_ctx :: pai_manifest_digest_ctx where
  "demo_ctx = \<lparr>use_blake3 = False,
     md_sha256 = \<lparr>sha_h = [], sha_len = 7, sha_buf = replicate 64 1, sha_buf_len = 9\<rparr>, md_blake3 = demo_hasher\<rparr>"

lemma demo_good: "good_ctx demo_ctx"
  by (simp add: good_ctx_def demo_ctx_def demo_hasher_def)

theorem scan_terminates_witness:
  "\<exists>res. pai_scan_run 7 demo_platform demo_ctx demo_fs demo_env (Some demo_opts) = Some res \<and>
    pai_scan_run 1000 demo_platform demo_ctx demo_fs demo_env (Some demo_opts) = Some res"
proof -
  have "0 \<le> max_depth demo_opts" "nat (max_depth demo_opts) + 2 = 7" by (simp_all add: demo_opts_def)
  with scan_terminates [OF demo_sizes demo_good, of demo_opts demo_platform demo_env] show ?thesis by auto
qed

theorem scan_order_irrelevant_witness:
  "pai_scan_run 7 demo_platform demo_ctx demo_fs demo_env (Some demo_opts) =
   pai_scan_run 7 demo_platform demo_ctx (demo_fs\<lparr>opendir := map_option rev \<circ> opendir demo_fs\<rparr>) demo_env (Some demo_opts)"
  by (rule scan_order_irrelevant) (simp add: same_files_def demo_fs_def PAI_MAX_ENTRIES_def)

definition demo_line :: string where
  "demo_line = manifest_line ''f'' 3 (pai_digest_hex32 (blake3_of [1, 2, 3]))"

definition demo_opts0 :: pai_scan_opts where
  "demo_opts0 = demo_opts\<lparr>max_depth := 0, excludes := [Some ''up'']\<rparr>"

lemma demo_lines: "scan_lines 2 demo_platform demo_ctx demo_fs demo_opts0 ''b'' ''b'' 0 = Some [demo_line]"
proof -
  have o: "max_depth demo_opts0 = 0" "excludes demo_opts0 = [Some ''up'']" "include_hidden demo_opts0 = False"
    "follow_symlinks demo_opts0 = True" "max_size demo_opts0 = -1" "hash_algo demo_opts0 = Some ''blake3''"
    by (simp_all add: demo_opts0_def demo_opts_def)
  have f: "opendir demo_fs ''b'' = Some [''up'', ''.'', ''f'', ''..'']" "contents demo_fs q = Some ([1, 2, 3], False)"
    "stat_of demo_fs follow ''b/f'' = Some (Reg_node, 3)" for q follow by (simp_all add: demo_fs_def)
  have d: "hash_file_for_algo demo_platform demo_ctx (Some ''blake3'') (Some ([1, 2, 3], False)) = Some (blake3_of [1, 2, 3])"
    using pai_blake3_file_result [of demo_hasher "[1, 2, 3]" demo_platform False]
    by (simp add: hash_file_for_algo_def algo_is_blake3_def demo_ctx_def demo_hasher_def)
  have j: "join_path PAI_MAX_PATH (Some ''b'') (Some ''up'') = ''b/up''" "join_path PAI_MAX_PATH (Some ''b'') (Some ''f'') = ''b/f''"
    by (simp_all add: join_path_def PAI_MAX_PATH_def)
  have r: "rel_path ''b'' ''b/f'' = ''f''" "rel_path ''b'' ''b/up'' = ''up''" "rel_path ''b'' ''b'' = ''.''" by (simp_all add: rel_path_def)
  have x: "is_excluded demo_opts0 ''b'' ''b/f'' = False" "is_excluded demo_opts0 ''b'' ''b/up'' = True"
    "is_excluded demo_opts0 ''b'' ''b'' = False"
    by (simp_all add: is_excluded_def o r path_eq_or_prefix_def)
  have "read_entries demo_opts0 ''b'' ''b'' 0 [''up'', ''.'', ''f'', ''..''] = Some [''f'']"
    by (simp add: j x o is_hidden_name_def PAI_MAX_ENTRIES_def)
  then show ?thesis by (simp add: numeral_2_eq_2 o f j x r d demo_line_def)
qed

lemma demo_scan_run:
  "\<exists>res text. pai_scan_run 2 demo_platform demo_ctx demo_fs demo_env (Some demo_opts0) = Some res \<and>
    manifest res = Some text \<and> length text < 2 ^ 64"
proof -
  let ?s = "\<lparr>mf = manifest_head (hash_algo demo_opts0), mctx = manifest_digest_init demo_ctx (hash_algo demo_opts0)\<rparr>"
  have b: "base_dir demo_opts0 = Some ''b''" "out_dir demo_opts0 = Some ''o''" "hash_algo demo_opts0 = Some ''blake3''"
    "opendir demo_fs ''b'' \<noteq> None" by (simp_all add: demo_opts0_def demo_opts_def demo_fs_def)
  obtain rc s where s: "scan_dir_rec 2 demo_platform demo_ctx demo_fs demo_opts0 ''b'' ''b'' 0 ?s = Some (rc, s)"
    "s = emit demo_platform ?s demo_line"
    using scan_dir_rec_lines [OF demo_sizes, of 2 demo_platform demo_ctx demo_opts0 "''b''" "''b''" 0 ?s] by (auto simp: demo_lines)
  obtain res where res: "pai_scan_run 2 demo_platform demo_ctx demo_fs demo_env (Some demo_opts0) = Some res"
    using scan_returns [OF demo_sizes demo_good, of demo_opts0 2] by (auto simp: demo_opts0_def)
  have m: "manifest res = Some (mf s)"
    using res s(1) b unfolding pai_scan_run_def Let_def option.case manifest_head_def [symmetric]
    by (auto simp: demo_env_def write_root_file_def split: option.splits)
  have "mf s = manifest_head (Some ''blake3'') @ demo_line" by (simp add: s(2) emit_def b)
  then have "length (mf s) < 2 ^ 64"
    using lld_text_length [of 3] by (simp add: manifest_head_def demo_line_def manifest_line_def)
  with res m show ?thesis by blast
qed

theorem scan_root_commits_witness:
  "\<exists>res. pai_scan_run 2 demo_platform demo_ctx demo_fs demo_env (Some demo_opts0) = Some res \<and>
    linear_root res = Some (pai_digest_hex32 (blake3_of (text_bytes demo_line)) @ [CHR 0x0A])"
proof -
  obtain res tx where res: "pai_scan_run 2 demo_platform demo_ctx demo_fs demo_env (Some demo_opts0) = Some res"
    "manifest res = Some tx" "length tx < 2 ^ 64" using demo_scan_run by blast
  have "base_dir demo_opts0 = Some ''b''" "hash_algo demo_opts0 = Some ''blake3''" by (simp_all add: demo_opts0_def demo_opts_def)
  with scan_root_commits [OF demo_sizes demo_good res] show ?thesis
    using res(1) demo_lines by (auto simp: Let_def demo_env_def digest_of_def algo_is_blake3_def)
qed

end
