(* ===== verification/Menu.thy ===== *)
theory Menu
  imports Scan_Correct
begin

text \<open>
  The text interface: \<open>rmr/ui/bbs/input.c\<close>, \<open>menu.c\<close> and \<open>screen.c\<close>, and the mode router \<open>rmr/ui/mode_router.c\<close>.
  Standard input is the string still to be read; an array of characters keeps its bytes, so that a C string is
  what stands before the first null byte. What is printed besides the menu is left out.
\<close>

datatype (plugins only: code size) rmr_bbs_key = Key_none | Key_up | Key_down | Key_enter | Key_esc

definition NUL :: char where "NUL = CHR 0x00"
definition ESC :: char where "ESC = CHR 0x1B"
definition LF :: char where "LF = CHR 0x0A"
definition CR :: char where "CR = CHR 0x0D"

definition rmr_bbs_decode_input :: "string option \<Rightarrow> rmr_bbs_key" where
  "rmr_bbs_decode_input inp = (case inp of
     None \<Rightarrow> Key_none
   | Some s \<Rightarrow>
       let len = length s
       in if len = 0 then Key_none
          else if len = 1 \<and> s ! 0 = ESC then Key_esc
          else if len = 1 \<and> (s ! 0 = CR \<or> s ! 0 = LF) then Key_enter
          else if len \<ge> 3 \<and> s ! 0 = ESC \<and> s ! 1 = CHR ''['' then
            if s ! 2 = CHR ''A'' then Key_up else if s ! 2 = CHR ''B'' then Key_down else Key_none
          else Key_none)"

section \<open>The menu\<close>

record rmr_bbs_menu_state =
  items :: "string list"
  item_count :: int
  selected :: int
  page_size :: int
  top_index :: int

definition clamp_menu :: "rmr_bbs_menu_state \<Rightarrow> rmr_bbs_menu_state" where
  "clamp_menu st =
    (if item_count st \<le> 0 then st\<lparr>selected := 0, top_index := 0\<rparr>
     else
       let st = (if selected st < 0 then st\<lparr>selected := 0\<rparr> else st);
           st = (if selected st \<ge> item_count st then st\<lparr>selected := item_count st - 1\<rparr> else st);
           st = (if page_size st \<le> 0 then st\<lparr>page_size := 5\<rparr> else st);
           st = (if top_index st > selected st then st\<lparr>top_index := selected st\<rparr> else st);
           st = (if selected st \<ge> top_index st + page_size st
                 then st\<lparr>top_index := selected st - page_size st + 1\<rparr> else st);
           st = (if top_index st < 0 then st\<lparr>top_index := 0\<rparr> else st)
       in st)"

definition rmr_bbs_menu_init :: "string list \<Rightarrow> int \<Rightarrow> int \<Rightarrow> rmr_bbs_menu_state" where
  "rmr_bbs_menu_init its n page =
    clamp_menu \<lparr>items = its, item_count = n, selected = 0, page_size = page, top_index = 0\<rparr>"

definition rmr_bbs_menu_apply_key :: "rmr_bbs_menu_state \<Rightarrow> rmr_bbs_key \<Rightarrow> rmr_bbs_menu_state" where
  "rmr_bbs_menu_apply_key st key =
    (let st = (if key = Key_up then st\<lparr>selected := selected st - 1\<rparr> else st);
         st = (if key = Key_down then st\<lparr>selected := selected st + 1\<rparr> else st)
     in clamp_menu st)"

section \<open>The theme\<close>

text \<open>Three arrays of 16 characters; \<open>strncpy\<close> of at most 15 never writes the last.\<close>

record rmr_bbs_theme =
  active_prefix :: string
  inactive_prefix :: string
  active_suffix :: string

definition strncpy15 :: "string \<Rightarrow> string \<Rightarrow> string" where
  "strncpy15 dst src = take 15 (src @ replicate 15 NUL) @ drop 15 dst"

text \<open>The C string that starts an array, if the array has a terminator.\<close>

definition c_text :: "string \<Rightarrow> string option" where
  "c_text arr = (if NUL \<in> set arr then Some (takeWhile (\<lambda>c. c \<noteq> NUL) arr) else None)"

definition c_str :: "string \<Rightarrow> string" where
  "c_str s = takeWhile (\<lambda>c. c \<noteq> NUL) s"

text \<open>A line of the theme file, as \<open>fgets\<close> left it in the buffer.\<close>

definition theme_line :: "rmr_bbs_theme \<Rightarrow> string \<Rightarrow> rmr_bbs_theme" where
  "theme_line th line0 =
    (let line = c_str line0
     in if CHR ''='' \<notin> set line then th
        else
          let k = takeWhile (\<lambda>c. c \<noteq> CHR ''='') line;
              v = takeWhile (\<lambda>c. c \<noteq> CR \<and> c \<noteq> LF) (tl (dropWhile (\<lambda>c. c \<noteq> CHR ''='') line));
              th = (if k = ''active_prefix'' then th\<lparr>active_prefix := strncpy15 (active_prefix th) v\<rparr> else th);
              th = (if k = ''inactive_prefix'' then th\<lparr>inactive_prefix := strncpy15 (inactive_prefix th) v\<rparr> else th);
              th = (if k = ''active_suffix'' then th\<lparr>active_suffix := strncpy15 (active_suffix th) v\<rparr> else th)
          in th)"

text \<open>\<open>fgets\<close> into a buffer of \<open>n\<close> characters: the characters it delivers and the rest of the stream.\<close>

definition fgets :: "nat \<Rightarrow> string \<Rightarrow> (string \<times> string) option" where
  "fgets n inp = (if inp = [] then None
     else let k = min (n - 1) (length (takeWhile (\<lambda>c. c \<noteq> LF) inp) + 1) in Some (take k inp, drop k inp))"

function theme_lines :: "rmr_bbs_theme \<Rightarrow> string \<Rightarrow> rmr_bbs_theme" where
  "theme_lines th inp = (if inp = [] then th
     else case fgets 128 inp of None \<Rightarrow> th | Some (line, rest) \<Rightarrow> theme_lines (theme_line th line) rest)"
  by pat_completeness auto
termination
  by (relation "measure (\<lambda>(th, inp). length inp)") (auto simp: fgets_def Let_def split: if_splits)

declare theme_lines.simps [simp del]

text \<open>The file is \<open>None\<close> when it cannot be opened.\<close>

definition rmr_bbs_theme_load :: "string option \<Rightarrow> rmr_bbs_theme option \<Rightarrow> int \<times> rmr_bbs_theme option" where
  "rmr_bbs_theme_load file out_theme = (case out_theme of
     None \<Rightarrow> (1, None)
   | Some th \<Rightarrow>
       let th = th\<lparr>active_prefix := strncpy15 (active_prefix th) ''> '',
                   inactive_prefix := strncpy15 (inactive_prefix th) ''  '',
                   active_suffix := (active_suffix th)[0 := NUL]\<rparr>
       in case file of None \<Rightarrow> (1, Some th) | Some text \<Rightarrow> (0, Some (theme_lines th text)))"

section \<open>The screen\<close>

text \<open>
  One \<open>used += snprintf(out + used, out_size - used, piece)\<close>: the text so far is all that was formatted, and once
  \<open>used\<close> passes \<open>out_size\<close> the difference wraps round and the call writes outside the buffer: \<open>None\<close>.
\<close>

definition add_piece :: "nat \<Rightarrow> string option \<Rightarrow> string option \<Rightarrow> string option" where
  "add_piece out_size text piece = (case text of None \<Rightarrow> None
   | Some t \<Rightarrow> if length t > out_size then None else map_option (\<lambda>q. t @ q) piece)"

definition join3 :: "string option \<Rightarrow> string \<Rightarrow> string option \<Rightarrow> string option" where
  "join3 a b c = (case (a, c) of (Some a, Some c) \<Rightarrow> Some (a @ b @ c) | _ \<Rightarrow> None)"

text \<open>One line of the menu; \<open>None\<close> where an array of the theme has no terminator.\<close>

definition menu_line :: "rmr_bbs_theme \<Rightarrow> bool \<Rightarrow> rmr_bbs_menu_state \<Rightarrow> int \<Rightarrow> string option" where
  "menu_line th ansi st i =
    (let active = (i = selected st);
         prefix = c_text (if active then active_prefix th else inactive_prefix th);
         suffix = (if active then c_text (active_suffix th) else Some []);
         body = join3 prefix (items st ! nat i) suffix
     in if ansi \<and> active then map_option (\<lambda>b. ESC # ''[7m'' @ b @ ESC # ''[0m'' @ [LF]) body
        else map_option (\<lambda>b. b @ [LF]) body)"

fun menu_lines :: "nat \<Rightarrow> rmr_bbs_theme \<Rightarrow> bool \<Rightarrow> rmr_bbs_menu_state \<Rightarrow> int \<Rightarrow> nat \<Rightarrow> string option \<Rightarrow> string option" where
  "menu_lines out_size th ansi st i 0 text = text"
| "menu_lines out_size th ansi st i (Suc n) text =
    menu_lines out_size th ansi st (i + 1) n (add_piece out_size text (menu_line th ansi st i))"

text \<open>All that was formatted; the buffer holds its first \<open>out_size - 1\<close> characters.\<close>

definition rmr_bbs_render_menu :: "rmr_bbs_menu_state \<Rightarrow> rmr_bbs_theme \<Rightarrow> bool \<Rightarrow> nat \<Rightarrow> string option" where
  "rmr_bbs_render_menu st th ansi out_size =
    (let lst = top_index st + page_size st;
         lst = (if lst > item_count st then item_count st else lst);
         text = add_piece out_size (Some []) (Some (''+---------------- BBS ----------------+'' @ [LF]));
         text = menu_lines out_size th ansi st (top_index st) (nat (lst - top_index st)) text
     in add_piece out_size text (Some (''[Pg '' @ lld_text (top_index st sdiv page_size st + 1) @ ''/'' @
          lld_text ((item_count st + page_size st - 1) sdiv page_size st) @ ''] Use Up/Down, Enter=OK, Esc=Voltar'' @ [LF])))"

section \<open>The modes\<close>

text \<open>The fields of the wizard: every \<open>fgets\<close> must deliver.\<close>

fun read_fields :: "nat list \<Rightarrow> string \<Rightarrow> (string list \<times> string) option" where
  "read_fields [] inp = Some ([], inp)"
| "read_fields (n # ns) inp = (case fgets n inp of None \<Rightarrow> None
   | Some (line, rest) \<Rightarrow> map_option (\<lambda>(fs, r). (takeWhile (\<lambda>c. c \<noteq> CR \<and> c \<noteq> LF) (c_str line) # fs, r)) (read_fields ns rest))"

definition run_helper_mode :: "string \<Rightarrow> int" where
  "run_helper_mode inp = (case read_fields [64, 256, 256, 256, 32] inp of
     None \<Rightarrow> 1
   | Some (answers, rest) \<Rightarrow>
       (case fgets 16 rest of
          None \<Rightarrow> 1
        | Some (confirm, rest) \<Rightarrow> if confirm ! 0 \<noteq> CHR ''y'' \<and> confirm ! 0 \<noteq> CHR ''Y'' then 1 else 0))"

definition bbs_key :: "string \<Rightarrow> rmr_bbs_key" where
  "bbs_key line =
    (let key = rmr_bbs_decode_input (Some (c_str line));
         key = (if line ! 0 = CHR ''w'' then Key_up else key);
         key = (if line ! 0 = CHR ''s'' then Key_down else key);
         key = (if line ! 0 = CHR ''q'' then Key_esc else key)
     in key)"

text \<open>The session, one line of input after the other: its result and the states of the menu it showed.\<close>

function bbs_loop :: "rmr_bbs_menu_state \<Rightarrow> string \<Rightarrow> int \<times> rmr_bbs_menu_state list" where
  "bbs_loop menu inp = (if inp = [] then (1, [menu])
     else case fgets 16 inp of
       None \<Rightarrow> (1, [menu])
     | Some (line, rest) \<Rightarrow>
         let key = bbs_key line
         in if key = Key_enter then
              if selected menu = 0 then (0, [menu]) else if selected menu = 1 then (run_helper_mode rest, [menu]) else (0, [menu])
            else if key = Key_esc then (0, [menu])
            else case bbs_loop (rmr_bbs_menu_apply_key menu key) rest of (r, shown) \<Rightarrow> (r, menu # shown))"
  by pat_completeness auto
termination
  by (relation "measure (\<lambda>(menu, inp). length inp)") (auto simp: fgets_def Let_def split: if_splits)

declare bbs_loop.simps [simp del]

definition bbs_items :: "string list" where
  "bbs_items = [''CLI backend (pai_main)'', ''Helper wizard (metrics-store)'', ''Sair'']"

definition run_bbs_mode :: "string \<Rightarrow> int \<times> rmr_bbs_menu_state list" where
  "run_bbs_mode inp = bbs_loop (rmr_bbs_menu_init bbs_items 3 2) inp"

fun find_mode :: "string list \<Rightarrow> string option" where
  "find_mode [] = None"
| "find_mode (a # rest) = (if a = ''--mode'' \<and> rest \<noteq> [] then Some (hd rest) else find_mode rest)"

text \<open>The router; \<open>pai_main\<close> is the command line of the program, on its arguments.\<close>

definition rmr_mode_router_main :: "(string list \<Rightarrow> int) \<Rightarrow> string list \<Rightarrow> string \<Rightarrow> int" where
  "rmr_mode_router_main pai_main argv inp =
    (if length argv < 2 \<or> argv ! 1 \<noteq> ''run'' then 1
     else case find_mode (drop 2 argv) of
       None \<Rightarrow> 1
     | Some mode \<Rightarrow>
         if mode = ''cli'' then if length argv < 3 + 2 then 1 else pai_main (drop 3 argv)
         else if mode = ''helper'' then run_helper_mode inp
         else if mode = ''bbs'' then fst (run_bbs_mode inp)
         else 1)"

section \<open>What the user sees\<close>

text \<open>The selection is an item, and it is on the page shown.\<close>

definition menu_ok :: "rmr_bbs_menu_state \<Rightarrow> bool" where
  "menu_ok st \<longleftrightarrow> (if item_count st \<le> 0 then selected st = 0 \<and> top_index st = 0
     else 0 \<le> selected st \<and> selected st < item_count st \<and> 1 \<le> page_size st \<and>
       0 \<le> top_index st \<and> top_index st \<le> selected st \<and> selected st < top_index st + page_size st)"

lemma clamp_menu_ok: "menu_ok (clamp_menu st)"
  by (cases st) (auto simp: menu_ok_def clamp_menu_def Let_def)

lemma clamp_menu_id: "menu_ok st \<Longrightarrow> clamp_menu st = st"
  by (cases st) (auto simp: menu_ok_def clamp_menu_def Let_def split: if_splits)

lemma menu_steps_ok: "menu_ok st \<Longrightarrow> menu_ok (foldl rmr_bbs_menu_apply_key st keys)"
  by (induction keys arbitrary: st) (simp_all add: rmr_bbs_menu_apply_key_def clamp_menu_ok)

lemma apply_key_keeps:
  "items (rmr_bbs_menu_apply_key st key) = items st" "item_count (rmr_bbs_menu_apply_key st key) = item_count st"
  "1 \<le> page_size st \<Longrightarrow> page_size (rmr_bbs_menu_apply_key st key) = page_size st"
  by (simp_all add: rmr_bbs_menu_apply_key_def clamp_menu_def Let_def)

definition bbs_state :: "rmr_bbs_menu_state \<Rightarrow> bool" where
  "bbs_state m \<longleftrightarrow> menu_ok m \<and> items m = bbs_items \<and> item_count m = 3 \<and> page_size m = 2 \<and> top_index m \<le> 1"

lemma bbs_state_init: "bbs_state (rmr_bbs_menu_init bbs_items 3 2)"
  by (simp add: bbs_state_def rmr_bbs_menu_init_def clamp_menu_ok) (simp add: clamp_menu_def)

lemma bbs_state_key: "bbs_state m \<Longrightarrow> bbs_state (rmr_bbs_menu_apply_key m key)"
proof -
  assume m: "bbs_state m"
  then have "top_index (rmr_bbs_menu_apply_key m key) \<le> 1"
    by (auto simp: bbs_state_def menu_ok_def rmr_bbs_menu_apply_key_def clamp_menu_def Let_def)
  then show "bbs_state (rmr_bbs_menu_apply_key m key)"
    using m menu_steps_ok [of m "[key]"] by (simp add: bbs_state_def apply_key_keeps)
qed

lemma run_helper_mode_code: "run_helper_mode inp \<in> {0, 1}"
  by (auto simp: run_helper_mode_def split: option.split prod.split)

lemma bbs_loop_shows:
  "bbs_state menu \<Longrightarrow> bbs_loop menu inp = (r, shown) \<Longrightarrow> r \<in> {0, 1} \<and> (\<forall>m \<in> set shown. bbs_state m)"
proof (induction menu inp arbitrary: r shown rule: bbs_loop.induct)
  case (1 menu inp)
  show ?case
  proof (cases "fgets 16 inp")
    case None
    then show ?thesis using "1.prems" by (subst (asm) bbs_loop.simps) (auto split: if_splits)
  next
    case (Some lr)
    obtain line rest where lr: "fgets 16 inp = Some (line, rest)" using Some by (cases lr) auto
    then have ne: "inp \<noteq> []" by (auto simp: fgets_def)
    show ?thesis
    proof (cases "bbs_key line = Key_enter \<or> bbs_key line = Key_esc")
      case True
      then show ?thesis
        using "1.prems" lr ne run_helper_mode_code [of rest]
        by (subst (asm) bbs_loop.simps) (auto simp: Let_def split: if_splits)
    next
      case False
      obtain r' shown' where nx: "bbs_loop (rmr_bbs_menu_apply_key menu (bbs_key line)) rest = (r', shown')"
        by (cases "bbs_loop (rmr_bbs_menu_apply_key menu (bbs_key line)) rest")
      have "r' \<in> {0, 1} \<and> (\<forall>m \<in> set shown'. bbs_state m)"
        by (rule "1.IH" [OF ne lr refl refl _ _ bbs_state_key [OF "1.prems"(1)] nx]) (use False in auto)
      then show ?thesis
        using "1.prems" lr ne False nx by (subst (asm) bbs_loop.simps) (auto simp: Let_def)
    qed
  qed
qed

definition theme_ok :: "rmr_bbs_theme \<Rightarrow> bool" where
  "theme_ok th \<longleftrightarrow> (\<forall>arr \<in> {active_prefix th, inactive_prefix th, active_suffix th}. length arr = 16 \<and> NUL \<in> set arr)"

lemma c_text_short: "length arr = 16 \<Longrightarrow> NUL \<in> set arr \<Longrightarrow> \<exists>s. c_text arr = Some s \<and> length s \<le> 16"
  using length_takeWhile_le [of "\<lambda>c. c \<noteq> NUL" arr] by (auto simp: c_text_def)

lemma menu_line_short:
  assumes "theme_ok th" "length (items st ! nat i) \<le> 40"
  shows "\<exists>s. menu_line th ansi st i = Some s \<and> length s \<le> 90"
proof -
  have short: "\<exists>s. c_text arr = Some s \<and> length s \<le> 16" if "arr \<in> {active_prefix th, inactive_prefix th, active_suffix th}" for arr
    using assms(1) that by (intro c_text_short) (auto simp: theme_ok_def)
  obtain a b c where "c_text (active_prefix th) = Some a" "c_text (inactive_prefix th) = Some b" "c_text (active_suffix th) = Some c"
    "length a \<le> 16" "length b \<le> 16" "length c \<le> 16"
    using short [of "active_prefix th"] short [of "inactive_prefix th"] short [of "active_suffix th"] by blast
  then show ?thesis using assms(2) by (auto simp: menu_line_def join3_def Let_def)
qed

lemma bbs_screen:
  assumes "theme_ok th" "bbs_state m"
  shows "\<exists>t. rmr_bbs_render_menu m th ansi 1024 = Some t \<and> length t < 1024"
proof -
  have m: "items m = bbs_items" "item_count m = 3" "page_size m = 2" "top_index m = 0 \<or> top_index m = 1"
    using assms(2) by (auto simp: bbs_state_def menu_ok_def)
  have short: "\<exists>s. menu_line th ansi m i = Some s \<and> length s \<le> 90" if "i \<in> {0, 1, 2}" for i
    by (rule menu_line_short [OF assms(1)]) (use that in \<open>auto simp: m(1) bbs_items_def\<close>)
  have n: "nat ((if top_index m + page_size m > item_count m then item_count m else top_index m + page_size m) - top_index m) = 2"
    using m by auto
  obtain s1 s2 where s: "menu_line th ansi m (top_index m) = Some s1" "menu_line th ansi m (top_index m + 1) = Some s2"
    "length s1 \<le> 90" "length s2 \<le> 90"
    using short [of "top_index m"] short [of "top_index m + 1"] m(4) by auto
  have q: "\<bar>x sdiv 2 + 1\<bar> \<le> 2 ^ 62" "\<bar>4 sdiv 2 :: int\<bar> \<le> 2 ^ 62" if "x \<in> {0, 1}" for x :: int
    using that by (auto simp: signed_divide_int_def)
  have "length (lld_text (top_index m sdiv 2 + 1)) \<le> 20" "length (lld_text (4 sdiv 2)) \<le> 20"
    using q [of "top_index m"] m(4) by (auto intro!: lld_text_length)
  then show ?thesis
    using s unfolding rmr_bbs_render_menu_def Let_def n by (simp add: numeral_2_eq_2 add_piece_def m(2,3))
qed

text \<open>
  C40. Whatever a user types, a session of the menu ends with the input at the latest, with code 0 or 1; on
  the way every screen shows the selected item, which is one of the menu's, inside the page; and with any theme
  whose strings are terminated the screen fits its buffer of 1024 characters whole.
\<close>

theorem bbs_session:
  assumes "run_bbs_mode inp = (r, shown)" "theme_ok th"
  shows "r \<in> {0, 1} \<and> (\<forall>m \<in> set shown. menu_ok m \<and> item_count m = 3 \<and>
    (\<exists>t. rmr_bbs_render_menu m th ansi 1024 = Some t \<and> length t < 1024))"
  using bbs_loop_shows [OF bbs_state_init assms(1) [unfolded run_bbs_mode_def]] bbs_screen [OF assms(2)]
  by (auto simp: bbs_state_def)

definition plain_theme :: rmr_bbs_theme where
  "plain_theme = \<lparr>active_prefix = replicate 16 NUL, inactive_prefix = replicate 16 NUL, active_suffix = replicate 16 NUL\<rparr>"

theorem bbs_session_witness:
  "fst (run_bbs_mode (''s'' @ [LF] @ ''s'' @ [LF, LF])) \<in> {0, 1} \<and>
   list_all menu_ok (snd (run_bbs_mode (''s'' @ [LF] @ ''s'' @ [LF, LF])))"
proof -
  obtain r shown where run: "run_bbs_mode (''s'' @ [LF] @ ''s'' @ [LF, LF]) = (r, shown)"
    by (cases "run_bbs_mode (''s'' @ [LF] @ ''s'' @ [LF, LF])")
  have "theme_ok plain_theme" by (simp add: theme_ok_def plain_theme_def)
  from bbs_session [OF run this] show ?thesis unfolding run by (simp add: list_all_iff)
qed

text \<open>The escape key followed by the line feed that a terminal in line mode adds does not leave the menu.\<close>

lemma bbs_escape_ignored: "bbs_key [ESC, LF] = Key_none"
  by (simp add: bbs_key_def rmr_bbs_decode_input_def c_str_def ESC_def LF_def NUL_def)

text \<open>A theme value of 15 characters or more leaves its array without a terminator unless the last byte was null by chance.\<close>

lemma theme_value_unterminated:
  assumes "length arr = 16" "last arr \<noteq> NUL" "length v = 15" "NUL \<notin> set v"
  shows "c_text (strncpy15 arr v) = None"
proof -
  have "drop 15 arr = [last arr]" using assms(1) by (cases arr rule: rev_cases) auto
  then show ?thesis using assms by (auto simp: c_text_def strncpy15_def)
qed

end
