(* ===== verification/Sign.thy ===== *)
theory Sign
  imports Scan_Correct
begin

text \<open>
  The signature of a scan, \<open>rmr/core/sign.c\<close>: it binds the root that \<open>Scan\<close> wrote to the SHA-256 digest of the
  program's own file. The environment variable, the clock and the file system are parameters.
\<close>

record tm =
  tm_year :: int
  tm_mon :: int
  tm_mday :: int
  tm_hour :: int
  tm_min :: int
  tm_sec :: int

definition epoch :: tm where
  "epoch = \<lparr>tm_year = 70, tm_mon = 0, tm_mday = 1, tm_hour = 0, tm_min = 0, tm_sec = 0\<rparr>"

definition deterministic_enabled :: "string option \<Rightarrow> bool" where
  "deterministic_enabled env = (env = Some ''1'')"

text \<open>\<open>gmtime\<close> may give no time.\<close>

definition signature_timestamp :: "string option \<Rightarrow> tm option \<Rightarrow> tm" where
  "signature_timestamp env gmtime =
    (if deterministic_enabled env then epoch else case gmtime of Some t \<Rightarrow> t | None \<Rightarrow> epoch)"

text \<open>What \<open>read_text\<close> leaves in a buffer of \<open>max\<close> bytes, up to the terminator it sets.\<close>

definition read_text :: "file_system \<Rightarrow> path \<Rightarrow> nat \<Rightarrow> bytes option" where
  "read_text fs q mx = (case contents fs q of None \<Rightarrow> None | Some (data, err) \<Rightarrow> Some (take (mx - 1) data))"

definition hex32 :: "bytes \<Rightarrow> string" where
  "hex32 inp = concat (map (\<lambda>i. [''0123456789abcdef'' ! unat (drop_bit 4 (inp ! i) AND 0xF),
     ''0123456789abcdef'' ! unat (drop_bit 0 (inp ! i) AND 0xF)]) [0..<32])"

text \<open>\<open>%0nd\<close>: zeros between the sign and the digits.\<close>

definition padded :: "nat \<Rightarrow> int \<Rightarrow> string" where
  "padded n x = (let s = lld_text \<bar>x\<bar>; sg = (if x < 0 then ''-'' else [])
     in sg @ replicate (n - length (sg @ s)) (CHR ''0'') @ s)"

definition timestamp_text :: "tm \<Rightarrow> string" where
  "timestamp_text t = padded 4 (tm_year t + 1900) @ ''-'' @ padded 2 (tm_mon t + 1) @ ''-'' @ padded 2 (tm_mday t) @ ''T'' @
     padded 2 (tm_hour t) @ '':'' @ padded 2 (tm_min t) @ '':'' @ padded 2 (tm_sec t) @ ''Z''"

text \<open>The loop over the arguments: base, scan, out and self path, or a request for help.\<close>

record sign_opts =
  sg_base :: "string option"
  sg_scan :: "string option"
  sg_out :: "string option"
  sg_self :: string

function sign_args :: "string list \<Rightarrow> sign_opts \<Rightarrow> sign_opts option" where
  "sign_args [] opts = Some opts"
| "sign_args (a # rest) opts =
    (if a = ''--base'' \<and> rest \<noteq> [] then sign_args (tl rest) (opts\<lparr>sg_base := Some (hd rest)\<rparr>)
     else if a = ''--scan'' \<and> rest \<noteq> [] then sign_args (tl rest) (opts\<lparr>sg_scan := Some (hd rest)\<rparr>)
     else if a = ''--out'' \<and> rest \<noteq> [] then sign_args (tl rest) (opts\<lparr>sg_out := Some (hd rest)\<rparr>)
     else if a = ''--self'' \<and> rest \<noteq> [] then sign_args (tl rest) (opts\<lparr>sg_self := hd rest\<rparr>)
     else if a = ''--help'' \<or> a = ''-h'' then None
     else sign_args rest opts)"
  by pat_completeness auto
termination by (relation "measure (\<lambda>(args, opts). length args)") (auto simp: less_Suc_eq_le)

record sign_env =
  env_var :: "string option"
  gm_time :: "tm option"
  out_opens :: bool

text \<open>
  The code, and the path and the text of the signature. The root is printed with \<open>%s\<close>, so up to its first null
  byte.
\<close>

definition pai_cmd_sign ::
  "pai_sha256_ctx \<Rightarrow> file_system \<Rightarrow> sign_env \<Rightarrow> string list \<Rightarrow> int \<times> (string \<times> bytes) option" where
  "pai_cmd_sign u fs env argv =
    (case sign_args (drop 2 argv) \<lparr>sg_base = None, sg_scan = None, sg_out = None, sg_self = ''./pai''\<rparr> of
       None \<Rightarrow> (0, None)
     | Some so \<Rightarrow>
         if sg_base so = None \<or> sg_scan so = None \<or> sg_out so = None then (1, None)
         else
           let scan = the (sg_scan so);
               first = read_text fs (take 511 (scan @ ''/linear_manifest_root.txt'')) 256;
               (root_name, root) =
                 (case first of Some r \<Rightarrow> (''linear_manifest_root'', Some r)
                  | None \<Rightarrow> (''merkle_root_legacy'', read_text fs (take 511 (scan @ ''/merkle_root.txt'')) 256))
           in case root of
                None \<Rightarrow> (2, None)
              | Some root \<Rightarrow>
                  (case pai_sha256_file u (contents fs (sg_self so)) of
                     None \<Rightarrow> (3, None)
                   | Some hbin \<Rightarrow>
                       let self_hex = hex32 hbin;
                           tm = signature_timestamp (env_var env) (gm_time env);
                           sigpath = take 511 (the (sg_out so) @ ''/SIGNATURE.txt'')
                       in if \<not> out_opens env then (4, None)
                          else (0, Some (sigpath,
                            text_bytes (''PAI SIGNATURE v2'' @ [CHR 0x0A] @ ''timestamp='' @ timestamp_text tm @ [CHR 0x0A] @
                              ''binary_path='' @ sg_self so @ [CHR 0x0A] @ ''binary_sha256='' @ self_hex @ [CHR 0x0A] @
                              ''scan_root_name='' @ root_name @ [CHR 0x0A] @ ''scan_root='') @
                            takeWhile (\<lambda>b. b \<noteq> 0) root))))"

section \<open>Scan, then sign\<close>

lemma nibbles: "drop_bit 4 x AND 0xF = drop_bit 4 x" "unat (drop_bit 4 x) < 16" "unat (x AND 0x0f) < 16" for x :: u8
proof -
  have "(0xF :: u8) = mask 4" by (simp add: mask_eq_exp_minus_1)
  moreover have "take_bit 4 (drop_bit 4 x) = drop_bit 4 x"
    by (intro bit_eqI) (auto simp: bit_simps dest: bit_imp_le_length)
  ultimately show "drop_bit 4 x AND 0xF = drop_bit 4 x" by (metis take_bit_eq_mask)
  have "unat x < 256" using unsigned_less [of x, where 'a = nat] by simp
  then show "unat (drop_bit 4 x) < 16" unfolding unat_drop_bit_eq by (simp add: drop_bit_eq_div del: unsigned_drop_bit_eq)
  have "x AND 0x0f \<le> 0x0f" by (rule word_and_le1)
  then show "unat (x AND 0x0f) < 16" by (simp add: word_le_nat_alt)
qed

lemma hex32_same: "hex32 d = pai_digest_hex32 d"
  by (simp add: hex32_def pai_digest_hex32_def nibbles(1))

lemma hex_no_nul: "0 \<notin> set (text_bytes (pai_digest_hex32 d))"
proof -
  have z: "\<forall>i \<in> set [0..<16]. of_char (''0123456789abcdef'' ! i) \<noteq> (0 :: u8)" by code_simp
  have "of_char (''0123456789abcdef'' ! i) \<noteq> (0 :: u8)" if "i < 16" for i
    using z that by (simp del: upt_rec_numeral)
  with nibbles(2,3) show ?thesis by (auto simp: text_bytes_def pai_digest_hex32_def)
qed

text \<open>
  C31. A signature binds what was scanned: when a scan has written its root file and the signing program finds it
  there, the signature it writes ends with the digest of exactly the lines of the walk (BLAKE3 or SHA-256, as the
  scan was asked) and carries the SHA-256 digest of the signing program's own file.
\<close>

theorem scan_then_sign:
  assumes "sane_sizes fs" "good_ctx u" "pai_scan_run fuel p u fs env (Some opt) = Some res" "manifest res = Some text"
    "length text < 2 ^ 64" "linear_root res = Some root"
    and "contents fs' (take 511 (scan @ ''/linear_manifest_root.txt'')) = Some (text_bytes root, False)"
    and "contents fs' self = Some (bin, False)" "length (sha_buf u') = 64" "out_opens senv"
  shows "\<exists>ls. scan_lines fuel p u fs opt (the (base_dir opt)) (the (base_dir opt)) 0 = Some ls \<and>
    pai_cmd_sign u' fs' senv [''pai'', ''sign'', ''--base'', b, ''--scan'', scan, ''--out'', out, ''--self'', self] =
      (0, Some (take 511 (out @ ''/SIGNATURE.txt''),
        text_bytes (''PAI SIGNATURE v2'' @ [CHR 0x0A] @
          ''timestamp='' @ timestamp_text (signature_timestamp (env_var senv) (gm_time senv)) @ [CHR 0x0A] @
          ''binary_path='' @ self @ [CHR 0x0A] @ ''binary_sha256='' @ pai_digest_hex32 (sha256_spec bin) @ [CHR 0x0A] @
          ''scan_root_name=linear_manifest_root'' @ [CHR 0x0A] @
          ''scan_root='' @ pai_digest_hex32 (digest_of (hash_algo opt) (text_bytes (concat ls))) @ [CHR 0x0A])))"
proof -
  obtain ls where ls: "scan_lines fuel p u fs opt (the (base_dir opt)) (the (base_dir opt)) 0 = Some ls"
    "root = pai_digest_hex32 (digest_of (hash_algo opt) (text_bytes (concat ls))) @ [CHR 0x0A]"
    using scan_root_result [OF assms(1-5)] assms(6) by (auto simp: Let_def split: if_splits)
  let ?h = "pai_digest_hex32 (digest_of (hash_algo opt) (text_bytes (concat ls)))"
  have len: "length (text_bytes root) \<le> 255" by (simp add: ls(2) text_bytes_def)
  have "0 \<notin> set (text_bytes root)" using hex_no_nul [of "digest_of (hash_algo opt) (text_bytes (concat ls))"]
    by (auto simp: ls(2) text_bytes_def)
  then have tw: "takeWhile (\<lambda>x. x \<noteq> 0) (text_bytes root) = text_bytes root" by (auto simp: takeWhile_eq_all_conv)
  have rt: "read_text fs' (take 511 (scan @ ''/linear_manifest_root.txt'')) 256 = Some (text_bytes root)"
    unfolding read_text_def assms(7) using len by simp
  note sha = pai_sha256_file_result [OF assms(9), of bin False, simplified]
  have "pai_cmd_sign u' fs' senv [''pai'', ''sign'', ''--base'', b, ''--scan'', scan, ''--out'', out, ''--self'', self] =
      (0, Some (take 511 (out @ ''/SIGNATURE.txt''),
        text_bytes (''PAI SIGNATURE v2'' @ [CHR 0x0A] @
          ''timestamp='' @ timestamp_text (signature_timestamp (env_var senv) (gm_time senv)) @ [CHR 0x0A] @
          ''binary_path='' @ self @ [CHR 0x0A] @ ''binary_sha256='' @ pai_digest_hex32 (sha256_spec bin) @ [CHR 0x0A] @
          ''scan_root_name=linear_manifest_root'' @ [CHR 0x0A] @ ''scan_root='') @ text_bytes root))"
    using rt sha assms(8,10) tw by (simp add: pai_cmd_sign_def Let_def hex32_same)
  moreover have "text_bytes (x @ y) = text_bytes x @ text_bytes y" for x y by (simp add: text_bytes_def)
  ultimately show ?thesis using ls by (simp add: text_bytes_def)
qed

theorem scan_then_sign_witness:
  "\<exists>fs' path signature. pai_cmd_sign (md_sha256 demo_ctx) fs' \<lparr>env_var = Some ''1'', gm_time = None, out_opens = True\<rparr>
      [''pai'', ''sign'', ''--base'', ''b'', ''--scan'', ''o'', ''--out'', ''o'', ''--self'', ''s''] = (0, Some (path, signature))"
proof -
  obtain res tx where res: "pai_scan_run 2 demo_platform demo_ctx demo_fs demo_env (Some demo_opts0) = Some res"
    "manifest res = Some tx" "length tx < 2 ^ 64" using demo_scan_run by blast
  obtain root where root: "linear_root res = Some root"
    using scan_root_result [OF demo_sizes demo_good res] by (auto simp: Let_def demo_env_def)
  define fs' where "fs' = demo_fs\<lparr>contents := (\<lambda>q. if q = ''s'' then Some ([7], False)
    else Some (text_bytes root, False))\<rparr>"
  have c: "contents fs' (take 511 (''o'' @ ''/linear_manifest_root.txt'')) = Some (text_bytes root, False)"
    "contents fs' ''s'' = Some ([7], False)" by (simp_all add: fs'_def)
  have l: "length (sha_buf (md_sha256 demo_ctx)) = 64" by (simp add: demo_ctx_def)
  from scan_then_sign [OF demo_sizes demo_good res root c l, of "\<lparr>env_var = Some ''1'', gm_time = None, out_opens = True\<rparr>" "''b''" "''o''"]
  show ?thesis by auto
qed

end
