(* ===== verification/Cli.thy ===== *)
theory Cli
  imports Menu Sign
begin

text \<open>
  The command line of the \<open>pai\<close> program: the creation of directories in \<open>rmr/pathcutter/pathcutter.c\<close>, the report on
  bases in \<open>rmr/core/base.c\<close> and the dispatch of \<open>rmr/core/cli.c\<close> over the commands modelled in the other
  theories. Commands outside the model (\<open>geom\<close>, \<open>toroid\<close>, \<open>bench\<close>, \<open>benchdiff\<close>, \<open>validate\<close>) are functions in the
  record \<open>pai_world\<close>. \<open>None\<close> is undefined behaviour, or the walk of the scanner without enough fuel.
\<close>

section \<open>Creating directories\<close>

datatype mkdir_answer = Mkdir_done | Mkdir_exists | Mkdir_error

type_synonym 's mkdir_fn = "path \<Rightarrow> 's \<Rightarrow> mkdir_answer \<times> 's"

text \<open>The loop over \<open>tmp\<close>: at every slash, what stands before it.\<close>

fun mkdir_loop :: "'s mkdir_fn \<Rightarrow> path \<Rightarrow> string \<Rightarrow> 's \<Rightarrow> bool \<times> 's" where
  "mkdir_loop mkdir before [] s = (True, s)"
| "mkdir_loop mkdir before (c # cs) s =
    (if c = CHR ''/'' then
       (case mkdir before s of (a, s) \<Rightarrow>
          if a = Mkdir_error then (False, s) else mkdir_loop mkdir (before @ [c]) cs s)
     else mkdir_loop mkdir (before @ [c]) cs s)"

definition rmr_pc_mkdir_p :: "'s mkdir_fn \<Rightarrow> path \<Rightarrow> 's \<Rightarrow> int \<times> 's" where
  "rmr_pc_mkdir_p mkdir p s =
    (let len = length p
     in if len = 0 \<or> len \<ge> PAI_MAX_PATH then (-1, s)
        else
          let tmp = (if p ! (len - 1) = CHR ''/'' then take (len - 1) p else p);
              (ok, s) = mkdir_loop mkdir (take 1 tmp) (drop 1 tmp) s
          in if \<not> ok then (-1, s)
             else case mkdir tmp s of (a, s) \<Rightarrow> if a = Mkdir_error then (-1, s) else (0, s))"

lemma all_less_Suc_split: "(\<forall>i < Suc n. P i) \<longleftrightarrow> P 0 \<and> (\<forall>i < n. P (Suc i))"
  by (auto simp: less_Suc_eq_0_disj)

text \<open>
  What \<open>mkdir\<close> promises: nothing disappears, and without an error the path exists. The entries of the state are
  the paths that exist.
\<close>

definition directory_maker :: "'s mkdir_fn \<Rightarrow> ('s \<Rightarrow> path set) \<Rightarrow> bool" where
  "directory_maker mkdir entries \<longleftrightarrow> (\<forall>q s a s'. mkdir q s = (a, s') \<longrightarrow>
    entries s \<subseteq> entries s' \<and> (a \<noteq> Mkdir_error \<longrightarrow> q \<in> entries s'))"

lemma mkdir_grows: "directory_maker mkdir entries \<Longrightarrow> mkdir q s = (a, s') \<Longrightarrow> entries s \<subseteq> entries s'"
  and mkdir_made: "directory_maker mkdir entries \<Longrightarrow> mkdir q s = (a, s') \<Longrightarrow> a \<noteq> Mkdir_error \<Longrightarrow> q \<in> entries s'"
  unfolding directory_maker_def by blast+

lemma mkdir_loop_makes:
  assumes c: "directory_maker mkdir entries"
  shows "mkdir_loop mkdir before cs s = (True, s') \<Longrightarrow> entries s \<subseteq> entries s' \<and>
    (\<forall>i < length cs. cs ! i = CHR ''/'' \<longrightarrow> before @ take i cs \<in> entries s')"
proof (induction cs arbitrary: before s)
  case (Cons c cs)
  obtain a s1 where m: "mkdir before s = (a, s1)" by force
  show ?case
  proof (cases "c = CHR ''/''")
    case True
    then have ok: "a \<noteq> Mkdir_error" "mkdir_loop mkdir (before @ [c]) cs s1 = (True, s')"
      using Cons.prems m by (auto split: if_splits)
    note ih = Cons.IH [OF ok(2)]
    have "entries s \<subseteq> entries s'" "before \<in> entries s'" using ih mkdir_grows [OF c m] mkdir_made [OF c m ok(1)] by auto
    with ih show ?thesis by (simp add: all_less_Suc_split)
  next
    case False
    then have "mkdir_loop mkdir (before @ [c]) cs s = (True, s')" using Cons.prems by simp
    with Cons.IH [OF this] False show ?thesis by (simp add: all_less_Suc_split)
  qed
qed simp

lemma mkdir_p_makes:
  assumes c: "directory_maker mkdir entries" and r0: "rmr_pc_mkdir_p mkdir p s = (0, s')"
  shows "0 < i \<and> i < length p \<and> p ! i = CHR ''/'' \<Longrightarrow> take i p \<in> entries s'" "entries s \<subseteq> entries s'"
    "(if p ! (length p - 1) = CHR ''/'' then take (length p - 1) p else p) \<in> entries s'"
proof -
  define tmp where "tmp = (if p ! (length p - 1) = CHR ''/'' then take (length p - 1) p else p)"
  obtain ok s1 where l: "mkdir_loop mkdir (take 1 tmp) (drop 1 tmp) s = (ok, s1)" by force
  obtain a s2 where m: "mkdir tmp s1 = (a, s2)" by force
  have r: "ok" "a \<noteq> Mkdir_error" "s2 = s'" "p \<noteq> []"
    using r0 unfolding rmr_pc_mkdir_p_def Let_def tmp_def [symmetric] l prod.case m by (auto split: if_splits)
  note mkdir_made' = mkdir_made [OF c m r(2), unfolded r(3)] and mkdir_grows' = mkdir_grows [OF c m, unfolded r(3)]
  note loop = mkdir_loop_makes [OF c l [unfolded eqTrueI [OF r(1)]]]
  show "entries s \<subseteq> entries s'" using loop mkdir_grows' by blast
  show "(if p ! (length p - 1) = CHR ''/'' then take (length p - 1) p else p) \<in> entries s'"
    using mkdir_made' by (simp add: tmp_def)
  assume i: "0 < i \<and> i < length p \<and> p ! i = CHR ''/''"
  show "take i p \<in> entries s'"
  proof (cases "i < length tmp")
    case True
    have t: "tmp ! i = p ! i" "take i tmp = take i p" using True by (auto simp: tmp_def)
    obtain x xs where tc: "tmp = x # xs" using True by (cases tmp) auto
    then have "take 1 tmp @ take (i - 1) (drop 1 tmp) = take i tmp" using i by (cases i) auto
    moreover have "i - 1 < length (drop 1 tmp)" "drop 1 tmp ! (i - 1) = CHR ''/''" using True i t(1) tc by auto
    ultimately have "take i tmp \<in> entries s1" using loop by metis
    then show ?thesis using t(2) mkdir_grows' by auto
  next
    case False
    then have "p ! (length p - 1) = CHR ''/'' \<and> i = length p - 1" using i by (auto simp: tmp_def split: if_splits)
    then have "take i p = tmp" by (simp add: tmp_def)
    then show ?thesis using mkdir_made' by simp
  qed
qed

text \<open>A path that is only a slash becomes the empty path, which does not exist.\<close>

lemma mkdir_p_root:
  "mkdir [] s = (Mkdir_error, s') \<Longrightarrow> rmr_pc_mkdir_p mkdir ''/'' s = (-1, s')"
  by (simp add: rmr_pc_mkdir_p_def PAI_MAX_PATH_def Let_def)

text \<open>Directories as a set of paths, for which creating needs the parent.\<close>

definition parent_path :: "path \<Rightarrow> path" where
  "parent_path q = rev (tl (dropWhile (\<lambda>c. c \<noteq> CHR ''/'') (rev q)))"

definition tree_mkdir :: "path set mkdir_fn" where
  "tree_mkdir q D =
    (if q = [] then (Mkdir_error, D) else if q \<in> D then (Mkdir_exists, D)
     else if parent_path q = [] \<or> parent_path q \<in> D then (Mkdir_done, insert q D) else (Mkdir_error, D))"

lemma tree_mkdir_makes: "directory_maker tree_mkdir (\<lambda>D. D)"
  by (auto simp: directory_maker_def tree_mkdir_def split: if_splits)

text \<open>
  On such a tree the routine never fails, but for the path that is only a slash: it adds exactly the prefixes that
  end before a slash and the path itself, so that a second call changes nothing.
\<close>

lemma parent_path_snoc: "parent_path (q @ [c]) = (if c = CHR ''/'' then q else parent_path q)"
  by (simp add: parent_path_def)

lemma tree_mkdir_ok:
  "q \<noteq> [] \<Longrightarrow> parent_path q = [] \<or> parent_path q \<in> D \<Longrightarrow> \<exists>a. a \<noteq> Mkdir_error \<and> tree_mkdir q D = (a, insert q D)"
  by (auto simp: tree_mkdir_def insert_absorb)

definition slash_prefixes :: "string \<Rightarrow> string \<Rightarrow> path set" where
  "slash_prefixes before cs = {before @ take i cs |i. i < length cs \<and> cs ! i = CHR ''/''}"

lemma slash_prefixes_simps:
  "slash_prefixes before [] = {}"
  "slash_prefixes before (c # cs) = (if c = CHR ''/'' then {before} else {}) \<union> slash_prefixes (before @ [c]) cs"
proof -
  have "x \<in> slash_prefixes before (c # cs) \<longleftrightarrow> (c = CHR ''/'' \<and> x = before) \<or> x \<in> slash_prefixes (before @ [c]) cs" for x
    unfolding slash_prefixes_def mem_Collect_eq by (auto simp: less_Suc_eq_0_disj intro: exI [of _ "Suc _"])
  then show "slash_prefixes before (c # cs) = (if c = CHR ''/'' then {before} else {}) \<union> slash_prefixes (before @ [c]) cs"
    by auto
qed (simp add: slash_prefixes_def)

lemma mkdir_loop_tree:
  "before \<noteq> [] \<Longrightarrow> parent_path before = [] \<or> parent_path before \<in> D \<Longrightarrow>
    mkdir_loop tree_mkdir before cs D = (True, D \<union> slash_prefixes before cs) \<and>
    (parent_path (before @ cs) = [] \<or> parent_path (before @ cs) \<in> D \<union> slash_prefixes before cs)"
proof (induction cs arbitrary: before D)
  case (Cons c cs)
  show ?case
  proof (cases "c = CHR ''/''")
    case True
    obtain a where "a \<noteq> Mkdir_error" "tree_mkdir before D = (a, insert before D)" using tree_mkdir_ok [OF Cons.prems] by blast
    with Cons.IH [of "before @ [c]" "insert before D"] True show ?thesis
      by (simp add: parent_path_snoc slash_prefixes_simps Un_insert_right)
  next
    case False
    with Cons.IH [of "before @ [c]" D] Cons.prems show ?thesis by (simp add: parent_path_snoc slash_prefixes_simps)
  qed
qed (simp add: slash_prefixes_simps)

lemma mkdir_p_tree:
  assumes "p \<noteq> []" "p \<noteq> ''/''" "length p < PAI_MAX_PATH"
  defines "tmp \<equiv> (if p ! (length p - 1) = CHR ''/'' then take (length p - 1) p else p)"
  shows "rmr_pc_mkdir_p tree_mkdir p D = (0, insert tmp (D \<union> slash_prefixes (take 1 tmp) (drop 1 tmp)))"
proof -
  have "tmp \<noteq> []" using assms(1,2) by (cases p rule: rev_cases) (auto simp: tmp_def nth_append)
  then obtain c cs where t: "take 1 tmp = [c]" "drop 1 tmp = cs" "tmp = [c] @ cs" by (cases tmp) auto
  have "parent_path [c] = []" by (simp add: parent_path_def)
  with mkdir_loop_tree [of "[c]" D cs] have l: "mkdir_loop tree_mkdir [c] cs D = (True, D \<union> slash_prefixes [c] cs)"
    and "parent_path tmp = [] \<or> parent_path tmp \<in> D \<union> slash_prefixes [c] cs" by (simp_all add: t(3))
  with tree_mkdir_ok [OF \<open>tmp \<noteq> []\<close>] obtain a where
    "a \<noteq> Mkdir_error" "tree_mkdir tmp (D \<union> slash_prefixes [c] cs) = (a, insert tmp (D \<union> slash_prefixes [c] cs))" by blast
  then show ?thesis
    using assms(1,3) l unfolding rmr_pc_mkdir_p_def Let_def tmp_def [symmetric] t(1,2) by simp
qed

section \<open>The report on bases\<close>

definition trim_text :: "string \<Rightarrow> string" where
  "trim_text s =
    (let s = rev (dropWhile (\<lambda>c. c = LF \<or> c = CR \<or> c = CHR '' '' \<or> c = CHR 0x09) (rev s))
     in dropWhile (\<lambda>c. c = CHR '' '' \<or> c = CHR 0x09) s)"

text \<open>\<open>strtok_r\<close> on commas: the maximal pieces without one, none of them empty.\<close>

fun comma_tokens :: "string \<Rightarrow> string \<Rightarrow> string list" where
  "comma_tokens tok [] = (if tok = [] then [] else [tok])"
| "comma_tokens tok (c # cs) =
    (if c = CHR '','' then (if tok = [] then comma_tokens [] cs else tok # comma_tokens [] cs)
     else comma_tokens (tok @ [c]) cs)"

text \<open>\<open>atoll\<close> and \<open>atoi\<close> are undefined on numerals that do not fit.\<close>

fun read_ints :: "int \<Rightarrow> string list \<Rightarrow> int list option" where
  "read_ints big [] = Some []"
| "read_ints big (t # ts) =
    (let x = atoi (trim_text t)
     in if - big - 1 \<le> x \<and> x \<le> big then map_option ((#) x) (read_ints big ts) else None)"

definition split_csv :: "int \<Rightarrow> string option \<Rightarrow> nat \<Rightarrow> int list option" where
  "split_csv big csv cap = (case csv of None \<Rightarrow> Some []
   | Some s \<Rightarrow> if s = [] then Some [] else read_ints big (take cap (comma_tokens [] s)))"

definition split_csv_i64 :: "string option \<Rightarrow> nat \<Rightarrow> int list option" where
  "split_csv_i64 csv cap = split_csv INT64_MAX csv cap"

definition split_csv_i32 :: "string option \<Rightarrow> nat \<Rightarrow> int list option" where
  "split_csv_i32 csv cap = split_csv (2 ^ 31 - 1) csv cap"

definition value_lines :: "int \<Rightarrow> int \<Rightarrow> int \<Rightarrow> string" where
  "value_lines x pprev pnext =
    ''== value: '' @ lld_text x @ '' =='' @ [LF] @
    (if pprev < 0 then ''prev_prime=-1 (sem primo anterior representavel em int64)'' @ [LF] else ''prev_prime='' @ lld_text pprev @ [LF]) @
    (if pnext < 0 then ''next_prime=-1 (sem proximo primo representavel em int64)'' @ [LF] else ''next_prime='' @ lld_text pnext @ [LF]) @
    (if x = 12 then ''note: 12^2=144'' @ [LF] else []) @
    (if x = 42 then ''note: 42-30=12 (ciclo 4 setores)'' @ [LF] else []) @
    (if x = 30 then ''note: sin(30'' @ [CHR 0xC2, CHR 0xB0] @ '')=0.5 (triangulo)'' @ [LF] else [])"

fun base_lines :: "int \<Rightarrow> int list \<Rightarrow> string option" where
  "base_lines x [] = Some []"
| "base_lines x (b # bs) = (case fmt_base x (nat (b mod 2 ^ 32)) of None \<Rightarrow> None
   | Some l \<Rightarrow> map_option (\<lambda>r. l @ r) (base_lines x bs))"

fun report_values :: "int list \<Rightarrow> int list \<Rightarrow> string option" where
  "report_values [] bases = Some []"
| "report_values (x # xs) bases =
    (case pai_next_prime x of None \<Rightarrow> None
     | Some pnext \<Rightarrow>
         (case base_lines x bases of None \<Rightarrow> None
          | Some ls \<Rightarrow> map_option (\<lambda>r. value_lines x (pai_prev_prime x) pnext @ ls @ [LF] @ r) (report_values xs bases)))"

text \<open>
  What is written, and whether the program goes on: a directory that cannot be made ends the report silently, a
  file that cannot be opened ends the program with 1.
\<close>

record bases_env =
  bases_mkdir_ok :: bool
  bases_opens :: bool

definition write_report :: "bases_env \<Rightarrow> path \<Rightarrow> int list \<Rightarrow> int list \<Rightarrow> (bool \<times> (path \<times> string) option) option" where
  "write_report env out vals bases =
    (if \<not> bases_mkdir_ok env then Some (True, None)
     else if \<not> bases_opens env then Some (False, None)
     else map_option (\<lambda>body. (True, Some (take (PAI_MAX_PATH - 1) (out @ ''/bases.txt''),
            ''PAI :: bases report'' @ [LF] @ ''values='' @ dec_text (length vals) @ '' bases='' @ dec_text (length bases) @ [LF, LF] @ body)))
          (report_values vals bases))"

function bases_args :: "string list \<Rightarrow> string option \<times> string option \<times> string \<Rightarrow> string option \<times> string option \<times> string" where
  "bases_args [] (vs, bs, out) = (vs, bs, out)"
| "bases_args (a # rest) (vs, bs, out) =
    (if a = ''--values'' \<and> rest \<noteq> [] then bases_args (tl rest) (Some (hd rest), bs, out)
     else if a = ''--bases'' \<and> rest \<noteq> [] then bases_args (tl rest) (vs, Some (hd rest), out)
     else if a = ''--out'' \<and> rest \<noteq> [] then bases_args (tl rest) (vs, bs, hd rest)
     else bases_args rest (vs, bs, out))"
  by pat_completeness auto
termination by (relation "measure (\<lambda>(args, opts). length args)") (auto simp: less_Suc_eq_le)

definition pai_cmd_bases :: "bases_env \<Rightarrow> string list \<Rightarrow> (int \<times> (path \<times> string) option) option" where
  "pai_cmd_bases env argv =
    (let (values_csv, bases_csv, out) = bases_args (drop 2 argv) (None, None, ''out_bases'')
     in if values_csv = None \<or> bases_csv = None then Some (1, None)
        else case (split_csv_i64 values_csv 256, split_csv_i32 bases_csv 256) of
          (Some vals, Some bases) \<Rightarrow>
            if vals = [] \<or> bases = [] then Some (1, None)
            else if list_ex (\<lambda>b. b < 2) bases then Some (1, None)
            else map_option (\<lambda>(went_on, file). (if went_on then 0 else 1, file)) (write_report env out vals bases)
        | _ \<Rightarrow> None)"

text \<open>
  For values other than the least 64-bit integer and bases from 2 on nothing in the report is undefined: both
  prime searches return and every absolute value fits.
\<close>

lemma base_lines_defined: "- INT64_MAX \<le> x \<Longrightarrow> \<exists>ls. base_lines x bs = Some ls"
  by (induction bs) (auto simp: fmt_base_def abs_i64_def)

lemma report_values_defined:
  "\<forall>x \<in> set vals. - INT64_MAX \<le> x \<and> x \<le> INT64_MAX \<Longrightarrow> \<exists>body. report_values vals bases = Some body"
proof (induction vals)
  case (Cons x xs)
  then obtain ls pnext body where "base_lines x bases = Some ls" "pai_next_prime x = Some pnext" "report_values xs bases = Some body"
    using base_lines_defined [of x bases] pai_next_prime_result [of x] by auto
  then show ?case by simp
qed simp

section \<open>The commands\<close>

datatype pai_effect = No_effect | Printed string | Scanned scan_result | Signed "(string \<times> bytes) option" |
  Reported "(path \<times> string) option"

type_synonym pai_result = "(int \<times> pai_effect) option"

record pai_world =
  w_fuel :: nat
  w_platform :: platform
  w_memory :: pai_manifest_digest_ctx
  w_files :: file_system
  w_scan :: scan_env
  w_sign :: sign_env
  w_bases :: bases_env
  w_geom :: "string list \<Rightarrow> pai_result"
  w_toroid :: "string list \<Rightarrow> pai_result"
  w_bench :: "string list \<Rightarrow> pai_result"
  w_benchdiff :: "string list \<Rightarrow> pai_result"
  w_validate :: "string list \<Rightarrow> pai_result"

function hash_args :: "string list \<Rightarrow> string option \<times> string \<Rightarrow> string option \<times> string" where
  "hash_args [] (file, algo) = (file, algo)"
| "hash_args (a # rest) (file, algo) =
    (if a = ''--file'' \<and> rest \<noteq> [] then hash_args (tl rest) (Some (hd rest), algo)
     else if a = ''--algo'' \<and> rest \<noteq> [] then hash_args (tl rest) (file, hd rest)
     else hash_args rest (file, algo))"
  by pat_completeness auto
termination by (relation "measure (\<lambda>(args, opts). length args)") (auto simp: less_Suc_eq_le)

definition cmd_hash :: "pai_world \<Rightarrow> string list \<Rightarrow> pai_result" where
  "cmd_hash w argv =
    (case hash_args (drop 2 argv) (None, ''sha256'') of
       (None, algo) \<Rightarrow> Some (1, No_effect)
     | (Some file, algo) \<Rightarrow>
         let f = contents (w_files w) file
         in if algo \<noteq> ''sha256'' \<and> algo \<noteq> ''blake3'' then Some (2, No_effect)
            else case (if algo = ''sha256'' then pai_sha256_file (md_sha256 (w_memory w)) f
                       else pai_blake3_file (w_platform w) (md_blake3 (w_memory w)) f) of
                   None \<Rightarrow> Some (1, No_effect)
                 | Some hash \<Rightarrow> Some (0, Printed (pai_digest_hex32 hash @ ''  '' @ file @ [LF])))"

definition pai_routes :: "pai_world \<Rightarrow> (string \<times> (string list \<Rightarrow> pai_result)) list" where
  "pai_routes w =
    [(''hash'', cmd_hash w),
     (''scan'', \<lambda>argv. map_option (\<lambda>r. (code r, Scanned r))
        (pai_cmd_scan (w_fuel w) (w_platform w) (w_memory w) (w_files w) (w_scan w) argv)),
     (''bases'', \<lambda>argv. map_option (\<lambda>(c, r). (c, Reported r)) (pai_cmd_bases (w_bases w) argv)),
     (''geom'', w_geom w), (''toroid'', w_toroid w),
     (''sign'', \<lambda>argv. Some (map_prod id Signed (pai_cmd_sign (md_sha256 (w_memory w)) (w_files w) (w_sign w) argv))),
     (''bench'', w_bench w), (''benchdiff'', w_benchdiff w), (''validate'', w_validate w)]"

definition pai_main :: "pai_world \<Rightarrow> string list \<Rightarrow> pai_result" where
  "pai_main w argv =
    (if length argv < 2 then Some (0, No_effect)
     else if argv ! 1 = ''--help'' \<or> argv ! 1 = ''-h'' then Some (0, No_effect)
     else case map_of (pai_routes w) (argv ! 1) of
       Some fn \<Rightarrow> fn argv
     | None \<Rightarrow> Some (1, No_effect))"

definition hash_argv :: "string \<Rightarrow> string \<Rightarrow> string list" where
  "hash_argv file algo = [''rmr'', ''run'', ''--mode'', ''cli'', ''hash'', ''--file'', file, ''--algo'', algo]"

lemma hash_args_argv: "hash_args (drop 2 (drop 3 (hash_argv file algo))) (None, ''sha256'') = (Some file, algo)"
  by (simp add: hash_argv_def)

text \<open>
  C32. From the command line to the specification: \<open>rmr run --mode cli hash --file F --algo A\<close>, for a file that can
  be read, ends with 0 after printing the digest of the file's bytes, in hexadecimal, two spaces and the
  name; the digest is the specified BLAKE3 hash or SHA-256, on every platform and whatever the memory held
  before. Any other algorithm ends with 2 and a file that cannot be read with 1, without a digest.
\<close>

theorem cli_hash_end_to_end:
  assumes "good_ctx (w_memory w)" "\<forall>data. contents (w_files w) file = Some (data, False) \<longrightarrow> length data < 2 ^ 64"
  shows "pai_main w (drop 3 (hash_argv file algo)) =
      (if algo \<noteq> ''blake3'' \<and> algo \<noteq> ''sha256'' then Some (2, No_effect)
       else case contents (w_files w) file of
         Some (data, False) \<Rightarrow> Some (0, Printed (pai_digest_hex32
           (if algo = ''blake3'' then blake3_spec IV 0 data 0 32 else sha256_spec data) @ ''  '' @ file @ [LF]))
       | _ \<Rightarrow> Some (1, No_effect)) \<and>
    rmr_mode_router_main (\<lambda>args. fst (the (pai_main w args))) (hash_argv file algo) inp =
      fst (the (pai_main w (drop 3 (hash_argv file algo))))"
proof (rule conjI)
  have g: "length (sha_buf (md_sha256 (w_memory w))) = 64" "length (h_cv_stack (md_blake3 (w_memory w))) = CV_STACK_BYTES"
    using assms(1) by (simp_all add: good_ctx_def)
  have r: "pai_main w (drop 3 (hash_argv file algo)) = cmd_hash w (drop 3 (hash_argv file algo))"
    by (simp add: pai_main_def pai_routes_def hash_argv_def)
  show "pai_main w (drop 3 (hash_argv file algo)) =
      (if algo \<noteq> ''blake3'' \<and> algo \<noteq> ''sha256'' then Some (2, No_effect)
       else case contents (w_files w) file of
         Some (data, False) \<Rightarrow> Some (0, Printed (pai_digest_hex32
           (if algo = ''blake3'' then blake3_spec IV 0 data 0 32 else sha256_spec data) @ ''  '' @ file @ [LF]))
       | _ \<Rightarrow> Some (1, No_effect))"
  proof (cases "contents (w_files w) file")
    case None
    then show ?thesis unfolding r cmd_hash_def hash_args_argv by (simp add: pai_sha256_file_def pai_blake3_file_def)
  next
    case (Some f)
    obtain data err where f: "f = (data, err)" by force
    have b: "pai_blake3_file (w_platform w) (md_blake3 (w_memory w)) (Some (data, err)) = (if err then None else Some (blake3_of data))"
    proof (cases err)
      case False
      then show ?thesis using pai_blake3_file_result [OF g(2)] assms(2) Some f by simp
    qed (use read_all_pieces [of "64 * 1024" data "blake3_hasher_update (w_platform w)" "blake3_hasher_init (md_blake3 (w_memory w))" err] in \<open>auto simp: pai_blake3_file_def split: option.splits\<close>)
    show ?thesis
      using b unfolding r cmd_hash_def hash_args_argv
      by (cases err) (simp_all add: Some f pai_sha256_file_result [OF g(1)] blake3_of_def)
  qed
  show "rmr_mode_router_main (\<lambda>args. fst (the (pai_main w args))) (hash_argv file algo) inp =
      fst (the (pai_main w (drop 3 (hash_argv file algo))))"
    by (simp add: rmr_mode_router_main_def hash_argv_def)
qed

definition demo_world :: pai_world where
  "demo_world = \<lparr>w_fuel = 7, w_platform = demo_platform, w_memory = demo_ctx, w_files = demo_fs, w_scan = demo_env,
     w_sign = \<lparr>env_var = None, gm_time = None, out_opens = True\<rparr>, w_bases = \<lparr>bases_mkdir_ok = True, bases_opens = True\<rparr>,
     w_geom = (\<lambda>_. None), w_toroid = (\<lambda>_. None), w_bench = (\<lambda>_. None), w_benchdiff = (\<lambda>_. None), w_validate = (\<lambda>_. None)\<rparr>"

theorem cli_hash_end_to_end_witness:
  "pai_main demo_world (drop 3 (hash_argv ''f'' ''blake3'')) =
     Some (0, Printed (pai_digest_hex32 (blake3_spec IV 0 [1, 2, 3] 0 32) @ ''  f'' @ [LF])) \<and>
   pai_main demo_world (drop 3 (hash_argv ''f'' ''md5'')) = Some (2, No_effect)"
proof -
  have w: "w_memory demo_world = demo_ctx" "contents (w_files demo_world) q = Some ([1, 2, 3], False)" for q
    by (simp_all add: demo_world_def demo_fs_def)
  then have "good_ctx (w_memory demo_world)" "\<forall>data. contents (w_files demo_world) ''f'' = Some (data, False) \<longrightarrow> length data < 2 ^ 64"
    using demo_good by auto
  note h = cli_hash_end_to_end [OF this]
  show ?thesis using h [of "''blake3''"] h [of "''md5''"] by (simp add: w)
qed

text \<open>A report on bases that cannot make its directory ends as if it had been written.\<close>

lemma bases_mkdir_failure_unreported:
  "pai_cmd_bases \<lparr>bases_mkdir_ok = False, bases_opens = opens\<rparr>
     [''pai'', ''bases'', ''--values'', ''7'', ''--bases'', ''10''] = Some (0, None)"
  by (simp add: pai_cmd_bases_def split_csv_i64_def split_csv_i32_def split_csv_def trim_text_def atoi_def numeral_value_def
      ascii_space_def ascii_digit_def INT64_MAX_def write_report_def LF_def CR_def)

end
