(* ===== verification/Spec2Isabelle.thy ===== *)
theory Spec2Isabelle
  imports Custody_Stream Zrf1_Correct Cf140_Correct Fc16_Words Fc16_Protocol Release Topology Lowlevel Pai42 Visual_Match
    Crypto_Correct Hwif Omega_Sync Cli
begin

text \<open>
  A verification development for the C code of the repository: the implementation of BLAKE3 in
  \<open>src/c\<close>, the packet custody layer built on it, and the modules of \<open>src/rmr\<close> around them, which
  are digests, containers, evidence records, a scanner with a signature, and small freestanding programs.

  What the program does. The centre is BLAKE3. A caller initialises a \<open>blake3_hasher\<close> in one of three modes, feeds it
  input in pieces of any length and reads any part of an unbounded output. The hasher keeps a
  partial chunk (\<open>blake3_chunk_state\<close>) and a stack of chaining values of finished subtrees, hashes
  whole subtrees of its input at once (\<open>blake3_compress_subtree_wide\<close>) and merges the stack
  lazily, because the root of the tree is compressed differently from an inner node and it is not
  known until the end which node is the root. All compression goes through a dispatcher that picks
  a vector backend from build flags and \<open>cpuid\<close>. The custody layer derives fragment digests and a
  manifest root from the hasher and tracks received fragments in a bitmap. The modules under
  \<open>src/rmr\<close> use the hasher only through its interface (file digests, scanner, cryptographic
  provider) or stand alone; SHA-256 and CRC-32C exist there in several builds, which are proved to agree.

  Theories, in the order of the code:
  \<^item> \<open>Prelude\<close>: machine integers, \<open>memcpy\<close> on byte lists (\<open>buf_write\<close>, \<open>buf_read\<close>), shared lemmas and
    the collections \<open>len_simps\<close> and \<open>backend_eq\<close>.
  \<^item> \<open>Impl\<close>: \<open>blake3_impl.h\<close>, the constants, tables, bit tricks and word loads and stores.
  \<^item> \<open>Portable\<close>: \<open>blake3_portable.c\<close>, the reference for every other backend.
  \<^item> \<open>Simd\<close>, \<open>Simd_Rows\<close>, \<open>Simd_Lanes\<close>, \<open>Simd_Kernels\<close>, \<open>Simd_Many\<close>: what the vector backends share:
    the intrinsics as functions on lists of lanes, the round function on vectors, the row-wise
    compression, the shuffle networks and counter vectors, the kernels that hash several inputs in
    lanes, and the loop over groups of inputs. The files of the backends repeat this code with
    other names and widths; each of \<open>Sse2\<close>, \<open>Sse41\<close>, \<open>Avx2\<close>, \<open>Neon\<close>, \<open>Avx512\<close> instantiates it with its
    own rotations, blends, transposes and counters, and interprets the locales
    \<open>row_isa\<close>, \<open>hash_kernel\<close>, \<open>xof_kernel\<close>, \<open>compressor\<close> and \<open>many_hash\<close>, whose lemmas carry the
    equality with \<open>Portable\<close>.
  \<^item> \<open>Dispatch\<close>: \<open>blake3_dispatch.c\<close>. The record \<open>platform\<close> holds the build flags and the answers of
    \<open>cpuid\<close> and \<open>xgetbv\<close>, which are parameters of the whole model.
  \<^item> \<open>Chunk\<close>, \<open>Subtree\<close>, \<open>Hasher\<close>: \<open>blake3.c\<close>: chunk state and output node, whole subtrees, the
    incremental hasher.
  \<^item> \<open>Tree_Spec\<close>: the abstract specification, a recursive tree over the input bytes and an output
    stream, with no incremental state; \<open>Cv_Tree\<close> and \<open>Cv_Stack\<close> hold its combinatorics (a tree over
    a list of values and its layers; the stack as the binary digits of the chunk count).
  \<^item> \<open>Chunk_Correct\<close>, \<open>Subtree_Correct\<close>, \<open>Hasher_Correct\<close>: the refinement. \<open>chunk_state_of\<close> and \<open>hasher_inv\<close>
    relate a state to the bytes absorbed, every operation keeps them, and \<open>finalize_seek\<close> reads
    the specified stream. \<open>hasher_reachable\<close> is the inductive set of states a caller can reach.
    \<open>Digest_Interface\<close> is the contract of an incremental digest; the hasher interprets it and the
    custody layer uses what follows from it.
  \<^item> \<open>Custody\<close>, \<open>Custody_Correct\<close>, \<open>Custody_Stream\<close>: \<open>rafaelia_packet_custody.c\<close>: digests, their encodings,
    the receiver with its bitmap (locale \<open>bitmap\<close>) and its runs (\<open>rpc_run\<close>).
  \<^item> \<open>Sha256\<close>, \<open>Sha256_Correct\<close>: the three SHA-256 of \<open>rmr/core\<close>, \<open>crypto_freestanding140\<close> and
    \<open>freestanding_custody16\<close>; streaming equals padding the whole message, and the three agree.
  \<^item> \<open>Cf140\<close>, \<open>Cf140_Correct\<close>: \<open>rmr/crypto_freestanding140\<close>, the word operations and the supervisor, an
    automaton whose histories are characterised (no commit without an execution, bounded attempts, fail closed).
  \<^item> \<open>Crc32\<close>: the CRC routines of Custody16 and of the stability module against division by the polynomial.
  \<^item> \<open>Fc16\<close> with \<open>Fc16_Lanes\<close>, \<open>Fc16_Correct\<close>, \<open>Fc16_Words\<close>, \<open>Fc16_Seal\<close>, \<open>Fc16_Zip\<close>, \<open>Fc16_Protocol\<close>:
    \<open>rmr/freestanding_custody16\<close>, the accumulator over entries, its snapshot, sparse deltas, the seal and
    the stored ZIP; data may be cut anywhere, a seal detects every changed byte, the ZIP is a round trip, and
    the calls follow an abstract automaton whose sizes are added in 64 bits.
  \<^item> \<open>Pai42_Circle\<close>, \<open>Pai42\<close>, \<open>Reducer\<close>, \<open>Release\<close>, \<open>Topology\<close>, \<open>Lowlevel\<close>: the projection of 42 cycle counts
    (nothing wraps, and every coordinate is near the point of the circle that the tables round), the 256-byte reducer and the standalone core, the release packet, the build topology with its
    saturating counters, and the memory routines with the arena allocator.
  \<^item> \<open>Stability\<close>, \<open>Stability_Trace\<close>, \<open>Stability_Vision\<close>, \<open>Stability_Otsu\<close>: \<open>rmr/src/rmr_stability.c\<close>, event
    states, traces and image descriptors. \<open>Visual\<close>, \<open>Visual_Capsule\<close>, \<open>Visual_Match\<close>:
    \<open>rmr_visual_prototype.c\<close>, which stores, serialises and classifies such descriptors; the store refines a
    bounded map.
  \<^item> \<open>Zrf1\<close>, \<open>Zrf1_Correct\<close>: the container of \<open>zipraf_free.c\<close> and its run-length code.
  \<^item> \<open>Ata\<close>, \<open>Omega\<close>, \<open>Omega_Sync\<close>: \<open>rmr/runtime\<close>, the ATA stream with its loader, the program that
    writes the stream and the two that read it; what is written is read back, and the readers print alike.
  \<^item> \<open>Once\<close>, \<open>Hwif\<close>: \<open>rmr/hwif\<close>. \<open>Once\<close> is the initialisation by compare-and-exchange as a step relation
    over any number of threads, with the locale \<open>once_init\<close> for its agreement and progress; \<open>Hwif\<close> has the
    bootstrap, the tables of operations and the three detectors of capabilities and interprets it twice.
  \<^item> \<open>Crypto\<close>, \<open>Crypto_Correct\<close>: \<open>rmr/crypto/runtime\<close>, the provider over OpenSSL. OpenSSL is a function from
    the calls made so far to the answer, so the lemmas (no leak, no use of a released object, acceptance
    only after the final check) hold whatever it answers.
  \<^item> \<open>Integers\<close>: \<open>base_prime.c\<close>, \<open>validate_core.c\<close> and the formatter of \<open>base.c\<close> in \<open>rmr/core\<close>.
  \<^item> \<open>File_Hash\<close>, \<open>Scan\<close>, \<open>Scan_Correct\<close>, \<open>Sign\<close>: \<open>hash_*.c\<close>, \<open>scan.c\<close> and \<open>sign.c\<close> of \<open>rmr/core\<close> over a
    file system that is a parameter: the root commits to the manifest, the manifest does not depend
    on the order of directories, and a signature carries that root.
  \<^item> \<open>Menu\<close>: \<open>rmr/ui\<close>, the keys, the menu, the theme, the screen, the session loop and the mode router.
  \<^item> \<open>Cli\<close>: \<open>rmr/core/cli.c\<close>, \<open>rmr/pathcutter\<close> and the command of \<open>base.c\<close>: creating directories (contract
    \<open>directory_maker\<close>), the report on bases, the table of commands, and the hash command from its arguments down
    to the specification of the digest.
  \<^item> this theory: the three modes of the hash end to end, and what follows for a caller.

  Conventions. A pointer with a length is a list; an array the code writes into is a list that
  \<open>buf_write\<close> would lengthen if a write left it, so that "the length is unchanged" means "no write
  was out of bounds". \<open>uint8_t\<close>, \<open>uint32_t\<close> and \<open>uint64_t\<close> are words and wrap; \<open>size_t\<close> is a natural number
  where it only counts, with the bound \<open>2 ^ 64\<close> as a hypothesis. Uninitialised memory is an
  argument. A pointer the code compares with \<open>NULL\<close> is an option.

  \<open>None\<close> as the result of a function that
  returns in C stands for undefined behaviour there (an overflow of a signed type, a write past an array, a
  string without terminator). The world outside the code, namely system calls, clocks, registers, the file
  system and OpenSSL, is an argument: a function, a record of answers, or a state threaded through the calls.
  Threads interleave at the atomic operations, which are taken as sequentially consistent.

  Bounds. Inputs are shorter than \<open>2 ^ 64\<close> bytes, which the 64-bit chunk counter and byte counts
  assume; the stack then needs at most 54 entries and one more for the lazy merge, the 55 slots of
  the array. Loops are total recursions with a measure, with two exceptions: the search for the next
  prime is a partial function, proved to return on every argument, and the walk over directories takes
  fuel, because links may lead back up; with a depth limit every fuel from the limit plus two on gives the same
  result (\<open>scan_terminates\<close>).

  Not modelled: the TBB path (the same two calls on disjoint halves, run as tasks), the MSVC
  intrinsics of the bit helpers, the assembly files and the Rust crates (other implementations of
  the same functions, or parameters here), \<open>blake3_version\<close> (a constant), alignment and aliasing of caller
  buffers; under \<open>src/rmr\<close> the geometry, the toroid, the harmonic points and the numeric
  validation, which are arithmetic of doubles that no theory imported here states; the benchmarks and
  their comparison; the system adapter of Custody16; the JNI bridges; and tests, probes and tools.
\<close>

section \<open>The three modes of the hash\<close>

text \<open>
  C1. Plain hashing: initialise (over any old memory), update with the input in any pieces, and
  read any window of the output. The result is the specified hash of the concatenated input,
  with the fixed initial words as key and no domain flag, on every platform.
\<close>

theorem blake3_hash_correct:
  assumes "length (h_cv_stack h) = CV_STACK_BYTES" "length (concat inputs) < 2 ^ 64" "n < 2 ^ 64"
  shows "blake3_hasher_finalize_seek p (foldl (blake3_hasher_update p) (blake3_hasher_init h) inputs) seek n =
    blake3_spec IV 0 (concat inputs) (unat seek) n"
  unfolding blake3_hasher_init_def by (rule hash_updates) (use assms in simp_all)

theorem blake3_hash_correct_witness:
  "blake3_hasher_finalize_seek demo_platform
     (foldl (blake3_hasher_update demo_platform) (blake3_hasher_init demo_hasher) [replicate 1500 1, [], [2, 3]]) 7 90 =
   blake3_spec IV 0 (concat [replicate 1500 1, [], [2, 3]]) (unat (7 :: u64)) 90"
  by (rule blake3_hash_correct) simp_all

text \<open>
  Keyed hashing: the same with the 32 bytes of the caller's key, read as little-endian words,
  and the flag of the keyed mode.
\<close>

theorem blake3_keyed_hash_correct:
  assumes "length (h_cv_stack h) = CV_STACK_BYTES" "length (concat inputs) < 2 ^ 64" "n < 2 ^ 64"
  shows "blake3_hasher_finalize_seek p (foldl (blake3_hasher_update p) (blake3_hasher_init_keyed h key) inputs) seek n =
    blake3_spec (load_key_words key) KEYED_HASH (concat inputs) (unat seek) n"
  unfolding blake3_hasher_init_keyed_def Let_def
  by (rule hash_updates) (use assms in \<open>simp_all add: len_simps\<close>)

theorem blake3_keyed_hash_correct_witness:
  "blake3_hasher_finalize_seek demo_platform
     (foldl (blake3_hasher_update demo_platform) (blake3_hasher_init_keyed demo_hasher (replicate 32 5)) [[1], [2, 3]]) 0 32 =
   blake3_spec (load_key_words (replicate 32 5)) KEYED_HASH (concat [[1], [2, 3]]) (unat (0 :: u64)) 32"
  by (rule blake3_keyed_hash_correct) simp_all

text \<open>
  C2. Key derivation: the context string, up to its terminating zero byte, is hashed in the context
  mode; its first 32 output bytes are the key of the second pass over the key material.
\<close>

theorem blake3_derive_key_correct:
  assumes "length (h_cv_stack h) = CV_STACK_BYTES" "length (h_cv_stack context_hasher) = CV_STACK_BYTES"
    "length ctx < 2 ^ 64" "length (concat inputs) < 2 ^ 64" "n < 2 ^ 64"
  shows "blake3_hasher_finalize_seek p
      (foldl (blake3_hasher_update p) (blake3_hasher_init_derive_key p h context_hasher ctx) inputs) seek n =
    (let context_key = blake3_spec IV DERIVE_KEY_CONTEXT (takeWhile (\<lambda>b. b \<noteq> 0) ctx) 0 32
     in blake3_spec (load_key_words context_key) DERIVE_KEY_MATERIAL (concat inputs) (unat seek) n)"
proof -
  have "unat (of_nat n :: u64) = n" using assms(5) by (intro unat_of_nat_small) simp
  then show ?thesis
    using blake3.finalize_updates [OF init_derive_key_inv [OF assms(1-3)], of inputs p p seek "of_nat n"] assms(4)
    by (simp add: derived_key_def Let_def)
qed

theorem blake3_derive_key_correct_witness:
  "blake3_hasher_finalize_seek demo_platform
      (foldl (blake3_hasher_update demo_platform)
        (blake3_hasher_init_derive_key demo_platform demo_hasher demo_hasher [65, 66, 0, 67]) [[1], [2, 3]]) 0 32 =
    (let context_key = blake3_spec IV DERIVE_KEY_CONTEXT (takeWhile (\<lambda>b. b \<noteq> 0) [65, 66, 0, 67]) 0 32
     in blake3_spec (load_key_words context_key) DERIVE_KEY_MATERIAL (concat [[1], [2, 3]]) (unat (0 :: u64)) 32)"
  by (rule blake3_derive_key_correct) simp_all

section \<open>Consequences for the caller\<close>

text \<open>
  The digest depends neither on how the input is cut into updates nor on the platform that
  computes it: two hashers in one mode, fed the same bytes in different pieces on machines with
  different vector units, agree on every window of the output.
\<close>

theorem blake3_split_and_platform_independent:
  assumes "length (h_cv_stack h) = CV_STACK_BYTES" "length (h_cv_stack h') = CV_STACK_BYTES" "length key = 8"
    "concat inputs = concat inputs'" "length (concat inputs) < 2 ^ 64" "n < 2 ^ 64"
  shows "blake3_hasher_finalize_seek p (foldl (blake3_hasher_update p) (hasher_init_base h key flags) inputs) seek n =
    blake3_hasher_finalize_seek p' (foldl (blake3_hasher_update p') (hasher_init_base h' key flags) inputs') seek n"
  using hash_updates [of key h inputs n p flags seek] hash_updates [of key h' inputs' n p' flags seek] assms by simp

theorem blake3_split_and_platform_independent_witness:
  "blake3_hasher_finalize_seek demo_platform (foldl (blake3_hasher_update demo_platform)
      (hasher_init_base demo_hasher IV 0) [replicate 3000 1]) 5 100 =
   blake3_hasher_finalize_seek (demo_platform\<lparr>is_x86 := False, use_neon := True\<rparr>)
     (foldl (blake3_hasher_update (demo_platform\<lparr>is_x86 := False, use_neon := True\<rparr>))
       (hasher_init_base demo_hasher IV 0) [replicate 1024 1, [], replicate 1976 1]) 5 100"
proof (rule blake3_split_and_platform_independent)
  show "concat [replicate 3000 1] = concat [replicate 1024 1, [], replicate 1976 (1 :: u8)]"
    by (simp add: replicate_add [symmetric])
qed simp_all

text \<open>
  \<open>blake3_hasher_reset\<close> brings any reachable hasher back to the start of its own mode: what it
  absorbed before no longer matters.
\<close>

theorem blake3_reset_correct:
  assumes "hasher_reachable p key flags s h" "length (concat inputs) < 2 ^ 64" "n < 2 ^ 64"
  shows "blake3_hasher_finalize_seek p (foldl (blake3_hasher_update p) (blake3_hasher_reset h) inputs) seek n =
    blake3_spec key flags (concat inputs) (unat seek) n"
proof -
  have "unat (of_nat n :: u64) = n" using assms(3) by (intro unat_of_nat_small) simp
  then show ?thesis
    using blake3.finalize_updates [OF hasher_reset_inv [OF reachable_inv [OF assms(1)]], of inputs p seek "of_nat n"]
      assms(2) by simp
qed

theorem blake3_reset_correct_witness:
  "blake3_hasher_finalize_seek demo_platform
     (foldl (blake3_hasher_update demo_platform) (blake3_hasher_reset demo_absorbed) [[1], [2, 3]]) 0 32 =
   blake3_spec IV 0 (concat [[1], [2, 3]]) (unat (0 :: u64)) 32"
  by (rule blake3_reset_correct [OF demo_reachable]) simp_all

text \<open>
  The extendable output is one stream: reading \<open>m\<close> bytes at a position and then \<open>n\<close> bytes where
  the first read ended gives the \<open>m + n\<close> bytes of a single read, also across block boundaries.
\<close>

theorem blake3_seek_continues:
  assumes "hasher_reachable p key flags s h" "unat seek + m + n < 2 ^ 64"
  shows "blake3_hasher_finalize_seek p h seek m @ blake3_hasher_finalize_seek p h (seek + of_nat m) n =
    blake3_hasher_finalize_seek p h seek (m + n)"
proof -
  note fin = finalize_seek_inv [OF reachable_inv [OF assms(1)]]
  have "unat (seek + of_nat m) = unat seek + m"
    using assms(2) by (simp add: unat_word_ariths unat_of_nat take_bit_nat_eq_self)
  then show ?thesis
    using assms(2) by (simp add: fin blake3_spec_def spec_root_bytes_append add.assoc)
qed

theorem blake3_seek_continues_witness:
  "blake3_hasher_finalize_seek demo_platform demo_absorbed 60 10 @
     blake3_hasher_finalize_seek demo_platform demo_absorbed (60 + of_nat 10) 100 =
   blake3_hasher_finalize_seek demo_platform demo_absorbed 60 (10 + 100)"
  by (rule blake3_seek_continues [OF demo_reachable]) simp

end
